(* ===== verification/Leap_Prelude.thy ===== *)
theory Leap_Prelude
  imports Main "HOL-Library.Word"
begin

text \<open>
  What every component of the development shares: the machine integer types, the
  collections the component proofs draw on, first-match search over an array, C strings
  (blanks, lower case, stripping, the decimal text that \<^verbatim>\<open>%d\<close> prints and scans), and
  programs that may stop early with an error while keeping what they did to the world.
\<close>

unbundle bit_operations_syntax

type_synonym u8 = "8 word"
type_synonym u16 = "16 word"
type_synonym u32 = "32 word"
type_synonym u64 = "64 word"

named_theorems frame \<open>what an operation leaves unchanged\<close>
named_theorems prog \<open>running programs that may stop with an error\<close>

section \<open>First match in an array\<close>

fun first_index :: "('a \<Rightarrow> bool) \<Rightarrow> 'a list \<Rightarrow> nat option" where
  "first_index P [] = None"
| "first_index P (x # xs) = (if P x then Some 0 else map_option Suc (first_index P xs))"

lemma first_index_None: "first_index P xs = None \<longleftrightarrow> (\<forall>x \<in> set xs. \<not> P x)"
  by (induction xs) auto

lemma first_index_Some:
  "first_index P xs = Some i \<longleftrightarrow> i < length xs \<and> P (xs ! i) \<and> (\<forall>j < i. \<not> P (xs ! j))"
proof (induction xs arbitrary: i)
  case (Cons x xs)
  show ?case by (cases i) (auto simp: Cons.IH less_Suc_eq_0_disj)
qed simp

lemma first_index_less: "first_index P xs = Some i \<Longrightarrow> i < length xs"
  by (simp add: first_index_Some)

lemma first_index_holds: "first_index P xs = Some i \<Longrightarrow> P (xs ! i)"
  by (simp add: first_index_Some)

lemma first_index_append:
  "first_index P (xs @ ys) =
     (case first_index P xs of Some i \<Rightarrow> Some i
      | None \<Rightarrow> map_option ((+) (length xs)) (first_index P ys))"
  by (induction xs) (auto split: option.splits simp: option.map_comp comp_def map_option_case)

lemma first_index_cong:
  "(\<And>x. x \<in> set xs \<Longrightarrow> P x = Q x) \<Longrightarrow> first_index P xs = first_index Q xs"
  by (induction xs) auto

lemma first_index_unique:
  assumes "i < length xs" "P (xs ! i)" "\<And>j. j < length xs \<Longrightarrow> P (xs ! j) \<Longrightarrow> j = i"
  shows "first_index P xs = Some i"
proof -
  have "\<not> P (xs ! j)" if "j < i" for j
    using assms(1) assms(3) [of j] that by auto
  with assms(1,2) show ?thesis by (simp add: first_index_Some)
qed

lemma first_index_upt:
  assumes "length xs = n" "\<And>i. i < n \<Longrightarrow> P i = Q (xs ! i)"
  shows "first_index P [0..<n] = first_index Q xs"
proof (cases "first_index Q xs")
  case None
  then have "\<forall>i < n. \<not> P i" using assms by (auto simp: first_index_None)
  then have "first_index P [0..<n] = None" by (simp add: first_index_None)
  with None show ?thesis by simp
next
  case (Some i)
  then have "i < n" "P i" "\<forall>j < i. \<not> P j" using assms by (auto simp: first_index_Some)
  then have "first_index P [0..<n] = Some i" by (simp add: first_index_Some)
  with Some show ?thesis by simp
qed

text \<open>Storing one entry changes a count by that entry alone.\<close>

lemma filter_update_gain:
  "i < length xs \<Longrightarrow> \<not> P (xs ! i) \<Longrightarrow> P x \<Longrightarrow>
     length (filter P (xs[i := x])) = Suc (length (filter P xs))"
  by (subst (2) id_take_nth_drop [of i xs]) (simp_all add: upd_conv_take_nth_drop)

lemma filter_update_lose:
  "i < length xs \<Longrightarrow> P (xs ! i) \<Longrightarrow> \<not> P x \<Longrightarrow>
     Suc (length (filter P (xs[i := x]))) = length (filter P xs)"
  by (subst (2) id_take_nth_drop [of i xs]) (simp_all add: upd_conv_take_nth_drop)

section \<open>C strings\<close>

text \<open>
  A C string is the list of its characters before the terminating NUL. The character
  classes are those of the C locale.
\<close>

definition NUL :: char where "NUL = CHR 0x00"

text \<open>The C string at the start of a character array.\<close>

definition cstr :: "string \<Rightarrow> string" where
  "cstr buf = takeWhile (\<lambda>c. c \<noteq> NUL) buf"

lemma cstr_length: "length (cstr buf) \<le> length buf"
  by (simp add: cstr_def length_takeWhile_le)

lemma cstr_id: "NUL \<notin> set s \<Longrightarrow> cstr s = s"
  by (simp add: cstr_def takeWhile_eq_all_conv) metis

definition isspace :: "char \<Rightarrow> bool" where
  "isspace c \<longleftrightarrow> c = CHR '' '' \<or> c = CHR 0x09 \<or> c = CHR 0x0A \<or> c = CHR 0x0B
     \<or> c = CHR 0x0C \<or> c = CHR 0x0D"

definition isdigit :: "char \<Rightarrow> bool" where
  "isdigit c \<longleftrightarrow> 48 \<le> (of_char c :: nat) \<and> (of_char c :: nat) \<le> 57"

definition tolower :: "char \<Rightarrow> char" where
  "tolower c = (if 65 \<le> (of_char c :: nat) \<and> (of_char c :: nat) \<le> 90
                then char_of (of_char c + 32 :: nat) else c)"

lemma tolower_idem [simp]: "tolower (tolower c) = tolower c"
  by (auto simp: tolower_def)

lemma isspace_not_digit: "isspace c \<Longrightarrow> \<not> isdigit c"
  by (auto simp: isspace_def isdigit_def)

text \<open>Blanks removed at the front, at the back, and on both sides.\<close>

definition lstrip :: "string \<Rightarrow> string" where
  "lstrip s = dropWhile isspace s"

definition rstrip :: "string \<Rightarrow> string" where
  "rstrip s = rev (dropWhile isspace (rev s))"

lemma lstrip_length: "length (lstrip s) \<le> length s"
  by (simp add: lstrip_def length_dropWhile_le)

lemma rstrip_length: "length (rstrip s) \<le> length s"
  using length_dropWhile_le [of isspace "rev s"] by (simp add: rstrip_def)

lemma lstrip_hd: "lstrip s \<noteq> [] \<Longrightarrow> \<not> isspace (hd (lstrip s))"
  by (simp add: lstrip_def hd_dropWhile)

lemma rstrip_last: "rstrip s \<noteq> [] \<Longrightarrow> \<not> isspace (last (rstrip s))"
  by (simp add: rstrip_def last_rev hd_dropWhile)

lemma lstrip_id: "s = [] \<or> \<not> isspace (hd s) \<Longrightarrow> lstrip s = s"
  by (cases s) (auto simp: lstrip_def)

lemma rstrip_id: "s = [] \<or> \<not> isspace (last s) \<Longrightarrow> rstrip s = s"
  by (cases s rule: rev_cases) (auto simp: rstrip_def)

lemma rstrip_lstrip_hd:
  assumes "s \<noteq> []" "\<not> isspace (hd s)"
  shows "rstrip s \<noteq> [] \<and> hd (rstrip s) = hd s"
proof -
  obtain c t where s: "s = c # t" using assms(1) by (cases s) auto
  have "\<not> isspace c" using assms(2) s by simp
  then have "dropWhile isspace (rev s) = dropWhile isspace (rev t) @ [c]"
    by (auto simp: s dropWhile_append dropWhile_eq_Nil_conv)
  then show ?thesis by (simp add: rstrip_def s)
qed

lemma rstrip_blanks: "\<forall>c \<in> set b. isspace c \<Longrightarrow> rstrip (s @ b) = rstrip s"
  by (simp add: rstrip_def dropWhile_append)

lemma rstrip_prefix: "\<exists>b. s = rstrip s @ b"
proof -
  have "rev s = takeWhile isspace (rev s) @ dropWhile isspace (rev s)" by simp
  then have "s = rstrip s @ rev (takeWhile isspace (rev s))"
    by (metis rstrip_def rev_append rev_rev_ident)
  then show ?thesis by blast
qed

lemma rstrip_shorter:
  assumes "s \<noteq> []" "isspace (last s)"
  shows "length (rstrip s) < length s"
proof -
  obtain t c where s: "s = t @ [c]" using assms(1) by (cases s rule: rev_cases) auto
  then have "rstrip s = rstrip t" using assms(2) by (simp add: rstrip_blanks)
  then show ?thesis using rstrip_length [of t] s by simp
qed

lemma takeWhile_all_append:
  "\<forall>c \<in> set s. P c \<Longrightarrow> takeWhile P (s @ t) = s @ takeWhile P t"
  "\<forall>c \<in> set s. P c \<Longrightarrow> dropWhile P (s @ t) = dropWhile P t"
  by (simp_all add: takeWhile_append dropWhile_append)

section \<open>Decimal text\<close>

text \<open>\<^verbatim>\<open>%d\<close> and \<^verbatim>\<open>%u\<close> print a number as its decimal digits.\<close>

fun show_nat :: "nat \<Rightarrow> string" where
  "show_nat n = (if n < 10 then [char_of (48 + n)]
                 else show_nat (n div 10) @ [char_of (48 + n mod 10)])"

declare show_nat.simps [simp del]

definition show_int :: "int \<Rightarrow> string" where
  "show_int i = (if i < 0 then CHR ''-'' # show_nat (nat (- i)) else show_nat (nat i))"

definition digit_val :: "char \<Rightarrow> nat" where
  "digit_val c = of_char c - 48"

definition digits_val :: "string \<Rightarrow> nat" where
  "digits_val ds = foldl (\<lambda>acc c. acc * 10 + digit_val c) 0 ds"

text \<open>
  \<^verbatim>\<open>scanf\<close> with \<^verbatim>\<open>%d\<close>: leading blanks are skipped, an optional sign, then at
  least one digit; the value and the input that is left, or no conversion.
\<close>

definition scan_int :: "string \<Rightarrow> (int \<times> string) option" where
  "scan_int s =
     (let t = lstrip s;
          (neg, u) = (case t of [] \<Rightarrow> (False, t)
                      | c # r \<Rightarrow> if c = CHR ''-'' then (True, r)
                                else if c = CHR ''+'' then (False, r) else (False, t));
          ds = takeWhile isdigit u
      in if ds = [] then None
         else Some (if neg then - int (digits_val ds) else int (digits_val ds),
                    dropWhile isdigit u))"

lemma isdigit_digit: "d < 10 \<Longrightarrow> isdigit (char_of (48 + d :: nat))"
  by (simp add: isdigit_def)

lemma digit_val_digit: "d < 10 \<Longrightarrow> digit_val (char_of (48 + d)) = d"
  by (simp add: digit_val_def)

lemma show_nat_digits: "\<forall>c \<in> set (show_nat n). isdigit c"
proof (induction n rule: show_nat.induct)
  case (1 n)
  show ?case
  proof (cases "n < 10")
    case True
    then show ?thesis by (subst show_nat.simps) (simp add: isdigit_digit)
  next
    case False
    with 1 show ?thesis
      by (subst show_nat.simps) (auto simp: isdigit_digit)
  qed
qed

lemma show_nat_nonempty [simp]: "show_nat n \<noteq> []"
  by (subst show_nat.simps) simp

lemma digits_val_show_nat: "digits_val (show_nat n) = n"
proof (induction n rule: show_nat.induct)
  case (1 n)
  show ?case
  proof (cases "n < 10")
    case True
    then show ?thesis
      by (subst show_nat.simps) (simp add: digits_val_def digit_val_digit)
  next
    case False
    with 1 have "digits_val (show_nat (n div 10)) = n div 10" by simp
    then have "digits_val (show_nat n) = n div 10 * 10 + digit_val (char_of (48 + n mod 10))"
      using False by (subst show_nat.simps) (simp add: digits_val_def)
    also have "digit_val (char_of (48 + n mod 10)) = n mod 10"
      by (rule digit_val_digit) simp
    finally show ?thesis by simp
  qed
qed

lemma show_nat_hd: "\<exists>c r. show_nat n = c # r \<and> isdigit c"
  using show_nat_digits [of n] show_nat_nonempty [of n]
  by (cases "show_nat n") auto

lemma isdigit_not_sign: "isdigit c \<Longrightarrow> c \<noteq> CHR ''-'' \<and> c \<noteq> CHR ''+'' \<and> \<not> isspace c"
  by (auto simp: isdigit_def isspace_def)

lemma takeWhile_digits:
  assumes "\<forall>c \<in> set ds. isdigit c" "rest = [] \<or> \<not> isdigit (hd rest)"
  shows "takeWhile isdigit (ds @ rest) = ds \<and> dropWhile isdigit (ds @ rest) = rest"
proof -
  have "takeWhile isdigit rest = []" "dropWhile isdigit rest = rest"
    using assms(2) by (cases rest; auto)+
  with assms(1) show ?thesis by (simp add: takeWhile_append dropWhile_append)
qed

text \<open>Scanning printed decimal text gives the number back and stops right behind it.\<close>

lemma scan_show_int:
  assumes "rest = [] \<or> \<not> isdigit (hd rest)" "\<forall>c \<in> set pre. isspace c"
  shows "scan_int (pre @ show_int i @ rest) = Some (i, rest)"
proof (cases "i < 0")
  case True
  let ?n = "show_nat (nat (- i))"
  have "lstrip (pre @ show_int i @ rest) = CHR ''-'' # ?n @ rest"
    using assms(2) True by (simp add: lstrip_def show_int_def dropWhile_append isspace_def)
  moreover have "takeWhile isdigit (?n @ rest) = ?n \<and> dropWhile isdigit (?n @ rest) = rest"
    by (rule takeWhile_digits) (use assms show_nat_digits in auto)
  ultimately show ?thesis
    using True by (simp add: scan_int_def digits_val_show_nat)
next
  case False
  let ?n = "show_nat (nat i)"
  obtain c r where cr: "?n = c # r" "isdigit c" using show_nat_hd by blast
  then have sp: "c \<noteq> CHR ''-'' \<and> c \<noteq> CHR ''+'' \<and> \<not> isspace c"
    by (blast dest: isdigit_not_sign)
  have "lstrip (pre @ show_int i @ rest) = ?n @ rest"
    using assms(2) False sp cr by (simp add: lstrip_def show_int_def dropWhile_append)
  moreover have "takeWhile isdigit (?n @ rest) = ?n \<and> dropWhile isdigit (?n @ rest) = rest"
    by (rule takeWhile_digits) (use assms show_nat_digits in auto)
  ultimately show ?thesis
    using False sp cr digits_val_show_nat [of "nat i"] by (simp add: scan_int_def)
qed

section \<open>Programs that may stop early\<close>

text \<open>
  A C program step reads and changes the world and either goes on with a value or stops
  with an error (an exit, a panic, an error return); what was done to the world before
  stays done.
\<close>

type_synonym ('w, 'e, 'a) prog = "'w \<Rightarrow> ('e + 'a) \<times> 'w"

definition ret :: "'a \<Rightarrow> ('w, 'e, 'a) prog" where
  "ret x = (\<lambda>w. (Inr x, w))"

definition raise :: "'e \<Rightarrow> ('w, 'e, 'a) prog" where
  "raise e = (\<lambda>w. (Inl e, w))"

definition bind :: "('w, 'e, 'a) prog \<Rightarrow> ('a \<Rightarrow> ('w, 'e, 'b) prog) \<Rightarrow> ('w, 'e, 'b) prog" where
  "bind p f = (\<lambda>w. case p w of (Inl e, w') \<Rightarrow> (Inl e, w') | (Inr x, w') \<Rightarrow> f x w')"

definition andThen :: "('w, 'e, 'a) prog \<Rightarrow> ('w, 'e, 'b) prog \<Rightarrow> ('w, 'e, 'b) prog" where
  "andThen p q = bind p (\<lambda>_. q)"

definition modify :: "('w \<Rightarrow> 'w) \<Rightarrow> ('w, 'e, unit) prog" where
  "modify f = (\<lambda>w. (Inr (), f w))"

lemma ret_run [prog, simp]: "ret x w = (Inr x, w)"
  by (simp add: ret_def)

lemma raise_run [prog, simp]: "raise e w = (Inl e, w)"
  by (simp add: raise_def)

lemma modify_run [prog, simp]: "modify f w = (Inr (), f w)"
  by (simp add: modify_def)

lemma bind_Inl [prog]: "p w = (Inl e, w') \<Longrightarrow> bind p f w = (Inl e, w')"
  by (simp add: bind_def)

lemma bind_Inr [prog]: "p w = (Inr x, w') \<Longrightarrow> bind p f w = f x w'"
  by (simp add: bind_def)

lemma andThen_Inl [prog]: "p w = (Inl e, w') \<Longrightarrow> andThen p q w = (Inl e, w')"
  by (simp add: andThen_def bind_Inl)

lemma andThen_Inr [prog]: "p w = (Inr x, w') \<Longrightarrow> andThen p q w = q w'"
  by (simp add: andThen_def bind_Inr)

text \<open>A relation between start and end that every part keeps is kept by the whole.\<close>

lemma bind_rel:
  assumes "R w (snd (p w))"
    and "\<And>x w'. p w = (Inr x, w') \<Longrightarrow> R w w' \<Longrightarrow> R w (snd (f x w'))"
  shows "R w (snd (bind p f w))"
  using assms by (cases "p w"; cases "fst (p w)") (auto simp: bind_def)

lemma bind_Inr_cases:
  assumes "bind p f w = (Inr y, w2)"
  obtains x w1 where "p w = (Inr x, w1)" "f x w1 = (Inr y, w2)"
  using assms by (auto simp: bind_def split: prod.splits sum.splits)

lemma andThen_Inr_cases:
  assumes "andThen p q w = (Inr y, w2)"
  obtains x w1 where "p w = (Inr x, w1)" "q w1 = (Inr y, w2)"
  using assms by (auto simp: andThen_def elim: bind_Inr_cases)

section \<open>Pre- and postconditions\<close>

text \<open>
  Started in \<^term>\<open>P\<close>, a program ends with a value and a state in \<^term>\<open>Q\<close> or
  stops with an error and a state in \<^term>\<open>X\<close>.
\<close>

definition hoare ::
    "('w \<Rightarrow> bool) \<Rightarrow> ('w, 'e, 'a) prog \<Rightarrow> ('a \<Rightarrow> 'w \<Rightarrow> bool) \<Rightarrow> ('e \<Rightarrow> 'w \<Rightarrow> bool) \<Rightarrow> bool" where
  "hoare P p Q X \<longleftrightarrow>
     (\<forall>w. P w \<longrightarrow> (case p w of (Inl e, w') \<Rightarrow> X e w' | (Inr x, w') \<Rightarrow> Q x w'))"

lemma hoareI:
  "(\<And>w. P w \<Longrightarrow> (case p w of (Inl e, w') \<Rightarrow> X e w' | (Inr x, w') \<Rightarrow> Q x w')) \<Longrightarrow> hoare P p Q X"
  by (simp add: hoare_def)

lemma hoare_Inl: "hoare P p Q X \<Longrightarrow> P w \<Longrightarrow> p w = (Inl e, w') \<Longrightarrow> X e w'"
  by (fastforce simp: hoare_def)

lemma hoare_Inr: "hoare P p Q X \<Longrightarrow> P w \<Longrightarrow> p w = (Inr x, w') \<Longrightarrow> Q x w'"
  by (fastforce simp: hoare_def)

lemma hoare_run:
  "hoare P p Q X \<Longrightarrow> P w \<Longrightarrow> (case p w of (Inl e, w') \<Rightarrow> X e w' | (Inr x, w') \<Rightarrow> Q x w')"
  by (simp add: hoare_def)

lemma hoare_self:
  "(\<And>w. P w \<Longrightarrow> hoare P (f w) Q X) \<Longrightarrow> hoare P (\<lambda>w. f w w) Q X"
  by (simp add: hoare_def)

lemma hoare_at: "hoare P p Q X \<longleftrightarrow> (\<forall>w. P w \<longrightarrow> hoare (\<lambda>v. v = w) p Q X)"
  by (simp add: hoare_def)

lemma hoare_ret: "(\<And>w. P w \<Longrightarrow> Q x w) \<Longrightarrow> hoare P (ret x) Q X"
  by (simp add: hoare_def)

lemma hoare_raise: "(\<And>w. P w \<Longrightarrow> X e w) \<Longrightarrow> hoare P (raise e) Q X"
  by (simp add: hoare_def)

lemma hoare_modify: "(\<And>w. P w \<Longrightarrow> Q () (f w)) \<Longrightarrow> hoare P (modify f) Q X"
  by (simp add: hoare_def)

lemma hoare_bind:
  assumes "hoare P p R X" "\<And>x. hoare (R x) (f x) Q X"
  shows "hoare P (bind p f) Q X"
proof (rule hoareI)
  fix w assume "P w"
  obtain r w1 where p: "p w = (r, w1)" by fastforce
  show "case bind p f w of (Inl e, w') \<Rightarrow> X e w' | (Inr x, w') \<Rightarrow> Q x w'"
  proof (cases r)
    case (Inl e)
    with p hoare_Inl [OF assms(1) \<open>P w\<close>] show ?thesis by (simp add: bind_def)
  next
    case (Inr x)
    with p hoare_Inr [OF assms(1) \<open>P w\<close>] have "R x w1" by simp
    with assms(2) [of x] p Inr show ?thesis by (simp add: bind_def hoare_def)
  qed
qed

lemma hoare_andThen:
  "hoare P p (\<lambda>_. R) X \<Longrightarrow> hoare R q Q X \<Longrightarrow> hoare P (andThen p q) Q X"
  unfolding andThen_def by (rule hoare_bind)

lemma hoare_conseq:
  assumes "hoare P' p Q' X'" "\<And>w. P w \<Longrightarrow> P' w" "\<And>x w. Q' x w \<Longrightarrow> Q x w"
    "\<And>e w. X' e w \<Longrightarrow> X e w"
  shows "hoare P p Q X"
  using assms unfolding hoare_def by (fastforce split: prod.splits sum.splits)

lemma hoare_pre: "hoare P' p Q X \<Longrightarrow> (\<And>w. P w \<Longrightarrow> P' w) \<Longrightarrow> hoare P p Q X"
  by (simp add: hoare_def)

lemma hoare_conj:
  "hoare P p Q X \<Longrightarrow> hoare P' p Q' X' \<Longrightarrow>
     hoare (\<lambda>w. P w \<and> P' w) p (\<lambda>x w. Q x w \<and> Q' x w) (\<lambda>e w. X e w \<and> X' e w)"
  unfolding hoare_def by (fastforce split: prod.splits sum.splits)

text \<open>A program that leaves alone what a condition looks at keeps the condition.\<close>

lemma hoare_frame:
  assumes "\<And>w. R w (snd (p w))" "\<And>w w'. R w w' \<Longrightarrow> P w \<Longrightarrow> P w'"
  shows "hoare P p (\<lambda>_. P) (\<lambda>_. P)"
  unfolding hoare_def
proof (intro allI impI)
  fix w assume "P w"
  then have "P (snd (p w))" using assms by blast
  then show "case p w of (Inl e, w') \<Rightarrow> P w' | (Inr x, w') \<Rightarrow> P w'"
    by (cases "p w"; cases "fst (p w)") auto
qed

end
