(* ===== verification/C_Library.thy ===== *)
theory C_Library
  imports Leap_Prelude
begin

text \<open>
  The functions of the C library that more than one program calls: reading a line with
  \<^verbatim>\<open>fgets\<close>, and the number scanners \<^verbatim>\<open>strtol\<close> and \<^verbatim>\<open>strtoul\<close> with 64-bit results. Hexadecimal
  text is printed here too, because the formats that are read are specified by printing them.
\<close>

section \<open>Lines\<close>

definition NL :: char where "NL = CHR 0x0A"

lemma isspace_NL: "isspace NL"
  by (simp add: isspace_def NL_def)

text \<open>
  \<^verbatim>\<open>fgets(buf, n, in)\<close>: at most \<^verbatim>\<open>n-1\<close> characters, up to and with the first
  newline; NULL at the end of the input.
\<close>

definition fgets :: "nat \<Rightarrow> string \<Rightarrow> (string \<times> string) option" where
  "fgets n s =
     (if s = [] then None
      else (let l = take (n - 1) s; b = takeWhile (\<lambda>c. c \<noteq> NL) l;
                chunk = (if length b < length l then b @ [NL] else l)
            in Some (chunk, drop (length chunk) s)))"

lemma fgets_progress:
  assumes "fgets n s = Some (c, r)" "2 \<le> n"
  shows "length r < length s \<and> length c < n \<and> c \<noteq> []"
proof -
  have s: "s \<noteq> []" using assms by (auto simp: fgets_def split: if_splits)
  let ?l = "take (n - 1) s"
  let ?b = "takeWhile (\<lambda>c. c \<noteq> NL) ?l"
  have l: "?l \<noteq> []" "length ?l \<le> n - 1" using s assms(2) by auto
  have "length ?b \<le> length ?l" by (rule length_takeWhile_le)
  moreover have c: "c = (if length ?b < length ?l then ?b @ [NL] else ?l)"
      "r = drop (length c) s"
    using assms s by (auto simp: fgets_def Let_def)
  ultimately have "c \<noteq> []" "length c \<le> length ?l" using l by auto
  then show ?thesis using c(2) s l assms(2) by (cases s) auto
qed

lemma fgets_line:
  assumes "NL \<notin> set t" "length t + 2 \<le> n"
  shows "fgets n (t @ NL # rest) = Some (t @ [NL], rest)"
proof -
  have t: "take (n - 1) (t @ NL # rest) = t @ NL # take (n - 2 - length t) rest"
    using assms(2) by (simp add: take_Cons')
  have "\<forall>c \<in> set t. c \<noteq> NL" using assms(1) by auto
  then have "takeWhile (\<lambda>c. c \<noteq> NL) (t @ NL # take (n - 2 - length t) rest) = t"
    by (simp add: takeWhile_all_append)
  with t show ?thesis by (simp add: fgets_def Let_def)
qed

lemma fgets_split: "fgets n s = Some (c, r) \<Longrightarrow> s = c @ r"
proof -
  assume f: "fgets n s = Some (c, r)"
  let ?l = "take (n - 1) s"
  let ?b = "takeWhile (\<lambda>c. c \<noteq> NL) ?l"
  have d: "c = (if length ?b < length ?l then ?b @ [NL] else ?l)" "r = drop (length c) s"
    using f by (auto simp: fgets_def Let_def split: if_splits)
  have "?b @ [NL] = take (Suc (length ?b)) ?l" if "length ?b < length ?l"
    using nth_length_takeWhile [OF that] takeWhile_eq_take [of "\<lambda>c. c \<noteq> NL" ?l]
    by (metis (no_types, lifting) take_Suc_conv_app_nth that)
  then have "c = take (length c) s"
    using d(1) by (auto simp: min_def split: if_splits)
  then show "s = c @ r" using d(2) by (metis append_take_drop_id)
qed

section \<open>Number scanners\<close>

definition alnum_val :: "char \<Rightarrow> nat" where
  "alnum_val c =
     (let n = of_char c
      in if 48 \<le> n \<and> n \<le> 57 then n - 48
         else if 97 \<le> n \<and> n \<le> 122 then n - 87
         else if 65 \<le> n \<and> n \<le> 90 then n - 55 else 36)"

definition radix_val :: "nat \<Rightarrow> string \<Rightarrow> int" where
  "radix_val b s =
     int (foldl (\<lambda>acc c. acc * b + alnum_val c) 0 (takeWhile (\<lambda>c. alnum_val c < b) s))"

definition split_sign :: "string \<Rightarrow> bool \<times> string" where
  "split_sign t =
     (case t of [] \<Rightarrow> (False, t)
      | c # r \<Rightarrow> if c = CHR ''-'' then (True, r)
                else if c = CHR ''+'' then (False, r) else (False, t))"

definition hex_prefix :: "string \<Rightarrow> bool" where
  "hex_prefix u =
     (case u of c # x # h # r \<Rightarrow>
        c = CHR ''0'' \<and> tolower x = CHR ''x'' \<and> alnum_val h < 16 | _ \<Rightarrow> False)"

definition leading_zero :: "string \<Rightarrow> bool" where
  "leading_zero u = (case u of c # _ \<Rightarrow> c = CHR ''0'' | [] \<Rightarrow> False)"

text \<open>
  The digits behind the sign: with base 0 the text chooses the base, with base 16 a leading
  \<^verbatim>\<open>0x\<close> in front of a digit is skipped.
\<close>

definition scan_digits :: "nat \<Rightarrow> string \<Rightarrow> int" where
  "scan_digits b u =
     (if (b = 0 \<or> b = 16) \<and> hex_prefix u then radix_val 16 (drop 2 u)
      else if b = 0 then (if leading_zero u then radix_val 8 u else radix_val 10 u)
      else radix_val b u)"

text \<open>
  \<^verbatim>\<open>strtol\<close> clamps to the range of \<^verbatim>\<open>long\<close>; \<^verbatim>\<open>strtoul\<close> gives the largest value when the digits
  exceed it and otherwise negates within the width.
\<close>

definition strtol :: "nat \<Rightarrow> string \<Rightarrow> int" where
  "strtol b s =
     (let (neg, u) = split_sign (lstrip s); v = scan_digits b u
      in max (- (2 ^ 63)) (min (2 ^ 63 - 1) (if neg then - v else v)))"

definition strtoul :: "nat \<Rightarrow> string \<Rightarrow> u64" where
  "strtoul b s =
     (let (neg, u) = split_sign (lstrip s); v = scan_digits b u
      in if 2 ^ 64 \<le> v then - 1 else if neg then - word_of_int v else word_of_int v)"

lemmas scan_defs = strtol_def strtoul_def split_sign_def hex_prefix_def leading_zero_def
  scan_digits_def radix_val_def alnum_val_def lstrip_def isspace_def tolower_def

section \<open>Hexadecimal text\<close>

definition hex_digit :: "nat \<Rightarrow> char" where
  "hex_digit n = (if n < 10 then char_of (48 + n) else char_of (55 + n))"

fun hex_text :: "nat \<Rightarrow> nat \<Rightarrow> string" where
  "hex_text 0 n = []"
| "hex_text (Suc k) n = hex_text k (n div 16) @ [hex_digit (n mod 16)]"

lemma hex_text_length [simp]: "length (hex_text k n) = k"
  by (induction k arbitrary: n) simp_all

lemma hex_digit_val [simp]: "n < 16 \<Longrightarrow> alnum_val (hex_digit n) = n"
  by (auto simp: hex_digit_def alnum_val_def Let_def)

definition hex_char :: "char \<Rightarrow> bool" where
  "hex_char c \<longleftrightarrow> (48 \<le> (of_char c :: nat) \<and> of_char c \<le> (57 :: nat))
     \<or> (65 \<le> (of_char c :: nat) \<and> of_char c \<le> (70 :: nat))"

lemma hex_digit_char: "n < 16 \<Longrightarrow> hex_char (hex_digit n)"
  by (auto simp: hex_digit_def hex_char_def)

lemma hex_text_chars: "\<forall>c \<in> set (hex_text k n). hex_char c"
  by (induction k arbitrary: n) (auto simp: hex_digit_char)

lemma hex_char_plain:
  assumes "hex_char c"
  shows "alnum_val c < 16 \<and> \<not> isspace c \<and> c \<noteq> CHR ''-'' \<and> c \<noteq> CHR ''+''
     \<and> c \<noteq> NL \<and> c \<noteq> NUL \<and> tolower c \<noteq> CHR ''x''"
proof -
  have "(of_char (tolower c) :: nat) \<noteq> of_char (CHR ''x'')"
    using assms by (auto simp: hex_char_def tolower_def)
  then have "tolower c \<noteq> CHR ''x''" by metis
  then show ?thesis
    using assms by (auto simp: hex_char_def alnum_val_def isspace_def NL_def NUL_def)
qed

lemma hex_text_fold:
  "n < 16 ^ k \<Longrightarrow> foldl (\<lambda>acc c. acc * 16 + alnum_val c) 0 (hex_text k n) = n"
  by (induction k arbitrary: n) auto

lemma no_hex_prefix:
  assumes "\<forall>c \<in> set t. hex_char c"
  shows "\<not> hex_prefix t"
proof
  assume "hex_prefix t"
  then obtain x where x: "x \<in> set t" "tolower x = CHR ''x''"
    unfolding hex_prefix_def by (fastforce split: list.splits)
  from x(1) assms have "hex_char x" by simp
  with x(2) show False using hex_char_plain [of x] by blast
qed

lemma hex_text_plain:
  assumes "n < 16 ^ k"
  shows "split_sign (lstrip (hex_text k n)) = (False, hex_text k n)"
    and "scan_digits 16 (hex_text k n) = int n"
proof -
  let ?t = "hex_text k n"
  have c: "\<forall>c \<in> set ?t. hex_char c" by (rule hex_text_chars)
  show "split_sign (lstrip ?t) = (False, ?t)"
    using c by (cases ?t) (auto simp: lstrip_def split_sign_def dest: hex_char_plain)
  have "takeWhile (\<lambda>c. alnum_val c < 16) ?t = ?t"
    using c hex_char_plain by (simp add: takeWhile_eq_all_conv)
  then show "scan_digits 16 ?t = int n"
    using assms no_hex_prefix [OF c] by (simp only: scan_digits_def radix_val_def) (simp add: hex_text_fold)
qed

lemma strtoul_hex_text:
  assumes "n < 16 ^ k" "n < 2 ^ 64"
  shows "strtoul 16 (hex_text k n) = of_nat n"
  using assms by (simp add: strtoul_def hex_text_plain)

lemma strtol_hex_text:
  assumes "n < 16 ^ k" "n < 2 ^ 63"
  shows "strtol 16 (hex_text k n) = int n"
  using assms by (simp add: strtol_def hex_text_plain)

section \<open>Conversions between widths\<close>

lemma ucast_up_down:
  "LENGTH('a::len) \<le> LENGTH('b::len) \<Longrightarrow> (ucast (ucast (x :: 'a word) :: 'b word) :: 'a word) = x"
  by (rule bit_word_eqI) (auto simp: bit_simps)

lemma ucast_up_through:
  "LENGTH('a::len) \<le> LENGTH('b::len) \<Longrightarrow> LENGTH('a) \<le> LENGTH('c::len) \<Longrightarrow>
     (ucast (ucast (x :: 'a word) :: 'b word) :: 'c word) = ucast x"
  by (rule bit_word_eqI) (auto simp: bit_simps dest: bit_imp_le_length)

lemma unat_ucast_up:
  assumes "LENGTH('a::len) \<le> LENGTH('b::len)"
  shows "unat (ucast (x :: 'a word) :: 'b word) = unat x"
proof -
  have "unat x < 2 ^ LENGTH('a)" by (rule unsigned_less)
  also have "(2::nat) ^ LENGTH('a) \<le> 2 ^ LENGTH('b)" using assms by (intro power_increasing) auto
  finally show ?thesis by (simp add: unsigned_ucast_eq take_bit_nat_eq_self)
qed

lemmas ucast_up = ucast_up_down ucast_up_through unat_ucast_up

end
