(* ===== verification/Dictionary.thy ===== *)
theory Dictionary
  imports Leap_Prelude
begin

text \<open>
  \<^verbatim>\<open>tools/platforms/leap-fpga-ctrl/dictionary.c\<close>: the string dictionary behind the
  configuration file. Three parallel arrays of \<^verbatim>\<open>size\<close> slots hold values, keys and key
  hashes; a slot is free when its key is NULL. Memory allocation is explicit: an operation
  takes the outcomes of the allocations to come and returns those it did not use.
\<close>

section \<open>Data\<close>

definition DICTMINSZ :: nat where "DICTMINSZ = 128"

record dictionary =
  d_n :: int
  d_size :: nat
  d_val :: "string option list"
  d_key :: "string option list"
  d_hash :: "u32 list"

text \<open>
  What a \<^verbatim>\<open>char *\<close> result of a lookup can be: NULL, the sentinel
  \<^verbatim>\<open>(char*)-1\<close>, or a string.
\<close>

datatype cptr = Null | Invalid | Str string

definition cptr_of :: "string option \<Rightarrow> cptr" where
  "cptr_of v = (case v of None \<Rightarrow> Null | Some s \<Rightarrow> Str s)"

text \<open>Outcomes of the coming allocations; when the list is used up, all succeed.\<close>

type_synonym allocator = "bool list"

fun alloc :: "allocator \<Rightarrow> bool \<times> allocator" where
  "alloc [] = (True, [])"
| "alloc (b # bs) = (b, bs)"

definition all_ok :: "allocator \<Rightarrow> bool" where
  "all_ok al \<longleftrightarrow> list_all id al"

lemma alloc_all_ok: "all_ok al \<Longrightarrow> \<exists>al'. alloc al = (True, al') \<and> all_ok al'"
  by (cases al) (auto simp: all_ok_def)

section \<open>Operations\<close>

text \<open>
  \<^verbatim>\<open>mem_double\<close>: a zeroed block of twice the size with the old contents in front,
  or NULL. A NULL array is the empty list: no slot of it may be touched. The size is an
  \<^verbatim>\<open>int\<close> number of bytes, to which the caller's \<^verbatim>\<open>size_t\<close> product is
  cut (the slots times the width of an element), and \<^verbatim>\<open>2*size\<close> may overflow:
  then the result is \<^term>\<open>None\<close>. A negative request is one of nearly
  \<^verbatim>\<open>2^64\<close> bytes, which no allocator grants.
\<close>

definition int_size :: "nat \<Rightarrow> nat \<Rightarrow> int" where
  "int_size width sz = sint (word_of_nat (sz * width) :: u32)"

definition mem_double ::
    "allocator \<Rightarrow> 'a \<Rightarrow> nat \<Rightarrow> 'a list \<Rightarrow> nat \<Rightarrow> ('a list option \<times> allocator) option" where
  "mem_double al zero width xs sz =
     (let size = int_size width sz;
          n = nat size div width
      in if 2 * size < - (2 ^ 31) \<or> 2 ^ 31 \<le> 2 * size then None
         else if size < 0 then Some (None, al)
         else let (ok, al') = alloc al
              in Some (if ok then Some (take n xs @ replicate n zero) else None, al'))"

definition xstrdup :: "allocator \<Rightarrow> string option \<Rightarrow> string option \<times> allocator" where
  "xstrdup al s =
     (case s of None \<Rightarrow> (None, al)
      | Some t \<Rightarrow> (let (ok, al') = alloc al in (if ok then Some t else None, al')))"

text \<open>The hash adds each \<^verbatim>\<open>char\<close> sign-extended to 32 bits.\<close>

definition char_unsigned :: "char \<Rightarrow> u32" where
  "char_unsigned c = signed (of_char c :: 8 word)"

fun hash_loop :: "u32 \<Rightarrow> string \<Rightarrow> u32" where
  "hash_loop h [] = h"
| "hash_loop h (c # cs) =
     (let h1 = h + char_unsigned c;
          h2 = h1 + push_bit 10 h1;
          h3 = h2 XOR drop_bit 6 h2
      in hash_loop h3 cs)"

definition dictionary_hash :: "string \<Rightarrow> u32" where
  "dictionary_hash key =
     (let h = hash_loop 0 key;
          h1 = h + push_bit 3 h;
          h2 = h1 XOR drop_bit 11 h1
      in h2 + push_bit 15 h2)"

text \<open>
  \<^verbatim>\<open>dictionary_new\<close>: only the first allocation is checked; an array whose
  allocation fails is NULL.
\<close>

definition dictionary_new :: "allocator \<Rightarrow> int \<Rightarrow> dictionary option \<times> allocator" where
  "dictionary_new al want =
     (let sz = (if want < int DICTMINSZ then DICTMINSZ else nat want);
          (ok, al1) = alloc al
      in if \<not> ok then (None, al1)
         else (let (okv, al2) = alloc al1; (okk, al3) = alloc al2; (okh, al4) = alloc al3
               in (Some \<lparr> d_n = 0, d_size = sz,
                          d_val = (if okv then replicate sz None else []),
                          d_key = (if okk then replicate sz None else []),
                          d_hash = (if okh then replicate sz 0 else []) \<rparr>, al4)))"

text \<open>
  \<^verbatim>\<open>dictionary_del\<close> frees the string of every slot; the result lists them, and is
  \<^term>\<open>None\<close> when a slot lies outside its array (a NULL array is dereferenced).
\<close>

definition slots_of :: "string option \<Rightarrow> string list" where
  "slots_of v = (case v of None \<Rightarrow> [] | Some s \<Rightarrow> [s])"

definition dictionary_del :: "dictionary option \<Rightarrow> string list option" where
  "dictionary_del dp =
     (case dp of None \<Rightarrow> Some []
      | Some d \<Rightarrow>
          if length (d_key d) < d_size d \<or> length (d_val d) < d_size d then None
          else Some (concat (map (\<lambda>i. slots_of (d_key d ! i) @ slots_of (d_val d ! i))
                                 [0..<d_size d])))"

text \<open>The test that the three search loops share: key present, equal hash, equal string.\<close>

definition slot_match :: "dictionary \<Rightarrow> u32 \<Rightarrow> string \<Rightarrow> nat \<Rightarrow> bool" where
  "slot_match d hash key i =
     (case d_key d ! i of None \<Rightarrow> False
      | Some k \<Rightarrow> if hash = d_hash d ! i then key = k else False)"

definition dictionary_get :: "dictionary \<Rightarrow> string \<Rightarrow> cptr \<Rightarrow> cptr" where
  "dictionary_get d key def =
     (let hash = dictionary_hash key
      in case first_index (slot_match d hash key) [0..<d_size d] of
           Some i \<Rightarrow> cptr_of (d_val d ! i)
         | None \<Rightarrow> def)"

text \<open>
  Growing: all three arrays are doubled first, then checked, and only then does
  \<^verbatim>\<open>size\<close>, an \<^verbatim>\<open>int\<close>, follow. Pointers have 8 bytes, hashes 4. An
  \<^verbatim>\<open>int\<close> overflow on the way is \<^term>\<open>None\<close>.
\<close>

definition dictionary_grow ::
    "allocator \<Rightarrow> dictionary \<Rightarrow> (bool \<times> dictionary \<times> allocator) option" where
  "dictionary_grow al d =
     (case mem_double al None 8 (d_val d) (d_size d) of
        None \<Rightarrow> None
      | Some (v, al1) \<Rightarrow>
     (case mem_double al1 None 8 (d_key d) (d_size d) of
        None \<Rightarrow> None
      | Some (k, al2) \<Rightarrow>
     (case mem_double al2 0 4 (d_hash d) (d_size d) of
        None \<Rightarrow> None
      | Some (h, al3) \<Rightarrow>
          let d1 = d\<lparr>d_val := (case v of None \<Rightarrow> [] | Some x \<Rightarrow> x),
                     d_key := (case k of None \<Rightarrow> [] | Some x \<Rightarrow> x),
                     d_hash := (case h of None \<Rightarrow> [] | Some x \<Rightarrow> x)\<rparr>
          in if v = None \<or> k = None \<or> h = None then Some (False, d1, al3)
             else if 2 ^ 31 \<le> 2 * d_size d then None
             else Some (True, d1\<lparr>d_size := 2 * d_size d\<rparr>, al3))))"

text \<open>
  \<^verbatim>\<open>dictionary_set\<close>: the return code, the dictionary after the call and the rest
  of the allocations; \<^term>\<open>None\<close> when the code would read or write outside an array
  (no free slot, or an array that an earlier failed growth left NULL) or overflow an
  \<^verbatim>\<open>int\<close>.
\<close>

definition whole :: "dictionary \<Rightarrow> bool" where
  "whole d \<longleftrightarrow> length (d_val d) = d_size d \<and> length (d_key d) = d_size d
     \<and> length (d_hash d) = d_size d"

definition dictionary_insert ::
    "allocator \<Rightarrow> dictionary \<Rightarrow> u32 \<Rightarrow> string \<Rightarrow> string option \<Rightarrow>
     (int \<times> dictionary \<times> allocator) option" where
  "dictionary_insert al d hash key val =
     (case first_index (\<lambda>k. k = None) (d_key d) of
        None \<Rightarrow> None
      | Some i \<Rightarrow>
          let (k', al1) = xstrdup al (Some key);
              (v', al2) = xstrdup al1 val
          in Some (0, d\<lparr>d_key := (d_key d)[i := k'], d_val := (d_val d)[i := v'],
                        d_hash := (d_hash d)[i := hash], d_n := d_n d + 1\<rparr>, al2))"

definition dictionary_set ::
    "allocator \<Rightarrow> dictionary option \<Rightarrow> string option \<Rightarrow> string option \<Rightarrow>
     (int \<times> dictionary option \<times> allocator) option" where
  "dictionary_set al dp kp val =
     (case (dp, kp) of
        (Some d, Some key) \<Rightarrow>
          if \<not> whole d then None
          else
          (let hash = dictionary_hash key;
               found = (if d_n d > 0 then first_index (slot_match d hash key) [0..<d_size d]
                        else None)
           in case found of
                Some i \<Rightarrow> (let (v', al1) = xstrdup al val
                           in Some (0, Some (d\<lparr>d_val := (d_val d)[i := v']\<rparr>), al1))
              | None \<Rightarrow>
                  (case (if d_n d = int (d_size d) then dictionary_grow al d
                         else Some (True, d, al)) of
                     None \<Rightarrow> None
                   | Some (ok, d1, al1) \<Rightarrow>
                       if \<not> ok then Some (-1, Some d1, al1)
                       else map_option (\<lambda>(r, d2, al2). (r, Some d2, al2))
                              (dictionary_insert al1 d1 hash key val)))
      | _ \<Rightarrow> Some (-1, dp, al))"

definition dictionary_unset :: "dictionary \<Rightarrow> string option \<Rightarrow> dictionary" where
  "dictionary_unset d kp =
     (case kp of None \<Rightarrow> d
      | Some key \<Rightarrow>
          (case first_index (slot_match d (dictionary_hash key) key) [0..<d_size d] of
             None \<Rightarrow> d
           | Some i \<Rightarrow> d\<lparr>d_key := (d_key d)[i := None], d_val := (d_val d)[i := None],
                         d_hash := (d_hash d)[i := 0], d_n := d_n d - 1\<rparr>))"

text \<open>\<^verbatim>\<open>%20s\<close> pads on the left to a width of 20.\<close>

definition pad_left :: "nat \<Rightarrow> string \<Rightarrow> string" where
  "pad_left w s = replicate (w - length s) CHR '' '' @ s"

definition dictionary_dump :: "dictionary option \<Rightarrow> bool \<Rightarrow> string" where
  "dictionary_dump dp out_open =
     (case dp of None \<Rightarrow> []
      | Some d \<Rightarrow>
          if \<not> out_open then []
          else if d_n d < 1 then ''empty dictionary'' @ [CHR 0x0A]
          else concat (map (\<lambda>i. case d_key d ! i of None \<Rightarrow> []
                 | Some k \<Rightarrow> pad_left 20 k @ [CHR 0x09] @ ''['' @
                     (case d_val d ! i of Some v \<Rightarrow> v | None \<Rightarrow> ''UNDEF'') @ '']'' @ [CHR 0x0A])
               [0..<d_size d]))"

section \<open>Invariant and abstract view\<close>

text \<open>
  The invariant: three arrays of \<^verbatim>\<open>size\<close> slots, \<^verbatim>\<open>n\<close> counts the keys,
  no key twice, every key beside its hash. The abstract view is a finite map. The number of
  slots is what doubling from \<^term>\<open>DICTMINSZ\<close> gives, up to \<^term>\<open>MAX_SLOTS\<close>, from
  where the next doubling overflows an \<^verbatim>\<open>int\<close>.
\<close>

definition MAX_SLOTS :: nat where "MAX_SLOTS = 2 ^ 27"

definition size_ok :: "nat \<Rightarrow> bool" where
  "size_ok n \<longleftrightarrow> (\<exists>j\<in>{..27}. n = 2 ^ j)"

definition used :: "string option \<Rightarrow> bool" where
  "used k \<longleftrightarrow> k \<noteq> None"

definition keys_distinct :: "string option list \<Rightarrow> bool" where
  "keys_distinct ks \<longleftrightarrow>
     (\<forall>i < length ks. \<forall>j < length ks. ks ! i \<noteq> None \<longrightarrow> ks ! i = ks ! j \<longrightarrow> i = j)"

definition hashes_ok :: "dictionary \<Rightarrow> bool" where
  "hashes_ok d \<longleftrightarrow>
     (\<forall>i < d_size d. \<forall>k. d_key d ! i = Some k \<longrightarrow> d_hash d ! i = dictionary_hash k)"

definition wf_dict :: "dictionary \<Rightarrow> bool" where
  "wf_dict d \<longleftrightarrow> whole d \<and> size_ok (d_size d) \<and> d_n d = int (length (filter used (d_key d)))
     \<and> keys_distinct (d_key d) \<and> hashes_ok d"

definition dict_map :: "dictionary \<Rightarrow> string \<Rightarrow> string option option" where
  "dict_map d k = map_option ((!) (d_val d)) (first_index (\<lambda>o'. o' = Some k) (d_key d))"

lemma wf_dict_whole: "wf_dict d \<Longrightarrow> whole d"
  by (simp add: wf_dict_def)

lemma size_ok_pos: "size_ok n \<Longrightarrow> 0 < n"
  by (auto simp: size_ok_def)

lemma size_ok_le: "size_ok n \<Longrightarrow> n \<le> MAX_SLOTS"
  unfolding size_ok_def MAX_SLOTS_def by (metis atMost_iff one_le_numeral power_increasing)

lemma size_ok_double:
  assumes "size_ok n" "n < MAX_SLOTS"
  shows "size_ok (2 * n)"
proof -
  obtain j where j: "j \<le> 27" "n = 2 ^ j" using assms(1) by (auto simp: size_ok_def)
  then have "j \<noteq> 27" using assms(2) by (auto simp: MAX_SLOTS_def)
  with j have "Suc j \<le> 27" "2 * n = 2 ^ Suc j" by auto
  then show ?thesis unfolding size_ok_def by (intro bexI [of _ "Suc j"]) auto
qed

lemma wf_dict_count: "wf_dict d \<Longrightarrow> 0 \<le> d_n d \<and> d_n d \<le> int (d_size d)"
  using length_filter_le [of used "d_key d"] by (auto simp: wf_dict_def whole_def)

lemma slot_match_iff:
  "hashes_ok d \<Longrightarrow> i < d_size d \<Longrightarrow>
     slot_match d (dictionary_hash key) key i \<longleftrightarrow> d_key d ! i = Some key"
  by (auto simp: slot_match_def hashes_ok_def split: option.splits)

text \<open>The hash never decides: the search finds exactly the slot with that key.\<close>

lemma search_by_key:
  assumes "whole d" "hashes_ok d"
  shows "first_index (slot_match d (dictionary_hash key) key) [0..<d_size d]
         = first_index (\<lambda>o'. o' = Some key) (d_key d)"
  using assms by (intro first_index_upt) (auto simp: whole_def slot_match_iff)

lemma keys_distinctD:
  "keys_distinct ks \<Longrightarrow> i < length ks \<Longrightarrow> j < length ks \<Longrightarrow> ks ! i = Some k \<Longrightarrow> ks ! j = Some k
     \<Longrightarrow> i = j"
  by (auto simp: keys_distinct_def)

lemma first_key:
  assumes "keys_distinct ks" "i < length ks" "ks ! i = Some k"
  shows "first_index (\<lambda>o'. o' = Some k) ks = Some i"
  using assms by (intro first_index_unique) (auto dest: keys_distinctD)

lemma first_key_holds: "first_index (\<lambda>o'. o' = Some k) ks = Some i \<Longrightarrow> ks ! i = Some k"
  by (simp add: first_index_Some)

lemma first_key_iff:
  "keys_distinct ks \<Longrightarrow>
     first_index (\<lambda>o'. o' = Some k) ks = Some i \<longleftrightarrow> i < length ks \<and> ks ! i = Some k"
  using first_key [of ks i k] first_key_holds [of k ks i]
    first_index_less [of "\<lambda>o'. o' = Some k" ks i] by blast

lemma key_update_other:
  assumes "i < length ks" "ks ! i \<noteq> Some k'" "x \<noteq> Some k'"
  shows "first_index (\<lambda>o'. o' = Some k') (ks[i := x]) = first_index (\<lambda>o'. o' = Some k') ks"
proof -
  have "first_index (\<lambda>j. (ks[i := x]) ! j = Some k') [0..<length ks]
        = first_index (\<lambda>o'. o' = Some k') ks"
    by (rule first_index_upt) (use assms in \<open>auto simp: nth_list_update\<close>)
  moreover have "first_index (\<lambda>j. (ks[i := x]) ! j = Some k') [0..<length ks]
        = first_index (\<lambda>o'. o' = Some k') (ks[i := x])"
    by (rule first_index_upt) auto
  ultimately show ?thesis by simp
qed

lemma dict_get_map:
  "wf_dict d \<Longrightarrow> dictionary_get d key def
     = (case dict_map d key of None \<Rightarrow> def | Some v \<Rightarrow> cptr_of v)"
  by (simp add: dictionary_get_def dict_map_def wf_dict_def search_by_key Let_def
      split: option.splits)

section \<open>Every operation keeps the invariant and acts as on a map\<close>

lemma xstrdup_ok: "all_ok al \<Longrightarrow> \<exists>al'. xstrdup al v = (v, al') \<and> all_ok al'"
  using alloc_all_ok [of al] by (auto simp: xstrdup_def split: option.splits)

lemma sint_word_of_nat_small: "n < 2 ^ 31 \<Longrightarrow> sint (word_of_nat n :: u32) = int n"
  by (simp add: signed_of_nat signed_take_bit_int_eq_self)

lemma int_size_small: "sz * width < 2 ^ 31 \<Longrightarrow> int_size width sz = int (sz * width)"
  unfolding int_size_def by (rule sint_word_of_nat_small)

lemma mem_double_ok:
  assumes "all_ok al" "length xs = n" "0 < width" "n * width < 2 ^ 30"
  shows "\<exists>al'. mem_double al z width xs n = Some (Some (xs @ replicate n z), al') \<and> all_ok al'"
proof -
  have "int_size width n = int (n * width)" using assms(4) by (intro int_size_small) simp
  moreover have "2 * int (n * width) < 2 ^ 31"
  proof -
    have "2 * (n * width) < 2 ^ 31" using assms(4) by simp
    then show ?thesis by (metis of_nat_less_iff of_nat_mult of_nat_numeral of_nat_power)
  qed
  moreover have "\<not> 2 * int (n * width) < - (2 ^ 31)" "\<not> int (n * width) < 0"
    by (simp_all add: not_less del: of_nat_mult)
  moreover have "nat (int (n * width)) div width = n"
    using assms(3) by (simp only: nat_int nonzero_mult_div_cancel_right)
  ultimately show ?thesis
    using alloc_all_ok [OF assms(1)] assms(2) by (auto simp: mem_double_def Let_def simp del: of_nat_mult)
qed

definition grown :: "dictionary \<Rightarrow> dictionary" where
  "grown d = d\<lparr>d_val := d_val d @ replicate (d_size d) None,
               d_key := d_key d @ replicate (d_size d) None,
               d_hash := d_hash d @ replicate (d_size d) 0,
               d_size := 2 * d_size d\<rparr>"

lemma dictionary_grow_ok:
  assumes "whole d" "all_ok al" "d_size d < MAX_SLOTS"
  shows "\<exists>al'. dictionary_grow al d = Some (True, grown d, al') \<and> all_ok al'"
proof -
  have small: "d_size d * 8 < 2 ^ 30" "d_size d * 4 < 2 ^ 30" "\<not> 2 ^ 31 \<le> 2 * d_size d"
    using assms(3) by (simp_all add: MAX_SLOTS_def)
  obtain al1 where 1: "mem_double al None 8 (d_val d) (d_size d)
      = Some (Some (d_val d @ replicate (d_size d) None), al1)" "all_ok al1"
    using mem_double_ok [OF assms(2), of "d_val d" "d_size d" 8] assms(1) small
    by (auto simp: whole_def)
  obtain al2 where 2: "mem_double al1 None 8 (d_key d) (d_size d)
      = Some (Some (d_key d @ replicate (d_size d) None), al2)" "all_ok al2"
    using mem_double_ok [OF 1(2), of "d_key d" "d_size d" 8] assms(1) small
    by (auto simp: whole_def)
  obtain al3 where 3: "mem_double al2 0 4 (d_hash d) (d_size d)
      = Some (Some (d_hash d @ replicate (d_size d) 0), al3)" "all_ok al3"
    using mem_double_ok [OF 2(2), of "d_hash d" "d_size d" 4] assms(1) small
    by (auto simp: whole_def)
  show ?thesis using 1 2 3 small(3) by (simp add: dictionary_grow_def grown_def)
qed

text \<open>At \<^term>\<open>MAX_SLOTS\<close> slots the first doubling overflows.\<close>

lemma int_size_at_limit: "int_size 8 MAX_SLOTS = 2 ^ 30"
  using int_size_small [of MAX_SLOTS 8] by (simp add: MAX_SLOTS_def)

lemma grow_overflows: "d_size d = MAX_SLOTS \<Longrightarrow> dictionary_grow al d = None"
  by (simp add: dictionary_grow_def mem_double_def Let_def int_size_at_limit)

lemma first_index_pad:
  "first_index (\<lambda>o'. o' = Some k) (ks @ replicate n None) = first_index (\<lambda>o'. o' = Some k) ks"
proof -
  have "first_index (\<lambda>o'. o' = Some k) (replicate n None) = None"
    by (simp add: first_index_None)
  then show ?thesis by (simp add: first_index_append split: option.splits)
qed

lemma grown_map: "whole d \<Longrightarrow> dict_map (grown d) k = dict_map d k"
  by (cases "first_index (\<lambda>o'. o' = Some k) (d_key d)")
    (auto simp: dict_map_def grown_def first_index_pad whole_def nth_append
      dest: first_index_less)

lemma keys_distinct_pad: "keys_distinct ks \<Longrightarrow> keys_distinct (ks @ replicate n None)"
  by (auto simp: keys_distinct_def nth_append split: if_splits)

lemma grown_wf: "wf_dict d \<Longrightarrow> d_size d < MAX_SLOTS \<Longrightarrow> wf_dict (grown d)"
  by (auto simp: wf_dict_def grown_def size_ok_double whole_def hashes_ok_def nth_append used_def
      keys_distinct_pad split: if_splits)

definition inserted :: "dictionary \<Rightarrow> nat \<Rightarrow> string \<Rightarrow> string option \<Rightarrow> dictionary" where
  "inserted d i key v =
     d\<lparr>d_key := (d_key d)[i := Some key], d_val := (d_val d)[i := v],
       d_hash := (d_hash d)[i := dictionary_hash key], d_n := d_n d + 1\<rparr>"

lemma free_slot:
  assumes "wf_dict d" "d_n d \<noteq> int (d_size d)"
  obtains i where "first_index (\<lambda>k. k = None) (d_key d) = Some i" "i < d_size d"
    "d_key d ! i = None"
proof -
  have "filter used (d_key d) \<noteq> d_key d"
    using assms by (auto simp: wf_dict_def whole_def)
  then have "first_index (\<lambda>k. k = None) (d_key d) \<noteq> None"
    by (simp add: filter_id_conv used_def first_index_None)
  then obtain i where i: "first_index (\<lambda>k. k = None) (d_key d) = Some i"
    by blast
  then have "i < length (d_key d)" "d_key d ! i = None"
    by (auto dest: first_index_less first_index_holds)
  with i assms show thesis by (intro that) (auto simp: wf_dict_def whole_def)
qed

lemma dictionary_insert_ok:
  assumes "wf_dict d" "first_index (\<lambda>k. k = None) (d_key d) = Some i" "all_ok al"
  shows "\<exists>al'. dictionary_insert al d (dictionary_hash key) key v
           = Some (0, inserted d i key v, al') \<and> all_ok al'"
proof -
  obtain al1 where 1: "xstrdup al (Some key) = (Some key, al1)" "all_ok al1"
    using assms(3) xstrdup_ok by blast
  obtain al2 where 2: "xstrdup al1 v = (v, al2)" "all_ok al2"
    using 1 xstrdup_ok by blast
  show ?thesis using assms 1 2 by (simp add: dictionary_insert_def inserted_def)
qed

lemma dict_map_None_keys: "dict_map d k = None \<longleftrightarrow> Some k \<notin> set (d_key d)"
  by (auto simp: dict_map_def first_index_None)

lemma inserted_keys_distinct:
  assumes "keys_distinct ks" "i < length ks" "ks ! i = None" "Some k \<notin> set ks"
  shows "keys_distinct (ks[i := Some k])"
proof -
  have new: "ks ! j \<noteq> Some k" if "j < length ks" for j
    using assms(4) nth_mem [OF that] by auto
  show ?thesis
    unfolding keys_distinct_def
  proof (intro allI impI)
    fix p q
    assume "p < length (ks[i := Some k])" "q < length (ks[i := Some k])"
      "ks[i := Some k] ! p \<noteq> None" "ks[i := Some k] ! p = ks[i := Some k] ! q"
    then show "p = q"
      using assms(1,2) new [of p] new [of q]
      by (cases "p = i"; cases "q = i") (auto simp: keys_distinct_def)
  qed
qed

lemma inserted_wf:
  assumes "wf_dict d" "i < d_size d" "d_key d ! i = None" "dict_map d key = None"
  shows "wf_dict (inserted d i key v)"
proof -
  have "length (filter used ((d_key d)[i := Some key])) = Suc (length (filter used (d_key d)))"
    by (rule filter_update_gain) (use assms in \<open>auto simp: wf_dict_def whole_def used_def\<close>)
  moreover have "keys_distinct ((d_key d)[i := Some key])"
    using assms inserted_keys_distinct [of "d_key d" i key]
    by (simp add: wf_dict_def whole_def dict_map_None_keys)
  ultimately show ?thesis
    using assms by (auto simp: wf_dict_def inserted_def whole_def hashes_ok_def nth_list_update)
qed

lemma inserted_map:
  assumes "wf_dict d" "i < d_size d" "d_key d ! i = None" "dict_map d key = None"
  shows "dict_map (inserted d i key v) = (dict_map d)(key := Some v)"
proof
  fix k
  have d': "keys_distinct ((d_key d)[i := Some key])" "i < length (d_key d)"
    using inserted_wf [OF assms, of v] assms by (auto simp: wf_dict_def inserted_def whole_def)
  show "dict_map (inserted d i key v) k = ((dict_map d)(key := Some v)) k"
  proof (cases "k = key")
    case True
    have "first_index (\<lambda>o'. o' = Some key) ((d_key d)[i := Some key]) = Some i"
      by (rule first_key) (use d' in auto)
    with True assms show ?thesis
      by (simp add: dict_map_def inserted_def wf_dict_def whole_def)
  next
    case False
    have "first_index (\<lambda>o'. o' = Some k) ((d_key d)[i := Some key])
          = first_index (\<lambda>o'. o' = Some k) (d_key d)"
      by (rule key_update_other) (use d' assms False in auto)
    moreover have "a \<noteq> i" if "first_index (\<lambda>o'. o' = Some k) (d_key d) = Some a" for a
      using first_key_holds [OF that] assms(3) by auto
    ultimately show ?thesis
      using False
      by (cases "first_index (\<lambda>o'. o' = Some k) (d_key d)")
        (auto simp: dict_map_def inserted_def)
  qed
qed

text \<open>Overwriting the value of a key that is present.\<close>

lemma overwrite_wf: "wf_dict d \<Longrightarrow> wf_dict (d\<lparr>d_val := (d_val d)[i := v]\<rparr>)"
  by (auto simp: wf_dict_def whole_def hashes_ok_def)

lemma overwrite_map:
  assumes "wf_dict d" "first_index (\<lambda>o'. o' = Some key) (d_key d) = Some i"
  shows "dict_map (d\<lparr>d_val := (d_val d)[i := v]\<rparr>) = (dict_map d)(key := Some v)"
proof
  fix k
  have i: "i < length (d_key d)" "d_key d ! i = Some key"
    using assms(2) by (auto dest: first_index_less first_key_holds)
  show "dict_map (d\<lparr>d_val := (d_val d)[i := v]\<rparr>) k = ((dict_map d)(key := Some v)) k"
  proof (cases "k = key")
    case True
    with assms i show ?thesis by (simp add: dict_map_def wf_dict_def whole_def)
  next
    case False
    have "a \<noteq> i" if "first_index (\<lambda>o'. o' = Some k) (d_key d) = Some a" for a
      using first_key_holds [OF that] i(2) False by auto
    then show ?thesis
      using False
      by (cases "first_index (\<lambda>o'. o' = Some k) (d_key d)") (auto simp: dict_map_def)
  qed
qed

text \<open>
  With allocations that succeed and fewer than \<^term>\<open>MAX_SLOTS\<close> entries,
  \<^verbatim>\<open>dictionary_set\<close> returns 0, keeps the invariant and is the map update. The same
  holds for a key that is present, however many there are.
\<close>

lemma found_iff:
  "wf_dict d \<Longrightarrow>
     (if d_n d > 0 then first_index (slot_match d (dictionary_hash key) key) [0..<d_size d] else None)
     = first_index (\<lambda>o'. o' = Some key) (d_key d)"
proof (cases "d_n d > 0")
  case False
  assume "wf_dict d"
  with False have "filter used (d_key d) = []" by (simp add: wf_dict_def)
  then have "first_index (\<lambda>o'. o' = Some key) (d_key d) = None"
    by (auto simp: filter_empty_conv used_def first_index_None)
  with False show ?thesis by simp
qed (simp add: wf_dict_def search_by_key)

definition set_result ::
    "dictionary \<Rightarrow> string \<Rightarrow> string option \<Rightarrow> (int \<times> dictionary option \<times> allocator) option \<Rightarrow> bool" where
  "set_result d key v r \<longleftrightarrow>
     (\<exists>d' al'. r = Some (0, Some d', al') \<and> all_ok al' \<and> wf_dict d'
        \<and> dict_map d' = (dict_map d)(key := Some v) \<and> d_n d' \<le> d_n d + 1)"

lemma insert_result:
  assumes "wf_dict d" "d_n d \<noteq> int (d_size d)" "dict_map d key = None" "all_ok al"
  shows "\<exists>d' al'. dictionary_insert al d (dictionary_hash key) key v = Some (0, d', al')
           \<and> all_ok al' \<and> wf_dict d' \<and> dict_map d' = (dict_map d)(key := Some v)
           \<and> d_n d' = d_n d + 1"
proof -
  obtain i where i: "first_index (\<lambda>k. k = None) (d_key d) = Some i" "i < d_size d"
      "d_key d ! i = None"
    using assms(1,2) by (rule free_slot)
  obtain al' where "dictionary_insert al d (dictionary_hash key) key v
      = Some (0, inserted d i key v, al')" "all_ok al'"
    using dictionary_insert_ok [OF assms(1) i(1) assms(4)] by blast
  then show ?thesis
    using inserted_wf [OF assms(1) i(2,3) assms(3), of v]
      inserted_map [OF assms(1) i(2,3) assms(3), of v]
    by (simp add: inserted_def)
qed

lemma grown_room: "wf_dict d \<Longrightarrow> d_n d = int (d_size d) \<Longrightarrow> d_n (grown d) \<noteq> int (d_size (grown d))"
  by (auto simp: grown_def wf_dict_def dest: size_ok_pos)

lemma dictionary_set_wf:
  assumes "wf_dict d"
  shows "dictionary_set al (Some d) (Some key) v =
     (case first_index (\<lambda>o'. o' = Some key) (d_key d) of
        Some i \<Rightarrow> (let (v', al1) = xstrdup al v
                   in Some (0, Some (d\<lparr>d_val := (d_val d)[i := v']\<rparr>), al1))
      | None \<Rightarrow>
          (case (if d_n d = int (d_size d) then dictionary_grow al d
                 else Some (True, d, al)) of
             None \<Rightarrow> None
           | Some (ok, d1, al1) \<Rightarrow>
               if \<not> ok then Some (-1, Some d1, al1)
               else map_option (\<lambda>(r, d2, al2). (r, Some d2, al2))
                      (dictionary_insert al1 d1 (dictionary_hash key) key v)))"
  unfolding dictionary_set_def Let_def
  by (simp add: found_iff [OF assms] wf_dict_whole [OF assms])

lemma dictionary_set_spec:
  assumes "wf_dict d" "all_ok al" "d_n d < int MAX_SLOTS \<or> dict_map d key \<noteq> None"
  shows "set_result d key v (dictionary_set al (Some d) (Some key) v)"
proof (cases "first_index (\<lambda>o'. o' = Some key) (d_key d)")
  case (Some i)
  obtain al1 where al1: "xstrdup al v = (v, al1)" "all_ok al1"
    using assms(2) xstrdup_ok by blast
  with Some assms show ?thesis
    by (simp add: dictionary_set_wf set_result_def overwrite_wf overwrite_map)
next
  case None
  then have fresh: "dict_map d key = None" by (simp add: dict_map_def)
  show ?thesis
  proof (cases "d_n d = int (d_size d)")
    case True
    have small: "d_size d < MAX_SLOTS" using True assms(3) fresh by simp
    obtain al1 where g: "dictionary_grow al d = Some (True, grown d, al1)" "all_ok al1"
      using dictionary_grow_ok [OF wf_dict_whole [OF assms(1)] assms(2) small] by blast
    have m: "dict_map (grown d) = dict_map d"
      using grown_map [OF wf_dict_whole [OF assms(1)]] by blast
    obtain d' al' where i: "dictionary_insert al1 (grown d) (dictionary_hash key) key v
          = Some (0, d', al')" "all_ok al'" "wf_dict d'"
          "dict_map d' = (dict_map (grown d))(key := Some v)" "d_n d' = d_n (grown d) + 1"
      using insert_result [OF grown_wf [OF assms(1) small] grown_room [OF assms(1) True] _ g(2),
          of key v] fresh m by auto
    have "d_n (grown d) = d_n d" by (simp add: grown_def)
    with None True g i m show ?thesis
      by (simp add: dictionary_set_wf [OF assms(1)] set_result_def)
  next
    case False
    obtain d' al' where i: "dictionary_insert al d (dictionary_hash key) key v
          = Some (0, d', al')" "all_ok al'" "wf_dict d'"
          "dict_map d' = (dict_map d)(key := Some v)" "d_n d' = d_n d + 1"
      using insert_result [OF assms(1) False fresh assms(2), of v] by auto
    show ?thesis
      using None False i by (simp add: dictionary_set_wf [OF assms(1)] set_result_def)
  qed
qed

text \<open>A new key beyond \<^term>\<open>MAX_SLOTS\<close> entries overflows in \<^verbatim>\<open>mem_double\<close>.\<close>

lemma set_overflows:
  assumes "wf_dict d" "d_n d = int MAX_SLOTS" "dict_map d key = None"
  shows "dictionary_set al (Some d) (Some key) v = None"
proof -
  have "d_size d = MAX_SLOTS"
    using wf_dict_count [OF assms(1)] assms(1,2) size_ok_le [of "d_size d"] by (auto simp: wf_dict_def)
  moreover have "first_index (\<lambda>o'. o' = Some key) (d_key d) = None"
    using assms(3) by (simp add: dict_map_def)
  ultimately show ?thesis
    using assms(2) grow_overflows by (simp add: dictionary_set_wf [OF assms(1)])
qed

lemma set_result_or_overflow:
  assumes "wf_dict d" "all_ok al"
  shows "dictionary_set al (Some d) (Some key) v = None
    \<or> set_result d key v (dictionary_set al (Some d) (Some key) v)"
proof (cases "d_n d < int MAX_SLOTS \<or> dict_map d key \<noteq> None")
  case True
  from dictionary_set_spec [OF assms this] show ?thesis by blast
next
  case False
  have "d_n d \<le> int MAX_SLOTS"
    using wf_dict_count [OF assms(1)] assms(1) size_ok_le [of "d_size d"] by (auto simp: wf_dict_def)
  with False show ?thesis using set_overflows [OF assms(1)] by auto
qed

lemma dictionary_unset_wf:
  assumes "wf_dict d"
  shows "wf_dict (dictionary_unset d (Some key))"
proof (cases "first_index (\<lambda>o'. o' = Some key) (d_key d)")
  case None
  with assms show ?thesis by (simp add: dictionary_unset_def search_by_key wf_dict_def)
next
  case (Some i)
  then have i: "i < length (d_key d)" "d_key d ! i = Some key"
    by (auto dest: first_index_less first_key_holds)
  have "Suc (length (filter used ((d_key d)[i := None]))) = length (filter used (d_key d))"
    by (rule filter_update_lose) (use i in \<open>auto simp: used_def\<close>)
  moreover have "keys_distinct ((d_key d)[i := None])"
    using assms i(1) keys_distinctD [of "d_key d"]
    by (auto simp: wf_dict_def keys_distinct_def nth_list_update)
  ultimately show ?thesis
    using assms Some i
    by (auto simp: dictionary_unset_def search_by_key wf_dict_def whole_def hashes_ok_def
        nth_list_update split: if_splits)
qed

lemma dictionary_unset_map:
  assumes "wf_dict d"
  shows "dict_map (dictionary_unset d (Some key)) = (dict_map d)(key := None)"
proof (cases "first_index (\<lambda>o'. o' = Some key) (d_key d)")
  case None
  with assms show ?thesis
    by (simp add: dictionary_unset_def search_by_key wf_dict_def fun_eq_iff dict_map_def)
next
  case (Some i)
  then have i: "i < length (d_key d)" "d_key d ! i = Some key"
    by (auto dest: first_index_less first_key_holds)
  let ?d = "d\<lparr>d_key := (d_key d)[i := None], d_val := (d_val d)[i := None],
              d_hash := (d_hash d)[i := 0], d_n := d_n d - 1\<rparr>"
  have eq: "dictionary_unset d (Some key) = ?d"
    using Some assms by (simp add: dictionary_unset_def search_by_key wf_dict_def)
  have "dict_map ?d k = ((dict_map d)(key := None)) k" for k
  proof (cases "k = key")
    case True
    have "(d_key d)[i := None] ! j \<noteq> Some key" if "j < length (d_key d)" for j
      using assms i that keys_distinctD [of "d_key d" i j key]
      by (auto simp: nth_list_update wf_dict_def)
    then have "first_index (\<lambda>o'. o' = Some key) ((d_key d)[i := None]) = None"
      by (auto simp: first_index_None in_set_conv_nth)
    with True show ?thesis by (simp add: dict_map_def)
  next
    case False
    have "a \<noteq> i" if "first_index (\<lambda>o'. o' = Some k) (d_key d) = Some a" for a
      using first_key_holds [OF that] i(2) False by auto
    moreover have "first_index (\<lambda>o'. o' = Some k) ((d_key d)[i := None])
          = first_index (\<lambda>o'. o' = Some k) (d_key d)"
      by (rule key_update_other) (use i False in auto)
    ultimately show ?thesis
      using False
      by (cases "first_index (\<lambda>o'. o' = Some k) (d_key d)") (auto simp: dict_map_def)
  qed
  with eq show ?thesis by (simp add: fun_eq_iff)
qed

lemma dictionary_new_wf:
  assumes "all_ok al" "sz \<le> int DICTMINSZ"
  shows "\<exists>d al'. dictionary_new al sz = (Some d, al') \<and> all_ok al' \<and> wf_dict d
           \<and> dict_map d = (\<lambda>_. None) \<and> d_n d = 0"
proof -
  obtain al1 where 1: "alloc al = (True, al1)" "all_ok al1" using alloc_all_ok assms by blast
  obtain al2 where 2: "alloc al1 = (True, al2)" "all_ok al2" using alloc_all_ok 1 by blast
  obtain al3 where 3: "alloc al2 = (True, al3)" "all_ok al3" using alloc_all_ok 2 by blast
  obtain al4 where 4: "alloc al3 = (True, al4)" "all_ok al4" using alloc_all_ok 3 by blast
  have "size_ok 128" unfolding size_ok_def by (rule bexI [of _ 7]) auto
  then show ?thesis
    using 1 2 3 4 assms(2)
    by (auto simp: dictionary_new_def Let_def wf_dict_def whole_def keys_distinct_def
        hashes_ok_def used_def DICTMINSZ_def dict_map_def first_index_None)
qed

section \<open>The interface of a string map\<close>

text \<open>
  What a client of the dictionary relies on: an invariant, a lookup, a number of entries
  and a bound for it, and a store and a removal that act on the lookup as on a map while the
  entries stay within the bound.
\<close>

locale string_map =
  fixes inv :: "'d \<Rightarrow> bool"
    and lk :: "'d \<Rightarrow> string \<Rightarrow> string option option"
    and entries :: "'d \<Rightarrow> nat"
    and room :: nat
    and put :: "'d \<Rightarrow> string \<Rightarrow> string option \<Rightarrow> 'd"
    and del :: "'d \<Rightarrow> string \<Rightarrow> 'd"
  assumes put_inv: "inv d \<Longrightarrow> entries d < room \<Longrightarrow> inv (put d k v)"
    and put_lk: "inv d \<Longrightarrow> entries d < room \<Longrightarrow> lk (put d k v) = (lk d)(k := Some v)"
    and put_entries: "inv d \<Longrightarrow> entries d < room \<Longrightarrow> entries (put d k v) \<le> Suc (entries d)"
    and del_inv: "inv d \<Longrightarrow> inv (del d k)"
    and del_lk: "inv d \<Longrightarrow> lk (del d k) = (lk d)(k := None)"
    and del_entries: "inv d \<Longrightarrow> entries (del d k) \<le> entries d"
begin

definition puts :: "'d \<Rightarrow> (string \<times> string option) list \<Rightarrow> 'd" where
  "puts d kvs = foldl (\<lambda>d (k, v). put d k v) d kvs"

lemma puts_snoc: "puts d (kvs @ [(k, v)]) = put (puts d kvs) k v"
  by (simp add: puts_def)

lemma puts_keep:
  "inv d \<Longrightarrow> entries d + length kvs \<le> room \<Longrightarrow>
     inv (puts d kvs) \<and> entries (puts d kvs) \<le> entries d + length kvs"
proof (induction kvs rule: rev_induct)
  case (snoc kv kvs)
  obtain a b where "kv = (a, b)" by fastforce
  then show ?case
    using snoc put_inv [of "puts d kvs" a b] put_entries [of "puts d kvs" a b]
    by (simp add: puts_snoc)
qed (simp add: puts_def)

lemmas puts_inv = puts_keep [THEN conjunct1]
lemmas puts_entries = puts_keep [THEN conjunct2]

text \<open>After a run of stores, the last store to a key decides.\<close>

lemma puts_lk:
  "inv d \<Longrightarrow> entries d + length kvs \<le> room \<Longrightarrow> lk (puts d kvs) k
     = (case map_of (rev kvs) k of Some v \<Rightarrow> Some v | None \<Rightarrow> lk d k)"
proof (induction kvs rule: rev_induct)
  case Nil
  then show ?case by (simp add: puts_def)
next
  case (snoc kv kvs)
  obtain a b where kv: "kv = (a, b)" by fastforce
  then show ?case
    using snoc puts_keep [of d kvs] put_lk [of "puts d kvs" a b] by (simp add: puts_snoc)
qed

lemma put_del: "inv d \<Longrightarrow> entries d < room \<Longrightarrow> lk (del (put d k v) k) = (lk d)(k := None)"
  by (simp add: del_lk put_inv put_lk)

end

text \<open>\<^verbatim>\<open>dictionary_set\<close> when memory does not run out.\<close>

definition dict_put :: "dictionary \<Rightarrow> string \<Rightarrow> string option \<Rightarrow> dictionary" where
  "dict_put d key v =
     (case dictionary_set [] (Some d) (Some key) v of Some (_, Some d', _) \<Rightarrow> d' | _ \<Rightarrow> d)"

definition dict_del :: "dictionary \<Rightarrow> string \<Rightarrow> dictionary" where
  "dict_del d key = dictionary_unset d (Some key)"

definition dict_entries :: "dictionary \<Rightarrow> nat" where
  "dict_entries d = nat (d_n d)"

lemma dict_entries_less: "dict_entries d < MAX_SLOTS \<longleftrightarrow> d_n d < int MAX_SLOTS"
  by (auto simp: dict_entries_def MAX_SLOTS_def)

lemma dict_put_spec:
  assumes "wf_dict d" "dict_entries d < MAX_SLOTS"
  shows "wf_dict (dict_put d key v) \<and> dict_map (dict_put d key v) = (dict_map d)(key := Some v)
    \<and> dict_entries (dict_put d key v) \<le> Suc (dict_entries d)"
proof -
  have "set_result d key v (dictionary_set [] (Some d) (Some key) v)"
    by (rule dictionary_set_spec [OF assms(1)]) (use assms in \<open>simp_all add: all_ok_def dict_entries_less\<close>)
  then show ?thesis
    using wf_dict_count [OF assms(1)] by (auto simp: set_result_def dict_put_def dict_entries_def)
qed

lemma dictionary_unset_count: "d_n (dictionary_unset d key) \<le> d_n d"
  by (auto simp: dictionary_unset_def split: option.splits)

lemma dict_unset_entries: "dict_entries (dictionary_unset d key) \<le> dict_entries d"
  using dictionary_unset_count by (simp add: dict_entries_def nat_mono)

interpretation dm: string_map wf_dict dict_map dict_entries MAX_SLOTS dict_put dict_del
  by unfold_locales
    (simp_all add: dict_put_spec dict_del_def dictionary_unset_wf dictionary_unset_map
      dict_unset_entries)

section \<open>What callers see\<close>

text \<open>The dictionary that \<^verbatim>\<open>iniparser_load\<close> starts from.\<close>

definition dict0 :: dictionary where
  "dict0 = the (fst (dictionary_new [] 0))"

lemma dict0_wf: "wf_dict dict0" and dict0_map: "dict_map dict0 = (\<lambda>_. None)"
  and dict0_entries [simp]: "dict_entries dict0 = 0"
  using dictionary_new_wf [of "[]" 0] by (auto simp: dict0_def all_ok_def dict_entries_def)

lemma dict0_put:
  "wf_dict (dict_put dict0 key v) \<and> dict_map (dict_put dict0 key v) = [key \<mapsto> v]
     \<and> dict_entries (dict_put dict0 key v) < MAX_SLOTS"
  using dict_put_spec [OF dict0_wf, of key v] by (simp add: dict0_map MAX_SLOTS_def)

lemma dict0_count: "d_n dict0 < int MAX_SLOTS"
  by (simp add: dict0_def dictionary_new_def MAX_SLOTS_def)

lemma dict0_room: "d_n dict0 \<noteq> int (d_size dict0)"
  by (simp add: dict0_def dictionary_new_def DICTMINSZ_def)

text \<open>
  \<^verbatim>\<open>dictionary_set\<close> followed by \<^verbatim>\<open>dictionary_get\<close>: while memory lasts
  the set returns 0, the new value is found under its key, every other key is found as
  before, and the dictionary stays well formed, also when it had to grow.
\<close>

theorem set_then_get:
  assumes "wf_dict d" "all_ok al" "d_n d < int MAX_SLOTS"
  shows "\<exists>d' al'. dictionary_set al (Some d) (Some key) v = Some (0, Some d', al') \<and> wf_dict d'
           \<and> dictionary_get d' key def = cptr_of v
           \<and> (\<forall>k. k \<noteq> key \<longrightarrow> dictionary_get d' k def = dictionary_get d k def)"
  using dictionary_set_spec [OF assms(1,2), of key v] assms
  by (auto simp: set_result_def dict_get_map)

theorem set_then_get_witness:
  "\<exists>d'. dictionary_set [] (Some dict0) (Some ''vc707:class'') (Some ''VC707'')
          = Some (0, Some d', []) \<and> dictionary_get d' ''vc707:class'' Invalid = Str ''VC707''"
proof -
  have "all_ok []" by (simp add: all_ok_def)
  from set_then_get [OF dict0_wf this dict0_count, of "''vc707:class''" "Some ''VC707''" Invalid]
  obtain d' al' where
      r: "dictionary_set [] (Some dict0) (Some ''vc707:class'') (Some ''VC707'')
            = Some (0, Some d', al')"
         "dictionary_get d' ''vc707:class'' Invalid = cptr_of (Some ''VC707'')"
    by blast
  have nil: "snd (alloc []) = []" by simp
  have "al' = []"
    using r(1) dict0_room dict0_wf dict0_map
    by (auto simp: dictionary_set_wf dict_map_None_keys fun_eq_iff first_index_None
        dictionary_insert_def xstrdup_def dict_map_def split: option.splits)
  with r show ?thesis by (simp add: cptr_of_def)
qed

text \<open>
  A program of stores and removals on one dictionary, with the codes the stores return;
  and what each operation does to a map.
\<close>

datatype dict_op = Store string "string option" | Remove string

fun dict_run ::
    "allocator \<Rightarrow> dictionary \<Rightarrow> dict_op list \<Rightarrow> (int list \<times> dictionary \<times> allocator) option" where
  "dict_run al d [] = Some ([], d, al)"
| "dict_run al d (Store k v # es) =
     (case dictionary_set al (Some d) (Some k) v of
        Some (r, Some d1, al1) \<Rightarrow> map_option (\<lambda>(rs, x). (r # rs, x)) (dict_run al1 d1 es)
      | _ \<Rightarrow> None)"
| "dict_run al d (Remove k # es) = dict_run al (dictionary_unset d (Some k)) es"

fun map_step :: "(string \<Rightarrow> string option option) \<Rightarrow> dict_op \<Rightarrow> string \<Rightarrow> string option option" where
  "map_step m (Store k v) = m(k := Some v)"
| "map_step m (Remove k) = m(k := None)"

definition stores :: "dict_op list \<Rightarrow> nat" where
  "stores es = length (filter (\<lambda>e. case e of Store _ _ \<Rightarrow> True | Remove _ \<Rightarrow> False) es)"

lemma stores_simps [simp]:
  "stores [] = 0" "stores (Store k v # es) = Suc (stores es)" "stores (Remove k # es) = stores es"
  by (simp_all add: stores_def)

lemma dict_run_map:
  assumes "wf_dict d" "all_ok al" "d_n d + int (stores es) \<le> int MAX_SLOTS"
  shows "\<exists>rs d' al'. dict_run al d es = Some (rs, d', al') \<and> set rs \<subseteq> {0} \<and> wf_dict d'
           \<and> dict_map d' = foldl map_step (dict_map d) es"
  using assms
proof (induction es arbitrary: al d)
  case (Cons e es)
  show ?case
  proof (cases e)
    case (Store k v)
    have "set_result d k v (dictionary_set al (Some d) (Some k) v)"
      by (rule dictionary_set_spec) (use Cons.prems Store in auto)
    then obtain d1 al1 where 1: "dictionary_set al (Some d) (Some k) v = Some (0, Some d1, al1)"
        "all_ok al1" "wf_dict d1" "dict_map d1 = (dict_map d)(k := Some v)" "d_n d1 \<le> d_n d + 1"
      by (auto simp: set_result_def)
    have "d_n d1 + int (stores es) \<le> int MAX_SLOTS" using 1(5) Cons.prems(3) Store by simp
    from Cons.IH [OF 1(3,2) this]
    obtain rs d' al' where "dict_run al1 d1 es = Some (rs, d', al')" "set rs \<subseteq> {0}"
        "wf_dict d'" "dict_map d' = foldl map_step (dict_map d1) es"
      by blast
    with 1 Store show ?thesis by simp
  next
    case (Remove k)
    have "d_n (dictionary_unset d (Some k)) + int (stores es) \<le> int MAX_SLOTS"
      using dictionary_unset_count [of d "Some k"] Cons.prems(3) Remove by simp
    from Cons.IH [OF dictionary_unset_wf [OF Cons.prems(1)] Cons.prems(2) this] show ?thesis
      using Remove dictionary_unset_map [OF Cons.prems(1), of k] by (simp del: fun_upd_apply)
  qed
qed simp

text \<open>
  C36. While allocations succeed and the entries stay within \<^verbatim>\<open>2^27\<close> (where
  doubling the arrays overflows the \<^verbatim>\<open>int\<close> size of \<^verbatim>\<open>mem_double\<close>),
  a sequence of \<^verbatim>\<open>dictionary_set\<close> and \<^verbatim>\<open>dictionary_unset\<close> never
  touches memory outside the arrays, every set returns 0, the dictionary stays well-formed
  (arrays of one length, as many used slots as counted, distinct keys with their hashes), and
  \<^verbatim>\<open>dictionary_get\<close> then answers what the same updates of a map give. What happens
  beyond is in \<^verbatim>\<open>set_out_of_memory_lost_key\<close>, \<^verbatim>\<open>set_growth_failure_breaks_del\<close>
  and \<^verbatim>\<open>set_overflows\<close>.
\<close>

theorem dictionary_is_map:
  assumes "wf_dict d" "all_ok al" "d_n d + int (stores es) \<le> int MAX_SLOTS"
  shows "\<exists>rs d' al'. dict_run al d es = Some (rs, d', al') \<and> set rs \<subseteq> {0} \<and> wf_dict d'
    \<and> (\<forall>k def. dictionary_get d' k def =
         (case foldl map_step (dict_map d) es k of None \<Rightarrow> def | Some v \<Rightarrow> cptr_of v))"
  using dict_run_map [OF assms] by (metis dict_get_map)

theorem dictionary_is_map_witness:
  "\<exists>rs d' al'. dict_run [True, True] dict0 [Store ''a'' (Some ''1''), Store ''b'' None, Remove ''a'']
       = Some (rs, d', al') \<and> set rs \<subseteq> {0}
     \<and> dictionary_get d' ''a'' Invalid = Invalid \<and> dictionary_get d' ''b'' Invalid = Null"
proof -
  let ?es = "[Store ''a'' (Some ''1''), Store ''b'' None, Remove ''a'']"
  have "d_n dict0 + int (stores ?es) \<le> int MAX_SLOTS"
    by (simp add: dict0_def dictionary_new_def MAX_SLOTS_def)
  from dictionary_is_map [OF dict0_wf _ this, of "[True, True]"] obtain rs d' al' where
      "dict_run [True, True] dict0 ?es = Some (rs, d', al')" "set rs \<subseteq> {0}"
      "\<forall>k def. dictionary_get d' k def =
         (case foldl map_step (dict_map dict0) ?es k of None \<Rightarrow> def | Some v \<Rightarrow> cptr_of v)"
    by (auto simp: all_ok_def)
  then show ?thesis by (auto simp: cptr_of_def)
qed

text \<open>
  \<^verbatim>\<open>dictionary_unset\<close> removes exactly the key it is given: that key then
  yields the default, every other key its old value, and the slot count goes down by one
  only when the key was there.
\<close>

theorem unset_then_get:
  assumes "wf_dict d"
  shows "wf_dict (dictionary_unset d (Some key))
     \<and> dictionary_get (dictionary_unset d (Some key)) k def
         = (if k = key then def else dictionary_get d k def)
     \<and> d_n (dictionary_unset d (Some key))
         = d_n d - (if dict_map d key = None then 0 else 1)"
  using dictionary_unset_wf [OF assms, of key] dictionary_unset_map [OF assms, of key] assms
  by (auto simp: dict_get_map dictionary_unset_def search_by_key wf_dict_def dict_map_def
      split: option.splits)

theorem unset_then_get_witness:
  "dictionary_get (dictionary_unset (dict_put dict0 ''a'' None) (Some ''a'')) ''a'' Invalid = Invalid"
  using unset_then_get [of "dict_put dict0 ''a'' None" "''a''" "''a''" Invalid]
    dict0_put by simp

text \<open>
  When the copy of a new key cannot be allocated, \<^verbatim>\<open>dictionary_set\<close> still
  returns 0 (success) and counts the entry, but the key is not stored: the slot stays free
  and \<^verbatim>\<open>n\<close> no longer counts the keys.
\<close>

theorem set_out_of_memory_lost_key:
  assumes "wf_dict d" "dict_map d key = None" "d_n d \<noteq> int (d_size d)"
  shows "\<exists>d' al'. dictionary_set [False] (Some d) (Some key) v = Some (0, Some d', al')
           \<and> dict_map d' key = None \<and> d_n d' = d_n d + 1 \<and> \<not> wf_dict d'"
proof -
  obtain i where i: "first_index (\<lambda>k. k = None) (d_key d) = Some i" "i < d_size d"
      "d_key d ! i = None"
    using assms(1,3) by (rule free_slot)
  obtain v' al' where v: "xstrdup [] v = (v', al')" by fastforce
  have same: "(d_key d)[i := None] = d_key d" using i(3) by (metis list_update_id)
  have none: "first_index (\<lambda>o'. o' = Some key) (d_key d) = None"
    using assms(2) by (simp add: dict_map_def)
  show ?thesis
    using assms none i v same
    by (auto simp: dictionary_set_wf dictionary_insert_def xstrdup_def dict_map_def wf_dict_def
        split: prod.splits)
qed

theorem set_out_of_memory_lost_key_witness:
  "\<exists>d' al'. dictionary_set [False] (Some dict0) (Some ''a'') None = Some (0, Some d', al')
     \<and> dict_map d' ''a'' = None"
  using set_out_of_memory_lost_key [OF dict0_wf _ dict0_room, of "''a''" None]
  by (auto simp: dict0_map)

lemma growth_fails:
  assumes "whole d" "d_size d < MAX_SLOTS"
  shows "\<exists>d' al'. dictionary_grow [False] d = Some (False, d', al') \<and> d_val d' = []
           \<and> d_size d' = d_size d"
proof -
  have small: "d_size d * 8 < 2 ^ 30" "d_size d * 4 < 2 ^ 30"
    using assms(2) by (simp_all add: MAX_SLOTS_def)
  have "int_size 8 (d_size d) = int (d_size d * 8)" using small by (intro int_size_small) simp
  moreover have "2 * int (d_size d * 8) < 2 ^ 31" using small by simp
  ultimately have 1: "mem_double [False] None 8 (d_val d) (d_size d) = Some (None, [])"
    by (simp add: mem_double_def)
  have a: "all_ok []" by (simp add: all_ok_def)
  obtain al2 where 2: "mem_double [] None 8 (d_key d) (d_size d)
      = Some (Some (d_key d @ replicate (d_size d) None), al2)" "all_ok al2"
    using mem_double_ok [OF a, of "d_key d" "d_size d" 8] assms(1) small
    by (auto simp: whole_def)
  obtain al3 where 3: "mem_double al2 0 4 (d_hash d) (d_size d)
      = Some (Some (d_hash d @ replicate (d_size d) 0), al3)" "all_ok al3"
    using mem_double_ok [OF 2(2), of "d_hash d" "d_size d" 4] assms(1) small
    by (auto simp: whole_def)
  show ?thesis using 1 2 3 by (simp add: dictionary_grow_def)
qed

text \<open>
  When the dictionary is full and growing it fails for lack of memory, the set returns
  -1 as documented, but the dictionary it leaves cannot even be deleted: its
  \<^verbatim>\<open>val\<close> array is NULL and \<^verbatim>\<open>dictionary_del\<close> reads through it.
\<close>

theorem set_growth_failure_breaks_del:
  assumes "wf_dict d" "dict_map d key = None" "d_n d = int (d_size d)" "d_n d < int MAX_SLOTS"
  shows "\<exists>d' al'. dictionary_set [False] (Some d) (Some key) v = Some (-1, Some d', al')
           \<and> d_size d' = d_size d \<and> dictionary_del (Some d') = None"
proof -
  have none: "first_index (\<lambda>o'. o' = Some key) (d_key d) = None"
    using assms(2) by (simp add: dict_map_def)
  have n: "d_size d < MAX_SLOTS" "0 < d_size d"
    using assms(1,3,4) size_ok_pos [of "d_size d"] unfolding wf_dict_def by linarith+
  obtain d' al' where "dictionary_grow [False] d = Some (False, d', al')" "d_val d' = []"
      "d_size d' = d_size d"
    using growth_fails [OF wf_dict_whole [OF assms(1)] n(1)] by blast
  then show ?thesis
    using assms(3) none n(2)
    by (simp add: dictionary_set_wf [OF assms(1)] dictionary_del_def)
qed

definition dict_one :: dictionary where
  "dict_one = \<lparr>d_n = 1, d_size = 1, d_val = [None], d_key = [Some ''a''],
              d_hash = [dictionary_hash ''a'']\<rparr>"

lemma dict_one_wf: "wf_dict dict_one"
proof -
  have "size_ok 1" unfolding size_ok_def by (rule bexI [of _ 0]) auto
  then show ?thesis
    by (simp add: dict_one_def wf_dict_def whole_def used_def keys_distinct_def hashes_ok_def)
qed

theorem set_growth_failure_breaks_del_witness:
  "\<exists>d' al'. dictionary_set [False] (Some dict_one) (Some ''b'') None = Some (-1, Some d', al')
     \<and> dictionary_del (Some d') = None"
  using set_growth_failure_breaks_del [OF dict_one_wf, of "''b''" None]
  by (auto simp: dict_one_def dict_map_def MAX_SLOTS_def)

end
