(* ===== verification/Iniparser.thy ===== *)
theory Iniparser
  imports Leap_Prelude C_Library Dictionary
begin

text \<open>
  \<^verbatim>\<open>tools/platforms/leap-fpga-ctrl/iniparser.c\<close>: the parser of the configuration
  file and the accessors of its result. A section is an entry \<^verbatim>\<open>section\<close> with a NULL
  value, a setting is an entry \<^verbatim>\<open>section:key\<close>. What the C code does outside its
  buffers is an explicit outcome here.
\<close>

definition ASCIILINESZ :: nat where "ASCIILINESZ = 1024"

datatype line_status =
  LINE_UNPROCESSED | LINE_ERROR | LINE_EMPTY | LINE_COMMENT | LINE_SECTION | LINE_VALUE

section \<open>String helpers\<close>

text \<open>\<^verbatim>\<open>strlwc\<close> copies at most \<^verbatim>\<open>ASCIILINESZ\<close> characters.\<close>

definition strlwc :: "string \<Rightarrow> string" where
  "strlwc s = map tolower (take ASCIILINESZ s)"

text \<open>
  \<^verbatim>\<open>strstrip\<close> copies the string without its leading blanks into a static buffer of
  \<^verbatim>\<open>ASCIILINESZ+1\<close> bytes; a longer copy would leave the buffer
  (\<^term>\<open>None\<close>).
\<close>

definition strstrip :: "string \<Rightarrow> string option" where
  "strstrip s = (let t = lstrip s in if length t > ASCIILINESZ then None else Some (rstrip t))"

section \<open>Accessors\<close>

definition is_section :: "string option \<Rightarrow> bool" where
  "is_section k = (case k of None \<Rightarrow> False | Some s \<Rightarrow> CHR '':'' \<notin> set s)"

definition iniparser_getnsec :: "dictionary option \<Rightarrow> int" where
  "iniparser_getnsec dp =
     (case dp of None \<Rightarrow> -1
      | Some d \<Rightarrow> int (length (filter (\<lambda>i. is_section (d_key d ! i)) [0..<d_size d])))"

text \<open>The search loop of \<^verbatim>\<open>iniparser_getsecname\<close>, with its count of sections found.\<close>

fun secname_loop :: "int \<Rightarrow> int \<Rightarrow> string option list \<Rightarrow> string option" where
  "secname_loop n found [] = None"
| "secname_loop n found (k # ks) =
     (if is_section k then
        (if found + 1 > n then k else secname_loop n (found + 1) ks)
      else secname_loop n found ks)"

definition iniparser_getsecname :: "dictionary option \<Rightarrow> int \<Rightarrow> string option" where
  "iniparser_getsecname dp n =
     (case dp of None \<Rightarrow> None
      | Some d \<Rightarrow> if n < 0 then None
                  else secname_loop n 0 (map (\<lambda>i. d_key d ! i) [0..<d_size d]))"

definition iniparser_getstring :: "dictionary option \<Rightarrow> string option \<Rightarrow> cptr \<Rightarrow> cptr" where
  "iniparser_getstring dp key def =
     (case (dp, key) of
        (Some d, Some k) \<Rightarrow> dictionary_get d (strlwc k) def
      | _ \<Rightarrow> def)"

text \<open>
  The typed accessors read through the string they get, numbers with base 0; a section name has a NULL value, so
  \<^term>\<open>None\<close> is the NULL dereference.
\<close>

definition iniparser_getint :: "dictionary option \<Rightarrow> string option \<Rightarrow> int \<Rightarrow> int option" where
  "iniparser_getint dp key notfound =
     (case iniparser_getstring dp key Invalid of
        Invalid \<Rightarrow> Some notfound
      | Null \<Rightarrow> None
      | Str s \<Rightarrow> Some (sint (word_of_int (strtol 0 s) :: 32 word)))"

definition first_char :: "string \<Rightarrow> char" where
  "first_char s = (case s of [] \<Rightarrow> NUL | c # _ \<Rightarrow> c)"

definition iniparser_getboolean :: "dictionary option \<Rightarrow> string option \<Rightarrow> int \<Rightarrow> int option" where
  "iniparser_getboolean dp key notfound =
     (case iniparser_getstring dp key Invalid of
        Invalid \<Rightarrow> Some notfound
      | Null \<Rightarrow> None
      | Str s \<Rightarrow> (let c = first_char s
                 in if c \<in> set ''yY1tT'' then Some 1
                    else if c \<in> set ''nN0fF'' then Some 0 else Some notfound))"

definition iniparser_find_entry :: "dictionary option \<Rightarrow> string option \<Rightarrow> int" where
  "iniparser_find_entry dp entry =
     (if iniparser_getstring dp entry Invalid \<noteq> Invalid then 1 else 0)"

definition iniparser_set ::
    "allocator \<Rightarrow> dictionary option \<Rightarrow> string option \<Rightarrow> string option \<Rightarrow>
     (int \<times> dictionary option \<times> allocator) option" where
  "iniparser_set al dp entry val = dictionary_set al dp (map_option strlwc entry) val"

definition iniparser_unset :: "dictionary \<Rightarrow> string option \<Rightarrow> dictionary" where
  "iniparser_unset d entry = dictionary_unset d (map_option strlwc entry)"

definition iniparser_freedict :: "dictionary option \<Rightarrow> string list option" where
  "iniparser_freedict dp = dictionary_del dp"

section \<open>Printing\<close>

definition iniparser_dump :: "dictionary option \<Rightarrow> bool \<Rightarrow> string" where
  "iniparser_dump dp f_open =
     (case dp of None \<Rightarrow> []
      | Some d \<Rightarrow>
          if \<not> f_open then []
          else concat (map (\<lambda>i. case d_key d ! i of None \<Rightarrow> []
                 | Some k \<Rightarrow> (case d_val d ! i of
                                Some v \<Rightarrow> ''['' @ k @ '']=['' @ v @ '']'' @ [NL]
                              | None \<Rightarrow> ''['' @ k @ '']=UNDEF'' @ [NL])) [0..<d_size d]))"

text \<open>\<^verbatim>\<open>%-30s\<close> pads on the right; \<^verbatim>\<open>%s\<close> prints NULL as \<^verbatim>\<open>(null)\<close>.\<close>

definition pad_right :: "nat \<Rightarrow> string \<Rightarrow> string" where
  "pad_right w s = s @ replicate (w - length s) CHR '' ''"

definition setting_line :: "string \<Rightarrow> string option \<Rightarrow> string" where
  "setting_line k v = pad_right 30 k @ '' = '' @ (case v of Some x \<Rightarrow> x | None \<Rightarrow> []) @ [NL]"



section \<open>One line\<close>

text \<open>
  The directives of \<^verbatim>\<open>sscanf\<close> that the parser uses: \<^verbatim>\<open>%[...]\<close> stores a
  non-empty run of characters, a blank skips blanks, any other character must match.
\<close>

definition scan_set :: "(char \<Rightarrow> bool) \<Rightarrow> string \<Rightarrow> (string \<times> string) option" where
  "scan_set P s = (if takeWhile P s = [] then None else Some (takeWhile P s, dropWhile P s))"

definition scan_lit :: "char \<Rightarrow> string \<Rightarrow> string option" where
  "scan_lit c s = (case s of [] \<Rightarrow> None | x # r \<Rightarrow> if x = c then Some r else None)"

definition scan_key :: "string \<Rightarrow> (string \<times> string) option" where
  "scan_key s = scan_set (\<lambda>c. c \<noteq> CHR ''='') s"

text \<open>\<^verbatim>\<open>%[^=] = \<close> followed by a quote (if any) and a value in a character set.\<close>

definition scan_assign :: "char option \<Rightarrow> (char \<Rightarrow> bool) \<Rightarrow> string \<Rightarrow> (string \<times> string) option" where
  "scan_assign quote P s =
     Option.bind (scan_key s) (\<lambda>(k, r).
     Option.bind (scan_lit CHR ''='' (lstrip r)) (\<lambda>r1.
     Option.bind (case quote of None \<Rightarrow> Some (lstrip r1) | Some q \<Rightarrow> scan_lit q (lstrip r1)) (\<lambda>r2.
     Option.bind (scan_set P r2) (\<lambda>(v, _). Some (k, v)))))"

definition scan_dquoted :: "string \<Rightarrow> (string \<times> string) option" where
  "scan_dquoted s = scan_assign (Some (CHR 0x22)) (\<lambda>c. c \<noteq> CHR 0x22) s"

definition scan_squoted :: "string \<Rightarrow> (string \<times> string) option" where
  "scan_squoted s = scan_assign (Some (CHR 0x27)) (\<lambda>c. c \<noteq> CHR 0x27) s"

definition scan_plain :: "string \<Rightarrow> (string \<times> string) option" where
  "scan_plain s = scan_assign None (\<lambda>c. c \<noteq> CHR '';'' \<and> c \<noteq> CHR ''#'') s"

definition scan_novalue :: "string \<Rightarrow> (string \<times> string) option" where
  "scan_novalue s = scan_assign None (\<lambda>c. c = CHR '';'' \<or> c = CHR ''#'') s"

definition scan_equals :: "string \<Rightarrow> (string \<times> string) option" where
  "scan_equals s =
     Option.bind (scan_key s) (\<lambda>(k, r).
     Option.bind (scan_set (\<lambda>c. c = CHR ''='') (lstrip r)) (\<lambda>(v, _). Some (k, v)))"

definition orelse :: "'a option \<Rightarrow> 'a option \<Rightarrow> 'a option" where
  "orelse a b = (case a of None \<Rightarrow> b | Some x \<Rightarrow> Some x)"

text \<open>
  \<^verbatim>\<open>iniparser_line\<close>: the status and the section, key and value buffers after the
  call. A bracket pair with nothing inside leaves the section buffer as it was; a line that
  is no assignment may still have overwritten the key buffer.
\<close>

definition iniparser_line ::
    "string \<Rightarrow> string \<Rightarrow> string \<Rightarrow> string \<Rightarrow> (line_status \<times> string \<times> string \<times> string) option" where
  "iniparser_line input_line sec key val =
     Option.bind (strstrip input_line) (\<lambda>line.
     if length line < 1 then Some (LINE_EMPTY, sec, key, val)
     else if hd line = CHR ''#'' \<or> hd line = CHR '';'' then Some (LINE_COMMENT, sec, key, val)
     else if hd line = CHR ''['' \<and> last line = CHR '']'' then
       (let sec1 = (case scan_set (\<lambda>c. c \<noteq> CHR '']'') (tl line) of Some (s, _) \<Rightarrow> s | None \<Rightarrow> sec)
        in Option.bind (strstrip sec1) (\<lambda>sec2. Some (LINE_SECTION, strlwc sec2, key, val)))
     else case orelse (scan_dquoted line) (orelse (scan_squoted line) (scan_plain line)) of
       Some (k, v) \<Rightarrow>
         Option.bind (strstrip k) (\<lambda>k1.
         Option.bind (strstrip v) (\<lambda>v1.
           Some (LINE_VALUE, sec, strlwc k1,
                 if v1 = [CHR 0x22, CHR 0x22] \<or> v1 = [CHR 0x27, CHR 0x27] then [] else v1)))
     | None \<Rightarrow>
         (case orelse (scan_novalue line) (scan_equals line) of
            Some (k, _) \<Rightarrow> Option.bind (strstrip k) (\<lambda>k1. Some (LINE_VALUE, sec, strlwc k1, []))
          | None \<Rightarrow>
              Some (LINE_ERROR, sec, (case scan_key line of Some (k, _) \<Rightarrow> k | None \<Rightarrow> key), val)))"

section \<open>The whole file\<close>

record load_state =
  l_last :: nat
  l_line :: string
  l_section :: string
  l_key :: string
  l_val :: string
  l_lineno :: int
  l_errs :: int
  l_dict :: dictionary
  l_al :: allocator
  l_log :: string

text \<open>
  One turn of the loop: go on, leave it, return NULL at once (line too long), or leave the
  bounds of a buffer.
\<close>

datatype load_turn = Go load_state | Leave load_state | TooLong load_state | Overrun

definition store_entry :: "load_state \<Rightarrow> string \<Rightarrow> string option \<Rightarrow> load_state option" where
  "store_entry st k v =
     (case dictionary_set (l_al st) (Some (l_dict st)) (Some k) v of
        Some (r, Some d', al') \<Rightarrow> Some (st\<lparr>l_errs := r, l_dict := d', l_al := al'\<rparr>)
      | _ \<Rightarrow> None)"

text \<open>The three messages of \<^verbatim>\<open>iniparser_load\<close>.\<close>

definition syntax_message :: "string \<Rightarrow> int \<Rightarrow> string \<Rightarrow> string" where
  "syntax_message ininame lineno line = ''iniparser: syntax error in '' @ ininame @ '' (''
     @ show_int lineno @ ''):'' @ [NL] @ ''-> '' @ line @ [NL]"

definition toolong_message :: "string \<Rightarrow> int \<Rightarrow> string" where
  "toolong_message ininame lineno =
     ''iniparser: input line too long in '' @ ininame @ '' ('' @ show_int lineno @ '')'' @ [NL]"

definition memory_message :: string where
  "memory_message = ''iniparser: memory allocation failure'' @ [NL]"

text \<open>The switch on the status of a complete line, and the check of \<^verbatim>\<open>errs\<close> after it.\<close>

definition load_line :: "string \<Rightarrow> load_state \<Rightarrow> string \<Rightarrow> load_turn" where
  "load_line ininame st line =
     (case iniparser_line line (l_section st) (l_key st) (l_val st) of
        None \<Rightarrow> Overrun
      | Some (sta, sec, key, val) \<Rightarrow>
          (let st1 = st\<lparr>l_section := sec, l_key := key, l_val := val\<rparr>;
               st2 = (case sta of
                        LINE_SECTION \<Rightarrow> store_entry st1 sec None
                      | LINE_VALUE \<Rightarrow>
                          if length sec + 1 + length key > ASCIILINESZ then None
                          else store_entry st1 (sec @ '':'' @ key) (Some val)
                      | LINE_ERROR \<Rightarrow>
                          Some (st1\<lparr>l_errs := l_errs st1 + 1,
                            l_log := l_log st1 @ syntax_message ininame (l_lineno st1) line\<rparr>)
                      | _ \<Rightarrow> Some st1)
           in case st2 of None \<Rightarrow> Overrun
              | Some st3 \<Rightarrow>
                  (let st4 = st3\<lparr>l_line := [], l_last := 0\<rparr>
                   in if l_errs st4 < 0
                      then Leave (st4\<lparr>l_log := l_log st4 @ memory_message\<rparr>)
                      else Go st4)))"

definition load_turn :: "string \<Rightarrow> load_state \<Rightarrow> string \<Rightarrow> load_turn" where
  "load_turn ininame st chunk =
     (let buf = take (l_last st) (l_line st) @ chunk;
          st1 = st\<lparr>l_line := buf, l_lineno := l_lineno st + 1\<rparr>;
          line = cstr buf;
          len = int (length line) - 1
      in if len = 0 then Go st1
         else if len < 0 then Overrun
         else if last line \<noteq> NL then
           TooLong (st1\<lparr>l_log := l_log st1 @ toolong_message ininame (l_lineno st1)\<rparr>)
         else (let line1 = rstrip line
               in if line1 = [] then Overrun
                  else if last line1 = CHR 0x5C then
                    Go (st1\<lparr>l_line := line1, l_last := length line1 - 1\<rparr>)
                  else load_line ininame (st1\<lparr>l_line := line1, l_last := 0\<rparr>) line1))"

text \<open>
  The loop, with a bound on its turns: a turn takes at least one character of the file, so
  one more turn than the file has characters is always enough.
\<close>

datatype load_end = Finished load_state | ReturnNull load_state | Faulted

fun load_loop :: "nat \<Rightarrow> string \<Rightarrow> string \<Rightarrow> load_state \<Rightarrow> load_end option" where
  "load_loop 0 ininame file st = None"
| "load_loop (Suc fuel) ininame file st =
     (case fgets (ASCIILINESZ - l_last st) file of
        None \<Rightarrow> Some (Finished st)
      | Some (chunk, rest) \<Rightarrow>
          (case load_turn ininame st chunk of
             Go st' \<Rightarrow> load_loop fuel ininame rest st'
           | Leave st' \<Rightarrow> Some (Finished st')
           | TooLong st' \<Rightarrow> Some (case dictionary_del (Some (l_dict st')) of
                                   None \<Rightarrow> Faulted | Some _ \<Rightarrow> ReturnNull st')
           | Overrun \<Rightarrow> Some Faulted))"

datatype load_result = Loaded dictionary | LoadNull | LoadFault | LoadDiverges

definition load_init :: "dictionary \<Rightarrow> allocator \<Rightarrow> load_state" where
  "load_init d al = \<lparr>l_last = 0, l_line = [], l_section = [], l_key = [], l_val = [],
     l_lineno = 0, l_errs = 0, l_dict = d, l_al = al, l_log = []\<rparr>"

definition load_finish :: "load_end option \<Rightarrow> load_result \<times> string" where
  "load_finish e =
     (case e of None \<Rightarrow> (LoadDiverges, [])
      | Some Faulted \<Rightarrow> (LoadFault, [])
      | Some (ReturnNull st) \<Rightarrow> (LoadNull, l_log st)
      | Some (Finished st) \<Rightarrow>
          if l_errs st \<noteq> 0
          then (case dictionary_del (Some (l_dict st)) of
                  None \<Rightarrow> (LoadFault, []) | Some _ \<Rightarrow> (LoadNull, l_log st))
          else (Loaded (l_dict st), l_log st))"

definition iniparser_load :: "allocator \<Rightarrow> string \<Rightarrow> string option \<Rightarrow> load_result \<times> string" where
  "iniparser_load al ininame contents =
     (case contents of
        None \<Rightarrow> (LoadNull, ''iniparser: cannot open '' @ ininame @ [NL])
      | Some file \<Rightarrow>
          (case dictionary_new al 0 of
             (None, _) \<Rightarrow> (LoadNull, [])
           | (Some d, al') \<Rightarrow>
               load_finish (load_loop (Suc (length file)) ininame file (load_init d al'))))"

section \<open>Loading always ends\<close>

definition room_left :: "load_state \<Rightarrow> bool" where
  "room_left st \<longleftrightarrow> l_last st \<le> ASCIILINESZ - 3"

lemma load_line_room: "load_line nm st line = Go st' \<Longrightarrow> room_left st'"
  by (auto simp: load_line_def room_left_def Let_def split: option.splits prod.splits if_splits)

lemma load_turn_room:
  assumes "load_turn nm st chunk = Go st'" "room_left st"
    and "length chunk < ASCIILINESZ - l_last st"
  shows "room_left st'"
proof -
  let ?buf = "take (l_last st) (l_line st) @ chunk"
  let ?line = "cstr ?buf"
  let ?st1 = "st\<lparr>l_line := ?buf, l_lineno := l_lineno st + 1\<rparr>"
  have short: "length ?line < ASCIILINESZ"
    using cstr_length [of ?buf] assms(3) by simp
  consider (one) "st' = ?st1"
    | (cont) "?line \<noteq> []" "last ?line = NL" "l_last st' = length (rstrip ?line) - 1"
    | (line) "\<exists>st0 l. load_line nm st0 l = Go st'"
    using assms(1) unfolding load_turn_def Let_def
    by (fastforce split: if_splits simp del: takeWhile_append take_append)
  then show ?thesis
  proof cases
    case one
    with assms(2) show ?thesis by (simp add: room_left_def)
  next
    case cont
    then have "length (rstrip ?line) < length ?line"
      using rstrip_shorter [of ?line] isspace_NL by simp
    with short cont(3) show ?thesis by (simp add: room_left_def ASCIILINESZ_def)
  next
    case line
    then show ?thesis by (auto dest: load_line_room)
  qed
qed

lemma load_loop_ends:
  assumes "length inp < fuel" "room_left st"
  shows "\<exists>e. load_loop fuel nm inp st = Some e"
  using assms
proof (induction fuel arbitrary: inp st)
  case (Suc fuel)
  show ?case
  proof (cases "fgets (ASCIILINESZ - l_last st) inp")
    case None
    then show ?thesis by simp
  next
    case (Some cr)
    obtain chunk rest where cr: "cr = (chunk, rest)" by fastforce
    have n: "2 \<le> ASCIILINESZ - l_last st"
      using Suc.prems(2) by (simp add: room_left_def ASCIILINESZ_def)
    note p = fgets_progress [OF Some [unfolded cr] n]
    show ?thesis
    proof (cases "load_turn nm st chunk")
      case (Go st')
      then have "room_left st'" using load_turn_room Suc.prems(2) p by blast
      then show ?thesis using Suc.IH [of rest st'] Suc.prems(1) p Some cr Go by auto
    qed (use Some cr in auto)
  qed
qed simp

lemma load_ends: "fst (iniparser_load al nm contents) \<noteq> LoadDiverges"
proof (cases contents)
  case None
  then show ?thesis by (simp add: iniparser_load_def)
next
  case (Some inp)
  obtain dp al' where n: "dictionary_new al 0 = (dp, al')" by fastforce
  show ?thesis
  proof (cases dp)
    case None
    with Some n show ?thesis by (simp add: iniparser_load_def)
  next
    case (Some d)
    obtain e where "load_loop (Suc (length inp)) nm inp (load_init d al') = Some e"
      using load_loop_ends [of inp "Suc (length inp)" "load_init d al'" nm]
      by (auto simp: room_left_def load_init_def)
    with Some n \<open>contents = Some inp\<close> show ?thesis
      by (auto simp: iniparser_load_def load_finish_def split: load_end.splits option.splits)
  qed
qed

text \<open>
  Loading a configuration file always ends, whatever the file holds (continuation lines,
  overlong lines, no final newline): the loop uses up the file.
\<close>

theorem iniparser_load_terminates: "fst (iniparser_load al nm contents) \<noteq> LoadDiverges"
  by (rule load_ends)

section \<open>Loading keeps the dictionary well-formed\<close>

definition load_ok :: "load_state \<Rightarrow> bool" where
  "load_ok st \<longleftrightarrow> wf_dict (l_dict st) \<and> all_ok (l_al st)"

lemma store_entry_ok:
  assumes "load_ok st" "store_entry st k v = Some st'"
  shows "load_ok st'"
  using assms set_result_or_overflow [of "l_dict st" "l_al st" k v]
  by (auto simp: load_ok_def store_entry_def set_result_def)

lemma load_line_ok:
  assumes "load_ok st"
  shows "case load_line nm st line of Go st' \<Rightarrow> load_ok st' | Leave st' \<Rightarrow> load_ok st'
     | TooLong st' \<Rightarrow> load_ok st' | Overrun \<Rightarrow> True"
proof -
  have "load_ok (st\<lparr>l_section := a, l_key := b, l_val := c\<rparr>)" for a b c
    using assms by (simp add: load_ok_def)
  then show ?thesis
    by (auto simp: load_line_def load_ok_def Let_def dest!: store_entry_ok [rotated]
        split: option.splits prod.splits line_status.splits if_splits)
qed

lemma load_ok_simps [simp]:
  "load_ok (st\<lparr>l_line := a\<rparr>) = load_ok st" "load_ok (st\<lparr>l_lineno := n\<rparr>) = load_ok st"
  "load_ok (st\<lparr>l_last := k\<rparr>) = load_ok st" "load_ok (st\<lparr>l_log := g\<rparr>) = load_ok st"
  by (simp_all add: load_ok_def)

lemma load_turn_ok:
  assumes "load_ok st"
  shows "case load_turn nm st chunk of Go st' \<Rightarrow> load_ok st' | Leave st' \<Rightarrow> load_ok st'
     | TooLong st' \<Rightarrow> load_ok st' | Overrun \<Rightarrow> True"
proof -
  have "case load_line nm (st\<lparr>l_lineno := n, l_line := a, l_last := 0\<rparr>) line of Go st' \<Rightarrow> load_ok st'
     | Leave st' \<Rightarrow> load_ok st' | TooLong st' \<Rightarrow> load_ok st' | Overrun \<Rightarrow> True" for n a line
    by (rule load_line_ok) (simp add: assms)
  then show ?thesis using assms by (simp add: load_turn_def Let_def)
qed

lemma load_loop_ok:
  assumes "load_ok st" "load_loop fuel nm inp st = Some (Finished st')"
  shows "load_ok st'"
  using assms
proof (induction fuel arbitrary: inp st)
  case (Suc fuel)
  show ?case
  proof (cases "fgets (ASCIILINESZ - l_last st) inp")
    case None
    then show ?thesis using Suc.prems by simp
  next
    case (Some cr)
    obtain chunk rest where "cr = (chunk, rest)" by fastforce
    then show ?thesis
      using Suc.prems load_turn_ok [OF Suc.prems(1), of nm chunk] Suc.IH Some
      by (cases "load_turn nm st chunk") (auto split: option.splits)
  qed
qed simp

lemma load_finish_loaded:
  "load_finish e = (Loaded d, msgs) \<Longrightarrow> \<exists>st. e = Some (Finished st) \<and> l_dict st = d"
  by (auto simp: load_finish_def split: option.splits load_end.splits if_splits)

lemma load_wf:
  assumes "all_ok al" "iniparser_load al nm contents = (Loaded d, msgs)"
  shows "wf_dict d"
proof -
  obtain d0 al0 where n: "dictionary_new al 0 = (Some d0, al0)" "all_ok al0" "wf_dict d0"
    using dictionary_new_wf [OF assms(1), of 0] by auto
  obtain inp where "contents = Some inp" using assms(2) by (cases contents) (auto simp: iniparser_load_def)
  then have fin: "load_finish (load_loop (Suc (length inp)) nm inp (load_init d0 al0)) = (Loaded d, msgs)"
    using assms(2) n by (simp add: iniparser_load_def)
  then obtain st where "load_loop (Suc (length inp)) nm inp (load_init d0 al0) = Some (Finished st)"
      "l_dict st = d"
    using load_finish_loaded by blast
  moreover have "load_ok (load_init d0 al0)" using n by (simp add: load_ok_def load_init_def)
  ultimately show ?thesis using load_loop_ok unfolding load_ok_def by blast
qed

section \<open>Lines that a dump writes, read back\<close>

text \<open>Names and values that survive being written and parsed.\<close>

definition plain_text :: "string \<Rightarrow> bool" where
  "plain_text s \<longleftrightarrow> s \<noteq> [] \<and> \<not> isspace (hd s) \<and> \<not> isspace (last s) \<and> NL \<notin> set s
     \<and> NUL \<notin> set s \<and> length s \<le> 400"

definition sec_ok :: "string \<Rightarrow> bool" where
  "sec_ok s \<longleftrightarrow> plain_text s \<and> map tolower s = s \<and> CHR '':'' \<notin> set s \<and> CHR '']'' \<notin> set s"

definition key_ok :: "string \<Rightarrow> bool" where
  "key_ok k \<longleftrightarrow> plain_text k \<and> map tolower k = k \<and> CHR ''='' \<notin> set k
     \<and> hd k \<noteq> CHR ''#'' \<and> hd k \<noteq> CHR '';'' \<and> hd k \<noteq> CHR ''[''"

definition val_ok :: "string \<Rightarrow> bool" where
  "val_ok v \<longleftrightarrow> v = [] \<or> (plain_text v \<and> CHR ''#'' \<notin> set v \<and> CHR '';'' \<notin> set v
     \<and> hd v \<noteq> CHR 0x22 \<and> hd v \<noteq> CHR 0x27 \<and> last v \<noteq> CHR 0x5C)"

lemma strstrip_blanks:
  assumes "s \<noteq> []" "\<not> isspace (hd s)" "\<not> isspace (last s)" "\<forall>c \<in> set b. isspace c"
    "length s + length b \<le> ASCIILINESZ"
  shows "strstrip (s @ b) = Some s"
proof -
  have "lstrip (s @ b) = s @ b" using assms by (intro lstrip_id) simp
  moreover have "rstrip (s @ b) = s" using assms by (simp add: rstrip_blanks rstrip_id)
  ultimately show ?thesis using assms(5) by (simp add: strstrip_def)
qed

lemma strstrip_plain: "plain_text s \<Longrightarrow> strstrip s = Some s"
  using strstrip_blanks [of s "[]"] by (simp add: plain_text_def ASCIILINESZ_def)

lemma strlwc_lower: "map tolower s = s \<Longrightarrow> length s \<le> 400 \<Longrightarrow> strlwc s = s"
  by (simp add: strlwc_def ASCIILINESZ_def)

lemma scan_set_all:
  "s \<noteq> [] \<Longrightarrow> \<forall>c \<in> set s. P c \<Longrightarrow> t = [] \<or> \<not> P (hd t) \<Longrightarrow> scan_set P (s @ t) = Some (s, t)"
  using takeWhile_all_append [of s P t]
  by (cases t) (auto simp: scan_set_def takeWhile_eq_Nil_iff)

lemma line_section:
  assumes "sec_ok s"
  shows "iniparser_line (''['' @ s @ '']'') sec key val = Some (LINE_SECTION, s, key, val)"
proof -
  have "strstrip ((''['' @ s @ '']'') @ []) = Some (''['' @ s @ '']'')"
    using assms by (intro strstrip_blanks)
      (auto simp: sec_ok_def plain_text_def isspace_def ASCIILINESZ_def)
  moreover have "scan_set (\<lambda>c. c \<noteq> CHR '']'') (s @ '']'') = Some (s, '']'')"
    using assms by (intro scan_set_all) (auto simp: sec_ok_def plain_text_def)
  ultimately show ?thesis
    using assms strstrip_plain [of s] strlwc_lower [of s]
    by (simp add: iniparser_line_def sec_ok_def plain_text_def)
qed

text \<open>The text of a setting line without the newline, as \<^verbatim>\<open>rstrip\<close> leaves it.\<close>

definition setting_text :: "string \<Rightarrow> string \<Rightarrow> string" where
  "setting_text k v = k @ replicate (Suc (30 - length k)) CHR '' '' @ ''='' @
     (if v = [] then [] else CHR '' '' # v)"

lemma rstrip_setting:
  assumes "key_ok k" "val_ok v"
  shows "rstrip (setting_line k (Some v)) = setting_text k v"
proof (cases "v = []")
  case True
  have eq: "setting_line k (Some []) = setting_text k [] @ [CHR '' '', NL]"
    by (simp add: setting_line_def pad_right_def setting_text_def replicate_append_same)
  have "rstrip (setting_text k []) = setting_text k []"
    by (rule rstrip_id) (simp add: setting_text_def isspace_def)
  moreover have "\<forall>c \<in> set [CHR '' '', NL]. isspace c" by (simp add: isspace_def NL_def)
  ultimately show ?thesis using True eq rstrip_blanks by metis
next
  case False
  then have eq: "setting_line k (Some v) = setting_text k v @ [NL]"
    by (simp add: setting_line_def pad_right_def setting_text_def replicate_append_same)
  have "rstrip (setting_text k v) = setting_text k v"
    by (rule rstrip_id) (use assms(2) False in \<open>auto simp: setting_text_def val_ok_def plain_text_def\<close>)
  then show ?thesis using isspace_NL by (simp add: eq rstrip_blanks)
qed

lemma setting_scan_key:
  assumes "key_ok k"
  shows "scan_key (setting_text k v)
     = Some (k @ replicate (Suc (30 - length k)) CHR '' '', ''='' @ (if v = [] then [] else CHR '' '' # v))"
proof -
  let ?b = "replicate (Suc (30 - length k)) CHR '' ''"
  have "scan_set (\<lambda>c. c \<noteq> CHR ''='') ((k @ ?b) @ ''='' @ (if v = [] then [] else CHR '' '' # v))
        = Some (k @ ?b, ''='' @ (if v = [] then [] else CHR '' '' # v))"
    by (rule scan_set_all) (use assms in \<open>auto simp: key_ok_def\<close>)
  then show ?thesis by (simp add: scan_key_def setting_text_def)
qed

lemma line_setting:
  assumes "key_ok k" "val_ok v"
  shows "iniparser_line (setting_text k v) sec key val = Some (LINE_VALUE, sec, k, v)"
proof -
  let ?b = "replicate (Suc (30 - length k)) CHR '' ''"
  have "strstrip (setting_text k v @ []) = Some (setting_text k v)"
    using assms by (intro strstrip_blanks)
      (auto simp: key_ok_def val_ok_def plain_text_def setting_text_def isspace_def ASCIILINESZ_def)
  then have strip: "strstrip (setting_text k v) = Some (setting_text k v)" by simp
  have hd: "hd (setting_text k v) = hd k" "setting_text k v \<noteq> []"
    using assms(1) by (auto simp: key_ok_def plain_text_def setting_text_def)
  have k: "strstrip (k @ ?b) = Some k"
    using assms(1) by (intro strstrip_blanks)
      (auto simp: key_ok_def plain_text_def isspace_def ASCIILINESZ_def)
  have low: "strlwc k = k" using assms(1) by (simp add: key_ok_def plain_text_def strlwc_lower)
  have eq: "lstrip (''='' @ x) = ''='' @ x" for x by (simp add: lstrip_def isspace_def)
  show ?thesis
  proof (cases "v = []")
    case True
    have "lstrip [] = []" by (simp add: lstrip_def)
    then have "scan_dquoted (setting_text k v) = None" "scan_squoted (setting_text k v) = None"
        "scan_plain (setting_text k v) = None" "scan_novalue (setting_text k v) = None"
        "scan_equals (setting_text k v) = Some (k @ ?b, ''='')"
      using setting_scan_key [OF assms(1), of v] True eq [of "[]"]
      by (simp_all add: scan_dquoted_def scan_squoted_def scan_plain_def scan_novalue_def
          scan_equals_def scan_assign_def scan_lit_def scan_set_def)
    with True strip hd k low assms(1) show ?thesis
      by (simp add: iniparser_line_def orelse_def key_ok_def)
  next
    case False
    with assms(2) have v: "plain_text v" "\<forall>c \<in> set v. c \<noteq> CHR '';'' \<and> c \<noteq> CHR ''#''"
        "hd v \<noteq> CHR 0x22" "hd v \<noteq> CHR 0x27"
      by (auto simp: val_ok_def)
    have lv: "lstrip (CHR '' '' # v) = v"
      using v(1) lstrip_id [of v] by (simp add: lstrip_def isspace_def plain_text_def)
    obtain c t where ct: "v = c # t" using False by (cases v) auto
    have "scan_set (\<lambda>c. c \<noteq> CHR '';'' \<and> c \<noteq> CHR ''#'') (v @ []) = Some (v, [])"
      by (rule scan_set_all) (use v False in auto)
    then have "scan_dquoted (setting_text k v) = None" "scan_squoted (setting_text k v) = None"
        "scan_plain (setting_text k v) = Some (k @ ?b, v)"
      using setting_scan_key [OF assms(1), of v] False eq [of "CHR '' '' # v"] lv v(3,4) ct
      by (simp_all add: scan_dquoted_def scan_squoted_def scan_plain_def scan_assign_def scan_lit_def)
    moreover have "v \<noteq> [CHR 0x22, CHR 0x22]" "v \<noteq> [CHR 0x27, CHR 0x27]" using v(3,4) by auto
    ultimately show ?thesis
      using strip hd k low assms(1) strstrip_plain [OF v(1)]
      by (simp add: iniparser_line_def orelse_def key_ok_def)
  qed
qed

section \<open>Files in canonical form\<close>

text \<open>
  A file of blank lines, section titles and settings, each written the way
  \<^verbatim>\<open>iniparser_dump_ini\<close> writes it, and the entries it stands for.
\<close>

datatype ini_item = Blank | Title string | Setting string string

fun render :: "ini_item \<Rightarrow> string" where
  "render Blank = [NL]"
| "render (Title s) = ''['' @ s @ '']'' @ [NL]"
| "render (Setting k v) = setting_line k (Some v)"

fun item_ok :: "ini_item \<Rightarrow> bool" where
  "item_ok Blank = True"
| "item_ok (Title s) = sec_ok s"
| "item_ok (Setting k v) = (key_ok k \<and> val_ok v)"

fun entries :: "string \<Rightarrow> ini_item list \<Rightarrow> (string \<times> string option) list" where
  "entries sec [] = []"
| "entries sec (Blank # is) = entries sec is"
| "entries sec (Title s # is) = (s, None) # entries s is"
| "entries sec (Setting k v # is) = (sec @ '':'' @ k, Some v) # entries sec is"

lemma entries_first: "length (entries sec [it]) \<le> length (entries sec (it # its))"
  by (cases it) auto

lemma entries_append:
  "\<exists>sec'. entries sec (xs @ ys) = entries sec xs @ entries sec' ys"
  by (induction sec xs rule: entries.induct) auto

definition at_line :: "string \<Rightarrow> int \<Rightarrow> load_state \<Rightarrow> string \<Rightarrow> dictionary \<Rightarrow> bool" where
  "at_line lg e st sec d \<longleftrightarrow> l_last st = 0 \<and> l_section st = sec \<and> l_errs st = e \<and> l_dict st = d
     \<and> l_al st = [] \<and> l_log st = lg"

lemma dictionary_set_nil:
  assumes "wf_dict d" "dict_entries d < MAX_SLOTS"
  shows "dictionary_set [] (Some d) (Some k) v = Some (0, Some (dict_put d k v), [])"
proof -
  have x: "xstrdup [] w = (w, [])" for w by (simp add: xstrdup_def split: option.splits)
  have m: "mem_double [] z w xs n = Some (r, al) \<Longrightarrow> al = []" for z :: 'b and w xs n r al
    by (auto simp: mem_double_def Let_def split: if_splits)
  have g: "dictionary_grow [] d = Some (b, d1, al) \<Longrightarrow> al = []" for b d1 al
    by (auto simp: dictionary_grow_def Let_def dest!: m split: option.splits if_splits)
  have "set_result d k v (dictionary_set [] (Some d) (Some k) v)"
    by (rule dictionary_set_spec [OF assms(1)]) (use assms in \<open>simp_all add: all_ok_def dict_entries_less\<close>)
  then obtain d' al' where r: "dictionary_set [] (Some d) (Some k) v = Some (0, Some d', al')"
    by (auto simp: set_result_def)
  moreover have "al' = []"
    using r by (auto simp: dictionary_set_wf [OF assms(1)] dictionary_insert_def x dest!: g
        split: option.splits prod.splits if_splits)
  ultimately show ?thesis by (simp add: dict_put_def)
qed

lemma turn_blank:
  "at_line lg e st sec d \<Longrightarrow> \<exists>st'. load_turn nm st [NL] = Go st' \<and> at_line lg e st' sec d"
  by (simp add: load_turn_def at_line_def cstr_def NL_def NUL_def)

lemma turn_text:
  assumes "at_line lg e st sec d" "NUL \<notin> set t" "t \<noteq> []" "rstrip (t @ [NL]) = line" "line \<noteq> []"
    "last line \<noteq> CHR 0x5C"
  shows "\<exists>st'. load_turn nm st (t @ [NL]) = load_line nm st' line \<and> at_line lg e st' sec d"
proof -
  have c: "cstr (t @ [NL]) = t @ [NL]"
    by (rule cstr_id) (use assms(2) in \<open>auto simp: NL_def NUL_def\<close>)
  let ?st = "st\<lparr>l_lineno := l_lineno st + 1, l_line := line, l_last := 0\<rparr>"
  have "load_turn nm st (t @ [NL]) = load_line nm ?st line"
    using assms(1,3-6) by (simp add: load_turn_def at_line_def c Let_def)
  moreover have "at_line lg e ?st sec d" using assms(1) by (simp add: at_line_def)
  ultimately show ?thesis by blast
qed

lemma load_line_section:
  assumes "at_line lg e st sec d" "sec_ok s" "wf_dict d" "dict_entries d < MAX_SLOTS"
  shows "\<exists>st'. load_line nm st (''['' @ s @ '']'') = Go st' \<and> at_line lg 0 st' s (dict_put d s None)"
  using assms line_section [OF assms(2)]
  by (simp add: load_line_def at_line_def store_entry_def dictionary_set_nil)

lemma load_line_setting:
  assumes "at_line lg e st sec d" "key_ok k" "val_ok v" "wf_dict d" "length sec \<le> 400"
    "dict_entries d < MAX_SLOTS"
  shows "\<exists>st'. load_line nm st (setting_text k v) = Go st'
           \<and> at_line lg 0 st' sec (dict_put d (sec @ '':'' @ k) (Some v))"
  using assms line_setting [OF assms(2,3)]
  by (simp add: load_line_def at_line_def store_entry_def dictionary_set_nil key_ok_def
      plain_text_def ASCIILINESZ_def)

lemma setting_line_text:
  assumes "key_ok k" "val_ok v"
  obtains t where "setting_line k (Some v) = t @ [NL]" "NL \<notin> set t" "NUL \<notin> set t" "t \<noteq> []"
    "length t \<le> 850"
proof
  let ?t = "pad_right 30 k @ '' = '' @ v"
  show "setting_line k (Some v) = ?t @ [NL]" by (simp add: setting_line_def)
  show "NL \<notin> set ?t" "NUL \<notin> set ?t" "?t \<noteq> []" "length ?t \<le> 850"
    using assms by (auto simp: key_ok_def val_ok_def plain_text_def pad_right_def NL_def NUL_def)
qed

text \<open>One item is read in one turn and stores its entry.\<close>

lemma load_item:
  assumes "item_ok it" "at_line lg e st sec d" "wf_dict d" "length sec \<le> 400"
    "dict_entries d + length (entries sec [it]) \<le> MAX_SLOTS"
  shows "\<exists>sec' st'. load_loop (Suc fuel) nm (render it @ rest) st = load_loop fuel nm rest st'
           \<and> at_line lg (if it = Blank then e else 0) st' sec' (dm.puts d (entries sec [it])) \<and> length sec' \<le> 400
           \<and> (\<forall>its. entries sec (it # its) = entries sec [it] @ entries sec' its)"
proof (cases it)
  case Blank
  have "fgets (ASCIILINESZ - l_last st) ([] @ NL # rest) = Some ([] @ [NL], rest)"
    by (rule fgets_line) (use assms(2) in \<open>simp_all add: at_line_def ASCIILINESZ_def\<close>)
  moreover obtain st' where "load_turn nm st [NL] = Go st'" "at_line lg e st' sec d"
    using turn_blank [OF assms(2)] by blast
  ultimately show ?thesis using Blank assms by (auto simp: dm.puts_def)
next
  case (Title s)
  let ?t = "''['' @ s @ '']''"
  have s: "sec_ok s" and room: "dict_entries d < MAX_SLOTS" using assms(1,5) Title by simp_all
  have "fgets (ASCIILINESZ - l_last st) (?t @ NL # rest) = Some (?t @ [NL], rest)"
    by (rule fgets_line)
      (use s assms(2) in \<open>auto simp: at_line_def ASCIILINESZ_def sec_ok_def plain_text_def NL_def\<close>)
  moreover have "rstrip (?t @ [NL]) = ?t"
    using rstrip_blanks [of "[NL]" ?t] rstrip_id [of ?t] isspace_NL
    by (auto simp: isspace_def)
  then obtain st1 where "load_turn nm st (?t @ [NL]) = load_line nm st1 ?t" "at_line lg e st1 sec d"
    using turn_text [OF assms(2), of ?t ?t nm] s
    by (auto simp: sec_ok_def plain_text_def NUL_def)
  moreover obtain st2 where "load_line nm st1 ?t = Go st2" "at_line lg 0 st2 s (dict_put d s None)"
    using load_line_section [OF calculation(3) s assms(3) room] by blast
  ultimately show ?thesis
    using Title s by (auto simp: dm.puts_def sec_ok_def plain_text_def)
next
  case (Setting k v)
  then have kv: "key_ok k" "val_ok v" and room: "dict_entries d < MAX_SLOTS"
    using assms(1,5) by auto
  obtain t where t: "setting_line k (Some v) = t @ [NL]" "NL \<notin> set t" "NUL \<notin> set t" "t \<noteq> []"
      "length t \<le> 850"
    using setting_line_text [OF kv] by blast
  have "fgets (ASCIILINESZ - l_last st) (t @ NL # rest) = Some (t @ [NL], rest)"
    by (rule fgets_line) (use t assms(2) in \<open>auto simp: at_line_def ASCIILINESZ_def\<close>)
  moreover have line: "rstrip (t @ [NL]) = setting_text k v"
    using rstrip_setting [OF kv] t(1) by simp
  have "last (setting_text k v) \<noteq> CHR 0x5C" "setting_text k v \<noteq> []"
    using kv by (auto simp: setting_text_def val_ok_def)
  then obtain st1 where "load_turn nm st (t @ [NL]) = load_line nm st1 (setting_text k v)"
      "at_line lg e st1 sec d"
    using turn_text [OF assms(2) t(3,4) line] by blast
  moreover obtain st2 where "load_line nm st1 (setting_text k v) = Go st2"
      "at_line lg 0 st2 sec (dict_put d (sec @ '':'' @ k) (Some v))"
    using load_line_setting [OF calculation(3) kv assms(3,4) room] by blast
  ultimately show ?thesis
    using Setting t(1) assms(4) by (auto simp: dm.puts_def split: if_splits)
qed

lemma load_items:
  assumes "list_all item_ok its" "at_line lg e st sec d" "wf_dict d" "length sec \<le> 400"
    "length its < fuel" "dict_entries d + length (entries sec its) \<le> MAX_SLOTS"
  shows "\<exists>sec' st'. load_loop fuel nm (concat (map render its)) st = Some (Finished st')
           \<and> at_line lg (if \<forall>it \<in> set its. it = Blank then e else 0) st' sec'
               (dm.puts d (entries sec its))"
  using assms
proof (induction its arbitrary: st sec d fuel e)
  case Nil
  then obtain f where "fuel = Suc f" by (cases fuel) auto
  with Nil show ?case by (auto simp: fgets_def dm.puts_def)
next
  case (Cons it its)
  then obtain f where f: "fuel = Suc f" by (cases fuel) auto
  obtain sec' st' where 1:
      "load_loop (Suc f) nm (render it @ concat (map render its)) st
         = load_loop f nm (concat (map render its)) st'"
      "at_line lg (if it = Blank then e else 0) st' sec' (dm.puts d (entries sec [it]))" "length sec' \<le> 400"
      "entries sec (it # its) = entries sec [it] @ entries sec' its"
    using load_item [of it lg e st sec d f nm "concat (map render its)"] Cons.prems
      entries_first [of sec it its] by auto
  then have "wf_dict (dm.puts d (entries sec [it]))"
      "dict_entries (dm.puts d (entries sec [it])) + length (entries sec' its) \<le> MAX_SLOTS"
    using dm.puts_keep [OF Cons.prems(3), of "entries sec [it]"] Cons.prems(6) by auto
  then obtain sec2 st2 where
      "load_loop f nm (concat (map render its)) st' = Some (Finished st2)"
      "at_line lg (if \<forall>it \<in> set its. it = Blank then (if it = Blank then e else 0) else 0) st2 sec2
         (dm.puts (dm.puts d (entries sec [it])) (entries sec' its))"
    using Cons.IH [OF _ 1(2) _ 1(3), of f] Cons.prems(1,5) f by auto
  then show ?case using 1 f by (auto simp: dm.puts_def split: if_splits)
qed

lemma render_nonempty: "render it \<noteq> []"
  by (cases it) (auto simp: setting_line_def)

lemma render_length: "length its \<le> length (concat (map render its))"
proof (induction its)
  case (Cons it its)
  then show ?case using render_nonempty [of it] by (cases "render it") auto
qed simp

lemma dict0_new: "\<exists>al. dictionary_new [] 0 = (Some dict0, al) \<and> al = []"
  by (simp add: dict0_def dictionary_new_def)

lemma dict0_del: "dictionary_del (Some d) \<noteq> None" if "wf_dict d" for d
  using that by (simp add: dictionary_del_def wf_dict_def whole_def)

lemma load_render:
  assumes "list_all item_ok its" "length (entries [] its) \<le> MAX_SLOTS"
  shows "iniparser_load [] nm (Some (concat (map render its)))
         = (Loaded (dm.puts dict0 (entries [] its)), [])"
proof -
  let ?text = "concat (map render its)"
  have "at_line [] 0 (load_init dict0 []) [] dict0" by (simp add: at_line_def load_init_def)
  from load_items [OF assms(1) this dict0_wf, of "Suc (length ?text)" nm]
  obtain sec st where st: "load_loop (Suc (length ?text)) nm ?text (load_init dict0 []) = Some (Finished st)"
      "at_line [] 0 st sec (dm.puts dict0 (entries [] its))"
    using render_length [of its] assms(2) by auto
  have "dictionary_new [] 0 = (Some dict0, [])" using dict0_new by auto
  with st show ?thesis
    by (simp add: iniparser_load_def load_finish_def at_line_def del: load_loop.simps)
qed

text \<open>
  A configuration file in canonical form, of at most \<^term>\<open>MAX_SLOTS\<close> entries, loads without a message, and the dictionary
  holds exactly its settings: a lookup finds the last setting of that name in the file, and
  the default when there is none.
\<close>

theorem load_canonical:
  assumes "list_all item_ok its" "length (entries [] its) \<le> MAX_SLOTS"
  shows "\<exists>d. iniparser_load [] nm (Some (concat (map render its))) = (Loaded d, [])
     \<and> wf_dict d
     \<and> (\<forall>key def. dictionary_get d key def
          = (case map_of (rev (entries [] its)) key of None \<Rightarrow> def | Some v \<Rightarrow> cptr_of v))"
  using load_render [OF assms, of nm] dm.puts_inv [OF dict0_wf, of "entries [] its"] assms(2)
  by (auto simp: dict_get_map dm.puts_lk [OF dict0_wf] dict0_map split: option.splits)

theorem load_canonical_witness:
  "\<exists>d. iniparser_load [] ''config''
         (Some (concat (map render [Title ''vc707.0'', Setting ''class'' ''VC707'']))) = (Loaded d, [])
     \<and> dictionary_get d ''vc707.0:class'' Invalid = Str ''VC707''"
proof -
  have "list_all item_ok [Title ''vc707.0'', Setting ''class'' ''VC707'']"
    by (simp add: sec_ok_def key_ok_def val_ok_def plain_text_def isspace_def tolower_def NL_def NUL_def)
  moreover have "length (entries [] [Title ''vc707.0'', Setting ''class'' ''VC707'']) \<le> MAX_SLOTS"
    by (simp add: MAX_SLOTS_def)
  ultimately obtain d where d:
      "iniparser_load [] ''config''
         (Some (concat (map render [Title ''vc707.0'', Setting ''class'' ''VC707'']))) = (Loaded d, [])"
      "\<forall>key def. dictionary_get d key def
         = (case map_of (rev (entries [] [Title ''vc707.0'', Setting ''class'' ''VC707''])) key of
              None \<Rightarrow> def | Some v \<Rightarrow> cptr_of v)"
    using load_canonical by blast
  from d(2) have "dictionary_get d ''vc707.0:class'' Invalid = Str ''VC707''"
    by (simp add: cptr_of_def)
  with d(1) show ?thesis by blast
qed

section \<open>Sections in slot order\<close>

definition sections :: "dictionary \<Rightarrow> string list" where
  "sections d = map the (filter is_section (map (\<lambda>i. d_key d ! i) [0..<d_size d]))"

lemma is_section_Some: "is_section k \<Longrightarrow> \<exists>s. k = Some s \<and> CHR '':'' \<notin> set s"
  by (auto simp: is_section_def split: option.splits)

lemma secname_loop_nth:
  assumes "found \<le> n"
  shows "secname_loop n found ks
     = (if nat (n - found) < length (filter is_section ks)
        then filter is_section ks ! nat (n - found) else None)"
  using assms
proof (induction n found ks rule: secname_loop.induct)
  case (2 n found k ks)
  show ?case
  proof (cases "is_section k \<and> found < n")
    case True
    then have "nat (n - found) = Suc (nat (n - (found + 1)))" by arith
    with True 2 show ?thesis by simp
  next
    case False
    with 2 show ?thesis by auto
  qed
qed simp

lemma getnsec_sections: "iniparser_getnsec (Some d) = int (length (sections d))"
  by (simp add: iniparser_getnsec_def sections_def filter_map comp_def)

lemma getsecname_sections:
  assumes "0 \<le> n"
  shows "iniparser_getsecname (Some d) n
     = (if nat n < length (sections d) then Some (sections d ! nat n) else None)"
proof -
  let ?f = "filter is_section (map (\<lambda>i. d_key d ! i) [0..<d_size d])"
  have "\<exists>s. ?f ! i = Some s" if "i < length ?f" for i
    using nth_mem [OF that] is_section_Some by auto
  then show ?thesis
    using assms by (auto simp: iniparser_getsecname_def secname_loop_nth sections_def)
qed

lemma sections_wf: "wf_dict d \<Longrightarrow> sections d = map the (filter is_section (d_key d))"
  by (metis map_nth sections_def wf_dict_def whole_def)

lemma sections_set:
  assumes "wf_dict d"
  shows "s \<in> set (sections d) \<longleftrightarrow> dict_map d s \<noteq> None \<and> CHR '':'' \<notin> set s"
proof -
  have "s \<in> the ` {k \<in> set ks. is_section k} \<longleftrightarrow> Some s \<in> set ks \<and> CHR '':'' \<notin> set s" for ks
    by (force simp: is_section_def split: option.splits)
  then show ?thesis by (simp add: sections_wf [OF assms] dict_map_None_keys)
qed

lemma keys_distinct_Cons:
  assumes "keys_distinct (k # ks)"
  shows "keys_distinct ks \<and> (k \<noteq> None \<longrightarrow> k \<notin> set ks)"
proof
  show "keys_distinct ks"
    unfolding keys_distinct_def
  proof (intro allI impI)
    fix i j
    assume "i < length ks" "j < length ks" "ks ! i \<noteq> None" "ks ! i = ks ! j"
    then show "i = j" using keys_distinctD [OF assms, of "Suc i" "Suc j"] by auto
  qed
  show "k \<noteq> None \<longrightarrow> k \<notin> set ks"
    using keys_distinctD [OF assms, of 0 "Suc _"] by (fastforce simp: in_set_conv_nth)
qed

lemma sections_distinct:
  assumes "wf_dict d"
  shows "distinct (sections d)"
proof -
  have "distinct (filter is_section ks)" if "keys_distinct ks" for ks
    using that by (induction ks) (auto dest!: keys_distinct_Cons is_section_Some)
  then have "distinct (filter is_section (d_key d))" using assms by (simp add: wf_dict_def)
  moreover have "inj_on the (set (filter is_section (d_key d)))"
    by (auto intro!: inj_onI dest!: is_section_Some)
  ultimately show ?thesis by (simp add: sections_wf [OF assms] distinct_map)
qed

text \<open>
  Sections are numbered without gaps: for every number from 0 below
  \<^verbatim>\<open>iniparser_getnsec\<close> there is a name, different numbers have different names,
  the names are exactly the entries without a colon, and any other number yields NULL.
\<close>

theorem sections_numbered:
  assumes "wf_dict d"
  shows "(\<forall>n. (iniparser_getsecname (Some d) n \<noteq> None) = (0 \<le> n \<and> n < iniparser_getnsec (Some d)))
     \<and> (\<forall>m n s. iniparser_getsecname (Some d) m = Some s \<longrightarrow>
            iniparser_getsecname (Some d) n = Some s \<longrightarrow> m = n)
     \<and> (\<forall>s. (\<exists>n. iniparser_getsecname (Some d) n = Some s)
            = (dict_map d s \<noteq> None \<and> CHR '':'' \<notin> set s))"
proof -
  have neg: "iniparser_getsecname (Some d) n = None" if "n < 0" for n
    using that by (simp add: iniparser_getsecname_def)
  have 1: "(iniparser_getsecname (Some d) n \<noteq> None) = (0 \<le> n \<and> n < iniparser_getnsec (Some d))" for n
    using neg [of n] by (cases "0 \<le> n") (auto simp: getsecname_sections getnsec_sections)
  have 2: "m = n" if "iniparser_getsecname (Some d) m = Some s" "iniparser_getsecname (Some d) n = Some s"
    for m n s
  proof -
    have "0 \<le> m" "0 \<le> n" using that neg [of m] neg [of n] by fastforce+
    with that sections_distinct [OF assms] show ?thesis
      by (auto simp: getsecname_sections nth_eq_iff_index_eq split: if_splits)
  qed
  have 3: "(\<exists>n. iniparser_getsecname (Some d) n = Some s) = (s \<in> set (sections d))" for s
  proof
    assume "\<exists>n. iniparser_getsecname (Some d) n = Some s"
    then obtain n where n: "iniparser_getsecname (Some d) n = Some s" by blast
    then have "0 \<le> n" using neg [of n] by fastforce
    with n show "s \<in> set (sections d)" by (auto simp: getsecname_sections split: if_splits)
  next
    assume "s \<in> set (sections d)"
    then obtain i where "i < length (sections d)" "sections d ! i = s" by (auto simp: in_set_conv_nth)
    then have "iniparser_getsecname (Some d) (int i) = Some s" by (simp add: getsecname_sections)
    then show "\<exists>n. iniparser_getsecname (Some d) n = Some s" by blast
  qed
  show ?thesis using 1 2 3 sections_set [OF assms] by blast
qed

theorem sections_numbered_witness:
  "iniparser_getsecname (Some (dict_put dict0 ''a'' None)) (iniparser_getnsec (Some (dict_put dict0 ''a'' None)))
     = None"
  using sections_numbered [of "dict_put dict0 ''a'' None"] dict0_put by auto

section \<open>Dumping and loading again\<close>




























section \<open>Errors and buffer limits\<close>

text \<open>A line that is no title, setting or comment.\<close>

definition junk :: "string \<Rightarrow> bool" where
  "junk b \<longleftrightarrow> plain_text b \<and> CHR ''='' \<notin> set b \<and> hd b \<noteq> CHR ''#'' \<and> hd b \<noteq> CHR '';''
     \<and> hd b \<noteq> CHR ''['' \<and> last b \<noteq> CHR 0x5C"

lemma line_junk:
  assumes "junk b"
  shows "\<exists>key'. iniparser_line b sec key val = Some (LINE_ERROR, sec, key', val)"
proof -
  have "scan_key (b @ []) = Some (b, [])"
    unfolding scan_key_def by (rule scan_set_all) (use assms in \<open>auto simp: junk_def plain_text_def\<close>)
  then have "scan_key b = Some (b, [])" by simp
  then have "scan_dquoted b = None" "scan_squoted b = None" "scan_plain b = None"
      "scan_novalue b = None" "scan_equals b = None"
    by (simp_all add: scan_dquoted_def scan_squoted_def scan_plain_def scan_novalue_def
        scan_equals_def scan_assign_def scan_lit_def scan_set_def lstrip_def)
  then show ?thesis
    using assms strstrip_plain [of b]
    by (simp add: iniparser_line_def orelse_def junk_def plain_text_def)
qed

lemma load_junk:
  assumes "junk b"
  shows "\<exists>st'. load_loop (Suc fuel) nm (b @ NL # rest) (load_init d []) = load_loop fuel nm rest st'
           \<and> at_line (syntax_message nm 1 b) 1 st' [] d"
proof -
  let ?st = "load_init d []"
  have b: "plain_text b" "last b \<noteq> CHR 0x5C" using assms by (auto simp: junk_def)
  have "fgets (ASCIILINESZ - l_last ?st) (b @ NL # rest) = Some (b @ [NL], rest)"
    by (rule fgets_line) (use b in \<open>auto simp: load_init_def ASCIILINESZ_def plain_text_def\<close>)
  moreover have "rstrip (b @ [NL]) = b"
    using rstrip_blanks [of "[NL]" b] rstrip_id [of b] isspace_NL b by (simp add: plain_text_def)
  then have "load_turn nm ?st (b @ [NL])
      = load_line nm (?st\<lparr>l_lineno := 1, l_line := b, l_last := 0\<rparr>) b"
    using b cstr_id [of "b @ [NL]"]
    by (simp add: load_turn_def load_init_def plain_text_def NL_def NUL_def)
  moreover obtain key' where "iniparser_line b [] [] [] = Some (LINE_ERROR, [], key', [])"
    using line_junk [OF assms] by blast
  then have "\<exists>st'. load_line nm (?st\<lparr>l_lineno := 1, l_line := b, l_last := 0\<rparr>) b = Go st'
      \<and> at_line (syntax_message nm 1 b) 1 st' [] d"
    by (simp add: load_line_def load_init_def at_line_def)
  ultimately show ?thesis by auto
qed

text \<open>
  A syntax error does not make the load fail when anything is stored after it: the
  message is printed, but \<^verbatim>\<open>errs\<close> is overwritten by the next
  \<^verbatim>\<open>dictionary_set\<close>, so the file loads as if the line were not there.
\<close>

theorem syntax_error_forgotten:
  assumes "junk b" "list_all item_ok its" "it \<in> set its" "it \<noteq> Blank"
    "length (entries [] its) \<le> MAX_SLOTS"
  shows "iniparser_load [] nm (Some (b @ NL # concat (map render its)))
         = (Loaded (dm.puts dict0 (entries [] its)), syntax_message nm 1 b)"
proof -
  let ?text = "b @ NL # concat (map render its)"
  obtain st' where st': "load_loop (Suc (length ?text)) nm ?text (load_init dict0 [])
        = load_loop (length ?text) nm (concat (map render its)) st'"
      "at_line (syntax_message nm 1 b) 1 st' [] dict0"
    using load_junk [OF assms(1)] by blast
  have "length its < length ?text" using render_length [of its] by simp
  from load_items [OF assms(2) st'(2) dict0_wf _ this, of nm]
  obtain sec st where "load_loop (length ?text) nm (concat (map render its)) st' = Some (Finished st)"
      "at_line (syntax_message nm 1 b) (if \<forall>it \<in> set its. it = Blank then 1 else 0) st sec
         (dm.puts dict0 (entries [] its))"
    using assms(5) by auto
  moreover have "dictionary_new [] 0 = (Some dict0, [])" using dict0_new by auto
  ultimately show ?thesis
    using st'(1) assms(3,4)
    by (auto simp: iniparser_load_def load_finish_def at_line_def simp del: load_loop.simps)
qed

theorem syntax_error_forgotten_witness:
  "iniparser_load [] ''cfg'' (Some (''oops'' @ NL # concat (map render [Title ''a''])))
     = (Loaded (dm.puts dict0 (entries [] [Title ''a''])), syntax_message ''cfg'' 1 ''oops'')"
proof -
  have "junk ''oops''" by (simp add: junk_def plain_text_def isspace_def NL_def NUL_def)
  moreover have "list_all item_ok [Title ''a'']"
    by (simp add: sec_ok_def plain_text_def isspace_def tolower_def NL_def NUL_def)
  ultimately show ?thesis using syntax_error_forgotten [of "''oops''" "[Title ''a'']" "Title ''a''"]
    by (simp add: MAX_SLOTS_def)
qed

text \<open>
  A section title and a setting that are each short enough for their buffers can
  together be too long for the buffer that joins them: the load then writes behind
  \<^verbatim>\<open>tmp\<close>.
\<close>

theorem section_and_key_overrun:
  assumes "length sec + 1 + length k > ASCIILINESZ"
    and "iniparser_line line sec key val = Some (LINE_VALUE, sec, k, v)"
    and "l_section st = sec" "l_key st = key" "l_val st = val"
  shows "load_line nm st line = Overrun"
  using assms by (simp add: load_line_def)

lemma key_ok_replicate: "0 < n \<Longrightarrow> n \<le> 400 \<Longrightarrow> key_ok (replicate n CHR ''k'')"
  by (cases n) (auto simp: key_ok_def plain_text_def isspace_def tolower_def NL_def NUL_def
      last_ConsR last_replicate)

theorem section_and_key_overrun_witness:
  "load_line ''cfg'' (load_init dict0 []\<lparr>l_section := replicate 800 CHR ''s''\<rparr>)
     (setting_text (replicate 400 CHR ''k'') ''v'') = Overrun"
proof (rule section_and_key_overrun)
  have "key_ok (replicate 400 CHR ''k'')" by (rule key_ok_replicate) simp_all
  moreover have "val_ok ''v''" by (simp add: val_ok_def plain_text_def isspace_def NL_def NUL_def)
  ultimately show "iniparser_line (setting_text (replicate 400 CHR ''k'') ''v'')
      (replicate 800 CHR ''s'') [] []
      = Some (LINE_VALUE, replicate 800 CHR ''s'', replicate 400 CHR ''k'', ''v'')"
    by (rule line_setting)
  show "ASCIILINESZ < length (replicate 800 CHR ''s'') + 1 + length (replicate 400 CHR ''k'')"
    by (simp only: ASCIILINESZ_def length_replicate)
qed (simp_all only: load_init_def load_state.simps)

text \<open>
  A line of blanks (anything but a bare newline) makes the load read the byte in front
  of its line buffer: all characters are stripped and \<^verbatim>\<open>line[-1]\<close> is tested for a
  backslash.
\<close>

theorem blank_line_overrun:
  assumes "l_last st = 0" "bs \<noteq> []" "\<forall>c \<in> set bs. isspace c"
  shows "load_turn nm st (bs @ [NL]) = Overrun"
proof -
  have "\<not> isspace NUL" by (simp add: isspace_def NUL_def)
  then have "NUL \<notin> set bs" using assms(3) by blast
  then have c: "cstr (bs @ [NL]) = bs @ [NL]" by (intro cstr_id) (auto simp: NL_def NUL_def)
  have "\<forall>c \<in> set (bs @ [NL]). isspace c" using assms(3) isspace_NL by simp
  then have "rstrip (bs @ [NL]) = []"
    using rstrip_blanks [of "bs @ [NL]" "[]"] by (simp add: rstrip_def)
  then show ?thesis using assms by (simp add: load_turn_def c Let_def)
qed

theorem blank_line_overrun_witness:
  "load_turn ''cfg'' (load_init dict0 []) ('' '' @ [NL]) = Overrun"
  by (rule blank_line_overrun) (simp_all add: load_init_def isspace_def)

text \<open>
  Lookups do not see letter case: a key and its lower-case form, cut to the length the
  code compares, find the same string.
\<close>

theorem getstring_ignores_case:
  "iniparser_getstring dp (Some (strlwc key)) def = iniparser_getstring dp (Some key) def"
  by (cases dp) (simp_all add: iniparser_getstring_def strlwc_def take_map comp_def)

text \<open>
  A boolean or integer read of a section name, which is an entry without a value,
  dereferences NULL instead of returning the caller's default.
\<close>

theorem section_value_null:
  assumes "wf_dict d" "dict_map d (strlwc s) = Some None"
  shows "iniparser_getboolean (Some d) (Some s) nf = None \<and> iniparser_getint (Some d) (Some s) nf = None"
  using assms by (simp add: iniparser_getboolean_def iniparser_getint_def iniparser_getstring_def
      dict_get_map cptr_of_def)

theorem section_value_null_witness:
  "iniparser_getboolean (Some (dict_put dict0 ''a'' None)) (Some ''A'') 0 = None"
  using section_value_null [of "dict_put dict0 ''a'' None" "''A''"] dict0_put
  by (simp add: strlwc_def ASCIILINESZ_def tolower_def char_of_def bit_0)

text \<open>
  The integer notations the comment of \<^verbatim>\<open>iniparser_getint\<close> promises: decimal,
  octal with a leading 0, hexadecimal with a leading 0x; and the returned value always fits a
  32-bit \<^verbatim>\<open>int\<close>.
\<close>

theorem getint_notation:
  assumes "wf_dict d"
  shows "(dict_map d (strlwc key) = Some (Some ''42'') \<longrightarrow> iniparser_getint (Some d) (Some key) nf = Some 42)
     \<and> (dict_map d (strlwc key) = Some (Some ''042'') \<longrightarrow> iniparser_getint (Some d) (Some key) nf = Some 34)
     \<and> (dict_map d (strlwc key) = Some (Some ''0x42'') \<longrightarrow> iniparser_getint (Some d) (Some key) nf = Some 66)
     \<and> (\<forall>s r. dict_map d (strlwc key) = Some (Some s) \<longrightarrow> iniparser_getint (Some d) (Some key) nf = Some r
          \<longrightarrow> - (2 ^ 31) \<le> r \<and> r < 2 ^ 31)"
proof -
  have get: "iniparser_getint (Some d) (Some key) nf = Some (sint (word_of_int (strtol 0 s) :: 32 word))"
    if "dict_map d (strlwc key) = Some (Some s)" for s
    using that assms by (simp add: iniparser_getint_def iniparser_getstring_def dict_get_map cptr_of_def)
  have "strtol 0 ''42'' = 42" "strtol 0 ''042'' = 34" "strtol 0 ''0x42'' = 66"
    by (simp_all add: scan_defs)
  moreover have "- (2 ^ 31) \<le> sint w \<and> sint w < 2 ^ 31" for w :: "32 word"
    using sint_greater_eq [of w] sint_less [of w] by simp
  ultimately show ?thesis using get by (auto simp: word_of_int_numeral)
qed

theorem getint_notation_witness:
  "iniparser_getint (Some (dict_put dict0 ''a:n'' (Some ''0x42''))) (Some ''A:N'') 0 = Some 66"
  using getint_notation [of "dict_put dict0 ''a:n'' (Some ''0x42'')" "''A:N''" 0]
    dict0_put
  by (simp add: strlwc_def ASCIILINESZ_def tolower_def char_of_def bit_0)

end
