(* ===== verification/Reservation.thy ===== *)
theory Reservation
  imports Leap_Prelude Dictionary Iniparser
begin

text \<open>
  \<^verbatim>\<open>tools/platforms/leap-fpga-ctrl/leap-fpga-ctrl.c\<close>, first half: the states of an
  FPGA, the program's globals and the machine around it, the device's lock file, and the
  transition of the reservation state (\<^verbatim>\<open>change_current_reservation\<close>).
\<close>

section \<open>FPGA states\<close>

datatype fpga_state =
  STATE_FREE | STATE_RESERVED | STATE_PROGRAM | STATE_ACTIVE | STATE_INACTIVE | STATE_RESET

fun state_code :: "fpga_state \<Rightarrow> nat" where
  "state_code STATE_FREE = 0"
| "state_code STATE_RESERVED = 1"
| "state_code STATE_PROGRAM = 2"
| "state_code STATE_ACTIVE = 3"
| "state_code STATE_INACTIVE = 4"
| "state_code STATE_RESET = 5"

definition STATE_LAST :: nat where "STATE_LAST = 6"

text \<open>The code compares states by their enumeration values.\<close>

instantiation fpga_state :: linorder
begin

definition less_eq_fpga_state :: "fpga_state \<Rightarrow> fpga_state \<Rightarrow> bool" where
  "a \<le> b \<longleftrightarrow> state_code a \<le> state_code b"

definition less_fpga_state :: "fpga_state \<Rightarrow> fpga_state \<Rightarrow> bool" where
  "a < b \<longleftrightarrow> state_code a < state_code b"

instance
proof
  fix x y :: fpga_state
  show "x \<le> y \<Longrightarrow> y \<le> x \<Longrightarrow> x = y"
    by (cases x; cases y) (simp_all add: less_eq_fpga_state_def)
qed (auto simp: less_eq_fpga_state_def less_fpga_state_def)

end

lemmas state_order = less_eq_fpga_state_def less_fpga_state_def

text \<open>A state read from a file as an unsigned number; \<^term>\<open>None\<close> at \<^verbatim>\<open>STATE_LAST\<close> and above.\<close>

definition state_of_code :: "u32 \<Rightarrow> fpga_state option" where
  "state_of_code w =
     (if w = 0 then Some STATE_FREE else if w = 1 then Some STATE_RESERVED
      else if w = 2 then Some STATE_PROGRAM else if w = 3 then Some STATE_ACTIVE
      else if w = 4 then Some STATE_INACTIVE else if w = 5 then Some STATE_RESET else None)"

lemma state_of_code_code [simp]: "state_of_code (word_of_nat (state_code s)) = Some s"
  by (cases s) (simp_all add: state_of_code_def)

lemma state_of_code_last: "state_of_code w = None \<longleftrightarrow> STATE_LAST \<le> unat w"
proof -
  have "w = 0 \<longleftrightarrow> unat w = 0" "w = 1 \<longleftrightarrow> unat w = 1" "w = 2 \<longleftrightarrow> unat w = 2"
    "w = 3 \<longleftrightarrow> unat w = 3" "w = 4 \<longleftrightarrow> unat w = 4" "w = 5 \<longleftrightarrow> unat w = 5"
    by (simp_all add: word_unat_eq_iff)
  then show ?thesis unfolding state_of_code_def STATE_LAST_def by auto
qed

definition state_name :: "fpga_state \<Rightarrow> string" where
  "state_name s = (case s of
      STATE_FREE \<Rightarrow> ''Free'' | STATE_RESERVED \<Rightarrow> ''Reserved'' | STATE_PROGRAM \<Rightarrow> ''Programming''
    | STATE_ACTIVE \<Rightarrow> ''Active'' | STATE_INACTIVE \<Rightarrow> ''Inactive (reserved)'' | _ \<Rightarrow> ''Unknown'')"

section \<open>Globals and machine\<close>

text \<open>
  What the program cannot change: who runs it, the password database, what system calls
  answer, the directories it was built with. \<^verbatim>\<open>e_busy\<close> counts the lock attempts on a
  file that fail before one succeeds; \<^verbatim>\<open>e_stack\<close> is what an uninitialised
  \<^verbatim>\<open>oldState\<close> happens to hold. \<^verbatim>\<open>e_fdopen_ok\<close> says whether \<^verbatim>\<open>fdopen\<close> gets its memory;
  \<^verbatim>\<open>e_flush\<close> is what a file holds after a flush of new contents that fails, none when it succeeds.
\<close>

record env =
  e_uid :: u32
  e_user :: "u32 \<Rightarrow> string option"
  e_lockdir :: string
  e_scriptsdir :: string
  e_confdir :: string
  e_config :: "string option"
  e_alloc :: allocator
  e_strdup_ok :: bool
  e_open_ok :: "string \<Rightarrow> bool"
  e_write_ok :: "string \<Rightarrow> bool"
  e_fdopen_ok :: "string \<Rightarrow> bool"
  e_flush :: "string \<Rightarrow> string option"
  e_busy :: "string \<Rightarrow> nat"
  e_stack :: fpga_state
  e_script_file :: "string \<Rightarrow> bool"
  e_fork_ok :: bool
  e_script_status :: "string \<Rightarrow> string \<Rightarrow> u32"
  e_stat_error :: "string \<Rightarrow> bool"
  e_chown_ok :: "string \<Rightarrow> bool"
  e_chmod_ok :: "string \<Rightarrow> bool"
  e_pointer_text :: "string option \<Rightarrow> string"

record node =
  n_mode :: nat
  n_uid :: u32

text \<open>The program's globals, the files and devices it works on, and what it printed.\<close>

record ctrl =
  opt_debug :: bool
  opt_force :: bool
  cfg :: dictionary
  cfg_id :: int
  cfg_name :: "string option"
  cfg_class :: "string option"
  cfg_has_script :: bool
  cfg_fpga_dev :: "string option"
  cfg_bus_id :: "string option"
  cfg_location :: "string option"
  cfg_prog_cable_id :: "string option"
  cfg_res_file :: string
  files :: "string \<Rightarrow> string option"
  devs :: "string \<Rightarrow> node option"
  stdout :: string
  stderr :: string
  ran :: "(string \<times> string \<times> string \<times> string option) list"

text \<open>
  How a run can end early: \<^verbatim>\<open>error(1, ...)\<close> with its message, the usage text, a
  wait for the programming lock that has not ended, or undefined behaviour.
\<close>

datatype stop = Failed string | Usage | Waiting | Undefined

definition RES_DIR :: "env \<Rightarrow> string" where "RES_DIR E = e_lockdir E @ ''/''"

definition CONFIG_DIR :: "env \<Rightarrow> string" where "CONFIG_DIR E = e_scriptsdir E @ ''/''"

definition CFG_FILE :: "env \<Rightarrow> string" where "CFG_FILE E = e_confdir E @ ''/config''"

definition PROG_LOCK_FILE :: "env \<Rightarrow> string" where "PROG_LOCK_FILE E = RES_DIR E @ ''leap-proglock''"

definition print_out :: "string \<Rightarrow> ctrl \<Rightarrow> ctrl" where
  "print_out s w = w\<lparr>stdout := stdout w @ s\<rparr>"

definition print_err :: "string \<Rightarrow> ctrl \<Rightarrow> ctrl" where
  "print_err s w = w\<lparr>stderr := stderr w @ s\<rparr>"

definition unlink :: "string \<Rightarrow> ctrl \<Rightarrow> ctrl" where
  "unlink p w = w\<lparr>files := (files w)(p := None)\<rparr>"

definition write_file :: "string \<Rightarrow> string \<Rightarrow> ctrl \<Rightarrow> ctrl" where
  "write_file p s w = w\<lparr>files := (files w)(p := Some s)\<rparr>"

section \<open>The lock file\<close>

text \<open>
  \<^verbatim>\<open>"%d %d %511s"\<close>: the number of conversions, the owner, the state and the
  signature. A \<^verbatim>\<open>%d\<close> goes through a 64-bit \<^verbatim>\<open>long\<close> into 32 bits.
\<close>

record lock_rec =
  lk_fields :: nat
  lk_owner :: u32
  lk_state :: fpga_state
  lk_sig :: string

definition to_u32 :: "int \<Rightarrow> u32" where
  "to_u32 v = word_of_int (max (- (2 ^ 63)) (min (2 ^ 63 - 1) v))"

definition scan_word :: "string \<Rightarrow> string" where
  "scan_word s = take 511 (takeWhile (\<lambda>c. \<not> isspace c) (lstrip s))"

definition scan_lock :: "string \<Rightarrow> nat \<times> u32 \<times> u32 \<times> string" where
  "scan_lock s =
     (case scan_int s of None \<Rightarrow> (0, 0, 0, [])
      | Some (ow, r) \<Rightarrow>
          (case scan_int r of None \<Rightarrow> (1, to_u32 ow, 0, [])
           | Some (sta, r2) \<Rightarrow>
               (if scan_word r2 = [] then 2 else 3, to_u32 ow, to_u32 sta, scan_word r2)))"

text \<open>A record that is incomplete or names no state counts as a free device.\<close>

definition read_lock :: "string \<Rightarrow> lock_rec" where
  "read_lock s =
     (let (n, ow, sta, sg) = scan_lock s
      in if n < 2 then \<lparr>lk_fields = n, lk_owner = 0, lk_state = STATE_FREE, lk_sig = sg\<rparr>
         else case state_of_code sta of
                None \<Rightarrow> \<lparr>lk_fields = n, lk_owner = 0, lk_state = STATE_FREE, lk_sig = sg\<rparr>
              | Some st \<Rightarrow> \<lparr>lk_fields = n, lk_owner = ow, lk_state = st, lk_sig = sg\<rparr>)"

definition lock_text :: "u32 \<Rightarrow> fpga_state \<Rightarrow> string \<Rightarrow> string" where
  "lock_text uid st sg =
     show_int (sint uid) @ '' '' @ show_int (int (state_code st)) @ '' '' @ sg @ [NL]"

text \<open>\<^verbatim>\<open>F_SETLK\<close> is tried until it succeeds, with at most 20 retries.\<close>

fun lock_attempts :: "nat \<Rightarrow> nat \<Rightarrow> bool" where
  "lock_attempts 0 n_retry = True"
| "lock_attempts (Suc busy) n_retry =
     (if n_retry = 20 then False else lock_attempts busy (Suc n_retry))"

section \<open>Changing the reservation\<close>

text \<open>The new signature, and the state to write (a reset frees the device).\<close>

definition update_signature ::
    "lock_rec \<Rightarrow> fpga_state \<Rightarrow> string option \<Rightarrow> stop + (string \<times> fpga_state)" where
  "update_signature r newState newSignature =
     (if newState = STATE_PROGRAM then
        (case newSignature of
           Some s \<Rightarrow>
             if lk_state r \<noteq> STATE_PROGRAM
             then Inl (Failed ''Error - Must be in PROGRAM state to add a signature'')
             else Inr (take 511 s, newState)
         | None \<Rightarrow> Inr ([], newState))
      else if newState = STATE_RESET then Inr ([], STATE_FREE)
      else if lk_fields r < 3 then Inr ([], newState)
      else Inr (lk_sig r, newState))"

text \<open>
  May this user make the change? The device may be mine or free, I may steal it with
  \<^verbatim>\<open>--force\<close>, the caller may have to try another device (return 0), or the program
  ends, in one case after removing the programming lock.
\<close>

datatype verdict = Allowed | Stolen | TryOther | Denied | DeniedUnlock

definition owner_check :: "u32 \<Rightarrow> bool \<Rightarrow> lock_rec \<Rightarrow> fpga_state \<Rightarrow> verdict" where
  "owner_check myUid force r newState =
     (if lk_state r \<noteq> STATE_FREE then
        (if myUid = lk_owner r then
           (if newState = STATE_RESERVED then TryOther else Allowed)
         else if newState \<le> STATE_RESERVED then
           (if force then Stolen
            else if newState = STATE_RESERVED then TryOther else Denied)
         else if lk_state r \<noteq> STATE_PROGRAM \<and> newState = STATE_PROGRAM then DeniedUnlock
         else Denied)
      else Allowed)"

definition user_name :: "env \<Rightarrow> u32 \<Rightarrow> string" where
  "user_name E u = (case e_user E u of Some n \<Rightarrow> n | None \<Rightarrow> ''<unknown user>'')"

text \<open>
  The end of the function: the check for a reservation, the write, the programming lock. The result of
  \<^verbatim>\<open>fprintf\<close> is looked at, that of \<^verbatim>\<open>fflush\<close>, which writes the file, is not.
\<close>

definition flushed :: "env \<Rightarrow> string \<Rightarrow> string \<Rightarrow> string" where
  "flushed E p s = (case e_flush E p of None \<Rightarrow> s | Some lost \<Rightarrow> lost)"

definition write_reservation ::
    "env \<Rightarrow> lock_rec \<Rightarrow> fpga_state \<Rightarrow> string \<Rightarrow> (ctrl, stop, int) prog" where
  "write_reservation E r newState sg = (\<lambda>w.
     if lk_state r = STATE_FREE \<and> newState > STATE_RESERVED
     then (Inl (Failed ''Error - Reservation required''), w)
     else if \<not> e_write_ok E (cfg_res_file w)
     then (Inl (Failed (''Error - Error writing to lock file: '' @ cfg_res_file w)), w)
     else
       (let w1 = write_file (cfg_res_file w) (flushed E (cfg_res_file w) (lock_text (e_uid E) newState sg)) w
        in (Inr 1, if lk_state r = STATE_PROGRAM \<and> newState \<noteq> STATE_PROGRAM
                   then unlink (PROG_LOCK_FILE E) w1 else w1)))"

text \<open>A stream that \<^verbatim>\<open>fdopen\<close> could not make is NULL, and reading from it undefined.\<close>

definition change_current_reservation ::
    "env \<Rightarrow> fpga_state \<Rightarrow> string option \<Rightarrow> (ctrl, stop, int) prog" where
  "change_current_reservation E newState newSignature = (\<lambda>w.
     if \<not> e_open_ok E (cfg_res_file w)
     then (Inl (Failed (''Error - Failed to open lock file: '' @ cfg_res_file w)), w)
     else
       (let text = (case files w (cfg_res_file w) of Some s \<Rightarrow> s | None \<Rightarrow> []);
            w1 = write_file (cfg_res_file w) text w
        in if \<not> lock_attempts (e_busy E (cfg_res_file w)) 0
           then (Inl (Failed (''Error - Failed to acquire lock file: '' @ cfg_res_file w)),
                 if e_stack E \<noteq> STATE_PROGRAM \<and> newState = STATE_PROGRAM
                 then unlink (PROG_LOCK_FILE E) w1 else w1)
           else if \<not> e_fdopen_ok E (cfg_res_file w) then (Inl Undefined, w1)
           else
             (let r = read_lock text
              in case update_signature r newState newSignature of
                   Inl e \<Rightarrow> (Inl e, w1)
                 | Inr (sg, new) \<Rightarrow>
                     (case owner_check (e_uid E) (opt_force w) r new of
                        TryOther \<Rightarrow> (Inr 0, w1)
                      | Denied \<Rightarrow>
                          (Inl (Failed (''Error - FPGA locked by '' @ user_name E (lk_owner r))), w1)
                      | DeniedUnlock \<Rightarrow>
                          (Inl (Failed (''Error - FPGA locked by '' @ user_name E (lk_owner r))),
                           unlink (PROG_LOCK_FILE E) w1)
                      | Stolen \<Rightarrow>
                          write_reservation E r new sg
                            (print_err (''Stealing reservation from '' @ user_name E (lk_owner r) @ [NL]) w1)
                      | Allowed \<Rightarrow> write_reservation E r new sg w1))))"

section \<open>Showing the reservation\<close>

datatype show_state = SHOW_STATE_ALL | SHOW_STATE_STATUS | SHOW_STATE_SIGNATURE

definition current_record :: "ctrl \<Rightarrow> lock_rec" where
  "current_record w =
     (case files w (cfg_res_file w) of
        None \<Rightarrow> \<lparr>lk_fields = 0, lk_owner = 0, lk_state = STATE_FREE, lk_sig = []\<rparr>
      | Some s \<Rightarrow> read_lock s)"

definition current_reservation_state :: "env \<Rightarrow> show_state \<Rightarrow> ctrl \<Rightarrow> ctrl" where
  "current_reservation_state E show w =
     (let r = current_record w;
          sg = (if lk_fields r \<ge> 3 then lk_sig r else [])
      in print_out
        (case show of
           SHOW_STATE_ALL \<Rightarrow>
             ''  Current state: '' @ state_name (lk_state r) @ [NL] @
             (if lk_state r \<noteq> STATE_FREE then
                (case e_user E (lk_owner r) of
                   Some n \<Rightarrow> ''  Current owner: '' @ n @ [NL] | None \<Rightarrow> []) else []) @
             (if sg \<noteq> [] then ''  Current signature: '' @ sg @ [NL] else [])
         | SHOW_STATE_STATUS \<Rightarrow> state_name (lk_state r) @ [NL]
         | SHOW_STATE_SIGNATURE \<Rightarrow> (if sg \<noteq> [] then sg @ [NL] else [])) w)"

section \<open>The lock file keeps what is written to it\<close>

definition plain_sig :: "string \<Rightarrow> bool" where
  "plain_sig s \<longleftrightarrow> (\<forall>c \<in> set s. \<not> isspace c)"

lemma to_u32_sint [simp]: "to_u32 (sint (u :: u32)) = u"
proof -
  have "- (2 ^ 31) \<le> sint u" "sint u < 2 ^ 31"
    using sint_greater_eq [of u] sint_less [of u] by simp_all
  then have "max (- (2 ^ 63)) (min (2 ^ 63 - 1) (sint u)) = sint u" by simp
  then show ?thesis by (simp add: to_u32_def)
qed

lemma to_u32_state [simp]: "to_u32 (int (state_code s)) = word_of_nat (state_code s)"
  by (cases s) (simp_all add: to_u32_def)

lemma plain_sig_take [simp]: "plain_sig s \<Longrightarrow> plain_sig (take n s)"
  by (auto simp: plain_sig_def dest: in_set_takeD)

lemma plain_sig_Nil [simp]: "plain_sig []"
  by (simp add: plain_sig_def)

lemma scan_word_plain: "plain_sig (scan_word s)"
  by (auto simp: scan_word_def plain_sig_def dest: in_set_takeD set_takeWhileD)

lemma scan_word_length: "length (scan_word s) \<le> 511"
  by (simp add: scan_word_def)

lemma scan_word_own: "plain_sig sg \<Longrightarrow> length sg \<le> 511 \<Longrightarrow> scan_word sg = sg"
proof -
  assume sg: "plain_sig sg" "length sg \<le> 511"
  then have "lstrip sg = sg" by (cases sg) (simp_all add: lstrip_def plain_sig_def)
  moreover have "takeWhile (\<lambda>c. \<not> isspace c) sg = sg" using sg(1) by (simp add: plain_sig_def takeWhile_eq_all_conv)
  ultimately show ?thesis using sg(2) by (simp add: scan_word_def del: takeWhile_eq_all_conv)
qed

text \<open>A line of the lock file gives the first word of its signature back.\<close>

lemma scan_word_line: "scan_word (CHR '' '' # sg @ [NL]) = scan_word sg"
proof -
  have sp: "isspace (CHR '' '')" "isspace NL" by (simp_all add: isspace_def NL_def)
  have "takeWhile (\<lambda>c. \<not> isspace c) (xs @ [NL]) = takeWhile (\<lambda>c. \<not> isspace c) xs" for xs
    using sp by (induction xs) auto
  moreover have "dropWhile isspace (sg @ [NL]) = (if \<forall>c \<in> set sg. isspace c then [] else dropWhile isspace sg @ [NL])"
    using sp by (induction sg) auto
  ultimately show ?thesis using sp by (simp add: scan_word_def lstrip_def dropWhile_eq_Nil_conv [THEN iffD2] del: dropWhile_eq_Nil_conv)
qed

lemma scan_lock_text:
  "scan_lock (lock_text uid st sg) =
    (if scan_word sg = [] then 2 else 3, uid, word_of_nat (state_code st), scan_word sg)"
proof -
  let ?r = "'' '' @ show_int (int (state_code st)) @ (CHR '' '' # sg @ [NL])"
  have sp: "\<not> isdigit (CHR '' '')" "isspace (CHR '' '')" by (simp_all add: isspace_def isdigit_def)
  have "scan_int ([] @ show_int (sint uid) @ ?r) = Some (sint uid, ?r)"
    by (rule scan_show_int) (use sp in simp_all)
  moreover have "scan_int ?r = Some (int (state_code st), CHR '' '' # sg @ [NL])"
    by (rule scan_show_int) (use sp in simp_all)
  ultimately show ?thesis
    using scan_word_line [of sg] by (simp add: scan_lock_def lock_text_def)
qed

lemma read_lock_text:
  "read_lock (lock_text uid st sg) =
    \<lparr>lk_fields = (if scan_word sg = [] then 2 else 3), lk_owner = uid, lk_state = st, lk_sig = scan_word sg\<rparr>"
  by (simp add: read_lock_def scan_lock_text)

text \<open>A signature that was read back is always one that can be stored again.\<close>

lemma read_lock_sig: "plain_sig (lk_sig (read_lock s)) \<and> length (lk_sig (read_lock s)) \<le> 511"
  by (auto simp: read_lock_def scan_lock_def scan_word_plain scan_word_length
      split: option.splits prod.splits)

lemma read_lock_Nil:
  "read_lock [] = \<lparr>lk_fields = 0, lk_owner = 0, lk_state = STATE_FREE, lk_sig = []\<rparr>"
  by (simp add: read_lock_def scan_lock_def scan_int_def lstrip_def)

lemma read_lock_free_owner: "lk_fields (read_lock s) < 2 \<Longrightarrow> lk_state (read_lock s) = STATE_FREE"
  by (auto simp: read_lock_def split: option.splits prod.splits)

lemma current_record_read:
  "current_record w = read_lock (case files w (cfg_res_file w) of Some s \<Rightarrow> s | None \<Rightarrow> [])"
  by (simp add: current_record_def read_lock_Nil split: option.splits)

section \<open>The reservation policy\<close>

text \<open>
  What the reservation commands promise, stated over the record alone: a free device may
  be reserved (or freed again), its owner may do anything but reserve it again, and others
  may take or free it only with \<^verbatim>\<open>--force\<close>; a signature is recorded while programming.
\<close>

definition may_change :: "u32 \<Rightarrow> bool \<Rightarrow> lock_rec \<Rightarrow> fpga_state \<Rightarrow> string option \<Rightarrow> bool" where
  "may_change me force r req sg \<longleftrightarrow>
     (if lk_state r = STATE_FREE then req \<in> {STATE_FREE, STATE_RESERVED, STATE_RESET}
      else if lk_owner r = me
      then req \<noteq> STATE_RESERVED \<and> (req = STATE_PROGRAM \<and> sg \<noteq> None \<longrightarrow> lk_state r = STATE_PROGRAM)
      else force \<and> req \<in> {STATE_FREE, STATE_RESERVED, STATE_RESET})"

definition kept_signature :: "lock_rec \<Rightarrow> fpga_state \<Rightarrow> string option \<Rightarrow> string" where
  "kept_signature r req sg =
     (case req of STATE_PROGRAM \<Rightarrow> (case sg of None \<Rightarrow> [] | Some s \<Rightarrow> take 511 s)
      | STATE_RESET \<Rightarrow> [] | _ \<Rightarrow> if 3 \<le> lk_fields r then lk_sig r else [])"

definition changed_record :: "u32 \<Rightarrow> lock_rec \<Rightarrow> fpga_state \<Rightarrow> string option \<Rightarrow> lock_rec" where
  "changed_record me r req sg =
     (let word = scan_word (kept_signature r req sg) in
      \<lparr>lk_fields = (if word = [] then 2 else 3), lk_owner = me,
       lk_state = (if req = STATE_RESET then STATE_FREE else req), lk_sig = word\<rparr>)"

text \<open>The calls of the transition that may fail and whose failure ends the program.\<close>

definition calls_ok :: "env \<Rightarrow> string \<Rightarrow> bool" where
  "calls_ok E p \<longleftrightarrow> e_open_ok E p \<and> e_busy E p \<le> 20 \<and> e_fdopen_ok E p \<and> e_write_ok E p"

lemma lock_attempts_iff: "n \<le> 20 \<Longrightarrow> lock_attempts busy n \<longleftrightarrow> busy + n \<le> 20"
  by (induction busy n rule: lock_attempts.induct) auto

section \<open>What a command does to the record\<close>

lemma unlink_simps [frame, simp]:
  "files (unlink p w) = (files w)(p := None)" "cfg_res_file (unlink p w) = cfg_res_file w"
  "devs (unlink p w) = devs w" "opt_force (unlink p w) = opt_force w"
  "cfg_id (unlink p w) = cfg_id w" "cfg (unlink p w) = cfg w" "ran (unlink p w) = ran w"
  by (simp_all add: unlink_def)

lemma write_file_simps [frame, simp]:
  "files (write_file p s w) = (files w)(p \<mapsto> s)" "cfg_res_file (write_file p s w) = cfg_res_file w"
  "devs (write_file p s w) = devs w" "opt_force (write_file p s w) = opt_force w"
  "cfg_id (write_file p s w) = cfg_id w" "cfg (write_file p s w) = cfg w"
  "ran (write_file p s w) = ran w"
  by (simp_all add: write_file_def)

lemma print_simps [frame, simp]:
  "files (print_err s w) = files w" "files (print_out s w) = files w"
  "cfg_res_file (print_err s w) = cfg_res_file w" "cfg_res_file (print_out s w) = cfg_res_file w"
  "devs (print_err s w) = devs w" "devs (print_out s w) = devs w"
  "opt_force (print_err s w) = opt_force w" "opt_force (print_out s w) = opt_force w"
  "cfg_id (print_err s w) = cfg_id w" "cfg_id (print_out s w) = cfg_id w"
  "cfg (print_err s w) = cfg w" "cfg (print_out s w) = cfg w"
  "ran (print_err s w) = ran w" "ran (print_out s w) = ran w"
  by (simp_all add: print_err_def print_out_def)

lemma current_record_cong:
  "cfg_res_file w' = cfg_res_file w \<Longrightarrow>
   (case files w' (cfg_res_file w) of Some s \<Rightarrow> s | None \<Rightarrow> []) =
   (case files w (cfg_res_file w) of Some s \<Rightarrow> s | None \<Rightarrow> []) \<Longrightarrow>
   current_record w' = current_record w"
  by (simp add: current_record_read)

text \<open>
  The end of the transition: unless the device is free and more than a reservation is
  asked for, or the write fails, the record is replaced and 1 returned.
\<close>

lemma write_reservation_result:
  assumes "cfg_res_file w \<noteq> PROG_LOCK_FILE E"
  shows "write_reservation E r new sg w = (res, w') \<Longrightarrow>
    (res = Inr 1 \<longleftrightarrow> (lk_state r = STATE_FREE \<longrightarrow> new \<le> STATE_RESERVED) \<and> e_write_ok E (cfg_res_file w)) \<and>
    current_record w' = (if res = Inr 1
      then read_lock (flushed E (cfg_res_file w) (lock_text (e_uid E) new sg)) else current_record w)"
  using assms
  by (auto simp: write_reservation_def current_record_def not_le not_less Let_def
      split: if_splits)

lemma update_signature_result:
  "update_signature r req sg =
     (if req = STATE_PROGRAM \<and> sg \<noteq> None \<and> lk_state r \<noteq> STATE_PROGRAM
      then Inl (Failed ''Error - Must be in PROGRAM state to add a signature'')
      else Inr (kept_signature r req sg, if req = STATE_RESET then STATE_FREE else req))"
  by (cases req) (auto simp: update_signature_def kept_signature_def split: option.splits)

lemma fpga_state_le_RESERVED: "s \<le> STATE_RESERVED \<longleftrightarrow> s = STATE_FREE \<or> s = STATE_RESERVED"
  by (cases s) (simp_all add: state_order)

lemma owner_check_policy:
  assumes "\<not> (req = STATE_PROGRAM \<and> sg \<noteq> None \<and> lk_state r \<noteq> STATE_PROGRAM)"
  shows "may_change me force r req sg \<longleftrightarrow>
    (let new = (if req = STATE_RESET then STATE_FREE else req)
     in owner_check me force r new \<in> {Allowed, Stolen} \<and> (lk_state r = STATE_FREE \<longrightarrow> new \<le> STATE_RESERVED))"
  using assms
  by (cases req) (auto simp: may_change_def owner_check_def fpga_state_le_RESERVED Let_def)

text \<open>The transition once the lock is held and the signature is acceptable.\<close>

definition opened :: "ctrl \<Rightarrow> ctrl" where
  "opened w = write_file (cfg_res_file w)
     (case files w (cfg_res_file w) of Some s \<Rightarrow> s | None \<Rightarrow> []) w"

definition stolen_message :: "env \<Rightarrow> lock_rec \<Rightarrow> string" where
  "stolen_message E r = ''Stealing reservation from '' @ user_name E (lk_owner r) @ [NL]"

lemma change_run:
  assumes "e_open_ok E (cfg_res_file w)" "e_busy E (cfg_res_file w) \<le> 20" "e_fdopen_ok E (cfg_res_file w)"
    and "\<not> (req = STATE_PROGRAM \<and> sg \<noteq> None \<and> lk_state (current_record w) \<noteq> STATE_PROGRAM)"
  shows "change_current_reservation E req sg w =
    (let r = current_record w; new = (if req = STATE_RESET then STATE_FREE else req);
         s = kept_signature r req sg;
         locked = Inl (Failed (''Error - FPGA locked by '' @ user_name E (lk_owner r)))
     in case owner_check (e_uid E) (opt_force w) r new of
          TryOther \<Rightarrow> (Inr 0, opened w)
        | Denied \<Rightarrow> (locked, opened w)
        | DeniedUnlock \<Rightarrow> (locked, unlink (PROG_LOCK_FILE E) (opened w))
        | Stolen \<Rightarrow> write_reservation E r new s (print_err (stolen_message E r) (opened w))
        | Allowed \<Rightarrow> write_reservation E r new s (opened w))"
proof -
  have busy: "lock_attempts (e_busy E (cfg_res_file w)) 0" using assms(2) by (simp add: lock_attempts_iff)
  show ?thesis
    using assms(1,3,4) busy
    by (simp only: change_current_reservation_def update_signature_result Let_def opened_def
        stolen_message_def current_record_read) (auto split: verdict.split)
qed

lemma opened_simps [frame, simp]:
  "cfg_res_file (opened w) = cfg_res_file w" "opt_force (opened w) = opt_force w"
  "current_record (opened w) = current_record w"
  by (simp_all add: opened_def current_record_read)

text \<open>
  C2. The transition implements the policy, for a lock file that is not the programming lock:
  \<^verbatim>\<open>change_current_reservation\<close> returns 1 exactly when the policy allows the request, the file is opened,
  locked within 20 retries and given a stream, and the record is printed to it. Then the file reads back
  as the new record, with the signature cut to its first word of at most 511 characters, unless the flush,
  whose result is not looked at, failed: then as what that left behind. In every other case the record
  is what it was.
\<close>

theorem change_follows_policy:
  assumes "cfg_res_file w \<noteq> PROG_LOCK_FILE E"
  shows "case change_current_reservation E req sg w of (res, w') \<Rightarrow>
    let granted = calls_ok E (cfg_res_file w) \<and> may_change (e_uid E) (opt_force w) (current_record w) req sg in
    (res = Inr 1 \<longleftrightarrow> granted) \<and>
    current_record w' =
      (if \<not> granted then current_record w
       else case e_flush E (cfg_res_file w) of
         None \<Rightarrow> changed_record (e_uid E) (current_record w) req sg
       | Some left \<Rightarrow> read_lock left)"
proof (cases "e_open_ok E (cfg_res_file w) \<and> e_busy E (cfg_res_file w) \<le> 20 \<and> e_fdopen_ok E (cfg_res_file w)")
  case False
  then show ?thesis using assms
    by (auto simp: change_current_reservation_def calls_ok_def Let_def current_record_read lock_attempts_iff)
next
  case acc: True
  then have ok: "calls_ok E (cfg_res_file w) \<longleftrightarrow> e_write_ok E (cfg_res_file w)" by (simp add: calls_ok_def)
  show ?thesis
  proof (cases "req = STATE_PROGRAM \<and> sg \<noteq> None \<and> lk_state (current_record w) \<noteq> STATE_PROGRAM")
    case True
    then have "\<not> may_change (e_uid E) (opt_force w) (current_record w) req sg" by (auto simp: may_change_def)
    with True show ?thesis
      using acc
      by (simp add: change_current_reservation_def update_signature_result Let_def current_record_read
          lock_attempts_iff)
  next
    case False
    define r where "r = current_record w"
    define new where "new = (if req = STATE_RESET then STATE_FREE else req)"
    define s where "s = kept_signature r req sg"
    obtain res w' where out: "change_current_reservation E req sg w = (res, w')" by fastforce
    note pol = owner_check_policy [OF False, of "e_uid E" "opt_force w", unfolded Let_def,
        folded new_def r_def]
    have acc': "e_open_ok E (cfg_res_file w)" "e_busy E (cfg_res_file w) \<le> 20" "e_fdopen_ok E (cfg_res_file w)"
      using acc by simp_all
    note run = change_run [OF acc' False, unfolded Let_def, folded new_def r_def,
        folded s_def, unfolded out]
    let ?left = "case e_flush E (cfg_res_file w) of None \<Rightarrow> changed_record (e_uid E) r req sg | Some left \<Rightarrow> read_lock left"
    have wr: "(res = Inr 1 \<longleftrightarrow> (lk_state r = STATE_FREE \<longrightarrow> new \<le> STATE_RESERVED) \<and> e_write_ok E (cfg_res_file w)) \<and>
        current_record w' = (if res = Inr 1 then ?left else r)"
      if "write_reservation E r new s w1 = (res, w')" "cfg_res_file w1 = cfg_res_file w"
        "current_record w1 = r" for w1
      using write_reservation_result [of w1 E r new s res w'] that assms
      by (simp add: changed_record_def s_def new_def flushed_def read_lock_text Let_def split: option.split)
    have rec: "current_record (opened w) = r" "current_record (print_err m (opened w)) = r" for m
      using current_record_cong [of "print_err m (opened w)" "opened w"] by (simp_all add: r_def)
    have goal: "(res = Inr 1 \<longleftrightarrow> e_write_ok E (cfg_res_file w) \<and> may_change (e_uid E) (opt_force w) r req sg) \<and>
        current_record w' = (if e_write_ok E (cfg_res_file w) \<and> may_change (e_uid E) (opt_force w) r req sg then ?left else r)"
    proof (cases "owner_check (e_uid E) (opt_force w) r new \<in> {Allowed, Stolen}")
      case True
      then obtain w1 where "write_reservation E r new s w1 = (res, w')"
          "cfg_res_file w1 = cfg_res_file w" "current_record w1 = r"
        using run rec by fastforce
      from wr [OF this] show ?thesis using pol True by (cases "res = Inr 1") auto
    next
      case no: False
      have "current_record (unlink (PROG_LOCK_FILE E) (opened w)) = current_record (opened w)"
        by (rule current_record_cong) (use assms in simp_all)
      then have "res \<noteq> Inr 1" "current_record w' = r"
        using run no rec by (cases "owner_check (e_uid E) (opt_force w) r new"; simp)+
      then show ?thesis using pol no by simp
    qed
    then show ?thesis unfolding out ok Let_def prod.case r_def by (simp split: if_split option.split)
  qed
qed

text \<open>
  Without \<^verbatim>\<open>--force\<close> nobody changes a device somebody else holds: whatever is
  asked for and whatever the system calls answer, the record stays and the call does not
  return success.
\<close>

theorem foreign_record_kept:
  assumes "\<not> opt_force w" "lk_state (current_record w) \<noteq> STATE_FREE"
    and "lk_owner (current_record w) \<noteq> e_uid E" "cfg_res_file w \<noteq> PROG_LOCK_FILE E"
  shows "case change_current_reservation E req sg w of (res, w') \<Rightarrow>
    res \<noteq> Inr 1 \<and> current_record w' = current_record w"
  using assms
  by (simp add: change_current_reservation_def update_signature_result owner_check_def Let_def
      current_record_read split: if_splits)

text \<open>A machine for the witnesses: one device, in a lock directory.\<close>

definition env0 :: env where
  "env0 = \<lparr>e_uid = 1000, e_user = (\<lambda>u. None), e_lockdir = ''L'', e_scriptsdir = ''S'',
     e_confdir = ''C'', e_config = None, e_alloc = [], e_strdup_ok = True,
     e_open_ok = (\<lambda>_. True), e_write_ok = (\<lambda>_. True), e_fdopen_ok = (\<lambda>_. True), e_flush = (\<lambda>_. None), e_busy = (\<lambda>_. 0), e_stack = STATE_FREE,
     e_script_file = (\<lambda>_. True), e_fork_ok = True, e_script_status = (\<lambda>_ _. 0),
     e_stat_error = (\<lambda>_. False), e_chown_ok = (\<lambda>_. True), e_chmod_ok = (\<lambda>_. True),
     e_pointer_text = (\<lambda>_. ''0'')\<rparr>"

definition ctrl0 :: ctrl where
  "ctrl0 = \<lparr>opt_debug = False, opt_force = False, cfg = dict0, cfg_id = 0, cfg_name = None,
     cfg_class = None, cfg_has_script = False, cfg_fpga_dev = None, cfg_bus_id = None,
     cfg_location = None, cfg_prog_cable_id = None, cfg_res_file = ''L/a'',
     files = (\<lambda>_. None), devs = (\<lambda>_. None), stdout = [], stderr = [], ran = []\<rparr>"

definition held :: "string \<Rightarrow> u32 \<Rightarrow> fpga_state \<Rightarrow> ctrl \<Rightarrow> ctrl" where
  "held p u st w = w\<lparr>files := (files w)(p \<mapsto> lock_text u st [])\<rparr>"

lemma held_record:
  "cfg_res_file w = p \<Longrightarrow> current_record (held p u st w)
     = \<lparr>lk_fields = 2, lk_owner = u, lk_state = st, lk_sig = []\<rparr>"
  by (simp add: held_def current_record_def read_lock_text scan_word_def lstrip_def)

theorem change_follows_policy_witness:
  "case change_current_reservation env0 STATE_RESERVED None ctrl0 of (res, w') \<Rightarrow>
     res = Inr 1 \<and> current_record w' = \<lparr>lk_fields = 2, lk_owner = 1000, lk_state = STATE_RESERVED, lk_sig = []\<rparr>"
proof -
  have "cfg_res_file ctrl0 \<noteq> PROG_LOCK_FILE env0" by (simp add: env0_def ctrl0_def PROG_LOCK_FILE_def RES_DIR_def)
  from change_follows_policy [OF this, of STATE_RESERVED None] show ?thesis
    by (simp add: env0_def calls_ok_def may_change_def current_record_def changed_record_def kept_signature_def
        scan_word_def lstrip_def ctrl0_def Let_def split: prod.splits)
qed

theorem foreign_record_kept_witness:
  "case change_current_reservation env0 STATE_FREE None (held ''L/a'' 7 STATE_ACTIVE ctrl0) of (res, w') \<Rightarrow>
     res \<noteq> Inr 1 \<and> current_record w' = current_record (held ''L/a'' 7 STATE_ACTIVE ctrl0)"
  by (rule foreign_record_kept)
    (simp_all add: held_record ctrl0_def env0_def PROG_LOCK_FILE_def RES_DIR_def,
     simp_all add: held_def)

text \<open>
  A signature with a blank in it does not survive: what is read back ends in front of
  the first blank.
\<close>

theorem signature_cut_at_blank:
  assumes "plain_sig a" "a \<noteq> []" "length a \<le> 511" "isspace c"
  shows "lk_sig (read_lock (lock_text uid st (a @ c # b))) = a"
proof -
  let ?r = "'' '' @ show_int (int (state_code st)) @ (CHR '' '' # a @ c # b @ [NL])"
  have sp: "\<not> isdigit (CHR '' '')" "isspace (CHR '' '')" by (simp_all add: isspace_def isdigit_def)
  have "scan_int ([] @ show_int (sint uid) @ ?r) = Some (sint uid, ?r)"
    by (rule scan_show_int) (use sp in simp_all)
  moreover have "scan_int ?r = Some (int (state_code st), CHR '' '' # a @ c # b @ [NL])"
    by (rule scan_show_int) (use sp in simp_all)
  moreover have "scan_word (CHR '' '' # a @ c # b @ [NL]) = a"
    using assms sp by (cases a)
      (simp_all add: scan_word_def lstrip_def plain_sig_def takeWhile_all_append)
  ultimately show ?thesis
    using assms(2) by (simp add: read_lock_def scan_lock_def lock_text_def)
qed

theorem signature_cut_at_blank_witness:
  "lk_sig (read_lock (lock_text 5 STATE_PROGRAM (''v1'' @ CHR '' '' # ''b''))) = ''v1''"
  by (rule signature_cut_at_blank) (simp_all add: plain_sig_def isspace_def)

end
