(* ===== verification/Fpga_Ctrl.thy ===== *)
theory Fpga_Ctrl
  imports Leap_Prelude Dictionary Iniparser Reservation
begin

text \<open>
  \<^verbatim>\<open>tools/platforms/leap-fpga-ctrl/leap-fpga-ctrl.c\<close>, second half: the
  configuration of a device, the helper scripts, the access rights of the device file, the
  requests, and \<^verbatim>\<open>main\<close> with its command line. A program that waits for another one is
  given the turns of the other programs as a list.
\<close>

section \<open>Configuration of a device\<close>

definition cptr_string :: "cptr \<Rightarrow> string option" where
  "cptr_string p = (case p of Str s \<Rightarrow> Some s | _ \<Rightarrow> None)"

definition cfg_get_str :: "string \<Rightarrow> string \<Rightarrow> (ctrl, stop, string option) prog" where
  "cfg_get_str dev key = (\<lambda>w.
     if length dev + length key + 2 > 2 * ASCIILINESZ
     then (Inl (Failed ''Error - cfg_get_str -- string too long''), w)
     else
       (let cfg_value = cptr_string (iniparser_getstring (Some (cfg w)) (Some (dev @ '':'' @ key)) Null)
        in case cfg_value of
             None \<Rightarrow> (Inr None, w)
           | Some v \<Rightarrow> if length v > ASCIILINESZ
                       then (Inl (Failed ''Error - configuration value too long''), w)
                       else (Inr (Some v), w)))"

text \<open>The lock file's path; the bus id names it so that aliases of a device share it.\<close>

definition set_res_file :: "env \<Rightarrow> string \<Rightarrow> (ctrl, stop, unit) prog" where
  "set_res_file E sec = (\<lambda>w.
     let name = (case cfg_bus_id w of Some b \<Rightarrow> b | None \<Rightarrow> sec)
     in if length (RES_DIR E) + length name + 1 > 2 * ASCIILINESZ
        then (Inl (Failed ''Error - reservation file path too long''), w)
        else (Inr (), w\<lparr>cfg_res_file := RES_DIR E @ name\<rparr>))"

definition cfg_load_dev :: "env \<Rightarrow> int \<Rightarrow> (ctrl, stop, unit) prog" where
  "cfg_load_dev E i = (\<lambda>w.
     if i \<ge> iniparser_getnsec (Some (cfg w))
     then (Inl (Failed ''Error - illegal device ID''), w)
     else case iniparser_getsecname (Some (cfg w)) i of
       None \<Rightarrow> (Inl Undefined, w)
     | Some sec \<Rightarrow>
        andThen (modify (\<lambda>w. w\<lparr>cfg_id := i, cfg_name := Some sec\<rparr>))
        (bind (cfg_get_str sec ''class'') (\<lambda>v.
         andThen (modify (\<lambda>w. w\<lparr>cfg_class := v\<rparr>))
        (bind (cfg_get_str sec ''has_control_script'') (\<lambda>hs.
         andThen (modify (\<lambda>w. w\<lparr>cfg_has_script :=
            (case hs of None \<Rightarrow> ''no'' | Some s \<Rightarrow> s) = ''yes''\<rparr>))
        (bind (cfg_get_str sec ''dev'') (\<lambda>v.
         andThen (modify (\<lambda>w. w\<lparr>cfg_fpga_dev := v\<rparr>))
        (bind (cfg_get_str sec ''bus_id'') (\<lambda>v.
         andThen (modify (\<lambda>w. w\<lparr>cfg_bus_id := v\<rparr>))
        (bind (cfg_get_str sec ''prog_cable_id'') (\<lambda>v.
         andThen (modify (\<lambda>w. w\<lparr>cfg_prog_cable_id := v\<rparr>))
        (bind (cfg_get_str sec ''location'') (\<lambda>v.
         andThen (modify (\<lambda>w. w\<lparr>cfg_location := v\<rparr>))
           (set_res_file E sec))))))))))))) w)"

text \<open>\<^verbatim>\<open>cfg_validate\<close>: the check of one device, and the loop over all of them.\<close>

definition validate_dev :: "string option \<Rightarrow> (ctrl, stop, unit) prog" where
  "validate_dev dev =
     (case dev of None \<Rightarrow> raise Undefined
      | Some d \<Rightarrow>
          bind (cfg_get_str d ''class'') (\<lambda>c.
          if c = None then raise (Failed (''Error - Device '' @ d @ '' has no '' @ [CHR 0x27] @ ''class''
                                    @ [CHR 0x27] @ '' key''))
          else bind (cfg_get_str d ''kernel-module-name'') (\<lambda>m.
            if m \<noteq> None then
              bind (cfg_get_str d ''kernel-module-path'') (\<lambda>p.
                if p = None
                then raise (Failed (''Error - Device '' @ d @ '' specifies kernel module name but no path''))
                else ret ())
            else ret ())))"

fun validate_devs :: "nat list \<Rightarrow> (ctrl, stop, unit) prog" where
  "validate_devs [] w = (Inr (), w)"
| "validate_devs (i # rest) w =
     andThen (validate_dev (iniparser_getsecname (Some (cfg w)) (int i))) (validate_devs rest) w"

definition cfg_validate :: "(ctrl, stop, unit) prog" where
  "cfg_validate = (\<lambda>w.
     let n_sec = iniparser_getnsec (Some (cfg w))
     in if n_sec = 0
        then (Inl (Failed (''Error - Configuration file doesn'' @ [CHR 0x27] @ ''t describe any devices.'')), w)
        else
          (let w1 = (if opt_debug w
                     then print_err (''Configuration file contents:'' @ [NL] @
                            iniparser_dump (Some (cfg w)) True @ [NL]) w
                     else w)
           in validate_devs [0..<nat n_sec] w1))"

section \<open>Helper script\<close>

text \<open>
  The child's arguments; a device number too long for the buffer, or a failed exec, make
  the child exit with status 1, which is \<^verbatim>\<open>256\<close> in the wait status.
\<close>

definition WEXITSTATUS :: "u32 \<Rightarrow> u32" where
  "WEXITSTATUS st = drop_bit 8 (st AND 0xFF00)"

definition script_status :: "env \<Rightarrow> int \<Rightarrow> string \<Rightarrow> string \<Rightarrow> u32" where
  "script_status E i script cmd =
     (if 16 \<le> length (show_int i) then 256 else e_script_status E script cmd)"

definition script_command :: "fpga_state \<Rightarrow> string option" where
  "script_command st =
     (case st of STATE_PROGRAM \<Rightarrow> Some ''program'' | STATE_ACTIVE \<Rightarrow> Some ''activate''
      | STATE_INACTIVE \<Rightarrow> Some ''deactivate'' | _ \<Rightarrow> None)"

definition debug_err :: "string \<Rightarrow> ctrl \<Rightarrow> ctrl" where
  "debug_err s w = (if opt_debug w then print_err (s @ [NL]) w else w)"

definition invoke_helper_script :: "env \<Rightarrow> fpga_state \<Rightarrow> (ctrl, stop, unit) prog" where
  "invoke_helper_script E st = (\<lambda>w.
     case script_command st of None \<Rightarrow> (Inr (), w)
     | Some cmd \<Rightarrow>
       if \<not> cfg_has_script w
       then (Inr (), debug_err ''No device specific configuration script needed'' w)
       else case cfg_class w of None \<Rightarrow> (Inl Undefined, w)
       | Some cls \<Rightarrow>
         if length (CONFIG_DIR E) + length cls + 1 \<ge> ASCIILINESZ
         then (Inl (Failed ''Error - Configuration script path too long''), w)
         else
           (let script = CONFIG_DIR E @ cls
            in if \<not> e_script_file E script
               then (Inl (Failed ''Error - Requested control script not found''), w)
               else
                 (let w1 = debug_err ''Invoking device specific configuration script'' w
                  in if \<not> e_fork_ok E then (Inl (Failed ''Error - fork() failed''), w1)
                     else
                       (let w2 = w1\<lparr>ran := ran w1 @ [(script, cmd, show_int (cfg_id w), cfg_fpga_dev w)]\<rparr>;
                            code = WEXITSTATUS (script_status E (cfg_id w) script cmd)
                        in if code \<noteq> 0
                           then (Inl (Failed (''Error - '' @ script @ '' - exit status ''
                                   @ show_int (sint code))), w2)
                           else (Inr (), w2)))))"

section \<open>Access to the device file\<close>

text \<open>Modes in decimal: \<^verbatim>\<open>00600\<close> is 384, \<^verbatim>\<open>00400\<close> is 256, \<^verbatim>\<open>00777\<close> is 511.\<close>

definition set_fpga_device_access :: "env \<Rightarrow> bool \<Rightarrow> bool \<Rightarrow> (ctrl, stop, unit) prog" where
  "set_fpga_device_access E user_access quiet = (\<lambda>w.
     let prot = (if user_access then 384 else 256);
         msg = (if user_access then ''Enabling'' else ''Disabling'');
         tgt_uid = (if user_access then e_uid E else 0)
     in case cfg_fpga_dev w of None \<Rightarrow> (Inr (), w)
     | Some dev \<Rightarrow>
       if e_stat_error E dev then (Inl (Failed (''Error - FPGA device '' @ dev)), w)
       else case devs w dev of None \<Rightarrow> (Inr (), w)
       | Some statb \<Rightarrow>
         if n_mode statb mod 512 \<noteq> prot \<or> n_uid statb \<noteq> tgt_uid then
           (let w1 = (if quiet then w
                      else print_err ('' '' @ msg @ '' FPGA device '' @
                        (case cfg_name w of Some n \<Rightarrow> n | None \<Rightarrow> ''(null)'') @ '' access...'' @ [NL]) w);
                fail = Inl (Failed (''Error - Failed to change protection of '' @ dev))
            in if \<not> e_chown_ok E dev then (fail, w1)
               else
                 (let w2 = w1\<lparr>devs := (devs w1)(dev \<mapsto> statb\<lparr>n_uid := tgt_uid\<rparr>)\<rparr>
                  in if \<not> e_chmod_ok E dev then (fail, w2)
                     else (Inr (), w2\<lparr>devs := (devs w2)(dev \<mapsto> \<lparr>n_mode = prot, n_uid = tgt_uid\<rparr>)\<rparr>)))
         else (Inr (), w))"

section \<open>Requests\<close>

text \<open>\<^verbatim>\<open>reserve\<close>: the search over the devices of the class, and the request.\<close>

fun reserve_loop :: "env \<Rightarrow> string \<Rightarrow> nat list \<Rightarrow> (ctrl, stop, nat option) prog" where
  "reserve_loop E cls [] w = (Inr None, w)"
| "reserve_loop E cls (i # rest) w =
     (case iniparser_getsecname (Some (cfg w)) (int i) of
        None \<Rightarrow> (Inl Undefined, w)
      | Some sec \<Rightarrow>
          bind (cfg_get_str sec ''class'') (\<lambda>c.
            case c of None \<Rightarrow> raise Undefined
            | Some c' \<Rightarrow>
              if cls = c' then
                andThen (modify (debug_err (''Device '' @ sec @ '' matches class '' @ cls)))
                (andThen (cfg_load_dev E (int i))
                (bind (change_current_reservation E STATE_RESERVED None) (\<lambda>got.
                   if got \<noteq> 0
                   then andThen (modify (debug_err ''Reservation successful'')) (ret (Some i))
                   else reserve_loop E cls rest)))
              else reserve_loop E cls rest) w)"

definition reserve :: "env \<Rightarrow> string option \<Rightarrow> (ctrl, stop, unit) prog" where
  "reserve E cls =
     (case cls of
        None \<Rightarrow> raise (Failed ''Error - Reservation class must be specified with --reserve'')
      | Some c \<Rightarrow>
          andThen (modify (debug_err (''Seeking FPGA of class '' @ c)))
          (bind (\<lambda>w. reserve_loop E c [0..<nat (iniparser_getnsec (Some (cfg w)))] w) (\<lambda>res.
             case res of
               None \<Rightarrow> raise (Failed ''Error - Failed to find free device matching requested class'')
             | Some i \<Rightarrow>
                 andThen (set_fpga_device_access E False False)
                   (modify (print_out (show_nat i @ [NL]))))))"

text \<open>
  The programming lock: created exclusively; kept when it already names this device or with
  \<^verbatim>\<open>--force\<close>; otherwise the program waits, and the first of \<^verbatim>\<open>turns\<close> is what
  the other programs do to the files before the next try. Neither the result of \<^verbatim>\<open>fdopen\<close> on the new file nor that of
  \<^verbatim>\<open>fclose\<close>, which flushes it, is looked at.
\<close>

type_synonym file_map = "string \<Rightarrow> string option"

definition lock_names_me :: "env \<Rightarrow> ctrl \<Rightarrow> bool" where
  "lock_names_me E w =
     (case files w (PROG_LOCK_FILE E) of None \<Rightarrow> False
      | Some s \<Rightarrow> (case scan_int s of None \<Rightarrow> False | Some (v, _) \<Rightarrow> sint (to_u32 v) = cfg_id w))"

definition say_waiting :: "bool \<Rightarrow> ctrl \<Rightarrow> ctrl" where
  "say_waiting first_pass w =
     (if first_pass then print_out (''Waiting for FPGA programming lock...'' @ [NL]) w else w)"

fun acquire_prog_lock ::
    "env \<Rightarrow> (file_map \<Rightarrow> file_map) list \<Rightarrow> bool \<Rightarrow> (ctrl, stop, unit) prog" where
  "acquire_prog_lock E turns first_pass w =
     (if files w (PROG_LOCK_FILE E) = None \<and> e_open_ok E (PROG_LOCK_FILE E)
      then if \<not> e_fdopen_ok E (PROG_LOCK_FILE E) then (Inl Undefined, write_file (PROG_LOCK_FILE E) [] w)
           else (Inr (), write_file (PROG_LOCK_FILE E) (flushed E (PROG_LOCK_FILE E) (show_int (cfg_id w) @ [NL])) w)
      else if lock_names_me E w then (Inr (), w)
      else if opt_force w then (Inr (), w)
      else
        (let w1 = say_waiting first_pass w
         in case turns of
              [] \<Rightarrow> (Inl Waiting, w1)
            | t # ts \<Rightarrow> acquire_prog_lock E ts False (w1\<lparr>files := t (files w1)\<rparr>)))"

declare acquire_prog_lock.simps [simp del]

definition program_dev :: "env \<Rightarrow> (file_map \<Rightarrow> file_map) list \<Rightarrow> (ctrl, stop, unit) prog" where
  "program_dev E turns =
     andThen (acquire_prog_lock E turns True)
     (andThen (change_current_reservation E STATE_PROGRAM None)
     (andThen (set_fpga_device_access E False False)
       (invoke_helper_script E STATE_PROGRAM)))"

definition activate_dev :: "env \<Rightarrow> (ctrl, stop, unit) prog" where
  "activate_dev E =
     andThen (change_current_reservation E STATE_ACTIVE None)
     (andThen (invoke_helper_script E STATE_ACTIVE) (set_fpga_device_access E True False))"

definition deactivate_dev :: "env \<Rightarrow> (ctrl, stop, unit) prog" where
  "deactivate_dev E =
     andThen (change_current_reservation E STATE_INACTIVE None)
     (andThen (invoke_helper_script E STATE_INACTIVE) (set_fpga_device_access E False False))"

definition drop_reservation :: "env \<Rightarrow> (ctrl, stop, unit) prog" where
  "drop_reservation E =
     andThen (change_current_reservation E STATE_FREE None) (set_fpga_device_access E False False)"

definition reset :: "env \<Rightarrow> (ctrl, stop, unit) prog" where
  "reset E =
     andThen (change_current_reservation E STATE_RESET None) (set_fpga_device_access E False True)"

definition or_empty :: "string option \<Rightarrow> string" where
  "or_empty s = (case s of Some x \<Rightarrow> x | None \<Rightarrow> [])"

text \<open>The location is printed with \<^verbatim>\<open>%d\<close>: the pointer's value, not the string.\<close>

definition get_config :: "env \<Rightarrow> string \<Rightarrow> (ctrl, stop, unit) prog" where
  "get_config E req = (\<lambda>w.
     if req = ''dev'' then (Inr (), print_out (or_empty (cfg_fpga_dev w) @ [NL]) w)
     else if req = ''name'' then (Inr (), print_out (or_empty (cfg_name w) @ [NL]) w)
     else if req = ''class'' then (Inr (), print_out (or_empty (cfg_class w) @ [NL]) w)
     else if req = ''bus_id'' then (Inr (), print_out (or_empty (cfg_bus_id w) @ [NL]) w)
     else if req = ''prog_cable_id'' then (Inr (), print_out (or_empty (cfg_prog_cable_id w) @ [NL]) w)
     else if req = ''id'' then (Inr (), print_out (show_int (cfg_id w) @ [NL]) w)
     else if req = ''location'' then (Inr (), print_out (e_pointer_text E (cfg_location w) @ [NL]) w)
     else (Inl (Failed (''Error - Unexpected getconfig request ('' @ req @ '')'')), w))"

section \<open>Command line\<close>

text \<open>
  What \<^verbatim>\<open>getopt_long\<close> delivers, one option after the other; \<^verbatim>\<open>OptBad\<close> is its
  \<^verbatim>\<open>?\<close>. The table is the code's \<^verbatim>\<open>long_options\<close>.
\<close>

datatype opt_name =
  N_program | N_activate | N_deactivate | N_reserve | N_drop | N_reset | N_force | N_debug
| N_status | N_setsignature | N_getsignature | N_getstate | N_getconfig | N_device_id

datatype has_arg = no_argument | optional_argument | required_argument

definition long_options :: "(string \<times> has_arg \<times> opt_name) list" where
  "long_options =
    [(''program'', no_argument, N_program), (''activate'', no_argument, N_activate),
     (''deactivate'', no_argument, N_deactivate), (''reserve'', optional_argument, N_reserve),
     (''drop-reservation'', no_argument, N_drop), (''reset'', no_argument, N_reset),
     (''force'', no_argument, N_force), (''debug'', no_argument, N_debug),
     (''status'', no_argument, N_status), (''setsignature'', required_argument, N_setsignature),
     (''getsignature'', no_argument, N_getsignature), (''getstate'', no_argument, N_getstate),
     (''getconfig'', required_argument, N_getconfig), (''device-id'', required_argument, N_device_id)]"

datatype parsed = Opt opt_name "string option" | OptBad

text \<open>An exact name wins, otherwise the only name that begins that way.\<close>

definition find_long :: "string \<Rightarrow> (has_arg \<times> opt_name) option" where
  "find_long nm =
     (case map_of long_options nm of
        Some x \<Rightarrow> Some x
      | None \<Rightarrow> (case filter (\<lambda>(n, _). take (length nm) n = nm) long_options of
                   [(_, x)] \<Rightarrow> Some x | _ \<Rightarrow> None))"

text \<open>
  Options may stand anywhere among the other arguments, up to \<^verbatim>\<open>--\<close>; there are no
  short options.
\<close>

fun getopt_long :: "string list \<Rightarrow> parsed list" where
  "getopt_long [] = []"
| "getopt_long (a # rest) =
     (if a = ''--'' then []
      else if take 2 a = ''--'' then
        (let body = drop 2 a;
             nm = takeWhile (\<lambda>c. c \<noteq> CHR ''='') body;
             arg = (if length nm < length body then Some (drop (length nm + 1) body) else None)
         in case find_long nm of
              None \<Rightarrow> OptBad # getopt_long rest
            | Some (no_argument, n) \<Rightarrow>
                (if arg = None then Opt n None else OptBad) # getopt_long rest
            | Some (optional_argument, n) \<Rightarrow> Opt n arg # getopt_long rest
            | Some (required_argument, n) \<Rightarrow>
                (case (arg, rest) of
                   (Some v, _) \<Rightarrow> Opt n (Some v) # getopt_long rest
                 | (None, v # rest') \<Rightarrow> Opt n (Some v) # getopt_long rest'
                 | (None, []) \<Rightarrow> [OptBad]))
      else if take 1 a = ''-'' \<and> a \<noteq> ''-'' then OptBad # getopt_long rest
      else getopt_long rest)"

text \<open>The request variables of \<^verbatim>\<open>main\<close>.\<close>

record request =
  req_program_dev :: bool
  req_activate_dev :: bool
  req_deactivate_dev :: bool
  req_reserve :: bool
  req_reserve_class :: "string option"
  req_drop_reservation :: bool
  req_reset :: bool
  req_set_signature :: bool
  req_signature :: "string option"
  req_get_signature :: bool
  req_get_state :: bool
  req_get_config :: bool
  req_getconfig :: string
  query_status :: bool
  req_dev_id :: int

definition no_request :: request where
  "no_request =
    \<lparr>req_program_dev = False, req_activate_dev = False, req_deactivate_dev = False,
     req_reserve = False, req_reserve_class = None, req_drop_reservation = False,
     req_reset = False, req_set_signature = False, req_signature = None,
     req_get_signature = False, req_get_state = False, req_get_config = False,
     req_getconfig = [], query_status = False, req_dev_id = -1\<rparr>"

definition atoi :: "string \<Rightarrow> int" where
  "atoi s = (case scan_int s of None \<Rightarrow> 0 | Some (v, _) \<Rightarrow> sint (to_u32 v))"

definition usage_text :: string where
  "usage_text =
     ''Usage: leap-fpga-ctrl <--reserve[=FPGA class] |'' @ [NL] @
     ''                       --program |'' @ [NL] @
     ''                       --activate |'' @ [NL] @
     ''                       --deactivate |'' @ [NL] @
     ''                       --drop-reservation |'' @ [NL] @
     ''                       --reset |'' @ [NL] @
     ''                       --setsignature |'' @ [NL] @
     ''                       --getsignature |'' @ [NL] @
     ''                       --getconfig <param> |'' @ [NL] @
     ''                       --status>'' @ [NL] @
     ''                       [--device-id=<device number>]'' @ [NL] @
     ''                       [--debug]'' @ [NL] @
     ''                       [--force]'' @ [NL, NL] @
     ''    --force may be specified to override other user'' @ [CHR 0x27] @ ''s reservations'' @ [NL] @
     [NL]"

definition usage :: "(ctrl, stop, 'a) prog" where
  "usage = andThen (modify (print_err usage_text)) (raise Usage)"

text \<open>The debug output that follows every option once \<^verbatim>\<open>--debug\<close> was seen.\<close>

definition debug_paths :: "env \<Rightarrow> ctrl \<Rightarrow> ctrl" where
  "debug_paths E w =
     (if opt_debug w
      then print_err (''config file is: '' @ CFG_FILE E @ [NL] @ ''config dir is: '' @ CONFIG_DIR E @ [NL] @
             ''result dir : '' @ RES_DIR E @ [NL] @ ''programming lock is: '' @ PROG_LOCK_FILE E @ [NL]) w
      else w)"

text \<open>One option: its effect on the requests and, for two of them, on the globals.\<close>

definition set_request :: "env \<Rightarrow> opt_name \<Rightarrow> string option \<Rightarrow> request \<Rightarrow> (ctrl, stop, request) prog" where
  "set_request E n arg q =
     (case n of
        N_program \<Rightarrow> ret (q\<lparr>req_program_dev := True\<rparr>)
      | N_activate \<Rightarrow> ret (q\<lparr>req_activate_dev := True\<rparr>)
      | N_deactivate \<Rightarrow> ret (q\<lparr>req_deactivate_dev := True\<rparr>)
      | N_reserve \<Rightarrow>
          ret (case arg of None \<Rightarrow> q\<lparr>req_reserve := True\<rparr>
               | Some c \<Rightarrow> q\<lparr>req_reserve := True,
                             req_reserve_class := (if e_strdup_ok E then Some c else None)\<rparr>)
      | N_drop \<Rightarrow> ret (q\<lparr>req_drop_reservation := True\<rparr>)
      | N_reset \<Rightarrow> ret (q\<lparr>req_reset := True\<rparr>)
      | N_force \<Rightarrow> ret q
      | N_debug \<Rightarrow> ret q
      | N_status \<Rightarrow> ret (q\<lparr>query_status := True\<rparr>)
      | N_setsignature \<Rightarrow>
          if e_strdup_ok E then ret (q\<lparr>req_set_signature := True, req_signature := arg\<rparr>)
          else raise (Failed ''Error - strdup() failed'')
      | N_getsignature \<Rightarrow> ret (q\<lparr>req_get_signature := True\<rparr>)
      | N_getstate \<Rightarrow> ret (q\<lparr>req_get_state := True\<rparr>)
      | N_getconfig \<Rightarrow>
          if e_strdup_ok E then ret (q\<lparr>req_get_config := True, req_getconfig := or_empty arg\<rparr>)
          else raise (Failed ''Error - strdup() failed'')
      | N_device_id \<Rightarrow> (\<lambda>w.
          let d = atoi (or_empty arg)
          in if d < 0 \<or> d \<ge> iniparser_getnsec (Some (cfg w))
             then (Inl (Failed ''Error - Illegal device id''), w)
             else (Inr (q\<lparr>req_dev_id := d\<rparr>), w)))"

text \<open>\<^verbatim>\<open>getopt_long\<close> itself sets the flag variables, in front of the debug output.\<close>

definition set_flag :: "opt_name \<Rightarrow> ctrl \<Rightarrow> ctrl" where
  "set_flag n w = (case n of N_force \<Rightarrow> w\<lparr>opt_force := True\<rparr> | N_debug \<Rightarrow> w\<lparr>opt_debug := True\<rparr> | _ \<Rightarrow> w)"

fun option_loop :: "env \<Rightarrow> parsed list \<Rightarrow> request \<Rightarrow> (ctrl, stop, request) prog" where
  "option_loop E [] q w = (Inr q, w)"
| "option_loop E (OptBad # rest) q w = andThen (modify (debug_paths E)) usage w"
| "option_loop E (Opt n arg # rest) q w =
     andThen (modify (\<lambda>w. debug_paths E (set_flag n w)))
       (bind (set_request E n arg q) (option_loop E rest)) w"

definition count_requests :: "request \<Rightarrow> nat" where
  "count_requests q = length (filter id
     [req_reserve q, req_program_dev q, req_activate_dev q, req_deactivate_dev q,
      req_drop_reservation q, req_reset q, req_set_signature q, req_get_signature q,
      req_get_state q, req_get_config q, query_status q])"

text \<open>Loading the chosen device, and the class a lone device gives to \<^verbatim>\<open>--reserve\<close>.\<close>

definition choose_device :: "env \<Rightarrow> request \<Rightarrow> (ctrl, stop, request) prog" where
  "choose_device E q = (\<lambda>w.
     if req_dev_id q \<ge> 0 then
       andThen (cfg_load_dev E (req_dev_id q))
         (if req_reserve q
          then raise (Failed ''Error - --device-id may not be specified with --reserve'')
          else ret q) w
     else if iniparser_getnsec (Some (cfg w)) = 1 then
       andThen (cfg_load_dev E 0)
         (if req_reserve_class q = None then
            (\<lambda>w. case iniparser_getsecname (Some (cfg w)) 0 of
                   None \<Rightarrow> (Inl Undefined, w)
                 | Some sec \<Rightarrow>
                     bind (cfg_get_str sec ''class'') (\<lambda>c. ret (q\<lparr>req_reserve_class := c\<rparr>)) w)
          else ret q) w
     else if \<not> req_reserve q \<and> \<not> query_status q
     then (Inl (Failed ''Error - --device-id must be specified''), w)
     else (Inr q, w))"

fun show_all :: "env \<Rightarrow> nat list \<Rightarrow> (ctrl, stop, unit) prog" where
  "show_all E [] w = (Inr (), w)"
| "show_all E (d # rest) w =
     andThen (modify (\<lambda>w. print_out ((if d \<noteq> 0 then [NL] else []) @
        (case iniparser_getsecname (Some (cfg w)) (int d) of Some s \<Rightarrow> s | None \<Rightarrow> ''(null)'')
        @ '':'' @ [NL]) w))
     (andThen (cfg_load_dev E (int d))
     (andThen (modify (current_reservation_state E SHOW_STATE_ALL))
       (show_all E rest))) w"

definition guarded :: "bool \<Rightarrow> (ctrl, stop, unit) prog \<Rightarrow> (ctrl, stop, unit) prog" where
  "guarded b p = (if b then p else ret ())"

text \<open>The requests in the order of the code.\<close>

definition run_requests ::
    "env \<Rightarrow> (file_map \<Rightarrow> file_map) list \<Rightarrow> request \<Rightarrow> (ctrl, stop, unit) prog" where
  "run_requests E turns q =
     andThen (guarded (req_reset q) (reset E))
     (andThen (guarded (req_reserve q) (reserve E (req_reserve_class q)))
     (andThen (guarded (req_program_dev q) (program_dev E turns))
     (andThen (guarded (req_activate_dev q) (activate_dev E))
     (andThen (guarded (req_deactivate_dev q) (deactivate_dev E))
     (andThen (guarded (req_drop_reservation q) (drop_reservation E))
     (andThen (guarded (req_set_signature q)
        (andThen (change_current_reservation E STATE_PROGRAM (req_signature q)) (ret ())))
     (andThen (guarded (req_get_signature q)
        (modify (current_reservation_state E SHOW_STATE_SIGNATURE)))
     (andThen (guarded (req_get_state q)
        (modify (current_reservation_state E SHOW_STATE_STATUS)))
     (andThen (guarded (req_get_config q) (get_config E (req_getconfig q)))
       (guarded (query_status q)
         (\<lambda>w. show_all E [0..<nat (iniparser_getnsec (Some (cfg w)))] w)))))))))))"

definition load_config :: "env \<Rightarrow> (ctrl, stop, unit) prog" where
  "load_config E = (\<lambda>w.
     case iniparser_load (e_alloc E) (CFG_FILE E) (e_config E) of
       (Loaded d, msgs) \<Rightarrow> (Inr (), print_err msgs (w\<lparr>cfg := d\<rparr>))
     | (LoadNull, msgs) \<Rightarrow> (Inl (Failed ''Error - configuration file load failed''), print_err msgs w)
     | _ \<Rightarrow> (Inl Undefined, w))"

definition fpga_ctrl_main ::
    "env \<Rightarrow> (file_map \<Rightarrow> file_map) list \<Rightarrow> string list \<Rightarrow> (ctrl, stop, unit) prog" where
  "fpga_ctrl_main E turns args =
     andThen (load_config E)
     (bind (option_loop E (getopt_long args) no_request) (\<lambda>q.
        if count_requests q \<noteq> 1 then usage
        else andThen cfg_validate
          (bind (choose_device E q) (run_requests E turns))))"

section \<open>Loading a device\<close>

definition dev_string :: "dictionary \<Rightarrow> string \<Rightarrow> string \<Rightarrow> string option" where
  "dev_string d dev key = cptr_string (iniparser_getstring (Some d) (Some (dev @ '':'' @ key)) Null)"

definition str_fits :: "dictionary \<Rightarrow> string \<Rightarrow> string \<Rightarrow> bool" where
  "str_fits d dev key \<longleftrightarrow> length dev + length key + 2 \<le> 2 * ASCIILINESZ
     \<and> (\<forall>v. dev_string d dev key = Some v \<longrightarrow> length v \<le> ASCIILINESZ)"

definition str_error :: "string \<Rightarrow> string \<Rightarrow> string" where
  "str_error dev key =
     (if length dev + length key + 2 > 2 * ASCIILINESZ then ''Error - cfg_get_str -- string too long''
      else ''Error - configuration value too long'')"

lemma cfg_get_str_run:
  "cfg_get_str dev key w =
     (if str_fits (cfg w) dev key then (Inr (dev_string (cfg w) dev key), w)
      else (Inl (Failed (str_error dev key)), w))"
  by (auto simp: cfg_get_str_def str_fits_def str_error_def dev_string_def Let_def split: option.splits)

text \<open>The part of the state that reading the configuration leaves alone.\<close>

definition outside :: "ctrl \<Rightarrow> bool \<times> bool \<times> dictionary \<times> file_map \<times> (string \<Rightarrow> node option)
    \<times> string \<times> string \<times> (string \<times> string \<times> string \<times> string option) list" where
  "outside w = (opt_debug w, opt_force w, cfg w, files w, devs w, stdout w, stderr w, ran w)"

definition device_file :: "env \<Rightarrow> dictionary \<Rightarrow> string \<Rightarrow> string" where
  "device_file E d sec =
     RES_DIR E @ (case dev_string d sec ''bus_id'' of Some b \<Rightarrow> b | None \<Rightarrow> sec)"

definition loaded :: "env \<Rightarrow> dictionary \<Rightarrow> int \<Rightarrow> ctrl \<Rightarrow> bool" where
  "loaded E d i w \<longleftrightarrow> 0 \<le> i \<and> i < iniparser_getnsec (Some d) \<and> cfg w = d \<and> cfg_id w = i \<and>
     (\<exists>sec. iniparser_getsecname (Some d) i = Some sec \<and> cfg_name w = Some sec \<and>
        cfg_class w = dev_string d sec ''class'' \<and> cfg_fpga_dev w = dev_string d sec ''dev'' \<and>
        cfg_res_file w = device_file E d sec)"

lemma getsecname_Some:
  "0 \<le> i \<Longrightarrow> i < iniparser_getnsec (Some d) \<Longrightarrow> \<exists>s. iniparser_getsecname (Some d) i = Some s"
  by (simp add: getsecname_sections getnsec_sections)

lemma cfg_load_dev_run:
  assumes "0 \<le> i"
  shows "case cfg_load_dev E i w of
      (Inl e, w') \<Rightarrow> e \<noteq> Undefined \<and> e \<noteq> Usage \<and> e \<noteq> Waiting \<and> outside w' = outside w
    | (Inr _, w') \<Rightarrow> loaded E (cfg w) i w' \<and> outside w' = outside w"
proof (cases "i < iniparser_getnsec (Some (cfg w))")
  case True
  then obtain sec where "iniparser_getsecname (Some (cfg w)) i = Some sec"
    using assms getsecname_Some by blast
  with True assms show ?thesis
    by (simp add: cfg_load_dev_def bind_def andThen_def cfg_get_str_run set_res_file_def Let_def
        outside_def loaded_def device_file_def)
qed (simp add: cfg_load_dev_def)

text \<open>What the validated configuration gives: every device has a class.\<close>

definition validated :: "dictionary \<Rightarrow> bool" where
  "validated d \<longleftrightarrow> 0 < iniparser_getnsec (Some d) \<and>
     (\<forall>i sec. 0 \<le> i \<longrightarrow> iniparser_getsecname (Some d) i = Some sec \<longrightarrow> dev_string d sec ''class'' \<noteq> None)"

lemma validate_dev_run:
  "case validate_dev (Some sec) w of
     (Inl e, w') \<Rightarrow> e \<noteq> Undefined \<and> e \<noteq> Waiting \<and> w' = w
   | (Inr _, w') \<Rightarrow> dev_string (cfg w) sec ''class'' \<noteq> None \<and> w' = w"
  by (simp add: validate_dev_def bind_def cfg_get_str_run)

lemma validate_devs_run:
  assumes "\<forall>i \<in> set js. int i < iniparser_getnsec (Some (cfg w))"
  shows "case validate_devs js w of
     (Inl e, w') \<Rightarrow> e \<noteq> Undefined \<and> e \<noteq> Waiting \<and> w' = w
   | (Inr _, w') \<Rightarrow> w' = w \<and> (\<forall>i \<in> set js. \<forall>sec.
       iniparser_getsecname (Some (cfg w)) (int i) = Some sec \<longrightarrow> dev_string (cfg w) sec ''class'' \<noteq> None)"
  using assms
proof (induction js)
  case (Cons i rest)
  obtain sec where sec: "iniparser_getsecname (Some (cfg w)) (int i) = Some sec"
    using Cons.prems getsecname_Some [of "int i" "cfg w"] by auto
  show ?case
    using Cons validate_dev_run [where sec = sec and w = w] sec
    by (auto simp: andThen_def bind_def split: prod.splits sum.splits)
qed simp

lemma cfg_validate_run:
  "case cfg_validate w of
     (Inl e, w') \<Rightarrow> e \<noteq> Undefined \<and> e \<noteq> Waiting \<and> cfg w' = cfg w \<and> files w' = files w \<and>
        devs w' = devs w \<and> opt_force w' = opt_force w
   | (Inr _, w') \<Rightarrow> validated (cfg w) \<and> cfg w' = cfg w \<and> files w' = files w \<and>
        devs w' = devs w \<and> opt_force w' = opt_force w"
proof (cases "iniparser_getnsec (Some (cfg w)) = 0")
  case False
  let ?n = "iniparser_getnsec (Some (cfg w))"
  let ?w1 = "if opt_debug w then print_err (''Configuration file contents:'' @ [NL] @
      iniparser_dump (Some (cfg w)) True @ [NL]) w else w"
  have n: "0 < ?n" using False getnsec_sections [of "cfg w"] by simp
  have same: "cfg ?w1 = cfg w" "files ?w1 = files w" "devs ?w1 = devs w" "opt_force ?w1 = opt_force w"
    by simp_all
  have run: "cfg_validate w = validate_devs [0..<nat ?n] ?w1"
    using False by (simp add: cfg_validate_def Let_def)
  have all: "validated (cfg w)" if "\<forall>i \<in> set [0..<nat ?n]. \<forall>sec.
      iniparser_getsecname (Some (cfg w)) (int i) = Some sec \<longrightarrow> dev_string (cfg w) sec ''class'' \<noteq> None"
    unfolding validated_def
  proof (intro conjI allI impI)
    fix i :: int and sec
    assume "0 \<le> i" and s: "iniparser_getsecname (Some (cfg w)) i = Some sec"
    then have "nat i < nat ?n" by (auto simp: getsecname_sections getnsec_sections split: if_splits)
    then have "nat i \<in> set [0..<nat ?n]" by simp
    with that s \<open>0 \<le> i\<close> show "dev_string (cfg w) sec ''class'' \<noteq> None" by fastforce
  qed (use n in simp)
  have "case validate_devs [0..<nat ?n] w1 of
      (Inl e, w') \<Rightarrow> e \<noteq> Undefined \<and> e \<noteq> Waiting \<and> w' = w1
    | (Inr _, w') \<Rightarrow> validated (cfg w) \<and> w' = w1" if "cfg w1 = cfg w" for w1
  proof -
    obtain r w' where v: "validate_devs [0..<nat ?n] w1 = (r, w')" by fastforce
    have "\<forall>i \<in> set [0..<nat ?n]. int i < iniparser_getnsec (Some (cfg w1))" using that by auto
    from validate_devs_run [OF this] v that all show ?thesis by (cases r) simp_all
  qed
  from this [of ?w1, OF same(1)] show ?thesis
    unfolding run by (auto simp: same split: prod.splits sum.splits)
qed (simp add: cfg_validate_def)

end
