(* ===== verification/Prog_Lock.thy ===== *)
theory Prog_Lock
  imports Leap_Prelude Dictionary Iniparser Reservation Fpga_Ctrl
begin

text \<open>
  What every run of \<^verbatim>\<open>leap-fpga-ctrl\<close> keeps, whatever its command line: an interface
  for invariants of the files, a proof over the whole of \<^verbatim>\<open>main\<close> inside it, and two
  instances: no undefined behaviour, and at most one device in the programming state.
\<close>

section \<open>What the parts of a request leave alone\<close>

definition same_dev :: "ctrl \<Rightarrow> ctrl \<Rightarrow> bool" where
  "same_dev w w' \<longleftrightarrow> cfg w' = cfg w \<and> cfg_id w' = cfg_id w \<and> cfg_name w' = cfg_name w \<and>
     cfg_class w' = cfg_class w \<and> cfg_fpga_dev w' = cfg_fpga_dev w \<and>
     cfg_res_file w' = cfg_res_file w \<and> opt_force w' = opt_force w"

lemma loaded_same: "same_dev w w' \<Longrightarrow> loaded E d i w \<Longrightarrow> loaded E d i w'"
  by (simp add: same_dev_def loaded_def)

lemma same_dev_refl [simp]: "same_dev w w"
  by (simp add: same_dev_def)

lemma same_dev_trans: "same_dev w w1 \<Longrightarrow> same_dev w1 w2 \<Longrightarrow> same_dev w w2"
  by (simp add: same_dev_def)

lemma same_dev_basic [simp]:
  "same_dev w (unlink p w) " "same_dev w (write_file p s w)" "same_dev w (print_err s w)"
  "same_dev w (print_out s w)" "same_dev w (debug_err s w)" "same_dev w (say_waiting b w)"
  by (simp_all add: same_dev_def unlink_def write_file_def print_err_def print_out_def debug_err_def
      say_waiting_def)

lemma say_waiting_files [simp]: "files (say_waiting b w) = files w" "devs (say_waiting b w) = devs w"
  by (simp_all add: say_waiting_def)

lemma debug_err_files [simp]: "files (debug_err s w) = files w" "devs (debug_err s w) = devs w"
  by (simp_all add: debug_err_def)

lemma write_reservation_same:
  "same_dev w (snd (write_reservation E r new sg w)) \<and> fst (write_reservation E r new sg w) \<noteq> Inl Undefined"
  by (simp add: write_reservation_def Let_def same_dev_def unlink_def write_file_def)

text \<open>Only a stream that \<^verbatim>\<open>fdopen\<close> could not make is followed as a NULL pointer.\<close>

definition fdopens :: "env \<Rightarrow> bool" where
  "fdopens E \<longleftrightarrow> (\<forall>p. e_fdopen_ok E p)"

lemma change_same_dev:
  "same_dev w (snd (change_current_reservation E req sg w))
   \<and> (fdopens E \<longrightarrow> fst (change_current_reservation E req sg w) \<noteq> Inl Undefined)"
proof -
  let ?t = "case files w (cfg_res_file w) of Some s \<Rightarrow> s | None \<Rightarrow> []"
  let ?w1 = "write_file (cfg_res_file w) ?t w"
  have "same_dev w (snd (write_reservation E r new s ?w1))"
    "same_dev w (snd (write_reservation E r new s (print_err m ?w1)))" for r new s m
    using write_reservation_same [of ?w1 E r new s] write_reservation_same [of "print_err m ?w1" E r new s]
      same_dev_trans same_dev_basic(2,3) by blast+
  moreover have "same_dev w (unlink p ?w1)" for p
    using same_dev_trans same_dev_basic(1,2) by blast
  ultimately show ?thesis
    using write_reservation_same
    by (simp add: change_current_reservation_def update_signature_result Let_def fdopens_def split: verdict.split)
qed

lemma set_access_same:
  "same_dev w (snd (set_fpga_device_access E b q w)) \<and> files (snd (set_fpga_device_access E b q w)) = files w
   \<and> fst (set_fpga_device_access E b q w) \<noteq> Inl Undefined"
proof (cases "cfg_fpga_dev w")
  case None
  then show ?thesis by (simp add: set_fpga_device_access_def)
next
  case (Some dev)
  then show ?thesis
    by (cases "devs w dev") (simp_all add: set_fpga_device_access_def Let_def same_dev_def print_err_def)
qed

lemma invoke_same:
  "same_dev w (snd (invoke_helper_script E st w)) \<and> files (snd (invoke_helper_script E st w)) = files w
   \<and> (cfg_class w \<noteq> None \<longrightarrow> fst (invoke_helper_script E st w) \<noteq> Inl Undefined)"
  by (cases "script_command st"; cases "cfg_class w")
    (simp_all add: invoke_helper_script_def Let_def same_dev_def debug_err_def print_err_def)

lemma acquire_same:
  "same_dev w (snd (acquire_prog_lock E ts b w)) \<and> (fdopens E \<longrightarrow> fst (acquire_prog_lock E ts b w) \<noteq> Inl Undefined)"
proof (induction ts arbitrary: b w)
  case Nil
  show ?case by (simp add: acquire_prog_lock.simps fdopens_def Let_def)
next
  case (Cons t ts)
  have s: "same_dev w (snd (acquire_prog_lock E ts False (w1\<lparr>files := f\<rparr>)))
      \<and> (fdopens E \<longrightarrow> fst (acquire_prog_lock E ts False (w1\<lparr>files := f\<rparr>)) \<noteq> Inl Undefined)"
    if "same_dev w w1" for w1 f
  proof -
    have "same_dev w (w1\<lparr>files := f\<rparr>)" using that by (simp add: same_dev_def)
    then show ?thesis using Cons.IH same_dev_trans by blast
  qed
  show ?case
    by (subst (1 2) acquire_prog_lock.simps) (use s [of "say_waiting b w"] in \<open>auto simp: Let_def fdopens_def\<close>)
qed

lemma get_config_same:
  "same_dev w (snd (get_config E r w)) \<and> files (snd (get_config E r w)) = files w
   \<and> fst (get_config E r w) \<noteq> Inl Undefined"
  by (simp add: get_config_def)

lemma current_state_same [simp]:
  "same_dev w (current_reservation_state E s w)" "files (current_reservation_state E s w) = files w"
  by (simp_all add: current_reservation_state_def Let_def)

text \<open>A part that keeps the device and the files keeps any condition on them.\<close>

lemma hoare_quiet:
  assumes "\<And>w. P w \<Longrightarrow> same_dev w (snd (p w)) \<and> files (snd (p w)) = files w \<and> fst (p w) \<noteq> Inl Undefined"
    and "\<And>w w'. same_dev w w' \<Longrightarrow> files w' = files w \<Longrightarrow> P w \<Longrightarrow> P w'"
  shows "hoare P p (\<lambda>_. P) (\<lambda>e w. P w \<and> e \<noteq> Undefined)"
proof (rule hoareI)
  fix w assume w: "P w"
  obtain r w' where p: "p w = (r, w')" by fastforce
  have "P w'" "r \<noteq> Inl Undefined" using assms(1) [OF w] assms(2) w p by auto
  then show "case p w of (Inl e, w') \<Rightarrow> P w' \<and> e \<noteq> Undefined | (Inr x, w') \<Rightarrow> P w'"
    using p by (cases r) auto
qed

section \<open>The interface\<close>

text \<open>
  A condition \<^term>\<open>J\<close> on the files and \<^verbatim>\<open>--force\<close> that the two operations
  on the lock files keep. \<^term>\<open>allowed\<close> says which options may be given.
\<close>

locale ctrl_invariant =
  fixes E :: env and d :: dictionary and turns :: "(file_map \<Rightarrow> file_map) list"
    and J :: "ctrl \<Rightarrow> bool" and allowed :: "opt_name \<Rightarrow> bool"
  assumes J_files: "files w' = files w \<Longrightarrow> opt_force w' = opt_force w \<Longrightarrow> J w \<Longrightarrow> J w'"
    and J_flag: "allowed n \<Longrightarrow> J w \<Longrightarrow> J (set_flag n w)"
    and J_change: "loaded E d i w \<Longrightarrow> J w \<Longrightarrow> req \<noteq> STATE_PROGRAM \<or> sg \<noteq> None \<Longrightarrow>
          J (snd (change_current_reservation E req sg w))"
    and J_program: "loaded E d i w \<Longrightarrow> J w \<Longrightarrow>
          J (snd (andThen (acquire_prog_lock E turns True)
                    (change_current_reservation E STATE_PROGRAM None) w))"
begin

definition here :: "int \<Rightarrow> ctrl \<Rightarrow> bool" where
  "here i w \<longleftrightarrow> loaded E d i w \<and> J w"

definition bad :: "stop \<Rightarrow> ctrl \<Rightarrow> bool" where
  "bad e w \<longleftrightarrow> J w \<and> (fdopens E \<longrightarrow> e \<noteq> Undefined)"

lemma here_quiet: "same_dev w w' \<Longrightarrow> files w' = files w \<Longrightarrow> here i w \<Longrightarrow> here i w'"
  unfolding here_def using J_files [of w' w] loaded_same by (simp add: same_dev_def)

lemma here_J: "here i w \<Longrightarrow> J w"
  by (simp add: here_def)

lemma quiet:
  assumes "\<And>w. here i w \<Longrightarrow>
    same_dev w (snd (p w)) \<and> files (snd (p w)) = files w \<and> fst (p w) \<noteq> Inl Undefined"
  shows "hoare (here i) p (\<lambda>_. here i) bad"
  by (rule hoare_conseq [OF hoare_quiet [OF assms here_quiet]]) (auto simp: bad_def here_J)

lemma same_dev_prog:
  assumes "\<And>w. here i w \<Longrightarrow> same_dev w (snd (p w)) \<and> J (snd (p w)) \<and> (fdopens E \<longrightarrow> fst (p w) \<noteq> Inl Undefined)"
  shows "hoare (here i) p (\<lambda>_. here i) bad"
proof (rule hoareI)
  fix w assume w: "here i w"
  obtain r w' where p: "p w = (r, w')" by fastforce
  have "here i w'" "fdopens E \<longrightarrow> r \<noteq> Inl Undefined"
    using assms [OF w] w p loaded_same unfolding here_def by auto
  then show "case p w of (Inl e, w') \<Rightarrow> bad e w' | (Inr x, w') \<Rightarrow> here i w'"
    using p by (cases r) (auto simp: bad_def here_J)
qed

lemma change_here:
  "req \<noteq> STATE_PROGRAM \<or> sg \<noteq> None \<Longrightarrow>
     hoare (here i) (change_current_reservation E req sg) (\<lambda>_. here i) bad"
  by (rule same_dev_prog) (use change_same_dev J_change here_def in auto)

lemma access_here: "hoare (here i) (set_fpga_device_access E b q) (\<lambda>_. here i) bad"
  by (rule quiet) (rule set_access_same)

lemma invoke_here:
  assumes "validated d"
  shows "hoare (here i) (invoke_helper_script E st) (\<lambda>_. here i) bad"
proof (rule quiet)
  fix w assume "here i w"
  then have "cfg_class w \<noteq> None"
    using assms unfolding here_def loaded_def validated_def by fastforce
  then show "same_dev w (snd (invoke_helper_script E st w)) \<and>
      files (snd (invoke_helper_script E st w)) = files w \<and>
      fst (invoke_helper_script E st w) \<noteq> Inl Undefined"
    using invoke_same by blast
qed

lemma andThen_same_dev:
  assumes "\<And>w. same_dev w (snd (p w)) \<and> (fdopens E \<longrightarrow> fst (p w) \<noteq> Inl Undefined)"
    "\<And>w. same_dev w (snd (q w)) \<and> (fdopens E \<longrightarrow> fst (q w) \<noteq> Inl Undefined)"
  shows "same_dev w (snd (andThen p q w)) \<and> (fdopens E \<longrightarrow> fst (andThen p q w) \<noteq> Inl Undefined)"
proof -
  obtain r w1 where p: "p w = (r, w1)" by fastforce
  show ?thesis
    using assms(1) [of w] assms(2) [of w1] p same_dev_trans [of w w1]
    by (cases r) (auto simp: andThen_def bind_def)
qed

lemma program_here:
  assumes "validated d"
  shows "hoare (here i) (program_dev E turns) (\<lambda>_. here i) bad"
proof -
  let ?p = "andThen (acquire_prog_lock E turns True) (change_current_reservation E STATE_PROGRAM None)"
  have assoc: "program_dev E turns =
      andThen ?p (andThen (set_fpga_device_access E False False) (invoke_helper_script E STATE_PROGRAM))"
    by (auto simp: program_dev_def andThen_def bind_def fun_eq_iff split: prod.splits sum.splits)
  have "same_dev w (snd (?p w)) \<and> (fdopens E \<longrightarrow> fst (?p w) \<noteq> Inl Undefined)" for w
    by (rule andThen_same_dev) (use acquire_same change_same_dev in auto)
  then have "hoare (here i) ?p (\<lambda>_. here i) bad"
    by (intro same_dev_prog) (use J_program here_def in auto)
  then show ?thesis
    unfolding assoc by (rule hoare_andThen [OF _ hoare_andThen [OF access_here invoke_here [OF assms]]])
qed

lemma load_here:
  assumes "0 \<le> i"
  shows "hoare (\<lambda>w. cfg w = d \<and> J w) (cfg_load_dev E i) (\<lambda>_. here i) bad"
proof (rule hoareI)
  fix w assume w: "cfg w = d \<and> J w"
  have o: "J w'" if "outside w' = outside w" for w'
    using w that J_files [of w' w] by (simp add: outside_def)
  show "case cfg_load_dev E i w of (Inl e, w') \<Rightarrow> bad e w' | (Inr x, w') \<Rightarrow> here i w'"
    using cfg_load_dev_run [OF assms, where E = E and w = w] w o
    by (auto simp: bad_def here_def split: prod.splits sum.splits)
qed

lemma here_cfg: "here i w \<Longrightarrow> cfg w = d \<and> J w"
  by (simp add: here_def loaded_def)

lemma cfg_str_J:
  "hoare (\<lambda>w. cfg w = d \<and> J w) (cfg_get_str sec key)
     (\<lambda>v w. v = dev_string d sec key \<and> cfg w = d \<and> J w) bad"
  by (rule hoareI) (simp add: cfg_get_str_run bad_def)

lemma modify_J:
  assumes "\<And>w. same_dev w (f w) \<and> files (f w) = files w"
  shows "hoare (\<lambda>w. cfg w = d \<and> J w) (modify f) (\<lambda>_ w. cfg w = d \<and> J w) bad"
proof (rule hoare_modify)
  fix w assume "cfg w = d \<and> J w"
  then show "cfg (f w) = d \<and> J (f w)"
    using assms [of w] J_files [of "f w" w] by (simp add: same_dev_def)
qed

lemma modify_here:
  assumes "\<And>w. same_dev w (f w) \<and> files (f w) = files w"
  shows "hoare (here i) (modify f) (\<lambda>_. here i) bad"
  by (rule hoare_modify) (use assms here_quiet in blast)

text \<open>The search for a device ends with it loaded, and never compares with a NULL class.\<close>

definition reserved :: "nat option \<Rightarrow> ctrl \<Rightarrow> bool" where
  "reserved r w \<longleftrightarrow> (case r of None \<Rightarrow> cfg w = d \<and> J w | Some i \<Rightarrow> here (int i) w)"

lemma reserve_loop_J:
  assumes "validated d" "\<forall>j \<in> set js. int j < iniparser_getnsec (Some d)"
  shows "hoare (\<lambda>w. cfg w = d \<and> J w) (reserve_loop E cls js) reserved bad"
  using assms(2)
proof (induction js)
  case Nil
  show ?case by (rule hoareI) (simp add: reserved_def)
next
  case (Cons i rest)
  obtain sec where sec: "iniparser_getsecname (Some d) (int i) = Some sec"
    using Cons.prems getsecname_Some [of "int i" d] by auto
  with assms(1) obtain c where c: "dev_string d sec ''class'' = Some c"
    by (metis not_None_eq of_nat_0_le_iff validated_def)
  have rest: "hoare (\<lambda>w. cfg w = d \<and> J w) (reserve_loop E cls rest) reserved bad"
    using Cons by simp
  have got: "hoare (here (int i)) (if got \<noteq> 0
      then andThen (modify (debug_err ''Reservation successful'')) (ret (Some i))
      else reserve_loop E cls rest) reserved bad" for got
    using hoare_andThen [OF modify_here hoare_ret, of "debug_err ''Reservation successful''" "int i" reserved]
      hoare_pre [OF rest here_cfg]
    by (auto simp: reserved_def)
  have "hoare (\<lambda>w. cfg w = d \<and> J w)
      (andThen (modify (debug_err (''Device '' @ sec @ '' matches class '' @ cls)))
        (andThen (cfg_load_dev E (int i))
        (bind (change_current_reservation E STATE_RESERVED None) (\<lambda>got.
           if got \<noteq> 0
           then andThen (modify (debug_err ''Reservation successful'')) (ret (Some i))
           else reserve_loop E cls rest)))) reserved bad"
    by (rule hoare_andThen [OF modify_J hoare_andThen [OF load_here hoare_bind [OF change_here got]]])
      simp_all
  then have body: "hoare (\<lambda>w. v = dev_string d sec ''class'' \<and> cfg w = d \<and> J w)
      (case v of None \<Rightarrow> raise Undefined
        | Some c' \<Rightarrow> if cls = c' then
            andThen (modify (debug_err (''Device '' @ sec @ '' matches class '' @ cls)))
            (andThen (cfg_load_dev E (int i))
            (bind (change_current_reservation E STATE_RESERVED None) (\<lambda>got.
               if got \<noteq> 0
               then andThen (modify (debug_err ''Reservation successful'')) (ret (Some i))
               else reserve_loop E cls rest)))
          else reserve_loop E cls rest) reserved bad" for v
    using rest c by (cases v) (auto simp: hoare_def)
  show ?case
    by (rule hoareI) (use hoare_run [OF hoare_bind [OF cfg_str_J body]] sec in simp)
qed

lemma reserve_J:
  assumes "validated d"
  shows "hoare (\<lambda>w. cfg w = d \<and> J w) (reserve E cls) (\<lambda>_ w. cfg w = d \<and> J w) bad"
proof (cases cls)
  case None
  then show ?thesis by (auto simp: reserve_def intro!: hoare_raise simp: bad_def)
next
  case (Some c)
  have loop: "hoare (\<lambda>w. cfg w = d \<and> J w)
      (\<lambda>w. reserve_loop E c [0..<nat (iniparser_getnsec (Some (cfg w)))] w) reserved bad"
    by (rule hoare_self) (rule reserve_loop_J [OF assms], auto)
  have out: "hoare (here i) (modify (print_out m)) (\<lambda>_ w. cfg w = d \<and> J w) bad" for i m
    by (rule hoare_conseq [OF modify_here]) (auto dest: here_cfg)
  have fin: "hoare (reserved res)
      (case res of
         None \<Rightarrow> raise (Failed ''Error - Failed to find free device matching requested class'')
       | Some i \<Rightarrow> andThen (set_fpga_device_access E False False)
                     (modify (print_out (show_nat i @ [NL])))) (\<lambda>_ w. cfg w = d \<and> J w) bad" for res
  proof (cases res)
    case None
    then show ?thesis by (auto intro!: hoare_raise simp: bad_def reserved_def)
  next
    case (Some i)
    have "hoare (here (int i)) (andThen (set_fpga_device_access E False False)
        (modify (print_out (show_nat i @ [NL])))) (\<lambda>_ w. cfg w = d \<and> J w) bad"
      by (rule hoare_andThen [OF access_here out])
    with Some show ?thesis by (auto simp: reserved_def elim!: hoare_pre)
  qed
  show ?thesis
    unfolding reserve_def Some option.case
    by (rule hoare_andThen [OF modify_J hoare_bind [OF loop fin]]) simp
qed

subsection \<open>The command line\<close>

definition base :: "ctrl \<Rightarrow> bool" where
  "base w \<longleftrightarrow> cfg w = d \<and> J w"

lemma base_step:
  "base w \<Longrightarrow> cfg w' = cfg w \<Longrightarrow> files w' = files w \<Longrightarrow> opt_force w' = opt_force w \<Longrightarrow> base w'"
  using J_files [of w' w] by (simp add: base_def)

lemma here_base: "here i w \<Longrightarrow> base w"
  by (simp add: base_def here_cfg)

lemma base_bad: "base w \<Longrightarrow> e \<noteq> Undefined \<Longrightarrow> bad e w"
  by (simp add: base_def bad_def)

lemma debug_paths_base: "base w \<Longrightarrow> base (debug_paths E w)"
  by (erule base_step) (simp_all add: debug_paths_def print_err_def)

lemma set_flag_base: "allowed n \<Longrightarrow> base w \<Longrightarrow> base (set_flag n w)"
  using J_flag [of n w] by (cases n) (simp_all add: base_def set_flag_def)

lemma usage_base: "hoare base usage Q bad"
  unfolding usage_def
  by (rule hoare_andThen [where R = base, OF hoare_modify hoare_raise])
    (auto intro: base_step base_bad)

definition signed :: "request \<Rightarrow> bool" where
  "signed q \<longleftrightarrow> (req_set_signature q \<longrightarrow> req_signature q \<noteq> None)"

lemma set_request_base:
  "signed q \<Longrightarrow> n = N_setsignature \<longrightarrow> arg \<noteq> None \<Longrightarrow>
     hoare base (set_request E n arg q) (\<lambda>q' w. base w \<and> signed q') bad"
  by (cases n)
    (auto simp: set_request_def Let_def hoare_def base_bad signed_def split: option.splits)

definition good_options :: "parsed list \<Rightarrow> bool" where
  "good_options ps \<longleftrightarrow> (\<forall>n arg. Opt n arg \<in> set ps \<longrightarrow>
     allowed n \<and> (n = N_setsignature \<longrightarrow> arg \<noteq> None))"

lemma option_loop_base:
  "good_options ps \<Longrightarrow> signed q \<Longrightarrow>
     hoare base (option_loop E ps q) (\<lambda>q' w. base w \<and> signed q') bad"
proof (induction ps arbitrary: q)
  case Nil
  then show ?case by (intro hoareI) simp
next
  case (Cons p ps)
  show ?case
  proof (cases p)
    case OptBad
    have "hoare base (andThen (modify (debug_paths E)) usage) (\<lambda>q' w. base w \<and> signed q') bad"
      by (rule hoare_andThen [OF hoare_modify usage_base]) (rule debug_paths_base)
    then show ?thesis using OptBad by (simp add: hoare_def)
  next
    case (Opt n arg)
    then have ok: "allowed n" "n = N_setsignature \<longrightarrow> arg \<noteq> None" "good_options ps"
      using Cons.prems by (auto simp: good_options_def)
    have rest: "hoare (\<lambda>w. base w \<and> signed q') (option_loop E ps q') (\<lambda>q' w. base w \<and> signed q') bad" for q'
      using Cons.IH [OF ok(3), of q'] by (auto simp: hoare_def)
    have "hoare base (andThen (modify (\<lambda>w. debug_paths E (set_flag n w)))
        (bind (set_request E n arg q) (option_loop E ps))) (\<lambda>q' w. base w \<and> signed q') bad"
      by (rule hoare_andThen [OF hoare_modify
            hoare_bind [OF set_request_base [OF Cons.prems(2) ok(2)] rest]])
        (intro debug_paths_base set_flag_base ok)
    then show ?thesis using Opt by (simp add: hoare_def)
  qed
qed

lemma validate_base: "hoare base cfg_validate (\<lambda>_ w. base w \<and> validated d) bad"
proof (rule hoareI)
  fix w assume w: "base w"
  then have d: "cfg w = d" by (simp add: base_def)
  obtain r w' where run: "cfg_validate w = (r, w')" by fastforce
  have "base w'"
    using base_step [OF w, of w'] cfg_validate_run [where w = w] run by (cases r) auto
  then show "case cfg_validate w of (Inl e, w') \<Rightarrow> bad e w' | (Inr x, w') \<Rightarrow> base w' \<and> validated d"
    using cfg_validate_run [where w = w] run d by (cases r) (auto intro: base_bad)
qed

subsection \<open>The requests\<close>

text \<open>A device is loaded unless the request brings its own.\<close>

definition ready :: "request \<Rightarrow> ctrl \<Rightarrow> bool" where
  "ready q w \<longleftrightarrow> base w \<and> (\<not> req_reserve q \<and> \<not> query_status q \<longrightarrow> (\<exists>i. here i w))"

lemma ready_here: "here i w \<Longrightarrow> ready q w"
  by (auto simp: ready_def here_base)

lemma load_base: "0 \<le> i \<Longrightarrow> hoare base (cfg_load_dev E i) (\<lambda>_. here i) bad"
  using load_here [of i] by (simp add: base_def [abs_def])

lemma lone_class_here:
  assumes "iniparser_getnsec (Some d) = 1"
  shows "hoare (here i) (\<lambda>w. case iniparser_getsecname (Some (cfg w)) 0 of
       None \<Rightarrow> (Inl Undefined, w)
     | Some sec \<Rightarrow> bind (cfg_get_str sec ''class'') (\<lambda>c. ret (q\<lparr>req_reserve_class := c\<rparr>)) w)
     (\<lambda>q' w. here i w \<and> (\<exists>c. q' = q\<lparr>req_reserve_class := c\<rparr>)) bad"
proof (rule hoareI)
  fix w assume w: "here i w"
  obtain sec where "iniparser_getsecname (Some (cfg w)) 0 = Some sec"
    using w assms getsecname_Some [of 0 d] here_cfg by fastforce
  then show "case (case iniparser_getsecname (Some (cfg w)) 0 of None \<Rightarrow> (Inl Undefined, w)
       | Some sec \<Rightarrow> bind (cfg_get_str sec ''class'') (\<lambda>c. ret (q\<lparr>req_reserve_class := c\<rparr>)) w) of
      (Inl e, w') \<Rightarrow> bad e w'
    | (Inr q', w') \<Rightarrow> here i w' \<and> (\<exists>c. q' = q\<lparr>req_reserve_class := c\<rparr>)"
    using w here_J by (auto simp: bind_def cfg_get_str_run bad_def)
qed

lemma choose_device_ready:
  "hoare base (choose_device E q) (\<lambda>q' w. ready q' w \<and> (\<exists>c. q' = q\<lparr>req_reserve_class := c\<rparr>)) bad"
proof -
  have same: "\<exists>c. q = q\<lparr>req_reserve_class := c\<rparr>"
    by (rule exI [of _ "req_reserve_class q"]) simp
  let ?Q = "\<lambda>q' w. ready q' w \<and> (\<exists>c. q' = q\<lparr>req_reserve_class := c\<rparr>)"
  have keep: "hoare (here i) (ret q) ?Q bad" for i
    by (rule hoare_ret) (intro conjI ready_here same)
  have A: "hoare base (andThen (cfg_load_dev E (req_dev_id q))
      (if req_reserve q then raise (Failed ''Error - --device-id may not be specified with --reserve'')
       else ret q)) ?Q bad" if "0 \<le> req_dev_id q"
    by (rule hoare_andThen [OF load_base [OF that]])
      (use keep in \<open>auto intro!: hoare_raise simp: base_bad here_base\<close>)
  have B: "hoare base (andThen (cfg_load_dev E 0)
      (if req_reserve_class q = None then
            (\<lambda>w. case iniparser_getsecname (Some (cfg w)) 0 of
                   None \<Rightarrow> (Inl Undefined, w)
                 | Some sec \<Rightarrow>
                     bind (cfg_get_str sec ''class'') (\<lambda>c. ret (q\<lparr>req_reserve_class := c\<rparr>)) w)
       else ret q)) ?Q bad" if "iniparser_getnsec (Some d) = 1"
  proof (rule hoare_andThen [OF load_base])
    show "hoare (here 0) (if req_reserve_class q = None then
            (\<lambda>w. case iniparser_getsecname (Some (cfg w)) 0 of
                   None \<Rightarrow> (Inl Undefined, w)
                 | Some sec \<Rightarrow>
                     bind (cfg_get_str sec ''class'') (\<lambda>c. ret (q\<lparr>req_reserve_class := c\<rparr>)) w)
       else ret q) ?Q bad"
    proof (cases "req_reserve_class q = None")
      case True
      then show ?thesis
        unfolding if_P [OF True]
        by (intro hoare_conseq [OF lone_class_here [OF that]]) (auto intro: ready_here)
    next
      case False
      then show ?thesis using keep by (simp only: if_False)
    qed
  qed simp
  show ?thesis
  proof (rule hoareI)
    fix w assume w: "base w"
    then have d: "cfg w = d" by (simp add: base_def)
    show "case choose_device E q w of (Inl e, w') \<Rightarrow> bad e w' | (Inr q', w') \<Rightarrow> ?Q q' w'"
      using hoare_run [OF A w] hoare_run [OF B w] w same [THEN eqTrueI]
      by (auto simp: choose_device_def d ready_def base_bad)
  qed
qed

lemma guarded_ready:
  assumes "b \<Longrightarrow> \<not> req_reserve q \<and> \<not> query_status q"
    and "\<And>i. b \<Longrightarrow> hoare (here i) p (\<lambda>_. here i) bad"
  shows "hoare (ready q) (guarded b p) (\<lambda>_. ready q) bad"
proof (cases b)
  case True
  show ?thesis
  proof (rule hoareI)
    fix w assume "ready q w"
    then obtain i where "here i w" using assms(1) [OF True] by (auto simp: ready_def)
    from hoare_run [OF assms(2) [OF True] this]
    show "case guarded b p w of (Inl e, w') \<Rightarrow> bad e w' | (Inr x, w') \<Rightarrow> ready q w'"
      using True by (auto simp: guarded_def ready_here split: prod.splits sum.splits)
  qed
qed (simp add: guarded_def hoare_ret)

lemma guarded_base:
  assumes "b \<Longrightarrow> req_reserve q \<or> query_status q" "b \<Longrightarrow> hoare base p (\<lambda>_. base) bad"
  shows "hoare (ready q) (guarded b p) (\<lambda>_. ready q) bad"
proof (cases b)
  case True
  then have "hoare base p (\<lambda>_. base) bad" "ready q = base"
    using assms by (auto simp: ready_def)
  then show ?thesis using True by (simp add: guarded_def)
qed (simp add: guarded_def hoare_ret)

lemma change_unit_here:
  "req \<noteq> STATE_PROGRAM \<or> sg \<noteq> None \<Longrightarrow>
     hoare (here i) (andThen (change_current_reservation E req sg) (ret ())) (\<lambda>_. here i) bad"
  by (rule hoare_andThen [OF change_here hoare_ret])

lemma requests_here:
  assumes "validated d"
  shows "hoare (here i) (reset E) (\<lambda>_. here i) bad"
    "hoare (here i) (activate_dev E) (\<lambda>_. here i) bad"
    "hoare (here i) (deactivate_dev E) (\<lambda>_. here i) bad"
    "hoare (here i) (drop_reservation E) (\<lambda>_. here i) bad"
    "hoare (here i) (get_config E r) (\<lambda>_. here i) bad"
    "hoare (here i) (modify (current_reservation_state E s)) (\<lambda>_. here i) bad"
  unfolding reset_def activate_dev_def deactivate_dev_def drop_reservation_def
  by (intro hoare_andThen [OF change_here] hoare_andThen [OF invoke_here [OF assms]]
        hoare_andThen [OF access_here] access_here invoke_here assms modify_here quiet
        get_config_same; simp)+

lemma show_all_base:
  assumes "\<forall>j \<in> set js. int j < iniparser_getnsec (Some d)"
  shows "hoare base (show_all E js) (\<lambda>_. base) bad"
  using assms
proof (induction js)
  case Nil
  show ?case by (rule hoareI) simp
next
  case (Cons j js)
  let ?title = "\<lambda>w. print_out ((if j \<noteq> 0 then [NL] else []) @
        (case iniparser_getsecname (Some (cfg w)) (int j) of Some s \<Rightarrow> s | None \<Rightarrow> ''(null)'')
        @ '':'' @ [NL]) w"
  have "hoare base (show_all E js) (\<lambda>_. base) bad" using Cons by simp
  then have rest: "hoare (here (int j)) (show_all E js) (\<lambda>_. base) bad"
    by (rule hoare_pre) (rule here_base)
  have title: "hoare base (modify ?title) (\<lambda>_. base) bad"
    by (rule hoare_modify) (erule base_step; simp add: print_out_def)
  have "hoare base (andThen (modify ?title) (andThen (cfg_load_dev E (int j))
      (andThen (modify (current_reservation_state E SHOW_STATE_ALL)) (show_all E js)))) (\<lambda>_. base) bad"
    by (intro hoare_andThen [OF title] hoare_andThen [OF load_base] hoare_andThen [OF modify_here] rest)
      simp_all
  then show ?case by (simp add: hoare_def)
qed

lemma run_requests_base:
  assumes v: "validated d" and one: "count_requests q = 1"
    and sg: "signed q"
  shows "hoare (ready q) (run_requests E turns q) (\<lambda>_. ready q) bad"
proof -
  have ex: "req_reset q \<or> req_program_dev q \<or> req_activate_dev q \<or> req_deactivate_dev q \<or>
      req_drop_reservation q \<or> req_set_signature q \<or> req_get_signature q \<or> req_get_state q \<or>
      req_get_config q \<Longrightarrow> \<not> req_reserve q \<and> \<not> query_status q"
    using one by (auto simp: count_requests_def split: if_splits)
  have res: "hoare base (reserve E c) (\<lambda>_. base) bad" for c
    using reserve_J [OF v, of c] by (simp add: base_def [abs_def])
  have all: "hoare base (\<lambda>w. show_all E [0..<nat (iniparser_getnsec (Some (cfg w)))] w) (\<lambda>_. base) bad"
    by (rule hoare_self, rule show_all_base) (auto simp: base_def)
  note g = hoare_andThen [OF guarded_ready]
  note h = requests_here [OF v]
  show ?thesis
    unfolding run_requests_def
    by (rule g [OF _ h(1)], use ex in blast)
      (rule hoare_andThen [OF guarded_base [OF _ res]], blast,
       rule g [OF _ program_here [OF v]], use ex in blast,
       rule g [OF _ h(2)], use ex in blast,
       rule g [OF _ h(3)], use ex in blast,
       rule g [OF _ h(4)], use ex in blast,
       rule g [OF _ change_unit_here], use ex in blast, use sg in \<open>simp add: signed_def\<close>,
       rule g [OF _ h(6)], use ex in blast,
       rule g [OF _ h(6)], use ex in blast,
       rule g [OF _ h(5)], use ex in blast,
       rule guarded_base [OF _ all], blast)
qed

lemma main_base:
  assumes load: "iniparser_load (e_alloc E) (CFG_FILE E) (e_config E) = (Loaded d, msgs)"
    and opts: "good_options (getopt_long args)"
  shows "hoare J (fpga_ctrl_main E turns args) (\<lambda>_. base) bad"
proof -
  have conf: "hoare J (load_config E) (\<lambda>_. base) bad"
  proof (rule hoareI)
    fix w assume "J w"
    then have "J (print_err msgs (w\<lparr>cfg := d\<rparr>))"
      by (rule J_files [rotated 2]) simp_all
    then show "case load_config E w of (Inl e, w') \<Rightarrow> bad e w' | (Inr x, w') \<Rightarrow> base w'"
      by (simp add: load_config_def load base_def)
  qed
  have nosig: "signed no_request" by (simp add: signed_def no_request_def)
  have chosen: "hoare (\<lambda>w. ready q' w \<and> (\<exists>c. q' = q\<lparr>req_reserve_class := c\<rparr>))
      (run_requests E turns q') (\<lambda>_. base) bad"
    if "validated d" "count_requests q = 1" "signed q" for q q'
  proof (cases "\<exists>c. q' = q\<lparr>req_reserve_class := c\<rparr>")
    case True
    then obtain c where q': "q' = q\<lparr>req_reserve_class := c\<rparr>" by blast
    have "count_requests q' = count_requests q" "signed q' = signed q"
      by (simp_all add: q' count_requests_def signed_def)
    then have "count_requests q' = 1" "signed q'" using that by simp_all
    from run_requests_base [OF that(1) this] show ?thesis
      by (rule hoare_conseq) (auto simp: ready_def)
  qed (simp add: hoare_def)
  have after: "hoare (\<lambda>w. base w \<and> validated d) (bind (choose_device E q) (run_requests E turns))
      (\<lambda>_. base) bad" if "count_requests q = 1" "signed q" for q
  proof (cases "validated d")
    case True
    show ?thesis
      by (rule hoare_pre [OF hoare_bind [OF choose_device_ready chosen [OF True that]]]) simp
  qed (simp add: hoare_def)
  have body: "hoare (\<lambda>w. base w \<and> signed q)
      (if count_requests q \<noteq> 1 then usage
       else andThen cfg_validate (bind (choose_device E q) (run_requests E turns))) (\<lambda>_. base) bad" for q
  proof (cases "count_requests q = 1 \<and> signed q")
    case True
    then have "hoare base (andThen cfg_validate (bind (choose_device E q) (run_requests E turns)))
        (\<lambda>_. base) bad"
      by (intro hoare_andThen [OF validate_base after]) simp_all
    with True show ?thesis by (auto elim: hoare_pre)
  next
    case False
    then show ?thesis
      using hoare_pre [OF usage_base, of "\<lambda>w. base w \<and> signed q" "\<lambda>_. base"]
      by (cases "signed q") (auto simp: hoare_def)
  qed
  show ?thesis
    unfolding fpga_ctrl_main_def
    by (rule hoare_andThen [OF conf hoare_bind [OF option_loop_base [OF opts nosig] body]])
qed

theorem main_keeps:
  assumes "iniparser_load (e_alloc E) (CFG_FILE E) (e_config E) = (Loaded d, msgs)"
    and "good_options (getopt_long args)" "J w"
  shows "J (snd (fpga_ctrl_main E turns args w)) \<and> (fdopens E \<longrightarrow> fst (fpga_ctrl_main E turns args w) \<noteq> Inl Undefined)"
proof -
  obtain r w' where run: "fpga_ctrl_main E turns args w = (r, w')" by fastforce
  then show ?thesis
    using hoare_run [OF main_base [OF assms(1,2)] assms(3)]
    by (cases r) (auto simp: bad_def base_def)
qed

end

section \<open>No undefined behaviour\<close>


text \<open>\<^verbatim>\<open>--setsignature\<close> never comes without its argument.\<close>

lemma find_long_setsignature: "find_long nm = Some (ha, N_setsignature) \<Longrightarrow> ha = required_argument"
proof -
  assume f: "find_long nm = Some (ha, N_setsignature)"
  have "\<exists>n. (n, ha, N_setsignature) \<in> set long_options"
  proof (cases "map_of long_options nm")
    case (Some x)
    with f show ?thesis by (auto simp: find_long_def dest: map_of_SomeD)
  next
    case None
    let ?l = "filter (\<lambda>(n, _). take (length nm) n = nm) long_options"
    from None f have "\<exists>n. ?l = [(n, ha, N_setsignature)]"
      by (auto simp: find_long_def split: list.splits)
    then have "\<exists>n. (n, ha, N_setsignature) \<in> set ?l" by fastforce
    then show ?thesis by auto
  qed
  then show ?thesis by (auto simp: long_options_def)
qed

text \<open>The options of an argument list are those of its first argument and of a shorter list.\<close>

lemma getopt_step:
  "\<exists>ps rest'. getopt_long (a # rest) = ps @ getopt_long rest' \<and> length rest' \<le> length rest
     \<and> (\<forall>n arg. Opt n arg \<in> set ps \<longrightarrow> n = N_setsignature \<longrightarrow> arg \<noteq> None)"
proof -
  have none: "\<exists>ps rest'. [] = ps @ getopt_long rest' \<and> length rest' \<le> length rest
     \<and> (\<forall>n arg. Opt n arg \<in> set ps \<longrightarrow> n = N_setsignature \<longrightarrow> arg \<noteq> None)"
    by (rule exI [of _ "[]"], rule exI [of _ "[]"]) simp
  have one: "\<exists>ps rest'. x # getopt_long r = ps @ getopt_long rest' \<and> length rest' \<le> length rest
     \<and> (\<forall>n arg. Opt n arg \<in> set ps \<longrightarrow> n = N_setsignature \<longrightarrow> arg \<noteq> None)"
    if "length r \<le> length rest" "x \<noteq> Opt N_setsignature None" for x r
    by (rule exI [of _ "[x]"], rule exI [of _ r]) (use that in auto)
  have skip: "\<exists>ps rest'. getopt_long rest = ps @ getopt_long rest' \<and> length rest' \<le> length rest
     \<and> (\<forall>n arg. Opt n arg \<in> set ps \<longrightarrow> n = N_setsignature \<longrightarrow> arg \<noteq> None)"
    by (rule exI [of _ "[]"], rule exI [of _ rest]) simp
  have bad: "\<exists>ps rest'. [OptBad] = ps @ getopt_long rest' \<and> length rest' \<le> length rest
     \<and> (\<forall>n arg. Opt n arg \<in> set ps \<longrightarrow> n = N_setsignature \<longrightarrow> arg \<noteq> None)"
    by (rule exI [of _ "[OptBad]"], rule exI [of _ "[]"]) simp
  let ?body = "drop 2 a"
  let ?nm = "takeWhile (\<lambda>c. c \<noteq> CHR ''='') ?body"
  show ?thesis
  proof (cases "a \<noteq> ''--'' \<and> take 2 a = ''--''")
    case False
    then have "getopt_long (a # rest) = [] \<or> getopt_long (a # rest) = OptBad # getopt_long rest \<or>
        getopt_long (a # rest) = getopt_long rest"
      by (cases "a = ''--''") auto
    then show ?thesis using none skip one [of rest OptBad] by (elim disjE) (simp_all only: order_refl, simp)
  next
    case long: True
    show ?thesis
    proof (cases "find_long ?nm")
      case None
      then show ?thesis using long one [of rest OptBad] by (simp add: Let_def)
    next
      case (Some x)
      obtain ha n where x: "x = (ha, n)" by fastforce
      have n: "n = N_setsignature \<Longrightarrow> ha = required_argument"
        using Some x find_long_setsignature by simp
      show ?thesis
      proof (cases ha)
        case no_argument
        then have "n \<noteq> N_setsignature" using n by auto
        then show ?thesis using long Some x no_argument one by (simp add: Let_def)
      next
        case optional_argument
        then have "n \<noteq> N_setsignature" using n by auto
        then show ?thesis using long Some x optional_argument one by (simp add: Let_def)
      next
        case required_argument
        let ?arg = "if length ?nm < length ?body then Some (drop (length ?nm + 1) ?body) else None"
        have eq: "getopt_long (a # rest) = (case (?arg, rest) of
              (Some v, _) \<Rightarrow> Opt n (Some v) # getopt_long rest
            | (None, v # rest') \<Rightarrow> Opt n (Some v) # getopt_long rest'
            | (None, []) \<Rightarrow> [OptBad])"
          using long Some x required_argument by (simp add: Let_def)
        show ?thesis
        proof (cases ?arg)
          case (Some v)
          have "getopt_long (a # rest) = Opt n (Some v) # getopt_long rest"
            unfolding eq Some by simp
          then show ?thesis using one [of rest "Opt n (Some v)"] by (simp only: order_refl) simp
        next
          case none: None
          show ?thesis
          proof (cases rest)
            case Nil
            have "getopt_long (a # rest) = [OptBad]"
              by (subst eq, subst none) (simp add: Nil)
            then show ?thesis using bad by (simp only:)
          next
            case (Cons v r)
            have "getopt_long (a # rest) = Opt n (Some v) # getopt_long r"
              by (subst eq, subst none) (simp add: Cons)
            then show ?thesis using one [of r "Opt n (Some v)"] Cons by (simp only:) simp
          qed
        qed
      qed
    qed
  qed
qed

lemma getopt_setsignature: "Opt N_setsignature arg \<in> set (getopt_long args) \<Longrightarrow> arg \<noteq> None"
proof (induction args rule: length_induct)
  case (1 args)
  show ?case
  proof (cases args)
    case Nil
    then show ?thesis using 1 by simp
  next
    case (Cons a rest)
    obtain ps rest' where step: "getopt_long (a # rest) = ps @ getopt_long rest'"
        "length rest' \<le> length rest" "\<forall>n arg. Opt n arg \<in> set ps \<longrightarrow> n = N_setsignature \<longrightarrow> arg \<noteq> None"
      using getopt_step [of a rest] by blast
    then have "Opt N_setsignature arg \<in> set ps \<or> Opt N_setsignature arg \<in> set (getopt_long rest')"
      using 1(2) Cons by simp
    then show ?thesis using 1(1) step(2,3) Cons by (auto simp: less_Suc_eq_le)
  qed
qed



section \<open>One device at a time is programmed\<close>

definition record_at :: "file_map \<Rightarrow> string \<Rightarrow> lock_rec" where
  "record_at fs p = read_lock (case fs p of Some s \<Rightarrow> s | None \<Rightarrow> [])"

definition programming :: "file_map \<Rightarrow> string \<Rightarrow> bool" where
  "programming fs p \<longleftrightarrow> lk_state (record_at fs p) = STATE_PROGRAM"

definition device :: "env \<Rightarrow> dictionary \<Rightarrow> int \<Rightarrow> string \<Rightarrow> bool" where
  "device E d i p \<longleftrightarrow> 0 \<le> i \<and>
     (\<exists>sec. iniparser_getsecname (Some d) i = Some sec \<and> p = device_file E d sec)"

text \<open>The number in the programming lock, as the program reads it.\<close>

definition lock_holder :: "env \<Rightarrow> file_map \<Rightarrow> int option" where
  "lock_holder E fs =
     Option.bind (fs (PROG_LOCK_FILE E)) (\<lambda>s. map_option (\<lambda>(v, _). sint (to_u32 v)) (scan_int s))"

definition lock_inv :: "env \<Rightarrow> dictionary \<Rightarrow> file_map \<Rightarrow> bool" where
  "lock_inv E d fs \<longleftrightarrow>
     (\<forall>i p. device E d i p \<longrightarrow> programming fs p \<longrightarrow>
        (\<exists>j. device E d j p \<and> lock_holder E fs = Some j))"

text \<open>
  Device numbers fit the file, no device's lock file is the programming lock itself,
  locks on the files are granted within the retries, and what is flushed reaches the files.
\<close>

definition sane :: "env \<Rightarrow> dictionary \<Rightarrow> bool" where
  "sane E d \<longleftrightarrow> iniparser_getnsec (Some d) \<le> 2 ^ 31 \<and>
     (\<forall>i p. device E d i p \<longrightarrow> p \<noteq> PROG_LOCK_FILE E \<and> e_busy E p \<le> 20 \<and> e_flush E p = None) \<and>
     e_flush E (PROG_LOCK_FILE E) = None"

lemma device_unique: "device E d i p \<Longrightarrow> device E d i q \<Longrightarrow> p = q"
  by (auto simp: device_def)

lemma lock_inv_unique:
  assumes "lock_inv E d fs" "device E d i p" "programming fs p" "device E d j q" "programming fs q"
  shows "p = q"
proof -
  obtain k where "device E d k p" "lock_holder E fs = Some k" using assms by (auto simp: lock_inv_def)
  moreover obtain l where "device E d l q" "lock_holder E fs = Some l"
    using assms by (auto simp: lock_inv_def)
  ultimately show ?thesis using device_unique [of E d k p q] by simp
qed

lemma read_lock_text_state: "lk_state (read_lock (lock_text uid st sg)) = st"
proof -
  let ?r = "'' '' @ show_int (int (state_code st)) @ (CHR '' '' # sg @ [NL])"
  have sp: "\<not> isdigit (CHR '' '')" "isspace (CHR '' '')" by (simp_all add: isspace_def isdigit_def)
  have "scan_int ([] @ show_int (sint uid) @ ?r) = Some (sint uid, ?r)"
    by (rule scan_show_int) (use sp in simp_all)
  moreover have "scan_int ?r = Some (int (state_code st), CHR '' '' # sg @ [NL])"
    by (rule scan_show_int) (use sp in simp_all)
  ultimately show ?thesis by (simp add: read_lock_def scan_lock_def lock_text_def)
qed

text \<open>What a transition can do to the files.\<close>

lemma write_reservation_files:
  "files (snd (write_reservation E r new sg w)) = files w \<or>
   files (snd (write_reservation E r new sg w)) =
     (let fs = (files w)(cfg_res_file w \<mapsto> flushed E (cfg_res_file w) (lock_text (e_uid E) new sg))
      in if lk_state r = STATE_PROGRAM \<and> new \<noteq> STATE_PROGRAM then fs(PROG_LOCK_FILE E := None) else fs)"
  by (simp add: write_reservation_def Let_def)

definition touched :: "file_map \<Rightarrow> string \<Rightarrow> file_map" where
  "touched fs p = fs(p \<mapsto> (case fs p of Some s \<Rightarrow> s | None \<Rightarrow> []))"

lemma change_files:
  fixes E :: env and w :: ctrl and req :: fpga_state and sg :: "string option"
  assumes "e_busy E (cfg_res_file w) \<le> 20" "\<not> opt_force w" "e_flush E (cfg_res_file w) = None"
  defines "p \<equiv> cfg_res_file w" and "r \<equiv> record_at (files w) (cfg_res_file w)"
    and "fs \<equiv> files (snd (change_current_reservation E req sg w))"
  obtains (same) "fs = files w"
  | (touch) "fs = touched (files w) p"
  | (denied) "fs = (touched (files w) p)(PROG_LOCK_FILE E := None)" "lk_state r \<noteq> STATE_PROGRAM"
      "req = STATE_PROGRAM" "sg = None"
  | (wrote) st s where "fs = (files w)(p \<mapsto> lock_text (e_uid E) st s)"
      "lk_state r = STATE_PROGRAM \<Longrightarrow> st = STATE_PROGRAM"
      "st = STATE_PROGRAM \<Longrightarrow> req = STATE_PROGRAM \<and> (sg = None \<or> lk_state r = STATE_PROGRAM)"
  | (release) st s where "fs = (files w)(p \<mapsto> lock_text (e_uid E) st s, PROG_LOCK_FILE E := None)"
      "lk_state r = STATE_PROGRAM" "st \<noteq> STATE_PROGRAM"
proof -
  define new where "new = (if req = STATE_RESET then STATE_FREE else req)"
  define sig where "sig = kept_signature r req sg"
  have rec: "current_record w = r" by (simp add: current_record_read r_def record_at_def p_def)
  have w1: "files (opened w) = touched (files w) p" by (simp add: opened_def touched_def p_def)
  have upd: "(touched (files w) p)(p \<mapsto> x) = (files w)(p \<mapsto> x)" for x by (simp add: touched_def)
  have busy: "lock_attempts (e_busy E p) 0" using assms(1) by (simp add: lock_attempts_iff p_def)
  have kept: "flushed E p x = x" for x using assms(3) by (simp add: flushed_def p_def)
  consider (no) "\<not> e_open_ok E p" | (null) "e_open_ok E p" "\<not> e_fdopen_ok E p"
    | (early) "e_open_ok E p" "e_fdopen_ok E p" "req = STATE_PROGRAM \<and> sg \<noteq> None \<and> lk_state r \<noteq> STATE_PROGRAM"
    | (go) "e_open_ok E p" "e_fdopen_ok E p" "\<not> (req = STATE_PROGRAM \<and> sg \<noteq> None \<and> lk_state r \<noteq> STATE_PROGRAM)" by blast
  then show thesis
  proof cases
    case no
    then show thesis by (intro same) (simp add: fs_def p_def change_current_reservation_def)
  next
    case null
    then show thesis
      using busy by (intro touch)
        (simp add: fs_def p_def change_current_reservation_def Let_def touched_def)
  next
    case early
    then show thesis
      using busy rec by (intro touch)
        (simp add: fs_def p_def change_current_reservation_def update_signature_result Let_def
          touched_def current_record_read)
  next
    case go
    note run = change_run [OF go(1) [unfolded p_def] assms(1) go(2) [unfolded p_def] go(3) [folded rec], unfolded Let_def,
        folded new_def, unfolded rec, folded sig_def]
    have new: "req = STATE_PROGRAM \<and> (sg = None \<or> lk_state r = STATE_PROGRAM)" if "new = STATE_PROGRAM"
      using go(3) that by (auto simp: new_def split: if_splits)
    show thesis
    proof (cases "owner_check (e_uid E) (opt_force w) r new")
      case Allowed
      then have "fs = files (snd (write_reservation E r new sig (opened w)))" by (simp add: fs_def run)
      with write_reservation_files [of E r new sig "opened w"]
      have "fs = touched (files w) p \<or>
          fs = (if lk_state r = STATE_PROGRAM \<and> new \<noteq> STATE_PROGRAM
                then (files w)(p \<mapsto> lock_text (e_uid E) new sig, PROG_LOCK_FILE E := None)
                else (files w)(p \<mapsto> lock_text (e_uid E) new sig))"
        by (simp add: w1 Let_def p_def [symmetric] upd kept)
      then show thesis
      proof (elim disjE)
        assume "fs = touched (files w) p"
        then show thesis by (rule touch)
      next
        assume fs: "fs = (if lk_state r = STATE_PROGRAM \<and> new \<noteq> STATE_PROGRAM
                then (files w)(p \<mapsto> lock_text (e_uid E) new sig, PROG_LOCK_FILE E := None)
                else (files w)(p \<mapsto> lock_text (e_uid E) new sig))"
        show thesis
        proof (cases "lk_state r = STATE_PROGRAM \<and> new \<noteq> STATE_PROGRAM")
          case True
          then show thesis using fs release by simp
        next
          case False
          then show thesis using fs new by (intro wrote) (simp, blast, blast)
        qed
      qed
    next
      case Stolen
      then show thesis using assms(2) by (auto simp: owner_check_def split: if_splits)
    next
      case TryOther
      then show thesis using w1 by (intro touch) (simp add: fs_def run)
    next
      case Denied
      then show thesis using w1 by (intro touch) (simp add: fs_def run)
    next
      case DeniedUnlock
      then have "new = STATE_PROGRAM" "lk_state r \<noteq> STATE_PROGRAM"
        by (auto simp: owner_check_def split: if_splits)
      moreover have "fs = (touched (files w) p)(PROG_LOCK_FILE E := None)"
        using DeniedUnlock w1 by (simp add: fs_def run)
      ultimately show thesis using new by (intro denied) auto
    qed
  qed
qed

lemma programming_other: "q \<noteq> p \<Longrightarrow> programming (fs(p := x)) q = programming fs q"
  by (simp add: programming_def record_at_def)

lemma programming_touched [simp]: "programming (touched fs p) q = programming fs q"
  by (simp add: programming_def record_at_def touched_def)

lemma programming_text [simp]: "programming (fs(p \<mapsto> lock_text u st s)) p \<longleftrightarrow> st = STATE_PROGRAM"
  by (simp add: programming_def record_at_def read_lock_text_state)

lemma lock_holder_other: "p \<noteq> PROG_LOCK_FILE E \<Longrightarrow> lock_holder E (fs(p := x)) = lock_holder E fs"
  by (simp add: lock_holder_def)

lemma lock_holder_touched: "p \<noteq> PROG_LOCK_FILE E \<Longrightarrow> lock_holder E (touched fs p) = lock_holder E fs"
  by (simp add: touched_def lock_holder_other)

text \<open>The lock names a device, and it is the only one that may be in the state.\<close>

definition only :: "env \<Rightarrow> dictionary \<Rightarrow> int \<Rightarrow> string \<Rightarrow> file_map \<Rightarrow> bool" where
  "only E d i p fs \<longleftrightarrow> lock_holder E fs = Some i \<and> (\<forall>j q. device E d j q \<longrightarrow> programming fs q \<longrightarrow> q = p)"

lemma only_inv: "only E d i p fs \<Longrightarrow> device E d i p \<Longrightarrow> lock_inv E d fs"
  by (auto simp: only_def lock_inv_def)

lemma none_inv: "(\<And>j q. device E d j q \<Longrightarrow> \<not> programming fs q) \<Longrightarrow> lock_inv E d fs"
  by (auto simp: lock_inv_def)

lemma loaded_device: "loaded E d i w \<Longrightarrow> device E d i (cfg_res_file w)"
  by (auto simp: loaded_def device_def)

lemma change_keeps_inv:
  assumes "loaded E d i w" "sane E d" "\<not> opt_force w"
    and "lock_inv E d (files w)" "req \<noteq> STATE_PROGRAM \<or> sg \<noteq> None"
  shows "lock_inv E d (files (snd (change_current_reservation E req sg w)))"
proof -
  let ?p = "cfg_res_file w"
  have p: "device E d i ?p" "?p \<noteq> PROG_LOCK_FILE E" "e_busy E ?p \<le> 20" "e_flush E ?p = None"
    using assms(1,2) loaded_device unfolding sane_def by blast+
  have other: "q \<noteq> PROG_LOCK_FILE E" if "device E d j q" for j q
    using that assms(2) by (auto simp: sane_def)
  have inv: "lock_inv E d (files w)" by (rule assms(4))
  from p(3) assms(3) p(4) show ?thesis
  proof (cases rule: change_files [where req = req and sg = sg])
    case same
    then show ?thesis using inv by simp
  next
    case touch
    then show ?thesis using inv p(2) by (simp add: lock_inv_def lock_holder_touched)
  next
    case denied
    then show ?thesis using assms(5) by simp
  next
    case (wrote st s)
    show ?thesis
      unfolding wrote(1) lock_inv_def lock_holder_other [OF p(2)]
    proof (intro allI impI)
      fix k q
      assume k: "device E d k q" "programming ((files w)(?p \<mapsto> lock_text (e_uid E) st s)) q"
      have "programming (files w) q"
      proof (cases "q = ?p")
        case True
        then have "st = STATE_PROGRAM" using k(2) by simp
        then have "lk_state (record_at (files w) ?p) = STATE_PROGRAM" using wrote(3) assms(5) by blast
        with True show ?thesis by (simp add: programming_def)
      qed (use k(2) in \<open>simp add: programming_other\<close>)
      with inv k(1) show "\<exists>j. device E d j q \<and> lock_holder E (files w) = Some j"
        by (auto simp: lock_inv_def)
    qed
  next
    case (release st s)
    have "programming (files w) ?p" using release(2) by (simp add: programming_def)
    then have uniq: "q = ?p" if "device E d k q" "programming (files w) q" for k q
      using lock_inv_unique [OF inv that p(1)] by blast
    show ?thesis
      unfolding release(1)
    proof (rule none_inv)
      fix k q assume k: "device E d k q"
      have "\<not> programming ((files w)(?p \<mapsto> lock_text (e_uid E) st s)) q"
        using uniq [OF k] release(3) by (cases "q = ?p") (auto simp: programming_other)
      then show "\<not> programming ((files w)(?p \<mapsto> lock_text (e_uid E) st s, PROG_LOCK_FILE E := None)) q"
        using programming_other [OF other [OF k]] by simp
    qed
  qed
qed

text \<open>Granting the programming state to the device the lock names.\<close>

lemma program_keeps_inv:
  assumes "loaded E d i w" "sane E d" "\<not> opt_force w" "only E d i (cfg_res_file w) (files w)"
  shows "lock_inv E d (files (snd (change_current_reservation E STATE_PROGRAM None w)))"
proof -
  let ?p = "cfg_res_file w"
  have p: "device E d i ?p" "?p \<noteq> PROG_LOCK_FILE E" "e_busy E ?p \<le> 20" "e_flush E ?p = None"
    using assms(1,2) loaded_device unfolding sane_def by blast+
  have other: "q \<noteq> PROG_LOCK_FILE E" if "device E d j q" for j q
    using that assms(2) by (auto simp: sane_def)
  have only: "lock_holder E (files w) = Some i" "\<And>j q. device E d j q \<Longrightarrow> programming (files w) q \<Longrightarrow> q = ?p"
    using assms(4) by (auto simp: only_def)
  from p(3) assms(3) p(4) show ?thesis
  proof (cases rule: change_files [where req = STATE_PROGRAM and sg = None])
    case same
    then show ?thesis using only_inv [OF assms(4) p(1)] by simp
  next
    case touch
    have "only E d i ?p (touched (files w) ?p)"
      using assms(4) p(2) by (simp add: only_def lock_holder_touched)
    then show ?thesis unfolding touch using only_inv p(1) by blast
  next
    case denied
    show ?thesis
      unfolding denied(1)
    proof (rule none_inv)
      fix k q assume k: "device E d k q"
      have "\<not> programming (files w) q"
      proof
        assume run: "programming (files w) q"
        from only(2) [OF k this] have "q = ?p" .
        with run denied(2) show False by (simp add: programming_def)
      qed
      then show "\<not> programming ((touched (files w) ?p)(PROG_LOCK_FILE E := None)) q"
        using programming_other [OF other [OF k]] by simp
    qed
  next
    case (wrote st s)
    have "only E d i ?p ((files w)(?p \<mapsto> lock_text (e_uid E) st s))"
      unfolding only_def lock_holder_other [OF p(2)]
    proof (intro conjI allI impI)
      fix j q assume q: "device E d j q" "programming ((files w)(?p \<mapsto> lock_text (e_uid E) st s)) q"
      show "q = ?p"
      proof (rule ccontr)
        assume "q \<noteq> ?p"
        with q(2) have "programming (files w) q" by (simp only: programming_other not_False_eq_True)
        with only(2) [OF q(1)] \<open>q \<noteq> ?p\<close> show False by blast
      qed
    qed (rule only(1))
    then show ?thesis unfolding wrote(1) using only_inv p(1) by blast
  next
    case (release st s)
    show ?thesis
      unfolding release(1)
    proof (rule none_inv)
      fix k q assume k: "device E d k q"
      have "\<not> programming ((files w)(?p \<mapsto> lock_text (e_uid E) st s)) q"
      proof (cases "q = ?p")
        case False
        then have "\<not> programming (files w) q" using only(2) [OF k] by blast
        then show ?thesis by (simp only: programming_other [OF False] not_False_eq_True)
      qed (use release(3) in simp)
      then show "\<not> programming ((files w)(?p \<mapsto> lock_text (e_uid E) st s, PROG_LOCK_FILE E := None)) q"
        using programming_other [OF other [OF k]] by simp
    qed
  qed
qed

lemma to_u32_small: "0 \<le> i \<Longrightarrow> i < 2 ^ 31 \<Longrightarrow> sint (to_u32 i) = i"
proof -
  assume i: "0 \<le> i" "i < 2 ^ 31"
  then have "to_u32 i = word_of_int i" by (simp add: to_u32_def)
  then show ?thesis using i by (simp add: sint_sbintrunc' signed_take_bit_int_eq_self)
qed

lemma lock_holder_written:
  assumes "0 \<le> i" "i < 2 ^ 31"
  shows "lock_holder E (fs(PROG_LOCK_FILE E \<mapsto> show_int i @ [NL])) = Some i"
proof -
  have "scan_int ([] @ show_int i @ [NL]) = Some (i, [NL])"
    by (rule scan_show_int) (simp_all add: isdigit_def NL_def)
  then show ?thesis using to_u32_small [OF assms] by (simp add: lock_holder_def)
qed

lemma lock_names_me_holder: "lock_names_me E w \<longleftrightarrow> lock_holder E (files w) = Some (cfg_id w)"
  by (auto simp: lock_names_me_def lock_holder_def split: option.splits)

lemma acquire_only:
  assumes "loaded E d i w" "sane E d" "\<not> opt_force w" "lock_inv E d (files w)"
  shows "case acquire_prog_lock E [] True w of
      (Inl e, w') \<Rightarrow> lock_inv E d (files w')
    | (Inr _, w') \<Rightarrow> same_dev w w' \<and> only E d i (cfg_res_file w) (files w')"
proof -
  let ?p = "cfg_res_file w"
  have i: "0 \<le> i" "i < 2 ^ 31" "cfg_id w = i" using assms(1,2) by (auto simp: loaded_def sane_def)
  have dev: "device E d i ?p" using assms(1) by (rule loaded_device)
  have other: "q \<noteq> PROG_LOCK_FILE E" if "device E d j q" for j q
    using that assms(2) by (auto simp: sane_def)
  have kept: "flushed E (PROG_LOCK_FILE E) x = x" for x using assms(2) by (simp add: flushed_def sane_def)
  consider (null) "files w (PROG_LOCK_FILE E) = None" "e_open_ok E (PROG_LOCK_FILE E)" "\<not> e_fdopen_ok E (PROG_LOCK_FILE E)"
    | (free) "files w (PROG_LOCK_FILE E) = None" "e_open_ok E (PROG_LOCK_FILE E)" "e_fdopen_ok E (PROG_LOCK_FILE E)"
    | (mine) "\<not> (files w (PROG_LOCK_FILE E) = None \<and> e_open_ok E (PROG_LOCK_FILE E))" "lock_names_me E w"
    | (wait) "\<not> (files w (PROG_LOCK_FILE E) = None \<and> e_open_ok E (PROG_LOCK_FILE E))" "\<not> lock_names_me E w"
    by argo
  then show ?thesis
  proof cases
    case null
    have "lock_holder E (files w) = None" using null by (simp add: lock_holder_def)
    then have "\<not> programming (files w) q" if "device E d j q" for j q
      using assms(4) that unfolding lock_inv_def by fastforce
    then have "lock_inv E d ((files w)(PROG_LOCK_FILE E \<mapsto> []))"
      using programming_other [OF other] by (intro none_inv) blast
    with null show ?thesis by (simp add: acquire_prog_lock.simps)
  next
    case free
    let ?fs = "(files w)(PROG_LOCK_FILE E \<mapsto> show_int i @ [NL])"
    have "lock_holder E (files w) = None" using free by (simp add: lock_holder_def)
    then have none: "\<not> programming (files w) q" if "device E d j q" for j q
      using assms(4) that unfolding lock_inv_def by fastforce
    have "only E d i ?p ?fs"
      unfolding only_def
    proof (intro conjI allI impI)
      fix j q assume q: "device E d j q" "programming ?fs q"
      then have "programming (files w) q" using programming_other [OF other [OF q(1)]] by simp
      with none [OF q(1)] show "q = ?p" by blast
    qed (rule lock_holder_written [OF i(1,2)])
    then show ?thesis using free i(3) by (simp add: acquire_prog_lock.simps kept)
  next
    case mine
    then have holder: "lock_holder E (files w) = Some i" by (simp add: lock_names_me_holder i(3))
    have "only E d i ?p (files w)"
      unfolding only_def
    proof (intro conjI allI impI)
      fix j q assume q: "device E d j q" "programming (files w) q"
      then obtain k where "device E d k q" "lock_holder E (files w) = Some k"
        using assms(4) by (auto simp: lock_inv_def)
      then have "device E d i q" using holder by simp
      then show "q = ?p" using dev device_unique by blast
    qed (rule holder)
    then show ?thesis using mine by (subst acquire_prog_lock.simps) (simp only: if_False if_True, simp)
  next
    case wait
    then show ?thesis using assms(3,4) by (subst acquire_prog_lock.simps) (auto simp: Let_def)
  qed
qed

interpretation lock: ctrl_invariant E d "[]"
  "\<lambda>w. sane E d \<longrightarrow> \<not> opt_force w \<and> lock_inv E d (files w)" "\<lambda>n. n \<noteq> N_force" for E d
proof
  show "sane E d \<longrightarrow> \<not> opt_force w' \<and> lock_inv E d (files w')"
    if "files w' = files w" "opt_force w' = opt_force w"
      "sane E d \<longrightarrow> \<not> opt_force w \<and> lock_inv E d (files w)" for w w'
    using that by simp
  show "sane E d \<longrightarrow> \<not> opt_force (set_flag n w) \<and> lock_inv E d (files (set_flag n w))"
    if "n \<noteq> N_force" "sane E d \<longrightarrow> \<not> opt_force w \<and> lock_inv E d (files w)" for n w
    using that by (cases n) (auto simp: set_flag_def)
next
  fix i w req and sg :: "string option"
  assume l: "loaded E d i w" and J: "sane E d \<longrightarrow> \<not> opt_force w \<and> lock_inv E d (files w)"
    and req: "req \<noteq> STATE_PROGRAM \<or> sg \<noteq> None"
  show "sane E d \<longrightarrow> \<not> opt_force (snd (change_current_reservation E req sg w)) \<and>
      lock_inv E d (files (snd (change_current_reservation E req sg w)))"
    using change_keeps_inv [OF l _ _ _ req] J change_same_dev [of w E req sg] by (auto simp: same_dev_def)
next
  fix i w
  assume l: "loaded E d i w" and J: "sane E d \<longrightarrow> \<not> opt_force w \<and> lock_inv E d (files w)"
  let ?c = "change_current_reservation E STATE_PROGRAM None"
  obtain r w1 where a: "acquire_prog_lock E [] True w = (r, w1)" by fastforce
  have same: "same_dev w w1" using acquire_same [where E = E and ts = "[]" and b = True and w = w] a by simp
  have "\<not> opt_force w1 \<and> lock_inv E d (files w1)" if "r = Inl e" "sane E d" for e
    using acquire_only [OF l that(2)] J a that same by (simp add: same_dev_def)
  moreover have "\<not> opt_force (snd (?c w1)) \<and> lock_inv E d (files (snd (?c w1)))"
    if "r = Inr x" "sane E d" for x
  proof -
    have f: "\<not> opt_force w1" "cfg_res_file w1 = cfg_res_file w" using J that(2) same by (auto simp: same_dev_def)
    have "only E d i (cfg_res_file w1) (files w1)"
      using acquire_only [OF l that(2)] J a that f(2) by simp
    from program_keeps_inv [OF loaded_same [OF same l] that(2) f(1) this] f(1) show ?thesis
      using change_same_dev [of w1 E STATE_PROGRAM None] by (simp add: same_dev_def)
  qed
  ultimately show "sane E d \<longrightarrow> \<not> opt_force (snd (andThen (acquire_prog_lock E [] True) ?c w)) \<and>
      lock_inv E d (files (snd (andThen (acquire_prog_lock E [] True) ?c w)))"
    using a by (cases r) (auto simp: andThen_def bind_def)
qed

text \<open>
  The system: a sequence of runs of the program without \<^verbatim>\<open>--force\<close>, each by any
  user and with any command line, over the same lock directory and configuration.
\<close>

definition run_of :: "string \<Rightarrow> dictionary \<Rightarrow> env \<Rightarrow> string list \<Rightarrow> ctrl \<Rightarrow> bool" where
  "run_of L d E args w \<longleftrightarrow> e_lockdir E = L \<and> sane E d \<and>
     fst (iniparser_load (e_alloc E) (CFG_FILE E) (e_config E)) = Loaded d \<and>
     (\<forall>arg. Opt N_force arg \<notin> set (getopt_long args)) \<and> \<not> opt_force w"

inductive reachable :: "string \<Rightarrow> dictionary \<Rightarrow> file_map \<Rightarrow> bool" for L d where
  start: "(\<And>p. \<not> programming fs p) \<Longrightarrow> reachable L d fs"
| run: "reachable L d (files w) \<Longrightarrow> run_of L d E args w \<Longrightarrow>
          reachable L d (files (snd (fpga_ctrl_main E [] args w)))"

lemma lock_inv_lockdir: "e_lockdir E = e_lockdir E' \<Longrightarrow> lock_inv E d fs = lock_inv E' d fs"
  by (simp add: lock_inv_def device_def device_file_def lock_holder_def PROG_LOCK_FILE_def RES_DIR_def)

lemma reachable_inv:
  assumes "reachable L d fs" "e_lockdir E = L"
  shows "lock_inv E d fs"
  using assms
proof (induction arbitrary: E rule: reachable.induct)
  case (start fs)
  then show ?case by (auto intro: none_inv)
next
  case (run w F args)
  have F: "e_lockdir F = L" "sane F d" "\<not> opt_force w" and
    opts: "\<And>arg. Opt N_force arg \<notin> set (getopt_long args)"
    using run.hyps(2) by (auto simp: run_of_def)
  obtain msgs where load: "iniparser_load (e_alloc F) (CFG_FILE F) (e_config F) = (Loaded d, msgs)"
    using run.hyps(2) by (auto simp: run_of_def prod_eq_iff)
  have "lock.good_options (getopt_long args)"
    using opts getopt_setsignature by (auto simp: lock.good_options_def)
  from lock.main_keeps [OF load this] F run.IH [OF F(1)]
  have "lock_inv F d (files (snd (fpga_ctrl_main F [] args w)))" by blast
  with lock_inv_lockdir [of F E d] F(1) run.prems show ?case by simp
qed

text \<open>
  C1. Only one device is programmed at a time: in every state that a sequence of runs
  without \<^verbatim>\<open>--force\<close> can reach, at most one device's lock file says
  \<^verbatim>\<open>Programming\<close>, as the comment in \<^verbatim>\<open>program_dev\<close> asks.
\<close>

theorem at_most_one_programming:
  assumes "reachable L d fs" "e_lockdir E = L"
    and "device E d i p" "programming fs p" "device E d j q" "programming fs q"
  shows "p = q"
  using lock_inv_unique [OF reachable_inv [OF assms(1,2)]] assms(3-6) by blast

definition ini1 :: string where "ini1 = ''[a]'' @ [NL] @ ''class=B'' @ [NL]"

definition env1 :: env where "env1 = env0\<lparr>e_config := Some ini1\<rparr>"

definition dict1 :: dictionary where
  "dict1 = (case fst (iniparser_load [] (CFG_FILE env1) (Some ini1)) of Loaded d \<Rightarrow> d | _ \<Rightarrow> dict0)"

definition ctrl1 :: ctrl where "ctrl1 = held ''L/a'' 1000 STATE_RESERVED ctrl0"

definition args1 :: "string list" where "args1 = [''--program'', ''--device-id=0'']"

lemma load1: "fst (iniparser_load [] (CFG_FILE env1) (Some ini1)) = Loaded dict1"
proof -
  have "case fst (iniparser_load [] (CFG_FILE env1) (Some ini1)) of Loaded _ \<Rightarrow> True | _ \<Rightarrow> False"
    by code_simp
  then show ?thesis by (simp add: dict1_def split: load_result.splits)
qed

lemma device1: "iniparser_getnsec (Some dict1) = 1"
  "iniparser_getsecname (Some dict1) 0 = Some ''a''" "device_file env1 dict1 ''a'' = ''L/a''"
  by code_simp+

lemma programmed1: "programming (files (snd (fpga_ctrl_main env1 [] args1 ctrl1))) ''L/a''"
  by code_simp

lemma device1_only: "device env1 dict1 i p \<longleftrightarrow> i = 0 \<and> p = ''L/a''"
proof
  assume "device env1 dict1 i p"
  then obtain sec where i: "0 \<le> i" "iniparser_getsecname (Some dict1) i = Some sec"
      "p = device_file env1 dict1 sec"
    by (auto simp: device_def)
  then have "i < 1" using device1(1) by (auto simp: getsecname_sections getnsec_sections split: if_splits)
  with i have "i = 0" by simp
  with i device1 show "i = 0 \<and> p = ''L/a''" by simp
qed (use device1 in \<open>simp add: device_def\<close>)

lemma run1: "run_of ''L'' dict1 env1 args1 ctrl1"
proof -
  have env: "e_lockdir env1 = ''L''" "e_alloc env1 = []" "e_config env1 = Some ini1" "e_busy env1 p = 0" "e_flush env1 p = None" for p
    by (simp_all add: env1_def env0_def)
  have opts: "getopt_long args1 = [Opt N_program None, Opt N_device_id (Some ''0'')]" by code_simp
  have "sane env1 dict1"
    by (simp add: sane_def device1 device1_only env PROG_LOCK_FILE_def RES_DIR_def)
  then show ?thesis
    using load1 opts by (simp add: run_of_def env ctrl1_def held_def ctrl0_def)
qed

theorem at_most_one_programming_witness:
  "{q. device env1 dict1 0 q \<and> programming (files (snd (fpga_ctrl_main env1 [] args1 ctrl1))) q} = {''L/a''}"
proof -
  have "\<not> programming (files ctrl1) p" for p
    by (cases "p = ''L/a''")
      (simp_all add: ctrl1_def held_def ctrl0_def programming_def record_at_def read_lock_text_state
        read_lock_Nil)
  then have r: "reachable ''L'' dict1 (files (snd (fpga_ctrl_main env1 [] args1 ctrl1)))"
    using reachable.run [OF reachable.start run1] by blast
  have dev: "device env1 dict1 0 ''L/a''" by (simp add: device1_only)
  have "e_lockdir env1 = ''L''" by (simp add: env1_def env0_def)
  from at_most_one_programming [OF r this dev programmed1] dev programmed1 show ?thesis by blast
qed


section \<open>Waiting for the lock, and where it fails\<close>

text \<open>
  The wait for the programming lock ends: in the first try after another program
  removed the lock (and can create files), \<^verbatim>\<open>program_dev\<close> gets it, however many tries failed.
\<close>

theorem acquire_after_release:
  assumes "e_open_ok E (PROG_LOCK_FILE E)" "e_fdopen_ok E (PROG_LOCK_FILE E)" "\<And>fs. t fs (PROG_LOCK_FILE E) = None"
  shows "fst (acquire_prog_lock E (ts @ t # rest) b w) = Inr ()"
proof (induction ts arbitrary: b w)
  case Nil
  have "fst (acquire_prog_lock E rest False (w1\<lparr>files := t fs\<rparr>)) = Inr ()" for w1 fs
    using assms by (subst acquire_prog_lock.simps) simp
  then show ?case using assms(2) by (subst acquire_prog_lock.simps) (simp add: Let_def)
next
  case (Cons u ts)
  show ?case
    using Cons.IH [of False] assms(2) by (subst append_Cons, subst acquire_prog_lock.simps) (simp add: Let_def)
qed

theorem acquire_after_release_witness:
  "fst (acquire_prog_lock env0 [id, (\<lambda>fs. fs(PROG_LOCK_FILE env0 := None))] True
     (ctrl0\<lparr>files := [PROG_LOCK_FILE env0 \<mapsto> ''9'']\<rparr>)) = Inr ()"
  using acquire_after_release [of env0 "\<lambda>fs. fs(PROG_LOCK_FILE env0 := None)" "[id]" "[]"]
  by (simp add: env0_def)

text \<open>A lock that names another device and that nobody removes is waited for forever.\<close>

lemma acquire_waits:
  assumes "lock_holder E (files w) = Some j" "j \<noteq> cfg_id w" "\<not> opt_force w"
    and "\<And>t fs. t \<in> set ts \<Longrightarrow> t fs (PROG_LOCK_FILE E) = fs (PROG_LOCK_FILE E)"
  shows "fst (acquire_prog_lock E ts b w) = Inl Waiting"
  using assms
proof (induction ts arbitrary: b w)
  case Nil
  have "files w (PROG_LOCK_FILE E) \<noteq> None"
    using Nil(1) by (cases "files w (PROG_LOCK_FILE E)") (simp_all add: lock_holder_def)
  with Nil show ?case by (subst acquire_prog_lock.simps) (simp add: lock_names_me_holder Let_def)
next
  case (Cons t ts)
  have some: "files w (PROG_LOCK_FILE E) \<noteq> None"
    using Cons.prems(1) by (cases "files w (PROG_LOCK_FILE E)") (simp_all add: lock_holder_def)
  let ?w1 = "say_waiting b w\<lparr>files := t (files w)\<rparr>"
  have "same_dev w (say_waiting b w)" by simp
  moreover have "t (files w) (PROG_LOCK_FILE E) = files w (PROG_LOCK_FILE E)"
    by (rule Cons.prems(4)) simp
  ultimately have "fst (acquire_prog_lock E ts False ?w1) = Inl Waiting"
    using Cons.prems(1-3) by (intro Cons.IH Cons.prems(4)) (simp_all add: lock_holder_def same_dev_def)
  with some Cons.prems show ?case
    by (subst acquire_prog_lock.simps) (simp add: lock_names_me_holder Let_def)
qed

text \<open>
  Programming a device nobody reserved fails, but leaves the programming lock behind;
  from then on a run for any other device waits for it without end, unless somebody removes it.
\<close>

theorem free_program_blocks:
  assumes "files w (PROG_LOCK_FILE E) = None" "e_open_ok E (PROG_LOCK_FILE E)"
    and "e_open_ok E (cfg_res_file w)" "e_busy E (cfg_res_file w) \<le> 20"
    and "e_fdopen_ok E (cfg_res_file w)" "e_fdopen_ok E (PROG_LOCK_FILE E)" "e_flush E (PROG_LOCK_FILE E) = None"
    and "cfg_res_file w \<noteq> PROG_LOCK_FILE E" "lk_state (current_record w) = STATE_FREE"
    and "0 \<le> cfg_id w" "cfg_id w < 2 ^ 31"
    and "w' = snd (program_dev E ts w)" "files v = files w'" "cfg_id v \<noteq> cfg_id w" "\<not> opt_force v"
    and "\<And>t fs. t \<in> set us \<Longrightarrow> t fs (PROG_LOCK_FILE E) = fs (PROG_LOCK_FILE E)"
  shows "fst (program_dev E ts w) = Inl (Failed ''Error - Reservation required'') \<and>
    lock_holder E (files w') = Some (cfg_id w) \<and> fst (program_dev E us v) = Inl Waiting"
proof -
  let ?w1 = "write_file (PROG_LOCK_FILE E) (show_int (cfg_id w) @ [NL]) w"
  let ?p = "cfg_res_file w"
  have acq: "acquire_prog_lock E ts True w = (Inr (), ?w1)"
    using assms(1,2,6,7) by (subst acquire_prog_lock.simps) (simp add: flushed_def)
  have free: "lk_state (current_record ?w1) = STATE_FREE"
    using assms(8,9) by (simp add: current_record_def)
  have ch: "change_current_reservation E STATE_PROGRAM None ?w1 =
      (Inl (Failed ''Error - Reservation required''), opened ?w1)"
    using change_run [of E ?w1 STATE_PROGRAM None] assms(3,4,5) free
    by (simp add: Let_def owner_check_def write_reservation_def state_order)
  have run: "program_dev E ts w = (Inl (Failed ''Error - Reservation required''), opened ?w1)"
    by (simp add: program_dev_def andThen_def bind_def acq ch)
  have holder: "lock_holder E (files w') = Some (cfg_id w)"
    using lock_holder_written [OF assms(10,11), of E "files w"] assms(8,12) run
    by (simp add: opened_def lock_holder_def)
  have "fst (acquire_prog_lock E us True v) = Inl Waiting"
    by (rule acquire_waits [where j = "cfg_id w"]) (use holder assms(13-16) in auto)
  then have "fst (program_dev E us v) = Inl Waiting"
    by (cases "acquire_prog_lock E us True v") (simp add: program_dev_def andThen_def bind_def)
  with run holder show ?thesis by simp
qed

theorem free_program_blocks_witness:
  "fst (program_dev env0 [] ctrl0) = Inl (Failed ''Error - Reservation required'') \<and>
   fst (program_dev env0 [id, id] (ctrl0\<lparr>cfg_id := 1, files := files (snd (program_dev env0 [] ctrl0))\<rparr>))
     = Inl Waiting"
proof -
  have "lk_state (current_record ctrl0) = STATE_FREE" "files ctrl0 = (\<lambda>_. None)" "cfg_id ctrl0 = 0"
    "cfg_res_file ctrl0 = ''L/a''" "\<not> opt_force ctrl0"
    by (simp_all add: current_record_def ctrl0_def)
  moreover have "e_open_ok env0 p" "e_busy env0 p = 0" "e_fdopen_ok env0 p" "e_flush env0 p = None" "PROG_LOCK_FILE env0 = ''L/leap-proglock''" for p
    by (simp_all add: env0_def PROG_LOCK_FILE_def RES_DIR_def)
  ultimately show ?thesis
    using free_program_blocks [of ctrl0 env0 "snd (program_dev env0 [] ctrl0)" "[]"
        "ctrl0\<lparr>cfg_id := 1, files := files (snd (program_dev env0 [] ctrl0))\<rparr>" "[id, id]"]
    by simp
qed

definition at_device :: "file_map \<Rightarrow> int \<Rightarrow> string \<Rightarrow> ctrl" where
  "at_device fs i p = ctrl0\<lparr>files := fs, cfg_id := i, cfg_res_file := p\<rparr>"

definition race_start :: file_map where
  "race_start = [''L/a'' \<mapsto> lock_text 1000 STATE_RESERVED [], ''L/b'' \<mapsto> lock_text 8 STATE_RESERVED []]"

text \<open>
  The exclusion is lost when runs overlap: while the owner of device \<^verbatim>\<open>a\<close> holds
  the programming lock and has not yet changed the reservation, another user's
  \<^verbatim>\<open>--program\<close> of the same device is refused and removes the lock on the way out; then
  a third user programs device \<^verbatim>\<open>b\<close> at the same time as \<^verbatim>\<open>a\<close>.
\<close>

theorem overlapping_runs_program_two:
  "let fs1 = files (snd (acquire_prog_lock env0 [] True (at_device race_start 0 ''L/a'')));
       fs2 = files (snd (program_dev (env0\<lparr>e_uid := 7\<rparr>) [] (at_device fs1 0 ''L/a'')));
       fs3 = files (snd (change_current_reservation env0 STATE_PROGRAM None (at_device fs2 0 ''L/a'')));
       fs4 = files (snd (program_dev (env0\<lparr>e_uid := 8\<rparr>) [] (at_device fs3 1 ''L/b'')))
   in programming fs4 ''L/a'' \<and> programming fs4 ''L/b''"
  by code_simp

end
