(* ===== verification/Fpga_Requests.thy ===== *)
theory Fpga_Requests
  imports Leap_Prelude Dictionary Iniparser Reservation Fpga_Ctrl Prog_Lock
begin

text \<open>
  What the single requests of \<^verbatim>\<open>leap-fpga-ctrl\<close> achieve: the choice that
  \<^verbatim>\<open>--reserve\<close> makes, and who gets access to a device file.
\<close>

section \<open>Reserving\<close>

lemma change_reserve:
  assumes "change_current_reservation E STATE_RESERVED None w = (Inr v, w')"
    and "\<not> opt_force w"
  shows "(v = 0 \<and> lk_state (current_record w) \<noteq> STATE_FREE \<and> files w' = touched (files w) (cfg_res_file w)) \<or>
     (v = 1 \<and> lk_state (current_record w) = STATE_FREE \<and>
      files w' = (files w)(cfg_res_file w \<mapsto> flushed E (cfg_res_file w) (lock_text (e_uid E) STATE_RESERVED
         (kept_signature (current_record w) STATE_RESERVED None))))"
proof -
  have ok: "e_open_ok E (cfg_res_file w)" "e_busy E (cfg_res_file w) \<le> 20" "e_fdopen_ok E (cfg_res_file w)"
    using assms(1) by (auto simp: change_current_reservation_def Let_def lock_attempts_iff split: if_splits)
  have op: "files (opened w) = touched (files w) (cfg_res_file w)"
    "(touched (files w) p)(p \<mapsto> x) = (files w)(p \<mapsto> x)" for p x
    by (simp_all add: opened_def touched_def)
  have run: "change_current_reservation E STATE_RESERVED None w =
    (case owner_check (e_uid E) False (current_record w) STATE_RESERVED of
       TryOther \<Rightarrow> (Inr 0, opened w)
     | Allowed \<Rightarrow> write_reservation E (current_record w) STATE_RESERVED
         (kept_signature (current_record w) STATE_RESERVED None) (opened w)
     | _ \<Rightarrow> undefined)"
    using change_run [OF ok, of STATE_RESERVED None] assms(2)
    by (simp add: Let_def owner_check_def state_order)
  show ?thesis
    using assms(1) unfolding run
    by (cases "lk_state (current_record w) = STATE_FREE")
      (auto simp: owner_check_def write_reservation_def state_order Let_def op split: if_splits)
qed

text \<open>The section number \<^term>\<open>j\<close> is a device of class \<^term>\<open>c\<close> with lock file \<^term>\<open>p\<close>.\<close>

definition of_class :: "env \<Rightarrow> dictionary \<Rightarrow> string \<Rightarrow> nat \<Rightarrow> string \<Rightarrow> bool" where
  "of_class E d c j p \<longleftrightarrow> (\<exists>sec. iniparser_getsecname (Some d) (int j) = Some sec \<and>
     dev_string d sec ''class'' = Some c \<and> p = device_file E d sec)"

definition busy_device :: "env \<Rightarrow> dictionary \<Rightarrow> string \<Rightarrow> file_map \<Rightarrow> nat \<Rightarrow> bool" where
  "busy_device E d c fs j \<longleftrightarrow> (\<forall>p. of_class E d c j p \<longrightarrow> lk_state (record_at fs p) \<noteq> STATE_FREE)"

lemma record_touched [simp]: "record_at (touched fs p) q = record_at fs q"
  by (simp add: record_at_def touched_def)

lemma busy_device_touched [simp]: "busy_device E d c (touched fs p) j = busy_device E d c fs j"
  by (simp add: busy_device_def)

lemma current_record_at: "current_record w = record_at (files w) (cfg_res_file w)"
  by (simp add: current_record_read record_at_def)

text \<open>One round of the search, for a device of the class.\<close>

definition reserve_round :: "env \<Rightarrow> string \<Rightarrow> string \<Rightarrow> nat \<Rightarrow> (ctrl, stop, int) prog" where
  "reserve_round E cls sec i =
     andThen (modify (debug_err (''Device '' @ sec @ '' matches class '' @ cls)))
       (andThen (cfg_load_dev E (int i)) (change_current_reservation E STATE_RESERVED None))"

lemma reserve_round_result:
  assumes "reserve_round E cls sec i w = (Inr v, w')" "\<not> opt_force w"
    and "iniparser_getsecname (Some (cfg w)) (int i) = Some sec"
  defines "p \<equiv> device_file E (cfg w) sec"
  shows "cfg w' = cfg w \<and> opt_force w' = opt_force w \<and> stdout w' = stdout w \<and> loaded E (cfg w) (int i) w' \<and>
    ((v = 0 \<and> lk_state (record_at (files w) p) \<noteq> STATE_FREE \<and> files w' = touched (files w) p) \<or>
     (v = 1 \<and> lk_state (record_at (files w) p) = STATE_FREE \<and>
      files w' = (files w)(p \<mapsto> flushed E p (lock_text (e_uid E) STATE_RESERVED
         (kept_signature (record_at (files w) p) STATE_RESERVED None)))))"
proof -
  let ?w0 = "debug_err (''Device '' @ sec @ '' matches class '' @ cls) w"
  obtain u w1 where load: "cfg_load_dev E (int i) ?w0 = (Inr u, w1)"
      and ch: "change_current_reservation E STATE_RESERVED None w1 = (Inr v, w')"
    using assms(1) unfolding reserve_round_def andThen_def bind_def
    by (auto split: prod.splits sum.splits)
  have w0: "cfg ?w0 = cfg w" "files ?w0 = files w" "opt_force ?w0 = opt_force w" "stdout ?w0 = stdout w"
    by (simp_all add: debug_err_def print_err_def)
  have w1: "loaded E (cfg w) (int i) w1" "files w1 = files w" "opt_force w1 = opt_force w" "stdout w1 = stdout w"
    using cfg_load_dev_run [where E = E and i = "int i" and w = ?w0] load w0 by (simp_all add: outside_def)
  have p: "cfg_res_file w1 = p" using w1(1) assms(3) by (auto simp: loaded_def p_def)
  have same: "same_dev w1 w'" using change_same_dev [of w1 E STATE_RESERVED None] ch by simp
  have "stdout (snd (change_current_reservation E STATE_RESERVED None w1)) = stdout w1"
    by (simp add: change_current_reservation_def update_signature_result Let_def write_reservation_def
        unlink_def write_file_def print_err_def split: verdict.split)
  then have out: "stdout w' = stdout w" using ch w1(4) by simp
  show ?thesis
    using change_reserve [OF ch] assms(2) w1 p same out loaded_same [OF same w1(1)]
    by (simp add: current_record_at same_dev_def loaded_def)
qed

lemma reserve_loop_Cons:
  assumes "reserve_loop E cls (i # rest) w = (Inr r, w')"
  obtains sec c where "iniparser_getsecname (Some (cfg w)) (int i) = Some sec"
    "dev_string (cfg w) sec ''class'' = Some c"
    "(if cls = c then
        bind (reserve_round E cls sec i) (\<lambda>got.
          if got \<noteq> 0 then andThen (modify (debug_err ''Reservation successful'')) (ret (Some i))
          else reserve_loop E cls rest) w
      else reserve_loop E cls rest w) = (Inr r, w')"
proof -
  obtain sec where sec: "iniparser_getsecname (Some (cfg w)) (int i) = Some sec"
    using assms by (auto split: option.splits)
  obtain c where c: "dev_string (cfg w) sec ''class'' = Some c" "str_fits (cfg w) sec ''class''"
    using assms sec by (auto simp: bind_def cfg_get_str_run split: if_splits option.splits)
  have assoc: "andThen p (andThen q (bind r f)) = bind (andThen p (andThen q r)) f"
    for p :: "(ctrl, stop, unit) prog" and q :: "(ctrl, stop, unit) prog"
      and r :: "(ctrl, stop, int) prog" and f :: "int \<Rightarrow> (ctrl, stop, nat option) prog"
    by (auto simp: andThen_def bind_def fun_eq_iff split: prod.splits sum.splits)
  show thesis
  proof (rule that [OF sec c(1)])
    have get: "cfg_get_str sec ''class'' w = (Inr (Some c), w)" using c by (simp add: cfg_get_str_run)
    show "(if cls = c then
        bind (reserve_round E cls sec i) (\<lambda>got.
          if got \<noteq> 0 then andThen (modify (debug_err ''Reservation successful'')) (ret (Some i))
          else reserve_loop E cls rest) w
      else reserve_loop E cls rest w) = (Inr r, w')"
      using assms
      unfolding reserve_loop.simps sec option.case bind_Inr [where p = "cfg_get_str sec ''class''" and w = w, OF get] reserve_round_def
        assoc [symmetric]
      by (cases "cls = c") (simp_all only: simp_thms if_True if_False)
  qed
qed

text \<open>The outcome of the search: device \<^term>\<open>i\<close> was free, is loaded, and is now reserved.\<close>

definition won :: "env \<Rightarrow> dictionary \<Rightarrow> string \<Rightarrow> file_map \<Rightarrow> nat \<Rightarrow> ctrl \<Rightarrow> bool" where
  "won E d cls fs i w' \<longleftrightarrow> of_class E d cls i (cfg_res_file w') \<and> loaded E d (int i) w' \<and>
     lk_state (record_at fs (cfg_res_file w')) = STATE_FREE \<and>
     (\<exists>s. files w' (cfg_res_file w') = Some (flushed E (cfg_res_file w') (lock_text (e_uid E) STATE_RESERVED s)))"

lemma won_touched [simp]: "won E d cls (touched fs p) i w' = won E d cls fs i w'"
  by (simp add: won_def)

lemma first_extend:
  assumes "\<exists>pre post. js = pre @ i # post \<and> (\<forall>x \<in> set pre. B x)" "B j"
  shows "\<exists>pre post. j # js = pre @ i # post \<and> (\<forall>x \<in> set pre. B x)"
proof -
  obtain pre post where "js = pre @ i # post" "\<forall>x \<in> set pre. B x" using assms(1) by blast
  then show ?thesis using assms(2) by (intro exI [of _ "j # pre"] exI [of _ post]) simp
qed

lemma reserve_loop_first:
  assumes "reserve_loop E cls js w = (Inr (Some i), w')" "\<not> opt_force w"
  shows "stdout w' = stdout w \<and> won E (cfg w) cls (files w) i w' \<and>
    (\<exists>pre post. js = pre @ i # post \<and> (\<forall>j \<in> set pre. busy_device E (cfg w) cls (files w) j))"
  using assms
proof (induction js arbitrary: w)
  case (Cons j js)
  from Cons.prems(1) obtain sec c where sec: "iniparser_getsecname (Some (cfg w)) (int j) = Some sec"
      "dev_string (cfg w) sec ''class'' = Some c"
    and step: "(if cls = c then
        bind (reserve_round E cls sec j) (\<lambda>got.
          if got \<noteq> 0 then andThen (modify (debug_err ''Reservation successful'')) (ret (Some j))
          else reserve_loop E cls js) w
      else reserve_loop E cls js w) = (Inr (Some i), w')"
    by (rule reserve_loop_Cons)
  let ?p = "device_file E (cfg w) sec"
  have this_dev: "of_class E (cfg w) cls j q \<longleftrightarrow> cls = c \<and> q = ?p" for q
    using sec by (auto simp: of_class_def)
  show ?case
  proof (cases "cls = c")
    case False
    then have loop: "reserve_loop E cls js w = (Inr (Some i), w')" using step by simp
    have "busy_device E (cfg w) cls (files w) j" using False by (simp add: busy_device_def this_dev)
    note busy = this and ih = Cons.IH [OF loop Cons.prems(2)]
    show ?thesis
      by (intro conjI conjunct1 [OF ih] conjunct1 [OF conjunct2 [OF ih]]
          first_extend [OF conjunct2 [OF conjunct2 [OF ih]] busy])
  next
    case True
    obtain got w1 where round: "reserve_round E cls sec j w = (Inr got, w1)"
      and go: "(if got \<noteq> 0 then andThen (modify (debug_err ''Reservation successful'')) (ret (Some j))
          else reserve_loop E cls js) w1 = (Inr (Some i), w')"
      using step unfolding if_P [OF True] by (rule bind_Inr_cases)
    note res = reserve_round_result [OF round Cons.prems(2) sec(1)]
    show ?thesis
    proof (cases "got = 0")
      case again: True
      then have loop: "reserve_loop E cls js w1 = (Inr (Some i), w')" using go by simp
      have f: "files w1 = touched (files w) ?p" "cfg w1 = cfg w" "opt_force w1 = opt_force w"
          "stdout w1 = stdout w" "lk_state (record_at (files w) ?p) \<noteq> STATE_FREE"
        using res again by simp_all
      have "busy_device E (cfg w) cls (files w) j" using f(5) by (simp add: busy_device_def this_dev)
      note busy = this and ih = Cons.IH [OF loop, unfolded f won_touched busy_device_touched, OF Cons.prems(2)]
      show ?thesis
        by (intro conjI conjunct1 [OF ih] conjunct1 [OF conjunct2 [OF ih]]
            first_extend [OF conjunct2 [OF conjunct2 [OF ih]] busy])
    next
      case False
      then have fin: "i = j" "w' = debug_err ''Reservation successful'' w1"
        using go by (simp_all add: andThen_def bind_def)
      have w': "files w' = files w1" "stdout w' = stdout w1" "same_dev w1 w'"
        unfolding fin by (simp_all add: debug_err_def print_err_def same_dev_def)
      have rec: "lk_state (record_at (files w) ?p) = STATE_FREE"
        "files w1 = (files w)(?p \<mapsto> flushed E ?p (lock_text (e_uid E) STATE_RESERVED
            (kept_signature (record_at (files w) ?p) STATE_RESERVED None)))"
        using res False by simp_all
      have ld: "loaded E (cfg w) (int i) w'" using res loaded_same [OF w'(3)] fin(1) by simp
      then have "cfg_res_file w' = ?p" using sec(1) fin(1) by (auto simp: loaded_def)
      then have "won E (cfg w) cls (files w) i w'"
        using rec ld w'(1) this_dev True fin(1) by (auto simp: won_def)
      moreover have "stdout w' = stdout w" using w'(2) res by simp
      moreover have "\<exists>pre post. j # js = pre @ i # post \<and>
          (\<forall>k \<in> set pre. busy_device E (cfg w) cls (files w) k)"
        by (rule exI [of _ "[]"], rule exI [of _ js]) (simp add: fin(1))
      ultimately show ?thesis by (intro conjI)
    qed
  qed
qed simp

lemma upt_split: "[0..<n] = pre @ i # post \<Longrightarrow> i < n \<and> set pre = {..<i}"
proof -
  assume l: "[0..<n] = pre @ i # post"
  have len: "length pre < n" using arg_cong [OF l, of length] by simp
  then have "i = length pre" using arg_cong [OF l, of "\<lambda>xs. xs ! length pre"] by simp
  moreover have "pre = [0..<length pre]"
    using arg_cong [OF l, of "take (length pre)"] len by (simp add: take_upt)
  ultimately show ?thesis using len by (metis atLeast0LessThan atLeast_upt)
qed

text \<open>
  \<^verbatim>\<open>--reserve\<close> without \<^verbatim>\<open>--force\<close>, when it succeeds, prints the number of
  the first device of the class that was free, and that device is now reserved for the
  caller: every device of the class with a smaller number was taken.
\<close>

theorem reserve_first_free:
  assumes "reserve E (Some c) w = (Inr (), w')" "\<not> opt_force w"
  shows "\<exists>i p s. stdout w' = stdout w @ show_nat i @ [NL] \<and> of_class E (cfg w) c i p \<and>
    lk_state (record_at (files w) p) = STATE_FREE \<and>
    files w' p = Some (flushed E p (lock_text (e_uid E) STATE_RESERVED s)) \<and>
    (\<forall>j < i. busy_device E (cfg w) c (files w) j)"
proof -
  let ?w0 = "debug_err (''Seeking FPGA of class '' @ c) w"
  let ?js = "[0..<nat (iniparser_getnsec (Some (cfg w)))]"
  have w0: "cfg ?w0 = cfg w" "files ?w0 = files w" "stdout ?w0 = stdout w" "\<not> opt_force ?w0"
    using assms(2) by (simp_all add: debug_err_def print_err_def)
  obtain r w1 where loop: "reserve_loop E c ?js ?w0 = (Inr r, w1)"
    and fin: "(case r of
        None \<Rightarrow> raise (Failed ''Error - Failed to find free device matching requested class'')
      | Some i \<Rightarrow> andThen (set_fpga_device_access E False False)
                    (modify (print_out (show_nat i @ [NL])))) w1 = (Inr (), w')"
  proof -
    have "bind (\<lambda>w. reserve_loop E c [0..<nat (iniparser_getnsec (Some (cfg w)))] w) (\<lambda>res.
        case res of
          None \<Rightarrow> raise (Failed ''Error - Failed to find free device matching requested class'')
        | Some i \<Rightarrow> andThen (set_fpga_device_access E False False)
                      (modify (print_out (show_nat i @ [NL])))) ?w0 = (Inr (), w')"
      using assms(1) by (simp add: reserve_def andThen_Inr)
    then show thesis by (rule bind_Inr_cases) (use that w0 in simp)
  qed
  obtain i where r: "r = Some i" using fin by (cases r) simp_all
  note first = reserve_loop_first [OF loop [unfolded r] w0(4), unfolded w0]
  have acc: "andThen (set_fpga_device_access E False False)
      (modify (print_out (show_nat i @ [NL]))) w1 = (Inr (), w')" using fin r by simp
  then obtain w2 where w2: "set_fpga_device_access E False False w1 = (Inr (), w2)"
      "w' = print_out (show_nat i @ [NL]) w2"
    by (rule andThen_Inr_cases) simp
  have "files w2 = files w1" using set_access_same [of w1 E False False] w2(1) by simp
  moreover have "stdout w2 = stdout w1"
    using w2(1) by (auto simp: set_fpga_device_access_def Let_def print_err_def
        split: option.splits if_splits)
  ultimately have out: "files w' = files w1" "stdout w' = stdout w @ show_nat i @ [NL]"
    using w2(2) first by (simp_all add: print_out_def)
  obtain pre post where "?js = pre @ i # post" "\<forall>j \<in> set pre. busy_device E (cfg w) c (files w) j"
    using first by blast
  then have "\<forall>j < i. busy_device E (cfg w) c (files w) j" using upt_split [of _ pre i post] by simp
  then show ?thesis using first out by (auto simp: won_def)
qed

theorem reserve_first_free_witness:
  "\<exists>i p s. stdout (snd (reserve env1 (Some ''B'') (ctrl0\<lparr>cfg := dict1\<rparr>))) = show_nat i @ [NL] \<and>
     of_class env1 dict1 ''B'' i p \<and>
     files (snd (reserve env1 (Some ''B'') (ctrl0\<lparr>cfg := dict1\<rparr>))) p = Some (lock_text 1000 STATE_RESERVED s)"
proof -
  let ?w = "ctrl0\<lparr>cfg := dict1\<rparr>"
  have "fst (reserve env1 (Some ''B'') ?w) = Inr ()" by code_simp
  then have "reserve env1 (Some ''B'') ?w = (Inr (), snd (reserve env1 (Some ''B'') ?w))"
    by (simp add: prod_eq_iff)
  from reserve_first_free [OF this] show ?thesis by (simp add: ctrl0_def env1_def env0_def flushed_def) blast
qed

section \<open>Access to the device\<close>

lemma set_access_granted:
  assumes "set_fpga_device_access E user quiet w = (Inr (), w')"
  shows "case cfg_fpga_dev w of None \<Rightarrow> devs w' = devs w
    | Some dev \<Rightarrow> (\<forall>d. d \<noteq> dev \<longrightarrow> devs w' d = devs w d) \<and>
        (case devs w dev of None \<Rightarrow> devs w' dev = None
         | Some _ \<Rightarrow> \<exists>n. devs w' dev = Some n \<and> n_mode n mod 512 = (if user then 384 else 256) \<and>
                     n_uid n = (if user then e_uid E else 0))"
proof (cases "cfg_fpga_dev w")
  case None
  then show ?thesis using assms by (simp add: set_fpga_device_access_def)
next
  case (Some dev)
  have stat: "\<not> e_stat_error E dev"
    using assms Some by (auto simp: set_fpga_device_access_def Let_def split: if_splits)
  show ?thesis
  proof (cases "devs w dev")
    case None
    then show ?thesis using assms Some stat by (simp add: set_fpga_device_access_def Let_def)
  next
    case nd: (Some nd)
    let ?prot = "if user then 384 else 256 :: nat"
    let ?uid = "if user then e_uid E else 0"
    show ?thesis
    proof (cases "n_mode nd mod 512 = ?prot \<and> n_uid nd = ?uid")
      case True
      then have "w' = w" using assms Some stat nd by (simp add: set_fpga_device_access_def Let_def)
      with True show ?thesis using Some nd by simp
    next
      case False
      define w1 where "w1 = (if quiet then w else print_err ('' '' @ (if user then ''Enabling'' else ''Disabling'')
          @ '' FPGA device '' @ (case cfg_name w of Some n \<Rightarrow> n | None \<Rightarrow> ''(null)'') @ '' access...'' @ [NL]) w)"
      have w1: "devs w1 = devs w" by (simp add: w1_def)
      have "devs w' = (devs w)(dev \<mapsto> \<lparr>n_mode = ?prot, n_uid = ?uid\<rparr>)"
        using assms Some stat nd False unfolding set_fpga_device_access_def Let_def w1_def [symmetric]
        by (simp only: option.case if_False if_True de_Morgan_conj) (auto simp: w1 split: if_split_asm)
      then show ?thesis using Some nd by simp
    qed
  qed
qed

lemma write_reservation_devs: "devs (snd (write_reservation E r new sg w)) = devs w"
  by (simp add: write_reservation_def Let_def)

lemma change_devs: "devs (snd (change_current_reservation E req sg w)) = devs w"
proof -
  have w: "devs (snd (write_reservation E r new s w1)) = devs w"
    "devs (snd (write_reservation E r new s (print_err m w1))) = devs w"
    if "devs w1 = devs w" for r new s m w1
    using that by (simp_all add: write_reservation_devs)
  show ?thesis
    unfolding change_current_reservation_def update_signature_result Let_def
    using w [OF write_file_simps(3)]
    by (simp split: verdict.split del: print_simps write_file_simps) (simp add: unlink_def write_file_def)
qed

lemma invoke_devs: "devs (snd (invoke_helper_script E st w)) = devs w"
  by (cases "script_command st"; cases "cfg_class w")
    (simp_all add: invoke_helper_script_def Let_def debug_err_def print_err_def)

lemma same_dev_record:
  "same_dev w w' \<Longrightarrow> files w' = files w \<Longrightarrow> current_record w' = current_record w"
  by (simp add: current_record_at same_dev_def)

lemma change_active:
  assumes "change_current_reservation E STATE_ACTIVE None w = (res, w')" "cfg_res_file w \<noteq> PROG_LOCK_FILE E"
    "e_flush E (cfg_res_file w) = None"
  shows "(\<exists>v. res = Inr v) \<and> lk_state (current_record w) \<noteq> STATE_FREE \<and>
      lk_owner (current_record w) = e_uid E \<and> lk_state (current_record w') = STATE_ACTIVE \<and>
      lk_owner (current_record w') = e_uid E
    \<or> (\<exists>e. res = Inl e) \<and> current_record w' = current_record w"
proof (cases "e_open_ok E (cfg_res_file w) \<and> e_busy E (cfg_res_file w) \<le> 20 \<and> e_fdopen_ok E (cfg_res_file w)")
  case False
  then show ?thesis
    using assms by (auto simp: change_current_reservation_def Let_def lock_attempts_iff
        current_record_read split: if_splits)
next
  case True
  let ?r = "current_record w"
  let ?s = "kept_signature ?r STATE_ACTIVE None"
  have run: "change_current_reservation E STATE_ACTIVE None w =
    (if lk_state ?r \<noteq> STATE_FREE \<and> lk_owner ?r \<noteq> e_uid E
     then (Inl (Failed (''Error - FPGA locked by '' @ user_name E (lk_owner ?r))), opened w)
     else write_reservation E ?r STATE_ACTIVE ?s (opened w))"
    using change_run [of E w STATE_ACTIVE None] True by (simp add: Let_def owner_check_def state_order)
  show ?thesis
  proof (cases "lk_state ?r \<noteq> STATE_FREE \<and> lk_owner ?r \<noteq> e_uid E")
    case True
    then show ?thesis using run assms by auto
  next
    case False
    then have w: "write_reservation E ?r STATE_ACTIVE ?s (opened w) = (res, w')"
      using run assms by auto
    have "cfg_res_file (opened w) \<noteq> PROG_LOCK_FILE E" using assms(2) by simp
    note res = write_reservation_result [OF this w]
    have "res \<noteq> Inr 1 \<Longrightarrow> \<exists>e. res = Inl e"
      using w by (auto simp: write_reservation_def Let_def split: if_splits)
    then show ?thesis
      using res False assms(3) by (cases "res = Inr 1") (auto simp: state_order flushed_def read_lock_text)
  qed
qed

text \<open>
  \<^verbatim>\<open>--activate\<close> gives access to nobody but the holder of the reservation: when
  it succeeds the caller held the device, the record says so, and the device file (if it
  exists) is the caller's with mode 0600; a caller who does not hold it changes neither the
  record nor any device file.
\<close>

theorem activate_for_owner:
  assumes "cfg_res_file w \<noteq> PROG_LOCK_FILE E" "e_flush E (cfg_res_file w) = None"
  shows "case activate_dev E w of (res, w') \<Rightarrow>
    (res = Inr () \<longrightarrow> lk_state (current_record w) \<noteq> STATE_FREE \<and> lk_owner (current_record w) = e_uid E \<and>
       lk_state (current_record w') = STATE_ACTIVE \<and> lk_owner (current_record w') = e_uid E \<and>
       (\<forall>dev n. cfg_fpga_dev w = Some dev \<and> devs w dev = Some n \<longrightarrow>
          (\<exists>n'. devs w' dev = Some n' \<and> n_mode n' mod 512 = 384 \<and> n_uid n' = e_uid E))) \<and>
    (lk_state (current_record w) = STATE_FREE \<or> lk_owner (current_record w) \<noteq> e_uid E \<longrightarrow>
       devs w' = devs w \<and> current_record w' = current_record w)"
proof -
  obtain r w1 where ch: "change_current_reservation E STATE_ACTIVE None w = (r, w1)" by fastforce
  note res = change_active [OF ch assms]
  have d1: "devs w1 = devs w" "same_dev w w1"
    using change_devs [of E STATE_ACTIVE None w] change_same_dev [of w E STATE_ACTIVE None] ch by simp_all
  show ?thesis
  proof (cases r)
    case (Inl e)
    then show ?thesis using ch res d1 by (simp add: activate_dev_def andThen_Inl)
  next
    case (Inr v)
    obtain r2 w2 where inv: "invoke_helper_script E STATE_ACTIVE w1 = (r2, w2)" by fastforce
    have w2: "devs w2 = devs w1" "same_dev w1 w2" "files w2 = files w1"
      using invoke_devs [of E STATE_ACTIVE w1] invoke_same [of w1 E STATE_ACTIVE] inv by simp_all
    have act: "activate_dev E w = andThen (invoke_helper_script E STATE_ACTIVE)
        (set_fpga_device_access E True False) w1"
      using ch Inr by (simp add: activate_dev_def andThen_Inr)
    show ?thesis
    proof (cases r2)
      case (Inl e)
      then have "activate_dev E w = (Inl e, w2)" using act inv by (simp add: andThen_Inl)
      then show ?thesis using res \<open>r = Inr v\<close> by auto
    next
      case (Inr u)
      obtain r3 w3 where acc: "set_fpga_device_access E True False w2 = (r3, w3)" by fastforce
      have run: "activate_dev E w = (r3, w3)" using act inv Inr acc by (simp add: andThen_Inr)
      have w3: "same_dev w2 w3" "files w3 = files w2"
        using set_access_same [of w2 E True False] acc by simp_all
      have rec: "current_record w3 = current_record w1"
        using same_dev_record [OF w3] same_dev_record [OF w2(2,3)] by simp
      have dev: "cfg_fpga_dev w2 = cfg_fpga_dev w" using d1(2) w2(2) by (simp add: same_dev_def)
      have "\<exists>n'. devs w3 dev = Some n' \<and> n_mode n' mod 512 = 384 \<and> n_uid n' = e_uid E"
        if "r3 = Inr ()" "cfg_fpga_dev w = Some dev" "devs w dev = Some n" for dev n
        using set_access_granted [of E True False w2 w3] acc that dev w2(1) d1(1) by simp
      then show ?thesis using run res rec \<open>r = Inr v\<close> by auto
    qed
  qed
qed

theorem activate_for_owner_witness:
  "case activate_dev env0 (held ''L/a'' 7 STATE_RESERVED ctrl0) of (res, w') \<Rightarrow>
     devs w' = devs (held ''L/a'' 7 STATE_RESERVED ctrl0)"
proof -
  let ?w = "held ''L/a'' 7 STATE_RESERVED ctrl0"
  have "cfg_res_file ?w \<noteq> PROG_LOCK_FILE env0" "e_flush env0 (cfg_res_file ?w) = None" "lk_owner (current_record ?w) \<noteq> e_uid env0"
    by (simp_all add: held_record ctrl0_def env0_def PROG_LOCK_FILE_def RES_DIR_def, simp_all add: held_def)
  then show ?thesis using activate_for_owner [of ?w env0] by auto
qed

end
