(* ===== verification/Bluenoc_Board.thy ===== *)
theory Bluenoc_Board
  imports Leap_Prelude
begin

text \<open>
  \<^verbatim>\<open>drivers/linux/platforms/bluenoc-pcie/driver/bluenoc.c\<close>, first half: the board
  structure, its activation levels, the driver's list of boards, the DMA status register,
  the interrupt handler, and opening and closing the device file. Kernel messages are not
  modelled. A board is an address in a small heap; the linked list of boards is the list of
  their addresses.
\<close>

section \<open>Boards and devices\<close>

record board =
  bar0io :: u64
  pci_dev :: nat
  board_number :: nat
  major_rev :: u32
  minor_rev :: u32
  build :: u32
  timestamp :: u32
  bytes_per_beat :: u32
  content_id :: u64
  magic_num :: u64
  uses_msix :: bool
  irq_num :: u32
  read_buffers_level :: u32
  read_flushed :: bool
  read_completed :: bool
  read_queue_full :: bool
  read_ok :: bool
  write_buffers_level :: u32
  write_completed :: bool
  write_queue_full :: bool
  write_ok :: bool
  activation_level :: nat
  debug_level :: u32
  read_mutex :: bool
  write_mutex :: bool
  read_call_count :: u64
  write_call_count :: u64
  poll_call_count :: u64
  total_bytes_read :: u64
  total_bytes_written :: u64
  total_read_call_ns :: u64
  total_read_blocked_ns :: u64
  total_write_call_ns :: u64
  total_write_blocked_ns :: u64
  interrupt_count :: u64

text \<open>What the driver holds of a PCI device.\<close>

record pci_state =
  pd_enabled :: bool
  pd_region :: bool
  pd_mapped :: bool
  pd_msi :: bool
  pd_msix :: bool
  pd_irq :: bool
  pd_master :: bool

text \<open>
  The kernel and the devices: what its calls answer, and the value of each 32-bit register
  of a device at the time of a read (the number of register accesses so far).
\<close>

record kenv =
  k_vendor :: "nat \<Rightarrow> u32"
  k_device :: "nat \<Rightarrow> u32"
  k_subsystem_vendor :: "nat \<Rightarrow> u32"
  k_subsystem_device :: "nat \<Rightarrow> u32"
  k_kmalloc_ok :: bool
  k_enable_ok :: bool
  k_region_ok :: bool
  k_iomap :: u64
  k_mask_ok :: bool
  k_msi_ok :: bool
  k_msix_ok :: bool
  k_pci_irq :: u32
  k_msix_vector :: u32
  k_request_irq_ok :: bool
  k_cdev_ok :: bool
  k_reg :: "nat \<Rightarrow> nat \<Rightarrow> nat \<Rightarrow> u32"
  k_chrdev_ok :: bool
  k_register_status :: int

datatype event = Irq | Signal

text \<open>
  The driver's data and its traces: register writes (device, offset, width in bytes,
  value), device files, and what else the kernel keeps for it.
\<close>

record kernel =
  boards :: "nat \<Rightarrow> board option"
  board_list :: "nat list"
  fresh :: nat
  pci :: "nat \<Rightarrow> pci_state"
  writes :: "(nat \<times> nat \<times> nat \<times> u64) list"
  accesses :: nat
  class_created :: bool
  open_count :: "nat \<Rightarrow> u32"
  cdevs :: "nat set"
  nodes :: "nat set"
  chrdev_region :: bool
  registered :: bool
  events :: "event list"

text \<open>A memory access that faults, or a wait that has not ended.\<close>

datatype stall = Oops | Blocked

type_synonym 'a kprog = "(kernel, stall, 'a) prog"

text \<open>Error codes of the driver.\<close>

abbreviation (input) "EIO \<equiv> 5 :: int"
abbreviation (input) "ENXIO \<equiv> 6 :: int"
abbreviation (input) "ENOMEM \<equiv> 12 :: int"
abbreviation (input) "EFAULT \<equiv> 14 :: int"
abbreviation (input) "EBUSY \<equiv> 16 :: int"
abbreviation (input) "EINVAL \<equiv> 22 :: int"
abbreviation (input) "ENOTTY \<equiv> 25 :: int"
abbreviation (input) "ESPIPE \<equiv> 29 :: int"
abbreviation (input) "ERESTARTSYS \<equiv> 512 :: int"

definition BLUESPEC_VENDOR_ID :: u32 where "BLUESPEC_VENDOR_ID = 0x1be7"
definition BLUESPEC_NOC_DEVICE_ID :: u32 where "BLUESPEC_NOC_DEVICE_ID = 0xb100"
definition NUM_BOARDS :: nat where "NUM_BOARDS = 16"
definition UNASSIGNED :: nat where "UNASSIGNED = 0"

definition ascii :: "char \<Rightarrow> u64" where "ascii c = of_char c"

definition EXPECTED_MAGIC :: u64 where
  "EXPECTED_MAGIC = ascii CHR ''B'' OR push_bit 8 (ascii CHR ''l'') OR push_bit 16 (ascii CHR ''u'')
     OR push_bit 24 (ascii CHR ''e'') OR push_bit 32 (ascii CHR ''s'') OR push_bit 40 (ascii CHR ''p'')
     OR push_bit 48 (ascii CHR ''e'') OR push_bit 56 (ascii CHR ''c'')"

text \<open>Debug levels (\<^verbatim>\<open>bluenoc.h\<close>).\<close>

definition DEBUG_OFF :: u32 where "DEBUG_OFF = 0"
definition DEBUG_CALLS :: u32 where "DEBUG_CALLS = push_bit 0 1"
definition DEBUG_DATA :: u32 where "DEBUG_DATA = push_bit 1 1"
definition DEBUG_DMA :: u32 where "DEBUG_DMA = push_bit 2 1"
definition DEBUG_INTR :: u32 where "DEBUG_INTR = push_bit 3 1"
definition DEBUG_PROFILE :: u32 where "DEBUG_PROFILE = push_bit 31 1"

definition debugging :: "board \<Rightarrow> u32 \<Rightarrow> bool" where
  "debugging b bits \<longleftrightarrow> debug_level b AND bits \<noteq> 0"

text \<open>Activation levels.\<close>

definition PROBED :: nat where "PROBED = 0"
definition BOARD_NUM_ASSIGNED :: nat where "BOARD_NUM_ASSIGNED = 1"
definition PCI_DEV_ENABLED :: nat where "PCI_DEV_ENABLED = 2"
definition BARS_ALLOCATED :: nat where "BARS_ALLOCATED = 3"
definition BARS_MAPPED :: nat where "BARS_MAPPED = 4"
definition MAGIC_MATCH :: nat where "MAGIC_MATCH = 5"
definition DMA_MASK_SET :: nat where "DMA_MASK_SET = 6"
definition MSI_ENABLED :: nat where "MSI_ENABLED = 7"
definition IRQ_ASSIGNED :: nat where "IRQ_ASSIGNED = 8"
definition MSIX_INITIALIZED :: nat where "MSIX_INITIALIZED = 9"
definition PCI_BUS_MASTER :: nat where "PCI_BUS_MASTER = 10"
definition BLUENOC_ACTIVE :: nat where "BLUENOC_ACTIVE = 11"

lemmas levels = PROBED_def BOARD_NUM_ASSIGNED_def PCI_DEV_ENABLED_def BARS_ALLOCATED_def
  BARS_MAPPED_def MAGIC_MATCH_def DMA_MASK_SET_def MSI_ENABLED_def IRQ_ASSIGNED_def
  MSIX_INITIALIZED_def PCI_BUS_MASTER_def BLUENOC_ACTIVE_def

section \<open>Memory and registers\<close>

text \<open>Following a board pointer; a freed board faults.\<close>

definition the_board :: "nat \<Rightarrow> board kprog" where
  "the_board a = (\<lambda>k. case boards k a of None \<Rightarrow> (Inl Oops, k) | Some b \<Rightarrow> (Inr b, k))"

definition set_board :: "nat \<Rightarrow> (board \<Rightarrow> board) \<Rightarrow> unit kprog" where
  "set_board a f = bind (the_board a) (\<lambda>b. modify (\<lambda>k. k\<lparr>boards := (boards k)(a \<mapsto> f b)\<rparr>))"

definition set_pci :: "nat \<Rightarrow> (pci_state \<Rightarrow> pci_state) \<Rightarrow> unit kprog" where
  "set_pci d f = modify (\<lambda>k. k\<lparr>pci := (pci k)(d := f (pci k d))\<rparr>)"

text \<open>Register accesses of a board go through its mapped BAR 0.\<close>

definition bar_access :: "nat \<Rightarrow> nat kprog" where
  "bar_access a = bind (the_board a) (\<lambda>b. \<lambda>k.
     if bar0io b = 0 \<or> \<not> pd_mapped (pci k (pci_dev b)) then (Inl Oops, k)
     else (Inr (pci_dev b), k\<lparr>accesses := accesses k + 1\<rparr>))"

definition ioread32 :: "kenv \<Rightarrow> nat \<Rightarrow> nat \<Rightarrow> u32 kprog" where
  "ioread32 K a off = bind (bar_access a) (\<lambda>d k. (Inr (k_reg K d (accesses k) off), k))"

definition iowrite :: "nat \<Rightarrow> nat \<Rightarrow> nat \<Rightarrow> u64 \<Rightarrow> unit kprog" where
  "iowrite width a off v = bind (bar_access a)
     (\<lambda>d. modify (\<lambda>k. k\<lparr>writes := writes k @ [(d, off, width, v)]\<rparr>))"

definition iowrite8 :: "nat \<Rightarrow> nat \<Rightarrow> u64 \<Rightarrow> unit kprog" where
  "iowrite8 a off v = iowrite 1 a off v"

definition iowrite32 :: "nat \<Rightarrow> nat \<Rightarrow> u32 \<Rightarrow> unit kprog" where
  "iowrite32 a off v = iowrite 4 a off (ucast v)"

text \<open>
  64-bit accesses: in one piece where the architecture has them, otherwise the driver's own
  pair of 32-bit accesses, low half first.
\<close>

definition join :: "u32 \<Rightarrow> u32 \<Rightarrow> u64" where
  "join low high = ucast low + push_bit 32 (ucast high)"

definition readq :: "kenv \<Rightarrow> nat \<Rightarrow> nat \<Rightarrow> u64 kprog" where
  "readq K a off = bind (bar_access a)
     (\<lambda>d k. (Inr (join (k_reg K d (accesses k) off) (k_reg K d (accesses k) (off + 4))), k))"

definition readq_pair :: "kenv \<Rightarrow> nat \<Rightarrow> nat \<Rightarrow> u64 kprog" where
  "readq_pair K a off =
     bind (ioread32 K a off) (\<lambda>low. bind (ioread32 K a (off + 4)) (\<lambda>high. ret (join low high)))"

definition writeq :: "nat \<Rightarrow> nat \<Rightarrow> u64 \<Rightarrow> unit kprog" where
  "writeq a off v = iowrite 8 a off v"

definition writeq_pair :: "nat \<Rightarrow> nat \<Rightarrow> u64 \<Rightarrow> unit kprog" where
  "writeq_pair a off v =
     andThen (iowrite32 a off (ucast v)) (iowrite32 a (off + 4) (ucast (drop_bit 32 v)))"

section \<open>DMA status\<close>

datatype dma_clear_reason = START_READ | START_WRITE

definition clear_dma_status :: "nat \<Rightarrow> dma_clear_reason \<Rightarrow> unit kprog" where
  "clear_dma_status a reason =
     (case reason of
        START_READ \<Rightarrow> andThen (iowrite32 a 2048 0)
          (set_board a (\<lambda>b. b\<lparr>read_flushed := False, read_completed := False, read_ok := False\<rparr>))
      | START_WRITE \<Rightarrow> andThen (iowrite32 a 2052 0)
          (set_board a (\<lambda>b. b\<lparr>write_completed := False, write_ok := False\<rparr>)))"

definition decode_status :: "u64 \<Rightarrow> board \<Rightarrow> board" where
  "decode_status st b = b\<lparr>
     read_buffers_level := ucast (st AND 0x1f),
     read_flushed := st AND push_bit 5 1 \<noteq> 0,
     read_completed := st AND push_bit 6 1 \<noteq> 0,
     read_queue_full := st AND push_bit 7 1 \<noteq> 0,
     read_ok := st AND push_bit 8 1 \<noteq> 0,
     write_buffers_level := ucast (drop_bit 32 st) AND 0x1f,
     write_completed := st AND push_bit 38 1 \<noteq> 0,
     write_queue_full := st AND push_bit 39 1 \<noteq> 0,
     write_ok := st AND push_bit 40 1 \<noteq> 0\<rparr>"

definition update_dma_buffer_status :: "kenv \<Rightarrow> nat \<Rightarrow> unit kprog" where
  "update_dma_buffer_status K a =
     bind (readq K a 2048) (\<lambda>st. set_board a (decode_status st))"

definition intr_handler :: "kenv \<Rightarrow> nat \<Rightarrow> unit kprog" where
  "intr_handler K a =
     andThen (set_board a (\<lambda>b. if debugging b DEBUG_PROFILE
                                then b\<lparr>interrupt_count := interrupt_count b + 1\<rparr> else b))
       (update_dma_buffer_status K a)"

section \<open>Deactivation\<close>

text \<open>
  The cases of the switch, which fall through: the board at level \<^verbatim>\<open>n\<close> runs the
  cases from \<^verbatim>\<open>n\<close> down.
\<close>

definition deactivate_case :: "nat \<Rightarrow> nat \<Rightarrow> unit kprog" where
  "deactivate_case a n = bind (the_board a) (\<lambda>b.
     let d = pci_dev b in
     if n = BLUENOC_ACTIVE then iowrite8 a 257 0
     else if n = PCI_BUS_MASTER then set_pci d (\<lambda>p. p\<lparr>pd_master := False\<rparr>)
     else if n = MSIX_INITIALIZED then (if uses_msix b then iowrite32 a 16396 1 else ret ())
     else if n = IRQ_ASSIGNED then set_pci d (\<lambda>p. p\<lparr>pd_irq := False\<rparr>)
     else if n = MSI_ENABLED then
       (if uses_msix b then set_pci d (\<lambda>p. p\<lparr>pd_msix := False\<rparr>)
        else set_pci d (\<lambda>p. p\<lparr>pd_msi := False\<rparr>))
     else if n = BARS_MAPPED then
       (if bar0io b \<noteq> 0 then set_pci d (\<lambda>p. p\<lparr>pd_mapped := False\<rparr>) else ret ())
     else if n = BARS_ALLOCATED then set_pci d (\<lambda>p. p\<lparr>pd_region := False\<rparr>)
     else if n = PCI_DEV_ENABLED then
       andThen (set_pci d (\<lambda>p. p\<lparr>pd_enabled := False\<rparr>))
         (set_board a (\<lambda>b. b\<lparr>activation_level := BOARD_NUM_ASSIGNED\<rparr>))
     else ret ())"

fun deactivate_from :: "nat \<Rightarrow> nat \<Rightarrow> unit kprog" where
  "deactivate_from a 0 = ret ()"
| "deactivate_from a (Suc n) = andThen (deactivate_case a (Suc n)) (deactivate_from a n)"

definition deactivate :: "nat option \<Rightarrow> unit kprog" where
  "deactivate p =
     (case p of None \<Rightarrow> ret ()
      | Some a \<Rightarrow> bind (the_board a) (\<lambda>b.
          if activation_level b \<le> BLUENOC_ACTIVE then deactivate_from a (activation_level b)
          else ret ()))"

section \<open>Activation\<close>

text \<open>The numbers in use, following the list; the lowest free one from 1 to 16.\<close>

fun numbers_in_use :: "nat list \<Rightarrow> nat list kprog" where
  "numbers_in_use [] k = (Inr [], k)"
| "numbers_in_use (a # rest) k =
     bind (the_board a) (\<lambda>b. bind (numbers_in_use rest) (\<lambda>ns. ret (board_number b # ns))) k"

text \<open>
  The search for a free number: the inner loop walks the list up to the first board with the
  number, the outer one tries the numbers from 1 on.
\<close>

fun collision :: "nat list \<Rightarrow> nat \<Rightarrow> bool" where
  "collision [] n = False"
| "collision (m # ms) n = (if m = n then True else collision ms n)"

function number_loop :: "nat list \<Rightarrow> nat \<Rightarrow> nat" where
  "number_loop ns n = (if n \<le> NUM_BOARDS then (if \<not> collision ns n then n else number_loop ns (n + 1)) else n)"
  by pat_completeness auto
termination
  by (relation "measure (\<lambda>(ns, n). Suc NUM_BOARDS - n)") auto

declare number_loop.simps [simp del]

text \<open>What it finds: the lowest number no board has.\<close>

definition lowest_free :: "nat list \<Rightarrow> nat option" where
  "lowest_free ns = find (\<lambda>n. n \<notin> set ns) [1..<Suc NUM_BOARDS]"

lemma collision_iff: "collision ns n \<longleftrightarrow> n \<in> set ns"
  by (induction ns) auto

lemma number_loop_find:
  "number_loop ns n = (case find (\<lambda>n. n \<notin> set ns) [n..<Suc NUM_BOARDS] of Some m \<Rightarrow> m | None \<Rightarrow> max n (Suc NUM_BOARDS))"
proof (induction ns n rule: number_loop.induct)
  case (1 ns n)
  show ?case
  proof (cases "n \<le> NUM_BOARDS")
    case True
    then have "[n..<Suc NUM_BOARDS] = n # [Suc n..<Suc NUM_BOARDS]" by (simp add: upt_conv_Cons)
    with True 1 show ?thesis
      by (subst number_loop.simps) (auto simp: collision_iff max_def split: option.split)
  qed (simp add: number_loop.simps)
qed

lemma lowest_free_bound:
  assumes "lowest_free ns = Some n"
  shows "1 \<le> n \<and> n \<le> NUM_BOARDS \<and> n \<notin> set ns"
proof -
  from assms obtain i where i: "i < length [1..<Suc NUM_BOARDS]" "n = [1..<Suc NUM_BOARDS] ! i" "n \<notin> set ns"
    unfolding lowest_free_def find_Some_iff by blast
  then have "n \<in> set [1..<Suc NUM_BOARDS]" using nth_mem by blast
  with i(3) show ?thesis by auto
qed

lemma lowest_free_none: "lowest_free ns = None \<longleftrightarrow> {1..NUM_BOARDS} \<subseteq> set ns"
  unfolding lowest_free_def find_None_iff by (auto simp del: upt_Suc)

lemma number_loop_lowest: "number_loop ns 1 = (case lowest_free ns of Some n \<Rightarrow> n | None \<Rightarrow> Suc NUM_BOARDS)"
  by (simp add: number_loop_find lowest_free_def NUM_BOARDS_def)

text \<open>
  The two nested loops that look for a board number end for every list of boards and find
  what the definition of the lowest free number says; they end above 16 exactly when
  there is none.
\<close>

theorem number_search_finds_lowest:
  "number_loop ns 1 = (case lowest_free ns of Some n \<Rightarrow> n | None \<Rightarrow> NUM_BOARDS + 1) \<and>
     (NUM_BOARDS < number_loop ns 1 \<longleftrightarrow> {1..NUM_BOARDS} \<subseteq> set ns)"
proof (cases "lowest_free ns")
  case None
  then show ?thesis using lowest_free_none [of ns] unfolding number_loop_lowest by simp
next
  case (Some n)
  with lowest_free_bound [OF Some] lowest_free_none [of ns] show ?thesis unfolding number_loop_lowest by simp
qed

definition set_level :: "nat \<Rightarrow> nat \<Rightarrow> int kprog" where
  "set_level a n = andThen (set_board a (\<lambda>b. b\<lparr>activation_level := n\<rparr>)) (ret 0)"

definition fail_activate :: "nat \<Rightarrow> int \<Rightarrow> int kprog" where
  "fail_activate a code = andThen (deactivate (Some a)) (ret (- code))"

definition assign_number :: "nat \<Rightarrow> int kprog" where
  "assign_number a =
     bind (\<lambda>k. numbers_in_use (board_list k) k) (\<lambda>ns.
       let n = number_loop ns 1 in
       if NUM_BOARDS < n then fail_activate a EBUSY
       else andThen (set_board a (\<lambda>b. b\<lparr>board_number := n\<rparr>)) (set_level a BOARD_NUM_ASSIGNED))"

lemma assign_number_lowest:
  "assign_number a =
     bind (\<lambda>k. numbers_in_use (board_list k) k) (\<lambda>ns.
       case lowest_free ns of
         None \<Rightarrow> fail_activate a EBUSY
       | Some n \<Rightarrow> andThen (set_board a (\<lambda>b. b\<lparr>board_number := n\<rparr>)) (set_level a BOARD_NUM_ASSIGNED))"
  unfolding assign_number_def Let_def number_loop_lowest
  by (rule arg_cong [where f = "bind _"]) (auto simp: fun_eq_iff dest: lowest_free_bound split: option.split)

definition enable_device :: "kenv \<Rightarrow> nat \<Rightarrow> nat \<Rightarrow> int kprog" where
  "enable_device K a d =
     (if \<not> k_enable_ok K then fail_activate a EFAULT
      else andThen (set_pci d (\<lambda>p. p\<lparr>pd_enabled := True\<rparr>)) (set_level a PCI_DEV_ENABLED))"

definition reserve_region :: "kenv \<Rightarrow> nat \<Rightarrow> nat \<Rightarrow> int kprog" where
  "reserve_region K a d =
     (if \<not> k_region_ok K then fail_activate a EBUSY
      else andThen (set_pci d (\<lambda>p. p\<lparr>pd_region := True\<rparr>)) (set_level a BARS_ALLOCATED))"

definition map_bar :: "kenv \<Rightarrow> nat \<Rightarrow> nat \<Rightarrow> int kprog" where
  "map_bar K a d =
     andThen (set_board a (\<lambda>b. b\<lparr>bar0io := k_iomap K\<rparr>))
       (if k_iomap K = 0 then fail_activate a EFAULT
        else andThen (set_pci d (\<lambda>p. p\<lparr>pd_mapped := True\<rparr>)) (set_level a BARS_MAPPED))"

definition check_magic :: "kenv \<Rightarrow> nat \<Rightarrow> int kprog" where
  "check_magic K a =
     bind (readq K a 0) (\<lambda>magic.
     andThen (set_board a (\<lambda>b. b\<lparr>magic_num := magic\<rparr>))
       (if magic \<noteq> EXPECTED_MAGIC then fail_activate a EINVAL
        else
          bind (ioread32 K a 8) (\<lambda>mi. bind (ioread32 K a 12) (\<lambda>ma.
          bind (ioread32 K a 16) (\<lambda>bv. bind (ioread32 K a 20) (\<lambda>ts.
          bind (ioread32 K a 28) (\<lambda>noc. bind (readq K a 32) (\<lambda>cid.
            andThen (set_board a (\<lambda>b. b\<lparr>major_rev := ma, minor_rev := mi, build := bv, timestamp := ts,
                       bytes_per_beat := noc AND 0xff, content_id := cid\<rparr>))
              (set_level a MAGIC_MATCH)))))))))"

definition set_dma_mask :: "kenv \<Rightarrow> nat \<Rightarrow> int kprog" where
  "set_dma_mask K a =
     (if \<not> k_mask_ok K then fail_activate a EIO
      else andThen (update_dma_buffer_status K a) (set_level a DMA_MASK_SET))"

definition enable_msi :: "kenv \<Rightarrow> nat \<Rightarrow> nat \<Rightarrow> int kprog" where
  "enable_msi K a d =
     (if k_msi_ok K then
        andThen (set_pci d (\<lambda>p. p\<lparr>pd_msi := True\<rparr>))
        (andThen (set_board a (\<lambda>b. b\<lparr>uses_msix := False, irq_num := k_pci_irq K\<rparr>))
          (set_level a MSI_ENABLED))
      else if k_msix_ok K then
        andThen (set_pci d (\<lambda>p. p\<lparr>pd_msix := True\<rparr>))
        (andThen (set_board a (\<lambda>b. b\<lparr>uses_msix := True, irq_num := k_msix_vector K\<rparr>))
          (set_level a MSI_ENABLED))
      else fail_activate a EFAULT)"

definition install_irq :: "kenv \<Rightarrow> nat \<Rightarrow> nat \<Rightarrow> int kprog" where
  "install_irq K a d =
     (if \<not> k_request_irq_ok K then fail_activate a EBUSY
      else andThen (set_pci d (\<lambda>p. p\<lparr>pd_irq := True\<rparr>)) (set_level a IRQ_ASSIGNED))"

definition unmask_msix :: "nat \<Rightarrow> bool \<Rightarrow> int kprog" where
  "unmask_msix a msix =
     andThen (if msix then iowrite32 a 16396 0 else ret ()) (set_level a MSIX_INITIALIZED)"

definition set_master :: "nat \<Rightarrow> nat \<Rightarrow> int kprog" where
  "set_master a d = andThen (set_pci d (\<lambda>p. p\<lparr>pd_master := True\<rparr>)) (set_level a PCI_BUS_MASTER)"

definition start_network :: "nat \<Rightarrow> int kprog" where
  "start_network a = andThen (iowrite8 a 257 1) (set_level a BLUENOC_ACTIVE)"

text \<open>The case for level \<^verbatim>\<open>n\<close>: 0 to fall through, or the error to return.\<close>

definition activate_case :: "kenv \<Rightarrow> nat \<Rightarrow> nat \<Rightarrow> int kprog" where
  "activate_case K a n = bind (the_board a) (\<lambda>b.
     let d = pci_dev b in
     if n = PROBED then assign_number a
     else if n = BOARD_NUM_ASSIGNED then enable_device K a d
     else if n = PCI_DEV_ENABLED then reserve_region K a d
     else if n = BARS_ALLOCATED then map_bar K a d
     else if n = BARS_MAPPED then check_magic K a
     else if n = MAGIC_MATCH then set_dma_mask K a
     else if n = DMA_MASK_SET then enable_msi K a d
     else if n = MSI_ENABLED then install_irq K a d
     else if n = IRQ_ASSIGNED then unmask_msix a (uses_msix b)
     else if n = MSIX_INITIALIZED then set_master a d
     else if n = PCI_BUS_MASTER then start_network a
     else ret 0)"

fun activate_from :: "kenv \<Rightarrow> nat \<Rightarrow> nat list \<Rightarrow> int kprog" where
  "activate_from K a [] = ret 0"
| "activate_from K a (n # ns) =
     bind (activate_case K a n) (\<lambda>r. if r \<noteq> 0 then ret r else activate_from K a ns)"

definition activate :: "kenv \<Rightarrow> nat option \<Rightarrow> int kprog" where
  "activate K p =
     (case p of None \<Rightarrow> ret (- EFAULT)
      | Some a \<Rightarrow> bind (the_board a) (\<lambda>b.
          activate_from K a [activation_level b..<BLUENOC_ACTIVE]))"

section \<open>Loading, probing, removing\<close>

definition bluenoc_init :: "kenv \<Rightarrow> int kprog" where
  "bluenoc_init K =
     (if \<not> k_chrdev_ok K then ret (-1)
      else andThen (modify (\<lambda>k. k\<lparr>chrdev_region := True, board_list := []\<rparr>))
        (if k_register_status K < 0 then ret (k_register_status K)
         else andThen (modify (\<lambda>k. k\<lparr>registered := True\<rparr>)) (ret 0)))"

definition bluenoc_exit :: "unit kprog" where
  "bluenoc_exit = modify (\<lambda>k. k\<lparr>registered := False, chrdev_region := False\<rparr>)"

text \<open>
  \<^verbatim>\<open>kmalloc\<close> does not clear the structure: \<^verbatim>\<open>junk\<close> is what it held before.
\<close>

definition new_board :: "board \<Rightarrow> nat \<Rightarrow> board" where
  "new_board junk dev = junk\<lparr>activation_level := PROBED, pci_dev := dev, board_number := UNASSIGNED,
     debug_level := DEBUG_OFF, read_mutex := False, write_mutex := False\<rparr>"

definition kfree_board :: "nat \<Rightarrow> unit kprog" where
  "kfree_board a = modify (\<lambda>k. k\<lparr>boards := (boards k)(a := None)\<rparr>)"

definition add_device_file :: "kenv \<Rightarrow> nat \<Rightarrow> int kprog" where
  "add_device_file K a = bind (the_board a) (\<lambda>b.
     let n = board_number b in
     andThen (modify (\<lambda>k. k\<lparr>open_count := (open_count k)(n := 0)\<rparr>))
       (if \<not> k_cdev_ok K then andThen (deactivate (Some a)) (ret (- EFAULT))
        else andThen (modify (\<lambda>k. k\<lparr>cdevs := insert n (cdevs k), nodes := insert n (nodes k)\<rparr>)) (ret 0)))"

definition bluenoc_probe :: "kenv \<Rightarrow> board \<Rightarrow> nat \<Rightarrow> int kprog" where
  "bluenoc_probe K junk dev = (\<lambda>k.
     if k_vendor K dev \<noteq> BLUESPEC_VENDOR_ID \<or> k_device K dev \<noteq> BLUESPEC_NOC_DEVICE_ID
     then (Inr (- EINVAL), k)
     else if \<not> k_kmalloc_ok K then (Inr (- EINVAL), k)
     else
       (let a = fresh k in
        andThen (modify (\<lambda>k. k\<lparr>fresh := a + 1, class_created := True,
            boards := (boards k)(a \<mapsto> new_board junk dev), board_list := a # board_list k\<rparr>))
        (bind (bind (activate K (Some a)) (\<lambda>r. if 0 \<le> r then add_device_file K a else ret r)) (\<lambda>r.
          if r < 0 then
            andThen (modify (\<lambda>k. k\<lparr>board_list := tl (board_list k)\<rparr>))
              (andThen (kfree_board a) (ret r))
          else ret r)) k))"

fun find_board :: "(board \<Rightarrow> bool) \<Rightarrow> nat list \<Rightarrow> nat option kprog" where
  "find_board P [] k = (Inr None, k)"
| "find_board P (a # rest) k =
     bind (the_board a) (\<lambda>b. if P b then ret (Some a) else find_board P rest) k"

definition bluenoc_remove :: "nat \<Rightarrow> unit kprog" where
  "bluenoc_remove dev =
     bind (\<lambda>k. find_board (\<lambda>b. pci_dev b = dev) (board_list k) k) (\<lambda>found.
       case found of None \<Rightarrow> ret ()
       | Some a \<Rightarrow>
           andThen (deactivate (Some a))
           (bind (the_board a) (\<lambda>b.
           andThen (modify (\<lambda>k. k\<lparr>nodes := nodes k - {board_number b}, cdevs := cdevs k - {board_number b},
               board_list := remove1 a (board_list k)\<rparr>))
           (andThen (kfree_board a)
           (modify (\<lambda>k. if board_list k = [] then k\<lparr>class_created := False\<rparr> else k))))))"

section \<open>Opening and closing\<close>

text \<open>An open file holds the address of its board.\<close>

definition bluenoc_open :: "nat \<Rightarrow> (int \<times> nat option) kprog" where
  "bluenoc_open n =
     bind (\<lambda>k. find_board (\<lambda>b. board_number b = n) (board_list k) k) (\<lambda>found.
       case found of None \<Rightarrow> ret (- ENXIO, None)
       | Some a \<Rightarrow> andThen (modify (\<lambda>k. k\<lparr>open_count := (open_count k)(n := open_count k n + 1)\<rparr>))
                    (ret (0, Some a)))"

definition bluenoc_release :: "nat \<Rightarrow> nat \<Rightarrow> int kprog" where
  "bluenoc_release n a =
     andThen (modify (\<lambda>k. k\<lparr>open_count := (open_count k)(n := open_count k n - 1)\<rparr>))
       (bind (the_board a) (\<lambda>b. ret 0))"

section \<open>What a board holds at each level\<close>

definition holds_upto :: "nat \<Rightarrow> bool \<Rightarrow> pci_state \<Rightarrow> bool" where
  "holds_upto n msix p \<longleftrightarrow>
     pd_enabled p = (PCI_DEV_ENABLED \<le> n) \<and> pd_region p = (BARS_ALLOCATED \<le> n) \<and>
     pd_mapped p = (BARS_MAPPED \<le> n) \<and> pd_msi p = (MSI_ENABLED \<le> n \<and> \<not> msix) \<and>
     pd_msix p = (MSI_ENABLED \<le> n \<and> msix) \<and> pd_irq p = (IRQ_ASSIGNED \<le> n) \<and>
     pd_master p = (PCI_BUS_MASTER \<le> n)"

definition board_ok :: "kernel \<Rightarrow> nat \<Rightarrow> board \<Rightarrow> bool" where
  "board_ok k a b \<longleftrightarrow> boards k a = Some b \<and> activation_level b \<le> BLUENOC_ACTIVE \<and>
     holds_upto (activation_level b) (uses_msix b) (pci k (pci_dev b)) \<and>
     (BARS_MAPPED \<le> activation_level b \<longrightarrow> bar0io b \<noteq> 0)"

text \<open>What an operation on one board leaves alone.\<close>

definition elsewhere :: "nat \<Rightarrow> nat \<Rightarrow> kernel \<Rightarrow> kernel \<Rightarrow> bool" where
  "elsewhere a d k k' \<longleftrightarrow> (\<forall>x. x \<noteq> a \<longrightarrow> boards k' x = boards k x) \<and> (\<forall>e. e \<noteq> d \<longrightarrow> pci k' e = pci k e) \<and>
     board_list k' = board_list k \<and> fresh k' = fresh k \<and> class_created k' = class_created k \<and>
     open_count k' = open_count k \<and> cdevs k' = cdevs k \<and> nodes k' = nodes k \<and>
     chrdev_region k' = chrdev_region k \<and> registered k' = registered k \<and> events k' = events k"

lemma elsewhere_refl [simp]: "elsewhere a d k k"
  by (simp add: elsewhere_def)

lemma elsewhere_trans: "elsewhere a d k k1 \<Longrightarrow> elsewhere a d k1 k2 \<Longrightarrow> elsewhere a d k k2"
  by (simp add: elsewhere_def)

lemma the_board_run [prog]: "boards k a = Some b \<Longrightarrow> the_board a k = (Inr b, k)"
  by (simp add: the_board_def)

lemma set_board_run [prog]:
  "boards k a = Some b \<Longrightarrow> set_board a f k = (Inr (), k\<lparr>boards := (boards k)(a \<mapsto> f b)\<rparr>)"
  by (simp add: set_board_def bind_def the_board_run)

lemma set_pci_run [prog]: "set_pci d f k = (Inr (), k\<lparr>pci := (pci k)(d := f (pci k d))\<rparr>)"
  by (simp add: set_pci_def)

lemma bar_access_run [prog]:
  "boards k a = Some b \<Longrightarrow> bar0io b \<noteq> 0 \<Longrightarrow> pd_mapped (pci k (pci_dev b)) \<Longrightarrow>
     bar_access a k = (Inr (pci_dev b), k\<lparr>accesses := accesses k + 1\<rparr>)"
  by (simp add: bar_access_def bind_def the_board_run)

lemma iowrite_run [prog]:
  "boards k a = Some b \<Longrightarrow> bar0io b \<noteq> 0 \<Longrightarrow> pd_mapped (pci k (pci_dev b)) \<Longrightarrow>
     iowrite width a off v k = (Inr (), k\<lparr>accesses := accesses k + 1, writes := writes k @ [(pci_dev b, off, width, v)]\<rparr>)"
  by (simp add: iowrite_def bind_def bar_access_run)

lemma ioread32_run [prog]:
  "boards k a = Some b \<Longrightarrow> bar0io b \<noteq> 0 \<Longrightarrow> pd_mapped (pci k (pci_dev b)) \<Longrightarrow>
     ioread32 K a off k = (Inr (k_reg K (pci_dev b) (accesses k + 1) off), k\<lparr>accesses := accesses k + 1\<rparr>)"
  by (simp add: ioread32_def bind_def bar_access_run)

lemma readq_run [prog]:
  "boards k a = Some b \<Longrightarrow> bar0io b \<noteq> 0 \<Longrightarrow> pd_mapped (pci k (pci_dev b)) \<Longrightarrow>
     readq K a off k = (Inr (join (k_reg K (pci_dev b) (accesses k + 1) off)
        (k_reg K (pci_dev b) (accesses k + 1) (off + 4))), k\<lparr>accesses := accesses k + 1\<rparr>)"
  by (simp add: readq_def bind_def bar_access_run)

lemma upto_ten:
  "(n :: nat) \<le> 10 \<Longrightarrow> n = 10 \<or> n = 0 \<or> n = 5 \<or> n = 1 \<or> n = 9 \<or> n = 2 \<or> n = 7 \<or> n = 3 \<or> n = 8 \<or> n = 4 \<or> n = 6"
  by presburger

text \<open>One case of \<^verbatim>\<open>deactivate\<close> gives back what its level had taken.\<close>

lemma deactivate_case_run:
  assumes "boards k a = Some b" "holds_upto (Suc n) (uses_msix b) (pci k (pci_dev b))"
    and "Suc n \<le> BLUENOC_ACTIVE" "BARS_MAPPED \<le> Suc n \<longrightarrow> bar0io b \<noteq> 0"
  shows "\<exists>k'. deactivate_case a (Suc n) k = (Inr (), k') \<and> elsewhere a (pci_dev b) k k' \<and>
    boards k' a = Some (if Suc n = PCI_DEV_ENABLED then b\<lparr>activation_level := BOARD_NUM_ASSIGNED\<rparr> else b) \<and>
    holds_upto n (uses_msix b) (pci k' (pci_dev b))"
proof -
  have "n \<le> 10" using assms(3) by (simp add: levels)
  from upto_ten [OF this] assms show ?thesis
    by (elim disjE)
      (simp_all add: deactivate_case_def levels bind_def andThen_def Let_def prog holds_upto_def elsewhere_def
        iowrite8_def iowrite32_def)
qed

lemma deactivate_from_run:
  assumes "boards k a = Some b" "holds_upto n (uses_msix b) (pci k (pci_dev b))"
    and "n \<le> BLUENOC_ACTIVE" "BARS_MAPPED \<le> n \<longrightarrow> bar0io b \<noteq> 0"
  shows "\<exists>k'. deactivate_from a n k = (Inr (), k') \<and> elsewhere a (pci_dev b) k k' \<and>
    boards k' a = Some (if PCI_DEV_ENABLED \<le> n then b\<lparr>activation_level := BOARD_NUM_ASSIGNED\<rparr> else b) \<and>
    holds_upto 0 (uses_msix b) (pci k' (pci_dev b))"
  using assms
proof (induction n arbitrary: k b)
  case (Suc n)
  obtain k1 where 1: "deactivate_case a (Suc n) k = (Inr (), k1)" "elsewhere a (pci_dev b) k k1"
      "boards k1 a = Some (if Suc n = PCI_DEV_ENABLED then b\<lparr>activation_level := BOARD_NUM_ASSIGNED\<rparr> else b)"
      "holds_upto n (uses_msix b) (pci k1 (pci_dev b))"
    using deactivate_case_run [OF Suc.prems] by blast
  let ?b1 = "if Suc n = PCI_DEV_ENABLED then b\<lparr>activation_level := BOARD_NUM_ASSIGNED\<rparr> else b"
  have same: "uses_msix ?b1 = uses_msix b" "pci_dev ?b1 = pci_dev b" "bar0io ?b1 = bar0io b" by simp_all
  have "n \<le> BLUENOC_ACTIVE" "BARS_MAPPED \<le> n \<longrightarrow> bar0io b \<noteq> 0" using Suc.prems(3,4) by auto
  then obtain k2 where 2: "deactivate_from a n k1 = (Inr (), k2)" "elsewhere a (pci_dev b) k1 k2"
      "boards k2 a = Some (if PCI_DEV_ENABLED \<le> n then ?b1\<lparr>activation_level := BOARD_NUM_ASSIGNED\<rparr> else ?b1)"
      "holds_upto 0 (uses_msix b) (pci k2 (pci_dev b))"
    using Suc.IH [of k1 ?b1] 1(3,4) unfolding same by blast
  have "elsewhere a (pci_dev b) k k2" using elsewhere_trans 1(2) 2(2) by blast
  with 1(1) 2 show ?case
    by (auto simp: andThen_def bind_def levels split: if_splits)
qed (auto simp: levels)

text \<open>Deactivating gives back everything and never faults.\<close>

lemma deactivate_run:
  assumes "board_ok k a b"
  shows "\<exists>k'. deactivate (Some a) k = (Inr (), k') \<and> elsewhere a (pci_dev b) k k' \<and>
    boards k' a = Some (if PCI_DEV_ENABLED \<le> activation_level b
                        then b\<lparr>activation_level := BOARD_NUM_ASSIGNED\<rparr> else b) \<and>
    holds_upto 0 (uses_msix b) (pci k' (pci_dev b))"
  using deactivate_from_run [of k a b "activation_level b"] assms
  by (simp add: board_ok_def deactivate_def bind_def the_board_run)

lemma holds_low: "n \<le> 1 \<Longrightarrow> holds_upto n m p = holds_upto 0 m p"
  by (auto simp: holds_upto_def levels)

lemma deactivate_ok:
  assumes "board_ok k a b"
  shows "\<exists>k' b'. deactivate (Some a) k = (Inr (), k') \<and> elsewhere a (pci_dev b) k k' \<and> board_ok k' a b' \<and>
    b' = b\<lparr>activation_level := min 1 (activation_level b)\<rparr>"
proof -
  obtain k' where k': "deactivate (Some a) k = (Inr (), k')" "elsewhere a (pci_dev b) k k'"
    "boards k' a = Some (if PCI_DEV_ENABLED \<le> activation_level b
                        then b\<lparr>activation_level := BOARD_NUM_ASSIGNED\<rparr> else b)"
    "holds_upto 0 (uses_msix b) (pci k' (pci_dev b))"
    using deactivate_run [OF assms] by blast
  have "(if PCI_DEV_ENABLED \<le> activation_level b then b\<lparr>activation_level := BOARD_NUM_ASSIGNED\<rparr> else b)
      = b\<lparr>activation_level := min 1 (activation_level b)\<rparr>"
    by (auto simp: levels)
  then have "board_ok k' a (b\<lparr>activation_level := min 1 (activation_level b)\<rparr>)"
    using k'(3,4) holds_low [of "min 1 (activation_level b)"] by (simp add: board_ok_def levels)
  then show ?thesis using k'(1,2) by blast
qed

text \<open>What every operation on a board keeps of it.\<close>

definition same_ident :: "board \<Rightarrow> board \<Rightarrow> bool" where
  "same_ident b b' \<longleftrightarrow> pci_dev b' = pci_dev b \<and> debug_level b' = debug_level b \<and>
     read_mutex b' = read_mutex b \<and> write_mutex b' = write_mutex b"

text \<open>The outcome of the case for level \<^term>\<open>n\<close>: one level up, or everything given back.\<close>

definition advanced :: "nat \<Rightarrow> board \<Rightarrow> kernel \<Rightarrow> nat \<Rightarrow> int \<Rightarrow> kernel \<Rightarrow> bool" where
  "advanced a b k n r k' \<longleftrightarrow> elsewhere a (pci_dev b) k k' \<and>
     (\<exists>b'. board_ok k' a b' \<and> same_ident b b' \<and> (PROBED < n \<longrightarrow> board_number b' = board_number b) \<and>
        (r = 0 \<and> activation_level b' = Suc n \<or> r < 0 \<and> activation_level b' = min 1 n \<and> board_number b' = board_number b))"

lemma same_ident_trans: "same_ident b b1 \<Longrightarrow> same_ident b1 b2 \<Longrightarrow> same_ident b b2"
  by (simp add: same_ident_def)

lemma advanced_fail:
  assumes "board_ok k1 a b1" "elsewhere a (pci_dev b) k k1" "same_ident b b1"
    and "board_number b1 = board_number b" "activation_level b1 = n" "0 < c"
  shows "\<exists>k'. fail_activate a c k1 = (Inr (- c), k') \<and> advanced a b k n (- c) k'"
proof -
  obtain k' b' where k': "deactivate (Some a) k1 = (Inr (), k')" "elsewhere a (pci_dev b1) k1 k'"
      "board_ok k' a b'" "b' = b1\<lparr>activation_level := min 1 (activation_level b1)\<rparr>"
    using deactivate_ok [OF assms(1)] by blast
  have "same_ident b b'" using assms(3) k'(4) by (simp add: same_ident_def)
  moreover have "elsewhere a (pci_dev b) k k'"
    using elsewhere_trans [OF assms(2)] k'(2) assms(3) by (simp add: same_ident_def)
  ultimately have "advanced a b k n (- c) k'"
    unfolding advanced_def using k'(3,4) assms(4,5,6) by (intro conjI exI [of _ b']) simp_all
  then show ?thesis using k'(1) by (simp add: fail_activate_def andThen_Inr)
qed

lemma advanced_level:
  assumes "boards k1 a = Some b1" "elsewhere a (pci_dev b) k k1" "same_ident b b1"
    and "PROBED < n \<longrightarrow> board_number b1 = board_number b"
    and "holds_upto m (uses_msix b1) (pci k1 (pci_dev b))"
    and "m \<le> BLUENOC_ACTIVE" "BARS_MAPPED \<le> m \<longrightarrow> bar0io b1 \<noteq> 0" "m = Suc n"
  shows "\<exists>k'. set_level a m k1 = (Inr 0, k') \<and> advanced a b k n 0 k'"
proof -
  let ?b = "b1\<lparr>activation_level := m\<rparr>"
  let ?k = "k1\<lparr>boards := (boards k1)(a \<mapsto> ?b)\<rparr>"
  have "set_level a m k1 = (Inr 0, ?k)"
    by (simp add: set_level_def andThen_def bind_def set_board_run [OF assms(1)])
  moreover have "advanced a b k n 0 ?k"
    unfolding advanced_def
    by (intro conjI exI [of _ ?b])
      (use assms in \<open>simp_all add: elsewhere_def board_ok_def same_ident_def\<close>)
  ultimately show ?thesis by blast
qed

lemma board_ok_update:
  assumes "board_ok k a b" "activation_level (f b) = activation_level b" "uses_msix (f b) = uses_msix b"
    "pci_dev (f b) = pci_dev b" "BARS_MAPPED \<le> activation_level b \<longrightarrow> bar0io (f b) \<noteq> 0"
  shows "board_ok (k\<lparr>boards := (boards k)(a \<mapsto> f b)\<rparr>) a (f b)"
  using assms by (simp add: board_ok_def)

lemma board_ok_access [simp]: "board_ok (k\<lparr>accesses := n\<rparr>) a b = board_ok k a b"
  by (simp add: board_ok_def)

lemma elsewhere_update [simp]:
  "elsewhere a d k (k1\<lparr>boards := (boards k1)(a := x)\<rparr>) = elsewhere a d k k1"
  "elsewhere a d k (k1\<lparr>pci := (pci k1)(d := y)\<rparr>) = elsewhere a d k k1"
  "elsewhere a d k (k1\<lparr>accesses := n\<rparr>) = elsewhere a d k k1"
  "elsewhere a d k (k1\<lparr>accesses := n, writes := ws\<rparr>) = elsewhere a d k k1"
  by (auto simp: elsewhere_def)

lemma numbers_in_use_run:
  "\<forall>x \<in> set xs. boards k x \<noteq> None \<Longrightarrow>
     numbers_in_use xs k = (Inr (map (\<lambda>x. board_number (the (boards k x))) xs), k)"
  by (induction xs) (auto simp: bind_def the_board_run)

lemma assign_number_run:
  assumes "board_ok k a b" "activation_level b = PROBED" "\<forall>x \<in> set (board_list k). boards k x \<noteq> None"
  shows "\<exists>r k'. assign_number a k = (Inr r, k') \<and> advanced a b k 0 r k' \<and>
    (r = 0 \<longrightarrow> (\<exists>b'. boards k' a = Some b' \<and>
       lowest_free (map (\<lambda>x. board_number (the (boards k x))) (board_list k)) = Some (board_number b')))"
proof -
  let ?ns = "map (\<lambda>x. board_number (the (boards k x))) (board_list k)"
  show ?thesis
  proof (cases "lowest_free ?ns")
    case None
    have "elsewhere a (pci_dev b) k k" "same_ident b b" by (simp_all add: same_ident_def)
    from advanced_fail [OF assms(1) this refl, where c = EBUSY and n = 0] assms(2)
    obtain k' where "fail_activate a EBUSY k = (Inr (- EBUSY), k')" "advanced a b k 0 (- EBUSY) k'" by (auto simp: PROBED_def)
    with None show ?thesis by (simp add: assign_number_lowest bind_def numbers_in_use_run [OF assms(3)])
  next
    case (Some n)
    let ?b1 = "b\<lparr>board_number := n\<rparr>"
    let ?k1 = "k\<lparr>boards := (boards k)(a \<mapsto> ?b1)\<rparr>"
    have b: "boards k a = Some b" using assms(1) by (simp add: board_ok_def)
    have "\<exists>k'. set_level a BOARD_NUM_ASSIGNED ?k1 = (Inr 0, k') \<and> advanced a b k 0 0 k'"
      by (rule advanced_level [where ?b1.0 = ?b1])
        (use assms(1,2) in \<open>auto simp: same_ident_def board_ok_def holds_upto_def levels\<close>)
    moreover have "snd (set_level a BOARD_NUM_ASSIGNED ?k1) = ?k1\<lparr>boards := (boards k)(a \<mapsto> ?b1\<lparr>activation_level := BOARD_NUM_ASSIGNED\<rparr>)\<rparr>"
      by (simp add: set_level_def andThen_def bind_def set_board_run)
    ultimately show ?thesis
      using Some by (auto simp: assign_number_lowest bind_def numbers_in_use_run [OF assms(3)] andThen_def
          set_board_run [OF b] levels)
  qed
qed

text \<open>The cases that only take something of the device.\<close>

lemma take_run:
  assumes "board_ok k a b" "activation_level b = n"
    and "m \<le> BLUENOC_ACTIVE" "PROBED < n" "m = Suc n"
    and "holds_upto m (uses_msix b) (f (pci k (pci_dev b)))"
    and "BARS_MAPPED \<le> m \<longrightarrow> bar0io b \<noteq> 0"
  shows "\<exists>k'. andThen (set_pci (pci_dev b) f) (set_level a m) k = (Inr 0, k') \<and> advanced a b k n 0 k'"
proof -
  let ?k1 = "k\<lparr>pci := (pci k)(pci_dev b := f (pci k (pci_dev b)))\<rparr>"
  have "\<exists>k'. set_level a m ?k1 = (Inr 0, k') \<and> advanced a b k n 0 k'"
    by (rule advanced_level [where ?b1.0 = b])
      (use assms in \<open>auto simp: board_ok_def same_ident_def elsewhere_def\<close>)
  then show ?thesis by (simp add: andThen_def bind_def set_pci_run)
qed

lemma fail_here:
  assumes "board_ok k a b" "activation_level b = n" "0 < c"
  shows "\<exists>k'. fail_activate a c k = (Inr (- c), k') \<and> advanced a b k n (- c) k'"
  using assms by (intro advanced_fail) (simp_all add: same_ident_def)

lemma enable_device_run:
  assumes "board_ok k a b" "activation_level b = BOARD_NUM_ASSIGNED"
  shows "\<exists>r k'. enable_device K a (pci_dev b) k = (Inr r, k') \<and> advanced a b k BOARD_NUM_ASSIGNED r k'"
  using fail_here [OF assms, of EFAULT] assms
    take_run [OF assms, where m = PCI_DEV_ENABLED and f = "\<lambda>p. p\<lparr>pd_enabled := True\<rparr>"]
  by (cases "k_enable_ok K") (auto simp: enable_device_def levels holds_upto_def board_ok_def)

lemma reserve_region_run:
  assumes "board_ok k a b" "activation_level b = PCI_DEV_ENABLED"
  shows "\<exists>r k'. reserve_region K a (pci_dev b) k = (Inr r, k') \<and> advanced a b k PCI_DEV_ENABLED r k'"
  using fail_here [OF assms, of EBUSY] assms
    take_run [OF assms, where m = BARS_ALLOCATED and f = "\<lambda>p. p\<lparr>pd_region := True\<rparr>"]
  by (cases "k_region_ok K") (auto simp: reserve_region_def levels holds_upto_def board_ok_def)

lemma install_irq_run:
  assumes "board_ok k a b" "activation_level b = MSI_ENABLED"
  shows "\<exists>r k'. install_irq K a (pci_dev b) k = (Inr r, k') \<and> advanced a b k MSI_ENABLED r k'"
  using fail_here [OF assms, of EBUSY] assms
    take_run [OF assms, where m = IRQ_ASSIGNED and f = "\<lambda>p. p\<lparr>pd_irq := True\<rparr>"]
  by (cases "k_request_irq_ok K") (auto simp: install_irq_def levels holds_upto_def board_ok_def)

lemma set_master_run:
  assumes "board_ok k a b" "activation_level b = MSIX_INITIALIZED"
  shows "\<exists>r k'. set_master a (pci_dev b) k = (Inr r, k') \<and> advanced a b k MSIX_INITIALIZED r k'"
  using assms take_run [OF assms, where m = PCI_BUS_MASTER and f = "\<lambda>p. p\<lparr>pd_master := True\<rparr>"]
  by (auto simp: set_master_def levels holds_upto_def board_ok_def)

lemma map_bar_run:
  assumes "board_ok k a b" "activation_level b = BARS_ALLOCATED"
  shows "\<exists>r k'. map_bar K a (pci_dev b) k = (Inr r, k') \<and> advanced a b k BARS_ALLOCATED r k'"
proof -
  let ?b1 = "b\<lparr>bar0io := k_iomap K\<rparr>"
  let ?k1 = "k\<lparr>boards := (boards k)(a \<mapsto> ?b1)\<rparr>"
  have b: "boards k a = Some b" using assms(1) by (simp add: board_ok_def)
  have ok: "board_ok ?k1 a ?b1" using assms by (simp add: board_ok_def levels)
  show ?thesis
  proof (cases "k_iomap K = 0")
    case True
    have "\<exists>k'. fail_activate a EFAULT ?k1 = (Inr (- EFAULT), k') \<and> advanced a b k BARS_ALLOCATED (- EFAULT) k'"
      by (rule advanced_fail [OF ok]) (simp_all add: same_ident_def assms(2))
    with True show ?thesis by (auto simp: map_bar_def andThen_def bind_def set_board_run [OF b])
  next
    case False
    let ?k2 = "?k1\<lparr>pci := (pci ?k1)(pci_dev b := (pci ?k1 (pci_dev b))\<lparr>pd_mapped := True\<rparr>)\<rparr>"
    have "\<exists>k'. set_level a BARS_MAPPED ?k2 = (Inr 0, k') \<and> advanced a b k BARS_ALLOCATED 0 k'"
      by (rule advanced_level [where ?b1.0 = ?b1])
        (use assms False in \<open>auto simp: same_ident_def elsewhere_def board_ok_def holds_upto_def levels\<close>)
    with False show ?thesis
      by (auto simp: map_bar_def andThen_def bind_def set_board_run [OF b] set_pci_run levels)
  qed
qed

text \<open>The cases that access registers.\<close>

lemma unmask_msix_run:
  assumes "board_ok k a b" "activation_level b = IRQ_ASSIGNED"
  shows "\<exists>r k'. unmask_msix a (uses_msix b) k = (Inr r, k') \<and> advanced a b k IRQ_ASSIGNED r k'"
proof -
  have b: "boards k a = Some b" "bar0io b \<noteq> 0" "pd_mapped (pci k (pci_dev b))"
    using assms by (auto simp: board_ok_def holds_upto_def levels)
  let ?k1 = "if uses_msix b then k\<lparr>accesses := accesses k + 1,
      writes := writes k @ [(pci_dev b, 16396, 4, 0)]\<rparr> else k"
  have "\<exists>k'. set_level a MSIX_INITIALIZED ?k1 = (Inr 0, k') \<and> advanced a b k IRQ_ASSIGNED 0 k'"
    by (rule advanced_level [where ?b1.0 = b])
      (use assms in \<open>auto simp: same_ident_def board_ok_def holds_upto_def levels\<close>)
  then show ?thesis
    by (auto simp: unmask_msix_def andThen_def bind_def iowrite32_def iowrite_run [OF b])
qed

lemma start_network_run:
  assumes "board_ok k a b" "activation_level b = PCI_BUS_MASTER"
  shows "\<exists>r k'. start_network a k = (Inr r, k') \<and> advanced a b k PCI_BUS_MASTER r k'"
proof -
  have b: "boards k a = Some b" "bar0io b \<noteq> 0" "pd_mapped (pci k (pci_dev b))"
    using assms by (auto simp: board_ok_def holds_upto_def levels)
  let ?k1 = "k\<lparr>accesses := accesses k + 1, writes := writes k @ [(pci_dev b, 257, 1, 1)]\<rparr>"
  have "\<exists>k'. set_level a BLUENOC_ACTIVE ?k1 = (Inr 0, k') \<and> advanced a b k PCI_BUS_MASTER 0 k'"
    by (rule advanced_level [where ?b1.0 = b])
      (use assms in \<open>auto simp: same_ident_def board_ok_def holds_upto_def levels\<close>)
  then show ?thesis
    by (auto simp: start_network_def andThen_def bind_def iowrite8_def iowrite_run [OF b])
qed

lemma update_status_run:
  assumes "boards k a = Some b" "bar0io b \<noteq> 0" "pd_mapped (pci k (pci_dev b))"
  shows "update_dma_buffer_status K a k =
    (Inr (), k\<lparr>accesses := accesses k + 1,
       boards := (boards k)(a \<mapsto> decode_status (join (k_reg K (pci_dev b) (accesses k + 1) 2048)
          (k_reg K (pci_dev b) (accesses k + 1) 2052)) b)\<rparr>)"
  using assms(1)
  by (simp add: update_dma_buffer_status_def bind_def readq_run [OF assms] set_board_run)

lemma decode_status_keeps [simp]:
  "pci_dev (decode_status st b) = pci_dev b" "activation_level (decode_status st b) = activation_level b"
  "uses_msix (decode_status st b) = uses_msix b" "bar0io (decode_status st b) = bar0io b"
  "board_number (decode_status st b) = board_number b" "debug_level (decode_status st b) = debug_level b"
  "read_mutex (decode_status st b) = read_mutex b" "write_mutex (decode_status st b) = write_mutex b"
  "magic_num (decode_status st b) = magic_num b"
  by (simp_all add: decode_status_def)

lemma set_dma_mask_run:
  assumes "board_ok k a b" "activation_level b = MAGIC_MATCH"
  shows "\<exists>r k'. set_dma_mask K a k = (Inr r, k') \<and> advanced a b k MAGIC_MATCH r k'"
proof (cases "k_mask_ok K")
  case False
  then show ?thesis using fail_here [OF assms, of EIO] by (auto simp: set_dma_mask_def)
next
  case True
  have b: "boards k a = Some b" "bar0io b \<noteq> 0" "pd_mapped (pci k (pci_dev b))"
    using assms by (auto simp: board_ok_def holds_upto_def levels)
  obtain k1 st where k1: "update_dma_buffer_status K a k = (Inr (), k1)"
      "k1 = k\<lparr>accesses := accesses k + 1, boards := (boards k)(a \<mapsto> decode_status st b)\<rparr>"
    using update_status_run [OF b] by blast
  have "\<exists>k'. set_level a DMA_MASK_SET k1 = (Inr 0, k') \<and> advanced a b k MAGIC_MATCH 0 k'"
    unfolding k1(2)
    by (rule advanced_level [where ?b1.0 = "decode_status st b"])
      (use assms in \<open>auto simp: same_ident_def board_ok_def holds_upto_def elsewhere_def levels\<close>)
  then show ?thesis using True k1(1) by (auto simp: set_dma_mask_def andThen_def bind_def)
qed

lemma enable_msi_run:
  assumes "board_ok k a b" "activation_level b = DMA_MASK_SET"
  shows "\<exists>r k'. enable_msi K a (pci_dev b) k = (Inr r, k') \<and> advanced a b k DMA_MASK_SET r k'"
proof -
  have b: "boards k a = Some b" using assms by (simp add: board_ok_def)
  have up: "\<exists>k'. set_level a MSI_ENABLED (k\<lparr>pci := (pci k)(pci_dev b := p),
        boards := (boards k)(a \<mapsto> b\<lparr>uses_msix := m, irq_num := i\<rparr>)\<rparr>) = (Inr 0, k')
      \<and> advanced a b k DMA_MASK_SET 0 k'"
    if "holds_upto MSI_ENABLED m p" for m i p
    by (rule advanced_level [where ?b1.0 = "b\<lparr>uses_msix := m, irq_num := i\<rparr>"])
      (use assms that in \<open>auto simp: same_ident_def board_ok_def elsewhere_def levels\<close>)
  have "holds_upto MSI_ENABLED False ((pci k (pci_dev b))\<lparr>pd_msi := True\<rparr>)"
    "holds_upto MSI_ENABLED True ((pci k (pci_dev b))\<lparr>pd_msix := True\<rparr>)"
    using assms by (auto simp: board_ok_def holds_upto_def levels)
  note up [OF this(1), of "k_pci_irq K"] up [OF this(2), of "k_msix_vector K"]
  moreover obtain k' where "fail_activate a EFAULT k = (Inr (- EFAULT), k')" "advanced a b k DMA_MASK_SET (- EFAULT) k'"
    using fail_here [OF assms, of EFAULT] by auto
  ultimately show ?thesis
    by (cases "k_msi_ok K"; cases "k_msix_ok K")
      (auto simp: enable_msi_def andThen_def bind_def set_pci_run set_board_run [of _ a b] b)
qed

lemma check_magic_run:
  assumes "board_ok k a b" "activation_level b = BARS_MAPPED"
  shows "\<exists>r k'. check_magic K a k = (Inr r, k') \<and> advanced a b k BARS_MAPPED r k'"
proof -
  have b: "boards k a = Some b" "bar0io b \<noteq> 0" "pd_mapped (pci k (pci_dev b))"
    using assms by (auto simp: board_ok_def holds_upto_def levels)
  define magic where "magic = join (k_reg K (pci_dev b) (accesses k + 1) 0) (k_reg K (pci_dev b) (accesses k + 1) 4)"
  let ?b1 = "b\<lparr>magic_num := magic\<rparr>"
  let ?k1 = "k\<lparr>accesses := accesses k + 1, boards := (boards k)(a \<mapsto> ?b1)\<rparr>"
  have k1: "boards ?k1 a = Some ?b1" "bar0io ?b1 \<noteq> 0" "pd_mapped (pci ?k1 (pci_dev ?b1))"
    using b by simp_all
  have magic: "readq K a 0 k = (Inr magic, k\<lparr>accesses := accesses k + 1\<rparr>)"
    using readq_run [OF b, of K 0] by (simp add: magic_def)
  have ok: "board_ok ?k1 a ?b1" using assms by (simp add: board_ok_def)
  show ?thesis
  proof (cases "magic = EXPECTED_MAGIC")
    case False
    have "\<exists>k'. fail_activate a EINVAL ?k1 = (Inr (- EINVAL), k') \<and> advanced a b k BARS_MAPPED (- EINVAL) k'"
      by (rule advanced_fail [OF ok]) (simp_all add: same_ident_def elsewhere_def assms(2))
    with False show ?thesis by (auto simp: check_magic_def bind_def andThen_def magic set_board_run b)
  next
    case True
    have io: "boards (?k1\<lparr>accesses := n\<rparr>) a = Some ?b1" "pd_mapped (pci (?k1\<lparr>accesses := n\<rparr>) (pci_dev ?b1))" for n
      using k1 by simp_all
    obtain ma mi bv ts nn cid n where run: "check_magic K a k =
        andThen (set_board a (\<lambda>b. b\<lparr>major_rev := ma, minor_rev := mi, build := bv, timestamp := ts,
                       bytes_per_beat := nn AND 0xff, content_id := cid\<rparr>))
          (set_level a MAGIC_MATCH) (?k1\<lparr>accesses := n\<rparr>)"
      using True b by (simp add: check_magic_def bind_def andThen_def magic set_board_run ioread32_run readq_run)
    let ?b2 = "?b1\<lparr>major_rev := ma, minor_rev := mi, build := bv, timestamp := ts,
                       bytes_per_beat := nn AND 0xff, content_id := cid\<rparr>"
    let ?k2 = "?k1\<lparr>accesses := n, boards := (boards k)(a \<mapsto> ?b2)\<rparr>"
    have "\<exists>k'. set_level a MAGIC_MATCH ?k2 = (Inr 0, k') \<and> advanced a b k BARS_MAPPED 0 k'"
      by (rule advanced_level [where ?b1.0 = ?b2])
        (use assms in \<open>auto simp: same_ident_def board_ok_def holds_upto_def elsewhere_def levels\<close>)
    then show ?thesis unfolding run by (auto simp: andThen_def bind_def set_board_run)
  qed
qed

lemma activate_case_run:
  assumes "board_ok k a b" "activation_level b = n" "PROBED < n" "n < BLUENOC_ACTIVE"
  shows "\<exists>r k'. activate_case K a n k = (Inr r, k') \<and> advanced a b k n r k'"
proof -
  have b: "the_board a k = (Inr b, k)" using assms(1) by (simp add: board_ok_def the_board_run)
  have "n \<le> 10" using assms(4) by (simp add: levels)
  from upto_ten [OF this] show ?thesis
  proof (elim disjE)
    assume "n = 0" then show ?thesis using assms(3) by (simp add: levels)
  next
    assume "n = 1" then show ?thesis using enable_device_run [OF assms(1)] assms(2) b
      by (simp add: activate_case_def bind_def levels)
  next
    assume "n = 2" then show ?thesis using reserve_region_run [OF assms(1)] assms(2) b
      by (simp add: activate_case_def bind_def levels)
  next
    assume "n = 3" then show ?thesis using map_bar_run [OF assms(1)] assms(2) b
      by (simp add: activate_case_def bind_def levels)
  next
    assume "n = 4" then show ?thesis using check_magic_run [OF assms(1)] assms(2) b
      by (simp add: activate_case_def bind_def levels)
  next
    assume "n = 5" then show ?thesis using set_dma_mask_run [OF assms(1)] assms(2) b
      by (simp add: activate_case_def bind_def levels)
  next
    assume "n = 6" then show ?thesis using enable_msi_run [OF assms(1)] assms(2) b
      by (simp add: activate_case_def bind_def levels)
  next
    assume "n = 7" then show ?thesis using install_irq_run [OF assms(1)] assms(2) b
      by (simp add: activate_case_def bind_def levels)
  next
    assume "n = 8" then show ?thesis using unmask_msix_run [OF assms(1)] assms(2) b
      by (simp add: activate_case_def bind_def levels)
  next
    assume "n = 9" then show ?thesis using set_master_run [OF assms(1)] assms(2) b
      by (simp add: activate_case_def bind_def levels)
  next
    assume "n = 10" then show ?thesis using start_network_run [OF assms(1)] assms(2) b
      by (simp add: activate_case_def bind_def levels)
  qed
qed

text \<open>The end of an activation that starts above level 0.\<close>

definition settled :: "nat \<Rightarrow> board \<Rightarrow> kernel \<Rightarrow> int \<Rightarrow> kernel \<Rightarrow> bool" where
  "settled a b k r k' \<longleftrightarrow> elsewhere a (pci_dev b) k k' \<and>
     (\<exists>b'. board_ok k' a b' \<and> same_ident b b' \<and> board_number b' = board_number b \<and>
        (r = 0 \<and> activation_level b' = BLUENOC_ACTIVE \<or> r < 0 \<and> activation_level b' = 1))"

lemma activate_from_run:
  assumes "n \<le> BLUENOC_ACTIVE" "PROBED < n" "board_ok k a b" "activation_level b = n"
  shows "\<exists>r k'. activate_from K a [n..<BLUENOC_ACTIVE] k = (Inr r, k') \<and> settled a b k r k'"
  using assms
proof (induction arbitrary: k b rule: inc_induct)
  case base
  then show ?case by (auto simp: settled_def same_ident_def)
next
  case (step n)
  obtain r k1 where 1: "activate_case K a n k = (Inr r, k1)" "advanced a b k n r k1"
    using activate_case_run [OF step.prems(2,3,1) step.hyps(2), where K = K] by blast
  obtain b1 where b1: "board_ok k1 a b1" "same_ident b b1" "board_number b1 = board_number b"
      "r = 0 \<and> activation_level b1 = Suc n \<or> r < 0 \<and> activation_level b1 = 1"
    using 1(2) step.prems(1) by (auto simp: advanced_def PROBED_def)
  have e1: "elsewhere a (pci_dev b) k k1" using 1(2) by (simp add: advanced_def)
  have dev: "pci_dev b1 = pci_dev b" using b1(2) by (simp add: same_ident_def)
  have list: "[n..<BLUENOC_ACTIVE] = n # [Suc n..<BLUENOC_ACTIVE]" using step.hyps by (simp add: upt_conv_Cons)
  show ?case
  proof (cases "r = 0")
    case False
    then have "settled a b k r k1" using b1 e1 unfolding settled_def by blast
    with False 1(1) show ?thesis unfolding list by (simp add: bind_def)
  next
    case True
    then have "activation_level b1 = Suc n" using b1(4) by simp
    then obtain r2 k2 where 2: "activate_from K a [Suc n..<BLUENOC_ACTIVE] k1 = (Inr r2, k2)"
        "settled a b1 k1 r2 k2"
      using step.IH [OF _ b1(1)] by (auto simp: PROBED_def)
    have "settled a b k r2 k2"
      using 2(2) e1 b1(2,3) dev same_ident_trans elsewhere_trans unfolding settled_def by metis
    with 2(1) True 1(1) show ?thesis unfolding list by (simp add: bind_def)
  qed
qed

lemma activate_run:
  assumes "board_ok k a b" "PROBED < activation_level b"
  shows "\<exists>r k'. activate K (Some a) k = (Inr r, k') \<and> settled a b k r k'"
proof -
  have "the_board a k = (Inr b, k)" "activation_level b \<le> BLUENOC_ACTIVE"
    using assms(1) by (simp_all add: board_ok_def the_board_run)
  then show ?thesis
    using activate_from_run [OF _ assms(2,1) refl] by (simp add: activate_def bind_def)
qed

text \<open>From level 0 the board also gets its number, the lowest one no board has.\<close>

lemma activate_new_run:
  assumes "board_ok k a b" "activation_level b = PROBED" "\<forall>x \<in> set (board_list k). boards k x \<noteq> None"
  shows "\<exists>r k' b'. activate K (Some a) k = (Inr r, k') \<and> elsewhere a (pci_dev b) k k' \<and> board_ok k' a b' \<and>
    same_ident b b' \<and> (r = 0 \<and> activation_level b' = BLUENOC_ACTIVE \<or> r < 0 \<and> activation_level b' \<le> 1) \<and>
    (r = 0 \<longrightarrow> lowest_free (map (\<lambda>x. board_number (the (boards k x))) (board_list k)) = Some (board_number b'))"
proof -
  have b: "the_board a k = (Inr b, k)" using assms(1) by (simp add: board_ok_def the_board_run)
  have list: "[0..<BLUENOC_ACTIVE] = 0 # [Suc 0..<BLUENOC_ACTIVE]" by (simp add: levels upt_conv_Cons)
  obtain r1 k1 where 1: "assign_number a k = (Inr r1, k1)" "advanced a b k 0 r1 k1"
    "r1 = 0 \<longrightarrow> (\<exists>b'. boards k1 a = Some b' \<and>
       lowest_free (map (\<lambda>x. board_number (the (boards k x))) (board_list k)) = Some (board_number b'))"
    using assign_number_run [OF assms] by blast
  obtain b1 where b1: "board_ok k1 a b1" "same_ident b b1"
      "r1 = 0 \<and> activation_level b1 = Suc 0 \<or> r1 < 0 \<and> activation_level b1 \<le> 1"
    using 1(2) by (auto simp: advanced_def)
  have e1: "elsewhere a (pci_dev b) k k1" using 1(2) by (simp add: advanced_def)
  have dev: "pci_dev b1 = pci_dev b" using b1(2) by (simp add: same_ident_def)
  have start: "activate K (Some a) k =
      (if r1 \<noteq> 0 then (Inr r1, k1) else activate_from K a [Suc 0..<BLUENOC_ACTIVE] k1)"
    using 1(1) assms(2) b unfolding activate_def option.case bind_def b prod.case sum.case
    by (simp add: PROBED_def list bind_def b activate_case_def)
  show ?thesis
  proof (cases "r1 = 0")
    case False
    then show ?thesis using start b1 e1 by auto
  next
    case True
    then have "activation_level b1 = Suc 0" using b1(3) by simp
    then obtain r2 k2 where 2: "activate_from K a [Suc 0..<BLUENOC_ACTIVE] k1 = (Inr r2, k2)"
        "settled a b1 k1 r2 k2"
      using activate_from_run [OF _ _ b1(1), where n = "Suc 0" and K = K] by (auto simp: levels)
    obtain b2 where b2: "board_ok k2 a b2" "same_ident b1 b2" "board_number b2 = board_number b1"
        "r2 = 0 \<and> activation_level b2 = BLUENOC_ACTIVE \<or> r2 < 0 \<and> activation_level b2 \<le> 1"
      using 2(2) by (auto simp: settled_def)
    have num: "lowest_free (map (\<lambda>x. board_number (the (boards k x))) (board_list k)) = Some (board_number b2)"
      using 1(3) True b1(1) b2(3) by (auto simp: board_ok_def)
    have "elsewhere a (pci_dev b) k k2" using e1 2(2) dev elsewhere_trans unfolding settled_def by metis
    moreover have "same_ident b b2" using b1(2) b2(2) same_ident_trans by blast
    ultimately show ?thesis
      unfolding start using True 2(1) b2 num by (intro exI [of _ r2] exI [of _ k2] exI [of _ b2]) simp
  qed
qed

end
