(* ===== verification/Bluenoc_Driver.thy ===== *)
theory Bluenoc_Driver
  imports Bluenoc_Board
begin

text \<open>
  The bluenoc driver as a whole: what holds of its list of boards, of the memory it has
  allocated and of the PCI devices between any two of its operations
  (\<^verbatim>\<open>drivers/linux/platforms/bluenoc-pcie/driver/bluenoc.c\<close>: probe, remove, open,
  release, the interrupt handler, and the two ioctls that deactivate and reactivate a board).
\<close>

section \<open>The driver's invariant\<close>

definition num_of :: "kernel \<Rightarrow> nat \<Rightarrow> nat" where
  "num_of k a = board_number (the (boards k a))"

definition dev_of :: "kernel \<Rightarrow> nat \<Rightarrow> nat" where
  "dev_of k a = pci_dev (the (boards k a))"

definition idle :: "pci_state \<Rightarrow> bool" where
  "idle p \<longleftrightarrow> \<not> pd_enabled p \<and> \<not> pd_region p \<and> \<not> pd_mapped p \<and> \<not> pd_msi p \<and> \<not> pd_msix p \<and>
     \<not> pd_irq p \<and> \<not> pd_master p"

text \<open>A listed board has a number and holds what its level says.\<close>

definition listed_ok :: "kernel \<Rightarrow> nat \<Rightarrow> bool" where
  "listed_ok k a \<longleftrightarrow> a < fresh k \<and> board_ok k a (the (boards k a)) \<and>
     BOARD_NUM_ASSIGNED \<le> activation_level (the (boards k a)) \<and> num_of k a \<in> {1..NUM_BOARDS}"

text \<open>
  Exactly the boards of the list are allocated, no two of them share a number or a device,
  devices without a board are idle, and the device files are those of the boards.
\<close>

definition driver_ok :: "kernel \<Rightarrow> bool" where
  "driver_ok k \<longleftrightarrow>
     distinct (board_list k) \<and> dom (boards k) = set (board_list k) \<and>
     (\<forall>a \<in> set (board_list k). listed_ok k a) \<and>
     inj_on (num_of k) (set (board_list k)) \<and> inj_on (dev_of k) (set (board_list k)) \<and>
     (\<forall>d. d \<notin> dev_of k ` set (board_list k) \<longrightarrow> idle (pci k d)) \<and>
     nodes k = num_of k ` set (board_list k) \<and> cdevs k = num_of k ` set (board_list k) \<and>
     (board_list k \<noteq> [] \<longrightarrow> class_created k)"

lemma idle_holds: "holds_upto 0 m p = idle p"
  by (auto simp: holds_upto_def idle_def levels)

lemma driver_okD:
  assumes "driver_ok k"
  shows "distinct (board_list k)" "dom (boards k) = set (board_list k)"
    "inj_on (num_of k) (set (board_list k))" "inj_on (dev_of k) (set (board_list k))"
    "nodes k = num_of k ` set (board_list k)" "cdevs k = num_of k ` set (board_list k)"
    "board_list k \<noteq> [] \<longrightarrow> class_created k"
  using assms by (simp_all add: driver_ok_def)

lemma driver_listed: "driver_ok k \<Longrightarrow> a \<in> set (board_list k) \<Longrightarrow> listed_ok k a"
  by (simp add: driver_ok_def)

lemma driver_idle: "driver_ok k \<Longrightarrow> d \<notin> dev_of k ` set (board_list k) \<Longrightarrow> idle (pci k d)"
  by (simp add: driver_ok_def)

lemma listed_board:
  assumes "driver_ok k" "a \<in> set (board_list k)"
  obtains b where "boards k a = Some b" "board_ok k a b" "BOARD_NUM_ASSIGNED \<le> activation_level b"
    "num_of k a = board_number b" "dev_of k a = pci_dev b" "board_number b \<in> {1..NUM_BOARDS}"
  using driver_listed [OF assms] by (auto simp: listed_ok_def board_ok_def num_of_def dev_of_def)

text \<open>An operation on one listed board that keeps its number and device keeps the invariant.\<close>

lemma driver_ok_board_step:
  assumes "driver_ok k" "boards k a = Some b" "elsewhere a (pci_dev b) k k'"
    and "board_ok k' a b'" "pci_dev b' = pci_dev b" "board_number b' = board_number b"
    and "BOARD_NUM_ASSIGNED \<le> activation_level b'"
  shows "driver_ok k'"
proof -
  have a: "a \<in> set (board_list k)" using assms(1,2) by (auto simp: driver_ok_def)
  have b': "boards k' a = Some b'" using assms(4) by (simp add: board_ok_def)
  have eq: "boards k' x = boards k x" if "x \<noteq> a" for x using assms(3) that by (simp add: elsewhere_def)
  have heap: "boards k' = (boards k)(a \<mapsto> b')" using eq b' by (auto simp: fun_eq_iff)
  have num: "num_of k' = num_of k" and dev: "dev_of k' = dev_of k"
    using assms(2,5,6) by (auto simp: heap num_of_def dev_of_def fun_eq_iff)
  have dom: "dom (boards k') = dom (boards k)" using assms(2) by (auto simp: heap)
  have same: "board_list k' = board_list k" "fresh k' = fresh k" "nodes k' = nodes k" "cdevs k' = cdevs k"
    "class_created k' = class_created k" using assms(3) by (simp_all add: elsewhere_def)
  have pci: "pci k' d = pci k d" if "d \<noteq> dev_of k a" for d
    using assms(2,3) that by (simp add: elsewhere_def dev_of_def)
  have "listed_ok k' x" if "x \<in> set (board_list k)" for x
  proof (cases "x = a")
    case True
    then show ?thesis
      using assms(2,4,7) b' driver_listed [OF assms(1) that] by (simp add: listed_ok_def num same)
  next
    case False
    then have "dev_of k x \<noteq> dev_of k a" using driver_okD(4) [OF assms(1)] a that by (auto dest: inj_onD)
    then show ?thesis
      using driver_listed [OF assms(1) that] pci eq [OF False]
      by (simp add: listed_ok_def num same board_ok_def dev_of_def)
  qed
  moreover have "idle (pci k' d)" if "d \<notin> dev_of k ` set (board_list k)" for d
  proof -
    have "d \<noteq> dev_of k a" using a that by blast
    then show ?thesis using driver_idle [OF assms(1) that] pci by simp
  qed
  ultimately show ?thesis using driver_okD [OF assms(1)] by (simp add: driver_ok_def same num dev dom)
qed

section \<open>Deactivating and reactivating\<close>

lemma deactivate_keeps:
  assumes "driver_ok k" "a \<in> set (board_list k)"
  shows "\<exists>k'. deactivate (Some a) k = (Inr (), k') \<and> driver_ok k' \<and> idle (pci k' (dev_of k a)) \<and>
    elsewhere a (dev_of k a) k k' \<and> (\<exists>b'. boards k' a = Some b' \<and> pci_dev b' = dev_of k a \<and> board_number b' = num_of k a)"
proof -
  obtain b where b: "boards k a = Some b" "board_ok k a b" "BOARD_NUM_ASSIGNED \<le> activation_level b"
      "num_of k a = board_number b" "dev_of k a = pci_dev b"
    using listed_board [OF assms] by metis
  obtain k' b' where k': "deactivate (Some a) k = (Inr (), k')" "elsewhere a (pci_dev b) k k'"
      "board_ok k' a b'" "b' = b\<lparr>activation_level := min 1 (activation_level b)\<rparr>"
    using deactivate_ok [OF b(2)] by blast
  have "driver_ok k'"
    by (rule driver_ok_board_step [OF assms(1) b(1) k'(2,3)]) (use k'(4) b(3) in \<open>simp_all add: levels\<close>)
  moreover have "holds_upto 0 (uses_msix b') (pci k' (pci_dev b))"
    using k'(3,4) holds_low [of "activation_level b'"] by (simp add: board_ok_def)
  ultimately show ?thesis using k' b(4,5) by (auto simp: idle_holds board_ok_def)
qed

lemma activate_keeps:
  assumes "driver_ok k" "a \<in> set (board_list k)"
  shows "\<exists>r k'. activate K (Some a) k = (Inr r, k') \<and> driver_ok k' \<and> elsewhere a (dev_of k a) k k' \<and>
    (r = 0 \<and> activation_level (the (boards k' a)) = BLUENOC_ACTIVE \<or> r < 0 \<and> idle (pci k' (dev_of k a)))"
proof -
  obtain b where b: "boards k a = Some b" "board_ok k a b" "BOARD_NUM_ASSIGNED \<le> activation_level b"
      "dev_of k a = pci_dev b"
    using listed_board [OF assms] by metis
  have "PROBED < activation_level b" using b(3) by (simp add: levels)
  from activate_run [OF b(2) this]
  obtain r k' where k': "activate K (Some a) k = (Inr r, k')" "settled a b k r k'" by blast
  then obtain b' where b': "board_ok k' a b'" "same_ident b b'" "board_number b' = board_number b"
      "elsewhere a (pci_dev b) k k'"
      "r = 0 \<and> activation_level b' = BLUENOC_ACTIVE \<or> r < 0 \<and> activation_level b' = 1"
    by (auto simp: settled_def)
  have dev: "pci_dev b' = pci_dev b" using b'(2) by (simp add: same_ident_def)
  have "BOARD_NUM_ASSIGNED \<le> activation_level b'" using b'(5) by (auto simp: levels)
  then have "driver_ok k'" by (rule driver_ok_board_step [OF assms(1) b(1) b'(4,1) dev b'(3)])
  moreover have "idle (pci k' (pci_dev b))" if "activation_level b' = 1"
    using b'(1) that dev holds_low [of 1] idle_holds by (simp add: board_ok_def)
  ultimately show ?thesis using k'(1) b' b(4) by (auto simp: board_ok_def)
qed

section \<open>Probing and removing\<close>

lemma lowest_free_Some:
  assumes "lowest_free ns = Some n"
  shows "n \<notin> set ns" "n \<in> {1..NUM_BOARDS}" "\<forall>m \<in> {1..<n}. m \<in> set ns"
proof -
  obtain i where i: "i < NUM_BOARDS" "[1..<Suc NUM_BOARDS] ! i \<notin> set ns" "n = [1..<Suc NUM_BOARDS] ! i"
      "\<forall>j < i. [1..<Suc NUM_BOARDS] ! j \<in> set ns"
    using assms by (auto simp: lowest_free_def find_Some_iff simp del: upt_Suc)
  have n: "n = Suc i" using i(1,3) by (simp del: upt_Suc)
  show "n \<notin> set ns" "n \<in> {1..NUM_BOARDS}" using i n by (simp_all del: upt_Suc)
  show "\<forall>m \<in> {1..<n}. m \<in> set ns"
  proof
    fix m assume "m \<in> {1..<n}"
    then have "m - 1 < i" "[1..<Suc NUM_BOARDS] ! (m - 1) = m" using n i(1) by (auto simp del: upt_Suc)
    then show "m \<in> set ns" using i(4) by metis
  qed
qed

lemma lowest_free_unassigned [simp]: "lowest_free (UNASSIGNED # ns) = lowest_free ns"
proof -
  have "find (\<lambda>n. n \<notin> set (UNASSIGNED # ns)) xs = find (\<lambda>n. n \<notin> set ns) xs" if "0 \<notin> set xs" for xs :: "nat list"
    using that by (induction xs) (auto simp: UNASSIGNED_def)
  from this [of "[1..<Suc NUM_BOARDS]"] show ?thesis unfolding lowest_free_def by simp
qed

text \<open>The kernel after a failed probe: as before, apart from an unused address.\<close>

lemma driver_ok_restored:
  assumes "driver_ok k" "d \<notin> dev_of k ` set (board_list k)"
    and "boards k' = boards k" "board_list k' = board_list k" "nodes k' = nodes k" "cdevs k' = cdevs k"
    and "fresh k \<le> fresh k'" "class_created k'" "\<forall>e. e \<noteq> d \<longrightarrow> pci k' e = pci k e" "idle (pci k' d)"
  shows "driver_ok k'"
proof -
  have num: "num_of k' = num_of k" and dev: "dev_of k' = dev_of k"
    using assms(3) by (simp_all add: num_of_def dev_of_def fun_eq_iff)
  have "listed_ok k' x" if "x \<in> set (board_list k)" for x
  proof -
    have "dev_of k x \<noteq> d" using assms(2) that by blast
    then show ?thesis using driver_listed [OF assms(1) that] assms(3,7,9)
      by (auto simp: listed_ok_def num board_ok_def dev_of_def)
  qed
  moreover have "idle (pci k' e)" if "e \<notin> dev_of k ` set (board_list k)" for e
    using driver_idle [OF assms(1) that] assms(9,10) by (cases "e = d") auto
  ultimately show ?thesis using driver_okD [OF assms(1)] assms(3-6,8)
    by (simp add: driver_ok_def num dev)
qed

text \<open>The kernel after a successful probe: one more board, at the head of the list.\<close>

lemma driver_ok_added:
  assumes ok: "driver_ok k" and d: "d \<notin> dev_of k ` set (board_list k)" and a: "a = fresh k"
    and heap: "boards k' = (boards k)(a \<mapsto> b)" and list: "board_list k' = a # board_list k"
    and nodes: "nodes k' = insert (board_number b) (nodes k)" "cdevs k' = insert (board_number b) (cdevs k)"
    and fresh: "fresh k' = Suc (fresh k)" "class_created k'"
    and pci: "\<forall>e. e \<noteq> d \<longrightarrow> pci k' e = pci k e"
    and b: "board_ok k' a b" "pci_dev b = d" "BOARD_NUM_ASSIGNED \<le> activation_level b"
    and n: "lowest_free (map (num_of k) (board_list k)) = Some (board_number b)"
  shows "driver_ok k'"
proof -
  have free: "a \<notin> set (board_list k)" using driver_listed [OF ok, of a] a by (auto simp: listed_ok_def)
  then have num: "num_of k' x = num_of k x" and dev: "dev_of k' x = dev_of k x" if "x \<in> set (board_list k)" for x
    using that heap by (auto simp: num_of_def dev_of_def)
  have na: "num_of k' a = board_number b" "dev_of k' a = d" using heap b(2) by (simp_all add: num_of_def dev_of_def)
  have img: "num_of k' ` set (board_list k) = num_of k ` set (board_list k)"
    "dev_of k' ` set (board_list k) = dev_of k ` set (board_list k)"
    using num dev by (auto simp: image_iff)
  have inj: "inj_on (num_of k') (set (board_list k))" "inj_on (dev_of k') (set (board_list k))"
    using driver_okD(3,4) [OF ok] num dev by (simp_all cong: inj_on_cong)
  have new: "board_number b \<notin> num_of k ` set (board_list k)" using lowest_free_Some(1) [OF n] by simp
  have "listed_ok k' x" if x: "x \<in> set (board_list k)" for x
  proof -
    have "dev_of k x \<noteq> d" "x \<noteq> a" using d x free by auto
    then show ?thesis using driver_listed [OF ok x] heap pci num [OF x] fresh(1)
      by (auto simp: listed_ok_def board_ok_def dev_of_def)
  qed
  moreover have "listed_ok k' a"
    using b heap na lowest_free_Some(2) [OF n] fresh(1) a by (simp add: listed_ok_def)
  moreover have "idle (pci k' e)" if "e \<notin> dev_of k ` set (board_list k)" "e \<noteq> d" for e
    using driver_idle [OF ok that(1)] pci that(2) by simp
  moreover have "dom (boards k') = insert a (set (board_list k))" using heap driver_okD(2) [OF ok] by simp
  ultimately show ?thesis
    using driver_okD [OF ok] free inj new d fresh(2) nodes na img by (simp add: driver_ok_def list)
qed

text \<open>\<^term>\<open>bluenoc_probe\<close> up to the activation of the new board.\<close>

definition probed :: "board \<Rightarrow> nat \<Rightarrow> kernel \<Rightarrow> kernel" where
  "probed junk d k = k\<lparr>fresh := fresh k + 1, class_created := True,
     boards := (boards k)(fresh k \<mapsto> new_board junk d), board_list := fresh k # board_list k\<rparr>"

lemma probed_board:
  assumes "driver_ok k" "d \<notin> dev_of k ` set (board_list k)"
  shows "board_ok (probed junk d k) (fresh k) (new_board junk d)"
proof -
  have "holds_upto 0 (uses_msix junk) (pci k d)" using driver_idle [OF assms] by (simp add: idle_holds)
  then show ?thesis by (simp add: board_ok_def probed_def new_board_def levels)
qed

lemma probed_numbers:
  assumes "driver_ok k"
  shows "lowest_free (map (\<lambda>x. board_number (the (boards (probed junk d k) x))) (board_list (probed junk d k))) =
    lowest_free (map (num_of k) (board_list k))"
proof -
  have "fresh k \<notin> set (board_list k)" using driver_listed [OF assms, of "fresh k"] by (auto simp: listed_ok_def)
  then have "map (\<lambda>x. board_number (the (boards (probed junk d k) x))) (board_list (probed junk d k)) =
      UNASSIGNED # map (num_of k) (board_list k)"
    by (auto simp: probed_def new_board_def num_of_def)
  then show ?thesis by simp
qed

text \<open>The exit of a failed probe: the board leaves the list and is freed.\<close>

definition unlisted :: "nat \<Rightarrow> kernel \<Rightarrow> kernel" where
  "unlisted a k = k\<lparr>board_list := tl (board_list k), boards := (boards k)(a := None)\<rparr>"

lemma probe_undone:
  assumes ok: "driver_ok k" and d: "d \<notin> dev_of k ` set (board_list k)"
    and k1: "elsewhere (fresh k) d (probed junk d k) k1" and k2: "k2 = k1 \<or> k2 = k1\<lparr>open_count := c\<rparr>"
    and k3: "elsewhere (fresh k) d k2 k3" "board_ok k3 (fresh k) b" "pci_dev b = d" "activation_level b \<le> 1"
  shows "driver_ok (unlisted (fresh k) k3) \<and> board_list (unlisted (fresh k) k3) = board_list k \<and>
    boards (unlisted (fresh k) k3) = boards k \<and> idle (pci (unlisted (fresh k) k3) d) \<and>
    nodes (unlisted (fresh k) k3) = nodes k"
proof -
  let ?k = "unlisted (fresh k) k3"
  have free: "boards k (fresh k) = None"
    using driver_okD(2) [OF ok] driver_listed [OF ok, of "fresh k"] by (auto simp: listed_ok_def domIff)
  have "idle (pci k3 d)" using k3(2,3) holds_low [OF k3(4)] idle_holds by (simp add: board_ok_def)
  then have l: "idle (pci ?k d)" by (simp add: unlisted_def)
  have h: "boards ?k = boards k"
    using k1 k2 k3(1) free by (auto simp: unlisted_def elsewhere_def probed_def fun_eq_iff)
  have m: "board_list ?k = board_list k" "nodes ?k = nodes k" "cdevs ?k = cdevs k" "class_created ?k"
      "fresh ?k = Suc (fresh k)" "\<forall>e. e \<noteq> d \<longrightarrow> pci ?k e = pci k e"
    using k1 k2 k3(1) by (auto simp: unlisted_def elsewhere_def probed_def)
  show ?thesis using driver_ok_restored [OF ok d h m(1,2,3) _ m(4,6) l] h l m by simp
qed

lemma probe_run:
  assumes ok: "driver_ok k" and d: "d \<notin> dev_of k ` set (board_list k)"
  shows "\<exists>r k'. bluenoc_probe K junk d k = (Inr r, k') \<and> driver_ok k' \<and>
    (r = 0 \<and> board_list k' = fresh k # board_list k \<and> dev_of k' (fresh k) = d \<and>
       activation_level (the (boards k' (fresh k))) = BLUENOC_ACTIVE \<and>
       lowest_free (map (num_of k) (board_list k)) = Some (num_of k' (fresh k)) \<or>
     r < 0 \<and> board_list k' = board_list k \<and> boards k' = boards k \<and> idle (pci k' d) \<and> nodes k' = nodes k)"
proof (cases "k_vendor K d \<noteq> BLUESPEC_VENDOR_ID \<or> k_device K d \<noteq> BLUESPEC_NOC_DEVICE_ID \<or> \<not> k_kmalloc_ok K")
  case True
  then have "bluenoc_probe K junk d k = (Inr (- EINVAL), k)" unfolding bluenoc_probe_def by argo
  then show ?thesis using ok driver_idle [OF ok d] by simp
next
  case False
  let ?a = "fresh k" and ?b = "new_board junk d" and ?k0 = "probed junk d k"
  define rest where "rest = bind (bind (activate K (Some ?a)) (\<lambda>r. if 0 \<le> r then add_device_file K ?a else ret r)) (\<lambda>r.
          if r < 0 then
            andThen (modify (\<lambda>k. k\<lparr>board_list := tl (board_list k)\<rparr>))
              (andThen (kfree_board ?a) (ret r))
          else ret r)"
  have run: "bluenoc_probe K junk d k = rest ?k0"
    using False by (simp add: bluenoc_probe_def Let_def andThen_def bind_def [of "modify _"] probed_def rest_def)
  have dev: "pci_dev ?b = d" by (simp add: new_board_def)
  have heap: "\<forall>x \<in> set (board_list ?k0). boards ?k0 x \<noteq> None"
    using driver_okD(2) [OF ok] by (auto simp: probed_def)
  have level: "activation_level ?b = PROBED" by (simp add: new_board_def)
  obtain r1 k1 b1 where 1: "activate K (Some ?a) ?k0 = (Inr r1, k1)" "elsewhere ?a d ?k0 k1" "board_ok k1 ?a b1"
      "same_ident ?b b1" "r1 = 0 \<and> activation_level b1 = BLUENOC_ACTIVE \<or> r1 < 0 \<and> activation_level b1 \<le> 1"
      "r1 = 0 \<longrightarrow> lowest_free (map (num_of k) (board_list k)) = Some (board_number b1)"
    using activate_new_run [OF probed_board [OF ok d] level heap, where K = K]
    unfolding probed_numbers [OF ok] dev by blast
  have dev1: "pci_dev b1 = d" using 1(4) dev by (simp add: same_ident_def)
  show ?thesis
  proof (cases "r1 = 0")
    case False
    then have r1: "r1 < 0" "activation_level b1 \<le> 1" using 1(5) by auto
    have "rest ?k0 = (Inr r1, unlisted ?a k1)"
      using r1(1) 1(1) by (simp add: rest_def bind_def andThen_def kfree_board_def unlisted_def)
    then show ?thesis unfolding run
      using r1(1) probe_undone [OF ok d 1(2) disjI1 [OF refl] elsewhere_refl 1(3) dev1 r1(2)] by auto
  next
    case True
    have b1: "boards k1 ?a = Some b1" using 1(3) by (simp add: board_ok_def)
    let ?k2 = "k1\<lparr>open_count := (open_count k1)(board_number b1 := 0)\<rparr>"
    have ok2: "board_ok ?k2 ?a b1" using 1(3) by (simp add: board_ok_def)
    show ?thesis
    proof (cases "k_cdev_ok K")
      case False
      obtain k3 b3 where 3: "deactivate (Some ?a) ?k2 = (Inr (), k3)" "elsewhere ?a d ?k2 k3"
          "board_ok k3 ?a b3" "b3 = b1\<lparr>activation_level := min 1 (activation_level b1)\<rparr>"
        using deactivate_ok [OF ok2] dev1 by blast
      have low: "pci_dev b3 = d" "activation_level b3 \<le> 1" using 3(4) dev1 by simp_all
      have "rest ?k0 = (Inr (- EFAULT), unlisted ?a k3)"
        using True 1(1) 3(1) b1 False
        by (simp add: rest_def add_device_file_def the_board_run bind_def andThen_def kfree_board_def Let_def
            unlisted_def)
      then show ?thesis unfolding run
        using probe_undone [OF ok d 1(2) disjI2 [OF refl] 3(2,3) low] by auto
    next
      case c: True
      let ?n = "board_number b1"
      let ?k3 = "?k2\<lparr>cdevs := insert ?n (cdevs k1), nodes := insert ?n (nodes k1)\<rparr>"
      have h: "boards ?k3 = (boards k)(?a \<mapsto> b1)" using 1(2) b1 by (auto simp: elsewhere_def probed_def fun_eq_iff)
      have l: "board_list ?k3 = ?a # board_list k" "nodes ?k3 = insert ?n (nodes k)" "cdevs ?k3 = insert ?n (cdevs k)"
          "fresh ?k3 = Suc (fresh k)" "class_created ?k3" "\<forall>e. e \<noteq> d \<longrightarrow> pci ?k3 e = pci k e"
        using 1(2) by (auto simp: elsewhere_def probed_def)
      have lev: "activation_level b1 = BLUENOC_ACTIVE" using 1(5) True by simp
      have num: "lowest_free (map (num_of k) (board_list k)) = Some ?n" using 1(6) True by simp
      have "board_ok ?k3 ?a b1" "BOARD_NUM_ASSIGNED \<le> activation_level b1"
        using 1(3) lev by (simp_all add: board_ok_def levels)
      then have "driver_ok ?k3" by (intro driver_ok_added [OF ok d refl h l _ dev1 _ num]) auto
      moreover have "rest ?k0 = (Inr 0, ?k3)"
        using True 1(1) b1 c
        by (simp add: rest_def add_device_file_def the_board_run bind_def andThen_def Let_def)
      moreover have "num_of ?k3 ?a = ?n" "dev_of ?k3 ?a = d" using b1 dev1 by (simp_all add: num_of_def dev_of_def)
      ultimately show ?thesis unfolding run using num lev l(1) b1 by auto
    qed
  qed
qed

lemma find_board_run:
  "\<forall>x \<in> set xs. boards k x \<noteq> None \<Longrightarrow>
     find_board P xs k = (Inr (find (\<lambda>x. P (the (boards k x))) xs), k)"
  by (induction xs) (auto simp: bind_def the_board_run)

lemma find_board_listed:
  assumes "driver_ok k"
  shows "find_board P (board_list k) k = (Inr (find (\<lambda>x. P (the (boards k x))) (board_list k)), k)"
  using driver_okD(2) [OF assms] by (intro find_board_run) auto

lemma find_unique:
  assumes "x \<in> set xs" "P x" "\<And>y. y \<in> set xs \<Longrightarrow> P y \<Longrightarrow> y = x"
  shows "find P xs = Some x"
proof (cases "find P xs")
  case None
  then show ?thesis using assms(1,2) by (auto simp: find_None_iff)
next
  case (Some y)
  then have "y \<in> set xs" "P y" by (auto simp: find_Some_iff)
  then show ?thesis using assms(3) Some by simp
qed

lemma driver_ok_removed:
  assumes ok: "driver_ok k" and a: "a \<in> set (board_list k)"
    and heap: "boards k' = (boards k)(a := None)" and list: "board_list k' = remove1 a (board_list k)"
    and nodes: "nodes k' = nodes k - {num_of k a}" "cdevs k' = cdevs k - {num_of k a}"
    and rest: "fresh k' = fresh k" "board_list k' \<noteq> [] \<longrightarrow> class_created k'" "pci k' = pci k"
    and idle: "idle (pci k (dev_of k a))"
  shows "driver_ok k'"
proof -
  let ?L = "set (board_list k)"
  have set: "set (board_list k') = ?L - {a}" using driver_okD(1) [OF ok] list by simp
  have num: "num_of k' x = num_of k x" and dev: "dev_of k' x = dev_of k x" if "x \<noteq> a" for x
    using that heap by (simp_all add: num_of_def dev_of_def)
  have img: "num_of k' ` (?L - {a}) = num_of k ` (?L - {a})" "dev_of k' ` (?L - {a}) = dev_of k ` (?L - {a})"
    using num dev by (auto simp: image_iff)
  have inj: "inj_on (num_of k') (?L - {a})" "inj_on (dev_of k') (?L - {a})"
    using driver_okD(3,4) [OF ok] num dev by (auto simp: inj_on_def)
  have "num_of k ` (?L - {a}) = num_of k ` ?L - {num_of k a}" "dev_of k ` (?L - {a}) = dev_of k ` ?L - {dev_of k a}"
    using driver_okD(3,4) [OF ok] a by (auto simp: inj_on_def)
  note img = img(1) [unfolded this(1)] img(2) [unfolded this(2)]
  have "listed_ok k' x" if "x \<in> ?L - {a}" for x
    using that driver_listed [OF ok, of x] heap num [of x] rest by (auto simp: listed_ok_def board_ok_def)
  moreover have "idle (pci k' d)" if "d \<notin> dev_of k ` ?L - {dev_of k a}" for d
    using driver_idle [OF ok, of d] idle that rest(3) by auto
  ultimately show ?thesis
    using driver_okD [OF ok] inj img set rest(2) nodes list heap by (auto simp: driver_ok_def)
qed

lemma remove_run:
  assumes ok: "driver_ok k" and a: "a \<in> set (board_list k)"
  shows "\<exists>k'. bluenoc_remove (dev_of k a) k = (Inr (), k') \<and> driver_ok k' \<and> idle (pci k' (dev_of k a)) \<and>
    board_list k' = remove1 a (board_list k) \<and> boards k' = (boards k)(a := None) \<and>
    nodes k' = nodes k - {num_of k a}"
proof -
  have found: "find (\<lambda>x. pci_dev (the (boards k x)) = dev_of k a) (board_list k) = Some a"
    using a driver_okD(4) [OF ok] by (intro find_unique) (auto simp: dev_of_def inj_on_def)
  obtain k1 b1 where 1: "deactivate (Some a) k = (Inr (), k1)" "driver_ok k1" "idle (pci k1 (dev_of k a))"
      "elsewhere a (dev_of k a) k k1" "boards k1 a = Some b1" "pci_dev b1 = dev_of k a" "board_number b1 = num_of k a"
    using deactivate_keeps [OF ok a] by blast
  let ?k2 = "k1\<lparr>nodes := nodes k1 - {num_of k a}, cdevs := cdevs k1 - {num_of k a},
      board_list := remove1 a (board_list k1), boards := (boards k1)(a := None)\<rparr>"
  let ?k3 = "if board_list ?k2 = [] then ?k2\<lparr>class_created := False\<rparr> else ?k2"
  have run: "bluenoc_remove (dev_of k a) k = (Inr (), ?k3)"
    using 1 by (simp add: bluenoc_remove_def bind_def find_board_listed [OF ok] found andThen_def
        the_board_run kfree_board_def)
  have a1: "a \<in> set (board_list k1)" using a 1(4) by (simp add: elsewhere_def)
  have n1: "num_of k1 a = num_of k a" "dev_of k1 a = dev_of k a" using 1(5-7) by (simp_all add: num_of_def dev_of_def)
  have "driver_ok ?k3"
    by (rule driver_ok_removed [OF 1(2) a1])
      (use 1(3) n1 a1 driver_okD(7) [OF 1(2)] in auto)
  moreover have "boards ?k3 = (boards k)(a := None)" "board_list ?k3 = remove1 a (board_list k)"
      "nodes ?k3 = nodes k - {num_of k a}" "idle (pci ?k3 (dev_of k a))"
    using 1(3,4) by (auto simp: elsewhere_def fun_eq_iff)
  ultimately show ?thesis using run by blast
qed

lemma remove_unknown:
  assumes ok: "driver_ok k" and d: "d \<notin> dev_of k ` set (board_list k)"
  shows "bluenoc_remove d k = (Inr (), k)"
proof -
  have "find (\<lambda>x. pci_dev (the (boards k x)) = d) (board_list k) = None"
    using d by (auto simp: find_None_iff dev_of_def)
  then show ?thesis by (simp add: bluenoc_remove_def bind_def find_board_listed [OF ok])
qed

lemma remove_keeps: "driver_ok k \<Longrightarrow> \<exists>k'. bluenoc_remove d k = (Inr (), k') \<and> driver_ok k'"
  using remove_run remove_unknown [of k d] by (cases "d \<in> dev_of k ` set (board_list k)") blast+

section \<open>Opening, closing, interrupts\<close>

lemma driver_ok_counts [simp]: "driver_ok (k\<lparr>open_count := c\<rparr>) = driver_ok k"
proof -
  have "num_of (k\<lparr>open_count := c\<rparr>) = num_of k" "dev_of (k\<lparr>open_count := c\<rparr>) = dev_of k"
    by (simp_all add: num_of_def dev_of_def fun_eq_iff)
  then show ?thesis by (simp add: driver_ok_def listed_ok_def board_ok_def)
qed

lemma open_run:
  assumes "driver_ok k"
  shows "bluenoc_open n k =
    (case find (\<lambda>x. num_of k x = n) (board_list k) of
       None \<Rightarrow> (Inr (- ENXIO, None), k)
     | Some a \<Rightarrow> (Inr (0, Some a), k\<lparr>open_count := (open_count k)(n := open_count k n + 1)\<rparr>))"
  by (simp add: bluenoc_open_def bind_def andThen_def num_of_def find_board_listed [OF assms]
      split: option.split)

lemma interrupt_keeps:
  assumes "driver_ok k" "a \<in> set (board_list k)" "pd_irq (pci k (dev_of k a))"
  shows "\<exists>k'. intr_handler K a k = (Inr (), k') \<and> driver_ok k' \<and> elsewhere a (dev_of k a) k k' \<and>
    pci k' = pci k \<and> writes k' = writes k"
proof -
  obtain b where b: "boards k a = Some b" "board_ok k a b" "BOARD_NUM_ASSIGNED \<le> activation_level b"
      "dev_of k a = pci_dev b"
    using listed_board [OF assms(1,2)] by metis
  let ?b1 = "if debugging b DEBUG_PROFILE then b\<lparr>interrupt_count := interrupt_count b + 1\<rparr> else b"
  let ?k1 = "k\<lparr>boards := (boards k)(a \<mapsto> ?b1)\<rparr>"
  have map: "boards ?k1 a = Some ?b1" "bar0io ?b1 \<noteq> 0" "pd_mapped (pci ?k1 (pci_dev ?b1))"
    using b assms(3) by (auto simp: board_ok_def holds_upto_def levels)
  obtain st where st: "update_dma_buffer_status K a ?k1 =
      (Inr (), ?k1\<lparr>accesses := accesses k + 1, boards := (boards k)(a \<mapsto> decode_status st ?b1)\<rparr>)"
    using update_status_run [OF map] by simp
  let ?k' = "?k1\<lparr>accesses := accesses k + 1, boards := (boards k)(a \<mapsto> decode_status st ?b1)\<rparr>"
  have "intr_handler K a k = (Inr (), ?k')"
    using st by (simp add: intr_handler_def andThen_def set_board_run [OF b(1)] bind_def)
  moreover have "elsewhere a (pci_dev b) k ?k'" by (simp add: elsewhere_def)
  moreover have "driver_ok ?k'"
    by (rule driver_ok_board_step [OF assms(1) b(1) calculation(2), where b' = "decode_status st ?b1"])
      (use b in \<open>auto simp: board_ok_def\<close>)
  ultimately show ?thesis using b(4) by auto
qed

section \<open>Reachable states\<close>

text \<open>
  The operations of the driver, in any order and with any answers from the kernel. The PCI
  core probes only devices without a driver; the two ioctls act on a listed board; an
  interrupt reaches the handler while it is installed.
\<close>

inductive driver_step :: "kernel \<Rightarrow> kernel \<Rightarrow> bool" where
  probe: "d \<notin> dev_of k ` set (board_list k) \<Longrightarrow> bluenoc_probe K junk d k = (res, k') \<Longrightarrow> driver_step k k'"
| remove: "bluenoc_remove d k = (res, k') \<Longrightarrow> driver_step k k'"
| open_file: "bluenoc_open n k = (res, k') \<Longrightarrow> driver_step k k'"
| close_file: "bluenoc_release n a k = (res, k') \<Longrightarrow> driver_step k k'"
| deactivation: "a \<in> set (board_list k) \<Longrightarrow> deactivate (Some a) k = (res, k') \<Longrightarrow> driver_step k k'"
| activation: "a \<in> set (board_list k) \<Longrightarrow> activate K (Some a) k = (res, k') \<Longrightarrow> driver_step k k'"
| interrupt: "a \<in> set (board_list k) \<Longrightarrow> pd_irq (pci k (dev_of k a)) \<Longrightarrow> intr_handler K a k = (res, k') \<Longrightarrow>
    driver_step k k'"

text \<open>The kernel when the module is loaded.\<close>

definition unloaded :: "kernel \<Rightarrow> bool" where
  "unloaded k \<longleftrightarrow> dom (boards k) = {} \<and> (\<forall>d. idle (pci k d)) \<and> nodes k = {} \<and> cdevs k = {}"

lemma init_ok:
  assumes "unloaded k" "bluenoc_init K k = (Inr 0, k')"
  shows "driver_ok k'"
  using assms
  by (auto simp: bluenoc_init_def andThen_def bind_def driver_ok_def unloaded_def split: if_splits)

lemma release_keeps: "driver_ok k \<Longrightarrow> bluenoc_release n a k = (res, k') \<Longrightarrow> driver_ok k'"
  by (auto simp: bluenoc_release_def andThen_def bind_def the_board_def split: option.splits)

lemma driver_step_ok: "driver_step k k' \<Longrightarrow> driver_ok k \<Longrightarrow> driver_ok k'"
proof (induction rule: driver_step.induct)
  case (probe d k K junk res k')
  then show ?case using probe_run [OF probe.prems probe.hyps(1), of K junk] by auto
next
  case (remove d k res k')
  then show ?case using remove_keeps [OF remove.prems, of d] by auto
next
  case (open_file n k res k')
  then show ?case by (auto simp: open_run split: option.splits)
next
  case (close_file n a k res k')
  then show ?case using release_keeps by blast
next
  case (deactivation a k res k')
  then show ?case using deactivate_keeps [OF deactivation.prems deactivation.hyps(1)] by auto
next
  case (activation a k K res k')
  then show ?case using activate_keeps [OF activation.prems activation.hyps(1), of K] by auto
next
  case (interrupt a k K res k')
  then show ?case using interrupt_keeps [OF interrupt.prems interrupt.hyps(1,2), of K] by auto
qed

lemma driver_steps_ok: "driver_step\<^sup>*\<^sup>* k k' \<Longrightarrow> driver_ok k \<Longrightarrow> driver_ok k'"
  by (induction rule: rtranclp_induct) (auto intro: driver_step_ok)

section \<open>Examples\<close>

text \<open>A kernel without boards, an environment in which everything works, and its variations.\<close>

definition kern0 :: kernel where
  "kern0 = \<lparr>boards = (\<lambda>_. None), board_list = [], fresh = 0,
     pci = (\<lambda>_. \<lparr>pd_enabled = False, pd_region = False, pd_mapped = False, pd_msi = False, pd_msix = False,
                 pd_irq = False, pd_master = False\<rparr>),
     writes = [], accesses = 0, class_created = False, open_count = (\<lambda>_. 0), cdevs = {}, nodes = {},
     chrdev_region = False, registered = False, events = []\<rparr>"

definition good_kenv :: kenv where
  "good_kenv = \<lparr>k_vendor = (\<lambda>_. BLUESPEC_VENDOR_ID), k_device = (\<lambda>_. BLUESPEC_NOC_DEVICE_ID),
     k_subsystem_vendor = (\<lambda>_. 0), k_subsystem_device = (\<lambda>_. 0), k_kmalloc_ok = True, k_enable_ok = True,
     k_region_ok = True, k_iomap = 4096, k_mask_ok = True, k_msi_ok = False, k_msix_ok = True, k_pci_irq = 11,
     k_msix_vector = 40, k_request_irq_ok = True, k_cdev_ok = True,
     k_reg = (\<lambda>d t off. if off = 0 then ucast EXPECTED_MAGIC
                        else if off = 4 then ucast (drop_bit 32 EXPECTED_MAGIC) else 4),
     k_chrdev_ok = True, k_register_status = 0\<rparr>"

definition junk0 :: board where
  "junk0 = \<lparr>bar0io = 0, pci_dev = 0, board_number = 0, major_rev = 0, minor_rev = 0, build = 0, timestamp = 0,
     bytes_per_beat = 0, content_id = 0, magic_num = 0, uses_msix = False, irq_num = 0, read_buffers_level = 0,
     read_flushed = False, read_completed = False, read_queue_full = False, read_ok = False,
     write_buffers_level = 0, write_completed = False, write_queue_full = False, write_ok = False,
     activation_level = 0, debug_level = 0, read_mutex = False, write_mutex = False, read_call_count = 0,
     write_call_count = 0, poll_call_count = 0, total_bytes_read = 0, total_bytes_written = 0,
     total_read_call_ns = 0, total_read_blocked_ns = 0, total_write_call_ns = 0, total_write_blocked_ns = 0,
     interrupt_count = 0\<rparr>"

definition kern1 :: kernel where
  "kern1 = snd (bluenoc_init good_kenv kern0)"

text \<open>One active board, number 1 on device 7.\<close>

definition board1 :: board where
  "board1 = junk0\<lparr>bar0io := 4096, pci_dev := 7, board_number := 1, uses_msix := True, magic_num := EXPECTED_MAGIC,
     bytes_per_beat := 4, activation_level := BLUENOC_ACTIVE\<rparr>"

definition kern2 :: kernel where
  "kern2 = kern0\<lparr>boards := [0 \<mapsto> board1], board_list := [0], fresh := 1, class_created := True,
     pci := (pci kern0)(7 := \<lparr>pd_enabled = True, pd_region = True, pd_mapped = True, pd_msi = False, pd_msix = True,
       pd_irq = True, pd_master = True\<rparr>), cdevs := {1}, nodes := {1}, chrdev_region := True, registered := True\<rparr>"

lemma kern0_unloaded: "unloaded kern0"
  by (simp add: unloaded_def kern0_def idle_def)

lemma kern1_init: "bluenoc_init good_kenv kern0 = (Inr 0, kern1)"
  by (simp add: kern1_def bluenoc_init_def good_kenv_def andThen_def bind_def)

lemma kern1_empty: "board_list kern1 = []"
  by (simp add: kern1_def bluenoc_init_def good_kenv_def andThen_def bind_def)

lemma kern1_ok: "driver_ok kern1"
  by (rule init_ok [OF kern0_unloaded kern1_init])

lemma kern2_board: "board_list kern2 = [0]" "boards kern2 0 = Some board1" "dev_of kern2 0 = 7" "num_of kern2 0 = 1"
  "board_ok kern2 0 board1" "pd_irq (pci kern2 7)"
  by (simp_all add: kern2_def dev_of_def num_of_def board1_def board_ok_def holds_upto_def levels)

lemma kern2_ok: "driver_ok kern2"
proof -
  have "listed_ok kern2 0"
    using kern2_board by (simp add: listed_ok_def) (simp add: kern2_def board1_def levels NUM_BOARDS_def)
  moreover have "idle (pci kern2 d)" if "d \<noteq> 7" for d
    using that by (simp add: kern2_def kern0_def idle_def)
  ultimately show ?thesis using kern2_board
    by (auto simp: driver_ok_def) (auto simp: kern2_def kern0_def split: if_splits)
qed

text \<open>The same board after it has been deactivated.\<close>

definition kern3 :: kernel where
  "kern3 = snd (deactivate (Some 0) kern2)"

lemma kern3_ok: "driver_ok kern3" and kern3_board: "0 \<in> set (board_list kern3)" "dev_of kern3 0 = 7"
proof -
  have "0 \<in> set (board_list kern2)" by (simp add: kern2_board)
  from deactivate_keeps [OF kern2_ok this]
  obtain k' b where k': "deactivate (Some 0) kern2 = (Inr (), k')" "driver_ok k'" "elsewhere 0 7 kern2 k'"
      "boards k' 0 = Some b" "pci_dev b = 7"
    by (auto simp: kern2_board)
  show "driver_ok kern3" "0 \<in> set (board_list kern3)" "dev_of kern3 0 = 7"
    using k' by (simp_all add: kern3_def elsewhere_def kern2_board dev_of_def)
qed

section \<open>When activation succeeds\<close>

text \<open>Every call of the kernel succeeds and the device answers with the magic number.\<close>

definition cooperative :: "kenv \<Rightarrow> nat \<Rightarrow> bool" where
  "cooperative K d \<longleftrightarrow> k_enable_ok K \<and> k_region_ok K \<and> k_iomap K \<noteq> 0 \<and> k_mask_ok K \<and> (k_msi_ok K \<or> k_msix_ok K) \<and>
     k_request_irq_ok K \<and> (\<forall>t. join (k_reg K d t 0) (k_reg K d t 4) = EXPECTED_MAGIC)"

lemma join_halves: "join (ucast m) (ucast (drop_bit 32 m)) = m"
  unfolding join_def
  by (subst disjunctive_add_eq_or; rule bit_word_eqI) (auto simp: bit_simps)

lemma good_cooperative: "cooperative good_kenv d"
  by (simp add: cooperative_def good_kenv_def join_halves)

lemma activate_case_succeeds:
  assumes "board_ok k a b" "activation_level b = n" "PROBED < n" "n < BLUENOC_ACTIVE" "cooperative K (pci_dev b)"
  shows "fst (activate_case K a n k) = Inr 0"
proof -
  have b: "boards k a = Some b" using assms(1) by (simp add: board_ok_def)
  have io: "bar0io b \<noteq> 0" "pd_mapped (pci k (pci_dev b))" if "4 \<le> n"
    using assms(1,2) that by (auto simp: board_ok_def holds_upto_def levels)
  have "n \<le> 10" using assms(4) by (simp add: levels)
  from upto_ten [OF this] assms(3,5) b io show ?thesis
    by (elim disjE)
      (auto simp: activate_case_def levels bind_def andThen_def the_board_run Let_def cooperative_def set_level_def
        set_board_run set_pci_run enable_device_def reserve_region_def map_bar_def check_magic_def set_dma_mask_def
        enable_msi_def install_irq_def unmask_msix_def set_master_def start_network_def readq_run ioread32_run
        update_status_run iowrite8_def iowrite32_def iowrite_run)
qed

lemma activate_from_succeeds:
  assumes "n \<le> BLUENOC_ACTIVE" "PROBED < n" "board_ok k a b" "activation_level b = n" "cooperative K (pci_dev b)"
  shows "fst (activate_from K a [n..<BLUENOC_ACTIVE] k) = Inr 0"
  using assms
proof (induction arbitrary: k b rule: inc_induct)
  case (step n)
  obtain r k1 where 1: "activate_case K a n k = (Inr r, k1)" "advanced a b k n r k1"
    using activate_case_run [OF step.prems(2,3,1) step.hyps(2), where K = K] by blast
  have r: "r = 0" using activate_case_succeeds [OF step.prems(2,3,1) step.hyps(2) step.prems(4)] 1(1) by simp
  then obtain b1 where b1: "board_ok k1 a b1" "same_ident b b1" "activation_level b1 = Suc n"
    using 1(2) by (auto simp: advanced_def)
  have "cooperative K (pci_dev b1)" using step.prems(4) b1(2) by (simp add: same_ident_def)
  then have "fst (activate_from K a [Suc n..<BLUENOC_ACTIVE] k1) = Inr 0"
    using step.IH [OF _ b1(1,3)] by (simp add: PROBED_def)
  moreover have "[n..<BLUENOC_ACTIVE] = n # [Suc n..<BLUENOC_ACTIVE]" using step.hyps by (simp add: upt_conv_Cons)
  ultimately show ?case using 1(1) r by (simp add: bind_def)
qed simp

section \<open>Properties\<close>

text \<open>C3. From loading on, whatever the kernel answers and in whatever order devices are probed,
  removed, opened, closed, deactivated and reactivated and interrupts arrive: the allocated
  boards are exactly those of the list, their numbers are distinct and between 1 and 16, each
  holds of its device exactly what its activation level says, devices without a board hold
  nothing, and there is a device file for each board.\<close>

theorem reachable_driver_ok:
  assumes "unloaded k" "bluenoc_init K k = (Inr 0, k0)" "driver_step\<^sup>*\<^sup>* k0 k'"
  shows "driver_ok k'"
  using driver_steps_ok [OF assms(3) init_ok [OF assms(1,2)]] .

lemma probe_step: "driver_step\<^sup>*\<^sup>* kern1 (snd (bluenoc_probe good_kenv junk0 7 kern1))"
  by (rule r_into_rtranclp, rule driver_step.probe [of 7 _ good_kenv junk0 "fst (bluenoc_probe good_kenv junk0 7 kern1)"])
    (simp_all add: kern1_empty)

theorem reachable_driver_ok_witness: "driver_ok (snd (bluenoc_probe good_kenv junk0 7 kern1))"
  by (rule reachable_driver_ok [OF kern0_unloaded kern1_init probe_step])

text \<open>C17. Probing a device adds one active board with the lowest number not in use, or it
  fails with a negative code and leaves the boards, the list and the device files as they were
  and the device idle; it never faults.\<close>

theorem probe_all_or_nothing:
  assumes "driver_ok k" "d \<notin> dev_of k ` set (board_list k)"
  shows "\<exists>r k'. bluenoc_probe K junk d k = (Inr r, k') \<and>
    (r = 0 \<and> board_list k' = fresh k # board_list k \<and> dev_of k' (fresh k) = d \<and>
       activation_level (the (boards k' (fresh k))) = BLUENOC_ACTIVE \<and>
       lowest_free (map (num_of k) (board_list k)) = Some (num_of k' (fresh k)) \<or>
     r < 0 \<and> board_list k' = board_list k \<and> boards k' = boards k \<and> idle (pci k' d) \<and> nodes k' = nodes k)"
  using probe_run [OF assms, of K junk] by blast

theorem probe_all_or_nothing_witness:
  "\<exists>r k'. bluenoc_probe good_kenv junk0 3 kern2 = (Inr r, k') \<and>
    (r = 0 \<and> board_list k' = fresh kern2 # board_list kern2 \<and> dev_of k' (fresh kern2) = 3 \<and>
       activation_level (the (boards k' (fresh kern2))) = BLUENOC_ACTIVE \<and>
       lowest_free (map (num_of kern2) (board_list kern2)) = Some (num_of k' (fresh kern2)) \<or>
     r < 0 \<and> board_list k' = board_list kern2 \<and> boards k' = boards kern2 \<and> idle (pci k' 3) \<and>
       nodes k' = nodes kern2)"
  by (rule probe_all_or_nothing [OF kern2_ok]) (simp add: kern2_board)

text \<open>C18. Removing a device takes its board out of the list, frees it, removes its device file
  and gives back everything the driver held of the device, without a fault.\<close>

theorem remove_gives_back:
  assumes "driver_ok k" "a \<in> set (board_list k)"
  shows "\<exists>k'. bluenoc_remove (dev_of k a) k = (Inr (), k') \<and> idle (pci k' (dev_of k a)) \<and>
    board_list k' = remove1 a (board_list k) \<and> boards k' = (boards k)(a := None) \<and>
    nodes k' = nodes k - {num_of k a}"
  using remove_run [OF assms] by blast

theorem remove_gives_back_witness:
  "\<exists>k'. bluenoc_remove 7 kern2 = (Inr (), k') \<and> idle (pci k' 7) \<and> board_list k' = [] \<and>
    boards k' = (boards kern2)(0 := None) \<and> nodes k' = nodes kern2 - {1}"
  using remove_gives_back [OF kern2_ok, of 0] by (simp add: kern2_board)

text \<open>Reactivating a listed board takes it to the top level, or fails with a negative code
  and everything of the device given back; if every call of the kernel succeeds and the device
  shows the magic number, it succeeds.\<close>

theorem reactivate_all_or_nothing:
  assumes "driver_ok k" "a \<in> set (board_list k)"
  shows "\<exists>r k'. activate K (Some a) k = (Inr r, k') \<and>
    (r = 0 \<and> activation_level (the (boards k' a)) = BLUENOC_ACTIVE \<or> r < 0 \<and> idle (pci k' (dev_of k a))) \<and>
    (cooperative K (dev_of k a) \<longrightarrow> r = 0)"
proof -
  obtain b where b: "boards k a = Some b" "board_ok k a b" "BOARD_NUM_ASSIGNED \<le> activation_level b"
      "dev_of k a = pci_dev b"
    using listed_board [OF assms] by metis
  have level: "activation_level b \<le> BLUENOC_ACTIVE" "PROBED < activation_level b"
    using b(2,3) by (simp_all add: board_ok_def levels)
  have "fst (activate K (Some a) k) = Inr 0" if "cooperative K (dev_of k a)"
    using activate_from_succeeds [OF level b(2) refl that [unfolded b(4)]] b(1)
    by (simp add: activate_def bind_def the_board_run)
  then show ?thesis using activate_keeps [OF assms, of K] by auto
qed

theorem reactivate_all_or_nothing_witness:
  "\<exists>k'. activate good_kenv (Some 0) kern3 = (Inr 0, k') \<and> activation_level (the (boards k' 0)) = BLUENOC_ACTIVE"
  using reactivate_all_or_nothing [OF kern3_ok, of 0 good_kenv] kern3_board good_cooperative by auto

text \<open>While the driver holds the interrupt line of a device, the board the handler is given
  exists and its registers are mapped: the handler never faults, and it changes no device
  register and nothing of any other board.\<close>

theorem interrupt_never_faults:
  assumes "driver_ok k" "pd_irq (pci k d)"
  shows "\<exists>a \<in> set (board_list k). dev_of k a = d \<and>
    (\<exists>k'. intr_handler K a k = (Inr (), k') \<and> elsewhere a d k k' \<and> writes k' = writes k)"
proof -
  have "d \<in> dev_of k ` set (board_list k)" using driver_idle [OF assms(1)] assms(2) by (auto simp: idle_def)
  then obtain a where "a \<in> set (board_list k)" "dev_of k a = d" by blast
  then show ?thesis using interrupt_keeps [OF assms(1), of a K] assms(2) by blast
qed

theorem interrupt_never_faults_witness:
  "\<exists>k'. intr_handler good_kenv 0 kern2 = (Inr (), k') \<and> elsewhere 0 7 kern2 k' \<and> writes k' = writes kern2"
  using interrupt_never_faults [OF kern2_ok kern2_board(6), of good_kenv] by (simp add: kern2_board)

text \<open>A device file opened before its board is removed keeps the address of the freed
  board: closing it afterwards reads freed memory.\<close>

theorem close_after_remove:
  assumes "driver_ok k" "a \<in> set (board_list k)"
  shows "bluenoc_open (num_of k a) k =
      (Inr (0, Some a), k\<lparr>open_count := (open_count k)(num_of k a := open_count k (num_of k a) + 1)\<rparr>) \<and>
    (\<exists>k'. bluenoc_remove (dev_of k a) (snd (bluenoc_open (num_of k a) k)) = (Inr (), k') \<and>
       fst (bluenoc_release (num_of k a) a k') = Inl Oops)"
proof -
  let ?k1 = "k\<lparr>open_count := (open_count k)(num_of k a := open_count k (num_of k a) + 1)\<rparr>"
  have "find (\<lambda>x. num_of k x = num_of k a) (board_list k) = Some a"
    using assms(2) driver_okD(3) [OF assms(1)] by (intro find_unique) (auto simp: inj_on_def)
  then have open1: "bluenoc_open (num_of k a) k = (Inr (0, Some a), ?k1)" by (simp add: open_run [OF assms(1)])
  have "driver_ok ?k1" "a \<in> set (board_list ?k1)" "dev_of ?k1 a = dev_of k a"
    using assms by (simp_all add: dev_of_def)
  from remove_run [OF this(1,2)] this(3)
  obtain k' where k': "bluenoc_remove (dev_of k a) ?k1 = (Inr (), k')" "boards k' = (boards ?k1)(a := None)" by auto
  have "fst (bluenoc_release (num_of k a) a k') = Inl Oops"
    using k'(2) by (simp add: bluenoc_release_def andThen_def bind_def the_board_def)
  then show ?thesis using open1 k'(1) by simp
qed

theorem close_after_remove_witness:
  "bluenoc_open 1 kern2 = (Inr (0, Some 0), kern2\<lparr>open_count := (open_count kern2)(1 := open_count kern2 1 + 1)\<rparr>) \<and>
    (\<exists>k'. bluenoc_remove 7 (snd (bluenoc_open 1 kern2)) = (Inr (), k') \<and> fst (bluenoc_release 1 0 k') = Inl Oops)"
proof -
  have "0 \<in> set (board_list kern2)" by (simp add: kern2_board)
  from close_after_remove [OF kern2_ok this] show ?thesis unfolding kern2_board .
qed

end
