(* ===== verification/Bluenoc_Dma.thy ===== *)
theory Bluenoc_Dma
  imports Bluenoc_Board
begin

text \<open>
  \<^verbatim>\<open>drivers/linux/platforms/bluenoc-pcie/driver/bluenoc.c\<close>: reading from and writing to a
  board by DMA. The user buffer is cut into pages, the pages are pinned and mapped, the
  mapped blocks are sent to the device as commands while it has free slots, and the call waits
  for the device. The labels of the clean-up code are the ends of \<^verbatim>\<open>with_pages\<close> and
  \<^verbatim>\<open>with_mapping\<close>. Interrupts and signals arrive at the waits, in the order of the list
  \<^verbatim>\<open>events\<close>; a wait with no event left is \<^verbatim>\<open>Blocked\<close>.
\<close>

section \<open>State and environment\<close>

type_synonym timespec = "u64 \<times> u64"

text \<open>An entry of the scatter-gather list: page frame, length, offset.\<close>

type_synonym sg_entry = "nat \<times> u32 \<times> u32"

text \<open>A block for the device: DMA address and length.\<close>

type_synonym dma_block = "u64 \<times> u32"

text \<open>
  What the kernel answers during one call: allocations, the result of
  \<^verbatim>\<open>get_user_pages\<close> and the frames it pins, the result of \<^verbatim>\<open>pci_map_sg\<close> and the
  DMA fields it leaves in each entry of the list, the clock, and the contents of the two
  uninitialised time variables. \<^verbatim>\<open>x_chained\<close> is \<^verbatim>\<open>USE_CHAINED_SGLIST_API\<close>.
\<close>

record xenv =
  x_chained :: bool
  x_kmalloc_ok :: bool
  x_pin :: "int \<Rightarrow> int"
  x_frame :: "nat \<Rightarrow> nat"
  x_reserved :: "nat \<Rightarrow> bool"
  x_sg_ok :: bool
  x_map :: "sg_entry list \<Rightarrow> int \<times> dma_block list"
  x_clock :: "nat \<Rightarrow> timespec"
  x_junk_block :: timespec
  x_junk_unblock :: timespec

text \<open>The driver's kernel and what a transfer takes of the rest of the system.\<close>

record io =
  kern :: kernel
  pins :: "nat \<Rightarrow> int"
  page_arrays :: int
  sg_tables :: int
  mappings :: int
  dirty :: "nat set"
  clock :: nat

type_synonym 'a iprog = "(io, stall, 'a) prog"

definition in_kernel :: "'a kprog \<Rightarrow> 'a iprog" where
  "in_kernel p = (\<lambda>s. case p (kern s) of (r, k) \<Rightarrow> (r, s\<lparr>kern := k\<rparr>))"

definition getnstimeofday :: "xenv \<Rightarrow> timespec iprog" where
  "getnstimeofday X = (\<lambda>s. (Inr (x_clock X (clock s)), s\<lparr>clock := clock s + 1\<rparr>))"

definition ns_between :: "timespec \<Rightarrow> timespec \<Rightarrow> u64" where
  "ns_between t1 t0 = (fst t1 - fst t0) * 1000000000 + (snd t1 - snd t0)"

section \<open>The pages of a buffer\<close>

abbreviation (input) PAGE_SHIFT :: nat where "PAGE_SHIFT \<equiv> 12"
abbreviation (input) PAGE_SIZE :: u32 where "PAGE_SIZE \<equiv> 4096"
abbreviation (input) PAGE_MASK :: u64 where "PAGE_MASK \<equiv> NOT 0xfff"

record geometry =
  first_page :: u64
  pg_offset :: u32
  first_page_len :: u32
  last_page_len :: u32
  num_pages :: int

definition page_geometry :: "u64 \<Rightarrow> u64 \<Rightarrow> geometry" where
  "page_geometry buf count =
     (let first = buf AND PAGE_MASK;
          last = (buf + count - 1) AND PAGE_MASK;
          off = ucast (buf AND NOT PAGE_MASK) :: u32;
          pages = sint (ucast (drop_bit PAGE_SHIFT last - drop_bit PAGE_SHIFT first + 1) :: u32);
          first_len = (if pages = 1 then ucast count else PAGE_SIZE - off);
          last_len = ucast ((buf + count) AND NOT PAGE_MASK) :: u32
      in \<lparr>first_page = first, pg_offset = off, first_page_len = first_len,
          last_page_len = (if last_len = 0 then PAGE_SIZE else last_len), num_pages = pages\<rparr>)"

definition sg_list :: "geometry \<Rightarrow> nat list \<Rightarrow> sg_entry list" where
  "sg_list g pages =
     (pages ! 0, first_page_len g, pg_offset g) #
     map (\<lambda>n. (pages ! n, PAGE_SIZE, 0)) [1..<nat (num_pages g) - 1] @
     (if 1 < num_pages g then [(pages ! (nat (num_pages g) - 1), last_page_len g, 0)] else [])"

section \<open>Taking and giving back\<close>

definition release_pages :: "nat list \<Rightarrow> unit iprog" where
  "release_pages pages = modify (\<lambda>s. s\<lparr>pins := foldl (\<lambda>p f. p(f := p f - 1)) (pins s) pages\<rparr>)"

definition get_user_pages :: "xenv \<Rightarrow> int \<Rightarrow> (int \<times> nat list) iprog" where
  "get_user_pages X n =
     (let pages = map (x_frame X) [0..<nat (x_pin X n)] in
      andThen (modify (\<lambda>s. s\<lparr>pins := foldl (\<lambda>p f. p(f := p f + 1)) (pins s) pages\<rparr>))
        (ret (x_pin X n, pages)))"

text \<open>The error code with the times at which the call blocked and was woken.\<close>

type_synonym outcome = "int \<times> timespec \<times> timespec"

definition failed :: "xenv \<Rightarrow> int \<Rightarrow> outcome" where
  "failed X err = (err, x_junk_block X, x_junk_unblock X)"

definition with_pages :: "xenv \<Rightarrow> geometry \<Rightarrow> (nat list \<Rightarrow> outcome iprog) \<Rightarrow> outcome iprog" where
  "with_pages X g body =
     (if \<not> x_kmalloc_ok X then ret (failed X (- ENOMEM))
      else
        andThen (modify (\<lambda>s. s\<lparr>page_arrays := page_arrays s + 1\<rparr>))
        (bind (get_user_pages X (num_pages g)) (\<lambda>(result, pages).
         bind (if result \<noteq> num_pages g
               then andThen (release_pages pages) (ret (failed X (if result < 0 then result else - EINVAL)))
               else bind (body pages) (\<lambda>r. andThen (release_pages pages) (ret r))) (\<lambda>r.
         andThen (modify (\<lambda>s. s\<lparr>page_arrays := page_arrays s - 1\<rparr>)) (ret r)))))"

text \<open>The check of the mapped blocks, made only while debugging DMA.\<close>

definition block_in_range :: "dma_block \<Rightarrow> bool" where
  "block_in_range blk \<longleftrightarrow> fst blk = fst blk AND 0x0000ffffffffffff \<and> snd blk \<le> 16384"

text \<open>
  The blocks that are sent: the chained list is followed to its end, the array up to the
  number of transfers.
\<close>

definition blocks_to_send :: "xenv \<Rightarrow> int \<Rightarrow> dma_block list \<Rightarrow> dma_block list" where
  "blocks_to_send X xfers dma = (if x_chained X then dma else take (nat xfers) dma)"

definition with_mapping ::
  "xenv \<Rightarrow> nat \<Rightarrow> geometry \<Rightarrow> nat list \<Rightarrow> (dma_block list \<Rightarrow> outcome iprog) \<Rightarrow> outcome iprog" where
  "with_mapping X a g pages body =
     (if \<not> x_sg_ok X then ret (failed X (- ENOMEM))
      else if num_pages g < 1 then raise Oops
      else
        (let (xfers, dma) = x_map X (sg_list g pages) in
         andThen (modify (\<lambda>s. s\<lparr>sg_tables := sg_tables s + 1\<rparr>))
         (bind (if xfers < 1 then ret (failed X (- EFAULT))
                else
                  andThen (modify (\<lambda>s. s\<lparr>mappings := mappings s + 1\<rparr>))
                  (bind (in_kernel (the_board a)) (\<lambda>b.
                   if debugging b DEBUG_DMA \<and> \<not> list_all block_in_range (take (nat xfers) dma)
                   then ret (failed X (- EFAULT))
                   else body (blocks_to_send X xfers dma)))) (\<lambda>r.
          andThen (modify (\<lambda>s. s\<lparr>mappings := mappings s - 1, sg_tables := sg_tables s - 1\<rparr>)) (ret r)))))"

section \<open>Waiting\<close>

text \<open>
  \<^verbatim>\<open>wait_event_interruptible\<close>: the condition is tested before sleeping and after each
  interrupt; a signal ends the wait.
\<close>

fun wait_event :: "kenv \<Rightarrow> nat \<Rightarrow> (board \<Rightarrow> bool) \<Rightarrow> event list \<Rightarrow> int kprog" where
  "wait_event K a P [] k =
     bind (the_board a) (\<lambda>b. if P b then ret 0 else raise Blocked) k"
| "wait_event K a P (e # es) k =
     bind (the_board a) (\<lambda>b. if P b then ret 0
       else andThen (modify (\<lambda>k. k\<lparr>events := es\<rparr>))
         (case e of Irq \<Rightarrow> andThen (intr_handler K a) (wait_event K a P es)
                  | Signal \<Rightarrow> ret (- ERESTARTSYS))) k"

definition wait_for :: "kenv \<Rightarrow> nat \<Rightarrow> (board \<Rightarrow> bool) \<Rightarrow> int kprog" where
  "wait_for K a P = (\<lambda>k. wait_event K a P (events k) k)"

section \<open>Sending the commands\<close>

definition dma_cmd :: "bool \<Rightarrow> dma_block \<Rightarrow> u64" where
  "dma_cmd final blk =
     push_bit 63 (if final then 1 else 0) OR push_bit 48 (ucast (snd blk) AND 0x3fff)
       OR (fst blk AND 0x0000ffffffffffff)"

definition with_interrupt :: "u32 \<Rightarrow> u64 \<Rightarrow> u64" where
  "with_interrupt slots cmd = (if slots = 1 then cmd OR push_bit 62 1 else cmd)"

text \<open>How the wait for a free slot ends.\<close>

datatype slot_wait = Slots u32 | Flushed | Interrupted

fun read_slots :: "kenv \<Rightarrow> nat \<Rightarrow> nat \<Rightarrow> u32 \<Rightarrow> slot_wait kprog" where
  "read_slots K a 0 slots = (if slots \<noteq> 0 then ret (Slots slots) else raise Blocked)"
| "read_slots K a (Suc fuel) slots =
     (if slots \<noteq> 0 then ret (Slots slots)
      else
        andThen (update_dma_buffer_status K a)
        (bind (wait_for K a (\<lambda>b. \<not> read_queue_full b)) (\<lambda>result.
           if result \<noteq> 0 then ret Interrupted
           else bind (the_board a) (\<lambda>b.
             if read_flushed b then andThen (writeq a 4096 (push_bit 63 1)) (ret Flushed)
             else read_slots K a fuel (16 - read_buffers_level b)))))"

fun read_send :: "kenv \<Rightarrow> nat \<Rightarrow> nat \<Rightarrow> dma_block list \<Rightarrow> u32 \<Rightarrow> int kprog" where
  "read_send K a fuel [] slots = ret 0"
| "read_send K a fuel (blk # rest) slots =
     bind (read_slots K a fuel slots) (\<lambda>w. case w of
         Interrupted \<Rightarrow> ret (- ERESTARTSYS)
       | Flushed \<Rightarrow> ret 0
       | Slots free \<Rightarrow>
           andThen (writeq a 4096 (with_interrupt free (dma_cmd (rest = []) blk)))
             (read_send K a fuel rest (free - 1)))"

fun write_slots :: "kenv \<Rightarrow> nat \<Rightarrow> nat \<Rightarrow> u32 \<Rightarrow> slot_wait kprog" where
  "write_slots K a 0 slots = (if slots \<noteq> 0 then ret (Slots slots) else raise Blocked)"
| "write_slots K a (Suc fuel) slots =
     (if slots \<noteq> 0 then ret (Slots slots)
      else
        andThen (update_dma_buffer_status K a)
        (bind (wait_for K a (\<lambda>b. \<not> write_queue_full b)) (\<lambda>result.
           if result \<noteq> 0 then ret Interrupted
           else bind (the_board a) (\<lambda>b. write_slots K a fuel (16 - write_buffers_level b)))))"

fun write_send :: "kenv \<Rightarrow> nat \<Rightarrow> nat \<Rightarrow> dma_block list \<Rightarrow> u32 \<Rightarrow> int kprog" where
  "write_send K a fuel [] slots = ret 0"
| "write_send K a fuel (blk # rest) slots =
     bind (write_slots K a fuel slots) (\<lambda>w. case w of
         Interrupted \<Rightarrow> ret (- ERESTARTSYS)
       | Flushed \<Rightarrow> ret 0
       | Slots free \<Rightarrow>
           andThen (writeq a 4104 (with_interrupt free (dma_cmd (rest = []) blk)))
             (write_send K a fuel rest (free - 1)))"

section \<open>Reading\<close>

text \<open>A time taken only while profiling.\<close>

definition profile_time :: "xenv \<Rightarrow> nat \<Rightarrow> timespec \<Rightarrow> timespec iprog" where
  "profile_time X a junk = bind (in_kernel (the_board a)) (\<lambda>b.
     if debugging b DEBUG_PROFILE then getnstimeofday X else ret junk)"

text \<open>
  The loop that marks the modified pages, from page \<^verbatim>\<open>n\<close> on: the first page takes its
  length of the count, the inner ones a page each.
\<close>

fun dirty_pages :: "geometry \<Rightarrow> nat \<Rightarrow> nat list \<Rightarrow> u32 \<Rightarrow> nat list" where
  "dirty_pages g n [] bytes = []"
| "dirty_pages g n (f # rest) bytes =
     (if 0 < bytes then [f] else []) @
     (if n = 0 then
        (if bytes \<le> first_page_len g then [] else dirty_pages g (Suc n) rest (bytes - first_page_len g))
      else if rest \<noteq> [] then
        (if bytes \<le> PAGE_SIZE then [] else dirty_pages g (Suc n) rest (bytes - PAGE_SIZE))
      else [])"

definition mark_dirty :: "xenv \<Rightarrow> geometry \<Rightarrow> nat list \<Rightarrow> u32 \<Rightarrow> unit iprog" where
  "mark_dirty X g pages bytes =
     modify (\<lambda>s. s\<lparr>dirty := dirty s \<union> {f \<in> set (dirty_pages g 0 pages bytes). \<not> x_reserved X f}\<rparr>)"

text \<open>
  From the completion wait to the marking of the pages. The wait's condition is the one of
  the loop around it, so that the loop runs once.
\<close>

definition read_complete :: "kenv \<Rightarrow> xenv \<Rightarrow> nat \<Rightarrow> geometry \<Rightarrow> nat list \<Rightarrow> outcome iprog" where
  "read_complete K X a g pages =
     bind (profile_time X a (x_junk_block X)) (\<lambda>block_time.
     bind (in_kernel (wait_for K a (\<lambda>b. read_completed b \<or> read_flushed b))) (\<lambda>result.
     bind (profile_time X a (x_junk_unblock X)) (\<lambda>unblock_time.
     bind (in_kernel (ioread32 K a 2056)) (\<lambda>byte_count.
     andThen (in_kernel (set_board a (\<lambda>b. b\<lparr>read_mutex := False\<rparr>)))
     (andThen (if result = 0 then in_kernel (set_board a (\<lambda>b. if debugging b DEBUG_PROFILE
                 then b\<lparr>total_bytes_read := total_bytes_read b + ucast byte_count\<rparr> else b))
               else ret ())
     (andThen (mark_dirty X g pages byte_count)
        (ret (if result = 0 then sint byte_count else - ERESTARTSYS, block_time, unblock_time))))))))"

text \<open>The critical section.\<close>

definition read_locked ::
  "kenv \<Rightarrow> xenv \<Rightarrow> nat \<Rightarrow> nat \<Rightarrow> geometry \<Rightarrow> nat list \<Rightarrow> dma_block list \<Rightarrow> outcome iprog" where
  "read_locked K X fuel a g pages blocks =
     bind (in_kernel (the_board a)) (\<lambda>b.
       if read_mutex b then ret (failed X (- EBUSY))
       else
         andThen (in_kernel (set_board a (\<lambda>b. b\<lparr>read_mutex := True\<rparr>)))
         (andThen (in_kernel (clear_dma_status a START_READ))
         (bind (in_kernel (the_board a)) (\<lambda>b.
          bind (in_kernel (read_send K a fuel blocks (16 - read_buffers_level b))) (\<lambda>err.
            if err \<noteq> 0 then andThen (in_kernel (set_board a (\<lambda>b. b\<lparr>read_mutex := False\<rparr>))) (ret (failed X err))
            else read_complete K X a g pages)))))"

definition read_pages :: "kenv \<Rightarrow> xenv \<Rightarrow> nat \<Rightarrow> nat \<Rightarrow> geometry \<Rightarrow> outcome iprog" where
  "read_pages K X fuel a g =
     (if 4096 < num_pages g then ret (failed X (- EFAULT))
      else if pg_offset g mod 128 \<noteq> 0 then ret (failed X (- EFAULT))
      else with_pages X g (\<lambda>pages. with_mapping X a g pages (read_locked K X fuel a g pages)))"

definition bluenoc_read :: "kenv \<Rightarrow> xenv \<Rightarrow> nat \<Rightarrow> nat \<Rightarrow> u64 \<Rightarrow> u64 \<Rightarrow> int iprog" where
  "bluenoc_read K X fuel a buf count =
     bind (in_kernel (the_board a)) (\<lambda>b.
       if activation_level b \<noteq> BLUENOC_ACTIVE then ret (- EIO)
       else
         andThen (in_kernel (set_board a (\<lambda>b. if debugging b DEBUG_PROFILE
                    then b\<lparr>read_call_count := read_call_count b + 1\<rparr> else b)))
         (bind (profile_time X a (0, 0)) (\<lambda>start_time.
          if count = 0 then ret 0
          else
            bind (read_pages K X fuel a (page_geometry buf count)) (\<lambda>(err, block_time, unblock_time).
              andThen (bind (in_kernel (the_board a)) (\<lambda>b.
                 if debugging b DEBUG_PROFILE then
                   bind (getnstimeofday X) (\<lambda>finish_time. in_kernel (set_board a (\<lambda>b. b\<lparr>
                     total_read_call_ns := total_read_call_ns b + ns_between finish_time start_time,
                     total_read_blocked_ns := total_read_blocked_ns b + ns_between unblock_time block_time\<rparr>)))
                 else ret ()))
              (ret err)))))"

section \<open>Writing\<close>

definition write_complete :: "kenv \<Rightarrow> xenv \<Rightarrow> nat \<Rightarrow> outcome iprog" where
  "write_complete K X a =
     bind (profile_time X a (x_junk_block X)) (\<lambda>block_time.
     bind (in_kernel (wait_for K a write_completed)) (\<lambda>result.
     bind (profile_time X a (x_junk_unblock X)) (\<lambda>unblock_time.
     bind (in_kernel (ioread32 K a 2060)) (\<lambda>byte_count.
     andThen (in_kernel (set_board a (\<lambda>b. b\<lparr>write_mutex := False\<rparr>)))
     (andThen (if result = 0 then in_kernel (set_board a (\<lambda>b. if debugging b DEBUG_PROFILE
                 then b\<lparr>total_bytes_written := total_bytes_written b + ucast byte_count\<rparr> else b))
               else ret ())
        (ret (if result = 0 then sint byte_count else - ERESTARTSYS, block_time, unblock_time)))))))"

definition write_locked :: "kenv \<Rightarrow> xenv \<Rightarrow> nat \<Rightarrow> nat \<Rightarrow> dma_block list \<Rightarrow> outcome iprog" where
  "write_locked K X fuel a blocks =
     bind (in_kernel (the_board a)) (\<lambda>b.
       if write_mutex b then ret (failed X (- EBUSY))
       else
         andThen (in_kernel (set_board a (\<lambda>b. b\<lparr>write_mutex := True\<rparr>)))
         (andThen (in_kernel (clear_dma_status a START_WRITE))
         (bind (in_kernel (the_board a)) (\<lambda>b.
          bind (in_kernel (write_send K a fuel blocks (16 - write_buffers_level b))) (\<lambda>err.
            if err \<noteq> 0 then andThen (in_kernel (set_board a (\<lambda>b. b\<lparr>write_mutex := False\<rparr>))) (ret (failed X err))
            else write_complete K X a)))))"

definition write_pages :: "kenv \<Rightarrow> xenv \<Rightarrow> nat \<Rightarrow> nat \<Rightarrow> geometry \<Rightarrow> outcome iprog" where
  "write_pages K X fuel a g =
     (if 4096 < num_pages g then ret (failed X (- EFAULT))
      else if pg_offset g mod 128 \<noteq> 0 then ret (failed X (- EFAULT))
      else with_pages X g (\<lambda>pages. with_mapping X a g pages (write_locked K X fuel a)))"

definition bluenoc_write :: "kenv \<Rightarrow> xenv \<Rightarrow> nat \<Rightarrow> nat \<Rightarrow> u64 \<Rightarrow> u64 \<Rightarrow> int iprog" where
  "bluenoc_write K X fuel a buf count =
     bind (in_kernel (the_board a)) (\<lambda>b.
       if activation_level b \<noteq> BLUENOC_ACTIVE then ret (- EIO)
       else
         andThen (in_kernel (set_board a (\<lambda>b. if debugging b DEBUG_PROFILE
                    then b\<lparr>write_call_count := write_call_count b + 1\<rparr> else b)))
         (bind (profile_time X a (0, 0)) (\<lambda>start_time.
          if count = 0 then ret 0
          else
            bind (write_pages K X fuel a (page_geometry buf count)) (\<lambda>(err, block_time, unblock_time).
              andThen (bind (in_kernel (the_board a)) (\<lambda>b.
                 if debugging b DEBUG_PROFILE then
                   bind (getnstimeofday X) (\<lambda>finish_time. in_kernel (set_board a (\<lambda>b. b\<lparr>
                     total_write_call_ns := total_write_call_ns b + ns_between finish_time start_time,
                     total_write_blocked_ns := total_write_blocked_ns b + ns_between unblock_time block_time\<rparr>)))
                 else ret ()))
              (ret err)))))"

end
