(* ===== verification/Bluenoc_Pages.thy ===== *)
theory Bluenoc_Pages
  imports Bluenoc_Dma
begin

text \<open>
  The pages of a user buffer in \<^verbatim>\<open>bluenoc_read\<close> and \<^verbatim>\<open>bluenoc_write\<close>: the
  scatter-gather list covers the buffer exactly, byte by byte and in order, and the loop that
  marks modified pages marks those the transferred bytes lie in.
\<close>

section \<open>Page arithmetic in natural numbers\<close>

lemma and_mask_nat: "unat (x AND NOT PAGE_MASK) = unat x mod 4096" for x :: u64
proof -
  have "x AND NOT PAGE_MASK = take_bit 12 x"
    by (simp add: take_bit_eq_mask mask_eq_exp_minus_1)
  also have "\<dots> = x mod 4096" by (simp add: take_bit_eq_mod)
  finally show ?thesis by (simp add: unat_mod)
qed

lemma and_page_nat: "unat (x AND PAGE_MASK) = unat x div 4096 * 4096" for x :: u64
proof -
  have "(x AND PAGE_MASK) + (x AND NOT PAGE_MASK) = (x AND PAGE_MASK) OR (x AND NOT PAGE_MASK)"
    by (rule disjunctive_add_eq_or, rule bit_word_eqI) (auto simp: bit_simps)
  also have "\<dots> = x" by (rule bit_word_eqI) (auto simp: bit_simps)
  finally have sum: "(x AND PAGE_MASK) + (x AND NOT PAGE_MASK) = x" .
  have "x AND PAGE_MASK \<le> (x AND PAGE_MASK) + (x AND NOT PAGE_MASK)"
    unfolding sum by (rule word_and_le2)
  then have "unat x = unat (x AND PAGE_MASK) + unat (x AND NOT PAGE_MASK)"
    by (metis sum unat_plus_simple)
  then show ?thesis unfolding and_mask_nat using div_mult_mod_eq [of "unat x" 4096] by linarith
qed

lemma page_number_nat: "unat (drop_bit PAGE_SHIFT (x AND PAGE_MASK)) = unat x div 4096" for x :: u64
proof -
  have "unat (drop_bit PAGE_SHIFT (x AND PAGE_MASK)) = unat (x AND PAGE_MASK) div 4096"
    by (simp add: drop_bit_eq_div unat_div)
  then show ?thesis by (simp only: and_page_nat)
qed

text \<open>The geometry in natural numbers, for a buffer that does not wrap around.\<close>

lemma geometry_nat:
  assumes "unat buf + unat count < 2 ^ 64" "0 < unat count" "unat count < 2 ^ 31"
  defines "o0 \<equiv> unat buf mod 4096" and "g \<equiv> page_geometry buf count"
  shows "num_pages g = int ((o0 + unat count - 1) div 4096 + 1)"
    and "unat (pg_offset g) = o0" and "unat (first_page g) = unat buf div 4096 * 4096"
    and "unat (first_page_len g) = (if num_pages g = 1 then unat count else 4096 - o0)"
    and "unat (last_page_len g) = (if (o0 + unat count) mod 4096 = 0 then 4096 else (o0 + unat count) mod 4096)"
proof -
  have end_nat: "unat (buf + count) = unat buf + unat count" using assms(1) by (simp add: unat_word_ariths)
  have "unat (buf + count - 1) = unat buf + unat count - 1"
    using assms(2) end_nat by (metis (no_types) add_gr_0 unat_1 unat_gt_0 unat_minus_one)
  then have last: "unat (drop_bit PAGE_SHIFT ((buf + count - 1) AND PAGE_MASK)) = (unat buf + unat count - 1) div 4096"
    by (simp only: page_number_nat)
  have split: "unat buf = unat buf div 4096 * 4096 + o0" unfolding o0_def by simp
  have pages: "(unat buf + unat count - 1) div 4096 = unat buf div 4096 + (o0 + unat count - 1) div 4096"
  proof -
    have "unat buf + unat count - 1 = (o0 + unat count - 1) + unat buf div 4096 * 4096" using split assms(2) by linarith
    then show ?thesis by (simp only: div_mult_self3) 
  qed
  have off: "unat (ucast (buf AND NOT PAGE_MASK) :: u32) = o0"
    using and_mask_nat [of buf] unfolding o0_def by (simp only: unsigned_ucast_eq) (simp add: take_bit_nat_eq_self)
  then show "unat (pg_offset g) = o0" unfolding g_def page_geometry_def by (simp add: Let_def)
  have eq_nat: "w = of_nat n" if "unat w = n" for w :: u64 and n using that by auto
  define M where "M = (o0 + unat count - 1) div 4096"
  have M: "M + 1 < 2 ^ 31" using assms(3) unfolding M_def o0_def by auto
  have "drop_bit PAGE_SHIFT ((buf + count - 1) AND PAGE_MASK) - drop_bit PAGE_SHIFT (buf AND PAGE_MASK) + 1
      = (of_nat (unat buf div 4096 + M) - of_nat (unat buf div 4096) + 1 :: u64)"
    using eq_nat [OF last [unfolded pages]] eq_nat [OF page_number_nat [of buf]] unfolding M_def by (simp only:)
  also have "\<dots> = of_nat (M + 1)" by simp
  finally have w: "drop_bit PAGE_SHIFT ((buf + count - 1) AND PAGE_MASK) - drop_bit PAGE_SHIFT (buf AND PAGE_MASK) + 1
      = (of_nat (M + 1) :: u64)" .
  have "uint (ucast (of_nat (M + 1) :: u64) :: u32) = int (M + 1)"
    using M by (simp only: unsigned_ucast_eq unsigned_of_nat) (simp add: take_bit_nat_eq_self take_bit_int_eq_self)
  then have "sint (ucast (of_nat (M + 1) :: u64) :: u32) = int (M + 1)"
    using M by (simp only: sint_uint) (simp add: signed_take_bit_int_eq_self)
  then show np: "num_pages g = int ((o0 + unat count - 1) div 4096 + 1)"
    unfolding g_def page_geometry_def Let_def w M_def by simp
  show "unat (first_page g) = unat buf div 4096 * 4096"
    unfolding g_def page_geometry_def Let_def using and_page_nat [of buf] by simp
  have "unat (ucast count :: u32) = unat count" using assms(3) by (simp only: unsigned_ucast_eq) (simp add: take_bit_nat_eq_self)
  moreover have "unat (PAGE_SIZE - ucast (buf AND NOT PAGE_MASK)) = 4096 - o0"
    using off unfolding o0_def by (subst unat_sub) (simp_all only: word_le_nat_alt, simp_all)
  moreover have "first_page_len g = (if num_pages g = 1 then ucast count else PAGE_SIZE - ucast (buf AND NOT PAGE_MASK))"
    unfolding g_def page_geometry_def Let_def by simp
  ultimately show "unat (first_page_len g) = (if num_pages g = 1 then unat count else 4096 - o0)" by simp
  have "unat (ucast ((buf + count) AND NOT PAGE_MASK) :: u32) = (unat buf + unat count) mod 4096"
    using and_mask_nat [of "buf + count"] end_nat by (simp only: unsigned_ucast_eq) (simp add: take_bit_nat_eq_self)
  also have "\<dots> = (o0 + unat count) mod 4096" unfolding o0_def by (simp add: mod_add_left_eq)
  finally show "unat (last_page_len g) = (if (o0 + unat count) mod 4096 = 0 then 4096 else (o0 + unat count) mod 4096)"
    unfolding g_def page_geometry_def Let_def by (simp add: unat_eq_0 [symmetric])
qed

text \<open>The addresses an entry stands for, when it is entry \<^verbatim>\<open>i\<close> of a list that starts at \<^verbatim>\<open>base\<close>.\<close>

definition span :: "nat \<Rightarrow> nat \<times> sg_entry \<Rightarrow> nat list" where
  "span base e = (case e of (i, f, len, off) \<Rightarrow>
     [base + i * 4096 + unat off..<base + i * 4096 + unat off + unat len])"

lemma upt_join: "a \<le> b \<Longrightarrow> b \<le> c \<Longrightarrow> [a..<b] @ [b..<c] = [a..<c]" for a b c :: nat
  using upt_add_eq_append [of a b "c - b"] by simp

lemma tail_bytes:
  fixes t k :: nat
  assumes "(t - 1) div 4096 = k" "0 < t"
  shows "(if t mod 4096 = 0 then 4096 else t mod 4096) = t - k * 4096 \<and> k * 4096 \<le> t"
proof -
  have "t - 1 = k * 4096 + (t - 1) mod 4096" using assms(1) by (metis div_mult_mod_eq)
  moreover have "(t - 1) mod 4096 < 4096" by simp
  ultimately obtain r where r: "t = k * 4096 + Suc r" "r < 4096" using assms(2) by (metis Suc_diff_1 add_Suc_right)
  then show ?thesis by (cases "Suc r = 4096") simp_all
qed

lemma page_size_nat: "unat PAGE_SIZE = 4096"
  by simp

lemma spans_middle:
  "concat (map (span base) (enumerate i (map (\<lambda>n. (pages ! n, PAGE_SIZE, 0)) [i..<j]))) =
     [base + i * 4096..<base + max i j * 4096]"
proof (induction "j - i" arbitrary: i)
  case (Suc m)
  then have i: "i < j" "m = j - Suc i" by simp_all
  have "concat (map (span base) (enumerate i (map (\<lambda>n. (pages ! n, PAGE_SIZE, 0)) [i..<j]))) =
      [base + i * 4096..<base + Suc i * 4096] @ [base + Suc i * 4096..<base + max (Suc i) j * 4096]"
    using Suc.hyps(1) [OF i(2)] by (simp only: upt_conv_Cons [OF i(1)] list.map enumerate_simps concat.simps)
      (simp only: span_def prod.case page_size_nat unsigned_0 add_0_right mult_Suc add.assoc [symmetric]
        add.commute [of 4096])
  also have "\<dots> = [base + i * 4096..<base + max (Suc i) j * 4096]"
    by (rule upt_join) (use i(1) mult_le_mono1 [of "Suc i" j 4096] in \<open>simp_all add: max_def\<close>)
  finally show ?case using i(1) by (simp add: max_def)
qed simp

lemma enumerate_append: "enumerate n (xs @ ys) = enumerate n xs @ enumerate (n + length xs) ys"
  by (induction xs arbitrary: n) simp_all

lemma geometry_pages:
  assumes "unat buf + unat count < 2 ^ 64" "0 < unat count" "unat count < 2 ^ 31"
  shows "1 \<le> num_pages (page_geometry buf count)"
  using geometry_nat(1) [OF assms] by simp

lemma sg_list_frames:
  assumes "int (length pages) = num_pages g" "1 \<le> num_pages g"
  shows "map fst (sg_list g pages) = pages"
proof (cases "num_pages g = 1")
  case True
  then show ?thesis using assms by (cases pages) (auto simp: sg_list_def)
next
  case False
  define m where "m = length pages - 2"
  have len: "length pages = Suc (Suc m)" "nat (num_pages g) = Suc (Suc m)" "1 < num_pages g"
    using assms False unfolding m_def by linarith+
  have "pages = map ((!) pages) [0..<Suc (Suc m)]" using len(1) by (metis map_nth)
  also have "[0..<Suc (Suc m)] = 0 # [1..<Suc m] @ [Suc m]" by (simp add: upt_rec [of 0])
  finally show ?thesis using len by (simp add: sg_list_def comp_def del: upt_Suc)
qed

lemma sg_list_spans:
  assumes "unat buf + unat count < 2 ^ 64" "0 < unat count" "unat count < 2 ^ 31"
  shows "concat (map (span (unat (first_page (page_geometry buf count))))
      (enumerate 0 (sg_list (page_geometry buf count) pages))) = [unat buf..<unat buf + unat count]"
proof -
  define g where "g = page_geometry buf count"
  define o0 where "o0 = unat buf mod 4096"
  define base where "base = unat buf div 4096 * 4096"
  note geo = geometry_nat [OF assms, folded g_def o0_def]
  have first: "unat (first_page g) = base" using geo(3) unfolding base_def .
  have buf: "unat buf = base + o0" "o0 < 4096" unfolding base_def o0_def by simp_all
  have "concat (map (span (unat (first_page g))) (enumerate 0 (sg_list g pages))) = [unat buf..<unat buf + unat count]"
  proof (cases "num_pages g = 1")
    case True
    then have "sg_list g pages = [(pages ! 0, first_page_len g, pg_offset g)]" by (simp add: sg_list_def)
    moreover have "span base (0, pages ! 0, first_page_len g, pg_offset g) = [base + o0..<base + o0 + unat count]"
      using geo(2,4) True unfolding span_def by (simp only: prod.case if_True refl simp_thms mult_zero_left add_0_right)
    ultimately show ?thesis unfolding first by (simp add: buf(1))
  next
    case False
    define m where "m = (o0 + unat count - 1) div 4096 - 1"
    have np: "nat (num_pages g) = Suc (Suc m)" "1 < num_pages g" "(o0 + unat count - 1) div 4096 = Suc m"
      using geo(1) False unfolding m_def by auto
    have last: "unat (last_page_len g) = o0 + unat count - Suc m * 4096" "Suc m * 4096 \<le> o0 + unat count"
      using geo(5) tail_bytes [OF np(3)] assms(2) by simp_all
    have "sg_list g pages = (pages ! 0, first_page_len g, pg_offset g) #
        map (\<lambda>n. (pages ! n, PAGE_SIZE, 0)) [1..<Suc m] @ [(pages ! Suc m, last_page_len g, 0)]"
      using np by (simp add: sg_list_def)
    then have "concat (map (span (unat (first_page g))) (enumerate 0 (sg_list g pages))) =
        span base (0, pages ! 0, first_page_len g, pg_offset g) @
        concat (map (span base) (enumerate 1 (map (\<lambda>n. (pages ! n, PAGE_SIZE, 0)) [1..<Suc m]))) @
        span base (Suc m, pages ! Suc m, last_page_len g, 0)"
      unfolding first by (simp add: enumerate_append del: upt_Suc)
    also have "span base (0, pages ! 0, first_page_len g, pg_offset g) = [base + o0..<base + 4096]"
      using geo(2,4) False buf(2) by (simp add: span_def)
    also have "span base (Suc m, pages ! Suc m, last_page_len g, 0) = [base + Suc m * 4096..<base + o0 + unat count]"
      using last by (simp add: span_def add.assoc)
    also have "concat (map (span base) (enumerate 1 (map (\<lambda>n. (pages ! n, PAGE_SIZE, 0)) [1..<Suc m]))) =
        [base + 4096..<base + Suc m * 4096]" unfolding spans_middle by simp
    also have "[base + 4096..<base + Suc m * 4096] @ [base + Suc m * 4096..<base + o0 + unat count]
        = [base + 4096..<base + o0 + unat count]" by (rule upt_join) (use last(2) in simp_all)
    also have "[base + o0..<base + 4096] @ [base + 4096..<base + o0 + unat count] = [base + o0..<base + o0 + unat count]"
      by (rule upt_join) (use last(2) buf(2) in simp_all)
    finally show ?thesis using buf(1) by simp
  qed
  then show ?thesis unfolding g_def .
qed
lemma sg_list_bounded:
  assumes "unat buf + unat count < 2 ^ 64" "0 < unat count" "unat count < 2 ^ 31"
    and "(f, len, off) \<in> set (sg_list (page_geometry buf count) pages)"
  shows "0 < unat len \<and> unat off + unat len \<le> 4096"
proof -
  define g where "g = page_geometry buf count"
  define o0 where "o0 = unat buf mod 4096"
  note geo = geometry_nat [OF assms(1-3), folded g_def o0_def]
  have o0: "o0 < 4096" unfolding o0_def by simp
  have one: "o0 + unat count \<le> 4096" if "num_pages g = 1"
  proof -
    have "(o0 + unat count - 1) div 4096 = 0" using geo(1) that by simp
    then show ?thesis using assms(2) by (simp add: div_eq_0_iff)
  qed
  consider "len = first_page_len g" "off = pg_offset g" | "len = PAGE_SIZE" "off = 0" | "len = last_page_len g" "off = 0"
    using assms(4) unfolding g_def [symmetric] sg_list_def by (auto split: if_splits)
  then show ?thesis
  proof cases
    case 1
    then show ?thesis using geo(2,4) o0 one assms(2) by (cases "num_pages g = 1") simp_all
  next
    case 2
    then show ?thesis using page_size_nat by simp
  next
    case 3
    have "unat (last_page_len g) = (if (o0 + unat count) mod 4096 = 0 then 4096 else (o0 + unat count) mod 4096)"
      by (rule geo(5))
    moreover have "(o0 + unat count) mod 4096 < 4096" by simp
    ultimately show ?thesis using 3 by (simp split: if_splits)
  qed
qed

section \<open>Marking modified pages\<close>

text \<open>The number of pages of the buffer that hold its first \<^verbatim>\<open>n\<close> bytes.\<close>

definition pages_touched :: "nat \<Rightarrow> nat \<Rightarrow> nat" where
  "pages_touched off n = (off + n + 4095) div 4096"

lemma dirty_inner:
  assumes "0 < n" "0 < unat bytes"
  shows "dirty_pages g n rest bytes = take (pages_touched 0 (unat bytes)) rest"
  using assms
proof (induction rest arbitrary: n bytes)
  case (Cons f rest)
  have pos: "0 < bytes" using Cons.prems(2) by (simp add: unat_gt_0 word_neq_0_conv)
  show ?case
  proof (cases "bytes \<le> PAGE_SIZE")
    case True
    then have "unat bytes \<le> 4096" using word_le_nat_alt page_size_nat by metis
    then have "pages_touched 0 (unat bytes) = 1"
      using Cons.prems(2) unfolding pages_touched_def by (intro div_nat_eqI) simp_all
    then show ?thesis using True pos Cons.prems(1) by simp
  next
    case False
    then have gt: "4096 < unat bytes" using word_le_nat_alt [of bytes PAGE_SIZE] page_size_nat by simp
    have sub: "unat (bytes - PAGE_SIZE) = unat bytes - 4096"
      using False by (subst unat_sub) simp_all
    have "pages_touched 0 (unat bytes) = Suc (pages_touched 0 (unat bytes - 4096))"
    proof -
      have "0 + unat bytes + 4095 = (0 + (unat bytes - 4096) + 4095) + 1 * 4096" using gt by simp
      then show ?thesis unfolding pages_touched_def by simp
    qed
    then show ?thesis
      using False pos Cons.prems(1) Cons.IH [of "Suc n" "bytes - PAGE_SIZE"] gt sub by (cases rest) simp_all
  qed
qed simp

lemma dirty_from_start:
  assumes "unat buf + unat count < 2 ^ 64" "0 < unat count" "unat count < 2 ^ 31"
    and "int (length pages) = num_pages (page_geometry buf count)" "0 < unat bytes" "unat bytes \<le> unat count"
  shows "dirty_pages (page_geometry buf count) 0 pages bytes =
    take (pages_touched (unat buf mod 4096) (unat bytes)) pages"
proof -
  define g where "g = page_geometry buf count"
  define o0 where "o0 = unat buf mod 4096"
  note geo = geometry_nat [OF assms(1-3), folded g_def o0_def]
  have o0: "o0 < 4096" unfolding o0_def by simp
  have pos: "0 < bytes" using assms(5) by (simp add: unat_gt_0 word_neq_0_conv)
  obtain f rest where pages: "pages = f # rest" using assms(4) geometry_pages [OF assms(1-3)] by (cases pages) auto
  show ?thesis
  proof (cases "bytes \<le> first_page_len g")
    case True
    then have le: "unat bytes \<le> unat (first_page_len g)" by (simp add: word_le_nat_alt)
    have "o0 + unat (first_page_len g) \<le> 4096"
      using sg_list_bounded [OF assms(1-3), of "pages ! 0" "first_page_len g" "pg_offset g" pages] geo(2)
      by (simp add: sg_list_def g_def)
    then have "pages_touched o0 (unat bytes) = 1"
      using le assms(5) o0 unfolding pages_touched_def by (intro div_nat_eqI) simp_all
    then show ?thesis using True pos unfolding pages g_def [symmetric] o0_def [symmetric] by simp
  next
    case False
    then have gt: "unat (first_page_len g) < unat bytes" by (simp add: word_le_nat_alt)
    then have len: "unat (first_page_len g) = 4096 - o0" using geo(4) assms(6) by (simp split: if_splits)
    have sub: "unat (bytes - first_page_len g) = unat bytes - (4096 - o0)"
      using False len by (subst unat_sub) simp_all
    have "o0 + unat bytes + 4095 = (0 + (unat bytes - (4096 - o0)) + 4095) + 1 * 4096" using gt len o0 by simp
    then have "pages_touched o0 (unat bytes) = Suc (pages_touched 0 (unat bytes - (4096 - o0)))"
      unfolding pages_touched_def by simp
    then show ?thesis
      using False pos gt len sub dirty_inner [of 1 "bytes - first_page_len g" g rest]
      unfolding pages g_def [symmetric] o0_def [symmetric] by simp
  qed
qed

section \<open>Properties\<close>

text \<open>C9. For a buffer that does not wrap around, of 1 to 2^31 - 1 bytes, the scatter-gather
  list has one entry for each pinned page, in order; every entry is not empty and lies within
  its page, and the entries together stand for exactly the bytes of the buffer.\<close>

theorem sg_list_covers_buffer:
  assumes "unat buf + unat count < 2 ^ 64" "0 < unat count" "unat count < 2 ^ 31"
    and "int (length pages) = num_pages (page_geometry buf count)"
  shows "map fst (sg_list (page_geometry buf count) pages) = pages \<and>
    list_all (\<lambda>(f, len, off). 0 < unat len \<and> unat off + unat len \<le> 4096) (sg_list (page_geometry buf count) pages) \<and>
    concat (map (span (unat (first_page (page_geometry buf count))))
      (enumerate 0 (sg_list (page_geometry buf count) pages))) = [unat buf..<unat buf + unat count]"
proof (intro conjI)
  show "map fst (sg_list (page_geometry buf count) pages) = pages"
    by (rule sg_list_frames [OF assms(4) geometry_pages [OF assms(1-3)]])
  show "list_all (\<lambda>(f, len, off). 0 < unat len \<and> unat off + unat len \<le> 4096) (sg_list (page_geometry buf count) pages)"
    using sg_list_bounded [OF assms(1-3)] by (auto simp: list_all_iff)
  show "concat (map (span (unat (first_page (page_geometry buf count))))
      (enumerate 0 (sg_list (page_geometry buf count) pages))) = [unat buf..<unat buf + unat count]"
    by (rule sg_list_spans [OF assms(1-3)])
qed

lemma geometry_example: "num_pages (page_geometry 4224 8192) = 3"
  by (simp add: page_geometry_def Let_def)

theorem sg_list_covers_buffer_witness:
  "map fst (sg_list (page_geometry 4224 8192) [70, 12, 13]) = [70, 12, 13] \<and>
    concat (map (span (unat (first_page (page_geometry 4224 8192))))
      (enumerate 0 (sg_list (page_geometry 4224 8192) [70, 12, 13]))) = [unat (4224 :: u64)..<unat (4224 :: u64) + unat (8192 :: u64)]"
proof -
  have "unat (4224 :: u64) + unat (8192 :: u64) < 2 ^ 64" "0 < unat (8192 :: u64)" "unat (8192 :: u64) < 2 ^ 31"
    "int (length [70, 12, 13 :: nat]) = num_pages (page_geometry 4224 8192)"
    using geometry_example by simp_all
  from sg_list_covers_buffer [OF this] show ?thesis by blast
qed

text \<open>C40. After a read of at least one and at most \<^verbatim>\<open>count\<close> bytes, the pages marked as
  modified are, in order, exactly those that hold the bytes transferred (reserved pages are
  left out).\<close>

theorem marked_pages_exact:
  assumes "unat buf + unat count < 2 ^ 64" "0 < unat count" "unat count < 2 ^ 31"
    and "int (length pages) = num_pages (page_geometry buf count)" "0 < unat bytes" "unat bytes \<le> unat count"
  shows "\<exists>s'. mark_dirty X (page_geometry buf count) pages bytes s = (Inr (), s') \<and>
    dirty s' = dirty s \<union> {f \<in> set (take ((unat buf mod 4096 + unat bytes + 4095) div 4096) pages). \<not> x_reserved X f}"
  using dirty_from_start [OF assms] by (simp add: mark_dirty_def pages_touched_def)

theorem marked_pages_exact_witness:
  "\<forall>X s. \<exists>s'. mark_dirty X (page_geometry 4224 8192) [70, 12, 13] 4000 s = (Inr (), s') \<and>
    dirty s' = dirty s \<union> {f. (f = 70 \<or> f = 12) \<and> \<not> x_reserved X f}"
proof (intro allI)
  fix X s
  have "unat (4224 :: u64) + unat (8192 :: u64) < 2 ^ 64" "0 < unat (8192 :: u64)" "unat (8192 :: u64) < 2 ^ 31"
    "int (length [70, 12, 13 :: nat]) = num_pages (page_geometry 4224 8192)"
    "0 < unat (4000 :: u32)" "unat (4000 :: u32) \<le> unat (8192 :: u64)"
    using geometry_example by simp_all
  from marked_pages_exact [OF this, of X s]
  show "\<exists>s'. mark_dirty X (page_geometry 4224 8192) [70, 12, 13] 4000 s = (Inr (), s') \<and>
    dirty s' = dirty s \<union> {f. (f = 70 \<or> f = 12) \<and> \<not> x_reserved X f}" by simp
qed

lemma low48: "x AND 0xffffffffffff = take_bit 48 x" for x :: u64
  by (simp add: take_bit_eq_mask mask_eq_exp_minus_1)

lemma low14: "x AND 0x3fff = take_bit 14 x" for x :: u64
  by (simp add: take_bit_eq_mask mask_eq_exp_minus_1)

lemma bit_62: "bit (4611686018427387904 :: int) n = (n = 62)"
proof -
  have "(4611686018427387904 :: int) = 2 ^ 62" by simp
  then show ?thesis by (simp only: bit_exp_iff) auto
qed

text \<open>The fields of a DMA command: bit 63 ends the list, bit 62 is set when the command
  fills the last free slot, bits 48 to 61 hold the length modulo 16384, and bits 0 to 47 the
  address, which comes back whole when it has no more than 48 bits.\<close>

theorem dma_cmd_fields:
  fixes addr :: u64 and len slots :: u32 and final :: bool
  assumes "addr = addr AND 0xffffffffffff"
  defines "cmd \<equiv> with_interrupt slots (dma_cmd final (addr, len))"
  shows "(bit cmd 63 = final) \<and> (bit cmd 62 = (slots = 1)) \<and>
    unat (drop_bit 48 cmd AND 0x3fff) = unat len mod 16384 \<and> cmd AND 0xffffffffffff = addr"
proof (intro conjI)
  have addr: "\<not> bit addr n" if "48 \<le> n" for n
    using assms(1) that unfolding low48 by (metis bit_take_bit_iff not_le)
  show "bit cmd 63 = final" "bit cmd 62 = (slots = 1)"
    unfolding cmd_def with_interrupt_def dma_cmd_def low48 low14 by (simp_all add: bit_simps)
  have "drop_bit 48 cmd AND 0x3fff = take_bit 14 (ucast len)"
    unfolding cmd_def with_interrupt_def dma_cmd_def low48 low14
    by (rule bit_word_eqI) (auto simp: bit_simps bit_62)
  moreover have "unat (ucast len :: u64) = unat len"
    using unsigned_less [of len, where ?'a = nat] by (simp only: unsigned_ucast_eq) (simp add: take_bit_nat_eq_self)
  ultimately show "unat (drop_bit 48 cmd AND 0x3fff) = unat len mod 16384"
    by (simp add: unat_mod take_bit_eq_mod)
  show "cmd AND 0xffffffffffff = addr"
    unfolding cmd_def with_interrupt_def dma_cmd_def low48 low14
    by (rule bit_word_eqI) (use addr in \<open>auto simp: bit_simps bit_62 not_le [symmetric]\<close>)
qed

theorem dma_cmd_fields_witness:
  "bit (with_interrupt 1 (dma_cmd False (0x7fff12345680, 4096))) 63 = False \<and>
    bit (with_interrupt 1 (dma_cmd False (0x7fff12345680, 4096))) 62 = ((1 :: u32) = 1) \<and>
    unat (drop_bit 48 (with_interrupt 1 (dma_cmd False (0x7fff12345680, 4096))) AND 0x3fff) = unat (4096 :: u32) mod 16384 \<and>
    with_interrupt 1 (dma_cmd False (0x7fff12345680, 4096)) AND 0xffffffffffff = 0x7fff12345680"
  by (rule dma_cmd_fields) simp

end
