(* ===== verification/Bluenoc_Transfer.thy ===== *)
theory Bluenoc_Transfer
  imports Bluenoc_Pages Bluenoc_Driver
begin

text \<open>
  \<^verbatim>\<open>bluenoc_read\<close> and \<^verbatim>\<open>bluenoc_write\<close> as wholes: they give back every page,
  table and mapping they took, never fault on an active board, leave the lock as they found
  it, and return the device's count of a completed transfer or an error code.
\<close>

section \<open>What a call holds\<close>

definition held :: "io \<Rightarrow> (nat \<Rightarrow> int) \<times> int \<times> int \<times> int" where
  "held s = (pins s, page_arrays s, sg_tables s, mappings s)"

text \<open>A program that returns with what was held before it.\<close>

abbreviation gives_back :: "'a iprog \<Rightarrow> bool" where
  "gives_back p \<equiv> \<forall>h. hoare (\<lambda>s. held s = h) p (\<lambda>_ s. held s = h) (\<lambda>_ _. True)"

lemma gives_back_bind: "gives_back p \<Longrightarrow> (\<And>x. gives_back (f x)) \<Longrightarrow> gives_back (bind p f)"
  by (blast intro: hoare_bind)

lemma gives_back_andThen: "gives_back p \<Longrightarrow> gives_back q \<Longrightarrow> gives_back (andThen p q)"
  by (blast intro: hoare_andThen)

lemma gives_back_ret: "gives_back (ret x)"
  by (blast intro: hoare_ret)

lemma gives_back_raise: "gives_back (raise e)"
  by (blast intro: hoare_raise)

lemma gives_back_if: "(c \<Longrightarrow> gives_back p) \<Longrightarrow> (\<not> c \<Longrightarrow> gives_back q) \<Longrightarrow> gives_back (if c then p else q)"
  by simp

lemma gives_back_modify: "(\<And>s. held (f s) = held s) \<Longrightarrow> gives_back (modify f)"
  by (auto intro: hoare_modify)

lemma gives_back_kernel: "gives_back (in_kernel p)"
  by (auto intro!: hoareI simp: in_kernel_def held_def split: prod.splits sum.splits)

lemma gives_back_clock: "gives_back (getnstimeofday X)"
  by (auto intro!: hoareI simp: getnstimeofday_def held_def)

lemma gives_back_outcome: "(\<And>e b u. gives_back (f e b u)) \<Longrightarrow> gives_back (case r of (e, b, u) \<Rightarrow> f e b u)"
  by (cases r) simp

lemmas gives_back_intros = gives_back_bind gives_back_andThen gives_back_ret gives_back_raise gives_back_if
  gives_back_kernel gives_back_clock gives_back_outcome

lemma foldl_pins:
  fixes p :: "nat \<Rightarrow> int" and c :: int
  shows "foldl (\<lambda>p f. p(f := p f + c)) p xs = (\<lambda>f. p f + c * int (count_list xs f))"
  by (induction xs arbitrary: p) (auto simp: fun_eq_iff algebra_simps)

lemma unpin: "foldl (\<lambda>p f. p(f := p f - 1)) (foldl (\<lambda>p f. p(f := p f + 1)) p xs) xs = p" for p :: "nat \<Rightarrow> int"
  by (simp add: foldl_pins [where c = "- 1", simplified] foldl_pins [where c = 1, simplified])

text \<open>A counter raised before a program and lowered after it.\<close>

lemma gives_back_counter:
  assumes "gives_back p" "\<And>s. held (up s) = g (held s)" "\<And>s. held (down s) = g' (held s)" "\<And>h. g' (g h) = h"
  shows "gives_back (andThen (modify up) (bind p (\<lambda>r. andThen (modify down) (ret r))))"
proof
  fix h
  show "hoare (\<lambda>s. held s = h) (andThen (modify up) (bind p (\<lambda>r. andThen (modify down) (ret r))))
     (\<lambda>_ s. held s = h) (\<lambda>_ _. True)"
  proof (rule hoare_andThen)
    show "hoare (\<lambda>s. held s = h) (modify up) (\<lambda>_ s. held s = g h) (\<lambda>_ _. True)"
      by (rule hoare_modify) (simp add: assms(2))
    show "hoare (\<lambda>s. held s = g h) (bind p (\<lambda>r. andThen (modify down) (ret r))) (\<lambda>_ s. held s = h) (\<lambda>_ _. True)"
      by (rule hoare_bind [OF assms(1) [THEN spec]], rule hoare_andThen [OF hoare_modify hoare_ret])
        (auto simp: assms(3,4))
  qed
qed

lemma gives_back_pages:
  assumes "\<And>pages. gives_back (body pages)"
  shows "gives_back (with_pages X g body)"
proof -
  let ?pages = "map (x_frame X) [0..<nat (x_pin X (num_pages g))]"
  let ?p = "if x_pin X (num_pages g) \<noteq> num_pages g
     then ret (failed X (if x_pin X (num_pages g) < 0 then x_pin X (num_pages g) else - EINVAL)) else body ?pages"
  let ?up = "\<lambda>s. s\<lparr>pins := foldl (\<lambda>p f. p(f := p f + 1)) (pins s) ?pages\<rparr>"
  let ?down = "\<lambda>s. s\<lparr>pins := foldl (\<lambda>p f. p(f := p f - 1)) (pins s) ?pages\<rparr>"
  have p: "gives_back ?p" using assms by (auto intro: hoare_ret)
  have "gives_back (andThen (modify ?up) (bind ?p (\<lambda>r. andThen (modify ?down) (ret r))))"
    by (rule gives_back_counter [OF p, where
          g = "\<lambda>(p, t). (foldl (\<lambda>p f. p(f := p f + 1)) p ?pages, t)" and
          g' = "\<lambda>(p, t). (foldl (\<lambda>p f. p(f := p f - 1)) p ?pages, t)"])
      (auto simp: held_def unpin)
  moreover have "bind (get_user_pages X (num_pages g)) (\<lambda>(result, pages).
      if result \<noteq> num_pages g
      then andThen (release_pages pages) (ret (failed X (if result < 0 then result else - EINVAL)))
      else bind (body pages) (\<lambda>r. andThen (release_pages pages) (ret r))) =
    andThen (modify ?up) (bind ?p (\<lambda>r. andThen (modify ?down) (ret r)))"
    by (cases "x_pin X (num_pages g) = num_pages g")
      (simp_all add: fun_eq_iff get_user_pages_def release_pages_def Let_def andThen_def bind_def)
  ultimately have inner: "gives_back (bind (get_user_pages X (num_pages g)) (\<lambda>(result, pages).
      if result \<noteq> num_pages g
      then andThen (release_pages pages) (ret (failed X (if result < 0 then result else - EINVAL)))
      else bind (body pages) (\<lambda>r. andThen (release_pages pages) (ret r))))" by (simp only: simp_thms)
  have "gives_back (andThen (modify (\<lambda>s. s\<lparr>page_arrays := page_arrays s + 1\<rparr>))
     (bind (bind (get_user_pages X (num_pages g)) (\<lambda>(result, pages).
      if result \<noteq> num_pages g
      then andThen (release_pages pages) (ret (failed X (if result < 0 then result else - EINVAL)))
      else bind (body pages) (\<lambda>r. andThen (release_pages pages) (ret r))))
     (\<lambda>r. andThen (modify (\<lambda>s. s\<lparr>page_arrays := page_arrays s - 1\<rparr>)) (ret r))))"
    by (rule gives_back_counter [OF inner, where g = "\<lambda>(p, a, t). (p, a + 1, t)" and g' = "\<lambda>(p, a, t). (p, a - 1, t)"])
      (auto simp: held_def)
  moreover have "bind (get_user_pages X (num_pages g)) (\<lambda>(result, pages).
         bind (if result \<noteq> num_pages g
               then andThen (release_pages pages) (ret (failed X (if result < 0 then result else - EINVAL)))
               else bind (body pages) (\<lambda>r. andThen (release_pages pages) (ret r))) f) =
    bind (bind (get_user_pages X (num_pages g)) (\<lambda>(result, pages).
      if result \<noteq> num_pages g
      then andThen (release_pages pages) (ret (failed X (if result < 0 then result else - EINVAL)))
      else bind (body pages) (\<lambda>r. andThen (release_pages pages) (ret r)))) f" for f :: "outcome \<Rightarrow> outcome iprog"
    by (rule ext) (simp add: bind_def [of "get_user_pages X (num_pages g)"] bind_def [of "bind _ _"] bind_def
        split: prod.splits sum.splits)
  ultimately show ?thesis by (simp add: with_pages_def gives_back_ret)
qed

text \<open>The scatter-gather table and the mapping, when the list can be mapped.\<close>

lemma gives_back_mapping:
  assumes "\<And>blocks. gives_back (body blocks)" "\<And>sg. 1 \<le> fst (x_map X sg)"
  shows "gives_back (with_mapping X a g pages body)"
proof -
  obtain xfers dma where m: "x_map X (sg_list g pages) = (xfers, dma)" by fastforce
  have x: "\<not> xfers < 1" using assms(2) [of "sg_list g pages"] m by simp
  define p where "p = bind (in_kernel (the_board a)) (\<lambda>b.
    if debugging b DEBUG_DMA \<and> \<not> list_all block_in_range (take (nat xfers) dma)
    then ret (failed X (- EFAULT)) else body (blocks_to_send X xfers dma))"
  have "gives_back p" unfolding p_def by (intro gives_back_bind gives_back_kernel gives_back_if gives_back_ret assms(1))
  from gives_back_counter [OF this, where
      up = "\<lambda>s. s\<lparr>sg_tables := sg_tables s + 1, mappings := mappings s + 1\<rparr>" and
      down = "\<lambda>s. s\<lparr>mappings := mappings s - 1, sg_tables := sg_tables s - 1\<rparr>" and
      g = "\<lambda>(p, a, s, m). (p, a, s + 1, m + 1)" and g' = "\<lambda>(p, a, s, m). (p, a, s - 1, m - 1)"]
  have "gives_back (andThen (modify (\<lambda>s. s\<lparr>sg_tables := sg_tables s + 1, mappings := mappings s + 1\<rparr>))
      (bind p (\<lambda>r. andThen (modify (\<lambda>s. s\<lparr>mappings := mappings s - 1, sg_tables := sg_tables s - 1\<rparr>)) (ret r))))"
    by (auto simp: held_def)
  moreover have "with_mapping X a g pages body =
      (if \<not> x_sg_ok X then ret (failed X (- ENOMEM)) else if num_pages g < 1 then raise Oops
       else andThen (modify (\<lambda>s. s\<lparr>sg_tables := sg_tables s + 1, mappings := mappings s + 1\<rparr>))
        (bind p (\<lambda>r. andThen (modify (\<lambda>s. s\<lparr>mappings := mappings s - 1, sg_tables := sg_tables s - 1\<rparr>)) (ret r))))"
    unfolding with_mapping_def m Let_def prod.case if_not_P [OF x] p_def [symmetric]
    by (simp add: fun_eq_iff andThen_def bind_def)
  ultimately show ?thesis by (simp add: gives_back_ret gives_back_raise)
qed

lemma gives_back_read_locked: "gives_back (read_locked K X fuel a g pages blocks)"
  unfolding read_locked_def read_complete_def profile_time_def mark_dirty_def
  by (intro gives_back_intros gives_back_modify) (simp add: held_def)

lemma gives_back_write_locked: "gives_back (write_locked K X fuel a blocks)"
  unfolding write_locked_def write_complete_def profile_time_def
  by (intro gives_back_intros)

lemma gives_back_read:
  assumes "\<And>sg. 1 \<le> fst (x_map X sg)"
  shows "gives_back (bluenoc_read K X fuel a buf count)"
  unfolding bluenoc_read_def read_pages_def profile_time_def
  by (intro gives_back_intros gives_back_pages gives_back_mapping gives_back_read_locked assms)

lemma gives_back_write:
  assumes "\<And>sg. 1 \<le> fst (x_map X sg)"
  shows "gives_back (bluenoc_write K X fuel a buf count)"
  unfolding bluenoc_write_def write_pages_def profile_time_def
  by (intro gives_back_intros gives_back_pages gives_back_mapping gives_back_write_locked assms)

section \<open>No faults, and the lock as it was\<close>

text \<open>The board is active, on device \<^verbatim>\<open>d\<close>, with its two locks as given.\<close>

definition ready :: "nat \<Rightarrow> nat \<Rightarrow> bool \<Rightarrow> bool \<Rightarrow> kernel \<Rightarrow> bool" where
  "ready a d rm wm k \<longleftrightarrow> (\<exists>b. board_ok k a b \<and> activation_level b = BLUENOC_ACTIVE \<and> pci_dev b = d \<and>
     read_mutex b = rm \<and> write_mutex b = wm)"

lemma ready_board:
  assumes "ready a d rm wm k"
  obtains b where "boards k a = Some b" "bar0io b \<noteq> 0" "pd_mapped (pci k (pci_dev b))" "pci_dev b = d"
    "activation_level b = BLUENOC_ACTIVE" "read_mutex b = rm" "write_mutex b = wm"
proof -
  obtain b where b: "board_ok k a b" "activation_level b = BLUENOC_ACTIVE" "pci_dev b = d"
      "read_mutex b = rm" "write_mutex b = wm"
    using assms unfolding ready_def by blast
  moreover have "boards k a = Some b" "bar0io b \<noteq> 0" "pd_mapped (pci k (pci_dev b))"
    using b(1,2) by (simp_all add: board_ok_def holds_upto_def levels)
  ultimately show ?thesis using that by blast
qed

lemma ready_update:
  assumes "ready a d rm wm k" "boards k a = Some b"
    and "pci_dev (f b) = pci_dev b" "activation_level (f b) = activation_level b" "uses_msix (f b) = uses_msix b"
    and "bar0io (f b) = bar0io b" "read_mutex (f b) = rm'" "write_mutex (f b) = wm'"
  shows "ready a d rm' wm' (k\<lparr>boards := (boards k)(a \<mapsto> f b)\<rparr>)"
proof -
  have b: "board_ok k a b" "activation_level b = BLUENOC_ACTIVE" "pci_dev b = d"
    using assms(1,2) unfolding ready_def board_ok_def by (metis option.inject)+
  have "board_ok (k\<lparr>boards := (boards k)(a \<mapsto> f b)\<rparr>) a (f b)"
    using b(1) assms(3-6) by (intro board_ok_update) (simp_all add: board_ok_def)
  then show ?thesis unfolding ready_def using b(2,3) assms(3,4,7,8) by (intro exI [of _ "f b"]) simp
qed

lemma ready_simps [simp]:
  "ready a d rm wm (k\<lparr>accesses := n\<rparr>) = ready a d rm wm k"
  "ready a d rm wm (k\<lparr>writes := ws\<rparr>) = ready a d rm wm k"
  "ready a d rm wm (k\<lparr>events := es\<rparr>) = ready a d rm wm k"
  by (simp_all add: ready_def board_ok_def)

text \<open>
  Programs that take a ready board from one state of its locks to another, with a result in
  \<^verbatim>\<open>V\<close>; they may block but never fault.
\<close>

type_synonym locks = "bool \<times> bool"

definition ready_in :: "nat \<Rightarrow> nat \<Rightarrow> locks \<Rightarrow> kernel \<Rightarrow> bool" where
  "ready_in a d m = ready a d (fst m) (snd m)"

definition safe :: "nat \<Rightarrow> nat \<Rightarrow> locks \<Rightarrow> 'a kprog \<Rightarrow> ('a \<Rightarrow> bool) \<Rightarrow> locks \<Rightarrow> bool" where
  "safe a d m p V m' \<longleftrightarrow> hoare (ready_in a d m) p (\<lambda>v k. ready_in a d m' k \<and> V v) (\<lambda>e _. e = Blocked)"

definition io_safe :: "nat \<Rightarrow> nat \<Rightarrow> locks \<Rightarrow> 'a iprog \<Rightarrow> ('a \<Rightarrow> bool) \<Rightarrow> locks \<Rightarrow> bool" where
  "io_safe a d m p V m' \<longleftrightarrow> hoare (\<lambda>s. ready_in a d m (kern s)) p
     (\<lambda>v s. ready_in a d m' (kern s) \<and> V v) (\<lambda>e _. e = Blocked)"

lemma ready_in_simps [simp]:
  "ready_in a d m (k\<lparr>accesses := n\<rparr>) = ready_in a d m k"
  "ready_in a d m (k\<lparr>writes := ws\<rparr>) = ready_in a d m k"
  "ready_in a d m (k\<lparr>events := es\<rparr>) = ready_in a d m k"
  by (simp_all add: ready_in_def)

text \<open>Both kinds compose in the same way.\<close>

lemma hoare_bind_value:
  assumes "hoare P p (\<lambda>v w. R w \<and> V v) X" "\<And>x. V x \<Longrightarrow> hoare R (f x) Q X"
  shows "hoare P (bind p f) Q X"
  by (rule hoare_bind [OF assms(1)]) (use assms(2) in \<open>auto simp: hoare_def\<close>)

lemma safe_bind: "safe a d m p V m1 \<Longrightarrow> (\<And>x. V x \<Longrightarrow> safe a d m1 (f x) W m') \<Longrightarrow> safe a d m (bind p f) W m'"
  unfolding safe_def by (rule hoare_bind_value)

lemma io_safe_bind:
  "io_safe a d m p V m1 \<Longrightarrow> (\<And>x. V x \<Longrightarrow> io_safe a d m1 (f x) W m') \<Longrightarrow> io_safe a d m (bind p f) W m'"
  unfolding io_safe_def by (rule hoare_bind_value)

lemma safe_andThen: "safe a d m p V m1 \<Longrightarrow> safe a d m1 q W m' \<Longrightarrow> safe a d m (andThen p q) W m'"
  unfolding andThen_def by (rule safe_bind)

lemma io_safe_andThen: "io_safe a d m p V m1 \<Longrightarrow> io_safe a d m1 q W m' \<Longrightarrow> io_safe a d m (andThen p q) W m'"
  unfolding andThen_def by (rule io_safe_bind)

lemma safe_ret: "V x \<Longrightarrow> safe a d m (ret x) V m"
  by (simp add: safe_def hoare_ret)

lemma io_safe_ret: "V x \<Longrightarrow> io_safe a d m (ret x) V m"
  by (simp add: io_safe_def hoare_ret)

lemma safe_blocked: "safe a d m (raise Blocked) V m'"
  by (simp add: safe_def hoare_raise)

lemma safe_if: "(c \<Longrightarrow> safe a d m p V m') \<Longrightarrow> (\<not> c \<Longrightarrow> safe a d m q V m') \<Longrightarrow> safe a d m (if c then p else q) V m'"
  by simp

lemma io_safe_if:
  "(c \<Longrightarrow> io_safe a d m p V m') \<Longrightarrow> (\<not> c \<Longrightarrow> io_safe a d m q V m') \<Longrightarrow> io_safe a d m (if c then p else q) V m'"
  by simp

lemma safe_modify: "(\<And>k. ready_in a d m (f k) = ready_in a d m k) \<Longrightarrow> V () \<Longrightarrow> safe a d m (modify f) V m"
  by (simp add: safe_def hoare_modify)

lemma io_safe_modify: "(\<And>s. kern (f s) = kern s) \<Longrightarrow> V () \<Longrightarrow> io_safe a d m (modify f) V m"
  by (simp add: io_safe_def hoare_modify)

lemma io_safe_kernel: "safe a d m p V m' \<Longrightarrow> io_safe a d m (in_kernel p) V m'"
  unfolding safe_def io_safe_def hoare_def in_kernel_def by (fastforce split: prod.splits sum.splits)

lemma safe_value: "safe a d m p V m' \<Longrightarrow> (\<And>x. V x \<Longrightarrow> W x) \<Longrightarrow> safe a d m p W m'"
  unfolding safe_def by (erule hoare_conseq) auto

section \<open>The parts of a transfer\<close>

lemma safe_the_board:
  "safe a d m (the_board a) (\<lambda>b. activation_level b = BLUENOC_ACTIVE \<and> read_mutex b = fst m \<and> write_mutex b = snd m) m"
  unfolding safe_def
proof (rule hoareI)
  fix k assume k: "ready_in a d m k"
  then obtain b where b: "boards k a = Some b" "activation_level b = BLUENOC_ACTIVE" "read_mutex b = fst m" "write_mutex b = snd m"
    unfolding ready_in_def by (rule ready_board)
  then show "case the_board a k of (Inl e, k') \<Rightarrow> e = Blocked | (Inr b, k') \<Rightarrow> ready_in a d m k' \<and>
      activation_level b = BLUENOC_ACTIVE \<and> read_mutex b = fst m \<and> write_mutex b = snd m"
    using k by (simp add: the_board_run)
qed

lemma safe_set_locks:
  assumes "\<And>b. pci_dev (f b) = pci_dev b \<and> activation_level (f b) = activation_level b \<and> uses_msix (f b) = uses_msix b \<and>
      bar0io (f b) = bar0io b"
    and "\<And>b. read_mutex b = fst m \<Longrightarrow> write_mutex b = snd m \<Longrightarrow> read_mutex (f b) = fst m' \<and> write_mutex (f b) = snd m'"
  shows "safe a d m (set_board a f) (\<lambda>_. True) m'"
  unfolding safe_def
proof (rule hoareI)
  fix k assume k: "ready_in a d m k"
  then obtain b where b: "boards k a = Some b" "read_mutex b = fst m" "write_mutex b = snd m"
    unfolding ready_in_def by (rule ready_board)
  show "case set_board a f k of (Inl e, k') \<Rightarrow> e = Blocked | (Inr v, k') \<Rightarrow> ready_in a d m' k' \<and> True"
    using ready_update [OF k [unfolded ready_in_def] b(1), of f] assms(1) [of b] assms(2) [OF b(2,3)] b
    by (simp add: set_board_run ready_in_def)
qed

lemma safe_set_board:
  assumes "\<And>b. pci_dev (f b) = pci_dev b \<and> activation_level (f b) = activation_level b \<and> uses_msix (f b) = uses_msix b \<and>
    bar0io (f b) = bar0io b \<and> read_mutex (f b) = read_mutex b \<and> write_mutex (f b) = write_mutex b"
  shows "safe a d m (set_board a f) (\<lambda>_. True) m"
  by (rule safe_set_locks) (simp_all add: assms)

lemma safe_access: "safe a d m (bar_access a) (\<lambda>e. e = d) m"
  unfolding safe_def
proof (rule hoareI)
  fix k assume k: "ready_in a d m k"
  then obtain b where b: "boards k a = Some b" "bar0io b \<noteq> 0" "pd_mapped (pci k (pci_dev b))" "pci_dev b = d"
    unfolding ready_in_def by (rule ready_board)
  show "case bar_access a k of (Inl e, k') \<Rightarrow> e = Blocked | (Inr e, k') \<Rightarrow> ready_in a d m k' \<and> e = d"
    using k b(4) by (simp add: bar_access_run [OF b(1-3)])
qed

lemma safe_iowrite: "safe a d m (iowrite width a off v) (\<lambda>_. True) m"
  unfolding iowrite_def by (rule safe_bind [OF safe_access], rule safe_modify) simp_all

lemma safe_writeq: "safe a d m (writeq a off v) (\<lambda>_. True) m"
  unfolding writeq_def by (rule safe_iowrite)

lemma safe_ioread32: "safe a d m (ioread32 K a off) (\<lambda>v. \<exists>t. v = k_reg K d t off) m"
  unfolding ioread32_def by (rule safe_bind [OF safe_access]) (auto simp: safe_def hoare_def)

lemma safe_readq: "safe a d m (readq K a off) (\<lambda>_. True) m"
  unfolding readq_def by (rule safe_bind [OF safe_access]) (auto simp: safe_def hoare_def)

lemma safe_status: "safe a d m (update_dma_buffer_status K a) (\<lambda>_. True) m"
  unfolding update_dma_buffer_status_def
  by (rule safe_bind [OF safe_readq], rule safe_set_board) simp

lemma safe_interrupt: "safe a d m (intr_handler K a) (\<lambda>_. True) m"
  unfolding intr_handler_def
  by (rule safe_andThen [OF safe_set_board safe_status]) simp

lemma safe_clear: "safe a d m (clear_dma_status a reason) (\<lambda>_. True) m"
  unfolding clear_dma_status_def iowrite32_def
  by (cases reason; simp only: dma_clear_reason.case; rule safe_andThen [OF safe_iowrite safe_set_board]; simp)

text \<open>A wait ends with 0 or with the code of an interrupted call.\<close>

lemma safe_wait_event: "safe a d m (wait_event K a P es) (\<lambda>r. r = 0 \<or> r = - ERESTARTSYS) m"
proof (induction es)
  case Nil
  have "wait_event K a P [] = bind (the_board a) (\<lambda>b. if P b then ret 0 else raise Blocked)" by (simp add: fun_eq_iff)
  then show ?case by (auto intro!: safe_bind [OF safe_the_board] safe_if safe_ret safe_blocked)
next
  case (Cons e es)
  have eq: "wait_event K a P (e # es) = bind (the_board a) (\<lambda>b. if P b then ret 0
       else andThen (modify (\<lambda>k. k\<lparr>events := es\<rparr>))
         (case e of Irq \<Rightarrow> andThen (intr_handler K a) (wait_event K a P es) | Signal \<Rightarrow> ret (- ERESTARTSYS)))"
    by (simp add: fun_eq_iff)
  have event: "safe a d m (case e of Irq \<Rightarrow> andThen (intr_handler K a) (wait_event K a P es) | Signal \<Rightarrow> ret (- ERESTARTSYS))
      (\<lambda>r. r = 0 \<or> r = - ERESTARTSYS) m"
    using Cons by (cases e) (auto intro: safe_andThen [OF safe_interrupt] safe_ret)
  show ?case unfolding eq
    by (rule safe_bind [OF safe_the_board], intro safe_if safe_andThen [OF safe_modify event] safe_ret) simp_all
qed

lemma safe_wait_for: "safe a d m (wait_for K a P) (\<lambda>r. r = 0 \<or> r = - ERESTARTSYS) m"
  unfolding wait_for_def safe_def by (rule hoare_self) (rule safe_wait_event [unfolded safe_def])

text \<open>Sending the commands ends with 0 or as an interrupted call.\<close>

lemmas safe_intros = safe_if safe_ret safe_blocked safe_bind [OF safe_wait_for] safe_bind [OF safe_the_board]
  safe_andThen [OF safe_status] safe_andThen [OF safe_writeq]

lemma safe_read_slots: "safe a d m (read_slots K a fuel slots) (\<lambda>_. True) m"
proof (induction fuel arbitrary: slots)
  case (Suc fuel)
  show ?case unfolding read_slots.simps by (intro safe_intros Suc TrueI)
qed (simp add: safe_ret safe_blocked)

lemma safe_write_slots: "safe a d m (write_slots K a fuel slots) (\<lambda>_. True) m"
proof (induction fuel arbitrary: slots)
  case (Suc fuel)
  show ?case unfolding write_slots.simps by (intro safe_intros Suc TrueI)
qed (simp add: safe_ret safe_blocked)

lemma safe_read_send: "safe a d m (read_send K a fuel blocks slots) (\<lambda>r. r = 0 \<or> r = - ERESTARTSYS) m"
proof (induction blocks arbitrary: slots)
  case (Cons blk rest)
  have "safe a d m (case w of Interrupted \<Rightarrow> ret (- ERESTARTSYS) | Flushed \<Rightarrow> ret 0
     | Slots free \<Rightarrow> andThen (writeq a 4096 (with_interrupt free (dma_cmd (rest = []) blk)))
          (read_send K a fuel rest (free - 1))) (\<lambda>r. r = 0 \<or> r = - ERESTARTSYS) m" for w
    using Cons by (cases w) (auto intro: safe_andThen [OF safe_writeq] safe_ret)
  then show ?case unfolding read_send.simps by (rule safe_bind [OF safe_read_slots])
qed (simp add: safe_ret)

lemma safe_write_send: "safe a d m (write_send K a fuel blocks slots) (\<lambda>r. r = 0 \<or> r = - ERESTARTSYS) m"
proof (induction blocks arbitrary: slots)
  case (Cons blk rest)
  have "safe a d m (case w of Interrupted \<Rightarrow> ret (- ERESTARTSYS) | Flushed \<Rightarrow> ret 0
     | Slots free \<Rightarrow> andThen (writeq a 4104 (with_interrupt free (dma_cmd (rest = []) blk)))
          (write_send K a fuel rest (free - 1))) (\<lambda>r. r = 0 \<or> r = - ERESTARTSYS) m" for w
    using Cons by (cases w) (auto intro: safe_andThen [OF safe_writeq] safe_ret)
  then show ?case unfolding write_send.simps by (rule safe_bind [OF safe_write_slots])
qed (simp add: safe_ret)

lemma io_safe_time: "io_safe a d m (profile_time X a junk) (\<lambda>_. True) m"
  unfolding profile_time_def
  by (rule io_safe_bind [OF io_safe_kernel [OF safe_the_board]])
    (auto intro!: io_safe_if io_safe_ret simp: io_safe_def hoare_def getnstimeofday_def)

section \<open>A whole transfer\<close>

text \<open>What a read or a write may return: an error code, or the count of register \<^verbatim>\<open>off\<close>.\<close>

definition transfer_result :: "kenv \<Rightarrow> xenv \<Rightarrow> nat \<Rightarrow> nat \<Rightarrow> int \<Rightarrow> bool" where
  "transfer_result K X d off r \<longleftrightarrow> r = 0 \<or> r = - EFAULT \<or> r = - ENOMEM \<or> r = - EINVAL \<or> r = - EBUSY \<or>
     r = - ERESTARTSYS \<or> (\<exists>n. r = x_pin X n \<and> r < 0) \<or> (\<exists>t. r = sint (k_reg K d t off))"

abbreviation transfer_outcome :: "kenv \<Rightarrow> xenv \<Rightarrow> nat \<Rightarrow> nat \<Rightarrow> outcome \<Rightarrow> bool" where
  "transfer_outcome K X d off r \<equiv> transfer_result K X d off (fst r)"

lemmas io_safe_board = io_safe_bind [OF io_safe_kernel [OF safe_the_board]]

lemma lock_read: "safe a d (rm, wm) (set_board a (\<lambda>b. b\<lparr>read_mutex := v\<rparr>)) (\<lambda>_. True) (v, wm)"
  by (rule safe_set_locks) simp_all

lemma lock_write: "safe a d (rm, wm) (set_board a (\<lambda>b. b\<lparr>write_mutex := v\<rparr>)) (\<lambda>_. True) (rm, v)"
  by (rule safe_set_locks) simp_all

lemma safe_set_board_if:
  assumes "\<And>b. pci_dev (f b) = pci_dev b \<and> activation_level (f b) = activation_level b \<and> uses_msix (f b) = uses_msix b \<and>
    bar0io (f b) = bar0io b \<and> read_mutex (f b) = read_mutex b \<and> write_mutex (f b) = write_mutex b"
  shows "io_safe a d m (if c then in_kernel (set_board a (\<lambda>b. if g b then f b else b)) else ret ()) (\<lambda>_. True) m"
  by (intro io_safe_if io_safe_kernel safe_set_board io_safe_ret) (simp_all add: assms)

lemma read_complete_safe:
  "io_safe a d (True, wm) (read_complete K X a g pages) (transfer_outcome K X d 2056) (False, wm)"
proof -
  have tail: "io_safe a d (False, wm) (andThen (mark_dirty X g pages c)
      (ret (if result = 0 then sint c else - ERESTARTSYS, block, unblock))) (transfer_outcome K X d 2056) (False, wm)"
    if "\<exists>t. c = k_reg K d t 2056" for c result block unblock
    unfolding mark_dirty_def
    using that by (intro io_safe_andThen [OF io_safe_modify] io_safe_ret) (auto simp: transfer_result_def)
  show ?thesis
    unfolding read_complete_def
    by (rule io_safe_bind [OF io_safe_time], rule io_safe_bind [OF io_safe_kernel [OF safe_wait_for]],
        rule io_safe_bind [OF io_safe_time], rule io_safe_bind [OF io_safe_kernel [OF safe_ioread32]],
        rule io_safe_andThen [OF io_safe_kernel [OF lock_read]], rule io_safe_andThen [OF safe_set_board_if tail])
      simp_all
qed

lemma write_complete_safe:
  "io_safe a d (rm, True) (write_complete K X a) (transfer_outcome K X d 2060) (rm, False)"
proof -
  have tail: "io_safe a d (rm, False) (ret (if result = 0 then sint c else - ERESTARTSYS, block, unblock))
      (transfer_outcome K X d 2060) (rm, False)"
    if "\<exists>t. c = k_reg K d t 2060" for c :: u32 and result :: int and block unblock
    using that by (intro io_safe_ret) (auto simp: transfer_result_def)
  show ?thesis
    unfolding write_complete_def
    by (rule io_safe_bind [OF io_safe_time], rule io_safe_bind [OF io_safe_kernel [OF safe_wait_for]],
        rule io_safe_bind [OF io_safe_time], rule io_safe_bind [OF io_safe_kernel [OF safe_ioread32]],
        rule io_safe_andThen [OF io_safe_kernel [OF lock_write]], rule io_safe_andThen [OF safe_set_board_if tail])
      simp_all
qed

lemma failed_result: "e \<in> {- EFAULT, - ENOMEM, - EINVAL, - EBUSY, - ERESTARTSYS} \<Longrightarrow> transfer_outcome K X d off (failed X e)"
  by (auto simp: transfer_result_def failed_def)

lemma read_locked_safe:
  "io_safe a d (rm, wm) (read_locked K X fuel a g pages blocks) (transfer_outcome K X d 2056) (rm, wm)"
  unfolding read_locked_def
proof (rule io_safe_board, rule io_safe_if)
  fix b :: board
  show "io_safe a d (rm, wm) (ret (failed X (- EBUSY))) (transfer_outcome K X d 2056) (rm, wm)"
    by (intro io_safe_ret failed_result) simp
  assume "activation_level b = BLUENOC_ACTIVE \<and> read_mutex b = fst (rm, wm) \<and> write_mutex b = snd (rm, wm)" "\<not> read_mutex b"
  then have rm: "rm = False" by simp
  have finish: "io_safe a d (True, wm) (if err \<noteq> 0 then andThen (in_kernel (set_board a (\<lambda>b. b\<lparr>read_mutex := False\<rparr>)))
      (ret (failed X err)) else read_complete K X a g pages) (transfer_outcome K X d 2056) (False, wm)"
    if "err = 0 \<or> err = - ERESTARTSYS" for err
    using that by (intro io_safe_if read_complete_safe io_safe_andThen [OF io_safe_kernel [OF lock_read]]
        io_safe_ret failed_result) auto
  show "io_safe a d (rm, wm) (andThen (in_kernel (set_board a (\<lambda>b. b\<lparr>read_mutex := True\<rparr>)))
     (andThen (in_kernel (clear_dma_status a START_READ))
       (bind (in_kernel (the_board a)) (\<lambda>b.
          bind (in_kernel (read_send K a fuel blocks (16 - read_buffers_level b))) (\<lambda>err.
            if err \<noteq> 0 then andThen (in_kernel (set_board a (\<lambda>b. b\<lparr>read_mutex := False\<rparr>))) (ret (failed X err))
            else read_complete K X a g pages))))) (transfer_outcome K X d 2056) (rm, wm)"
    by (rule io_safe_andThen [OF io_safe_kernel [OF lock_read]], rule io_safe_andThen [OF io_safe_kernel [OF safe_clear]],
        rule io_safe_board, rule io_safe_bind [OF io_safe_kernel [OF safe_read_send]], unfold rm, rule finish)
qed

lemma write_locked_safe:
  "io_safe a d (rm, wm) (write_locked K X fuel a blocks) (transfer_outcome K X d 2060) (rm, wm)"
  unfolding write_locked_def
proof (rule io_safe_board, rule io_safe_if)
  fix b :: board
  show "io_safe a d (rm, wm) (ret (failed X (- EBUSY))) (transfer_outcome K X d 2060) (rm, wm)"
    by (intro io_safe_ret failed_result) simp
  assume "activation_level b = BLUENOC_ACTIVE \<and> read_mutex b = fst (rm, wm) \<and> write_mutex b = snd (rm, wm)" "\<not> write_mutex b"
  then have wm: "wm = False" by simp
  have finish: "io_safe a d (rm, True) (if err \<noteq> 0 then andThen (in_kernel (set_board a (\<lambda>b. b\<lparr>write_mutex := False\<rparr>)))
      (ret (failed X err)) else write_complete K X a) (transfer_outcome K X d 2060) (rm, False)"
    if "err = 0 \<or> err = - ERESTARTSYS" for err
    using that by (intro io_safe_if write_complete_safe io_safe_andThen [OF io_safe_kernel [OF lock_write]]
        io_safe_ret failed_result) auto
  show "io_safe a d (rm, wm) (andThen (in_kernel (set_board a (\<lambda>b. b\<lparr>write_mutex := True\<rparr>)))
     (andThen (in_kernel (clear_dma_status a START_WRITE))
       (bind (in_kernel (the_board a)) (\<lambda>b.
          bind (in_kernel (write_send K a fuel blocks (16 - write_buffers_level b))) (\<lambda>err.
            if err \<noteq> 0 then andThen (in_kernel (set_board a (\<lambda>b. b\<lparr>write_mutex := False\<rparr>))) (ret (failed X err))
            else write_complete K X a))))) (transfer_outcome K X d 2060) (rm, wm)"
    by (rule io_safe_andThen [OF io_safe_kernel [OF lock_write]], rule io_safe_andThen [OF io_safe_kernel [OF safe_clear]],
        rule io_safe_board, rule io_safe_bind [OF io_safe_kernel [OF safe_write_send]], unfold wm, rule finish)
qed

lemma with_mapping_safe:
  assumes "\<And>blocks. io_safe a d m (body blocks) (transfer_outcome K X d off) m" "1 \<le> num_pages g"
  shows "io_safe a d m (with_mapping X a g pages body) (transfer_outcome K X d off) m"
proof -
  obtain xfers dma where x: "x_map X (sg_list g pages) = (xfers, dma)" by fastforce
  have g: "\<not> num_pages g < 1" using assms(2) by simp
  have body: "io_safe a d m (if xfers < 1 then ret (failed X (- EFAULT))
                else
                  andThen (modify (\<lambda>s. s\<lparr>mappings := mappings s + 1\<rparr>))
                  (bind (in_kernel (the_board a)) (\<lambda>b.
                   if debugging b DEBUG_DMA \<and> \<not> list_all block_in_range (take (nat xfers) dma)
                   then ret (failed X (- EFAULT))
                   else body (blocks_to_send X xfers dma)))) (transfer_outcome K X d off) m"
    by (rule io_safe_if, intro io_safe_ret failed_result, simp, rule io_safe_andThen [OF io_safe_modify], simp, simp,
        rule io_safe_board, intro io_safe_if io_safe_ret failed_result assms(1)) simp
  show ?thesis
    unfolding with_mapping_def x Let_def prod.case if_not_P [OF g]
    by (rule io_safe_if, intro io_safe_ret failed_result, simp, rule io_safe_andThen [OF io_safe_modify], simp, simp,
        rule io_safe_bind [OF body], rule io_safe_andThen [OF io_safe_modify], simp, simp, rule io_safe_ret)
qed

lemma with_pages_safe:
  assumes "\<And>pages. io_safe a d m (body pages) (transfer_outcome K X d off) m"
  shows "io_safe a d m (with_pages X g body) (transfer_outcome K X d off) m"
proof -
  have fail: "transfer_outcome K X d off (failed X (if result < 0 then result else - EINVAL))"
    if "result = x_pin X (num_pages g)" for result
    using that by (auto simp: transfer_result_def failed_def)
  have pin: "io_safe a d m (get_user_pages X (num_pages g)) (\<lambda>r. fst r = x_pin X (num_pages g)) m"
    unfolding get_user_pages_def Let_def by (rule io_safe_andThen [OF io_safe_modify io_safe_ret]) simp_all
  have rel: "io_safe a d m (andThen (release_pages pages) (ret r)) (transfer_outcome K X d off) m"
    if "transfer_outcome K X d off r" for pages r
    unfolding release_pages_def using that by (intro io_safe_andThen [OF io_safe_modify] io_safe_ret) simp_all
  have inner: "io_safe a d m (case rp of (result, pages) \<Rightarrow>
      bind (if result \<noteq> num_pages g
               then andThen (release_pages pages) (ret (failed X (if result < 0 then result else - EINVAL)))
               else bind (body pages) (\<lambda>r. andThen (release_pages pages) (ret r))) (\<lambda>r.
         andThen (modify (\<lambda>s. s\<lparr>page_arrays := page_arrays s - 1\<rparr>)) (ret r))) (transfer_outcome K X d off) m"
    if v: "fst rp = x_pin X (num_pages g)" for rp
  proof -
    obtain result pages where rp: "rp = (result, pages)" "result = x_pin X (num_pages g)" using v by (cases rp) simp
    have "io_safe a d m (if result \<noteq> num_pages g
        then andThen (release_pages pages) (ret (failed X (if result < 0 then result else - EINVAL)))
        else bind (body pages) (\<lambda>r. andThen (release_pages pages) (ret r))) (transfer_outcome K X d off) m"
      by (rule io_safe_if, rule rel, rule fail, rule rp(2), rule io_safe_bind [OF assms], rule rel)
    then show ?thesis unfolding rp(1) prod.case
      by (rule io_safe_bind) (rule io_safe_andThen [OF io_safe_modify io_safe_ret], simp_all)
  qed
  show ?thesis
    unfolding with_pages_def
    by (rule io_safe_if, intro io_safe_ret failed_result, simp, rule io_safe_andThen [OF io_safe_modify], simp, simp,
        rule io_safe_bind [OF pin inner])
qed

lemma profile_end_safe:
  "io_safe a d m (bind (in_kernel (the_board a)) (\<lambda>b. if debugging b DEBUG_PROFILE then
      bind (getnstimeofday X) (\<lambda>t. in_kernel (set_board a (f t))) else ret ())) (\<lambda>_. True) m"
  if "\<And>t b. pci_dev (f t b) = pci_dev b \<and> activation_level (f t b) = activation_level b \<and> uses_msix (f t b) = uses_msix b \<and>
    bar0io (f t b) = bar0io b \<and> read_mutex (f t b) = read_mutex b \<and> write_mutex (f t b) = write_mutex b"
proof (rule io_safe_board, rule io_safe_if)
  have clock: "io_safe a d m (getnstimeofday X) (\<lambda>_. True) m"
    by (simp add: io_safe_def hoare_def getnstimeofday_def)
  show "io_safe a d m (bind (getnstimeofday X) (\<lambda>t. in_kernel (set_board a (f t)))) (\<lambda>_. True) m"
    by (rule io_safe_bind [OF clock], rule io_safe_kernel, rule safe_set_board, rule that)
qed (simp add: io_safe_ret)

lemma read_safe:
  assumes "count = 0 \<or> 1 \<le> num_pages (page_geometry buf count)"
  shows "io_safe a d (rm, wm) (bluenoc_read K X fuel a buf count) (transfer_result K X d 2056) (rm, wm)"
proof -
  have pages: "io_safe a d (rm, wm) (read_pages K X fuel a g) (transfer_outcome K X d 2056) (rm, wm)"
    if "1 \<le> num_pages g" for g
    unfolding read_pages_def
    using that by (intro io_safe_if io_safe_ret failed_result with_pages_safe with_mapping_safe read_locked_safe) simp_all
  show ?thesis
    unfolding bluenoc_read_def
    apply (rule io_safe_board, simp only: simp_thms if_False, rule io_safe_andThen [OF io_safe_kernel [OF safe_set_board]], simp)
    apply (rule io_safe_bind [OF io_safe_time], rule io_safe_if, rule io_safe_ret, simp add: transfer_result_def)
    apply (rule io_safe_bind [OF pages], use assms in blast)
    subgoal for b start r
      by (cases r) (simp only: prod.case, rule io_safe_andThen [OF profile_end_safe io_safe_ret], simp_all)
    done
qed

lemma write_safe:
  assumes "count = 0 \<or> 1 \<le> num_pages (page_geometry buf count)"
  shows "io_safe a d (rm, wm) (bluenoc_write K X fuel a buf count) (transfer_result K X d 2060) (rm, wm)"
proof -
  have pages: "io_safe a d (rm, wm) (write_pages K X fuel a g) (transfer_outcome K X d 2060) (rm, wm)"
    if "1 \<le> num_pages g" for g
    unfolding write_pages_def
    using that by (intro io_safe_if io_safe_ret failed_result with_pages_safe with_mapping_safe write_locked_safe) simp_all
  show ?thesis
    unfolding bluenoc_write_def
    apply (rule io_safe_board, simp only: simp_thms if_False, rule io_safe_andThen [OF io_safe_kernel [OF safe_set_board]], simp)
    apply (rule io_safe_bind [OF io_safe_time], rule io_safe_if, rule io_safe_ret, simp add: transfer_result_def)
    apply (rule io_safe_bind [OF pages], use assms in blast)
    subgoal for b start r
      by (cases r) (simp only: prod.case, rule io_safe_andThen [OF profile_end_safe io_safe_ret], simp_all)
    done
qed

section \<open>The commands sent\<close>

text \<open>The commands for a list of blocks, when there are slots for all of them.\<close>

fun commands :: "u32 \<Rightarrow> dma_block list \<Rightarrow> u64 list" where
  "commands slots [] = []"
| "commands slots (blk # rest) = with_interrupt slots (dma_cmd (rest = []) blk) # commands (slots - 1) rest"

lemma command_end: "bit (with_interrupt slots (dma_cmd final blk)) 63 = final"
  unfolding with_interrupt_def dma_cmd_def by (simp add: bit_simps low48 low14)

lemma commands_length: "length (commands slots blocks) = length blocks"
  by (induction blocks arbitrary: slots) simp_all

lemma commands_end:
  "blocks \<noteq> [] \<Longrightarrow> map (\<lambda>c. bit c 63) (commands slots blocks) = replicate (length blocks - 1) False @ [True]"
proof (induction blocks arbitrary: slots)
  case (Cons blk rest)
  then show ?case
  proof (cases "rest = []")
    case False
    then have "replicate (length rest) False = False # replicate (length rest - 1) False" by (cases rest) simp_all
    then show ?thesis using Cons.IH [OF False, of "slots - 1"] False by (simp add: command_end)
  qed (simp add: command_end)
qed simp

lemma writeq_ready:
  assumes "ready_in a d m k"
  shows "\<exists>k'. writeq a off v k = (Inr (), k') \<and> ready_in a d m k' \<and> writes k' = writes k @ [(d, off, 8, v)] \<and>
    events k' = events k \<and> boards k' = boards k \<and> accesses k' = accesses k + 1"
proof -
  obtain b where b: "boards k a = Some b" "bar0io b \<noteq> 0" "pd_mapped (pci k (pci_dev b))" "pci_dev b = d"
    using assms unfolding ready_in_def by (rule ready_board)
  have "ready_in a d m (k\<lparr>accesses := accesses k + 1, writes := writes k @ [(d, off, 8, v)]\<rparr>)"
    using assms by (simp add: ready_in_def ready_def board_ok_def)
  then show ?thesis using b by (simp add: writeq_def iowrite_run)
qed

lemma slots_enough: "slots \<noteq> 0 \<Longrightarrow> read_slots K a fuel slots = ret (Slots slots)"
  by (cases fuel) auto

lemma read_send_run:
  assumes "ready_in a d m k" "length blocks \<le> unat slots"
  shows "\<exists>k'. read_send K a fuel blocks slots k = (Inr 0, k') \<and> ready_in a d m k' \<and>
    writes k' = writes k @ map (\<lambda>c. (d, 4096, 8, c)) (commands slots blocks) \<and> events k' = events k \<and>
    boards k' = boards k \<and> accesses k' = accesses k + length blocks"
  using assms
proof (induction blocks arbitrary: slots k)
  case (Cons blk rest)
  have nz: "slots \<noteq> 0" using Cons.prems(2) by auto
  have sub: "unat (slots - 1) = unat slots - 1" using nz by (simp add: unat_minus_one)
  obtain k1 where k1: "writeq a 4096 (with_interrupt slots (dma_cmd (rest = []) blk)) k = (Inr (), k1)" "ready_in a d m k1"
      "writes k1 = writes k @ [(d, 4096, 8, with_interrupt slots (dma_cmd (rest = []) blk))]" "events k1 = events k"
      "boards k1 = boards k" "accesses k1 = accesses k + 1"
    using writeq_ready [OF Cons.prems(1)] by blast
  have "length rest \<le> unat (slots - 1)" using Cons.prems(2) sub by simp
  from Cons.IH [OF k1(2) this] obtain k2 where "read_send K a fuel rest (slots - 1) k1 = (Inr 0, k2)" "ready_in a d m k2"
      "writes k2 = writes k1 @ map (\<lambda>c. (d, 4096, 8, c)) (commands (slots - 1) rest)" "events k2 = events k1"
      "boards k2 = boards k1" "accesses k2 = accesses k1 + length rest" by blast
  then show ?case using k1 by (simp add: slots_enough [OF nz] bind_def andThen_def)
qed simp

section \<open>A transfer that completes\<close>

lemma profile_time_run:
  assumes "ready_in a d m (kern s)"
  shows "\<exists>t s'. profile_time X a junk s = (Inr t, s') \<and> kern s' = kern s"
proof -
  obtain b where "boards (kern s) a = Some b" using assms unfolding ready_in_def by (rule ready_board)
  then show ?thesis
    by (simp add: profile_time_def bind_def in_kernel_def the_board_run getnstimeofday_def)
qed

lemma profile_end_run:
  assumes "ready_in a d m (kern s)"
  shows "\<exists>s'. bind (in_kernel (the_board a)) (\<lambda>b. if debugging b DEBUG_PROFILE then
      bind (getnstimeofday X) (\<lambda>t. in_kernel (set_board a (f t))) else ret ()) s = (Inr (), s')"
proof -
  obtain b where "boards (kern s) a = Some b" using assms unfolding ready_in_def by (rule ready_board)
  then show ?thesis
    by (simp add: bind_def in_kernel_def the_board_run getnstimeofday_def set_board_run)
qed

text \<open>A program that cannot block on a ready board.\<close>

lemma set_board_ready:
  assumes "safe a d m (set_board a f) (\<lambda>_. True) m'" "ready_in a d m k"
  shows "\<exists>k'. set_board a f k = (Inr (), k') \<and> ready_in a d m' k'"
proof -
  obtain b where b: "boards k a = Some b" using assms(2) unfolding ready_in_def by (rule ready_board)
  then show ?thesis
    using hoare_Inr [OF assms(1) [unfolded safe_def] assms(2) set_board_run [OF b]] by (simp add: set_board_run)
qed

text \<open>What the device shows when it has done the transfer.\<close>

definition read_done :: "kenv \<Rightarrow> nat \<Rightarrow> u32 \<Rightarrow> bool" where
  "read_done K d n \<longleftrightarrow> (\<forall>t. bit (join (k_reg K d t 2048) (k_reg K d t 2052)) 6 \<and> k_reg K d t 2056 = n)"

lemma bit_and_exp: "(st AND push_bit n 1 \<noteq> 0) = bit st n" if "n < 64" for st :: u64
  using that by (simp add: bit_iff_and_push_bit_not_eq_0 [of st n])

lemma decode_completed: "read_completed (decode_status st b) = bit st 6"
  unfolding decode_status_def using bit_and_exp [of 6 st] by simp

lemma interrupt_completes:
  assumes "ready_in a d m k" "read_done K d n"
  shows "\<exists>k' b. intr_handler K a k = (Inr (), k') \<and> ready_in a d m k' \<and> boards k' a = Some b \<and> read_completed b \<and>
    events k' = events k"
proof -
  obtain b where b: "boards k a = Some b" "bar0io b \<noteq> 0" "pd_mapped (pci k (pci_dev b))" "pci_dev b = d"
    using assms(1) unfolding ready_in_def by (rule ready_board)
  let ?b1 = "if debugging b DEBUG_PROFILE then b\<lparr>interrupt_count := interrupt_count b + 1\<rparr> else b"
  let ?k1 = "k\<lparr>boards := (boards k)(a \<mapsto> ?b1)\<rparr>"
  let ?st = "join (k_reg K d (accesses k + 1) 2048) (k_reg K d (accesses k + 1) 2052)"
  have b1: "boards ?k1 a = Some ?b1" "bar0io ?b1 \<noteq> 0" "pd_mapped (pci ?k1 (pci_dev ?b1))" "pci_dev ?b1 = d"
    using b by auto
  have run: "intr_handler K a k = (Inr (), ?k1\<lparr>accesses := accesses k + 1, boards := (boards ?k1)(a \<mapsto> decode_status ?st ?b1)\<rparr>)"
    using update_status_run [OF b1(1-3), of K] unfolding b1(4)
    by (simp add: intr_handler_def andThen_def bind_def set_board_run [OF b(1)])
  have "read_completed (decode_status ?st ?b1)"
    using assms(2) by (simp add: decode_completed read_done_def)
  then show ?thesis
    using hoare_Inr [OF safe_interrupt [unfolded safe_def] assms(1) run] run by auto
qed

lemma wait_completes:
  assumes "ready_in a d m k" "read_done K d n" "events k = Irq # es"
  shows "\<exists>k'. wait_for K a (\<lambda>b. read_completed b \<or> read_flushed b) k = (Inr 0, k') \<and> ready_in a d m k'"
proof -
  let ?P = "\<lambda>b. read_completed b \<or> read_flushed b"
  obtain b where b: "boards k a = Some b" using assms(1) unfolding ready_in_def by (rule ready_board)
  show ?thesis
  proof (cases "?P b")
    case True
    then show ?thesis using assms b by (auto simp: wait_for_def bind_def the_board_run)
  next
    case False
    have "ready_in a d m (k\<lparr>events := es\<rparr>)" using assms(1) by simp
    from interrupt_completes [OF this assms(2)] obtain k' b' where k': "intr_handler K a (k\<lparr>events := es\<rparr>) = (Inr (), k')"
        "ready_in a d m k'" "boards k' a = Some b'" "read_completed b'" by blast
    have "wait_event K a ?P es k' = (Inr 0, k')" using k'(3,4) by (cases es) (simp_all add: bind_def the_board_run)
    then have "wait_for K a ?P k = (Inr 0, k')"
      using False assms(3) b k'(1) by (auto simp: wait_for_def bind_def andThen_def the_board_run)
    then show ?thesis using k'(2) by blast
  qed
qed

lemma ioread32_ready:
  assumes "ready_in a d m k"
  shows "\<exists>k' t. ioread32 K a off k = (Inr (k_reg K d t off), k') \<and> ready_in a d m k'"
proof -
  obtain b where b: "boards k a = Some b" "bar0io b \<noteq> 0" "pd_mapped (pci k (pci_dev b))" "pci_dev b = d"
    using assms(1) unfolding ready_in_def by (rule ready_board)
  then show ?thesis using ioread32_run [OF b(1-3), of K off] assms by auto
qed

lemma in_kernel_run: "p (kern s) = (r, k') \<Longrightarrow> in_kernel p s = (r, s\<lparr>kern := k'\<rparr>)"
  by (simp add: in_kernel_def)

lemma read_complete_run:
  assumes "ready_in a d (True, wm) (kern s)" "read_done K d n" "events (kern s) = Irq # es"
  shows "\<exists>r s'. read_complete K X a g pages s = (Inr r, s') \<and> fst r = sint n \<and> ready_in a d (False, wm) (kern s')"
proof -
  obtain t1 s1 where 1: "profile_time X a (x_junk_block X) s = (Inr t1, s1)" "kern s1 = kern s"
    using profile_time_run [OF assms(1)] by blast
  obtain k2 where 2: "in_kernel (wait_for K a (\<lambda>b. read_completed b \<or> read_flushed b)) s1 = (Inr 0, s1\<lparr>kern := k2\<rparr>)"
      "ready_in a d (True, wm) k2"
    using wait_completes [OF assms] in_kernel_run 1(2) by metis
  obtain t3 s3 where 3: "profile_time X a (x_junk_unblock X) (s1\<lparr>kern := k2\<rparr>) = (Inr t3, s3)" "kern s3 = k2"
    using profile_time_run [of a d "(True, wm)" "s1\<lparr>kern := k2\<rparr>" X "x_junk_unblock X"] 2(2) by auto
  obtain k4 where 4: "in_kernel (ioread32 K a 2056) s3 = (Inr n, s3\<lparr>kern := k4\<rparr>)" "ready_in a d (True, wm) k4"
    using ioread32_ready [OF 2(2), of K 2056] in_kernel_run [of "ioread32 K a 2056" s3] 3(2) assms(2)
    by (auto simp: read_done_def)
  obtain k5 where 5: "in_kernel (set_board a (\<lambda>b. b\<lparr>read_mutex := False\<rparr>)) (s3\<lparr>kern := k4\<rparr>) = (Inr (), s3\<lparr>kern := k5\<rparr>)"
      "ready_in a d (False, wm) k5"
    using set_board_ready [OF lock_read [of a d True wm False] 4(2)] by (auto simp: in_kernel_def)
  let ?f = "\<lambda>b. if debugging b DEBUG_PROFILE then b\<lparr>total_bytes_read := total_bytes_read b + ucast n\<rparr> else b"
  have keep: "safe a d (False, wm) (set_board a ?f) (\<lambda>_. True) (False, wm)" by (rule safe_set_board) simp
  obtain k6 where 6: "in_kernel (set_board a ?f) (s3\<lparr>kern := k5\<rparr>) = (Inr (), s3\<lparr>kern := k6\<rparr>)" "ready_in a d (False, wm) k6"
    using set_board_ready [OF keep 5(2)] by (auto simp: in_kernel_def)
  show ?thesis
    by (simp add: read_complete_def bind_def andThen_def 1(1) 2(1) 3(1) 4(1) 5(1) 6 mark_dirty_def)
qed

lemma clear_read_run:
  assumes "ready_in a d m k" "boards k a = Some b"
  shows "\<exists>k'. clear_dma_status a START_READ k = (Inr (), k') \<and> ready_in a d m k' \<and> events k' = events k \<and>
    boards k' a = Some (b\<lparr>read_flushed := False, read_completed := False, read_ok := False\<rparr>)"
proof -
  obtain b0 where b0: "boards k a = Some b0" "bar0io b0 \<noteq> 0" "pd_mapped (pci k (pci_dev b0))"
    using assms(1) unfolding ready_in_def by (rule ready_board)
  have run: "clear_dma_status a START_READ k = (Inr (), k\<lparr>accesses := accesses k + 1,
      writes := writes k @ [(pci_dev b0, 2048, 4, 0)],
      boards := (boards k)(a \<mapsto> b0\<lparr>read_flushed := False, read_completed := False, read_ok := False\<rparr>)\<rparr>)"
    by (simp add: clear_dma_status_def iowrite32_def andThen_def bind_def iowrite_run [OF b0] set_board_run b0(1))
  then show ?thesis using hoare_Inr [OF safe_clear [unfolded safe_def] assms(1) run] assms(2) b0(1) by auto
qed

lemma read_locked_run:
  assumes "ready_in a d (False, wm) (kern s)" "boards (kern s) a = Some b" "read_done K d n" "events (kern s) = Irq # es"
    and "length blocks \<le> unat (16 - read_buffers_level b)"
  shows "\<exists>r s'. read_locked K X fuel a g pages blocks s = (Inr r, s') \<and> fst r = sint n \<and> ready_in a d (False, wm) (kern s')"
proof -
  let ?b1 = "b\<lparr>read_mutex := True\<rparr>"
  let ?k1 = "(kern s)\<lparr>boards := (boards (kern s))(a \<mapsto> ?b1)\<rparr>"
  have lock: "set_board a (\<lambda>b. b\<lparr>read_mutex := True\<rparr>) (kern s) = (Inr (), ?k1)" by (simp add: set_board_run [OF assms(2)])
  have free: "\<not> read_mutex b" using ready_board [OF assms(1) [unfolded ready_in_def]] assms(2) by fastforce
  have 1: "ready_in a d (True, wm) ?k1"
    using hoare_Inr [OF lock_read [of a d False wm True, unfolded safe_def] assms(1) lock] by simp
  obtain k2 where 2: "clear_dma_status a START_READ ?k1 = (Inr (), k2)" "ready_in a d (True, wm) k2" "events k2 = Irq # es"
      "boards k2 a = Some (?b1\<lparr>read_flushed := False, read_completed := False, read_ok := False\<rparr>)"
    using clear_read_run [OF 1, of ?b1] assms(4) by auto
  obtain k3 where 3: "read_send K a fuel blocks (16 - read_buffers_level b) k2 = (Inr 0, k3)" "ready_in a d (True, wm) k3"
      "events k3 = Irq # es"
    using read_send_run [OF 2(2) assms(5), of K fuel] 2(3) by auto
  have "read_locked K X fuel a g pages blocks s = read_complete K X a g pages (s\<lparr>kern := k3\<rparr>)"
    using assms(2) free lock 2(1,4) 3(1)
    by (simp add: read_locked_def bind_def andThen_def in_kernel_def the_board_run)
  then show ?thesis using read_complete_run [of a d wm "s\<lparr>kern := k3\<rparr>" K n es X g pages] 3(2,3) assms(3) by simp
qed

lemma with_mapping_run:
  assumes "x_sg_ok X" "1 \<le> num_pages g" "x_map X (sg_list g pages) = (xfers, dma)" "1 \<le> xfers"
    and "list_all block_in_range (take (nat xfers) dma)" "boards (kern s) a = Some b"
    and "\<And>s'. kern s' = kern s \<Longrightarrow> \<exists>r t. body (blocks_to_send X xfers dma) s' = (Inr r, t) \<and> P r (kern t)"
  shows "\<exists>r s'. with_mapping X a g pages body s = (Inr r, s') \<and> P r (kern s')"
proof -
  let ?s = "s\<lparr>sg_tables := sg_tables s + 1, mappings := mappings s + 1\<rparr>"
  obtain r t where r: "body (blocks_to_send X xfers dma) ?s = (Inr r, t)" "P r (kern t)" using assms(7) [of ?s] by auto
  have "with_mapping X a g pages body s = (Inr r, t\<lparr>mappings := mappings t - 1, sg_tables := sg_tables t - 1\<rparr>)"
    using assms(1-6) r(1)
    by (simp add: with_mapping_def Let_def andThen_def bind_def in_kernel_def the_board_run)
  then show ?thesis using r(2) by simp
qed

lemma with_pages_run:
  assumes "x_kmalloc_ok X" "x_pin X (num_pages g) = num_pages g"
    and "\<And>s'. kern s' = kern s \<Longrightarrow>
      \<exists>r t. body (map (x_frame X) [0..<nat (num_pages g)]) s' = (Inr r, t) \<and> P r (kern t)"
  shows "\<exists>r s'. with_pages X g body s = (Inr r, s') \<and> P r (kern s')"
proof -
  let ?s = "s\<lparr>page_arrays := page_arrays s + 1,
    pins := foldl (\<lambda>p f. p(f := p f + 1)) (pins s) (map (x_frame X) [0..<nat (num_pages g)])\<rparr>"
  obtain r t where r: "body (map (x_frame X) [0..<nat (num_pages g)]) ?s = (Inr r, t)" "P r (kern t)"
    using assms(3) [of ?s] by auto
  then show ?thesis
    using assms(1,2)
    by (simp add: with_pages_def get_user_pages_def release_pages_def Let_def andThen_def bind_def)
qed

text \<open>A kernel that grants everything, for the transfer of one buffer.\<close>

definition grants :: "xenv \<Rightarrow> geometry \<Rightarrow> bool" where
  "grants X g \<longleftrightarrow> x_kmalloc_ok X \<and> x_pin X (num_pages g) = num_pages g \<and> x_sg_ok X \<and> \<not> x_chained X \<and>
     (\<forall>pages. let (xfers, dma) = x_map X (sg_list g pages)
              in 1 \<le> xfers \<and> xfers \<le> 16 \<and> list_all block_in_range (take (nat xfers) dma))"

lemma grantsD:
  assumes "grants X g" "x_map X (sg_list g pages) = (xfers, dma)"
  shows "1 \<le> xfers" "nat xfers \<le> 16" "list_all block_in_range (take (nat xfers) dma)" "x_sg_ok X" "\<not> x_chained X"
proof -
  have "let (xfers, dma) = x_map X (sg_list g pages)
      in 1 \<le> xfers \<and> xfers \<le> 16 \<and> list_all block_in_range (take (nat xfers) dma)"
    using assms(1) unfolding grants_def by blast
  then show "1 \<le> xfers" "nat xfers \<le> 16" "list_all block_in_range (take (nat xfers) dma)" "x_sg_ok X" "\<not> x_chained X"
    using assms by (simp_all add: grants_def nat_le_iff)
qed

lemma read_run:
  assumes "ready_in a d (False, wm) (kern s)" "boards (kern s) a = Some b" "read_buffers_level b = 0"
    and "events (kern s) = Irq # es" "read_done K d n" "count \<noteq> 0"
    and "1 \<le> num_pages (page_geometry buf count)" "num_pages (page_geometry buf count) \<le> 4096"
    and "pg_offset (page_geometry buf count) mod 128 = 0" "grants X (page_geometry buf count)"
  shows "\<exists>s'. bluenoc_read K X fuel a buf count s = (Inr (sint n), s')"
proof -
  define g where "g = page_geometry buf count"
  let ?f = "\<lambda>b. if debugging b DEBUG_PROFILE then b\<lparr>read_call_count := read_call_count b + 1\<rparr> else b"
  let ?s1 = "s\<lparr>kern := (kern s)\<lparr>boards := (boards (kern s))(a \<mapsto> ?f b)\<rparr>\<rparr>"
  have active: "activation_level b = BLUENOC_ACTIVE"
    using ready_board [OF assms(1) [unfolded ready_in_def]] assms(2) by (metis option.inject)
  have keep: "safe a d (False, wm) (set_board a ?f) (\<lambda>_. True) (False, wm)" by (rule safe_set_board) simp
  have 1: "set_board a ?f (kern s) = (Inr (), kern ?s1)" by (simp add: set_board_run [OF assms(2)])
  have r1: "ready_in a d (False, wm) (kern ?s1)"
    using hoare_Inr [OF keep [unfolded safe_def] assms(1) 1] by simp
  obtain t2 s2 where 2: "profile_time X a (0, 0) ?s1 = (Inr t2, s2)" "kern s2 = kern ?s1" using profile_time_run [OF r1] by blast
  have board: "boards (kern ?s1) a = Some (?f b)" "read_buffers_level (?f b) = 0" "events (kern ?s1) = Irq # es"
    using assms(3,4) by simp_all
  define P where "P r k \<longleftrightarrow> fst r = sint n \<and> ready_in a d (False, wm) k" for r :: outcome and k
  have locked: "\<exists>r t. read_locked K X fuel a g pages (blocks_to_send X xfers dma) s' = (Inr r, t) \<and> P r (kern t)"
    if "x_map X (sg_list g pages) = (xfers, dma)" "kern s' = kern s2" for pages xfers dma s'
  proof -
    have "length (blocks_to_send X xfers dma) \<le> 16"
      using grantsD(2,5) [OF assms(10) [folded g_def] that(1)] by (simp add: blocks_to_send_def)
    then have "length (blocks_to_send X xfers dma) \<le> unat (16 - read_buffers_level (?f b))" using board(2) by simp
    then show ?thesis
      using read_locked_run [of a d wm s' "?f b" K n es "blocks_to_send X xfers dma" X fuel g pages] r1 board 2(2) that(2) assms(5)
      unfolding P_def by simp
  qed
  have mapped: "\<exists>r t. with_mapping X a g pages (read_locked K X fuel a g pages) s' = (Inr r, t) \<and> P r (kern t)"
    if k: "kern s' = kern s2" for pages s'
  proof -
    obtain xfers dma where m: "x_map X (sg_list g pages) = (xfers, dma)" by fastforce
    show ?thesis
      by (rule with_mapping_run [OF _ _ m, where b = "?f b"])
        (use grantsD [OF assms(10) [folded g_def] m] assms(7) board(1) k 2(2) locked [OF m] in \<open>simp_all add: g_def\<close>)
  qed
  have "\<exists>r t. with_pages X g (\<lambda>pages. with_mapping X a g pages (read_locked K X fuel a g pages)) s2 = (Inr r, t) \<and> P r (kern t)"
    by (rule with_pages_run) (use assms(10) mapped in \<open>simp_all add: grants_def g_def\<close>)
  then obtain r t where 3: "with_pages X g (\<lambda>pages. with_mapping X a g pages (read_locked K X fuel a g pages)) s2 = (Inr r, t)"
      "fst r = sint n" "ready_in a d (False, wm) (kern t)" unfolding P_def by blast
  obtain err bt ut where r: "r = (err, bt, ut)" by (cases r)
  obtain s4 where 4: "bind (in_kernel (the_board a)) (\<lambda>b. if debugging b DEBUG_PROFILE then
      bind (getnstimeofday X) (\<lambda>finish_time. in_kernel (set_board a (\<lambda>b. b\<lparr>
                       total_read_call_ns := total_read_call_ns b + ns_between finish_time t2,
                       total_read_blocked_ns := total_read_blocked_ns b + ns_between ut bt\<rparr>)))
      else ret ()) t = (Inr (), s4)"
    using profile_end_run [OF 3(3), of X "\<lambda>finish_time b. b\<lparr>
      total_read_call_ns := total_read_call_ns b + ns_between finish_time t2,
      total_read_blocked_ns := total_read_blocked_ns b + ns_between ut bt\<rparr>"] by blast
  have "read_pages K X fuel a g s2 = (Inr r, t)"
    using 3(1) assms(8,9) by (simp add: read_pages_def g_def)
  then have "bluenoc_read K X fuel a buf count s = (Inr err, s4)"
    using active assms(2,6) 1 2(1) 4 r
    by (simp add: bluenoc_read_def bind_def [of "in_kernel (the_board a)"] in_kernel_def [of "the_board a"] the_board_run
        andThen_def bind_def g_def in_kernel_run)
  then show ?thesis using 3(2) r by simp
qed

section \<open>Examples\<close>

text \<open>A kernel that maps each entry to a block of its own, and one that maps nothing.\<close>

definition xenv0 :: xenv where
  "xenv0 = \<lparr>x_chained = False, x_kmalloc_ok = True, x_pin = (\<lambda>n. n), x_frame = (\<lambda>i. 100 + i),
     x_reserved = (\<lambda>_. False), x_sg_ok = True,
     x_map = (\<lambda>sg. (1, [(0x7fff12345000, 4096)])), x_clock = (\<lambda>_. (0, 0)), x_junk_block = (7, 7), x_junk_unblock = (3, 3)\<rparr>"

text \<open>Board 1 of \<^term>\<open>kern2\<close>, with interrupts on the way and a device that has done its work.\<close>

definition io0 :: io where
  "io0 = \<lparr>kern = kern2\<lparr>events := [Irq, Irq]\<rparr>, pins = (\<lambda>_. 0), page_arrays = 0, sg_tables = 0, mappings = 0,
     dirty = {}, clock = 0\<rparr>"

definition done_kenv :: kenv where
  "done_kenv = good_kenv\<lparr>k_reg := (\<lambda>d t off. if off = 2056 then 4000 else 0x40)\<rparr>"

text \<open>A read in progress, with a signal pending.\<close>

definition io_busy :: io where
  "io_busy = io0\<lparr>kern := kern2\<lparr>boards := [0 \<mapsto> board1\<lparr>read_mutex := True\<rparr>], events := [Signal]\<rparr>\<rparr>"

lemma io_busy_ready: "ready 0 7 True False (kern io_busy)" "boards (kern io_busy) 0 = Some (board1\<lparr>read_mutex := True\<rparr>)"
  "\<not> read_completed (board1\<lparr>read_mutex := True\<rparr>)" "\<not> read_flushed (board1\<lparr>read_mutex := True\<rparr>)"
  "events (kern io_busy) = [Signal]"
  by (simp_all add: io_busy_def ready_def board_ok_def kern2_def board1_def junk0_def holds_upto_def levels)

lemma xenv0_maps: "1 \<le> fst (x_map xenv0 sg)"
  by (simp add: xenv0_def)

lemma io0_ready: "ready 0 7 False False (kern io0)" "boards (kern io0) 0 = Some board1"
  "read_buffers_level board1 = 0" "events (kern io0) = [Irq, Irq]"
  by (simp_all add: io0_def ready_def board_ok_def kern2_def board1_def junk0_def holds_upto_def levels)

lemma geometry_4096: "num_pages (page_geometry 4096 4096) = 1" "pg_offset (page_geometry 4096 4096) = 0"
  by (simp_all add: page_geometry_def Let_def)

lemma xenv0_grants: "grants xenv0 g"
  by (simp add: grants_def xenv0_def block_in_range_def)

lemma done_kenv_done: "read_done done_kenv 7 4000"
  by (simp add: read_done_def done_kenv_def join_def bit_simps)

section \<open>Properties\<close>

text \<open>C8. Reading and writing give back every pinned page, every allocation and every mapping
  whatever the outcome of the call, when \<^verbatim>\<open>pci_map_sg\<close> never fails.\<close>

theorem transfers_give_back:
  assumes "\<And>sg. 1 \<le> fst (x_map X sg)"
  shows "(case bluenoc_read K X fuel a buf count s of (Inl e, s') \<Rightarrow> True | (Inr r, s') \<Rightarrow> held s' = held s) \<and>
    (case bluenoc_write K X fuel a buf count s of (Inl e, s') \<Rightarrow> True | (Inr r, s') \<Rightarrow> held s' = held s)"
proof -
  have "hoare (\<lambda>t. held t = held s) (bluenoc_read K X fuel a buf count) (\<lambda>_ t. held t = held s) (\<lambda>_ _. True)"
    "hoare (\<lambda>t. held t = held s) (bluenoc_write K X fuel a buf count) (\<lambda>_ t. held t = held s) (\<lambda>_ _. True)"
    using gives_back_read [OF assms] gives_back_write [OF assms] by blast+
  from this [THEN hoare_run, OF refl] show ?thesis by (simp split: prod.splits sum.splits)
qed

theorem transfers_give_back_witness:
  "(case bluenoc_read done_kenv xenv0 5 0 4096 4096 io0 of (Inl e, s') \<Rightarrow> True | (Inr r, s') \<Rightarrow> held s' = held io0) \<and>
    (case bluenoc_write done_kenv xenv0 5 0 4096 4096 io0 of (Inl e, s') \<Rightarrow> True | (Inr r, s') \<Rightarrow> held s' = held io0)"
  by (rule transfers_give_back) (rule xenv0_maps)


text \<open>When \<^verbatim>\<open>pci_map_sg\<close> fails, the clean-up unmaps a list that was never mapped.\<close>

theorem failed_map_is_unmapped:
  assumes "x_sg_ok X" "1 \<le> num_pages g" "fst (x_map X (sg_list g pages)) < 1"
  shows "with_mapping X a g pages body s = (Inr (failed X (- EFAULT)), s\<lparr>mappings := mappings s - 1\<rparr>)"
  using assms by (cases "x_map X (sg_list g pages)") (simp add: with_mapping_def Let_def andThen_def bind_def)

theorem failed_map_is_unmapped_witness:
  "with_mapping (xenv0\<lparr>x_map := (\<lambda>sg. (0, []))\<rparr>) 0 (page_geometry 4096 4096) [100] (\<lambda>_. raise Blocked) io0 =
    (Inr (failed (xenv0\<lparr>x_map := (\<lambda>sg. (0, []))\<rparr>) (- EFAULT)), io0\<lparr>mappings := mappings io0 - 1\<rparr>)"
  by (rule failed_map_is_unmapped) (simp_all add: xenv0_def geometry_4096)


text \<open>C6. On an active board reading or writing 1 to 2^31 - 1 bytes never faults; when the call
  returns, the board is still active with both locks as they were, and the value is 0, an error
  code, or the transfer count the device reported.\<close>

theorem transfers_never_fault:
  assumes "unat buf + unat count < 2 ^ 64" "0 < unat count" "unat count < 2 ^ 31" "ready a d rm wm (kern s)"
  shows "(case bluenoc_read K X fuel a buf count s of
      (Inl e, s') \<Rightarrow> e = Blocked
    | (Inr r, s') \<Rightarrow> ready a d rm wm (kern s') \<and> transfer_result K X d 2056 r) \<and>
    (case bluenoc_write K X fuel a buf count s of
      (Inl e, s') \<Rightarrow> e = Blocked
    | (Inr r, s') \<Rightarrow> ready a d rm wm (kern s') \<and> transfer_result K X d 2060 r)"
proof
  have c: "count = 0 \<or> 1 \<le> num_pages (page_geometry buf count)" using geometry_pages [OF assms(1-3)] by blast
  from hoare_run [OF read_safe [OF c, unfolded io_safe_def ready_in_def fst_conv snd_conv] assms(4)]
  show "case bluenoc_read K X fuel a buf count s of
      (Inl e, s') \<Rightarrow> e = Blocked
    | (Inr r, s') \<Rightarrow> ready a d rm wm (kern s') \<and> transfer_result K X d 2056 r" .
  from hoare_run [OF write_safe [OF c, unfolded io_safe_def ready_in_def fst_conv snd_conv] assms(4)]
  show "case bluenoc_write K X fuel a buf count s of
      (Inl e, s') \<Rightarrow> e = Blocked
    | (Inr r, s') \<Rightarrow> ready a d rm wm (kern s') \<and> transfer_result K X d 2060 r" .
qed

theorem transfers_never_fault_witness:
  "(case bluenoc_read done_kenv xenv0 5 0 4096 4096 io0 of
      (Inl e, s') \<Rightarrow> e = Blocked
    | (Inr r, s') \<Rightarrow> ready 0 7 False False (kern s') \<and> transfer_result done_kenv xenv0 7 2056 r) \<and>
    (case bluenoc_write done_kenv xenv0 5 0 4096 4096 io0 of
      (Inl e, s') \<Rightarrow> e = Blocked
    | (Inr r, s') \<Rightarrow> ready 0 7 False False (kern s') \<and> transfer_result done_kenv xenv0 7 2060 r)"
  by (rule transfers_never_fault) (simp_all add: io0_ready)

text \<open>With a free slot for every block, sending writes one command per block in order to
  the command register and nothing else, with the end-of-list bit on the last one only.\<close>

theorem read_commands_in_order:
  assumes "ready a d rm wm k" "length blocks \<le> unat slots" "blocks \<noteq> []"
  shows "\<exists>k'. read_send K a fuel blocks slots k = (Inr 0, k') \<and>
    writes k' = writes k @ map (\<lambda>c. (d, 4096, 8, c)) (commands slots blocks) \<and>
    map (\<lambda>c. bit c 63) (commands slots blocks) = replicate (length blocks - 1) False @ [True]"
  using read_send_run [of a d "(rm, wm)", OF _ assms(2)] assms(1) commands_end [OF assms(3)] by (fastforce simp: ready_in_def)

theorem read_commands_in_order_witness:
  "\<exists>k'. read_send done_kenv 0 0 [(0x10000, 128), (0x20000, 4096)] 2 (kern io0) = (Inr 0, k') \<and>
    writes k' = writes (kern io0) @ map (\<lambda>c. (7, 4096, 8, c)) (commands 2 [(0x10000, 128), (0x20000, 4096)]) \<and>
    map (\<lambda>c. bit c 63) (commands 2 [(0x10000, 128), (0x20000, 4096)]) =
      replicate (length [(0x10000 :: u64, 128 :: u32), (0x20000, 4096)] - 1) False @ [True]"
  by (rule read_commands_in_order [OF io0_ready(1)]) simp_all

text \<open>With the chained lists of newer kernels the send loop follows the list to its end and
  not to the number of mapped blocks: when the kernel has merged entries, stale ones are sent
  as well and the last mapped block does not carry the end-of-list bit.\<close>

theorem chained_sends_stale_blocks:
  assumes "1 \<le> xfers" "nat xfers < length dma"
  shows "length (commands slots (blocks_to_send X xfers dma)) = (if x_chained X then length dma else nat xfers) \<and>
    (bit (commands slots (blocks_to_send X xfers dma) ! (nat xfers - 1)) 63 = (\<not> x_chained X))"
proof -
  have bits: "bit (commands slots bs ! i) 63 = (Suc i = length bs)" if "i < length bs" for bs i
  proof -
    have "map (\<lambda>c. bit c 63) (commands slots bs) = replicate (length bs - 1) False @ [True]"
      using that by (intro commands_end) auto
    then have "map (\<lambda>c. bit c 63) (commands slots bs) ! i = (replicate (length bs - 1) False @ [True]) ! i" by simp
    then show ?thesis using that by (auto simp: nth_append commands_length)
  qed
  have "nat xfers - 1 < length (blocks_to_send X xfers dma)" "Suc (nat xfers - 1) = nat xfers"
    using assms by (auto simp: blocks_to_send_def)
  then show ?thesis
    using assms(2) bits [of "nat xfers - 1" "blocks_to_send X xfers dma"]
    by (simp add: blocks_to_send_def commands_length)
qed

theorem chained_sends_stale_blocks_witness:
  "length (commands 16 (blocks_to_send (xenv0\<lparr>x_chained := True\<rparr>) 1 [(0x1000, 8192), (0, 0)])) =
     (if x_chained (xenv0\<lparr>x_chained := True\<rparr>) then length [(0x1000 :: u64, 8192 :: u32), (0, 0)] else nat 1) \<and>
    (bit (commands 16 (blocks_to_send (xenv0\<lparr>x_chained := True\<rparr>) 1 [(0x1000, 8192), (0, 0)]) ! (nat 1 - 1)) 63 =
      (\<not> x_chained (xenv0\<lparr>x_chained := True\<rparr>)))"
  by (rule chained_sends_stale_blocks) simp_all

text \<open>C13. A read from an active board whose read lock is free and whose command queue is empty,
  of 1 to 4096 pages from an offset that is a multiple of 128, for which the kernel allocates the
  page table, pins every page and sets up the scatter list, maps it to 1 to 16 blocks of at most
  16384 bytes below \<^verbatim>\<open>2^48\<close>, with the driver built without chained lists: it returns the
  device's count when an interrupt is next and the device reports the read as completed.\<close>

theorem read_completes:
  assumes "ready a d False wm (kern s)" "boards (kern s) a = Some b" "read_buffers_level b = 0"
    and "events (kern s) = Irq # es" "read_done K d n" "count \<noteq> 0"
    and "1 \<le> num_pages (page_geometry buf count)" "num_pages (page_geometry buf count) \<le> 4096"
    and "pg_offset (page_geometry buf count) mod 128 = 0" "grants X (page_geometry buf count)"
  shows "\<exists>s'. bluenoc_read K X fuel a buf count s = (Inr (sint n), s')"
  by (rule read_run [where wm = wm, OF _ assms(2-10)]) (simp add: ready_in_def assms(1))

theorem read_completes_witness:
  "\<exists>s'. bluenoc_read done_kenv xenv0 0 0 4096 4096 io0 = (Inr (sint (4000 :: u32)), s')"
  by (rule read_completes [OF io0_ready done_kenv_done]) (simp_all add: geometry_4096 xenv0_grants)

text \<open>A signal ends the wait for completion without stopping the device: the call returns
  and the caller then unpins the pages, although the transfer has neither completed nor been
  flushed and no register of the device has been written.\<close>

theorem signal_leaves_device_running:
  assumes "ready a d True wm (kern s)" "boards (kern s) a = Some b" "\<not> read_completed b" "\<not> read_flushed b"
    and "events (kern s) = Signal # es"
  shows "\<exists>r s' b'. read_complete K X a g pages s = (Inr r, s') \<and> fst r = - ERESTARTSYS \<and>
    writes (kern s') = writes (kern s) \<and> boards (kern s') a = Some b' \<and> \<not> read_completed b' \<and> \<not> read_flushed b'"
proof -
  obtain b0 where "boards (kern s) a = Some b0" "bar0io b0 \<noteq> 0" "pd_mapped (pci (kern s) (pci_dev b0))"
    using assms(1) by (rule ready_board)
  then have b: "bar0io b \<noteq> 0" "pd_mapped (pci (kern s) (pci_dev b))" using assms(2) by auto
  show ?thesis
    by (cases "debugging b DEBUG_PROFILE")
      (simp_all add: read_complete_def profile_time_def bind_def andThen_def in_kernel_def the_board_run assms b
        getnstimeofday_def wait_for_def ioread32_run set_board_run mark_dirty_def)
qed

theorem signal_leaves_device_running_witness:
  "\<exists>r s' b'. read_complete done_kenv xenv0 0 (page_geometry 4096 4096) [100] io_busy = (Inr r, s') \<and>
    fst r = - ERESTARTSYS \<and> writes (kern s') = writes (kern io_busy) \<and> boards (kern s') 0 = Some b' \<and>
    \<not> read_completed b' \<and> \<not> read_flushed b'"
  by (rule signal_leaves_device_running [OF io_busy_ready]) 

end
