(* ===== verification/Bluenoc_Ioctl.thy ===== *)
theory Bluenoc_Ioctl
  imports Bluenoc_Driver
begin

text \<open>
  \<^verbatim>\<open>drivers/linux/platforms/bluenoc-pcie\<close>: poll, seek and the ioctls of the driver
  (\<^verbatim>\<open>driver/bluenoc.c\<close>, \<^verbatim>\<open>driver/bluenoc.h\<close>), and the command line tool that
  deactivates and reactivates a board through them (\<^verbatim>\<open>ioctl/bluenoc-ioctl.c\<close>).
\<close>

section \<open>Command codes\<close>

text \<open>The fields of an ioctl number: number, type, size and direction.\<close>

definition IOC :: "u32 \<Rightarrow> u32 \<Rightarrow> u32 \<Rightarrow> u32 \<Rightarrow> u32" where
  "IOC dir type nr sz = push_bit 30 dir OR push_bit 16 sz OR push_bit 8 type OR nr"

definition IOC_NR :: "u32 \<Rightarrow> u32" where "IOC_NR cmd = cmd AND 0xff"
definition IOC_TYPE :: "u32 \<Rightarrow> u32" where "IOC_TYPE cmd = drop_bit 8 cmd AND 0xff"
definition IOC_SIZE :: "u32 \<Rightarrow> u32" where "IOC_SIZE cmd = drop_bit 16 cmd AND 0x3fff"
definition IOC_DIR :: "u32 \<Rightarrow> u32" where "IOC_DIR cmd = drop_bit 30 cmd"

abbreviation (input) IOC_NONE :: u32 where "IOC_NONE \<equiv> 0"
abbreviation (input) IOC_WRITE :: u32 where "IOC_WRITE \<equiv> 1"
abbreviation (input) IOC_READ :: u32 where "IOC_READ \<equiv> 2"

definition BNOC_IOC_MAGIC :: u32 where "BNOC_IOC_MAGIC = 0xB5"
definition BNOC_IOC_MAXNR :: u32 where "BNOC_IOC_MAXNR = 11"

text \<open>The type argument of each is a pointer, so that the size is that of a pointer.\<close>

definition BNOC_IDENTIFY :: u32 where "BNOC_IDENTIFY = IOC IOC_READ BNOC_IOC_MAGIC 0 8"
definition BNOC_SOFT_RESET :: u32 where "BNOC_SOFT_RESET = IOC IOC_NONE BNOC_IOC_MAGIC 1 0"
definition BNOC_DEACTIVATE :: u32 where "BNOC_DEACTIVATE = IOC IOC_NONE BNOC_IOC_MAGIC 2 0"
definition BNOC_REACTIVATE :: u32 where "BNOC_REACTIVATE = IOC IOC_NONE BNOC_IOC_MAGIC 3 0"
definition BNOC_GET_DEBUG_LEVEL :: u32 where "BNOC_GET_DEBUG_LEVEL = IOC IOC_READ BNOC_IOC_MAGIC 4 8"
definition BNOC_SET_DEBUG_LEVEL :: u32 where "BNOC_SET_DEBUG_LEVEL = IOC IOC_WRITE BNOC_IOC_MAGIC 5 8"
definition BNOC_GET_STATUS :: u32 where "BNOC_GET_STATUS = IOC IOC_READ BNOC_IOC_MAGIC 6 8"
definition BNOC_CLK_RD_WORD :: u32 where "BNOC_CLK_RD_WORD = IOC IOC_READ BNOC_IOC_MAGIC 7 8"
definition BNOC_CLK_GET_STATUS :: u32 where "BNOC_CLK_GET_STATUS = IOC IOC_READ BNOC_IOC_MAGIC 8 8"
definition BNOC_CLK_CLR_WORD :: u32 where "BNOC_CLK_CLR_WORD = IOC IOC_WRITE BNOC_IOC_MAGIC 9 8"
definition BNOC_CLK_SEND_CTRL :: u32 where "BNOC_CLK_SEND_CTRL = IOC IOC_WRITE BNOC_IOC_MAGIC 10 8"
definition BNOC_CAPABILITIES :: u32 where "BNOC_CAPABILITIES = IOC IOC_READ BNOC_IOC_MAGIC 11 8"

lemmas bnoc_codes = BNOC_IDENTIFY_def BNOC_SOFT_RESET_def BNOC_DEACTIVATE_def BNOC_REACTIVATE_def
  BNOC_GET_DEBUG_LEVEL_def BNOC_SET_DEBUG_LEVEL_def BNOC_GET_STATUS_def BNOC_CLK_RD_WORD_def
  BNOC_CLK_GET_STATUS_def BNOC_CLK_CLR_WORD_def BNOC_CLK_SEND_CTRL_def BNOC_CAPABILITIES_def
  BNOC_IOC_MAGIC_def IOC_def

section \<open>User memory\<close>

record board_info =
  bi_board_number :: nat
  bi_is_active :: u32
  bi_major_rev :: u32
  bi_minor_rev :: u32
  bi_build :: u32
  bi_timestamp :: u32
  bi_bytes_per_beat :: u32
  bi_content_id :: u64
  bi_subvendor_id :: u32
  bi_subdevice_id :: u32

text \<open>
  The caller's memory at the argument of the call: whether a range belongs to the user, whether
  writing so many bytes there succeeds, and what reading gives (\<^verbatim>\<open>None\<close> is a fault).
\<close>

record uenv =
  u_access_ok :: "u64 \<Rightarrow> nat \<Rightarrow> bool"
  u_writable :: "u64 \<Rightarrow> nat \<Rightarrow> bool"
  u_read :: "u64 \<Rightarrow> nat \<Rightarrow> u64 option"

datatype user_write = User_Info board_info | User_Level u32 | User_Word u64

type_synonym ioctl_result = "int \<times> user_write option"

definition put_user :: "uenv \<Rightarrow> u64 \<Rightarrow> nat \<Rightarrow> user_write \<Rightarrow> ioctl_result" where
  "put_user U arg bytes w = (if u_writable U arg bytes then (0, Some w) else (- EFAULT, None))"

section \<open>The ioctls\<close>

definition identify :: "kenv \<Rightarrow> board \<Rightarrow> board_info" where
  "identify K b = \<lparr>bi_board_number = board_number b,
     bi_is_active = (if activation_level b = BLUENOC_ACTIVE then 1 else 0),
     bi_major_rev = major_rev b, bi_minor_rev = minor_rev b, bi_build = build b,
     bi_timestamp = timestamp b, bi_bytes_per_beat = bytes_per_beat b, bi_content_id = content_id b,
     bi_subvendor_id = k_subsystem_vendor K (pci_dev b), bi_subdevice_id = k_subsystem_device K (pci_dev b)\<rparr>"

definition soft_reset :: "nat \<Rightarrow> ioctl_result kprog" where
  "soft_reset a = bind (the_board a) (\<lambda>b.
     if activation_level b = BLUENOC_ACTIVE
     then andThen (iowrite8 a 257 0) (andThen (iowrite8 a 257 1) (ret (0, None)))
     else ret (0, None))"

definition clear_profile :: "board \<Rightarrow> board" where
  "clear_profile b = b\<lparr>read_call_count := 0, write_call_count := 0, poll_call_count := 0,
     total_bytes_read := 0, total_bytes_written := 0, total_read_call_ns := 0,
     total_read_blocked_ns := 0, total_write_call_ns := 0, total_write_blocked_ns := 0, interrupt_count := 0\<rparr>"

text \<open>
  The debug level is read straight into the board; a failed read leaves 0 there. Turning
  profiling on clears the counters; turning it off only prints them.
\<close>

definition set_debug_level :: "uenv \<Rightarrow> nat \<Rightarrow> u64 \<Rightarrow> ioctl_result kprog" where
  "set_debug_level U a arg = bind (the_board a) (\<lambda>b.
     case u_read U arg 4 of
       None \<Rightarrow> andThen (set_board a (\<lambda>b. b\<lparr>debug_level := 0\<rparr>)) (ret (- EFAULT, None))
     | Some v \<Rightarrow>
         (let level = ucast v; changed = level XOR debug_level b in
          andThen (set_board a (\<lambda>b. b\<lparr>debug_level := level\<rparr>))
          (andThen (if changed AND DEBUG_PROFILE \<noteq> 0 \<and> level AND DEBUG_PROFILE \<noteq> 0
                    then set_board a clear_profile else ret ())
            (ret (0, None)))))"

definition read_register :: "kenv \<Rightarrow> uenv \<Rightarrow> nat \<Rightarrow> u64 \<Rightarrow> nat \<Rightarrow> ioctl_result kprog" where
  "read_register K U a arg off = bind (ioread32 K a off) (\<lambda>v. ret (put_user U arg 8 (User_Word (ucast v))))"

definition write_register :: "uenv \<Rightarrow> nat \<Rightarrow> u64 \<Rightarrow> nat \<Rightarrow> ioctl_result kprog" where
  "write_register U a arg off =
     (case u_read U arg 8 of
        None \<Rightarrow> ret (- EFAULT, None)
      | Some v \<Rightarrow> andThen (iowrite32 a off (ucast v)) (ret (0, None)))"

definition ioctl_command :: "kenv \<Rightarrow> uenv \<Rightarrow> nat \<Rightarrow> u32 \<Rightarrow> u64 \<Rightarrow> ioctl_result kprog" where
  "ioctl_command K U a cmd arg =
     (if cmd = BNOC_IDENTIFY then bind (the_board a) (\<lambda>b. ret (put_user U arg 48 (User_Info (identify K b))))
      else if cmd = BNOC_SOFT_RESET then soft_reset a
      else if cmd = BNOC_DEACTIVATE then andThen (deactivate (Some a)) (ret (0, None))
      else if cmd = BNOC_REACTIVATE then andThen (activate K (Some a)) (ret (0, None))
      else if cmd = BNOC_GET_DEBUG_LEVEL then
        bind (the_board a) (\<lambda>b. ret (put_user U arg 4 (User_Level (debug_level b))))
      else if cmd = BNOC_SET_DEBUG_LEVEL then set_debug_level U a arg
      else if cmd = BNOC_GET_STATUS then read_register K U a arg 128
      else if cmd = BNOC_CLK_RD_WORD then read_register K U a arg 384
      else if cmd = BNOC_CLK_GET_STATUS then read_register K U a arg 388
      else if cmd = BNOC_CLK_CLR_WORD then write_register U a arg 384
      else if cmd = BNOC_CLK_SEND_CTRL then write_register U a arg 392
      else if cmd = BNOC_CAPABILITIES then read_register K U a arg 40
      else ret (- ENOTTY, None))"

definition bluenoc_ioctl :: "kenv \<Rightarrow> uenv \<Rightarrow> nat \<Rightarrow> u32 \<Rightarrow> u64 \<Rightarrow> ioctl_result kprog" where
  "bluenoc_ioctl K U a cmd arg =
     (if IOC_TYPE cmd \<noteq> BNOC_IOC_MAGIC then ret (- ENOTTY, None)
      else if BNOC_IOC_MAXNR < IOC_NR cmd then ret (- ENOTTY, None)
      else if IOC_DIR cmd AND (IOC_READ OR IOC_WRITE) \<noteq> 0 \<and> \<not> u_access_ok U arg (unat (IOC_SIZE cmd))
      then ret (- EFAULT, None)
      else ioctl_command K U a cmd arg)"

section \<open>Poll and seek\<close>

abbreviation (input) POLLIN :: u32 where "POLLIN \<equiv> 0x1"
abbreviation (input) POLLPRI :: u32 where "POLLPRI \<equiv> 0x2"
abbreviation (input) POLLOUT :: u32 where "POLLOUT \<equiv> 0x4"
abbreviation (input) POLLERR :: u32 where "POLLERR \<equiv> 0x8"
abbreviation (input) POLLHUP :: u32 where "POLLHUP \<equiv> 0x10"
abbreviation (input) POLLRDNORM :: u32 where "POLLRDNORM \<equiv> 0x40"
abbreviation (input) POLLWRNORM :: u32 where "POLLWRNORM \<equiv> 0x100"

definition bluenoc_poll :: "nat \<Rightarrow> u32 kprog" where
  "bluenoc_poll a = bind (the_board a) (\<lambda>b.
     if magic_num b \<noteq> EXPECTED_MAGIC then ret POLLERR
     else if activation_level b \<noteq> BLUENOC_ACTIVE then ret 0
     else
       andThen (set_board a (\<lambda>b. if debugging b DEBUG_PROFILE then b\<lparr>poll_call_count := poll_call_count b + 1\<rparr> else b))
         (ret ((if read_ok b then POLLIN OR POLLRDNORM else 0) OR (if write_ok b then POLLOUT OR POLLWRNORM else 0))))"

definition bluenoc_llseek :: "int kprog" where
  "bluenoc_llseek = ret (- ESPIPE)"

section \<open>The tool\<close>

text \<open>How the tool ends: with a message and failure, at a failed assertion, or normally.\<close>

datatype tool_end = Failure | Aborted | Finished

text \<open>
  \<^verbatim>\<open>poll\<close> reports the requested events and errors; \<^verbatim>\<open>Probe\<close> asks whether there are any.
\<close>

definition Probe :: "nat \<Rightarrow> bool kprog" where
  "Probe a = bind (bluenoc_poll a) (\<lambda>events.
     ret (events AND (POLLIN OR POLLPRI OR POLLERR OR POLLHUP) \<noteq> 0))"

text \<open>Whether the board is active, as \<^verbatim>\<open>BNOC_IDENTIFY\<close> tells it; \<^verbatim>\<open>junk\<close> if the call fails.\<close>

definition ask_active :: "kenv \<Rightarrow> uenv \<Rightarrow> bool \<Rightarrow> nat \<Rightarrow> u64 \<Rightarrow> bool kprog" where
  "ask_active K U junk a arg = bind (bluenoc_ioctl K U a BNOC_IDENTIFY arg) (\<lambda>r.
     ret (case snd r of Some (User_Info i) \<Rightarrow> bi_is_active i \<noteq> 0 | _ \<Rightarrow> junk))"

text \<open>The file is closed when the process ends.\<close>

definition tool_run :: "kenv \<Rightarrow> uenv \<Rightarrow> bool \<Rightarrow> u64 \<Rightarrow> string \<Rightarrow> nat \<Rightarrow> tool_end kprog" where
  "tool_run K U junk arg command a =
     (if command = ''deactivate'' then
        bind (bluenoc_ioctl K U a BNOC_DEACTIVATE 0) (\<lambda>res.
        bind (ask_active K U junk a arg) (\<lambda>active.
          if active then ret Aborted
          else if fst res < 0 then ret Failure else ret Finished))
      else if command = ''activate'' then
        bind (bluenoc_ioctl K U a BNOC_REACTIVATE 0) (\<lambda>res.
        bind (ask_active K U junk a arg) (\<lambda>active.
          if \<not> active then ret Aborted
          else bind (Probe a) (\<lambda>warned. if fst res < 0 then ret Failure else ret Finished)))
      else ret Failure)"

definition tool_main :: "kenv \<Rightarrow> uenv \<Rightarrow> bool \<Rightarrow> u64 \<Rightarrow> (string \<Rightarrow> nat option) \<Rightarrow> string list \<Rightarrow> tool_end kprog" where
  "tool_main K U junk arg node argv =
     (if length argv < 3 then ret Failure
      else
        (case node (argv ! 1) of
           None \<Rightarrow> ret Failure
         | Some n \<Rightarrow> bind (bluenoc_open n) (\<lambda>(err, file').
             case file' of
               None \<Rightarrow> ret Failure
             | Some a \<Rightarrow> bind (tool_run K U junk arg (argv ! 2) a) (\<lambda>e.
                 andThen (bluenoc_release n a) (ret e)))))"

section \<open>What the calls keep\<close>

definition listed :: "nat \<Rightarrow> kernel \<Rightarrow> bool" where
  "listed a k \<longleftrightarrow> driver_ok k \<and> a \<in> set (board_list k)"

text \<open>A call on a listed board that returns, with the invariant and the list kept.\<close>

definition keeps :: "nat \<Rightarrow> 'a kprog \<Rightarrow> bool" where
  "keeps a p \<longleftrightarrow> (\<forall>k. listed a k \<longrightarrow> (\<exists>r k'. p k = (Inr r, k') \<and> listed a k'))"

lemma keeps_bind: "keeps a p \<Longrightarrow> (\<And>x. keeps a (f x)) \<Longrightarrow> keeps a (bind p f)"
  unfolding keeps_def bind_def by fastforce

lemma keeps_andThen: "keeps a p \<Longrightarrow> keeps a q \<Longrightarrow> keeps a (andThen p q)"
  unfolding andThen_def by (rule keeps_bind)

lemma keeps_ret: "keeps a (ret x)"
  by (simp add: keeps_def)

lemma keeps_if: "(c \<Longrightarrow> keeps a p) \<Longrightarrow> (\<not> c \<Longrightarrow> keeps a q) \<Longrightarrow> keeps a (if c then p else q)"
  by simp

lemma keeps_the_board: "keeps a (the_board a)"
  unfolding keeps_def listed_def by (metis listed_board the_board_run)

lemma keeps_deactivate: "keeps a (deactivate (Some a))"
  unfolding keeps_def listed_def by (metis deactivate_keeps elsewhere_def)

lemma keeps_activate: "keeps a (activate K (Some a))"
  unfolding keeps_def listed_def by (metis activate_keeps elsewhere_def)

lemma keeps_set_board:
  assumes "\<And>b. pci_dev (f b) = pci_dev b \<and> board_number (f b) = board_number b \<and> activation_level (f b) = activation_level b \<and>
    uses_msix (f b) = uses_msix b \<and> bar0io (f b) = bar0io b"
  shows "keeps a (set_board a f)"
  unfolding keeps_def
proof (intro allI impI)
  fix k assume "listed a k"
  then have k: "driver_ok k" "a \<in> set (board_list k)" by (simp_all add: listed_def)
  then obtain b where b: "boards k a = Some b" "board_ok k a b" "BOARD_NUM_ASSIGNED \<le> activation_level b"
    using listed_board by metis
  let ?k' = "k\<lparr>boards := (boards k)(a \<mapsto> f b)\<rparr>"
  have "driver_ok ?k'"
    by (rule driver_ok_board_step [OF k(1) b(1), where b' = "f b"])
      (use assms [of b] b in \<open>auto simp: elsewhere_def board_ok_def\<close>)
  then show "\<exists>r k'. set_board a f k = (Inr r, k') \<and> listed a k'"
    using set_board_run [OF b(1), of f] k(2) by (simp add: listed_def)
qed

lemma driver_ok_registers [simp]:
  "driver_ok (k\<lparr>accesses := n\<rparr>) = driver_ok k" "driver_ok (k\<lparr>accesses := n, writes := ws\<rparr>) = driver_ok k"
proof -
  have "num_of (k\<lparr>accesses := n\<rparr>) = num_of k" "dev_of (k\<lparr>accesses := n\<rparr>) = dev_of k"
    "num_of (k\<lparr>accesses := n, writes := ws\<rparr>) = num_of k" "dev_of (k\<lparr>accesses := n, writes := ws\<rparr>) = dev_of k"
    by (simp_all add: num_of_def dev_of_def fun_eq_iff)
  then show "driver_ok (k\<lparr>accesses := n\<rparr>) = driver_ok k" "driver_ok (k\<lparr>accesses := n, writes := ws\<rparr>) = driver_ok k"
    by (simp_all add: driver_ok_def listed_ok_def board_ok_def)
qed

text \<open>The level of the board, and whether its registers are mapped.\<close>

definition level_of :: "nat \<Rightarrow> kernel \<Rightarrow> nat" where
  "level_of a k = activation_level (the (boards k a))"

lemma access_run:
  assumes "listed a k"
  shows "bar_access a k = (if BARS_MAPPED \<le> level_of a k then (Inr (dev_of k a), k\<lparr>accesses := accesses k + 1\<rparr>) else (Inl Oops, k))"
proof -
  obtain b where b: "boards k a = Some b" "board_ok k a b" "dev_of k a = pci_dev b"
    using assms listed_board unfolding listed_def by metis
  show ?thesis
    using b by (auto simp: bar_access_def bind_def the_board_run level_of_def board_ok_def holds_upto_def)
qed

lemma ioread_listed:
  assumes "listed a k" "BARS_MAPPED \<le> level_of a k"
  shows "\<exists>v k'. ioread32 K a off k = (Inr v, k') \<and> listed a k'"
  using assms by (simp add: ioread32_def bind_def access_run listed_def)

lemma iowrite_listed:
  assumes "listed a k" "BARS_MAPPED \<le> level_of a k"
  shows "\<exists>k'. iowrite width a off v k = (Inr (), k') \<and> listed a k' \<and> level_of a k' = level_of a k"
  using assms by (simp add: iowrite_def bind_def access_run listed_def level_of_def)

lemma keeps_soft_reset: "keeps a (soft_reset a)"
  unfolding keeps_def
proof (intro allI impI)
  fix k assume k: "listed a k"
  then obtain b where b: "boards k a = Some b" using listed_board unfolding listed_def by metis
  show "\<exists>r k'. soft_reset a k = (Inr r, k') \<and> listed a k'"
  proof (cases "activation_level b = BLUENOC_ACTIVE")
    case True
    then have "BARS_MAPPED \<le> level_of a k" using b by (simp add: level_of_def levels)
    from iowrite_listed [OF k this, of 1 257 0] obtain k1 where 1: "iowrite 1 a 257 0 k = (Inr (), k1)" "listed a k1"
        "BARS_MAPPED \<le> level_of a k1" using \<open>BARS_MAPPED \<le> level_of a k\<close> by auto
    from iowrite_listed [OF this(2,3), of 1 257 1] 1(1) b True show ?thesis
      by (auto simp: soft_reset_def bind_def the_board_run andThen_def iowrite8_def)
  qed (use k b in \<open>simp add: soft_reset_def bind_def the_board_run\<close>)
qed

lemma keeps_set_debug_level: "keeps a (set_debug_level U a arg)"
  unfolding set_debug_level_def Let_def
  by (rule keeps_bind [OF keeps_the_board], cases "u_read U arg 4")
    (auto intro!: keeps_andThen keeps_set_board keeps_if keeps_ret simp: clear_profile_def)

definition register_command :: "u32 \<Rightarrow> bool" where
  "register_command cmd \<longleftrightarrow> cmd \<in> {BNOC_GET_STATUS, BNOC_CLK_RD_WORD, BNOC_CLK_GET_STATUS, BNOC_CLK_CLR_WORD,
     BNOC_CLK_SEND_CTRL, BNOC_CAPABILITIES}"

lemma keeps_command:
  assumes "\<not> register_command cmd"
  shows "keeps a (ioctl_command K U a cmd arg)"
  using assms unfolding ioctl_command_def register_command_def
  by (auto intro!: keeps_if keeps_bind [OF keeps_the_board] keeps_ret keeps_soft_reset keeps_andThen keeps_deactivate
      keeps_activate keeps_set_debug_level)

text \<open>The register commands return when the registers are mapped, and fault otherwise.\<close>

lemma read_register_listed:
  assumes "listed a k"
  shows "if BARS_MAPPED \<le> level_of a k then \<exists>r k'. read_register K U a arg off k = (Inr r, k') \<and> listed a k'
    else fst (read_register K U a arg off k) = Inl Oops"
  using assms by (auto simp: read_register_def ioread32_def bind_def access_run listed_def)

lemma write_register_listed:
  assumes "listed a k"
  shows "if BARS_MAPPED \<le> level_of a k \<or> u_read U arg 8 = None
    then \<exists>r k'. write_register U a arg off k = (Inr r, k') \<and> listed a k'
    else fst (write_register U a arg off k) = Inl Oops"
  using assms
  by (auto simp: write_register_def iowrite32_def iowrite_def andThen_def bind_def access_run listed_def split: option.splits)

lemma command_listed:
  assumes "listed a k"
  shows "case ioctl_command K U a cmd arg k of
      (Inl e, k') \<Rightarrow> e = Oops \<and> register_command cmd \<and> level_of a k < BARS_MAPPED
    | (Inr r, k') \<Rightarrow> listed a k'"
proof (cases "register_command cmd")
  case False
  then obtain r k' where "ioctl_command K U a cmd arg k = (Inr r, k')" "listed a k'"
    using keeps_command [OF False] assms unfolding keeps_def by blast
  then show ?thesis by simp
next
  case True
  let ?ok = "\<lambda>res. case res of (Inl e, k') \<Rightarrow> e = Oops \<and> register_command cmd \<and> level_of a k < BARS_MAPPED
    | (Inr r, k') \<Rightarrow> listed a k'"
  have r: "?ok (read_register K U a arg off k)" for off
    using read_register_listed [OF assms, of K U arg off] True
    by (cases "read_register K U a arg off k"; cases "fst (read_register K U a arg off k)") (auto split: if_splits)
  have w: "?ok (write_register U a arg off k)" for off
    using write_register_listed [OF assms, of U arg off] True
    by (cases "write_register U a arg off k"; cases "fst (write_register U a arg off k)") (auto split: if_splits)
  have "ioctl_command K U a cmd arg \<in> range (read_register K U a arg) \<union> range (write_register U a arg)"
    using True unfolding register_command_def by (auto simp: ioctl_command_def bnoc_codes)
  then show ?thesis by (elim UnE rangeE) (simp_all only: r w)
qed

lemma ioctl_listed:
  assumes "listed a k"
  shows "case bluenoc_ioctl K U a cmd arg k of
      (Inl e, k') \<Rightarrow> e = Oops \<and> register_command cmd \<and> level_of a k < BARS_MAPPED
    | (Inr r, k') \<Rightarrow> listed a k'"
  using command_listed [OF assms] assms by (simp add: bluenoc_ioctl_def)

text \<open>The commands of the driver pass its own checks.\<close>

lemma codes_accepted:
  "bluenoc_ioctl K U a BNOC_DEACTIVATE arg = andThen (deactivate (Some a)) (ret (0, None))"
  "bluenoc_ioctl K U a BNOC_REACTIVATE arg = andThen (activate K (Some a)) (ret (0, None))"
  "u_access_ok U arg 8 \<Longrightarrow> bluenoc_ioctl K U a BNOC_IDENTIFY arg =
     bind (the_board a) (\<lambda>b. ret (put_user U arg 48 (User_Info (identify K b))))"
  "u_access_ok U arg 8 \<Longrightarrow> bluenoc_ioctl K U a BNOC_GET_STATUS arg = read_register K U a arg 128"
  by (simp_all add: bluenoc_ioctl_def ioctl_command_def bnoc_codes IOC_TYPE_def IOC_NR_def IOC_DIR_def IOC_SIZE_def
      BNOC_IOC_MAXNR_def)

lemma ask_active_run:
  assumes "u_access_ok U arg 8" "u_writable U arg 48" "boards k a = Some b"
  shows "ask_active K U junk a arg k = (Inr (activation_level b = BLUENOC_ACTIVE), k)"
  using assms by (simp add: ask_active_def bind_def codes_accepted(3) the_board_run put_user_def identify_def)

lemma keeps_Probe: "keeps a (Probe a)"
  unfolding Probe_def bluenoc_poll_def
  by (intro keeps_bind [OF keeps_the_board] keeps_bind keeps_if keeps_andThen keeps_set_board keeps_ret) auto

lemma Probe_level:
  assumes "listed a k" "boards k a = Some b"
  shows "\<exists>w k'. Probe a k = (Inr w, k') \<and> listed a k' \<and> activation_level (the (boards k' a)) = activation_level b"
proof -
  obtain w k' where "Probe a k = (Inr w, k')" "listed a k'" using keeps_Probe assms(1) unfolding keeps_def by blast
  moreover have "activation_level (the (boards (snd (Probe a k)) a)) = activation_level b"
    using assms(2) by (simp add: Probe_def bluenoc_poll_def bind_def andThen_def the_board_run set_board_run)
  ultimately show ?thesis by auto
qed

section \<open>Properties\<close>

text \<open>Any ioctl on a listed board keeps the driver's invariant, unless it is one of the six
  register commands and the board's registers are not mapped: only then it faults.\<close>

theorem ioctl_faults_only_unmapped:
  assumes "driver_ok k" "a \<in> set (board_list k)"
  shows "case bluenoc_ioctl K U a cmd arg k of
      (Inl e, k') \<Rightarrow> e = Oops \<and> register_command cmd \<and> level_of a k < BARS_MAPPED
    | (Inr r, k') \<Rightarrow> driver_ok k' \<and> a \<in> set (board_list k')"
  using ioctl_listed [where a = a and k = k and K = K and U = U and cmd = cmd and arg = arg] assms by (simp add: listed_def split: prod.splits sum.splits)

definition uenv0 :: uenv where
  "uenv0 = \<lparr>u_access_ok = (\<lambda>_ _. True), u_writable = (\<lambda>_ _. True), u_read = (\<lambda>_ _. Some 4)\<rparr>"

theorem ioctl_faults_only_unmapped_witness:
  "case bluenoc_ioctl good_kenv uenv0 0 BNOC_GET_STATUS 4096 kern2 of
      (Inl e, k') \<Rightarrow> e = Oops \<and> register_command BNOC_GET_STATUS \<and> level_of 0 kern2 < BARS_MAPPED
    | (Inr r, k') \<Rightarrow> driver_ok k' \<and> 0 \<in> set (board_list k')"
  by (rule ioctl_faults_only_unmapped [OF kern2_ok]) (simp add: kern2_board)

text \<open>It does fault then: after \<^verbatim>\<open>BNOC_DEACTIVATE\<close> the pointer to the registers is stale
  and \<^verbatim>\<open>BNOC_GET_STATUS\<close> reads through it.\<close>

theorem status_after_deactivate_faults:
  assumes "driver_ok k" "a \<in> set (board_list k)" "u_access_ok U arg 8"
  shows "\<exists>k'. bluenoc_ioctl K U a BNOC_DEACTIVATE 0 k = (Inr (0, None), k') \<and>
    fst (bluenoc_ioctl K U a BNOC_GET_STATUS arg k') = Inl Oops"
proof -
  obtain k' where k': "deactivate (Some a) k = (Inr (), k')" "driver_ok k'" "idle (pci k' (dev_of k a))"
      "elsewhere a (dev_of k a) k k'" "\<exists>b'. boards k' a = Some b' \<and> pci_dev b' = dev_of k a"
    using deactivate_keeps [OF assms(1,2)] by blast
  have l: "listed a k'" using k'(2,4) assms(2) by (simp add: listed_def elsewhere_def)
  obtain b' where b': "boards k' a = Some b'" "pci_dev b' = dev_of k a" using k'(5) by blast
  have "\<not> BARS_MAPPED \<le> level_of a k'"
    using driver_listed [OF k'(2), of a] l k'(3) b'
    by (auto simp: listed_def listed_ok_def level_of_def board_ok_def holds_upto_def idle_def)
  then show ?thesis
    using read_register_listed [OF l, of K U arg 128] k'(1) codes_accepted(4) [OF assms(3), of K a]
    by (simp add: codes_accepted(1) andThen_def bind_def)
qed

theorem status_after_deactivate_faults_witness:
  "\<exists>k'. bluenoc_ioctl good_kenv uenv0 0 BNOC_DEACTIVATE 0 kern2 = (Inr (0, None), k') \<and>
    fst (bluenoc_ioctl good_kenv uenv0 0 BNOC_GET_STATUS 4096 k') = Inl Oops"
  by (rule status_after_deactivate_faults [OF kern2_ok]) (simp_all add: kern2_board uenv0_def)

lemma tool_open:
  assumes "listed a k" "node f = Some (num_of k a)"
  defines "k1 \<equiv> k\<lparr>open_count := (open_count k)(num_of k a := open_count k (num_of k a) + 1)\<rparr>"
  shows "tool_main K U junk arg node [p, f, c] k =
      bind (tool_run K U junk arg c a) (\<lambda>e. andThen (bluenoc_release (num_of k a) a) (ret e)) k1"
proof -
  have l: "driver_ok k" "a \<in> set (board_list k)" using assms(1) by (simp_all add: listed_def)
  have "find (\<lambda>x. num_of k x = num_of k a) (board_list k) = Some a"
    using l(2) driver_okD(3) [OF l(1)] by (intro find_unique) (auto simp: inj_on_def)
  then show ?thesis
    using assms(2) by (simp add: tool_main_def k1_def bind_def [of "bluenoc_open _"] open_run [OF l(1)])
qed

lemma opened_listed:
  assumes "listed a k"
  shows "listed a (k\<lparr>open_count := c\<rparr>)" "dev_of (k\<lparr>open_count := c\<rparr>) a = dev_of k a"
  using assms by (simp_all add: listed_def dev_of_def)

lemma release_listed:
  assumes "listed a k"
  shows "\<exists>k'. bluenoc_release n a k = (Inr 0, k') \<and> listed a k' \<and> pci k' = pci k \<and> boards k' = boards k"
proof -
  obtain b where "boards k a = Some b" using assms listed_board unfolding listed_def by metis
  then show ?thesis using assms by (simp add: bluenoc_release_def andThen_def bind_def the_board_run listed_def)
qed

text \<open>\<^verbatim>\<open>bluenoc-ioctl <device> deactivate\<close> ends normally, with the invariant kept and
  nothing held of the device any more.\<close>

theorem tool_deactivates:
  assumes "driver_ok k" "a \<in> set (board_list k)" "node f = Some (num_of k a)" "u_access_ok U arg 8" "u_writable U arg 48"
  shows "\<exists>k'. tool_main K U junk arg node [p, f, ''deactivate''] k = (Inr Finished, k') \<and> driver_ok k' \<and>
    idle (pci k' (dev_of k a))"
proof -
  let ?k1 = "k\<lparr>open_count := (open_count k)(num_of k a := open_count k (num_of k a) + 1)\<rparr>"
  have l: "listed a k" using assms(1,2) by (simp add: listed_def)
  note op = tool_open [where node = node and f = f and K = K and U = U and junk = junk and arg = arg and p = p and
      c = "''deactivate''", OF l assms(3)]
  note l1' = opened_listed [OF l, of "(open_count k)(num_of k a := open_count k (num_of k a) + 1)"]
  have l1: "driver_ok ?k1" "a \<in> set (board_list ?k1)" using l1'(1) by (simp_all only: listed_def)
  obtain k2 b2 where 2: "deactivate (Some a) ?k1 = (Inr (), k2)" "driver_ok k2" "idle (pci k2 (dev_of ?k1 a))"
      "elsewhere a (dev_of ?k1 a) ?k1 k2" "boards k2 a = Some b2" "pci_dev b2 = dev_of ?k1 a"
    using deactivate_keeps [OF l1] by blast
  have l2: "listed a k2" using 2(2,4) l1(2) by (simp add: listed_def elsewhere_def)
  have "activation_level b2 \<noteq> BLUENOC_ACTIVE"
    using driver_listed [OF 2(2), of a] l2 2(3,5,6)
    by (auto simp: listed_def listed_ok_def board_ok_def holds_upto_def idle_def levels)
  then have run: "tool_run K U junk arg ''deactivate'' a ?k1 = (Inr Finished, k2)"
    using ask_active_run [OF assms(4,5) 2(5), of K junk] 2(1)
    by (simp add: tool_run_def codes_accepted(1) andThen_def bind_def)
  obtain k3 where 3: "bluenoc_release (num_of k a) a k2 = (Inr 0, k3)" "listed a k3" "pci k3 = pci k2"
    using release_listed [OF l2] by blast
  then show ?thesis
    using run op l1'(2) 2(3) by (simp add: bind_def [of "tool_run _ _ _ _ _ _"] andThen_def bind_def listed_def)
qed

theorem tool_deactivates_witness:
  "\<exists>k'. tool_main good_kenv uenv0 True 4096 (\<lambda>_. Some (num_of kern2 0)) [''bluenoc-ioctl'', ''/dev/bluenoc'', ''deactivate''] kern2
    = (Inr Finished, k') \<and> driver_ok k' \<and> idle (pci k' (dev_of kern2 0))"
  by (rule tool_deactivates [OF kern2_ok]) (simp_all add: kern2_board uenv0_def)

text \<open>\<^verbatim>\<open>BNOC_REACTIVATE\<close> returns 0 whether or not the board could be activated; the tool's
  error message is never printed, a failed activation ends at its assertion instead, and it ends
  normally exactly when the board is active.\<close>

theorem tool_activates_or_aborts:
  assumes "driver_ok k" "a \<in> set (board_list k)" "node f = Some (num_of k a)" "u_access_ok U arg 8" "u_writable U arg 48"
  shows "\<exists>e k' r k1. bluenoc_ioctl K U a BNOC_REACTIVATE 0 k = (Inr (0, None), k1) \<and>
    tool_main K U junk arg node [p, f, ''activate''] k = (Inr e, k') \<and> driver_ok k' \<and>
    e = (if activation_level (the (boards k' a)) = BLUENOC_ACTIVE then Finished else Aborted)"
proof -
  let ?k1 = "k\<lparr>open_count := (open_count k)(num_of k a := open_count k (num_of k a) + 1)\<rparr>"
  have l: "listed a k" using assms(1,2) by (simp add: listed_def)
  note op = tool_open [where node = node and f = f and K = K and U = U and junk = junk and arg = arg and p = p and
      c = "''activate''", OF l assms(3)]
  note l1' = opened_listed [OF l, of "(open_count k)(num_of k a := open_count k (num_of k a) + 1)"]
  obtain r0 k0 where 0: "activate K (Some a) k = (Inr r0, k0)" using activate_keeps [OF assms(1,2)] by blast
  obtain r2 k2 where 2: "activate K (Some a) ?k1 = (Inr r2, k2)" "listed a k2"
    using keeps_activate l1'(1) unfolding keeps_def by blast
  obtain b2 where b2: "boards k2 a = Some b2" using 2(2) listed_board unfolding listed_def by metis
  note ask = ask_active_run [OF assms(4,5) b2, of K junk]
  obtain w k3 where 3: "Probe a k2 = (Inr w, k3)" "listed a k3" "activation_level (the (boards k3 a)) = activation_level b2"
    using Probe_level [OF 2(2) b2] by blast
  define k4 where "k4 = (if activation_level b2 = BLUENOC_ACTIVE then k3 else k2)"
  have k4: "listed a k4" "activation_level (the (boards k4 a)) = activation_level b2"
    using 3 2(2) b2 by (simp_all add: k4_def)
  have run: "tool_run K U junk arg ''activate'' a ?k1 = (Inr (if activation_level b2 = BLUENOC_ACTIVE then Finished else Aborted), k4)"
    using 2(1) ask 3(1) by (simp add: tool_run_def codes_accepted(2) andThen_def bind_def k4_def)
  obtain k5 where 5: "bluenoc_release (num_of k a) a k4 = (Inr 0, k5)" "listed a k5" "boards k5 = boards k4"
    using release_listed [OF k4(1)] by blast
  have "bluenoc_ioctl K U a BNOC_REACTIVATE 0 k = (Inr (0, None), k0)"
    using 0 by (simp add: codes_accepted(2) andThen_def bind_def)
  then show ?thesis
    using run op 5 k4(2) by (simp add: bind_def [of "tool_run _ _ _ _ _ _"] andThen_def bind_def listed_def)
qed

theorem tool_activates_or_aborts_witness:
  "\<exists>e k' r k1. bluenoc_ioctl good_kenv uenv0 0 BNOC_REACTIVATE 0 kern3 = (Inr (0, None), k1) \<and>
    tool_main good_kenv uenv0 True 4096 (\<lambda>_. Some (num_of kern3 0)) [''bluenoc-ioctl'', ''/dev/bluenoc'', ''activate''] kern3
      = (Inr e, k') \<and> driver_ok k' \<and>
    e = (if activation_level (the (boards k' 0)) = BLUENOC_ACTIVE then Finished else Aborted)"
  by (rule tool_activates_or_aborts [OF kern3_ok kern3_board(1)]) (simp_all add: uenv0_def)

end
