(* ===== verification/Bsemu.thy ===== *)
theory Bsemu
  imports Leap_Prelude
begin

text \<open>
  \<^verbatim>\<open>drivers/linux/platforms/xupv5-pcie/src/main.c\<close>: the driver that maps the BARs of an
  FPGA board into user space. Its devices are slots of a fixed array, guarded by a spin lock.
  Kernel messages are not modelled.
\<close>

section \<open>State\<close>

record bar_type =
  log_addr :: u64
  bar_size :: u64

record device_data =
  vid :: u16
  did :: u16
  bars :: "bar_type list"
  pdev :: "nat option"
  kernel_ptr :: "u64 list"
  log_ptr :: "u64 list"

text \<open>
  The driver's globals, and what it holds in the kernel: enabled devices and bus masters, the
  mapped addresses, the character devices by minor number, each PCI device's driver data.
\<close>

record bsemu =
  devices :: "device_data list"
  last_device :: nat
  devices_lock :: bool
  drvdata :: "nat \<Rightarrow> nat option"
  dev_enabled :: "nat set"
  dev_master :: "nat set"
  remapped :: "u64 set"
  char_devs :: "nat set"
  region_held :: bool
  pci_registered :: bool

record benv =
  e_vendor :: "nat \<Rightarrow> u16"
  e_device :: "nat \<Rightarrow> u16"
  e_enable_ok :: bool
  e_bar_start :: "nat \<Rightarrow> nat \<Rightarrow> u64"
  e_bar_len :: "nat \<Rightarrow> nat \<Rightarrow> u64"
  e_ioremap :: "u64 \<Rightarrow> u64"
  e_cdev_ok :: bool
  e_region :: int
  e_register :: int

text \<open>A lock that is never released, or a NULL pointer.\<close>

datatype bstop = Deadlock | Null_Pointer

type_synonym 'a bprog = "(bsemu, bstop, 'a) prog"

definition MAXNUM_PCI_BAR :: nat where "MAXNUM_PCI_BAR = 6"
definition NUM_SUPPORTED_DEVICES :: nat where "NUM_SUPPORTED_DEVICES = 128"
definition BSPEC_VENDOR_ID :: u16 where "BSPEC_VENDOR_ID = 0xb100"
definition DINI_VENDOR_ID :: u16 where "DINI_VENDOR_ID = 0x17DF"

definition blank_device :: device_data where
  "blank_device = \<lparr>vid = 0, did = 0, bars = replicate MAXNUM_PCI_BAR \<lparr>log_addr = 0, bar_size = 0\<rparr>, pdev = None,
     kernel_ptr = replicate MAXNUM_PCI_BAR 0, log_ptr = replicate MAXNUM_PCI_BAR 0\<rparr>"

definition set_device :: "nat \<Rightarrow> (device_data \<Rightarrow> device_data) \<Rightarrow> unit bprog" where
  "set_device i f = modify (\<lambda>s. s\<lparr>devices := (devices s)[i := f (devices s ! i)]\<rparr>)"

definition spin_lock :: "unit bprog" where
  "spin_lock = (\<lambda>s. if devices_lock s then (Inl Deadlock, s) else (Inr (), s\<lparr>devices_lock := True\<rparr>))"

definition spin_unlock :: "unit bprog" where
  "spin_unlock = modify (\<lambda>s. s\<lparr>devices_lock := False\<rparr>)"

section \<open>Slots\<close>

definition get_device :: "nat option bprog" where
  "get_device = andThen spin_lock (\<lambda>s.
     case first_index (\<lambda>d. pdev d = None) (take (last_device s) (devices s)) of
       Some i \<Rightarrow> andThen spin_unlock (ret (Some i)) s
     | None \<Rightarrow>
         if last_device s = NUM_SUPPORTED_DEVICES then (Inr None, s)
         else andThen (modify (\<lambda>s. s\<lparr>last_device := last_device s + 1\<rparr>))
                (andThen spin_unlock (ret (Some (last_device s)))) s)"

definition put_device :: "nat \<Rightarrow> unit bprog" where
  "put_device i = andThen spin_lock (andThen (set_device i (\<lambda>d. d\<lparr>pdev := None\<rparr>)) spin_unlock)"

section \<open>Probe and remove\<close>

abbreviation (input) "b_EFAULT \<equiv> 14 :: int"
abbreviation (input) "b_ENOMEM \<equiv> 12 :: int"
abbreviation (input) "b_EBUSY \<equiv> 16 :: int"
abbreviation (input) "b_ENODEV \<equiv> 19 :: int"
abbreviation (input) "b_EINVAL \<equiv> 22 :: int"
abbreviation (input) "b_EAGAIN \<equiv> 11 :: int"
abbreviation (input) "b_ENOTTY \<equiv> 25 :: int"

definition init_device :: "benv \<Rightarrow> nat \<Rightarrow> device_data \<Rightarrow> device_data" where
  "init_device E dev d = d\<lparr>pdev := Some dev, vid := e_vendor E dev, did := e_device E dev,
     log_ptr := replicate MAXNUM_PCI_BAR 0, kernel_ptr := replicate MAXNUM_PCI_BAR 0,
     bars := replicate MAXNUM_PCI_BAR \<lparr>log_addr = 0, bar_size = 0\<rparr>\<rparr>"

definition read_bars :: "benv \<Rightarrow> nat \<Rightarrow> device_data \<Rightarrow> device_data" where
  "read_bars E dev d = d\<lparr>log_ptr := map (e_bar_start E dev) [0..<MAXNUM_PCI_BAR],
     bars := map (\<lambda>i. \<lparr>log_addr = e_bar_start E dev i, bar_size = e_bar_len E dev i\<rparr>) [0..<MAXNUM_PCI_BAR]\<rparr>"

definition iounmap :: "u64 \<Rightarrow> unit bprog" where
  "iounmap v = modify (\<lambda>s. s\<lparr>remapped := remapped s - {v}\<rparr>)"

definition ioremap_bar :: "benv \<Rightarrow> nat \<Rightarrow> nat \<Rightarrow> u64 bprog" where
  "ioremap_bar E i bar = (\<lambda>s.
     let v = e_ioremap E (log_ptr (devices s ! i) ! bar) in
     andThen (set_device i (\<lambda>d. d\<lparr>kernel_ptr := (kernel_ptr d)[bar := v]\<rparr>))
       (andThen (modify (\<lambda>s. if v = 0 then s else s\<lparr>remapped := insert v (remapped s)\<rparr>)) (ret v)) s)"

definition pci_disable_device :: "nat \<Rightarrow> unit bprog" where
  "pci_disable_device dev = modify (\<lambda>s. s\<lparr>dev_enabled := dev_enabled s - {dev}\<rparr>)"

text \<open>From the mapping of BAR 0 on, with the labels of the error path from the inside out.\<close>

definition map_and_register :: "benv \<Rightarrow> nat \<Rightarrow> nat \<Rightarrow> int bprog" where
  "map_and_register E dev i =
     bind (ioremap_bar E i 0) (\<lambda>v0.
       if v0 = 0 then andThen (pci_disable_device dev) (ret (- b_EBUSY))
       else bind (ioremap_bar E i 1) (\<lambda>v1.
         if v1 = 0 then andThen (iounmap v0) (andThen (pci_disable_device dev) (ret (- b_EBUSY)))
         else if \<not> e_cdev_ok E then
           andThen (iounmap v1) (andThen (iounmap v0) (andThen (pci_disable_device dev) (ret (- b_EFAULT))))
         else andThen (modify (\<lambda>s. s\<lparr>char_devs := insert i (char_devs s)\<rparr>)) (ret 0)))"

definition bsemu_probe :: "benv \<Rightarrow> nat \<Rightarrow> int bprog" where
  "bsemu_probe E dev =
     (if e_vendor E dev \<noteq> BSPEC_VENDOR_ID \<and> e_vendor E dev \<noteq> DINI_VENDOR_ID then ret (- b_EINVAL)
      else bind get_device (\<lambda>r. case r of
          None \<Rightarrow> ret (- b_ENOMEM)
        | Some i \<Rightarrow>
            andThen (set_device i (init_device E dev))
            (if \<not> e_enable_ok E then ret (- b_EFAULT)
             else
               andThen (modify (\<lambda>s. s\<lparr>dev_enabled := insert dev (dev_enabled s),
                   drvdata := (drvdata s)(dev \<mapsto> i), dev_master := insert dev (dev_master s)\<rparr>))
               (andThen (set_device i (read_bars E dev)) (map_and_register E dev i)))))"

definition unmap_pointer :: "nat \<Rightarrow> nat \<Rightarrow> unit bprog" where
  "unmap_pointer i bar = (\<lambda>s.
     let v = kernel_ptr (devices s ! i) ! bar in if v \<noteq> 0 then iounmap v s else (Inr (), s))"

definition bsemu_remove :: "nat \<Rightarrow> unit bprog" where
  "bsemu_remove dev = (\<lambda>s. case drvdata s dev of
       None \<Rightarrow> (Inl Null_Pointer, s)
     | Some i \<Rightarrow>
         andThen (unmap_pointer i 0)
         (andThen (unmap_pointer i 1)
         (andThen (\<lambda>s. case pdev (devices s ! i) of
              None \<Rightarrow> (Inl Null_Pointer, s) | Some d \<Rightarrow> pci_disable_device d s)
         (andThen (modify (\<lambda>s. s\<lparr>char_devs := char_devs s - {i}\<rparr>))
         (put_device i)))) s)"

definition bsemu_init :: "benv \<Rightarrow> int bprog" where
  "bsemu_init E =
     andThen (modify (\<lambda>s. s\<lparr>devices_lock := False\<rparr>))
     (if e_region E < 0 then ret (e_region E)
      else andThen (modify (\<lambda>s. s\<lparr>region_held := True, pci_registered := (e_register E = 0)\<rparr>)) (ret (e_register E)))"

definition bsemu_exit :: "unit bprog" where
  "bsemu_exit = modify (\<lambda>s. s\<lparr>region_held := False, pci_registered := False\<rparr>)"

section \<open>File operations\<close>

text \<open>An open file's private data is the slot of its device.\<close>

definition bsemu_open :: "nat \<Rightarrow> int \<times> nat option" where
  "bsemu_open num = (if NUM_SUPPORTED_DEVICES \<le> num then (- b_ENODEV, None) else (0, Some num))"

definition bsemu_close :: "nat \<Rightarrow> nat option \<Rightarrow> int \<times> nat option" where
  "bsemu_close num priv = (if NUM_SUPPORTED_DEVICES \<le> num then (- b_ENODEV, priv) else (0, None))"

text \<open>The result of a mapping: the first page frame and the length.\<close>

definition bsemu_mmap :: "(u64 \<Rightarrow> u64 \<Rightarrow> bool) \<Rightarrow> bsemu \<Rightarrow> nat option \<Rightarrow> u64 \<Rightarrow> u64 \<Rightarrow> u64 \<Rightarrow> int \<times> (u64 \<times> u64) option" where
  "bsemu_mmap remap_ok s priv vm_start vm_end vm_pgoff =
     (case priv of
        None \<Rightarrow> (- b_EINVAL, None)
      | Some i \<Rightarrow>
          (let sz = vm_end - vm_start;
               bar = unat (vm_pgoff mod of_nat MAXNUM_PCI_BAR);
               off = 0;
               d = devices s ! i;
               frame = drop_bit 12 (log_ptr d ! bar + off)
           in if bar_size (bars d ! bar) - off < sz then (- b_EINVAL, None)
              else if \<not> remap_ok frame sz then (- b_EAGAIN, None)
              else (0, Some (frame, sz))))"

text \<open>
  The commands: type 66, numbers 0 and 1, the size of the shared data 104 bytes. The result
  of \<^verbatim>\<open>copy_to_user\<close>, the number of bytes it could not copy, is passed on.
\<close>

definition BSEMU_IOC_MAGIC :: u32 where "BSEMU_IOC_MAGIC = 66"
definition BSEMU_IOC_RESET :: u32 where "BSEMU_IOC_RESET = push_bit 8 BSEMU_IOC_MAGIC"
definition BSEMU_IOC_GETDEVICE :: u32 where
  "BSEMU_IOC_GETDEVICE = push_bit 30 3 OR push_bit 16 104 OR push_bit 8 BSEMU_IOC_MAGIC OR 1"
definition BSEMU_IOC_MAXNR :: u32 where "BSEMU_IOC_MAXNR = 1"

definition bsemu_ioctl :: "bool \<Rightarrow> nat \<Rightarrow> bsemu \<Rightarrow> nat \<Rightarrow> u32 \<Rightarrow> int \<times> (u16 \<times> u16 \<times> bar_type list) option" where
  "bsemu_ioctl access_ok uncopied s num cmd =
     (if NUM_SUPPORTED_DEVICES \<le> num then (- b_ENODEV, None)
      else if drop_bit 8 cmd AND 0xff \<noteq> BSEMU_IOC_MAGIC then (- b_ENOTTY, None)
      else if BSEMU_IOC_MAXNR < cmd AND 0xff then (- b_ENOTTY, None)
      else if cmd = BSEMU_IOC_GETDEVICE then
        (if \<not> access_ok then (- b_EINVAL, None)
         else (let d = devices s ! num in
               (int uncopied, if uncopied = 0 then Some (vid d, did d, bars d) else None)))
      else (- b_ENOTTY, None))"

definition bsemu_compat_ioctl :: "bool \<Rightarrow> nat \<Rightarrow> bsemu \<Rightarrow> nat \<Rightarrow> u32 \<Rightarrow> int \<times> (u16 \<times> u16 \<times> bar_type list) option" where
  "bsemu_compat_ioctl access_ok uncopied s num cmd = bsemu_ioctl access_ok uncopied s num cmd"


section \<open>The slot a probe gets\<close>

definition find_slot :: "bsemu \<Rightarrow> nat option" where
  "find_slot s = (case first_index (\<lambda>d. pdev d = None) (take (last_device s) (devices s)) of
       Some i \<Rightarrow> Some i
     | None \<Rightarrow> if last_device s = NUM_SUPPORTED_DEVICES then None else Some (last_device s))"

definition take_slot :: "nat \<Rightarrow> bsemu \<Rightarrow> bsemu" where
  "take_slot i s = s\<lparr>devices_lock := False, last_device := max (last_device s) (i + 1)\<rparr>"

lemma get_device_run:
  "get_device s =
     (if devices_lock s then (Inl Deadlock, s)
      else case find_slot s of
        None \<Rightarrow> (Inr None, s\<lparr>devices_lock := True\<rparr>)
      | Some i \<Rightarrow> (Inr (Some i), take_slot i s))"
  by (auto simp: get_device_def spin_lock_def spin_unlock_def andThen_def bind_def find_slot_def take_slot_def
      max_def dest!: first_index_less split: option.splits if_splits)

lemma first_index_None_nth: "first_index P xs = None \<longleftrightarrow> (\<forall>i < length xs. \<not> P (xs ! i))"
  by (fastforce simp: first_index_None in_set_conv_nth)

definition slots_ok :: "bsemu \<Rightarrow> bool" where
  "slots_ok s \<longleftrightarrow> length (devices s) = NUM_SUPPORTED_DEVICES \<and> last_device s \<le> NUM_SUPPORTED_DEVICES
     \<and> (\<forall>i. last_device s \<le> i \<and> i < NUM_SUPPORTED_DEVICES \<longrightarrow> pdev (devices s ! i) = None)"

lemma find_slot_Some:
  assumes "slots_ok s" "find_slot s = Some i"
  shows "i < NUM_SUPPORTED_DEVICES \<and> pdev (devices s ! i) = None \<and> i \<le> last_device s
    \<and> (\<forall>j < i. pdev (devices s ! j) \<noteq> None)"
  using assms
  by (auto simp: find_slot_def slots_ok_def first_index_Some first_index_None_nth
      split: option.splits if_splits)

lemma find_slot_None:
  assumes "slots_ok s"
  shows "find_slot s = None \<longleftrightarrow> (\<forall>i < NUM_SUPPORTED_DEVICES. pdev (devices s ! i) \<noteq> None)"
proof
  assume "find_slot s = None"
  then have "last_device s = NUM_SUPPORTED_DEVICES"
    and f: "first_index (\<lambda>d. pdev d = None) (take (last_device s) (devices s)) = None"
    by (auto simp: find_slot_def split: option.splits if_splits)
  then show "\<forall>i < NUM_SUPPORTED_DEVICES. pdev (devices s ! i) \<noteq> None"
    using assms by (auto simp: first_index_None_nth slots_ok_def)
next
  assume a: "\<forall>i < NUM_SUPPORTED_DEVICES. pdev (devices s ! i) \<noteq> None"
  show "find_slot s = None"
  proof (cases "find_slot s")
    case (Some i)
    with find_slot_Some [OF assms this] a show ?thesis by blast
  qed
qed

text \<open>How each step of the mapping acts on the state.\<close>

definition edit_slot :: "nat \<Rightarrow> (device_data \<Rightarrow> device_data) \<Rightarrow> bsemu \<Rightarrow> bsemu" where
  "edit_slot i f s = s\<lparr>devices := (devices s)[i := f (devices s ! i)]\<rparr>"

lemma set_device_run [simp]: "set_device i f s = (Inr (), edit_slot i f s)"
  by (simp add: set_device_def edit_slot_def)

lemma put_device_run:
  "put_device i s = (if devices_lock s then (Inl Deadlock, s)
     else (Inr (), edit_slot i (\<lambda>d. d\<lparr>pdev := None\<rparr>) s))"
  by (simp add: put_device_def spin_lock_def spin_unlock_def andThen_def bind_def edit_slot_def)


lemma iounmap_run [simp]: "iounmap v s = (Inr (), s\<lparr>remapped := remapped s - {v}\<rparr>)"
  by (simp add: iounmap_def)

lemma pci_disable_device_run [simp]:
  "pci_disable_device dev s = (Inr (), s\<lparr>dev_enabled := dev_enabled s - {dev}\<rparr>)"
  by (simp add: pci_disable_device_def)

text \<open>The addresses a mapping uses are those reported to user space.\<close>

definition bars_match :: "device_data \<Rightarrow> bool" where
  "bars_match d \<longleftrightarrow> length (bars d) = MAXNUM_PCI_BAR \<and> log_ptr d = map log_addr (bars d)"

text \<open>What a probe that got slot \<^term>\<open>i\<close> did, whether it succeeded or not.\<close>

definition slot_taken :: "bsemu \<Rightarrow> nat \<Rightarrow> nat \<Rightarrow> bsemu \<Rightarrow> bool" where
  "slot_taken s i dev s' \<longleftrightarrow>
     last_device s' = max (last_device s) (i + 1) \<and> \<not> devices_lock s' \<and>
     length (devices s') = length (devices s) \<and> (\<forall>j. j \<noteq> i \<longrightarrow> devices s' ! j = devices s ! j) \<and>
     pdev (devices s' ! i) = Some dev \<and> bars_match (devices s' ! i) \<and> (\<forall>d. d \<noteq> dev \<longrightarrow> drvdata s' d = drvdata s d) \<and>
     (\<forall>d. d \<noteq> dev \<longrightarrow> (d \<in> dev_enabled s' \<longleftrightarrow> d \<in> dev_enabled s))"

definition probe_ok :: "benv \<Rightarrow> bsemu \<Rightarrow> nat \<Rightarrow> nat \<Rightarrow> bsemu \<Rightarrow> bool" where
  "probe_ok E s i dev s' \<longleftrightarrow> char_devs s' = insert i (char_devs s) \<and> drvdata s' dev = Some i \<and>
     dev \<in> dev_enabled s' \<and> log_ptr (devices s' ! i) = map (e_bar_start E dev) [0..<MAXNUM_PCI_BAR] \<and>
     bars (devices s' ! i) =
       map (\<lambda>i. \<lparr>log_addr = e_bar_start E dev i, bar_size = e_bar_len E dev i\<rparr>) [0..<MAXNUM_PCI_BAR]"

lemma ioremap_bar_run:
  "ioremap_bar E i bar s = (let v = e_ioremap E (log_ptr (devices s ! i) ! bar);
       s1 = edit_slot i (\<lambda>d. d\<lparr>kernel_ptr := (kernel_ptr d)[bar := v]\<rparr>) s
     in (Inr v, if v = 0 then s1 else s1\<lparr>remapped := insert v (remapped s1)\<rparr>))"
  by (simp add: ioremap_bar_def andThen_def bind_def Let_def)

lemma slot_taken_edit:
  assumes "slot_taken s i dev s1" "pdev (f (devices s1 ! i)) = pdev (devices s1 ! i)"
    "bars_match (f (devices s1 ! i))"
  shows "slot_taken s i dev (edit_slot i f s1)"
  using assms by (cases "i < length (devices s1)") (auto simp: slot_taken_def edit_slot_def list_update_beyond)

lemma slot_taken_frame:
  assumes "slot_taken s i dev s1" "devices s2 = devices s1" "last_device s2 = last_device s1"
    "devices_lock s2 = devices_lock s1" "\<And>d. d \<noteq> dev \<Longrightarrow> drvdata s2 d = drvdata s1 d"
    "\<And>d. d \<noteq> dev \<Longrightarrow> (d \<in> dev_enabled s2 \<longleftrightarrow> d \<in> dev_enabled s1)"
  shows "slot_taken s i dev s2"
  using assms by (auto simp: slot_taken_def)

text \<open>Mapping one BAR keeps the slot, and everything but the mapped addresses.\<close>

lemma ioremap_bar_outcome:
  assumes "slot_taken s i dev s1" "i < length (devices s)"
  obtains s2 where "ioremap_bar E i bar s1 = (Inr (e_ioremap E (log_ptr (devices s1 ! i) ! bar)), s2)"
    "slot_taken s i dev s2" "char_devs s2 = char_devs s1" "drvdata s2 = drvdata s1"
    "dev_enabled s2 = dev_enabled s1" "log_ptr (devices s2 ! i) = log_ptr (devices s1 ! i)"
    "bars (devices s2 ! i) = bars (devices s1 ! i)"
proof -
  let ?v = "e_ioremap E (log_ptr (devices s1 ! i) ! bar)"
  let ?e = "edit_slot i (\<lambda>d. d\<lparr>kernel_ptr := (kernel_ptr d)[bar := ?v]\<rparr>) s1"
  let ?s2 = "if ?v = 0 then ?e else ?e\<lparr>remapped := insert ?v (remapped ?e)\<rparr>"
  have e: "slot_taken s i dev ?e" 
    by (rule slot_taken_edit [OF assms(1)]) (use assms(1) in \<open>simp_all add: slot_taken_def bars_match_def\<close>)
  have "slot_taken s i dev ?s2" by (rule slot_taken_frame [OF e]) auto
  moreover have "i < length (devices s1)" using assms by (simp add: slot_taken_def)
  ultimately show thesis
    by (intro that [of ?s2]) (auto simp: ioremap_bar_run Let_def edit_slot_def)
qed

definition same_slots :: "bsemu \<Rightarrow> bsemu \<Rightarrow> bool" where
  "same_slots s1 s2 \<longleftrightarrow> char_devs s2 = char_devs s1 \<and> drvdata s2 = drvdata s1"

lemma map_and_register_outcome:
  assumes "slot_taken s i dev s1" "i < length (devices s)" "map_and_register E dev i s1 = (r, s2)"
  shows "slot_taken s i dev s2 \<and> drvdata s2 = drvdata s1 \<and>
    (r = Inr 0 \<and> char_devs s2 = insert i (char_devs s1) \<and> dev_enabled s2 = dev_enabled s1 \<and>
       log_ptr (devices s2 ! i) = log_ptr (devices s1 ! i) \<and> bars (devices s2 ! i) = bars (devices s1 ! i)
     \<or> (r = Inr (- b_EFAULT) \<or> r = Inr (- b_EBUSY)) \<and> char_devs s2 = char_devs s1)"
proof -
  let ?v0 = "e_ioremap E (log_ptr (devices s1 ! i) ! 0)"
  obtain t0 where 0: "ioremap_bar E i 0 s1 = (Inr ?v0, t0)" "slot_taken s i dev t0"
    "char_devs t0 = char_devs s1" "drvdata t0 = drvdata s1" "dev_enabled t0 = dev_enabled s1"
    "log_ptr (devices t0 ! i) = log_ptr (devices s1 ! i)" "bars (devices t0 ! i) = bars (devices s1 ! i)"
    by (rule ioremap_bar_outcome [OF assms(1,2)])
  let ?v1 = "e_ioremap E (log_ptr (devices t0 ! i) ! 1)"
  obtain t1 where 1: "ioremap_bar E i 1 t0 = (Inr ?v1, t1)" "slot_taken s i dev t1"
    "char_devs t1 = char_devs t0" "drvdata t1 = drvdata t0" "dev_enabled t1 = dev_enabled t0"
    "log_ptr (devices t1 ! i) = log_ptr (devices t0 ! i)" "bars (devices t1 ! i) = bars (devices t0 ! i)"
    by (rule ioremap_bar_outcome [OF 0(2) assms(2)])
  let ?off = "\<lambda>t. t\<lparr>dev_enabled := dev_enabled t - {dev}\<rparr>"
  let ?un = "\<lambda>v t. t\<lparr>remapped := remapped t - {v}\<rparr>"
  have off: "slot_taken s i dev (?off t)" if "slot_taken s i dev t" for t
    by (rule slot_taken_frame [OF that]) auto
  have un: "slot_taken s i dev (?un v t)" if "slot_taken s i dev t" for t v
    by (rule slot_taken_frame [OF that]) auto
  consider (v0) "?v0 = 0" | (v1) "?v0 \<noteq> 0" "?v1 = 0" | (cdev) "?v0 \<noteq> 0" "?v1 \<noteq> 0" "\<not> e_cdev_ok E"
    | (ok) "?v0 \<noteq> 0" "?v1 \<noteq> 0" "e_cdev_ok E" by blast
  then show ?thesis
  proof cases
    case v0
    with assms(3) 0 have "r = Inr (- b_EBUSY)" "s2 = ?off t0"
      by (simp_all add: map_and_register_def bind_def andThen_def)
    with off [OF 0(2)] 0 show ?thesis by simp
  next
    case v1
    with assms(3) 0 1 have "r = Inr (- b_EBUSY)" "s2 = ?off (?un ?v0 t1)"
      by (simp_all add: map_and_register_def bind_def andThen_def)
    with off [OF un [OF 1(2)]] 0 1 show ?thesis by simp
  next
    case cdev
    with assms(3) 0 1 have "r = Inr (- b_EFAULT)" "s2 = ?off (?un ?v0 (?un ?v1 t1))"
      by (simp_all add: map_and_register_def bind_def andThen_def)
    with off [OF un [OF un [OF 1(2)]]] 0 1 show ?thesis by simp
  next
    case ok
    with assms(3) 0 1 have r: "r = Inr 0" "s2 = t1\<lparr>char_devs := insert i (char_devs t1)\<rparr>"
      by (simp_all add: map_and_register_def bind_def andThen_def)
    have "slot_taken s i dev s2" unfolding r(2) by (rule slot_taken_frame [OF 1(2)]) auto
    with r 0 1 show ?thesis by simp
  qed
qed

lemma probe_outcome:
  assumes "slots_ok s" "bsemu_probe E dev s = (r, s')"
  shows "s' = s \<and> (r = Inl Deadlock \<and> devices_lock s \<or> r = Inr (- b_EINVAL))
    \<or> find_slot s = None \<and> \<not> devices_lock s \<and> r = Inr (- b_ENOMEM) \<and> s' = s\<lparr>devices_lock := True\<rparr>
    \<or> (\<exists>i. find_slot s = Some i \<and> \<not> devices_lock s \<and> slot_taken s i dev s' \<and>
         (r = Inr 0 \<and> probe_ok E s i dev s' \<or>
          (r = Inr (- b_EFAULT) \<or> r = Inr (- b_EBUSY)) \<and> char_devs s' = char_devs s))"
proof (cases "find_slot s")
  case None
  with assms(2) show ?thesis
    by (auto simp: bsemu_probe_def bind_def get_device_run split: if_splits)
next
  case (Some i)
  have i: "i < length (devices s)"
    using find_slot_Some [OF assms(1) Some] assms(1) by (simp add: slots_ok_def)
  let ?s1 = "edit_slot i (init_device E dev) (take_slot i s)"
  let ?s2 = "?s1\<lparr>dev_enabled := insert dev (dev_enabled ?s1), drvdata := (drvdata ?s1)(dev \<mapsto> i),
      dev_master := insert dev (dev_master ?s1)\<rparr>"
  let ?s3 = "edit_slot i (read_bars E dev) ?s2"
  have 1: "slot_taken s i dev ?s1"
    using i by (auto simp: slot_taken_def edit_slot_def take_slot_def init_device_def bars_match_def)
  have 2: "slot_taken s i dev ?s2" by (rule slot_taken_frame [OF 1]) auto
  have 3: "slot_taken s i dev ?s3" 
    by (rule slot_taken_edit [OF 2]) (simp_all add: read_bars_def bars_match_def)
  have run: "bsemu_probe E dev s =
      (if e_vendor E dev \<noteq> BSPEC_VENDOR_ID \<and> e_vendor E dev \<noteq> DINI_VENDOR_ID then (Inr (- b_EINVAL), s)
       else if devices_lock s then (Inl Deadlock, s)
       else if \<not> e_enable_ok E then (Inr (- b_EFAULT), ?s1)
       else map_and_register E dev i ?s3)"
    using Some by (auto simp: bsemu_probe_def bind_def andThen_def get_device_run)
  have s1: "char_devs ?s1 = char_devs s" by (simp add: edit_slot_def take_slot_def)
  have s3: "char_devs ?s3 = char_devs s" "drvdata ?s3 dev = Some i"
    "dev \<in> dev_enabled ?s3"
    "log_ptr (devices ?s3 ! i) = map (e_bar_start E dev) [0..<MAXNUM_PCI_BAR]"
    "bars (devices ?s3 ! i) =
       map (\<lambda>i. \<lparr>log_addr = e_bar_start E dev i, bar_size = e_bar_len E dev i\<rparr>) [0..<MAXNUM_PCI_BAR]"
    using i by (simp_all add: edit_slot_def take_slot_def read_bars_def)
  show ?thesis
  proof -
    consider "(r, s') = (Inr (- b_EINVAL), s)" | "devices_lock s" "(r, s') = (Inl Deadlock, s)"
      | "\<not> devices_lock s" "(r, s') = (Inr (- b_EFAULT), ?s1)"
      | "\<not> devices_lock s" "map_and_register E dev i ?s3 = (r, s')"
      using assms(2) unfolding run by (metis (no_types))
    then show ?thesis
    proof cases
      case 4
      from map_and_register_outcome [OF 3 i this(2)] have
        "slot_taken s i dev s' \<and> (r = Inr 0 \<and> probe_ok E s i dev s' \<or>
          (r = Inr (- b_EFAULT) \<or> r = Inr (- b_EBUSY)) \<and> char_devs s' = char_devs s)"
        unfolding s3 probe_ok_def by (elim conjE disjE) (simp_all add: s3)
      with 4 Some show ?thesis by blast
    qed (use Some 1 s1 in simp_all)
  qed
qed

lemma unmap_pointer_run [simp]:
  "unmap_pointer i bar s = (Inr (), s\<lparr>remapped := remapped s - ({kernel_ptr (devices s ! i) ! bar} - {0})\<rparr>)"
  by (simp add: unmap_pointer_def Let_def)

lemma bsemu_remove_run:
  assumes "drvdata s dev = Some i" "pdev (devices s ! i) = Some d" "bsemu_remove dev s = (r, s')"
  shows "if devices_lock s then r = Inl Deadlock
    else r = Inr () \<and> devices s' = (devices s)[i := (devices s ! i)\<lparr>pdev := None\<rparr>] \<and>
      char_devs s' = char_devs s - {i} \<and> dev_enabled s' = dev_enabled s - {d} \<and>
      last_device s' = last_device s \<and> drvdata s' = drvdata s \<and> \<not> devices_lock s' \<and>
      remapped s' = remapped s - ({kernel_ptr (devices s ! i) ! 0, kernel_ptr (devices s ! i) ! 1} - {0})"
proof (cases "devices_lock s")
  case True
  with assms show ?thesis by (simp add: bsemu_remove_def andThen_def bind_def put_device_run)
next
  case False
  let ?t = "s\<lparr>remapped := remapped s - ({kernel_ptr (devices s ! i) ! 0} - {0}) - ({kernel_ptr (devices s ! i) ! 1} - {0}),
      dev_enabled := dev_enabled s - {d}, char_devs := char_devs s - {i}\<rparr>"
  have "(r, s') = (Inr (), edit_slot i (\<lambda>d. d\<lparr>pdev := None\<rparr>) ?t)"
    using assms False by (simp add: bsemu_remove_def andThen_def bind_def put_device_run)
  with False show ?thesis by (auto simp: edit_slot_def)
qed


section \<open>Any sequence of probes and removals\<close>

text \<open>
  The kernel probes a device that is not bound and removes one that is; a device is bound
  when its probe returned 0. The start is the loaded driver with its zeroed array.
\<close>

definition bsemu_boot :: bsemu where
  "bsemu_boot = \<lparr>devices = replicate NUM_SUPPORTED_DEVICES blank_device, last_device = 0, devices_lock = False,
     drvdata = (\<lambda>_. None), dev_enabled = {}, dev_master = {}, remapped = {}, char_devs = {}, region_held = False,
     pci_registered = False\<rparr>"

inductive bsemu_reach :: "nat set \<Rightarrow> bsemu \<Rightarrow> bool" where
  load: "bsemu_init E bsemu_boot = (Inr 0, s) \<Longrightarrow> bsemu_reach {} s"
| probe_binds: "bsemu_reach B s \<Longrightarrow> dev \<notin> B \<Longrightarrow> bsemu_probe E dev s = (Inr 0, s') \<Longrightarrow>
    bsemu_reach (insert dev B) s'"
| probe_fails: "bsemu_reach B s \<Longrightarrow> dev \<notin> B \<Longrightarrow> bsemu_probe E dev s = (Inr r, s') \<Longrightarrow> r \<noteq> 0 \<Longrightarrow>
    bsemu_reach B s'"
| remove: "bsemu_reach B s \<Longrightarrow> dev \<in> B \<Longrightarrow> bsemu_remove dev s = (Inr (), s') \<Longrightarrow>
    bsemu_reach (B - {dev}) s'"

definition owns_slot :: "bsemu \<Rightarrow> nat \<Rightarrow> nat \<Rightarrow> bool" where
  "owns_slot s dev i \<longleftrightarrow> i < last_device s \<and> drvdata s dev = Some i \<and> pdev (devices s ! i) = Some dev \<and>
     i \<in> char_devs s \<and> dev \<in> dev_enabled s"

definition bsemu_ok :: "nat set \<Rightarrow> bsemu \<Rightarrow> bool" where
  "bsemu_ok B s \<longleftrightarrow> slots_ok s \<and> (\<forall>i < NUM_SUPPORTED_DEVICES. bars_match (devices s ! i)) \<and>
     (\<forall>dev \<in> B. \<exists>i. owns_slot s dev i) \<and> (\<forall>i \<in> char_devs s. \<exists>dev \<in> B. drvdata s dev = Some i) \<and>
     (devices_lock s \<longrightarrow> find_slot s = None)"

lemma bsemu_ok_probe:
  assumes "bsemu_ok B s" "dev \<notin> B" "bsemu_probe E dev s = (Inr r, s')"
  shows "bsemu_ok (if r = 0 then insert dev B else B) s'"
proof -
  have ok: "slots_ok s" using assms(1) by (simp add: bsemu_ok_def)
  consider (same) "s' = s" "r = - b_EINVAL"
    | (full) "find_slot s = None" "r = - b_ENOMEM" "s' = s\<lparr>devices_lock := True\<rparr>"
    | (slot) i where "find_slot s = Some i" "slot_taken s i dev s'"
        "r = 0 \<and> probe_ok E s i dev s' \<or> r \<noteq> 0 \<and> char_devs s' = char_devs s"
    using probe_outcome [OF ok assms(3)] by fastforce
  then show ?thesis
  proof cases
    case same
    with assms show ?thesis by simp
  next
    case full
    have "find_slot (s\<lparr>devices_lock := True\<rparr>) = find_slot s" by (simp add: find_slot_def split: option.split)
    with full assms(1) show ?thesis
      by (simp add: bsemu_ok_def slots_ok_def owns_slot_def)
  next
    case slot
    note i = find_slot_Some [OF ok slot(1)]
    have "slots_ok s'" using slot(2) ok i by (auto simp: slots_ok_def slot_taken_def)
    moreover have "\<forall>j < NUM_SUPPORTED_DEVICES. bars_match (devices s' ! j)"
      using slot(2) assms(1) unfolding slot_taken_def bsemu_ok_def by metis
    moreover have "\<exists>j. owns_slot s' d j" if d: "d \<in> B" for d
    proof -
      obtain j where "owns_slot s d j" using d assms(1) by (auto simp: bsemu_ok_def)
      moreover have "d \<noteq> dev" using d assms(2) by blast
      moreover have "j \<noteq> i" using calculation i by (auto simp: owns_slot_def)
      ultimately have "owns_slot s' d j"
        using slot(2,3) by (auto simp: owns_slot_def slot_taken_def probe_ok_def)
      then show ?thesis ..
    qed
    moreover have "owns_slot s' dev i" if "r = 0"
      using slot(2,3) that by (auto simp: owns_slot_def slot_taken_def probe_ok_def)
    moreover have "\<exists>d \<in> B. drvdata s' d = Some j" if j: "j \<in> char_devs s" for j
    proof -
      obtain d where d: "d \<in> B" "drvdata s d = Some j" using j assms(1) by (auto simp: bsemu_ok_def)
      then show ?thesis using assms(2) slot(2) by (intro bexI [of _ d]) (auto simp: slot_taken_def)
    qed
    moreover have "char_devs s' = insert i (char_devs s) \<and> drvdata s' dev = Some i" if "r = 0"
      using slot(3) that by (auto simp: probe_ok_def)
    moreover have "char_devs s' = char_devs s" if "r \<noteq> 0" using slot(3) that by auto
    moreover have "\<not> devices_lock s'" using slot(2) by (simp add: slot_taken_def)
    ultimately show ?thesis
      unfolding bsemu_ok_def by (cases "r = 0") auto
  qed
qed

lemma bsemu_ok_remove:
  assumes "bsemu_ok B s" "dev \<in> B" "bsemu_remove dev s = (r, s')"
  shows "if devices_lock s then r = Inl Deadlock else r = Inr () \<and> bsemu_ok (B - {dev}) s'"
proof -
  obtain i where i: "owns_slot s dev i" using assms(1,2) by (auto simp: bsemu_ok_def)
  then have d: "drvdata s dev = Some i" "pdev (devices s ! i) = Some dev" by (simp_all add: owns_slot_def)
  note run = bsemu_remove_run [OF d assms(3)]
  show ?thesis
  proof (cases "devices_lock s")
    case False
    note run = run [unfolded if_not_P [OF False]]
    have il: "i < length (devices s)" using i assms(1) by (auto simp: owns_slot_def bsemu_ok_def slots_ok_def)
    have "slots_ok s'" using run assms(1) i by (auto simp: slots_ok_def bsemu_ok_def owns_slot_def nth_list_update)
    moreover have "\<forall>j < NUM_SUPPORTED_DEVICES. bars_match (devices s' ! j)"
      using run assms(1) il by (auto simp: bsemu_ok_def bars_match_def nth_list_update)
    moreover have "\<exists>j. owns_slot s' d j" if dB: "d \<in> B - {dev}" for d
    proof -
      obtain j where "owns_slot s d j" using dB assms(1) by (auto simp: bsemu_ok_def)
      moreover have "j \<noteq> i" using calculation d dB by (auto simp: owns_slot_def)
      ultimately have "owns_slot s' d j" using run dB by (auto simp: owns_slot_def)
      then show ?thesis ..
    qed
    moreover have "\<exists>d \<in> B - {dev}. drvdata s' d = Some j" if j: "j \<in> char_devs s'" for j
    proof -
      obtain d' where "d' \<in> B" "drvdata s d' = Some j" "j \<noteq> i"
        using j run assms(1) by (auto simp: bsemu_ok_def)
      with d run show ?thesis by (intro bexI [of _ d']) auto
    qed
    ultimately show ?thesis using run False by (simp add: bsemu_ok_def)
  qed (use run in simp)
qed

lemma bsemu_ok_reach: "bsemu_reach B s \<Longrightarrow> bsemu_ok B s"
proof (induction rule: bsemu_reach.induct)
  case (load E s)
  then have "s = bsemu_boot\<lparr>region_held := True, pci_registered := True\<rparr>"
    by (auto simp: bsemu_init_def andThen_def bind_def bsemu_boot_def split: if_splits)
  then show ?case
    by (simp add: bsemu_ok_def slots_ok_def bsemu_boot_def find_slot_def blank_device_def bars_match_def)
next
  case (probe_binds B s dev E s')
  from bsemu_ok_probe [OF probe_binds.IH probe_binds.hyps(2,3)] show ?case by simp
next
  case (probe_fails B s dev E r s')
  from bsemu_ok_probe [OF probe_fails.IH probe_fails.hyps(2,3)] probe_fails.hyps(4) show ?case by simp
next
  case (remove B s dev s')
  from bsemu_ok_remove [OF remove.IH remove.hyps(2,3)] show ?case by (simp split: if_splits)
qed


section \<open>Examples\<close>

definition bsemu_env :: benv where
  "bsemu_env = \<lparr>e_vendor = (\<lambda>_. BSPEC_VENDOR_ID), e_device = (\<lambda>_. 1), e_enable_ok = True,
     e_bar_start = (\<lambda>dev i. 0x1000), e_bar_len = (\<lambda>dev i. 0x2000), e_ioremap = (\<lambda>a. a + 1), e_cdev_ok = True,
     e_region = 0, e_register = 0\<rparr>"

definition broken_env :: benv where
  "broken_env = bsemu_env\<lparr>e_enable_ok := False\<rparr>"

definition accepted :: "benv \<Rightarrow> nat \<Rightarrow> bool" where
  "accepted E dev \<longleftrightarrow> e_vendor E dev = BSPEC_VENDOR_ID \<or> e_vendor E dev = DINI_VENDOR_ID"

lemma load_example: "bsemu_reach {} (snd (bsemu_init bsemu_env bsemu_boot))"
  by (rule load [of bsemu_env]) (simp add: bsemu_init_def andThen_def bind_def bsemu_env_def)

text \<open>Probing a row of devices one after the other, with the results.\<close>

fun probe_row :: "benv \<Rightarrow> nat list \<Rightarrow> bsemu \<Rightarrow> (bstop + int) list \<times> bsemu" where
  "probe_row E [] s = ([], s)"
| "probe_row E (dev # devs) s =
     (let (r, s1) = bsemu_probe E dev s; (rs, s2) = probe_row E devs s1 in (r # rs, s2))"

lemma probe_full:
  assumes "slots_ok s" "find_slot s = None" "accepted E dev"
  shows "bsemu_probe E dev s = (if devices_lock s then (Inl Deadlock, s)
    else (Inr (- b_ENOMEM), s\<lparr>devices_lock := True\<rparr>))"
  using assms by (auto simp: bsemu_probe_def accepted_def bind_def get_device_run)

lemma find_slot_lock: "find_slot (s\<lparr>devices_lock := l\<rparr>) = find_slot s"
  by (simp add: find_slot_def split: option.split)

section \<open>Properties\<close>

text \<open>
  C21. Whatever sequence of probes and removals, with any answers of the kernel, every bound
  device has a slot of its own with its device file, exactly the bound devices have one, and
  a removal ends normally unless the lock was left locked, which happens only once all 128
  slots are taken; no NULL pointer is ever followed.
\<close>

theorem bsemu_safe:
  assumes "bsemu_reach B s"
  shows "bsemu_ok B s \<and>
    (\<forall>dev \<in> B. fst (bsemu_remove dev s) = (if devices_lock s then Inl Deadlock else Inr ())) \<and>
    (\<forall>E dev. fst (bsemu_probe E dev s) \<noteq> Inl Null_Pointer) \<and>
    (devices_lock s \<longrightarrow> (\<forall>i < NUM_SUPPORTED_DEVICES. pdev (devices s ! i) \<noteq> None))"
proof (intro conjI ballI allI impI)
  show ok: "bsemu_ok B s" using assms by (rule bsemu_ok_reach)
  then have slots: "slots_ok s" by (simp add: bsemu_ok_def)
  show "fst (bsemu_remove dev s) = (if devices_lock s then Inl Deadlock else Inr ())" if "dev \<in> B" for dev
    using bsemu_ok_remove [OF ok that] by (metis fst_conv surj_pair)
  show "fst (bsemu_probe E dev s) \<noteq> Inl Null_Pointer" for E dev
    using probe_outcome [OF slots, of E dev] by (cases "bsemu_probe E dev s") auto
  show "pdev (devices s ! i) \<noteq> None" if "devices_lock s" "i < NUM_SUPPORTED_DEVICES" for i
    using ok that find_slot_None [OF slots] by (simp add: bsemu_ok_def)
qed

lemma bsemu_safe_witness:
  "bsemu_ok {} (snd (bsemu_init bsemu_env bsemu_boot))"
  using bsemu_safe [OF load_example] by simp

text \<open>Failed probes in a row use up the slots.\<close>

lemma failed_probe_leaks:
  assumes "slots_ok s" "find_slot s = Some i" "\<not> devices_lock s" "accepted E dev" "\<not> e_enable_ok E"
  shows "\<exists>s'. bsemu_probe E dev s = (Inr (- b_EFAULT), s') \<and> slot_taken s i dev s'"
proof -
  obtain r s' where run: "bsemu_probe E dev s = (r, s')" by fastforce
  moreover have "r = Inr (- b_EFAULT)"
    using assms run by (auto simp: bsemu_probe_def accepted_def bind_def andThen_def get_device_run)
  ultimately show ?thesis using probe_outcome [OF assms(1) run] assms(2,3) by auto
qed

definition all_used :: "nat \<Rightarrow> bsemu \<Rightarrow> bool" where
  "all_used n s \<longleftrightarrow> slots_ok s \<and> last_device s = n \<and> (\<forall>i < n. pdev (devices s ! i) \<noteq> None) \<and> \<not> devices_lock s"

lemma all_used_find:
  "all_used n s \<Longrightarrow> find_slot s = (if n = NUM_SUPPORTED_DEVICES then None else Some n)"
  by (auto simp: all_used_def slots_ok_def find_slot_def first_index_Some split: option.splits)

lemma failed_row:
  assumes "all_used n s" "n + length devs = NUM_SUPPORTED_DEVICES" "\<forall>dev \<in> set devs. accepted E dev"
    "\<not> e_enable_ok E"
  shows "\<exists>s'. probe_row E devs s = (replicate (length devs) (Inr (- b_EFAULT)), s') \<and>
    all_used NUM_SUPPORTED_DEVICES s' \<and> (bsemu_reach {} s \<longrightarrow> bsemu_reach {} s')"
  using assms(1-3)
proof (induction devs arbitrary: n s)
  case (Cons dev devs)
  have f: "find_slot s = Some n" using all_used_find [OF Cons.prems(1)] Cons.prems(2) by simp
  obtain s1 where 1: "bsemu_probe E dev s = (Inr (- b_EFAULT), s1)" "slot_taken s n dev s1"
    using failed_probe_leaks [OF _ f _ _ assms(4), of dev] Cons.prems(1,3) unfolding all_used_def by auto
  have "all_used (Suc n) s1"
    using 1(2) Cons.prems(1,2) by (auto simp: all_used_def slots_ok_def slot_taken_def less_Suc_eq)
  from Cons.IH [OF this] Cons.prems obtain s' where
    "probe_row E devs s1 = (replicate (length devs) (Inr (- b_EFAULT)), s')" "all_used NUM_SUPPORTED_DEVICES s'"
    "bsemu_reach {} s1 \<longrightarrow> bsemu_reach {} s'" by auto
  moreover have "bsemu_reach {} s \<longrightarrow> bsemu_reach {} s1" using 1(1) by (auto intro: probe_fails)
  ultimately show ?case using 1(1) by (auto simp: Let_def)
qed simp

lemma probe_row_append:
  "probe_row E (xs @ ys) s = (let (rs, s1) = probe_row E xs s; (rs', s2) = probe_row E ys s1 in (rs @ rs', s2))"
  by (induction xs arbitrary: s) (auto simp: Let_def split: prod.splits)

text \<open>
  Once all 128 slots are taken, the next probe of an accepted device returns
  \<^verbatim>\<open>-ENOMEM\<close> with the lock held: from then on every probe of an accepted device and
  every removal of a bound one waits for the lock for ever.
\<close>

theorem full_table_deadlocks:
  assumes "bsemu_reach B s" "find_slot s = None" "\<not> devices_lock s" "accepted E dev"
  shows "\<exists>s'. bsemu_probe E dev s = (Inr (- b_ENOMEM), s') \<and>
    (\<forall>E' dev'. accepted E' dev' \<longrightarrow> fst (bsemu_probe E' dev' s') = Inl Deadlock) \<and>
    (\<forall>dev' \<in> B. fst (bsemu_remove dev' s') = Inl Deadlock)"
proof (intro exI conjI allI impI ballI)
  let ?s' = "s\<lparr>devices_lock := True\<rparr>"
  have ok: "bsemu_ok B s" using assms(1) by (rule bsemu_ok_reach)
  then have slots: "slots_ok s" by (simp add: bsemu_ok_def)
  show "bsemu_probe E dev s = (Inr (- b_ENOMEM), ?s')" using probe_full [OF slots assms(2,4)] assms(3) by simp
  have slots': "slots_ok ?s'" using slots by (simp add: slots_ok_def)
  show "fst (bsemu_probe E' dev' ?s') = Inl Deadlock" if "accepted E' dev'" for E' dev'
    using probe_full [OF slots' _ that] assms(2) by (simp add: find_slot_lock)
  have ok': "bsemu_ok B ?s'"
    using ok assms(2) by (simp add: bsemu_ok_def slots_ok_def find_slot_lock owns_slot_def)
  show "fst (bsemu_remove dev' ?s') = Inl Deadlock" if "dev' \<in> B" for dev'
    using bsemu_ok_remove [OF ok' that prod.collapse [symmetric]] by simp
qed

lemma full_table_deadlocks_witness:
  "\<exists>s s'. bsemu_probe bsemu_env 0 s = (Inr (- b_ENOMEM), s') \<and> fst (bsemu_probe bsemu_env 1 s') = Inl Deadlock"
proof -
  let ?s = "snd (bsemu_init bsemu_env bsemu_boot)"
  have "all_used 0 ?s"
    by (simp add: all_used_def slots_ok_def bsemu_boot_def blank_device_def bsemu_init_def andThen_def bind_def
        bsemu_env_def)
  from failed_row [OF this, of "replicate 128 0" broken_env] obtain s where
    s: "all_used NUM_SUPPORTED_DEVICES s" "bsemu_reach {} s"
    using load_example by (auto simp: broken_env_def bsemu_env_def accepted_def NUM_SUPPORTED_DEVICES_def)
  have acc: "accepted bsemu_env dev" for dev by (simp add: accepted_def bsemu_env_def)
  have f: "find_slot s = None" "\<not> devices_lock s" using all_used_find [OF s(1)] s(1) by (simp_all add: all_used_def)
  from full_table_deadlocks [OF s(2) f acc [of 0]] acc [of 1] show ?thesis by blast
qed

text \<open>
  A board that cannot be enabled keeps the slot it was given: 128 failed probes use up the
  table, the next one returns \<^verbatim>\<open>-ENOMEM\<close> and the one after it never returns.
\<close>

theorem failed_probes_exhaust:
  assumes "length devs = 128" "\<forall>dev \<in> set devs. accepted E dev" "accepted E d" "\<not> e_enable_ok E"
  shows "fst (probe_row E (devs @ [d, d]) bsemu_boot) =
    replicate 128 (Inr (- b_EFAULT)) @ [Inr (- b_ENOMEM), Inl Deadlock]"
proof -
  have "all_used 0 bsemu_boot" by (simp add: all_used_def slots_ok_def bsemu_boot_def blank_device_def)
  from failed_row [OF this _ assms(2,4)] assms(1) obtain s' where
    1: "probe_row E devs bsemu_boot = (replicate 128 (Inr (- b_EFAULT)), s')" "all_used NUM_SUPPORTED_DEVICES s'"
    by (auto simp: NUM_SUPPORTED_DEVICES_def)
  have f: "find_slot s' = None" "slots_ok s'" "\<not> devices_lock s'"
    using 1(2) all_used_find [OF 1(2)] by (auto simp: all_used_def)
  have "slots_ok (s'\<lparr>devices_lock := True\<rparr>)" using f(2) by (simp add: slots_ok_def)
  with f assms(3) probe_full [OF this] probe_full [OF f(2,1)] show ?thesis
    by (simp add: probe_row_append 1(1) find_slot_lock)
qed

lemma failed_probes_exhaust_witness:
  "fst (probe_row broken_env (replicate 128 0 @ [0, 0]) bsemu_boot) =
    replicate 128 (Inr (- b_EFAULT)) @ [Inr (- b_ENOMEM), Inl Deadlock]"
  by (rule failed_probes_exhaust) (simp_all add: broken_env_def bsemu_env_def accepted_def)

lemma whole_pages:
  fixes x :: u64
  assumes "4096 dvd unat x"
  shows "push_bit 12 (drop_bit 12 x) = x"
proof -
  have "unat (take_bit 12 x) = 0" using assms by (simp add: unsigned_take_bit_eq dvd_eq_mod_eq_0 flip: take_bit_eq_mod)
     (simp add: take_bit_eq_mod)
  then have "take_bit 12 x = 0" by (simp add: unat_eq_0)
  with bits_ident [of 12 x] show ?thesis by simp
qed

lemma bsemu_probed_example:
  defines "s \<equiv> snd (bsemu_init bsemu_env bsemu_boot)"
  shows "bsemu_reach {0} (snd (bsemu_probe bsemu_env 0 s))"
    and "bars (devices (snd (bsemu_probe bsemu_env 0 s)) ! 0) = replicate 6 \<lparr>log_addr = 0x1000, bar_size = 0x2000\<rparr>"
    and "log_ptr (devices (snd (bsemu_probe bsemu_env 0 s)) ! 0) = replicate 6 0x1000"
proof -
  have slots: "slots_ok s" using bsemu_ok_reach [OF load_example] by (simp add: s_def bsemu_ok_def)
  have f: "find_slot s = Some 0" "\<not> devices_lock s"
    by (simp_all add: s_def find_slot_def bsemu_init_def bsemu_boot_def andThen_def bind_def bsemu_env_def
        NUM_SUPPORTED_DEVICES_def)
  have "fst (bsemu_probe bsemu_env 0 s) = Inr 0"
    using f by (simp add: bsemu_probe_def bind_def andThen_def get_device_run take_slot_def map_and_register_def
        ioremap_bar_run Let_def edit_slot_def s_def bsemu_init_def bsemu_boot_def bsemu_env_def
        NUM_SUPPORTED_DEVICES_def MAXNUM_PCI_BAR_def read_bars_def init_device_def)
  then obtain s' where 1: "bsemu_probe bsemu_env 0 s = (Inr 0, s')" by (metis prod.collapse)
  have "bsemu_reach (insert 0 {}) s'" by (rule probe_binds [OF load_example]) (use 1 in \<open>simp_all add: s_def\<close>)
  with 1 show "bsemu_reach {0} (snd (bsemu_probe bsemu_env 0 s))" by simp
  from probe_outcome [OF slots 1] f have "probe_ok bsemu_env s 0 0 s'" by auto
  with 1 show "bars (devices (snd (bsemu_probe bsemu_env 0 s)) ! 0) = replicate 6 \<lparr>log_addr = 0x1000, bar_size = 0x2000\<rparr>"
    "log_ptr (devices (snd (bsemu_probe bsemu_env 0 s)) ! 0) = replicate 6 0x1000"
    by (simp_all add: probe_ok_def bsemu_env_def MAXNUM_PCI_BAR_def map_replicate_const)
qed

text \<open>
  A mapping that succeeds starts at the BAR the page offset selects and is no longer than
  it, when the kernel hands out BARs that start on a page: user space gets nothing beyond the
  board's own registers.
\<close>

theorem mmap_within_bar:
  assumes "bsemu_reach B s" "i < NUM_SUPPORTED_DEVICES"
    and "bsemu_mmap remap_ok s (Some i) vm_start vm_end vm_pgoff = (0, Some (frame, len))"
    and "\<And>b. b \<in> set (bars (devices s ! i)) \<Longrightarrow> 4096 dvd unat (log_addr b)"
  shows "\<exists>b \<in> set (bars (devices s ! i)). push_bit 12 frame = log_addr b \<and> len = vm_end - vm_start \<and>
    len \<le> bar_size b"
proof -
  let ?d = "devices s ! i" and ?n = "unat (vm_pgoff mod of_nat MAXNUM_PCI_BAR)"
  have m: "bars_match ?d" using bsemu_ok_reach [OF assms(1)] assms(2) by (simp add: bsemu_ok_def)
  have n: "?n < length (bars ?d)"
    using m by (simp add: bars_match_def MAXNUM_PCI_BAR_def unat_mod)
  have fr: "frame = drop_bit 12 (log_addr (bars ?d ! ?n))" "len = vm_end - vm_start" "len \<le> bar_size (bars ?d ! ?n)"
    using assms(3) n m by (auto simp: bsemu_mmap_def Let_def bars_match_def split: if_splits)
  have "push_bit 12 frame = log_addr (bars ?d ! ?n)"
    unfolding fr(1) by (rule whole_pages) (use assms(4) n nth_mem in blast)
  with fr n nth_mem show ?thesis by blast
qed


lemma mmap_within_bar_witness:
  "\<exists>b \<in> set (bars (devices (snd (bsemu_probe bsemu_env 0 (snd (bsemu_init bsemu_env bsemu_boot)))) ! 0)).
     push_bit 12 (1 :: u64) = log_addr b \<and> (0x1000 :: u64) = 0x8000 - 0x7000 \<and> 0x1000 \<le> bar_size b"
  by (rule mmap_within_bar [OF bsemu_probed_example(1), where remap_ok = "\<lambda>_ _. True" and vm_pgoff = 7])
    (simp_all add: bsemu_mmap_def NUM_SUPPORTED_DEVICES_def bsemu_probed_example(2,3) MAXNUM_PCI_BAR_def)

end
