(* ===== verification/Pchnl.thy ===== *)
theory Pchnl
  imports Leap_Prelude Little_Endian
begin

text \<open>
  \<^verbatim>\<open>drivers/linux/platforms/htg-pcie-virtex5/src\<close> (\<^verbatim>\<open>pchnl_main.c\<close>, its two headers): the
  driver of the PCIe hardware channel. One global driver object, one global pointer to the
  device object, a wait queue with a flag, and two DMA buffers of 4 MB. Kernel messages are not
  modelled; the code between \<^verbatim>\<open>#if 0\<close> and \<^verbatim>\<open>#endif\<close> is left out.
\<close>

section \<open>State\<close>

record pchnl_device =
  pdev :: nat
  hw_addr :: u64
  io_base :: u64
  dma_h2fp :: u64
  h2f_pg_base :: u64
  f2h_pg_base :: u64
  dma_f2hp :: u64

record pchnl_driver =
  miscdev_minor :: int
  intr_count :: u32
  usr_intr_reg_p :: u64

text \<open>
  What happens while a process sleeps: a number of interrupts is handled before the process
  looks at the flag again, the device having left kernel memory as given; or a signal.
\<close>

datatype wait_event = Interrupts nat "(u64 \<Rightarrow> u8) \<Rightarrow> u64 \<Rightarrow> u8" | Signal

text \<open>
  The driver's globals; the objects allocated with \<^verbatim>\<open>kmalloc\<close>; what the driver holds in the
  kernel; kernel memory by virtual address; the memory of the calling process (None where it
  is not accessible); the device registers written so far, oldest first; pinned user pages.
\<close>

record pchnl =
  gpchnl_drv :: "pchnl_driver option"
  gpchnl_dev :: "nat option"
  flag :: bool
  dev_heap :: "nat \<Rightarrow> pchnl_device option"
  allocs :: nat
  drvdata :: "nat \<Rightarrow> nat option"
  enabled :: "nat set"
  regions :: "nat set"
  masters :: "nat set"
  iomapped :: "u64 set"
  irqs :: "(nat \<times> nat) set"
  pages :: "u64 set"
  misc_registered :: bool
  pci_registered :: bool
  kmem :: "u64 \<Rightarrow> u8"
  umem :: "u64 \<Rightarrow> u8 option"
  writes :: "(u64 \<times> u32) list"
  reads :: nat
  pinned :: "u64 list"
  events :: "wait_event list"

text \<open>What the kernel and the device answer.\<close>

record penv =
  e_drv_alloc :: bool
  e_register :: int
  e_misc :: int
  e_minor :: int
  e_enable :: int
  e_mask64 :: int
  e_mask32 :: int
  e_request_regions :: int
  e_dev_alloc :: bool
  e_io_base :: u64
  e_ioremap :: u64
  e_irq :: int
  e_page1 :: u64
  e_page2 :: u64
  e_page_address :: "u64 \<Rightarrow> u64"
  e_pa :: "u64 \<Rightarrow> u64"
  e_reg :: "nat \<Rightarrow> u64 \<Rightarrow> u32"
  e_gup :: "u64 \<Rightarrow> int"
  e_map_page :: "u64 \<Rightarrow> u64"
  e_remap :: "u64 \<Rightarrow> u64 \<Rightarrow> u64 \<Rightarrow> int"

text \<open>A NULL pointer, freed memory, a bad user address, a sleep that nothing ends.\<close>

datatype pstop = Null_Pointer | Use_After_Free | Bad_Address | Asleep

type_synonym 'a pprog = "(pchnl, pstop, 'a) prog"

definition BUF_SIZE :: nat where "BUF_SIZE = 4194304"
definition CSR_REGION_SIZE :: u64 where "CSR_REGION_SIZE = 8192"
definition COMM_CSR_BASE_OFFSET :: u32 where "COMM_CSR_BASE_OFFSET = 4096"
definition SYS_CSR_BASE_OFFSET :: u32 where "SYS_CSR_BASE_OFFSET = 0"
definition PCHNL_MMAP_SIZE :: u64 where "PCHNL_MMAP_SIZE = CSR_REGION_SIZE + 2 * of_nat BUF_SIZE"

abbreviation (input) "p_EIO \<equiv> 5 :: int"
abbreviation (input) "p_ENOMEM \<equiv> 12 :: int"
abbreviation (input) "p_EFAULT \<equiv> 14 :: int"
abbreviation (input) "p_ENODEV \<equiv> 19 :: int"
abbreviation (input) "p_EINVAL \<equiv> 22 :: int"

definition big_endian :: "u32 \<Rightarrow> u32" where
  "big_endian little = push_bit 24 (little AND 0xff) OR push_bit 8 (little AND 0xff00)
     OR drop_bit 8 (little AND 0xff0000) OR drop_bit 24 (little AND 0xff000000)"

section \<open>Memory and registers\<close>

definition mem_store :: "u64 \<Rightarrow> u8 list \<Rightarrow> (u64 \<Rightarrow> u8) \<Rightarrow> u64 \<Rightarrow> u8" where
  "mem_store a bs m = (\<lambda>x. if unat (x - a) < length bs then bs ! unat (x - a) else m x)"

definition memset :: "u64 \<Rightarrow> u8 \<Rightarrow> nat \<Rightarrow> unit pprog" where
  "memset a v n = modify (\<lambda>s. s\<lparr>kmem := (\<lambda>x. if unat (x - a) < n then v else kmem s x)\<rparr>)"

text \<open>
  The accessible bytes from a user address on, at most \<^term>\<open>n\<close>. \<^verbatim>\<open>copy_from_user\<close> fills what it
  could not read with zeros; both copies answer how many bytes are missing.
\<close>

fun user_bytes :: "(u64 \<Rightarrow> u8 option) \<Rightarrow> u64 \<Rightarrow> nat \<Rightarrow> u8 list" where
  "user_bytes m a 0 = []"
| "user_bytes m a (Suc n) = (case m a of None \<Rightarrow> [] | Some b \<Rightarrow> b # user_bytes m (a + 1) n)"

definition from_user :: "u64 \<Rightarrow> nat \<Rightarrow> (u8 list \<times> nat) pprog" where
  "from_user a n = (\<lambda>s. let bs = user_bytes (umem s) a n in
     (Inr (bs @ replicate (n - length bs) 0, n - length bs), s))"

definition to_user :: "u64 \<Rightarrow> u8 list \<Rightarrow> nat pprog" where
  "to_user a bs = (\<lambda>s. let n = length (user_bytes (umem s) a (length bs)) in
     (Inr (length bs - n), s\<lparr>umem := (\<lambda>x. if unat (x - a) < n then Some (bs ! unat (x - a)) else umem s x)\<rparr>))"

definition copy_from_user :: "u64 \<Rightarrow> u64 \<Rightarrow> nat \<Rightarrow> nat pprog" where
  "copy_from_user dst src n = bind (from_user src n) (\<lambda>(bs, left).
     andThen (modify (\<lambda>s. s\<lparr>kmem := mem_store dst bs (kmem s)\<rparr>)) (ret left))"

definition copy_to_user :: "u64 \<Rightarrow> u64 \<Rightarrow> nat \<Rightarrow> nat pprog" where
  "copy_to_user dst src n = (\<lambda>s. to_user dst (map (\<lambda>i. kmem s (src + of_nat i)) [0..<n]) s)"

definition the_dev :: "pchnl_device pprog" where
  "the_dev = (\<lambda>s. case gpchnl_dev s of
       None \<Rightarrow> (Inl Null_Pointer, s)
     | Some a \<Rightarrow> (case dev_heap s a of None \<Rightarrow> (Inl Use_After_Free, s) | Some d \<Rightarrow> (Inr d, s)))"

definition the_drv :: "pchnl_driver pprog" where
  "the_drv = (\<lambda>s. case gpchnl_drv s of None \<Rightarrow> (Inl Null_Pointer, s) | Some d \<Rightarrow> (Inr d, s))"

definition set_drv :: "(pchnl_driver \<Rightarrow> pchnl_driver) \<Rightarrow> unit pprog" where
  "set_drv f = bind the_drv (\<lambda>d. modify (\<lambda>s. s\<lparr>gpchnl_drv := Some (f d)\<rparr>))"

text \<open>Every register access goes through the global device pointer.\<close>

definition writel :: "u32 \<Rightarrow> u64 \<Rightarrow> unit pprog" where
  "writel v off = bind the_dev (\<lambda>d. modify (\<lambda>s. s\<lparr>writes := writes s @ [(hw_addr d + off, v)]\<rparr>))"

definition readl :: "penv \<Rightarrow> u64 \<Rightarrow> u32 pprog" where
  "readl E off = bind the_dev (\<lambda>d s. (Inr (e_reg E (reads s) (hw_addr d + off)), s\<lparr>reads := reads s + 1\<rparr>))"

section \<open>Module, probe and remove\<close>

definition pchnl_init_module :: "penv \<Rightarrow> int pprog" where
  "pchnl_init_module E =
     (if \<not> e_drv_alloc E then andThen (modify (\<lambda>s. s\<lparr>gpchnl_drv := None\<rparr>)) (ret (- p_ENOMEM))
      else
        andThen (modify (\<lambda>s. s\<lparr>gpchnl_drv := Some \<lparr>miscdev_minor = 0, intr_count = 0, usr_intr_reg_p = 0\<rparr>\<rparr>))
        (if e_register E < 0 then andThen (modify (\<lambda>s. s\<lparr>gpchnl_drv := None\<rparr>)) (ret (e_register E))
         else
           andThen (modify (\<lambda>s. s\<lparr>pci_registered := True\<rparr>))
           (andThen (set_drv (\<lambda>d. d\<lparr>miscdev_minor := 255\<rparr>))
           (if e_misc E \<noteq> 0 then
              andThen (modify (\<lambda>s. s\<lparr>pci_registered := False, gpchnl_drv := None\<rparr>)) (ret (- 1))
            else
              andThen (set_drv (\<lambda>d. d\<lparr>miscdev_minor := e_minor E\<rparr>))
              (andThen (modify (\<lambda>s. s\<lparr>misc_registered := True\<rparr>)) (ret 0))))))"

text \<open>Unregistering a driver removes its bound devices first, by calls to \<^verbatim>\<open>pchnl_remove\<close>.\<close>

definition pchnl_exit_module :: "unit pprog" where
  "pchnl_exit_module =
     andThen (modify (\<lambda>s. s\<lparr>pci_registered := False\<rparr>))
     (bind the_drv (\<lambda>_. modify (\<lambda>s. s\<lparr>misc_registered := False, gpchnl_drv := None\<rparr>)))"

definition pchnl_init_device :: "int pprog" where
  "pchnl_init_device = ret 0"

definition pchnl_shutdown_device :: "int pprog" where
  "pchnl_shutdown_device = ret 0"

definition set_dev :: "nat \<Rightarrow> (pchnl_device \<Rightarrow> pchnl_device) \<Rightarrow> unit pprog" where
  "set_dev a f = modify (\<lambda>s. s\<lparr>dev_heap := (dev_heap s)(a := map_option f (dev_heap s a))\<rparr>)"

definition free_dev :: "nat \<Rightarrow> unit pprog" where
  "free_dev a = modify (\<lambda>s. s\<lparr>dev_heap := (dev_heap s)(a := None)\<rparr>)"

definition release_regions :: "nat \<Rightarrow> unit pprog" where
  "release_regions pd = modify (\<lambda>s. s\<lparr>regions := regions s - {pd}\<rparr>)"

definition iounmap :: "u64 \<Rightarrow> unit pprog" where
  "iounmap v = modify (\<lambda>s. s\<lparr>iomapped := iomapped s - {v}\<rparr>)"

text \<open>The labels of the error path of the probe, from the last to the first.\<close>

definition err_alloc_gpchnl_dev :: "nat \<Rightarrow> int \<Rightarrow> int pprog" where
  "err_alloc_gpchnl_dev pd err = andThen (release_regions pd) (ret err)"

definition err_ioremap :: "nat \<Rightarrow> nat \<Rightarrow> int \<Rightarrow> int pprog" where
  "err_ioremap pd a err = andThen (free_dev a) (err_alloc_gpchnl_dev pd err)"

definition err_dev_init :: "nat \<Rightarrow> nat \<Rightarrow> u64 \<Rightarrow> int \<Rightarrow> int pprog" where
  "err_dev_init pd a v err = andThen pchnl_shutdown_device (andThen (iounmap v) (err_ioremap pd a err))"

definition alloc_buffer :: "u64 \<Rightarrow> (u64 \<Rightarrow> pchnl_device \<Rightarrow> pchnl_device) \<Rightarrow> penv \<Rightarrow> nat \<Rightarrow> u8 \<Rightarrow> bool pprog" where
  "alloc_buffer pg f E a fill =
     (if pg = 0 then ret False
      else andThen (modify (\<lambda>s. s\<lparr>pages := insert pg (pages s)\<rparr>))
             (andThen (set_dev a (f pg)) (andThen (memset (e_page_address E pg) fill BUF_SIZE) (ret True))))"

definition probe_device :: "penv \<Rightarrow> nat \<Rightarrow> nat \<Rightarrow> int pprog" where
  "probe_device E pd a =
     (if e_ioremap E = 0 then err_ioremap pd a (- p_EIO)
      else
        andThen (modify (\<lambda>s. s\<lparr>iomapped := insert (e_ioremap E) (iomapped s)\<rparr>))
        (andThen (set_dev a (\<lambda>d. d\<lparr>hw_addr := e_ioremap E, pdev := pd\<rparr>))
        (bind pchnl_init_device (\<lambda>r. if r \<noteq> 0 then err_dev_init pd a (e_ioremap E) (- p_ENODEV)
          else if e_irq E \<noteq> 0 then err_dev_init pd a (e_ioremap E) (e_irq E)
          else
            andThen (modify (\<lambda>s. s\<lparr>irqs := insert (pd, a) (irqs s)\<rparr>))
            (bind (alloc_buffer (e_page1 E)
                (\<lambda>pg d. d\<lparr>h2f_pg_base := pg, dma_h2fp := e_page_address E pg\<rparr>) E a 0xAB) (\<lambda>ok1.
              if \<not> ok1 then err_dev_init pd a (e_ioremap E) (- p_ENOMEM)
              else bind (alloc_buffer (e_page2 E)
                (\<lambda>pg d. d\<lparr>f2h_pg_base := pg, dma_f2hp := e_page_address E pg\<rparr>) E a 0xCD) (\<lambda>ok2.
              if \<not> ok2 then err_dev_init pd a (e_ioremap E) (- p_ENOMEM) else ret 0)))))))"

definition pchnl_probe :: "penv \<Rightarrow> nat \<Rightarrow> int pprog" where
  "pchnl_probe E pd =
     (if e_enable E \<noteq> 0 then ret (e_enable E)
      else
        andThen (modify (\<lambda>s. s\<lparr>enabled := insert pd (enabled s)\<rparr>))
        (if e_mask64 E \<noteq> 0 \<and> e_mask32 E \<noteq> 0 then ret (e_mask32 E)
         else if e_request_regions E \<noteq> 0 then ret (e_request_regions E)
         else
           andThen (modify (\<lambda>s. s\<lparr>regions := insert pd (regions s), masters := insert pd (masters s)\<rparr>))
           (if \<not> e_dev_alloc E then
              andThen (modify (\<lambda>s. s\<lparr>gpchnl_dev := None\<rparr>)) (err_alloc_gpchnl_dev pd (- p_ENOMEM))
            else
              (\<lambda>s. let a = allocs s in
                 andThen (modify (\<lambda>s. s\<lparr>allocs := a + 1, gpchnl_dev := Some a, drvdata := (drvdata s)(pd \<mapsto> a),
                     dev_heap := (dev_heap s)(a \<mapsto> \<lparr>pdev = 0, hw_addr = 0, io_base = e_io_base E, dma_h2fp = 0,
                       h2f_pg_base = 0, f2h_pg_base = 0, dma_f2hp = 0\<rparr>)\<rparr>))
                   (probe_device E pd a) s))))"

text \<open>The local variable of \<^verbatim>\<open>pchnl_remove\<close> hides the global pointer, which keeps its value.\<close>

definition pchnl_remove :: "nat \<Rightarrow> unit pprog" where
  "pchnl_remove pd = (\<lambda>s. case drvdata s pd of
       None \<Rightarrow> (Inl Null_Pointer, s)
     | Some a \<Rightarrow> (case dev_heap s a of
           None \<Rightarrow> (Inl Use_After_Free, s)
         | Some d \<Rightarrow>
             andThen (modify (\<lambda>s. s\<lparr>pages := pages s - {h2f_pg_base d, f2h_pg_base d}, irqs := irqs s - {(pdev d, a)}\<rparr>))
             (andThen pchnl_shutdown_device
             (andThen (iounmap (hw_addr d)) (andThen (release_regions pd) (free_dev a)))) s))"

section \<open>Interrupts and waiting\<close>

definition pchnl_intr :: "unit pprog" where
  "pchnl_intr =
     andThen (writel 0xffffffff 8)
     (andThen (set_drv (\<lambda>d. d\<lparr>intr_count := intr_count d + 1\<rparr>))
     (bind the_drv (\<lambda>d.
     (andThen (bind (to_user (usr_intr_reg_p d) (le_bytes 4 (intr_count d))) (\<lambda>_. ret ()))
     (modify (\<lambda>s. s\<lparr>flag := \<not> flag s\<rparr>))))))"

fun pchnl_intrs :: "nat \<Rightarrow> unit pprog" where
  "pchnl_intrs 0 = ret ()"
| "pchnl_intrs (Suc n) = andThen pchnl_intr (pchnl_intrs n)"

text \<open>
  \<^verbatim>\<open>wait_event_interruptible(wq, flag != 0)\<close>; its result, an error after a signal, is not looked
  at by any caller. Without further events the process sleeps for ever.
\<close>

fun wait_loop :: "wait_event list \<Rightarrow> unit pprog" where
  "wait_loop [] = (\<lambda>s. if flag s then (Inr (), s\<lparr>events := []\<rparr>) else (Inl Asleep, s\<lparr>events := []\<rparr>))"
| "wait_loop (e # es) = (\<lambda>s. if flag s then (Inr (), s\<lparr>events := e # es\<rparr>)
     else case e of
       Signal \<Rightarrow> (Inr (), s\<lparr>events := es\<rparr>)
     | Interrupts n m \<Rightarrow> andThen (modify (\<lambda>s. s\<lparr>kmem := m (kmem s)\<rparr>)) (andThen (pchnl_intrs n) (wait_loop es)) s)"

definition wait_flag :: "unit pprog" where
  "wait_flag = (\<lambda>s. wait_loop (events s) s)"

section \<open>File operations\<close>

definition pchnl_open :: "int \<Rightarrow> int pprog" where
  "pchnl_open minor = bind the_drv (\<lambda>d. ret (if minor \<noteq> miscdev_minor d then - p_ENODEV else 0))"

definition pchnl_close :: "int pprog" where
  "pchnl_close = ret 0"

definition pchnl_write :: "nat \<Rightarrow> nat pprog" where
  "pchnl_write count = ret count"

definition read_chunk :: "penv \<Rightarrow> u64 \<Rightarrow> nat \<Rightarrow> nat \<Rightarrow> bool pprog" where
  "read_chunk E buf index len = bind the_dev (\<lambda>d. let addr64 = e_pa E (dma_f2hp d) in
     andThen (writel (big_endian (ucast addr64)) 972)
     (andThen (writel (big_endian (ucast (drop_bit 32 addr64))) 976)
     (andThen (writel (big_endian (of_nat len)) 980)
     (andThen (writel (big_endian 0xffffffff) 0)
     (andThen wait_flag
     (bind the_dev (\<lambda>d. bind (copy_to_user (buf + of_nat index) (dma_f2hp d) len) (\<lambda>left. ret (left = 0)))))))))"

function read_loop :: "penv \<Rightarrow> u64 \<Rightarrow> nat \<Rightarrow> nat \<Rightarrow> nat pprog" where
  "read_loop E buf count index =
     (if index < count then
        bind (read_chunk E buf index (min (count - index) BUF_SIZE)) (\<lambda>ok.
          if ok then read_loop E buf count (index + BUF_SIZE) else ret 0)
      else ret count)"
  by pat_completeness auto
termination
  by (relation "measure (\<lambda>(E, buf, count, index). count - index)") (auto simp: BUF_SIZE_def)

declare read_loop.simps [simp del]

definition pchnl_read :: "penv \<Rightarrow> u64 \<Rightarrow> nat \<Rightarrow> nat pprog" where
  "pchnl_read E buf count = bind the_dev (\<lambda>_. read_loop E buf count 0)"

section \<open>Commands\<close>

text \<open>
  The request is a union of 40 bytes; here its five 64-bit words. \<^verbatim>\<open>_IOW\<close> has direction 1,
  \<^verbatim>\<open>_IOR\<close> direction 2, the type is the letter x.
\<close>

type_synonym pchnl_req = "u64 list"

definition pchnl_iow :: "u32 \<Rightarrow> u32" where
  "pchnl_iow nr = push_bit 30 1 OR push_bit 16 40 OR push_bit 8 120 OR nr"

definition pchnl_ior :: "u32 \<Rightarrow> u32" where
  "pchnl_ior nr = push_bit 30 2 OR push_bit 16 40 OR push_bit 8 120 OR nr"

definition PCHNL_CSR_READ :: u32 where "PCHNL_CSR_READ = pchnl_ior 0"
definition PCHNL_CSR_WRITE :: u32 where "PCHNL_CSR_WRITE = pchnl_iow 1"
definition PCHNL_CSR_TESTER :: u32 where "PCHNL_CSR_TESTER = pchnl_iow 2"
definition PCHNL_SYS_CSR_WRITE :: u32 where "PCHNL_SYS_CSR_WRITE = pchnl_iow 3"
definition PCHNL_SYS_CSR_READ :: u32 where "PCHNL_SYS_CSR_READ = pchnl_ior 4"
definition PCHNL_INTR_TESTER :: u32 where "PCHNL_INTR_TESTER = pchnl_iow 5"
definition PCHNL_DMA_H2F :: u32 where "PCHNL_DMA_H2F = pchnl_iow 6"
definition PCHNL_DMA_F2H :: u32 where "PCHNL_DMA_F2H = pchnl_ior 7"
definition PCHNL_SET_INTR_REG :: u32 where "PCHNL_SET_INTR_REG = pchnl_iow 8"
definition PCHNL_DMA_DUPLEX :: u32 where "PCHNL_DMA_DUPLEX = pchnl_iow 9"
definition PCHNL_RESET :: u32 where "PCHNL_RESET = pchnl_iow 10"
definition PCHNL_TRANSLATE_V2P :: u32 where "PCHNL_TRANSLATE_V2P = pchnl_iow 11"
definition PCHNL_GET_H2F_BUFFER_PA :: u32 where "PCHNL_GET_H2F_BUFFER_PA = pchnl_iow 12"
definition PCHNL_GET_F2H_BUFFER_PA :: u32 where "PCHNL_GET_F2H_BUFFER_PA = pchnl_iow 13"

definition lo32 :: "u64 \<Rightarrow> u32" where "lo32 w = ucast w"
definition hi32 :: "u64 \<Rightarrow> u32" where "hi32 w = ucast (drop_bit 32 w)"

definition set_lo32 :: "u32 \<Rightarrow> u64 \<Rightarrow> u64" where
  "set_lo32 v w = push_bit 32 (drop_bit 32 w) OR ucast v"

definition set_hi32 :: "u32 \<Rightarrow> u64 \<Rightarrow> u64" where
  "set_hi32 v w = push_bit 32 (ucast v) OR take_bit 32 w"

definition req_bytes :: "pchnl_req \<Rightarrow> u8 list" where
  "req_bytes req = concat (map (le_bytes 8) req)"

definition req_of_bytes :: "u8 list \<Rightarrow> pchnl_req" where
  "req_of_bytes bs = map (\<lambda>i. le_word (take 8 (drop (8 * i) bs))) [0..<5]"

text \<open>The request as the user passed it; without one the variable on the stack is used as it is.\<close>

definition fetch_req :: "pchnl_req \<Rightarrow> u64 \<Rightarrow> pchnl_req option pprog" where
  "fetch_req junk arg =
     (if arg = 0 then ret (Some junk)
      else bind (from_user arg 40) (\<lambda>(bs, left). ret (if left \<noteq> 0 then None else Some (req_of_bytes bs))))"

definition csr_read :: "penv \<Rightarrow> u64 \<Rightarrow> pchnl_req \<Rightarrow> int pprog" where
  "csr_read E arg req =
     bind (readl E (ucast (lo32 (req ! 0) * 4 + COMM_CSR_BASE_OFFSET))) (\<lambda>v.
     bind (to_user arg (req_bytes (req[0 := set_hi32 v (req ! 0)]))) (\<lambda>left.
     ret (if left \<noteq> 0 then - p_EFAULT else 0)))"

definition csr_write :: "pchnl_req \<Rightarrow> int pprog" where
  "csr_write req = andThen (writel (hi32 (req ! 0)) (ucast (lo32 (req ! 0) * 4 + COMM_CSR_BASE_OFFSET))) (ret 0)"

definition csr_tester :: "pchnl_req \<Rightarrow> int pprog" where
  "csr_tester req =
     andThen (writel (big_endian (lo32 (req ! 0))) (ucast (0x3F0 + SYS_CSR_BASE_OFFSET)))
     (andThen (writel (hi32 (req ! 0)) (ucast (0x3EC + SYS_CSR_BASE_OFFSET)))
     (andThen (writel 0xffffffff (ucast (0x3E8 + SYS_CSR_BASE_OFFSET))) (ret 0)))"

definition sys_csr_write :: "pchnl_req \<Rightarrow> int pprog" where
  "sys_csr_write req = andThen (writel (lo32 (req ! 0)) (ucast SYS_CSR_BASE_OFFSET)) (ret 0)"

definition sys_csr_read :: "penv \<Rightarrow> u64 \<Rightarrow> pchnl_req \<Rightarrow> int pprog" where
  "sys_csr_read E arg req =
     bind (readl E (ucast (4 + SYS_CSR_BASE_OFFSET))) (\<lambda>v.
     bind (to_user arg (req_bytes (req[0 := set_lo32 v (req ! 0)]))) (\<lambda>_. ret 0))"

text \<open>The address, length and loop count registers of the two directions.\<close>

definition write_address :: "u64 \<Rightarrow> u64 \<Rightarrow> unit pprog" where
  "write_address ui64 off =
     andThen (writel (big_endian (lo32 ui64)) off) (writel (big_endian (hi32 ui64)) (off + 4))"

definition start_and_wait :: "u32 \<Rightarrow> unit pprog" where
  "start_and_wait loop_count =
     andThen (writel (big_endian loop_count) 984)
     (andThen (writel (big_endian 0xffffffff) 1020)
     (andThen wait_flag (modify (\<lambda>s. s\<lparr>flag := False\<rparr>))))"

definition dma_h2f :: "penv \<Rightarrow> pchnl_req \<Rightarrow> int pprog" where
  "dma_h2f E req = bind the_dev (\<lambda>d.
     bind (copy_from_user (dma_h2fp d) (req ! 1) (unat (lo32 (req ! 0)))) (\<lambda>_.
     andThen (write_address (e_pa E (dma_h2fp d)) 960)
     (andThen (writel (big_endian (lo32 (req ! 0))) 968)
     (andThen (start_and_wait (lo32 (req ! 2))) (ret 0)))))"

definition dma_f2h :: "penv \<Rightarrow> pchnl_req \<Rightarrow> int pprog" where
  "dma_f2h E req = bind the_dev (\<lambda>d.
     andThen (write_address (e_pa E (dma_f2hp d)) 972)
     (andThen (writel (big_endian (lo32 (req ! 0))) 980)
     (andThen (start_and_wait (lo32 (req ! 2)))
     (bind the_dev (\<lambda>d. bind (copy_to_user (req ! 1) (dma_f2hp d) (unat (lo32 (req ! 0)))) (\<lambda>_. ret 0))))))"

definition duplex_address :: "u64 \<Rightarrow> u64 \<Rightarrow> u64 \<Rightarrow> unit pprog" where
  "duplex_address datap ui64 off =
     (if datap \<noteq> 0 then write_address ui64 off else andThen (writel 0 off) (writel 0 (off + 4)))"

definition dma_duplex :: "penv \<Rightarrow> pchnl_req \<Rightarrow> int pprog" where
  "dma_duplex E req = bind the_dev (\<lambda>d.
     andThen (duplex_address (req ! 1) (e_pa E (dma_h2fp d)) 960)
     (andThen (writel (big_endian (lo32 (req ! 0))) 968)
     (andThen (duplex_address (req ! 3) (e_pa E (dma_f2hp d)) 972)
     (andThen (writel (big_endian (lo32 (req ! 2))) 980)
     (andThen (start_and_wait (lo32 (req ! 4))) (ret 0))))))"

text \<open>The user's virtual address is read through the user's pointer directly.\<close>

definition translate_v2p :: "penv \<Rightarrow> pchnl_req \<Rightarrow> int pprog" where
  "translate_v2p E req = (\<lambda>s. let vb = user_bytes (umem s) (req ! 0) 8; va = le_word vb in
     if length vb < 8 then (Inl Bad_Address, s)
     else
       let page = va AND NOT 0xfff; r = e_gup E page in
       if r \<noteq> 1 then (Inr (if r < 0 then r else - p_EINVAL), s)
       else
         andThen (modify (\<lambda>s. s\<lparr>pinned := page # pinned s\<rparr>))
         (bind the_dev (\<lambda>_. bind (to_user (req ! 1) (le_bytes 8 (e_map_page E page))) (\<lambda>left.
            ret (if left \<noteq> 0 then - p_EFAULT else r)))) s)"

definition get_buffer_pa :: "(pchnl_device \<Rightarrow> u64) \<Rightarrow> penv \<Rightarrow> pchnl_req \<Rightarrow> int pprog" where
  "get_buffer_pa which E req = bind the_dev (\<lambda>d.
     bind (to_user (req ! 0) (le_bytes 8 (e_pa E (which d)))) (\<lambda>left.
     ret (if left \<noteq> 0 then - p_EFAULT else - p_EINVAL)))"

definition pchnl_command :: "penv \<Rightarrow> u32 \<Rightarrow> u64 \<Rightarrow> pchnl_req \<Rightarrow> int pprog" where
  "pchnl_command E cmd arg req =
     (if cmd = PCHNL_CSR_READ then csr_read E arg req
      else if cmd = PCHNL_CSR_WRITE then csr_write req
      else if cmd = PCHNL_CSR_TESTER then csr_tester req
      else if cmd = PCHNL_SYS_CSR_WRITE then sys_csr_write req
      else if cmd = PCHNL_SYS_CSR_READ then sys_csr_read E arg req
      else if cmd = PCHNL_INTR_TESTER then
        andThen (writel 0xffffffff (ucast (0x3F4 + SYS_CSR_BASE_OFFSET))) (ret 0)
      else if cmd = PCHNL_DMA_H2F then dma_h2f E req
      else if cmd = PCHNL_DMA_F2H then dma_f2h E req
      else if cmd = PCHNL_SET_INTR_REG then andThen (set_drv (\<lambda>d. d\<lparr>usr_intr_reg_p := req ! 0\<rparr>)) (ret 0)
      else if cmd = PCHNL_DMA_DUPLEX then dma_duplex E req
      else if cmd = PCHNL_RESET then andThen (writel 0xffffffff 12) (ret 0)
      else if cmd = PCHNL_TRANSLATE_V2P then translate_v2p E req
      else if cmd = PCHNL_GET_H2F_BUFFER_PA then get_buffer_pa dma_h2fp E req
      else if cmd = PCHNL_GET_F2H_BUFFER_PA then get_buffer_pa dma_f2hp E req
      else ret (- p_EINVAL))"

definition pchnl_ioctl :: "penv \<Rightarrow> pchnl_req \<Rightarrow> u32 \<Rightarrow> u64 \<Rightarrow> int pprog" where
  "pchnl_ioctl E junk cmd arg = bind (fetch_req junk arg) (\<lambda>r. case r of
       None \<Rightarrow> ret (- p_EFAULT)
     | Some req \<Rightarrow> pchnl_command E cmd arg req)"

text \<open>
  What the request behind \<^verbatim>\<open>mmap\<close> answers and, when it succeeds, what it mapped at the start of the area: the
  number of the first page and the size. The physical address of the BAR is cut to 32 bits.
\<close>

definition pchnl_mmap :: "penv \<Rightarrow> u64 \<Rightarrow> u64 \<Rightarrow> (int \<times> (u64 \<times> u64) option) pprog" where
  "pchnl_mmap E vm_start vm_end =
     (if vm_end - vm_start \<noteq> PCHNL_MMAP_SIZE then ret (- p_EINVAL, None)
      else bind the_dev (\<lambda>d.
        let pa = ucast (drop_bit 12 (lo32 (io_base d))); rc = e_remap E vm_start pa CSR_REGION_SIZE in
        ret (rc, if rc < 0 then None else Some (pa, CSR_REGION_SIZE))))"


section \<open>Running the parts\<close>

definition live :: "pchnl \<Rightarrow> pchnl_device \<Rightarrow> bool" where
  "live s d \<longleftrightarrow> (\<exists>a. gpchnl_dev s = Some a \<and> dev_heap s a = Some d)"

lemma live_frame [simp]:
  "live (s\<lparr>writes := ws\<rparr>) = live s" "live (s\<lparr>kmem := m\<rparr>) = live s" "live (s\<lparr>umem := u\<rparr>) = live s"
  "live (s\<lparr>flag := f\<rparr>) = live s" "live (s\<lparr>events := es\<rparr>) = live s" "live (s\<lparr>gpchnl_drv := g\<rparr>) = live s"
  "live (s\<lparr>reads := r\<rparr>) = live s"
  by (simp_all add: live_def fun_eq_iff)

lemma the_dev_run: "live s d \<Longrightarrow> the_dev s = (Inr d, s)"
  by (auto simp: live_def the_dev_def)

lemma writel_run: "live s d \<Longrightarrow> writel v off s = (Inr (), s\<lparr>writes := writes s @ [(hw_addr d + off, v)]\<rparr>)"
  by (simp add: writel_def bind_def the_dev_run)

text \<open>What handling interrupts leaves alone; each one flips the flag.\<close>

definition quiet :: "pchnl \<Rightarrow> pchnl \<Rightarrow> bool" where
  "quiet s s' \<longleftrightarrow> gpchnl_dev s' = gpchnl_dev s \<and> dev_heap s' = dev_heap s \<and> kmem s' = kmem s \<and>
     events s' = events s \<and> (gpchnl_drv s' = None \<longleftrightarrow> gpchnl_drv s = None)"

lemma pchnl_intr_run:
  assumes "live s d" "gpchnl_drv s = Some g"
  shows "\<exists>s'. pchnl_intr s = (Inr (), s') \<and> quiet s s' \<and> flag s' = (\<not> flag s) \<and>
    writes s' = writes s @ [(hw_addr d + 8, 0xffffffff)]"
  using assms
  by (simp add: pchnl_intr_def andThen_def bind_def writel_run set_drv_def the_drv_def to_user_def Let_def quiet_def)

lemma pchnl_intrs_run:
  assumes "live s d" "gpchnl_drv s \<noteq> None"
  shows "\<exists>s'. pchnl_intrs n s = (Inr (), s') \<and> quiet s s' \<and> flag s' = (flag s \<noteq> odd n) \<and>
    writes s' = writes s @ replicate n (hw_addr d + 8, 0xffffffff)"
  using assms
proof (induction n arbitrary: s)
  case (Suc n)
  obtain g where "gpchnl_drv s = Some g" using Suc.prems by blast
  from pchnl_intr_run [OF Suc.prems(1) this] obtain s1 where 1: "pchnl_intr s = (Inr (), s1)" "quiet s s1"
    "flag s1 = (\<not> flag s)" "writes s1 = writes s @ [(hw_addr d + 8, 0xffffffff)]" by blast
  have "live s1 d" "gpchnl_drv s1 \<noteq> None" using 1(2) Suc.prems by (simp_all add: quiet_def live_def)
  from Suc.IH [OF this] 1 show ?case by (fastforce simp: andThen_def bind_def quiet_def)
qed (simp add: quiet_def)

lemma wait_flag_odd:
  assumes "live s d" "gpchnl_drv s \<noteq> None" "\<not> flag s" "events s = Interrupts n m # es" "odd n"
  shows "\<exists>s'. wait_flag s = (Inr (), s') \<and> live s' d \<and> flag s' \<and> kmem s' = m (kmem s) \<and> events s' = es \<and>
    writes s' = writes s @ replicate n (hw_addr d + 8, 0xffffffff)"
proof -
  let ?s = "s\<lparr>kmem := m (kmem s)\<rparr>"
  obtain s1 where 1: "pchnl_intrs n ?s = (Inr (), s1)" "quiet ?s s1" "flag s1"
    "writes s1 = writes s @ replicate n (hw_addr d + 8, 0xffffffff)"
    using pchnl_intrs_run [of ?s d n] assms by auto
  have "live s1 d" using 1(2) assms(1) by (simp add: quiet_def live_def)
  moreover have "wait_loop es s1 = (Inr (), s1\<lparr>events := es\<rparr>)" using 1(3) by (cases es) auto
  ultimately show ?thesis
    using 1 assms(3,4) by (simp add: wait_flag_def andThen_def bind_def quiet_def)
qed

lemma wait_flag_even:
  assumes "live s d" "gpchnl_drv s \<noteq> None" "\<not> flag s" "events s = [Interrupts n m]" "even n"
  shows "\<exists>s'. wait_flag s = (Inl Asleep, s')"
proof -
  let ?s = "s\<lparr>kmem := m (kmem s)\<rparr>"
  obtain s1 where "pchnl_intrs n ?s = (Inr (), s1)" "\<not> flag s1"
    using pchnl_intrs_run [of ?s d n] assms by auto
  then show ?thesis using assms(3,4) by (simp add: wait_flag_def andThen_def bind_def)
qed

lemma start_and_wait_run:
  assumes "live s d" "gpchnl_drv s \<noteq> None" "\<not> flag s" "events s = Interrupts n m # es" "odd n"
  shows "\<exists>s'. start_and_wait c s = (Inr (), s') \<and> live s' d \<and> \<not> flag s' \<and> kmem s' = m (kmem s) \<and> events s' = es \<and>
    writes s' = writes s @ [(hw_addr d + 984, big_endian c), (hw_addr d + 1020, big_endian 0xffffffff)]
      @ replicate n (hw_addr d + 8, 0xffffffff)"
proof -
  let ?s = "s\<lparr>writes := writes s @ [(hw_addr d + 984, big_endian c), (hw_addr d + 1020, big_endian 0xffffffff)]\<rparr>"
  obtain s1 where 1: "wait_flag ?s = (Inr (), s1)" "live s1 d" "flag s1" "kmem s1 = m (kmem s)" "events s1 = es"
    "writes s1 = writes ?s @ replicate n (hw_addr d + 8, 0xffffffff)"
    using wait_flag_odd [of ?s d n m es] assms by auto
  then show ?thesis
    using assms(1) by (simp add: start_and_wait_def andThen_def bind_def writel_run)
qed


lemma mem_store_inside: "i < length bs \<Longrightarrow> length bs \<le> 2 ^ 32 \<Longrightarrow> mem_store a bs m (a + of_nat i) = bs ! i"
  by (simp add: mem_store_def unat_of_nat take_bit_eq_mod)

lemma mem_store_outside: "length bs \<le> unat (x - a) \<Longrightarrow> mem_store a bs m x = m x"
  by (simp add: mem_store_def)

lemma user_bytes_const: "user_bytes (\<lambda>_. Some b) a n = replicate n b"
  by (induction n arbitrary: a) auto

lemma user_bytes_length: "length (user_bytes m a n) \<le> n"
  by (induction m a n rule: user_bytes.induct) (auto split: option.splits)

definition h2f_bytes :: "pchnl \<Rightarrow> pchnl_req \<Rightarrow> u8 list" where
  "h2f_bytes s req = user_bytes (umem s) (req ! 1) (unat (lo32 (req ! 0)))"

definition h2f_readable :: "pchnl \<Rightarrow> pchnl_req \<Rightarrow> bool" where
  "h2f_readable s req \<longleftrightarrow> length (h2f_bytes s req) = unat (lo32 (req ! 0))"

lemma copy_from_user_run:
  assumes "length (user_bytes (umem s) src n) = n"
  shows "copy_from_user dst src n s = (Inr 0, s\<lparr>kmem := mem_store dst (user_bytes (umem s) src n) (kmem s)\<rparr>)"
  using assms by (simp add: copy_from_user_def from_user_def andThen_def bind_def Let_def)

lemma write_address_run:
  "live s d \<Longrightarrow> write_address v off s = (Inr (), s\<lparr>writes := writes s @
     [(hw_addr d + off, big_endian (lo32 v)), (hw_addr d + (off + 4), big_endian (hi32 v))]\<rparr>)"
  by (simp add: write_address_def andThen_def bind_def writel_run)

section \<open>Examples\<close>

definition penv0 :: penv where
  "penv0 = \<lparr>e_drv_alloc = True, e_register = 0, e_misc = 0, e_minor = 60, e_enable = 0, e_mask64 = 0, e_mask32 = 0,
     e_request_regions = 0, e_dev_alloc = True, e_io_base = 0xf0000000, e_ioremap = 0x10000, e_irq = 0,
     e_page1 = 1, e_page2 = 2, e_page_address = (\<lambda>p. p * 0x10000000), e_pa = (\<lambda>v. v + 0x1000), e_reg = (\<lambda>_ _. 7),
     e_gup = (\<lambda>_. 1), e_map_page = (\<lambda>p. p), e_remap = (\<lambda>_ _ _. 0)\<rparr>"

definition pchnl_boot :: pchnl where
  "pchnl_boot = \<lparr>gpchnl_drv = None, gpchnl_dev = None, flag = False, dev_heap = (\<lambda>_. None), allocs = 0,
     drvdata = (\<lambda>_. None), enabled = {}, regions = {}, masters = {}, iomapped = {}, irqs = {}, pages = {},
     misc_registered = False, pci_registered = False, kmem = (\<lambda>_. 0), umem = (\<lambda>_. Some 5), writes = [], reads = 0,
     pinned = [], events = []\<rparr>"

definition pchnl_loaded :: pchnl where
  "pchnl_loaded = snd (pchnl_init_module penv0 pchnl_boot)"

definition pchnl_probed :: pchnl where
  "pchnl_probed = snd (pchnl_probe penv0 0 pchnl_loaded)"

lemmas pchnl_run_defs = andThen_def bind_def Let_def pchnl_init_module_def pchnl_probe_def probe_device_def
  alloc_buffer_def set_dev_def set_drv_def the_drv_def free_dev_def release_regions_def iounmap_def memset_def
  err_alloc_gpchnl_dev_def err_ioremap_def err_dev_init_def pchnl_init_device_def pchnl_shutdown_device_def

lemma pchnl_probed_example:
  "pchnl_probe penv0 0 pchnl_loaded = (Inr 0, pchnl_probed)"
  "live pchnl_probed \<lparr>pdev = 0, hw_addr = 0x10000, io_base = 0xf0000000, dma_h2fp = 0x10000000, h2f_pg_base = 1,
     f2h_pg_base = 2, dma_f2hp = 0x20000000\<rparr>"
  "gpchnl_drv pchnl_probed \<noteq> None" "\<not> flag pchnl_probed" "umem pchnl_probed = (\<lambda>_. Some 5)" "writes pchnl_probed = []"
  by (simp_all add: pchnl_probed_def pchnl_loaded_def pchnl_run_defs penv0_def pchnl_boot_def live_def)

section \<open>The byte swap bit by bit\<close>

lemma byte_masks:
  "(0xff :: u32) = mask 8" "(0xff00 :: u32) = push_bit 8 (mask 8)" "(0xff0000 :: u32) = push_bit 16 (mask 8)"
  "(0xff000000 :: u32) = push_bit 24 (mask 8)"
  by (simp_all add: mask_eq_exp_minus_1 push_bit_eq_mult)

lemma bit_big_endian:
  "bit (big_endian x) i \<longleftrightarrow> i < 32 \<and> (if i < 8 then bit x (24 + i) else if i < 16 then bit x (8 + i)
     else if i < 24 then bit x (i - 8) else bit x (i - 24))"
  unfolding big_endian_def byte_masks
  by (auto simp: bit_simps dest: bit_imp_le_length)

lemma bit_byte: "bit (ucast (drop_bit k (w :: u32)) :: u8) j \<longleftrightarrow> j < 8 \<and> bit w (k + j)"
  by (auto simp: bit_simps dest: bit_imp_le_length)

lemma bit_low_byte: "bit (ucast (w :: u32) :: u8) j \<longleftrightarrow> j < 8 \<and> bit w j"
  using bit_byte [of 0 w j] by simp

lemma dma_h2f_run:
  assumes "live s d" "gpchnl_drv s \<noteq> None" "h2f_readable s req" "\<not> flag s"
    and "events s = Interrupts n m # es" "odd n"
  shows "\<exists>s'. dma_h2f E req s = (Inr 0, s') \<and> \<not> flag s' \<and> events s' = es \<and>
    kmem s' = m (mem_store (dma_h2fp d) (h2f_bytes s req) (kmem s)) \<and>
    writes s' = writes s @
      [(hw_addr d + 960, big_endian (lo32 (e_pa E (dma_h2fp d)))),
       (hw_addr d + 964, big_endian (hi32 (e_pa E (dma_h2fp d)))),
       (hw_addr d + 968, big_endian (lo32 (req ! 0))),
       (hw_addr d + 984, big_endian (lo32 (req ! 2))),
       (hw_addr d + 1020, big_endian 0xffffffff)] @ replicate n (hw_addr d + 8, 0xffffffff)"
proof -
  let ?s1 = "s\<lparr>kmem := mem_store (dma_h2fp d) (h2f_bytes s req) (kmem s)\<rparr>"
  let ?s2 = "?s1\<lparr>writes := writes s @ [(hw_addr d + 960, big_endian (lo32 (e_pa E (dma_h2fp d)))),
       (hw_addr d + 964, big_endian (hi32 (e_pa E (dma_h2fp d)))), (hw_addr d + 968, big_endian (lo32 (req ! 0)))]\<rparr>"
  have "live ?s2 d" "gpchnl_drv ?s2 \<noteq> None" "\<not> flag ?s2" "events ?s2 = Interrupts n m # es" using assms by simp_all
  from start_and_wait_run [OF this assms(6), of "lo32 (req ! 2)"] obtain s' where
    "start_and_wait (lo32 (req ! 2)) ?s2 = (Inr (), s')" "\<not> flag s'" "kmem s' = m (kmem ?s2)" "events s' = es"
    "writes s' = writes ?s2 @ [(hw_addr d + 984, big_endian (lo32 (req ! 2))), (hw_addr d + 1020, big_endian 0xffffffff)]
      @ replicate n (hw_addr d + 8, 0xffffffff)" by blast
  moreover have "dma_h2f E req s = andThen (start_and_wait (lo32 (req ! 2))) (ret 0) ?s2"
    using assms(1,3) by (simp add: dma_h2f_def andThen_def bind_def the_dev_run copy_from_user_run h2f_readable_def
        h2f_bytes_def write_address_run writel_run)
  ultimately show ?thesis by (simp add: andThen_def bind_def)
qed

section \<open>Properties\<close>

text \<open>
  The byte swap applied to what is written to the device is its own inverse and reverses the
  four bytes.
\<close>

theorem big_endian_reverses:
  "big_endian (big_endian x) = x \<and> le_bytes 4 (big_endian x) = rev (le_bytes 4 x)"
proof
  show "big_endian (big_endian x) = x"
    by (rule bit_word_eqI) (auto simp: bit_big_endian)
  have "(ucast (drop_bit k (big_endian x)) :: u8) = ucast (drop_bit j x)"
    if "(k, j) = (0, 24) \<or> (k, j) = (8, 16) \<or> (k, j) = (16, 8) \<or> (k, j) = (24, 0)" for k j
    using that by (elim disjE) (auto intro!: bit_word_eqI simp: bit_low_byte bit_drop_bit_eq bit_big_endian)
  from this [of 0 24] this [of 8 16] this [of 16 8] this [of 24 0]
  show "le_bytes 4 (big_endian x) = rev (le_bytes 4 x)"
    by (simp add: le_bytes_def upt_rec)
qed

text \<open>
  C23. A transfer to the device whose data can be read copies the user's bytes to the host buffer,
  then tells the device the buffer's bus address, the length and the loop count in byte-swapped
  registers and starts it; after an odd number of interrupts it returns 0, with the flag clear for
  the next transfer.
\<close>

theorem dma_h2f_done:
  assumes "live s d" "gpchnl_drv s \<noteq> None" "h2f_readable s req" "\<not> flag s"
    and "events s = Interrupts n m # es" "odd n"
  shows "\<exists>s'. dma_h2f E req s = (Inr 0, s') \<and> \<not> flag s' \<and> events s' = es \<and>
    kmem s' = m (mem_store (dma_h2fp d) (h2f_bytes s req) (kmem s)) \<and>
    writes s' = writes s @
      [(hw_addr d + 960, big_endian (lo32 (e_pa E (dma_h2fp d)))),
       (hw_addr d + 964, big_endian (hi32 (e_pa E (dma_h2fp d)))),
       (hw_addr d + 968, big_endian (lo32 (req ! 0))),
       (hw_addr d + 984, big_endian (lo32 (req ! 2))),
       (hw_addr d + 1020, big_endian 0xffffffff)] @ replicate n (hw_addr d + 8, 0xffffffff)"
  using assms by (rule dma_h2f_run)

lemma dma_h2f_done_witness:
  "\<exists>s'. dma_h2f penv0 [2, 0x7000, 1] (pchnl_probed\<lparr>events := [Interrupts 1 (\<lambda>m. m)]\<rparr>) = (Inr 0, s')
     \<and> kmem s' 0x10000001 = 5 \<and> length (writes s') = 6"
proof -
  let ?s = "pchnl_probed\<lparr>events := [Interrupts 1 (\<lambda>m. m)]\<rparr>" and ?r = "[2, 0x7000, 1] :: pchnl_req"
  have b: "h2f_bytes ?s ?r = [5, 5]"
    by (simp add: h2f_bytes_def lo32_def pchnl_probed_example user_bytes_const) (simp add: numeral_2_eq_2)
  have "h2f_readable ?s ?r" unfolding h2f_readable_def b by (simp add: lo32_def)
  from dma_h2f_done [OF _ _ this, of _ 1 "\<lambda>m. m" "[]" penv0] pchnl_probed_example(2-4,6) show ?thesis
    unfolding b by (fastforce simp: mem_store_def)
qed

text \<open>
  The length of a transfer is not compared with the 4 MB of the host buffer: a longer one
  writes the user's bytes to the memory behind the buffer, a shorter one changes only the buffer.
\<close>

theorem h2f_overruns_buffer:
  assumes "live s d" "gpchnl_drv s \<noteq> None" "h2f_readable s req" "\<not> flag s"
    and "events s = Interrupts n (\<lambda>m. m) # es" "odd n"
  shows "if unat (lo32 (req ! 0)) \<le> BUF_SIZE
    then \<forall>x. BUF_SIZE \<le> unat (x - dma_h2fp d) \<longrightarrow> kmem (snd (dma_h2f E req s)) x = kmem s x
    else kmem (snd (dma_h2f E req s)) (dma_h2fp d + of_nat BUF_SIZE) = h2f_bytes s req ! BUF_SIZE"
proof -
  have k: "kmem (snd (dma_h2f E req s)) = mem_store (dma_h2fp d) (h2f_bytes s req) (kmem s)"
    using dma_h2f_run [OF assms, of E] by fastforce
  have l: "length (h2f_bytes s req) = unat (lo32 (req ! 0))" using assms(3) by (simp add: h2f_readable_def)
  have "unat (lo32 (req ! 0)) \<le> 2 ^ 32" using unsigned_less [of "lo32 (req ! 0)", where 'a = nat] by simp
  then show ?thesis
    using mem_store_inside [of BUF_SIZE "h2f_bytes s req" "dma_h2fp d" "kmem s"] l
    by (auto simp: k mem_store_outside)
qed


lemma h2f_overruns_buffer_witness:
  "kmem (snd (dma_h2f penv0 [2, 0x7000, 1] (pchnl_probed\<lparr>events := [Interrupts 1 (\<lambda>m. m)]\<rparr>))) 0x10400000 =
     kmem pchnl_probed 0x10400000"
proof -
  let ?s = "pchnl_probed\<lparr>events := [Interrupts 1 (\<lambda>m. m)]\<rparr>" and ?r = "[2, 0x7000, 1] :: pchnl_req"
  have "h2f_readable ?s ?r"
    by (simp add: h2f_readable_def h2f_bytes_def pchnl_probed_example user_bytes_const)
  from h2f_overruns_buffer [OF _ _ this, of _ 1 "[]" penv0] pchnl_probed_example(2-4) show ?thesis
    by (fastforce simp: BUF_SIZE_def lo32_def)
qed

text \<open>
  Every interrupt flips the flag. A process that waits and is not looked at again before
  \<^term>\<open>n\<close> interrupts have been handled goes on exactly when \<^term>\<open>n\<close> is odd: two interrupts in a row
  are lost and, with nothing further, it sleeps for ever.
\<close>

theorem wait_ends_when_odd:
  assumes "live s d" "gpchnl_drv s \<noteq> None" "\<not> flag s" "events s = [Interrupts n m]"
  shows "fst (wait_flag s) = (if odd n then Inr () else Inl Asleep)"
  using wait_flag_odd [OF assms(1-4)] wait_flag_even [OF assms] by auto

lemma wait_ends_when_odd_witness:
  "fst (wait_flag (pchnl_probed\<lparr>events := [Interrupts 2 (\<lambda>m. m)]\<rparr>)) = Inl Asleep"
  using wait_ends_when_odd [of "pchnl_probed\<lparr>events := [Interrupts 2 (\<lambda>m. m)]\<rparr>" _ 2 "\<lambda>m. m"]
    pchnl_probed_example(2-4) by fastforce

text \<open>
  A probe that cannot allocate a buffer fails with \<^verbatim>\<open>-ENOMEM\<close> and frees the device object,
  but leaves the interrupt handler registered for it: the next interrupt follows the global
  pointer to freed memory.
\<close>

theorem failed_probe_keeps_irq:
  assumes "e_enable E = 0" "e_mask64 E = 0" "e_request_regions E = 0" "e_dev_alloc E" "e_ioremap E \<noteq> 0"
    and "e_irq E = 0" "e_page1 E = 0 \<or> e_page2 E = 0"
  shows "\<exists>s'. pchnl_probe E pd s = (Inr (- p_ENOMEM), s') \<and> (pd, allocs s) \<in> irqs s' \<and>
    dev_heap s' (allocs s) = None \<and> fst (pchnl_intr s') = Inl Use_After_Free"
  using assms
  by (cases "e_page1 E = 0")
    (simp_all add: pchnl_run_defs pchnl_intr_def writel_def the_dev_def)

lemma failed_probe_keeps_irq_witness:
  "\<exists>s'. pchnl_probe (penv0\<lparr>e_page2 := 0\<rparr>) 0 pchnl_loaded = (Inr (- p_ENOMEM), s') \<and>
     fst (pchnl_intr s') = Inl Use_After_Free"
  using failed_probe_keeps_irq [of "penv0\<lparr>e_page2 := 0\<rparr>" 0 pchnl_loaded] by (auto simp: penv0_def)

definition grants :: "penv \<Rightarrow> bool" where
  "grants E \<longleftrightarrow> e_enable E = 0 \<and> (e_mask64 E = 0 \<or> e_mask32 E = 0) \<and> e_request_regions E = 0 \<and> e_dev_alloc E \<and>
     e_ioremap E \<noteq> 0 \<and> e_irq E = 0 \<and> e_page1 E \<noteq> 0 \<and> e_page2 E \<noteq> 0"

definition probed_device :: "penv \<Rightarrow> nat \<Rightarrow> pchnl_device" where
  "probed_device E pd = \<lparr>pdev = pd, hw_addr = e_ioremap E, io_base = e_io_base E, dma_h2fp = e_page_address E (e_page1 E),
     h2f_pg_base = e_page1 E, f2h_pg_base = e_page2 E, dma_f2hp = e_page_address E (e_page2 E)\<rparr>"

lemma probe_grants:
  assumes "grants E"
  obtains s' where "pchnl_probe E pd s = (Inr 0, s')" "gpchnl_dev s' = Some (allocs s)"
    "drvdata s' = (drvdata s)(pd \<mapsto> allocs s)" "dev_heap s' = (dev_heap s)(allocs s \<mapsto> probed_device E pd)"
    "enabled s' = insert pd (enabled s)" "regions s' = insert pd (regions s)"
    "iomapped s' = insert (e_ioremap E) (iomapped s)" "irqs s' = insert (pd, allocs s) (irqs s)"
    "pages s' = insert (e_page2 E) (insert (e_page1 E) (pages s))"
  using assms by (auto simp: grants_def pchnl_run_defs probed_device_def)

lemma probe_succeeds_only: "pchnl_probe E pd s = (Inr 0, s') \<Longrightarrow> grants E"
  by (auto simp: grants_def pchnl_run_defs split: if_splits)

lemma pchnl_remove_run:
  assumes "drvdata s pd = Some a" "dev_heap s a = Some d"
  obtains s' where "pchnl_remove pd s = (Inr (), s')" "gpchnl_dev s' = gpchnl_dev s" "enabled s' = enabled s"
    "dev_heap s' = (dev_heap s)(a := None)" "regions s' = regions s - {pd}" "iomapped s' = iomapped s - {hw_addr d}"
    "irqs s' = irqs s - {(pdev d, a)}" "pages s' = pages s - {h2f_pg_base d, f2h_pg_base d}"
  using assms by (auto simp: pchnl_remove_def pchnl_run_defs)

lemma dangling_run:
  assumes "gpchnl_dev s = Some a" "dev_heap s a = None"
  shows "fst (pchnl_ioctl E junk PCHNL_RESET 0 s) = Inl Use_After_Free"
    and "fst (pchnl_read E buf count s) = Inl Use_After_Free" and "fst (pchnl_intr s) = Inl Use_After_Free"
proof -
  have d: "the_dev s = (Inl Use_After_Free, s)" using assms by (simp add: the_dev_def)
  have "PCHNL_RESET \<noteq> PCHNL_CSR_READ \<and> PCHNL_RESET \<noteq> PCHNL_CSR_WRITE \<and> PCHNL_RESET \<noteq> PCHNL_CSR_TESTER \<and>
    PCHNL_RESET \<noteq> PCHNL_SYS_CSR_WRITE \<and> PCHNL_RESET \<noteq> PCHNL_SYS_CSR_READ \<and> PCHNL_RESET \<noteq> PCHNL_INTR_TESTER \<and>
    PCHNL_RESET \<noteq> PCHNL_DMA_H2F \<and> PCHNL_RESET \<noteq> PCHNL_DMA_F2H \<and> PCHNL_RESET \<noteq> PCHNL_SET_INTR_REG \<and>
    PCHNL_RESET \<noteq> PCHNL_DMA_DUPLEX"
    by (simp add: PCHNL_RESET_def PCHNL_CSR_READ_def PCHNL_CSR_WRITE_def PCHNL_CSR_TESTER_def PCHNL_SYS_CSR_WRITE_def
        PCHNL_SYS_CSR_READ_def PCHNL_INTR_TESTER_def PCHNL_DMA_H2F_def PCHNL_DMA_F2H_def PCHNL_SET_INTR_REG_def
        PCHNL_DMA_DUPLEX_def pchnl_ior_def pchnl_iow_def)
  with d show "fst (pchnl_ioctl E junk PCHNL_RESET 0 s) = Inl Use_After_Free"
    by (simp add: pchnl_ioctl_def fetch_req_def pchnl_command_def writel_def andThen_def bind_def)
  show "fst (pchnl_read E buf count s) = Inl Use_After_Free" using d by (simp add: pchnl_read_def bind_def)
  show "fst (pchnl_intr s) = Inl Use_After_Free" using d by (simp add: pchnl_intr_def writel_def andThen_def bind_def)
qed

definition fresh_for :: "penv \<Rightarrow> nat \<Rightarrow> pchnl \<Rightarrow> bool" where
  "fresh_for E pd s \<longleftrightarrow> pd \<notin> regions s \<and> e_ioremap E \<notin> iomapped s \<and> e_page1 E \<notin> pages s \<and> e_page2 E \<notin> pages s \<and>
     dev_heap s (allocs s) = None \<and> (pd, allocs s) \<notin> irqs s"

text \<open>
  Removing a device that was probed gives back its pages, mapping, interrupt, regions and
  object, but not the enabling of the device, and the global pointer keeps pointing at the freed
  object: commands, reading and interrupts then use freed memory.
\<close>

theorem probe_then_remove:
  assumes "pchnl_probe E pd s = (Inr 0, s1)" "fresh_for E pd s"
  shows "\<exists>s2. pchnl_remove pd s1 = (Inr (), s2) \<and> regions s2 = regions s \<and> iomapped s2 = iomapped s \<and>
    pages s2 = pages s \<and> irqs s2 = irqs s \<and> dev_heap s2 = dev_heap s \<and> enabled s2 = insert pd (enabled s) \<and>
    fst (pchnl_ioctl E' junk PCHNL_RESET 0 s2) = Inl Use_After_Free \<and>
    fst (pchnl_read E' buf count s2) = Inl Use_After_Free \<and> fst (pchnl_intr s2) = Inl Use_After_Free"
proof -
  have g: "grants E" using assms(1) by (rule probe_succeeds_only)
  let ?a = "allocs s"
  from g obtain t where t: "pchnl_probe E pd s = (Inr 0, t)" "gpchnl_dev t = Some ?a"
    "drvdata t = (drvdata s)(pd \<mapsto> ?a)" "dev_heap t = (dev_heap s)(?a \<mapsto> probed_device E pd)"
    "enabled t = insert pd (enabled s)" "regions t = insert pd (regions s)"
    "iomapped t = insert (e_ioremap E) (iomapped s)" "irqs t = insert (pd, ?a) (irqs s)"
    "pages t = insert (e_page2 E) (insert (e_page1 E) (pages s))"
    by (rule probe_grants)
  have ts: "t = s1" using t(1) assms(1) by simp
  have "drvdata t pd = Some ?a" "dev_heap t ?a = Some (probed_device E pd)" using t(3,4) by simp_all
  then obtain s2 where 2: "pchnl_remove pd t = (Inr (), s2)" "gpchnl_dev s2 = gpchnl_dev t" "enabled s2 = enabled t"
    "dev_heap s2 = (dev_heap t)(?a := None)" "regions s2 = regions t - {pd}"
    "iomapped s2 = iomapped t - {hw_addr (probed_device E pd)}"
    "irqs s2 = irqs t - {(pdev (probed_device E pd), ?a)}"
    "pages s2 = pages t - {h2f_pg_base (probed_device E pd), f2h_pg_base (probed_device E pd)}"
    by (rule pchnl_remove_run)
  have "gpchnl_dev s2 = Some ?a" "dev_heap s2 ?a = None" using 2(2,4) t(2) by simp_all
  note d = dangling_run [OF this]
  have "regions s2 = regions s \<and> iomapped s2 = iomapped s \<and> pages s2 = pages s \<and> irqs s2 = irqs s \<and>
      dev_heap s2 = dev_heap s"
    using 2(4-8) t(4,6-9) assms(2) by (auto simp: fresh_for_def probed_device_def)
  with 2(1,3) t(5) d ts show ?thesis by auto
qed

lemma probe_then_remove_witness:
  "\<exists>s2. pchnl_remove 0 pchnl_probed = (Inr (), s2) \<and> irqs s2 = {} \<and> fst (pchnl_intr s2) = Inl Use_After_Free"
proof -
  have "fresh_for penv0 0 pchnl_loaded" "irqs pchnl_loaded = {}"
    by (simp_all add: fresh_for_def pchnl_loaded_def pchnl_run_defs penv0_def pchnl_boot_def)
  with probe_then_remove [OF pchnl_probed_example(1)] show ?thesis by fastforce
qed

end
