(* ===== verification/Unix_Pipe.thy ===== *)
theory Unix_Pipe
  imports Leap_Prelude
begin

text \<open>
  \<^verbatim>\<open>unix-pipe-device-bdpi.c\<close> and its header: the simulator's pair of named pipes to the host.
  Channels are slots of a fixed table whose free ones form a circular doubly linked list;
  reads and writes move chunks of \<^verbatim>\<open>UMF_CHUNK_BYTES\<close>, a constant of another package and here the
  argument \<^term>\<open>K\<close>. Debug output and the messages before an exit are not modelled.
\<close>

section \<open>State\<close>

record channel =
  is_open :: bool
  tableIndex :: nat
  inputBuffer :: "u8 list"
  ibHead :: nat
  ibTail :: nat
  prv :: "nat option"
  nxt :: "nat option"

text \<open>
  The static variables; the descriptors the process has open with their status flags; the bytes
  the host has written that were not read yet, and those written to the host.
\<close>

record pipes =
  OCHT :: "channel list"
  freeList :: "nat option"
  initialized :: bool
  need_reset :: bool
  persistent :: bool
  inputFileName :: string
  outputFileName :: string
  DESC_HOST_2_FPGA :: int
  DESC_FPGA_2_HOST :: int
  open_fds :: "int set"
  fd_flags :: "int \<Rightarrow> u32"
  incoming :: "u8 list"
  outgoing :: "u8 list"

text \<open>What the system calls of one operation answer.\<close>

record os_answers =
  o_open_in :: int
  o_open_out :: int
  o_mkdir_ok :: bool
  o_mkdir_exists :: bool
  o_select :: int
  o_eintr :: bool
  o_isset :: bool
  o_read :: int
  o_write :: int

text \<open>A failed assertion, a call of \<^verbatim>\<open>exit\<close>, a NULL pointer.\<close>

datatype sim_stop = Assertion | Exit int | Null_Pointer

type_synonym 'a sim = "(pipes, sim_stop, 'a) prog"

definition MAX_OPEN_CHANNELS :: nat where "MAX_OPEN_CHANNELS = 32"
definition PIPE_NULL :: u8 where "PIPE_NULL = 1"

definition O_RDONLY :: u32 where "O_RDONLY = 0"
definition O_WRONLY :: u32 where "O_WRONLY = 1"
definition O_NONBLOCK :: u32 where "O_NONBLOCK = 2048"

definition assertion :: "bool \<Rightarrow> unit sim" where
  "assertion b = (if b then ret () else raise Assertion)"

definition set_channel :: "nat \<Rightarrow> (channel \<Rightarrow> channel) \<Rightarrow> unit sim" where
  "set_channel i f = modify (\<lambda>s. s\<lparr>OCHT := (OCHT s)[i := f (OCHT s ! i)]\<rparr>)"

definition look :: "(pipes \<Rightarrow> 'a) \<Rightarrow> 'a sim" where
  "look f = (\<lambda>s. (Inr (f s), s))"

lemma look_run [simp]: "look f s = (Inr (f s), s)"
  by (simp add: look_def)

text \<open>Following a link of the list.\<close>

definition deref :: "nat option \<Rightarrow> nat sim" where
  "deref p = (case p of None \<Rightarrow> raise Null_Pointer | Some i \<Rightarrow> ret i)"

definition next_of :: "nat \<Rightarrow> nat option sim" where
  "next_of i = look (\<lambda>s. nxt (OCHT s ! i))"

definition prev_of :: "nat \<Rightarrow> nat option sim" where
  "prev_of i = look (\<lambda>s. prv (OCHT s ! i))"

section \<open>Opening the pipes\<close>

text \<open>Opened without blocking, then the flag is flipped back.\<close>

definition open_channel :: "int \<Rightarrow> u32 \<Rightarrow> (int \<Rightarrow> pipes \<Rightarrow> pipes) \<Rightarrow> int sim" where
  "open_channel answer flags store =
     andThen (modify (store answer))
     (andThen (if 0 \<le> answer then
         andThen (modify (\<lambda>s. s\<lparr>open_fds := insert answer (open_fds s),
             fd_flags := (fd_flags s)(answer := flags OR O_NONBLOCK)\<rparr>))
           (modify (\<lambda>s. s\<lparr>fd_flags := (fd_flags s)(answer := fd_flags s answer XOR O_NONBLOCK)\<rparr>))
       else ret ())
     (ret answer))"

definition open_input :: "os_answers \<Rightarrow> int sim" where
  "open_input A = open_channel (o_open_in A) O_RDONLY (\<lambda>d s. s\<lparr>DESC_HOST_2_FPGA := d\<rparr>)"

definition open_output :: "os_answers \<Rightarrow> int sim" where
  "open_output A = open_channel (o_open_out A) O_WRONLY (\<lambda>d s. s\<lparr>DESC_FPGA_2_HOST := d\<rparr>)"

definition zero_channel :: "nat \<Rightarrow> channel" where
  "zero_channel K = \<lparr>is_open = False, tableIndex = 0, inputBuffer = replicate K 0, ibHead = 0, ibTail = 0,
     prv = None, nxt = None\<rparr>"

definition init_channel :: "nat \<Rightarrow> nat \<Rightarrow> channel" where
  "init_channel K i =
     (if i = 0 then (zero_channel K)\<lparr>prv := Some (MAX_OPEN_CHANNELS - 1), nxt := Some 1\<rparr>
      else if i < MAX_OPEN_CHANNELS - 1 then (zero_channel K)\<lparr>tableIndex := i, prv := Some (i - 1), nxt := Some (i + 1)\<rparr>
      else (zero_channel K)\<lparr>prv := Some (MAX_OPEN_CHANNELS - 2), nxt := Some 0\<rparr>)"

definition comm_directory :: "string option \<Rightarrow> string" where
  "comm_directory dir = (case dir of Some d \<Rightarrow> d @ ''/pipes/'' | None \<Rightarrow> ''/pipes/'')"

definition pipe_init :: "nat \<Rightarrow> os_answers \<Rightarrow> string option \<Rightarrow> string \<Rightarrow> unit sim" where
  "pipe_init K A executionDirectory platformID = bind (look initialized) (\<lambda>already.
     if already then ret ()
     else
       andThen (modify (\<lambda>s. s\<lparr>OCHT := map (init_channel K) [0..<MAX_OPEN_CHANNELS], freeList := Some 0\<rparr>))
       (if \<not> o_mkdir_ok A \<and> \<not> o_mkdir_exists A then raise (Exit 1)
        else
          (let dir = comm_directory executionDirectory in
           andThen (modify (\<lambda>s. s\<lparr>inputFileName := dir @ platformID @ ''_TO'',
               outputFileName := dir @ platformID @ ''_FROM''\<rparr>))
           (andThen (open_output A)
           (andThen (open_input A) (modify (\<lambda>s. s\<lparr>initialized := True\<rparr>)))))))"

definition pipe_receive_reset :: "pipes \<Rightarrow> bool" where
  "pipe_receive_reset s = need_reset s"

definition pipe_clear_reset :: "unit sim" where
  "pipe_clear_reset = modify (\<lambda>s. s\<lparr>need_reset := False\<rparr>)"

section \<open>Channels\<close>

text \<open>Takes the first channel off the list.\<close>

definition unlink_free :: "nat \<Rightarrow> unit sim" where
  "unlink_free c =
     bind (next_of c) (\<lambda>n.
     if n = Some c then
       bind (prev_of c) (\<lambda>p. andThen (assertion (p = Some c)) (modify (\<lambda>s. s\<lparr>freeList := None\<rparr>)))
     else
       bind (prev_of c) (\<lambda>p. bind (deref p) (\<lambda>pi.
       andThen (set_channel pi (\<lambda>ch. ch\<lparr>nxt := n\<rparr>))
       (bind (next_of c) (\<lambda>n. bind (deref n) (\<lambda>ni. bind (prev_of c) (\<lambda>p.
       andThen (set_channel ni (\<lambda>ch. ch\<lparr>prv := p\<rparr>))
       (bind (next_of c) (\<lambda>n. modify (\<lambda>s. s\<lparr>freeList := n\<rparr>))))))))))"

definition pipe_open :: "u8 \<Rightarrow> u8 sim" where
  "pipe_open serviceID = bind (look freeList) (\<lambda>free. case free of
       None \<Rightarrow> raise (Exit 1)
     | Some c \<Rightarrow>
         andThen (unlink_free c)
         (bind (look (\<lambda>s. is_open (OCHT s ! c))) (\<lambda>opn.
         andThen (assertion (\<not> opn))
         (andThen (set_channel c (\<lambda>ch. ch\<lparr>is_open := True, ibHead := 0, ibTail := 0\<rparr>))
         (look (\<lambda>s. of_nat (tableIndex (OCHT s ! c))))))))"

section \<open>Reading\<close>

text \<open>
  The result is an array of 32-bit words, here its bytes: the chunk is copied to its start, the
  fifth word tells whether there was one.
\<close>

definition set_flag :: "u8 \<Rightarrow> u8 list \<Rightarrow> u8 list" where
  "set_flag v res = take 16 res @ [v, 0, 0, 0] @ drop 20 res"

definition put_chunk :: "u8 list \<Rightarrow> u8 list \<Rightarrow> u8 list" where
  "put_chunk bs res = bs @ drop (length bs) res"

text \<open>A select on one descriptor: -1 with an error that is not an interruption when it is closed.\<close>

definition select_one :: "int \<Rightarrow> os_answers \<Rightarrow> int sim" where
  "select_one fd A = (\<lambda>s.
     if fd \<notin> open_fds s then (Inl (Exit 1), s)
     else if o_select A = - 1 then (if o_eintr A then (Inr 0, s) else (Inl (Exit 1), s))
     else (Inr (o_select A), s))"

text \<open>At most the requested number of bytes; none at the end of the stream.\<close>

definition read_bytes :: "os_answers \<Rightarrow> nat \<Rightarrow> (u8 list option) sim" where
  "read_bytes A requested = (\<lambda>s.
     if o_read A = - 1 then (Inr None, s)
     else let n = min (nat (o_read A)) requested in
       (Inr (Some (take n (incoming s))), s\<lparr>incoming := drop n (incoming s)\<rparr>))"

definition end_of_stream :: "unit sim" where
  "end_of_stream = (\<lambda>s.
     if persistent s then
       (Inr (), s\<lparr>open_fds := open_fds s - {DESC_HOST_2_FPGA s, DESC_FPGA_2_HOST s}, initialized := False,
          need_reset := True\<rparr>)
     else (Inl (Exit 0), s))"

definition fill_buffer :: "nat \<Rightarrow> os_answers \<Rightarrow> nat \<Rightarrow> unit sim" where
  "fill_buffer K A h = bind (look DESC_HOST_2_FPGA) (\<lambda>fd.
     bind (select_one fd A) (\<lambda>available.
       if available = 0 then ret ()
       else if available \<noteq> 1 \<or> \<not> o_isset A then raise (Exit 1)
       else bind (look (\<lambda>s. ibTail (OCHT s ! h))) (\<lambda>tail.
         bind (read_bytes A (K - tail)) (\<lambda>r. case r of
             None \<Rightarrow> raise (Exit 1)
           | Some bs \<Rightarrow>
               andThen (set_channel h (\<lambda>ch. ch\<lparr>inputBuffer := take tail (inputBuffer ch) @ bs
                   @ drop (tail + length bs) (inputBuffer ch)\<rparr>))
               (andThen (if bs = [] then end_of_stream else ret ())
                 (set_channel h (\<lambda>ch. ch\<lparr>ibTail := ibTail ch + length bs\<rparr>)))))))"

definition take_chunk :: "nat \<Rightarrow> nat \<Rightarrow> u8 list \<Rightarrow> (u8 list) sim" where
  "take_chunk K h res = (\<lambda>s. let ch = OCHT s ! h in
     if K + ibHead ch \<le> ibTail ch then
       andThen (set_channel h (\<lambda>ch. if ibHead ch + K = ibTail ch then ch\<lparr>ibHead := 0, ibTail := 0\<rparr>
           else ch\<lparr>ibHead := ibHead ch + K\<rparr>))
         (ret (set_flag 0 (put_chunk (take K (drop (ibHead ch) (inputBuffer ch))) res))) s
     else (Inr (set_flag PIPE_NULL res), s))"

definition pipe_read :: "nat \<Rightarrow> os_answers \<Rightarrow> u8 list \<Rightarrow> u8 \<Rightarrow> (u8 list) sim" where
  "pipe_read K A res handle = bind (look DESC_HOST_2_FPGA) (\<lambda>fd.
     bind (if fd < 0 then open_input A else ret 0) (\<lambda>d.
     if d < 0 then ret (set_flag PIPE_NULL res)
     else
       andThen (assertion (unat handle < MAX_OPEN_CHANNELS))
       (bind (look (\<lambda>s. OCHT s ! unat handle)) (\<lambda>ch.
         andThen (assertion (is_open ch))
         (andThen (if ibTail ch < K then fill_buffer K A (unat handle) else ret ())
           (take_chunk K (unat handle) res))))))"

section \<open>Writing\<close>

definition pipe_can_write :: "os_answers \<Rightarrow> u8 \<Rightarrow> bool sim" where
  "pipe_can_write A handle = bind (look DESC_FPGA_2_HOST) (\<lambda>fd.
     bind (if fd < 0 then open_output A else ret 0) (\<lambda>d.
     if d < 0 then ret False
     else
       andThen (assertion (unat handle < MAX_OPEN_CHANNELS))
       (bind (look (\<lambda>s. is_open (OCHT s ! unat handle))) (\<lambda>opn.
         if \<not> opn then ret False
         else bind (look DESC_FPGA_2_HOST) (\<lambda>fd. bind (select_one fd A) (\<lambda>space. ret (space \<noteq> 0)))))))"

text \<open>A write on a closed descriptor fails.\<close>

definition write_bytes :: "os_answers \<Rightarrow> u8 list \<Rightarrow> int sim" where
  "write_bytes A data = (\<lambda>s.
     if DESC_FPGA_2_HOST s \<notin> open_fds s \<or> o_write A < 0 then (Inr (- 1), s)
     else let n = min (nat (o_write A)) (length data) in
       (Inr (int n), s\<lparr>outgoing := outgoing s @ take n data\<rparr>))"

definition pipe_write :: "nat \<Rightarrow> os_answers \<Rightarrow> u8 \<Rightarrow> u8 list \<Rightarrow> unit sim" where
  "pipe_write K A handle data = bind (look initialized) (\<lambda>ready.
     if \<not> ready then raise (Exit 1)
     else
       andThen (assertion (unat handle < MAX_OPEN_CHANNELS))
       (bind (look (\<lambda>s. is_open (OCHT s ! unat handle))) (\<lambda>opn.
         andThen (assertion opn)
         (bind (write_bytes A (take K data)) (\<lambda>n.
           if n = - 1 then raise (Exit 1) else if n < int K then raise (Exit 1) else ret ())))))"


section \<open>Reading keeps the stream\<close>

lemmas sim_defs = andThen_def bind_def Let_def assertion_def

lemma open_channel_run:
  "open_channel a flags store s = (Inr a, if 0 \<le> a
     then (store a s)\<lparr>open_fds := insert a (open_fds (store a s)),
       fd_flags := (fd_flags (store a s))(a := (flags OR O_NONBLOCK) XOR O_NONBLOCK)\<rparr>
     else store a s)"
  by (simp add: open_channel_def andThen_def bind_def)

definition chan_ok :: "nat \<Rightarrow> pipes \<Rightarrow> nat \<Rightarrow> bool" where
  "chan_ok K s h \<longleftrightarrow> h < MAX_OPEN_CHANNELS \<and> length (OCHT s) = MAX_OPEN_CHANNELS \<and> is_open (OCHT s ! h) \<and>
     ibHead (OCHT s ! h) = 0 \<and> ibTail (OCHT s ! h) < K \<and> length (inputBuffer (OCHT s ! h)) = K"

text \<open>The bytes of an unfinished chunk.\<close>

definition pending :: "pipes \<Rightarrow> nat \<Rightarrow> u8 list" where
  "pending s h = take (ibTail (OCHT s ! h)) (inputBuffer (OCHT s ! h))"

lemma select_one_run:
  "select_one fd A s = (Inr n, s') \<Longrightarrow> s' = s \<and> fd \<in> open_fds s"
  by (auto simp: select_one_def split: if_splits)

text \<open>Filling the buffer moves bytes from the stream behind the pending ones.\<close>

definition filled :: "nat \<Rightarrow> nat \<Rightarrow> nat \<Rightarrow> pipes \<Rightarrow> pipes" where
  "filled K h n s = (let ch = OCHT s ! h; bs = take n (incoming s) in
     s\<lparr>OCHT := (OCHT s)[h := ch\<lparr>inputBuffer := take (ibTail ch) (inputBuffer ch) @ bs
         @ drop (ibTail ch + length bs) (inputBuffer ch), ibTail := ibTail ch + length bs\<rparr>],
       incoming := drop n (incoming s)\<rparr>)"

lemma set_channel_run [simp]: "set_channel i f s = (Inr (), s\<lparr>OCHT := (OCHT s)[i := f (OCHT s ! i)]\<rparr>)"
  by (simp add: set_channel_def)

lemma fill_read:
  assumes "h < length (OCHT s)" "DESC_HOST_2_FPGA s \<in> open_fds s" "o_select A = 1" "o_isset A" "o_read A \<noteq> - 1"
    and "take (min (nat (o_read A)) (K - ibTail (OCHT s ! h))) (incoming s) = bs"
  shows "fill_buffer K A h s =
    (if bs = [] then andThen end_of_stream (set_channel h (\<lambda>ch. ch\<lparr>ibTail := ibTail ch + length bs\<rparr>))
         (s\<lparr>incoming := drop (min (nat (o_read A)) (K - ibTail (OCHT s ! h))) (incoming s)\<rparr>)
     else (Inr (), filled K h (min (nat (o_read A)) (K - ibTail (OCHT s ! h))) s))"
proof -
  let ?n = "min (nat (o_read A)) (K - ibTail (OCHT s ! h))"
  let ?s1 = "s\<lparr>incoming := drop ?n (incoming s)\<rparr>"
  have r: "read_bytes A (K - ibTail (OCHT s ! h)) s = (Inr (Some bs), ?s1)"
    unfolding assms(6) [symmetric] using assms(5) by (simp add: read_bytes_def Let_def)
  have sel: "select_one (DESC_HOST_2_FPGA s) A s = (Inr 1, s)" using assms(2,3) by (simp add: select_one_def)
  show ?thesis
  proof (cases "bs = []")
    case True
    with r sel assms(4) show ?thesis
      by (simp add: fill_buffer_def andThen_def bind_def Let_def split: prod.split sum.split)
  next
    case False
    with r sel assms(1,4) show ?thesis
      unfolding filled_def assms(6) by (simp add: fill_buffer_def andThen_def bind_def Let_def)
  qed
qed

lemma end_of_stream_exits: "\<not> persistent s \<Longrightarrow> andThen end_of_stream p s = (Inl (Exit 0), s)"
  by (simp add: end_of_stream_def andThen_def bind_def)

lemma fill_buffer_run:
  assumes "chan_ok K s h" "\<not> persistent s" "fill_buffer K A h s = (Inr (), s')"
  shows "s' = s \<or> (\<exists>n. n \<le> K - ibTail (OCHT s ! h) \<and> s' = filled K h n s)"
proof -
  have h: "h < length (OCHT s)" using assms(1) by (simp add: chan_ok_def)
  obtain av where av: "select_one (DESC_HOST_2_FPGA s) A s = (Inr av, s)"
    using assms(3) select_one_run by (cases "select_one (DESC_HOST_2_FPGA s) A s"; cases "fst (select_one (DESC_HOST_2_FPGA s) A s)")
      (fastforce simp: fill_buffer_def bind_def)+
  show ?thesis
  proof (cases "av = 0")
    case True
    with assms(3) av show ?thesis by (simp add: fill_buffer_def bind_def)
  next
    case False
    with assms(3) av have 1: "av = 1" "o_isset A" "o_read A \<noteq> - 1"
      by (auto simp: fill_buffer_def bind_def read_bytes_def Let_def split: if_splits)
    with av False have "o_select A = 1" "DESC_HOST_2_FPGA s \<in> open_fds s"
      by (auto simp: select_one_def split: if_splits)
    note run = fill_read [OF h this(2,1) 1(2,3) refl]
    have "s' = filled K h (min (nat (o_read A)) (K - ibTail (OCHT s ! h))) s"
      using assms(2,3) unfolding run by (auto simp: end_of_stream_exits split: if_splits)
    then show ?thesis using min.cobounded2 by blast
  qed
qed

lemma filled_facts:
  assumes "chan_ok K s h" "n \<le> K - ibTail (OCHT s ! h)"
  defines "s' \<equiv> filled K h n s"
  shows "ibHead (OCHT s' ! h) = 0" "ibTail (OCHT s' ! h) \<le> K" "length (inputBuffer (OCHT s' ! h)) = K"
    "is_open (OCHT s' ! h)" "length (OCHT s') = length (OCHT s)" "pending s' h @ incoming s' = pending s h @ incoming s"
    "persistent s' = persistent s" "\<And>j. j \<noteq> h \<Longrightarrow> OCHT s' ! j = OCHT s ! j"
    "ibTail (OCHT s' ! h) = ibTail (OCHT s ! h) + min n (length (incoming s))"
  using assms by (auto simp: filled_def chan_ok_def pending_def Let_def min_def)


lemma take_chunk_run:
  assumes "h < length (OCHT s)" "ibHead (OCHT s ! h) = 0" "ibTail (OCHT s ! h) \<le> K" "0 < K"
    "length (inputBuffer (OCHT s ! h)) = K"
  shows "take_chunk K h res s = (if ibTail (OCHT s ! h) = K
    then (Inr (set_flag 0 (put_chunk (inputBuffer (OCHT s ! h)) res)),
          s\<lparr>OCHT := (OCHT s)[h := (OCHT s ! h)\<lparr>ibHead := 0, ibTail := 0\<rparr>]\<rparr>)
    else (Inr (set_flag PIPE_NULL res), s))"
  using assms by (simp add: take_chunk_def sim_defs)

text \<open>One read on an open channel that does not stop: no chunk, or the next one of the stream.\<close>

definition same_channels :: "nat \<Rightarrow> pipes \<Rightarrow> pipes \<Rightarrow> bool" where
  "same_channels h s s' \<longleftrightarrow> persistent s' = persistent s \<and> length (OCHT s') = length (OCHT s) \<and>
     (\<forall>j. j \<noteq> h \<longrightarrow> OCHT s' ! j = OCHT s ! j)"

definition read_one :: "nat \<Rightarrow> nat \<Rightarrow> u8 list \<Rightarrow> pipes \<Rightarrow> u8 list \<Rightarrow> pipes \<Rightarrow> bool" where
  "read_one K h res s res' s' \<longleftrightarrow> chan_ok K s' h \<and> same_channels h s s' \<and>
     (\<exists>bs. pending s h @ incoming s = bs @ pending s' h @ incoming s' \<and>
       (bs = [] \<and> res' = set_flag PIPE_NULL res \<or> length bs = K \<and> res' = set_flag 0 (put_chunk bs res)))"

lemma chunk_taken:
  assumes "h < MAX_OPEN_CHANNELS" "length (OCHT s) = MAX_OPEN_CHANNELS" "is_open (OCHT s ! h)"
    "ibHead (OCHT s ! h) = 0" "ibTail (OCHT s ! h) \<le> K" "0 < K" "length (inputBuffer (OCHT s ! h)) = K"
    and "take_chunk K h res s = (Inr res', s')"
  shows "read_one K h res s res' s'"
proof -
  have h: "h < length (OCHT s)" using assms(1,2) by simp
  note run = take_chunk_run [OF h assms(4-7), of res]
  show ?thesis
  proof (cases "ibTail (OCHT s ! h) = K")
    case True
    with run assms h show ?thesis
      by (auto simp: read_one_def chan_ok_def same_channels_def pending_def intro!: exI [of _ "inputBuffer (OCHT s ! h)"])
  next
    case False
    with run assms h show ?thesis
      by (auto simp: read_one_def chan_ok_def same_channels_def)
  qed
qed

lemma read_one_chunk:
  assumes "chan_ok K s h" "\<not> persistent s" "0 < K" "pipe_read K A res (of_nat h) s = (Inr res', s')"
  shows "read_one K h res s res' s'"
proof -
  have h: "h < MAX_OPEN_CHANNELS" "unat (of_nat h :: u8) = h"
    using assms(1) by (simp_all add: chan_ok_def MAX_OPEN_CHANNELS_def unat_of_nat take_bit_eq_mod)
  have null: "read_one K h res s (set_flag PIPE_NULL res) t" if "OCHT t = OCHT s" "incoming t = incoming s" "persistent t = persistent s" for t
    using that assms(1) by (auto simp: read_one_def chan_ok_def same_channels_def pending_def)
  have body: "read_one K h res s res' s'"
    if t: "OCHT t = OCHT s" "incoming t = incoming s" "persistent t = persistent s"
      and run: "andThen (fill_buffer K A h) (take_chunk K h res) t = (Inr res', s')" for t
  proof -
    have ok: "chan_ok K t h" using assms(1) t by (simp add: chan_ok_def)
    from run obtain t1 where 1: "fill_buffer K A h t = (Inr (), t1)" "take_chunk K h res t1 = (Inr res', s')"
      by (auto elim: andThen_Inr_cases)
    have np: "\<not> persistent t" using t assms(2) by simp
    from fill_buffer_run [OF ok np 1(1)] consider (same) "t1 = t"
      | (more) n where "n \<le> K - ibTail (OCHT t ! h)" "t1 = filled K h n t" by blast
    then have "read_one K h res t1 res' s' \<and> pending t1 h @ incoming t1 = pending t h @ incoming t \<and>
      same_channels h t t1"
    proof cases
      case same
      have "read_one K h res t1 res' s'"
        by (rule chunk_taken [OF _ _ _ _ _ assms(3) _ 1(2)]) (use ok same in \<open>simp_all add: chan_ok_def\<close>)
      with same show ?thesis by (simp add: same_channels_def)
    next
      case more
      note f = filled_facts [OF ok more(1), folded more(2)]
      have "read_one K h res t1 res' s'"
        by (rule chunk_taken [OF _ _ _ _ _ assms(3) _ 1(2)]) (use f(1-5) h ok in \<open>simp_all add: chan_ok_def\<close>)
      with f(5-8) show ?thesis by (simp add: same_channels_def)
    qed
    then have r: "read_one K h res t1 res' s'" and p: "pending t1 h @ incoming t1 = pending t h @ incoming t"
      and sc: "same_channels h t t1" by blast+
    have "same_channels h s t1" using sc t by (simp add: same_channels_def)
    moreover have "pending s h @ incoming s = pending t1 h @ incoming t1" using p t by (simp add: pending_def)
    ultimately show ?thesis using r by (auto simp: read_one_def same_channels_def)
  qed
  have c: "is_open (OCHT s ! h)" "ibTail (OCHT s ! h) < K" using assms(1) by (simp_all add: chan_ok_def)
  show ?thesis
  proof (cases "DESC_HOST_2_FPGA s < 0")
    case True
    obtain d t where d: "open_input A s = (Inr d, t)" "OCHT t = OCHT s" "incoming t = incoming s" "persistent t = persistent s"
      by (simp add: open_input_def open_channel_run)
    show ?thesis
    proof (cases "d < 0")
      case True
      with d assms(4) \<open>DESC_HOST_2_FPGA s < 0\<close> null [OF d(2-4)] show ?thesis
        by (simp add: pipe_read_def bind_def)
    next
      case False
      have "is_open (OCHT t ! h)" "ibTail (OCHT t ! h) < K" using c d(2) by simp_all
      with d(1) False assms(4) \<open>DESC_HOST_2_FPGA s < 0\<close> h
      have "andThen (fill_buffer K A h) (take_chunk K h res) t = (Inr res', s')"
        by (simp add: pipe_read_def bind_def andThen_def assertion_def)
      then show ?thesis by (rule body [OF d(2-4)])
    qed
  next
    case False
    with assms(4) h c have "andThen (fill_buffer K A h) (take_chunk K h res) s = (Inr res', s')"
      by (simp add: pipe_read_def bind_def andThen_def assertion_def)
    then show ?thesis by (rule body [OF refl refl refl])
  qed
qed


text \<open>A row of reads with their results, and the chunks in them.\<close>

fun pipe_reads :: "nat \<Rightarrow> os_answers list \<Rightarrow> u8 \<Rightarrow> (u8 list list) sim" where
  "pipe_reads K [] handle = ret []"
| "pipe_reads K (A # As) handle =
     bind (pipe_read K A (replicate 20 0) handle) (\<lambda>r. bind (pipe_reads K As handle) (\<lambda>rs. ret (r # rs)))"

definition chunks :: "nat \<Rightarrow> u8 list list \<Rightarrow> u8 list list" where
  "chunks K rs = map (take K) (filter (\<lambda>r. r ! 16 = 0) rs)"

lemma set_flag_chunk:
  "length bs \<le> 16 \<Longrightarrow> take (length bs) (set_flag v (put_chunk bs (replicate 20 0))) = bs"
  "length bs \<le> 16 \<Longrightarrow> set_flag v (put_chunk bs (replicate 20 0)) ! 16 = v"
  by (simp_all add: set_flag_def put_chunk_def nth_append min_def)

lemma set_flag_none: "set_flag v (replicate 20 0) ! 16 = v"
  by (simp add: set_flag_def nth_append)

lemma chunks_Cons:
  "K \<le> 16 \<Longrightarrow> length bs = K \<Longrightarrow> chunks K (set_flag 0 (put_chunk bs (replicate 20 0)) # rs) = bs # chunks K rs"
  "chunks K (set_flag PIPE_NULL (replicate 20 0) # rs) = chunks K rs"
  using set_flag_chunk [of bs] by (auto simp: chunks_def set_flag_none PIPE_NULL_def)

lemma reads_keep_stream:
  assumes "chan_ok K s h" "\<not> persistent s" "0 < K" "K \<le> 16" "pipe_reads K As (of_nat h) s = (Inr rs, s')"
  shows "pending s h @ incoming s = concat (chunks K rs) @ pending s' h @ incoming s' \<and> chan_ok K s' h \<and>
    (\<forall>c \<in> set (chunks K rs). length c = K) \<and> same_channels h s s'"
  using assms
proof (induction As arbitrary: s rs)
  case Nil
  then show ?case by (simp add: chunks_def same_channels_def)
next
  case (Cons A As)
  from Cons.prems(5) obtain r s1 rs1 where r: "pipe_read K A (replicate 20 0) (of_nat h) s = (Inr r, s1)"
    "pipe_reads K As (of_nat h) s1 = (Inr rs1, s')" "rs = r # rs1"
    by (auto elim!: bind_Inr_cases)
  have one: "read_one K h (replicate 20 0) s r s1" by (rule read_one_chunk [OF Cons.prems(1-3) r(1)])
  then have ok: "chan_ok K s1 h" "\<not> persistent s1" "same_channels h s s1"
    using Cons.prems(2) by (simp_all add: read_one_def same_channels_def)
  note IH = Cons.IH [OF ok(1,2) Cons.prems(3,4) r(2)]
  from one obtain bs where bs: "pending s h @ incoming s = bs @ pending s1 h @ incoming s1"
    "bs = [] \<and> r = set_flag PIPE_NULL (replicate 20 0) \<or> length bs = K \<and> r = set_flag 0 (put_chunk bs (replicate 20 0))"
    by (auto simp: read_one_def)
  from bs(2) show ?case
  proof (elim disjE conjE)
    assume "bs = []" "r = set_flag PIPE_NULL (replicate 20 0)"
    with bs(1) IH ok(3) r(3) show ?thesis by (simp add: chunks_Cons same_channels_def)
  next
    assume "length bs = K" "r = set_flag 0 (put_chunk bs (replicate 20 0))"
    with bs(1) IH ok(3) r(3) Cons.prems(4) show ?thesis by (simp add: chunks_Cons same_channels_def)
  qed
qed

section \<open>The list of free channels\<close>

text \<open>Channels \<^term>\<open>k\<close> to 31 are free and linked in a circle; the list starts at \<^term>\<open>k\<close>.\<close>

definition ring :: "nat \<Rightarrow> pipes \<Rightarrow> bool" where
  "ring k s \<longleftrightarrow> k < 32 \<and> freeList s = Some k \<and> length (OCHT s) = 32 \<and>
     (\<forall>i < 32. tableIndex (OCHT s ! i) = (if i = 31 then 0 else i)) \<and>
     (\<forall>i. k \<le> i \<and> i < 32 \<longrightarrow> \<not> is_open (OCHT s ! i) \<and>
        nxt (OCHT s ! i) = Some (if i = 31 then k else i + 1) \<and> prv (OCHT s ! i) = Some (if i = k then 31 else i - 1))"

lemma ring_init:
  assumes "\<not> initialized s" "pipe_init K A dir pid s = (Inr (), s')"
  shows "ring 0 s'"
  using assms
  by (auto simp: pipe_init_def sim_defs open_input_def open_output_def open_channel_run ring_def init_channel_def
      zero_channel_def MAX_OPEN_CHANNELS_def split: if_splits)

definition opened_table :: "nat \<Rightarrow> channel list \<Rightarrow> channel list" where
  "opened_table k tab =
     (let t = tab[31 := (tab ! 31)\<lparr>nxt := Some (k + 1)\<rparr>]; u = t[k + 1 := (t ! (k + 1))\<lparr>prv := Some 31\<rparr>]
      in u[k := (u ! k)\<lparr>is_open := True, ibHead := 0, ibTail := 0\<rparr>])"

lemma pipe_open_run:
  assumes "ring k s" "k < 31"
  shows "pipe_open x s = (Inr (of_nat k), s\<lparr>OCHT := opened_table k (OCHT s), freeList := Some (k + 1)\<rparr>)"
proof -
  let ?t = "(OCHT s)[31 := (OCHT s ! 31)\<lparr>nxt := Some (k + 1)\<rparr>]"
  let ?u = "?t[k + 1 := (?t ! (k + 1))\<lparr>prv := Some 31\<rparr>]"
  have c: "nxt (OCHT s ! k) = Some (k + 1)" "prv (OCHT s ! k) = Some 31" "freeList s = Some k" "length (OCHT s) = 32"
    "\<not> is_open (OCHT s ! k)" "tableIndex (OCHT s ! k) = k"
    using assms by (auto simp: ring_def)
  have u: "?u ! k = OCHT s ! k" "?t ! k = OCHT s ! k" using assms(2) by simp_all
  have un: "unlink_free k s = (Inr (), s\<lparr>OCHT := ?u, freeList := Some (k + 1)\<rparr>)"
    using c u assms(2) by (simp add: unlink_free_def next_of_def prev_of_def deref_def bind_def andThen_def)
  show ?thesis
    using c u assms(2) by (simp add: pipe_open_def un assertion_def bind_def andThen_def opened_table_def Let_def)
qed

lemma open_next:
  assumes "ring k s" "k < 31"
  shows "\<exists>s'. pipe_open x s = (Inr (of_nat k), s') \<and> ring (k + 1) s'"
proof -
  have "ring (k + 1) (s\<lparr>OCHT := opened_table k (OCHT s), freeList := Some (k + 1)\<rparr>)"
    using assms by (auto simp: ring_def opened_table_def Let_def nth_list_update)
  with pipe_open_run [OF assms] show ?thesis by blast
qed

lemma open_last:
  assumes "ring 31 s"
  shows "\<exists>s'. pipe_open x s = (Inr 0, s') \<and> freeList s' = None \<and> is_open (OCHT s' ! 31)"
proof -
  have c: "nxt (OCHT s ! 31) = Some 31" "prv (OCHT s ! 31) = Some 31" "freeList s = Some 31" "length (OCHT s) = 32"
    "\<not> is_open (OCHT s ! 31)" "tableIndex (OCHT s ! 31) = 0"
    using assms by (auto simp: ring_def)
  have un: "unlink_free 31 s = (Inr (), s\<lparr>freeList := None\<rparr>)"
    using c by (simp add: unlink_free_def next_of_def prev_of_def bind_def andThen_def assertion_def)
  show ?thesis
    using c by (simp add: pipe_open_def un assertion_def bind_def andThen_def)
qed

fun pipe_opens :: "nat \<Rightarrow> u8 \<Rightarrow> (u8 list) sim" where
  "pipe_opens 0 x = ret []"
| "pipe_opens (Suc n) x = bind (pipe_open x) (\<lambda>h. bind (pipe_opens n x) (\<lambda>hs. ret (h # hs)))"

lemma opens_from:
  "ring k s \<Longrightarrow> k + n = 31 \<Longrightarrow>
     \<exists>s'. pipe_opens (Suc n) x s = (Inr (map of_nat [k..<31] @ [0]), s') \<and> freeList s' = None"
proof (induction n arbitrary: k s)
  case 0
  then have "ring 31 s" by simp
  from open_last [OF this, of x] 0 show ?case by (auto simp: bind_def)
next
  case (Suc n)
  then have "k < 31" by simp
  from open_next [OF Suc.prems(1) this, of x] obtain s1 where
    1: "pipe_open x s = (Inr (of_nat k), s1)" "ring (k + 1) s1" by blast
  from Suc.IH [OF 1(2)] Suc.prems(2) obtain s' where
    "pipe_opens (Suc n) x s1 = (Inr (map of_nat [k + 1..<31] @ [0]), s')" "freeList s' = None" by auto
  with 1(1) \<open>k < 31\<close> show ?case
    by (subst pipe_opens.simps(2)) (simp add: bind_def upt_conv_Cons del: pipe_opens.simps)
qed


section \<open>Reachable states\<close>

definition sim_boot :: "nat \<Rightarrow> pipes" where
  "sim_boot K = \<lparr>OCHT = replicate MAX_OPEN_CHANNELS (zero_channel K), freeList = None, initialized = False,
     need_reset = False, persistent = False, inputFileName = [], outputFileName = [], DESC_HOST_2_FPGA = - 1,
     DESC_FPGA_2_HOST = - 1, open_fds = {}, fd_flags = (\<lambda>_. 0), incoming = [], outgoing = []\<rparr>"

inductive sim_reach :: "nat \<Rightarrow> pipes \<Rightarrow> bool" for K where
  boot: "sim_reach K (sim_boot K)"
| host: "sim_reach K s \<Longrightarrow> sim_reach K (s\<lparr>incoming := incoming s @ bs\<rparr>)"
| init: "sim_reach K s \<Longrightarrow> pipe_init K A dir pid s = (Inr (), s') \<Longrightarrow> sim_reach K s'"
| clear: "sim_reach K s \<Longrightarrow> pipe_clear_reset s = (Inr (), s') \<Longrightarrow> sim_reach K s'"
| opened: "sim_reach K s \<Longrightarrow> pipe_open x s = (Inr h, s') \<Longrightarrow> sim_reach K s'"
| read: "sim_reach K s \<Longrightarrow> pipe_read K A res h s = (Inr res', s') \<Longrightarrow> sim_reach K s'"
| can_write: "sim_reach K s \<Longrightarrow> pipe_can_write A h s = (Inr b, s') \<Longrightarrow> sim_reach K s'"
| written: "sim_reach K s \<Longrightarrow> pipe_write K A h data s = (Inr (), s') \<Longrightarrow> sim_reach K s'"

definition sim_ok :: "pipes \<Rightarrow> bool" where
  "sim_ok s \<longleftrightarrow> \<not> persistent s \<and> \<not> need_reset s \<and> (\<forall>d \<in> open_fds s. fd_flags s d AND O_NONBLOCK = 0) \<and>
     (0 \<le> DESC_HOST_2_FPGA s \<longrightarrow> DESC_HOST_2_FPGA s \<in> open_fds s) \<and>
     (0 \<le> DESC_FPGA_2_HOST s \<longrightarrow> DESC_FPGA_2_HOST s \<in> open_fds s)"

text \<open>A program that keeps the invariant when it does not stop.\<close>

definition stays_ok :: "'a sim \<Rightarrow> bool" where
  "stays_ok p \<longleftrightarrow> hoare sim_ok p (\<lambda>_. sim_ok) (\<lambda>_ _. True)"

lemma stays_okI: "(\<And>s x s'. sim_ok s \<Longrightarrow> p s = (Inr x, s') \<Longrightarrow> sim_ok s') \<Longrightarrow> stays_ok p"
  by (auto simp: stays_ok_def hoare_def split: prod.splits sum.splits)

lemma stays_okD: "stays_ok p \<Longrightarrow> sim_ok s \<Longrightarrow> p s = (Inr x, s') \<Longrightarrow> sim_ok s'"
  unfolding stays_ok_def by (rule hoare_Inr)

lemma stays_ret [intro]: "stays_ok (ret x)" by (rule stays_okI) simp
lemma stays_raise [intro]: "stays_ok (raise e)" by (rule stays_okI) simp

lemma stays_bind [intro]: "stays_ok p \<Longrightarrow> (\<And>x. stays_ok (f x)) \<Longrightarrow> stays_ok (bind p f)"
  unfolding stays_ok_def by (rule hoare_bind)

lemma stays_andThen [intro]: "stays_ok p \<Longrightarrow> stays_ok q \<Longrightarrow> stays_ok (andThen p q)"
  unfolding stays_ok_def by (rule hoare_andThen)

lemma stays_look [intro]: "stays_ok (look f)"
  by (rule stays_okI) simp

lemma stays_if [intro]: "stays_ok p \<Longrightarrow> stays_ok q \<Longrightarrow> stays_ok (if b then p else q)"
  by simp

lemma stays_set_channel [intro]: "stays_ok (set_channel i f)"
  by (rule stays_okI) (auto simp: sim_ok_def)

lemma stays_assertion [intro]: "stays_ok (assertion b)"
  by (auto simp: assertion_def)

lemma blocking_again: "((O_RDONLY OR O_NONBLOCK) XOR O_NONBLOCK) AND O_NONBLOCK = 0"
    "((O_WRONLY OR O_NONBLOCK) XOR O_NONBLOCK) AND O_NONBLOCK = 0"
  by (simp_all add: O_RDONLY_def O_WRONLY_def O_NONBLOCK_def)

lemma stays_open_input [intro]: "stays_ok (open_input A)"
  by (rule stays_okI) (auto simp: open_input_def open_channel_run sim_ok_def blocking_again split: if_splits)

lemma stays_open_output [intro]: "stays_ok (open_output A)"
  by (rule stays_okI) (auto simp: open_output_def open_channel_run sim_ok_def blocking_again split: if_splits)

lemma stays_select [intro]: "stays_ok (select_one fd A)"
  by (rule stays_okI) (auto dest: select_one_run)

lemma stays_read_bytes [intro]: "stays_ok (read_bytes A n)"
  by (rule stays_okI) (auto simp: read_bytes_def sim_ok_def Let_def split: if_splits)

lemma stays_end_of_stream [intro]: "stays_ok end_of_stream"
  by (rule stays_okI) (auto simp: end_of_stream_def sim_ok_def split: if_splits)

lemma stays_modify: "(\<And>s. sim_ok s \<Longrightarrow> sim_ok (f s)) \<Longrightarrow> stays_ok (modify f)"
  by (rule stays_okI) auto

lemma stays_option [intro]: "stays_ok p \<Longrightarrow> (\<And>x. stays_ok (q x)) \<Longrightarrow> stays_ok (case r of None \<Rightarrow> p | Some x \<Rightarrow> q x)"
  by (cases r) auto

lemmas stays_rules = stays_bind stays_andThen stays_if stays_option stays_look stays_ret stays_raise stays_assertion
  stays_set_channel stays_open_input stays_open_output stays_select stays_read_bytes stays_end_of_stream

lemma stays_fill_buffer: "stays_ok (fill_buffer K A h)"
  unfolding fill_buffer_def by (intro stays_rules)

lemma stays_take_chunk: "stays_ok (take_chunk K h res)"
  by (rule stays_okI) (auto simp: take_chunk_def sim_defs sim_ok_def split: if_splits)

lemma stays_pipe_read: "stays_ok (pipe_read K A res h)"
  unfolding pipe_read_def by (intro stays_rules stays_fill_buffer stays_take_chunk)

lemma stays_deref: "stays_ok (deref p)"
  unfolding deref_def by (intro stays_rules)

lemma stays_unlink_free: "stays_ok (unlink_free c)"
  unfolding unlink_free_def next_of_def prev_of_def
  by (intro stays_rules stays_deref stays_modify) (auto simp: sim_ok_def)

lemma stays_pipe_open: "stays_ok (pipe_open x)"
  unfolding pipe_open_def by (intro stays_rules stays_unlink_free)

lemma stays_pipe_init: "stays_ok (pipe_init K A dir pid)"
  unfolding pipe_init_def Let_def by (intro stays_rules stays_modify) (auto simp: sim_ok_def)

lemma stays_pipe_can_write: "stays_ok (pipe_can_write A h)"
  unfolding pipe_can_write_def by (intro stays_rules)

lemma stays_write_bytes: "stays_ok (write_bytes A data)"
  by (rule stays_okI) (auto simp: write_bytes_def sim_ok_def Let_def split: if_splits)

lemma stays_pipe_write: "stays_ok (pipe_write K A h data)"
  unfolding pipe_write_def by (intro stays_rules stays_write_bytes)

lemma sim_ok_reach: "sim_reach K s \<Longrightarrow> sim_ok s"
proof (induction rule: sim_reach.induct)
  case boot
  show ?case by (simp add: sim_boot_def sim_ok_def)
next
  case (host s bs)
  then show ?case by (simp add: sim_ok_def)
next
  case (clear s s')
  then show ?case by (auto simp: pipe_clear_reset_def sim_ok_def)
qed (auto dest: stays_okD [OF stays_pipe_init] stays_okD [OF stays_pipe_open]
    stays_okD [OF stays_pipe_read] stays_okD [OF stays_pipe_can_write] stays_okD [OF stays_pipe_write])


lemma read_ready:
  assumes "DESC_HOST_2_FPGA s \<in> open_fds s" "chan_ok K s h" "0 \<le> DESC_HOST_2_FPGA s" "o_select A = 1" "o_isset A"
    and "int K \<le> o_read A" "K \<le> length (pending s h @ incoming s)"
  shows "\<exists>s'. pipe_read K A res (of_nat h) s =
    (Inr (set_flag 0 (put_chunk (take K (pending s h @ incoming s)) res)), s') \<and> pending s' h = []"
proof -
  let ?ch = "OCHT s ! h" and ?n = "K - ibTail (OCHT s ! h)"
  have c: "h < length (OCHT s)" "is_open ?ch" "ibTail ?ch < K" "ibHead ?ch = 0" "length (inputBuffer ?ch) = K"
      "h < MAX_OPEN_CHANNELS" "length (OCHT s) = MAX_OPEN_CHANNELS"
    using assms(2) by (simp_all add: chan_ok_def)
  have h: "unat (of_nat h :: u8) = h"
    using c(6) by (simp add: MAX_OPEN_CHANNELS_def unat_of_nat take_bit_eq_mod)
  have n: "min (nat (o_read A)) ?n = ?n" using assms(6) by simp
  have more: "?n \<le> length (incoming s)" using assms(7) c(3,5) by (simp add: pending_def)
  have ne: "take ?n (incoming s) \<noteq> []" using more c(3) by auto
  let ?t = "filled K h ?n s"
  have fill: "fill_buffer K A h s = (Inr (), ?t)"
    using fill_read [OF c(1) assms(1,4,5) _ refl, of K] assms(6) ne unfolding n by simp
  note f = filled_facts [OF assms(2) order.refl]
  have tail: "ibTail (OCHT ?t ! h) = K" using f(9) more c(3) by (simp add: min_def)
  have pt: "pending ?t h = inputBuffer (OCHT ?t ! h)" using tail f(3) by (simp add: pending_def)
  have buf: "inputBuffer (OCHT ?t ! h) = take K (pending s h @ incoming s)"
    using f(6) f(3) unfolding pt by (metis append_eq_conv_conj)
  have ht: "h < length (OCHT ?t)" using f(5) c(1) by simp
  have "take_chunk K h res ?t = (Inr (set_flag 0 (put_chunk (take K (pending s h @ incoming s)) res)),
      ?t\<lparr>OCHT := (OCHT ?t)[h := (OCHT ?t ! h)\<lparr>ibHead := 0, ibTail := 0\<rparr>]\<rparr>)"
    using take_chunk_run [OF ht f(1,2) _ f(3), of res] tail c(3) buf by simp
  moreover have "pipe_read K A res (of_nat h) s = andThen (fill_buffer K A h) (take_chunk K h res) s"
    using assms(3) h c by (simp add: pipe_read_def bind_def andThen_def assertion_def)
  ultimately show ?thesis using fill ht by (simp add: andThen_def bind_def pending_def)
qed

section \<open>Examples\<close>

definition os0 :: os_answers where
  "os0 = \<lparr>o_open_in = 3, o_open_out = 4, o_mkdir_ok = True, o_mkdir_exists = False, o_select = 1, o_eintr = False,
     o_isset = True, o_read = 3, o_write = 4\<rparr>"

definition sim_started :: pipes where
  "sim_started = snd (pipe_init 4 os0 None ''fpga'' (sim_boot 4))"

definition sim_opened :: pipes where
  "sim_opened = snd (pipe_open 0 (sim_started\<lparr>incoming := [1, 2, 3, 4, 5]\<rparr>))"

lemma started_example:
  "pipe_init 4 os0 None ''fpga'' (sim_boot 4) = (Inr (), sim_started)" "\<not> initialized (sim_boot 4)"
  "incoming sim_started = []" "outgoing sim_started = []" "DESC_HOST_2_FPGA sim_started = 3"
  "DESC_FPGA_2_HOST sim_started = 4" "open_fds sim_started = {3, 4}" "initialized sim_started"
  "OCHT sim_started = map (init_channel 4) [0..<MAX_OPEN_CHANNELS]"
  by (simp_all add: sim_started_def pipe_init_def sim_defs os0_def open_input_def open_output_def open_channel_run
      sim_boot_def)

lemma opened_example:
  "sim_reach 4 sim_opened" "chan_ok 4 sim_opened 0" "incoming sim_opened = [1, 2, 3, 4, 5]"
  "DESC_HOST_2_FPGA sim_opened = 3" "open_fds sim_opened = {3, 4}" "DESC_FPGA_2_HOST sim_opened = 4"
  "pending sim_opened 0 = []" "initialized sim_opened" "outgoing sim_opened = []"
proof -
  let ?s = "sim_started\<lparr>incoming := [1, 2, 3, 4, 5]\<rparr>"
  have "?s = sim_started\<lparr>incoming := incoming sim_started @ [1, 2, 3, 4, 5]\<rparr>" by (simp add: started_example(3))
  then have r: "sim_reach 4 ?s"
    using sim_reach.host [OF sim_reach.init [OF sim_reach.boot started_example(1)]] by metis
  have "ring 0 ?s" using ring_init [OF started_example(2,1)] by (simp add: ring_def)
  note run = pipe_open_run [OF this, of 0]
  have o: "pipe_open 0 ?s = (Inr 0, sim_opened)" using run by (simp add: sim_opened_def)
  show "sim_reach 4 sim_opened" by (rule sim_reach.opened [OF r o])
  have e: "sim_opened = ?s\<lparr>OCHT := opened_table 0 (OCHT ?s), freeList := Some 1\<rparr>"
    using run by (simp add: sim_opened_def)
  show "chan_ok 4 sim_opened 0" "pending sim_opened 0 = []"
    by (simp_all add: e started_example chan_ok_def pending_def opened_table_def Let_def init_channel_def
        zero_channel_def MAX_OPEN_CHANNELS_def)
  show "incoming sim_opened = [1, 2, 3, 4, 5]" "DESC_HOST_2_FPGA sim_opened = 3" "open_fds sim_opened = {3, 4}"
    "DESC_FPGA_2_HOST sim_opened = 4" "initialized sim_opened" "outgoing sim_opened = []"
    by (simp_all add: e started_example)
qed

section \<open>Properties\<close>

text \<open>
  C15. However the reads are split up, and whatever the calls in between answer, the chunks that
  reads of one open channel return are the host's bytes in order, nothing lost and nothing
  twice: the bytes taken from the stream are the chunks and the unfinished rest in the buffer.
\<close>

theorem reads_follow_stream:
  assumes "sim_reach K' s" "chan_ok K s h" "0 < K" "K \<le> 16" "pipe_reads K As (of_nat h) s = (Inr rs, s')"
  shows "pending s h @ incoming s = concat (chunks K rs) @ pending s' h @ incoming s' \<and> chan_ok K s' h \<and>
    (\<forall>c \<in> set (chunks K rs). length c = K) \<and> same_channels h s s'"
proof (rule reads_keep_stream [OF assms(2) _ assms(3-5)])
  show "\<not> persistent s" using sim_ok_reach [OF assms(1)] by (simp add: sim_ok_def)
qed

lemma reads_follow_stream_witness:
  "\<exists>rs s'. pipe_reads 4 [os0\<lparr>o_read := 4\<rparr>] 0 sim_opened = (Inr rs, s') \<and>
     [1, 2, 3, 4, 5] = concat (chunks 4 rs) @ pending s' 0 @ incoming s'"
proof -
  have "o_select (os0\<lparr>o_read := 4\<rparr>) = 1" "o_isset (os0\<lparr>o_read := 4\<rparr>)" "int 4 \<le> o_read (os0\<lparr>o_read := 4\<rparr>)"
    by (simp_all add: os0_def)
  from read_ready [OF _ opened_example(2) _ this, of "replicate 20 0"] obtain r s' where
    "pipe_read 4 (os0\<lparr>o_read := 4\<rparr>) (replicate 20 0) 0 sim_opened = (Inr r, s')"
    by (auto simp: opened_example)
  then have run: "pipe_reads 4 [os0\<lparr>o_read := 4\<rparr>] (of_nat 0) sim_opened = (Inr [r], s')" by (simp add: bind_def)
  from reads_follow_stream [OF opened_example(1,2) _ _ run] run show ?thesis
    by (auto simp: opened_example)
qed

text \<open>
  A read returns the next chunk as soon as the descriptor is ready and the bytes that the
  chunk still lacks are there.
\<close>

theorem read_delivers:
  assumes "sim_reach K' s" "chan_ok K s h" "0 \<le> DESC_HOST_2_FPGA s" "o_select A = 1" "o_isset A"
    and "int K \<le> o_read A" "K \<le> length (pending s h @ incoming s)"
  shows "\<exists>s'. pipe_read K A res (of_nat h) s =
    (Inr (set_flag 0 (put_chunk (take K (pending s h @ incoming s)) res)), s') \<and> pending s' h = []"
proof (rule read_ready [OF _ assms(2-7)])
  show "DESC_HOST_2_FPGA s \<in> open_fds s" using sim_ok_reach [OF assms(1)] assms(3) by (simp add: sim_ok_def)
qed

lemma read_delivers_witness:
  "\<exists>s'. pipe_read 4 (os0\<lparr>o_read := 4\<rparr>) (replicate 20 7) 0 sim_opened =
    (Inr [1, 2, 3, 4, 7, 7, 7, 7, 7, 7, 7, 7, 7, 7, 7, 7, 0, 0, 0, 0], s')"
proof -
  have "o_select (os0\<lparr>o_read := 4\<rparr>) = 1" "o_isset (os0\<lparr>o_read := 4\<rparr>)" "int 4 \<le> o_read (os0\<lparr>o_read := 4\<rparr>)"
    by (simp_all add: os0_def)
  from read_delivers [OF opened_example(1,2) _ this, of "replicate 20 7"] show ?thesis
    by (auto simp: opened_example set_flag_def put_chunk_def numeral_eq_Suc)
qed

text \<open>
  After initialisation the channels opened get the handles 0 to 30; the 32nd gets handle 0
  again, because the last entry of the table has no number of its own, and the next call exits.
\<close>

theorem open_handles:
  assumes "\<not> initialized s" "pipe_init K A dir pid s = (Inr (), s1)"
  shows "\<exists>s2. pipe_opens 32 x s1 = (Inr (map of_nat [0..<31] @ [0]), s2) \<and> fst (pipe_open y s2) = Inl (Exit 1)"
proof -
  have "0 + 31 = (31 :: nat)" by simp
  from opens_from [OF ring_init [OF assms] this, of x] obtain s2 where
    "pipe_opens 32 x s1 = (Inr (map of_nat [0..<31] @ [0]), s2)" "freeList s2 = None" by auto
  then show ?thesis by (auto simp: pipe_open_def bind_def)
qed

lemma open_handles_witness:
  "\<exists>s2. pipe_opens 32 0 sim_started = (Inr (map of_nat [0..<31] @ [0]), s2) \<and> fst (pipe_open 0 s2) = Inl (Exit 1)"
  by (rule open_handles [OF started_example(2,1)])

text \<open>
  In every reachable state the reset request is off and the pipes that are open block: the
  branch of a stream end that asks for a reset is never taken, since nothing sets
  \<^verbatim>\<open>persistent\<close>.
\<close>

theorem reset_never_requested:
  assumes "sim_reach K s"
  shows "\<not> pipe_receive_reset s \<and> (\<forall>d \<in> open_fds s. fd_flags s d AND O_NONBLOCK = 0)"
  using sim_ok_reach [OF assms] by (simp add: sim_ok_def pipe_receive_reset_def)

lemma reset_never_requested_witness:
  "\<not> pipe_receive_reset sim_opened \<and> fd_flags sim_opened 3 AND O_NONBLOCK = 0"
  using reset_never_requested [OF opened_example(1)] by (simp add: opened_example)

text \<open>
  A write that returns has sent the whole chunk behind what was sent before; a short or
  failed write ends the program.
\<close>

theorem write_whole_chunk:
  assumes "length data = K" "unat h < MAX_OPEN_CHANNELS"
  shows "if initialized s \<and> is_open (OCHT s ! unat h) \<and> DESC_FPGA_2_HOST s \<in> open_fds s \<and> int K \<le> o_write A
    then pipe_write K A h data s = (Inr (), s\<lparr>outgoing := outgoing s @ data\<rparr>)
    else \<exists>e s'. pipe_write K A h data s = (Inl e, s')"
  using assms
  by (auto simp: pipe_write_def sim_defs write_bytes_def min_def split: if_splits)

lemma write_whole_chunk_witness:
  "pipe_write 4 os0 0 [1, 2, 3, 4] sim_opened = (Inr (), sim_opened\<lparr>outgoing := [1, 2, 3, 4]\<rparr>)"
  using write_whole_chunk [of "[1, 2, 3, 4]" 4 0 sim_opened os0] opened_example
  by (simp add: os0_def MAX_OPEN_CHANNELS_def chan_ok_def)

end
