(* ===== verification/RegFileCF.thy ===== *)
theory RegFileCF
  imports Leap_Prelude
begin

text \<open>
  \<^verbatim>\<open>fpga-components/RegFileCF.c\<close>: the register file the Bluespec simulator calls. The handle is
  the file itself; the buffer is the list of its 32-bit words; reading or writing beyond it is
  a stop. The log, off by a constant, is not modelled.
\<close>

section \<open>Operations\<close>

record regfile =
  addr_mask :: u32
  data_words :: u32
  depth :: u32
  buf :: "u32 list"

datatype regfile_stop = Exit int | Out_Of_Bounds | Null_Pointer

text \<open>
  Sizes are computed in 32 bits, where products wrap; the buffer is filled with 0xaa bytes. The answers
  \<open>ptr_ok\<close> and \<open>buf_ok\<close> say whether the two calls of \<^verbatim>\<open>malloc\<close> succeed, which the code does not look at.
\<close>

definition regfile_cf_init :: "bool \<Rightarrow> bool \<Rightarrow> u32 \<Rightarrow> u32 \<Rightarrow> u32 \<Rightarrow> regfile_stop + regfile" where
  "regfile_cf_init ptr_ok buf_ok addr_sz data_sz dep =
     (if 31 < addr_sz then Inl (Exit 1)
      else if \<not> ptr_ok then Inl Null_Pointer
      else
        let words = (data_sz + 31) div 32 in
        if \<not> buf_ok then Inl Null_Pointer
        else Inr \<lparr>addr_mask = push_bit (unat addr_sz) 1 - 1, data_words = words, depth = dep,
               buf = replicate (unat (dep * words * 4) div 4) 0xaaaaaaaa\<rparr>)"

definition word_index :: "regfile \<Rightarrow> u32 \<Rightarrow> nat" where
  "word_index r a = unat ((addr_mask r AND a) * data_words r)"

text \<open>The data the caller passes has at least \<^verbatim>\<open>data_words\<close> words.\<close>

definition regfile_cf_upd :: "regfile \<Rightarrow> u32 \<Rightarrow> u32 list \<Rightarrow> regfile_stop + regfile" where
  "regfile_cf_upd r a data =
     (let i = word_index r a; n = unat (data_words r) in
      if length (buf r) < i + n then Inl Out_Of_Bounds
      else Inr (r\<lparr>buf := take i (buf r) @ take n data @ drop (i + n) (buf r)\<rparr>))"

definition regfile_cf_sub :: "regfile \<Rightarrow> u32 \<Rightarrow> regfile_stop + u32 list" where
  "regfile_cf_sub r a =
     (let i = word_index r a; n = unat (data_words r) in
      if length (buf r) < i + n then Inl Out_Of_Bounds else Inr (take n (drop i (buf r))))"

section \<open>A function from masked addresses\<close>

text \<open>
  The file is whole when every masked address has its words in the buffer; then it stands for a
  function of the masked address.
\<close>

definition regfile_ok :: "regfile \<Rightarrow> bool" where
  "regfile_ok r \<longleftrightarrow> (unat (addr_mask r) + 1) * unat (data_words r) \<le> length (buf r) \<and>
     unat (addr_mask r) * unat (data_words r) < 2 ^ 32"

definition entry :: "regfile \<Rightarrow> nat \<Rightarrow> u32 list" where
  "entry r i = take (unat (data_words r)) (drop (i * unat (data_words r)) (buf r))"

definition slot :: "regfile \<Rightarrow> u32 \<Rightarrow> nat" where
  "slot r a = unat (addr_mask r AND a)"

lemma slot_le: "slot r a \<le> unat (addr_mask r)"
  unfolding slot_def by (meson word_and_le1 word_le_nat_alt word_and_le2)

lemma word_index_slot:
  assumes "regfile_ok r"
  shows "word_index r a = slot r a * unat (data_words r)"
    and "slot r a * unat (data_words r) + unat (data_words r) \<le> length (buf r)"
proof -
  have le: "slot r a * unat (data_words r) \<le> unat (addr_mask r) * unat (data_words r)"
    by (rule mult_le_mono1) (rule slot_le)
  also have "\<dots> < 2 ^ 32" using assms unfolding regfile_ok_def by blast
  finally have "slot r a * unat (data_words r) < 2 ^ 32" .
  then show "word_index r a = slot r a * unat (data_words r)"
    by (simp add: word_index_def slot_def unat_mult_lem [symmetric] unat_word_ariths)
  have "(unat (addr_mask r) + 1) * unat (data_words r) = unat (addr_mask r) * unat (data_words r) + unat (data_words r)"
    by simp
  then show "slot r a * unat (data_words r) + unat (data_words r) \<le> length (buf r)"
    using mult_le_mono1 [OF slot_le [of r a], of "unat (data_words r)"] assms unfolding regfile_ok_def by linarith
qed

lemma sub_entry: "regfile_ok r \<Longrightarrow> regfile_cf_sub r a = Inr (entry r (slot r a))"
  using word_index_slot [of r a] by (simp add: regfile_cf_sub_def entry_def Let_def)

lemma entry_replaced:
  fixes i j n :: nat
  assumes "length d = n" "i * n + n \<le> length xs" "j * n + n \<le> length xs"
  shows "take n (drop (j * n) (take (i * n) xs @ d @ drop (i * n + n) xs)) =
    (if j = i then d else take n (drop (j * n) xs))"
proof -
  consider (eq) "j = i" | (less) "j * n + n \<le> i * n" "j \<noteq> i" | (more) "i * n + n \<le> j * n" "j \<noteq> i"
  proof -
    have "Suc j * n \<le> i * n" if "j < i" using that by (intro mult_le_mono1) simp
    moreover have "Suc i * n \<le> j * n" if "i < j" using that by (intro mult_le_mono1) simp
    ultimately show thesis using that by (metis add.commute linorder_less_linear mult_Suc)
  qed
  then show ?thesis
  proof cases
    case eq
    with assms show ?thesis by simp
  next
    case less
    show ?thesis
    proof (rule nth_equalityI)
      fix k assume "k < length (take n (drop (j * n) (take (i * n) xs @ d @ drop (i * n + n) xs)))"
      then have "k < n" by (simp only: length_take)
      moreover have "j * n \<le> min (length xs) (i * n)" "j * n + k < i * n" using less assms \<open>k < n\<close> by linarith+
      ultimately show "take n (drop (j * n) (take (i * n) xs @ d @ drop (i * n + n) xs)) ! k =
          (if j = i then d else take n (drop (j * n) xs)) ! k"
        using less assms by (simp add: nth_append)
    qed (use less assms in simp)
  next
    case more
    show ?thesis
    proof (rule nth_equalityI)
      fix k assume "k < length (take n (drop (j * n) (take (i * n) xs @ d @ drop (i * n + n) xs)))"
      then have "k < n" by (simp only: length_take)
      moreover have "i * n + (n + (j * n + k - (i * n + n))) = j * n + k" "i * n - j * n = 0" using more by linarith+
      ultimately show "take n (drop (j * n) (take (i * n) xs @ d @ drop (i * n + n) xs)) ! k =
          (if j = i then d else take n (drop (j * n) xs)) ! k"
        using more assms by (simp add: nth_append min_def)
    qed (use more assms in simp)
  qed
qed

lemma upd_entry:
  assumes "regfile_ok r" "unat (data_words r) \<le> length data"
  shows "\<exists>r'. regfile_cf_upd r a data = Inr r' \<and> regfile_ok r' \<and> data_words r' = data_words r \<and> addr_mask r' = addr_mask r \<and>
    (\<forall>j \<le> unat (addr_mask r). entry r' j = (if j = slot r a then take (unat (data_words r)) data else entry r j))"
proof -
  let ?n = "unat (data_words r)" and ?i = "slot r a"
  let ?r' = "r\<lparr>buf := take (?i * ?n) (buf r) @ take ?n data @ drop (?i * ?n + ?n) (buf r)\<rparr>"
  note w = word_index_slot [OF assms(1), of a]
  have "entry ?r' j = (if j = ?i then take ?n data else entry r j)" if "j \<le> unat (addr_mask r)" for j
  proof -
    have "j * ?n \<le> unat (addr_mask r) * ?n" using that by (rule mult_le_mono1)
    moreover have "(unat (addr_mask r) + 1) * ?n = unat (addr_mask r) * ?n + ?n" by simp
    ultimately have "j * ?n + ?n \<le> length (buf r)" using assms(1) unfolding regfile_ok_def by linarith
    then show ?thesis using entry_replaced [of "take ?n data" ?n ?i "buf r" j] w(2) assms(2) by (simp add: entry_def)
  qed
  moreover have "regfile_ok ?r'" using assms w(2) by (simp add: regfile_ok_def)
  moreover have "regfile_cf_upd r a data = Inr ?r'" using w by (simp add: regfile_cf_upd_def Let_def)
  ultimately show ?thesis by auto
qed

lemma regfile_init_ok:
  assumes "addr_sz \<le> 31" "2 ^ unat addr_sz \<le> unat dep" "unat dep * unat ((data_sz + 31) div 32) * 4 < 2 ^ 32"
  shows "\<exists>r. regfile_cf_init True True addr_sz data_sz dep = Inr r \<and> regfile_ok r \<and>
    data_words r = (data_sz + 31) div 32 \<and> addr_mask r = mask (unat addr_sz) \<and>
    buf r = replicate (unat dep * unat ((data_sz + 31) div 32)) 0xaaaaaaaa"
proof -
  let ?w = "(data_sz + 31) div 32 :: u32" and ?m = "push_bit (unat addr_sz) 1 - 1 :: u32"
  have "unat addr_sz \<le> 31" using assms(1) by (simp add: word_le_nat_alt)
  then have k: "unat addr_sz < 32" by simp
  then have "(2 :: nat) ^ unat addr_sz < 2 ^ 32" by (intro power_strict_increasing) simp_all
  then have p: "unat (push_bit (unat addr_sz) 1 :: u32) = 2 ^ unat addr_sz"
    unfolding unsigned_push_bit_eq using k by (simp add: push_bit_eq_mult take_bit_nat_eq_self)
  then have "1 \<le> (push_bit (unat addr_sz) 1 :: u32)" by (simp add: word_le_nat_alt)
  then have m: "?m = mask (unat addr_sz)" and um: "unat ?m = 2 ^ unat addr_sz - 1" using p
    by (simp_all add: unat_sub mask_eq_exp_minus_1 push_bit_eq_mult)
  have um1: "unat ?m + 1 = 2 ^ unat addr_sz" unfolding um by simp
  have "unat dep * unat ?w < 2 ^ 32" using assms(3) by linarith
  then have "unat (dep * ?w) = unat dep * unat ?w" by (simp add: unat_word_ariths)
  then have size: "unat (dep * ?w * 4) = unat dep * unat ?w * 4" using assms(3) by (simp add: unat_word_ariths)
  have "(2 ^ unat addr_sz) * unat ?w \<le> unat dep * unat ?w" using assms(2) by (rule mult_le_mono1)
  moreover have "(unat ?m + 1) * unat ?w = (2 ^ unat addr_sz) * unat ?w" by (simp only: um1)
  moreover have "unat ?m * unat ?w \<le> (2 ^ unat addr_sz) * unat ?w" by (rule mult_le_mono1) (simp only: um diff_le_self)
  ultimately have "(unat ?m + 1) * unat ?w \<le> unat dep * unat ?w \<and> unat ?m * unat ?w < 2 ^ 32"
    using \<open>unat dep * unat ?w < 2 ^ 32\<close> by linarith
  moreover have "\<not> 31 < addr_sz" using assms(1) by simp
  ultimately show ?thesis
    using size um m by (auto simp: regfile_cf_init_def regfile_ok_def Let_def)
qed

text \<open>A row of writes.\<close>

fun regfile_writes :: "regfile \<Rightarrow> (u32 \<times> u32 list) list \<Rightarrow> regfile_stop + regfile" where
  "regfile_writes r [] = Inr r"
| "regfile_writes r ((a, d) # ws) = (case regfile_cf_upd r a d of Inl e \<Rightarrow> Inl e | Inr r' \<Rightarrow> regfile_writes r' ws)"

lemma writes_entries:
  assumes "regfile_ok r" "\<forall>(a, d) \<in> set ws. length d = unat (data_words r)"
  shows "\<exists>r'. regfile_writes r ws = Inr r' \<and> regfile_ok r' \<and> data_words r' = data_words r \<and> addr_mask r' = addr_mask r \<and>
    (\<forall>j \<le> unat (addr_mask r). entry r' j =
       (case map_of (rev (map (\<lambda>(a, d). (slot r a, d)) ws)) j of Some d \<Rightarrow> d | None \<Rightarrow> entry r j))"
  using assms
proof (induction ws arbitrary: r)
  case (Cons w ws)
  obtain a d where w: "w = (a, d)" by fastforce
  then have d: "length d = unat (data_words r)" using Cons.prems(2) by simp
  obtain r1 where 1: "regfile_cf_upd r a d = Inr r1" "regfile_ok r1" "data_words r1 = data_words r"
    "addr_mask r1 = addr_mask r"
    "\<forall>j \<le> unat (addr_mask r). entry r1 j = (if j = slot r a then take (unat (data_words r)) d else entry r j)"
    using upd_entry [OF Cons.prems(1), of d a] d by auto
  have s: "slot r1 = slot r" by (simp add: slot_def fun_eq_iff 1(4))
  have "\<forall>(a, d) \<in> set ws. length d = unat (data_words r1)" using Cons.prems(2) 1(3) by simp
  from Cons.IH [OF 1(2) this] obtain r' where 2: "regfile_writes r1 ws = Inr r'" "regfile_ok r'"
    "data_words r' = data_words r" "addr_mask r' = addr_mask r"
    "\<forall>j \<le> unat (addr_mask r). entry r' j =
       (case map_of (rev (map (\<lambda>(a, d). (slot r a, d)) ws)) j of Some d \<Rightarrow> d | None \<Rightarrow> entry r1 j)"
    by (auto simp: 1(3,4) s)
  show ?case
    using 1(1,5) 2 d by (auto simp: w map_add_def split: option.splits)
qed simp

text \<open>
  C38. When both allocations succeed, a register file made for at least as many entries as its addresses
  reach, in a buffer of less than 4 GB (depth times words times 4 below 2 ^ 32), never leaves its buffer:
  after any row of writes of whole entries a read returns what was last written to the same masked
  address, and the fill pattern when nothing was.
\<close>

theorem regfile_is_array:
  assumes "addr_sz \<le> 31" "2 ^ unat addr_sz \<le> unat dep" "unat dep * unat ((data_sz + 31) div 32) * 4 < 2 ^ 32"
    and "\<forall>(a, d) \<in> set ws. length d = unat ((data_sz + 31) div 32)"
  shows "\<exists>r r'. regfile_cf_init True True addr_sz data_sz dep = Inr r \<and> regfile_writes r ws = Inr r' \<and>
    (\<forall>a. regfile_cf_sub r' a = Inr
       (case map_of (rev (map (\<lambda>(b, d). (unat b mod 2 ^ unat addr_sz, d)) ws)) (unat a mod 2 ^ unat addr_sz) of
          Some d \<Rightarrow> d | None \<Rightarrow> replicate (unat ((data_sz + 31) div 32)) 0xaaaaaaaa))"
proof -
  let ?w = "(data_sz + 31) div 32 :: u32"
  from regfile_init_ok [OF assms(1-3)] obtain r where r: "regfile_cf_init True True addr_sz data_sz dep = Inr r" "regfile_ok r"
    "data_words r = ?w" "addr_mask r = mask (unat addr_sz)" "buf r = replicate (unat dep * unat ?w) 0xaaaaaaaa" by blast
  have ws: "\<forall>(a, d) \<in> set ws. length d = unat (data_words r)" using assms(4) r(3) by simp
  from writes_entries [OF r(2) ws] obtain r' where r': "regfile_writes r ws = Inr r'" "regfile_ok r'"
    "data_words r' = data_words r" "addr_mask r' = addr_mask r"
    "\<forall>j \<le> unat (addr_mask r). entry r' j =
       (case map_of (rev (map (\<lambda>(a, d). (slot r a, d)) ws)) j of Some d \<Rightarrow> d | None \<Rightarrow> entry r j)" by blast
  have s: "slot r a = unat a mod 2 ^ unat addr_sz" for a
  proof -
    have "mask (unat addr_sz) AND a = take_bit (unat addr_sz) a" by (simp add: take_bit_eq_mask and.commute)
    then have "slot r a = take_bit (unat addr_sz) (unat a)" unfolding slot_def r(4) by (simp only: unsigned_take_bit_eq)
    then show ?thesis by (simp only: take_bit_eq_mod)
  qed
  have e: "entry r (slot r a) = replicate (unat ?w) 0xaaaaaaaa" for a
  proof -
    have "slot r a * unat ?w + unat ?w \<le> unat dep * unat ?w"
      using word_index_slot(2) [OF r(2), of a] by (simp add: r(3,5))
    then show ?thesis by (simp add: entry_def r(3,5) min_def)
  qed
  have "regfile_cf_sub r' a = Inr (case map_of (rev (map (\<lambda>(b, d). (slot r b, d)) ws)) (slot r a) of
      Some d \<Rightarrow> d | None \<Rightarrow> replicate (unat ?w) 0xaaaaaaaa)" for a
    using sub_entry [OF r'(2), of a] r'(4,5) slot_le [of r a] e [of a] by (simp add: slot_def split: option.split)
  with r(1) r'(1) show ?thesis by (simp add: s)
qed

lemma regfile_is_array_witness:
  "\<exists>r r'. regfile_cf_init True True 2 32 4 = Inr r \<and> regfile_writes r [(1, [7]), (5, [8]), (2, [9])] = Inr r' \<and>
     regfile_cf_sub r' 9 = Inr [8] \<and> regfile_cf_sub r' 3 = Inr [0xaaaaaaaa]"
proof -
  let ?ws = "[(1, [7]), (5, [8]), (2, [9])] :: (u32 \<times> u32 list) list"
  have w: "(32 + 31 :: u32) div 32 = 1" by simp
  have "\<forall>(a, d) \<in> set ?ws. length d = unat ((32 + 31 :: u32) div 32)" unfolding w by simp
  moreover have "(2 :: u32) \<le> 31" "2 ^ unat (2 :: u32) \<le> unat (4 :: u32)"
    "unat (4 :: u32) * unat ((32 + 31 :: u32) div 32) * 4 < 2 ^ 32" unfolding w by simp_all
  ultimately obtain r r' where run: "regfile_cf_init True True 2 32 4 = Inr r" "regfile_writes r ?ws = Inr r'"
    "\<forall>a. regfile_cf_sub r' a = Inr
       (case map_of (rev (map (\<lambda>(b, d). (unat b mod 2 ^ unat (2 :: u32), d)) ?ws)) (unat a mod 2 ^ unat (2 :: u32)) of
          Some d \<Rightarrow> d | None \<Rightarrow> replicate (unat ((32 + 31 :: u32) div 32)) 0xaaaaaaaa)"
    using regfile_is_array [of 2 4 32 ?ws] by blast
  from run(3) have "regfile_cf_sub r' 9 = Inr [8]" unfolding w by simp
  moreover from run(3) have "regfile_cf_sub r' 3 = Inr [0xaaaaaaaa]" unfolding w by simp
  ultimately show ?thesis using run(1,2) by blast
qed

text \<open>
  The other cases: an allocation that fails is written through; a size of 4 GB wraps to 0, and the
  first access leaves the buffer.
\<close>

lemma regfile_no_memory:
  "addr_sz \<le> 31 \<Longrightarrow> \<not> (ptr_ok \<and> buf_ok) \<Longrightarrow> regfile_cf_init ptr_ok buf_ok addr_sz data_sz dep = Inl Null_Pointer"
  by (auto simp: regfile_cf_init_def Let_def)

lemma regfile_size_wraps:
  "\<exists>r. regfile_cf_init True True 30 32 0x40000000 = Inr r \<and> regfile_cf_sub r a = Inl Out_Of_Bounds
    \<and> regfile_cf_upd r a d = Inl Out_Of_Bounds"
  by (simp add: regfile_cf_init_def regfile_cf_sub_def regfile_cf_upd_def Let_def)

end
