(* ===== verification/Umf_Message.thy ===== *)
theory Umf_Message
  imports Leap_Prelude Little_Endian
begin

text \<open>
  \<^verbatim>\<open>umf/little-endian\<close>: the messages that host programs and FPGA exchange. A message is a fixed
  buffer with a read and a write index and the fields of its header; clients append machine
  integers, chunks and byte arrays and extract them again. The widths are those of
  \<^verbatim>\<open>umf-little-endian.awb\<close>. The allocator is a pointer that may be NULL. \<^verbatim>\<open>ASSERT\<close>, \<^verbatim>\<open>VERIFYX\<close> and \<^verbatim>\<open>WARN\<close>
  are macros of another package: \<^verbatim>\<open>VERIFYX\<close> ends the program when its condition is false, \<^verbatim>\<open>ASSERT\<close> does
  so in builds with assertions, the argument \<^verbatim>\<open>chk\<close>, and \<^verbatim>\<open>WARN\<close> prints a line, here counted.
\<close>

section \<open>Parameters and state\<close>

type_synonym umf_chunk = u32

definition UMF_CHUNK_BYTES :: nat where "UMF_CHUNK_BYTES = 4"
definition UMF_MAX_MSG_BYTES :: nat where "UMF_MAX_MSG_BYTES = 1024"
definition UMF_CHANNEL_ID_BITS :: nat where "UMF_CHANNEL_ID_BITS = 4"
definition UMF_SERVICE_ID_BITS :: nat where "UMF_SERVICE_ID_BITS = 8"
definition UMF_METHOD_ID_BITS :: nat where "UMF_METHOD_ID_BITS = 4"
definition UMF_MSG_LENGTH_BITS :: nat where "UMF_MSG_LENGTH_BITS = 10"

definition UMF_BIT_MASK :: "nat \<Rightarrow> umf_chunk" where
  "UMF_BIT_MASK x = push_bit x 1 - 1"

record umf_message =
  message :: "u8 list"
  readIndex :: int
  writeIndex :: int
  next_msg :: "nat option"
  allocator :: "nat option"
  channelID :: u32
  serviceID :: u32
  methodID :: u32
  msg_length :: u32
  phyPvt :: umf_chunk
  header :: umf_chunk
  warnings :: nat

text \<open>A message whose memory was set to zero, as the allocator makes them.\<close>

definition zero_message :: umf_message where
  "zero_message = \<lparr>message = replicate UMF_MAX_MSG_BYTES 0, readIndex = 0, writeIndex = 0, next_msg = None, allocator = None,
     channelID = 0, serviceID = 0, methodID = 0, msg_length = 0, phyPvt = 0, header = 0, warnings = 0\<rparr>"

text \<open>
  A failed assertion or verification, an exit, a NULL pointer, an access outside an array, a
  signed overflow.
\<close>

datatype umf_stop = Umf_Assert | Umf_Verify | Umf_Exit int | Umf_Null | Umf_Outside | Umf_Overflow

type_synonym 'a umf = "(umf_message, umf_stop, 'a) prog"

definition look :: "(umf_message \<Rightarrow> 'a) \<Rightarrow> 'a umf" where
  "look f = (\<lambda>m. (Inr (f m), m))"

definition ASSERT :: "bool \<Rightarrow> (umf_message \<Rightarrow> bool) \<Rightarrow> unit umf" where
  "ASSERT chk c = (\<lambda>m. if chk \<and> \<not> c m then (Inl Umf_Assert, m) else (Inr (), m))"

definition VERIFYX :: "(umf_message \<Rightarrow> bool) \<Rightarrow> unit umf" where
  "VERIFYX c = (\<lambda>m. if c m then (Inr (), m) else (Inl Umf_Verify, m))"

definition CallbackExit :: "int \<Rightarrow> 'a umf" where
  "CallbackExit code = (\<lambda>m. case allocator m of None \<Rightarrow> (Inl Umf_Null, m) | Some _ \<Rightarrow> (Inl (Umf_Exit code), m))"

text \<open>
  The indices are signed: adding an \<^verbatim>\<open>int\<close> may overflow, adding a \<^verbatim>\<open>size_t\<close> converts the sum back.
\<close>

definition int_range :: "int \<Rightarrow> bool" where
  "int_range i \<longleftrightarrow> - (2 ^ 31) \<le> i \<and> i < 2 ^ 31"

definition add_int :: "int \<Rightarrow> int \<Rightarrow> int umf" where
  "add_int i n = (if int_range (i + n) then ret (i + n) else raise Umf_Overflow)"

definition add_size :: "int \<Rightarrow> nat \<Rightarrow> int" where
  "add_size i n = sint (word_of_int (i + int n) :: u32)"

definition set_read :: "int \<Rightarrow> unit umf" where
  "set_read i = modify (\<lambda>m. m\<lparr>readIndex := i\<rparr>)"

definition set_write :: "int \<Rightarrow> unit umf" where
  "set_write i = modify (\<lambda>m. m\<lparr>writeIndex := i\<rparr>)"

text \<open>Loads at the read index, stores at the write index; \<^verbatim>\<open>memcpy\<close> takes its count as a \<^verbatim>\<open>size_t\<close>.\<close>

definition load :: "int \<Rightarrow> u8 list umf" where
  "load n = (\<lambda>m. if 0 \<le> n \<and> 0 \<le> readIndex m \<and> readIndex m + n \<le> int UMF_MAX_MSG_BYTES
     then (Inr (take (nat n) (drop (nat (readIndex m)) (message m))), m) else (Inl Umf_Outside, m))"

definition store :: "u8 list \<Rightarrow> unit umf" where
  "store bs = (\<lambda>m. if 0 \<le> writeIndex m \<and> writeIndex m + int (length bs) \<le> int UMF_MAX_MSG_BYTES
     then (let w = nat (writeIndex m) in
       (Inr (), m\<lparr>message := take w (message m) @ bs @ drop (w + length bs) (message m)\<rparr>))
     else (Inl Umf_Outside, m))"

section \<open>Accessors\<close>

definition GetChannelID :: "umf_message \<Rightarrow> int" where "GetChannelID m = sint (channelID m)"
definition GetServiceID :: "umf_message \<Rightarrow> int" where "GetServiceID m = sint (serviceID m)"
definition GetMethodID :: "umf_message \<Rightarrow> int" where "GetMethodID m = sint (methodID m)"
definition GetLength :: "umf_message \<Rightarrow> int" where "GetLength m = sint (msg_length m)"
definition GetPhyPvt :: "umf_message \<Rightarrow> umf_chunk" where "GetPhyPvt m = phyPvt m"
definition GetHeader :: "umf_message \<Rightarrow> umf_chunk" where "GetHeader m = header m"

definition SetChannelID :: "int \<Rightarrow> unit umf" where
  "SetChannelID cid = modify (\<lambda>m. m\<lparr>channelID := word_of_int cid\<rparr>)"
definition SetServiceID :: "int \<Rightarrow> unit umf" where
  "SetServiceID sid = modify (\<lambda>m. m\<lparr>serviceID := word_of_int sid\<rparr>)"
definition SetMethodID :: "int \<Rightarrow> unit umf" where
  "SetMethodID mid = modify (\<lambda>m. m\<lparr>methodID := word_of_int mid\<rparr>)"
definition SetLength :: "int \<Rightarrow> unit umf" where
  "SetLength len = modify (\<lambda>m. m\<lparr>msg_length := word_of_int len\<rparr>)"
definition SetPhyPvt :: "umf_chunk \<Rightarrow> unit umf" where
  "SetPhyPvt p = modify (\<lambda>m. m\<lparr>phyPvt := p\<rparr>)"

definition BytesUnwritten :: "umf_message \<Rightarrow> int" where
  "BytesUnwritten m = sint (msg_length m - word_of_int (writeIndex m))"

definition ExtractBytesLeft :: "umf_message \<Rightarrow> int" where
  "ExtractBytesLeft m = writeIndex m - readIndex m"

definition GetNext :: "umf_message \<Rightarrow> nat option" where "GetNext m = next_msg m"
definition SetNext :: "nat option \<Rightarrow> unit umf" where "SetNext p = modify (\<lambda>m. m\<lparr>next_msg := p\<rparr>)"

text \<open>\<^verbatim>\<open>Clear\<close>, which is also the constructor, keeps the header fields and the buffer.\<close>

definition Clear :: "umf_message \<Rightarrow> umf_message" where
  "Clear m = m\<lparr>msg_length := 0, readIndex := 0, writeIndex := 0\<rparr>"

section \<open>Extracting\<close>

definition StartExtract :: "umf_message \<Rightarrow> umf_message" where
  "StartExtract m = m\<lparr>readIndex := 0\<rparr>"

definition CanExtract :: "int \<Rightarrow> umf_message \<Rightarrow> bool" where
  "CanExtract nbytes m \<longleftrightarrow> nbytes \<le> ExtractBytesLeft m"

definition CheckExtractSanity :: "unit umf" where
  "CheckExtractSanity = modify (\<lambda>m. if word_of_int (writeIndex m) = msg_length m then m
     else m\<lparr>warnings := warnings m + 1\<rparr>)"

definition ExtractBytes :: "int \<Rightarrow> u8 list umf" where
  "ExtractBytes nbytes = andThen CheckExtractSanity
     (bind (load nbytes) (\<lambda>bs. bind (look readIndex) (\<lambda>r.
       bind (add_int r nbytes) (\<lambda>r'. andThen (set_read r') (ret bs)))))"

text \<open>One load of a word of \<^verbatim>\<open>n\<close> bytes, as all the typed extracts do it.\<close>

definition extract_word :: "nat \<Rightarrow> 'a::len word umf" where
  "extract_word n = andThen CheckExtractSanity
     (bind (load (int n)) (\<lambda>bs. bind (look readIndex) (\<lambda>r.
       andThen (set_read (add_size r n)) (ret (le_word bs)))))"

definition ExtractUINT8 :: "u8 umf" where "ExtractUINT8 = extract_word 1"
definition ExtractUINT16 :: "u16 umf" where "ExtractUINT16 = extract_word 2"
definition ExtractUINT32 :: "u32 umf" where "ExtractUINT32 = extract_word 4"
definition ExtractUINT64 :: "u64 umf" where "ExtractUINT64 = extract_word 8"
definition ExtractChunk :: "umf_chunk umf" where "ExtractChunk = extract_word UMF_CHUNK_BYTES"

text \<open>The bound is compared as a \<^verbatim>\<open>size_t\<close>, so a negative count exits too.\<close>

definition ExtractUINT :: "int \<Rightarrow> u64 umf" where
  "ExtractUINT nbytes =
     (if (8 :: u64) < word_of_int nbytes then CallbackExit 1
      else andThen CheckExtractSanity
        (bind (load nbytes) (\<lambda>bs. bind (look readIndex) (\<lambda>r.
          bind (add_int r nbytes) (\<lambda>r'. andThen (set_read r') (ret (le_word bs)))))))"

text \<open>
  Several chunks at once: they have to end where the message, rounded up to chunks, ends. The
  chunks are those at the index before it is moved.
\<close>

definition rounded_length :: "umf_message \<Rightarrow> u32" where
  "rounded_length m = ucast ((ucast (msg_length m) + of_nat UMF_CHUNK_BYTES - 1) AND NOT (of_nat UMF_CHUNK_BYTES - 1) :: u64)"

fun chunks_of :: "u8 list \<Rightarrow> umf_chunk list" where
  "chunks_of (a # b # c # d # bs) = le_word [a, b, c, d] # chunks_of bs"
| "chunks_of _ = []"

definition ExtractChunks :: "int \<Rightarrow> umf_chunk list umf" where
  "ExtractChunks nchunks =
     andThen (VERIFYX (\<lambda>m. word_of_int nchunks * of_nat UMF_CHUNK_BYTES + word_of_int (readIndex m)
         = (ucast (rounded_length m) :: u64)))
     (bind (look readIndex) (\<lambda>r.
      bind (if nchunks < 0 then raise Umf_Outside else load (nchunks * int UMF_CHUNK_BYTES)) (\<lambda>bs.
      andThen (set_read (sint (word_of_int (r + nchunks * int UMF_CHUNK_BYTES) :: u32)))
        (ret (chunks_of bs)))))"

definition ExtractGetRawPtr :: "umf_message \<Rightarrow> int" where
  "ExtractGetRawPtr m = readIndex m"

definition ExtractUpdateRawPtr :: "int \<Rightarrow> unit umf" where
  "ExtractUpdateRawPtr nbytes = andThen CheckExtractSanity
     (bind (look readIndex) (\<lambda>r. bind (add_int r nbytes) set_read))"

section \<open>Appending\<close>

definition StartAppend :: "umf_message \<Rightarrow> umf_message" where
  "StartAppend m = m\<lparr>writeIndex := 0\<rparr>"

definition CanAppend :: "umf_message \<Rightarrow> bool" where
  "CanAppend m \<longleftrightarrow> word_of_int (writeIndex m) < msg_length m"

text \<open>The sum of the two \<^verbatim>\<open>int\<close>s is compared with the length as an unsigned number.\<close>

definition AppendBytes :: "bool \<Rightarrow> int \<Rightarrow> u8 list \<Rightarrow> unit umf" where
  "AppendBytes chk nbytes data =
     bind (look writeIndex) (\<lambda>w.
     andThen (if chk then bind (add_int w nbytes) (\<lambda>w'. ASSERT chk (\<lambda>m. word_of_int w' \<le> msg_length m)) else ret ())
     (andThen (if nbytes < 0 \<or> int (length data) < nbytes then raise Umf_Outside else store (take (nat nbytes) data))
     (bind (add_int w nbytes) set_write)))"

definition append_word :: "bool \<Rightarrow> nat \<Rightarrow> 'a::len word \<Rightarrow> unit umf" where
  "append_word chk n data =
     andThen (ASSERT chk (\<lambda>m. word_of_int (writeIndex m) + of_nat n \<le> (ucast (msg_length m) :: u64)))
     (andThen (store (le_bytes n data))
     (bind (look writeIndex) (\<lambda>w. set_write (add_size w n))))"

definition AppendUINT8 :: "bool \<Rightarrow> u8 \<Rightarrow> unit umf" where "AppendUINT8 chk = append_word chk 1"
definition AppendUINT16 :: "bool \<Rightarrow> u16 \<Rightarrow> unit umf" where "AppendUINT16 chk = append_word chk 2"
definition AppendUINT32 :: "bool \<Rightarrow> u32 \<Rightarrow> unit umf" where "AppendUINT32 chk = append_word chk 4"
definition AppendUINT64 :: "bool \<Rightarrow> u64 \<Rightarrow> unit umf" where "AppendUINT64 chk = append_word chk 8"
definition AppendChunk :: "bool \<Rightarrow> umf_chunk \<Rightarrow> unit umf" where "AppendChunk chk = append_word chk UMF_CHUNK_BYTES"

definition chunk_bytes :: "umf_chunk list \<Rightarrow> u8 list" where
  "chunk_bytes cs = concat (map (le_bytes UMF_CHUNK_BYTES) cs)"

definition AppendChunks :: "bool \<Rightarrow> int \<Rightarrow> umf_chunk list \<Rightarrow> unit umf" where
  "AppendChunks chk nchunks chunks =
     AppendBytes chk (sint (word_of_int (nchunks * int UMF_CHUNK_BYTES) :: u32)) (chunk_bytes chunks)"

definition AppendUINT :: "bool \<Rightarrow> u64 \<Rightarrow> int \<Rightarrow> unit umf" where
  "AppendUINT chk data nbytes =
     (if 8 < nbytes then CallbackExit 1 else AppendBytes chk nbytes (le_bytes 8 data))"

definition AppendGetRawPtr :: "umf_message \<Rightarrow> int" where
  "AppendGetRawPtr m = writeIndex m"

definition AppendUpdateRawPtr :: "bool \<Rightarrow> int \<Rightarrow> unit umf" where
  "AppendUpdateRawPtr chk nbytes = bind (look writeIndex) (\<lambda>w. bind (add_int w nbytes) (\<lambda>w'.
     andThen (ASSERT chk (\<lambda>m. word_of_int w' \<le> msg_length m)) (set_write w')))"

text \<open>
  The loop over all chunks. Every turn that does not stop moves the read index by a chunk, so the
  loop ends; the bytes that a last, partial chunk lacks are taken from the buffer.
\<close>

lemma extract_word_moves:
  "extract_word n m = (Inr x, m') \<Longrightarrow> readIndex m' = add_size (readIndex m) n \<and> writeIndex m' = writeIndex m
     \<and> 0 \<le> readIndex m \<and> message m' = message m \<and> readIndex m + int n \<le> int UMF_MAX_MSG_BYTES"
  by (auto simp: extract_word_def andThen_def bind_def CheckExtractSanity_def load_def look_def set_read_def
      split: if_splits)

lemma add_size_exact [simp]: "0 \<le> i \<Longrightarrow> i + int n < 2 ^ 31 \<Longrightarrow> add_size i n = i + int n"
  unfolding add_size_def sint_sbintrunc' by (rule signed_take_bit_int_eq_self) auto

function extract_loop :: "umf_message \<Rightarrow> (umf_stop + umf_chunk list) \<times> umf_message" where
  "extract_loop m = (if CanExtract 1 m then
     (case ExtractChunk m of
        (Inl e, m1) \<Rightarrow> (Inl e, m1)
      | (Inr c, m1) \<Rightarrow>
          (case extract_loop m1 of (Inl e, m2) \<Rightarrow> (Inl e, m2) | (Inr cs, m2) \<Rightarrow> (Inr (c # cs), m2)))
     else (Inr [], m))"
  by pat_completeness auto
termination
proof (relation "measure (\<lambda>m. nat (writeIndex m - readIndex m))")
  fix m r m1 c
  assume can: "CanExtract 1 m" and run: "(r, m1) = ExtractChunk m" "r = Inr c"
  then have "extract_word 4 m = (Inr c, m1)" by (simp add: ExtractChunk_def UMF_CHUNK_BYTES_def)
  from extract_word_moves [OF this] have "readIndex m1 = readIndex m + 4" "writeIndex m1 = writeIndex m"
    by (auto simp: UMF_MAX_MSG_BYTES_def)
  with can show "(m1, m) \<in> measure (\<lambda>m. nat (writeIndex m - readIndex m))"
    by (simp add: CanExtract_def ExtractBytesLeft_def)
qed simp

declare extract_loop.simps [simp del]

definition ExtractAllChunks :: "(int \<times> umf_chunk list) umf" where
  "ExtractAllChunks = (\<lambda>m. case extract_loop (StartExtract m) of
      (Inl e, m') \<Rightarrow> (Inl e, m')
    | (Inr cs, m') \<Rightarrow> (Inr (int (length cs), cs), m'))"

section \<open>Headers\<close>

text \<open>The fields of a header chunk from the lowest bits up, and the check of the length.\<close>

definition DecodeHeader :: "umf_chunk \<Rightarrow> unit umf" where
  "DecodeHeader chunk =
     andThen (modify (\<lambda>m.
       let rest1 = drop_bit UMF_MSG_LENGTH_BITS chunk;
           rest2 = drop_bit UMF_METHOD_ID_BITS rest1;
           rest3 = drop_bit UMF_SERVICE_ID_BITS rest2
       in m\<lparr>header := chunk,
            msg_length := of_nat UMF_CHUNK_BYTES * (chunk AND UMF_BIT_MASK UMF_MSG_LENGTH_BITS),
            methodID := rest1 AND UMF_BIT_MASK UMF_METHOD_ID_BITS,
            serviceID := rest2 AND UMF_BIT_MASK UMF_SERVICE_ID_BITS,
            channelID := rest3 AND UMF_BIT_MASK UMF_CHANNEL_ID_BITS,
            phyPvt := drop_bit UMF_CHANNEL_ID_BITS rest3\<rparr>))
     (bind (look msg_length) (\<lambda>len. if of_nat UMF_MAX_MSG_BYTES < len then CallbackExit 1 else ret ()))"

definition num_chunks :: "umf_message \<Rightarrow> u32" where
  "num_chunks m = (let n = of_nat UMF_CHUNK_BYTES in
     if msg_length m mod n = 0 then msg_length m div n else msg_length m div n + 1)"

definition EncodeHeaderWithPhyChannelPvt :: "u32 \<Rightarrow> umf_message \<Rightarrow> umf_chunk" where
  "EncodeHeaderWithPhyChannelPvt pvt m =
     (let c1 = push_bit UMF_CHANNEL_ID_BITS pvt OR channelID m;
          c2 = push_bit UMF_SERVICE_ID_BITS c1 OR serviceID m;
          c3 = push_bit UMF_METHOD_ID_BITS c2 OR methodID m
      in push_bit UMF_MSG_LENGTH_BITS c3 OR num_chunks m)"

definition EncodeHeader :: "umf_message \<Rightarrow> umf_chunk" where
  "EncodeHeader m = EncodeHeaderWithPhyChannelPvt 0 m"

text \<open>The versions on byte arrays; the array has to hold a header.\<close>

definition DecodeHeader_bytes :: "u8 list \<Rightarrow> unit umf" where
  "DecodeHeader_bytes hdr = (if length hdr < 4 then raise Umf_Outside else DecodeHeader (le_word (take 4 hdr)))"

definition EncodeHeader_bytes :: "u8 list \<Rightarrow> umf_message \<Rightarrow> umf_stop + u8 list" where
  "EncodeHeader_bytes buf m = (if length buf < 4 then Inl Umf_Outside
     else Inr (le_bytes 4 (EncodeHeader m) @ drop 4 buf))"

text \<open>
  The class \<^verbatim>\<open>UMF_MESSAGE_TEMPLATE_CLASS\<close>, whose four widths are parameters, skips the channel and
  the method and does not check the length.
\<close>

definition template_DecodeHeader :: "nat \<Rightarrow> nat \<Rightarrow> nat \<Rightarrow> nat \<Rightarrow> umf_chunk \<Rightarrow> unit umf" where
  "template_DecodeHeader channelIDBits serviceIDBits methodIDBits msgLengthBits chunk =
     modify (\<lambda>m.
       let rest1 = drop_bit methodIDBits (drop_bit msgLengthBits chunk);
           rest2 = drop_bit serviceIDBits rest1
       in m\<lparr>header := chunk,
            msg_length := of_nat UMF_CHUNK_BYTES * (chunk AND UMF_BIT_MASK msgLengthBits),
            serviceID := rest1 AND UMF_BIT_MASK serviceIDBits,
            phyPvt := drop_bit channelIDBits rest2\<rparr>)"

definition template_EncodeHeader :: "nat \<Rightarrow> nat \<Rightarrow> nat \<Rightarrow> nat \<Rightarrow> u32 \<Rightarrow> umf_message \<Rightarrow> umf_chunk" where
  "template_EncodeHeader channelIDBits serviceIDBits methodIDBits msgLengthBits pvt m =
     (let c1 = push_bit serviceIDBits (push_bit channelIDBits 0) OR serviceID m
      in push_bit msgLengthBits (push_bit methodIDBits c1) OR num_chunks m)"

section \<open>Printing\<close>

definition hex_low :: "nat \<Rightarrow> char" where
  "hex_low n = (if n < 10 then char_of (48 + n) else char_of (87 + n))"

fun show_hex :: "nat \<Rightarrow> string" where
  "show_hex n = (if n < 16 then [hex_low n] else show_hex (n div 16) @ [hex_low (n mod 16)])"

declare show_hex.simps [simp del]

text \<open>\<^verbatim>\<open>hex << setfill('0') << setw(2)\<close>, then a blank.\<close>

definition hex2 :: "nat \<Rightarrow> string" where
  "hex2 n = (let s = show_hex n in replicate (2 - length s) (CHR ''0'') @ s @ '' '')"

definition newline :: string where "newline = [CHR 0x0A]"

definition print_field :: "string \<Rightarrow> u32 \<Rightarrow> string" where
  "print_field label x = label @ show_nat (unat x) @ newline"

definition Print :: "string umf" where
  "Print = (\<lambda>m.
     if UMF_MAX_MSG_BYTES < unat (msg_length m) then (Inl Umf_Outside, m)
     else (Inr (print_field ''channelID: '' (channelID m) @ print_field ''serviceID: '' (serviceID m)
         @ print_field ''methodID : '' (methodID m) @ print_field ''length   : '' (msg_length m)
         @ ''Header   : '' @ hex2 (unat (header m)) @ newline
         @ ''PhyPvt   : '' @ hex2 (unat (phyPvt m)) @ newline
         @ ''Data     : '' @ concat (map (\<lambda>b. hex2 (unat b)) (take (unat (msg_length m)) (message m))) @ newline), m))"

end
