(* ===== verification/Umf_Codec.thy ===== *)
theory Umf_Codec
  imports Umf_Message
begin

text \<open>
  What a message promises: the values appended come out again in order and with their types, no
  append leaves the buffer, chunks, headers.
\<close>

section \<open>Typed items\<close>

datatype umf_item = U8 u8 | U16 u16 | U32 u32 | U64 u64 | UInt nat u64 | Chunk umf_chunk | Bytes "u8 list"

datatype umf_shape = S8 | S16 | S32 | S64 | SInt nat | SChunk | SBytes nat

fun shape_of :: "umf_item \<Rightarrow> umf_shape" where
  "shape_of (U8 x) = S8"
| "shape_of (U16 x) = S16"
| "shape_of (U32 x) = S32"
| "shape_of (U64 x) = S64"
| "shape_of (UInt n x) = SInt n"
| "shape_of (Chunk c) = SChunk"
| "shape_of (Bytes bs) = SBytes (length bs)"

fun item_bytes :: "umf_item \<Rightarrow> u8 list" where
  "item_bytes (U8 x) = le_bytes 1 x"
| "item_bytes (U16 x) = le_bytes 2 x"
| "item_bytes (U32 x) = le_bytes 4 x"
| "item_bytes (U64 x) = le_bytes 8 x"
| "item_bytes (UInt n x) = le_bytes n x"
| "item_bytes (Chunk c) = le_bytes 4 c"
| "item_bytes (Bytes bs) = bs"

text \<open>A number given with its size fits that size, and no item is longer than an \<^verbatim>\<open>int\<close> can say.\<close>

fun item_ok :: "umf_item \<Rightarrow> bool" where
  "item_ok (UInt n x) \<longleftrightarrow> n \<le> 8 \<and> take_bit (8 * n) x = x"
| "item_ok (Bytes bs) \<longleftrightarrow> length bs < 2 ^ 30"
| "item_ok _ \<longleftrightarrow> True"

definition item_size :: "umf_item \<Rightarrow> nat" where "item_size it = length (item_bytes it)"

fun append_item :: "bool \<Rightarrow> umf_item \<Rightarrow> unit umf" where
  "append_item chk (U8 x) = AppendUINT8 chk x"
| "append_item chk (U16 x) = AppendUINT16 chk x"
| "append_item chk (U32 x) = AppendUINT32 chk x"
| "append_item chk (U64 x) = AppendUINT64 chk x"
| "append_item chk (UInt n x) = AppendUINT chk x (int n)"
| "append_item chk (Chunk c) = AppendChunk chk c"
| "append_item chk (Bytes bs) = AppendBytes chk (int (length bs)) bs"

definition fmap :: "('a \<Rightarrow> 'b) \<Rightarrow> 'a umf \<Rightarrow> 'b umf" where
  "fmap f p = bind p (\<lambda>x. ret (f x))"

fun extract_item :: "umf_shape \<Rightarrow> umf_item umf" where
  "extract_item S8 = fmap U8 ExtractUINT8"
| "extract_item S16 = fmap U16 ExtractUINT16"
| "extract_item S32 = fmap U32 ExtractUINT32"
| "extract_item S64 = fmap U64 ExtractUINT64"
| "extract_item (SInt n) = fmap (UInt n) (ExtractUINT (int n))"
| "extract_item SChunk = fmap Chunk ExtractChunk"
| "extract_item (SBytes n) = fmap Bytes (ExtractBytes (int n))"

fun appends :: "bool \<Rightarrow> umf_item list \<Rightarrow> unit umf" where
  "appends chk [] = ret ()"
| "appends chk (it # its) = andThen (append_item chk it) (appends chk its)"

fun extracts :: "umf_shape list \<Rightarrow> umf_item list umf" where
  "extracts [] = ret []"
| "extracts (s # ss) = bind (extract_item s) (\<lambda>it. bind (extracts ss) (\<lambda>its. ret (it # its)))"

section \<open>The buffer as bytes\<close>

definition msg_ok :: "umf_message \<Rightarrow> bool" where
  "msg_ok m \<longleftrightarrow> length (message m) = UMF_MAX_MSG_BYTES \<and> 0 \<le> readIndex m \<and> 0 \<le> writeIndex m \<and> writeIndex m \<le> int UMF_MAX_MSG_BYTES"

definition written :: "umf_message \<Rightarrow> u8 list" where
  "written m = take (nat (writeIndex m)) (message m)"

text \<open>The message with bytes appended, and with bytes read over.\<close>

definition put :: "u8 list \<Rightarrow> umf_message \<Rightarrow> umf_message" where
  "put bs m = (let w = nat (writeIndex m) in
     m\<lparr>message := take w (message m) @ bs @ drop (w + length bs) (message m), writeIndex := writeIndex m + int (length bs)\<rparr>)"

definition skip :: "nat \<Rightarrow> umf_message \<Rightarrow> umf_message" where
  "skip n m = m\<lparr>readIndex := readIndex m + int n,
     warnings := warnings m + (if word_of_int (writeIndex m) = msg_length m then 0 else 1)\<rparr>"

lemma put_fields [simp]:
  "writeIndex (put bs m) = writeIndex m + int (length bs)" "readIndex (put bs m) = readIndex m"
  "msg_length (put bs m) = msg_length m" "warnings (put bs m) = warnings m" "allocator (put bs m) = allocator m"
  by (simp_all add: put_def Let_def)

lemma skip_fields [simp]:
  "writeIndex (skip n m) = writeIndex m" "readIndex (skip n m) = readIndex m + int n"
  "msg_length (skip n m) = msg_length m" "message (skip n m) = message m"
  by (simp_all add: skip_def)

lemma put_ok:
  assumes "msg_ok m" "writeIndex m + int (length bs) \<le> int UMF_MAX_MSG_BYTES"
  shows "msg_ok (put bs m)" "written (put bs m) = written m @ bs"
proof -
  have w: "nat (writeIndex m) \<le> length (message m)" "nat (writeIndex m) + length bs \<le> length (message m)"
    "0 \<le> writeIndex m" using assms by (auto simp: msg_ok_def)
  show "msg_ok (put bs m)" using assms w by (auto simp: msg_ok_def put_def Let_def min_def)
  show "written (put bs m) = written m @ bs"
    using w by (cases bs) (auto simp: written_def put_def Let_def nat_add_distrib min_def)
qed

section \<open>One append, one extract\<close>

lemma le_unat_int: "n \<le> unat (w :: 'a::len word) \<longleftrightarrow> int n \<le> uint w"
proof -
  have "int (unat w) = uint w" by simp
  then show ?thesis by linarith
qed

lemma chk_word:
  assumes "0 \<le> w" "w \<le> int UMF_MAX_MSG_BYTES" "n \<le> 8"
  shows "word_of_int w + of_nat n \<le> (ucast (l :: u32) :: u64) \<longleftrightarrow> w + int n \<le> int (unat l)"
proof -
  have e: "word_of_int w + of_nat n = (word_of_int (w + int n) :: u64)" by simp
  have u: "uint (word_of_int (w + int n) :: u64) = w + int n"
    using assms by (simp add: uint_word_of_int_eq UMF_MAX_MSG_BYTES_def take_bit_int_eq_self del: of_int_add)
  show ?thesis by (simp only: e word_le_def u) (simp add: uint_up_ucast is_up_def source_size_def target_size_def word_size)
qed

lemma chk_int:
  assumes "0 \<le> w" "w < 2 ^ 32"
  shows "word_of_int w \<le> (l :: u32) \<longleftrightarrow> w \<le> int (unat l)"
  using assms by (simp add: word_le_def uint_word_of_int_eq take_bit_int_eq_self)

lemma append_word_run:
  assumes "msg_ok m" "n \<le> 8"
  shows "append_word chk n x m = (if chk \<and> \<not> writeIndex m + int n \<le> int (unat (msg_length m)) then (Inl Umf_Assert, m)
    else if writeIndex m + int n \<le> int UMF_MAX_MSG_BYTES then (Inr (), put (le_bytes n x) m) else (Inl Umf_Outside, m))"
proof -
  have w: "0 \<le> writeIndex m" "writeIndex m \<le> int UMF_MAX_MSG_BYTES" using assms(1) by (auto simp: msg_ok_def)
  have "add_size (writeIndex m) n = writeIndex m + int n"
    by (rule add_size_exact) (use w assms(2) in \<open>auto simp: UMF_MAX_MSG_BYTES_def\<close>)
  with w show ?thesis
    by (simp add: append_word_def andThen_def bind_def ASSERT_def store_def look_def set_write_def chk_word [OF w assms(2)]
        put_def Let_def)
qed

lemma AppendBytes_run:
  assumes "msg_ok m" "length bs < 2 ^ 30" "n \<le> length bs"
  shows "AppendBytes chk (int n) bs m =
    (if chk \<and> \<not> writeIndex m + int n \<le> int (unat (msg_length m)) then (Inl Umf_Assert, m)
     else if writeIndex m + int n \<le> int UMF_MAX_MSG_BYTES then (Inr (), put (take n bs) m) else (Inl Umf_Outside, m))"
proof -
  have w: "0 \<le> writeIndex m" "writeIndex m \<le> int UMF_MAX_MSG_BYTES" using assms(1) by (auto simp: msg_ok_def)
  then have r: "int_range (writeIndex m + int n)" using assms(2,3) by (simp add: int_range_def UMF_MAX_MSG_BYTES_def)
  have c: "word_of_int (writeIndex m + int n) \<le> msg_length m \<longleftrightarrow> writeIndex m + int n \<le> int (unat (msg_length m))"
    by (rule chk_int) (use w assms(2,3) in \<open>auto simp: UMF_MAX_MSG_BYTES_def\<close>)
  from w r c assms(3) show ?thesis
    by (simp add: AppendBytes_def andThen_def bind_def ASSERT_def store_def look_def set_write_def add_int_def
        put_def Let_def min_def del: of_int_add)
qed

lemma append_item_run:
  assumes "msg_ok m" "item_ok it"
  shows "append_item chk it m =
    (if chk \<and> \<not> writeIndex m + int (item_size it) \<le> int (unat (msg_length m)) then (Inl Umf_Assert, m)
     else if writeIndex m + int (item_size it) \<le> int UMF_MAX_MSG_BYTES then (Inr (), put (item_bytes it) m)
     else (Inl Umf_Outside, m))"
  using assms
  by (cases it) (auto simp: AppendUINT8_def AppendUINT16_def AppendUINT32_def AppendUINT64_def AppendChunk_def
      AppendUINT_def UMF_CHUNK_BYTES_def item_size_def append_word_run AppendBytes_run take_le_bytes)

text \<open>The bytes that were appended and not extracted yet.\<close>

definition unread :: "umf_message \<Rightarrow> u8 list" where
  "unread m = drop (nat (readIndex m)) (written m)"

lemma load_run:
  assumes "msg_ok m" "readIndex m + int n \<le> writeIndex m"
  shows "load (int n) m = (Inr (take n (unread m)), m)"
proof -
  have "min n (nat (writeIndex m) - nat (readIndex m)) = n" using assms by (auto simp: msg_ok_def)
  then have "take n (drop (nat (readIndex m)) (message m)) = take n (unread m)"
    by (simp add: unread_def written_def drop_take)
  with assms show ?thesis by (simp add: load_def msg_ok_def)
qed

lemma sanity_load:
  assumes "msg_ok m" "readIndex m + int n \<le> writeIndex m"
  shows "andThen CheckExtractSanity (bind (load (int n)) (\<lambda>bs. bind (look readIndex) (\<lambda>r. f bs r))) m =
    f (take n (unread m)) (readIndex m) (m\<lparr>warnings := warnings (skip n m)\<rparr>)"
proof -
  let ?m = "m\<lparr>warnings := warnings (skip n m)\<rparr>"
  have "CheckExtractSanity m = (Inr (), ?m)" by (simp add: CheckExtractSanity_def skip_def)
  moreover have "msg_ok ?m" "readIndex ?m + int n \<le> writeIndex ?m" "unread ?m = unread m"
    using assms by (simp_all add: msg_ok_def unread_def written_def)
  ultimately show ?thesis by (simp add: andThen_def bind_def load_run look_def)
qed

lemma in_int:
  assumes "msg_ok m" "readIndex m + int n \<le> writeIndex m"
  shows "add_size (readIndex m) n = readIndex m + int n" "int_range (readIndex m + int n)"
  using assms by (auto simp: msg_ok_def UMF_MAX_MSG_BYTES_def int_range_def)

lemma extract_word_run:
  assumes "msg_ok m" "readIndex m + int n \<le> writeIndex m"
  shows "extract_word n m = (Inr (le_word (take n (unread m))), skip n m)"
  unfolding extract_word_def sanity_load [OF assms]
  using assms by (simp add: in_int andThen_def bind_def set_read_def skip_def)

lemma ExtractBytes_run:
  assumes "msg_ok m" "readIndex m + int n \<le> writeIndex m"
  shows "ExtractBytes (int n) m = (Inr (take n (unread m)), skip n m)"
  unfolding ExtractBytes_def sanity_load [OF assms]
  using assms by (simp add: in_int andThen_def bind_def set_read_def add_int_def skip_def)

lemma ExtractUINT_run:
  assumes "msg_ok m" "readIndex m + int n \<le> writeIndex m" "n \<le> 8"
  shows "ExtractUINT (int n) m = (Inr (le_word (take n (unread m))), skip n m)"
proof -
  have neg: "\<not> (8 :: u64) < word_of_int (int n)"
    using assms(3) by (simp add: word_less_nat_alt unat_of_nat take_bit_nat_eq_self)
  show ?thesis
    unfolding ExtractUINT_def if_not_P [OF neg] sanity_load [OF assms(1,2)]
    using assms(1,2) by (simp add: in_int andThen_def bind_def set_read_def add_int_def skip_def)
qed

lemma extract_item_run:
  assumes "msg_ok m" "readIndex m \<le> writeIndex m" "item_ok it" "unread m = item_bytes it @ rest"
  shows "extract_item (shape_of it) m = (Inr it, skip (item_size it) m)"
    and "msg_ok (skip (item_size it) m)" "unread (skip (item_size it) m) = rest"
    "readIndex (skip (item_size it) m) \<le> writeIndex m"
proof -
  let ?n = "item_size it"
  have "length (unread m) = nat (writeIndex m) - nat (readIndex m)"
    using assms(1) by (simp add: unread_def written_def msg_ok_def min_absorb2 nat_le_iff)
  with assms have r: "readIndex m + int ?n \<le> writeIndex m" by (auto simp: item_size_def msg_ok_def)
  then show "msg_ok (skip ?n m)" "readIndex (skip ?n m) \<le> writeIndex m" using assms(1) by (auto simp: msg_ok_def)
  have "unread (skip ?n m) = drop ?n (unread m)"
    using assms(1) by (simp add: unread_def written_def nat_add_distrib msg_ok_def add.commute)
  with assms(4) show "unread (skip ?n m) = rest" by (simp add: item_size_def)
  show "extract_item (shape_of it) m = (Inr it, skip ?n m)"
    using assms r by (cases it)
      (auto simp: ExtractUINT8_def ExtractUINT16_def ExtractUINT32_def ExtractUINT64_def ExtractChunk_def
        UMF_CHUNK_BYTES_def item_size_def fmap_def bind_def extract_word_run [where 'a = 8] extract_word_run [where 'a = 16]
        extract_word_run [where 'a = 32] extract_word_run [where 'a = 64] ExtractBytes_run ExtractUINT_run le_word_take take_bit_word_eq_self)
qed

section \<open>Sequences\<close>

definition total :: "umf_item list \<Rightarrow> nat" where "total its = sum_list (map item_size its)"

definition items_bytes :: "umf_item list \<Rightarrow> u8 list" where "items_bytes its = concat (map item_bytes its)"

lemma items_bytes_length: "length (items_bytes its) = total its"
  by (simp add: items_bytes_def total_def length_concat comp_def item_size_def [abs_def])

lemma put_put: "msg_ok m \<Longrightarrow> writeIndex m + int (length as + length bs) \<le> int UMF_MAX_MSG_BYTES \<Longrightarrow>
  put bs (put as m) = put (as @ bs) m"
  by (auto simp: put_def Let_def nat_add_distrib msg_ok_def min_def drop_drop ac_simps)

lemma appends_run:
  assumes "msg_ok m" "\<forall>it \<in> set its. item_ok it" "msg_length m \<le> of_nat UMF_MAX_MSG_BYTES"
    "writeIndex m + int (total its) \<le> int (unat (msg_length m))"
  shows "appends chk its m = (Inr (), put (items_bytes its) m)"
  using assms
proof (induction its arbitrary: m)
  case Nil
  then show ?case by (simp add: put_def items_bytes_def)
next
  case (Cons it its)
  let ?m = "put (item_bytes it) m"
  have len: "int (unat (msg_length m)) \<le> int UMF_MAX_MSG_BYTES"
    using Cons.prems(3) by (simp add: word_le_def UMF_MAX_MSG_BYTES_def)
  have fit: "writeIndex m + int (item_size it + total its) \<le> int (unat (msg_length m))"
    using Cons.prems(4) by (simp add: total_def)
  then have one: "append_item chk it m = (Inr (), ?m)"
    using append_item_run [of m it chk] Cons.prems(1,2) len by simp
  have "msg_ok ?m" using put_ok(1) [OF Cons.prems(1), of "item_bytes it"] fit len by (simp add: item_size_def)
  then have "appends chk its ?m = (Inr (), put (items_bytes its) ?m)"
    using Cons.IH Cons.prems(2,3) fit by (simp add: item_size_def)
  moreover have "put (items_bytes its) ?m = put (items_bytes (it # its)) m"
    using put_put [OF Cons.prems(1), of "item_bytes it" "items_bytes its"] fit len
    by (simp add: items_bytes_length item_size_def) (simp add: items_bytes_def)
  ultimately show ?case using one by (simp add: andThen_Inr)
qed

text \<open>With assertions the first item that does not fit stops the sequence.\<close>

lemma appends_checked:
  assumes "msg_ok m" "\<forall>it \<in> set its. item_ok it" "msg_length m \<le> of_nat UMF_MAX_MSG_BYTES"
    "writeIndex m \<le> int (unat (msg_length m))" "int (unat (msg_length m)) < writeIndex m + int (total its)"
  shows "fst (appends True its m) = Inl Umf_Assert"
  using assms
proof (induction its arbitrary: m)
  case (Cons it its)
  let ?m = "put (item_bytes it) m"
  have len: "int (unat (msg_length m)) \<le> int UMF_MAX_MSG_BYTES"
    using Cons.prems(3) by (simp add: word_le_def UMF_MAX_MSG_BYTES_def)
  show ?case
  proof (cases "writeIndex m + int (item_size it) \<le> int (unat (msg_length m))")
    case True
    with append_item_run [of m it True] Cons.prems(1,2) len have one: "append_item True it m = (Inr (), ?m)" by simp
    have "msg_ok ?m" using put_ok(1) [OF Cons.prems(1), of "item_bytes it"] True len by (simp add: item_size_def)
    then have "fst (appends True its ?m) = Inl Umf_Assert"
      using Cons.IH Cons.prems True by (simp add: item_size_def total_def)
    with one show ?thesis by (simp add: andThen_Inr)
  next
    case False
    with append_item_run [of m it True] Cons.prems(1,2) have "append_item True it m = (Inl Umf_Assert, m)" by simp
    then show ?thesis by (simp add: andThen_Inl)
  qed
qed (simp add: total_def)

lemma extracts_run:
  assumes "msg_ok m" "readIndex m \<le> writeIndex m" "\<forall>it \<in> set its. item_ok it" "unread m = items_bytes its @ rest"
  shows "\<exists>m'. extracts (map shape_of its) m = (Inr its, m') \<and> unread m' = rest \<and> msg_ok m' \<and>
    readIndex m' \<le> writeIndex m' \<and> message m' = message m \<and>
    (word_of_int (writeIndex m) = msg_length m \<longrightarrow> warnings m' = warnings m)"
  using assms
proof (induction its arbitrary: m)
  case (Cons it its)
  let ?m = "skip (item_size it) m"
  have "unread m = item_bytes it @ items_bytes its @ rest" using Cons.prems(4) by (simp add: items_bytes_def)
  note one = extract_item_run [OF Cons.prems(1,2) _ this]
  have ok: "item_ok it" using Cons.prems(3) by simp
  obtain m' where rest: "extracts (map shape_of its) ?m = (Inr its, m')" "unread m' = rest" "msg_ok m'"
    "readIndex m' \<le> writeIndex m'" "message m' = message ?m"
    "word_of_int (writeIndex ?m) = msg_length ?m \<longrightarrow> warnings m' = warnings ?m"
    using Cons.IH [OF one(2) _ _ one(3)] one(4) ok Cons.prems(3) by auto
  have "extracts (map shape_of (it # its)) m = (Inr (it # its), m')"
    by (simp add: bind_def one(1) [OF ok] rest(1))
  with rest show ?case by (auto simp: skip_def)
qed (simp add: items_bytes_def)

section \<open>Chunks\<close>

lemma le_bytes_4: "le_bytes 4 c = [ucast c, ucast (drop_bit 8 c), ucast (drop_bit 16 c), ucast (drop_bit 24 c)]"
  by (simp add: le_bytes_def upt_rec)

lemma chunks_of_bytes [simp]: "chunks_of (le_bytes 4 c @ bs) = c # chunks_of bs"
  using le_word_bytes [of 4 c] by (simp add: le_bytes_4)

lemma chunk_bytes_simps [simp]: "chunk_bytes [] = []" "chunk_bytes (c # cs) = le_bytes 4 c @ chunk_bytes cs"
  by (simp_all add: chunk_bytes_def UMF_CHUNK_BYTES_def)

lemma chunk_bytes_length [simp]: "length (chunk_bytes cs) = 4 * length cs"
  by (induction cs) auto

lemma chunks_of_chunk_bytes [simp]: "chunks_of (chunk_bytes cs) = cs"
  by (induction cs) auto

lemma chunks_of_take:
  assumes "4 \<le> length xs"
  shows "chunks_of (take (4 * Suc k) xs) = le_word (take 4 xs) # chunks_of (take (4 * k) (drop 4 xs))"
proof -
  obtain a b c d ys where "xs = a # b # c # d # ys"
    using assms by (auto simp: numeral_eq_Suc Suc_le_length_iff)
  moreover have "4 * Suc k = Suc (Suc (Suc (Suc (4 * k))))" by simp
  ultimately show ?thesis by (simp del: mult_Suc_right)
qed

lemma chunk_bytes_chunks_of: "length bs = 4 * k \<Longrightarrow> chunk_bytes (chunks_of bs) = bs \<and> length (chunks_of bs) = k"
proof (induction k arbitrary: bs)
  case (Suc k)
  then have "chunks_of (take (4 * Suc k) bs) = le_word (take 4 bs) # chunks_of (take (4 * k) (drop 4 bs))"
    by (intro chunks_of_take) simp
  with Suc.prems Suc.IH [of "drop 4 bs"] show ?case by (simp add: le_bytes_word)
qed simp

lemma ExtractChunk_run:
  assumes "msg_ok m" "readIndex m + 4 \<le> int UMF_MAX_MSG_BYTES"
  shows "ExtractChunk m = (Inr (le_word (take 4 (drop (nat (readIndex m)) (message m)))), skip 4 m)"
proof -
  have "add_size (readIndex m) 4 = readIndex m + int 4"
    by (rule add_size_exact) (use assms in \<open>auto simp: msg_ok_def UMF_MAX_MSG_BYTES_def\<close>)
  with assms show ?thesis
    by (simp add: ExtractChunk_def UMF_CHUNK_BYTES_def extract_word_def andThen_def bind_def CheckExtractSanity_def
        load_def look_def set_read_def skip_def msg_ok_def)
qed

lemma extract_loop_run:
  assumes "msg_ok m" "readIndex m = 4 * int j" "4 * j < nat (writeIndex m) + 4"
  shows "\<exists>m'. extract_loop m = (Inr (chunks_of (take (4 * ((nat (writeIndex m) + 3) div 4 - j)) (drop (4 * j) (message m)))), m')
    \<and> message m' = message m \<and> writeIndex m' = writeIndex m"
  using assms
proof (induction m arbitrary: j rule: extract_loop.induct)
  case (1 m)
  let ?w = "nat (writeIndex m)"
  have w: "?w \<le> 1024" "writeIndex m = int ?w" using "1.prems"(1) by (auto simp: msg_ok_def UMF_MAX_MSG_BYTES_def)
  show ?case
  proof (cases "CanExtract 1 m")
    case True
    then have j: "4 * j < ?w" "4 * j + 4 \<le> 1024" using w "1.prems"(2) by (auto simp: CanExtract_def ExtractBytesLeft_def)
    have run: "ExtractChunk m = (Inr (le_word (take 4 (drop (4 * j) (message m)))), skip 4 m)"
      using ExtractChunk_run [OF "1.prems"(1)] "1.prems"(2) j by (simp add: UMF_MAX_MSG_BYTES_def nat_mult_distrib)
    have "msg_ok (skip 4 m)" using "1.prems"(1) by (simp add: msg_ok_def)
    with "1.IH" [OF True run [symmetric] refl, of "Suc j"] j "1.prems"(2) obtain m' where
      "extract_loop (skip 4 m) = (Inr (chunks_of (take (4 * ((?w + 3) div 4 - Suc j)) (drop (4 * Suc j) (message m)))), m')"
      "message m' = message m" "writeIndex m' = writeIndex m" by auto
    moreover have "(?w + 3) div 4 - j = Suc ((?w + 3) div 4 - Suc j)" using j by linarith
    moreover have "4 \<le> length (drop (4 * j) (message m))" using j "1.prems"(1) by (simp add: msg_ok_def UMF_MAX_MSG_BYTES_def)
    moreover have "4 + 4 * j = 4 * Suc j" by simp
    ultimately show ?thesis using True run
      by (simp add: extract_loop.simps [of m] chunks_of_take del: mult_Suc_right)
  next
    case False
    then have "?w \<le> 4 * j" using w "1.prems"(2) by (auto simp: CanExtract_def ExtractBytesLeft_def)
    then have "(?w + 3) div 4 - j = 0" by linarith
    with False show ?thesis by (simp add: extract_loop.simps [of m])
  qed
qed

lemma ExtractAllChunks_run:
  assumes "msg_ok m" "k = (nat (writeIndex m) + 3) div 4"
  shows "\<exists>m'. ExtractAllChunks m = (Inr (int k, chunks_of (take (4 * k) (message m))), m')"
proof -
  have k: "4 * k \<le> length (message m)" using assms by (auto simp: msg_ok_def UMF_MAX_MSG_BYTES_def)
  have "msg_ok (StartExtract m)" using assms(1) by (simp add: msg_ok_def StartExtract_def)
  from extract_loop_run [OF this, of 0] assms(2) obtain m' where
    "extract_loop (StartExtract m) = (Inr (chunks_of (take (4 * k) (message m))), m')" by (auto simp: StartExtract_def)
  moreover have "length (chunks_of (take (4 * k) (message m))) = k"
    using chunk_bytes_chunks_of [of "take (4 * k) (message m)" k] k by simp
  ultimately show ?thesis by (simp add: ExtractAllChunks_def)
qed

section \<open>Headers\<close>

lemma small_field: "unat w < 2 ^ n \<Longrightarrow> take_bit n (w :: 'a::len word) = w"
  by (simp add: word_unat_eq_iff unsigned_take_bit_eq take_bit_nat_eq_self)

lemma bit_small: "unat w < 2 ^ n \<Longrightarrow> bit (w :: 'a::len word) k \<Longrightarrow> k < n"
  by (metis small_field bit_take_bit_iff)

lemma field_split:
  assumes "unat (a :: u32) < 2 ^ (32 - n)" "unat b < 2 ^ n" "n < 32"
  shows "drop_bit n (push_bit n a OR b) = a" "(push_bit n a OR b) AND UMF_BIT_MASK n = b"
proof -
  have m: "UMF_BIT_MASK n = mask n" by (simp add: UMF_BIT_MASK_def mask_eq_exp_minus_1 push_bit_eq_mult)
  show "drop_bit n (push_bit n a OR b) = a"
    by (rule bit_word_eqI) (use assms(3) in \<open>auto simp: bit_drop_bit_eq bit_or_iff bit_push_bit_iff
      dest: bit_small [OF assms(1)] bit_small [OF assms(2)]\<close>)
  show "(push_bit n a OR b) AND UMF_BIT_MASK n = b"
    by (rule bit_word_eqI) (use assms(3) in \<open>auto simp: m bit_and_iff bit_mask_iff bit_or_iff bit_push_bit_iff
      dest: bit_small [OF assms(2)]\<close>)
qed

lemma field_bound:
  assumes "unat (a :: u32) < 2 ^ k" "unat b < 2 ^ n" "n + k \<le> 32"
  shows "unat (push_bit n a OR b) < 2 ^ (k + n)"
proof -
  have "take_bit (k + n) (push_bit n a OR b) = push_bit n a OR b"
    by (rule bit_word_eqI) (use assms(3) in \<open>auto simp: bit_take_bit_iff bit_or_iff bit_push_bit_iff
      dest: bit_small [OF assms(1)] bit_small [OF assms(2)]\<close>)
  then have "unat (push_bit n a OR b) = take_bit (k + n) (unat (push_bit n a OR b))"
    by (metis unsigned_take_bit_eq)
  then show ?thesis by (metis take_bit_nat_less_exp)
qed

lemma num_chunks_unat: "unat (num_chunks m) = (unat (msg_length m) + 3) div 4"
proof -
  have "unat (msg_length m) < 4294967296" using unsigned_less [of "msg_length m"] by simp
  then have "unat (msg_length m) div 4 < 1073741824" by linarith
  moreover have "unat (msg_length m mod 4) = unat (msg_length m) mod 4" "unat (msg_length m div 4) = unat (msg_length m) div 4"
    by (simp_all add: unat_mod_distrib unat_div_distrib)
  moreover have "x div 4 = (x + 3) div 4" if "x mod 4 = 0" for x :: nat using that by presburger
  moreover have "Suc (x div 4) = (x + 3) div 4" if "0 < x mod 4" for x :: nat using that by presburger
  ultimately show ?thesis
    by (auto simp: num_chunks_def UMF_CHUNK_BYTES_def word_unat_eq_iff unat_word_ariths)
qed

text \<open>What decoding the header of a message leaves in the message it is decoded into.\<close>

definition header_of :: "u32 \<Rightarrow> umf_message \<Rightarrow> umf_message \<Rightarrow> umf_message" where
  "header_of pvt m m0 = m0\<lparr>header := EncodeHeaderWithPhyChannelPvt pvt m, msg_length := 4 * num_chunks m,
     methodID := methodID m, serviceID := serviceID m, channelID := channelID m, phyPvt := pvt\<rparr>"

definition fields_fit :: "umf_message \<Rightarrow> bool" where
  "fields_fit m \<longleftrightarrow> unat (channelID m) < 2 ^ 4 \<and> unat (serviceID m) < 2 ^ 8 \<and> unat (methodID m) < 2 ^ 4"

lemma header_fields:
  assumes "fields_fit m" "unat pvt < 2 ^ 6" "unat (msg_length m) \<le> UMF_MAX_MSG_BYTES"
  shows "DecodeHeader (EncodeHeaderWithPhyChannelPvt pvt m) m0 = (Inr (), header_of pvt m m0)"
    "unat (msg_length (header_of pvt m m0)) = 4 * ((unat (msg_length m) + 3) div 4)"
proof -
  define c1 where "c1 = push_bit 4 pvt OR channelID m"
  define c2 where "c2 = push_bit 8 c1 OR serviceID m"
  define c3 where "c3 = push_bit 4 c2 OR methodID m"
  define c where "c = push_bit 10 c3 OR num_chunks m"
  let ?n = "num_chunks m"
  have fit: "unat (channelID m) < 2 ^ 4" "unat (serviceID m) < 2 ^ 8" "unat (methodID m) < 2 ^ 4"
    using assms(1) by (simp_all add: fields_fit_def)
  have n: "unat ?n \<le> 256" using assms(3) by (simp add: num_chunks_unat UMF_MAX_MSG_BYTES_def)
  have b1: "unat c1 < 2 ^ 10" using field_bound [OF assms(2) fit(1)] by (simp add: c1_def)
  have b2: "unat c2 < 2 ^ 18" using field_bound [OF b1 fit(2)] by (simp add: c2_def)
  have b3: "unat c3 < 2 ^ 22" using field_bound [OF b2 fit(3)] by (simp add: c3_def)
  have n10: "unat ?n < 2 ^ 10" using n by simp
  have s: "drop_bit 10 c = c3" "c AND UMF_BIT_MASK 10 = ?n"
    unfolding c_def using b3 n10 by (intro field_split; simp)+
  have s3: "drop_bit 4 c3 = c2" "c3 AND UMF_BIT_MASK 4 = methodID m"
    unfolding c3_def using b2 fit(3) by (intro field_split; simp)+
  have s2: "drop_bit 8 c2 = c1" "c2 AND UMF_BIT_MASK 8 = serviceID m"
    unfolding c2_def using b1 fit(2) by (intro field_split; simp)+
  have s1: "drop_bit 4 c1 = pvt" "c1 AND UMF_BIT_MASK 4 = channelID m"
    unfolding c1_def using assms(2) fit(1) by (intro field_split; simp)+
  have s4: "drop_bit 12 c3 = c1" "drop_bit 16 c3 = pvt"
    using drop_bit_drop_bit [of 8 4 c3] drop_bit_drop_bit [of 4 12 c3] s1(1) s2(1) s3(1) by simp_all
  have e: "EncodeHeaderWithPhyChannelPvt pvt m = c"
    by (simp only: EncodeHeaderWithPhyChannelPvt_def c_def c3_def c2_def c1_def Let_def
        UMF_MSG_LENGTH_BITS_def UMF_METHOD_ID_BITS_def UMF_SERVICE_ID_BITS_def UMF_CHANNEL_ID_BITS_def)
  have u: "unat (4 * ?n) = 4 * unat ?n" using n by (simp add: unat_word_ariths)
  then show "unat (msg_length (header_of pvt m m0)) = 4 * ((unat (msg_length m) + 3) div 4)"
    by (simp add: header_of_def num_chunks_unat)
  have "\<not> (of_nat UMF_MAX_MSG_BYTES :: u32) < 4 * ?n" using u n by (simp add: word_less_nat_alt UMF_MAX_MSG_BYTES_def)
  then show "DecodeHeader (EncodeHeaderWithPhyChannelPvt pvt m) m0 = (Inr (), header_of pvt m m0)"
    by (simp add: DecodeHeader_def andThen_def bind_def Let_def look_def e header_of_def
        UMF_CHUNK_BYTES_def UMF_MSG_LENGTH_BITS_def UMF_METHOD_ID_BITS_def UMF_SERVICE_ID_BITS_def UMF_CHANNEL_ID_BITS_def
        s s1 s2 s3 s4)
qed

section \<open>Properties\<close>

lemma round_trip_run:
  assumes "msg_ok m" "\<forall>it \<in> set its. item_ok it" "total its \<le> unat (msg_length m)" "unat (msg_length m) \<le> UMF_MAX_MSG_BYTES"
  shows "\<exists>m1 m2. appends chk its (StartAppend m) = (Inr (), m1) \<and> extracts (map shape_of its) (StartExtract m1) = (Inr its, m2)
    \<and> msg_ok m1 \<and> written m1 = items_bytes its \<and> writeIndex m1 = int (total its) \<and> unread m2 = [] \<and> msg_ok m2
    \<and> readIndex m2 \<le> writeIndex m2
    \<and> msg_length m1 = msg_length m \<and> channelID m1 = channelID m \<and> serviceID m1 = serviceID m \<and> methodID m1 = methodID m
    \<and> (total its = unat (msg_length m) \<longrightarrow> warnings m2 = warnings m)"
proof -
  let ?m = "StartAppend m" let ?m1 = "put (items_bytes its) ?m"
  have ok: "msg_ok ?m" "written ?m = []" "writeIndex ?m = 0" "msg_length ?m = msg_length m"
    using assms(1) by (simp_all add: msg_ok_def StartAppend_def written_def)
  have "msg_length ?m \<le> of_nat UMF_MAX_MSG_BYTES"
    using assms(4) ok by (simp add: word_le_nat_alt UMF_MAX_MSG_BYTES_def)
  with appends_run [OF ok(1) assms(2)] assms(3) ok le_unat_int [of "total its" "msg_length m"] have app: "appends chk its ?m = (Inr (), ?m1)" by simp
  have fit: "writeIndex ?m + int (length (items_bytes its)) \<le> int UMF_MAX_MSG_BYTES"
    using assms(3,4) ok by (simp add: items_bytes_length)
  have m1: "msg_ok ?m1" "written ?m1 = items_bytes its" "writeIndex ?m1 = int (total its)"
    using put_ok [OF ok(1) fit] ok by (simp_all add: items_bytes_length)
  have ex: "msg_ok (StartExtract ?m1)" "unread (StartExtract ?m1) = items_bytes its @ []" "readIndex (StartExtract ?m1) \<le> writeIndex (StartExtract ?m1)"
    using m1 by (simp_all add: StartExtract_def msg_ok_def unread_def written_def)
  from extracts_run [OF ex(1,3) assms(2) ex(2)] obtain m2 where
    m2: "extracts (map shape_of its) (StartExtract ?m1) = (Inr its, m2)" "unread m2 = []" "msg_ok m2" "readIndex m2 \<le> writeIndex m2"
      "word_of_int (writeIndex (StartExtract ?m1)) = msg_length (StartExtract ?m1) \<longrightarrow> warnings m2 = warnings (StartExtract ?m1)"
    by auto
  have "warnings m2 = warnings m" if "total its = unat (msg_length m)"
    using m2(5) that by (simp add: StartExtract_def StartAppend_def items_bytes_length)
  with app m1 m2 show ?thesis
    by (intro exI [of _ ?m1] exI [of _ m2]) (simp add: put_def Let_def StartAppend_def)
qed

lemma all_read: "msg_ok m \<Longrightarrow> readIndex m \<le> writeIndex m \<Longrightarrow> unread m = [] \<Longrightarrow> \<not> CanExtract 1 m"
  by (auto simp: CanExtract_def ExtractBytesLeft_def unread_def written_def msg_ok_def)

text \<open>
  Whatever values are appended to a message whose length covers them, extracting with the same
  types gives the same values in order and nothing is left; when they fill the message no warning
  is printed. Room is left exactly when the length was larger.
\<close>

theorem items_round_trip:
  assumes "msg_ok m" "\<forall>it \<in> set its. item_ok it" "total its \<le> unat (msg_length m)" "unat (msg_length m) \<le> UMF_MAX_MSG_BYTES"
  shows "\<exists>m1 m2. appends chk its (StartAppend m) = (Inr (), m1) \<and> extracts (map shape_of its) (StartExtract m1) = (Inr its, m2)
    \<and> \<not> CanExtract 1 m2 \<and> (CanAppend m1 \<longleftrightarrow> total its < unat (msg_length m))
    \<and> (total its = unat (msg_length m) \<longrightarrow> warnings m2 = warnings m)"
proof -
  from round_trip_run [OF assms, of chk] obtain m1 m2 where
    run: "appends chk its (StartAppend m) = (Inr (), m1)" "extracts (map shape_of its) (StartExtract m1) = (Inr its, m2)"
      "writeIndex m1 = int (total its)" "unread m2 = []" "msg_ok m2" "readIndex m2 \<le> writeIndex m2" "msg_length m1 = msg_length m"
      "total its = unat (msg_length m) \<longrightarrow> warnings m2 = warnings m" by blast
  have "unat (word_of_nat (total its) :: u32) = total its"
    using assms(3,4) by (simp add: unat_of_nat take_bit_nat_eq_self UMF_MAX_MSG_BYTES_def)
  then have "CanAppend m1 \<longleftrightarrow> total its < unat (msg_length m)" using run(3,7) by (simp add: CanAppend_def word_less_nat_alt)
  with run all_read [OF run(5,6,4)] show ?thesis by blast
qed

definition example_items :: "umf_item list" where
  "example_items = [U8 7, U16 0x1234, Bytes [1, 2, 3], UInt 3 0x0A0B0C, Chunk 9]"

definition example_message :: umf_message where
  "example_message = zero_message\<lparr>msg_length := 13, channelID := 1, serviceID := 200, methodID := 3\<rparr>"

lemma example_ok: "msg_ok example_message" "\<forall>it \<in> set example_items. item_ok it" "total example_items = 13"
  "msg_length example_message = 13" "warnings example_message = 0"
  by (auto simp: msg_ok_def example_message_def zero_message_def example_items_def total_def item_size_def
      take_bit_eq_mod)

lemma items_round_trip_witness:
  "\<exists>m1 m2. appends True example_items (StartAppend example_message) = (Inr (), m1) \<and>
     extracts [S8, S16, SBytes 3, SInt 3, SChunk] (StartExtract m1) = (Inr example_items, m2)
     \<and> \<not> CanExtract 1 m2 \<and> \<not> CanAppend m1 \<and> warnings m2 = 0"
proof -
  have "map shape_of example_items = [S8, S16, SBytes 3, SInt 3, SChunk]" by (simp add: example_items_def)
  then show ?thesis using items_round_trip [OF example_ok(1,2), of True] example_ok(3-5) by (simp add: UMF_MAX_MSG_BYTES_def)
qed

text \<open>
  C26. In a build with assertions appending any values to a message whose length is at most the
  size of the buffer either succeeds, exactly when the values fit the length, or ends with a
  failed assertion: no store leaves the buffer.
\<close>

theorem appends_guarded:
  assumes "msg_ok m" "\<forall>it \<in> set its. item_ok it" "unat (msg_length m) \<le> UMF_MAX_MSG_BYTES"
  shows "fst (appends True its (StartAppend m)) = (if total its \<le> unat (msg_length m) then Inr () else Inl Umf_Assert)"
proof (cases "total its \<le> unat (msg_length m)")
  case True
  then show ?thesis using round_trip_run [OF assms(1,2) True assms(3), of True] by auto
next
  case False
  have "msg_ok (StartAppend m)" "msg_length (StartAppend m) \<le> of_nat UMF_MAX_MSG_BYTES"
    using assms(1,3) by (simp_all add: msg_ok_def StartAppend_def word_le_nat_alt UMF_MAX_MSG_BYTES_def)
  from appends_checked [OF this(1) assms(2) this(2)] False le_unat_int [of "total its" "msg_length m"]
  show ?thesis by (simp add: StartAppend_def)
qed

lemma appends_guarded_witness:
  "fst (appends True (example_items @ [U8 0]) (StartAppend example_message)) = Inl Umf_Assert"
  using appends_guarded [of example_message "example_items @ [U8 0]"] example_ok
  by (simp add: UMF_MAX_MSG_BYTES_def total_def item_size_def)

section \<open>Over a channel\<close>

text \<open>
  What a channel does with a message: the sender hands over the header and all its chunks, the
  receiver decodes the header into a fresh message and appends the chunks.
\<close>

definition wire_send :: "u32 \<Rightarrow> (umf_chunk \<times> umf_chunk list) umf" where
  "wire_send pvt = (\<lambda>m. bind ExtractAllChunks (\<lambda>r. ret (EncodeHeaderWithPhyChannelPvt pvt m, snd r)) m)"

definition wire_receive :: "bool \<Rightarrow> umf_chunk \<times> umf_chunk list \<Rightarrow> unit umf" where
  "wire_receive chk pkt = andThen (modify Clear) (andThen (DecodeHeader (fst pkt)) (andThen (modify StartAppend)
     (AppendChunks chk (int (length (snd pkt))) (snd pkt))))"

lemma AppendChunks_run:
  assumes "msg_ok m" "writeIndex m = 0" "int (4 * length cs) \<le> uint (msg_length m)" "4 * length cs \<le> UMF_MAX_MSG_BYTES"
  shows "AppendChunks chk (int (length cs)) cs m = (Inr (), put (chunk_bytes cs) m)"
proof -
  have "sint (word_of_int (int (length cs) * 4) :: u32) = int (4 * length cs)"
    using assms(4) unfolding sint_sbintrunc' by (simp add: signed_take_bit_int_eq_self UMF_MAX_MSG_BYTES_def)
  then have "AppendChunks chk (int (length cs)) cs = AppendBytes chk (int (4 * length cs)) (chunk_bytes cs)"
    by (simp add: AppendChunks_def UMF_CHUNK_BYTES_def)
  moreover have "AppendBytes chk (int (4 * length cs)) (chunk_bytes cs) m = (Inr (), put (chunk_bytes cs) m)"
    using AppendBytes_run [OF assms(1), of "chunk_bytes cs" "4 * length cs" chk] assms(2-4) by (simp add: UMF_MAX_MSG_BYTES_def)
  ultimately show ?thesis by simp
qed

lemma wire_send_run:
  assumes "msg_ok m" "writeIndex m = int (unat (msg_length m))" "k = (unat (msg_length m) + 3) div 4" "4 * k \<le> UMF_MAX_MSG_BYTES"
  obtains cs m2 where "wire_send pvt m = (Inr (EncodeHeaderWithPhyChannelPvt pvt m, cs), m2)" "length cs = k"
    "chunk_bytes cs = take (4 * k) (message m)"
proof -
  have "length (chunks_of (take (4 * k) (message m))) = k" "chunk_bytes (chunks_of (take (4 * k) (message m))) = take (4 * k) (message m)"
    using chunk_bytes_chunks_of [of "take (4 * k) (message m)" k] assms(1,4) by (simp_all add: msg_ok_def)
  moreover obtain m2 where "ExtractAllChunks m = (Inr (int k, chunks_of (take (4 * k) (message m))), m2)"
    using ExtractAllChunks_run [OF assms(1), of k] assms(2,3) by auto
  ultimately show thesis using that by (simp add: wire_send_def bind_def)
qed

lemma wire_receive_run:
  assumes "fields_fit m" "unat pvt < 2 ^ 6" "unat (msg_length m) \<le> UMF_MAX_MSG_BYTES" "length (message r) = UMF_MAX_MSG_BYTES"
    "length cs = k" "k = (unat (msg_length m) + 3) div 4" "4 * k \<le> UMF_MAX_MSG_BYTES"
  obtains r1 where "wire_receive chk (EncodeHeaderWithPhyChannelPvt pvt m, cs) r = (Inr (), r1)" "msg_ok r1" "written r1 = chunk_bytes cs"
    "channelID r1 = channelID m \<and> serviceID r1 = serviceID m \<and> methodID r1 = methodID m \<and> phyPvt r1 = pvt"
    "unat (msg_length r1) = 4 * k" "\<not> CanAppend r1"
proof -
  let ?r = "header_of pvt m (Clear r)" let ?r1 = "put (chunk_bytes cs) (StartAppend ?r)"
  have hd: "DecodeHeader (EncodeHeaderWithPhyChannelPvt pvt m) (Clear r) = (Inr (), ?r)" "unat (msg_length ?r) = 4 * k"
    using header_fields [of m pvt "Clear r"] assms by simp_all
  have r: "msg_ok (StartAppend ?r)" "writeIndex (StartAppend ?r) = 0"
    using assms(4) by (simp_all add: msg_ok_def StartAppend_def header_of_def Clear_def)
  have "int (4 * length cs) \<le> uint (msg_length (StartAppend ?r))"
    using hd(2) assms(5) le_unat_int [of "4 * k" "msg_length ?r"] by (simp add: StartAppend_def)
  from AppendChunks_run [OF r this] assms(5,7) have "AppendChunks chk (int (length cs)) cs (StartAppend ?r) = (Inr (), ?r1)" by simp
  then have "wire_receive chk (EncodeHeaderWithPhyChannelPvt pvt m, cs) r = (Inr (), ?r1)"
    by (simp add: wire_receive_def andThen_def bind_def hd(1))
  moreover have "msg_ok ?r1" "written ?r1 = chunk_bytes cs"
    using put_ok [OF r(1), of "chunk_bytes cs"] r assms(5,7) by (simp_all add: written_def)
  moreover have "unat (word_of_nat (4 * k) :: u32) = 4 * k"
    using assms(7) by (simp add: unat_of_nat take_bit_nat_eq_self UMF_MAX_MSG_BYTES_def del: of_nat_mult)
  then have "\<not> CanAppend ?r1" using hd(2) r(2) assms(5)
    by (simp add: CanAppend_def word_less_nat_alt StartAppend_def del: of_nat_mult)
  moreover have "channelID ?r1 = channelID m \<and> serviceID ?r1 = serviceID m \<and> methodID ?r1 = methodID m \<and> phyPvt ?r1 = pvt"
    by (simp add: put_def Let_def StartAppend_def header_of_def)
  moreover have "unat (msg_length ?r1) = 4 * k" using hd(2) by (simp add: StartAppend_def)
  ultimately show thesis using that by blast
qed

text \<open>
  C24. A message filled with values, sent as its header and its chunks and received into any other
  message, arrives with its channel, service and method and gives the same values; its length is
  rounded up to whole chunks.
\<close>

theorem message_over_channel:
  assumes "msg_ok m" "fields_fit m" "unat pvt < 2 ^ 6" "unat (msg_length m) \<le> UMF_MAX_MSG_BYTES"
    "\<forall>it \<in> set its. item_ok it" "total its = unat (msg_length m)" "length (message r) = UMF_MAX_MSG_BYTES"
  shows "\<exists>m1 pkt m2 r1 r2. appends chk its (StartAppend m) = (Inr (), m1) \<and> wire_send pvt m1 = (Inr pkt, m2)
    \<and> wire_receive chk pkt r = (Inr (), r1) \<and> extracts (map shape_of its) (StartExtract r1) = (Inr its, r2)
    \<and> channelID r1 = channelID m \<and> serviceID r1 = serviceID m \<and> methodID r1 = methodID m \<and> phyPvt r1 = pvt
    \<and> unat (msg_length r1) = 4 * ((unat (msg_length m) + 3) div 4) \<and> \<not> CanAppend r1"
proof -
  have "total its \<le> unat (msg_length m)" using assms(6) by simp
  from round_trip_run [OF assms(1,5) this assms(4), of chk] obtain m1 where m1:
    "appends chk its (StartAppend m) = (Inr (), m1)" "msg_ok m1" "written m1 = items_bytes its"
    "writeIndex m1 = int (total its)" "msg_length m1 = msg_length m" "channelID m1 = channelID m"
    "serviceID m1 = serviceID m" "methodID m1 = methodID m" by blast
  define k where "k = (unat (msg_length m1) + 3) div 4"
  have k: "4 * k \<le> UMF_MAX_MSG_BYTES" "total its \<le> 4 * k" using assms(4,6) m1(5) by (simp_all add: k_def UMF_MAX_MSG_BYTES_def)
  have "fields_fit m1" "writeIndex m1 = int (unat (msg_length m1))" "unat (msg_length m1) \<le> UMF_MAX_MSG_BYTES"
    using assms(2,4,6) m1 by (simp_all add: fields_fit_def)
  note m1' = this
  obtain cs m2 where send: "wire_send pvt m1 = (Inr (EncodeHeaderWithPhyChannelPvt pvt m1, cs), m2)" "length cs = k"
    "chunk_bytes cs = take (4 * k) (message m1)" by (rule wire_send_run [OF m1(2) m1'(2) k_def k(1)])
  obtain r1 where r1: "wire_receive chk (EncodeHeaderWithPhyChannelPvt pvt m1, cs) r = (Inr (), r1)" "msg_ok r1" "written r1 = chunk_bytes cs"
    "channelID r1 = channelID m1 \<and> serviceID r1 = serviceID m1 \<and> methodID r1 = methodID m1 \<and> phyPvt r1 = pvt"
    "unat (msg_length r1) = 4 * k" "\<not> CanAppend r1"
    by (rule wire_receive_run [OF m1'(1) assms(3) m1'(3) assms(7) send(2) k_def k(1)])
  have "items_bytes its = take (total its) (message m1)" using m1(3,4) by (simp add: written_def)
  with k(2) have "take (4 * k) (message m1) = items_bytes its @ drop (total its) (take (4 * k) (message m1))"
    by (metis append_take_drop_id min.absorb1 take_take)
  then have un: "unread (StartExtract r1) = items_bytes its @ drop (total its) (take (4 * k) (message m1))"
    using r1(3) send(3) by (simp add: unread_def StartExtract_def written_def)
  have "msg_ok (StartExtract r1)" "readIndex (StartExtract r1) \<le> writeIndex (StartExtract r1)"
    using r1(2) by (simp_all add: msg_ok_def StartExtract_def)
  from extracts_run [OF this assms(5) un] obtain r2 where "extracts (map shape_of its) (StartExtract r1) = (Inr its, r2)" by blast
  then show ?thesis using m1 send(1) r1 unfolding k_def by (metis (no_types, lifting))
qed

lemma message_over_channel_witness:
  "\<exists>m1 pkt m2 r1 r2. appends True example_items (StartAppend example_message) = (Inr (), m1) \<and> wire_send 5 m1 = (Inr pkt, m2)
    \<and> wire_receive True pkt zero_message = (Inr (), r1) \<and> extracts [S8, S16, SBytes 3, SInt 3, SChunk] (StartExtract r1) = (Inr example_items, r2)
    \<and> channelID r1 = 1 \<and> serviceID r1 = 200 \<and> methodID r1 = 3 \<and> phyPvt r1 = 5 \<and> unat (msg_length r1) = 16 \<and> \<not> CanAppend r1"
proof -
  have "map shape_of example_items = [S8, S16, SBytes 3, SInt 3, SChunk]" by (simp add: example_items_def)
  moreover have "fields_fit example_message" "length (message zero_message) = UMF_MAX_MSG_BYTES"
    "channelID example_message = 1" "serviceID example_message = 200" "methodID example_message = 3"
    by (simp_all add: fields_fit_def example_message_def zero_message_def)
  ultimately show ?thesis
    using message_over_channel [OF example_ok(1) _ _ _ example_ok(2), of 5 zero_message True] example_ok(3-5)
    by (simp add: UMF_MAX_MSG_BYTES_def)
qed

lemma decode_long:
  assumes "256 < unat (chunk AND UMF_BIT_MASK UMF_MSG_LENGTH_BITS)"
  shows "fst (DecodeHeader chunk m) = Inl (if allocator m = None then Umf_Null else Umf_Exit 1)"
    "unat (4 * (chunk AND UMF_BIT_MASK UMF_MSG_LENGTH_BITS)) = 4 * unat (chunk AND UMF_BIT_MASK UMF_MSG_LENGTH_BITS)"
proof -
  let ?n = "chunk AND UMF_BIT_MASK UMF_MSG_LENGTH_BITS"
  have "?n = take_bit 10 chunk" by (simp add: UMF_BIT_MASK_def UMF_MSG_LENGTH_BITS_def take_bit_eq_mask mask_eq_exp_minus_1)
  then have "unat ?n < 1024" using take_bit_nat_less_exp [of 10 "unat chunk"] by (simp add: unsigned_take_bit_eq)
  then show len: "unat (4 * ?n) = 4 * unat ?n" by (simp add: unat_word_ariths)
  have "(of_nat UMF_MAX_MSG_BYTES :: u32) < 4 * ?n" using len assms by (simp add: word_less_nat_alt UMF_MAX_MSG_BYTES_def)
  then show "fst (DecodeHeader chunk m) = Inl (if allocator m = None then Umf_Null else Umf_Exit 1)"
    by (auto simp: DecodeHeader_def andThen_def bind_def look_def Let_def UMF_CHUNK_BYTES_def CallbackExit_def)
qed

text \<open>
  A header whose length field is larger than the buffer ends the program in \<^verbatim>\<open>DecodeHeader\<close>,
  through the allocator, which must not be NULL; the class \<^verbatim>\<open>UMF_MESSAGE_TEMPLATE_CLASS\<close> takes it, and a
  later append leaves the buffer although assertions are on.
\<close>

theorem long_header:
  assumes "length (message m) = UMF_MAX_MSG_BYTES" "256 < unat (chunk AND UMF_BIT_MASK UMF_MSG_LENGTH_BITS)"
  shows "fst (DecodeHeader chunk m) = Inl (if allocator m = None then Umf_Null else Umf_Exit 1) \<and>
    (\<exists>m'. template_DecodeHeader cb sb mb UMF_MSG_LENGTH_BITS chunk m = (Inr (), m') \<and>
       fst (AppendBytes True 1025 (replicate 1025 x) (StartAppend m')) = Inl Umf_Outside)"
proof -
  let ?n = "chunk AND UMF_BIT_MASK UMF_MSG_LENGTH_BITS"
  obtain m' where m': "template_DecodeHeader cb sb mb UMF_MSG_LENGTH_BITS chunk m = (Inr (), m')"
    "msg_length m' = 4 * ?n" "message m' = message m"
    by (simp add: template_DecodeHeader_def Let_def UMF_CHUNK_BYTES_def)
  have "(1025 :: u32) \<le> msg_length m'" using decode_long(2) [OF assms(2)] assms(2) m'(2) by (simp add: word_le_nat_alt)
  then have "fst (AppendBytes True 1025 (replicate 1025 x) (StartAppend m')) = Inl Umf_Outside"
    by (simp add: AppendBytes_def andThen_def bind_def look_def StartAppend_def add_int_def int_range_def ASSERT_def
        store_def UMF_MAX_MSG_BYTES_def)
  with decode_long(1) [OF assms(2)] m'(1) show ?thesis by blast
qed

lemma long_header_witness:
  "fst (DecodeHeader 257 zero_message) = Inl Umf_Null \<and>
    (\<exists>m'. template_DecodeHeader 4 8 4 UMF_MSG_LENGTH_BITS 257 zero_message = (Inr (), m') \<and>
       fst (AppendBytes True 1025 (replicate 1025 7) (StartAppend m')) = Inl Umf_Outside)"
proof -
  have "length (message zero_message) = UMF_MAX_MSG_BYTES" "allocator zero_message = None" by (simp_all add: zero_message_def)
  moreover have "256 < unat (257 AND UMF_BIT_MASK UMF_MSG_LENGTH_BITS)" by (simp add: UMF_BIT_MASK_def UMF_MSG_LENGTH_BITS_def)
  ultimately show ?thesis using long_header [of zero_message 257 4 8 4 7] by simp
qed

end
