(* ===== verification/Umf_Allocator.thy ===== *)
theory Umf_Allocator
  imports Umf_Message Umf_Codec "HOL-Library.Multiset"
begin

text \<open>
  \<^verbatim>\<open>umf-allocator.h\<close>, \<^verbatim>\<open>umf-allocator.cpp\<close> and the factory: a pool of messages behind \<^verbatim>\<open>operator new\<close> and
  \<^verbatim>\<open>operator delete\<close>. Messages are addresses in a heap. The free list \<^verbatim>\<open>ASIM_FREE_LIST_CLASS\<close> belongs to
  another package: its state is a type parameter, its operations \<^verbatim>\<open>pop\<close> and \<^verbatim>\<open>push\<close> are arguments, and
  \<^verbatim>\<open>free_list_laws\<close> says that it hands out what was put into it, in any order. The answers of \<^verbatim>\<open>malloc\<close>,
  by the number of the call, are an argument too; memory that was freed is not given out again.
\<close>

section \<open>The pool\<close>

record 'f umf_pool =
  objects :: "nat \<Rightarrow> umf_message option"
  freeList :: 'f
  mallocs :: nat
  parent :: "nat option"

type_synonym ('f, 'a) pool_prog = "('f umf_pool, umf_stop, 'a) prog"

type_synonym 'f popper = "'f \<Rightarrow> nat option \<times> 'f"

definition free_list_laws :: "'f popper \<Rightarrow> (nat \<Rightarrow> 'f \<Rightarrow> 'f) \<Rightarrow> ('f \<Rightarrow> nat multiset) \<Rightarrow> bool" where
  "free_list_laws pop push bag \<longleftrightarrow>
     (\<forall>f a f'. pop f = (Some a, f') \<longrightarrow> bag f = add_mset a (bag f')) \<and>
     (\<forall>f f'. pop f = (None, f') \<longrightarrow> bag f = {#} \<and> bag f' = {#}) \<and>
     (\<forall>a f. bag (push a f) = add_mset a (bag f))"

definition malloc_laws :: "(nat \<Rightarrow> nat option) \<Rightarrow> bool" where
  "malloc_laws ml \<longleftrightarrow> (\<forall>i j a. ml i = Some a \<and> ml j = Some a \<longrightarrow> i = j)"

definition UMF_POOL_SIZE :: nat where "UMF_POOL_SIZE = 8192"

text \<open>\<^verbatim>\<open>memset (malloc (sizeof (UMF_MESSAGE_CLASS)), 0, ...)\<close>: without memory it stores through NULL.\<close>

definition zeroed_message :: "(nat \<Rightarrow> nat option) \<Rightarrow> ('f, nat) pool_prog" where
  "zeroed_message ml = (\<lambda>p. case ml (mallocs p) of
       None \<Rightarrow> (Inl Umf_Null, p\<lparr>mallocs := mallocs p + 1\<rparr>)
     | Some a \<Rightarrow> (Inr a, p\<lparr>mallocs := mallocs p + 1, objects := (objects p)(a \<mapsto> zero_message)\<rparr>))"

definition upd_message :: "nat \<Rightarrow> (umf_message \<Rightarrow> umf_message) \<Rightarrow> ('f, unit) pool_prog" where
  "upd_message a f = modify (\<lambda>p. p\<lparr>objects := (objects p)(a := map_option f (objects p a))\<rparr>)"

definition setAllocator :: "nat option \<Rightarrow> umf_message \<Rightarrow> umf_message" where
  "setAllocator al m = m\<lparr>allocator := al\<rparr>"

text \<open>
  One turn of the constructor: the allocator is entered into the message, which is then set to
  zero a second time. The link of the free list, not looked at here, becomes NULL as well.
\<close>

definition pool_add :: "(nat \<Rightarrow> nat option) \<Rightarrow> (nat \<Rightarrow> 'f \<Rightarrow> 'f) \<Rightarrow> nat \<Rightarrow> ('f, unit) pool_prog" where
  "pool_add ml push self = bind (zeroed_message ml) (\<lambda>a.
     andThen (upd_message a (setAllocator (Some self)))
     (andThen (upd_message a (\<lambda>_. zero_message))
       (modify (\<lambda>p. p\<lparr>freeList := push a (freeList p)\<rparr>))))"

fun pool_fill :: "(nat \<Rightarrow> nat option) \<Rightarrow> (nat \<Rightarrow> 'f \<Rightarrow> 'f) \<Rightarrow> nat \<Rightarrow> nat \<Rightarrow> ('f, unit) pool_prog" where
  "pool_fill ml push self 0 = ret ()"
| "pool_fill ml push self (Suc n) = andThen (pool_add ml push self) (pool_fill ml push self n)"

definition pool_construct :: "(nat \<Rightarrow> nat option) \<Rightarrow> (nat \<Rightarrow> 'f \<Rightarrow> 'f) \<Rightarrow> nat \<Rightarrow> ('f, unit) pool_prog" where
  "pool_construct ml push self = pool_fill ml push self UMF_POOL_SIZE"

definition pool_Init :: "nat \<Rightarrow> ('f, unit) pool_prog" where
  "pool_Init p0 = modify (\<lambda>p. p\<lparr>parent := Some p0\<rparr>)"

section \<open>Allocation\<close>

definition pool_New :: "(nat \<Rightarrow> nat option) \<Rightarrow> 'f popper \<Rightarrow> nat \<Rightarrow> ('f, nat) pool_prog" where
  "pool_New ml pop self = (\<lambda>p. case pop (freeList p) of
       (Some a, f) \<Rightarrow> (Inr a, p\<lparr>freeList := f\<rparr>)
     | (None, f) \<Rightarrow> bind (zeroed_message ml) (\<lambda>a. andThen (upd_message a (setAllocator (Some self))) (ret a))
         (p\<lparr>freeList := f\<rparr>))"

definition pool_Delete :: "(nat \<Rightarrow> 'f \<Rightarrow> 'f) \<Rightarrow> nat \<Rightarrow> ('f, unit) pool_prog" where
  "pool_Delete push a = modify (\<lambda>p. p\<lparr>freeList := push a (freeList p)\<rparr>)"

text \<open>
  \<^verbatim>\<open>operator new\<close> for the size \<^verbatim>\<open>n\<close>, of a class whose objects have the size \<^verbatim>\<open>own\<close>; a class derived from
  it inherits the operator. \<^verbatim>\<open>new UMF_MESSAGE_CLASS ()\<close> runs the constructor on the result.
\<close>

definition operator_new :: "bool \<Rightarrow> nat \<Rightarrow> nat \<Rightarrow> (nat \<Rightarrow> nat option) \<Rightarrow> 'f popper \<Rightarrow> nat \<Rightarrow> ('f, nat) pool_prog" where
  "operator_new chk own n ml pop self = (if chk \<and> n \<noteq> own then raise Umf_Assert else pool_New ml pop self)"

definition operator_delete :: "(nat \<Rightarrow> 'f \<Rightarrow> 'f) \<Rightarrow> nat \<Rightarrow> ('f, unit) pool_prog" where
  "operator_delete push a = pool_Delete push a"

definition createUMFMessage :: "bool \<Rightarrow> nat \<Rightarrow> (nat \<Rightarrow> nat option) \<Rightarrow> 'f popper \<Rightarrow> nat \<Rightarrow> ('f, nat) pool_prog" where
  "createUMFMessage chk own ml pop self =
     bind (operator_new chk own own ml pop self) (\<lambda>a. andThen (upd_message a Clear) (ret a))"

text \<open>The destructor frees what is in the list, however long that takes.\<close>

partial_function (option) pool_destruct :: "'f popper \<Rightarrow> 'f umf_pool \<Rightarrow> 'f umf_pool option" where
  "pool_destruct pop p = (case pop (freeList p) of
       (None, f) \<Rightarrow> Some (p\<lparr>freeList := f\<rparr>)
     | (Some a, f) \<Rightarrow> pool_destruct pop (p\<lparr>freeList := f, objects := (objects p)(a := None)\<rparr>))"

section \<open>Messages in use\<close>

text \<open>
  The states a program reaches that deletes only messages it was given and changes only those;
  the second component is the set of messages in use. Clients cannot change the allocator.
\<close>

inductive pool_reach ::
  "(nat \<Rightarrow> nat option) \<Rightarrow> 'f popper \<Rightarrow> (nat \<Rightarrow> 'f \<Rightarrow> 'f) \<Rightarrow> ('f \<Rightarrow> nat multiset) \<Rightarrow> nat \<Rightarrow> nat \<Rightarrow> 'f umf_pool \<Rightarrow> nat set \<Rightarrow> bool"
  for ml pop push bag self own
where
  start: "\<lbrakk>bag f = {#}; pool_construct ml push self \<lparr>objects = \<lambda>_. None, freeList = f, mallocs = 0, parent = None\<rparr> = (Inr (), p)\<rbrakk>
    \<Longrightarrow> pool_reach ml pop push bag self own p {}"
| init: "\<lbrakk>pool_reach ml pop push bag self own p U; pool_Init q p = (Inr (), p')\<rbrakk> \<Longrightarrow> pool_reach ml pop push bag self own p' U"
| create: "\<lbrakk>pool_reach ml pop push bag self own p U; createUMFMessage chk own ml pop self p = (Inr a, p')\<rbrakk>
    \<Longrightarrow> pool_reach ml pop push bag self own p' (insert a U)"
| change: "\<lbrakk>pool_reach ml pop push bag self own p U; a \<in> U; objects p a = Some m; allocator m' = allocator m\<rbrakk>
    \<Longrightarrow> pool_reach ml pop push bag self own (p\<lparr>objects := (objects p)(a \<mapsto> m')\<rparr>) U"
| delete: "\<lbrakk>pool_reach ml pop push bag self own p U; a \<in> U; operator_delete push a p = (Inr (), p')\<rbrakk>
    \<Longrightarrow> pool_reach ml pop push bag self own p' (U - {a})"

text \<open>
  Every message is either free, once, or in use; they are the results of the calls of \<^verbatim>\<open>malloc\<close> so
  far, and those of the constructor have no allocator.
\<close>

definition pool_ok :: "(nat \<Rightarrow> nat option) \<Rightarrow> ('f \<Rightarrow> nat multiset) \<Rightarrow> nat \<Rightarrow> nat \<Rightarrow> 'f umf_pool \<Rightarrow> nat set \<Rightarrow> bool" where
  "pool_ok ml bag self n p U \<longleftrightarrow>
     (\<forall>a. count (bag (freeList p)) a + (if a \<in> U then 1 else 0) = (if a \<in> dom (objects p) then 1 else 0)) \<and>
     (\<forall>a m. objects p a = Some m \<longrightarrow> (\<exists>i < mallocs p. ml i = Some a \<and> allocator m = (if i < n then None else Some self))) \<and>
     n \<le> mallocs p"

lemma pool_okD:
  "pool_ok ml bag self n p U \<Longrightarrow> objects p a = Some m \<Longrightarrow>
     \<exists>i < mallocs p. ml i = Some a \<and> allocator m = (if i < n then None else Some self)"
  by (simp add: pool_ok_def)

lemma fresh_address:
  assumes "malloc_laws ml" "pool_ok ml bag self n p U" "ml (mallocs p) = Some a"
  shows "objects p a = None" "a \<notin> U" "count (bag (freeList p)) a = 0"
proof -
  show "objects p a = None"
  proof (rule ccontr)
    assume "objects p a \<noteq> None"
    then obtain m where "objects p a = Some m" by blast
    from pool_okD [OF assms(2) this] obtain i where "i < mallocs p" "ml i = Some a" by blast
    with assms(1,3) show False by (auto simp: malloc_laws_def)
  qed
  moreover have "count (bag (freeList p)) a + (if a \<in> U then 1 else 0) = (if a \<in> dom (objects p) then 1 else 0)"
    using assms(2) by (simp add: pool_ok_def)
  ultimately show "a \<notin> U" "count (bag (freeList p)) a = 0" by (auto split: if_splits)
qed

lemma pool_add_ok:
  assumes "free_list_laws pop push bag" "malloc_laws ml" "pool_ok ml bag self (mallocs p) p {}" "pool_add ml push self p = (Inr (), p')"
  shows "pool_ok ml bag self (mallocs p') p' {} \<and> mallocs p' = Suc (mallocs p)"
proof -
  obtain a where a: "ml (mallocs p) = Some a"
    using assms(4) by (cases "ml (mallocs p)") (auto simp: pool_add_def bind_def zeroed_message_def)
  have p': "p' = p\<lparr>objects := (objects p)(a \<mapsto> zero_message), freeList := push a (freeList p), mallocs := Suc (mallocs p)\<rparr>"
    using assms(4) a by (auto simp: pool_add_def andThen_def bind_def zeroed_message_def upd_message_def setAllocator_def)
  have push: "bag (push a (freeList p)) = add_mset a (bag (freeList p))" using assms(1) by (simp add: free_list_laws_def)
  note fresh = fresh_address [OF assms(2,3) a]
  have "objects p b = Some m \<Longrightarrow> \<exists>i < Suc (mallocs p). ml i = Some b \<and> allocator m = (if i < Suc (mallocs p) then None else Some self)" for b m
    using assms(3) by (fastforce simp: pool_ok_def)
  then show ?thesis
    using assms(3) a fresh by (auto simp: p' pool_ok_def push zero_message_def)
qed

lemma pool_fill_ok:
  assumes "free_list_laws pop push bag" "malloc_laws ml" "pool_ok ml bag self (mallocs p) p {}" "pool_fill ml push self n p = (Inr (), p')"
  shows "pool_ok ml bag self (mallocs p') p' {} \<and> mallocs p' = mallocs p + n"
  using assms(3,4)
proof (induction n arbitrary: p)
  case (Suc n)
  obtain p1 where p1: "pool_add ml push self p = (Inr (), p1)" "pool_fill ml push self n p1 = (Inr (), p')"
    using Suc.prems(2) by (auto elim: andThen_Inr_cases)
  from pool_add_ok [OF assms(1,2) Suc.prems(1) p1(1)] Suc.IH [OF _ p1(2)] show ?case by auto
qed simp

text \<open>What a new message is, from the list or from \<^verbatim>\<open>malloc\<close>.\<close>

definition new_message :: "(nat \<Rightarrow> nat option) \<Rightarrow> nat \<Rightarrow> nat \<Rightarrow> 'f umf_pool \<Rightarrow> nat \<Rightarrow> bool" where
  "new_message ml self n p a \<longleftrightarrow> (\<exists>m i. objects p a = Some m \<and> msg_length m = 0 \<and> readIndex m = 0 \<and> writeIndex m = 0 \<and>
     ml i = Some a \<and> allocator m = (if i < n then None else Some self))"

lemma create_ok:
  assumes "free_list_laws pop push bag" "malloc_laws ml" "pool_ok ml bag self n p U"
    "createUMFMessage chk own ml pop self p = (Inr a, p')"
  shows "pool_ok ml bag self n p' (insert a U) \<and> a \<notin> U \<and> (\<forall>b. b \<noteq> a \<longrightarrow> objects p' b = objects p b) \<and> new_message ml self n p' a"
proof -
  obtain r f where pop: "pop (freeList p) = (r, f)" by fastforce
  have cnt: "count (bag (freeList p)) b + (if b \<in> U then 1 else 0) = (if b \<in> dom (objects p) then 1 else 0)" for b
    using assms(3) by (simp add: pool_ok_def)
  show ?thesis
  proof (cases r)
    case (Some c)
    then have c: "c = a" "p' = p\<lparr>freeList := f, objects := (objects p)(a := map_option Clear (objects p a))\<rparr>"
      using assms(4) pop by (auto simp: createUMFMessage_def operator_new_def pool_New_def andThen_def bind_def upd_message_def)
    have bag: "bag (freeList p) = add_mset a (bag f)" using assms(1) pop Some c by (auto simp: free_list_laws_def)
    with cnt [of a] have "a \<in> dom (objects p)" "a \<notin> U" "count (bag f) a = 0" by (auto split: if_splits)
    moreover from this obtain m where "objects p a = Some m" by blast
    moreover from pool_okD [OF assms(3) this] obtain i where "i < mallocs p" "ml i = Some a"
      "allocator m = (if i < n then None else Some self)" by blast
    moreover have "count (bag f) b + (if b \<in> insert a U then 1 else 0) = (if b \<in> dom (objects p) then 1 else 0)" for b
      using cnt [of b] bag \<open>a \<notin> U\<close> \<open>a \<in> dom (objects p)\<close> \<open>count (bag f) a = 0\<close> by (auto split: if_splits)
    ultimately show ?thesis
      using assms(3) by (auto simp: c pool_ok_def new_message_def Clear_def)
  next
    case None
    then have empty: "bag (freeList p) = {#}" "bag f = {#}" using assms(1) pop by (auto simp: free_list_laws_def)
    obtain c where c: "ml (mallocs p) = Some c"
      using assms(4) pop None by (cases "ml (mallocs p)")
        (auto simp: createUMFMessage_def operator_new_def pool_New_def bind_def zeroed_message_def split: if_splits)
    have p': "c = a" "p' = p\<lparr>freeList := f, mallocs := Suc (mallocs p), objects := (objects p)(a \<mapsto> Clear (setAllocator (Some self) zero_message))\<rparr>"
      using assms(4) pop None c
      by (auto simp: createUMFMessage_def operator_new_def pool_New_def andThen_def bind_def upd_message_def zeroed_message_def
          split: if_splits)
    note fresh = fresh_address [OF assms(2,3) c, unfolded p'(1)]
    have "\<not> mallocs p < n" using assms(3) by (simp add: pool_ok_def)
    moreover have "objects p b = Some m \<Longrightarrow> \<exists>i < Suc (mallocs p). ml i = Some b \<and> allocator m = (if i < n then None else Some self)" for b m
      using assms(3) by (fastforce simp: pool_ok_def)
    moreover have "(if b \<in> insert a U then 1 else 0) = (if b \<in> insert a (dom (objects p)) then 1 else (0 :: nat))" for b
      using cnt [of b] empty fresh by (auto split: if_splits)
    ultimately show ?thesis
      using assms(3) c fresh empty by (auto simp: p' pool_ok_def new_message_def Clear_def setAllocator_def)
  qed
qed

lemma pool_reach_ok:
  assumes "pool_reach ml pop push bag self own p U" "free_list_laws pop push bag" "malloc_laws ml"
  shows "pool_ok ml bag self UMF_POOL_SIZE p U"
  using assms(1)
proof induction
  case (start f p)
  have "pool_ok ml bag self (mallocs \<lparr>objects = \<lambda>_. None, freeList = f, mallocs = 0, parent = None\<rparr>)
      \<lparr>objects = \<lambda>_. None, freeList = f, mallocs = 0, parent = None\<rparr> {}"
    using start(1) by (simp add: pool_ok_def)
  from pool_fill_ok [OF assms(2,3) this start(2) [unfolded pool_construct_def]]
  have "pool_ok ml bag self (mallocs p) p {}" "mallocs p = UMF_POOL_SIZE" by (blast, simp)
  then show ?case by simp
next
  case (init p U q p')
  then have "p' = p\<lparr>parent := Some q\<rparr>" by (simp add: pool_Init_def)
  with init(3) show ?case by (simp add: pool_ok_def)
next
  case (create p U chk a p')
  then show ?case using create_ok [OF assms(2,3)] by blast
next
  case (change p U a m m')
  then show ?case by (auto simp: pool_ok_def)
next
  case (delete p U a p')
  have push: "bag (push a (freeList p)) = add_mset a (bag (freeList p))" using assms(2) by (simp add: free_list_laws_def)
  have p': "p' = p\<lparr>freeList := push a (freeList p)\<rparr>" using delete(3) by (simp add: operator_delete_def pool_Delete_def)
  have cnt: "count (bag (freeList p)) b + (if b \<in> U then 1 else 0) = (if b \<in> dom (objects p) then 1 else 0)" for b
    using delete(4) by (simp add: pool_ok_def)
  have "count (bag (freeList p')) b + (if b \<in> U - {a} then 1 else 0) = (if b \<in> dom (objects p) then 1 else 0)" for b
    using \<open>a \<in> U\<close> cnt [of b] by (cases "b = a") (simp_all add: p' push)
  then show ?case using delete(4) by (simp add: pool_ok_def p')
qed

section \<open>The destructor\<close>

lemma destruct_run:
  assumes "free_list_laws pop push bag"
  shows "\<exists>p'. pool_destruct pop p = Some p' \<and> (\<forall>a. objects p' a = (if a \<in># bag (freeList p) then None else objects p a)) \<and> bag (freeList p') = {#}"
proof (induction "size (bag (freeList p))" arbitrary: p rule: less_induct)
  case less
  obtain r f where pop: "pop (freeList p) = (r, f)" by fastforce
  show ?case
  proof (cases r)
    case None
    then have "bag (freeList p) = {#}" "bag f = {#}" using assms pop by (auto simp: free_list_laws_def)
    with pop None show ?thesis by (simp add: pool_destruct.simps [of pop p])
  next
    case (Some a)
    then have b: "bag (freeList p) = add_mset a (bag f)" using assms pop by (auto simp: free_list_laws_def)
    let ?p = "p\<lparr>freeList := f, objects := (objects p)(a := None)\<rparr>"
    have "size (bag (freeList ?p)) < size (bag (freeList p))" by (simp add: b)
    from less [OF this] obtain p' where "pool_destruct pop ?p = Some p'"
      "\<forall>c. objects p' c = (if c \<in># bag f then None else objects ?p c)" "bag (freeList p') = {#}" by auto
    with pop Some b show ?thesis by (auto simp: pool_destruct.simps [of pop p])
  qed
qed

section \<open>Properties\<close>

text \<open>
  C27. However a program creates, changes and deletes messages, a new message is one that is not in
  use, is empty, and is the only one the creation touches. Those of the first 8192 allocations have
  no allocator, because the constructor sets them to zero after entering it, so that a header with
  a length that is too large makes them follow a NULL pointer instead of leaving the program.
\<close>

theorem messages_exclusive:
  assumes "pool_reach ml pop push bag self own p U" "free_list_laws pop push bag" "malloc_laws ml"
    "createUMFMessage chk own ml pop self p = (Inr a, p')"
  shows "a \<notin> U \<and> (\<forall>b \<in> U. objects p' b = objects p b) \<and>
    (\<exists>m i. objects p' a = Some m \<and> msg_length m = 0 \<and> readIndex m = 0 \<and> writeIndex m = 0 \<and> ml i = Some a \<and>
       (\<forall>chunk. 256 < unat (chunk AND UMF_BIT_MASK UMF_MSG_LENGTH_BITS) \<longrightarrow>
          fst (DecodeHeader chunk m) = Inl (if i < UMF_POOL_SIZE then Umf_Null else Umf_Exit 1)))"
proof -
  from create_ok [OF assms(2,3) pool_reach_ok [OF assms(1-3)] assms(4)]
  have c: "a \<notin> U" "\<forall>b. b \<noteq> a \<longrightarrow> objects p' b = objects p b" "new_message ml self UMF_POOL_SIZE p' a" by auto
  from c(3) obtain m i where "objects p' a = Some m" "msg_length m = 0" "readIndex m = 0" "writeIndex m = 0" "ml i = Some a"
    "allocator m = (if i < UMF_POOL_SIZE then None else Some self)" by (auto simp: new_message_def)
  note m = this
  have "fst (DecodeHeader chunk m) = Inl (if i < UMF_POOL_SIZE then Umf_Null else Umf_Exit 1)"
    if "256 < unat (chunk AND UMF_BIT_MASK UMF_MSG_LENGTH_BITS)" for chunk
    using decode_long(1) [OF that, of m] m(6) by simp
  moreover have "\<forall>b \<in> U. objects p' b = objects p b" using c(1,2) by metis
  ultimately show ?thesis using m(1-5) c(1) by blast
qed

text \<open>Destroying the pool ends; it frees the messages in the list and leaves those in use allocated.\<close>

theorem destruct_leaves_used:
  assumes "pool_reach ml pop push bag self own p U" "free_list_laws pop push bag" "malloc_laws ml"
  shows "\<exists>p'. pool_destruct pop p = Some p' \<and> dom (objects p') = U"
proof -
  from destruct_run [OF assms(2), of p] obtain p' where
    p': "pool_destruct pop p = Some p'" "\<forall>a. objects p' a = (if a \<in># bag (freeList p) then None else objects p a)" by blast
  have "a \<in> dom (objects p') \<longleftrightarrow> a \<in> U" for a
  proof -
    have "count (bag (freeList p)) a + (if a \<in> U then 1 else 0) = (if a \<in> dom (objects p) then 1 else 0)"
      using pool_reach_ok [OF assms] by (simp add: pool_ok_def)
    then have "a \<in># bag (freeList p) \<longleftrightarrow> a \<notin> U \<and> a \<in> dom (objects p)" "a \<in> U \<Longrightarrow> a \<in> dom (objects p)"
      by (simp_all add: count_greater_zero_iff [symmetric] del: count_greater_zero_iff split: if_splits)
    with p'(2) show ?thesis by auto
  qed
  with p'(1) show ?thesis by blast
qed

text \<open>A free list that is a stack, and memory that is handed out in order.\<close>

definition stack_pop :: "nat list popper" where
  "stack_pop f = (case f of [] \<Rightarrow> (None, []) | a # f' \<Rightarrow> (Some a, f'))"

lemma stack_laws: "free_list_laws stack_pop Cons mset" "malloc_laws Some"
  by (auto simp: free_list_laws_def stack_pop_def malloc_laws_def split: list.splits)

lemma fill_example:
  "\<exists>p'. pool_fill Some Cons self n p = (Inr (), p') \<and> freeList p' = rev [mallocs p..<mallocs p + n] @ freeList p"
proof (induction n arbitrary: p)
  case (Suc n)
  define p1 where "p1 = p\<lparr>objects := (objects p)(mallocs p \<mapsto> zero_message), freeList := mallocs p # freeList p, mallocs := Suc (mallocs p)\<rparr>"
  have "pool_add Some Cons self p = (Inr (), p1)"
    by (simp add: pool_add_def andThen_def bind_def zeroed_message_def upd_message_def p1_def)
  moreover from Suc.IH [of p1] obtain p' where
    "pool_fill Some Cons self n p1 = (Inr (), p')" "freeList p' = rev [mallocs p1..<mallocs p1 + n] @ freeList p1" by blast
  moreover have "[mallocs p..<mallocs p + Suc n] = mallocs p # [Suc (mallocs p)..<Suc (mallocs p) + n]" by (simp add: upt_conv_Cons)
  ultimately show ?case by (simp add: andThen_Inr p1_def)
qed simp

lemma pool_example: "\<exists>p f. pool_reach Some stack_pop Cons mset self own p {} \<and> freeList p = 8191 # f"
proof -
  let ?p = "\<lparr>objects = \<lambda>_. None, freeList = [], mallocs = 0, parent = None\<rparr>"
  from fill_example [of self UMF_POOL_SIZE ?p] obtain p where
    p: "pool_fill Some Cons self UMF_POOL_SIZE ?p = (Inr (), p)" "freeList p = rev [0..<UMF_POOL_SIZE]" by auto
  have step: "rev [0..<Suc n] = n # rev [0..<n]" for n by simp
  have e: "UMF_POOL_SIZE = Suc 8191" by (simp add: UMF_POOL_SIZE_def)
  have "rev [0..<UMF_POOL_SIZE] = 8191 # rev [0..<8191]" unfolding e by (rule step)
  with p pool_reach.start [of mset "[]" Some Cons self p stack_pop own] show ?thesis
    by (auto simp: pool_construct_def)
qed

lemma messages_exclusive_witness:
  "\<exists>p a p' m. createUMFMessage True 1100 Some stack_pop 7 p = (Inr a, p') \<and> a = 8191 \<and> objects p' a = Some m \<and>
     fst (DecodeHeader 257 m) = Inl Umf_Null"
proof -
  obtain p f where p: "pool_reach Some stack_pop Cons mset 7 1100 p {}" "freeList p = 8191 # f" using pool_example by blast
  obtain p' where run: "createUMFMessage True 1100 Some stack_pop 7 p = (Inr 8191, p')"
    using p(2) by (simp add: createUMFMessage_def operator_new_def pool_New_def stack_pop_def andThen_def bind_def upd_message_def)
  have "256 < unat (257 AND UMF_BIT_MASK UMF_MSG_LENGTH_BITS)" by (simp add: UMF_BIT_MASK_def UMF_MSG_LENGTH_BITS_def)
  with messages_exclusive [OF p(1) stack_laws run] obtain m where
    "objects p' 8191 = Some m" "fst (DecodeHeader 257 m) = Inl Umf_Null" by (auto simp: UMF_POOL_SIZE_def)
  with run show ?thesis by blast
qed

lemma destruct_leaves_used_witness:
  "\<exists>p p'. pool_reach Some stack_pop Cons mset 7 1100 p {} \<and> pool_destruct stack_pop p = Some p' \<and> dom (objects p') = {}"
proof -
  obtain p f where "pool_reach Some stack_pop Cons mset 7 1100 p {}" using pool_example by blast
  with destruct_leaves_used [OF this stack_laws] show ?thesis by blast
qed

end
