(* ===== verification/Host_Pipe.thy ===== *)
theory Host_Pipe
  imports Leap_Prelude Unix_Pipe
begin

text \<open>
  \<^verbatim>\<open>unix-pipe-device.cpp\<close> and its header: the host's end of the pair of named pipes, the other end of
  Unix_Pipe. Two threads open the pipes; the calls that need one wait for its thread. A thread
  only sets its descriptor and its flag, so its run is one step. What the system calls answer are
  arguments; messages are not modelled.
\<close>

section \<open>State\<close>

datatype thread = Not_Started | Started | Finished

text \<open>
  \<^verbatim>\<open>in_fd\<close> is \<^verbatim>\<open>inpipe[0]\<close>, \<^verbatim>\<open>out_fd\<close> is \<^verbatim>\<open>outpipe[1]\<close>; the constructor does not set them. The open descriptors,
  the bytes in the pipe towards the host and those written towards the simulator.
\<close>

record host_pipe =
  in_fd :: int
  out_fd :: int
  childAlive :: bool
  ioFile :: string
  logicalName :: "string option"
  reader :: thread
  writer :: thread
  initReadComplete :: bool
  initWriteComplete :: bool
  host_fds :: "int set"
  fifos :: "string set"
  from_sim :: "u8 list"
  to_sim :: "u8 list"

text \<open>
  The answers: of each attempt to open the pipe to read, of the one to write, of the others; and
  whether the program is being taken down.
\<close>

record host_answers =
  h_open_read :: "nat \<Rightarrow> int"
  h_open_write :: int
  h_mkdir_ok :: bool
  h_mkdir_exists :: bool
  h_thread_read :: bool
  h_thread_write :: bool
  h_select :: int
  h_eintr :: bool
  h_isset :: bool
  h_read :: int
  h_write :: int
  h_uninit :: bool

text \<open>The end of the process, the end of the calling thread, a wait that never ends.\<close>

datatype host_stop = Process_Exit int | Thread_Exit | Waits_Forever

type_synonym 'a host = "(host_pipe, host_stop, 'a) prog"

definition peek :: "(host_pipe \<Rightarrow> 'a) \<Rightarrow> 'a host" where
  "peek f = (\<lambda>s. (Inr (f s), s))"

lemma peek_run [simp]: "peek f s = (Inr (f s), s)"
  by (simp add: peek_def)

section \<open>The threads\<close>

text \<open>At most 120 attempts to open the pipe; the descriptor is that of the last one.\<close>

function open_attempts :: "(nat \<Rightarrow> int) \<Rightarrow> nat \<Rightarrow> int" where
  "open_attempts answer retries =
     (let fd = answer retries; retries' = retries + 1 in
      if fd < 0 \<and> retries' < 120 then open_attempts answer retries' else fd)"
  by pat_completeness auto
termination by (relation "measure (\<lambda>(_, r). 120 - r)") auto

declare open_attempts.simps [simp del]

definition openReadThread :: "host_answers \<Rightarrow> unit host" where
  "openReadThread A = (let fd = open_attempts (h_open_read A) 0 in
     andThen (modify (\<lambda>s. s\<lparr>in_fd := fd\<rparr>))
     (if fd < 0 then raise (Process_Exit 1)
      else modify (\<lambda>s. s\<lparr>host_fds := insert fd (host_fds s), initReadComplete := True, reader := Finished\<rparr>)))"

definition openWriteThread :: "host_answers \<Rightarrow> unit host" where
  "openWriteThread A = (let fd = h_open_write A in
     andThen (modify (\<lambda>s. s\<lparr>fifos := insert (ioFile s @ ''_TO'') (fifos s), out_fd := fd\<rparr>))
     (if fd < 0 then raise (Process_Exit 1)
      else modify (\<lambda>s. s\<lparr>host_fds := insert fd (host_fds s), initWriteComplete := True, writer := Finished\<rparr>)))"

text \<open>A loop that sleeps until a flag is set: it ends when the thread that sets the flag was started.\<close>

definition await_reader :: "host_answers \<Rightarrow> unit host" where
  "await_reader A = (\<lambda>s. if initReadComplete s then (Inr (), s)
     else if reader s = Started then openReadThread A s else (Inl Waits_Forever, s))"

definition await_writer :: "host_answers \<Rightarrow> unit host" where
  "await_writer A = (\<lambda>s. if initWriteComplete s then (Inr (), s)
     else if writer s = Started then openWriteThread A s else (Inl Waits_Forever, s))"

section \<open>The device\<close>

definition host_construct :: "int \<Rightarrow> int \<Rightarrow> u8 list \<Rightarrow> host_pipe" where
  "host_construct junk1 junk2 bytes = \<lparr>in_fd = junk1, out_fd = junk2, childAlive = False, ioFile = [], logicalName = None,
     reader = Not_Started, writer = Not_Started, initReadComplete = False, initWriteComplete = False,
     host_fds = {}, fifos = {}, from_sim = bytes, to_sim = []\<rparr>"

definition RegisterLogicalDeviceName :: "string \<Rightarrow> unit host" where
  "RegisterLogicalDeviceName name = modify (\<lambda>s. s\<lparr>logicalName := Some name\<rparr>)"

text \<open>
  The file: the value of the command-line dictionary for the logical name, or the name itself when
  it is that of the platform, or none when the device is not used.
\<close>

definition io_file :: "string option \<Rightarrow> (string \<Rightarrow> string option) \<Rightarrow> string \<Rightarrow> string option \<Rightarrow> string option" where
  "io_file leapExecutionDirectory switchValue platformName name =
     (let executionDirectory = (case leapExecutionDirectory of Some d \<Rightarrow> d | None \<Rightarrow> []) in
      case name of
        None \<Rightarrow> None
      | Some n \<Rightarrow> (case switchValue n of
          Some v \<Rightarrow> Some (executionDirectory @ ''/pipes/'' @ v)
        | None \<Rightarrow> if n = platformName then Some (executionDirectory @ ''/pipes/'' @ n) else None))"

definition host_Init :: "host_answers \<Rightarrow> string option \<Rightarrow> (string \<Rightarrow> string option) \<Rightarrow> string \<Rightarrow> unit host" where
  "host_Init A dir switchValue platformName = bind (peek logicalName) (\<lambda>name.
     case io_file dir switchValue platformName name of
       None \<Rightarrow> ret ()
     | Some f \<Rightarrow>
         andThen (modify (\<lambda>s. s\<lparr>ioFile := f\<rparr>))
         (andThen (if \<not> h_mkdir_ok A \<and> \<not> h_mkdir_exists A then raise (Process_Exit 1) else ret ())
         (andThen (if h_thread_read A then modify (\<lambda>s. s\<lparr>reader := Started\<rparr>) else raise (Process_Exit 1))
         (andThen (if h_thread_write A then modify (\<lambda>s. s\<lparr>writer := Started\<rparr>) else raise (Process_Exit 1))
           (modify (\<lambda>s. s\<lparr>childAlive := True\<rparr>))))))"

text \<open>\<^verbatim>\<open>Uninit\<close> and the destructor do the same.\<close>

definition host_Cleanup :: "unit host" where
  "host_Cleanup = modify (\<lambda>s. if childAlive s
     then s\<lparr>host_fds := host_fds s - {in_fd s, out_fd s}, childAlive := False\<rparr> else s)"

definition host_Uninit :: "unit host" where "host_Uninit = host_Cleanup"

text \<open>Selecting a closed descriptor fails with an error that is no interruption.\<close>

definition host_Probe :: "host_answers \<Rightarrow> bool host" where
  "host_Probe A = (\<lambda>s.
     if \<not> initReadComplete s then (Inr False, s)
     else
       let answer = (if in_fd s \<in> host_fds s then h_select A else - 1);
           eintr = (in_fd s \<in> host_fds s \<and> h_eintr A) in
       if answer = - 1 \<and> \<not> (eintr \<or> \<not> childAlive s) then (Inl (Process_Exit 1), s)
       else let data_available = (if answer = - 1 then 0 else answer) in
         if data_available \<noteq> 0
         then if data_available \<noteq> 1 \<or> \<not> h_isset A then (Inl (Process_Exit 1), s) else (Inr True, s)
         else (Inr False, s))"

text \<open>
  One \<^verbatim>\<open>read\<close> and one \<^verbatim>\<open>write\<close> for the whole request. The kernel delivers at most what is asked for and
  what is in the pipe. A short count ends the process, or the thread when it is being taken down.
\<close>

definition short_count :: "host_answers \<Rightarrow> unit host" where
  "short_count A = (if h_uninit A then raise Thread_Exit else raise (Process_Exit 0))"

definition sys_read :: "host_answers \<Rightarrow> nat \<Rightarrow> (int \<times> u8 list) host" where
  "sys_read A n = (\<lambda>s. if in_fd s \<notin> host_fds s \<or> h_read A < 0 then (Inr (- 1, []), s)
     else let k = min (min (nat (h_read A)) n) (length (from_sim s)) in
       (Inr (int k, take k (from_sim s)), s\<lparr>from_sim := drop k (from_sim s)\<rparr>))"

definition host_Read :: "host_answers \<Rightarrow> nat \<Rightarrow> u8 list host" where
  "host_Read A bytes_requested =
     andThen (await_reader A)
     (bind (sys_read A bytes_requested) (\<lambda>r.
       if fst r \<noteq> int bytes_requested then andThen (short_count A) (ret []) else ret (snd r)))"

definition sys_write :: "host_answers \<Rightarrow> u8 list \<Rightarrow> int host" where
  "sys_write A data = (\<lambda>s. if out_fd s \<notin> host_fds s \<or> h_write A < 0 then (Inr (- 1), s)
     else let k = min (nat (h_write A)) (length data) in
       (Inr (int k), s\<lparr>to_sim := to_sim s @ take k data\<rparr>))"

definition host_Write :: "host_answers \<Rightarrow> u8 list \<Rightarrow> unit host" where
  "host_Write A data =
     andThen (await_writer A)
     (bind (sys_write A data) (\<lambda>n. if n \<noteq> int (length data) then short_count A else ret ()))"

section \<open>The switch for the simulator's arguments\<close>

record bluesim_switch =
  bluesimArgc :: int
  bluesimArgv :: "string list"

definition bluesim_construct :: bluesim_switch where
  "bluesim_construct = \<lparr>bluesimArgc = 0, bluesimArgv = []\<rparr>"

definition ProcessSwitchList :: "int \<Rightarrow> string list \<Rightarrow> bluesim_switch \<Rightarrow> bluesim_switch" where
  "ProcessSwitchList switch_argc switch_argv s = s\<lparr>bluesimArgc := switch_argc, bluesimArgv := switch_argv\<rparr>"

definition ShowSwitch :: "string \<Rightarrow> string" where
  "ShowSwitch prefix = prefix @ ''[--bluesim='' @ [CHR 0x22] @ ''<args>'' @ [CHR 0x22] @ '']    Arguments to Bluesim'' @ [CHR 0x0A]"

section \<open>Opening\<close>

text \<open>The first of 120 attempts that succeeds counts; without one the process ends.\<close>

lemma open_attempts_first:
  assumes "r < 120" "\<exists>i. r \<le> i \<and> i < 120 \<and> 0 \<le> answer i"
  shows "\<exists>i. r \<le> i \<and> i < 120 \<and> open_attempts answer r = answer i \<and> 0 \<le> answer i \<and> (\<forall>j. r \<le> j \<and> j < i \<longrightarrow> answer j < 0)"
  using assms
proof (induction answer r rule: open_attempts.induct)
  case (1 answer r)
  show ?case
  proof (cases "0 \<le> answer r")
    case True
    then have "open_attempts answer r = answer r" by (simp add: open_attempts.simps [of answer r] Let_def)
    with True "1.prems"(1) show ?thesis by (intro exI [of _ r]) auto
  next
    case False
    obtain i where i: "r \<le> i" "i < 120" "0 \<le> answer i" using "1.prems"(2) by blast
    with False have "Suc r \<le> i" by (metis not_less_eq_eq le_antisym)
    with i False have run: "open_attempts answer r = open_attempts answer (r + 1)"
      by (simp add: open_attempts.simps [of answer r] Let_def)
    obtain k where k: "r + 1 \<le> k" "k < 120" "open_attempts answer (r + 1) = answer k" "0 \<le> answer k"
      "\<forall>j. r + 1 \<le> j \<and> j < k \<longrightarrow> answer j < 0"
      using "1.IH" [OF refl refl] i False \<open>Suc r \<le> i\<close> by auto
    have "answer j < 0" if "r \<le> j" "j < k" for j
      using k(5) that False by (cases "j = r") auto
    with k run show ?thesis by (intro exI [of _ k]) auto
  qed
qed

lemma open_attempts_none:
  assumes "r < 120" "\<forall>i. r \<le> i \<and> i < 120 \<longrightarrow> answer i < 0"
  shows "open_attempts answer r < 0"
  using assms
proof (induction answer r rule: open_attempts.induct)
  case (1 answer r)
  then show ?case by (cases "r + 1 < 120") (auto simp: open_attempts.simps [of answer r] Let_def)
qed

section \<open>Both ends\<close>

lemma host_Write_whole:
  "host_Write A data h = (Inr (), h') \<Longrightarrow> to_sim h' = to_sim h @ data \<and> from_sim h' = from_sim h"
  by (auto simp: host_Write_def andThen_def bind_def await_writer_def openWriteThread_def sys_write_def short_count_def Let_def
      min_def split: if_splits prod.splits sum.splits)

lemma host_Read_whole:
  "host_Read A n h = (Inr bs, h') \<Longrightarrow> from_sim h = bs @ from_sim h' \<and> length bs = n \<and> to_sim h' = to_sim h"
  by (auto simp: host_Read_def andThen_def bind_def await_reader_def openReadThread_def sys_read_def short_count_def Let_def
      min_def split: if_splits prod.splits sum.splits)

lemma pipe_write_whole:
  "pipe_write K A c data s = (Inr (), s') \<Longrightarrow> K \<le> length data \<Longrightarrow> s' = s\<lparr>outgoing := outgoing s @ take K data\<rparr>"
  by (auto simp: pipe_write_def sim_defs write_bytes_def min_def split: if_splits)

text \<open>
  A host and a simulator that use one channel over the two pipes, in any interleaving: the bytes the
  host sent, with those in the pipe at the start, the chunks the simulator took, the chunks the simulator sent, what the host read.
\<close>

inductive duplex :: "nat \<Rightarrow> nat \<Rightarrow> host_pipe \<Rightarrow> pipes \<Rightarrow> u8 list \<Rightarrow> u8 list list \<Rightarrow> u8 list list \<Rightarrow> u8 list \<Rightarrow> bool" for K c
where
  start: "\<lbrakk>sim_reach K' s; chan_ok K s c; pending s c = []; from_sim h = []\<rbrakk>
    \<Longrightarrow> duplex K c h s (incoming s) [] [] []"
| host_write: "\<lbrakk>duplex K c h s ho sg so hg; host_Write A data h = (Inr (), h')\<rbrakk>
    \<Longrightarrow> duplex K c h' (s\<lparr>incoming := incoming s @ data\<rparr>) (ho @ data) sg so hg"
| host_read: "\<lbrakk>duplex K c h s ho sg so hg; host_Read A n h = (Inr bs, h')\<rbrakk> \<Longrightarrow> duplex K c h' s ho sg so (hg @ bs)"
| host_probe: "\<lbrakk>duplex K c h s ho sg so hg; host_Probe A h = (Inr b, h')\<rbrakk> \<Longrightarrow> duplex K c h' s ho sg so hg"
| sim_read: "\<lbrakk>duplex K c h s ho sg so hg; pipe_read K B (replicate 20 0) (of_nat c) s = (Inr r, s')\<rbrakk>
    \<Longrightarrow> duplex K c h s' ho (sg @ chunks K [r]) so hg"
| sim_write: "\<lbrakk>duplex K c h s ho sg so hg; pipe_write K B (of_nat c) data s = (Inr (), s'); length data = K\<rbrakk>
    \<Longrightarrow> duplex K c (h\<lparr>from_sim := from_sim h @ data\<rparr>) s' ho sg (so @ [data]) hg"

lemma duplex_ok:
  assumes "duplex K c h s ho sg so hg" "0 < K" "K \<le> 16"
  shows "ho = concat sg @ pending s c @ incoming s \<and> concat so = hg @ from_sim h \<and> chan_ok K s c \<and> \<not> persistent s \<and>
    (\<forall>x \<in> set sg. length x = K)"
  using assms
proof induction
  case (start K' s h)
  then show ?case using sim_ok_reach [OF start(1)] by (simp add: sim_ok_def)
next
  case (host_write h s ho sg so hg A data h')
  then show ?case using host_Write_whole [OF host_write(2)] by (simp add: pending_def chan_ok_def)
next
  case (host_read h s ho sg so hg A n bs h')
  then show ?case using host_Read_whole [OF host_read(2)] by simp
next
  case (host_probe h s ho sg so hg A b h')
  then show ?case by (auto simp: host_Probe_def Let_def split: if_splits)
next
  case (sim_read h s ho sg so hg B r s')
  then have "chan_ok K s c" "\<not> persistent s" by simp_all
  moreover have "pipe_reads K [B] (of_nat c) s = (Inr [r], s')" using sim_read(2) by (simp add: bind_def)
  ultimately have "pending s c @ incoming s = concat (chunks K [r]) @ pending s' c @ incoming s' \<and> chan_ok K s' c \<and>
      (\<forall>x \<in> set (chunks K [r]). length x = K) \<and> same_channels c s s'"
    using reads_keep_stream \<open>0 < K\<close> \<open>K \<le> 16\<close> by blast
  moreover from this have "persistent s' = persistent s" by (simp add: same_channels_def)
  ultimately show ?case using sim_read by auto
next
  case (sim_write h s ho sg so hg B data s')
  have "s' = s\<lparr>outgoing := outgoing s @ data\<rparr>" using pipe_write_whole [OF sim_write(2)] sim_write(3) by simp
  with sim_write show ?case by (simp add: pending_def chan_ok_def)
qed

section \<open>Properties\<close>

text \<open>
  C25. However the writes and reads of a host and of a simulator on one channel interleave, and
  whatever their system calls answer, the chunks the simulator got are the beginning of the host's
  bytes in order, and what the host read is the beginning of the simulator's chunks; the rest is
  under way.
\<close>

theorem channel_is_duplex:
  assumes "duplex K c h s ho sg so hg" "0 < K" "K \<le> 16"
  shows "ho = concat sg @ pending s c @ incoming s \<and> (\<forall>x \<in> set sg. length x = K) \<and> concat so = hg @ from_sim h"
  using duplex_ok [OF assms] by simp

definition host_answers0 :: host_answers where
  "host_answers0 = \<lparr>h_open_read = \<lambda>i. if i = 0 then - 1 else 5, h_open_write = 6, h_mkdir_ok = False, h_mkdir_exists = True,
     h_thread_read = True, h_thread_write = True, h_select = 1, h_eintr = False, h_isset = True, h_read = 100, h_write = 100,
     h_uninit = False\<rparr>"

definition host_started :: host_pipe where
  "host_started = snd (host_Init host_answers0 (Some ''/x'') (\<lambda>_. None) ''fpga'' ((host_construct 0 0 [])\<lparr>logicalName := Some ''fpga''\<rparr>))"

lemma host_started_facts:
  "host_started = (host_construct 0 0 [])\<lparr>logicalName := Some ''fpga'', ioFile := ''/x/pipes/fpga'', reader := Started, writer := Started,
     childAlive := True\<rparr>"
  by (simp add: host_started_def host_Init_def io_file_def bind_def andThen_def host_answers0_def host_construct_def)

lemma host_write_example:
  "\<exists>h'. host_Write host_answers0 [6, 7, 8] host_started = (Inr (), h') \<and> from_sim h' = []"
  by (simp add: host_Write_def await_writer_def openWriteThread_def sys_write_def Let_def andThen_def bind_def
      host_started_facts host_construct_def host_answers0_def)

lemma channel_is_duplex_witness:
  "\<exists>h s. duplex 4 0 h s [1, 2, 3, 4, 5, 6, 7, 8] [[1, 2, 3, 4]] [] [] \<and> [5, 6, 7, 8] = pending s 0 @ incoming s"
proof -
  let ?B = "os0\<lparr>o_read := 4\<rparr>"
  have "from_sim host_started = []" by (simp add: host_started_facts host_construct_def)
  from duplex.start [OF opened_example(1,2,7) this] have
    d0: "duplex 4 0 host_started sim_opened [1, 2, 3, 4, 5] [] [] []" by (simp add: opened_example)
  obtain h' where w: "host_Write host_answers0 [6, 7, 8] host_started = (Inr (), h')" using host_write_example by blast
  let ?s = "sim_opened\<lparr>incoming := [1, 2, 3, 4, 5, 6, 7, 8]\<rparr>"
  have d1: "duplex 4 0 h' ?s [1, 2, 3, 4, 5, 6, 7, 8] [] [] []"
    using duplex.host_write [OF d0 w] by (simp add: opened_example)
  have "chan_ok 4 ?s 0" "pending ?s 0 = []" using opened_example by (simp_all add: chan_ok_def pending_def)
  then obtain s' where
    r: "pipe_read 4 ?B (replicate 20 0) (of_nat 0) ?s = (Inr (set_flag 0 (put_chunk [1, 2, 3, 4] (replicate 20 0))), s')"
    using read_ready [of ?s 4 0 ?B "replicate 20 0"] opened_example by (auto simp: os0_def)
  have "chunks 4 [set_flag 0 (put_chunk [1, 2, 3, 4] (replicate 20 0))] = [[1, 2, 3, 4 :: u8]]"
    by (simp add: chunks_def set_flag_def put_chunk_def numeral_eq_Suc)
  then have d2: "duplex 4 0 h' s' [1, 2, 3, 4, 5, 6, 7, 8] [[1, 2, 3, 4]] [] []"
    using duplex.sim_read [OF d1 r] by simp
  from channel_is_duplex [OF d2] have "[5, 6, 7, 8] = pending s' 0 @ incoming s'" by simp
  with d2 show ?thesis by blast
qed

text \<open>
  A host whose logical device has the simulator's platform name opens the same two files when both
  run in the same directory: it writes to the one the simulator reads, and the other way round.
\<close>

theorem same_pipe_files:
  assumes "logicalName h = Some n" "switchValue n = None \<and> n = platform \<or> switchValue n = Some platform"
    "host_Init A dir switchValue platform h = (Inr (), h')"
    "\<not> initialized s" "pipe_init K B dir platform s = (Inr (), s')"
  shows "inputFileName s' = ioFile h' @ ''_TO'' \<and> outputFileName s' = ioFile h' @ ''_FROM'' \<and> childAlive h'"
proof -
  define d where "d = (case dir of Some x \<Rightarrow> x | None \<Rightarrow> [])"
  have f: "io_file dir switchValue platform (logicalName h) = Some (d @ ''/pipes/'' @ platform)"
    using assms(1,2) by (auto simp: io_file_def Let_def d_def)
  have "comm_directory dir = d @ ''/pipes/''" by (simp add: comm_directory_def d_def split: option.splits)
  then have "inputFileName s' = d @ ''/pipes/'' @ platform @ ''_TO''" "outputFileName s' = d @ ''/pipes/'' @ platform @ ''_FROM''"
    using assms(4,5) by (auto simp: pipe_init_def sim_defs open_output_def open_input_def open_channel_run split: if_splits)
  moreover have "ioFile h' = d @ ''/pipes/'' @ platform \<and> childAlive h'"
    using assms(3) f by (auto simp: host_Init_def bind_def andThen_def split: if_splits)
  ultimately show ?thesis by simp
qed

lemma same_pipe_files_witness:
  "\<exists>h'. host_Init host_answers0 None (\<lambda>_. None) ''fpga'' ((host_construct 0 0 [])\<lparr>logicalName := Some ''fpga''\<rparr>) = (Inr (), h')
     \<and> inputFileName sim_started = ioFile h' @ ''_TO''"
proof -
  let ?h = "(host_construct 0 0 [])\<lparr>logicalName := Some ''fpga''\<rparr>"
  obtain h' where run: "host_Init host_answers0 None (\<lambda>_. None) ''fpga'' ?h = (Inr (), h')"
    by (simp add: host_Init_def io_file_def bind_def andThen_def host_answers0_def)
  from same_pipe_files [OF _ _ run started_example(2,1), of "''fpga''"] run show ?thesis by auto
qed

text \<open>
  The first read waits for the thread: it uses the descriptor of the first of 120 attempts that
  succeeds, and the process ends when none does. Without a thread, on a device that is not used, it
  waits for ever.
\<close>

theorem read_needs_pipe:
  assumes "\<not> initReadComplete h"
  shows "if reader h \<noteq> Started then fst (host_Read A n h) = Inl Waits_Forever
    else if \<forall>i < 120. h_open_read A i < 0 then fst (host_Read A n h) = Inl (Process_Exit 1)
    else \<exists>i < 120. (\<forall>j < i. h_open_read A j < 0) \<and> 0 \<le> h_open_read A i \<and> in_fd (snd (host_Read A n h)) = h_open_read A i"
proof (cases "reader h = Started")
  case False
  with assms show ?thesis by (simp add: host_Read_def await_reader_def andThen_Inl)
next
  case True
  show ?thesis
  proof (cases "\<forall>i < 120. h_open_read A i < 0")
    case none: True
    then have "open_attempts (h_open_read A) 0 < 0" using open_attempts_none [of 0] by simp
    with none True assms show ?thesis
      by (simp add: host_Read_def await_reader_def openReadThread_def Let_def andThen_def bind_def)
  next
    case False
    then obtain i where i: "i < 120" "open_attempts (h_open_read A) 0 = h_open_read A i" "0 \<le> h_open_read A i"
      "\<forall>j. 0 \<le> j \<and> j < i \<longrightarrow> h_open_read A j < 0"
      using open_attempts_first [of 0 "h_open_read A"] by (auto simp: not_less)
    have "in_fd (snd (host_Read A n h)) = h_open_read A i"
      using True assms i(2,3)
      by (simp add: host_Read_def await_reader_def openReadThread_def sys_read_def short_count_def Let_def andThen_def bind_def)
    with True False i show ?thesis by auto
  qed
qed

lemma read_needs_pipe_witness:
  "fst (host_Read host_answers0 4 (host_construct 9 9 [])) = Inl Waits_Forever"
  using read_needs_pipe [of "host_construct 9 9 []" host_answers0 4] by (simp add: host_construct_def)

text \<open>
  A pipe that holds only part of what a read asks for, even though the rest will follow, makes the
  read end the process with the status 0.
\<close>

theorem short_read_exits:
  assumes "initReadComplete h" "in_fd h \<in> host_fds h" "length (from_sim h) < n" "\<not> h_uninit A"
  shows "fst (host_Read A n h) = Inl (Process_Exit 0)"
  using assms
  by (auto simp: host_Read_def await_reader_def sys_read_def short_count_def Let_def andThen_def bind_def)

lemma short_read_exits_witness:
  "fst (host_Read host_answers0 8 ((host_construct 5 6 [1, 2, 3, 4])\<lparr>initReadComplete := True, host_fds := {5}\<rparr>)) = Inl (Process_Exit 0)"
  by (rule short_read_exits) (simp_all add: host_construct_def host_answers0_def)

text \<open>
  Cleaning up before the threads are through closes the descriptors that the constructor left
  undefined.
\<close>

theorem early_cleanup_closes_junk:
  assumes "host_Init A dir sw plat ((host_construct j1 j2 bs)\<lparr>logicalName := n\<rparr>) = (Inr (), h)" "childAlive h"
  shows "in_fd h = j1 \<and> out_fd h = j2 \<and>
    (\<exists>h'. host_Cleanup (h\<lparr>host_fds := F\<rparr>) = (Inr (), h') \<and> host_fds h' = F - {j1, j2})"
  using assms by (auto simp: host_Init_def bind_def andThen_def host_construct_def host_Cleanup_def split: option.splits if_splits)

lemma early_cleanup_closes_junk_witness:
  "\<exists>h'. host_Cleanup (host_started\<lparr>host_fds := {0, 7}\<rparr>) = (Inr (), h') \<and> host_fds h' = {7}"
proof -
  let ?h = "(host_construct 0 0 [])\<lparr>logicalName := Some ''fpga''\<rparr>"
  have "host_Init host_answers0 (Some ''/x'') (\<lambda>_. None) ''fpga'' ?h = (Inr (), host_started)"
    by (simp add: host_started_def host_Init_def io_file_def bind_def andThen_def host_answers0_def host_construct_def)
  from early_cleanup_closes_junk [OF this, of "{0, 7}"] show ?thesis
    by (simp add: host_started_facts insert_Diff_if)
qed

end
