(* ===== verification/Host_Bluenoc.thy ===== *)
theory Host_Bluenoc
  imports Little_Endian Bluenoc_Ioctl
begin

text \<open>
  \<^verbatim>\<open>pcie-bluenoc.cpp\<close> and its header: the host's PCIe device on top of the bluenoc driver, run against
  the driver's model. The process has a table of open files; the entry of a board is its minor
  number and its address. What the driver's read and write return is an argument; Bluenoc_Transfer
  says what it is.
\<close>

section \<open>State\<close>

datatype hfile = Board_File nat nat | Other_File

text \<open>
  The driver's machine, the members of the class, the open files of the process, and the memory of the
  stack frame of \<^verbatim>\<open>Init\<close> from its local variable \<^verbatim>\<open>board_info\<close> on.
\<close>

record pcie_world =
  krn :: kernel
  initialized :: bool
  logicalName :: "string option"
  pcieDev :: int
  bpb :: u32
  proc_files :: "int \<Rightarrow> hfile option"
  frame :: "u8 list"

text \<open>
  The command line, the build's names of the platform and of its device, the device files, the
  descriptor the next open gives, whether polling that blocks ends with an event.
\<close>

record pcie_env =
  p_switch :: "string \<Rightarrow> string option"
  p_platform :: string
  p_dev_path :: string
  p_dyn_default :: string
  p_soft_reset :: bool
  p_run_tests :: bool
  p_node :: "string \<Rightarrow> nat option"
  p_fd :: int
  p_wait :: bool

datatype pcie_stop = PExit int | PAbort | PForever | PKernel stall

type_synonym 'a pcie = "(pcie_world, pcie_stop, 'a) prog"

definition in_driver :: "'a kprog \<Rightarrow> 'a pcie" where
  "in_driver p = (\<lambda>w. case p (krn w) of
      (Inl e, k) \<Rightarrow> (Inl (PKernel e), w\<lparr>krn := k\<rparr>)
    | (Inr x, k) \<Rightarrow> (Inr x, w\<lparr>krn := k\<rparr>))"

definition get :: "(pcie_world \<Rightarrow> 'a) \<Rightarrow> 'a pcie" where
  "get f = (\<lambda>w. (Inr (f w), w))"

lemma get_run [simp]: "get f w = (Inr (f w), w)"
  by (simp add: get_def)

section \<open>System calls\<close>

definition sys_open :: "pcie_env \<Rightarrow> string \<Rightarrow> int pcie" where
  "sys_open E path = (case p_node E path of
       None \<Rightarrow> ret (- 1)
     | Some n \<Rightarrow> bind (in_driver (bluenoc_open n)) (\<lambda>(err, a). case a of
         None \<Rightarrow> ret (- 1)
       | Some a \<Rightarrow> andThen (modify (\<lambda>w. w\<lparr>proc_files := (proc_files w)(p_fd E \<mapsto> Board_File n a)\<rparr>)) (ret (p_fd E))))"

definition sys_ioctl :: "kenv \<Rightarrow> uenv \<Rightarrow> int \<Rightarrow> u32 \<Rightarrow> u64 \<Rightarrow> ioctl_result pcie" where
  "sys_ioctl K U fd cmd arg = bind (get proc_files) (\<lambda>fs. case fs fd of
       Some (Board_File n a) \<Rightarrow> bind (in_driver (bluenoc_ioctl K U a cmd arg)) (\<lambda>r.
         ret (if fst r < 0 then (- 1, snd r) else r))
     | _ \<Rightarrow> ret (- 1, None))"

definition sys_close :: "int \<Rightarrow> unit pcie" where
  "sys_close fd = bind (get proc_files) (\<lambda>fs.
     andThen (case fs fd of Some (Board_File n a) \<Rightarrow> bind (in_driver (bluenoc_release n a)) (\<lambda>_. ret ()) | _ \<Rightarrow> ret ())
       (modify (\<lambda>w. w\<lparr>proc_files := (proc_files w)(fd := None)\<rparr>)))"

section \<open>The board description in memory\<close>

text \<open>
  The structure of the host's copy of \<^verbatim>\<open>bluenoc.h\<close>, 40 bytes long with 4 bytes of padding, and that of
  the driver's, which has two more words.
\<close>

record host_info =
  hi_board_number :: u32
  hi_is_active :: u32
  hi_major_rev :: u32
  hi_minor_rev :: u32
  hi_build :: u32
  hi_timestamp :: u32
  hi_bytes_per_beat :: u32
  hi_content_id :: u64

definition host_info_size :: nat where "host_info_size = 40"

definition load_at :: "nat \<Rightarrow> nat \<Rightarrow> u8 list \<Rightarrow> 'a::len word" where
  "load_at off n mem = le_word (take n (drop off mem))"

definition read_host_info :: "u8 list \<Rightarrow> host_info" where
  "read_host_info mem = \<lparr>hi_board_number = load_at 0 4 mem, hi_is_active = load_at 4 4 mem, hi_major_rev = load_at 8 4 mem,
     hi_minor_rev = load_at 12 4 mem, hi_build = load_at 16 4 mem, hi_timestamp = load_at 20 4 mem,
     hi_bytes_per_beat = load_at 24 4 mem, hi_content_id = load_at 32 8 mem\<rparr>"

definition driver_info_bytes :: "u8 list \<Rightarrow> board_info \<Rightarrow> u8 list" where
  "driver_info_bytes pad i =
     le_bytes 4 (of_nat (bi_board_number i) :: u32) @ le_bytes 4 (bi_is_active i) @ le_bytes 4 (bi_major_rev i)
     @ le_bytes 4 (bi_minor_rev i) @ le_bytes 4 (bi_build i) @ le_bytes 4 (bi_timestamp i) @ le_bytes 4 (bi_bytes_per_beat i)
     @ take 4 pad @ le_bytes 8 (bi_content_id i) @ le_bytes 4 (bi_subvendor_id i) @ le_bytes 4 (bi_subdevice_id i)"

text \<open>\<^verbatim>\<open>copy_to_user\<close> to the start of a stack frame that begins with the local variable.\<close>

definition copy_to_frame :: "u8 list \<Rightarrow> u8 list \<Rightarrow> u8 list" where
  "copy_to_frame bs fr = bs @ drop (length bs) fr"

section \<open>The device\<close>

definition pcie_construct :: "kernel \<Rightarrow> u32 \<Rightarrow> (int \<Rightarrow> hfile option) \<Rightarrow> u8 list \<Rightarrow> pcie_world" where
  "pcie_construct k junk fs fr = \<lparr>krn = k, initialized = False, logicalName = None, pcieDev = - 1, bpb = junk, proc_files = fs, frame = fr\<rparr>"

definition pcie_RegisterLogicalDeviceName :: "string \<Rightarrow> unit pcie" where
  "pcie_RegisterLogicalDeviceName name = modify (\<lambda>w. w\<lparr>logicalName := Some name\<rparr>)"

text \<open>\<^verbatim>\<open>poll\<close> for incoming data, at once or until there is an event.\<close>

definition pcie_Probe :: "pcie_env \<Rightarrow> bool \<Rightarrow> bool pcie" where
  "pcie_Probe E block = bind (get pcieDev) (\<lambda>fd. bind (get proc_files) (\<lambda>fs. case fs fd of
       Some (Board_File n a) \<Rightarrow> bind (in_driver (Bluenoc_Ioctl.Probe a)) (\<lambda>events. ret (events \<or> block \<and> p_wait E))
     | Some Other_File \<Rightarrow> ret (p_wait E)
     | None \<Rightarrow> if 0 \<le> fd then ret True else if block then raise PForever else ret False))"

text \<open>The device file, or none when the device is not used.\<close>

definition device_file :: "pcie_env \<Rightarrow> string option \<Rightarrow> string option" where
  "device_file E name = (case name of
       None \<Rightarrow> None
     | Some n \<Rightarrow> (case p_switch E n of
         Some f \<Rightarrow> Some f
       | None \<Rightarrow> if n = p_platform E \<and> p_dyn_default E \<noteq> p_dev_path E then Some (p_dev_path E) else None))"

text \<open>Of the three results only the last is looked at.\<close>

definition pcie_reset :: "kenv \<Rightarrow> uenv \<Rightarrow> int \<Rightarrow> unit pcie" where
  "pcie_reset K U fd =
     bind (sys_ioctl K U fd BNOC_DEACTIVATE 0) (\<lambda>_.
     bind (sys_ioctl K U fd BNOC_REACTIVATE 0) (\<lambda>_.
     bind (sys_ioctl K U fd BNOC_SOFT_RESET 0) (\<lambda>res.
       if fst res < 0 then raise (PExit 1) else ret ())))"

text \<open>
  The address of the local variable is \<open>arg\<close>. The driver writes its whole structure there, which is longer
  than the variable; when the call fails the variable keeps what the frame held. The bytes \<open>pad\<close> are the
  padding of the driver's structure.
\<close>

definition pcie_identify :: "kenv \<Rightarrow> uenv \<Rightarrow> pcie_env \<Rightarrow> u64 \<Rightarrow> u8 list \<Rightarrow> (int \<Rightarrow> unit pcie) \<Rightarrow> int \<Rightarrow> bool pcie" where
  "pcie_identify K U E arg pad tests fd =
     bind (sys_ioctl K U fd BNOC_IDENTIFY arg) (\<lambda>r.
     andThen (modify (\<lambda>w. case snd r of Some (User_Info info) \<Rightarrow> w\<lparr>frame := copy_to_frame (driver_info_bytes pad info) (frame w)\<rparr> | _ \<Rightarrow> w))
     (bind (get (\<lambda>w. read_host_info (frame w))) (\<lambda>info.
      if hi_is_active info = 0 then raise PAbort
      else andThen (modify (\<lambda>w. w\<lparr>bpb := hi_bytes_per_beat info\<rparr>))
       (bind (pcie_Probe E False) (\<lambda>warning.
        if p_run_tests E then andThen (tests fd) (raise (PExit 0))
        else andThen (modify (\<lambda>w. w\<lparr>initialized := True\<rparr>)) (ret True))))))"

definition pcie_Init :: "kenv \<Rightarrow> uenv \<Rightarrow> pcie_env \<Rightarrow> u64 \<Rightarrow> u8 list \<Rightarrow> (int \<Rightarrow> unit pcie) \<Rightarrow> bool pcie" where
  "pcie_Init K U E arg pad tests = bind (get initialized) (\<lambda>i. if i then ret True else
     bind (get logicalName) (\<lambda>name. case device_file E name of
       None \<Rightarrow> ret False
     | Some f \<Rightarrow>
         bind (sys_open E f) (\<lambda>fd. andThen (modify (\<lambda>w. w\<lparr>pcieDev := fd\<rparr>))
         (if fd < 0 then raise (PExit 1)
          else andThen (if p_soft_reset E then pcie_reset K U fd else ret ())
            (pcie_identify K U E arg pad tests fd)))))"

text \<open>After closing the descriptor becomes 0, not -1.\<close>

definition pcie_Cleanup :: "unit pcie" where
  "pcie_Cleanup = andThen (modify (\<lambda>w. w\<lparr>initialized := False\<rparr>))
     (bind (get pcieDev) (\<lambda>fd. if 0 \<le> fd then andThen (sys_close fd) (modify (\<lambda>w. w\<lparr>pcieDev := 0\<rparr>)) else ret ()))"

definition pcie_Uninit :: "unit pcie" where "pcie_Uninit = pcie_Cleanup"

definition pcie_destruct :: "unit pcie" where
  "pcie_destruct = andThen (modify (\<lambda>w. w\<lparr>logicalName := None\<rparr>)) pcie_Cleanup"

text \<open>The results of the system calls are \<^verbatim>\<open>rc\<close> and \<^verbatim>\<open>wc\<close>.\<close>

definition pcie_Read :: "int \<Rightarrow> int pcie" where
  "pcie_Read rc = bind (get initialized) (\<lambda>i.
     if rc \<le> 0 then (if \<not> i then ret 0 else raise (PExit 1)) else ret rc)"

definition pcie_Write :: "int \<Rightarrow> nat \<Rightarrow> unit pcie" where
  "pcie_Write wc n = bind (get initialized) (\<lambda>i.
     if wc < 0 \<or> wc \<noteq> int n then (if \<not> i then ret () else raise (PExit 1)) else ret ())"

definition BytesPerBeat :: "pcie_world \<Rightarrow> u32" where "BytesPerBeat w = bpb w"

section \<open>The command switch\<close>

definition ProcessSwitchVoid :: "pcie_env \<Rightarrow> pcie_env" where
  "ProcessSwitchVoid E = E\<lparr>p_run_tests := True\<rparr>"

definition pcie_ShowSwitch :: "string \<Rightarrow> string" where
  "pcie_ShowSwitch prefix = prefix @ ''[--pcie-tests]          Run PCIe tests'' @ [CHR 0x0A]"

section \<open>Running on the driver\<close>

definition opened :: "int \<Rightarrow> nat \<Rightarrow> nat \<Rightarrow> pcie_world \<Rightarrow> bool" where
  "opened fd n a w \<longleftrightarrow> proc_files w fd = Some (Board_File n a) \<and> listed a (krn w)"

lemma in_driver_run: "p (krn w) = (Inr x, k) \<Longrightarrow> in_driver p w = (Inr x, w\<lparr>krn := k\<rparr>)"
  by (simp add: in_driver_def)

lemma ioctl_run:
  assumes "opened fd n a w" "bluenoc_ioctl K U a cmd arg (krn w) = (Inr r, k)" "0 \<le> fst r"
  shows "sys_ioctl K U fd cmd arg w = (Inr r, w\<lparr>krn := k\<rparr>)"
  using assms by (simp add: sys_ioctl_def opened_def bind_def in_driver_run)

lemma soft_reset_result: "\<forall>k r k'. soft_reset a k = (Inr r, k') \<longrightarrow> r = (0, None)"
  by (auto simp: soft_reset_def elim!: bind_Inr_cases andThen_Inr_cases split: if_splits)

lemma soft_reset_code: "bluenoc_ioctl K U a BNOC_SOFT_RESET arg = soft_reset a"
  by (simp add: bluenoc_ioctl_def ioctl_command_def bnoc_codes IOC_TYPE_def IOC_NR_def IOC_DIR_def BNOC_IOC_MAXNR_def)

text \<open>A command that keeps the board listed and returns 0, as the three of the reset do.\<close>

lemma ioctl_keeps:
  assumes "opened fd n a w" "keeps a p" "\<forall>k r k'. p k = (Inr r, k') \<longrightarrow> r = (0, None)" "bluenoc_ioctl K U a cmd 0 = p"
  shows "\<exists>k. sys_ioctl K U fd cmd 0 w = (Inr (0, None), w\<lparr>krn := k\<rparr>) \<and> opened fd n a (w\<lparr>krn := k\<rparr>)"
proof -
  obtain r k where run: "p (krn w) = (Inr r, k)" "listed a k" using assms(1,2) unfolding opened_def keeps_def by blast
  moreover have "r = (0, None)" using assms(3) run(1) by blast
  ultimately show ?thesis using ioctl_run [OF assms(1), of K U cmd 0 r k] assms(1,4) by (auto simp: opened_def)
qed

lemma andThen_zero: "\<forall>k r k'. andThen p (ret (0, None)) k = (Inr r, k') \<longrightarrow> r = (0, None)"
  by (auto elim!: andThen_Inr_cases)

lemma pcie_reset_run:
  assumes "opened fd n a w"
  shows "\<exists>k. pcie_reset K U fd w = (Inr (), w\<lparr>krn := k\<rparr>) \<and> opened fd n a (w\<lparr>krn := k\<rparr>)"
proof -
  obtain k1 where 1: "sys_ioctl K U fd BNOC_DEACTIVATE 0 w = (Inr (0, None), w\<lparr>krn := k1\<rparr>)" "opened fd n a (w\<lparr>krn := k1\<rparr>)"
    using ioctl_keeps [OF assms keeps_andThen [OF keeps_deactivate keeps_ret] andThen_zero codes_accepted(1)] by blast
  obtain k2 where 2: "sys_ioctl K U fd BNOC_REACTIVATE 0 (w\<lparr>krn := k1\<rparr>) = (Inr (0, None), w\<lparr>krn := k2\<rparr>)" "opened fd n a (w\<lparr>krn := k2\<rparr>)"
    using ioctl_keeps [OF 1(2) keeps_andThen [OF keeps_activate keeps_ret] andThen_zero codes_accepted(2)] by auto
  obtain k3 where 3: "sys_ioctl K U fd BNOC_SOFT_RESET 0 (w\<lparr>krn := k2\<rparr>) = (Inr (0, None), w\<lparr>krn := k3\<rparr>)" "opened fd n a (w\<lparr>krn := k3\<rparr>)"
    using ioctl_keeps [OF 2(2) keeps_soft_reset soft_reset_result soft_reset_code] by auto
  show ?thesis using 1(1) 2(1) 3 by (intro exI [of _ k3]) (simp add: pcie_reset_def bind_def)
qed

lemma maybe_reset_run:
  assumes "opened fd n a w"
  shows "\<exists>w'. (if c then pcie_reset K U fd else ret ()) w = (Inr (), w') \<and> opened fd n a w' \<and> proc_files w' = proc_files w
    \<and> pcieDev w' = pcieDev w \<and> initialized w' = initialized w \<and> frame w' = frame w"
  using pcie_reset_run [OF assms, of K U] assms by (cases c) (auto simp: opened_def)

lemma Probe_beat:
  assumes "listed a k" "boards k a = Some b"
  shows "\<exists>x k'. Bluenoc_Ioctl.Probe a k = (Inr x, k') \<and> listed a k' \<and>
    activation_level (the (boards k' a)) = activation_level b \<and> bytes_per_beat (the (boards k' a)) = bytes_per_beat b \<and>
    pci_dev (the (boards k' a)) = pci_dev b"
proof -
  obtain x k' where "Bluenoc_Ioctl.Probe a k = (Inr x, k')" "listed a k'" using keeps_Probe assms(1) unfolding keeps_def by blast
  moreover have "activation_level (the (boards (snd (Bluenoc_Ioctl.Probe a k)) a)) = activation_level b"
    "bytes_per_beat (the (boards (snd (Bluenoc_Ioctl.Probe a k)) a)) = bytes_per_beat b"
    "pci_dev (the (boards (snd (Bluenoc_Ioctl.Probe a k)) a)) = pci_dev b"
    using assms(2) by (simp_all add: Bluenoc_Ioctl.Probe_def bluenoc_poll_def bind_def andThen_def the_board_run set_board_run)
  ultimately show ?thesis by auto
qed

lemma le_words [simp]:
  "le_word (le_bytes 4 (x :: u32)) = x" "le_word (le_bytes 8 (y :: u64)) = y"
  by (simp_all add: le_word_bytes)

text \<open>What the driver writes, read as the host's structure, and what it leaves behind that structure.\<close>

lemma identify_in_frame:
  assumes "length pad = 4"
  shows "read_host_info (copy_to_frame (driver_info_bytes pad (identify K b)) fr) =
      \<lparr>hi_board_number = of_nat (board_number b), hi_is_active = (if activation_level b = BLUENOC_ACTIVE then 1 else 0),
       hi_major_rev = major_rev b, hi_minor_rev = minor_rev b, hi_build = build b, hi_timestamp = timestamp b,
       hi_bytes_per_beat = bytes_per_beat b, hi_content_id = content_id b\<rparr>"
    and "drop host_info_size (copy_to_frame (driver_info_bytes pad (identify K b)) fr) =
      le_bytes 4 (k_subsystem_vendor K (pci_dev b)) @ le_bytes 4 (k_subsystem_device K (pci_dev b)) @ drop (host_info_size + 8) fr"
  using assms by (simp_all add: read_host_info_def copy_to_frame_def driver_info_bytes_def load_at_def identify_def host_info_size_def)

definition overrun_by :: "kenv \<Rightarrow> board \<Rightarrow> u8 list \<Rightarrow> u8 list \<Rightarrow> bool" where
  "overrun_by K b fr fr' \<longleftrightarrow> drop host_info_size fr' =
     le_bytes 4 (k_subsystem_vendor K (pci_dev b)) @ le_bytes 4 (k_subsystem_device K (pci_dev b)) @ drop (host_info_size + 8) fr"

lemma Init_after_reset:
  assumes "opened fd n a w" "u_access_ok U arg 8" "u_writable U arg 48" "\<not> p_run_tests E" "pcieDev w = fd" "length pad = 4"
  shows "\<exists>e w'. pcie_identify K U E arg pad tests fd w = (e, w') \<and>
    opened fd n a w' \<and> proc_files w' = proc_files w \<and> pcieDev w' = fd \<and> overrun_by K (the (boards (krn w') a)) (frame w) (frame w') \<and>
    (if activation_level (the (boards (krn w') a)) = BLUENOC_ACTIVE
     then e = Inr True \<and> initialized w' \<and> bpb w' = bytes_per_beat (the (boards (krn w') a))
     else e = Inl PAbort \<and> initialized w' = initialized w)"
proof -
  have l: "listed a (krn w)" "proc_files w fd = Some (Board_File n a)" using assms(1) by (simp_all add: opened_def)
  then obtain b where b: "boards (krn w) a = Some b" using listed_board unfolding listed_def by metis
  have "bluenoc_ioctl K U a BNOC_IDENTIFY arg (krn w) = (Inr (0, Some (User_Info (identify K b))), krn w)"
    using codes_accepted(3) [OF assms(2)] assms(3) b by (simp add: bind_def the_board_run put_user_def)
  from ioctl_run [OF assms(1) this] have id: "sys_ioctl K U fd BNOC_IDENTIFY arg w = (Inr (0, Some (User_Info (identify K b))), w)"
    by simp
  let ?fr = "copy_to_frame (driver_info_bytes pad (identify K b)) (frame w)"
  note here = identify_in_frame [OF assms(6), of K b "frame w"]
  show ?thesis
  proof (cases "activation_level b = BLUENOC_ACTIVE")
    case False
    with id b assms(1,5) here show ?thesis by (simp add: pcie_identify_def bind_def andThen_def opened_def overrun_by_def)
  next
    case True
    obtain x k where p: "Bluenoc_Ioctl.Probe a (krn w) = (Inr x, k)" "listed a k"
      "activation_level (the (boards k a)) = activation_level b" "bytes_per_beat (the (boards k a)) = bytes_per_beat b"
      "pci_dev (the (boards k a)) = pci_dev b"
      using Probe_beat [OF l(1) b] by blast
    have "pcie_Probe E False (w\<lparr>frame := ?fr, bpb := bytes_per_beat b\<rparr>) = (Inr x, w\<lparr>frame := ?fr, bpb := bytes_per_beat b, krn := k\<rparr>)"
      using l(2) assms(5) p(1) by (simp add: pcie_Probe_def bind_def in_driver_run)
    with id True p assms(4,5) l(2) here show ?thesis
      by (simp add: pcie_identify_def bind_def andThen_def opened_def overrun_by_def)
  qed
qed

section \<open>Properties\<close>

text \<open>
  C28. Initialising the device of a listed board, when the driver may write its 48 bytes at the local
  variable, opens the board's file, keeps the driver's invariant and then either succeeds with the bytes
  per beat of the board, exactly when the board is active at the end, or ends at the assertion. A
  reactivation that fails shows only there, because its result is not looked at. In both cases the eight
  bytes behind the local variable of 40 have been overwritten with the subsystem numbers of the board,
  and nothing further behind it: that is undefined in C, and the program goes on only if nothing of use
  lies there.
\<close>

theorem Init_follows_board:
  assumes "driver_ok (krn w)" "a \<in> set (board_list (krn w))" "\<not> initialized w" "device_file E (logicalName w) = Some f"
    "p_node E f = Some (num_of (krn w) a)" "0 \<le> p_fd E" "u_access_ok U arg 8" "u_writable U arg 48" "\<not> p_run_tests E"
    "length pad = 4"
  shows "\<exists>e w'. pcie_Init K U E arg pad tests w = (e, w') \<and> driver_ok (krn w') \<and> a \<in> set (board_list (krn w')) \<and>
    pcieDev w' = p_fd E \<and> proc_files w' = (proc_files w)(p_fd E \<mapsto> Board_File (num_of (krn w) a) a) \<and>
    drop host_info_size (frame w') =
      le_bytes 4 (k_subsystem_vendor K (pci_dev (the (boards (krn w') a)))) @
      le_bytes 4 (k_subsystem_device K (pci_dev (the (boards (krn w') a)))) @ drop (host_info_size + 8) (frame w) \<and>
    (if activation_level (the (boards (krn w') a)) = BLUENOC_ACTIVE
     then e = Inr True \<and> initialized w' \<and> bpb w' = bytes_per_beat (the (boards (krn w') a))
     else e = Inl PAbort \<and> \<not> initialized w')"
proof -
  let ?n = "num_of (krn w) a" and ?fd = "p_fd E"
  let ?k1 = "(krn w)\<lparr>open_count := (open_count (krn w))(?n := open_count (krn w) ?n + 1)\<rparr>"
  let ?w1 = "w\<lparr>krn := ?k1, proc_files := (proc_files w)(?fd \<mapsto> Board_File ?n a)\<rparr>"
  let ?w2 = "w\<lparr>krn := ?k1, proc_files := (proc_files w)(?fd \<mapsto> Board_File ?n a), pcieDev := ?fd\<rparr>"
  have l: "listed a (krn w)" using assms(1,2) by (simp add: listed_def)
  have "find (\<lambda>x. num_of (krn w) x = ?n) (board_list (krn w)) = Some a"
    using assms(2) driver_okD(3) [OF assms(1)] by (intro find_unique) (auto simp: inj_on_def)
  then have "sys_open E f w = (Inr ?fd, w\<lparr>krn := ?k1, proc_files := (proc_files w)(?fd \<mapsto> Board_File ?n a)\<rparr>)"
    using assms(5) by (simp add: sys_open_def bind_def andThen_def in_driver_def open_run [OF assms(1)])
  then have op: "andThen (sys_open E f) p w = p ?w1" "bind (sys_open E f) q w = q ?fd ?w1" for p :: "bool pcie" and q :: "int \<Rightarrow> bool pcie"
    by (simp_all add: andThen_def bind_def)
  have o2: "opened ?fd ?n a ?w2" using opened_listed(1) [OF l] by (simp add: opened_def)
  from maybe_reset_run [OF this, of "p_soft_reset E" K U] obtain w3 where
    3: "(if p_soft_reset E then pcie_reset K U ?fd else ret ()) ?w2 = (Inr (), w3)" "opened ?fd ?n a w3"
      "proc_files w3 = proc_files ?w2" "pcieDev w3 = ?fd" "initialized w3 = initialized w" "frame w3 = frame w" by auto
  from Init_after_reset [OF 3(2) assms(7-9) 3(4) assms(10), of K tests] obtain e w' where
    4: "pcie_identify K U E arg pad tests ?fd w3 = (e, w')"
    "overrun_by K (the (boards (krn w') a)) (frame w3) (frame w')"
    "opened ?fd ?n a w'" "proc_files w' = proc_files w3" "pcieDev w' = ?fd"
    "if activation_level (the (boards (krn w') a)) = BLUENOC_ACTIVE
     then e = Inr True \<and> initialized w' \<and> bpb w' = bytes_per_beat (the (boards (krn w') a))
     else e = Inl PAbort \<and> initialized w' = initialized w3" by blast
  have "pcie_Init K U E arg pad tests w = andThen (if p_soft_reset E then pcie_reset K U ?fd else ret ())
      (pcie_identify K U E arg pad tests ?fd) ?w2"
    using assms(3,4,6) unfolding pcie_Init_def by (simp add: bind_Inr [OF get_run] op andThen_Inr [OF modify_run])
  also have "\<dots> = (e, w')" using 3(1) 4(1) by (simp add: andThen_Inr)
  finally show ?thesis using 4 3 assms(3) by (auto simp: opened_def listed_def overrun_by_def)
qed

definition pcie_env0 :: pcie_env where
  "pcie_env0 = \<lparr>p_switch = \<lambda>_. None, p_platform = ''fpga'', p_dev_path = ''/dev/bluenoc_1'', p_dyn_default = [],
     p_soft_reset = True, p_run_tests = False, p_node = \<lambda>_. Some 1, p_fd = 3, p_wait = False\<rparr>"

definition pcie_world0 :: pcie_world where
  "pcie_world0 = (pcie_construct kern2 0 [0 \<mapsto> Other_File] (replicate 64 7))\<lparr>logicalName := Some ''fpga''\<rparr>"

lemma Init_follows_board_witness:
  "\<exists>e w'. pcie_Init good_kenv uenv0 pcie_env0 4096 [0, 0, 0, 0] (\<lambda>_. ret ()) pcie_world0 = (e, w') \<and> driver_ok (krn w') \<and>
    pcieDev w' = 3 \<and> drop 48 (frame w') = replicate 16 7 \<and> (e = Inr True \<or> e = Inl PAbort)"
proof -
  have w: "krn pcie_world0 = kern2" "\<not> initialized pcie_world0" "frame pcie_world0 = replicate 64 7"
    by (simp_all add: pcie_world0_def pcie_construct_def)
  have "device_file pcie_env0 (logicalName pcie_world0) = Some ''/dev/bluenoc_1''"
    by (simp add: device_file_def pcie_env0_def pcie_world0_def)
  moreover have "length [0, 0, 0, 0 :: u8] = 4" by simp
  ultimately obtain e w' where run: "pcie_Init good_kenv uenv0 pcie_env0 4096 [0, 0, 0, 0] (\<lambda>_. ret ()) pcie_world0 = (e, w')" "driver_ok (krn w')"
    "pcieDev w' = 3" "if activation_level (the (boards (krn w') 0)) = BLUENOC_ACTIVE then e = Inr True \<and> initialized w' \<and>
      bpb w' = bytes_per_beat (the (boards (krn w') 0)) else e = Inl PAbort \<and> \<not> initialized w'"
    "drop host_info_size (frame w') =
      le_bytes 4 (k_subsystem_vendor good_kenv (pci_dev (the (boards (krn w') 0)))) @
      le_bytes 4 (k_subsystem_device good_kenv (pci_dev (the (boards (krn w') 0)))) @ drop (host_info_size + 8) (frame pcie_world0)"
    using Init_follows_board [of pcie_world0 0 pcie_env0 "''/dev/bluenoc_1''" uenv0 4096 "[0, 0, 0, 0]" good_kenv "\<lambda>_. ret ()"] w
    by (auto simp: kern2_ok kern2_board pcie_env0_def uenv0_def)
  have "drop 8 (drop host_info_size (frame w')) = replicate 16 7" unfolding run(5) w(3) by (simp add: host_info_size_def)
  then have "drop 48 (frame w') = replicate 16 7" by (simp add: host_info_size_def)
  with run(1-4) show ?thesis by (auto split: if_splits)
qed

text \<open>
  \<^verbatim>\<open>BNOC_IDENTIFY\<close> fills the host's structure with what the driver knows of the board, and then
  goes on: the driver's structure is 8 bytes longer than the host's, whose header lacks two fields,
  so that the subsystem numbers of the board overwrite what lies behind the local variable.
\<close>

theorem identify_overruns_host:
  assumes "boards k a = Some b" "u_access_ok U arg 8" "u_writable U arg 48" "host_info_size + 8 \<le> length fr" "length pad = 4"
  shows "\<exists>i. bluenoc_ioctl K U a BNOC_IDENTIFY arg k = (Inr (0, Some (User_Info i)), k) \<and>
    read_host_info (copy_to_frame (driver_info_bytes pad i) fr) =
      \<lparr>hi_board_number = of_nat (board_number b), hi_is_active = (if activation_level b = BLUENOC_ACTIVE then 1 else 0),
       hi_major_rev = major_rev b, hi_minor_rev = minor_rev b, hi_build = build b, hi_timestamp = timestamp b,
       hi_bytes_per_beat = bytes_per_beat b, hi_content_id = content_id b\<rparr> \<and>
    drop host_info_size (copy_to_frame (driver_info_bytes pad i) fr) =
      le_bytes 4 (k_subsystem_vendor K (pci_dev b)) @ le_bytes 4 (k_subsystem_device K (pci_dev b)) @ drop (host_info_size + 8) fr"
proof -
  have "bluenoc_ioctl K U a BNOC_IDENTIFY arg k = (Inr (0, Some (User_Info (identify K b))), k)"
    using codes_accepted(3) [OF assms(2)] assms(1,3) by (simp add: bind_def the_board_run put_user_def)
  with identify_in_frame [OF assms(5), of K b fr] show ?thesis by blast
qed

lemma identify_overruns_host_witness:
  "\<exists>i. bluenoc_ioctl good_kenv uenv0 0 BNOC_IDENTIFY 4096 kern2 = (Inr (0, Some (User_Info i)), kern2) \<and>
    drop 48 (copy_to_frame (driver_info_bytes [0, 0, 0, 0] i) (replicate 64 7)) = replicate 16 7"
proof -
  have "host_info_size + 8 \<le> length (replicate 64 (7 :: u8))" "length [0, 0, 0, 0 :: u8] = 4" by (simp_all add: host_info_size_def)
  from identify_overruns_host [OF kern2_board(2) _ _ this, of uenv0 4096 good_kenv] obtain i where
    i: "bluenoc_ioctl good_kenv uenv0 0 BNOC_IDENTIFY 4096 kern2 = (Inr (0, Some (User_Info i)), kern2)"
    "drop host_info_size (copy_to_frame (driver_info_bytes [0, 0, 0, 0] i) (replicate 64 7)) =
      le_bytes 4 (k_subsystem_vendor good_kenv (pci_dev board1)) @ le_bytes 4 (k_subsystem_device good_kenv (pci_dev board1))
        @ drop (host_info_size + 8) (replicate 64 (7 :: u8))"
    by (auto simp: uenv0_def)
  have "drop 8 (drop host_info_size (copy_to_frame (driver_info_bytes [0, 0, 0, 0] i) (replicate 64 7))) = replicate 16 7"
    unfolding i(2) by (simp add: host_info_size_def)
  with i(1) show ?thesis by (simp add: host_info_size_def)
qed

text \<open>
  Taking the device down twice, as \<^verbatim>\<open>Uninit\<close> followed by the destructor does, closes the board's file
  and then descriptor 0 of the process, its standard input.
\<close>

theorem second_cleanup_closes_stdin:
  assumes "driver_ok (krn w)" "a \<in> set (board_list (krn w))" "proc_files w (pcieDev w) = Some (Board_File n a)"
    "0 < pcieDev w" "proc_files w 0 = Some Other_File"
  shows "\<exists>w'. andThen pcie_Uninit pcie_destruct w = (Inr (), w') \<and> proc_files w' = (proc_files w)(pcieDev w := None, 0 := None)"
proof -
  obtain k where k: "bluenoc_release n a (krn w) = (Inr 0, k)"
    using release_listed [of a "krn w" n] assms(1,2) by (auto simp: listed_def)
  let ?w0 = "w\<lparr>initialized := False\<rparr>" and ?w1 = "w\<lparr>initialized := False, krn := k, proc_files := (proc_files w)(pcieDev w := None), pcieDev := 0\<rparr>"
  have "in_driver (bluenoc_release n a) ?w0 = (Inr 0, ?w0\<lparr>krn := k\<rparr>)" by (rule in_driver_run) (simp add: k)
  with assms(3,4) have "pcie_Uninit w = (Inr (), ?w1)"
    by (simp add: pcie_Uninit_def pcie_Cleanup_def sys_close_def andThen_def bind_def)
  moreover have "proc_files ?w1 0 = Some Other_File" using assms(4,5) by simp
  ultimately show ?thesis
    by (simp add: pcie_destruct_def pcie_Cleanup_def sys_close_def andThen_def bind_def)
qed

lemma second_cleanup_closes_stdin_witness:
  "\<exists>w'. andThen pcie_Uninit pcie_destruct (pcie_world0\<lparr>pcieDev := 3, proc_files := [0 \<mapsto> Other_File, 3 \<mapsto> Board_File 1 0]\<rparr>) = (Inr (), w')
    \<and> proc_files w' 0 = None"
  using second_cleanup_closes_stdin [of "pcie_world0\<lparr>pcieDev := 3, proc_files := [0 \<mapsto> Other_File, 3 \<mapsto> Board_File 1 0]\<rparr>" 0 1]
  by (simp add: pcie_world0_def pcie_construct_def kern2_ok kern2_board) (auto simp: fun_eq_iff)

end
