(* ===== verification/Host_Bluenoc_Tests.thy ===== *)
theory Host_Bluenoc_Tests
  imports Little_Endian
begin

text \<open>
  \<^verbatim>\<open>pcie-bluenoc-tests.cpp\<close>: the link test that \<^verbatim>\<open>--pcie-tests\<close> runs on an open board. It sends a short
  message and a gigabyte of messages to a sink, asks a flooder for a gigabyte and compares the first
  4096 bytes of it with what the flooder sends. What the system calls answer are arguments; printed
  times and rates are not modelled.
\<close>

section \<open>System calls\<close>

text \<open>The answers to each write, of a given size, and to each read, by the number of the call.\<close>

record test_env =
  t_memalign :: bool
  t_reset :: int
  t_write :: "nat \<Rightarrow> nat \<Rightarrow> int"
  t_read :: "nat \<Rightarrow> u8 list option"

record test_world =
  t_written :: "u8 list list"
  t_reads :: nat

datatype test_stop = T_Exit int | T_Abort | T_Divide | T_Outside

type_synonym 'a test = "(test_world, test_stop, 'a) prog"

definition test_write :: "test_env \<Rightarrow> u8 list \<Rightarrow> int test" where
  "test_write E bs = (\<lambda>w. (Inr (t_write E (length (t_written w)) (length bs)), w\<lparr>t_written := t_written w @ [bs]\<rparr>))"

definition test_read :: "test_env \<Rightarrow> u8 list option test" where
  "test_read E = (\<lambda>w. (Inr (t_read E (t_reads w)), w\<lparr>t_reads := t_reads w + 1\<rparr>))"

section \<open>Writing in pieces\<close>

text \<open>At most 65536 bytes at a time; an empty buffer is written once.\<close>

function doWrite :: "test_env \<Rightarrow> u8 list \<Rightarrow> test_world \<Rightarrow> (test_stop + unit) \<times> test_world" where
  "doWrite E buf w =
     (let this_cnt = (if 65536 < length buf then 65536 else length buf) in
      case test_write E (take this_cnt buf) w of
        (Inl e, w') \<Rightarrow> (Inl e, w')
      | (Inr n_written, w') \<Rightarrow>
          if n_written < 0 then (Inl (T_Exit 1), w')
          else if n_written \<noteq> int this_cnt then (Inl (T_Exit 1), w')
          else if drop this_cnt buf = [] then (Inr (), w')
          else doWrite E (drop this_cnt buf) w')"
  by pat_completeness auto
termination by (relation "measure (\<lambda>(_, buf, _). length buf)") (auto simp: Let_def)

declare doWrite.simps [simp del]

section \<open>Checking the flooder's data\<close>

text \<open>The words that are left and the errors so far; no words left is a read behind the buffer.\<close>

definition checkValue :: "u64 \<Rightarrow> u64 \<Rightarrow> u64" where
  "checkValue val expect = (if val \<noteq> expect then 1 else 0)"

definition check_word :: "u64 \<Rightarrow> u64 list \<times> u64 \<Rightarrow> (u64 list \<times> u64) option" where
  "check_word expect st = (case fst st of [] \<Rightarrow> None | x # xs \<Rightarrow> Some (xs, snd st + checkValue x expect))"

definition check_beat :: "bool \<Rightarrow> u64 \<Rightarrow> u64 list \<times> u64 \<Rightarrow> (u64 list \<times> u64) option" where
  "check_beat bpb16 val st = Option.bind (check_word val st) (\<lambda>st1. if bpb16 then check_word 0 st1 else Some st1)"

definition beat_value :: "u32 \<Rightarrow> u64" where
  "beat_value beatsToSend = (let val = ucast beatsToSend in push_bit 33 val OR val)"

fun check_beats :: "nat \<Rightarrow> bool \<Rightarrow> u32 \<Rightarrow> u64 list \<times> u64 \<Rightarrow> (u64 list \<times> u64) option" where
  "check_beats 0 bpb16 beats st = Some st"
| "check_beats (Suc n) bpb16 beats st =
     Option.bind (check_beat bpb16 (beat_value beats) st) (check_beats n bpb16 (beats - 1))"

definition beats_per_block :: "bool \<Rightarrow> nat" where
  "beats_per_block bpb16 = 256 div (if bpb16 then 16 else 8) - 1"

text \<open>One turn of the outer loop: the header beat and the beats behind it.\<close>

definition check_block :: "bool \<Rightarrow> u32 \<Rightarrow> u64 list \<times> u64 \<Rightarrow> (u64 list \<times> u64) option" where
  "check_block bpb16 beats st =
     Option.bind (check_beat bpb16 0xfc0300 st) (check_beats (beats_per_block bpb16) bpb16 (beats - 1))"

lemma check_word_shorter: "check_word e st = Some st' \<Longrightarrow> length (fst st') < length (fst st)"
  by (auto simp: check_word_def split: list.splits)

lemma check_beat_shorter: "check_beat b v st = Some st' \<Longrightarrow> length (fst st') < length (fst st)"
  by (auto simp: check_beat_def Option.bind_eq_Some_conv dest!: check_word_shorter split: if_splits)

lemma check_beats_shorter: "check_beats n b v st = Some st' \<Longrightarrow> length (fst st') \<le> length (fst st)"
  by (induction n arbitrary: v st) (fastforce simp: Option.bind_eq_Some_conv dest!: check_beat_shorter)+

lemma check_block_shorter: "check_block b v st = Some st' \<Longrightarrow> length (fst st') < length (fst st)"
  by (fastforce simp: check_block_def Option.bind_eq_Some_conv dest!: check_beat_shorter check_beats_shorter)

text \<open>\<^verbatim>\<open>count\<close> is a \<^verbatim>\<open>size_t\<close> that every beat lowers.\<close>

function check_blocks :: "bool \<Rightarrow> u64 \<Rightarrow> u32 \<Rightarrow> u64 list \<times> u64 \<Rightarrow> u64 option" where
  "check_blocks bpb16 count beats st =
     (if count = 0 then Some (snd st)
      else case check_block bpb16 beats st of
        None \<Rightarrow> None
      | Some st' \<Rightarrow> check_blocks bpb16 (count - of_nat ((beats_per_block bpb16 + 1) * (if bpb16 then 16 else 8)))
          (beats - of_nat (beats_per_block bpb16 + 1)) st')"
  by pat_completeness auto
termination
  by (relation "measure (\<lambda>(_, _, _, st). length (fst st))") (auto simp del: fst_conv dest: check_block_shorter)

declare check_blocks.simps [simp del]

definition checkReadValues :: "int \<Rightarrow> u64 list \<Rightarrow> u64 \<Rightarrow> u32 \<Rightarrow> u32 option" where
  "checkReadValues bpb inBuf count beatsToSend =
     (if bpb = 8 \<or> bpb = 16 then map_option ucast (check_blocks (bpb = 16) count beatsToSend (inBuf, 0)) else Some 0)"

section \<open>The test\<close>

definition sink_message :: "u8 list" where "sink_message = [2, 0, 12, 1]"

definition block_message :: "u8 list" where
  "block_message = [2, 0, 252, 0] @ map of_nat [0..<252]"

definition flood_message :: "u64 \<Rightarrow> u8 list" where
  "flood_message req_beats = [3, 0, 4, 1, ucast req_beats, ucast (drop_bit 8 req_beats), ucast (drop_bit 16 req_beats),
     ucast (drop_bit 24 req_beats)]"

text \<open>A command: its bytes, and behind them what the buffer of 1024 bytes holds.\<close>

definition command :: "u8 list \<Rightarrow> u8 list \<Rightarrow> nat \<Rightarrow> u8 list" where
  "command msg cmdBuf n = take n (msg @ drop (length msg) cmdBuf)"

fun words_of :: "u8 list \<Rightarrow> u64 list" where
  "words_of (a # b # c # d # e # f # g # h # bs) = le_word [a, b, c, d, e, f, g, h] # words_of bs"
| "words_of _ = []"

fun send_blocks :: "test_env \<Rightarrow> u8 list \<Rightarrow> nat \<Rightarrow> unit test" where
  "send_blocks E buf 0 = ret ()"
| "send_blocks E buf (Suc n) = andThen (doWrite E buf) (send_blocks E buf n)"

text \<open>The read loop with the bytes read and the errors so far; every turn that goes on reads 65536 bytes.\<close>

function read_flood :: "test_env \<Rightarrow> int \<Rightarrow> u32 \<Rightarrow> nat \<Rightarrow> nat \<Rightarrow> u32 \<Rightarrow> test_world \<Rightarrow> (test_stop + nat \<times> u32) \<times> test_world" where
  "read_flood E bpb req_beats req_bytes read_bytes errors w =
     (if req_bytes \<le> read_bytes then (Inr (read_bytes, errors), w)
      else case test_read E w of
        (Inl e, w') \<Rightarrow> (Inl e, w')
      | (Inr None, w') \<Rightarrow> (Inl (T_Exit 1), w')
      | (Inr (Some bs), w') \<Rightarrow>
          if length bs \<noteq> 65536 then (Inl (T_Exit 1), w')
          else if read_bytes = 0 then
            (case checkReadValues bpb (words_of bs) 4096 req_beats of
               None \<Rightarrow> (Inl T_Outside, w')
             | Some n \<Rightarrow> read_flood E bpb req_beats req_bytes (read_bytes + length bs) (errors + n) w')
          else read_flood E bpb req_beats req_bytes (read_bytes + length bs) errors w')"
  by pat_completeness auto
termination by (relation "measure (\<lambda>(_, _, _, req, n, _, _). req - n)") auto

declare read_flood.simps [simp del]

text \<open>
  The whole test on a board with \<^verbatim>\<open>bpb\<close> bytes per beat, 0 when it is not active: how many bytes were
  read, with how many errors.
\<close>

definition Test :: "test_env \<Rightarrow> int \<Rightarrow> u8 list \<Rightarrow> (nat \<times> u32) test" where
  "Test E bpb cmdBuf =
     andThen (if t_memalign E then ret () else raise (T_Exit 1))
     (andThen (if 0 \<le> t_reset E then ret () else raise T_Abort)
     (bind (test_write E (command sink_message cmdBuf (nat (max 16 bpb)))) (\<lambda>result.
      andThen (if 0 < result then ret () else raise T_Abort)
      (andThen (send_blocks E (concat (replicate 4096 block_message)) 1024)
       (if bpb = 0 then raise T_Divide
        else let req_bytes = 1073741824 :: nat; req_beats = word_of_int (int req_bytes div bpb) :: u64 in
          bind (test_write E (command (flood_message req_beats) cmdBuf (nat (max 8 bpb)))) (\<lambda>result.
            if result \<noteq> max 8 bpb then raise (T_Exit 1)
            else read_flood E bpb (ucast req_beats) req_bytes 0 0))))))"

section \<open>What the pieces do\<close>

lemma doWrite_pieces:
  assumes "doWrite E buf w = (Inr (), w')"
  shows "\<exists>ws. t_written w' = t_written w @ ws \<and> concat ws = buf \<and> (\<forall>p \<in> set ws. length p \<le> 65536) \<and> t_reads w' = t_reads w"
  using assms
proof (induction E buf w rule: doWrite.induct)
  case (1 E buf w)
  define c where "c = (if 65536 < length buf then 65536 else length buf)"
  let ?w1 = "w\<lparr>t_written := t_written w @ [take c buf]\<rparr>"
  have len: "length (take c buf) = c" "c \<le> 65536" by (auto simp: c_def)
  define n where "n = t_write E (length (t_written w)) c"
  have wr: "test_write E (take c buf) w = (Inr n, ?w1)" using len by (simp add: test_write_def n_def)
  have n: "n = int c"
    using 1(2) wr by (simp add: doWrite.simps [of E buf w] Let_def c_def [symmetric] split: if_splits)
  show ?case
  proof (cases "drop c buf = []")
    case True
    then have "w' = ?w1" using 1(2) wr n by (simp add: doWrite.simps [of E buf w] Let_def c_def [symmetric])
    with True len show ?thesis by (intro exI [of _ "[take c buf]"]) simp
  next
    case False
    then have run: "doWrite E (drop c buf) ?w1 = (Inr (), w')"
      using 1(2) wr n by (simp add: doWrite.simps [of E buf w] Let_def c_def [symmetric])
    have "\<not> n < 0" "\<not> n \<noteq> int c" using n by simp_all
    from 1(1) [OF c_def wr [symmetric, unfolded c_def [symmetric]] refl this False run] obtain ws where
      "t_written w' = t_written ?w1 @ ws" "concat ws = drop c buf" "\<forall>p \<in> set ws. length p \<le> 65536" "t_reads w' = t_reads ?w1"
      by blast
    with len show ?thesis by (intro exI [of _ "take c buf # ws"]) simp
  qed
qed

fun check_list :: "u64 list \<Rightarrow> u64 list \<times> u64 \<Rightarrow> (u64 list \<times> u64) option" where
  "check_list [] st = Some st"
| "check_list (e # es) st = Option.bind (check_word e st) (check_list es)"

definition mismatches :: "u64 list \<Rightarrow> u64 list \<Rightarrow> nat" where
  "mismatches es ws = length (filter (\<lambda>(e, x). x \<noteq> e) (zip es ws))"

lemma check_list_append: "check_list (a @ b) st = Option.bind (check_list a st) (check_list b)"
  by (induction a arbitrary: st) (auto split: Option.bind_split)

lemma check_list_run:
  "length es \<le> length ws \<Longrightarrow> check_list es (ws, err) = Some (drop (length es) ws, err + of_nat (mismatches es ws))"
proof (induction es arbitrary: ws err)
  case (Cons e es)
  then obtain x xs where "ws = x # xs" by (cases ws) auto
  with Cons show ?case by (simp add: check_word_def checkValue_def mismatches_def)
qed (simp add: mismatches_def)

definition beat_words :: "bool \<Rightarrow> u64 \<Rightarrow> u64 list" where
  "beat_words bpb16 v = v # (if bpb16 then [0] else [])"

lemma check_beat_list: "check_beat b v = check_list (beat_words b v)"
proof
  fix st show "check_beat b v st = check_list (beat_words b v) st"
    by (cases "check_word v st") (auto simp: check_beat_def beat_words_def split: Option.bind_split)
qed

lemma check_beats_list:
  "check_beats n b beats = check_list (concat (map (\<lambda>i. beat_words b (beat_value (beats - of_nat i))) [0..<n]))"
proof (induction n arbitrary: beats)
  case (Suc n)
  have "map (\<lambda>i. beat_words b (beat_value (beats - of_nat i))) [0..<Suc n] =
      beat_words b (beat_value beats) # map (\<lambda>i. beat_words b (beat_value (beats - 1 - of_nat i))) [0..<n]"
    by (simp add: upt_conv_Cons map_Suc_upt [symmetric] algebra_simps del: upt_Suc)
  then show ?case by (simp add: fun_eq_iff check_list_append check_beat_list Suc.IH)
qed (simp add: fun_eq_iff)

text \<open>
  What the flooder sends: blocks of 256 bytes, each a header beat and beats that carry the number of
  beats still to send, twice.
\<close>

definition flood_beat :: "bool \<Rightarrow> u32 \<Rightarrow> nat \<Rightarrow> u64 list" where
  "flood_beat bpb16 req_beats i = beat_words bpb16
     (if i mod (beats_per_block bpb16 + 1) = 0 then 0xfc0300 else beat_value (req_beats - of_nat i))"

definition flood_words :: "bool \<Rightarrow> u32 \<Rightarrow> nat \<Rightarrow> u64 list" where
  "flood_words bpb16 req_beats n = concat (map (flood_beat bpb16 req_beats) [0..<n])"

lemma flood_shift:
  "i mod (beats_per_block b + 1) = j mod (beats_per_block b + 1) \<Longrightarrow> i = m + j \<Longrightarrow>
     flood_beat b beats i = flood_beat b (beats - of_nat m) j"
  by (simp add: flood_beat_def algebra_simps)

lemma map_upt_plus: "map f [m..<m + k] = map (\<lambda>i. f (m + i)) [0..<k]"
  by (simp add: map_add_upt [symmetric, of m] add.commute comp_def)

lemma flood_words_block:
  assumes "N = beats_per_block b + 1"
  shows "flood_words b beats (N + k) = flood_words b beats N @ flood_words b (beats - of_nat N) k"
proof -
  have f: "flood_beat b beats (N + x) = flood_beat b (beats - of_nat N) x" for x
    by (rule flood_shift) (simp_all only: assms mod_add_self1)
  have "map (flood_beat b beats) [N..<N + k] = map (flood_beat b (beats - of_nat N)) [0..<k]"
    unfolding map_upt_plus by (simp only: f)
  then show ?thesis by (simp add: flood_words_def upt_add_eq_append [of 0 N k])
qed

lemma check_block_list: "check_block b beats = check_list (flood_words b beats (beats_per_block b + 1))"
proof -
  let ?n = "beats_per_block b"
  have "map (flood_beat b beats) [Suc 0..<Suc ?n] = map (\<lambda>i. beat_words b (beat_value (beats - 1 - of_nat i))) [0..<?n]"
    unfolding map_Suc_upt [symmetric] by (simp add: flood_beat_def algebra_simps)
  then have "flood_words b beats (?n + 1) = beat_words b 0xfc0300 @ concat (map (\<lambda>i. beat_words b (beat_value (beats - 1 - of_nat i))) [0..<?n])"
    by (simp add: flood_words_def upt_conv_Cons flood_beat_def [of b beats 0] del: upt_Suc)
  then show ?thesis by (simp add: fun_eq_iff check_block_def check_beat_list check_beats_list check_list_append)
qed

lemma flood_words_length: "length (flood_words b beats n) = n * (if b then 2 else 1)"
  by (induction n) (simp_all add: flood_words_def flood_beat_def beat_words_def)

lemma mismatches_append: "length a \<le> length ws \<Longrightarrow> mismatches (a @ c) ws = mismatches a ws + mismatches c (drop (length a) ws)"
  using take_zip [of "length a" a ws] by (simp add: mismatches_def zip_append1)

lemma check_blocks_run:
  assumes "N = beats_per_block b + 1" "count = of_nat (256 * k)" "k < 1000" "length (flood_words b beats (N * k)) \<le> length ws"
  shows "check_blocks b count beats (ws, err) = Some (err + of_nat (mismatches (flood_words b beats (N * k)) ws))"
  using assms
proof (induction k arbitrary: count beats ws err)
  case 0
  then show ?case by (simp add: check_blocks.simps [of b] flood_words_def mismatches_def)
next
  case (Suc k)
  let ?es = "flood_words b beats N"
  have split: "flood_words b beats (N * Suc k) = ?es @ flood_words b (beats - of_nat N) (N * k)"
    using flood_words_block [OF Suc.prems(1), of beats "N * k"] by simp
  have len: "length ?es \<le> length ws" "length (flood_words b (beats - of_nat N) (N * k)) \<le> length (drop (length ?es) ws)"
    using Suc.prems(4) unfolding split by auto
  have "unat count = 256 * Suc k"
    unfolding Suc.prems(2) unat_of_nat by (rule mod_less) (use Suc.prems(3) in simp)
  then have nz: "count \<noteq> 0" by auto
  have "N * (if b then 16 else 8) = 256" using Suc.prems(1) by (simp add: beats_per_block_def)
  then have c: "count - of_nat ((beats_per_block b + 1) * (if b then 16 else 8)) = of_nat (256 * k)"
    using Suc.prems(1,2) by simp
  have blk: "check_block b beats (ws, err) = Some (drop (length ?es) ws, err + of_nat (mismatches ?es ws))"
    using check_list_run [OF len(1)] by (simp add: check_block_list Suc.prems(1))
  have "check_blocks b (of_nat (256 * k)) (beats - of_nat N) (drop (length ?es) ws, err + of_nat (mismatches ?es ws)) =
      Some (err + of_nat (mismatches ?es ws) + of_nat (mismatches (flood_words b (beats - of_nat N) (N * k)) (drop (length ?es) ws)))"
    by (rule Suc.IH [OF Suc.prems(1) refl _ len(2)]) (use Suc.prems(3) in simp)
  then show ?case
    using nz blk c Suc.prems(1) unfolding split mismatches_append [OF len(1)]
    by (simp add: check_blocks.simps [of b count])
qed

section \<open>Properties\<close>

text \<open>
  The check of the data read counts exactly the words of the first 4096 bytes that differ from
  what the flooder sends, and so reports no error exactly for that data.
\<close>

theorem check_counts_errors:
  assumes "bpb = 8 \<or> bpb = 16" "512 \<le> length inBuf"
  shows "checkReadValues bpb inBuf 4096 beats = Some (of_nat (mismatches (flood_words (bpb = 16) beats (4096 div nat bpb)) inBuf)) \<and>
    (checkReadValues bpb inBuf 4096 beats = Some 0 \<longleftrightarrow> take 512 inBuf = flood_words (bpb = 16) beats (4096 div nat bpb))"
proof -
  let ?b = "bpb = 16" let ?es = "flood_words ?b beats (4096 div nat bpb)"
  have n: "(beats_per_block ?b + 1) * 16 = 4096 div nat bpb" using assms(1) by (auto simp: beats_per_block_def)
  have len: "length ?es = 512" using assms(1) by (auto simp: flood_words_length)
  have "check_blocks ?b 4096 beats (inBuf, 0) = Some (0 + of_nat (mismatches (flood_words ?b beats ((beats_per_block ?b + 1) * 16)) inBuf))"
    by (rule check_blocks_run) (use n len assms(2) in simp_all)
  moreover have bound: "mismatches ?es inBuf \<le> 512"
    unfolding mismatches_def by (rule order_trans [OF length_filter_le]) (simp add: len)
  ultimately have run: "checkReadValues bpb inBuf 4096 beats = Some (of_nat (mismatches ?es inBuf))"
    using assms(1) n by (simp add: checkReadValues_def unsigned_of_nat take_bit_nat_eq_self)
  have "(of_nat (mismatches ?es inBuf) :: u32) = 0 \<longleftrightarrow> mismatches ?es inBuf = 0"
    using bound by (simp add: word_unat_eq_iff unat_of_nat take_bit_nat_eq_self)
  also have "\<dots> \<longleftrightarrow> (\<forall>i < 512. inBuf ! i = ?es ! i)"
    using assms(2) len by (auto simp: mismatches_def filter_empty_conv set_zip)
  also have "\<dots> \<longleftrightarrow> take 512 inBuf = ?es"
    using assms(2) len by (auto simp: list_eq_iff_nth_eq)
  finally show ?thesis using run by simp
qed

lemma check_counts_errors_witness:
  "checkReadValues 8 (flood_words True 100 512) 4096 100 =
    Some (of_nat (mismatches (flood_words False 100 512) (flood_words True 100 512))) \<and> checkReadValues 16 (flood_words True 100 256) 4096 100 = Some 0"
proof -
  have "length (flood_words True 100 512) = 1024" "length (flood_words True 100 256) = 512" by (simp_all add: flood_words_length)
  then show ?thesis
    using conjunct1 [OF check_counts_errors [of 8 "flood_words True 100 512" 100]]
      conjunct2 [OF check_counts_errors [of 16 "flood_words True 100 256" 100]] by simp
qed

text \<open>Writing a buffer that returns wrote its bytes in order in pieces of at most 65536 bytes.\<close>

theorem doWrite_whole:
  assumes "doWrite E buf w = (Inr (), w')"
  shows "\<exists>ws. t_written w' = t_written w @ ws \<and> concat ws = buf \<and> (\<forall>p \<in> set ws. length p \<le> 65536)"
  using doWrite_pieces [OF assms] by blast

definition test_env0 :: test_env where
  "test_env0 = \<lparr>t_memalign = True, t_reset = 0, t_write = \<lambda>_ n. int n, t_read = \<lambda>_. None\<rparr>"

lemma doWrite_whole_witness:
  "\<exists>ws. doWrite test_env0 [1, 2, 3] \<lparr>t_written = [], t_reads = 0\<rparr> = (Inr (), \<lparr>t_written = ws, t_reads = 0\<rparr>) \<and> concat ws = [1, 2, 3]"
proof -
  let ?w = "\<lparr>t_written = [], t_reads = 0\<rparr>"
  have run: "doWrite test_env0 [1, 2, 3] ?w = (Inr (), \<lparr>t_written = [[1, 2, 3]], t_reads = 0\<rparr>)"
    by (subst doWrite.simps) (simp add: test_write_def test_env0_def)
  from doWrite_whole [OF run] run show ?thesis by auto
qed

end
