(* ===== verification/Bsemu_Server.thy ===== *)
theory Bsemu_Server
  imports Leap_Prelude Bsemu
begin

text \<open>
  \<^verbatim>\<open>pcie-xupv5/server.cpp\<close> and \<^verbatim>\<open>pcie-xupv5/pcie-device.cpp\<close>: the host's device on top of the bsemu
  driver, which exchanges bytes with the FPGA through registers of the board. The other end of
  the registers is \<^verbatim>\<open>pcie-xupv5/PioFifo.bsv\<close>. What the user's design does with its ends of the four
  queues between two accesses of the host is an argument. The debug output of \<^verbatim>\<open>serverStart\<close>,
  off by default, is left out.
\<close>

section \<open>The registers of the board\<close>

text \<open>The queues hold two bytes. \<^verbatim>\<open>buildVersion\<close> and \<^verbatim>\<open>epochTime\<close> are set when the hardware is built.\<close>

record pio_fifo =
  bar1RPacketCount :: u32
  bar2RPacketCount :: u32
  errorRPacketCount :: u32
  bar1WPacketCount :: u32
  bar2WPacketCount :: u32
  errorWPacketCount :: u32
  loopBackData :: u64
  reqQ :: "u8 list"
  respQ :: "u8 list"
  dispReqQ :: "u8 list"
  dispRespQ :: "u8 list"
  buildVersion :: u32
  epochTime :: u32

definition notFull :: "u8 list \<Rightarrow> bool" where "notFull q \<longleftrightarrow> length q < 2"

definition sysAddr :: nat where "sysAddr = 0"
definition dispAddr :: nat where "dispAddr = 0x8 div 8"
definition bar2WPacketCountRegAddr :: nat where "bar2WPacketCountRegAddr = 0x328 div 8"
definition systemCommandRegAddr :: nat where "systemCommandRegAddr = 0x200 div 8"

text \<open>
  One write of 64 bits to a BAR, with the enabled halves. The loop back register takes them in the order
  of the concatenation in the source, the low half on top.
\<close>

definition loop_back :: "bool \<Rightarrow> bool \<Rightarrow> u64 \<Rightarrow> u64 \<Rightarrow> u64" where
  "loop_back lo hi data old =
     push_bit 32 (take_bit 32 (if lo then data else old)) OR drop_bit 32 (if hi then data else old)"

definition initiate_write :: "nat \<Rightarrow> nat \<Rightarrow> bool \<Rightarrow> bool \<Rightarrow> u64 \<Rightarrow> pio_fifo \<Rightarrow> pio_fifo" where
  "initiate_write bar addr lo hi data p =
     (if bar = 1 then p\<lparr>bar1WPacketCount := bar1WPacketCount p + 1, loopBackData := loop_back lo hi data (loopBackData p)\<rparr>
      else if bar = 2 \<and> addr = sysAddr \<and> notFull (respQ p)
        then p\<lparr>respQ := respQ p @ [ucast data], bar2WPacketCount := bar2WPacketCount p + 1\<rparr>
      else if bar = 2 \<and> addr = dispAddr \<and> notFull (dispRespQ p)
        then p\<lparr>dispRespQ := dispRespQ p @ [ucast data], bar2WPacketCount := bar2WPacketCount p + 1\<rparr>
      else p\<lparr>errorWPacketCount := errorWPacketCount p + 1\<rparr>)"

definition bar1_data :: "nat \<Rightarrow> pio_fifo \<Rightarrow> u64" where
  "bar1_data addr p =
     (if addr = 0 then 0x426c756573706563
      else if addr = 0x8 div 8 then 2
      else if addr = 0x10 div 8 then 0x0100
      else if addr = 0x18 div 8 then ucast (buildVersion p)
      else if addr = 0x20 div 8 then ucast (epochTime p)
      else if addr = systemCommandRegAddr then loopBackData p
      else if addr = 0x308 div 8 then ucast (bar1RPacketCount p)
      else if addr = 0x310 div 8 then ucast (bar2RPacketCount p)
      else if addr = 0x318 div 8 then ucast (errorRPacketCount p)
      else if addr = 0x320 div 8 then ucast (bar1WPacketCount p)
      else if addr = bar2WPacketCountRegAddr then ucast (bar2WPacketCount p)
      else if addr = 0x330 div 8 then ucast (errorWPacketCount p)
      else 0x0bad0bad0bad0bad)"

definition initiate_read :: "nat \<Rightarrow> nat \<Rightarrow> pio_fifo \<Rightarrow> u64 \<times> pio_fifo" where
  "initiate_read bar addr p =
     (if bar = 1 then (bar1_data addr p, p\<lparr>bar1RPacketCount := bar1RPacketCount p + 1\<rparr>)
      else case if bar = 2 \<and> addr = sysAddr then reqQ p else [] of
        b # q \<Rightarrow> (ucast b, p\<lparr>reqQ := q, bar2RPacketCount := bar2RPacketCount p + 1\<rparr>)
      | [] \<Rightarrow> (case if bar = 2 \<and> addr = dispAddr then dispReqQ p else [] of
          b # q \<Rightarrow> (ucast b, p\<lparr>dispReqQ := q, bar2RPacketCount := bar2RPacketCount p + 1\<rparr>)
        | [] \<Rightarrow> (0xdeaddeaddeaddead, p\<lparr>errorRPacketCount := errorRPacketCount p + 1\<rparr>)))"

section \<open>The host and the user's design\<close>

text \<open>
  The globals of the server; the mapped BARs as first frame and length; the descriptors; the
  registers; the number of accesses so far; the bytes the design has taken and given.
\<close>

record server =
  dataPopped :: bool
  poppedData :: u32
  pcie_dev :: int
  pBar1 :: "(u64 \<times> u64) option"
  pBar2 :: "(u64 \<times> u64) option"
  srv_fds :: "int set"
  pio :: pio_fifo
  accesses :: nat
  fpga_got :: "u8 list"
  fpga_gave :: "u8 list"
  srv_out :: string

datatype srv_stop = S_Exit int | S_Null | S_Wild | S_Forever

type_synonym 'a srv = "(server, srv_stop, 'a) prog"

text \<open>A call of a method of the queues by the user's design; one that is not ready does not happen.\<close>

datatype fpga_call = Req u8 | Resp | DispReq u8 | DispResp

type_synonym fpga = "nat \<Rightarrow> fpga_call list"

fun fpga_step :: "fpga_call \<Rightarrow> server \<Rightarrow> server" where
  "fpga_step (Req b) w = (if notFull (reqQ (pio w))
     then w\<lparr>pio := (pio w)\<lparr>reqQ := reqQ (pio w) @ [b]\<rparr>, fpga_gave := fpga_gave w @ [b]\<rparr> else w)"
| "fpga_step Resp w = (case respQ (pio w) of [] \<Rightarrow> w
     | b # q \<Rightarrow> w\<lparr>pio := (pio w)\<lparr>respQ := q\<rparr>, fpga_got := fpga_got w @ [b]\<rparr>)"
| "fpga_step (DispReq b) w = (if notFull (dispReqQ (pio w))
     then w\<lparr>pio := (pio w)\<lparr>dispReqQ := dispReqQ (pio w) @ [b]\<rparr>\<rparr> else w)"
| "fpga_step DispResp w = (case dispRespQ (pio w) of [] \<Rightarrow> w | b # q \<Rightarrow> w\<lparr>pio := (pio w)\<lparr>dispRespQ := q\<rparr>\<rparr>)"

text \<open>What the design does before the next access.\<close>

definition fpga_turn :: "fpga \<Rightarrow> server \<Rightarrow> server" where
  "fpga_turn F w = (fold fpga_step (F (accesses w)) w)\<lparr>accesses := accesses w + 1\<rparr>"

text \<open>An access to the lower half of a register, at its offset in the BAR.\<close>

definition bus_read :: "fpga \<Rightarrow> nat \<Rightarrow> nat \<Rightarrow> server \<Rightarrow> u32 \<times> server" where
  "bus_read F bar off w = (let w1 = fpga_turn F w; (d, p) = initiate_read bar (off div 8) (pio w1)
     in (ucast d, w1\<lparr>pio := p\<rparr>))"

definition bus_write :: "fpga \<Rightarrow> nat \<Rightarrow> nat \<Rightarrow> u32 \<Rightarrow> server \<Rightarrow> server" where
  "bus_write F bar off x w = (let w1 = fpga_turn F w
     in w1\<lparr>pio := initiate_write bar (off div 8) True False (ucast x) (pio w1)\<rparr>)"

text \<open>An access to the upper half of the register, which the lower bits of the data do not reach.\<close>

definition bus_write_hi :: "fpga \<Rightarrow> nat \<Rightarrow> nat \<Rightarrow> u32 \<Rightarrow> server \<Rightarrow> server" where
  "bus_write_hi F bar off x w = (let w1 = fpga_turn F w
     in w1\<lparr>pio := initiate_write bar (off div 8) False True (push_bit 32 (ucast x)) (pio w1)\<rparr>)"

definition bar2_wpkt_count :: nat where "bar2_wpkt_count = 0x328"
definition sys_lo :: nat where "sys_lo = 0"
definition disp_lo :: nat where "disp_lo = 8"
definition command_lo :: nat where "command_lo = 0x200"

section \<open>Starting\<close>

text \<open>
  The answers: the minor number behind \<^verbatim>\<open>/dev/bsemu0\<close> and the descriptor; of the driver's helpers;
  the addresses that \<^verbatim>\<open>mmap\<close> picks.
\<close>

record srv_env =
  v_minor :: "nat option"
  v_fd :: int
  v_access_ok :: bool
  v_uncopied :: nat
  v_remap_ok :: "u64 \<Rightarrow> u64 \<Rightarrow> bool"
  v_addr1 :: u64
  v_addr2 :: u64

definition MY_VENDOR_ID :: u16 where "MY_VENDOR_ID = 0xb100"
definition MY_DEVICE_ID :: u16 where "MY_DEVICE_ID = 0xb5ce"

text \<open>\<^verbatim>\<open>mmap\<close> refuses an empty mapping and rounds the length up to whole pages before it asks the driver.\<close>

definition server_mmap :: "srv_env \<Rightarrow> bsemu \<Rightarrow> nat \<Rightarrow> u64 \<Rightarrow> u64 \<Rightarrow> u64 \<Rightarrow> (u64 \<times> u64) option" where
  "server_mmap V drv slot addr len pgoff =
     (let pages = (len + 4095) AND NOT 4095 in
      if len = 0 \<or> pages = 0 then None
      else let (rc, r) = bsemu_mmap (v_remap_ok V) drv (Some slot) addr (addr + pages) pgoff in
        if rc = 0 then r else None)"

definition close_and_exit :: "int \<Rightarrow> 'a srv" where
  "close_and_exit status = andThen (modify (\<lambda>w. w\<lparr>srv_fds := srv_fds w - {pcie_dev w}\<rparr>)) (raise (S_Exit status))"

definition serverStart :: "fpga \<Rightarrow> srv_env \<Rightarrow> bsemu \<Rightarrow> unit srv" where
  "serverStart F V drv =
     andThen (modify (\<lambda>w. w\<lparr>dataPopped := False\<rparr>))
     (case v_minor V of
        None \<Rightarrow> andThen (modify (\<lambda>w. w\<lparr>pcie_dev := - 1\<rparr>)) (raise (S_Exit 1))
      | Some num \<Rightarrow>
          let (err, priv) = bsemu_open num in
          if err \<noteq> 0 then andThen (modify (\<lambda>w. w\<lparr>pcie_dev := - 1\<rparr>)) (raise (S_Exit 1))
          else andThen (modify (\<lambda>w. w\<lparr>pcie_dev := v_fd V, srv_fds := insert (v_fd V) (srv_fds w)\<rparr>))
            (case bsemu_ioctl (v_access_ok V) (v_uncopied V) drv num BSEMU_IOC_GETDEVICE of
               (rc, data) \<Rightarrow>
                 if rc \<noteq> 0 then close_and_exit 1
                 else case data of None \<Rightarrow> close_and_exit 1
                 | Some (vendor, device, bar) \<Rightarrow>
                   if vendor \<noteq> MY_VENDOR_ID \<or> device \<noteq> MY_DEVICE_ID then close_and_exit 1
                   else if log_addr (bar ! 1) = 0 \<or> log_addr (bar ! 2) = 0 then close_and_exit 1
                   else case server_mmap V drv num (v_addr1 V) (bar_size (bar ! 1)) 1 of
                     None \<Rightarrow> andThen (modify (\<lambda>w. w\<lparr>pBar1 := None\<rparr>)) (close_and_exit 1)
                   | Some m1 \<Rightarrow>
                       andThen (modify (\<lambda>w. w\<lparr>pBar1 := Some m1\<rparr>))
                       (case server_mmap V drv num (v_addr2 V) (bar_size (bar ! 2)) 2 of
                          None \<Rightarrow> andThen (modify (\<lambda>w. w\<lparr>pBar2 := None\<rparr>)) (close_and_exit 1)
                        | Some m2 \<Rightarrow>
                            andThen (modify (\<lambda>w. w\<lparr>pBar2 := Some m2\<rparr>))
                            (andThen (modify (bus_write F 1 command_lo 0xdeadbeef))
                              (modify (bus_write_hi F 1 command_lo 0xdeadbeef))))))"

definition serverFinish :: "unit srv" where
  "serverFinish = close_and_exit 0"

section \<open>Exchanging bytes\<close>

text \<open>The register is written until the count of accepted writes has changed.\<close>

partial_function (option) send_loop :: "fpga \<Rightarrow> nat \<Rightarrow> u32 \<Rightarrow> server \<Rightarrow> server option" where
  "send_loop F reg x w =
     (let (wCount, w1) = bus_read F 1 bar2_wpkt_count w;
          w2 = bus_write F 2 reg x w1;
          (newWCount, w3) = bus_read F 1 bar2_wpkt_count w2
      in if newWCount = wCount then send_loop F reg x w3 else Some w3)"

partial_function (option) recv_loop :: "fpga \<Rightarrow> nat \<Rightarrow> server \<Rightarrow> (u32 \<times> server) option" where
  "recv_loop F reg w =
     (let (d, w1) = bus_read F 2 reg w in if d = 0xdeaddead then recv_loop F reg w1 else Some (d, w1))"

text \<open>The pointers are set by \<^verbatim>\<open>serverStart\<close>.\<close>

definition with_bars :: "'a srv \<Rightarrow> 'a srv" where
  "with_bars p = (\<lambda>w. if pBar1 w = None \<or> pBar2 w = None then (Inl S_Null, w) else p w)"

text \<open>A \<^verbatim>\<open>char\<close> is signed and is extended to 32 bits.\<close>

definition send_byte :: "fpga \<Rightarrow> nat \<Rightarrow> u8 \<Rightarrow> unit srv" where
  "send_byte F reg byte = with_bars (\<lambda>w. case send_loop F reg (scast byte) w of
       None \<Rightarrow> (Inl S_Forever, w) | Some w' \<Rightarrow> (Inr (), w'))"

definition recv_word :: "fpga \<Rightarrow> nat \<Rightarrow> u32 srv" where
  "recv_word F reg = with_bars (\<lambda>w. case recv_loop F reg w of
       None \<Rightarrow> (Inl S_Forever, w) | Some (d, w') \<Rightarrow> (Inr d, w'))"

definition serverSendSys :: "fpga \<Rightarrow> u8 \<Rightarrow> unit srv" where
  "serverSendSys F byte = send_byte F sys_lo byte"

definition serverSendDisp :: "fpga \<Rightarrow> u8 \<Rightarrow> unit srv" where
  "serverSendDisp F byte = send_byte F disp_lo byte"

definition serverTestSys :: "fpga \<Rightarrow> bool srv" where
  "serverTestSys F = (\<lambda>w. if dataPopped w then (Inr True, w)
     else with_bars (\<lambda>w. let (d, w1) = bus_read F 2 sys_lo w in
       (Inr (d \<noteq> 0xdeaddead), w1\<lparr>poppedData := d, dataPopped := (d \<noteq> 0xdeaddead)\<rparr>)) w)"

definition serverRecvSys :: "fpga \<Rightarrow> u8 srv" where
  "serverRecvSys F =
     andThen (\<lambda>w. if dataPopped w then (Inr (), w) else bind (recv_word F sys_lo) (\<lambda>d. modify (\<lambda>w. w\<lparr>poppedData := d\<rparr>)) w)
     (andThen (modify (\<lambda>w. w\<lparr>dataPopped := False\<rparr>)) (\<lambda>w. (Inr (ucast (poppedData w)), w)))"

text \<open>The byte is stored through a pointer that was never set.\<close>

definition serverRecvDisp :: "fpga \<Rightarrow> unit srv" where
  "serverRecvDisp F = bind (recv_word F disp_lo) (\<lambda>data. raise S_Wild)"

section \<open>The device\<close>

definition xupv5_Init :: "fpga \<Rightarrow> srv_env \<Rightarrow> bsemu \<Rightarrow> unit srv" where "xupv5_Init F V drv = serverStart F V drv"
definition xupv5_Cleanup :: "unit srv" where "xupv5_Cleanup = serverFinish"

text \<open>\<^verbatim>\<open>parent_Uninit\<close> is the method of the base class.\<close>

definition xupv5_Uninit :: "unit srv \<Rightarrow> unit srv" where
  "xupv5_Uninit parent_Uninit = andThen xupv5_Cleanup parent_Uninit"

definition xupv5_Probe :: "fpga \<Rightarrow> bool srv" where "xupv5_Probe F = serverTestSys F"

fun read_bytes :: "fpga \<Rightarrow> nat \<Rightarrow> u8 list srv" where
  "read_bytes F 0 = ret []"
| "read_bytes F (Suc n) = bind (serverRecvSys F) (\<lambda>b. bind (read_bytes F n) (\<lambda>bs. ret (b # bs)))"

fun write_bytes :: "fpga \<Rightarrow> u8 list \<Rightarrow> unit srv" where
  "write_bytes F [] = ret ()"
| "write_bytes F (b # bs) = andThen (serverSendSys F b) (write_bytes F bs)"

definition xupv5_Read :: "fpga \<Rightarrow> int \<Rightarrow> (int \<times> u8 list) srv" where
  "xupv5_Read F bytes_requested = bind (read_bytes F (nat bytes_requested)) (\<lambda>bs. ret (bytes_requested, bs))"

definition xupv5_Write :: "fpga \<Rightarrow> u8 list \<Rightarrow> int \<Rightarrow> int srv" where
  "xupv5_Write F buf bytes_requested =
     andThen (write_bytes F (take (nat bytes_requested) buf)) (ret bytes_requested)"

section \<open>The bytes under way\<close>

definition taken :: "server \<Rightarrow> u8 list" where "taken w = fpga_got w @ respQ (pio w)"

definition gave_after :: "u8 list \<Rightarrow> server \<Rightarrow> bool" where
  "gave_after R w \<longleftrightarrow> fpga_gave w = R @ reqQ (pio w)"

definition same_host :: "server \<Rightarrow> server \<Rightarrow> bool" where
  "same_host w w' \<longleftrightarrow> dataPopped w' = dataPopped w \<and> poppedData w' = poppedData w \<and> pBar1 w' = pBar1 w \<and> pBar2 w' = pBar2 w
     \<and> (length (respQ (pio w)) \<le> 2 \<longrightarrow> length (respQ (pio w')) \<le> 2)"

text \<open>A step that moves no byte between host and registers.\<close>

definition quiet :: "server \<Rightarrow> server \<Rightarrow> bool" where
  "quiet w w' \<longleftrightarrow> same_host w w' \<and> taken w' = taken w \<and> (\<forall>R. gave_after R w \<longrightarrow> gave_after R w')
     \<and> bar2WPacketCount (pio w') = bar2WPacketCount (pio w) \<and> length (respQ (pio w')) \<le> length (respQ (pio w))"

lemmas quiet_defs = quiet_def same_host_def taken_def gave_after_def

lemma quiet_refl: "quiet w w"
  by (simp add: quiet_def same_host_def)

lemma quiet_trans: "quiet w w1 \<Longrightarrow> quiet w1 w2 \<Longrightarrow> quiet w w2"
  by (auto simp: quiet_def same_host_def)

lemma fpga_step_quiet: "quiet w (fpga_step c w)"
  by (cases c) (auto simp: quiet_defs split: list.splits)

lemma fpga_steps_quiet: "quiet w (fold fpga_step cs w)"
  by (induction cs arbitrary: w) (auto intro: quiet_refl quiet_trans fpga_step_quiet)

lemma fpga_turn_quiet: "quiet w (fpga_turn F w)"
  using fpga_steps_quiet [of w "F (accesses w)"] by (simp add: fpga_turn_def quiet_defs)

lemma fpga_turn_accesses [simp]: "accesses (fpga_turn F w) = accesses w + 1"
  by (simp add: fpga_turn_def)

lemma cast_casts:
  "ucast (ucast (x :: u32) :: u64) = x" "ucast (ucast x :: u64) = (ucast x :: u8)" "ucast (ucast b :: u64) = (ucast b :: u32)"
  "ucast (ucast b :: u32) = b" "ucast (scast b :: u32) = b" for b :: u8
  by (rule bit_word_eqI; auto simp: bit_unsigned_iff bit_signed_iff)+

lemma byte_is_not_dead: "(ucast (b :: u8) :: u32) \<noteq> 0xdeaddead"
proof
  assume "(ucast b :: u32) = 0xdeaddead"
  then have "bit (ucast b :: u32) 31 = bit (0xdeaddead :: u32) 31" by simp
  then have "bit b 31" by (simp add: bit_unsigned_iff)
  then show False by (auto dest: bit_imp_le_length)
qed

lemma bus_read_count:
  assumes "bus_read F 1 bar2_wpkt_count w = (d, w')"
  shows "quiet w w'" "d = bar2WPacketCount (pio w)" "accesses w' = accesses w + 1"
    "respQ (pio w') = respQ (pio (fpga_turn F w))"
  using assms fpga_turn_quiet [of w F]
  by (auto simp: bus_read_def Let_def initiate_read_def bar1_data_def bar2_wpkt_count_def systemCommandRegAddr_def
      bar2WPacketCountRegAddr_def quiet_defs cast_casts)

text \<open>A write that is taken, and one that finds the queue full.\<close>

lemma bus_write_sys:
  assumes "w' = bus_write F 2 sys_lo x w" "w1 = fpga_turn F w"
  shows "accesses w' = accesses w + 1"
    "notFull (respQ (pio w1)) \<Longrightarrow> same_host w w' \<and> taken w' = taken w @ [ucast x] \<and> (\<forall>R. gave_after R w \<longrightarrow> gave_after R w')
        \<and> bar2WPacketCount (pio w') = bar2WPacketCount (pio w) + 1"
    "\<not> notFull (respQ (pio w1)) \<Longrightarrow> quiet w w' \<and> respQ (pio w') = respQ (pio w1)"
  using assms fpga_turn_quiet [of w F]
  by (simp_all add: bus_write_def Let_def initiate_write_def sys_lo_def sysAddr_def dispAddr_def quiet_defs cast_casts notFull_def)

lemma bus_write_disp:
  assumes "w' = bus_write F 2 disp_lo x w"
  shows "same_host w w' \<and> taken w' = taken w \<and> (\<forall>R. gave_after R w \<longrightarrow> gave_after R w')"
  using assms fpga_turn_quiet [of w F]
  by (auto simp: bus_write_def Let_def initiate_write_def disp_lo_def sysAddr_def dispAddr_def quiet_defs)

lemma bus_read_sys:
  assumes "bus_read F 2 sys_lo w = (d, w')" "w1 = fpga_turn F w"
  shows "accesses w' = accesses w + 1" "same_host w w' \<and> taken w' = taken w"
    "reqQ (pio w1) = [] \<Longrightarrow> d = 0xdeaddead \<and> quiet w w'"
    "reqQ (pio w1) = b # q \<Longrightarrow> d = ucast b \<and> (\<forall>R. gave_after R w \<longrightarrow> gave_after (R @ [b]) w')"
  using assms fpga_turn_quiet [of w F]
  by (auto simp: bus_read_def Let_def initiate_read_def sys_lo_def sysAddr_def dispAddr_def quiet_defs cast_casts split: list.splits)

text \<open>What the two loops do when they end.\<close>

lemma send_loop_induct:
  assumes "send_loop F reg x w = Some w'"
    "\<And>w c w1 c' w3. bus_read F 1 bar2_wpkt_count w = (c, w1) \<Longrightarrow> bus_read F 1 bar2_wpkt_count (bus_write F 2 reg x w1) = (c', w3)
       \<Longrightarrow> if c' = c then \<forall>w'. P w3 w' \<longrightarrow> P w w' else P w w3"
  shows "P w w'"
proof -
  have "F' = F \<and> reg' = reg \<and> x' = x \<longrightarrow> P v v'" if "send_loop F' reg' x' v = Some v'" for F' reg' x' v v'
    using that
  proof (rule send_loop.raw_induct [of "\<lambda>F' reg' x' v v'. F' = F \<and> reg' = reg \<and> x' = x \<longrightarrow> P v v'" "(((F', reg'), x'), v)" v',
        unfolded prod.case, rotated], intro impI, elim conjE, hypsubst)
    fix f v v'
    assume IH: "\<And>F' reg' x' v v'. f F' reg' x' v = Some v' \<Longrightarrow> F' = F \<and> reg' = reg \<and> x' = x \<longrightarrow> P v v'"
      and run: "(let (wCount, w1) = bus_read F 1 bar2_wpkt_count v; w2 = bus_write F 2 reg x w1;
          (newWCount, w3) = bus_read F 1 bar2_wpkt_count w2 in if newWCount = wCount then f F reg x w3 else Some w3) = Some v'"
    obtain c w1 c' w3 where r: "bus_read F 1 bar2_wpkt_count v = (c, w1)"
      "bus_read F 1 bar2_wpkt_count (bus_write F 2 reg x w1) = (c', w3)" by (meson surj_pair)
    from run have "(if c' = c then f F reg x w3 else Some w3) = Some v'" using r by (simp add: Let_def)
    then show "P v v'" using assms(2) [OF r] IH [of F reg x w3 v'] by (auto split: if_splits)
  qed
  then show ?thesis using assms(1) by blast
qed

lemma recv_loop_induct:
  assumes "recv_loop F reg w = Some r"
    "\<And>w d w1. bus_read F 2 reg w = (d, w1) \<Longrightarrow> if d = 0xdeaddead then \<forall>r. P w1 r \<longrightarrow> P w r else P w (d, w1)"
  shows "P w r"
proof -
  have "F' = F \<and> reg' = reg \<longrightarrow> P v v'" if "recv_loop F' reg' v = Some v'" for F' reg' v v'
    using that
  proof (rule recv_loop.raw_induct [of "\<lambda>F' reg' v v'. F' = F \<and> reg' = reg \<longrightarrow> P v v'", rotated], intro impI, elim conjE, hypsubst)
    fix f v v'
    assume IH: "\<And>F' reg' v v'. f F' reg' v = Some v' \<Longrightarrow> F' = F \<and> reg' = reg \<longrightarrow> P v v'"
      and run: "(let (d, w1) = bus_read F 2 reg v in if d = 0xdeaddead then f F reg w1 else Some (d, w1)) = Some v'"
    obtain d w1 where r: "bus_read F 2 reg v = (d, w1)" by (meson surj_pair)
    from run have "(if d = 0xdeaddead then f F reg w1 else Some (d, w1)) = Some v'" using r by (simp add: Let_def)
    then show "P v v'" using assms(2) [OF r] IH [of F reg w1 v'] by (cases "d = 0xdeaddead") (auto simp del: split_paired_All)
  qed
  then show ?thesis using assms(1) by blast
qed

lemma quiet_then:
  assumes "quiet w w1" "quiet w2 w3" "same_host w1 w2 \<and> taken w2 = taken w1 @ bs \<and> (\<forall>R. gave_after R w1 \<longrightarrow> gave_after R w2)"
  shows "same_host w w3 \<and> taken w3 = taken w @ bs \<and> (\<forall>R. gave_after R w \<longrightarrow> gave_after R w3)"
  using assms by (auto simp: quiet_def same_host_def)

text \<open>One turn of the loop that sends: the queue was full, or the byte is in it.\<close>

lemma send_turn:
  assumes "bus_read F 1 bar2_wpkt_count w = (c, w1)" "bus_read F 1 bar2_wpkt_count (bus_write F 2 sys_lo x w1) = (c', w3)"
  shows "if c' = c then quiet w w3 \<and> \<not> notFull (respQ (pio (fpga_turn F w1)))
     else same_host w w3 \<and> taken w3 = taken w @ [ucast x] \<and> (\<forall>R. gave_after R w \<longrightarrow> gave_after R w3)"
    "accesses w3 = accesses w + 3"
proof -
  note q = bus_read_count [OF assms(1)] bus_read_count [OF assms(2)]
  note wr = bus_write_sys [where F = F and x = x and w = w1, OF refl refl]
  show "accesses w3 = accesses w + 3" using q(3,7) wr(1) by simp
  show "if c' = c then quiet w w3 \<and> \<not> notFull (respQ (pio (fpga_turn F w1)))
     else same_host w w3 \<and> taken w3 = taken w @ [ucast x] \<and> (\<forall>R. gave_after R w \<longrightarrow> gave_after R w3)"
  proof (cases "notFull (respQ (pio (fpga_turn F w1)))")
    case True
    then have "c' \<noteq> c" using wr(2) q(1,2,6) by (auto simp: quiet_def)
    then show ?thesis using quiet_then [OF q(1,5)] wr(2) [OF True] by simp
  next
    case False
    then have "c' = c" "quiet w w3" using wr(3) q quiet_trans by (auto simp: quiet_def same_host_def)
    then show ?thesis using False by simp
  qed
qed

lemma send_loop_sys:
  assumes "send_loop F sys_lo x w = Some w'"
  shows "same_host w w' \<and> taken w' = taken w @ [ucast x] \<and> (\<forall>R. gave_after R w \<longrightarrow> gave_after R w')"
  using assms
proof (rule send_loop_induct)
  fix w c w1 c' w3
  assume r: "bus_read F 1 bar2_wpkt_count w = (c, w1)" "bus_read F 1 bar2_wpkt_count (bus_write F 2 sys_lo x w1) = (c', w3)"
  let ?P = "\<lambda>w w'. same_host w w' \<and> taken w' = taken w @ [ucast x] \<and> (\<forall>R. gave_after R w \<longrightarrow> gave_after R w')"
  show "if c' = c then \<forall>w'. ?P w3 w' \<longrightarrow> ?P w w' else ?P w w3"
    using send_turn(1) [OF r] by (auto simp: quiet_def same_host_def split: if_splits)
qed

lemma send_loop_disp:
  assumes "send_loop F disp_lo x w = Some w'"
  shows "same_host w w' \<and> taken w' = taken w \<and> (\<forall>R. gave_after R w \<longrightarrow> gave_after R w')"
  using assms
proof (rule send_loop_induct)
  fix w c w1 c' w3
  assume r: "bus_read F 1 bar2_wpkt_count w = (c, w1)" "bus_read F 1 bar2_wpkt_count (bus_write F 2 disp_lo x w1) = (c', w3)"
  let ?P = "\<lambda>w w'. same_host w w' \<and> taken w' = taken w \<and> (\<forall>R. gave_after R w \<longrightarrow> gave_after R w')"
  have "?P w w3"
    using quiet_then [OF bus_read_count(1) [OF r(1)] bus_read_count(1) [OF r(2)], of "[]"] bus_write_disp [where F = F and x = x and w = w1, OF refl] by simp
  then show "if c' = c then \<forall>w'. ?P w3 w' \<longrightarrow> ?P w w' else ?P w w3" by (auto simp: same_host_def)
qed

lemma recv_turn:
  assumes "bus_read F 2 sys_lo w = (d, w')"
  shows "if d = 0xdeaddead then quiet w w' \<and> reqQ (pio (fpga_turn F w)) = []
     else same_host w w' \<and> taken w' = taken w \<and> (\<exists>b. d = ucast b \<and> (\<forall>R. gave_after R w \<longrightarrow> gave_after (R @ [b]) w'))"
proof (cases "reqQ (pio (fpga_turn F w))")
  case (Cons b q)
  then show ?thesis using bus_read_sys(2,4) [OF assms refl] byte_is_not_dead [of b] by auto
qed (use bus_read_sys(3) [OF assms refl] in simp)

lemma recv_loop_sys:
  assumes "recv_loop F sys_lo w = Some (d, w')"
  shows "same_host w w' \<and> taken w' = taken w \<and> (\<exists>b. d = ucast b \<and> (\<forall>R. gave_after R w \<longrightarrow> gave_after (R @ [b]) w'))"
proof -
  let ?P = "\<lambda>w r. same_host w (snd r) \<and> taken (snd r) = taken w \<and>
    (\<exists>b. fst r = ucast b \<and> (\<forall>R. gave_after R w \<longrightarrow> gave_after (R @ [b]) (snd r)))"
  from assms have "?P w (d, w')"
  proof (rule recv_loop_induct)
    fix w d w1 assume "bus_read F 2 sys_lo w = (d, w1)"
    from recv_turn [OF this] show "if d = 0xdeaddead then \<forall>r. ?P w1 r \<longrightarrow> ?P w r else ?P w (d, w1)"
      by (auto simp: quiet_def same_host_def split: if_splits)
  qed
  then show ?thesis by simp
qed

section \<open>Sequences of calls\<close>

definition held :: "server \<Rightarrow> u8 list" where
  "held w = (if dataPopped w then [ucast (poppedData w)] else [])"

text \<open>
  The states after a start and any calls that returned, with all bytes handed to \<^verbatim>\<open>Write\<close> and all that
  \<^verbatim>\<open>Read\<close> gave.
\<close>

inductive xupv5_run :: "fpga \<Rightarrow> server \<Rightarrow> u8 list \<Rightarrow> u8 list \<Rightarrow> bool" for F where
  run_start: "\<lbrakk>dataPopped w = False; respQ (pio w) = []; reqQ (pio w) = []; fpga_got w = []; fpga_gave w = []\<rbrakk>
     \<Longrightarrow> xupv5_run F w [] []"
| run_probe: "\<lbrakk>xupv5_run F w sent got; xupv5_Probe F w = (Inr b, w')\<rbrakk> \<Longrightarrow> xupv5_run F w' sent got"
| run_read: "\<lbrakk>xupv5_run F w sent got; xupv5_Read F n w = (Inr (n', bs), w')\<rbrakk> \<Longrightarrow> xupv5_run F w' sent (got @ bs)"
| run_write: "\<lbrakk>xupv5_run F w sent got; n = int (length bs); xupv5_Write F bs n w = (Inr n', w')\<rbrakk> \<Longrightarrow> xupv5_run F w' (sent @ bs) got"
| run_disp: "\<lbrakk>xupv5_run F w sent got; serverSendDisp F b w = (Inr (), w')\<rbrakk> \<Longrightarrow> xupv5_run F w' sent got"

definition link_ok :: "u8 list \<Rightarrow> u8 list \<Rightarrow> server \<Rightarrow> bool" where
  "link_ok sent got w \<longleftrightarrow> taken w = sent \<and> gave_after (got @ held w) w \<and> length (respQ (pio w)) \<le> 2"

lemma with_bars_Inr: "with_bars p w = (Inr x, w') \<longleftrightarrow> pBar1 w \<noteq> None \<and> pBar2 w \<noteq> None \<and> p w = (Inr x, w')"
  by (auto simp: with_bars_def)

lemma serverSendSys_link:
  assumes "serverSendSys F b w = (Inr (), w')" "link_ok sent got w"
  shows "link_ok (sent @ [b]) got w'"
  using assms by (auto simp: serverSendSys_def send_byte_def with_bars_Inr link_ok_def held_def same_host_def cast_casts
      dest!: send_loop_sys split: option.splits)

lemma serverSendDisp_link:
  assumes "serverSendDisp F b w = (Inr (), w')" "link_ok sent got w"
  shows "link_ok sent got w'"
  using assms by (auto simp: serverSendDisp_def send_byte_def with_bars_Inr link_ok_def held_def same_host_def
      dest!: send_loop_disp split: option.splits)

lemma serverTestSys_link:
  assumes "serverTestSys F w = (Inr b, w')" "link_ok sent got w"
  shows "link_ok sent got w'"
proof (cases "dataPopped w")
  case True
  then show ?thesis using assms by (simp add: serverTestSys_def)
next
  case False
  obtain d w1 where r: "bus_read F 2 sys_lo w = (d, w1)" by (meson surj_pair)
  have w': "w' = w1\<lparr>poppedData := d, dataPopped := (d \<noteq> 0xdeaddead)\<rparr>"
    using assms(1) False r by (auto simp: serverTestSys_def with_bars_Inr)
  from recv_turn [OF r] show ?thesis
    using assms(2) False by (cases "d = 0xdeaddead")
      (auto simp: w' link_ok_def held_def quiet_defs cast_casts)
qed

lemma serverRecvSys_link:
  assumes "serverRecvSys F w = (Inr b, w')" "link_ok sent got w"
  shows "link_ok sent (got @ [b]) w'"
proof (cases "dataPopped w")
  case True
  then show ?thesis using assms by (auto simp: serverRecvSys_def andThen_def bind_def link_ok_def held_def quiet_defs)
next
  case False
  then obtain d w1 where r: "recv_loop F sys_lo w = Some (d, w1)" "b = ucast d" "w' = w1\<lparr>poppedData := d, dataPopped := False\<rparr>"
    using assms(1) by (auto simp: serverRecvSys_def recv_word_def andThen_def bind_def with_bars_def modify_def split: if_splits option.splits)
  from recv_loop_sys [OF r(1)] show ?thesis
    using assms(2) False by (auto simp: r(2,3) link_ok_def held_def quiet_defs cast_casts)
qed

lemma read_bytes_link:
  "read_bytes F n w = (Inr bs, w') \<Longrightarrow> link_ok sent got w \<Longrightarrow> link_ok sent (got @ bs) w' \<and> length bs = n"
proof (induction n arbitrary: w got bs)
  case (Suc n)
  from Suc.prems(1) obtain b w1 bs' where r: "serverRecvSys F w = (Inr b, w1)" "read_bytes F n w1 = (Inr bs', w')" "bs = b # bs'"
    by (auto elim!: bind_Inr_cases)
  from Suc.IH [OF r(2) serverRecvSys_link [OF r(1) Suc.prems(2)]] show ?case by (simp add: r(3))
qed simp

lemma write_bytes_link:
  "write_bytes F bs w = (Inr (), w') \<Longrightarrow> link_ok sent got w \<Longrightarrow> link_ok (sent @ bs) got w'"
proof (induction bs arbitrary: w sent)
  case (Cons b bs)
  from Cons.prems(1) obtain w1 where r: "serverSendSys F b w = (Inr (), w1)" "write_bytes F bs w1 = (Inr (), w')"
    by (auto elim!: andThen_Inr_cases)
  from Cons.IH [OF r(2) serverSendSys_link [OF r(1) Cons.prems(2)]] show ?case by simp
qed simp

lemma xupv5_run_link: "xupv5_run F w sent got \<Longrightarrow> link_ok sent got w"
proof (induction rule: xupv5_run.induct)
  case (run_start w)
  then show ?case by (simp add: link_ok_def held_def taken_def gave_after_def)
next
  case (run_probe w sent got b w')
  then show ?case using serverTestSys_link by (simp add: xupv5_Probe_def)
next
  case (run_read w sent got n n' bs w')
  then have "read_bytes F (nat n) w = (Inr bs, w')" by (auto simp: xupv5_Read_def elim!: bind_Inr_cases)
  then show ?case using read_bytes_link run_read by blast
next
  case (run_write w sent got n bs n' w')
  then have "write_bytes F bs w = (Inr (), w')" by (auto simp: xupv5_Write_def elim!: andThen_Inr_cases)
  then show ?case using write_bytes_link run_write by blast
next
  case (run_disp w sent got b w')
  then show ?case using serverSendDisp_link by blast
qed

text \<open>
  C29. After any calls of the device that returned, whatever the user's design does with its queues in
  between, the bytes written are those the design has taken and those still in the queue towards it, in
  order and each once, and the bytes the design gave are those read, the one that a probe holds and
  those in the queue towards the host.
\<close>

theorem bytes_follow_queues:
  assumes "xupv5_run F w sent got"
  shows "sent = fpga_got w @ respQ (pio w) \<and> fpga_gave w = got @ held w @ reqQ (pio w)"
  using xupv5_run_link [OF assms] by (simp_all add: link_ok_def taken_def gave_after_def)

section \<open>Calls that return\<close>

lemma fpga_steps_room:
  "Resp \<in> set cs \<Longrightarrow> length (respQ (pio w)) \<le> 2 \<Longrightarrow> length (respQ (pio (fold fpga_step cs w))) < 2"
proof (induction cs arbitrary: w)
  case (Cons c cs)
  have le: "length (respQ (pio (fold fpga_step cs v))) \<le> length (respQ (pio v))" for v
    using fpga_steps_quiet [of v cs] by (simp add: quiet_def)
  have "length (respQ (pio (fpga_step c w))) \<le> 2" using fpga_step_quiet [of w c] Cons.prems(2) by (simp add: quiet_def)
  moreover have "length (respQ (pio (fpga_step Resp w))) < 2" using Cons.prems(2) by (auto split: list.splits)
  ultimately show ?case using Cons.IH [of "fpga_step c w"] Cons.prems(1) le [of "fpga_step Resp w"] by (cases "c = Resp") auto
qed simp

lemma fpga_turn_room:
  "Resp \<in> set (F (accesses w)) \<Longrightarrow> length (respQ (pio w)) \<le> 2 \<Longrightarrow> notFull (respQ (pio (fpga_turn F w)))"
  using fpga_steps_room by (simp add: fpga_turn_def notFull_def)

lemma fpga_steps_data: "reqQ (pio w) \<noteq> [] \<or> Req b \<in> set cs \<Longrightarrow> reqQ (pio (fold fpga_step cs w)) \<noteq> []"
proof (induction cs arbitrary: w)
  case (Cons c cs)
  have "reqQ (pio (fpga_step c w)) \<noteq> []" if "reqQ (pio w) \<noteq> [] \<or> c = Req b"
    using that by (cases c) (auto simp: notFull_def split: list.splits)
  then show ?case using Cons by auto
qed simp

lemma fpga_turn_data: "Req b \<in> set (F (accesses w)) \<Longrightarrow> reqQ (pio (fpga_turn F w)) \<noteq> []"
  using fpga_steps_data [of w b "F (accesses w)"] by (simp add: fpga_turn_def)

lemma fpga_turn_keeps_full: "Resp \<notin> set (F (accesses w)) \<Longrightarrow> respQ (pio (fpga_turn F w)) = respQ (pio w)"
proof -
  have "Resp \<notin> set cs \<Longrightarrow> respQ (pio (fold fpga_step cs v)) = respQ (pio v)" for cs v
  proof (induction cs arbitrary: v)
    case (Cons c cs)
    have "respQ (pio (fpga_step c v)) = respQ (pio v)" using Cons.prems by (cases c) (auto split: list.splits)
    with Cons show ?case by simp
  qed simp
  then show "Resp \<notin> set (F (accesses w)) \<Longrightarrow> respQ (pio (fpga_turn F w)) = respQ (pio w)" by (simp add: fpga_turn_def)
qed

lemma turn_run:
  obtains c w1 c' w3 where "bus_read F 1 bar2_wpkt_count w = (c, w1)" "bus_read F 1 bar2_wpkt_count (bus_write F 2 reg x w1) = (c', w3)"
    "send_loop F reg x w = (if c' = c then send_loop F reg x w3 else Some w3)"
proof -
  obtain c w1 where 1: "bus_read F 1 bar2_wpkt_count w = (c, w1)" by (meson surj_pair)
  obtain c' w3 where 2: "bus_read F 1 bar2_wpkt_count (bus_write F 2 reg x w1) = (c', w3)" by (meson surj_pair)
  have "send_loop F reg x w = (if c' = c then send_loop F reg x w3 else Some w3)"
    using 1 2 by (subst send_loop.simps) (simp add: Let_def)
  from that [OF 1 2 this] show thesis .
qed

lemma send_room:
  assumes "notFull (respQ (pio w))"
  shows "\<exists>w'. send_loop F sys_lo x w = Some w'"
proof -
  obtain c w1 c' w3 where r: "bus_read F 1 bar2_wpkt_count w = (c, w1)" "bus_read F 1 bar2_wpkt_count (bus_write F 2 sys_lo x w1) = (c', w3)"
    "send_loop F sys_lo x w = (if c' = c then send_loop F sys_lo x w3 else Some w3)" by (rule turn_run)
  have "notFull (respQ (pio (fpga_turn F w1)))"
    using bus_read_count(1) [OF r(1)] fpga_turn_quiet [of w1 F] assms by (auto simp: quiet_def notFull_def)
  then show ?thesis using send_turn(1) [OF r(1,2)] r(3) by (auto split: if_splits)
qed

lemma send_later:
  assumes "Resp \<in> set (F m)" "accesses w \<le> m" "length (respQ (pio w)) \<le> 2"
  shows "\<exists>w'. send_loop F sys_lo x w = Some w'"
  using assms(2,3)
proof (induction "m - accesses w" arbitrary: w rule: less_induct)
  case less
  obtain c w1 c' w3 where r: "bus_read F 1 bar2_wpkt_count w = (c, w1)" "bus_read F 1 bar2_wpkt_count (bus_write F 2 sys_lo x w1) = (c', w3)"
    "send_loop F sys_lo x w = (if c' = c then send_loop F sys_lo x w3 else Some w3)" by (rule turn_run)
  let ?w2 = "bus_write F 2 sys_lo x w1"
  note q = bus_read_count [OF r(1)] bus_read_count [OF r(2)]
  show ?case
  proof (cases "c' = c")
    case True
    then have t: "quiet w w3" "\<not> notFull (respQ (pio (fpga_turn F w1)))" "accesses w3 = accesses w + 3"
      using send_turn [OF r(1,2)] by simp_all
    have len: "length (respQ (pio w1)) \<le> 2" "length (respQ (pio ?w2)) \<le> 2" "length (respQ (pio w3)) \<le> 2"
      using less.prems(2) q(1) t bus_write_sys(3) [where F = F and x = x and w = w1, OF refl refl] by (auto simp: quiet_def)
    have "m \<noteq> accesses w"
    proof
      assume "m = accesses w"
      then have "notFull (respQ (pio w1))" using fpga_turn_room [of F w] assms(1) less.prems(2) q(4) by simp
      then show False using t(2) fpga_turn_quiet [of w1 F] by (auto simp: quiet_def notFull_def)
    qed
    moreover have "m \<noteq> accesses w1" using fpga_turn_room [of F w1] assms(1) len(1) t(2) by auto
    moreover have "\<exists>w'. send_loop F sys_lo x w3 = Some w'" if "m = accesses w + 2"
      using that send_room fpga_turn_room [of F ?w2] assms(1) len(2) q(3,8) t(3) q(7) by simp
    moreover have "\<exists>w'. send_loop F sys_lo x w3 = Some w'" if "accesses w + 2 < m"
      using less.hyps [of w3] that len(3) t(3) by simp
    ultimately show ?thesis using less.prems(1) q(3) r(3) True by (cases "accesses w + 2 < m") auto
  qed (use r(3) in simp)
qed

lemma send_never:
  assumes "\<forall>m. Resp \<notin> set (F m)" "length (respQ (pio w)) = 2"
  shows "send_loop F sys_lo x w = None"
proof (rule ccontr)
  assume "send_loop F sys_lo x w \<noteq> None"
  then obtain w' where "send_loop F sys_lo x w = Some w'" by blast
  then have "length (respQ (pio w)) = 2 \<longrightarrow> False"
  proof (rule send_loop_induct)
    fix w c w1 c' w3
    assume r: "bus_read F 1 bar2_wpkt_count w = (c, w1)" "bus_read F 1 bar2_wpkt_count (bus_write F 2 sys_lo x w1) = (c', w3)"
    have keep: "respQ (pio (fpga_turn F v)) = respQ (pio v)" for v using fpga_turn_keeps_full assms(1) by blast
    have "c' = c \<and> length (respQ (pio w3)) = 2" if "length (respQ (pio w)) = 2"
    proof -
      have 1: "length (respQ (pio w1)) = 2" using that bus_read_count(4) [OF r(1)] keep by simp
      then have "\<not> notFull (respQ (pio (fpga_turn F w1)))" using keep by (simp add: notFull_def)
      from bus_write_sys(3) [where F = F and x = x and w = w1, OF refl refl this]
      have "quiet w1 (bus_write F 2 sys_lo x w1)" "length (respQ (pio (bus_write F 2 sys_lo x w1))) = 2" using 1 keep by auto
      then show ?thesis using bus_read_count(1,2) [OF r(1)] bus_read_count(2,4) [OF r(2)] keep by (simp add: quiet_def)
    qed
    then show "if c' = c then \<forall>w' :: server. (length (respQ (pio w3)) = 2 \<longrightarrow> False) \<longrightarrow> length (respQ (pio w)) = 2 \<longrightarrow> False
       else length (respQ (pio w)) = 2 \<longrightarrow> False" by auto
  qed
  then show False using assms(2) by simp
qed

lemma recv_later:
  assumes "Req b \<in> set (F m)" "accesses w \<le> m"
  shows "\<exists>r. recv_loop F sys_lo w = Some r"
  using assms(2)
proof (induction "m - accesses w" arbitrary: w rule: less_induct)
  case less
  obtain d w1 where r: "bus_read F 2 sys_lo w = (d, w1)" by (meson surj_pair)
  have run: "recv_loop F sys_lo w = (if d = 0xdeaddead then recv_loop F sys_lo w1 else Some (d, w1))"
    using r by (subst recv_loop.simps) (simp add: Let_def)
  show ?case
  proof (cases "d = 0xdeaddead")
    case True
    then have "m \<noteq> accesses w" using recv_turn [OF r] fpga_turn_data [of b F w] assms(1) by auto
    then show ?thesis using less.hyps [of w1] less.prems bus_read_sys(1) [OF r refl] run True by auto
  qed (use run in simp)
qed

lemma write_bytes_returns:
  assumes "\<forall>n. \<exists>m \<ge> n. Resp \<in> set (F m)"
  shows "link_ok sent got w \<Longrightarrow> pBar1 w \<noteq> None \<Longrightarrow> pBar2 w \<noteq> None \<Longrightarrow> \<exists>w'. write_bytes F bs w = (Inr (), w')"
proof (induction bs arbitrary: w sent)
  case (Cons b bs)
  obtain m where m: "accesses w \<le> m" "Resp \<in> set (F m)" using assms by blast
  have "length (respQ (pio w)) \<le> 2" using Cons.prems(1) by (simp add: link_ok_def)
  from send_later [where F = F and m = m and w = w and x = "scast b", OF m(2,1) this] obtain w1 where s: "send_loop F sys_lo (scast b) w = Some w1" by blast
  then have r: "serverSendSys F b w = (Inr (), w1)" using Cons.prems by (simp add: serverSendSys_def send_byte_def with_bars_def)
  have "pBar1 w1 \<noteq> None" "pBar2 w1 \<noteq> None" using send_loop_sys [OF s] Cons.prems by (auto simp: same_host_def)
  from Cons.IH [OF serverSendSys_link [OF r Cons.prems(1)] this] r show ?case by (simp add: andThen_Inr)
qed simp

lemma read_bytes_returns:
  assumes "\<forall>n. \<exists>m \<ge> n. \<exists>b. Req b \<in> set (F m)"
  shows "pBar1 w \<noteq> None \<Longrightarrow> pBar2 w \<noteq> None \<Longrightarrow> \<exists>bs w'. read_bytes F k w = (Inr bs, w')"
proof (induction k arbitrary: w)
  case (Suc k)
  obtain m b where "accesses w \<le> m" "Req b \<in> set (F m)" using assms by blast
  then obtain d w1 where l: "recv_loop F sys_lo w = Some (d, w1)" using recv_later by (metis surj_pair)
  have "\<exists>b w'. serverRecvSys F w = (Inr b, w') \<and> pBar1 w' \<noteq> None \<and> pBar2 w' \<noteq> None"
    using l recv_loop_sys [OF l] Suc.prems
    by (auto simp: serverRecvSys_def recv_word_def with_bars_def andThen_def bind_def same_host_def)
  then obtain b w' where r: "serverRecvSys F w = (Inr b, w')" "pBar1 w' \<noteq> None" "pBar2 w' \<noteq> None" by blast
  from Suc.IH [OF r(2,3)] r(1) show ?case by (auto simp: bind_Inr)
qed simp

text \<open>
  C32. On a mapped board a write returns when the user's design takes bytes again and again, and a read
  when it gives bytes again and again. A write of a byte to a full queue that is never emptied does
  not return.
\<close>

theorem calls_return:
  assumes "xupv5_run F w sent got" "pBar1 w \<noteq> None" "pBar2 w \<noteq> None"
  shows "((\<forall>n. \<exists>m \<ge> n. Resp \<in> set (F m)) \<longrightarrow> (\<exists>w'. xupv5_Write F bs (int (length bs)) w = (Inr (int (length bs)), w')))
    \<and> ((\<forall>n. \<exists>m \<ge> n. \<exists>b. Req b \<in> set (F m)) \<longrightarrow> (\<exists>r w'. xupv5_Read F k w = (Inr (k, r), w')))
    \<and> ((\<forall>m. Resp \<notin> set (F m)) \<and> length (respQ (pio w)) = 2 \<longrightarrow> xupv5_Write F [b] 1 w = (Inl S_Forever, w))"
proof (intro conjI impI)
  assume "\<forall>n. \<exists>m \<ge> n. Resp \<in> set (F m)"
  from write_bytes_returns [OF this xupv5_run_link [OF assms(1)] assms(2,3), of bs]
  show "\<exists>w'. xupv5_Write F bs (int (length bs)) w = (Inr (int (length bs)), w')"
    by (auto simp: xupv5_Write_def andThen_Inr)
next
  assume "\<forall>n. \<exists>m \<ge> n. \<exists>b. Req b \<in> set (F m)"
  from read_bytes_returns [OF this assms(2,3), of "nat k"]
  show "\<exists>r w'. xupv5_Read F k w = (Inr (k, r), w')" by (auto simp: xupv5_Read_def bind_Inr)
next
  assume "(\<forall>m. Resp \<notin> set (F m)) \<and> length (respQ (pio w)) = 2"
  then show "xupv5_Write F [b] 1 w = (Inl S_Forever, w)"
    using send_never [of F w "scast b"] assms(2,3)
    by (simp add: xupv5_Write_def serverSendSys_def send_byte_def with_bars_def andThen_def bind_def)
qed

section \<open>An example\<close>

text \<open>A design that gives a byte, if there is room, and takes one before each access.\<close>

definition fpga0 :: fpga where "fpga0 n = [Req 7, Resp]"

definition server0 :: server where
  "server0 = \<lparr>dataPopped = False, poppedData = 0, pcie_dev = 3, pBar1 = Some (1, 4096), pBar2 = Some (2, 4096), srv_fds = {3},
     pio = \<lparr>bar1RPacketCount = 0, bar2RPacketCount = 0, errorRPacketCount = 0, bar1WPacketCount = 0, bar2WPacketCount = 0,
       errorWPacketCount = 0, loopBackData = 0, reqQ = [], respQ = [], dispReqQ = [], dispRespQ = [], buildVersion = 1, epochTime = 2\<rparr>,
     accesses = 0, fpga_got = [], fpga_gave = [], srv_out = []\<rparr>"

lemma server0_run: "xupv5_run F server0 [] []"
  by (rule run_start) (simp_all add: server0_def)

lemma fpga0_works: "\<forall>n. \<exists>m \<ge> n. Resp \<in> set (fpga0 m)" "\<forall>n. \<exists>m \<ge> n. \<exists>b. Req b \<in> set (fpga0 m)"
  by (auto simp: fpga0_def)

lemma calls_return_witness:
  "(\<exists>w'. xupv5_Write fpga0 [200, 3] 2 server0 = (Inr 2, w')) \<and> (\<exists>r w'. xupv5_Read fpga0 3 server0 = (Inr (3, r), w'))"
  using calls_return [OF server0_run, of fpga0 "[200, 3]" 3] fpga0_works by (simp add: server0_def)

lemma bytes_follow_queues_witness:
  "\<exists>w. xupv5_Write fpga0 [200, 3] 2 server0 = (Inr 2, w) \<and> [200, 3] = fpga_got w @ respQ (pio w) \<and>
     fpga_gave w = held w @ reqQ (pio w)"
proof -
  obtain w where "write_bytes fpga0 [200, 3] server0 = (Inr (), w)"
    using write_bytes_returns [OF fpga0_works(1) xupv5_run_link [OF server0_run], of "[200, 3]"] by (force simp: server0_def)
  then have w: "xupv5_Write fpga0 [200, 3] 2 server0 = (Inr 2, w)" by (simp add: xupv5_Write_def andThen_Inr)
  from bytes_follow_queues [OF run_write [OF server0_run _ w]] w show ?thesis by simp
qed

section \<open>Starting and finishing\<close>

lemma round_to_pages:
  fixes len :: u64
  shows "unat ((len + 4095) AND NOT 4095) = (if unat len + 4095 < 2 ^ 64 then (unat len + 4095) div 4096 * 4096 else 0)"
proof -
  let ?y = "len + 4095"
  have "?y AND NOT (mask 12) = push_bit 12 (drop_bit 12 ?y)"
    by (auto intro!: bit_word_eqI simp: bit_and_iff bit_not_iff bit_mask_iff bit_push_bit_iff bit_drop_bit_eq)
  moreover have "NOT 4095 = (NOT (mask 12) :: u64)" by (simp add: mask_eq_exp_minus_1)
  ultimately have "?y AND NOT 4095 = push_bit 12 (drop_bit 12 ?y)" by argo
  moreover have "unat ?y div 4096 * 4096 < 2 ^ 64" using unsigned_less [of ?y, where 'a = nat] by simp
  ultimately have y: "unat (?y AND NOT 4095) = unat ?y div 4096 * 4096"
    by (simp add: push_bit_eq_mult drop_bit_eq_div unat_word_ariths unat_div_distrib)
  show ?thesis
  proof (cases "unat len + 4095 < 2 ^ 64")
    case True
    then have "unat ?y = unat len + 4095" by (simp add: unat_word_ariths)
    then show ?thesis using y True by simp
  next
    case False
    then have "unat ?y < 4096" using unsigned_less [of len, where 'a = nat] by (simp add: unat_word_ariths mod_if) linarith
    then show ?thesis using y False by simp
  qed
qed

lemma round_up_grows:
  fixes n :: nat
  assumes "\<not> 4096 dvd n"
  shows "n < (n + 4095) div 4096 * 4096"
proof -
  define q r where "q = n div 4096" and "r = n mod 4096"
  have n: "n = 4096 * q + r" "r < 4096" "0 < r" using assms by (simp_all add: q_def r_def mod_greater_zero_iff_not_dvd)
  then have "(n + 4095) div 4096 = q + 1" by (intro div_nat_eqI) simp_all
  then show ?thesis using n by simp
qed

definition bar_maps :: "srv_env \<Rightarrow> device_data \<Rightarrow> nat \<Rightarrow> bool" where
  "bar_maps V d i \<longleftrightarrow> bar_size (bars d ! i) \<noteq> 0 \<and> 4096 dvd unat (bar_size (bars d ! i))
     \<and> v_remap_ok V (drop_bit 12 (log_ptr d ! i)) (bar_size (bars d ! i))"

lemma server_mmap_run:
  assumes "i = 1 \<or> i = 2" "d = devices drv ! num"
  shows "server_mmap V drv num addr (bar_size (bars d ! i)) (of_nat i) =
    (if bar_maps V d i then Some (drop_bit 12 (log_ptr d ! i), bar_size (bars d ! i)) else None)"
proof -
  let ?len = "bar_size (bars d ! i)" let ?pages = "(?len + 4095) AND NOT 4095"
  have bar: "unat (of_nat i mod of_nat MAXNUM_PCI_BAR :: u64) = i" using assms(1) by (auto simp: MAXNUM_PCI_BAR_def)
  have n: "unat ?len < 2 ^ 64" using unsigned_less [of ?len, where 'a = nat] by simp
  show ?thesis
  proof (cases "4096 dvd unat ?len \<and> ?len \<noteq> 0")
    case True
    then obtain k where k: "unat ?len = 4096 * k" by (auto elim: dvdE)
    then have "k < 2 ^ 52" using n by simp
    then have "unat ?len + 4095 < 2 ^ 64" "(unat ?len + 4095) div 4096 * 4096 = unat ?len" using k by simp_all
    then have "unat ?pages = unat ?len" using round_to_pages [of ?len] by simp
    then have "?pages = ?len" by (rule unsigned_word_eqI)
    then show ?thesis using True bar assms(2) by (simp add: server_mmap_def bsemu_mmap_def bar_maps_def Let_def)
  next
    case False
    have "?len = 0 \<or> ?pages = 0 \<or> ?len < ?pages"
    proof (cases "unat ?len + 4095 < 2 ^ 64 \<and> ?len \<noteq> 0")
      case True
      then have "\<not> 4096 dvd unat ?len" using False by simp
      then have "unat ?len < (unat ?len + 4095) div 4096 * 4096" by (rule round_up_grows)
      then have "unat ?len < unat ?pages" unfolding round_to_pages using True by (simp only: if_True)
      then show ?thesis by (intro disjI2) (simp only: word_less_nat_alt)
    next
      case 2: False
      then show ?thesis using round_to_pages [of ?len] by (auto simp: unat_eq_zero)
    qed
    moreover have "\<not> bar_maps V d i" using False by (auto simp: bar_maps_def)
    ultimately show ?thesis using bar assms(2)
      by (cases "?len = 0 \<or> ?pages = 0") (simp_all add: server_mmap_def bsemu_mmap_def Let_def)
  qed
qed

definition start_ok :: "srv_env \<Rightarrow> bsemu \<Rightarrow> bool" where
  "start_ok V drv = (case v_minor V of None \<Rightarrow> False | Some num \<Rightarrow>
     (let d = devices drv ! num in
      num < NUM_SUPPORTED_DEVICES \<and> v_access_ok V \<and> v_uncopied V = 0 \<and> vid d = MY_VENDOR_ID \<and> did d = MY_DEVICE_ID
      \<and> log_addr (bars d ! 1) \<noteq> 0 \<and> log_addr (bars d ! 2) \<noteq> 0 \<and> bar_maps V d 1 \<and> bar_maps V d 2))"

lemma getdevice_run:
  "num < NUM_SUPPORTED_DEVICES \<Longrightarrow> bsemu_ioctl ok n drv num BSEMU_IOC_GETDEVICE =
     (if \<not> ok then (- b_EINVAL, None)
      else (int n, if n = 0 then Some (vid (devices drv ! num), did (devices drv ! num), bars (devices drv ! num)) else None))"
  by (simp add: bsemu_ioctl_def BSEMU_IOC_GETDEVICE_def BSEMU_IOC_MAGIC_def BSEMU_IOC_MAXNR_def Let_def)

lemma close_and_exit_run:
  "close_and_exit status w = (Inl (S_Exit status), w\<lparr>srv_fds := srv_fds w - {pcie_dev w}\<rparr>)"
  by (simp add: close_and_exit_def andThen_def bind_def)

text \<open>
  Starting on the driver succeeds exactly when the board has the expected numbers and its BARs 1
  and 2 are there, are whole pages long and can be mapped; then both are mapped over their whole
  length. Otherwise the program ends with status 1 and the descriptor is closed.
\<close>

theorem start_follows_board:
  assumes "v_fd V \<notin> srv_fds w"
  shows "if start_ok V drv
    then \<exists>num w'. v_minor V = Some num \<and> serverStart F V drv w = (Inr (), w') \<and> pcie_dev w' = v_fd V
      \<and> srv_fds w' = insert (v_fd V) (srv_fds w) \<and> \<not> dataPopped w'
      \<and> pBar1 w' = Some (drop_bit 12 (log_ptr (devices drv ! num) ! 1), bar_size (bars (devices drv ! num) ! 1))
      \<and> pBar2 w' = Some (drop_bit 12 (log_ptr (devices drv ! num) ! 2), bar_size (bars (devices drv ! num) ! 2))
    else \<exists>w'. serverStart F V drv w = (Inl (S_Exit 1), w') \<and> srv_fds w' = srv_fds w"
proof (cases "v_minor V")
  case None
  then show ?thesis by (simp add: start_ok_def serverStart_def andThen_def bind_def)
next
  case (Some num)
  let ?d = "devices drv ! num"
  have keep: "pcie_dev (fpga_turn F w) = pcie_dev w \<and> srv_fds (fpga_turn F w) = srv_fds w" for w
  proof -
    have "pcie_dev (fpga_step c w) = pcie_dev w \<and> srv_fds (fpga_step c w) = srv_fds w" for c w
      by (cases c) (auto split: list.splits)
    then have "pcie_dev (fold fpga_step cs w) = pcie_dev w \<and> srv_fds (fold fpga_step cs w) = srv_fds w" for cs w
      by (induction cs arbitrary: w) simp_all
    then show ?thesis by (simp add: fpga_turn_def)
  qed
  have host: "dataPopped (fpga_turn F w) = dataPopped w \<and> pBar1 (fpga_turn F w) = pBar1 w \<and> pBar2 (fpga_turn F w) = pBar2 w" for w
    using fpga_turn_quiet [of w F] by (simp add: quiet_def same_host_def)
  note map1 = server_mmap_run [of 1 ?d drv num V "v_addr1 V", simplified]
  note map2 = server_mmap_run [of 2 ?d drv num V "v_addr2 V", simplified]
  have ins: "insert (v_fd V) (srv_fds w) - {v_fd V} = srv_fds w" using assms by blast
  show ?thesis
  proof (cases "num < NUM_SUPPORTED_DEVICES")
    case False
    then show ?thesis using Some by (simp add: start_ok_def serverStart_def bsemu_open_def andThen_def bind_def)
  next
    case True
    then show ?thesis
      using Some by (simp add: start_ok_def serverStart_def bsemu_open_def andThen_def bind_def getdevice_run close_and_exit_run
          map1 map2 ins Let_def bus_write_def bus_write_hi_def keep host)
  qed
qed

definition srv_env0 :: srv_env where
  "srv_env0 = \<lparr>v_minor = Some 0, v_fd = 3, v_access_ok = True, v_uncopied = 0, v_remap_ok = \<lambda>_ _. True, v_addr1 = 65536, v_addr2 = 131072\<rparr>"

definition board0 :: "u64 \<Rightarrow> device_data" where
  "board0 size2 = blank_device\<lparr>vid := MY_VENDOR_ID, did := MY_DEVICE_ID, log_ptr := [0, 4096, 8192, 0, 0, 0],
     bars := [\<lparr>log_addr = 0, bar_size = 0\<rparr>, \<lparr>log_addr = 4096, bar_size = 4096\<rparr>, \<lparr>log_addr = 8192, bar_size = size2\<rparr>]\<rparr>"

definition driver0 :: "u64 \<Rightarrow> bsemu" where
  "driver0 size2 = \<lparr>devices = [board0 size2], last_device = 1, devices_lock = False, drvdata = \<lambda>_. None, dev_enabled = {}, dev_master = {},
     remapped = {}, char_devs = {0}, region_held = True, pci_registered = True\<rparr>"

lemmas start0_defs = srv_env0_def board0_def driver0_def blank_device_def start_ok_def bar_maps_def NUM_SUPPORTED_DEVICES_def

text \<open>A board whose second BAR is a page long, and one where it has 128 bytes.\<close>

lemma start_follows_board_witness:
  "(\<exists>w'. serverStart fpga0 srv_env0 (driver0 4096) (server0\<lparr>srv_fds := {}\<rparr>) = (Inr (), w') \<and> pBar2 w' = Some (2, 4096)) \<and>
   (\<exists>w'. serverStart fpga0 srv_env0 (driver0 128) (server0\<lparr>srv_fds := {}\<rparr>) = (Inl (S_Exit 1), w') \<and> srv_fds w' = {})"
proof -
  have "start_ok srv_env0 (driver0 4096)" "\<not> start_ok srv_env0 (driver0 128)" by (simp_all add: start0_defs Let_def)
  moreover have "v_fd srv_env0 \<notin> srv_fds (server0\<lparr>srv_fds := {}\<rparr>)" by simp
  ultimately show ?thesis
    using start_follows_board [of srv_env0 "server0\<lparr>srv_fds := {}\<rparr>" "driver0 4096" fpga0]
      start_follows_board [of srv_env0 "server0\<lparr>srv_fds := {}\<rparr>" "driver0 128" fpga0]
    by (auto simp: srv_env0_def driver0_def board0_def)
qed

text \<open>Taking the device down ends the program with status 0, so the base class is never asked.\<close>

lemma uninit_exits: "fst (xupv5_Uninit parent_Uninit w) = Inl (S_Exit 0)"
  by (simp add: xupv5_Uninit_def xupv5_Cleanup_def serverFinish_def close_and_exit_run andThen_Inl)

text \<open>Printing what the FPGA sends to the display stores through a pointer that was never set.\<close>

lemma display_faults: "fst (serverRecvDisp F w) \<in> {Inl S_Null, Inl S_Forever, Inl S_Wild}"
  by (auto simp: serverRecvDisp_def recv_word_def with_bars_def bind_def split: option.splits)

end
