(* ===== verification/Htg_Device.thy ===== *)
theory Htg_Device
  imports Leap_Prelude Little_Endian Pchnl
begin

text \<open>
  \<^verbatim>\<open>pcie-csr/pci-express-c-import-mmap.cpp\<close> with its header: the host's device on top of the pchnl
  driver, which maps the registers of the board into the program. Registers have 32 bits, an index
  of a register 8 bits, physical addresses 64, as the module's parameters say. The memory of the
  process is that of the driver's model; the requests of the ioctls are built in it, at an address
  that is an argument. The delay after a reset is left out.
\<close>

section \<open>State\<close>

text \<open>
  The driver; the descriptor and the open ones; the addresses in the members of the class, 0 for
  NULL; what is mapped, as address, number of the first physical page and size; the flag of the first
  \<^verbatim>\<open>Init\<close>. The length of the board's BAR and the stores that reached other physical memory stand for the
  machine.
\<close>

record csr_dev =
  drv :: pchnl
  driverFD :: int
  open_fds :: "int set"
  deviceMap :: u64
  systemCSR_Read :: u64
  systemCSR_Write :: u64
  commonCSRs :: u64
  dmaBuffer_H2F :: u64
  dmaBuffer_F2H :: u64
  mapping :: "(u64 \<times> u64 \<times> u64) option"
  did_init :: bool
  bar_len :: u64
  stray :: "(u64 \<times> u32) list"

text \<open>
  The answers: of the driver's kernel; the minor number behind a path; the next descriptor; the
  address \<^verbatim>\<open>mmap\<close> picks; the path the program was configured with; where a request is built; what
  physical memory outside the board's BAR holds.
\<close>

record csr_env =
  c_kernel :: penv
  c_node :: "string \<Rightarrow> int option"
  c_fd :: int
  c_map :: u64
  c_dev_path :: string
  c_stack :: u64
  c_junk :: pchnl_req
  c_elsewhere :: "u64 \<Rightarrow> u32"

datatype csr_stop = C_Exit int | C_Fault u64 | C_Null | C_Forever | C_Kernel pstop

type_synonym 'a csr = "(csr_dev, csr_stop, 'a) prog"

definition in_pchnl :: "'a pprog \<Rightarrow> 'a csr" where
  "in_pchnl p = (\<lambda>w. case p (drv w) of
      (Inl e, k) \<Rightarrow> (Inl (C_Kernel e), w\<lparr>drv := k\<rparr>)
    | (Inr x, k) \<Rightarrow> (Inr x, w\<lparr>drv := k\<rparr>))"

section \<open>Registers in memory\<close>

text \<open>
  An aligned word at an address of the process: inside the mapped region it is the word at the physical
  address behind it; the rest of what \<^verbatim>\<open>mmap\<close> reserved has nothing behind it. A physical address inside the
  BAR of the board is a register of the board; any other is memory that is not the board's.
\<close>

definition physical_at :: "u64 \<Rightarrow> csr_dev \<Rightarrow> u64 option" where
  "physical_at a w = (case mapping w of None \<Rightarrow> None
     | Some (base, page, len) \<Rightarrow> if a - base \<le> len - 4 then Some (push_bit 12 page + (a - base)) else None)"

definition in_bar :: "u64 \<Rightarrow> csr_dev \<Rightarrow> pchnl_device \<Rightarrow> bool" where
  "in_bar pa w d \<longleftrightarrow> pa - io_base d \<le> bar_len w - 4"

definition load32 :: "csr_env \<Rightarrow> u64 \<Rightarrow> u32 csr" where
  "load32 E a = (\<lambda>w. case physical_at a w of None \<Rightarrow> (Inl (C_Fault a), w)
     | Some pa \<Rightarrow> bind (in_pchnl the_dev) (\<lambda>d.
         if in_bar pa w d then in_pchnl (readl (c_kernel E) (pa - io_base d)) else ret (c_elsewhere E pa)) w)"

definition store32 :: "u64 \<Rightarrow> u32 \<Rightarrow> unit csr" where
  "store32 a v = (\<lambda>w. case physical_at a w of None \<Rightarrow> (Inl (C_Fault a), w)
     | Some pa \<Rightarrow> bind (in_pchnl the_dev) (\<lambda>d.
         if in_bar pa w d then in_pchnl (writel v (pa - io_base d))
         else modify (\<lambda>w. w\<lparr>stray := stray w @ [(pa, v)]\<rparr>)) w)"

section \<open>The device\<close>

definition csr_construct :: "pchnl \<Rightarrow> u64 \<Rightarrow> int \<Rightarrow> int set \<Rightarrow> bool \<Rightarrow> csr_dev" where
  "csr_construct k len junk fds done_before = \<lparr>drv = k, driverFD = junk, open_fds = fds, deviceMap = 0, systemCSR_Read = 0, systemCSR_Write = 0,
     commonCSRs = 0, dmaBuffer_H2F = 0, dmaBuffer_F2H = 0, mapping = None, did_init = done_before,
     bar_len = len, stray = []\<rparr>"

definition csr_ioctl :: "csr_env \<Rightarrow> u32 \<Rightarrow> u64 \<Rightarrow> int csr" where
  "csr_ioctl E cmd arg = (\<lambda>w. if driverFD w \<in> open_fds w
     then bind (in_pchnl (pchnl_ioctl (c_kernel E) (c_junk E) cmd arg)) (\<lambda>rc. ret (if rc < 0 then - 1 else rc)) w
     else (Inr (- 1), w))"

definition ResetFPGA :: "csr_env \<Rightarrow> unit csr" where
  "ResetFPGA E = bind (csr_ioctl E PCHNL_RESET 0) (\<lambda>_. ret ())"

definition open_driver :: "csr_env \<Rightarrow> int csr" where
  "open_driver E = (case c_node E (if c_dev_path E = [] then ''/dev/pchnl'' else c_dev_path E) of
       None \<Rightarrow> ret (- 1)
     | Some minor \<Rightarrow> bind (in_pchnl (pchnl_open minor)) (\<lambda>rc.
         if rc \<noteq> 0 then ret (- 1)
         else andThen (modify (\<lambda>w. w\<lparr>open_fds := insert (c_fd E) (open_fds w)\<rparr>)) (ret (c_fd E))))"

text \<open>A failing \<^verbatim>\<open>mmap\<close> gives \<^verbatim>\<open>MAP_FAILED\<close>, the largest address.\<close>

definition MAP_FAILED :: u64 where "MAP_FAILED = - 1"

definition map_driver :: "csr_env \<Rightarrow> u64 csr" where
  "map_driver E = bind (in_pchnl (pchnl_mmap (c_kernel E) (c_map E) (c_map E + PCHNL_MMAP_SIZE))) (\<lambda>(rc, region).
     if rc < 0 then ret MAP_FAILED
     else andThen (modify (\<lambda>w. w\<lparr>mapping := map_option (Pair (c_map E)) region\<rparr>)) (ret (c_map E)))"

text \<open>The test \<^verbatim>\<open>deviceMap < 0\<close> of a pointer never holds.\<close>

definition csr_Init :: "csr_env \<Rightarrow> unit csr" where
  "csr_Init E = (\<lambda>w. if did_init w then (Inr (), w) else
     andThen (modify (\<lambda>w. w\<lparr>did_init := True\<rparr>))
     (bind (open_driver E) (\<lambda>fd. andThen (modify (\<lambda>w. w\<lparr>driverFD := fd\<rparr>))
      (if fd < 0 then raise (C_Exit 1)
       else bind (map_driver E) (\<lambda>m. andThen (modify (\<lambda>w. w\<lparr>deviceMap := m,
           systemCSR_Write := m + ucast SYS_CSR_BASE_OFFSET, systemCSR_Read := m + ucast SYS_CSR_BASE_OFFSET + 4,
           commonCSRs := m + ucast COMM_CSR_BASE_OFFSET,
           dmaBuffer_H2F := m + CSR_REGION_SIZE, dmaBuffer_F2H := m + (CSR_REGION_SIZE + of_nat BUF_SIZE)\<rparr>))
         (ResetFPGA E))))) w)"

text \<open>The mapping is not at address 0, so that \<^verbatim>\<open>munmap (0, CSR_REGION_SIZE)\<close> leaves it alone.\<close>

definition csr_Cleanup :: "unit csr" where
  "csr_Cleanup = modify (\<lambda>w. w\<lparr>mapping := (case mapping w of Some (base, r) \<Rightarrow> if base = 0 then None else mapping w | None \<Rightarrow> None),
     open_fds := open_fds w - {driverFD w}\<rparr>)"

text \<open>\<^verbatim>\<open>parent_Uninit\<close> is the method of the base class.\<close>

definition csr_Uninit :: "unit csr \<Rightarrow> unit csr" where
  "csr_Uninit parent_Uninit = andThen csr_Cleanup parent_Uninit"

definition ReadSystemCSR :: "csr_env \<Rightarrow> u32 csr" where
  "ReadSystemCSR E = (\<lambda>w. load32 E (systemCSR_Read w) w)"

definition WriteSystemCSR :: "u32 \<Rightarrow> unit csr" where
  "WriteSystemCSR data = (\<lambda>w. store32 (systemCSR_Write w) data w)"

definition ReadCommonCSR :: "csr_env \<Rightarrow> u8 \<Rightarrow> u32 csr" where
  "ReadCommonCSR E index = (\<lambda>w. load32 E (commonCSRs w + 4 * ucast index) w)"

definition WriteCommonCSR :: "u8 \<Rightarrow> u32 \<Rightarrow> unit csr" where
  "WriteCommonCSR index data = (\<lambda>w. store32 (commonCSRs w + 4 * ucast index) data w)"

definition swapEndian :: "u32 \<Rightarrow> u32" where
  "swapEndian data = push_bit 24 (data AND 0x000000FF) OR push_bit 8 (data AND 0x0000FF00)
     OR drop_bit 8 (data AND 0x00FF0000) OR drop_bit 24 (data AND 0xFF000000)"

definition GetDMABuffer_H2F :: "csr_dev \<Rightarrow> u64" where "GetDMABuffer_H2F w = dmaBuffer_H2F w"
definition GetDMABuffer_F2H :: "csr_dev \<Rightarrow> u64" where "GetDMABuffer_F2H w = dmaBuffer_F2H w"

section \<open>Requests built on the stack\<close>

text \<open>The local variables lie behind the request of 40 bytes. The results of the ioctls are not looked at.\<close>

definition user_store :: "u64 \<Rightarrow> u8 list \<Rightarrow> unit csr" where
  "user_store a bs = modify (\<lambda>w. w\<lparr>drv := (drv w)\<lparr>umem :=
     (\<lambda>x. if unat (x - a) < length bs then Some (bs ! unat (x - a)) else umem (drv w) x)\<rparr>\<rparr>)"

definition user_load64 :: "u64 \<Rightarrow> u64 csr" where
  "user_load64 a = (\<lambda>w. let bs = user_bytes (umem (drv w)) a 8 in
     if length bs < 8 then (Inl (C_Fault a), w) else (Inr (le_word bs), w))"

definition GetDMABufferPA :: "csr_env \<Rightarrow> u32 \<Rightarrow> u64 csr" where
  "GetDMABufferPA E cmd =
     (let req = c_stack E; pa = c_stack E + 40 in
      andThen (user_store req (le_bytes 8 pa))
      (bind (csr_ioctl E cmd req) (\<lambda>_. user_load64 pa)))"

definition GetDMABufferPA_H2F :: "csr_env \<Rightarrow> u64 csr" where
  "GetDMABufferPA_H2F E = GetDMABufferPA E PCHNL_GET_H2F_BUFFER_PA"

definition GetDMABufferPA_F2H :: "csr_env \<Rightarrow> u64 csr" where
  "GetDMABufferPA_F2H E = GetDMABufferPA E PCHNL_GET_F2H_BUFFER_PA"

definition TranslateV2P :: "csr_env \<Rightarrow> u64 \<Rightarrow> u64 csr" where
  "TranslateV2P E virtual_address =
     (let req = c_stack E; pa = c_stack E + 40; va = c_stack E + 48 in
      andThen (user_store va (le_bytes 8 virtual_address))
      (andThen (user_store req (le_bytes 8 va @ le_bytes 8 pa))
      (bind (csr_ioctl E PCHNL_TRANSLATE_V2P req) (\<lambda>_. user_load64 pa))))"

section \<open>The mapped registers\<close>

definition CSR_page :: "pchnl_device \<Rightarrow> u64" where
  "CSR_page d = ucast (drop_bit 12 (lo32 (io_base d)))"

definition pointers_at :: "csr_env \<Rightarrow> pchnl_device \<Rightarrow> csr_dev \<Rightarrow> bool" where
  "pointers_at E d w \<longleftrightarrow> mapping w = Some (c_map E, CSR_page d, CSR_REGION_SIZE) \<and> live (drv w) d \<and> systemCSR_Write w = c_map E
     \<and> systemCSR_Read w = c_map E + 4 \<and> commonCSRs w = c_map E + 4096 \<and> dmaBuffer_H2F w = c_map E + CSR_REGION_SIZE
     \<and> dmaBuffer_F2H w = c_map E + (CSR_REGION_SIZE + of_nat BUF_SIZE)"

text \<open>A BAR of pages below 4 GB with room for the registers; and a mapping of it.\<close>

definition low_bar :: "pchnl_device \<Rightarrow> csr_dev \<Rightarrow> bool" where
  "low_bar d w \<longleftrightarrow> io_base d < 2 ^ 32 \<and> io_base d AND 0xFFF = 0 \<and> CSR_REGION_SIZE \<le> bar_len w"

definition mapped_at :: "csr_env \<Rightarrow> pchnl_device \<Rightarrow> csr_dev \<Rightarrow> bool" where
  "mapped_at E d w \<longleftrightarrow> pointers_at E d w \<and> low_bar d w"

lemma low_bit:
  fixes x :: u64
  assumes "x < 2 ^ 32" "32 \<le> n"
  shows "\<not> bit x n"
proof
  assume "bit x n"
  then have "bit (unat x) n" by (simp add: bit_unsigned_iff)
  then have "2 ^ n \<le> unat x" by (metis bit_nat_iff div_less even_zero linorder_not_less bit_iff_odd)
  moreover have "unat x < 2 ^ 32" using assms(1) by (simp add: word_less_nat_alt)
  moreover have "(2 :: nat) ^ 32 \<le> 2 ^ n" using assms(2) by (intro power_increasing) simp_all
  ultimately show False by linarith
qed

lemma CSR_page_low:
  assumes "low_bar d w"
  shows "push_bit 12 (CSR_page d) = io_base d"
proof -
  have "\<not> bit (io_base d) n" if "n < 12" for n
  proof -
    have "\<not> bit (io_base d AND 0xFFF) n" using assms by (simp add: low_bar_def)
    moreover have "(0xFFF :: u64) = mask 12" by (simp add: mask_eq_exp_minus_1)
    then have "bit (0xFFF :: u64) n" using that by (simp only: bit_mask_iff) simp
    ultimately show ?thesis by (simp add: bit_and_iff)
  qed
  moreover have "\<not> bit (io_base d) n" if "32 \<le> n" for n using low_bit [OF _ that] assms by (simp add: low_bar_def)
  ultimately have "12 \<le> n \<and> n < 32" if "bit (io_base d) n" for n using that by (meson not_le)
  then have "12 \<le> n \<and> n - 12 < 20" if "bit (io_base d) n" for n using that by fastforce
  then show ?thesis
    by (intro bit_word_eqI) (auto simp: CSR_page_def lo32_def bit_push_bit_iff bit_unsigned_iff bit_drop_bit_eq)
qed

definition can_start :: "csr_env \<Rightarrow> csr_dev \<Rightarrow> pchnl_device \<Rightarrow> bool" where
  "can_start E w d \<longleftrightarrow> \<not> did_init w \<and> live (drv w) d \<and> 0 \<le> c_fd E
     \<and> (\<exists>g. gpchnl_drv (drv w) = Some g \<and> c_node E (if c_dev_path E = [] then ''/dev/pchnl'' else c_dev_path E) = Some (miscdev_minor g))"

lemmas command_numbers = PCHNL_RESET_def PCHNL_CSR_READ_def PCHNL_CSR_WRITE_def PCHNL_CSR_TESTER_def
  PCHNL_SYS_CSR_WRITE_def PCHNL_SYS_CSR_READ_def PCHNL_INTR_TESTER_def PCHNL_DMA_H2F_def PCHNL_DMA_F2H_def
  PCHNL_SET_INTR_REG_def PCHNL_DMA_DUPLEX_def PCHNL_TRANSLATE_V2P_def PCHNL_GET_H2F_BUFFER_PA_def
  PCHNL_GET_F2H_BUFFER_PA_def pchnl_iow_def pchnl_ior_def

lemma open_driver_run:
  assumes "can_start E w d"
  shows "open_driver E w = (Inr (c_fd E), w\<lparr>open_fds := insert (c_fd E) (open_fds w)\<rparr>)"
  using assms by (auto simp: can_start_def open_driver_def in_pchnl_def pchnl_open_def the_drv_def bind_def andThen_def)

lemma map_driver_run:
  assumes "live (drv w) d"
  shows "map_driver E w =
    (if e_remap (c_kernel E) (c_map E) (CSR_page d) CSR_REGION_SIZE < 0 then (Inr MAP_FAILED, w)
     else (Inr (c_map E), w\<lparr>mapping := Some (c_map E, CSR_page d, CSR_REGION_SIZE)\<rparr>))"
  using the_dev_run [OF assms] by (simp add: map_driver_def in_pchnl_def pchnl_mmap_def CSR_page_def bind_def andThen_def Let_def)

lemma fpga_reset_run:
  assumes "driverFD w \<in> open_fds w" "live (drv w) d"
  shows "ResetFPGA E w = (Inr (), w\<lparr>drv := (drv w)\<lparr>writes := writes (drv w) @ [(hw_addr d + 12, 0xffffffff)]\<rparr>\<rparr>)"
proof -
  have "pchnl_command E' PCHNL_RESET 0 req = andThen (writel 0xffffffff 12) (ret 0)" for E' req
    by (simp add: pchnl_command_def command_numbers)
  then show ?thesis
    using assms writel_run [OF assms(2)]
    by (simp add: ResetFPGA_def csr_ioctl_def in_pchnl_def pchnl_ioctl_def fetch_req_def bind_def andThen_def)
qed

lemma csr_Init_run:
  assumes "can_start E w d"
  shows "\<exists>w'. csr_Init E w = (Inr (), w') \<and> drv w' = (drv w)\<lparr>writes := writes (drv w) @ [(hw_addr d + 12, 0xffffffff)]\<rparr>
    \<and> driverFD w' = c_fd E \<and> bar_len w' = bar_len w \<and> stray w' = stray w \<and> open_fds w' = insert (c_fd E) (open_fds w) \<and>
    (if e_remap (c_kernel E) (c_map E) (CSR_page d) CSR_REGION_SIZE < 0
     then mapping w' = mapping w \<and> systemCSR_Write w' = MAP_FAILED else pointers_at E d w')"
proof -
  have live: "live (drv w) d" and fd: "\<not> c_fd E < 0" and di: "\<not> did_init w" using assms by (auto simp: can_start_def)
  let ?w0 = "w\<lparr>did_init := True\<rparr>"
  let ?w1 = "?w0\<lparr>open_fds := insert (c_fd E) (open_fds w)\<rparr>"
  let ?w2 = "?w1\<lparr>driverFD := c_fd E\<rparr>"
  have o: "open_driver E ?w0 = (Inr (c_fd E), ?w1)"
    using assms by (auto simp: can_start_def open_driver_def in_pchnl_def pchnl_open_def the_drv_def bind_def andThen_def)
  note m = map_driver_run [of ?w2 d E, simplified, OF live]
  show ?thesis
    using di fd live
    by (auto simp: csr_Init_def andThen_def bind_def o m fpga_reset_run [of _ d] pointers_at_def SYS_CSR_BASE_OFFSET_def COMM_CSR_BASE_OFFSET_def
        MAP_FAILED_def)
qed

lemma store32_run:
  assumes "mapped_at E d w" "off \<le> CSR_REGION_SIZE - 4"
  shows "store32 (c_map E + off) v w = (Inr (), w\<lparr>drv := (drv w)\<lparr>writes := writes (drv w) @ [(hw_addr d + off, v)]\<rparr>\<rparr>)"
proof -
  have live: "live (drv w) d" and low: "low_bar d w" using assms(1) by (simp_all add: mapped_at_def pointers_at_def)
  have pa: "physical_at (c_map E + off) w = Some (io_base d + off)"
    using assms by (simp add: physical_at_def mapped_at_def pointers_at_def CSR_page_low [OF low])
  have "CSR_REGION_SIZE - 4 \<le> bar_len w - 4"
    using low by (simp add: low_bar_def CSR_REGION_SIZE_def) uint_arith
  then have "in_bar (io_base d + off) w d" using assms(2) by (simp add: in_bar_def)
  then show ?thesis
    using pa the_dev_run [OF live] writel_run [OF live] by (simp add: store32_def in_pchnl_def bind_def)
qed

text \<open>A store through a mapping of a BAR above 4 GB.\<close>

lemma store32_stray:
  assumes "pointers_at E d w" "2 ^ 32 \<le> unat (io_base d)" "unat (io_base d) + unat (bar_len w) \<le> 2 ^ 64" "4 \<le> unat (bar_len w)"
    and "off \<le> CSR_REGION_SIZE - 4"
  shows "store32 (c_map E + off) v w = (Inr (), w\<lparr>stray := stray w @ [(push_bit 12 (CSR_page d) + off, v)]\<rparr>)"
proof -
  have live: "live (drv w) d" using assms(1) by (simp add: pointers_at_def)
  let ?pa = "push_bit 12 (CSR_page d) + off"
  have pa: "physical_at (c_map E + off) w = Some ?pa"
    using assms(1,5) by (simp add: physical_at_def pointers_at_def)
  have off: "unat off \<le> 8188" using assms(5) by (simp add: CSR_REGION_SIZE_def word_le_nat_alt)
  define lo where "lo = unat (io_base d) mod 2 ^ 32"
  have "unat (lo32 (io_base d)) = lo" by (simp add: lo32_def lo_def unsigned_ucast_eq take_bit_eq_mod)
  then have "unat (drop_bit 12 (lo32 (io_base d))) = lo div 4096" by (simp add: drop_bit_eq_div unat_div_distrib)
  moreover have "lo div 4096 < 2 ^ 64" by (simp add: lo_def less_mult_imp_div_less)
  ultimately have page: "unat (CSR_page d) = lo div 4096"
    by (simp add: CSR_page_def unsigned_ucast_eq take_bit_nat_eq_self)
  have "lo div 4096 < 2 ^ 20" by (simp add: lo_def less_mult_imp_div_less)
  then have "unat (push_bit 12 (CSR_page d)) = 4096 * (lo div 4096)"
    by (simp add: push_bit_eq_mult unat_word_ariths page)
  moreover have "4096 * (lo div 4096) \<le> lo" by simp
  moreover have lo: "lo + 2 ^ 32 \<le> unat (io_base d)"
  proof -
    have "lo = (unat (io_base d) - 2 ^ 32) mod 2 ^ 32" unfolding lo_def using assms(2) by (rule le_mod_geq)
    then have "lo \<le> unat (io_base d) - 2 ^ 32" by (simp only: mod_less_eq_dividend)
    with assms(2) show ?thesis by linarith
  qed
  moreover have "lo < 2 ^ 32" by (simp add: lo_def)
  ultimately have "unat ?pa < unat (io_base d)" "unat ?pa \<le> lo + 8188"
    using off by (simp_all add: unat_word_ariths)
  then have "unat (?pa - io_base d) = 2 ^ 64 + unat ?pa - unat (io_base d)"
    by (simp add: unat_sub_if' word_le_nat_alt)
  moreover have "unat (bar_len w - 4) = unat (bar_len w) - 4" using assms(4) by (simp add: unat_sub_if' word_le_nat_alt)
  ultimately have "unat (bar_len w - 4) < unat (?pa - io_base d)"
    using assms(3,4) \<open>unat ?pa < unat (io_base d)\<close> by linarith
  then have "\<not> in_bar ?pa w d" by (simp add: in_bar_def word_le_nat_alt)
  then show ?thesis
    using pa the_dev_run [OF live] by (simp add: store32_def in_pchnl_def bind_def modify_def)
qed

lemma index_inside: "4096 + 4 * ucast (i :: u8) \<le> CSR_REGION_SIZE - 4" "ucast (ucast i :: u32) = (ucast i :: u64)"
    "ucast (ucast i * 4 + COMM_CSR_BASE_OFFSET) = 4096 + 4 * (ucast i :: u64)"
proof -
  have i: "unat i < 256" using unsigned_less [of i, where 'a = nat] by simp
  then show "4096 + 4 * ucast i \<le> CSR_REGION_SIZE - 4"
    by (simp add: word_le_nat_alt unat_word_ariths CSR_REGION_SIZE_def unsigned_ucast_eq take_bit_nat_eq_self)
  show 1: "ucast (ucast i :: u32) = (ucast i :: u64)"
    by (rule bit_word_eqI) (auto simp: bit_unsigned_iff dest: bit_imp_le_length)
  show "ucast (ucast i * 4 + COMM_CSR_BASE_OFFSET) = 4096 + 4 * (ucast i :: u64)"
    using i by (intro unsigned_word_eqI [where 'a = nat]) (simp add: unat_word_ariths unsigned_ucast_eq take_bit_nat_eq_self COMM_CSR_BASE_OFFSET_def)
qed

text \<open>
  C31. After a start on a driver that has a device whose BAR lies below 4 GB, is made of whole pages and has
  room for the registers, a store to a register through the mapping does to the driver's device what the
  driver's own command does, for the system register and all 256 others; the two DMA buffers, whose
  addresses the device hands out, are not mapped.
\<close>

theorem mapped_registers:
  assumes "can_start E w d" "0 \<le> e_remap (c_kernel E) (c_map E) (CSR_page d) CSR_REGION_SIZE" and low: "low_bar d w"
  shows "\<exists>w'. csr_Init E w = (Inr (), w')
    \<and> drv w' = (drv w)\<lparr>writes := writes (drv w) @ [(hw_addr d + 12, 0xffffffff)]\<rparr>
    \<and> WriteCommonCSR i v w' = (Inr (), w'\<lparr>drv := snd (csr_write [push_bit 32 (ucast v) OR ucast i] (drv w'))\<rparr>)
    \<and> WriteSystemCSR v w' = (Inr (), w'\<lparr>drv := snd (sys_csr_write [ucast v] (drv w'))\<rparr>)
    \<and> load32 E (GetDMABuffer_H2F w') w' = (Inl (C_Fault (GetDMABuffer_H2F w')), w')
    \<and> load32 E (GetDMABuffer_F2H w') w' = (Inl (C_Fault (GetDMABuffer_F2H w')), w')"
proof -
  from csr_Init_run [OF assms(1)] assms(2) obtain w' where w': "csr_Init E w = (Inr (), w')" "pointers_at E d w'"
    "drv w' = (drv w)\<lparr>writes := writes (drv w) @ [(hw_addr d + 12, 0xffffffff)]\<rparr>" "bar_len w' = bar_len w" by auto
  with low have at: "mapped_at E d w'" by (simp add: mapped_at_def low_bar_def)
  have live: "live (drv w') d" using w'(2) by (simp add: pointers_at_def)
  have "\<not> bit i (32 + n)" for n using bit_imp_le_length [of i "32 + n"] by auto
  then have parts: "lo32 (push_bit 32 (ucast v) OR ucast i) = ucast i" "hi32 (push_bit 32 (ucast v) OR ucast i) = v" "lo32 (ucast v) = v"
    by (auto intro!: bit_word_eqI simp: lo32_def hi32_def bit_unsigned_iff bit_or_iff bit_push_bit_iff bit_drop_bit_eq dest: bit_imp_le_length)
  have "csr_write [push_bit 32 (ucast v) OR ucast i] (drv w') =
      (Inr 0, (drv w')\<lparr>writes := writes (drv w') @ [(hw_addr d + (4096 + 4 * ucast i), v)]\<rparr>)"
    "sys_csr_write [ucast v] (drv w') = (Inr 0, (drv w')\<lparr>writes := writes (drv w') @ [(hw_addr d, v)]\<rparr>)"
    using writel_run [OF live] by (simp_all add: csr_write_def sys_csr_write_def andThen_def bind_def parts index_inside(3) SYS_CSR_BASE_OFFSET_def)
  moreover have "WriteCommonCSR i v w' = store32 (c_map E + (4096 + 4 * ucast i)) v w'" "WriteSystemCSR v w' = store32 (c_map E + 0) v w'"
    using w'(2) by (simp_all add: WriteCommonCSR_def WriteSystemCSR_def pointers_at_def add.assoc)
  ultimately have "WriteCommonCSR i v w' = (Inr (), w'\<lparr>drv := snd (csr_write [push_bit 32 (ucast v) OR ucast i] (drv w'))\<rparr>)"
    "WriteSystemCSR v w' = (Inr (), w'\<lparr>drv := snd (sys_csr_write [ucast v] (drv w'))\<rparr>)"
    using store32_run [OF at index_inside(1), of i v] store32_run [OF at, of 0 v] by (simp_all add: CSR_REGION_SIZE_def)
  moreover have "load32 E (GetDMABuffer_H2F w') w' = (Inl (C_Fault (GetDMABuffer_H2F w')), w')"
    "load32 E (GetDMABuffer_F2H w') w' = (Inl (C_Fault (GetDMABuffer_F2H w')), w')"
    using w'(2) by (simp_all add: load32_def physical_at_def pointers_at_def GetDMABuffer_H2F_def GetDMABuffer_F2H_def CSR_REGION_SIZE_def BUF_SIZE_def)
  ultimately show ?thesis using w'(1,3) by blast
qed

text \<open>
  When the BAR lies above 4 GB the driver still reaches the board through its own mapping, but the address it
  maps into the program is cut: the program starts, and its stores go to other physical memory.
\<close>

theorem high_bar_misses_board:
  assumes "can_start E w d" "0 \<le> e_remap (c_kernel E) (c_map E) (CSR_page d) CSR_REGION_SIZE"
    and "2 ^ 32 \<le> unat (io_base d)" "unat (io_base d) + unat (bar_len w) \<le> 2 ^ 64" "4 \<le> unat (bar_len w)"
  shows "\<exists>w'. csr_Init E w = (Inr (), w')
    \<and> drv w' = (drv w)\<lparr>writes := writes (drv w) @ [(hw_addr d + 12, 0xffffffff)]\<rparr>
    \<and> WriteSystemCSR v w' = (Inr (), w'\<lparr>stray := stray w @ [(push_bit 12 (CSR_page d), v)]\<rparr>)
    \<and> WriteCommonCSR i v w' = (Inr (), w'\<lparr>stray := stray w @ [(push_bit 12 (CSR_page d) + (4096 + 4 * ucast i), v)]\<rparr>)"
proof -
  from csr_Init_run [OF assms(1)] assms(2) obtain w' where w': "csr_Init E w = (Inr (), w')" "pointers_at E d w'"
    "drv w' = (drv w)\<lparr>writes := writes (drv w) @ [(hw_addr d + 12, 0xffffffff)]\<rparr>" "bar_len w' = bar_len w" "stray w' = stray w" by auto
  note stray = store32_stray [OF w'(2) assms(3), unfolded w'(4,5), OF assms(4,5)]
  have "WriteCommonCSR i v w' = store32 (c_map E + (4096 + 4 * ucast i)) v w'" "WriteSystemCSR v w' = store32 (c_map E + 0) v w'"
    using w'(2) by (simp_all add: WriteCommonCSR_def WriteSystemCSR_def pointers_at_def add.assoc)
  with stray [OF index_inside(1), of i v] stray [of 0 v] w'(1,3) show ?thesis by (simp add: CSR_REGION_SIZE_def)
qed

text \<open>A mapping that fails is not noticed; the first access to a register faults.\<close>

theorem failed_map_unnoticed:
  assumes "can_start E w d" "e_remap (c_kernel E) (c_map E) (CSR_page d) CSR_REGION_SIZE < 0" "mapping w = None"
  shows "\<exists>w'. csr_Init E w = (Inr (), w') \<and> WriteSystemCSR v w' = (Inl (C_Fault MAP_FAILED), w')"
proof -
  from csr_Init_run [OF assms(1)] assms(2,3) obtain w' where "csr_Init E w = (Inr (), w')" "mapping w' = None"
    "systemCSR_Write w' = MAP_FAILED" by auto
  then show ?thesis by (simp add: WriteSystemCSR_def store32_def physical_at_def)
qed

section \<open>Addresses for the FPGA\<close>

lemma user_bytes_map:
  "(\<forall>k < n. m (a + of_nat k) \<noteq> None) \<Longrightarrow> user_bytes m a n = map (\<lambda>k. the (m (a + of_nat k))) [0..<n]"
proof (induction n arbitrary: a)
  case (Suc n)
  have 0: "m a \<noteq> None" using Suc.prems [rule_format, of 0] by simp
  have shift: "a + of_nat (Suc k) = a + 1 + of_nat k" for k by simp
  have "\<forall>k < n. m (a + 1 + of_nat k) \<noteq> None" using Suc.prems unfolding shift [symmetric] by (simp del: of_nat_Suc)
  from Suc.IH [OF this] have "user_bytes m a (Suc n) = the (m a) # map (\<lambda>k. the (m (a + of_nat (Suc k)))) [0..<n]"
    unfolding shift using 0 by auto
  moreover have "[0..<Suc n] = 0 # map Suc [0..<n]" by (simp only: map_Suc_upt upt_conv_Cons zero_less_Suc)
  ultimately show ?case by (simp del: upt_Suc of_nat_Suc)
qed simp

lemma user_bytes_stored:
  assumes "length bs < 2 ^ 32"
  shows "user_bytes (\<lambda>x. if unat (x - a) < length bs then Some (bs ! unat (x - a)) else m x) a (length bs) = bs"
proof -
  have "unat (a + of_nat k - a) = k" if "k < length bs" for k using assms that by (simp add: unat_of_nat take_bit_nat_eq_self)
  then show ?thesis by (subst user_bytes_map) (auto intro!: nth_equalityI simp del: add_diff_cancel_left')
qed

lemma to_user_all:
  assumes "\<forall>k < length bs. umem s (a + of_nat k) \<noteq> None"
  shows "to_user a bs s = (Inr 0, s\<lparr>umem := (\<lambda>x. if unat (x - a) < length bs then Some (bs ! unat (x - a)) else umem s x)\<rparr>)"
  using user_bytes_map [OF assms] by (simp add: to_user_def Let_def)

definition stack_ok :: "csr_env \<Rightarrow> csr_dev \<Rightarrow> bool" where
  "stack_ok E w \<longleftrightarrow> c_stack E \<noteq> 0 \<and> (\<forall>k < 48. umem (drv w) (c_stack E + of_nat k) \<noteq> None)"

text \<open>The request the driver finds.\<close>

lemma fetch_stored:
  assumes "\<forall>k < 40. umem s (a + of_nat k) \<noteq> None" "a \<noteq> 0"
    "umem s = (\<lambda>x. if unat (x - a) < 8 then Some (le_bytes 8 (pa :: u64) ! unat (x - a)) else m x)"
  shows "\<exists>req. fetch_req junk a s = (Inr (Some req), s) \<and> req ! 0 = pa"
proof -
  have all: "user_bytes (umem s) a 40 = map (\<lambda>k. the (umem s (a + of_nat k))) [0..<40]" by (rule user_bytes_map [OF assms(1)])
  have "user_bytes (umem s) a 8 = map (\<lambda>k. the (umem s (a + of_nat k))) [0..<8]" using assms(1) by (intro user_bytes_map) simp
  moreover have "user_bytes (umem s) a 8 = le_bytes 8 pa" using user_bytes_stored [of "le_bytes 8 pa" a m] assms(3) by simp
  ultimately have "take 8 (user_bytes (umem s) a 40) = le_bytes 8 pa" using all by (simp add: take_map)
  then have "req_of_bytes (user_bytes (umem s) a 40) ! 0 = pa" by (simp add: req_of_bytes_def le_word_bytes)
  then show ?thesis using all assms(2) by (auto simp: fetch_req_def from_user_def bind_def Let_def)
qed

text \<open>
  The device hands out the physical address of each DMA buffer that the driver allocated, although
  the ioctl that writes it ends with an error, which nobody looks at.
\<close>

theorem buffer_addresses:
  assumes "live (drv w) d" "driverFD w \<in> open_fds w" "stack_ok E w"
  shows "(\<exists>w'. GetDMABufferPA_H2F E w = (Inr (e_pa (c_kernel E) (dma_h2fp d)), w'))
    \<and> (\<exists>w'. GetDMABufferPA_F2H E w = (Inr (e_pa (c_kernel E) (dma_f2hp d)), w'))"
proof -
  have run: "\<exists>w'. GetDMABufferPA E cmd w = (Inr (e_pa (c_kernel E) (which d)), w')"
    if cmd: "\<And>arg req. pchnl_command (c_kernel E) cmd arg req = get_buffer_pa which (c_kernel E) req" for cmd which
  proof -
    let ?a = "c_stack E" let ?pa = "c_stack E + 40"
    let ?s1 = "(drv w)\<lparr>umem := (\<lambda>x. if unat (x - ?a) < 8 then Some (le_bytes 8 ?pa ! unat (x - ?a)) else umem (drv w) x)\<rparr>"
    have ok: "\<forall>k < 48. umem ?s1 (?a + of_nat k) \<noteq> None" using assms(3) by (simp add: stack_ok_def)
    then have "\<forall>k < 40. umem ?s1 (?a + of_nat k) \<noteq> None" by simp
    from fetch_stored [of ?s1 ?a ?pa "umem (drv w)" "c_junk E", OF this] assms(3) obtain req
      where req: "fetch_req (c_junk E) ?a ?s1 = (Inr (Some req), ?s1)" "req ! 0 = ?pa" by (auto simp: stack_ok_def)
    have "\<forall>k < 8. umem ?s1 (?pa + of_nat k) \<noteq> None"
    proof (intro allI impI)
      fix k :: nat assume "k < 8"
      then have "40 + k < 48" by simp
      then have "umem ?s1 (?a + of_nat (40 + k)) \<noteq> None" using ok by blast
      then show "umem ?s1 (?pa + of_nat k) \<noteq> None" by (simp only: of_nat_add of_nat_numeral add.assoc simp_thms)
    qed
    then have out: "to_user ?pa (le_bytes 8 v) ?s1 = (Inr 0, ?s1\<lparr>umem := (\<lambda>x. if unat (x - ?pa) < 8
        then Some (le_bytes 8 v ! unat (x - ?pa)) else umem ?s1 x)\<rparr>)" for v :: u64
      using to_user_all [of "le_bytes 8 v" ?s1 ?pa] by simp
    have live: "live ?s1 d" using assms(1) by simp
    let ?v = "e_pa (c_kernel E) (which d)"
    have "pchnl_ioctl (c_kernel E) (c_junk E) cmd ?a ?s1 =
      (Inr (- 22), ?s1\<lparr>umem := (\<lambda>x. if unat (x - ?pa) < 8 then Some (le_bytes 8 ?v ! unat (x - ?pa)) else umem ?s1 x)\<rparr>)"
      using req by (simp add: pchnl_ioctl_def bind_def cmd get_buffer_pa_def the_dev_run [OF live] out)
    then show ?thesis
      using assms(2) user_bytes_stored [of "le_bytes 8 ?v" ?pa "umem ?s1"]
      by (simp add: GetDMABufferPA_def user_store_def andThen_def bind_def csr_ioctl_def in_pchnl_def user_load64_def Let_def le_word_bytes)
  qed
  have "pchnl_command (c_kernel E) PCHNL_GET_H2F_BUFFER_PA arg req = get_buffer_pa dma_h2fp (c_kernel E) req"
    "pchnl_command (c_kernel E) PCHNL_GET_F2H_BUFFER_PA arg req = get_buffer_pa dma_f2hp (c_kernel E) req" for arg req
    by (simp_all add: pchnl_command_def command_numbers)
  with run show ?thesis unfolding GetDMABufferPA_H2F_def GetDMABufferPA_F2H_def by blast
qed

section \<open>Examples\<close>

definition csr_env0 :: csr_env where
  "csr_env0 = \<lparr>c_kernel = penv0, c_node = (\<lambda>p. if p = ''/dev/pchnl'' then Some 60 else None), c_fd = 3, c_map = 0x100000,
     c_dev_path = [], c_stack = 0x5000, c_junk = [0, 0, 0, 0, 0], c_elsewhere = (\<lambda>_. 0)\<rparr>"

definition refusing_env :: csr_env where
  "refusing_env = csr_env0\<lparr>c_kernel := penv0\<lparr>e_remap := \<lambda>_ _ _. - 12\<rparr>\<rparr>"

definition csr_dev0 :: csr_dev where "csr_dev0 = csr_construct pchnl_probed 0x2000 0 {} False"

definition probed0 :: pchnl_device where
  "probed0 = \<lparr>pdev = 0, hw_addr = 0x10000, io_base = 0xf0000000, dma_h2fp = 0x10000000, h2f_pg_base = 1, f2h_pg_base = 2, dma_f2hp = 0x20000000\<rparr>"

lemma probed_minor: "\<exists>g. gpchnl_drv pchnl_probed = Some g \<and> miscdev_minor g = 60"
  by (simp add: pchnl_probed_def pchnl_loaded_def pchnl_run_defs penv0_def pchnl_boot_def)

lemma csr0_starts: "can_start csr_env0 csr_dev0 probed0" "can_start refusing_env csr_dev0 probed0"
  using probed_minor pchnl_probed_example(2)
  by (auto simp: can_start_def csr_env0_def refusing_env_def csr_dev0_def csr_construct_def probed0_def)

lemma mapped_registers_witness:
  "\<exists>w'. csr_Init csr_env0 csr_dev0 = (Inr (), w')
    \<and> WriteCommonCSR 200 9 w' = (Inr (), w'\<lparr>drv := snd (csr_write [push_bit 32 9 OR 200] (drv w'))\<rparr>)
    \<and> load32 csr_env0 (GetDMABuffer_H2F w') w' = (Inl (C_Fault (GetDMABuffer_H2F w')), w')"
proof -
  have "low_bar probed0 csr_dev0" by (simp add: low_bar_def probed0_def csr_dev0_def csr_construct_def CSR_REGION_SIZE_def)
  from mapped_registers [OF csr0_starts(1) _ this, of 200 9] show ?thesis by (auto simp: csr_env0_def penv0_def)
qed

text \<open>A board whose BAR starts at 4 GB and 64 KB: the program writes to the physical address 64 KB.\<close>

definition high_probed :: pchnl_device where "high_probed = probed0\<lparr>io_base := 0x100010000\<rparr>"

definition high_dev0 :: csr_dev where
  "high_dev0 = csr_dev0\<lparr>drv := pchnl_probed\<lparr>dev_heap := (dev_heap pchnl_probed)(the (gpchnl_dev pchnl_probed) := Some high_probed)\<rparr>\<rparr>"

lemma high_bar_misses_board_witness:
  "\<exists>w'. csr_Init csr_env0 high_dev0 = (Inr (), w') \<and> WriteSystemCSR 7 w' = (Inr (), w'\<lparr>stray := [(0x10000, 7)]\<rparr>)"
proof -
  have "can_start csr_env0 high_dev0 high_probed"
    using csr0_starts(1) by (auto simp: can_start_def high_dev0_def live_def csr_dev0_def csr_construct_def)
  then show ?thesis
    using high_bar_misses_board [of csr_env0 high_dev0 high_probed 7]
    by (auto simp: csr_env0_def penv0_def high_probed_def high_dev0_def csr_dev0_def csr_construct_def CSR_page_def lo32_def)
qed

lemma failed_map_unnoticed_witness:
  "\<exists>w'. csr_Init refusing_env csr_dev0 = (Inr (), w') \<and> WriteSystemCSR 1 w' = (Inl (C_Fault MAP_FAILED), w')"
  using failed_map_unnoticed [OF csr0_starts(2), of 1] by (auto simp: refusing_env_def csr_dev0_def csr_construct_def)

lemma buffer_addresses_witness:
  "(\<exists>w'. GetDMABufferPA_H2F csr_env0 (csr_dev0\<lparr>driverFD := 3, open_fds := {3}\<rparr>) = (Inr 0x10001000, w'))
    \<and> (\<exists>w'. GetDMABufferPA_F2H csr_env0 (csr_dev0\<lparr>driverFD := 3, open_fds := {3}\<rparr>) = (Inr 0x20001000, w'))"
proof -
  have "live (drv csr_dev0) probed0" using pchnl_probed_example(2) by (simp add: csr_dev0_def csr_construct_def probed0_def)
  moreover have "stack_ok csr_env0 (csr_dev0\<lparr>driverFD := 3, open_fds := {3}\<rparr>)"
    using pchnl_probed_example(5) by (simp add: stack_ok_def csr_env0_def csr_dev0_def csr_construct_def)
  ultimately show ?thesis
    using buffer_addresses [of "csr_dev0\<lparr>driverFD := 3, open_fds := {3}\<rparr>" probed0 csr_env0] by (simp add: csr_env0_def penv0_def probed0_def)
qed

section \<open>Other operations\<close>

text \<open>The byte swap is the one of the driver.\<close>

lemma swapEndian_big_endian: "swapEndian = big_endian"
  by (simp add: fun_eq_iff swapEndian_def big_endian_def)

text \<open>
  Cleaning up closes the descriptor and keeps the registers mapped, so that stores still reach the
  board; a device that was never initialised closes whatever descriptor its memory held.
\<close>

lemma cleanup_keeps_mapping:
  assumes "mapped_at E d w" "c_map E \<noteq> 0"
  shows "\<exists>w'. csr_Cleanup w = (Inr (), w') \<and> driverFD w \<notin> open_fds w' \<and> mapped_at E d w'"
  using assms by (auto simp: csr_Cleanup_def mapped_at_def pointers_at_def low_bar_def)

lemma cleanup_closes_junk: "csr_Cleanup (csr_construct k len junk fds b) = (Inr (), (csr_construct k len junk fds b)\<lparr>open_fds := fds - {junk}\<rparr>)"
  by (simp add: csr_Cleanup_def csr_construct_def)

end
