(* ===== verification/Htg_Debugger.thy ===== *)
theory Htg_Debugger
  imports Leap_Prelude C_Library Htg_Device
begin

text \<open>
  \<^verbatim>\<open>debuggers/htg-virtex5/htg-debugger.cpp\<close>: the console that reads and writes registers of the board
  before a program starts. Its input and its output are texts; a command line is split by
  \<^verbatim>\<open>strtok\<close>.
\<close>

section \<open>State and output\<close>

text \<open>
  The device, the number of the last instruction, the C string in the line buffer, which holds
  anything before the first line, what is left of the input, the output.
\<close>

record debugger =
  dev :: csr_dev
  iid :: u32
  cmdline :: string
  stdin :: string
  screen :: string

type_synonym 'a dbg = "(debugger, csr_stop, 'a) prog"

definition on_dev :: "'a csr \<Rightarrow> 'a dbg" where
  "on_dev p = (\<lambda>w. case p (dev w) of (r, v) \<Rightarrow> (r, w\<lparr>dev := v\<rparr>))"

definition printf :: "string \<Rightarrow> unit dbg" where
  "printf s = modify (\<lambda>w. w\<lparr>screen := screen w @ s\<rparr>)"

definition lines_text :: "string list \<Rightarrow> string" where
  "lines_text ls = concat (map (\<lambda>l. l @ [NL]) ls)"

text \<open>The formats \<^verbatim>\<open>%8X\<close>, \<^verbatim>\<open>%3u\<close> and \<^verbatim>\<open>%u\<close>.\<close>

fun hex_upper :: "nat \<Rightarrow> string" where
  "hex_upper n = (if n < 16 then [hex_digit n] else hex_upper (n div 16) @ [hex_digit (n mod 16)])"

declare hex_upper.simps [simp del]

definition pad :: "nat \<Rightarrow> string \<Rightarrow> string" where
  "pad n s = replicate (n - length s) (CHR '' '') @ s"

definition show_u :: "u32 \<Rightarrow> string" where "show_u v = show_nat (unat v)"

section \<open>Help\<close>

definition PrintHelp_Help :: "unit dbg" where
  "PrintHelp_Help = printf (lines_text [[], ''    help topics: commands csr inst '', []])"

definition PrintHelp_Inst :: "unit dbg" where
  "PrintHelp_Inst = printf (lines_text
     [[],
      ''===== 24-bit Instruction Format ====='',
      [],
      ''    field:   [OPCODE]  [INDEX] [IMMEDIATE]'',
      ''    bits :    23-16     15-8      7-0'',
      [],
      ''    opcode 10: NOP'',
      ''           11: LEDs         := immediate'',
      ''           12: LEDs         := buffer_'',
      ''           14: buffer_      := immediate'',
      ''           15: buffer       := buffer << 8'',
      ''           16: buffer       := CSR[index]'',
      ''           17: CSR[index]   := buffer'',
      ''           18: CSR[index]_  := imediate'',
      ''           19: CSR[index : index+imm-1] := buffer : buffer+index-1'',
      ''           1A: CSR[sys]     := buffer'',
      ''           20: CSR[sys]     := DRAM[index]_'',
      ''           21: DRAM[index]_ := imm'',
      []])"

definition PrintHelp_CSR :: "unit dbg" where
  "PrintHelp_CSR = printf (lines_text
     [[],
      ''======== Special CSRs ========'',
      [],
      ''    F2H_TAIL        246    0xF6'',
      ''    F2H_HEAD        247    0xF7    (owner)'',
      ''    H2F_TAIL        248    0xF8    (owner)'',
      ''    H2F_HEAD        249    0xF9'',
      [],
      ''    F2H_BUF_START   123    0x7B'',
      ''    F2H_BUF_END     244    0xF4'',
      ''    H2F_BUF_START     1    0x01'',
      ''    H2F_BUF_END     122    0x7A'',
      []])"

definition PrintHelp_Commands :: "unit dbg" where
  "PrintHelp_Commands = printf (lines_text
     [[],
      ''========== Commands =========='',
      [],
      ''    run'',
      ''    help   <topic>'',
      ''    read   <index>'',
      ''    write  <index> <data>'',
      ''    exec   <inst>'',
      ''    reset'',
      ''    quit'',
      []])"

text \<open>The status printers, whose command is switched off. A field is some bits of the status.\<close>

definition field :: "string \<Rightarrow> nat \<Rightarrow> u32 \<Rightarrow> u32 \<Rightarrow> string" where
  "field label k m status = label @ show_u (drop_bit k status AND m)"

definition PrintStatus_Flags :: "u32 \<Rightarrow> unit dbg" where
  "PrintStatus_Flags status = printf (lines_text
     [[], ''========== status: flags ========='', [],
      field ''    h2f empty = '' 0 1 status,
      field ''    h2f full  = '' 1 1 status,
      field ''    f2h empty = '' 2 1 status,
      field ''    f2h full  = '' 3 1 status,
      [],
      field ''    h2f head dirty = '' 4 1 status,
      field ''    h2f tail valid = '' 5 1 status,
      field ''    f2h head valid = '' 6 1 status,
      field ''    f2h tail dirty = '' 7 1 status,
      [],
      field ''    READ_ready   = '' 8 1 status,
      field ''    READ_h2fTail = '' 9 1 status,
      field ''    READ_f2hHead = '' 10 1 status,
      field ''    READ_data    = '' 11 1 status,
      [],
      field ''    initStage    = '' 12 0xF status,
      []])"

definition PrintStatus_Pointers :: "u32 \<Rightarrow> unit dbg" where
  "PrintStatus_Pointers status = printf (lines_text
     [[], ''========== status: pointers ========='', [],
      field ''    f2h tail          = '' 0 0xFF status,
      field ''    f2h head (cached) = '' 8 0xFF status,
      field ''    h2f tail (cached) = '' 16 0xFF status,
      field ''    h2f head          = '' 24 0xFF status,
      []])"

definition PrintStatus_VHDL :: "u32 \<Rightarrow> unit dbg" where
  "PrintStatus_VHDL status = printf (lines_text
     [[], ''========== status: vhdl and synchronizers ========='', [],
      field ''    read data = '' 0 0xFFFF status,
      [],
      field ''    read req ready  = '' 16 1 status,
      field ''    read resp ready = '' 17 1 status,
      field ''    write ready     = '' 18 1 status,
      [],
      field ''    write sync depth (bsv)  = '' 20 3 status,
      field ''    write sync depth (vhdl) = '' 22 3 status,
      field ''    write sync #enqueues    = '' 24 0xF status,
      field ''    write sync #dequeues    = '' 28 0xF status,
      []])"

section \<open>Words of a command line\<close>

definition is_delim :: "char \<Rightarrow> bool" where
  "is_delim c \<longleftrightarrow> c = CHR '' '' \<or> c = CHR 0x09 \<or> c = NL"

text \<open>\<^verbatim>\<open>strtok\<close>: the next word and the text behind the character that ends it.\<close>

definition strtok :: "string \<Rightarrow> (string \<times> string) option" where
  "strtok s = (let t = dropWhile is_delim s in
     if t = [] then None
     else Some (takeWhile (\<lambda>c. \<not> is_delim c) t, drop 1 (dropWhile (\<lambda>c. \<not> is_delim c) t)))"

text \<open>The first call ends the string in the buffer behind the first word.\<close>

definition cut_line :: "string \<Rightarrow> string" where
  "cut_line s = takeWhile is_delim s @ takeWhile (\<lambda>c. \<not> is_delim c) (dropWhile is_delim s)"

definition StoI :: "string \<Rightarrow> u32" where
  "StoI s = (case s of
       a # b # r \<Rightarrow> if a = CHR ''0'' \<and> b = CHR ''x'' then word_of_int (strtol 16 r) else word_of_int (strtol 10 s)
     | _ \<Rightarrow> word_of_int (strtol 10 s))"

text \<open>A word that must be there: comparing or reading the NULL pointer faults.\<close>

definition next_word :: "string \<Rightarrow> (string \<times> string) dbg" where
  "next_word rest = (case strtok rest of None \<Rightarrow> raise C_Null | Some r \<Rightarrow> ret r)"

section \<open>The monitor\<close>

definition GenIID :: "u32 dbg" where
  "GenIID = andThen (modify (\<lambda>w. w\<lparr>iid := (if iid w = 255 then 0 else iid w + 1)\<rparr>)) (\<lambda>w. (Inr (push_bit 24 (iid w)), w))"

definition INST_RUN :: u32 where "INST_RUN = 0x001E0000"

definition send_inst :: "u32 \<Rightarrow> unit dbg" where
  "send_inst inst = bind GenIID (\<lambda>i. on_dev (WriteSystemCSR (i OR inst)))"

definition is_sys :: "string \<Rightarrow> bool" where "is_sys s \<longleftrightarrow> s = ''sys'' \<or> s = ''SYS''"

definition help_command :: "string \<Rightarrow> unit dbg" where
  "help_command rest = (case strtok rest of
       None \<Rightarrow> PrintHelp_Help
     | Some (topic, _) \<Rightarrow>
         if topic = ''commands'' then PrintHelp_Commands
         else if topic = ''csr'' then PrintHelp_CSR
         else if topic = ''inst'' then PrintHelp_Inst
         else PrintHelp_Help)"

definition read_sys :: "csr_env \<Rightarrow> unit dbg" where
  "read_sys E = bind (on_dev (ReadSystemCSR E)) (\<lambda>data.
     printf (''    read CSR[sys] = '' @ pad 8 (hex_upper (unat data)) @ [NL]))"

definition read_common :: "csr_env \<Rightarrow> u8 \<Rightarrow> unit dbg" where
  "read_common E index = bind (on_dev (ReadCommonCSR E index)) (\<lambda>data.
     printf (''    read CSR['' @ pad 3 (show_nat (unat index)) @ ''] = '' @ pad 8 (hex_upper (unat data)) @ [NL]))"

text \<open>The index is cut to the 8 bits of its type.\<close>

definition read_command :: "csr_env \<Rightarrow> string \<Rightarrow> unit dbg" where
  "read_command E rest = bind (next_word rest) (\<lambda>(stridx, _).
     if is_sys stridx then read_sys E else read_common E (ucast (StoI stridx)))"

definition write_command :: "string \<Rightarrow> unit dbg" where
  "write_command rest = bind (next_word rest) (\<lambda>(stridx, rest').
     bind (next_word rest') (\<lambda>(w, _).
       if is_sys stridx then send_inst (StoI w)
       else on_dev (WriteCommonCSR (ucast (StoI stridx)) (StoI w))))"

definition exec_command :: "string \<Rightarrow> unit dbg" where
  "exec_command rest = bind (next_word rest) (\<lambda>(w, _). send_inst (StoI w))"

datatype turn = Again | Quit | Run

definition run_command :: "csr_env \<Rightarrow> string \<Rightarrow> string \<Rightarrow> turn dbg" where
  "run_command E cmd rest =
     (if cmd = ''quit'' \<or> cmd = ''exit'' then ret Quit
      else if cmd = ''help'' then andThen (help_command rest) (ret Again)
      else if cmd = ''read'' then andThen (read_command E rest) (ret Again)
      else if cmd = ''write'' then andThen (write_command rest) (ret Again)
      else if cmd = ''exec'' then andThen (exec_command rest) (ret Again)
      else if cmd = ''init'' then ret Again
      else if cmd = ''reset'' then andThen (on_dev (ResetFPGA E)) (ret Again)
      else if cmd = ''run'' then andThen (send_inst INST_RUN) (ret Run)
      else andThen (printf (''    invalid command.'' @ [NL])) (ret Again))"

text \<open>At the end of the input \<^verbatim>\<open>fgets\<close> leaves the buffer as it is, and its result is not looked at.\<close>

definition read_line :: "unit dbg" where
  "read_line = modify (\<lambda>w. case fgets 256 (stdin w) of
       None \<Rightarrow> w
     | Some (line, rest) \<Rightarrow> w\<lparr>cmdline := cstr line, stdin := rest\<rparr>)"

definition monitor_turn :: "csr_env \<Rightarrow> turn dbg" where
  "monitor_turn E =
     andThen (printf (''htg-debugger > '' @ [NL]))
     (andThen read_line
     (bind (\<lambda>w. (Inr (strtok (cmdline w)), w\<lparr>cmdline := cut_line (cmdline w)\<rparr>)) (\<lambda>r. case r of
         None \<Rightarrow> ret Again
       | Some (cmd, rest) \<Rightarrow> run_command E cmd rest)))"

partial_function (option) monitor_loop :: "csr_env \<Rightarrow> debugger \<Rightarrow> ((csr_stop + unit) \<times> debugger) option" where
  "monitor_loop E w = (case monitor_turn E w of
       (Inl e, w') \<Rightarrow> Some (Inl e, w')
     | (Inr t, w') \<Rightarrow> (case t of
           Again \<Rightarrow> monitor_loop E w'
         | Quit \<Rightarrow> Some (Inl (C_Exit 0), w')
         | Run \<Rightarrow> Some (Inr (), w')))"

definition Monitor :: "csr_env \<Rightarrow> unit dbg" where
  "Monitor E = (\<lambda>w. case monitor_loop E w of None \<Rightarrow> (Inl C_Forever, w) | Some r \<Rightarrow> r)"

text \<open>The constructor prints a banner and runs the monitor, whatever state the device is in.\<close>

definition banner :: "string list" where
  "banner =
     [''================================================='',
      ''           HTG v5 PCIe Debugging Console         '',
      ''================================================='',
      [],
      ''You may use the debugging functionalities only at'',
      ''the start of the program. Once you type '' @ [CHR 0x22] @ ''run'' @ [CHR 0x22] @ '', '',
      ''the benchmark will run to completion and there is'',
      ''no way to get back into the debugger.            '',
      []]"

definition debugger_construct :: "csr_env \<Rightarrow> unit dbg" where
  "debugger_construct E =
     andThen (modify (\<lambda>w. w\<lparr>iid := 0\<rparr>))
     (andThen (printf (lines_text banner))
     (andThen PrintHelp_Commands (Monitor E)))"

section \<open>Commands and their lines\<close>

text \<open>What a user may want of the console, the line for it, and what it does to the board and the screen.\<close>

datatype dcmd = Read_Sys | Read u8 | Write_Sys u32 | Write u8 u32 | Exec u32 | Reset | Init | Help

definition index_text :: "u8 \<Rightarrow> string" where "index_text i = ''0x'' @ hex_text 2 (unat i)"
definition data_text :: "u32 \<Rightarrow> string" where "data_text v = ''0x'' @ hex_text 8 (unat v)"

fun line_of :: "dcmd \<Rightarrow> string" where
  "line_of Read_Sys = ''read sys''"
| "line_of (Read i) = ''read '' @ index_text i"
| "line_of (Write_Sys v) = ''write sys '' @ data_text v"
| "line_of (Write i v) = ''write '' @ index_text i @ '' '' @ data_text v"
| "line_of (Exec v) = ''exec '' @ data_text v"
| "line_of Reset = ''reset''"
| "line_of Init = ''init''"
| "line_of Help = ''help''"

fun do_cmd :: "csr_env \<Rightarrow> dcmd \<Rightarrow> unit dbg" where
  "do_cmd E Read_Sys = read_sys E"
| "do_cmd E (Read i) = read_common E i"
| "do_cmd E (Write_Sys v) = send_inst v"
| "do_cmd E (Write i v) = on_dev (WriteCommonCSR i v)"
| "do_cmd E (Exec v) = send_inst v"
| "do_cmd E Reset = on_dev (ResetFPGA E)"
| "do_cmd E Init = ret ()"
| "do_cmd E Help = PrintHelp_Help"

definition prompt :: "unit dbg" where "prompt = printf (''htg-debugger > '' @ [NL])"

fun do_all :: "csr_env \<Rightarrow> dcmd list \<Rightarrow> unit dbg" where
  "do_all E [] = andThen prompt (send_inst INST_RUN)"
| "do_all E (c # cs) = andThen prompt (andThen (do_cmd E c) (do_all E cs))"

definition session_text :: "dcmd list \<Rightarrow> string" where
  "session_text cs = concat (map (\<lambda>c. line_of c @ [NL]) cs) @ ''run'' @ [NL]"

section \<open>Reading the lines\<close>

definition plain :: "string \<Rightarrow> bool" where
  "plain s \<longleftrightarrow> (\<forall>c \<in> set s. \<not> is_delim c \<and> c \<noteq> NUL)"

lemma hex_char_plain': "hex_char c \<Longrightarrow> \<not> is_delim c \<and> c \<noteq> NUL"
  using hex_char_plain [of c] by (auto simp: is_delim_def isspace_def NL_def)

lemma plain_Cons: "plain (c # s) \<longleftrightarrow> \<not> is_delim c \<and> c \<noteq> NUL \<and> plain s"
  by (auto simp: plain_def)

lemma plain_hex: "plain (hex_text k n)"
  using hex_text_chars [of k n] hex_char_plain' by (simp add: plain_def)

lemma number_words: "plain (index_text i)" "plain (data_text v)" "length (index_text i) = 4" "length (data_text v) = 10"
  by (simp_all add: index_text_def data_text_def plain_Cons plain_hex is_delim_def NL_def NUL_def)

lemma number_values: "ucast (StoI (index_text i)) = i" "StoI (data_text v) = v" "\<not> is_sys (index_text i)"
proof -
  have "unat i < 16 ^ 2" "unat v < 16 ^ 8"
    using unsigned_less [of i, where 'a = nat] unsigned_less [of v, where 'a = nat] by simp_all
  then have "strtol 16 (hex_text 2 (unat i)) = int (unat i)" "strtol 16 (hex_text 8 (unat v)) = int (unat v)"
    by (intro strtol_hex_text; simp)+
  then show "ucast (StoI (index_text i)) = i" "StoI (data_text v) = v"
    by (simp_all add: StoI_def index_text_def data_text_def ucast_up_down)
  show "\<not> is_sys (index_text i)" by (simp add: is_sys_def index_text_def)
qed

lemma strtok_word:
  assumes "plain s" "s \<noteq> []" "is_delim d"
  shows "strtok (s @ d # r) = Some (s, r)"
proof -
  have "dropWhile is_delim (s @ d # r) = s @ d # r" using assms(1,2) by (cases s) (auto simp: plain_def)
  moreover have "takeWhile (\<lambda>c. \<not> is_delim c) (s @ d # r) = s" "dropWhile (\<lambda>c. \<not> is_delim c) (s @ d # r) = d # r"
    using assms by (auto simp: plain_def takeWhile_append dropWhile_append)
  ultimately show ?thesis by (simp add: strtok_def Let_def)
qed

lemma delims: "is_delim (CHR '' '')" "is_delim NL"
  by (simp_all add: is_delim_def)

lemma keyword_plain [simp]:
  "plain ''read''" "plain ''write''" "plain ''exec''" "plain ''reset''" "plain ''init''" "plain ''help''" "plain ''run''" "plain ''sys''"
  by (simp_all add: plain_def is_delim_def NL_def NUL_def)

lemma line_runs:
  "\<exists>cmd r. strtok (line_of c @ [NL]) = Some (cmd, r) \<and> run_command E cmd r = andThen (do_cmd E c) (ret Again)"
proof -
  note tok = strtok_word [OF _ _ delims(1)] strtok_word [OF _ _ delims(2)]
  have w: "index_text i \<noteq> []" "data_text v \<noteq> []" for i v by (simp_all add: index_text_def data_text_def)
  note args = tok [OF number_words(1) w(1)] tok [OF number_words(2) w(2)]
  show ?thesis
  proof (cases c)
    case Read_Sys
    then show ?thesis using tok(1) [of "''read''" "''sys'' @ [NL]"] tok(2) [of "''sys''" "[]"]
      by (simp add: run_command_def read_command_def next_word_def bind_def is_sys_def)
  next
    case (Read i)
    then show ?thesis using tok(1) [of "''read''" "index_text i @ [NL]"] args(2) [of i "[]"] number_values(1,3) [of i]
      by (simp add: run_command_def read_command_def next_word_def bind_def)
  next
    case (Write_Sys v)
    then show ?thesis using tok(1) [of "''write''" "''sys '' @ data_text v @ [NL]"] tok(1) [of "''sys''" "data_text v @ [NL]"] args(4) [of v "[]"] number_values(2) [of v]
      by (simp add: run_command_def write_command_def next_word_def bind_def is_sys_def)
  next
    case (Write i v)
    then show ?thesis using tok(1) [of "''write''" "index_text i @ '' '' @ data_text v @ [NL]"] args(1) [of i "data_text v @ [NL]"] args(4) [of v "[]"]
        number_values(1,3) [of i] number_values(2) [of v]
      by (simp add: run_command_def write_command_def next_word_def bind_def)
  next
    case (Exec v)
    then show ?thesis using tok(1) [of "''exec''" "data_text v @ [NL]"] args(4) [of v "[]"] number_values(2) [of v]
      by (simp add: run_command_def exec_command_def next_word_def bind_def)
  next
    case Reset
    then show ?thesis using tok(2) [of "''reset''" "[]"] by (simp add: run_command_def)
  next
    case Init
    then show ?thesis using tok(2) [of "''init''" "[]"] by (simp add: run_command_def andThen_def bind_def fun_eq_iff)
  next
    case Help
    then show ?thesis using tok(2) [of "''help''" "[]"]
      by (simp add: run_command_def help_command_def strtok_def)
  qed
qed

lemma line_shape: "NL \<notin> set (line_of c) \<and> NUL \<notin> set (line_of c) \<and> length (line_of c) \<le> 30"
proof -
  have "NL \<notin> set s \<and> NUL \<notin> set s" if "plain s" for s using that by (auto simp: plain_def is_delim_def)
  note this [OF number_words(1)] this [OF number_words(2)]
  then show ?thesis by (cases c) (auto simp: number_words(3,4) NL_def NUL_def)
qed

text \<open>Programs that look at the board and the screen only.\<close>

definition same_board :: "debugger \<Rightarrow> debugger \<Rightarrow> bool" where
  "same_board w v \<longleftrightarrow> dev v = dev w \<and> iid v = iid w \<and> screen v = screen w"

definition board_only :: "'a dbg \<Rightarrow> bool" where
  "board_only p \<longleftrightarrow> (\<forall>w v. same_board w v \<longrightarrow> fst (p v) = fst (p w) \<and> same_board (snd (p w)) (snd (p v)))"

lemma same_board_refl [simp]: "same_board w w"
  by (simp add: same_board_def)

lemma same_board_trans: "same_board a b \<Longrightarrow> same_board b c \<Longrightarrow> same_board a c"
  by (simp add: same_board_def)

lemma board_onlyD: "board_only p \<Longrightarrow> same_board w v \<Longrightarrow> fst (p v) = fst (p w) \<and> same_board (snd (p w)) (snd (p v))"
  by (simp add: board_only_def)

lemma board_only_basic:
  "board_only (ret x)" "board_only (printf s)" "board_only (on_dev q)" "board_only GenIID"
  by (auto simp: board_only_def same_board_def ret_def printf_def modify_def on_dev_def GenIID_def andThen_def bind_def split: prod.splits)

lemma board_only_bind:
  assumes "board_only p" "\<And>x. board_only (f x)"
  shows "board_only (bind p f)"
  unfolding board_only_def
proof (intro allI impI)
  fix w v assume "same_board w v"
  obtain r w1 s v1 where r: "p w = (r, w1)" "p v = (s, v1)" by (meson surj_pair)
  with board_onlyD [OF assms(1) \<open>same_board w v\<close>] have "s = r" "same_board w1 v1" by auto
  then show "fst (bind p f v) = fst (bind p f w) \<and> same_board (snd (bind p f w)) (snd (bind p f v))"
    using r board_onlyD [OF assms(2)] by (cases r) (auto simp: bind_def)
qed

lemma board_only_andThen: "board_only p \<Longrightarrow> board_only q \<Longrightarrow> board_only (andThen p q)"
  using board_only_bind by (auto simp: andThen_def)

lemmas board_only_intros = board_only_basic board_only_bind board_only_andThen

lemma send_inst_board: "board_only (send_inst i)"
  unfolding send_inst_def by (intro board_only_intros)

lemma do_cmd_board: "board_only (do_cmd E c)"
  by (cases c) (auto simp: read_sys_def read_common_def PrintHelp_Help_def intro!: board_only_intros send_inst_board)

lemma do_all_board: "board_only (do_all E cs)"
  by (induction cs) (auto simp: prompt_def intro!: board_only_intros send_inst_board do_cmd_board)

section \<open>Whole sessions\<close>

lemma do_cmd_stdin: "stdin (snd (do_cmd E c w)) = stdin w"
  by (cases c) (auto simp: read_sys_def read_common_def PrintHelp_Help_def send_inst_def GenIID_def printf_def on_dev_def
      andThen_def bind_def split: prod.splits sum.splits)

lemma turn_line:
  assumes "stdin w = l @ NL # rest" "NL \<notin> set l" "NUL \<notin> set l" "length l \<le> 30" "strtok (l @ [NL]) = Some (cmd, r)"
  shows "\<exists>v. monitor_turn E w = run_command E cmd r v \<and> stdin v = rest \<and> same_board (snd (prompt w)) v"
proof -
  have "fgets 256 (stdin w) = Some (l @ [NL], rest)" using assms(1,2,4) by (simp add: fgets_line)
  moreover have "cstr (l @ [NL]) = l @ [NL]" using assms(3) by (intro cstr_id) (auto simp: NL_def NUL_def)
  ultimately show ?thesis
    using assms(5) by (auto simp: monitor_turn_def read_line_def printf_def prompt_def andThen_def bind_def same_board_def)
qed

lemma Monitor_step:
  "Monitor E w = (case monitor_turn E w of
       (Inl e, w') \<Rightarrow> (Inl e, w')
     | (Inr t, w') \<Rightarrow> (case t of Again \<Rightarrow> (case monitor_loop E w' of None \<Rightarrow> (Inl C_Forever, w) | Some r \<Rightarrow> r)
         | Quit \<Rightarrow> (Inl (C_Exit 0), w') | Run \<Rightarrow> (Inr (), w')))"
  unfolding Monitor_def by (subst monitor_loop.simps) (auto split: prod.splits sum.splits turn.splits)

lemma session_loop:
  assumes "stdin w = session_text cs @ rest"
  shows "\<exists>r w'. monitor_loop E w = Some (r, w') \<and> r = fst (do_all E cs w) \<and> same_board (snd (do_all E cs w)) w'"
  using assms
proof (induction cs arbitrary: w)
  case Nil
  have "strtok (''run'' @ [NL]) = Some (''run'', [])" using strtok_word [OF _ _ delims(2), of "''run''" "[]"] by simp
  moreover have "stdin w = ''run'' @ NL # rest" using Nil by (simp add: session_text_def)
  ultimately obtain v where v: "monitor_turn E w = run_command E ''run'' [] v" "same_board (snd (prompt w)) v"
    using turn_line [of w "''run''" rest "''run''" "[]" E] by (auto simp: NL_def NUL_def)
  obtain r w' where r: "send_inst INST_RUN v = (r, w')" by (meson surj_pair)
  have "prompt w = (Inr (), snd (prompt w))" by (simp add: prompt_def printf_def)
  then have "do_all E [] w = send_inst INST_RUN (snd (prompt w))" by (metis andThen_Inr do_all.simps(1))
  moreover have "monitor_loop E w = Some (r, w')"
    using v(1) r by (subst monitor_loop.simps) (cases r; simp add: run_command_def andThen_def bind_def)
  ultimately show ?case using board_onlyD [OF send_inst_board v(2), of INST_RUN] r by auto
next
  case (Cons c cs)
  obtain cmd a where l: "strtok (line_of c @ [NL]) = Some (cmd, a)" "run_command E cmd a = andThen (do_cmd E c) (ret Again)"
    using line_runs by blast
  have "stdin w = line_of c @ NL # (session_text cs @ rest)" using Cons.prems by (simp add: session_text_def)
  from turn_line [OF this _ _ _ l(1)] line_shape [of c] l(2) obtain v where
    v: "monitor_turn E w = andThen (do_cmd E c) (ret Again) v" "stdin v = session_text cs @ rest" "same_board (snd (prompt w)) v"
    by metis
  obtain r v1 where r: "do_cmd E c v = (r, v1)" by (meson surj_pair)
  obtain r' w1 where r': "do_cmd E c (snd (prompt w)) = (r', w1)" by (meson surj_pair)
  from board_onlyD [OF do_cmd_board v(3), of E c] r r' have same: "r' = r" "same_board w1 v1" by auto
  have all: "do_all E (c # cs) w = andThen (do_cmd E c) (do_all E cs) (snd (prompt w))"
    by (simp add: prompt_def printf_def andThen_def bind_def)
  show ?case
  proof (cases r)
    case (Inl e)
    then have "monitor_loop E w = Some (Inl e, v1)" using v(1) r by (subst monitor_loop.simps) (simp add: andThen_Inl)
    then show ?thesis using all r' same Inl by (simp add: andThen_Inl)
  next
    case (Inr u)
    then have "monitor_loop E w = monitor_loop E v1" using v(1) r by (subst monitor_loop.simps) (simp add: andThen_Inr)
    moreover have "stdin v1 = session_text cs @ rest" using r v(2) do_cmd_stdin [of E c v] by simp
    moreover have "do_all E (c # cs) w = do_all E cs w1" using all r' same Inr by (simp add: andThen_Inr)
    ultimately show ?thesis
      using Cons.IH [of v1] board_onlyD [OF do_all_board same(2), of E cs] same_board_trans by (metis (no_types, lifting))
  qed
qed

text \<open>
  C30. A session of command lines that ends with \<^verbatim>\<open>run\<close> does to the board and the screen exactly what
  the commands do one after the other, and then what the start of the program does; the monitor ends.
\<close>

theorem session_does_commands:
  "\<exists>w'. Monitor E (w\<lparr>stdin := session_text cs @ rest\<rparr>) = (fst (do_all E cs w), w') \<and> same_board (snd (do_all E cs w)) w'"
proof -
  let ?w = "w\<lparr>stdin := session_text cs @ rest\<rparr>"
  obtain r w' where r: "monitor_loop E ?w = Some (r, w')" "r = fst (do_all E cs ?w)" "same_board (snd (do_all E cs ?w)) w'"
    using session_loop [of ?w cs rest E] by auto
  have "same_board w ?w" by (simp add: same_board_def)
  note b = board_onlyD [OF do_all_board this, of E cs]
  with same_board_trans r(3) have "same_board (snd (do_all E cs w)) w'" by blast
  then show ?thesis using b r(1,2) by (auto simp: Monitor_def)
qed

section \<open>Numbered instructions\<close>

definition next_iid :: "u32 \<Rightarrow> u32" where "next_iid i = (if i = 255 then 0 else i + 1)"

definition wrote :: "pchnl_device \<Rightarrow> u32 list \<Rightarrow> debugger \<Rightarrow> debugger \<Rightarrow> bool" where
  "wrote d vs w w' \<longleftrightarrow> drv (dev w') = (drv (dev w))\<lparr>writes := writes (drv (dev w)) @ map (\<lambda>v. (hw_addr d, v)) vs\<rparr>"

lemma WriteSystemCSR_run:
  assumes "mapped_at E d w"
  shows "WriteSystemCSR v w = (Inr (), w\<lparr>drv := (drv w)\<lparr>writes := writes (drv w) @ [(hw_addr d, v)]\<rparr>\<rparr>)"
  using store32_run [OF assms, of 0 v] assms by (simp add: WriteSystemCSR_def mapped_at_def pointers_at_def CSR_REGION_SIZE_def)

lemma send_inst_run:
  assumes "mapped_at E d (dev w)"
  shows "\<exists>w'. send_inst v w = (Inr (), w') \<and> mapped_at E d (dev w') \<and> iid w' = next_iid (iid w)
    \<and> wrote d [push_bit 24 (next_iid (iid w)) OR v] w w'"
  using WriteSystemCSR_run [OF assms] assms
  by (simp add: send_inst_def GenIID_def on_dev_def andThen_def bind_def next_iid_def wrote_def mapped_at_def pointers_at_def low_bar_def)

lemma next_iid_nat: "unat i < 256 \<Longrightarrow> next_iid i = of_nat ((unat i + 1) mod 256) \<and> unat (next_iid i) < 256"
proof -
  assume "unat i < 256"
  then consider "unat i = 255" | "unat i < 255" by linarith
  then show ?thesis
  proof cases
    case 1
    then have "i = 255" by (intro unsigned_word_eqI [where 'a = nat]) simp
    then show ?thesis by (simp add: next_iid_def)
  next
    case 2
    then have "i \<noteq> 255" by auto
    with 2 show ?thesis by (simp add: next_iid_def unat_word_ariths)
  qed
qed

lemma exec_run:
  assumes "mapped_at E d (dev w)" "unat (iid w) < 256"
  shows "\<exists>w'. do_all E (map Exec vs) w = (Inr (), w') \<and>
    wrote d (map (\<lambda>k. push_bit 24 (of_nat ((unat (iid w) + k + 1) mod 256)) OR (vs @ [INST_RUN]) ! k) [0..<length vs + 1]) w w'"
  using assms
proof (induction vs arbitrary: w)
  case Nil
  have "mapped_at E d (dev (snd (prompt w)))" "iid (snd (prompt w)) = iid w" using Nil by (simp_all add: prompt_def printf_def)
  from send_inst_run [OF this(1), of INST_RUN] obtain w' where
    w': "send_inst INST_RUN (snd (prompt w)) = (Inr (), w')" "wrote d [push_bit 24 (next_iid (iid w)) OR INST_RUN] (snd (prompt w)) w'"
    using \<open>iid (snd (prompt w)) = iid w\<close> by auto
  then show ?case using next_iid_nat [OF Nil(2)] by (auto simp: prompt_def printf_def andThen_def bind_def wrote_def)
next
  case (Cons v vs)
  let ?w1 = "snd (prompt w)"
  have 1: "mapped_at E d (dev ?w1)" "iid ?w1 = iid w" "drv (dev ?w1) = drv (dev w)" using Cons.prems by (simp_all add: prompt_def printf_def)
  from send_inst_run [OF 1(1), of v] obtain w2 where
    w2: "send_inst v ?w1 = (Inr (), w2)" "mapped_at E d (dev w2)" "iid w2 = next_iid (iid w)" "wrote d [push_bit 24 (next_iid (iid w)) OR v] w w2"
    using 1(2,3) by (auto simp: wrote_def)
  note n = next_iid_nat [OF Cons.prems(2)]
  from Cons.IH [OF w2(2)] n w2(3) obtain w' where
    w': "do_all E (map Exec vs) w2 = (Inr (), w')" "wrote d (map (\<lambda>k. push_bit 24 (of_nat ((unat (iid w2) + k + 1) mod 256))
      OR (vs @ [INST_RUN]) ! k) [0..<length vs + 1]) w2 w'" by auto
  have "do_all E (map Exec (v # vs)) w = (Inr (), w')"
    using w2(1) w'(1) by (simp add: prompt_def printf_def andThen_def bind_def)
  moreover have "(unat (iid w2) + k + 1) mod 256 = (unat (iid w) + Suc k + 1) mod 256" for k
  proof -
    have "unat (iid w2) = (unat (iid w) + 1) mod 256" using n w2(3) by (simp add: unat_of_nat take_bit_nat_eq_self)
    then have "(unat (iid w2) + k + 1) mod 256 = ((unat (iid w) + 1) mod 256 + (k + 1)) mod 256" by simp
    also have "\<dots> = (unat (iid w) + 1 + (k + 1)) mod 256" by (rule mod_add_left_eq)
    finally show ?thesis by simp
  qed
  moreover have "[0..<length (v # vs) + 1] = 0 # map Suc [0..<length vs + 1]"
    by (subst upt_conv_Cons) (simp_all add: map_Suc_upt del: upt_Suc)
  ultimately show ?case using w2(4) w'(2) n by (auto simp: wrote_def simp del: upt_Suc)
qed

text \<open>
  In a session of instructions on a mapped board the words written to the system register are the
  instructions in order, the one that starts the program last, each with its number, counted modulo
  256, above its 24 bits.
\<close>

theorem instructions_numbered:
  assumes "mapped_at E d (dev w)" "unat (iid w) < 256"
  shows "\<exists>w'. Monitor E (w\<lparr>stdin := session_text (map Exec vs) @ rest\<rparr>) = (Inr (), w') \<and>
    writes (drv (dev w')) = writes (drv (dev w)) @
      map (\<lambda>k. (hw_addr d, push_bit 24 (of_nat ((unat (iid w) + k + 1) mod 256)) OR (vs @ [INST_RUN]) ! k)) [0..<length vs + 1]"
proof -
  let ?w = "w\<lparr>stdin := session_text (map Exec vs) @ rest\<rparr>"
  obtain r w' where r: "monitor_loop E ?w = Some (r, w')" "r = fst (do_all E (map Exec vs) ?w)" "same_board (snd (do_all E (map Exec vs) ?w)) w'"
    using session_loop [of ?w "map Exec vs" rest E] by auto
  from exec_run [of E d ?w vs] assms obtain w1 where "do_all E (map Exec vs) ?w = (Inr (), w1)"
    "wrote d (map (\<lambda>k. push_bit 24 (of_nat ((unat (iid w) + k + 1) mod 256)) OR (vs @ [INST_RUN]) ! k) [0..<length vs + 1]) ?w w1" by auto
  then show ?thesis using r by (auto simp: Monitor_def wrote_def same_board_def o_def simp del: upt_Suc)
qed

section \<open>The end of the input\<close>

text \<open>The word the buffer begins with stays there, with nothing behind it.\<close>

lemma word_split:
  assumes "\<forall>c \<in> set a. P c" "\<forall>c \<in> set t. \<not> P c"
  shows "takeWhile P (a @ t) = a" "dropWhile P (a @ t) = t" "takeWhile (\<lambda>c. \<not> P c) t = t" "dropWhile (\<lambda>c. \<not> P c) t = []"
proof -
  have "takeWhile P t = []" "dropWhile P t = t" using assms(2) by (cases t; simp)+
  then show "takeWhile P (a @ t) = a" "dropWhile P (a @ t) = t" using assms(1) by simp_all
  show "takeWhile (\<lambda>c. \<not> P c) t = t" "dropWhile (\<lambda>c. \<not> P c) t = []"
    using assms(2) by (simp_all add: takeWhile_eq_all_conv)
qed

lemma cut_line_words:
  "\<exists>a t. cut_line s = a @ t \<and> (\<forall>c \<in> set a. is_delim c) \<and> (\<forall>c \<in> set t. \<not> is_delim c)
     \<and> map_option fst (strtok s) = (if t = [] then None else Some t)"
proof -
  define d where "d = dropWhile is_delim s"
  let ?t = "takeWhile (\<lambda>c. \<not> is_delim c) d"
  have "d \<noteq> [] \<Longrightarrow> \<not> is_delim (hd d)" unfolding d_def by (rule hd_dropWhile)
  then have "?t = [] \<longleftrightarrow> d = []" by (cases d) simp_all
  then have "map_option fst (strtok s) = (if ?t = [] then None else Some ?t)"
    by (simp only: strtok_def Let_def d_def [symmetric]) (cases "d = []"; simp)
  moreover have "\<forall>c \<in> set (takeWhile is_delim s). is_delim c" "\<forall>c \<in> set ?t. \<not> is_delim c"
    by (auto dest: set_takeWhileD)
  moreover have "cut_line s = takeWhile is_delim s @ ?t" by (simp only: cut_line_def d_def)
  ultimately show ?thesis by (intro exI conjI)
qed

lemma cut_line_idem: "cut_line (cut_line s) = cut_line s"
proof -
  obtain a t where c: "cut_line s = a @ t" "\<forall>c \<in> set a. is_delim c" "\<forall>c \<in> set t. \<not> is_delim c"
    using cut_line_words [of s] by blast
  show ?thesis unfolding c(1) by (simp only: cut_line_def word_split [OF c(2,3)])
qed

lemma strtok_cut: "strtok (cut_line s) = map_option (\<lambda>r. (fst r, [])) (strtok s)"
proof -
  obtain a t where c: "cut_line s = a @ t" "\<forall>c \<in> set a. is_delim c" "\<forall>c \<in> set t. \<not> is_delim c"
    "map_option fst (strtok s) = (if t = [] then None else Some t)" using cut_line_words [of s] by blast
  have "strtok (a @ t) = (if t = [] then None else Some (t, []))"
    by (simp add: strtok_def Let_def word_split [OF c(2,3)])
  then show ?thesis using c(1,4) by (cases "strtok s") (auto split: if_splits)
qed

lemma eof_turn:
  assumes "stdin w = []"
  shows "monitor_turn E w = (case strtok (cmdline w) of
      None \<Rightarrow> ret Again
    | Some (cmd, r) \<Rightarrow> run_command E cmd r) (w\<lparr>screen := screen w @ ''htg-debugger > '' @ [NL], cmdline := cut_line (cmdline w)\<rparr>)"
  using assms by (simp add: monitor_turn_def read_line_def fgets_def printf_def andThen_def bind_def split: option.splits)

definition idle_word :: "string \<Rightarrow> bool" where
  "idle_word cmd \<longleftrightarrow> cmd \<notin> {''quit'', ''exit'', ''read'', ''write'', ''exec'', ''reset'', ''run''}"

lemma idle_command:
  assumes "idle_word cmd"
  shows "\<exists>w'. run_command E cmd [] w = (Inr Again, w') \<and> stdin w' = stdin w \<and> cmdline w' = cmdline w"
  using assms
  by (auto simp: idle_word_def run_command_def help_command_def strtok_def PrintHelp_Help_def printf_def andThen_def bind_def)

lemma monitor_loop_induct:
  assumes "monitor_loop E w = Some r"
    "\<And>w w'. monitor_turn E w = (Inr Again, w') \<Longrightarrow> P w' \<Longrightarrow> P w"
    "\<And>w w' e. monitor_turn E w = (e, w') \<Longrightarrow> e \<noteq> Inr Again \<Longrightarrow> P w"
  shows "P w"
proof -
  have "E' = E \<longrightarrow> P v" if "monitor_loop E' v = Some v'" for E' v v'
    using that
  proof (rule monitor_loop.raw_induct [of "\<lambda>E' v v'. E' = E \<longrightarrow> P v", rotated], intro impI, hypsubst)
    fix f v v'
    assume IH: "\<And>E' v v'. f E' v = Some v' \<Longrightarrow> E' = E \<longrightarrow> P v"
      and run: "(case monitor_turn E v of (Inl e, w') \<Rightarrow> Some (Inl e, w')
        | (Inr t, w') \<Rightarrow> (case t of Again \<Rightarrow> f E w' | Quit \<Rightarrow> Some (Inl (C_Exit 0), w') | Run \<Rightarrow> Some (Inr (), w'))) = Some v'"
    obtain e w' where t: "monitor_turn E v = (e, w')" by (meson surj_pair)
    show "P v"
    proof (cases "e = Inr Again")
      case True
      then show ?thesis using run t IH assms(2) by simp
    qed (rule assms(3) [OF t])
  qed
  then show ?thesis using assms(1) by blast
qed

text \<open>
  When the input ends the monitor runs the first word of its last line again and again without
  arguments: for a word that does nothing, or an empty line, it never ends, and \<^verbatim>\<open>read\<close>, \<^verbatim>\<open>write\<close> and \<^verbatim>\<open>exec\<close>
  follow a NULL pointer.
\<close>

theorem end_of_input:
  assumes "stdin w = []" "cmdline w = cut_line line"
  shows "((case strtok line of None \<Rightarrow> True | Some (t, _) \<Rightarrow> idle_word t) \<longrightarrow> Monitor E w = (Inl C_Forever, w))
    \<and> ((case strtok line of None \<Rightarrow> False | Some (t, _) \<Rightarrow> t \<in> {''read'', ''write'', ''exec''}) \<longrightarrow> fst (Monitor E w) = Inl C_Null)"
proof (intro conjI impI)
  let ?bad = "\<lambda>v. stdin v = [] \<and> cmdline v = cut_line line"
  assume idle: "case strtok line of None \<Rightarrow> True | Some (t, _) \<Rightarrow> idle_word t"
  have turn: "\<exists>v'. monitor_turn E v = (Inr Again, v') \<and> ?bad v'" if "?bad v" for v
  proof -
    let ?v = "v\<lparr>screen := screen v @ ''htg-debugger > '' @ [NL], cmdline := cut_line (cmdline v)\<rparr>"
    have v: "?bad ?v" using that by (simp add: cut_line_idem)
    show ?thesis
    proof (cases "strtok line")
      case None
      then show ?thesis using that v by (auto simp: eof_turn strtok_cut)
    next
      case (Some p)
      obtain t r where p: "p = (t, r)" by (cases p)
      then have t: "idle_word t" using idle Some by simp
      have "monitor_turn E v = run_command E t [] ?v" using that Some p by (simp add: eof_turn strtok_cut)
      then show ?thesis using idle_command [OF t, of E ?v] v by auto
    qed
  qed
  have "\<not> ?bad v" if "monitor_loop E v = Some r" for v r
    using that by (rule monitor_loop_induct) (use turn in force)+
  then have "monitor_loop E w = None" using assms by (cases "monitor_loop E w") auto
  then show "Monitor E w = (Inl C_Forever, w)" by (simp add: Monitor_def)
next
  assume "case strtok line of None \<Rightarrow> False | Some (t, _) \<Rightarrow> t \<in> {''read'', ''write'', ''exec''}"
  then obtain t r where t: "strtok line = Some (t, r)" "t \<in> {''read'', ''write'', ''exec''}" by (auto split: option.splits)
  have "fst (run_command E t [] v) = Inl C_Null" for v
    using t(2) by (auto simp: run_command_def read_command_def write_command_def exec_command_def next_word_def strtok_def andThen_def bind_def)
  then have "fst (monitor_turn E w) = Inl C_Null" using assms t(1) by (simp add: eof_turn strtok_cut)
  then show "fst (Monitor E w) = Inl C_Null"
    unfolding Monitor_def by (subst monitor_loop.simps) (auto split: prod.splits)
qed

section \<open>Examples\<close>

definition console :: "csr_dev \<Rightarrow> string \<Rightarrow> string \<Rightarrow> debugger" where
  "console v line inp = \<lparr>dev = v, iid = 254, cmdline = line, stdin = inp, screen = []\<rparr>"

lemma end_of_input_witness:
  "Monitor csr_env0 (console csr_dev0 ''help'' []) = (Inl C_Forever, console csr_dev0 ''help'' []) \<and>
   fst (Monitor csr_env0 (console csr_dev0 ''read'' [])) = Inl C_Null"
proof -
  have "strtok (''help csr'' @ [NL]) = Some (''help'', ''csr'' @ [NL])" "cut_line (''help csr'' @ [NL]) = ''help''"
    "strtok (''read 5'' @ [NL]) = Some (''read'', ''5'' @ [NL])" "cut_line (''read 5'' @ [NL]) = ''read''"
    by (simp_all add: strtok_def cut_line_def is_delim_def NL_def)
  then show ?thesis
    using end_of_input [of "console csr_dev0 ''help'' []" "''help csr'' @ [NL]" csr_env0]
      end_of_input [of "console csr_dev0 ''read'' []" "''read 5'' @ [NL]" csr_env0]
    by (simp add: console_def idle_word_def)
qed

lemma instructions_numbered_witness:
  "\<exists>v w'. mapped_at csr_env0 probed0 v \<and>
     Monitor csr_env0 (console v [] (session_text (map Exec [0x100000, 0x110001]))) = (Inr (), w') \<and>
     writes (drv (dev w')) = writes (drv v) @ [(0x10000, 0xff100000), (0x10000, 0x00110001), (0x10000, 0x011e0000)]"
proof -
  have "\<not> e_remap (c_kernel csr_env0) (c_map csr_env0) (CSR_page probed0) CSR_REGION_SIZE < 0" by (simp add: csr_env0_def penv0_def)
  then obtain v where "pointers_at csr_env0 probed0 v" "bar_len v = bar_len csr_dev0"
    using csr_Init_run [OF csr0_starts(1)] by auto
  then have v: "mapped_at csr_env0 probed0 v"
    by (simp add: mapped_at_def low_bar_def probed0_def csr_dev0_def csr_construct_def CSR_REGION_SIZE_def)
  have "[0..<3] = [0, 1, 2 :: nat]" by (simp add: upt_rec)
  moreover have "(console v [] (session_text (map Exec [0x100000, 0x110001])))\<lparr>stdin := session_text (map Exec [0x100000, 0x110001]) @ []\<rparr>
      = console v [] (session_text (map Exec [0x100000, 0x110001]))" by (simp add: console_def)
  ultimately show ?thesis
    using v instructions_numbered [of csr_env0 probed0 "console v [] (session_text (map Exec [0x100000, 0x110001]))" "[0x100000, 0x110001]" "[]"]
    by (auto simp: console_def INST_RUN_def probed0_def push_bit_eq_mult)
qed

text \<open>An index is cut to 8 bits; on a device that was never initialised the start of the program faults.\<close>

lemma index_wraps: "ucast (StoI ''0x100'') = (0 :: u8)"
  by (simp add: StoI_def scan_defs)

lemma uninitialised_device_faults:
  "fst (Monitor E (w\<lparr>dev := csr_construct k len junk fds b, stdin := session_text []\<rparr>)) = Inl (C_Fault 0)"
proof -
  let ?w = "w\<lparr>dev := csr_construct k len junk fds b, stdin := session_text []\<rparr>"
  obtain r w' where r: "monitor_loop E ?w = Some (r, w')" "r = fst (do_all E [] ?w)" using session_loop [of ?w "[]" "[]" E] by auto
  have "fst (do_all E [] ?w) = Inl (C_Fault 0)"
    by (simp add: prompt_def printf_def send_inst_def GenIID_def on_dev_def andThen_def bind_def WriteSystemCSR_def store32_def
        physical_at_def csr_construct_def)
  with r show ?thesis by (simp add: Monitor_def)
qed

end
