(* ===== verification/Jtag_Device.thy ===== *)
theory Jtag_Device
  imports Leap_Prelude
begin

text \<open>
  \<^verbatim>\<open>physical-devices/jtag/xilinx/jtag-device.cpp\<close>: the host's JTAG device for Xilinx boards. It starts
  \<^verbatim>\<open>xmd\<close>, gives it commands through a pipe and talks to its terminal over a socket. Three threads
  serve it: \<^verbatim>\<open>ProbeHW\<close> sends ends of line, \<^verbatim>\<open>XMDWriter\<close> gives commands, \<^verbatim>\<open>RemoveBlanks\<close> moves what the
  terminal says into the pipe that \<^verbatim>\<open>Read\<close> reads. Each system call of a thread, and each test of
  \<^verbatim>\<open>killThreads\<close>, is a step; the steps interleave in any order. Blocking writes write everything;
  the socket has room, a pipe holds \<open>room\<close> bytes. The text of the log is not modelled, that it is
  written is. A \<^verbatim>\<open>char\<close> is signed.
\<close>

section \<open>State\<close>

datatype probe_place = Probe_Test | Probe_Write | Probe_Sleep | Probe_Ended
datatype writer_place = Writer_Start | Writer_Cmd | Writer_Test | Writer_Nudge | Writer_Sleep | Writer_Ended
datatype blank_place = Blank_Start | Blank_Test | Blank_Read | Blank_Forward | Blank_Junk | Blank_Ended

text \<open>The caller: between calls, inside \<^verbatim>\<open>Write\<close>, at the steps of \<^verbatim>\<open>Cleanup\<close>, after it.\<close>

datatype main_place = Main_Idle | Main_Eol | Join_Probe | Join_Writer | Join_Blank | Main_Close | Main_Down

datatype jtag_thread = Poll_Thread | Writer_Thread | Blank_Thread

text \<open>
  What the class holds and its surroundings: the bytes the terminal said that are not read yet,
  whether it closed its end and whether it refuses more, the pipes, and the histories: all the
  terminal said, what \<^verbatim>\<open>RemoveBlanks\<close> took of it, what \<^verbatim>\<open>Read\<close> gave, what was sent, what \<^verbatim>\<open>Write\<close> was given.
\<close>

record jtag =
  pid_XMD :: int
  killThreads :: bool
  probe_at :: probe_place
  writer_at :: writer_place
  blank_at :: blank_place
  main_at :: main_place
  joined :: "jtag_thread set"
  err_open :: bool
  xmdfd_open :: bool
  sock_open :: bool
  xmd_open :: bool
  signalled :: "int option"
  blank_buf :: u8
  sock_rx :: "u8 list"
  rx_end :: bool
  tx_end :: bool
  xmd_gone :: bool
  room :: nat
  blank_pipe :: "u8 list"
  xmd_pipe :: "u8 list"
  said :: "u8 list"
  taken :: "u8 list"
  delivered :: "u8 list"
  sent :: "u8 list"
  writes :: "u8 list list"
  xmd_read :: "u8 list"

text \<open>
  A step waits, goes on, ends the process by a signal, or uses a stream, a descriptor or a thread
  that is gone.
\<close>

datatype jtag_outcome = Waits | Goes jtag | Sigpipe | Wrong

section \<open>System calls\<close>

definition CRLF :: "u8 list" where "CRLF = [13, 10]"

definition log_line :: "jtag \<Rightarrow> jtag_outcome" where
  "log_line s = (if err_open s then Goes s else Wrong)"

definition sock_write :: "u8 list \<Rightarrow> jtag \<Rightarrow> jtag_outcome" where
  "sock_write data s = (if \<not> sock_open s then Wrong else if tx_end s then Sigpipe
     else Goes (s\<lparr>sent := sent s @ data\<rparr>))"

definition xmd_write :: "u8 list \<Rightarrow> jtag \<Rightarrow> jtag_outcome" where
  "xmd_write data s = (if \<not> xmd_open s then Wrong else if xmd_gone s then Sigpipe
     else if length (xmd_pipe s) + length data \<le> room s then Goes (s\<lparr>xmd_pipe := xmd_pipe s @ data\<rparr>)
     else Waits)"

section \<open>The threads\<close>

definition ProbeHW :: "jtag \<Rightarrow> jtag_outcome" where
  "ProbeHW s = (case probe_at s of
       Probe_Test \<Rightarrow> Goes (s\<lparr>probe_at := if killThreads s then Probe_Ended else Probe_Write\<rparr>)
     | Probe_Write \<Rightarrow> sock_write CRLF (s\<lparr>probe_at := Probe_Sleep\<rparr>)
     | Probe_Sleep \<Rightarrow> Goes (s\<lparr>probe_at := Probe_Test\<rparr>)
     | Probe_Ended \<Rightarrow> Waits)"

text \<open>
  The read of one byte leaves the buffer as it is when the other end is closed; its result is not
  looked at. Bytes above 40, as signed numbers, go into the pipe, the others are logged.
\<close>

definition keeps :: "u8 \<Rightarrow> bool" where "keeps b \<longleftrightarrow> 40 < sint b"

definition blank_decide :: "u8 \<Rightarrow> jtag \<Rightarrow> jtag" where
  "blank_decide b s = s\<lparr>blank_buf := b, blank_at := if keeps b then Blank_Forward else Blank_Junk\<rparr>"

definition RemoveBlanks :: "jtag \<Rightarrow> jtag_outcome" where
  "RemoveBlanks s = (case blank_at s of
       Blank_Start \<Rightarrow> log_line (s\<lparr>blank_at := Blank_Test\<rparr>)
     | Blank_Test \<Rightarrow> Goes (s\<lparr>blank_at := if killThreads s then Blank_Ended else Blank_Read\<rparr>)
     | Blank_Read \<Rightarrow> if \<not> sock_open s then Wrong else
         (case sock_rx s of
            b # rest \<Rightarrow> Goes (blank_decide b (s\<lparr>sock_rx := rest, taken := taken s @ [b]\<rparr>))
          | [] \<Rightarrow> if rx_end s then Goes (blank_decide (blank_buf s) s) else Waits)
     | Blank_Forward \<Rightarrow>
         if length (blank_pipe s) < room s
         then Goes (s\<lparr>blank_pipe := blank_pipe s @ [blank_buf s], blank_at := Blank_Test\<rparr>) else Waits
     | Blank_Junk \<Rightarrow> log_line (s\<lparr>blank_at := Blank_Test\<rparr>)
     | Blank_Ended \<Rightarrow> Waits)"

text \<open>\<^verbatim>\<open>sizeof\<close> counts the terminating NUL of an array initialised by a string.\<close>

definition termCmd :: "u8 list" where
  "termCmd = map of_char (''xclean'' @ [CHR 0x0A, CHR 0x0D, CHR 0x0A] @ ''verbose 3'' @ [CHR 0x0D, CHR 0x0A] @
     ''terminal -jtag_uart_server 4444'' @ [CHR 0x0A, CHR 0x0D, CHR 0x0A]) @ [0]"

definition termCmd2 :: "u8 list" where "termCmd2 = CRLF @ [0]"

definition XMDWriter :: "jtag \<Rightarrow> jtag_outcome" where
  "XMDWriter s = (case writer_at s of
       Writer_Start \<Rightarrow> log_line (s\<lparr>writer_at := Writer_Cmd\<rparr>)
     | Writer_Cmd \<Rightarrow> xmd_write termCmd (s\<lparr>writer_at := Writer_Test\<rparr>)
     | Writer_Test \<Rightarrow> Goes (s\<lparr>writer_at := if killThreads s then Writer_Ended else Writer_Nudge\<rparr>)
     | Writer_Nudge \<Rightarrow> xmd_write termCmd2 (s\<lparr>writer_at := Writer_Sleep\<rparr>)
     | Writer_Sleep \<Rightarrow> Goes (s\<lparr>writer_at := Writer_Test\<rparr>)
     | Writer_Ended \<Rightarrow> Waits)"

section \<open>The device\<close>

text \<open>\<^verbatim>\<open>Cleanup\<close>, which \<^verbatim>\<open>Uninit\<close> and the destructor call: the flag, three joins, the closing of everything.\<close>

definition thread_join :: "jtag_thread \<Rightarrow> bool \<Rightarrow> main_place \<Rightarrow> jtag \<Rightarrow> jtag_outcome" where
  "thread_join t ended next s = (if t \<in> joined s then Wrong
     else if ended then Goes (s\<lparr>joined := insert t (joined s), main_at := next\<rparr>) else Waits)"

definition close_all :: "jtag \<Rightarrow> jtag_outcome" where
  "close_all s = (if \<not> err_open s \<or> \<not> xmdfd_open s then Wrong
     else Goes (s\<lparr>sock_open := False, err_open := False, xmdfd_open := False, signalled := Some (pid_XMD s),
       xmd_open := False, main_at := Main_Down\<rparr>))"

definition jtag_Cleanup :: "jtag \<Rightarrow> jtag_outcome" where
  "jtag_Cleanup s = (if main_at s = Main_Idle \<or> main_at s = Main_Down
     then Goes (s\<lparr>killThreads := True, main_at := Join_Probe\<rparr>) else Waits)"

text \<open>
  \<^verbatim>\<open>Probe\<close> asks whether the pipe has bytes. \<^verbatim>\<open>Read\<close> waits for some and takes what is there, at most as
  many as asked for. \<^verbatim>\<open>Write\<close> sends the bytes, then an end of line.
\<close>

definition jtag_Probe :: "jtag \<Rightarrow> bool" where "jtag_Probe s \<longleftrightarrow> blank_pipe s \<noteq> []"

definition jtag_Read :: "nat \<Rightarrow> jtag \<Rightarrow> jtag_outcome" where
  "jtag_Read n s = (if main_at s \<noteq> Main_Idle then Waits else if \<not> err_open s then Wrong
     else if 0 < n \<and> blank_pipe s = [] then Waits
     else Goes (s\<lparr>blank_pipe := drop n (blank_pipe s), delivered := delivered s @ take n (blank_pipe s)\<rparr>))"

definition jtag_Write :: "u8 list \<Rightarrow> jtag \<Rightarrow> jtag_outcome" where
  "jtag_Write data s = (if main_at s \<noteq> Main_Idle then Waits else if \<not> err_open s then Wrong
     else sock_write data (s\<lparr>writes := writes s @ [data], main_at := Main_Eol\<rparr>))"

definition main_turn :: "jtag \<Rightarrow> jtag_outcome" where
  "main_turn s = (case main_at s of
       Main_Eol \<Rightarrow> if \<not> err_open s then Wrong else sock_write CRLF (s\<lparr>main_at := Main_Idle\<rparr>)
     | Join_Probe \<Rightarrow> thread_join Poll_Thread (probe_at s = Probe_Ended) Join_Writer s
     | Join_Writer \<Rightarrow> thread_join Writer_Thread (writer_at s = Writer_Ended) Join_Blank s
     | Join_Blank \<Rightarrow> thread_join Blank_Thread (blank_at s = Blank_Ended) Main_Close s
     | Main_Close \<Rightarrow> close_all s
     | _ \<Rightarrow> Waits)"

section \<open>Initialisation\<close>

text \<open>
  What the calls of \<^verbatim>\<open>Init\<close> answer: the two log files, the pipe to \<^verbatim>\<open>xmd\<close>, the process number, whether
  \<^verbatim>\<open>xmd\<close> was started in the child, the socket, the host, each attempt to connect, the second pipe;
  what the byte of \<^verbatim>\<open>RemoveBlanks\<close> holds at first.
\<close>

record jtag_answers =
  a_errfd :: bool
  a_xmdfd :: bool
  a_pipe :: bool
  a_fork :: int
  a_exec :: bool
  a_socket :: bool
  a_host :: bool
  a_connect :: "nat \<Rightarrow> bool"
  a_pipe2 :: bool
  a_junk :: u8
  a_room :: nat

datatype init_end = Init_Exit | Became_Xmd | Init_Wrong | Initialised jtag

text \<open>The attempts to connect: the number of the one that worked, none when the program gave up.\<close>

function connect_loop :: "(nat \<Rightarrow> bool) \<Rightarrow> nat \<Rightarrow> nat option" where
  "connect_loop answer retry =
     (if answer retry then Some retry else if 10 < retry then None else connect_loop answer (retry + 1))"
  by pat_completeness auto
termination by (relation "measure (\<lambda>(_, r). 11 - r)") auto

declare connect_loop.simps [simp del]

definition jtag_start :: "jtag_answers \<Rightarrow> jtag" where
  "jtag_start A = \<lparr>pid_XMD = a_fork A, killThreads = False, probe_at = Probe_Test, writer_at = Writer_Start,
     blank_at = Blank_Start, main_at = Main_Idle, joined = {}, err_open = True, xmdfd_open = a_xmdfd A, sock_open = True,
     xmd_open = (a_fork A \<noteq> 0), signalled = None, blank_buf = a_junk A, sock_rx = [], rx_end = False, tx_end = False,
     xmd_gone = (a_fork A < 0), room = a_room A, blank_pipe = [], xmd_pipe = [], said = [], taken = [], delivered = [], sent = [],
     writes = [], xmd_read = []\<rparr>"

text \<open>
  The child that cannot start \<^verbatim>\<open>xmd\<close> goes on with the code of the parent, without its end of the pipe.
\<close>

definition jtag_Init :: "jtag_answers \<Rightarrow> init_end" where
  "jtag_Init A =
     (if \<not> a_pipe A then Init_Exit
      else if a_fork A = 0 \<and> (\<not> a_xmdfd A \<or> \<not> a_errfd A) then Init_Wrong
      else if a_fork A = 0 \<and> a_exec A then Became_Xmd
      else if \<not> a_errfd A then Init_Wrong
      else if \<not> a_host A then Init_Exit
      else case connect_loop (\<lambda>i. a_socket A \<and> a_connect A i) 0 of
             None \<Rightarrow> Init_Exit
           | Some _ \<Rightarrow> if a_pipe2 A then Initialised (jtag_start A) else Init_Exit)"

section \<open>Runs\<close>

text \<open>
  A turn of a thread, a call, or something \<^verbatim>\<open>xmd\<close> does: its terminal says bytes, closes its end, refuses
  more; it reads commands, or ends.
\<close>

datatype jtag_action = Probe_Turn | Writer_Turn | Blank_Turn | Main_Turn
  | Call_Read nat | Call_Write "u8 list" | Call_Cleanup
  | Xmd_Says "u8 list" | Xmd_Closes | Xmd_Refuses | Xmd_Takes nat | Xmd_Ends

fun jtag_act :: "jtag_action \<Rightarrow> jtag \<Rightarrow> jtag_outcome" where
  "jtag_act Probe_Turn s = ProbeHW s"
| "jtag_act Writer_Turn s = XMDWriter s"
| "jtag_act Blank_Turn s = RemoveBlanks s"
| "jtag_act Main_Turn s = main_turn s"
| "jtag_act (Call_Read n) s = jtag_Read n s"
| "jtag_act (Call_Write data) s = jtag_Write data s"
| "jtag_act Call_Cleanup s = jtag_Cleanup s"
| "jtag_act (Xmd_Says bs) s = (if rx_end s then Waits else Goes (s\<lparr>sock_rx := sock_rx s @ bs, said := said s @ bs\<rparr>))"
| "jtag_act Xmd_Closes s = Goes (s\<lparr>rx_end := True\<rparr>)"
| "jtag_act Xmd_Refuses s = Goes (s\<lparr>rx_end := True, tx_end := True\<rparr>)"
| "jtag_act (Xmd_Takes n) s = Goes (s\<lparr>xmd_pipe := drop n (xmd_pipe s), xmd_read := xmd_read s @ take n (xmd_pipe s)\<rparr>)"
| "jtag_act Xmd_Ends s = Goes (s\<lparr>xmd_gone := True\<rparr>)"

fun jtag_run :: "jtag_action list \<Rightarrow> jtag \<Rightarrow> jtag option" where
  "jtag_run [] s = Some s"
| "jtag_run (a # as) s = (case jtag_act a s of Goes s' \<Rightarrow> jtag_run as s' | _ \<Rightarrow> None)"

text \<open>The states of a device that was initialised in the parent and is cleaned up at most once.\<close>

inductive jtag_reach :: "jtag \<Rightarrow> bool" where
  init: "\<lbrakk>jtag_Init A = Initialised s; a_fork A \<noteq> 0; a_xmdfd A\<rbrakk> \<Longrightarrow> jtag_reach s"
| step: "\<lbrakk>jtag_reach s; jtag_act a s = Goes s'; a = Call_Cleanup \<longrightarrow> main_at s \<noteq> Main_Down\<rbrakk> \<Longrightarrow> jtag_reach s'"

section \<open>Lemmas\<close>

text \<open>What holds of the state after a step, when the step goes on.\<close>

definition then_holds :: "(jtag \<Rightarrow> bool) \<Rightarrow> jtag_outcome \<Rightarrow> bool" where
  "then_holds P r = (case r of Goes s \<Rightarrow> P s | _ \<Rightarrow> True)"

lemma then_holds_simps [simp]:
  "then_holds P (Goes s) = P s" "then_holds P Waits" "then_holds P Sigpipe" "then_holds P Wrong"
  by (simp_all add: then_holds_def)

lemma then_holds_if [simp]: "then_holds P (if b then r else r') = (if b then then_holds P r else then_holds P r')"
  by simp

lemmas jtag_steps = ProbeHW_def XMDWriter_def RemoveBlanks_def main_turn_def jtag_Read_def jtag_Write_def
  jtag_Cleanup_def thread_join_def close_all_def log_line_def sock_write_def xmd_write_def blank_decide_def

lemma connect_loop_result:
  "retry \<le> 11 \<Longrightarrow> connect_loop answer retry = Some k \<longleftrightarrow>
     retry \<le> k \<and> k \<le> 11 \<and> answer k \<and> (\<forall>i. retry \<le> i \<and> i < k \<longrightarrow> \<not> answer i)"
proof (induction answer retry rule: connect_loop.induct)
  case (1 answer retry)
  show ?case
  proof (cases "answer retry \<or> 10 < retry")
    case True
    with 1(2) show ?thesis by (subst connect_loop.simps) (auto simp: le_less)
  next
    case False
    then have "connect_loop answer retry = connect_loop answer (retry + 1)" by (subst connect_loop.simps) simp
    moreover have "retry \<le> i \<longleftrightarrow> i = retry \<or> retry + 1 \<le> i" for i by auto
    ultimately show ?thesis using 1 False by (auto simp: le_less)
  qed
qed

text \<open>Where the threads are while \<^verbatim>\<open>Cleanup\<close> goes on, and what is open.\<close>

definition main_number :: "main_place \<Rightarrow> nat" where
  "main_number m = (case m of Main_Idle \<Rightarrow> 0 | Main_Eol \<Rightarrow> 0 | Join_Probe \<Rightarrow> 1 | Join_Writer \<Rightarrow> 2 | Join_Blank \<Rightarrow> 3
     | Main_Close \<Rightarrow> 4 | Main_Down \<Rightarrow> 5)"

definition places_ok :: "jtag \<Rightarrow> bool" where
  "places_ok s \<longleftrightarrow> (killThreads s \<longleftrightarrow> 1 \<le> main_number (main_at s)) \<and>
     (2 \<le> main_number (main_at s) \<longrightarrow> probe_at s = Probe_Ended) \<and>
     (3 \<le> main_number (main_at s) \<longrightarrow> writer_at s = Writer_Ended) \<and>
     (4 \<le> main_number (main_at s) \<longrightarrow> blank_at s = Blank_Ended) \<and>
     (Poll_Thread \<in> joined s \<longleftrightarrow> 2 \<le> main_number (main_at s)) \<and>
     (Writer_Thread \<in> joined s \<longleftrightarrow> 3 \<le> main_number (main_at s)) \<and>
     (Blank_Thread \<in> joined s \<longleftrightarrow> 4 \<le> main_number (main_at s)) \<and>
     (let up = main_number (main_at s) < 5 in err_open s = up \<and> xmdfd_open s = up \<and> sock_open s = up \<and> xmd_open s = up)"

lemma places_step:
  assumes ok: "places_ok s" and once: "a = Call_Cleanup \<longrightarrow> main_at s \<noteq> Main_Down"
  shows "jtag_act a s \<noteq> Wrong \<and> then_holds places_ok (jtag_act a s)"
proof (cases a)
  case Probe_Turn
  with ok show ?thesis
    by (cases "probe_at s"; cases "main_at s") (simp_all add: places_ok_def main_number_def jtag_steps)
next
  case Writer_Turn
  with ok show ?thesis
    by (cases "writer_at s"; cases "main_at s") (simp_all add: places_ok_def main_number_def jtag_steps)
next
  case Blank_Turn
  with ok show ?thesis
    by (cases "blank_at s"; cases "main_at s"; cases "sock_rx s") (simp_all add: places_ok_def main_number_def jtag_steps)
next
  case (Xmd_Says bs)
  with ok show ?thesis by (simp add: places_ok_def)
qed (use ok once in \<open>cases "main_at s"; simp add: places_ok_def main_number_def jtag_steps\<close>)+

lemma Init_state:
  "jtag_Init A = Initialised s \<Longrightarrow> s = jtag_start A \<and> a_errfd A"
  by (auto simp: jtag_Init_def split: if_splits option.splits)

lemma reach_places: "jtag_reach s \<Longrightarrow> places_ok s"
proof (induction rule: jtag_reach.induct)
  case (init A s)
  then show ?case using Init_state [OF init(1)] by (simp add: places_ok_def jtag_start_def main_number_def)
next
  case (step s a s')
  then show ?case using places_step [of s a] by simp
qed

text \<open>The bytes on their way from the terminal to \<^verbatim>\<open>Read\<close>.\<close>

definition in_hand :: "blank_place \<Rightarrow> u8 \<Rightarrow> u8 list" where
  "in_hand place b = (if place = Blank_Forward then [b] else [])"

definition copied :: "u8 list \<Rightarrow> u8 list \<Rightarrow> u8 \<Rightarrow> bool \<Rightarrow> bool" where
  "copied out bytes b ended \<longleftrightarrow> (\<exists>m. out = filter keeps bytes @ replicate m b \<and> (m = 0 \<or> ended))"

lemma copied_more: "copied out bytes b False \<Longrightarrow> copied (out @ filter keeps [b']) (bytes @ [b']) b' e"
  by (auto simp: copied_def intro: exI [of _ 0])

lemma copied_again: "copied out bytes b e \<Longrightarrow> copied (out @ [b]) bytes b True"
  unfolding copied_def by (metis append_assoc replicate_Suc replicate_append_same)

lemma copied_ended: "copied out bytes b e \<Longrightarrow> (e \<Longrightarrow> e') \<Longrightarrow> copied out bytes b e'"
  by (auto simp: copied_def)

definition stream_ok :: "jtag \<Rightarrow> bool" where
  "stream_ok s \<longleftrightarrow> said s = taken s @ sock_rx s \<and> (blank_at s = Blank_Forward \<longrightarrow> keeps (blank_buf s)) \<and>
     (taken s \<noteq> [] \<longrightarrow> blank_buf s = last (taken s)) \<and>
     copied (delivered s @ blank_pipe s @ in_hand (blank_at s) (blank_buf s)) (taken s) (blank_buf s)
       (rx_end s \<and> sock_rx s = [])"

lemma stream_blank:
  assumes ok: "stream_ok s"
  shows "then_holds stream_ok (RemoveBlanks s)"
proof (cases "blank_at s")
  case Blank_Read
  then have c: "copied (delivered s @ blank_pipe s) (taken s) (blank_buf s) (rx_end s \<and> sock_rx s = [])"
    using ok by (simp add: stream_ok_def in_hand_def)
  show ?thesis
  proof (cases "sock_rx s")
    case (Cons b rest)
    with c copied_more [of "delivered s @ blank_pipe s" "taken s" "blank_buf s" b "rx_end s \<and> rest = []"]
    have "copied ((delivered s @ blank_pipe s) @ filter keeps [b]) (taken s @ [b]) b (rx_end s \<and> rest = [])" by simp
    with Cons Blank_Read ok show ?thesis
      by (cases "keeps b") (simp_all add: stream_ok_def in_hand_def RemoveBlanks_def blank_decide_def)
  next
    case Nil
    with c copied_again [OF c] copied_ended [OF c, of True] Blank_Read ok show ?thesis
      by (cases "keeps (blank_buf s)") (simp_all add: stream_ok_def in_hand_def RemoveBlanks_def blank_decide_def)
  qed
qed (use ok in \<open>simp_all add: stream_ok_def in_hand_def RemoveBlanks_def log_line_def\<close>)

lemma take_drop_append: "take n xs @ drop n xs @ ys = xs @ ys"
  by (simp flip: append_assoc)

lemma stream_step:
  assumes ok: "stream_ok s"
  shows "then_holds stream_ok (jtag_act a s)"
proof (cases a)
  case Probe_Turn
  with ok show ?thesis by (cases "probe_at s") (simp_all add: stream_ok_def jtag_steps)
next
  case Writer_Turn
  with ok show ?thesis by (cases "writer_at s") (simp_all add: stream_ok_def jtag_steps)
next
  case Blank_Turn
  with stream_blank [OF ok] show ?thesis by simp
next
  case Main_Turn
  with ok show ?thesis by (cases "main_at s") (auto simp: stream_ok_def jtag_steps)
next
  case (Xmd_Says bs)
  with ok show ?thesis by (fastforce simp: stream_ok_def elim: copied_ended)
next
  case Xmd_Closes
  with ok copied_ended [of _ _ _ "rx_end s \<and> sock_rx s = []" "sock_rx s = []"] show ?thesis by (simp add: stream_ok_def)
next
  case Xmd_Refuses
  with ok copied_ended [of _ _ _ "rx_end s \<and> sock_rx s = []" "sock_rx s = []"] show ?thesis by (simp add: stream_ok_def)
qed (use ok in \<open>simp_all add: stream_ok_def jtag_steps take_drop_append\<close>)

lemma reach_stream: "jtag_reach s \<Longrightarrow> stream_ok s"
proof (induction rule: jtag_reach.induct)
  case (init A s)
  then show ?case using Init_state [OF init(1)] by (simp add: stream_ok_def in_hand_def jtag_start_def copied_def)
next
  case (step s a s')
  then show ?case using stream_step [of s a] by simp
qed

text \<open>What is sent: the writes with their ends of line, and the probes, each in its order.\<close>

lemma shuffles_append_left: "zs \<in> shuffles xs ys \<Longrightarrow> zs @ ws \<in> shuffles (xs @ ws) ys"
proof (induction xs ys arbitrary: zs rule: shuffles.induct)
  case (1 ys)
  have "ws \<in> shuffles ws []" by simp
  have "ys @ ws \<in> shuffles ws ys" by (induction ys) (auto intro: Cons_in_shuffles_rightI)
  with 1 show ?case by simp
next
  case (2 xs)
  then show ?case by simp
next
  case (3 x xs y ys)
  then show ?case by (auto simp: Cons_in_shuffles_leftI Cons_in_shuffles_rightI)
qed

lemma shuffles_append_right: "zs \<in> shuffles xs ys \<Longrightarrow> zs @ ws \<in> shuffles xs (ys @ ws)"
  using shuffles_append_left [of zs ys xs ws] by (simp add: shuffles_commutes)

definition main_stream :: "main_place \<Rightarrow> u8 list list \<Rightarrow> u8 list" where
  "main_stream place ws = (if place = Main_Eol then concat (map (\<lambda>d. d @ CRLF) (butlast ws)) @ last ws
     else concat (map (\<lambda>d. d @ CRLF) ws))"

definition mixed :: "u8 list \<Rightarrow> u8 list \<Rightarrow> bool" where
  "mixed all main \<longleftrightarrow> (\<exists>k. all \<in> shuffles main (concat (replicate k CRLF)))"

lemma mixed_main: "mixed all main \<Longrightarrow> mixed (all @ bs) (main @ bs)"
  by (auto simp: mixed_def intro: shuffles_append_left)

lemma mixed_probe: "mixed all main \<Longrightarrow> mixed (all @ CRLF) main"
proof (unfold mixed_def, elim exE)
  fix k assume "all \<in> shuffles main (concat (replicate k CRLF))"
  from shuffles_append_right [OF this, of CRLF]
  have "all @ CRLF \<in> shuffles main (concat (replicate k CRLF @ [CRLF]))" by simp
  then show "\<exists>k. all @ CRLF \<in> shuffles main (concat (replicate k CRLF))"
    by (metis replicate_Suc replicate_append_same)
qed

lemma main_stream_end: "ws \<noteq> [] \<Longrightarrow> main_stream Main_Eol ws @ CRLF = main_stream Main_Idle ws"
  by (cases ws rule: rev_cases) (simp_all add: main_stream_def)

lemma main_stream_idle:
  "place \<in> {Join_Probe, Join_Writer, Join_Blank, Main_Close, Main_Down} \<Longrightarrow> main_stream place ws = main_stream Main_Idle ws"
  by (auto simp: main_stream_def)

lemma main_stream_more: "main_stream Main_Eol (ws @ [data]) = main_stream Main_Idle ws @ data"
  by (simp add: main_stream_def)

definition sent_ok :: "jtag \<Rightarrow> bool" where
  "sent_ok s \<longleftrightarrow> (main_at s = Main_Eol \<longrightarrow> writes s \<noteq> []) \<and> mixed (sent s) (main_stream (main_at s) (writes s))"

lemma sent_step:
  assumes ok: "sent_ok s"
  shows "then_holds sent_ok (jtag_act a s)"
proof (cases a)
  case Probe_Turn
  with ok show ?thesis by (cases "probe_at s") (simp_all add: sent_ok_def jtag_steps mixed_probe)
next
  case Writer_Turn
  with ok show ?thesis by (cases "writer_at s") (simp_all add: sent_ok_def jtag_steps)
next
  case Blank_Turn
  with ok show ?thesis by (cases "blank_at s"; cases "sock_rx s") (simp_all add: sent_ok_def jtag_steps)
next
  case Main_Turn
  show ?thesis
  proof (cases "main_at s")
    case Main_Eol
    with ok mixed_main [of "sent s" "main_stream Main_Eol (writes s)" CRLF] Main_Turn show ?thesis
      by (simp add: sent_ok_def jtag_steps main_stream_end)
  qed (use Main_Turn ok in \<open>simp_all add: sent_ok_def jtag_steps main_stream_idle\<close>)
next
  case (Call_Write data)
  with ok mixed_main [of "sent s" "main_stream Main_Idle (writes s)" data] show ?thesis
    by (auto simp: sent_ok_def jtag_steps main_stream_more)
next
  case Call_Cleanup
  with ok show ?thesis by (auto simp: sent_ok_def jtag_steps main_stream_idle)
qed (use ok in \<open>auto simp: sent_ok_def jtag_steps\<close>)

lemma reach_sent: "jtag_reach s \<Longrightarrow> sent_ok s"
proof (induction rule: jtag_reach.induct)
  case (init A s)
  then show ?case using Init_state [OF init(1)] by (simp add: sent_ok_def main_stream_def jtag_start_def mixed_def exI [of _ 0])
next
  case (step s a s')
  then show ?case using sent_step [of s a] by simp
qed

text \<open>What \<^verbatim>\<open>xmd\<close> is told.\<close>

definition told_ok :: "jtag \<Rightarrow> bool" where
  "told_ok s \<longleftrightarrow> (\<exists>k. xmd_read s @ xmd_pipe s =
     (if writer_at s = Writer_Start \<or> writer_at s = Writer_Cmd then [] else termCmd @ concat (replicate k termCmd2)))"

lemma told_step:
  assumes ok: "told_ok s"
  shows "then_holds told_ok (jtag_act a s)"
proof (cases a)
  case Probe_Turn
  with ok show ?thesis by (cases "probe_at s") (simp_all add: told_ok_def jtag_steps)
next
  case Writer_Turn
  show ?thesis
  proof (cases "writer_at s")
    case Writer_Cmd
    with Writer_Turn ok show ?thesis by (simp add: told_ok_def jtag_steps exI [of _ 0] flip: append_assoc)
  next
    case Writer_Nudge
    then obtain k where "xmd_read s @ xmd_pipe s = termCmd @ concat (replicate k termCmd2)"
      using ok by (auto simp: told_ok_def)
    then have "xmd_read s @ xmd_pipe s @ termCmd2 = termCmd @ concat (replicate k termCmd2 @ [termCmd2])"
      by (simp flip: append_assoc)
    then have "\<exists>k. xmd_read s @ xmd_pipe s @ termCmd2 = termCmd @ concat (replicate k termCmd2)"
      by (metis replicate_Suc replicate_append_same)
    with Writer_Turn Writer_Nudge show ?thesis by (simp add: told_ok_def jtag_steps)
  qed (use Writer_Turn ok in \<open>simp_all add: told_ok_def jtag_steps\<close>)
next
  case Blank_Turn
  with ok show ?thesis by (cases "blank_at s"; cases "sock_rx s") (simp_all add: told_ok_def jtag_steps)
next
  case Main_Turn
  with ok show ?thesis by (cases "main_at s") (auto simp: told_ok_def jtag_steps)
qed (use ok in \<open>simp_all add: told_ok_def jtag_steps\<close>)

lemma reach_told: "jtag_reach s \<Longrightarrow> told_ok s"
proof (induction rule: jtag_reach.induct)
  case (init A s)
  then show ?case using Init_state [OF init(1)] by (simp add: told_ok_def jtag_start_def)
next
  case (step s a s')
  then show ?case using told_step [of s a] by simp
qed

text \<open>How many turns are left once \<^verbatim>\<open>killThreads\<close> is set.\<close>

definition turns_left :: "jtag \<Rightarrow> nat" where
  "turns_left s =
     (case probe_at s of Probe_Write \<Rightarrow> 3 | Probe_Sleep \<Rightarrow> 2 | Probe_Test \<Rightarrow> 1 | Probe_Ended \<Rightarrow> 0) +
     (case writer_at s of Writer_Start \<Rightarrow> 3 | Writer_Cmd \<Rightarrow> 2 | Writer_Test \<Rightarrow> 1 | Writer_Nudge \<Rightarrow> 3 | Writer_Sleep \<Rightarrow> 2
        | Writer_Ended \<Rightarrow> 0) +
     (case blank_at s of Blank_Start \<Rightarrow> 2 | Blank_Test \<Rightarrow> 1 | Blank_Read \<Rightarrow> 3 | Blank_Forward \<Rightarrow> 2 | Blank_Junk \<Rightarrow> 2
        | Blank_Ended \<Rightarrow> 0) + (5 - main_number (main_at s))"

fun own_turn :: "jtag_action \<Rightarrow> bool" where
  "own_turn Probe_Turn = True"
| "own_turn Writer_Turn = True"
| "own_turn Blank_Turn = True"
| "own_turn Main_Turn = True"
| "own_turn _ = False"

lemma turns_left_bound: "killThreads s \<Longrightarrow> places_ok s \<Longrightarrow> turns_left s \<le> 13"
  by (cases "probe_at s"; cases "writer_at s"; cases "blank_at s"; cases "main_at s")
    (simp_all add: turns_left_def places_ok_def main_number_def)

lemma turns_left_step:
  assumes k: "killThreads s" and ok: "places_ok s" and a: "a \<noteq> Call_Cleanup"
  shows "then_holds (\<lambda>s'. killThreads s' \<and> turns_left s' + (if own_turn a then 1 else 0) \<le> turns_left s) (jtag_act a s)"
proof (cases a)
  case Probe_Turn
  with k show ?thesis by (cases "probe_at s") (simp_all add: turns_left_def jtag_steps)
next
  case Writer_Turn
  with k show ?thesis by (cases "writer_at s") (simp_all add: turns_left_def jtag_steps)
next
  case Blank_Turn
  with k show ?thesis by (cases "blank_at s"; cases "sock_rx s") (simp_all add: turns_left_def jtag_steps)
next
  case Main_Turn
  with k ok show ?thesis by (cases "main_at s") (simp_all add: turns_left_def jtag_steps main_number_def places_ok_def)
next
  case (Call_Write data)
  with k ok show ?thesis by (cases "main_at s") (simp_all add: jtag_steps main_number_def places_ok_def)
qed (use k a in \<open>simp_all add: turns_left_def jtag_steps\<close>)

lemma turns_left_run:
  assumes "jtag_run as s = Some s'" "killThreads s" "places_ok s" "Call_Cleanup \<notin> set as"
  shows "places_ok s' \<and> killThreads s' \<and> turns_left s' + length (filter own_turn as) \<le> turns_left s"
  using assms
proof (induction as s rule: jtag_run.induct)
  case (2 a as s)
  then obtain s1 where s1: "jtag_act a s = Goes s1" "jtag_run as s1 = Some s'" by (auto split: jtag_outcome.splits)
  have "killThreads s1 \<and> turns_left s1 + (if own_turn a then 1 else 0) \<le> turns_left s" "places_ok s1"
    using turns_left_step [of s a] places_step [of s a] 2(3-5) s1(1) by auto
  with 2(1) [OF s1(1) s1(2)] 2(5) show ?case by auto
qed simp

text \<open>The three ways a thread may wait.\<close>

definition thread_waits :: "jtag \<Rightarrow> bool" where
  "thread_waits s \<longleftrightarrow> blank_at s = Blank_Read \<and> sock_rx s = [] \<and> \<not> rx_end s \<or>
     blank_at s = Blank_Forward \<and> room s \<le> length (blank_pipe s) \<or>
     writer_at s = Writer_Cmd \<and> room s < length (xmd_pipe s) + length termCmd \<or>
     writer_at s = Writer_Nudge \<and> room s < length (xmd_pipe s) + length termCmd2"

lemma cleanup_progress:
  assumes ok: "places_ok s" and k: "killThreads s"
    and stuck: "\<And>a. own_turn a \<Longrightarrow> jtag_act a s = Waits"
  shows "main_at s = Main_Down \<or> thread_waits s"
proof -
  have turns: "ProbeHW s = Waits" "XMDWriter s = Waits" "RemoveBlanks s = Waits" "main_turn s = Waits"
    using stuck [of Probe_Turn] stuck [of Writer_Turn] stuck [of Blank_Turn] stuck [of Main_Turn] by simp_all
  have p: "probe_at s = Probe_Ended"
    using turns(1) by (cases "probe_at s") (simp_all add: jtag_steps split: if_splits)
  have w: "writer_at s = Writer_Ended \<or> thread_waits s"
    using turns(2) by (cases "writer_at s") (simp_all add: jtag_steps thread_waits_def split: if_splits)
  have b: "blank_at s = Blank_Ended \<or> thread_waits s"
    using turns(3) by (cases "blank_at s") (simp_all add: jtag_steps thread_waits_def split: if_splits list.splits)
  show ?thesis
    using p w b turns(4) ok k by (cases "main_at s") (auto simp: jtag_steps places_ok_def main_number_def split: if_splits)
qed

section \<open>Properties\<close>

text \<open>
  C12. In every reachable state what \<^verbatim>\<open>Read\<close> gave, with what waits in the pipe and in the hands of the
  thread, is exactly the bytes of what the terminal said so far that are above 40 as a signed
  \<^verbatim>\<open>char\<close>, 41 to 127 (the bytes from 128 on are dropped as well), in order. Only once the
  terminal has closed its end and everything it said was taken are there copies of the last byte
  behind them, because the thread does not look at the result of its read.
\<close>

theorem reads_follow_terminal:
  assumes "jtag_reach s"
  shows "said s = taken s @ sock_rx s \<and>
    (\<exists>m. delivered s @ blank_pipe s @ in_hand (blank_at s) (blank_buf s) = filter keeps (taken s) @ replicate m (blank_buf s) \<and>
       (m = 0 \<or> rx_end s \<and> sock_rx s = []) \<and> (taken s \<noteq> [] \<longrightarrow> blank_buf s = last (taken s)))"
  using reach_stream [OF assms] by (auto simp: stream_ok_def copied_def)

definition jtag_answers0 :: jtag_answers where
  "jtag_answers0 = \<lparr>a_errfd = True, a_xmdfd = True, a_pipe = True, a_fork = 77, a_exec = True, a_socket = True, a_host = True,
     a_connect = (\<lambda>i. i = 2), a_pipe2 = True, a_junk = 0, a_room = 100\<rparr>"

lemma jtag_example_init: "jtag_Init jtag_answers0 = Initialised (jtag_start jtag_answers0)"
  by (simp add: jtag_Init_def jtag_answers0_def connect_loop.simps eval_nat_numeral)

text \<open>A run never uses a state that cannot be reached.\<close>

lemma jtag_reach_run:
  "\<lbrakk>jtag_reach s; jtag_run as s = Some s'; Call_Cleanup \<notin> set as\<rbrakk> \<Longrightarrow> jtag_reach s'"
proof (induction as s rule: jtag_run.induct)
  case (2 a as s)
  then obtain s1 where "jtag_act a s = Goes s1" "jtag_run as s1 = Some s'" by (auto split: jtag_outcome.splits)
  with 2 show ?case using jtag_reach.step [OF 2(2), of a s1] by auto
qed simp

lemma jtag_example_reach: "jtag_reach (jtag_start jtag_answers0)"
  by (rule jtag_reach.init [OF jtag_example_init]) (simp_all add: jtag_answers0_def)

lemmas jtag_run_simps = jtag_steps jtag_start_def jtag_answers0_def keeps_def CRLF_def termCmd_def termCmd2_def

text \<open>The terminal says an A, a blank and a B and closes its end; the thread goes round five times.\<close>

definition stale_acts :: "jtag_action list" where
  "stale_acts = [Xmd_Says [65, 32, 66], Xmd_Closes] @ replicate 16 Blank_Turn @ [Call_Read 2]"

lemma stale_example:
  "\<exists>s. jtag_run stale_acts (jtag_start jtag_answers0) = Some s \<and> delivered s = [65, 66] \<and> blank_pipe s = [66, 66]"
  by (simp add: stale_acts_def jtag_run_simps eval_nat_numeral)

theorem reads_follow_terminal_witness:
  "\<exists>(s :: jtag) m. delivered s @ blank_pipe s = [65, 66, 66, 66] \<and>
     delivered s @ blank_pipe s @ in_hand (blank_at s) (blank_buf s) = filter keeps (taken s) @ replicate m (blank_buf s)"
proof -
  obtain s where s: "jtag_run stale_acts (jtag_start jtag_answers0) = Some s" "delivered s = [65, 66]" "blank_pipe s = [66, 66]"
    using stale_example by blast
  have "jtag_reach s" by (rule jtag_reach_run [OF jtag_example_reach s(1)]) (simp add: stale_acts_def)
  from reads_follow_terminal [OF this] obtain m where
    "delivered s @ blank_pipe s @ in_hand (blank_at s) (blank_buf s) = filter keeps (taken s) @ replicate m (blank_buf s)"
    by blast
  moreover have "delivered s @ blank_pipe s = [65, 66, 66, 66]" using s(2,3) by simp
  ultimately show ?thesis by blast
qed

text \<open>
  C22. Once \<^verbatim>\<open>Cleanup\<close> has set \<^verbatim>\<open>killThreads\<close>, at most 13 more steps of the program follow, however \<^verbatim>\<open>xmd\<close>
  behaves; when none can follow, \<^verbatim>\<open>Cleanup\<close> has returned, or a thread waits for a byte of the terminal,
  for room in the pipe that nobody reads any more, or for room in the pipe to \<^verbatim>\<open>xmd\<close>.
\<close>

theorem cleanup_ends_or_waits:
  assumes "jtag_reach s" "killThreads s" "jtag_run as s = Some s'" "Call_Cleanup \<notin> set as"
  shows "length (filter own_turn as) \<le> 13 \<and>
    ((\<forall>a. own_turn a \<longrightarrow> jtag_act a s' = Waits) \<longrightarrow> main_at s' = Main_Down \<or> thread_waits s')"
proof -
  have ok: "places_ok s" by (rule reach_places [OF assms(1)])
  from turns_left_run [OF assms(3,2) ok assms(4)]
  have run: "places_ok s'" "killThreads s'" "turns_left s' + length (filter own_turn as) \<le> turns_left s" by auto
  then show ?thesis using turns_left_bound [OF assms(2) ok] cleanup_progress [OF run(1,2)] by auto
qed

text \<open>The flag is set; then the threads end, since the terminal closes its end, and \<^verbatim>\<open>Cleanup\<close> returns.\<close>

definition killed :: jtag where
  "killed = (jtag_start jtag_answers0)\<lparr>killThreads := True, main_at := Join_Probe\<rparr>"

definition ending_acts :: "jtag_action list" where
  "ending_acts = [Probe_Turn, Main_Turn, Writer_Turn, Writer_Turn, Writer_Turn, Main_Turn, Xmd_Closes, Blank_Turn, Blank_Turn,
     Main_Turn, Main_Turn]"

lemma killed_reach: "jtag_reach killed"
  by (rule jtag_reach.step [OF jtag_example_reach, of Call_Cleanup])
    (simp_all add: killed_def jtag_steps jtag_start_def)

lemma ending_example:
  "\<exists>s'. jtag_run ending_acts killed = Some s' \<and> main_at s' = Main_Down"
  by (simp add: ending_acts_def killed_def jtag_run_simps eval_nat_numeral)

theorem cleanup_ends_or_waits_witness:
  "\<exists>s'. jtag_run ending_acts killed = Some s' \<and> main_at s' = Main_Down \<and> length (filter own_turn ending_acts) \<le> 13"
proof -
  obtain s' where s': "jtag_run ending_acts killed = Some s'" "main_at s' = Main_Down" using ending_example by blast
  have "killThreads killed" "Call_Cleanup \<notin> set ending_acts" by (simp_all add: killed_def ending_acts_def)
  from cleanup_ends_or_waits [OF killed_reach this(1) s'(1) this(2)] s' show ?thesis by blast
qed

text \<open>
  As long as \<^verbatim>\<open>Cleanup\<close> is called once no step uses a closed stream or descriptor or joins a thread
  twice; a second call does: \<^verbatim>\<open>Uninit\<close> and the destructor both make one.
\<close>

theorem one_cleanup_is_safe:
  assumes "jtag_reach s"
  shows "(a = Call_Cleanup \<longrightarrow> main_at s \<noteq> Main_Down) \<longrightarrow> jtag_act a s \<noteq> Wrong"
    and "main_at s = Main_Down \<Longrightarrow> \<exists>s1. jtag_act Call_Cleanup s = Goes s1 \<and> jtag_act Main_Turn s1 = Wrong"
proof -
  show "(a = Call_Cleanup \<longrightarrow> main_at s \<noteq> Main_Down) \<longrightarrow> jtag_act a s \<noteq> Wrong"
    using places_step [OF reach_places [OF assms]] by blast
  show "\<exists>s1. jtag_act Call_Cleanup s = Goes s1 \<and> jtag_act Main_Turn s1 = Wrong" if "main_at s = Main_Down"
    using reach_places [OF assms] that by (auto simp: places_ok_def main_number_def jtag_steps)
qed

text \<open>A terminal that closed its end after a byte above 40: each round of the thread adds the byte again, until the pipe is full.\<close>

lemma stale_round:
  assumes "blank_at s = Blank_Test" "\<not> killThreads s" "sock_open s" "sock_rx s = []" "rx_end s" "keeps (blank_buf s)"
    "length (blank_pipe s) < room s"
  shows "jtag_run (replicate 3 Blank_Turn) s = Some (s\<lparr>blank_pipe := blank_pipe s @ [blank_buf s]\<rparr>)"
  using assms by (cases s) (simp add: RemoveBlanks_def blank_decide_def eval_nat_numeral)

text \<open>
  What is sent is the writes, each with an end of line, mixed with ends of line of the probe; \<^verbatim>\<open>xmd\<close> is
  told the command, then ends of line, each followed by a NUL because \<^verbatim>\<open>sizeof\<close> counts it.
\<close>

theorem sent_is_mixed: "jtag_reach s \<Longrightarrow> mixed (sent s) (main_stream (main_at s) (writes s))"
  using reach_sent by (simp add: sent_ok_def)

theorem xmd_is_told:
  "jtag_reach s \<Longrightarrow> \<exists>k. xmd_read s @ xmd_pipe s = [] \<or> xmd_read s @ xmd_pipe s = termCmd @ concat (replicate k termCmd2)"
  using reach_told [of s] by (auto simp: told_ok_def split: if_splits)

text \<open>
  When the child cannot start \<^verbatim>\<open>xmd\<close> it initialises itself as a second host with process number 0, and
  when there is no child the number is -1; \<^verbatim>\<open>Cleanup\<close> passes either to \<^verbatim>\<open>kill\<close>, which then signals the
  whole group, or every process of the user.
\<close>

lemma child_goes_on:
  assumes "a_pipe A" "a_fork A = 0" "\<not> a_exec A" "a_xmdfd A" "a_errfd A" "a_host A" "a_socket A" "a_connect A 0" "a_pipe2 A"
  shows "jtag_Init A = Initialised (jtag_start A) \<and> pid_XMD (jtag_start A) = 0"
proof -
  have "connect_loop (\<lambda>i. a_socket A \<and> a_connect A i) 0 = Some 0" by (subst connect_loop.simps) (simp add: assms)
  with assms show ?thesis by (simp add: jtag_Init_def jtag_start_def)
qed

lemma cleanup_signals: "close_all s = Goes s' \<Longrightarrow> signalled s' = Some (pid_XMD s)"
  by (auto simp: close_all_def split: if_splits)

lemma init_needs_connection:
  "jtag_Init A = Initialised s \<Longrightarrow> a_socket A \<and> (\<exists>i \<le> 11. a_connect A i \<and> (\<forall>j < i. \<not> a_connect A j))"
  using connect_loop_result [of 0 "\<lambda>i. a_socket A \<and> a_connect A i"]
  by (auto simp: jtag_Init_def split: if_splits option.splits)

end
