(* ===== verification/Jtag_Nios.thy ===== *)
theory Jtag_Nios
  imports Leap_Prelude
begin

text \<open>
  \<^verbatim>\<open>physical-devices/jtag/altera/jtag-device.cpp\<close>: the host's JTAG device for Altera boards. It starts
  \<^verbatim>\<open>nios2-terminal\<close> with a pipe to its input and one from its output, and reads and writes these. A
  blocking write returns when everything is in the pipe; \<^verbatim>\<open>SIGPIPE\<close> ends the process. The text of the
  log is not modelled.
\<close>

section \<open>State\<close>

text \<open>
  \<^verbatim>\<open>output\<close> is the end of the pipe to the terminal, \<^verbatim>\<open>input\<close> that of the pipe from it; whether they are
  open, the bytes in the pipes, whether the terminal has ended, the processes signalled, and the
  histories of both directions.
\<close>

record nios =
  pid_NIOS :: int
  output_open :: bool
  input_open :: bool
  nios_gone :: bool
  to_nios :: "u8 list"
  from_nios :: "u8 list"
  terminated :: "int list"
  stray_closes :: nat
  wrote :: "u8 list"
  nios_took :: "u8 list"
  nios_said :: "u8 list"
  host_got :: "u8 list"

record nios_answers =
  n_errfd :: bool
  n_niosfd :: bool
  n_pipe1 :: bool
  n_pipe2 :: bool
  n_fork :: int
  n_exec :: bool

datatype nios_init = Nios_Exit | Became_Terminal | Nios_Wrong | Constructed nios

text \<open>A call that waits, that ends the process, or that returns a number and the bytes read.\<close>

datatype nios_result = Nios_Waits | Nios_Sigpipe | Returns int "u8 list" nios

section \<open>The device\<close>

definition nios_start :: "int \<Rightarrow> bool \<Rightarrow> nios" where
  "nios_start pid mine = \<lparr>pid_NIOS = pid, output_open = mine, input_open = mine, nios_gone = (pid < 0), to_nios = [],
     from_nios = [], terminated = [], stray_closes = 0, wrote = [], nios_took = [], nios_said = [], host_got = []\<rparr>"

text \<open>
  The constructor. The child closes the ends of the parent and becomes the terminal; when it cannot
  it goes on with the code of the parent. A log that could not be opened is written all the same.
\<close>

definition nios_construct :: "nios_answers \<Rightarrow> nios_init" where
  "nios_construct A =
     (if \<not> n_pipe1 A \<or> \<not> n_pipe2 A then Nios_Exit
      else if n_fork A = 0 \<and> (\<not> n_niosfd A \<or> \<not> n_errfd A) then Nios_Wrong
      else if n_fork A = 0 \<and> n_exec A then Became_Terminal
      else if \<not> n_errfd A then Nios_Wrong
      else Constructed (nios_start (n_fork A) (n_fork A \<noteq> 0)))"

text \<open>\<^verbatim>\<open>Uninit\<close> and the destructor both call \<^verbatim>\<open>Cleanup\<close>. Closing a descriptor twice may hit another file.\<close>

definition nios_Cleanup :: "nios \<Rightarrow> nios" where
  "nios_Cleanup s = s\<lparr>terminated := terminated s @ [pid_NIOS s],
     stray_closes := stray_closes s + (if output_open s then 0 else 1) + (if input_open s then 0 else 1),
     output_open := False, input_open := False\<rparr>"

text \<open>\<^verbatim>\<open>select\<close> leaves the set as it is for a descriptor that is not open; a pipe at its end is ready.\<close>

definition nios_Probe :: "nios \<Rightarrow> bool" where
  "nios_Probe s \<longleftrightarrow> \<not> input_open s \<or> from_nios s \<noteq> [] \<or> nios_gone s"

definition nios_Read :: "nat \<Rightarrow> nios \<Rightarrow> nios_result" where
  "nios_Read n s = (if \<not> input_open s then Returns (- 1) [] s
     else if 0 < n \<and> from_nios s = [] \<and> \<not> nios_gone s then Nios_Waits
     else let bs = take n (from_nios s) in
       Returns (int (length bs)) bs (s\<lparr>from_nios := drop n (from_nios s), host_got := host_got s @ bs\<rparr>))"

definition nios_Write :: "u8 list \<Rightarrow> nios \<Rightarrow> nios_result" where
  "nios_Write data s = (if \<not> output_open s then Returns (- 1) [] s
     else if nios_gone s then Nios_Sigpipe
     else Returns (int (length data)) [] (s\<lparr>to_nios := to_nios s @ data, wrote := wrote s @ data\<rparr>))"

section \<open>Runs\<close>

text \<open>Calls of the host and what the terminal does: it takes bytes, says some while it runs, or ends.\<close>

inductive nios_reach :: "nios \<Rightarrow> bool" where
  construct: "nios_construct A = Constructed s \<Longrightarrow> nios_reach s"
| host_cleanup: "nios_reach s \<Longrightarrow> nios_reach (nios_Cleanup s)"
| host_read: "\<lbrakk>nios_reach s; nios_Read n s = Returns r bs s'\<rbrakk> \<Longrightarrow> nios_reach s'"
| host_write: "\<lbrakk>nios_reach s; nios_Write data s = Returns r bs s'\<rbrakk> \<Longrightarrow> nios_reach s'"
| fetches: "nios_reach s \<Longrightarrow> nios_reach (s\<lparr>to_nios := drop n (to_nios s), nios_took := nios_took s @ take n (to_nios s)\<rparr>)"
| speaks: "\<lbrakk>nios_reach s; \<not> nios_gone s\<rbrakk> \<Longrightarrow> nios_reach (s\<lparr>from_nios := from_nios s @ bs, nios_said := nios_said s @ bs\<rparr>)"
| finishes: "nios_reach s \<Longrightarrow> nios_reach (s\<lparr>nios_gone := True\<rparr>)"

section \<open>Properties\<close>

text \<open>
  However the calls of the host and the steps of the terminal follow each other, each side gets
  the bytes of the other in order, the rest being in the pipe.
\<close>

theorem nios_channel:
  assumes "nios_reach s"
  shows "nios_said s = host_got s @ from_nios s \<and> wrote s = nios_took s @ to_nios s"
  using assms
proof induction
  case (construct A s)
  then show ?case by (auto simp: nios_construct_def nios_start_def split: if_splits)
qed (auto simp: nios_Cleanup_def nios_Read_def nios_Write_def Let_def split: if_splits)

definition nios_answers0 :: nios_answers where
  "nios_answers0 = \<lparr>n_errfd = True, n_niosfd = True, n_pipe1 = True, n_pipe2 = True, n_fork = 9, n_exec = True\<rparr>"

theorem nios_channel_witness:
  "\<exists>s. nios_reach s \<and> nios_said s = [1, 2, 3] \<and> host_got s = [1, 2] \<and> [1, 2, 3] = host_got s @ from_nios s"
proof -
  let ?s0 = "nios_start 9 True"
  let ?s1 = "?s0\<lparr>from_nios := from_nios ?s0 @ [1, 2, 3], nios_said := nios_said ?s0 @ [1, 2, 3]\<rparr>"
  let ?s2 = "?s1\<lparr>from_nios := drop 2 (from_nios ?s1), host_got := host_got ?s1 @ take 2 (from_nios ?s1)\<rparr>"
  have "nios_reach ?s0" by (rule nios_reach.construct [of nios_answers0]) (simp add: nios_construct_def nios_answers0_def)
  then have "nios_reach ?s1" by (rule nios_reach.speaks) (simp add: nios_start_def)
  then have r: "nios_reach ?s2"
    by (rule nios_reach.host_read [where n = 2 and r = 2 and bs = "[1, 2]"]) (simp add: nios_Read_def nios_start_def Let_def)
  have "nios_said ?s2 = [1, 2, 3]" "host_got ?s2 = [1, 2]" by (simp_all add: nios_start_def)
  with r nios_channel [OF r] show ?thesis by metis
qed

text \<open>
  \<^verbatim>\<open>Probe\<close> is true exactly when \<^verbatim>\<open>Read\<close> would not wait. After the terminal has ended, or the device was
  cleaned up, it stays true and reads return 0, or -1, for ever.
\<close>

lemma probe_read: "0 < n \<Longrightarrow> nios_Probe s \<longleftrightarrow> nios_Read n s \<noteq> Nios_Waits"
  by (simp add: nios_Probe_def nios_Read_def Let_def)

lemma read_after_end:
  "\<lbrakk>nios_gone s; from_nios s = []; input_open s\<rbrakk> \<Longrightarrow> nios_Probe s \<and> nios_Read n s = Returns 0 [] s"
  by (simp add: nios_Probe_def nios_Read_def)

lemma read_after_cleanup: "nios_Probe (nios_Cleanup s) \<and> nios_Read n (nios_Cleanup s) = Returns (- 1) [] (nios_Cleanup s)"
  by (simp add: nios_Probe_def nios_Read_def nios_Cleanup_def)

text \<open>
  The second \<^verbatim>\<open>Cleanup\<close> signals the process number again and closes two descriptors that are not the
  device's any more. Without a child the number is -1, in a child that could not start it is 0.
\<close>

lemma second_cleanup:
  "stray_closes (nios_Cleanup (nios_Cleanup s)) = stray_closes (nios_Cleanup s) + 2 \<and>
   terminated (nios_Cleanup (nios_Cleanup s)) = terminated s @ [pid_NIOS s, pid_NIOS s]"
  by (simp add: nios_Cleanup_def)

lemma failed_fork_signals_all:
  "\<lbrakk>nios_construct A = Constructed s; n_fork A = - 1\<rbrakk> \<Longrightarrow> terminated (nios_Cleanup s) = [- 1]"
  by (auto simp: nios_construct_def nios_start_def nios_Cleanup_def split: if_splits)

lemma failed_exec_goes_on:
  "\<lbrakk>n_pipe1 A; n_pipe2 A; n_fork A = 0; \<not> n_exec A; n_errfd A; n_niosfd A\<rbrakk> \<Longrightarrow>
     nios_construct A = Constructed (nios_start 0 False)"
  by (simp add: nios_construct_def)

end
