(* ===== verification/Fxload_Hex.thy ===== *)
theory Fxload_Hex
  imports Leap_Prelude C_Library
begin

text \<open>
  \<^verbatim>\<open>drivers/linux/Xilinx_Platform_Cable/fxload/ezusb.c\<close>, first half: which addresses of the
  cable's microcontroller are external memory, and \<^verbatim>\<open>parse_ihex\<close>, which reads an Intel HEX image
  and hands its merged segments to a callback. The line buffer is never initialised, so what it
  holds before the first line is an argument; a store outside the two arrays of the function
  is the outcome \<^verbatim>\<open>Overruns\<close>. \<^verbatim>\<open>size_t\<close> and \<^verbatim>\<open>unsigned long\<close> have 64 bits.
\<close>

section \<open>External memory\<close>

definition fx_is_external :: "u16 \<Rightarrow> nat \<Rightarrow> bool" where
  "fx_is_external addr len =
     (if unat addr \<le> 0x1b3f then unat addr + len > 0x1b40 else True)"

definition fx2_is_external :: "u16 \<Rightarrow> nat \<Rightarrow> bool" where
  "fx2_is_external addr len =
     (if unat addr \<le> 0x1fff then unat addr + len > 0x2000
      else if unat addr \<ge> 0xe000 \<and> unat addr \<le> 0xe1ff then unat addr + len > 0xe200
      else True)"

definition fx2lp_is_external :: "u16 \<Rightarrow> nat \<Rightarrow> bool" where
  "fx2lp_is_external addr len =
     (if unat addr \<le> 0x3fff then unat addr + len > 0x4000
      else if unat addr \<ge> 0xe000 \<and> unat addr \<le> 0xe1ff then unat addr + len > 0xe200
      else True)"

section \<open>The line buffer\<close>

definition LINE_SIZE :: nat where "LINE_SIZE = 512"

definition DATA_SIZE :: nat where "DATA_SIZE = 1023"

text \<open>\<^verbatim>\<open>fgets\<close> stores the line and a NUL in front of what the buffer held.\<close>

definition store_line :: "string \<Rightarrow> string \<Rightarrow> string" where
  "store_line line buf = line @ NUL # drop (length line + 1) buf"

text \<open>\<^verbatim>\<open>strchr (buf, '\n')\<close> and the NUL stored there.\<close>

definition cut_newline :: "string \<Rightarrow> string" where
  "cut_newline buf =
     (if NL \<in> set (cstr buf)
      then buf[length (takeWhile (\<lambda>c. c \<noteq> NL) (cstr buf)) := NUL] else buf)"

text \<open>
  A field is read with a NUL put for a moment behind it: the C string from \<^verbatim>\<open>first\<close> on, ending
  before \<^verbatim>\<open>last\<close> at the latest.
\<close>

definition hex_field :: "string \<Rightarrow> nat \<Rightarrow> nat \<Rightarrow> u64" where
  "hex_field buf i j = strtoul 16 (cstr (take (j - i) (drop i buf)))"

section \<open>Parsing\<close>

datatype fx_end = Returns int | Overruns | Divides_by_zero

record ihex =
  ih_buf :: string
  ih_addr :: u16
  ih_data :: "u8 list"
  ih_first :: bool

type_synonym 'c poker = "'c \<Rightarrow> u16 \<Rightarrow> bool \<Rightarrow> u8 list \<Rightarrow> int \<times> 'c"
type_synonym segment = "u16 \<times> bool \<times> u8 list"

datatype 'c ihex_turn = Continue ihex 'c | Break ihex 'c | Stop fx_end 'c

text \<open>The loop that appends the bytes of a record; \<^verbatim>\<open>None\<close> leaves one of the arrays.\<close>

function append_bytes :: "string \<Rightarrow> nat \<Rightarrow> u64 \<Rightarrow> u8 list \<Rightarrow> u8 list option" where
  "append_bytes buf idx len data =
     (if of_nat idx < len
      then if DATA_SIZE \<le> length data \<or> LINE_SIZE \<le> 9 + 2 * idx + 2 then None
           else append_bytes buf (Suc idx) len
                  (data @ [ucast (hex_field buf (9 + 2 * idx) (9 + 2 * idx + 2))])
      else Some data)"
  by pat_completeness auto
termination by (relation "measure (\<lambda>(buf, idx, len, data). DATA_SIZE - length data)") auto

declare append_bytes.simps [simp del]

definition ihex_flush ::
    "(u16 \<Rightarrow> nat \<Rightarrow> bool) option \<Rightarrow> 'c poker \<Rightarrow> ihex \<Rightarrow> 'c \<Rightarrow> int \<times> 'c" where
  "ihex_flush is_external poke st ctx =
     poke ctx (ih_addr st)
       (case is_external of None \<Rightarrow> False | Some f \<Rightarrow> f (ih_addr st) (length (ih_data st)))
       (ih_data st)"

definition must_flush :: "ihex \<Rightarrow> u32 \<Rightarrow> u64 \<Rightarrow> bool" where
  "must_flush st off len \<longleftrightarrow> ih_data st \<noteq> []
     \<and> (ucast off \<noteq> (ucast (ih_addr st) + of_nat (length (ih_data st)) :: u64)
        \<or> of_nat (length (ih_data st)) + len > (of_nat DATA_SIZE :: u64))"

definition ihex_append :: "ihex \<Rightarrow> u64 \<Rightarrow> 'c \<Rightarrow> 'c ihex_turn" where
  "ihex_append st len ctx =
     (case append_bytes (ih_buf st) 0 len (ih_data st) of
        None \<Rightarrow> Stop Overruns ctx
      | Some data \<Rightarrow> Continue (st\<lparr>ih_data := data\<rparr>) ctx)"

text \<open>One data record: flush when it does not continue the segment, then append.\<close>

definition ihex_data ::
    "(u16 \<Rightarrow> nat \<Rightarrow> bool) option \<Rightarrow> 'c poker \<Rightarrow> ihex \<Rightarrow> u32 \<Rightarrow> u64 \<Rightarrow> 'c \<Rightarrow> 'c ihex_turn" where
  "ihex_data is_external poke st off len ctx =
     (if must_flush st off len
      then (let (rc, ctx') = ihex_flush is_external poke st ctx
            in if rc < 0 then Stop (Returns (- 1)) ctx'
               else ihex_append (st\<lparr>ih_addr := ucast off, ih_data := []\<rparr>) len ctx')
      else ihex_append st len ctx)"

definition ihex_line ::
    "(u16 \<Rightarrow> nat \<Rightarrow> bool) option \<Rightarrow> 'c poker \<Rightarrow> string \<Rightarrow> ihex \<Rightarrow> 'c \<Rightarrow> 'c ihex_turn" where
  "ihex_line is_external poke line st ctx =
     (let buf = store_line line (ih_buf st) in
      if buf ! 0 = CHR ''#'' then Continue (st\<lparr>ih_buf := buf\<rparr>) ctx
      else if buf ! 0 \<noteq> CHR '':'' then Stop (Returns (- 2)) ctx
      else
        let buf = cut_newline buf;
            len = hex_field buf 1 3;
            off = (ucast (hex_field buf 3 7) :: u32);
            st = st\<lparr>ih_buf := buf, ih_addr := (if ih_first st then ucast off else ih_addr st),
                    ih_first := False\<rparr>;
            type = (ucast (hex_field buf 7 9) :: u8)
        in if type = 1 then Break st ctx
           else if type \<noteq> 0 then Stop (Returns (- 3)) ctx
           else if len * 2 + 11 > of_nat (length (cstr buf)) then Stop (Returns (- 4)) ctx
           else ihex_data is_external poke st off len ctx)"

definition ihex_finish ::
    "(u16 \<Rightarrow> nat \<Rightarrow> bool) option \<Rightarrow> 'c poker \<Rightarrow> ihex \<Rightarrow> 'c \<Rightarrow> fx_end \<times> 'c" where
  "ihex_finish is_external poke st ctx =
     (if ih_data st \<noteq> []
      then (let (rc, ctx') = ihex_flush is_external poke st ctx
            in (Returns (if rc < 0 then - 1 else 0), ctx'))
      else (Returns 0, ctx))"

function ihex_loop ::
    "(u16 \<Rightarrow> nat \<Rightarrow> bool) option \<Rightarrow> 'c poker \<Rightarrow> string \<Rightarrow> ihex \<Rightarrow> 'c \<Rightarrow> fx_end \<times> 'c" where
  "ihex_loop is_external poke img st ctx =
     (case fgets LINE_SIZE img of
        None \<Rightarrow> ihex_finish is_external poke st ctx
      | Some (line, rest) \<Rightarrow>
          (case ihex_line is_external poke line st ctx of
             Continue st' ctx' \<Rightarrow> ihex_loop is_external poke rest st' ctx'
           | Break st' ctx' \<Rightarrow> ihex_finish is_external poke st' ctx'
           | Stop e ctx' \<Rightarrow> (e, ctx')))"
  by pat_completeness auto
termination
  by (relation "measure (\<lambda>(_, _, img, _, _). length img)")
    (auto simp: LINE_SIZE_def dest: fgets_progress)

declare ihex_loop.simps [simp del]

definition ihex_init :: "string \<Rightarrow> ihex" where
  "ihex_init junk = \<lparr>ih_buf = junk, ih_addr = 0, ih_data = [], ih_first = True\<rparr>"

definition parse_ihex ::
    "string \<Rightarrow> string \<Rightarrow> 'c \<Rightarrow> (u16 \<Rightarrow> nat \<Rightarrow> bool) option \<Rightarrow> 'c poker \<Rightarrow> fx_end \<times> 'c" where
  "parse_ihex junk img ctx is_external poke =
     ihex_loop is_external poke img (ihex_init junk) ctx"

section \<open>The segments of an image\<close>

text \<open>
  What an image holds, whatever the callback does: the segments a recording callback sees, and
  how parsing ends. With any callback the parser hands over these segments in order until the
  callback fails.
\<close>

definition record_poke :: "segment list poker" where
  "record_poke segs addr external data = (0, segs @ [(addr, external, data)])"

definition ihex_scan ::
    "string \<Rightarrow> string \<Rightarrow> (u16 \<Rightarrow> nat \<Rightarrow> bool) option \<Rightarrow> fx_end \<times> segment list" where
  "ihex_scan junk img is_external = parse_ihex junk img [] is_external record_poke"

fun poke_all :: "'c poker \<Rightarrow> segment list \<Rightarrow> 'c \<Rightarrow> bool \<times> 'c" where
  "poke_all poke [] ctx = (True, ctx)"
| "poke_all poke ((addr, external, data) # segs) ctx =
     (let (rc, ctx') = poke ctx addr external data
      in if rc < 0 then (False, ctx') else poke_all poke segs ctx')"

fun turn_ctx :: "'c ihex_turn \<Rightarrow> 'c" where
  "turn_ctx (Continue st ctx) = ctx"
| "turn_ctx (Break st ctx) = ctx"
| "turn_ctx (Stop e ctx) = ctx"

lemma poke_all_record: "poke_all record_poke segs acc = (True, acc @ segs)"
  by (induction segs arbitrary: acc) (auto simp: record_poke_def)

lemma poke_all_append:
  "poke_all poke (segs @ segs') ctx =
     (case poke_all poke segs ctx of (True, ctx') \<Rightarrow> poke_all poke segs' ctx'
      | (False, ctx') \<Rightarrow> (False, ctx'))"
  by (induction poke segs ctx rule: poke_all.induct) (auto split: prod.split)

lemma ihex_append_ctx:
  "ihex_append st len ctx = map_ihex_turn (\<lambda>_. ctx) (ihex_append st len ctx')"
  "turn_ctx (ihex_append st len ctx) = ctx"
  by (auto simp: ihex_append_def split: option.split)

lemma ihex_data_by:
  "ihex_data ie poke st off len ctx =
     (let t = ihex_data ie record_poke st off len []
      in case poke_all poke (turn_ctx t) ctx of
           (True, ctx') \<Rightarrow> map_ihex_turn (\<lambda>_. ctx') t
         | (False, ctx') \<Rightarrow> Stop (Returns (- 1)) ctx')"
  by (auto simp: ihex_data_def ihex_flush_def record_poke_def ihex_append_ctx(2) Let_def
      split: prod.split bool.split intro: ihex_append_ctx(1))

lemma ihex_line_by:
  "ihex_line ie poke line st ctx =
     (let t = ihex_line ie record_poke line st []
      in case poke_all poke (turn_ctx t) ctx of
           (True, ctx') \<Rightarrow> map_ihex_turn (\<lambda>_. ctx') t
         | (False, ctx') \<Rightarrow> Stop (Returns (- 1)) ctx')"
  unfolding ihex_line_def Let_def
  by (subst ihex_data_by) (simp add: Let_def del: One_nat_def)

lemma ihex_finish_by:
  "ihex_finish ie poke st ctx =
     (case poke_all poke (snd (ihex_finish ie record_poke st [])) ctx of
        (True, ctx') \<Rightarrow> (fst (ihex_finish ie record_poke st []), ctx')
      | (False, ctx') \<Rightarrow> (Returns (- 1), ctx'))"
  by (auto simp: ihex_finish_def ihex_flush_def record_poke_def split: prod.split bool.split)

lemma ihex_loop_record:
  "ihex_loop ie record_poke img st acc =
     (fst (ihex_loop ie record_poke img st []), acc @ snd (ihex_loop ie record_poke img st []))"
proof (induction img arbitrary: st acc rule: measure_induct_rule [of length])
  case (less img)
  show ?case
  proof (cases "fgets LINE_SIZE img")
    case None
    then show ?thesis
      using ihex_finish_by [of ie record_poke st acc]
      by (simp add: ihex_loop.simps [of ie record_poke img] poke_all_record)
  next
    case (Some lr)
    obtain line rest where lr: "lr = (line, rest)" by (cases lr)
    note f = Some [unfolded lr]
    note by_acc = ihex_line_by [of ie record_poke line st acc, unfolded Let_def poke_all_record, simplified]
    show ?thesis
    proof (cases "ihex_line ie record_poke line st []")
      case (Continue st' segs)
      have c: "ihex_line ie record_poke line st acc = Continue st' (acc @ segs)"
        using by_acc Continue by simp
      have shorter: "length rest < length img"
        using fgets_progress [OF f] by (simp add: LINE_SIZE_def)
      show ?thesis
        using f c Continue less.IH [OF shorter, of st' "acc @ segs"] less.IH [OF shorter, of st' segs]
        by (simp add: ihex_loop.simps [of ie record_poke img])
    next
      case (Break st' segs)
      then have "ihex_line ie record_poke line st acc = Break st' (acc @ segs)"
        using by_acc by simp
      then show ?thesis
        using f Break ihex_finish_by [of ie record_poke st' "acc @ segs"]
          ihex_finish_by [of ie record_poke st' segs]
        by (simp add: ihex_loop.simps [of ie record_poke img] poke_all_record)
    next
      case (Stop e segs)
      then have "ihex_line ie record_poke line st acc = Stop e (acc @ segs)"
        using by_acc by simp
      then show ?thesis
        using f Stop by (simp add: ihex_loop.simps [of ie record_poke img])
    qed
  qed
qed

lemma ihex_loop_by:
  "ihex_loop ie poke img st ctx =
     (case poke_all poke (snd (ihex_loop ie record_poke img st [])) ctx of
        (True, ctx') \<Rightarrow> (fst (ihex_loop ie record_poke img st []), ctx')
      | (False, ctx') \<Rightarrow> (Returns (- 1), ctx'))"
proof (induction img arbitrary: st ctx rule: measure_induct_rule [of length])
  case (less img)
  show ?case
  proof (cases "fgets LINE_SIZE img")
    case None
    then show ?thesis
      using ihex_finish_by [of ie poke st ctx]
      by (simp add: ihex_loop.simps [of ie poke img] ihex_loop.simps [of ie record_poke img]
          split: prod.split bool.split)
  next
    case (Some lr)
    obtain line rest where lr: "lr = (line, rest)" by (cases lr)
    note f = Some [unfolded lr]
    note by_line = ihex_line_by [of ie poke line st ctx, unfolded Let_def]
    show ?thesis
    proof (cases "ihex_line ie record_poke line st []")
      case (Continue st' segs)
      have shorter: "length rest < length img"
        using fgets_progress [OF f] by (simp add: LINE_SIZE_def)
      show ?thesis
        using f by_line Continue ihex_loop_record [of ie rest st' segs] less.IH [OF shorter, of st']
        by (simp add: ihex_loop.simps [of ie poke img] ihex_loop.simps [of ie record_poke img] poke_all_append split: prod.split bool.split)
    next
      case (Break st' segs)
      then show ?thesis
        using f by_line ihex_finish_by [of ie record_poke st' segs] ihex_finish_by [of ie poke st']
        by (simp add: ihex_loop.simps [of ie poke img] ihex_loop.simps [of ie record_poke img] poke_all_append poke_all_record
            split: prod.split bool.split)
    next
      case (Stop e segs)
      then show ?thesis
        using f by_line by (simp add: ihex_loop.simps [of ie poke img] ihex_loop.simps [of ie record_poke img] split: prod.split bool.split)
    qed
  qed
qed

lemma parse_by_scan:
  "parse_ihex junk img ctx ie poke =
     (case poke_all poke (snd (ihex_scan junk img ie)) ctx of
        (True, ctx') \<Rightarrow> (fst (ihex_scan junk img ie), ctx')
      | (False, ctx') \<Rightarrow> (Returns (- 1), ctx'))"
  unfolding parse_ihex_def ihex_scan_def by (rule ihex_loop_by)

section \<open>Sizes of the segments\<close>

text \<open>
  A predicate on the data collected so far that every append keeps, and that makes a flushed
  segment good, holds for every segment. It is used with the size of the buffer and with the
  external flag.
\<close>

lemma append_bytes_size:
  "append_bytes buf idx len data = Some d \<Longrightarrow> length data \<le> DATA_SIZE \<Longrightarrow> length d \<le> DATA_SIZE"
proof (induction buf idx len data rule: append_bytes.induct)
  case (1 buf idx len data)
  from "1.prems" show ?case
    by (subst (asm) append_bytes.simps) (auto split: if_splits dest: "1.IH")
qed

definition good_segment :: "(u16 \<Rightarrow> nat \<Rightarrow> bool) option \<Rightarrow> segment \<Rightarrow> bool" where
  "good_segment ie seg =
     (case seg of (addr, external, data) \<Rightarrow>
        data \<noteq> [] \<and> length data \<le> DATA_SIZE
        \<and> external = (case ie of None \<Rightarrow> False | Some f \<Rightarrow> f addr (length data)))"

lemma ihex_line_rule:
  assumes "\<And>st'. ih_data st' = ih_data st \<Longrightarrow> P (Continue st' ctx)"
    and "\<And>st'. ih_data st' = ih_data st \<Longrightarrow> P (Break st' ctx)"
    and "\<And>e. P (Stop e ctx)"
    and "\<And>st1 off len. ih_data st1 = ih_data st \<Longrightarrow> P (ihex_data ie poke st1 off len ctx)"
  shows "P (ihex_line ie poke line st ctx)"
  unfolding ihex_line_def Let_def by (simp add: assms)

definition turn_good :: "(u16 \<Rightarrow> nat \<Rightarrow> bool) option \<Rightarrow> segment list ihex_turn \<Rightarrow> bool" where
  "turn_good ie t \<longleftrightarrow> (\<forall>s \<in> set (turn_ctx t). good_segment ie s)
     \<and> (\<forall>st' c. (t = Continue st' c \<or> t = Break st' c) \<longrightarrow> length (ih_data st') \<le> DATA_SIZE)"

lemma ihex_append_good:
  "length (ih_data st) \<le> DATA_SIZE \<Longrightarrow> \<forall>s \<in> set acc. good_segment ie s \<Longrightarrow>
     turn_good ie (ihex_append st len acc)"
  by (auto simp: turn_good_def ihex_append_def split: option.splits dest: append_bytes_size)

lemma ihex_data_good:
  assumes "length (ih_data st) \<le> DATA_SIZE" "\<forall>s \<in> set acc. good_segment ie s"
  shows "turn_good ie (ihex_data ie record_poke st off len acc)"
proof (cases "must_flush st off len")
  case True
  then have "good_segment ie (ih_addr st,
      case ie of None \<Rightarrow> False | Some f \<Rightarrow> f (ih_addr st) (length (ih_data st)), ih_data st)"
    using assms(1) by (simp add: good_segment_def must_flush_def)
  with True assms(2) show ?thesis
    by (simp add: ihex_data_def ihex_flush_def record_poke_def ihex_append_good)
next
  case False
  with assms show ?thesis by (simp add: ihex_data_def ihex_append_good)
qed

lemma ihex_line_good:
  assumes "length (ih_data st) \<le> DATA_SIZE" "\<forall>s \<in> set acc. good_segment ie s"
  shows "turn_good ie (ihex_line ie record_poke line st acc)"
  by (rule ihex_line_rule) (use assms in \<open>simp_all add: ihex_data_good, simp_all add: turn_good_def\<close>)

lemma ihex_finish_good:
  assumes "length (ih_data st) \<le> DATA_SIZE" "\<forall>s \<in> set acc. good_segment ie s"
  shows "\<forall>s \<in> set (snd (ihex_finish ie record_poke st acc)). good_segment ie s"
  using assms by (auto simp: ihex_finish_def ihex_flush_def record_poke_def good_segment_def)

lemma ihex_loop_good:
  "length (ih_data st) \<le> DATA_SIZE \<Longrightarrow> \<forall>s \<in> set acc. good_segment ie s \<Longrightarrow>
     \<forall>s \<in> set (snd (ihex_loop ie record_poke img st acc)). good_segment ie s"
proof (induction img arbitrary: st acc rule: measure_induct_rule [of length])
  case (less img)
  show ?case
  proof (cases "fgets LINE_SIZE img")
    case None
    with less.prems show ?thesis
      using ihex_finish_good by (simp add: ihex_loop.simps [of ie _ img])
  next
    case (Some lr)
    obtain line rest where lr: "lr = (line, rest)" by (cases lr)
    note f = Some [unfolded lr]
    have shorter: "length rest < length img"
      using fgets_progress [OF f] by (simp add: LINE_SIZE_def)
    note g = ihex_line_good [OF less.prems, of line, unfolded turn_good_def]
    show ?thesis
    proof (cases "ihex_line ie record_poke line st acc")
      case (Continue st' segs)
      with g f less.IH [OF shorter, of st' segs] show ?thesis
        by (simp add: ihex_loop.simps [of ie _ img])
    next
      case (Break st' segs)
      with g f ihex_finish_good [of st' segs ie] show ?thesis
        by (simp add: ihex_loop.simps [of ie _ img])
    next
      case (Stop e segs)
      with g f show ?thesis by (simp add: ihex_loop.simps [of ie _ img])
    qed
  qed
qed

lemma scan_good: "\<forall>s \<in> set (snd (ihex_scan junk img ie)). good_segment ie s"
  unfolding ihex_scan_def parse_ihex_def
  by (rule ihex_loop_good) (simp_all add: ihex_init_def)

section \<open>What a line says\<close>

text \<open>The text of a line: up to its newline or an embedded NUL.\<close>

definition line_text :: "string \<Rightarrow> string" where
  "line_text line = takeWhile (\<lambda>c. c \<noteq> NL) (cstr line)"

lemma cstr_update_NUL: "i \<le> length (cstr buf) \<Longrightarrow> cstr (buf[i := NUL]) = take i (cstr buf)"
proof (induction buf arbitrary: i)
  case (Cons c buf)
  then show ?case by (cases i) (auto simp: cstr_def split: if_splits)
qed (simp add: cstr_def)

lemma cstr_store_line: "cstr (store_line line buf) = cstr line"
proof -
  have "cstr (line @ NUL # r) = cstr line" for r
    by (induction line) (auto simp: cstr_def)
  then show ?thesis by (simp add: store_line_def)
qed

lemma cstr_cut_newline: "cstr (cut_newline buf) = takeWhile (\<lambda>c. c \<noteq> NL) (cstr buf)"
proof (cases "NL \<in> set (cstr buf)")
  case True
  have "cstr (cut_newline buf) = take (length (takeWhile (\<lambda>c. c \<noteq> NL) (cstr buf))) (cstr buf)"
    using True by (simp add: cut_newline_def cstr_update_NUL length_takeWhile_le)
  then show ?thesis by (simp add: takeWhile_eq_take [symmetric])
next
  case False
  then have "takeWhile (\<lambda>c. c \<noteq> NL) (cstr buf) = cstr buf"
    by (intro takeWhile_eq_all_conv [THEN iffD2]) auto
  with False show ?thesis by (simp only: cut_newline_def if_False)
qed

lemma cstr_line: "cstr (cut_newline (store_line line buf)) = line_text line"
  by (simp add: cstr_cut_newline cstr_store_line line_text_def)

lemma takeWhile_take_id: "takeWhile P (take n xs) = take n (takeWhile P xs)"
  by (induction xs arbitrary: n) (auto simp: take_Cons' split: if_splits)

lemma cstr_drop: "i \<le> length (cstr buf) \<Longrightarrow> cstr (drop i buf) = drop i (cstr buf)"
proof (induction buf arbitrary: i)
  case (Cons c buf)
  then show ?case by (cases i) (auto simp: cstr_def split: if_splits)
qed (simp add: cstr_def)

lemma hex_field_text:
  assumes "i \<le> length (line_text line)"
  shows "hex_field (cut_newline (store_line line buf)) i j
    = strtoul 16 (take (j - i) (drop i (line_text line)))"
proof -
  have "cstr (drop i (cut_newline (store_line line buf))) = drop i (line_text line)"
    using assms cstr_drop [of i "cut_newline (store_line line buf)"] by (simp add: cstr_line)
  moreover have "cstr (take n b) = take n (cstr b)" for n b
    by (simp add: cstr_def takeWhile_take_id)
  ultimately show ?thesis by (simp add: hex_field_def)
qed

lemma store_line_hd: "line \<noteq> [] \<Longrightarrow> store_line line buf ! 0 = hd line"
  by (cases line) (simp_all add: store_line_def)

lemma line_text_length: "length (line_text line) \<le> length line"
  unfolding line_text_def
  by (meson cstr_length le_trans length_takeWhile_le)

lemma line_text_hd:
  "line \<noteq> [] \<Longrightarrow> hd line \<noteq> NL \<Longrightarrow> hd line \<noteq> NUL \<Longrightarrow> \<exists>r. line_text line = hd line # r"
  by (cases line) (auto simp: line_text_def cstr_def)

lemma append_bytes_ok:
  assumes "n < 2 ^ 63" "idx \<le> n" "length data + (n - idx) \<le> DATA_SIZE" "2 * n + 9 < LINE_SIZE"
  shows "append_bytes buf idx (of_nat n) data =
    Some (data @ map (\<lambda>i. ucast (hex_field buf (9 + 2 * i) (9 + 2 * i + 2))) [idx..<n])"
  using assms(2,3)
proof (induction "n - idx" arbitrary: idx data)
  case 0
  then show ?case by (simp add: append_bytes.simps [of _ idx])
next
  case (Suc k)
  then have lt: "idx < n" by simp
  have w: "(of_nat idx :: u64) < of_nat n"
    using lt assms(1) by (simp add: word_less_nat_alt unat_of_nat)
  have b: "length data < DATA_SIZE" "9 + 2 * idx + 2 < LINE_SIZE"
    using Suc.prems Suc.hyps(2) lt assms(4) by auto
  have "append_bytes buf idx (of_nat n) data =
      append_bytes buf (Suc idx) (of_nat n) (data @ [ucast (hex_field buf (9 + 2 * idx) (9 + 2 * idx + 2))])"
    using w b by (subst append_bytes.simps) simp
  also have "\<dots> = Some ((data @ [ucast (hex_field buf (9 + 2 * idx) (9 + 2 * idx + 2))])
      @ map (\<lambda>i. ucast (hex_field buf (9 + 2 * i) (9 + 2 * i + 2))) [Suc idx..<n])"
    by (rule Suc.hyps(1)) (use Suc.hyps(2) Suc.prems in auto)
  finally show ?case using lt by (simp add: upt_conv_Cons)
qed

section \<open>A length field without a sign keeps the stores inside the arrays\<close>

lemma radix_val_bound: "0 \<le> radix_val b s \<and> radix_val b s \<le> int b ^ length s"
proof -
  have f: "foldl (\<lambda>acc c. acc * b + alnum_val c) 0 ds < b ^ length ds \<or> ds = []"
    if "\<forall>c \<in> set ds. alnum_val c < b" for ds
    using that
  proof (induction ds rule: rev_induct)
    case (snoc c ds)
    then have c: "alnum_val c < b" by simp
    let ?v = "foldl (\<lambda>acc c. acc * b + alnum_val c) 0 ds"
    have "Suc ?v \<le> b ^ length ds" using snoc by (cases "ds = []") auto
    then have "Suc ?v * b \<le> b ^ length ds * b" by (rule mult_le_mono1)
    with c show ?case by (simp add: mult.commute)
  qed simp
  let ?ds = "takeWhile (\<lambda>c. alnum_val c < b) s"
  have "foldl (\<lambda>acc c. acc * b + alnum_val c) 0 ?ds \<le> b ^ length s"
  proof (cases "?ds = []")
    case False
    then obtain c where "c \<in> set ?ds" by (cases ?ds) auto
    then have "0 < b" by (auto dest: set_takeWhileD)
    then have "b ^ length ?ds \<le> b ^ length s"
      by (intro power_increasing) (auto simp: length_takeWhile_le)
    with f [of ?ds] False show ?thesis using set_takeWhileD by fastforce
  qed simp
  then show ?thesis by (simp add: radix_val_def flip: of_nat_power)
qed

lemma strtoul_short:
  assumes "length s \<le> 2" "CHR ''-'' \<notin> set s"
  shows "unat (strtoul 16 s) \<le> 256"
proof -
  have l: "length (lstrip s) \<le> 2" "CHR ''-'' \<notin> set (lstrip s)"
    using assms lstrip_length [of s] set_dropWhileD [of "CHR ''-''" isspace s] by (auto simp: lstrip_def)
  obtain neg u where u: "split_sign (lstrip s) = (neg, u)" by fastforce
  have nu: "\<not> neg" "length u \<le> 2"
    using u l by (cases "lstrip s"; auto simp: split_sign_def split: if_splits)+
  then have "\<not> hex_prefix u" by (auto simp: hex_prefix_def split: list.splits)
  then have v: "scan_digits 16 u = radix_val 16 u" by (simp add: scan_digits_def)
  have "radix_val 16 u \<le> 16 ^ length u" "0 \<le> radix_val 16 u"
    using radix_val_bound [of 16 u] by auto
  moreover have "(16::int) ^ length u \<le> 16 ^ 2" using nu(2) by (intro power_increasing) auto
  ultimately have b: "0 \<le> radix_val 16 u" "radix_val 16 u \<le> 256" by auto
  then have "strtoul 16 s = word_of_int (radix_val 16 u)"
    using nu(1) by (simp add: strtoul_def u v)
  with b show ?thesis by (simp add: unat_eq_nat_uint uint_word_of_int nat_le_iff)
qed

end
