(* ===== verification/Fxload_Image.thy ===== *)
theory Fxload_Image
  imports Leap_Prelude C_Library Fxload_Hex
begin

text \<open>
  What \<^verbatim>\<open>parse_ihex\<close> makes of a file: its stores stay inside its arrays when no length field has a
  sign, the segments of a printed image hold its bytes at their addresses, and the cases
  where it reads what the file does not say.
\<close>

section \<open>Stores inside the arrays\<close>

definition turn_safe :: "'c ihex_turn \<Rightarrow> bool" where
  "turn_safe t \<longleftrightarrow> (\<forall>ctx. t \<noteq> Stop Overruns ctx)
     \<and> (\<forall>st ctx. t = Continue st ctx \<longrightarrow> length (ih_data st) \<le> DATA_SIZE)"

lemma ihex_append_safe:
  assumes "unat len \<le> 256" "length (ih_data st) + unat len \<le> DATA_SIZE"
    "2 * unat len + 9 < LINE_SIZE"
  shows "turn_safe (ihex_append st len ctx)"
  using append_bytes_ok [of "unat len" 0 "ih_data st" "ih_buf st"] assms
  by (simp add: ihex_append_def turn_safe_def)

lemma no_flush_fits:
  assumes "\<not> must_flush st off len" "length (ih_data st) \<le> DATA_SIZE" "unat len \<le> 256"
  shows "length (ih_data st) + unat len \<le> DATA_SIZE"
proof (cases "ih_data st = []")
  case True
  with assms(3) show ?thesis by (simp add: DATA_SIZE_def)
next
  case False
  with assms(1) have "of_nat (length (ih_data st)) + len \<le> (1023 :: u64)"
    by (simp add: must_flush_def DATA_SIZE_def not_less)
  moreover have "unat (of_nat (length (ih_data st)) + len) = length (ih_data st) + unat len"
    using assms(2,3) by (simp add: unat_word_ariths unat_of_nat DATA_SIZE_def)
  ultimately show ?thesis by (simp add: word_le_nat_alt DATA_SIZE_def)
qed

lemma ihex_data_safe:
  assumes "unat len \<le> 256" "2 * unat len + 9 < LINE_SIZE" "length (ih_data st) \<le> DATA_SIZE"
  shows "turn_safe (ihex_data ie poke st off len ctx)"
proof (cases "must_flush st off len")
  case True
  obtain rc c where p: "ihex_flush ie poke st ctx = (rc, c)" by fastforce
  have "unat len \<le> DATA_SIZE" using assms(1) by (simp add: DATA_SIZE_def)
  then show ?thesis
    using True p ihex_append_safe [of len "st\<lparr>ih_addr := ucast off, ih_data := []\<rparr>" c] assms(1,2)
    by (simp add: ihex_data_def) (simp add: turn_safe_def)
next
  case False
  have "length (ih_data st) + unat len \<le> DATA_SIZE"
    using no_flush_fits [OF False assms(3,1)] .
  then show ?thesis
    using False ihex_append_safe [of len st ctx] assms(1,2) by (simp add: ihex_data_def)
qed

lemma ihex_line_safe:
  assumes "line \<noteq> []" "length line < LINE_SIZE" "CHR ''-'' \<notin> set line" "length (ih_data st) \<le> DATA_SIZE"
  shows "turn_safe (ihex_line ie poke line st ctx)"
proof (cases "hd line = CHR '':''")
  case False
  then show ?thesis
    using assms(1,4) by (simp add: ihex_line_def Let_def store_line_hd turn_safe_def)
next
  case True
  let ?t = "line_text line"
  let ?buf = "cut_newline (store_line line (ih_buf st))"
  let ?len = "hex_field ?buf 1 3"
  obtain r where r: "?t = CHR '':'' # r"
    using line_text_hd [OF assms(1)] True by (auto simp: NL_def NUL_def)
  have "set ?t \<subseteq> set line"
    by (auto simp: line_text_def cstr_def dest!: set_takeWhileD)
  then have "CHR ''-'' \<notin> set (take 2 r)"
    using assms(3) r by (auto dest: in_set_takeD)
  moreover have "?len = strtoul 16 (take 2 r)"
    using hex_field_text [of 1 line "ih_buf st" 3] r by simp
  ultimately have len: "unat ?len \<le> 256" using strtoul_short [of "take 2 r"] by simp
  have short: "2 * unat ?len + 9 < LINE_SIZE"
    if "\<not> (of_nat (length (cstr ?buf)) < ?len * 2 + 11)"
  proof -
    have "length (cstr ?buf) < LINE_SIZE"
      using line_text_length [of line] assms(2) by (simp add: cstr_line)
    moreover have "unat (?len * 2 + 11) = unat ?len * 2 + 11"
      using len by (simp add: unat_word_ariths)
    ultimately show ?thesis
      using that by (simp add: word_less_nat_alt unat_of_nat LINE_SIZE_def)
  qed
  have "turn_safe (ihex_data ie poke st1 off ?len ctx)"
    if "\<not> (of_nat (length (cstr ?buf)) < ?len * 2 + 11)" "length (ih_data st1) \<le> DATA_SIZE" for st1 off
    by (rule ihex_data_safe [OF len short]) (use that in simp_all)
  then show ?thesis
    using True assms(1,4)
    by (simp add: ihex_line_def Let_def store_line_hd del: One_nat_def) (simp add: turn_safe_def)
qed

lemma ihex_loop_safe:
  "CHR ''-'' \<notin> set img \<Longrightarrow> length (ih_data st) \<le> DATA_SIZE \<Longrightarrow>
     fst (ihex_loop ie poke img st ctx) \<noteq> Overruns"
proof (induction img arbitrary: st ctx rule: measure_induct_rule [of length])
  case (less img)
  have fin: "fst (ihex_finish ie poke st' c) \<noteq> Overruns" for st' c
    by (simp add: ihex_finish_def split: prod.split)
  show ?case
  proof (cases "fgets LINE_SIZE img")
    case None
    then show ?thesis by (simp add: ihex_loop.simps [of ie _ img] fin)
  next
    case (Some lr)
    obtain line rest where lr: "lr = (line, rest)" by (cases lr)
    note f = Some [unfolded lr]
    have p: "length rest < length img" "length line < LINE_SIZE" "line \<noteq> []"
      using fgets_progress [OF f] by (simp_all add: LINE_SIZE_def)
    have m: "CHR ''-'' \<notin> set line" "CHR ''-'' \<notin> set rest"
      using fgets_split [OF f] less.prems(1) by auto
    have "turn_safe (ihex_line ie poke line st ctx)"
      by (rule ihex_line_safe) (use p m less.prems in auto)
    then show ?thesis
      using f fin less.IH [OF p(1) m(2)]
      by (cases "ihex_line ie poke line st ctx")
        (auto simp: ihex_loop.simps [of ie _ img] turn_safe_def)
  qed
qed

lemma parse_safe: "CHR ''-'' \<notin> set img \<Longrightarrow> fst (parse_ihex junk img ctx ie poke) \<noteq> Overruns"
  unfolding parse_ihex_def by (rule ihex_loop_safe) (simp_all add: ihex_init_def)

text \<open>
  With a sign in it, the length \<^verbatim>\<open>-1\<close> passes the test of the record's size, because twice the
  length plus eleven wraps around to nine.
\<close>

lemma append_bytes_over: "idx \<le> 251 \<Longrightarrow> (251 :: u64) < len \<Longrightarrow> append_bytes buf idx len data = None"
proof (induction "251 - idx" arbitrary: idx data)
  case 0
  then show ?case
    by (subst append_bytes.simps) (simp add: LINE_SIZE_def word_less_nat_alt unat_of_nat)
next
  case (Suc k)
  then have "append_bytes buf (Suc idx) len d = None" for d by simp
  then show ?case
    using Suc.hyps(2) Suc.prems
    by (subst append_bytes.simps) (simp add: word_less_nat_alt unat_of_nat)
qed

lemma parse_negative_length:
  "parse_ihex junk ('':-1000000'' @ [NL]) ctx ie poke = (Overruns, ctx)"
proof -
  let ?l = "'':-1000000'' @ [NL]" and ?b = "cut_newline (store_line ('':-1000000'' @ [NL]) junk)"
  have t: "line_text ?l = '':-1000000''"
    by (simp add: line_text_def cstr_def NL_def NUL_def)
  have "hex_field ?b i j = strtoul 16 (take (j - i) (drop i '':-1000000''))" if "i \<le> 9" for i j
    using that hex_field_text [of i ?l junk j] unfolding t by simp
  from this [of 1 3] this [of 7 9]
  have f: "hex_field ?b 1 3 = - 1" "hex_field ?b 7 9 = 0"
    by (simp_all add: scan_defs)
  have s: "length (cstr ?b) = 9" unfolding cstr_line t by simp
  have "ihex_append st (- 1) ctx = Stop Overruns ctx" for st
    using append_bytes_over [of 0 "- 1"] by (simp add: ihex_append_def)
  moreover have "\<not> must_flush (st\<lparr>ih_data := []\<rparr>) off len" for st off len
    by (simp add: must_flush_def)
  moreover have "store_line ?l junk ! 0 = CHR '':''" by (simp add: store_line_def)
  ultimately have "ihex_line ie poke ?l (ihex_init junk) ctx = Stop Overruns ctx"
    using f s by (simp add: ihex_line_def Let_def ihex_init_def ihex_data_def must_flush_def
        del: One_nat_def)
  moreover have "fgets LINE_SIZE ?l = Some (?l, [])"
    using fgets_line [of "'':-1000000''" LINE_SIZE "[]"] by (simp add: LINE_SIZE_def NL_def)
  ultimately show ?thesis
    unfolding parse_ihex_def by (subst ihex_loop.simps) simp
qed

section \<open>Printed images\<close>

text \<open>
  A data record is a colon, two digits of length, four of address, the type \<^verbatim>\<open>00\<close>, the bytes
  and two characters of checksum; the end record closes the file.
\<close>

definition record_text :: "u16 \<Rightarrow> u8 list \<Rightarrow> string \<Rightarrow> string" where
  "record_text a d ck =
     CHR '':'' # hex_text 2 (length d) @ hex_text 4 (unat a) @ ''00''
       @ concat (map (\<lambda>b. hex_text 2 (unat b)) d) @ ck"

definition end_text :: string where
  "end_text = '':00000001FF'' @ [NL]"

fun print_hex :: "(u16 \<times> u8 list \<times> string) list \<Rightarrow> string" where
  "print_hex [] = end_text"
| "print_hex ((a, d, ck) # recs) = record_text a d ck @ NL # print_hex recs"

text \<open>
  The record fits the line buffer; its checksum is two characters, which need not be right.
\<close>

definition record_ok :: "u16 \<times> u8 list \<times> string \<Rightarrow> bool" where
  "record_ok = (\<lambda>(a, d, ck). d \<noteq> [] \<and> length d \<le> 249 \<and> length ck = 2 \<and> NL \<notin> set ck \<and> NUL \<notin> set ck)"

text \<open>The bytes of a segment with their addresses, and those of a list of segments.\<close>

fun locate :: "u16 \<Rightarrow> u8 list \<Rightarrow> (u16 \<times> u8) list" where
  "locate a [] = []"
| "locate a (b # bs) = (a, b) # locate (a + 1) bs"

definition located :: "segment list \<Rightarrow> (u16 \<times> u8) list" where
  "located segs = concat (map (\<lambda>(a, e, d). locate a d) segs)"

definition record_bytes :: "(u16 \<times> u8 list \<times> string) list \<Rightarrow> (u16 \<times> u8) list" where
  "record_bytes recs = concat (map (\<lambda>(a, d, ck). locate a d) recs)"

lemma locate_append: "locate a (x @ y) = locate a x @ locate (a + of_nat (length x)) y"
  by (induction x arbitrary: a) (simp_all add: algebra_simps)

lemma located_simps [simp]:
  "located [] = []" "located (s @ s') = located s @ located s'"
  "located ((a, e, d) # s) = locate a d @ located s"
  by (simp_all add: located_def)

lemma chunk_of_concat:
  assumes "\<And>x. length (f x) = n" "i < length xs"
  shows "take n (drop (n * i) (concat (map f xs))) = f (xs ! i)"
  using assms(2)
proof (induction xs arbitrary: i)
  case (Cons x xs)
  then show ?case by (cases i) (auto simp: assms(1))
qed simp

lemma line_text_plain:
  "NL \<notin> set t \<Longrightarrow> NUL \<notin> set t \<Longrightarrow> line_text (t @ [NL]) = t"
proof -
  assume t: "NL \<notin> set t" "NUL \<notin> set t"
  then have "cstr (t @ [NL]) = t @ [NL]" by (intro cstr_id) (auto simp: NL_def NUL_def)
  moreover have "\<forall>c \<in> set t. c \<noteq> NL" using t(1) by auto
  ultimately show "line_text (t @ [NL]) = t" by (simp add: line_text_def takeWhile_all_append)
qed

lemma record_text_plain:
  assumes "record_ok (a, d, ck)"
  shows "NL \<notin> set (record_text a d ck)" "NUL \<notin> set (record_text a d ck)"
    "length (record_text a d ck) = 11 + 2 * length d"
proof -
  have h: "NL \<notin> set (hex_text k n)" "NUL \<notin> set (hex_text k n)" for k n
    using hex_text_chars [of k n] by (auto dest: hex_char_plain)
  have z: "NL \<notin> set '':00''" "NUL \<notin> set '':00''" by (simp_all add: NL_def NUL_def)
  show "NL \<notin> set (record_text a d ck)" "NUL \<notin> set (record_text a d ck)"
    using assms h z by (auto simp: record_text_def record_ok_def)
  have "length (concat (map (\<lambda>b. hex_text 2 (unat b)) d)) = 2 * length d"
    by (induction d) simp_all
  then show "length (record_text a d ck) = 11 + 2 * length d"
    using assms by (simp add: record_text_def record_ok_def)
qed

text \<open>The fields read back from a printed record.\<close>

lemma record_fields:
  fixes buf :: string
  assumes ok: "record_ok (a, d, ck)"
  defines "buf' \<equiv> cut_newline (store_line (record_text a d ck @ [NL]) buf)"
  shows "hex_field buf' 1 3 = of_nat (length d)" "hex_field buf' 3 7 = ucast a"
    "hex_field buf' 7 9 = 0" "length (cstr buf') = 11 + 2 * length d"
    "\<And>i. i < length d \<Longrightarrow> hex_field buf' (9 + 2 * i) (9 + 2 * i + 2) = ucast (d ! i)"
proof -
  note plain = record_text_plain [OF ok]
  have t: "line_text (record_text a d ck @ [NL]) = record_text a d ck"
    using plain by (intro line_text_plain)
  have f: "hex_field buf' i j = strtoul 16 (take (j - i) (drop i (record_text a d ck)))"
    if "i \<le> 11 + 2 * length d" for i j
    unfolding buf'_def using that plain(3) by (subst hex_field_text) (simp_all add: t)
  have d: "length d < 16 ^ 2" using ok by (simp add: record_ok_def)
  show "hex_field buf' 1 3 = of_nat (length d)"
    using f [of 1 3] strtoul_hex_text [OF d] d by (simp add: record_text_def)
  have "unat a < 16 ^ 4" using unsigned_less [of a, where ?'a = nat] by simp
  then show "hex_field buf' 3 7 = ucast a"
    using f [of 3 7] strtoul_hex_text [of "unat a" 4]
    by (simp add: record_text_def)
  show "hex_field buf' 7 9 = 0"
    using f [of 7 9] by (simp add: record_text_def scan_defs)
  show "length (cstr buf') = 11 + 2 * length d"
    using plain(3) by (simp add: buf'_def cstr_line t)
  fix i assume i: "i < length d"
  let ?bs = "concat (map (\<lambda>b. hex_text 2 (unat b)) d)"
  have "drop 9 (record_text a d ck) = ?bs @ ck" by (simp add: record_text_def)
  then have "drop (9 + 2 * i) (record_text a d ck) = drop (2 * i) (?bs @ ck)"
    by (metis add.commute drop_drop)
  moreover have l: "length ?bs = 2 * length d" by (induction d) simp_all
  moreover have "take 2 (drop (2 * i) ?bs) = hex_text 2 (unat (d ! i))"
    using i by (intro chunk_of_concat) simp_all
  ultimately have "take 2 (drop (9 + 2 * i) (record_text a d ck)) = hex_text 2 (unat (d ! i))"
    using i by (simp add: take_append)
  moreover have "unat (d ! i) < 16 ^ 2" using unsigned_less [of "d ! i", where ?'a = nat] by simp
  ultimately show "hex_field buf' (9 + 2 * i) (9 + 2 * i + 2) = ucast (d ! i)"
    using f [of "9 + 2 * i" "9 + 2 * i + 2"] i strtoul_hex_text [of "unat (d ! i)" 2]
    by simp
qed

section \<open>The segments of a printed image\<close>

definition record_state :: "u16 \<Rightarrow> u8 list \<Rightarrow> string \<Rightarrow> ihex \<Rightarrow> ihex" where
  "record_state a d ck st =
     st\<lparr>ih_buf := cut_newline (store_line (record_text a d ck @ [NL]) (ih_buf st)),
        ih_addr := (if ih_first st then a else ih_addr st), ih_first := False\<rparr>"

lemma record_text_hd: "hd (record_text a d ck @ [NL]) = CHR '':''"
  by (simp add: record_text_def)

lemma ihex_line_record:
  assumes "record_ok (a, d, ck)"
  shows "ihex_line ie poke (record_text a d ck @ [NL]) st ctx =
    ihex_data ie poke (record_state a d ck st) (ucast a) (of_nat (length d)) ctx"
proof -
  note f = record_fields [OF assms, where buf = "ih_buf st"]
  have "length d < 2 ^ 8" using assms by (simp add: record_ok_def)
  then have "\<not> (of_nat (11 + 2 * length d) < of_nat (length d) * 2 + (11 :: u64))"
    by (simp add: algebra_simps)
  then show ?thesis
    using f(1-4) record_text_hd [of a d ck]
    by (simp add: ihex_line_def Let_def store_line_hd record_state_def ucast_up del: One_nat_def)
qed

lemma ihex_append_record:
  assumes "record_ok (a, d, ck)" "length (ih_data st1) + length d \<le> DATA_SIZE"
    "ih_buf st1 = cut_newline (store_line (record_text a d ck @ [NL]) buf)"
  shows "ihex_append st1 (of_nat (length d)) ctx = Continue (st1\<lparr>ih_data := ih_data st1 @ d\<rparr>) ctx"
proof -
  have l: "length d \<le> 249" using assms(1) by (simp add: record_ok_def)
  have "map (\<lambda>i. ucast (hex_field (ih_buf st1) (9 + 2 * i) (9 + 2 * i + 2)) :: u8) [0..<length d] = d"
    using record_fields(5) [OF assms(1), where buf = buf]
    by (intro nth_equalityI) (simp_all add: ucast_up flip: assms(3))
  then show ?thesis
    using append_bytes_ok [of "length d" 0 "ih_data st1" "ih_buf st1"] l assms(2)
    by (simp add: ihex_append_def LINE_SIZE_def)
qed

text \<open>One record moves its bytes behind those collected so far, whether or not they are flushed.\<close>

lemma ihex_line_moves:
  assumes ok: "record_ok (a, d, ck)" and size: "length (ih_data st) \<le> DATA_SIZE"
    and first: "ih_first st \<longleftrightarrow> ih_data st = []"
  shows "\<exists>st' acc'. ihex_line ie record_poke (record_text a d ck @ [NL]) st acc = Continue st' acc'
    \<and> ih_data st' \<noteq> [] \<and> \<not> ih_first st' \<and> length (ih_data st') \<le> DATA_SIZE
    \<and> located acc' @ locate (ih_addr st') (ih_data st')
        = located acc @ locate (ih_addr st) (ih_data st) @ locate a d"
proof -
  let ?st = "record_state a d ck st"
  have l: "length d \<le> 249" "d \<noteq> []" using ok by (auto simp: record_ok_def)
  have u: "unat (of_nat (length d) :: u64) = length d" using l(1) by (simp add: unat_of_nat)
  have st: "ih_data ?st = ih_data st" "\<not> ih_first ?st" by (simp_all add: record_state_def)
  note app = ihex_append_record [OF ok]
  show ?thesis
  proof (cases "must_flush ?st (ucast a) (of_nat (length d))")
    case True
    let ?st2 = "?st\<lparr>ih_addr := a, ih_data := []\<rparr>"
    have "length d \<le> DATA_SIZE" using l by (simp add: DATA_SIZE_def)
    then have "ihex_append ?st2 (of_nat (length d)) ctx = Continue (?st2\<lparr>ih_data := d\<rparr>) ctx" for ctx :: "segment list"
      using app [of ?st2 "ih_buf st" ctx] by (simp add: record_state_def)
    moreover have "ih_addr ?st = ih_addr st" if "ih_data st \<noteq> []"
      using that first by (simp add: record_state_def)
    ultimately show ?thesis
      using True l by (simp add: ihex_line_record [OF ok] ihex_data_def ihex_flush_def record_poke_def
          st must_flush_def ucast_up DATA_SIZE_def)
  next
    case False
    then have fits: "length (ih_data st) + length d \<le> DATA_SIZE"
      using no_flush_fits [of ?st "ucast a" "of_nat (length d)"] size l u by (simp add: st)
    then have "ihex_append ?st (of_nat (length d)) acc = Continue (?st\<lparr>ih_data := ih_data st @ d\<rparr>) acc"
      using app [of ?st "ih_buf st" acc] by (simp add: record_state_def)
    moreover have "locate (ih_addr ?st) (ih_data st) = locate (ih_addr st) (ih_data st)"
      using first by (cases "ih_data st") (simp_all add: record_state_def)
    moreover have "a = ih_addr ?st + of_nat (length (ih_data st))"
    proof (cases "ih_data st = []")
      case True
      with first show ?thesis by (simp add: record_state_def)
    next
      case ne: False
      with False have eq: "(ucast a :: u64) = ucast (ih_addr ?st) + of_nat (length (ih_data st))"
        by (simp add: must_flush_def st ucast_up)
      have "unat (ih_addr ?st) < 2 ^ 16"
        using unsigned_less [of "ih_addr ?st", where ?'a = nat] by simp
      then have "unat (ucast (ih_addr ?st) + of_nat (length (ih_data st)) :: u64)
          = unat (ih_addr ?st) + length (ih_data st)"
        using size by (simp add: unat_word_ariths unat_ucast_up unat_of_nat DATA_SIZE_def)
      then have "unat a = unat (ih_addr ?st) + length (ih_data st)"
        using arg_cong [OF eq, of unat] by (simp add: unat_ucast_up)
      then have "(of_nat (unat a) :: u16) = of_nat (unat (ih_addr ?st) + length (ih_data st))"
        by (simp only:)
      then show ?thesis by simp
    qed
    ultimately show ?thesis
      using False l fits by (simp add: ihex_line_record [OF ok] ihex_data_def st locate_append)
  qed
qed

lemma ihex_line_end: "ihex_line ie poke end_text st ctx = Break
    (st\<lparr>ih_buf := cut_newline (store_line end_text (ih_buf st)),
        ih_addr := (if ih_first st then 0 else ih_addr st), ih_first := False\<rparr>) ctx"
proof -
  have t: "line_text end_text = '':00000001FF''"
    unfolding end_text_def by (rule line_text_plain) (simp_all add: NL_def NUL_def)
  have "hex_field (cut_newline (store_line end_text (ih_buf st))) i j
      = strtoul 16 (take (j - i) (drop i '':00000001FF''))" if "i \<le> 11" for i j
    using that by (subst hex_field_text) (simp_all add: t)
  from this [of 3 7] this [of 7 9]
  have "hex_field (cut_newline (store_line end_text (ih_buf st))) 3 7 = 0"
    "hex_field (cut_newline (store_line end_text (ih_buf st))) 7 9 = 1"
    by (simp_all add: scan_defs)
  moreover have "store_line end_text (ih_buf st) ! 0 = CHR '':''"
    by (simp add: store_line_def end_text_def)
  ultimately show ?thesis by (simp add: ihex_line_def Let_def)
qed

lemma loop_print_hex:
  assumes "\<forall>r \<in> set recs. record_ok r" "length (ih_data st) \<le> DATA_SIZE"
    "ih_first st \<longleftrightarrow> ih_data st = []"
  shows "\<exists>segs. ihex_loop ie record_poke (print_hex recs) st acc = (Returns 0, segs)
    \<and> located segs = located acc @ locate (ih_addr st) (ih_data st) @ record_bytes recs"
  using assms
proof (induction recs arbitrary: st acc)
  case Nil
  have "fgets LINE_SIZE end_text = Some (end_text, [])"
    unfolding end_text_def using fgets_line [of "'':00000001FF''" LINE_SIZE "[]"]
    by (simp add: LINE_SIZE_def NL_def)
  then show ?case
    using Nil.prems
    by (simp add: ihex_loop.simps [of ie _ end_text] ihex_line_end ihex_finish_def ihex_flush_def
        record_poke_def record_bytes_def)
next
  case (Cons r recs)
  obtain a d ck where r: "r = (a, d, ck)" by (cases r)
  have ok: "record_ok (a, d, ck)" using Cons.prems(1) r by simp
  note plain = record_text_plain [OF ok]
  have f: "fgets LINE_SIZE (record_text a d ck @ NL # print_hex recs)
      = Some (record_text a d ck @ [NL], print_hex recs)"
    using ok by (intro fgets_line) (simp_all add: plain record_ok_def LINE_SIZE_def)
  obtain st' acc' where m:
    "ihex_line ie record_poke (record_text a d ck @ [NL]) st acc = Continue st' acc'"
    "ih_data st' \<noteq> []" "\<not> ih_first st'" "length (ih_data st') \<le> DATA_SIZE"
    "located acc' @ locate (ih_addr st') (ih_data st')
       = located acc @ locate (ih_addr st) (ih_data st) @ locate a d"
    using ihex_line_moves [OF ok Cons.prems(2,3)] by blast
  obtain segs where s: "ihex_loop ie record_poke (print_hex recs) st' acc' = (Returns 0, segs)"
      "located segs = located acc' @ locate (ih_addr st') (ih_data st') @ record_bytes recs"
    using Cons.IH [of st' acc'] Cons.prems(1) m(2-4) by auto
  have "ihex_loop ie record_poke (print_hex (r # recs)) st acc = (Returns 0, segs)"
    using f m(1) s(1) by (simp add: r ihex_loop.simps [of ie _ "record_text a d ck @ NL # print_hex recs"])
  moreover have "located segs = located acc @ locate (ih_addr st) (ih_data st) @ record_bytes (r # recs)"
    using s(2) m(5) by (simp add: r record_bytes_def)
  ultimately show ?case by blast
qed

lemma scan_print_hex:
  assumes "\<forall>r \<in> set recs. record_ok r"
  shows "fst (ihex_scan junk (print_hex recs) ie) = Returns 0
    \<and> located (snd (ihex_scan junk (print_hex recs) ie)) = record_bytes recs"
  using loop_print_hex [OF assms, of "ihex_init junk" ie "[]"]
  by (auto simp: ihex_scan_def parse_ihex_def ihex_init_def)

section \<open>What the buffer held before\<close>

text \<open>
  A record line of at least nine characters is read from the file alone; a shorter one is read
  together with what an earlier line left in the buffer.
\<close>

function lines_full :: "string \<Rightarrow> bool" where
  "lines_full img =
     (case fgets LINE_SIZE img of
        None \<Rightarrow> True
      | Some (line, rest) \<Rightarrow>
          (hd line = CHR '':'' \<longrightarrow> 9 \<le> length (line_text line)) \<and> lines_full rest)"
  by pat_completeness auto
termination
  by (relation "measure length") (auto simp: LINE_SIZE_def dest: fgets_progress)

declare lines_full.simps [simp del]

text \<open>Two turns that differ in the buffer only.\<close>

fun same_turn :: "'c ihex_turn \<Rightarrow> 'c ihex_turn \<Rightarrow> bool" where
  "same_turn (Continue st c) (Continue st' c') \<longleftrightarrow> c = c' \<and> st\<lparr>ih_buf := []\<rparr> = st'\<lparr>ih_buf := []\<rparr>"
| "same_turn (Break st c) (Break st' c') \<longleftrightarrow> c = c' \<and> st\<lparr>ih_buf := []\<rparr> = st'\<lparr>ih_buf := []\<rparr>"
| "same_turn (Stop e c) (Stop e' c') \<longleftrightarrow> e = e' \<and> c = c'"
| "same_turn _ _ \<longleftrightarrow> False"

lemma same_turnD:
  "same_turn (Continue st c) t \<Longrightarrow> \<exists>st'. t = Continue st' c \<and> st\<lparr>ih_buf := []\<rparr> = st'\<lparr>ih_buf := []\<rparr>"
  "same_turn (Break st c) t \<Longrightarrow> \<exists>st'. t = Break st' c \<and> st\<lparr>ih_buf := []\<rparr> = st'\<lparr>ih_buf := []\<rparr>"
  "same_turn (Stop e c) t \<Longrightarrow> t = Stop e c"
  by (cases t; simp)+

lemma append_bytes_cong:
  "(\<And>i. idx \<le> i \<Longrightarrow> i < unat len \<Longrightarrow> hex_field buf (9 + 2 * i) (9 + 2 * i + 2)
       = hex_field buf' (9 + 2 * i) (9 + 2 * i + 2)) \<Longrightarrow> unat len \<le> 251 \<Longrightarrow>
     append_bytes buf idx len data = append_bytes buf' idx len data"
proof (induction "unat len - idx" arbitrary: idx data)
  case 0
  then have "unat len \<le> idx" by simp
  then have "\<not> (of_nat idx < len)" if "idx \<le> 251"
    using that by (simp add: word_less_nat_alt unat_of_nat)
  then show ?case
    by (cases "idx \<le> 251") (simp_all add: append_bytes.simps [of _ idx] LINE_SIZE_def)
next
  case (Suc k)
  have "append_bytes buf (Suc idx) len d = append_bytes buf' (Suc idx) len d" for d
    using Suc by (intro Suc.hyps(1)) auto
  moreover have "hex_field buf (9 + 2 * idx) (9 + 2 * idx + 2)
      = hex_field buf' (9 + 2 * idx) (9 + 2 * idx + 2)"
    using Suc by auto
  ultimately show ?case
    by (subst (1 2) append_bytes.simps) (simp only: cong: if_cong)
qed

lemma ihex_append_stale:
  assumes "\<And>i. i < unat len \<Longrightarrow> unat len \<le> 251 \<Longrightarrow>
      hex_field (ih_buf st) (9 + 2 * i) (9 + 2 * i + 2) = hex_field (ih_buf st') (9 + 2 * i) (9 + 2 * i + 2)"
    "st\<lparr>ih_buf := []\<rparr> = st'\<lparr>ih_buf := []\<rparr>"
  shows "same_turn (ihex_append st len ctx) (ihex_append st' len ctx)"
proof -
  have d: "ih_data st = ih_data st'" using arg_cong [OF assms(2), of ih_data] by simp
  have "append_bytes (ih_buf st) 0 len (ih_data st) = append_bytes (ih_buf st') 0 len (ih_data st)"
  proof (cases "unat len \<le> 251")
    case True
    then show ?thesis by (intro append_bytes_cong) (use assms(1) in auto)
  next
    case False
    then show ?thesis by (simp add: append_bytes_over word_less_nat_alt)
  qed
  then show ?thesis
    using assms(2) d by (cases st; cases st') (simp add: ihex_append_def split: option.split)
qed

lemma ihex_data_stale:
  assumes "\<And>i. i < unat len \<Longrightarrow> unat len \<le> 251 \<Longrightarrow>
      hex_field (ih_buf st) (9 + 2 * i) (9 + 2 * i + 2) = hex_field (ih_buf st') (9 + 2 * i) (9 + 2 * i + 2)"
    "st\<lparr>ih_buf := []\<rparr> = st'\<lparr>ih_buf := []\<rparr>"
  shows "same_turn (ihex_data ie poke st off len ctx) (ihex_data ie poke st' off len ctx)"
proof -
  have e: "ih_data st = ih_data st'" "ih_addr st = ih_addr st'"
    using arg_cong [OF assms(2), of ih_data] arg_cong [OF assms(2), of ih_addr] by simp_all
  have "(st\<lparr>ih_addr := a, ih_data := []\<rparr>)\<lparr>ih_buf := []\<rparr> = (st'\<lparr>ih_addr := a, ih_data := []\<rparr>)\<lparr>ih_buf := []\<rparr>" for a
    using assms(2) by (cases st; cases st') simp
  then have app: "same_turn
      (ihex_append (st\<lparr>ih_addr := ucast off, ih_data := []\<rparr>) len c)
      (ihex_append (st'\<lparr>ih_addr := ucast off, ih_data := []\<rparr>) len c)" for c :: 'a
    using assms(1) by (intro ihex_append_stale) auto
  have app2: "same_turn (ihex_append st len ctx) (ihex_append st' len ctx)"
    by (rule ihex_append_stale) (use assms in auto)
  have "must_flush st' off len = must_flush st off len"
    "ihex_flush ie poke st' ctx = ihex_flush ie poke st ctx"
    using e by (simp_all add: must_flush_def ihex_flush_def split: option.split)
  then show ?thesis
    using app app2 by (simp add: ihex_data_def split: prod.split)
qed

lemma ihex_line_stale:
  assumes "line \<noteq> []" "hd line = CHR '':'' \<longrightarrow> 9 \<le> length (line_text line)"
    "st\<lparr>ih_buf := []\<rparr> = st'\<lparr>ih_buf := []\<rparr>"
  shows "same_turn (ihex_line ie poke line st ctx) (ihex_line ie poke line st' ctx)"
proof (cases "hd line = CHR '':''")
  case False
  then show ?thesis
    using assms(1,3) by (simp add: ihex_line_def Let_def store_line_hd)
next
  case True
  let ?b = "\<lambda>st. cut_newline (store_line line (ih_buf st))"
  have nine: "9 \<le> length (line_text line)" using assms(2) True by simp
  have f: "hex_field (?b st) i j = hex_field (?b st') i j" if "i \<le> length (line_text line)" for i j
    using that by (simp add: hex_field_text)
  have a: "ih_first st = ih_first st'" "ih_addr st = ih_addr st'"
    using arg_cong [OF assms(3), of ih_first] arg_cong [OF assms(3), of ih_addr] by simp_all
  have d: "same_turn
      (ihex_data ie poke (st\<lparr>ih_buf := ?b st, ih_addr := x, ih_first := False\<rparr>) off (hex_field (?b st') 1 3) ctx)
      (ihex_data ie poke (st'\<lparr>ih_buf := ?b st', ih_addr := x, ih_first := False\<rparr>) off (hex_field (?b st') 1 3) ctx)"
    if c: "\<not> (of_nat (length (cstr (?b st'))) < hex_field (?b st') 1 3 * 2 + 11)" for off x
  proof (rule ihex_data_stale)
    show "(st\<lparr>ih_buf := ?b st, ih_addr := x, ih_first := False\<rparr>)\<lparr>ih_buf := []\<rparr>
        = (st'\<lparr>ih_buf := ?b st', ih_addr := x, ih_first := False\<rparr>)\<lparr>ih_buf := []\<rparr>"
      using assms(3) by (cases st; cases st') simp
    fix i assume i: "i < unat (hex_field (?b st') 1 3)" "unat (hex_field (?b st') 1 3) \<le> 251"
    have "unat (hex_field (?b st') 1 3 * 2 + 11) = unat (hex_field (?b st') 1 3) * 2 + 11"
      using i(2) by (simp add: unat_word_ariths)
    then have "unat (hex_field (?b st') 1 3) * 2 + 11 \<le> length (line_text line)"
      using c unat_of_nat [of "length (line_text line)", where ?'a = 64]
      by (simp add: cstr_line word_less_nat_alt)
    then show "hex_field (ih_buf (st\<lparr>ih_buf := ?b st, ih_addr := x, ih_first := False\<rparr>)) (9 + 2 * i) (9 + 2 * i + 2)
        = hex_field (ih_buf (st'\<lparr>ih_buf := ?b st', ih_addr := x, ih_first := False\<rparr>)) (9 + 2 * i) (9 + 2 * i + 2)"
      using i(1) f [of "9 + 2 * i" "9 + 2 * i + 2"] by simp
  qed
  have s: "st\<lparr>ih_addr := x, ih_first := False, ih_buf := []\<rparr> = st'\<lparr>ih_addr := x, ih_first := False, ih_buf := []\<rparr>" for x
    using assms(3) by (cases st; cases st') simp
  have g: "hex_field (?b st) 1 3 = hex_field (?b st') 1 3" "hex_field (?b st) 3 7 = hex_field (?b st') 3 7"
    "hex_field (?b st) 7 9 = hex_field (?b st') 7 9" "cstr (?b st) = cstr (?b st')"
    using f nine by (simp_all add: cstr_line)
  show ?thesis
    using True assms(1) d d [of "ih_addr st'"] s
    by (simp add: ihex_line_def Let_def store_line_hd g a del: One_nat_def)
qed

lemma ihex_loop_stale:
  "lines_full img \<Longrightarrow> st\<lparr>ih_buf := []\<rparr> = st'\<lparr>ih_buf := []\<rparr> \<Longrightarrow>
     ihex_loop ie poke img st ctx = ihex_loop ie poke img st' ctx"
proof (induction img arbitrary: st st' ctx rule: measure_induct_rule [of length])
  case (less img)
  have fin: "ihex_finish ie poke s c = ihex_finish ie poke s' c"
    if "s\<lparr>ih_buf := []\<rparr> = s'\<lparr>ih_buf := []\<rparr>" for s s' c
    using arg_cong [OF that, of ih_addr] arg_cong [OF that, of ih_data]
    by (simp add: ihex_finish_def ihex_flush_def split: option.split)
  show ?case
  proof (cases "fgets LINE_SIZE img")
    case None
    then show ?thesis using fin [OF less.prems(2)] by (simp add: ihex_loop.simps [of ie poke img])
  next
    case (Some lr)
    obtain line rest where lr: "lr = (line, rest)" by (cases lr)
    note f = Some [unfolded lr]
    have shorter: "length rest < length img" "line \<noteq> []"
      using fgets_progress [OF f] by (simp_all add: LINE_SIZE_def)
    have full: "hd line = CHR '':'' \<longrightarrow> 9 \<le> length (line_text line)" "lines_full rest"
      using less.prems(1) f by (auto simp: lines_full.simps [of img])
    have same: "same_turn (ihex_line ie poke line st ctx) (ihex_line ie poke line st' ctx)"
      by (rule ihex_line_stale [OF shorter(2) full(1) less.prems(2)])
    show ?thesis
    proof (cases "ihex_line ie poke line st ctx")
      case (Continue s c)
      from same_turnD(1) [OF same [unfolded Continue]] obtain s' where
        s': "ihex_line ie poke line st' ctx = Continue s' c" "s\<lparr>ih_buf := []\<rparr> = s'\<lparr>ih_buf := []\<rparr>"
        by blast
      with f Continue less.IH [OF shorter(1) full(2) s'(2)] show ?thesis
        by (simp add: ihex_loop.simps [of ie poke img])
    next
      case (Break s c)
      from same_turnD(2) [OF same [unfolded Break]] obtain s' where
        s': "ihex_line ie poke line st' ctx = Break s' c" "s\<lparr>ih_buf := []\<rparr> = s'\<lparr>ih_buf := []\<rparr>"
        by blast
      with f Break fin [OF s'(2)] show ?thesis by (simp add: ihex_loop.simps [of ie poke img])
    next
      case (Stop e c)
      with f same_turnD(3) [OF same [unfolded Stop]] show ?thesis
        by (simp add: ihex_loop.simps [of ie poke img])
    qed
  qed
qed

lemma scan_stale: "lines_full img \<Longrightarrow> ihex_scan junk img ie = ihex_scan junk' img ie"
  unfolding ihex_scan_def parse_ihex_def
  by (rule ihex_loop_stale) (simp_all add: ihex_init_def)

lemma print_hex_full: "\<forall>r \<in> set recs. record_ok r \<Longrightarrow> lines_full (print_hex recs)"
proof (induction recs)
  case Nil
  have "fgets LINE_SIZE end_text = Some (end_text, [])"
    unfolding end_text_def using fgets_line [of "'':00000001FF''" LINE_SIZE "[]"]
    by (simp add: LINE_SIZE_def NL_def)
  moreover have "line_text end_text = '':00000001FF''"
    unfolding end_text_def by (rule line_text_plain) (simp_all add: NL_def NUL_def)
  moreover have "lines_full []" by (simp add: lines_full.simps [of "[]"] fgets_def)
  ultimately show ?case by (simp add: lines_full.simps [of end_text])
next
  case (Cons r recs)
  obtain a d ck where r: "r = (a, d, ck)" by (cases r)
  have ok: "record_ok (a, d, ck)" using Cons.prems r by simp
  note plain = record_text_plain [OF ok]
  have "fgets LINE_SIZE (record_text a d ck @ NL # print_hex recs)
      = Some (record_text a d ck @ [NL], print_hex recs)"
    using ok by (intro fgets_line) (simp_all add: plain record_ok_def LINE_SIZE_def)
  then show ?case
    using Cons plain line_text_plain [OF plain(1,2)]
    by (simp add: r lines_full.simps [of "record_text a d ck @ NL # print_hex recs"])
qed

section \<open>Properties\<close>

text \<open>
  C19. For every file, callback and context, \<^verbatim>\<open>parse_ihex\<close> is a scan of the file that does not
  depend on the callback, followed by one call of the callback for each segment found, in order,
  until it fails; a failing callback makes the parser return -1, otherwise the parser ends as the
  scan does.
\<close>

theorem parse_hands_over_segments:
  "parse_ihex junk img ctx ie poke =
     (let (e, segs) = ihex_scan junk img ie; (ok, ctx') = poke_all poke segs ctx
      in (if ok then e else Returns (- 1), ctx'))"
  by (auto simp: Let_def parse_by_scan [of junk img ctx ie poke] split: prod.split bool.split)

text \<open>
  Every segment handed to a callback has between 1 and 1023 bytes, whatever the file holds,
  and is flagged external exactly when the device's map says so for its address and length.
\<close>

theorem segments_fit:
  "list_all (\<lambda>(addr, external, data). 0 < length data \<and> length data \<le> 1023
       \<and> external = is_external addr (length data))
     (snd (ihex_scan junk img (Some is_external)))"
  using scan_good [of junk img "Some is_external"]
  by (auto simp: list_all_iff good_segment_def DATA_SIZE_def)

text \<open>
  A file without a minus sign never makes \<^verbatim>\<open>parse_ihex\<close> store outside its two buffers. With
  one it can: the length \<^verbatim>\<open>-1\<close> is accepted, because the check of the record's size wraps
  around, and the copy loop runs out of the buffers.
\<close>

theorem parse_stays_inside:
  assumes "CHR ''-'' \<notin> set img"
  shows "fst (parse_ihex junk img ctx ie poke) \<noteq> Overruns
    \<and> fst (parse_ihex junk ('':-1000000'' @ [NL]) ctx ie poke) = Overruns"
  using parse_safe [OF assms] by (simp add: parse_negative_length del: append_Cons)

theorem parse_stays_inside_witness:
  "fst (parse_ihex [] ('':0100000055AA'' @ [NL]) [] None record_poke) \<noteq> Overruns"
  using parse_stays_inside [of "'':0100000055AA'' @ [NL]" "[]" "[]" None record_poke]
  by (simp add: NL_def)

text \<open>
  C5. Reading back a printed image: the scan of any list of records of 1 to 249 bytes ends with
  0, and its segments hold exactly the records' bytes at the records' addresses, in order, also
  when the checksums are wrong.
\<close>

theorem printed_image_read_back:
  assumes "\<forall>r \<in> set recs. record_ok r"
  shows "fst (ihex_scan junk (print_hex recs) ie) = Returns 0
    \<and> located (snd (ihex_scan junk (print_hex recs) ie)) = record_bytes recs"
  by (rule scan_print_hex [OF assms])

definition two_records :: "(u16 \<times> u8 list \<times> string) list" where
  "two_records = [(0x100, [1, 2], ''xx''), (0x102, [3], ''yy'')]"

lemma two_records_ok: "\<forall>r \<in> set two_records. record_ok r"
  by (simp add: two_records_def record_ok_def NL_def NUL_def)

theorem printed_image_read_back_witness:
  "located (snd (ihex_scan [] (print_hex two_records) None)) = [(0x100, 1), (0x101, 2), (0x102, 3)]"
  using printed_image_read_back [OF two_records_ok, of "[]" None]
  by (simp add: two_records_def record_bytes_def)

text \<open>
  When every record line has nine characters, the scan does not depend on what the buffer held
  before. A shorter line is completed from the line before it: here \<^verbatim>\<open>:00\<close> takes its type from a
  comment and ends the image, and the record behind it is dropped without an error.
\<close>

theorem records_read_from_file:
  assumes "lines_full img"
  shows "ihex_scan junk img ie = ihex_scan junk' img ie
    \<and> ihex_scan (replicate 512 NUL) (''#      01'' @ [NL] @ '':00'' @ [NL] @ '':0120000055xx'' @ [NL]) None
        = (Returns 0, [])"
proof
  show "ihex_scan junk img ie = ihex_scan junk' img ie" by (rule scan_stale [OF assms])
  show "ihex_scan (replicate 512 NUL) (''#      01'' @ [NL] @ '':00'' @ [NL] @ '':0120000055xx'' @ [NL]) None
      = (Returns 0, [])" by code_simp
qed

theorem records_read_from_file_witness:
  "ihex_scan [] (print_hex two_records) None = ihex_scan (replicate 512 NUL) (print_hex two_records) None"
  using records_read_from_file [OF print_hex_full [OF two_records_ok]] by blast

text \<open>An empty record that comes first keeps its address for the record behind it.\<close>

lemma empty_first_record:
  "ihex_scan (replicate 512 NUL) ('':0010000000'' @ [NL] @ '':01200000AAxx'' @ [NL]) None
     = (Returns 0, [(0x1000, False, [0xAA])])"
  by code_simp

end
