(* ===== verification/Fxload_Ezusb.thy ===== *)
theory Fxload_Ezusb
  imports Leap_Prelude C_Library Fxload_Hex
begin

text \<open>
  \<^verbatim>\<open>drivers/linux/Xilinx_Platform_Cable/fxload/ezusb.c\<close>, second half: the vendor requests to the
  cable's microcontroller, and the loaders of its RAM and of its boot EEPROM. The open device is
  a function that answers a control request, given the requests before it with their answers;
  the files are a map from paths to their text.
\<close>

section \<open>Control requests\<close>

record usb_req =
  c_type :: u8
  c_request :: u8
  c_value :: u16
  c_index :: u16
  c_data :: "u8 list"
  c_length :: u16

type_synonym usb_log = "(usb_req \<times> int) list"

text \<open>The status of the \<^verbatim>\<open>ioctl\<close>, the error number it sets when it fails, and the data it reads.\<close>

type_synonym usb = "usb_log \<Rightarrow> usb_req \<Rightarrow> int \<times> int \<times> u8 list"

record fx =
  fx_log :: usb_log
  fx_errno :: int

definition EINVAL :: int where "EINVAL = 22"
definition EDOM :: int where "EDOM = 33"
definition ETIMEDOUT :: int where "ETIMEDOUT = 110"

definition VENDOR_OUT :: u8 where "VENDOR_OUT = 0x40"
definition VENDOR_IN :: u8 where "VENDOR_IN = 0xC0"

definition RW_INTERNAL :: u8 where "RW_INTERNAL = 0xA0"
definition RW_EEPROM :: u8 where "RW_EEPROM = 0xA2"
definition RW_MEMORY :: u8 where "RW_MEMORY = 0xA3"
definition GET_EEPROM_SIZE :: u8 where "GET_EEPROM_SIZE = 0xA5"

definition ctrl_msg ::
    "usb \<Rightarrow> u8 \<Rightarrow> u8 \<Rightarrow> u16 \<Rightarrow> u16 \<Rightarrow> u8 list \<Rightarrow> nat \<Rightarrow> fx \<Rightarrow> (int \<times> u8 list) \<times> fx" where
  "ctrl_msg usb requestType request val index data len w =
     (if len > 65535 then ((- EINVAL, []), w)
      else
        let ctrl = \<lparr>c_type = requestType, c_request = request, c_value = val, c_index = index,
                    c_data = data, c_length = of_nat len\<rparr>;
            (status, err, indata) = usb (fx_log w) ctrl
        in ((status, indata),
            w\<lparr>fx_log := fx_log w @ [(ctrl, status)],
              fx_errno := (if status < 0 then err else fx_errno w)\<rparr>))"

definition ezusb_read :: "usb \<Rightarrow> u8 \<Rightarrow> u16 \<Rightarrow> nat \<Rightarrow> fx \<Rightarrow> (int \<times> u8 list) \<times> fx" where
  "ezusb_read usb opcode addr len w = ctrl_msg usb VENDOR_IN opcode addr 0 [] len w"

definition ezusb_write :: "usb \<Rightarrow> u8 \<Rightarrow> u16 \<Rightarrow> u8 list \<Rightarrow> fx \<Rightarrow> int \<times> fx" where
  "ezusb_write usb opcode addr data w =
     (case ctrl_msg usb VENDOR_OUT opcode addr 0 data (length data) w of
        ((status, _), w') \<Rightarrow> (status, w'))"

text \<open>Stops (\<^verbatim>\<open>doRun = 0\<close>) or resets the CPU; false on error.\<close>

definition ezusb_cpucs :: "usb \<Rightarrow> u16 \<Rightarrow> bool \<Rightarrow> fx \<Rightarrow> bool \<times> fx" where
  "ezusb_cpucs usb addr doRun w =
     (case ctrl_msg usb VENDOR_OUT RW_INTERNAL addr 0 [if doRun then 0 else 1] 1 w of
        ((status, _), w') \<Rightarrow> (status = 1, w'))"

definition ezusb_get_eeprom_type :: "usb \<Rightarrow> fx \<Rightarrow> (int \<times> u8 list) \<times> fx" where
  "ezusb_get_eeprom_type usb w = ezusb_read usb GET_EEPROM_SIZE 0 1 w"

section \<open>Writing to RAM\<close>

datatype ram_mode = undef_mode | internal_only | skip_internal | skip_external

record ram_poke_context =
  rp_mode :: ram_mode
  rp_total :: u32
  rp_count :: u32

definition RETRY_LIMIT :: nat where "RETRY_LIMIT = 5"

text \<open>Sent again while it times out, at most \<^verbatim>\<open>RETRY_LIMIT\<close> times.\<close>

function ram_write :: "usb \<Rightarrow> bool \<Rightarrow> u16 \<Rightarrow> u8 list \<Rightarrow> nat \<Rightarrow> fx \<Rightarrow> int \<times> fx" where
  "ram_write usb external addr data retry w =
     (let (rc, w') = ezusb_write usb (if external then RW_MEMORY else RW_INTERNAL) addr data w
      in if rc < 0 \<and> retry < RETRY_LIMIT
         then if fx_errno w' \<noteq> ETIMEDOUT then (rc, w')
              else ram_write usb external addr data (Suc retry) w'
         else (rc, w'))"
  by pat_completeness auto
termination by (relation "measure (\<lambda>(_, _, _, _, retry, _). RETRY_LIMIT - retry)") auto

declare ram_write.simps [simp del]

definition ram_poke :: "usb \<Rightarrow> (ram_poke_context \<times> fx) poker" where
  "ram_poke usb = (\<lambda>(ctx, w) addr external data.
     let go = (let (rc, w') = ram_write usb external addr data 0 w
               in (if rc < 0 then - fx_errno w' else 0,
                   (ctx\<lparr>rp_total := rp_total ctx + of_nat (length data),
                        rp_count := rp_count ctx + 1\<rparr>, w')))
     in case rp_mode ctx of
          internal_only \<Rightarrow> if external then (- EINVAL, (ctx, w)) else go
        | skip_internal \<Rightarrow> if \<not> external then (0, (ctx, w)) else go
        | skip_external \<Rightarrow> if external then (0, (ctx, w)) else go
        | undef_mode \<Rightarrow> (- EDOM, (ctx, w)))"

text \<open>The register that holds the CPU and the map of on-chip memory, by type of device.\<close>

definition ram_device :: "int \<Rightarrow> u16 \<times> (u16 \<Rightarrow> nat \<Rightarrow> bool)" where
  "ram_device fx2 =
     (if fx2 = 2 then (0xe600, fx2lp_is_external)
      else if fx2 \<noteq> 0 then (0xe600, fx2_is_external)
      else (0x7f92, fx_is_external))"

text \<open>Go on when a parse returned a status that is not negative.\<close>

definition when_parsed :: "fx_end \<Rightarrow> fx \<Rightarrow> fx_end \<times> fx \<Rightarrow> fx_end \<times> fx" where
  "when_parsed e w continue =
     (case e of Returns status \<Rightarrow> if status < 0 then (Returns status, w) else continue
      | _ \<Rightarrow> (e, w))"

text \<open>The statistics of the verbose mode and the reset of the CPU.\<close>

definition load_ram_reset :: "usb \<Rightarrow> int \<Rightarrow> u16 \<Rightarrow> ram_poke_context \<Rightarrow> fx \<Rightarrow> fx_end \<times> fx" where
  "load_ram_reset usb verbose cpucs_addr ctx w =
     (if verbose \<noteq> 0 \<and> rp_count ctx = 0 then (Divides_by_zero, w)
      else let (ok, w') = ezusb_cpucs usb cpucs_addr True w
           in (Returns (if ok then 0 else - 1), w'))"

text \<open>Second part of the second stage: the CPU is stopped and the image is read again.\<close>

definition load_ram_rescan ::
    "usb \<Rightarrow> int \<Rightarrow> string \<Rightarrow> string \<Rightarrow> u16 \<Rightarrow> (u16 \<Rightarrow> nat \<Rightarrow> bool) \<Rightarrow> ram_poke_context \<Rightarrow> fx
       \<Rightarrow> fx_end \<times> fx" where
  "load_ram_rescan usb verbose junk img cpucs_addr is_external ctx w =
     (let (ok, w1) = ezusb_cpucs usb cpucs_addr False w
      in if \<not> ok then (Returns (- 1), w1)
         else
           let (e, ctx2, w2) =
             parse_ihex junk img (ctx\<lparr>rp_mode := skip_external\<rparr>, w1) (Some is_external) (ram_poke usb)
           in when_parsed e w2 (load_ram_reset usb verbose cpucs_addr ctx2 w2))"

text \<open>
  \<^verbatim>\<open>junk\<close> is what the line buffer of the two calls of \<^verbatim>\<open>parse_ihex\<close> holds when they start.
\<close>

definition ezusb_load_ram ::
    "usb \<Rightarrow> int \<Rightarrow> (string \<Rightarrow> string option) \<Rightarrow> string \<times> string \<Rightarrow> string \<Rightarrow> int \<Rightarrow> bool \<Rightarrow> fx
       \<Rightarrow> fx_end \<times> fx" where
  "ezusb_load_ram usb verbose files junk path fx2 stage w =
     (case files path of
        None \<Rightarrow> (Returns (- 2), w)
      | Some img \<Rightarrow>
          let (cpucs_addr, is_external) = ram_device fx2;
              (ok, w0) = (if \<not> stage then ezusb_cpucs usb cpucs_addr False w else (True, w))
          in if \<not> ok then (Returns (- 1), w0)
             else
               let (e, ctx, w1) =
                 parse_ihex (fst junk) img
                   (\<lparr>rp_mode = (if stage then skip_internal else internal_only),
                     rp_total = 0, rp_count = 0\<rparr>, w0) (Some is_external) (ram_poke usb)
               in when_parsed e w1
                    (if stage
                     then load_ram_rescan usb verbose (snd junk) img cpucs_addr is_external ctx w1
                     else load_ram_reset usb verbose cpucs_addr ctx w1))"

section \<open>Writing to the boot EEPROM\<close>

record eeprom_poke_context =
  ee_addr :: u16
  ee_last :: bool

text \<open>The header of a segment: its length and its address, and a flag on the last one.\<close>

definition eeprom_header :: "bool \<Rightarrow> u16 \<Rightarrow> nat \<Rightarrow> u8 list" where
  "eeprom_header last_seg addr len =
     [of_nat (len div 256) OR (if last_seg then 0x80 else 0), of_nat len,
      ucast (drop_bit 8 addr), ucast addr]"

definition eeprom_poke :: "usb \<Rightarrow> (eeprom_poke_context \<times> fx) poker" where
  "eeprom_poke usb = (\<lambda>(ctx, w) addr external data.
     if external then (- EINVAL, (ctx, w))
     else if length data > 1023 then (- EDOM, (ctx, w))
     else
       let (rc, w1) = ezusb_write usb RW_EEPROM (ee_addr ctx)
                        (eeprom_header (ee_last ctx) addr (length data)) w
       in if rc < 0 then (rc, (ctx, w1))
          else
            let (rc, w2) = ezusb_write usb RW_EEPROM (ee_addr ctx + 4) data w1
            in if rc < 0 then (rc, (ctx, w2))
               else (0, (ctx\<lparr>ee_addr := ee_addr ctx + 4 + of_nat (length data)\<rparr>, w2)))"

text \<open>
  By type of device: the byte that makes the EEPROM bootable, the CPU's register, the map of
  on-chip memory, the first address of the segments, and the configuration byte.
\<close>

definition eeprom_device ::
    "string \<Rightarrow> int \<Rightarrow> (u8 \<times> u16 \<times> (u16 \<Rightarrow> nat \<Rightarrow> bool) \<times> u16 \<times> int) option" where
  "eeprom_device type config =
     (if type = ''fx2'' then Some (0xC2, 0xe600, fx2_is_external, 8, config AND 0x4f)
      else if type = ''fx2lp'' then Some (0xC2, 0xe600, fx2lp_is_external, 8, config AND 0x4f)
      else if type = ''fx'' then Some (0xB6, 0x7f92, fx_is_external, 9, config AND 0x07)
      else if type = ''an21'' then Some (0xB2, 0x7f92, fx_is_external, 7, 0)
      else None)"

text \<open>One byte of the EEPROM, and what follows when it was written.\<close>

definition eeprom_byte :: "usb \<Rightarrow> u16 \<Rightarrow> u8 \<Rightarrow> fx \<Rightarrow> (fx \<Rightarrow> fx_end \<times> fx) \<Rightarrow> fx_end \<times> fx" where
  "eeprom_byte usb addr b w continue =
     (let (status, w') = ezusb_write usb RW_EEPROM addr [b] w
      in if status < 0 then (Returns status, w') else continue w')"

text \<open>The configuration byte, the reserved byte and the type byte, in this order.\<close>

definition eeprom_config :: "usb \<Rightarrow> string \<Rightarrow> u8 \<Rightarrow> int \<Rightarrow> fx \<Rightarrow> fx_end \<times> fx" where
  "eeprom_config usb type first_byte config w =
     (let finish = (\<lambda>w. eeprom_byte usb 0 first_byte w (\<lambda>w. (Returns 0, w)));
          reserved = (\<lambda>w. if type = ''fx'' then eeprom_byte usb 8 0 w finish else finish w)
      in if type \<noteq> ''an21'' then eeprom_byte usb 7 (word_of_int config) w reserved
         else reserved w)"

text \<open>The segments of the image, then the reset command as the last segment.\<close>

definition eeprom_segments ::
    "usb \<Rightarrow> string \<Rightarrow> string \<Rightarrow> u16 \<Rightarrow> (u16 \<Rightarrow> nat \<Rightarrow> bool) \<Rightarrow> u16 \<Rightarrow> fx
       \<Rightarrow> (fx \<Rightarrow> fx_end \<times> fx) \<Rightarrow> fx_end \<times> fx" where
  "eeprom_segments usb junk img cpucs_addr is_external start w continue =
     (let (e, ctx, w1) =
        parse_ihex junk img (\<lparr>ee_addr = start, ee_last = False\<rparr>, w) (Some is_external) (eeprom_poke usb)
      in when_parsed e w1
           (let (status, _, w2) = eeprom_poke usb (ctx\<lparr>ee_last := True\<rparr>, w1) cpucs_addr False [0]
            in if status < 0 then (Returns status, w2) else continue w2))"

definition ezusb_load_eeprom ::
    "usb \<Rightarrow> (string \<Rightarrow> string option) \<Rightarrow> string \<Rightarrow> string \<Rightarrow> string \<Rightarrow> int \<Rightarrow> fx \<Rightarrow> fx_end \<times> fx" where
  "ezusb_load_eeprom usb files junk path type config w =
     (case ezusb_get_eeprom_type usb w of
        ((status, value), w0) \<Rightarrow>
          if status \<noteq> 1 \<or> value \<noteq> [1] then (Returns (- 1), w0)
          else
            case files path of
              None \<Rightarrow> (Returns (- 2), w0)
            | Some img \<Rightarrow>
                (case eeprom_device type config of
                   None \<Rightarrow> (Returns (- 1), w0)
                 | Some (first_byte, cpucs_addr, is_external, start, config) \<Rightarrow>
                     eeprom_byte usb 0 0 w0 (\<lambda>w1.
                       eeprom_segments usb junk img cpucs_addr is_external start w1
                         (eeprom_config usb type first_byte config))))"

end
