(* ===== verification/Fxload_Load.thy ===== *)
theory Fxload_Load
  imports Leap_Prelude C_Library Fxload_Hex Fxload_Image Fxload_Ezusb
begin

text \<open>
  What the loaders of \<^verbatim>\<open>ezusb.c\<close> send to the device, over every sequence of answers: each segment
  once, on-chip memory only while the CPU is stopped, and a boot EEPROM that is not bootable
  before everything else is in it.
\<close>

section \<open>What an operation adds to the log\<close>

definition write_req :: "u8 \<Rightarrow> u16 \<Rightarrow> u8 list \<Rightarrow> usb_req" where
  "write_req opcode addr data =
     \<lparr>c_type = VENDOR_OUT, c_request = opcode, c_value = addr, c_index = 0, c_data = data,
      c_length = of_nat (length data)\<rparr>"

text \<open>The requests the device accepted.\<close>

definition accepted :: "usb_log \<Rightarrow> usb_req list" where
  "accepted log = map fst (filter (\<lambda>(c, status). 0 \<le> status) log)"

lemma accepted_simps [simp]:
  "accepted [] = []" "accepted (l @ l') = accepted l @ accepted l'"
  "accepted ((c, status) # l) = (if 0 \<le> status then c # accepted l else accepted l)"
  by (simp_all add: accepted_def)

text \<open>\<^verbatim>\<open>ioctl\<close> sets a positive error number when it fails.\<close>

definition errno_set :: "usb \<Rightarrow> bool" where
  "errno_set usb \<longleftrightarrow> (\<forall>log c. fst (usb log c) < 0 \<longrightarrow> 0 < fst (snd (usb log c)))"

lemma errno_setD: "errno_set usb \<Longrightarrow> usb log c = (s, e, d) \<Longrightarrow> s < 0 \<Longrightarrow> 0 < e"
  unfolding errno_set_def by (metis fst_conv snd_conv)

lemma ezusb_write_run:
  assumes "length data \<le> 65535"
  shows "\<exists>w'. ezusb_write usb opcode addr data w = (fst (usb (fx_log w) (write_req opcode addr data)), w')
    \<and> fx_log w' = fx_log w @ [(write_req opcode addr data, fst (usb (fx_log w) (write_req opcode addr data)))]
    \<and> (errno_set usb \<longrightarrow> fst (usb (fx_log w) (write_req opcode addr data)) < 0 \<longrightarrow> 0 < fx_errno w')"
  using assms
  by (auto simp: ezusb_write_def ctrl_msg_def write_req_def Let_def split: prod.split dest: errno_setD)

lemma ezusb_cpucs_run:
  "\<exists>status w'. ezusb_cpucs usb addr run w = (status = 1, w')
    \<and> fx_log w' = fx_log w @ [(write_req RW_INTERNAL addr [if run then 0 else 1], status)]"
  by (auto simp: ezusb_cpucs_def ctrl_msg_def write_req_def Let_def split: prod.split)

text \<open>A segment is sent once more for each time-out, and stays the last request of the log.\<close>

lemma ram_write_run:
  assumes "length data \<le> 65535" "retry \<le> RETRY_LIMIT" "ram_write usb external addr data retry w = (rc, w')"
  defines "req \<equiv> write_req (if external then RW_MEMORY else RW_INTERNAL) addr data"
  shows "(\<exists>failed. fx_log w' = fx_log w @ map (\<lambda>s. (req, s)) failed @ [(req, rc)]
      \<and> (\<forall>s \<in> set failed. s < 0) \<and> length failed \<le> RETRY_LIMIT - retry)
    \<and> (errno_set usb \<longrightarrow> rc < 0 \<longrightarrow> 0 < fx_errno w')"
  using assms(2,3)
proof (induction "RETRY_LIMIT - retry" arbitrary: retry w)
  case 0
  obtain w1 where "ezusb_write usb (if external then RW_MEMORY else RW_INTERNAL) addr data w
      = (fst (usb (fx_log w) req), w1)"
    "fx_log w1 = fx_log w @ [(req, fst (usb (fx_log w) req))]"
    "errno_set usb \<longrightarrow> fst (usb (fx_log w) req) < 0 \<longrightarrow> 0 < fx_errno w1"
    using ezusb_write_run [OF assms(1)] unfolding req_def by metis
  moreover have "\<not> retry < RETRY_LIMIT" using 0 by simp
  ultimately show ?case
    using 0 by (subst (asm) ram_write.simps) (auto intro!: exI [of _ "[]"])
next
  case (Suc k)
  obtain s w1 where w1: "ezusb_write usb (if external then RW_MEMORY else RW_INTERNAL) addr data w = (s, w1)"
    "fx_log w1 = fx_log w @ [(req, s)]" "errno_set usb \<longrightarrow> s < 0 \<longrightarrow> 0 < fx_errno w1"
    using ezusb_write_run [OF assms(1)] unfolding req_def by metis
  have lt: "retry < RETRY_LIMIT" using Suc.hyps(2) by simp
  show ?case
  proof (cases "s < 0 \<and> fx_errno w1 = ETIMEDOUT")
    case True
    have r: "ram_write usb external addr data (Suc retry) w1 = (rc, w')"
      using Suc.prems lt True w1(1) by (simp add: ram_write.simps [of _ _ _ _ retry])
    have "k = RETRY_LIMIT - Suc retry" "Suc retry \<le> RETRY_LIMIT" using Suc.hyps(2) by auto
    from Suc.hyps(1) [OF this r] obtain failed where
      "fx_log w' = fx_log w1 @ map (\<lambda>s. (req, s)) failed @ [(req, rc)]" "\<forall>s \<in> set failed. s < 0"
      "length failed \<le> RETRY_LIMIT - Suc retry" "errno_set usb \<longrightarrow> rc < 0 \<longrightarrow> 0 < fx_errno w'"
      by blast
    then show ?thesis
      using w1 True Suc.hyps(2) by (auto intro!: exI [of _ "s # failed"])
  next
    case False
    then have "rc = s \<and> w' = w1"
      using Suc.prems lt w1(1) by (auto simp: ram_write.simps [of _ _ _ _ retry] split: if_splits)
    then show ?thesis using w1 by (auto intro!: exI [of _ "[]"])
  qed
qed

section \<open>Writing the segments to RAM\<close>

definition seg_req :: "segment \<Rightarrow> usb_req" where
  "seg_req = (\<lambda>(addr, external, data).
     write_req (if external then RW_MEMORY else RW_INTERNAL) addr data)"

text \<open>The segments a mode writes; the first stage refuses external ones.\<close>

definition mode_writes :: "ram_mode \<Rightarrow> segment \<Rightarrow> bool" where
  "mode_writes mode seg =
     (case mode of internal_only \<Rightarrow> \<not> fst (snd seg) | skip_internal \<Rightarrow> fst (snd seg)
      | skip_external \<Rightarrow> \<not> fst (snd seg) | undef_mode \<Rightarrow> False)"

definition small_segments :: "segment list \<Rightarrow> bool" where
  "small_segments segs \<longleftrightarrow> (\<forall>(addr, external, data) \<in> set segs. length data \<le> 65535)"

lemma small_scan: "small_segments (snd (ihex_scan junk img ie))"
  using scan_good [of junk img ie] by (auto simp: small_segments_def good_segment_def DATA_SIZE_def)

lemma accepted_failed: "\<forall>s \<in> set l. s < 0 \<Longrightarrow> accepted (map (\<lambda>s. (c, s)) l) = []"
  by (induction l) auto

lemma ram_poke_run:
  assumes "length data \<le> 65535" "ram_poke usb (ctx, w) addr external data = (rc, ctx', w')"
  shows "rp_mode ctx' = rp_mode ctx \<and>
    (\<exists>new. fx_log w' = fx_log w @ new
      \<and> (\<forall>(c, s) \<in> set new. mode_writes (rp_mode ctx) (addr, external, data) \<and> c = seg_req (addr, external, data))
      \<and> length new \<le> RETRY_LIMIT + 1
      \<and> (errno_set usb \<longrightarrow> 0 \<le> rc \<longrightarrow>
           accepted new = (if mode_writes (rp_mode ctx) (addr, external, data)
                           then [seg_req (addr, external, data)] else [])
           \<and> (rp_mode ctx = internal_only \<longrightarrow> \<not> external)))"
proof -
  obtain r w1 where r: "ram_write usb external addr data 0 w = (r, w1)" by fastforce
  from ram_write_run [OF assms(1) _ r] obtain failed where
    f: "fx_log w1 = fx_log w @ map (\<lambda>s. (seg_req (addr, external, data), s)) failed
          @ [(seg_req (addr, external, data), r)]" "\<forall>s \<in> set failed. s < 0"
      "length failed \<le> RETRY_LIMIT" "errno_set usb \<longrightarrow> r < 0 \<longrightarrow> 0 < fx_errno w1"
    unfolding seg_req_def by auto
  show ?thesis
  proof (cases "mode_writes (rp_mode ctx) (addr, external, data)")
    case True
    then have "rp_mode ctx' = rp_mode ctx \<and> w' = w1 \<and> rc = (if r < 0 then - fx_errno w1 else 0)
        \<and> (rp_mode ctx = internal_only \<longrightarrow> \<not> external)"
      using assms(2) r
      by (cases "rp_mode ctx") (auto simp: ram_poke_def mode_writes_def split: if_splits)
    with True f show ?thesis
      by (auto intro!: exI [of _ "map (\<lambda>s. (seg_req (addr, external, data), s)) failed
          @ [(seg_req (addr, external, data), r)]"] simp: accepted_failed)
  next
    case False
    then have "rp_mode ctx' = rp_mode ctx \<and> w' = w
        \<and> (rp_mode ctx = internal_only \<longrightarrow> external \<longrightarrow> rc < 0)"
      using assms(2) r
      by (cases "rp_mode ctx") (auto simp: ram_poke_def mode_writes_def EINVAL_def EDOM_def split: if_splits)
    with False show ?thesis by (auto intro!: exI [of _ "[]"])
  qed
qed

lemma ram_phase:
  assumes "small_segments segs" "poke_all (ram_poke usb) segs (ctx, w) = (ok, ctx', w')"
  shows "rp_mode ctx' = rp_mode ctx \<and>
    (\<exists>new. fx_log w' = fx_log w @ new
      \<and> (\<forall>(c, s) \<in> set new. \<exists>seg \<in> set segs. mode_writes (rp_mode ctx) seg \<and> c = seg_req seg)
      \<and> (errno_set usb \<longrightarrow> ok \<longrightarrow> accepted new = map seg_req (filter (mode_writes (rp_mode ctx)) segs)
           \<and> (rp_mode ctx = internal_only \<longrightarrow> (\<forall>seg \<in> set segs. \<not> fst (snd seg)))))"
  using assms
proof (induction segs arbitrary: ctx w)
  case Nil
  then show ?case by auto
next
  case (Cons seg segs)
  obtain addr external data where seg: "seg = (addr, external, data)" by (cases seg)
  obtain rc c1 w1 where p: "ram_poke usb (ctx, w) addr external data = (rc, c1, w1)"
    by (cases "ram_poke usb (ctx, w) addr external data") auto
  have len: "length data \<le> 65535" and small: "small_segments segs"
    using Cons.prems(1) by (auto simp: small_segments_def seg)
  obtain new1 where m1: "rp_mode c1 = rp_mode ctx" and new1: "fx_log w1 = fx_log w @ new1"
    "\<forall>(c, s) \<in> set new1. mode_writes (rp_mode ctx) seg \<and> c = seg_req seg"
    "errno_set usb \<longrightarrow> 0 \<le> rc \<longrightarrow> accepted new1 = (if mode_writes (rp_mode ctx) seg then [seg_req seg] else [])
       \<and> (rp_mode ctx = internal_only \<longrightarrow> \<not> external)"
    using ram_poke_run [OF len p] unfolding seg by blast
  show ?case
  proof (cases "rc < 0")
    case True
    then have "ok = False \<and> ctx' = c1 \<and> w' = w1" using Cons.prems(2) by (simp add: seg p)
    then show ?thesis using m1 new1 by (auto intro!: exI [of _ new1])
  next
    case False
    then have "poke_all (ram_poke usb) segs (c1, w1) = (ok, ctx', w')"
      using Cons.prems(2) by (simp add: seg p)
    from Cons.IH [OF small this] obtain new2 where "rp_mode ctx' = rp_mode ctx"
      "fx_log w' = fx_log w1 @ new2"
      "\<forall>(c, s) \<in> set new2. \<exists>seg \<in> set segs. mode_writes (rp_mode ctx) seg \<and> c = seg_req seg"
      "errno_set usb \<longrightarrow> ok \<longrightarrow> accepted new2 = map seg_req (filter (mode_writes (rp_mode ctx)) segs)
         \<and> (rp_mode ctx = internal_only \<longrightarrow> (\<forall>seg \<in> set segs. \<not> fst (snd seg)))"
      unfolding m1 by blast
    then show ?thesis
      using new1 False
      by (intro conjI exI [of _ "new1 @ new2"]) (auto simp: seg split: if_splits)
  qed
qed

lemma ram_parse:
  assumes "parse_ihex junk img (ctx, w) (Some ext) (ram_poke usb) = (e, ctx', w')"
  defines "segs \<equiv> snd (ihex_scan junk img (Some ext))"
  shows "rp_mode ctx' = rp_mode ctx \<and>
    (\<exists>new. fx_log w' = fx_log w @ new
      \<and> (\<forall>(c, s) \<in> set new. \<exists>seg \<in> set segs. mode_writes (rp_mode ctx) seg \<and> c = seg_req seg)
      \<and> (errno_set usb \<longrightarrow> e \<noteq> Returns (- 1) \<longrightarrow>
           fst (ihex_scan junk img (Some ext)) = e
           \<and> accepted new = map seg_req (filter (mode_writes (rp_mode ctx)) segs)
           \<and> (rp_mode ctx = internal_only \<longrightarrow> (\<forall>seg \<in> set segs. \<not> fst (snd seg)))))"
proof -
  obtain ok c1 w1 where p: "poke_all (ram_poke usb) segs (ctx, w) = (ok, c1, w1)"
    by (cases "poke_all (ram_poke usb) segs (ctx, w)") auto
  have e: "ctx' = c1 \<and> w' = w1 \<and> (e \<noteq> Returns (- 1) \<longrightarrow> ok \<and> fst (ihex_scan junk img (Some ext)) = e)"
    using assms(1) p parse_by_scan [of junk img "(ctx, w)" "Some ext" "ram_poke usb"]
    by (auto simp: segs_def split: bool.splits)
  have "small_segments segs" unfolding segs_def by (rule small_scan)
  from ram_phase [OF this p] e show ?thesis by blast
qed

section \<open>The CPU while the RAM is written\<close>

text \<open>
  The CPU followed through a log: stopped by an accepted 1 in its register and started by an
  accepted 0. A segment for on-chip memory needs a stopped CPU and must not reach the
  register; a segment for external memory needs the second-stage loader to run. \<^verbatim>\<open>None\<close> is a
  request that breaks these rules.
\<close>

fun cpu_run :: "u16 \<Rightarrow> bool \<Rightarrow> usb_log \<Rightarrow> bool option" where
  "cpu_run cs stopped [] = Some stopped"
| "cpu_run cs stopped ((c, s) # log) =
     (if c_request c = RW_INTERNAL \<and> c_value c = cs
      then cpu_run cs (if s = 1 then c_data c = [1] else stopped) log
      else if c_request c = RW_INTERNAL
      then if stopped \<and> \<not> (unat (c_value c) \<le> unat cs \<and> unat cs < unat (c_value c) + length (c_data c))
           then cpu_run cs stopped log else None
      else if c_request c = RW_MEMORY
      then if \<not> stopped then cpu_run cs stopped log else None
      else cpu_run cs stopped log)"

lemma cpu_run_append:
  "cpu_run cs h (l @ l') = (case cpu_run cs h l of None \<Rightarrow> None | Some h' \<Rightarrow> cpu_run cs h' l')"
  by (induction cs h l rule: cpu_run.induct) auto

text \<open>No on-chip segment reaches the CPU's register.\<close>

lemma ram_device_cpucs:
  assumes "ram_device fx2 = (cs, ext)" "\<not> ext addr (length data)" "data \<noteq> []"
  shows "addr \<noteq> cs \<and> \<not> (unat addr \<le> unat cs \<and> unat cs < unat addr + length data)"
proof -
  have c: "unat (0xe600 :: u16) = 0xe600" "unat (0x7f92 :: u16) = 0x7f92" by simp_all
  have "unat cs = 0xe600 \<and> (unat addr \<le> 0x3fff \<and> unat addr + length data \<le> 0x4000
        \<or> unat addr \<le> 0xe1ff \<and> unat addr + length data \<le> 0xe200)
      \<or> unat cs = 0x7f92 \<and> unat addr + length data \<le> 0x1b40"
    using assms(1,2)
    by (auto simp: ram_device_def fx_is_external_def fx2_is_external_def fx2lp_is_external_def
        split: if_splits)
  moreover have "0 < length data" using assms(3) by simp
  ultimately show ?thesis by (auto)
qed

lemma cpu_run_segments:
  assumes "\<forall>(c, s) \<in> set log. \<exists>seg \<in> set segs. fst (snd seg) = (\<not> stopped) \<and> c = seg_req seg"
    and "\<forall>seg \<in> set segs. good_segment (Some ext) seg" "ram_device fx2 = (cs, ext)"
  shows "cpu_run cs stopped log = Some stopped"
  using assms(1)
proof (induction log)
  case (Cons cs' log)
  obtain c s where c: "cs' = (c, s)" by (cases cs')
  obtain addr external data where seg: "(addr, external, data) \<in> set segs" "external = (\<not> stopped)"
    "c = seg_req (addr, external, data)"
    using Cons.prems by (fastforce simp: c)
  have good: "data \<noteq> []" "external = ext addr (length data)"
    using assms(2) seg(1) by (auto simp: good_segment_def)
  have "cpu_run cs stopped log = Some stopped" using Cons by simp
  then show ?case
    using seg good ram_device_cpucs [OF assms(3), of addr data]
    by (cases stopped) (simp_all add: c seg_req_def write_req_def RW_INTERNAL_def RW_MEMORY_def)
qed simp

section \<open>A whole download to RAM\<close>

definition cpu_req :: "u16 \<Rightarrow> bool \<Rightarrow> usb_req" where
  "cpu_req cs run = write_req RW_INTERNAL cs [if run then 0 else 1]"

text \<open>What a download that succeeds makes the device accept, in this order.\<close>

definition ram_plan :: "u16 \<Rightarrow> bool \<Rightarrow> segment list \<Rightarrow> segment list \<Rightarrow> usb_req list" where
  "ram_plan cs stage segs1 segs2 =
     (if stage then map seg_req (filter (\<lambda>seg. fst (snd seg)) segs1) @ [cpu_req cs False]
        @ map seg_req (filter (\<lambda>seg. \<not> fst (snd seg)) segs2)
      else cpu_req cs False # map seg_req segs1) @ [cpu_req cs True]"

lemma cpu_run_cpu_req:
  "cpu_run cs h ((cpu_req cs run, s) # log) = cpu_run cs (if s = 1 then \<not> run else h) log"
  by (simp add: cpu_req_def write_req_def)

declare cpu_run.simps(2) [simp del]

lemma cpucs_step:
  assumes "ezusb_cpucs usb cs run w = (ok, w')"
  shows "\<exists>s. fx_log w' = fx_log w @ [(cpu_req cs run, s)] \<and> ok = (s = 1)"
  using ezusb_cpucs_run [of usb cs run w] assms unfolding cpu_req_def by auto

text \<open>
  What a part of a download adds to the log: the CPU rules hold, and when it returns 0 the device
  accepted exactly the plan and its CPU runs.
\<close>

definition run_adds :: "usb \<Rightarrow> u16 \<Rightarrow> bool \<Rightarrow> fx \<Rightarrow> usb_req list \<Rightarrow> fx_end \<times> fx \<Rightarrow> bool" where
  "run_adds usb cs stopped w plan res \<longleftrightarrow>
     (\<exists>new. fx_log (snd res) = fx_log w @ new \<and> cpu_run cs stopped new \<noteq> None
        \<and> (errno_set usb \<longrightarrow> fst res = Returns 0 \<longrightarrow>
             accepted new = plan \<and> cpu_run cs stopped new = Some False))"

lemma run_adds_stop: "e \<noteq> Returns 0 \<Longrightarrow> run_adds usb cs h w plan (e, w)"
  by (auto simp: run_adds_def intro!: exI [of _ "[]"])

lemma run_adds_failed:
  "fx_log w' = fx_log w @ [(cpu_req cs run, s)] \<Longrightarrow> e \<noteq> Returns 0 \<Longrightarrow> run_adds usb cs h w plan (e, w')"
  by (auto simp: run_adds_def cpu_run_cpu_req intro!: exI [of _ "[(cpu_req cs run, s)]"])

lemma run_adds_cpucs:
  assumes "fx_log w1 = fx_log w @ [(cpu_req cs run, 1)]" "run_adds usb cs (\<not> run) w1 plan res"
  shows "run_adds usb cs h w (cpu_req cs run # plan) res"
proof -
  obtain new where n: "fx_log (snd res) = fx_log w1 @ new" "cpu_run cs (\<not> run) new \<noteq> None"
    "errno_set usb \<longrightarrow> fst res = Returns 0 \<longrightarrow> accepted new = plan \<and> cpu_run cs (\<not> run) new = Some False"
    using assms(2) unfolding run_adds_def by blast
  then show ?thesis
    unfolding run_adds_def using assms(1)
    by (intro exI [of _ "(cpu_req cs run, 1) # new"]) (simp add: cpu_run_cpu_req)
qed

lemma reset_run:
  "run_adds usb cs h w [cpu_req cs True] (load_ram_reset usb verbose cs ctx w)"
proof (cases "verbose \<noteq> 0 \<and> rp_count ctx = 0")
  case True
  then show ?thesis by (simp add: load_ram_reset_def run_adds_stop)
next
  case False
  obtain ok w1 where c: "ezusb_cpucs usb cs True w = (ok, w1)" by fastforce
  from cpucs_step [OF c] obtain s where s: "fx_log w1 = fx_log w @ [(cpu_req cs True, s)]" "ok = (s = 1)"
    by blast
  have "load_ram_reset usb verbose cs ctx w = (Returns (if s = 1 then 0 else - 1), w1)"
    using False c s(2) by (auto simp: load_ram_reset_def)
  then show ?thesis
    using s(1) by (auto simp: run_adds_def cpu_run_cpu_req)
qed

lemma when_parsed_cases:
  "(when_parsed e w cont = (e, w) \<and> e \<noteq> Returns 0) \<or> (when_parsed e w cont = cont \<and> e \<noteq> Returns (- 1))"
  by (auto simp: when_parsed_def split: fx_end.splits)

text \<open>A pass over the image in a mode, followed by the rest of the download.\<close>

lemma pass_run:
  assumes p: "parse_ihex junk img (ctx, w) (Some ext) (ram_poke usb) = (e, ctx', w1)"
    and dev: "ram_device fx2 = (cs, ext)"
    and mode: "rp_mode ctx = mode" "mode \<noteq> undef_mode" "stopped \<longleftrightarrow> mode \<noteq> skip_internal"
    and cont: "run_adds usb cs stopped w1 plan cont"
  defines "segs \<equiv> snd (ihex_scan junk img (Some ext))"
  shows "run_adds usb cs stopped w (map seg_req (filter (mode_writes mode) segs) @ plan) (when_parsed e w1 cont)"
    and "errno_set usb \<Longrightarrow> mode = internal_only \<Longrightarrow> fst (when_parsed e w1 cont) = Returns 0 \<Longrightarrow>
      \<forall>seg \<in> set segs. \<not> fst (snd seg)"
proof -
  from ram_parse [OF p] mode(1) obtain new where new: "fx_log w1 = fx_log w @ new"
    "\<forall>(c, s) \<in> set new. \<exists>seg \<in> set segs. mode_writes mode seg \<and> c = seg_req seg"
    "errno_set usb \<longrightarrow> e \<noteq> Returns (- 1) \<longrightarrow>
       accepted new = map seg_req (filter (mode_writes mode) segs)
       \<and> (mode = internal_only \<longrightarrow> (\<forall>seg \<in> set segs. \<not> fst (snd seg)))"
    unfolding segs_def by blast
  have "mode_writes mode seg \<longleftrightarrow> fst (snd seg) = (\<not> stopped)" for seg
    using mode(2,3) by (cases mode) (auto simp: mode_writes_def)
  then have run: "cpu_run cs stopped new = Some stopped"
    using new(2) scan_good [of junk img "Some ext"] dev
    by (intro cpu_run_segments [where segs = segs]) (auto simp: segs_def)
  show "run_adds usb cs stopped w (map seg_req (filter (mode_writes mode) segs) @ plan) (when_parsed e w1 cont)"
    using when_parsed_cases [of e w1 cont]
  proof
    assume "when_parsed e w1 cont = (e, w1) \<and> e \<noteq> Returns 0"
    then show ?thesis using new(1) run by (auto simp: run_adds_def)
  next
    assume c: "when_parsed e w1 cont = cont \<and> e \<noteq> Returns (- 1)"
    obtain new2 where n2: "fx_log (snd cont) = fx_log w1 @ new2" "cpu_run cs stopped new2 \<noteq> None"
      "errno_set usb \<longrightarrow> fst cont = Returns 0 \<longrightarrow> accepted new2 = plan \<and> cpu_run cs stopped new2 = Some False"
      using cont unfolding run_adds_def by blast
    then show ?thesis
      unfolding run_adds_def using new(1,3) c run
      by (intro exI [of _ "new @ new2"]) (simp add: cpu_run_append)
  qed
  show "\<forall>seg \<in> set segs. \<not> fst (snd seg)"
    if "errno_set usb" "mode = internal_only" "fst (when_parsed e w1 cont) = Returns 0"
    using that new(3) when_parsed_cases [of e w1 cont] by auto
qed

lemma rescan_run:
  assumes dev: "ram_device fx2 = (cs, ext)"
  shows "run_adds usb cs False w
    (cpu_req cs False # map seg_req (filter (mode_writes skip_external) (snd (ihex_scan junk img (Some ext))))
       @ [cpu_req cs True])
    (load_ram_rescan usb verbose junk img cs ext ctx w)"
proof -
  obtain ok w1 where c: "ezusb_cpucs usb cs False w = (ok, w1)" by fastforce
  from cpucs_step [OF c] obtain s where s: "fx_log w1 = fx_log w @ [(cpu_req cs False, s)]" "ok = (s = 1)"
    by blast
  show ?thesis
  proof (cases ok)
    case False
    then show ?thesis
      using c s run_adds_failed [OF s(1)] by (simp add: load_ram_rescan_def)
  next
    case True
    obtain e2 ctx2 w2 where p: "parse_ihex junk img (ctx\<lparr>rp_mode := skip_external\<rparr>, w1) (Some ext) (ram_poke usb)
        = (e2, ctx2, w2)" by (metis prod.exhaust)
    have s1: "fx_log w1 = fx_log w @ [(cpu_req cs False, 1)]" using s True by simp
    have "run_adds usb cs True w1
        (map seg_req (filter (mode_writes skip_external) (snd (ihex_scan junk img (Some ext)))) @ [cpu_req cs True])
        (when_parsed e2 w2 (load_ram_reset usb verbose cs ctx2 w2))"
      by (rule pass_run(1) [OF p dev _ _ _ reset_run]) simp_all
    from run_adds_cpucs [OF s1, unfolded not_False_eq_True, OF this] show ?thesis
      using c p True by (simp add: load_ram_rescan_def)
  qed
qed

lemma load_ram_stage2:
  assumes "files path = Some img" and dev: "ram_device fx2 = (cs, ext)"
  shows "run_adds usb cs False w
    (ram_plan cs True (snd (ihex_scan (fst junk) img (Some ext))) (snd (ihex_scan (snd junk) img (Some ext))))
    (ezusb_load_ram usb verbose files junk path fx2 True w)"
proof -
  obtain e1 ctx1 w1 where p: "parse_ihex (fst junk) img
      (\<lparr>rp_mode = skip_internal, rp_total = 0, rp_count = 0\<rparr>, w) (Some ext) (ram_poke usb) = (e1, ctx1, w1)"
    by (metis prod.exhaust)
  have f: "filter (mode_writes skip_internal) segs = filter (\<lambda>seg. fst (snd seg)) segs"
    "filter (mode_writes skip_external) segs = filter (\<lambda>seg. \<not> fst (snd seg)) segs" for segs
    by (auto intro!: filter_cong simp: mode_writes_def)
  from pass_run(1) [OF p dev _ _ _ rescan_run [OF dev]] show ?thesis
    using assms(1) p by (simp add: ezusb_load_ram_def dev ram_plan_def f)
qed

lemma load_ram_stage1:
  fixes junk :: "string \<times> string"
  assumes "files path = Some img" and dev: "ram_device fx2 = (cs, ext)"
  defines "segs \<equiv> snd (ihex_scan (fst junk) img (Some ext))"
  shows "run_adds usb cs False w (ram_plan cs False segs segs')
      (ezusb_load_ram usb verbose files junk path fx2 False w)
    \<and> (errno_set usb \<longrightarrow> fst (ezusb_load_ram usb verbose files junk path fx2 False w) = Returns 0 \<longrightarrow>
         (\<forall>seg \<in> set segs. \<not> fst (snd seg)))"
proof -
  obtain ok w0 where c: "ezusb_cpucs usb cs False w = (ok, w0)" by fastforce
  from cpucs_step [OF c] obtain s where s: "fx_log w0 = fx_log w @ [(cpu_req cs False, s)]" "ok = (s = 1)"
    by blast
  show ?thesis
  proof (cases ok)
    case False
    then show ?thesis
      using assms(1) c s run_adds_failed [OF s(1)] by (simp add: ezusb_load_ram_def dev)
  next
    case True
    obtain e1 ctx1 w1 where p: "parse_ihex (fst junk) img
        (\<lparr>rp_mode = internal_only, rp_total = 0, rp_count = 0\<rparr>, w0) (Some ext) (ram_poke usb) = (e1, ctx1, w1)"
      by (metis prod.exhaust)
    let ?rest = "when_parsed e1 w1 (load_ram_reset usb verbose cs ctx1 w1)"
    have run: "ezusb_load_ram usb verbose files junk path fx2 False w = ?rest"
      using assms(1) dev True c p by (simp add: ezusb_load_ram_def)
    have adds: "run_adds usb cs True w0 (map seg_req (filter (mode_writes internal_only) segs) @ [cpu_req cs True]) ?rest"
      unfolding segs_def by (rule pass_run(1) [OF p dev _ _ _ reset_run]) simp_all
    have onchip: "errno_set usb \<Longrightarrow> fst ?rest = Returns 0 \<Longrightarrow> \<forall>seg \<in> set segs. \<not> fst (snd seg)"
      unfolding segs_def by (rule pass_run(2) [OF p dev _ _ _ reset_run]) simp_all
    then have "filter (mode_writes internal_only) segs = segs"
      if "errno_set usb" "fst ?rest = Returns 0"
      using that by (simp add: mode_writes_def)
    then have "run_adds usb cs True w0 (map seg_req segs @ [cpu_req cs True]) ?rest"
      using adds unfolding run_adds_def by metis
    then show ?thesis
      using run_adds_cpucs [of w0 w cs False usb] s True onchip
      by (simp add: run ram_plan_def)
  qed
qed

lemma load_ram_run:
  assumes "files path = Some img" "ram_device fx2 = (cs, ext)"
  shows "run_adds usb cs False w
    (ram_plan cs stage (snd (ihex_scan (fst junk) img (Some ext))) (snd (ihex_scan (snd junk) img (Some ext))))
    (ezusb_load_ram usb verbose files junk path fx2 stage w)"
  using assms load_ram_stage1 [where files = files and path = path]
    load_ram_stage2 [where files = files and path = path] by (cases stage) simp_all

section \<open>What the memory holds afterwards\<close>

text \<open>Bytes stored one after the other; the last one at an address stays.\<close>

definition store_bytes :: "(u16 \<times> u8) list \<Rightarrow> (u16 \<Rightarrow> u8) \<Rightarrow> u16 \<Rightarrow> u8" where
  "store_bytes bs m = fold (\<lambda>(a, b) m. m(a := b)) bs m"

definition ram_bytes :: "usb_req list \<Rightarrow> (u16 \<times> u8) list" where
  "ram_bytes reqs = concat (map (\<lambda>c.
     if c_request c = RW_INTERNAL \<or> c_request c = RW_MEMORY then locate (c_value c) (c_data c) else []) reqs)"

lemma store_bytes_append: "store_bytes (x @ y) m = store_bytes y (store_bytes x m)"
  by (simp add: store_bytes_def)

lemma store_bytes_only:
  assumes "(a, b) \<in> set bs" "\<And>b'. (a, b') \<in> set bs \<Longrightarrow> b' = b"
  shows "store_bytes bs m a = b"
  using assms
proof (induction bs rule: rev_induct)
  case (snoc p bs)
  obtain a' b' where p: "p = (a', b')" by (cases p)
  have step: "store_bytes (bs @ [p]) m = (store_bytes bs m)(a' := b')"
    by (simp add: store_bytes_def p)
  show ?case
  proof (cases "a' = a")
    case True
    then have "b' = b" using snoc.prems(2) [of b'] by (simp add: p)
    with True step show ?thesis by simp
  next
    case False
    have "store_bytes bs m a = b"
    proof (rule snoc.IH)
      show "(a, b) \<in> set bs" using snoc.prems(1) p False by auto
      show "b'' = b" if "(a, b'') \<in> set bs" for b''
        using snoc.prems(2) [of b''] that by simp
    qed
    with step False show ?thesis by simp
  qed
qed simp

lemma store_bytes_other: "a \<notin> fst ` set bs \<Longrightarrow> store_bytes bs m a = m a"
  by (induction bs arbitrary: m) (auto simp: store_bytes_def)

lemma ram_bytes_plan:
  "ram_bytes (map seg_req segs) = located segs"
  "ram_bytes [cpu_req cs run] = [(cs, if run then 0 else 1)]"
  "ram_bytes (x @ y) = ram_bytes x @ ram_bytes y"
  "ram_bytes (c # x) = ram_bytes [c] @ ram_bytes x"
proof -
  show "ram_bytes (map seg_req segs) = located segs"
    by (induction segs) (auto simp: ram_bytes_def located_def seg_req_def write_req_def split: if_splits)
qed (auto simp: ram_bytes_def cpu_req_def write_req_def)

lemma set_located: "set (located segs) = (\<Union>(a, e, d) \<in> set segs. set (locate a d))"
  by (auto simp: located_def)

lemma ram_bytes_ram_plan:
  "set (ram_bytes (ram_plan cs stage segs segs)) - {(cs, 0), (cs, 1)} \<subseteq> set (located segs)
     \<and> set (located segs) \<subseteq> set (ram_bytes (ram_plan cs stage segs segs))"
proof -
  have u: "set (located segs) = set (located (filter (\<lambda>seg. fst (snd seg)) segs))
      \<union> set (located (filter (\<lambda>seg. \<not> fst (snd seg)) segs))"
    unfolding set_located by auto
  show ?thesis
  proof (cases stage)
    case True
    then show ?thesis
      using ram_bytes_plan(2) [of cs True] ram_bytes_plan(2) [of cs False]
      by (auto simp: ram_plan_def ram_bytes_plan(1,3) ram_bytes_plan(4) [of _ "map _ _"]
          ram_bytes_plan(4) [of _ "map _ _ @ _"] u)
  next
    case False
    then show ?thesis
      using ram_bytes_plan(2) [of cs True] ram_bytes_plan(2) [of cs False]
      by (auto simp: ram_plan_def ram_bytes_plan(1,3) ram_bytes_plan(4) [of _ "map _ _"]
          ram_bytes_plan(4) [of _ "map _ _ @ _"])
  qed
qed

lemma load_ram_memory:
  assumes img: "files path = Some (print_hex recs)" "\<forall>r \<in> set recs. record_ok r"
    and bytes: "distinct (map fst (record_bytes recs))" "cs \<notin> fst ` set (record_bytes recs)"
    and dev: "ram_device fx2 = (cs, ext)" "errno_set usb"
    and run: "ezusb_load_ram usb verbose files junk path fx2 stage w = (Returns 0, w')"
  shows "\<exists>new. fx_log w' = fx_log w @ new
    \<and> (\<forall>(a, b) \<in> set (record_bytes recs). store_bytes (ram_bytes (accepted new)) m a = b)"
proof -
  let ?segs = "snd (ihex_scan (fst junk) (print_hex recs) (Some ext))"
  have same: "ihex_scan (snd junk) (print_hex recs) (Some ext) = ihex_scan (fst junk) (print_hex recs) (Some ext)"
    by (rule scan_stale [OF print_hex_full [OF img(2)]])
  from load_ram_run [of files path "print_hex recs" fx2 cs ext usb w stage junk verbose] img(1) dev run same
  obtain new where new: "fx_log w' = fx_log w @ new" "accepted new = ram_plan cs stage ?segs ?segs"
    unfolding run_adds_def by auto
  have loc: "located ?segs = record_bytes recs"
    using scan_print_hex [OF img(2)] by simp
  have "store_bytes (ram_bytes (accepted new)) m a = b" if ab: "(a, b) \<in> set (record_bytes recs)" for a b
  proof (rule store_bytes_only)
    show "(a, b) \<in> set (ram_bytes (accepted new))"
      using ram_bytes_ram_plan [of cs stage ?segs] ab loc new(2) by auto
    fix b' assume "(a, b') \<in> set (ram_bytes (accepted new))"
    moreover have "a \<noteq> cs" using bytes(2) ab by force
    ultimately have "(a, b') \<in> set (record_bytes recs)"
      using ram_bytes_ram_plan [of cs stage ?segs] loc new(2) by auto
    then show "b' = b" using bytes(1) ab by (metis eq_key_imp_eq_value)
  qed
  then show ?thesis using new(1) by auto
qed

section \<open>A device that takes everything\<close>

text \<open>Each write is answered with its length, as a working device does.\<close>

definition takes_all :: "usb \<Rightarrow> bool" where
  "takes_all usb \<longleftrightarrow> (\<forall>log c. c_type c = VENDOR_OUT \<longrightarrow> fst (usb log c) = int (unat (c_length c)))"

lemma takes_all_write:
  assumes "takes_all usb" "length data \<le> 65535"
  shows "\<exists>w'. ezusb_write usb opcode addr data w = (int (length data), w')"
proof -
  have "unat (of_nat (length data) :: u16) = length data" using assms(2) by (simp add: unat_of_nat)
  then have "int (unat (c_length (write_req opcode addr data))) = int (length data)"
    by (simp only: write_req_def usb_req.simps)
  moreover have "c_type (write_req opcode addr data) = VENDOR_OUT" by (simp add: write_req_def)
  ultimately have "fst (usb (fx_log w) (write_req opcode addr data)) = int (length data)"
    using assms(1) unfolding takes_all_def by metis
  then show ?thesis using ezusb_write_run [OF assms(2), of usb opcode addr w] by auto
qed

lemma takes_all_cpucs:
  assumes "takes_all usb"
  shows "\<exists>w'. ezusb_cpucs usb cs run w = (True, w')"
proof -
  have "fst (usb (fx_log w) \<lparr>c_type = VENDOR_OUT, c_request = RW_INTERNAL, c_value = cs, c_index = 0,
      c_data = [if run then 0 else 1], c_length = 1\<rparr>) = 1"
    using assms by (simp add: takes_all_def)
  then show ?thesis
    by (auto simp: ezusb_cpucs_def ctrl_msg_def Let_def split: prod.split)
qed

lemma takes_all_poke:
  assumes "takes_all usb" "length data \<le> 65535" "rp_mode ctx \<noteq> undef_mode"
    "rp_mode ctx = internal_only \<longrightarrow> \<not> external"
  shows "\<exists>ctx' w'. ram_poke usb (ctx, w) addr external data = (0, ctx', w') \<and> rp_mode ctx' = rp_mode ctx"
proof -
  obtain w1 where "ezusb_write usb (if external then RW_MEMORY else RW_INTERNAL) addr data w
      = (int (length data), w1)" using takes_all_write [OF assms(1,2)] by blast
  then have "ram_write usb external addr data 0 w = (int (length data), w1)"
    by (simp add: ram_write.simps)
  then show ?thesis
    using assms(3,4) by (cases "rp_mode ctx") (auto simp: ram_poke_def)
qed

lemma takes_all_pokes:
  assumes "takes_all usb"
  shows "small_segments segs \<Longrightarrow> rp_mode ctx \<noteq> undef_mode \<Longrightarrow>
    (rp_mode ctx = internal_only \<longrightarrow> (\<forall>seg \<in> set segs. \<not> fst (snd seg))) \<Longrightarrow>
    \<exists>ctx' w'. poke_all (ram_poke usb) segs (ctx, w) = (True, ctx', w') \<and> rp_mode ctx' = rp_mode ctx
      \<and> (segs = [] \<longrightarrow> ctx' = ctx)"
proof (induction segs arbitrary: ctx w)
  case (Cons seg segs)
  obtain a e d where seg: "seg = (a, e, d)" by (cases seg)
  have l: "length d \<le> 65535" "small_segments segs"
    using Cons.prems(1) by (auto simp: small_segments_def seg)
  obtain c1 w1 where p: "ram_poke usb (ctx, w) a e d = (0, c1, w1)" "rp_mode c1 = rp_mode ctx"
    using takes_all_poke [OF assms l(1) Cons.prems(2), of e w a] Cons.prems(3) seg by auto
  show ?case
    using Cons.IH [OF l(2), of c1 w1] Cons.prems(2,3) p by (auto simp: seg)
qed simp

lemma takes_all_parse:
  assumes "takes_all usb" "rp_mode ctx \<noteq> undef_mode" "fst (ihex_scan junk img ie) = Returns 0"
    "rp_mode ctx = internal_only \<longrightarrow> (\<forall>seg \<in> set (snd (ihex_scan junk img ie)). \<not> fst (snd seg))"
  shows "\<exists>ctx' w'. parse_ihex junk img (ctx, w) ie (ram_poke usb) = (Returns 0, ctx', w')
    \<and> (snd (ihex_scan junk img ie) = [] \<longrightarrow> ctx' = ctx)"
  using takes_all_pokes [OF assms(1) small_scan [of junk img ie] assms(2,4), of w] assms(3)
  by (auto simp: parse_by_scan [of junk img])

lemma takes_all_reset:
  assumes "takes_all usb"
  shows "fst (load_ram_reset usb verbose cs ctx w)
    = (if verbose \<noteq> 0 \<and> rp_count ctx = 0 then Divides_by_zero else Returns 0)"
  using takes_all_cpucs [OF assms, of cs True w] by (auto simp: load_ram_reset_def)

lemma located_Nil:
  assumes "\<forall>seg \<in> set segs. good_segment ie seg"
  shows "located segs = [] \<longleftrightarrow> segs = []"
proof (cases segs)
  case (Cons seg rest)
  obtain a e d where seg: "seg = (a, e, d)" by (cases seg)
  have "d \<noteq> []" using assms Cons by (auto simp: seg good_segment_def)
  then show ?thesis using Cons by (cases d) (auto simp: seg)
qed simp

lemma load_ram_ends:
  assumes usb: "takes_all usb" and img: "files path = Some (print_hex recs)" "\<forall>r \<in> set recs. record_ok r"
    and dev: "ram_device fx2 = (cs, ext)"
    and onchip: "stage \<or> (\<forall>seg \<in> set (snd (ihex_scan (fst junk) (print_hex recs) (Some ext))). \<not> fst (snd seg))"
  shows "fst (ezusb_load_ram usb verbose files junk path fx2 stage w) =
      (if verbose \<noteq> 0 \<and> recs = [] then Divides_by_zero else Returns 0)
    \<or> verbose \<noteq> 0 \<and> recs \<noteq> []"
proof -
  let ?scan = "\<lambda>junk. ihex_scan junk (print_hex recs) (Some ext)"
  have ok: "fst (?scan j) = Returns 0" "located (snd (?scan j)) = record_bytes recs" for j
    using scan_print_hex [OF img(2)] by blast+
  have nil: "snd (?scan j) = []" if "recs = []" for j
    using ok(2) [of j] located_Nil [OF scan_good [of j "print_hex recs" "Some ext"]] that
    by (simp add: record_bytes_def)
  show ?thesis
  proof (cases stage)
    case True
    obtain c1 w1 where 1: "parse_ihex (fst junk) (print_hex recs)
        (\<lparr>rp_mode = skip_internal, rp_total = 0, rp_count = 0\<rparr>, w) (Some ext) (ram_poke usb) = (Returns 0, c1, w1)"
      "recs = [] \<longrightarrow> rp_count c1 = 0"
      using takes_all_parse [OF usb _ ok(1), where ctx = "\<lparr>rp_mode = skip_internal, rp_total = 0, rp_count = 0\<rparr>"] nil
      by fastforce
    obtain w2 where 2: "ezusb_cpucs usb cs False w1 = (True, w2)" using takes_all_cpucs [OF usb] by blast
    obtain c3 w3 where 3: "parse_ihex (snd junk) (print_hex recs)
        (c1\<lparr>rp_mode := skip_external\<rparr>, w2) (Some ext) (ram_poke usb) = (Returns 0, c3, w3)"
      "recs = [] \<longrightarrow> c3 = c1\<lparr>rp_mode := skip_external\<rparr>"
      using takes_all_parse [OF usb _ ok(1), where ctx = "c1\<lparr>rp_mode := skip_external\<rparr>"] nil
      by fastforce
    show ?thesis
      using img(1) dev True 1 2 3 takes_all_reset [OF usb, of verbose cs c3 w3]
      by (auto simp: ezusb_load_ram_def load_ram_rescan_def when_parsed_def)
  next
    case False
    obtain w0 where 0: "ezusb_cpucs usb cs False w = (True, w0)" using takes_all_cpucs [OF usb] by blast
    obtain c1 w1 where 1: "parse_ihex (fst junk) (print_hex recs)
        (\<lparr>rp_mode = internal_only, rp_total = 0, rp_count = 0\<rparr>, w0) (Some ext) (ram_poke usb) = (Returns 0, c1, w1)"
      "recs = [] \<longrightarrow> rp_count c1 = 0"
      using takes_all_parse [OF usb _ ok(1), where ctx = "\<lparr>rp_mode = internal_only, rp_total = 0, rp_count = 0\<rparr>"]
        nil onchip False by fastforce
    show ?thesis
      using img(1) dev False 0 1 takes_all_reset [OF usb, of verbose cs c1 w1]
      by (auto simp: ezusb_load_ram_def when_parsed_def)
  qed
qed

section \<open>Properties\<close>

text \<open>An FX device that takes everything, and a file with two adjacent on-chip records.\<close>

definition good_usb :: usb where
  "good_usb = (\<lambda>log c. (int (unat (c_length c)), 0, [1]))"

definition two_files :: "string \<Rightarrow> string option" where
  "two_files = (\<lambda>path. Some (print_hex two_records))"

lemma good_usb_ok: "takes_all good_usb" "errno_set good_usb"
  by (simp_all add: takes_all_def errno_set_def good_usb_def)

lemma fx_device: "ram_device 0 = (0x7f92, fx_is_external)"
  by (simp add: ram_device_def)

lemma two_bytes: "record_bytes two_records = [(0x100, 1), (0x101, 2), (0x102, 3)]"
  by (simp add: two_records_def record_bytes_def)

text \<open>
  C7. When \<^verbatim>\<open>ezusb_load_ram\<close> returns 0 for a printed image with one byte per address, the
  requests the device accepted leave every byte of the image at its address, in one stage or in
  two, however often requests timed out and were sent again.
\<close>

theorem download_reaches_memory:
  assumes "files path = Some (print_hex recs)" "\<forall>r \<in> set recs. record_ok r"
    and "distinct (map fst (record_bytes recs))" "cs \<notin> fst ` set (record_bytes recs)"
    and "ram_device fx2 = (cs, ext)" "errno_set usb"
    and "ezusb_load_ram usb verbose files junk path fx2 stage w = (Returns 0, w')"
  shows "\<exists>new. fx_log w' = fx_log w @ new
    \<and> (\<forall>(a, b) \<in> set (record_bytes recs). store_bytes (ram_bytes (accepted new)) m a = b)"
  by (rule load_ram_memory [OF assms])

text \<open>
  On a device that takes every write, loading a printed image ends, in one stage when it is all
  on-chip and in two stages always: quietly with 0; in verbose mode an image without records
  divides by zero when the average is printed.
\<close>

theorem download_ends:
  assumes "takes_all usb" "files path = Some (print_hex recs)" "\<forall>r \<in> set recs. record_ok r"
    and "ram_device fx2 = (cs, ext)"
    and "stage \<or> (\<forall>seg \<in> set (snd (ihex_scan (fst junk) (print_hex recs) (Some ext))). \<not> fst (snd seg))"
  shows "(verbose = 0 \<longrightarrow> fst (ezusb_load_ram usb verbose files junk path fx2 stage w) = Returns 0)
    \<and> (verbose \<noteq> 0 \<longrightarrow> recs = [] \<longrightarrow>
         fst (ezusb_load_ram usb verbose files junk path fx2 stage w) = Divides_by_zero)"
  using load_ram_ends [where files = files and path = path, OF assms, of verbose w] by auto

lemma good_load:
  "\<exists>w'. ezusb_load_ram good_usb 0 two_files ([], []) [] 0 True \<lparr>fx_log = [], fx_errno = 0\<rparr> = (Returns 0, w')"
proof -
  have "two_files [] = Some (print_hex two_records)" by (simp add: two_files_def)
  from load_ram_ends [where files = two_files and path = "[]", OF good_usb_ok(1) this two_records_ok fx_device, of True "([], [])" 0
      "\<lparr>fx_log = [], fx_errno = 0\<rparr>"] show ?thesis
    by (metis prod.collapse TrueI)
qed

theorem download_reaches_memory_witness:
  "\<exists>w'. ezusb_load_ram good_usb 0 two_files ([], []) [] 0 True \<lparr>fx_log = [], fx_errno = 0\<rparr> = (Returns 0, w')
     \<and> store_bytes (ram_bytes (accepted (fx_log w'))) (\<lambda>a. 0) 0x102 = 3"
proof -
  have f: "two_files [] = Some (print_hex two_records)" by (simp add: two_files_def)
  obtain w' where w': "ezusb_load_ram good_usb 0 two_files ([], []) [] 0 True \<lparr>fx_log = [], fx_errno = 0\<rparr>
      = (Returns 0, w')" using good_load by blast
  have d: "distinct (map fst (record_bytes two_records))" "0x7f92 \<notin> fst ` set (record_bytes two_records)"
    by (simp_all add: two_bytes)
  from download_reaches_memory [OF f two_records_ok d fx_device good_usb_ok(2) w', of "\<lambda>a. 0"] w'
  show ?thesis by (simp add: two_bytes)
qed

theorem download_ends_witness:
  "fst (ezusb_load_ram good_usb 1 (\<lambda>path. Some (print_hex [])) ([], []) [] 0 True \<lparr>fx_log = [], fx_errno = 0\<rparr>)
     = Divides_by_zero"
  using download_ends [OF good_usb_ok(1) _ _ fx_device, of "\<lambda>path. Some (print_hex [])" "[]" "[]" True "([], [])" 1]
  by simp

text \<open>
  C16. In every run of \<^verbatim>\<open>ezusb_load_ram\<close>, failed or not, the CPU is stopped whenever an on-chip segment
  is sent and runs whenever an external one is, and no segment reaches the CPU's own register;
  after a return of 0 the device accepted exactly the planned requests in order and its CPU runs.
\<close>

theorem cpu_stopped_while_written:
  assumes "files path = Some img" "ram_device fx2 = (cs, ext)"
  shows "\<exists>new. fx_log (snd (ezusb_load_ram usb verbose files junk path fx2 stage w)) = fx_log w @ new
    \<and> cpu_run cs False new \<noteq> None
    \<and> (errno_set usb \<longrightarrow> fst (ezusb_load_ram usb verbose files junk path fx2 stage w) = Returns 0 \<longrightarrow>
         cpu_run cs False new = Some False
         \<and> accepted new = ram_plan cs stage (snd (ihex_scan (fst junk) img (Some ext)))
                           (snd (ihex_scan (snd junk) img (Some ext))))"
  using load_ram_run [where files = files and path = path, OF assms, of usb w stage junk verbose] unfolding run_adds_def by blast

theorem cpu_stopped_while_written_witness:
  "\<exists>w'. ezusb_load_ram good_usb 0 two_files ([], []) [] 0 True \<lparr>fx_log = [], fx_errno = 0\<rparr> = (Returns 0, w')
     \<and> cpu_run 0x7f92 False (fx_log w') = Some False"
proof -
  have f: "two_files [] = Some (print_hex two_records)" by (simp add: two_files_def)
  obtain w' where w': "ezusb_load_ram good_usb 0 two_files ([], []) [] 0 True \<lparr>fx_log = [], fx_errno = 0\<rparr>
      = (Returns 0, w')" using good_load by blast
  from cpu_stopped_while_written [where files = two_files and path = "[]", OF f fx_device, of good_usb 0 "([], [])" True "\<lparr>fx_log = [], fx_errno = 0\<rparr>"]
    w' good_usb_ok(2) show ?thesis by auto
qed

text \<open>
  One segment is sent at most six times, again only after a time-out, and \<^verbatim>\<open>ram_write\<close> then
  reports the answer to the last attempt.
\<close>

theorem retries_bounded:
  assumes "length data \<le> 65535" "ram_write usb external addr data 0 w = (rc, w')"
  shows "\<exists>failed. fx_log w' = fx_log w
      @ map (\<lambda>s. (write_req (if external then RW_MEMORY else RW_INTERNAL) addr data, s)) failed
      @ [(write_req (if external then RW_MEMORY else RW_INTERNAL) addr data, rc)]
    \<and> list_all (\<lambda>s. s < 0) failed \<and> length failed \<le> 5"
  using ram_write_run [OF assms(1) _ assms(2)] by (auto simp: RETRY_LIMIT_def list_all_iff)

theorem retries_bounded_witness:
  "length (fx_log (snd (ram_write (\<lambda>log c. (- 1, 110, [])) False 0 [7] 0 \<lparr>fx_log = [], fx_errno = 0\<rparr>))) \<le> 6"
proof -
  obtain rc w' where r: "ram_write (\<lambda>log c. (- 1, 110, [])) False 0 [7] 0 \<lparr>fx_log = [], fx_errno = 0\<rparr> = (rc, w')"
    by fastforce
  have "length [7 :: u8] \<le> 65535" by simp
  from retries_bounded [OF this r] show ?thesis unfolding r by auto
qed

end
