(* ===== verification/Fxload_Eeprom.thy ===== *)
theory Fxload_Eeprom
  imports Leap_Prelude C_Library Fxload_Hex Fxload_Image Fxload_Ezusb Fxload_Load
begin

text \<open>
  What \<^verbatim>\<open>ezusb_load_eeprom\<close> leaves in the boot EEPROM: the segments in the format that is read
  back at boot, and a first byte that makes the EEPROM bootable only when all the rest is there.
\<close>

section \<open>The layout\<close>

definition rom_bytes :: "usb_req list \<Rightarrow> (u16 \<times> u8) list" where
  "rom_bytes reqs = concat (map (\<lambda>c.
     if c_request c = RW_EEPROM then locate (c_value c) (c_data c) else []) reqs)"

lemma rom_bytes_simps [simp]:
  "rom_bytes [] = []" "rom_bytes (x @ y) = rom_bytes x @ rom_bytes y"
  "rom_bytes (write_req RW_EEPROM a d # x) = locate a d @ rom_bytes x"
  by (simp_all add: rom_bytes_def write_req_def)

text \<open>A segment in the EEPROM is its header and its data; they follow one another.\<close>

definition seg_rom :: "bool \<Rightarrow> u16 \<Rightarrow> u8 list \<Rightarrow> u8 list" where
  "seg_rom last_seg addr data = eeprom_header last_seg addr (length data) @ data"

definition segs_rom :: "segment list \<Rightarrow> u8 list" where
  "segs_rom segs = concat (map (\<lambda>(addr, e, data). seg_rom False addr data) segs)"

lemma seg_rom_length [simp]: "length (seg_rom l addr data) = 4 + length data"
  by (simp add: seg_rom_def eeprom_header_def)

lemma segs_rom_simps [simp]:
  "segs_rom [] = []" "segs_rom ((a, e, d) # segs) = seg_rom False a d @ segs_rom segs"
  by (simp_all add: segs_rom_def)

lemma locate_fst: "map fst (locate a bs) = map (\<lambda>i. a + of_nat i) [0..<length bs]"
proof (induction bs arbitrary: a)
  case (Cons b bs)
  have "map fst (locate a (b # bs)) = a # map (\<lambda>i. a + 1 + of_nat i) [0..<length bs]"
    by (simp add: Cons.IH)
  also have "map (\<lambda>i. a + 1 + of_nat i) [0..<length bs] = map (\<lambda>i. a + of_nat i) (map Suc [0..<length bs])"
    by (simp add: comp_def add.assoc)
  finally show ?case by (simp add: map_Suc_upt upt_conv_Cons del: upt_Suc)
qed simp

lemma set_locate: "fst ` set (locate a bs) = (\<lambda>i. a + of_nat i) ` {0..<length bs}"
  using arg_cong [OF locate_fst [of a bs], of set] by simp

lemma locate_nth: "i < length bs \<Longrightarrow> (a + of_nat i, bs ! i) \<in> set (locate a bs)"
proof (induction bs arbitrary: a i)
  case (Cons b bs)
  show ?case
  proof (cases i)
    case (Suc j)
    then have "(a + 1 + of_nat j, bs ! j) \<in> set (locate (a + 1) bs)"
      using Cons.prems by (intro Cons.IH) simp
    with Suc show ?thesis by (simp add: add.assoc)
  qed simp
qed simp

section \<open>Writing the segments\<close>

lemma write_step:
  assumes "length data \<le> 65535" "ezusb_write usb opcode addr data w = (rc, w')"
  shows "fx_log w' = fx_log w @ [(write_req opcode addr data, rc)]"
  using ezusb_write_run [OF assms(1), of usb opcode addr w] assms(2) by auto

text \<open>
  A segment adds the accepted part of its layout at the next free address; when it succeeds, all
  of it, and the next free address is behind it.
\<close>

lemma eeprom_poke_run:
  assumes "eeprom_poke usb (ctx, w) addr external data = (rc, ctx', w')"
  shows "ee_last ctx' = ee_last ctx \<and> (\<exists>new. fx_log w' = fx_log w @ new
    \<and> fst ` set (rom_bytes (accepted new)) \<subseteq> fst ` set (locate (ee_addr ctx) (seg_rom (ee_last ctx) addr data))
    \<and> (0 \<le> rc \<longrightarrow> \<not> external \<and> length data \<le> 1023
         \<and> rom_bytes (accepted new) = locate (ee_addr ctx) (seg_rom (ee_last ctx) addr data)
         \<and> ee_addr ctx' = ee_addr ctx + of_nat (length (seg_rom (ee_last ctx) addr data))))"
proof (cases "external \<or> length data > 1023")
  case True
  then have "ctx' = ctx \<and> w' = w \<and> rc < 0"
    using assms by (auto simp: eeprom_poke_def EINVAL_def EDOM_def split: if_splits)
  then show ?thesis by (auto intro!: exI [of _ "[]"])
next
  case False
  let ?h = "eeprom_header (ee_last ctx) addr (length data)"
  have h: "length ?h = 4" by (simp add: eeprom_header_def)
  have loc: "locate (ee_addr ctx) (seg_rom (ee_last ctx) addr data)
      = locate (ee_addr ctx) ?h @ locate (ee_addr ctx + 4) data"
    by (simp add: seg_rom_def locate_append h)
  obtain r1 w1 where 1: "ezusb_write usb RW_EEPROM (ee_addr ctx) ?h w = (r1, w1)" by fastforce
  have l1: "fx_log w1 = fx_log w @ [(write_req RW_EEPROM (ee_addr ctx) ?h, r1)]"
    by (rule write_step [OF _ 1]) (simp add: h)
  obtain r2 w2 where 2: "ezusb_write usb RW_EEPROM (ee_addr ctx + 4) data w1 = (r2, w2)" by fastforce
  have l2: "fx_log w2 = fx_log w1 @ [(write_req RW_EEPROM (ee_addr ctx + 4) data, r2)]"
    by (rule write_step [OF _ 2]) (use False in simp)
  consider "r1 < 0" | "\<not> r1 < 0" "r2 < 0" | "\<not> r1 < 0" "\<not> r2 < 0" by linarith
  then show ?thesis
  proof cases
    case 1
    then have "ctx' = ctx \<and> w' = w1 \<and> rc < 0"
      using assms False \<open>ezusb_write usb RW_EEPROM (ee_addr ctx) ?h w = (r1, w1)\<close> by (auto simp: eeprom_poke_def)
    with 1 l1 show ?thesis by (auto intro!: exI [of _ "[(write_req RW_EEPROM (ee_addr ctx) ?h, r1)]"])
  next
    case 2
    then have "ctx' = ctx \<and> w' = w2 \<and> rc < 0"
      using assms False 1 \<open>ezusb_write usb RW_EEPROM (ee_addr ctx + 4) data w1 = (r2, w2)\<close>
      by (auto simp: eeprom_poke_def)
    with 2 l1 l2 show ?thesis
      by (intro conjI exI [of _ "[(write_req RW_EEPROM (ee_addr ctx) ?h, r1),
          (write_req RW_EEPROM (ee_addr ctx + 4) data, r2)]"]) (auto simp: loc)
  next
    case 3
    then have "ctx' = ctx\<lparr>ee_addr := ee_addr ctx + 4 + of_nat (length data)\<rparr> \<and> w' = w2 \<and> rc = 0"
      using assms False 1 2 by (auto simp: eeprom_poke_def)
    with 3 l1 l2 False show ?thesis
      by (intro conjI exI [of _ "[(write_req RW_EEPROM (ee_addr ctx) ?h, r1),
          (write_req RW_EEPROM (ee_addr ctx + 4) data, r2)]"]) (auto simp: loc)
  qed
qed

lemma eeprom_pokes_run:
  assumes "poke_all (eeprom_poke usb) segs (ctx, w) = (ok, ctx', w')" "\<not> ee_last ctx"
  shows "\<not> ee_last ctx' \<and> (\<exists>new. fx_log w' = fx_log w @ new
    \<and> fst ` set (rom_bytes (accepted new)) \<subseteq> fst ` set (locate (ee_addr ctx) (segs_rom segs))
    \<and> (ok \<longrightarrow> (\<forall>(a, e, d) \<in> set segs. \<not> e \<and> length d \<le> 1023)
         \<and> rom_bytes (accepted new) = locate (ee_addr ctx) (segs_rom segs)
         \<and> ee_addr ctx' = ee_addr ctx + of_nat (length (segs_rom segs))))"
  using assms
proof (induction segs arbitrary: ctx w)
  case Nil
  then show ?case by auto
next
  case (Cons seg segs)
  obtain addr external data where seg: "seg = (addr, external, data)" by (cases seg)
  obtain rc c1 w1 where p: "eeprom_poke usb (ctx, w) addr external data = (rc, c1, w1)"
    by (metis prod.exhaust)
  have l: "ee_last ctx = False" using Cons.prems(2) by simp
  from eeprom_poke_run [OF p, unfolded l] obtain new1 where n1: "\<not> ee_last c1"
    "fx_log w1 = fx_log w @ new1"
    "fst ` set (rom_bytes (accepted new1)) \<subseteq> fst ` set (locate (ee_addr ctx) (seg_rom False addr data))"
    "0 \<le> rc \<longrightarrow> \<not> external \<and> length data \<le> 1023
         \<and> rom_bytes (accepted new1) = locate (ee_addr ctx) (seg_rom False addr data)
         \<and> ee_addr c1 = ee_addr ctx + of_nat (length (seg_rom False addr data))"
    by blast
  show ?case
  proof (cases "rc < 0")
    case True
    then have "\<not> ok \<and> ctx' = c1 \<and> w' = w1" using Cons.prems(1) by (simp add: seg p)
    with n1 show ?thesis
      by (auto intro!: exI [of _ new1] simp: seg locate_append image_Un)
  next
    case False
    then have "poke_all (eeprom_poke usb) segs (c1, w1) = (ok, ctx', w')"
      using Cons.prems(1) by (simp add: seg p)
    from Cons.IH [OF this n1(1)] obtain new2 where n2: "\<not> ee_last ctx'" "fx_log w' = fx_log w1 @ new2"
      "fst ` set (rom_bytes (accepted new2)) \<subseteq> fst ` set (locate (ee_addr c1) (segs_rom segs))"
      "ok \<longrightarrow> (\<forall>(a, e, d) \<in> set segs. \<not> e \<and> length d \<le> 1023)
         \<and> rom_bytes (accepted new2) = locate (ee_addr c1) (segs_rom segs)
         \<and> ee_addr ctx' = ee_addr c1 + of_nat (length (segs_rom segs))"
      by blast
    show ?thesis
      using n1 n2 False
      by (intro conjI exI [of _ "new1 @ new2"]) (auto simp: locate_append image_Un seg add.assoc)
  qed
qed

section \<open>A whole run\<close>

text \<open>What a part of the run adds: all of its bytes when it returns 0, otherwise bytes at its addresses.\<close>

definition rom_adds :: "fx \<Rightarrow> (u16 \<times> u8) list \<Rightarrow> u16 set \<Rightarrow> fx_end \<times> fx \<Rightarrow> bool" where
  "rom_adds w bs addrs res \<longleftrightarrow>
     (\<exists>new. fx_log (snd res) = fx_log w @ new
        \<and> (if fst res = Returns 0 then rom_bytes (accepted new) = bs
           else fst ` set (rom_bytes (accepted new)) \<subseteq> addrs))"

lemma rom_adds_byte:
  assumes "\<And>w1. rom_adds w1 bs addrs (cont w1)" "a \<in> addrs"
  shows "rom_adds w ((a, b) # bs) addrs (eeprom_byte usb a b w cont)"
proof -
  obtain s w1 where 1: "ezusb_write usb RW_EEPROM a [b] w = (s, w1)" by fastforce
  have l1: "fx_log w1 = fx_log w @ [(write_req RW_EEPROM a [b], s)]" by (rule write_step [OF _ 1]) simp
  show ?thesis
  proof (cases "s < 0")
    case True
    then have "eeprom_byte usb a b w cont = (Returns s, w1)" using 1 by (simp add: eeprom_byte_def)
    with True l1 show ?thesis by (auto simp: rom_adds_def)
  next
    case False
    then have r: "eeprom_byte usb a b w cont = cont w1" using 1 by (simp add: eeprom_byte_def)
    obtain new where "fx_log (snd (cont w1)) = fx_log w1 @ new"
      "if fst (cont w1) = Returns 0 then rom_bytes (accepted new) = bs
       else fst ` set (rom_bytes (accepted new)) \<subseteq> addrs"
      using assms(1) [of w1] unfolding rom_adds_def by blast
    then show ?thesis
      unfolding rom_adds_def r using l1 assms(2) False
      by (intro exI [of _ "(write_req RW_EEPROM a [b], s) # new"]) (auto split: if_splits)
  qed
qed

text \<open>The last write of all returns 0 exactly when the device accepted it.\<close>

lemma rom_adds_last: "rom_adds w [(a, b)] {} (eeprom_byte usb a b w (\<lambda>w. (Returns 0, w)))"
proof -
  obtain s w1 where 1: "ezusb_write usb RW_EEPROM a [b] w = (s, w1)" by fastforce
  have "fx_log w1 = fx_log w @ [(write_req RW_EEPROM a [b], s)]" by (rule write_step [OF _ 1]) simp
  with 1 show ?thesis by (auto simp: rom_adds_def eeprom_byte_def)
qed

lemma rom_adds_mono:
  assumes "rom_adds w bs addrs res" "addrs \<subseteq> addrs'"
  shows "rom_adds w bs addrs' res"
proof -
  obtain new where "fx_log (snd res) = fx_log w @ new"
    "if fst res = Returns 0 then rom_bytes (accepted new) = bs
     else fst ` set (rom_bytes (accepted new)) \<subseteq> addrs"
    using assms(1) unfolding rom_adds_def by blast
  with assms(2) show ?thesis
    unfolding rom_adds_def by (intro exI [of _ new]) (auto split: if_splits)
qed

definition config_bytes :: "string \<Rightarrow> int \<Rightarrow> (u16 \<times> u8) list" where
  "config_bytes type config =
     (if type \<noteq> ''an21'' then [(7, word_of_int config)] else [])
       @ (if type = ''fx'' then [(8, 0)] else [])"

lemma eeprom_config_run:
  "rom_adds w (config_bytes type config @ [(0, first_byte)]) (fst ` set (config_bytes type config))
     (eeprom_config usb type first_byte config w)"
proof -
  let ?A = "fst ` set (config_bytes type config)"
  have last: "rom_adds w [(0, first_byte)] ?A (eeprom_byte usb 0 first_byte w (\<lambda>w. (Returns 0, w)))" for w
    by (rule rom_adds_mono [OF rom_adds_last]) simp
  consider "type = ''fx''" | "type = ''an21''" | "type \<noteq> ''fx''" "type \<noteq> ''an21''" by blast
  then show ?thesis
  proof cases
    case 1
    then have "rom_adds w ([(7, word_of_int config), (8, 0)] @ [(0, first_byte)]) ?A
        (eeprom_byte usb 7 (word_of_int config) w (\<lambda>w. eeprom_byte usb 8 0 w
           (\<lambda>w. eeprom_byte usb 0 first_byte w (\<lambda>w. (Returns 0, w)))))"
      unfolding append_Cons append_Nil
      by (intro rom_adds_byte last) (auto simp: config_bytes_def)
    with 1 show ?thesis by (simp add: eeprom_config_def config_bytes_def)
  next
    case 2
    with last show ?thesis by (simp add: eeprom_config_def config_bytes_def)
  next
    case 3
    then have "rom_adds w ([(7, word_of_int config)] @ [(0, first_byte)]) ?A
        (eeprom_byte usb 7 (word_of_int config) w
           (\<lambda>w. eeprom_byte usb 0 first_byte w (\<lambda>w. (Returns 0, w))))"
      unfolding append_Cons append_Nil
      by (intro rom_adds_byte last) (auto simp: config_bytes_def)
    with 3 show ?thesis by (simp add: eeprom_config_def config_bytes_def)
  qed
qed

lemma eeprom_segments_run:
  fixes start :: u16
  defines "L \<equiv> \<lambda>segs cs. segs_rom segs @ seg_rom True cs [0]"
  assumes cont: "\<And>w1. rom_adds w1 bs addrs (cont w1)"
    and segs: "snd (ihex_scan junk img (Some ext)) = segs"
  shows "rom_adds w (locate start (L segs cs) @ bs) (fst ` set (locate start (L segs cs)) \<union> addrs)
      (eeprom_segments usb junk img cs ext start w cont)
    \<and> (fst (eeprom_segments usb junk img cs ext start w cont) = Returns 0 \<longrightarrow>
         (\<forall>(a, e, d) \<in> set segs. \<not> e \<and> length d \<le> 1023))"
proof -
  let ?ctx = "\<lparr>ee_addr = start, ee_last = False\<rparr>"
  obtain ok c1 w1 where p: "poke_all (eeprom_poke usb) segs (?ctx, w) = (ok, c1, w1)"
    by (metis prod.exhaust)
  have loc: "locate start (L segs cs) = locate start (segs_rom segs)
      @ locate (start + of_nat (length (segs_rom segs))) (seg_rom True cs [0])"
    by (simp add: L_def locate_append)
  from eeprom_pokes_run [OF p] obtain new1 where n1: "\<not> ee_last c1" "fx_log w1 = fx_log w @ new1"
    "fst ` set (rom_bytes (accepted new1)) \<subseteq> fst ` set (locate start (segs_rom segs))"
    "ok \<longrightarrow> (\<forall>(a, e, d) \<in> set segs. \<not> e \<and> length d \<le> 1023)
       \<and> rom_bytes (accepted new1) = locate start (segs_rom segs)
       \<and> ee_addr c1 = start + of_nat (length (segs_rom segs))"
    by auto
  let ?e = "if ok then fst (ihex_scan junk img (Some ext)) else Returns (- 1)"
  have parse: "parse_ihex junk img (?ctx, w) (Some ext) (eeprom_poke usb) = (?e, c1, w1)"
    using p segs by (simp add: parse_by_scan [of junk img] split: bool.split)
  obtain st c2 w2 where q: "eeprom_poke usb (c1\<lparr>ee_last := True\<rparr>, w1) cs False [0] = (st, c2, w2)"
    by (metis prod.exhaust)
  let ?cont = "if st < 0 then (Returns st, w2) else cont w2"
  have run: "eeprom_segments usb junk img cs ext start w cont = when_parsed ?e w1 ?cont"
    by (simp add: eeprom_segments_def parse q del: if_split)
  show ?thesis
    using when_parsed_cases [of ?e w1 ?cont]
  proof
    assume "when_parsed ?e w1 ?cont = (?e, w1) \<and> ?e \<noteq> Returns 0"
    then show ?thesis
      using n1(2,3) by (auto simp: run rom_adds_def loc image_Un)
  next
    assume w: "when_parsed ?e w1 ?cont = ?cont \<and> ?e \<noteq> Returns (- 1)"
    then have ok by (auto split: if_splits)
    from eeprom_poke_run [OF q] n1(4) \<open>ok\<close> obtain new2 where n2: "fx_log w2 = fx_log w1 @ new2"
      "fst ` set (rom_bytes (accepted new2))
         \<subseteq> fst ` set (locate (start + of_nat (length (segs_rom segs))) (seg_rom True cs [0]))"
      "0 \<le> st \<longrightarrow> rom_bytes (accepted new2)
         = locate (start + of_nat (length (segs_rom segs))) (seg_rom True cs [0])"
      by auto
    have all: "\<forall>(a, e, d) \<in> set segs. \<not> e \<and> length d \<le> 1023" using n1(4) \<open>ok\<close> by simp
    show ?thesis
    proof (cases "st < 0")
      case True
      then have "when_parsed ?e w1 ?cont = (Returns st, w2)" using w by simp
      then show ?thesis
        using n1(2,3) n2 True all
        by (auto simp: run rom_adds_def loc image_Un intro!: exI [of _ "new1 @ new2"])
    next
      case False
      then have r: "when_parsed ?e w1 ?cont = cont w2" using w by simp
      obtain new3 where n3: "fx_log (snd (cont w2)) = fx_log w2 @ new3"
        "if fst (cont w2) = Returns 0 then rom_bytes (accepted new3) = bs
         else fst ` set (rom_bytes (accepted new3)) \<subseteq> addrs"
        using cont [of w2] unfolding rom_adds_def by blast
      show ?thesis
        unfolding run r rom_adds_def
        using n1 n2 n3 False all \<open>ok\<close>
        by (intro conjI exI [of _ "new1 @ new2 @ new3"]) (auto simp: loc image_Un split: if_splits)
    qed
  qed
qed

section \<open>Reading it back\<close>

text \<open>
  What the microcontroller loads at boot: from the first address on, segments with their length
  and address in the header, up to the one with the flag.
\<close>

fun boot_segments :: "nat \<Rightarrow> (u16 \<Rightarrow> u8) \<Rightarrow> u16 \<Rightarrow> (u16 \<times> u8 list) list option" where
  "boot_segments 0 rom a = None"
| "boot_segments (Suc n) rom a =
     (let len = unat (rom a AND 0x7f) * 256 + unat (rom (a + 1));
          seg = (push_bit 8 (ucast (rom (a + 2))) OR ucast (rom (a + 3)),
                 map (\<lambda>i. rom (a + 4 + of_nat i)) [0..<len])
      in if bit (rom a) 7 then Some [seg]
         else map_option (Cons seg) (boot_segments n rom (a + 4 + of_nat len)))"

definition holds_at :: "(u16 \<Rightarrow> u8) \<Rightarrow> u16 \<Rightarrow> u8 list \<Rightarrow> bool" where
  "holds_at rom a bs \<longleftrightarrow> (\<forall>i < length bs. rom (a + of_nat i) = bs ! i)"

lemma holds_at_append:
  "holds_at rom a (x @ y) \<longleftrightarrow> holds_at rom a x \<and> holds_at rom (a + of_nat (length x)) y"
proof -
  have "(\<forall>i < length (x @ y). rom (a + of_nat i) = (x @ y) ! i) \<longleftrightarrow>
      (\<forall>i < length x. rom (a + of_nat i) = x ! i)
      \<and> (\<forall>i < length y. rom (a + of_nat (length x + i)) = y ! i)"
  proof (intro iffI conjI allI impI)
    fix i assume h: "\<forall>i < length (x @ y). rom (a + of_nat i) = (x @ y) ! i" and i: "i < length y"
    show "rom (a + of_nat (length x + i)) = y ! i"
      using h [rule_format, of "length x + i"] i by simp
  next
    fix i
    assume h: "(\<forall>i < length x. rom (a + of_nat i) = x ! i)
      \<and> (\<forall>i < length y. rom (a + of_nat (length x + i)) = y ! i)" and i: "i < length (x @ y)"
    show "rom (a + of_nat i) = (x @ y) ! i"
    proof (cases "i < length x")
      case False
      then show ?thesis using h [THEN conjunct2, rule_format, of "i - length x"] i
        by (simp add: nth_append)
    qed (use h in \<open>simp add: nth_append\<close>)
  qed (simp add: nth_append)
  then show ?thesis by (simp add: holds_at_def add.assoc)
qed

lemma header_len:
  assumes "len \<le> 1023"
  shows "unat ((of_nat (len div 256) OR (if l then 0x80 else 0) :: u8) AND 0x7f) * 256 + unat (of_nat len :: u8) = len"
    and "bit (of_nat (len div 256) OR (if l then 0x80 else 0) :: u8) 7 = l"
proof -
  have "len div 256 \<le> 3" using assms by simp
  then consider "len div 256 = 0" | "len div 256 = 1" | "len div 256 = 2" | "len div 256 = 3" by linarith
  then have "unat ((of_nat (len div 256) OR (if l then 0x80 else 0) :: u8) AND 0x7f) = len div 256
      \<and> bit (of_nat (len div 256) OR (if l then 0x80 else 0) :: u8) 7 = l"
    by cases (cases l; simp)+
  moreover have "unat (of_nat len :: u8) = len mod 256" by (simp add: unat_of_nat)
  ultimately show "unat ((of_nat (len div 256) OR (if l then 0x80 else 0) :: u8) AND 0x7f) * 256 + unat (of_nat len :: u8) = len"
    "bit (of_nat (len div 256) OR (if l then 0x80 else 0) :: u8) 7 = l"
    by simp_all
qed

lemma header_addr:
  "push_bit 8 (ucast (ucast (drop_bit 8 addr) :: u8)) OR ucast (ucast addr :: u8) = (addr :: u16)"
  by (rule bit_word_eqI) (auto simp: bit_simps)

lemma boot_one:
  assumes "holds_at rom a (seg_rom l addr data)" "length data \<le> 1023"
  shows "boot_segments (Suc n) rom a =
    (if l then Some [(addr, data)]
     else map_option (Cons (addr, data)) (boot_segments n rom (a + of_nat (length (seg_rom l addr data)))))"
proof -
  let ?h = "eeprom_header l addr (length data)"
  have "length ?h = 4" by (simp add: eeprom_header_def)
  then have hh: "holds_at rom a ?h" and d: "holds_at rom (a + 4) data"
    using assms(1) unfolding seg_rom_def holds_at_append by simp_all
  then have h: "rom a = of_nat (length data div 256) OR (if l then 0x80 else 0)"
    "rom (a + 1) = of_nat (length data)" "rom (a + 2) = ucast (drop_bit 8 addr)" "rom (a + 3) = ucast addr"
    using hh [unfolded holds_at_def, rule_format, of 0] hh [unfolded holds_at_def, rule_format, of 1]
      hh [unfolded holds_at_def, rule_format, of 2] hh [unfolded holds_at_def, rule_format, of 3]
    by (simp_all add: eeprom_header_def)
  have "map (\<lambda>i. rom (a + 4 + of_nat i)) [0..<length data] = data"
    using d by (intro nth_equalityI) (auto simp: holds_at_def)
  then show ?thesis
    using header_len [OF assms(2), of l] header_addr [of addr] by (simp add: h Let_def add.assoc)
qed

declare boot_segments.simps(2) [simp del]

lemma boot_all:
  assumes "holds_at rom a (segs_rom segs @ seg_rom True cs [0])" "\<forall>(x, e, d) \<in> set segs. length d \<le> 1023"
  shows "boot_segments (Suc (length segs)) rom a = Some (map (\<lambda>(x, e, d). (x, d)) segs @ [(cs, [0])])"
  using assms
proof (induction segs arbitrary: a)
  case Nil
  then show ?case using boot_one [of rom a True cs "[0]" 0] by simp
next
  case (Cons seg segs)
  obtain x e d where seg: "seg = (x, e, d)" by (cases seg)
  have "holds_at rom a (seg_rom False x d)"
    "holds_at rom (a + of_nat (length (seg_rom False x d))) (segs_rom segs @ seg_rom True cs [0])"
    using Cons.prems(1) unfolding seg segs_rom_simps append_assoc holds_at_append by simp_all
  with Cons boot_one [of rom a False x d] show ?case by (simp add: seg)
qed

section \<open>The EEPROM after a run\<close>

definition rom_image :: "segment list \<Rightarrow> u16 \<Rightarrow> u8 list" where
  "rom_image segs cs = segs_rom segs @ seg_rom True cs [0]"

lemma load_eeprom_run:
  assumes img: "files path = Some img"
    and dev: "eeprom_device type config = Some (first_byte, cs, ext, start, cfg)"
    and segs: "snd (ihex_scan junk img (Some ext)) = segs"
    and run: "ezusb_load_eeprom usb files junk path type config w = (e, w')"
  shows "\<exists>new. fx_log w' = fx_log w @ new
    \<and> (rom_bytes (accepted new) = [] \<and> e \<noteq> Returns 0
       \<or> (\<exists>rest. rom_bytes (accepted new) = (0, 0) # rest
            \<and> (if e = Returns 0
               then rest = locate start (rom_image segs cs) @ config_bytes type cfg @ [(0, first_byte)]
                 \<and> (\<forall>(a, e, d) \<in> set segs. \<not> e \<and> length d \<le> 1023)
               else fst ` set rest \<subseteq> fst ` set (locate start (rom_image segs cs)) \<union> fst ` set (config_bytes type cfg))))"
proof -
  obtain status val w0 where g: "ezusb_get_eeprom_type usb w = ((status, val), w0)" by (metis prod.exhaust)
  obtain c where c: "fx_log w0 = fx_log w @ [(c, status)]" "c_request c = GET_EEPROM_SIZE"
    using g by (auto simp: ezusb_get_eeprom_type_def ezusb_read_def ctrl_msg_def Let_def split: prod.splits)
  have none: "rom_bytes (accepted [(c, status)]) = []"
    using c(2) by (simp add: rom_bytes_def GET_EEPROM_SIZE_def RW_EEPROM_def)
  show ?thesis
  proof (cases "status \<noteq> 1 \<or> val \<noteq> [1]")
    case True
    then have "e = Returns (- 1) \<and> w' = w0" using run g by (auto simp: ezusb_load_eeprom_def)
    then show ?thesis using c(1) none by (intro exI [of _ "[(c, status)]"]) auto
  next
    case False
    let ?cont = "\<lambda>w1. eeprom_segments usb junk img cs ext start w1 (eeprom_config usb type first_byte cfg)"
    have r: "eeprom_byte usb 0 0 w0 ?cont = (e, w')"
      using run g False img dev by (simp add: ezusb_load_eeprom_def)
    obtain s w1 where 1: "ezusb_write usb RW_EEPROM 0 [0] w0 = (s, w1)" by fastforce
    have l1: "fx_log w1 = fx_log w0 @ [(write_req RW_EEPROM 0 [0], s)]" by (rule write_step [OF _ 1]) simp
    show ?thesis
    proof (cases "s < 0")
      case True
      then have "e = Returns s \<and> w' = w1" using r 1 by (simp add: eeprom_byte_def)
      then show ?thesis
        using c(1) none l1 True
        by (intro exI [of _ "[(c, status), (write_req RW_EEPROM 0 [0], s)]"])
          (auto simp: rom_bytes_def split: if_splits)
    next
      case ok: False
      then have r1: "?cont w1 = (e, w')" using r 1 by (simp add: eeprom_byte_def)
      have "rom_adds w (config_bytes type cfg @ [(0, first_byte)]) (fst ` set (config_bytes type cfg))
          (eeprom_config usb type first_byte cfg w)" for w by (rule eeprom_config_run)
      from eeprom_segments_run [OF this segs, of w1 start cs usb]
      obtain new where n: "fx_log w' = fx_log w1 @ new"
        "if e = Returns 0 then rom_bytes (accepted new)
             = locate start (rom_image segs cs) @ config_bytes type cfg @ [(0, first_byte)]
         else fst ` set (rom_bytes (accepted new))
             \<subseteq> fst ` set (locate start (rom_image segs cs)) \<union> fst ` set (config_bytes type cfg)"
        "e = Returns 0 \<longrightarrow> (\<forall>(a, e, d) \<in> set segs. \<not> e \<and> length d \<le> 1023)"
        unfolding rom_adds_def r1 rom_image_def by auto
      have b: "rom_bytes (accepted ([(c, status), (write_req RW_EEPROM 0 [0], s)] @ new))
          = (0, 0) # rom_bytes (accepted new)"
        using none ok by (auto simp: rom_bytes_def write_req_def split: if_splits)
      show ?thesis
        using n l1 c(1)
        by (intro exI [of _ "[(c, status), (write_req RW_EEPROM 0 [0], s)] @ new"]) (simp only: b, auto)
    qed
  qed
qed

text \<open>The image fits when it ends inside the 64 KB that its addresses can name.\<close>

definition rom_fits :: "u16 \<Rightarrow> segment list \<Rightarrow> u16 \<Rightarrow> bool" where
  "rom_fits start segs cs \<longleftrightarrow> unat start + length (rom_image segs cs) \<le> 65536"

lemma unat_offset: "unat (a :: u16) + i < 65536 \<Longrightarrow> unat (a + of_nat i) = unat a + i"
  by (simp add: unat_word_ariths unat_of_nat)

lemma locate_above:
  assumes "unat a + length bs \<le> 65536" "x \<in> fst ` set (locate a bs)"
  shows "unat a \<le> unat x"
  using assms unat_offset [of a] by (auto simp: set_locate)

lemma locate_distinct:
  assumes "unat a + length bs \<le> 65536"
  shows "distinct (map fst (locate a bs))"
  unfolding locate_fst distinct_map
proof (intro conjI inj_onI)
  fix i j assume ij: "i \<in> set [0..<length bs]" "j \<in> set [0..<length bs]"
    and eq: "a + of_nat i = a + of_nat j"
  have "unat a + i = unat (a + of_nat i)" using assms ij(1) by (intro unat_offset [symmetric]) simp
  also have "\<dots> = unat a + j" unfolding eq using assms ij(2) by (intro unat_offset) simp
  finally show "i = j" by simp
qed simp

lemma device_low:
  assumes "eeprom_device type config = Some (first_byte, cs, ext, start, cfg)"
    "a \<in> insert 0 (fst ` set (config_bytes type cfg))"
  shows "unat a < unat start"
  using assms by (auto simp: eeprom_device_def config_bytes_def split: if_splits)

lemma rom_holds:
  assumes "unat start + length bs \<le> 65536" "\<forall>p \<in> set before \<union> set behind. unat (fst p) < unat start"
  shows "holds_at (store_bytes (before @ locate start bs @ behind) rom) start bs"
  unfolding holds_at_def
proof (intro allI impI)
  fix i assume i: "i < length bs"
  have a: "unat start \<le> unat (start + of_nat i)"
    using unat_offset [of start i] assms(1) i by simp
  show "store_bytes (before @ locate start bs @ behind) rom (start + of_nat i) = bs ! i"
  proof (rule store_bytes_only)
    show "(start + of_nat i, bs ! i) \<in> set (before @ locate start bs @ behind)"
      using locate_nth [OF i] by simp
    fix b assume "(start + of_nat i, b) \<in> set (before @ locate start bs @ behind)"
    then have "(start + of_nat i, b) \<in> set (locate start bs)"
      using assms(2) a by force
    then show "b = bs ! i"
      using locate_nth [OF i] locate_distinct [OF assms(1)] by (metis eq_key_imp_eq_value)
  qed
qed

lemma eeprom_complete:
  assumes img: "files path = Some img"
    and dev: "eeprom_device type config = Some (first_byte, cs, ext, start, cfg)"
    and segs: "snd (ihex_scan junk img (Some ext)) = segs" and fits: "rom_fits start segs cs"
    and run: "ezusb_load_eeprom usb files junk path type config w = (Returns 0, w')"
  shows "\<exists>new. fx_log w' = fx_log w @ new
    \<and> (let rom' = store_bytes (rom_bytes (accepted new)) rom in
         rom' 0 = first_byte \<and> (type \<noteq> ''an21'' \<longrightarrow> rom' 7 = word_of_int cfg)
         \<and> boot_segments (Suc (length segs)) rom' start
             = Some (map (\<lambda>(a, e, d). (a, d)) segs @ [(cs, [0])]))"
proof -
  from load_eeprom_run [OF img dev segs run] obtain new where new: "fx_log w' = fx_log w @ new"
    "rom_bytes (accepted new) = [(0, 0)] @ locate start (rom_image segs cs) @ config_bytes type cfg @ [(0, first_byte)]"
    "\<forall>(a, e, d) \<in> set segs. \<not> e \<and> length d \<le> 1023"
    by auto
  let ?rom = "store_bytes (rom_bytes (accepted new)) rom"
  have low: "unat a < unat start" if "a \<in> insert 0 (fst ` set (config_bytes type cfg))" for a
    using device_low [OF dev that] .
  have "?rom 0 = first_byte"
    unfolding new(2) by (simp add: store_bytes_def)
  moreover have "?rom 7 = word_of_int cfg" if t: "type \<noteq> ''an21''"
  proof (unfold new(2), rule store_bytes_only)
    show "(7, word_of_int cfg) \<in> set ([(0, 0)] @ locate start (rom_image segs cs) @ config_bytes type cfg @ [(0, first_byte)])"
      using t by (simp add: config_bytes_def)
    fix b assume b: "(7, b) \<in> set ([(0, 0)] @ locate start (rom_image segs cs) @ config_bytes type cfg @ [(0, first_byte)])"
    have "7 \<notin> fst ` set (locate start (rom_image segs cs))"
      using locate_above [of start "rom_image segs cs" 7] fits low [of 7] t
      by (auto simp: rom_fits_def config_bytes_def)
    then have "(7, b) \<notin> set (locate start (rom_image segs cs))" by force
    with b t show "b = word_of_int cfg" by (auto simp: config_bytes_def split: if_splits)
  qed
  moreover have "boot_segments (Suc (length segs)) ?rom start = Some (map (\<lambda>(a, e, d). (a, d)) segs @ [(cs, [0])])"
  proof (rule boot_all)
    have "holds_at ?rom start (rom_image segs cs)"
      unfolding new(2) using fits low low [of 0] by (intro rom_holds) (auto simp: rom_fits_def)
    then show "holds_at ?rom start (segs_rom segs @ seg_rom True cs [0])" by (simp add: rom_image_def)
    show "\<forall>(x, e, d) \<in> set segs. length d \<le> 1023" using new(3) by auto
  qed
  ultimately show ?thesis using new(1) by (auto simp: Let_def)
qed

lemma eeprom_incomplete:
  assumes img: "files path = Some img"
    and dev: "eeprom_device type config = Some (first_byte, cs, ext, start, cfg)"
    and segs: "snd (ihex_scan junk img (Some ext)) = segs" and fits: "rom_fits start segs cs"
    and run: "ezusb_load_eeprom usb files junk path type config w = (e, w')" and e: "e \<noteq> Returns 0"
  shows "\<exists>new. fx_log w' = fx_log w @ new
    \<and> (rom_bytes (accepted new) = [] \<or> store_bytes (rom_bytes (accepted new)) rom 0 = 0)"
proof -
  from load_eeprom_run [OF img dev segs run] e obtain new where new: "fx_log w' = fx_log w @ new"
    "rom_bytes (accepted new) = [] \<or> (\<exists>rest. rom_bytes (accepted new) = (0, 0) # rest
       \<and> fst ` set rest \<subseteq> fst ` set (locate start (rom_image segs cs)) \<union> fst ` set (config_bytes type cfg))"
    by auto
  have "store_bytes ((0, 0) # rest) rom 0 = 0"
    if r: "fst ` set rest \<subseteq> fst ` set (locate start (rom_image segs cs)) \<union> fst ` set (config_bytes type cfg)" for rest
  proof -
    have "0 \<notin> fst ` set (locate start (rom_image segs cs))"
      using locate_above [of start "rom_image segs cs" 0] fits device_low [OF dev, of 0]
      by (auto simp: rom_fits_def)
    moreover have "0 \<notin> fst ` set (config_bytes type cfg)" by (auto simp: config_bytes_def)
    ultimately have "0 \<notin> fst ` set rest" using r by blast
    then show ?thesis using store_bytes_append [of "[(0, 0)]" rest rom]
      by (simp add: store_bytes_other) (simp add: store_bytes_def)
  qed
  with new show ?thesis by auto
qed

section \<open>A device that takes everything\<close>

lemma takes_all_byte:
  "takes_all usb \<Longrightarrow> \<exists>w'. eeprom_byte usb a b w cont = cont w'"
  using takes_all_write [of usb "[b]" RW_EEPROM a w] by (auto simp: eeprom_byte_def)

lemma takes_all_eeprom_poke:
  assumes "takes_all usb" "length data \<le> 1023"
  shows "\<exists>ctx' w'. eeprom_poke usb (ctx, w) addr False data = (0, ctx', w')"
proof -
  let ?h = "eeprom_header (ee_last ctx) addr (length data)"
  obtain w1 where 1: "ezusb_write usb RW_EEPROM (ee_addr ctx) ?h w = (int (length ?h), w1)"
    using takes_all_write [OF assms(1), of ?h RW_EEPROM "ee_addr ctx" w] by (auto simp: eeprom_header_def)
  obtain w2 where 2: "ezusb_write usb RW_EEPROM (ee_addr ctx + 4) data w1 = (int (length data), w2)"
    using takes_all_write [OF assms(1), of data] assms(2) by fastforce
  show ?thesis using assms(2) 1 2 by (simp add: eeprom_poke_def)
qed

lemma takes_all_eeprom_pokes:
  assumes "takes_all usb"
  shows "\<forall>(a, e, d) \<in> set segs. \<not> e \<and> length d \<le> 1023 \<Longrightarrow>
    \<exists>ctx' w'. poke_all (eeprom_poke usb) segs (ctx, w) = (True, ctx', w')"
proof (induction segs arbitrary: ctx w)
  case (Cons seg segs)
  obtain a e d where seg: "seg = (a, e, d)" by (cases seg)
  obtain c1 w1 where "eeprom_poke usb (ctx, w) a False d = (0, c1, w1)"
    using takes_all_eeprom_poke [OF assms, of d] Cons.prems seg by fastforce
  then show ?case using Cons.IH [of c1 w1] Cons.prems seg by simp
qed simp

lemma load_eeprom_ends:
  assumes usb: "takes_all usb" "\<And>log c. c_request c = GET_EEPROM_SIZE \<Longrightarrow> c_length c = 1 \<Longrightarrow> \<exists>err. usb log c = (1, err, [1])"
    and img: "files path = Some img" "fst (ihex_scan junk img (Some ext)) = Returns 0"
    and dev: "eeprom_device type config = Some (first_byte, cs, ext, start, cfg)"
    and onchip: "\<forall>seg \<in> set (snd (ihex_scan junk img (Some ext))). \<not> fst (snd seg)"
  shows "\<exists>w'. ezusb_load_eeprom usb files junk path type config w = (Returns 0, w')"
proof -
  have "\<exists>w0. ezusb_get_eeprom_type usb w = ((1, [1]), w0)"
  proof -
    let ?c = "\<lparr>c_type = VENDOR_IN, c_request = GET_EEPROM_SIZE, c_value = 0, c_index = 0,
        c_data = [], c_length = of_nat 1\<rparr>"
    obtain err where "usb (fx_log w) ?c = (1, err, [1])" using usb(2) [of ?c "fx_log w"] by auto
    then show ?thesis by (simp add: ezusb_get_eeprom_type_def ezusb_read_def ctrl_msg_def)
  qed
  then obtain w0 where g: "ezusb_get_eeprom_type usb w = ((1, [1]), w0)" by blast
  have config: "\<exists>w'. eeprom_config usb type first_byte cfg w1 = (Returns 0, w')" for w1
    unfolding eeprom_config_def Let_def
    by (cases "type = ''fx''"; cases "type = ''an21''"; simp)
      (metis takes_all_byte [OF usb(1)])+
  have segs: "\<exists>w'. eeprom_segments usb junk img cs ext start w1 (eeprom_config usb type first_byte cfg) = (Returns 0, w')" for w1
  proof -
    have "\<forall>(a, e, d) \<in> set (snd (ihex_scan junk img (Some ext))). \<not> e \<and> length d \<le> 1023"
      using onchip scan_good [of junk img "Some ext"] by (fastforce simp: good_segment_def DATA_SIZE_def)
    from takes_all_eeprom_pokes [OF usb(1) this] obtain c2 w2 where
      "poke_all (eeprom_poke usb) (snd (ihex_scan junk img (Some ext))) (\<lparr>ee_addr = start, ee_last = False\<rparr>, w1)
         = (True, c2, w2)" by blast
    then have p: "parse_ihex junk img (\<lparr>ee_addr = start, ee_last = False\<rparr>, w1) (Some ext) (eeprom_poke usb)
        = (Returns 0, c2, w2)" using img(2) by (simp add: parse_by_scan [of junk img])
    obtain c3 w3 where "eeprom_poke usb (c2\<lparr>ee_last := True\<rparr>, w2) cs False [0] = (0, c3, w3)"
      using takes_all_eeprom_poke [OF usb(1), of "[0]"] by fastforce
    with p config [of w3] show ?thesis by (simp add: eeprom_segments_def when_parsed_def)
  qed
  obtain w1 where "eeprom_byte usb 0 0 w0
      (\<lambda>w. eeprom_segments usb junk img cs ext start w (eeprom_config usb type first_byte cfg))
      = eeprom_segments usb junk img cs ext start w1 (eeprom_config usb type first_byte cfg)"
    using takes_all_byte [OF usb(1)] by blast
  then show ?thesis using g img(1) dev segs [of w1] by (simp add: ezusb_load_eeprom_def)
qed

section \<open>Properties\<close>

text \<open>
  C10. When \<^verbatim>\<open>ezusb_load_eeprom\<close> returns 0 for an image that fits, reading the EEPROM back in its boot
  format gives the segments of the image with their addresses, then the write that resets the
  CPU; the type byte of the device is in front and its configuration byte at address 7.
\<close>

theorem eeprom_reads_back:
  assumes "files path = Some img"
    and "eeprom_device type config = Some (first_byte, cs, ext, start, cfg)"
    and "snd (ihex_scan junk img (Some ext)) = segs" and "rom_fits start segs cs"
    and "ezusb_load_eeprom usb files junk path type config w = (Returns 0, w')"
  shows "\<exists>new. fx_log w' = fx_log w @ new
    \<and> (let rom' = store_bytes (rom_bytes (accepted new)) rom in
         rom' 0 = first_byte \<and> (type \<noteq> ''an21'' \<longrightarrow> rom' 7 = word_of_int cfg)
         \<and> boot_segments (Suc (length segs)) rom' start
             = Some (map (\<lambda>(a, e, d). (a, d)) segs @ [(cs, [0])]))"
  by (rule eeprom_complete [OF assms])

text \<open>
  C11. When \<^verbatim>\<open>ezusb_load_eeprom\<close> does not return 0 for an image that fits in the 64 KB of the EEPROM's
  addresses, at whatever step it failed, the device accepted no write to the EEPROM at all or the
  EEPROM's first byte is 0, so that nothing boots from it. For a larger image the 16-bit address
  wraps, and the first byte can be overwritten.
\<close>

theorem eeprom_not_bootable_on_failure:
  assumes "files path = Some img"
    and "eeprom_device type config = Some (first_byte, cs, ext, start, cfg)"
    and "snd (ihex_scan junk img (Some ext)) = segs" and "rom_fits start segs cs"
    and "ezusb_load_eeprom usb files junk path type config w = (e, w')" and "e \<noteq> Returns 0"
  shows "\<exists>new. fx_log w' = fx_log w @ new
    \<and> (rom_bytes (accepted new) = [] \<or> store_bytes (rom_bytes (accepted new)) rom 0 = 0)"
  by (rule eeprom_incomplete [OF assms])

lemma two_device: "eeprom_device ''fx2'' 0xff = Some (0xC2, 0xe600, fx2_is_external, 8, 0x4f)"
  by (simp add: eeprom_device_def)

lemma two_segments: "snd (ihex_scan (replicate 512 NUL) (print_hex two_records) (Some fx2_is_external)) = [(0x100, False, [1, 2, 3])]"
  by code_simp

lemma two_fit: "rom_fits 8 [(0x100, False, [1, 2, 3])] 0xe600"
  by (simp add: rom_fits_def rom_image_def seg_rom_def eeprom_header_def)

lemma two_file: "two_files [] = Some (print_hex two_records)"
  by (simp add: two_files_def)

lemma good_eeprom:
  "\<exists>w'. ezusb_load_eeprom good_usb two_files (replicate 512 NUL) [] ''fx2'' 0xff \<lparr>fx_log = [], fx_errno = 0\<rparr> = (Returns 0, w')"
proof (rule load_eeprom_ends [where files = two_files and path = "[]", OF good_usb_ok(1) _ two_file _ two_device])
  show "\<exists>err. good_usb log c = (1, err, [1])" if "c_request c = GET_EEPROM_SIZE" "c_length c = 1" for log c
    using that by (simp add: good_usb_def)
qed (simp_all add: two_segments scan_print_hex [OF two_records_ok])

theorem eeprom_reads_back_witness:
  "\<exists>w'. ezusb_load_eeprom good_usb two_files (replicate 512 NUL) [] ''fx2'' 0xff \<lparr>fx_log = [], fx_errno = 0\<rparr>
       = (Returns 0, w')
     \<and> boot_segments 2 (store_bytes (rom_bytes (accepted (fx_log w'))) (\<lambda>a. 0)) 8
         = Some [(0x100, [1, 2, 3]), (0xe600, [0])]"
proof -
  obtain w' where w': "ezusb_load_eeprom good_usb two_files (replicate 512 NUL) [] ''fx2'' 0xff
      \<lparr>fx_log = [], fx_errno = 0\<rparr> = (Returns 0, w')" using good_eeprom by blast
  from eeprom_reads_back [where files = two_files and path = "[]", OF two_file two_device two_segments two_fit w', of "\<lambda>a. 0"] w'
  show ?thesis by (auto simp: Let_def numeral_2_eq_2)
qed

text \<open>A device whose every write fails.\<close>

definition dead_usb :: usb where
  "dead_usb = (\<lambda>log c. if c_request c = GET_EEPROM_SIZE then (1, 0, [1]) else (- 1, 110, []))"

theorem eeprom_not_bootable_on_failure_witness:
  "\<exists>w'. ezusb_load_eeprom dead_usb two_files (replicate 512 NUL) [] ''fx2'' 0xff \<lparr>fx_log = [], fx_errno = 0\<rparr>
       = (Returns (- 1), w')
     \<and> (rom_bytes (accepted (fx_log w')) = []
        \<or> store_bytes (rom_bytes (accepted (fx_log w'))) (\<lambda>a. 7) 0 = 0)"
proof -
  obtain w' where w': "ezusb_load_eeprom dead_usb two_files (replicate 512 NUL) [] ''fx2'' 0xff
      \<lparr>fx_log = [], fx_errno = 0\<rparr> = (Returns (- 1), w')"
    by (simp add: ezusb_load_eeprom_def ezusb_get_eeprom_type_def ezusb_read_def ezusb_write_def ctrl_msg_def
        dead_usb_def eeprom_byte_def two_device two_file GET_EEPROM_SIZE_def RW_EEPROM_def)
  from eeprom_not_bootable_on_failure [where files = two_files and path = "[]", OF two_file two_device two_segments two_fit w', of "\<lambda>a. 7"] w'
  show ?thesis by auto
qed

end
