(* ===== verification/Fxload_Main.thy ===== *)
theory Fxload_Main
  imports Leap_Prelude C_Library Fxload_Hex Fxload_Image Fxload_Ezusb Fxload_Load Fxload_Eeprom
begin

text \<open>
  \<^verbatim>\<open>drivers/linux/Xilinx_Platform_Cable/fxload/main.c\<close>: the command line, the checks on it, and
  the work that was asked for: firmware, a link to the device, its access mode.
\<close>

section \<open>The command line\<close>

text \<open>
  \<^verbatim>\<open>getopt\<close> with \<^verbatim>\<open>"2vV?D:I:L:c:lm:s:t:"\<close>: options may be clustered, an argument is the rest of
  its word or the next word, other words are skipped, \<^verbatim>\<open>--\<close> ends the options. An unknown option
  and a missing argument are \<^verbatim>\<open>?\<close>.
\<close>

type_synonym opt = "char \<times> string option"

fun getopt_word :: "string \<Rightarrow> string list \<Rightarrow> opt list \<times> string list" where
  "getopt_word [] rest = ([], rest)"
| "getopt_word (c # cs) rest =
     (if c \<in> set ''DILcmst''
      then if cs \<noteq> [] then ([(c, Some cs)], rest)
           else (case rest of [] \<Rightarrow> ([(CHR ''?'', None)], []) | a # rest' \<Rightarrow> ([(c, Some a)], rest'))
      else case getopt_word cs rest of
             (os, rest') \<Rightarrow> ((if c \<in> set ''2vVl'' then c else CHR ''?'', None) # os, rest'))"

lemma getopt_word_shorter: "length (snd (getopt_word cs rest)) \<le> length rest"
  by (induction cs rest rule: getopt_word.induct) (auto split: list.split prod.split)

function getopt_all :: "string list \<Rightarrow> opt list" where
  "getopt_all [] = []"
| "getopt_all (a # rest) =
     (if a = ''--'' then []
      else if take 1 a = ''-'' \<and> a \<noteq> ''-''
      then fst (getopt_word (tl a) rest) @ getopt_all (snd (getopt_word (tl a) rest))
      else getopt_all rest)"
  by pat_completeness auto
termination by (relation "measure length") (auto simp: le_imp_less_Suc getopt_word_shorter)

record fx_options =
  o_link :: "string option"
  o_ihex :: "string option"
  o_device :: "string option"
  o_type :: "string option"
  o_stage1 :: "string option"
  o_mode :: u32
  o_config :: int
  o_verbose :: int
  o_syslog :: bool

definition default_options :: "string option \<Rightarrow> fx_options" where
  "default_options device_env =
     \<lparr>o_link = None, o_ihex = None, o_device = device_env, o_type = None, o_stage1 = None,
      o_mode = 0, o_config = - 1, o_verbose = 0, o_syslog = False\<rparr>"

text \<open>\<^verbatim>\<open>int config = strtoul (optarg, 0, 0)\<close> keeps the low 32 bits.\<close>

definition config_value :: "string \<Rightarrow> int" where
  "config_value s = sint (ucast (strtoul 0 s) :: 32 word)"

definition mode_value :: "string \<Rightarrow> u32" where
  "mode_value s = ucast (strtoul 0 s) AND 0x1FF"

definition known_types :: "string list" where
  "known_types = [''an21'', ''fx'', ''fx2'', ''fx2lp'']"

text \<open>The switch of the option loop: go on, return a value, or show the usage.\<close>

datatype opt_step = Go_on fx_options | Leave int | Usage

definition arg_of :: "string option \<Rightarrow> string" where
  "arg_of arg = (case arg of Some s \<Rightarrow> s | None \<Rightarrow> [])"

definition option_step :: "opt \<Rightarrow> fx_options \<Rightarrow> opt_step" where
  "option_step = (\<lambda>(c, arg) st.
     if c = CHR ''2'' then Go_on (st\<lparr>o_type := Some ''fx2''\<rparr>)
     else if c = CHR ''D'' then Go_on (st\<lparr>o_device := arg\<rparr>)
     else if c = CHR ''I'' then Go_on (st\<lparr>o_ihex := arg\<rparr>)
     else if c = CHR ''L'' then Go_on (st\<lparr>o_link := arg\<rparr>)
     else if c = CHR ''V'' then Leave 0
     else if c = CHR ''c''
     then let config = config_value (arg_of arg)
          in if config < 0 \<or> 255 < config then Usage else Go_on (st\<lparr>o_config := config\<rparr>)
     else if c = CHR ''l'' then Go_on (st\<lparr>o_syslog := True\<rparr>)
     else if c = CHR ''m'' then Go_on (st\<lparr>o_mode := mode_value (arg_of arg)\<rparr>)
     else if c = CHR ''s'' then Go_on (st\<lparr>o_stage1 := arg\<rparr>)
     else if c = CHR ''t''
     then if arg_of arg \<notin> set known_types then Usage else Go_on (st\<lparr>o_type := arg\<rparr>)
     else if c = CHR ''v'' then Go_on (st\<lparr>o_verbose := o_verbose st + 1\<rparr>)
     else Usage)"

fun option_loop :: "opt list \<Rightarrow> fx_options \<Rightarrow> opt_step" where
  "option_loop [] st = Go_on st"
| "option_loop (x # xs) st =
     (case option_step x st of Go_on st' \<Rightarrow> option_loop xs st' | e \<Rightarrow> e)"

text \<open>The checks behind the loop.\<close>

definition option_checks :: "fx_options \<Rightarrow> opt_step" where
  "option_checks st =
     (if 0 \<le> o_config st \<and> o_type st = None then Usage
      else if 0 \<le> o_config st \<and> (o_stage1 st = None \<or> o_ihex st = None) then Usage
      else if 0 \<le> o_config st \<and> (o_link st \<noteq> None \<or> o_mode st \<noteq> 0) then Usage
      else if o_device st = None then Usage
      else Go_on st)"

definition fx_command_line :: "string option \<Rightarrow> string list \<Rightarrow> opt_step" where
  "fx_command_line device_env argv =
     (case option_loop (getopt_all argv) (default_options device_env) of
        Go_on st \<Rightarrow> option_checks st | e \<Rightarrow> e)"

section \<open>The work\<close>

datatype call = Open string | Unlink string | Symlink string string | Chmod string u32

text \<open>
  What the outside answers: the environment variable, the device, the files, the line buffer at
  each parse, and which system calls succeed.
\<close>

record fx_env =
  x_device :: "string option"
  x_usb :: usb
  x_files :: "string \<Rightarrow> string option"
  x_junk :: "nat \<Rightarrow> string"
  x_open :: bool
  x_symlink :: bool
  x_chmod :: bool

definition type_number :: "string option \<Rightarrow> string \<times> int" where
  "type_number type =
     (case type of
        None \<Rightarrow> (''fx'', 0)
      | Some t \<Rightarrow> (t, if t = ''fx2lp'' then 2 else if t = ''fx2'' then 1 else 0))"

definition load_firmware :: "fx_env \<Rightarrow> fx_options \<Rightarrow> string \<Rightarrow> fx \<Rightarrow> fx_end \<times> fx" where
  "load_firmware env st ihex w =
     (let (type, fx2) = type_number (o_type st); junk = x_junk env
      in case o_stage1 st of
           Some stage1 \<Rightarrow>
             (let (e, w1) = ezusb_load_ram (x_usb env) (o_verbose st) (x_files env) (junk 0, junk 1)
                              stage1 fx2 False w
              in if e \<noteq> Returns 0 then (e, w1)
                 else if 0 \<le> o_config st
                 then ezusb_load_eeprom (x_usb env) (x_files env) (junk 2) ihex type (o_config st) w1
                 else ezusb_load_ram (x_usb env) (o_verbose st) (x_files env) (junk 3, junk 4)
                        ihex fx2 True w1)
         | None \<Rightarrow>
             ezusb_load_ram (x_usb env) (o_verbose st) (x_files env) (junk 0, junk 1) ihex fx2 False w)"

text \<open>The link, the mode, and the complaint when nothing was asked for.\<close>

definition fx_chmod :: "fx_env \<Rightarrow> fx_options \<Rightarrow> string \<Rightarrow> call list \<Rightarrow> fx \<Rightarrow> fx_end \<times> call list \<times> fx" where
  "fx_chmod env st device calls w =
     (if o_mode st \<noteq> 0
      then (Returns (if x_chmod env then 0 else - 1), calls @ [Chmod device (o_mode st)], w)
      else (Returns (if o_ihex st = None \<and> o_link st = None then - 1 else 0), calls, w))"

definition fx_link :: "fx_env \<Rightarrow> fx_options \<Rightarrow> string \<Rightarrow> call list \<Rightarrow> fx \<Rightarrow> fx_end \<times> call list \<times> fx" where
  "fx_link env st device calls w =
     (case o_link st of
        None \<Rightarrow> fx_chmod env st device calls w
      | Some link \<Rightarrow>
          let calls' = calls @ [Unlink link, Symlink device link]
          in if x_symlink env then fx_chmod env st device calls' w else (Returns (- 1), calls', w))"

definition fx_work :: "fx_env \<Rightarrow> fx_options \<Rightarrow> string \<Rightarrow> fx \<Rightarrow> fx_end \<times> call list \<times> fx" where
  "fx_work env st device w =
     (case o_ihex st of
        None \<Rightarrow> fx_link env st device [] w
      | Some ihex \<Rightarrow>
          if \<not> x_open env then (Returns (- 1), [Open device], w)
          else let (e, w1) = load_firmware env st ihex w
               in if e \<noteq> Returns 0 then (e, [Open device], w1)
                  else fx_link env st device [Open device] w1)"

definition fxload_main :: "fx_env \<Rightarrow> string list \<Rightarrow> fx \<Rightarrow> fx_end \<times> call list \<times> fx" where
  "fxload_main env argv w =
     (case fx_command_line (x_device env) argv of
        Leave n \<Rightarrow> (Returns n, [], w)
      | Usage \<Rightarrow> (Returns (- 1), [], w)
      | Go_on st \<Rightarrow>
          (case o_device st of
             None \<Rightarrow> (Returns (- 1), [], w)
           | Some device \<Rightarrow> fx_work env st device w))"

section \<open>What the checks leave\<close>

definition options_ok :: "fx_options \<Rightarrow> bool" where
  "options_ok st \<longleftrightarrow> - 1 \<le> o_config st \<and> o_config st \<le> 255
     \<and> (\<forall>t. o_type st = Some t \<longrightarrow> t \<in> set known_types)"

lemma option_step_ok: "options_ok st \<Longrightarrow> option_step x st = Go_on st' \<Longrightarrow> options_ok st'"
  by (cases x) (auto simp: option_step_def options_ok_def known_types_def arg_of_def Let_def
      split: if_splits option.splits)

lemma option_loop_ok: "options_ok st \<Longrightarrow> option_loop xs st = Go_on st' \<Longrightarrow> options_ok st'"
proof (induction xs arbitrary: st)
  case (Cons x xs)
  then show ?case by (auto split: opt_step.splits dest: option_step_ok)
qed simp

lemma command_line_ok:
  assumes "fx_command_line dev argv = Go_on st"
  shows "options_ok st \<and> option_checks st = Go_on st \<and> o_device st \<noteq> None"
proof -
  obtain st0 where l: "option_loop (getopt_all argv) (default_options dev) = Go_on st0"
    "option_checks st0 = Go_on st"
    using assms by (auto simp: fx_command_line_def split: opt_step.splits)
  have "st0 = st" using l(2) by (auto simp: option_checks_def split: if_splits)
  moreover have "options_ok (default_options dev)"
    by (simp add: options_ok_def default_options_def)
  ultimately show ?thesis
    using l option_loop_ok by (auto simp: option_checks_def split: if_splits)
qed

lemma known_type_device: "t \<in> set known_types \<Longrightarrow> eeprom_device t config \<noteq> None"
  by (auto simp: known_types_def eeprom_device_def)

section \<open>What was asked for\<close>

text \<open>The system calls that the options ask for, in the order in which they are made.\<close>

definition asked :: "fx_options \<Rightarrow> string \<Rightarrow> call list" where
  "asked st device =
     (if o_ihex st \<noteq> None then [Open device] else [])
       @ (case o_link st of None \<Rightarrow> [] | Some link \<Rightarrow> [Unlink link, Symlink device link])
       @ (if o_mode st \<noteq> 0 then [Chmod device (o_mode st)] else [])"

text \<open>
  Which of them succeed; the result of \<^verbatim>\<open>unlink\<close> is not looked at. A list of calls is made up to and
  including the first that fails.
\<close>

fun call_ok :: "fx_env \<Rightarrow> call \<Rightarrow> bool" where
  "call_ok env (Open _) = x_open env"
| "call_ok env (Unlink _) = True"
| "call_ok env (Symlink _ _) = x_symlink env"
| "call_ok env (Chmod _ _) = x_chmod env"

fun up_to_failure :: "('a \<Rightarrow> bool) \<Rightarrow> 'a list \<Rightarrow> 'a list" where
  "up_to_failure ok [] = []"
| "up_to_failure ok (x # xs) = (if ok x then x # up_to_failure ok xs else [x])"

lemma up_to_failure_append: "up_to_failure ok (xs @ ys) = (if list_all ok xs then xs @ up_to_failure ok ys else up_to_failure ok xs)"
  by (induction xs) auto

text \<open>What loading the firmware gives; success when none is asked for or the device cannot be opened.\<close>

definition loading :: "fx_env \<Rightarrow> fx_options \<Rightarrow> fx \<Rightarrow> fx_end \<times> fx" where
  "loading env st w = (case o_ihex st of None \<Rightarrow> (Returns 0, w)
     | Some ihex \<Rightarrow> if x_open env then load_firmware env st ihex w else (Returns 0, w))"

lemma fx_link_calls:
  "fx_link env st device calls w =
     (let rest = (case o_link st of None \<Rightarrow> [] | Some link \<Rightarrow> [Unlink link, Symlink device link])
         @ (if o_mode st \<noteq> 0 then [Chmod device (o_mode st)] else []) in
      (Returns (if list_all (call_ok env) rest \<and> (rest \<noteq> [] \<or> o_ihex st \<noteq> None) then 0 else - 1),
       calls @ up_to_failure (call_ok env) rest, w))"
  by (auto simp: fx_link_def fx_chmod_def Let_def split: option.split)

lemma fx_work_calls:
  "fx_work env st device w =
     (case loading env st w of (l, w1) \<Rightarrow>
        if l \<noteq> Returns 0 then (l, [Open device], w1)
        else (Returns (if list_all (call_ok env) (asked st device) \<and> asked st device \<noteq> [] then 0 else - 1),
              up_to_failure (call_ok env) (asked st device), w1))"
  by (auto simp: fx_work_def fx_link_calls loading_def asked_def Let_def split: option.split prod.split)

section \<open>Properties\<close>

text \<open>
  C39. \<^verbatim>\<open>fxload\<close> returns 0 only for \<^verbatim>\<open>-V\<close> or when something was asked for and everything the options
  ask for was done: the device opened and the firmware loaded without an error, then the link made, then
  the mode set. When the firmware fails, the program returns the loader's result and makes no further
  call; when a system call fails other than removing the old link, the program returns -1 and that call
  was the last one. Nothing but loading talks to the device.
\<close>

theorem main_does_what_was_asked:
  assumes "fxload_main env argv w = (e, calls, w')"
  shows "case fx_command_line (x_device env) argv of
      Leave n \<Rightarrow> e = Returns n \<and> calls = [] \<and> w' = w
    | Usage \<Rightarrow> e = Returns (- 1) \<and> calls = [] \<and> w' = w
    | Go_on st \<Rightarrow> \<exists>device. o_device st = Some device \<and> w' = snd (loading env st w) \<and>
        (if fst (loading env st w) \<noteq> Returns 0 then e = fst (loading env st w) \<and> calls = [Open device]
         else calls = up_to_failure (call_ok env) (asked st device) \<and>
              (e = Returns 0 \<longleftrightarrow> asked st device \<noteq> [] \<and> list_all (call_ok env) (asked st device)) \<and>
              (e \<noteq> Returns 0 \<longrightarrow> e = Returns (- 1)))"
proof (cases "fx_command_line (x_device env) argv")
  case (Go_on st)
  then obtain device where d: "o_device st = Some device" using command_line_ok by blast
  then have "fx_work env st device w = (e, calls, w')" using assms Go_on by (simp add: fxload_main_def)
  with Go_on d show ?thesis by (auto simp: fx_work_calls split: prod.splits if_splits)
qed (use assms in \<open>auto simp: fxload_main_def\<close>)

text \<open>An environment whose device takes everything and whose system calls succeed.\<close>

definition good_env :: fx_env where
  "good_env = \<lparr>x_device = Some ''dev'', x_usb = good_usb, x_files = two_files,
     x_junk = (\<lambda>n. []), x_open = True, x_symlink = True, x_chmod = True\<rparr>"

theorem main_does_what_was_asked_witness:
  "fst (fxload_main good_env [''-m0666''] \<lparr>fx_log = [], fx_errno = 0\<rparr>) = Returns 0 \<and>
   fst (snd (fxload_main good_env [''-m0666''] \<lparr>fx_log = [], fx_errno = 0\<rparr>)) = [Chmod ''dev'' 0x1b6] \<and>
   fst (fxload_main (good_env\<lparr>x_chmod := False\<rparr>) [''-m0666''] \<lparr>fx_log = [], fx_errno = 0\<rparr>) = Returns (- 1)"
proof -
  have g: "getopt_all [''-m0666''] = [(CHR ''m'', Some ''0666'')]" by simp
  have m: "mode_value ''0666'' = 0x1b6" by (simp add: mode_value_def scan_defs)
  have l: "fx_command_line (Some ''dev'') [''-m0666''] = Go_on ((default_options (Some ''dev''))\<lparr>o_mode := 0x1b6\<rparr>)"
    by (simp add: fx_command_line_def g option_step_def arg_of_def m option_checks_def default_options_def)
  obtain e calls w' where r: "fxload_main good_env [''-m0666''] \<lparr>fx_log = [], fx_errno = 0\<rparr> = (e, calls, w')"
    by (metis prod.exhaust)
  have "e = Returns 0 \<and> calls = [Chmod ''dev'' 0x1b6]"
    using main_does_what_was_asked [OF r] l by (auto simp: good_env_def default_options_def asked_def loading_def)
  moreover obtain e2 calls2 w2 where r2: "fxload_main (good_env\<lparr>x_chmod := False\<rparr>) [''-m0666''] \<lparr>fx_log = [], fx_errno = 0\<rparr> = (e2, calls2, w2)"
    by (metis prod.exhaust)
  moreover have "e2 = Returns (- 1)"
    using main_does_what_was_asked [OF r2] l by (auto simp: good_env_def default_options_def asked_def loading_def)
  ultimately show ?thesis using r by simp
qed

text \<open>
  Whenever the options reach the work with a configuration byte, it is between 0 and 255, a
  microcontroller type the EEPROM loader knows, a loader and an image are given, and neither a
  link nor a mode is asked for; without one, the type is missing or known. So the loader's
  "unrecognized type" and a missing type cannot happen.
\<close>

theorem eeprom_options_checked:
  assumes "fx_command_line dev argv = Go_on st"
  shows "o_config st \<le> 255
    \<and> (0 \<le> o_config st \<longrightarrow> (\<exists>t s i. o_type st = Some t \<and> o_stage1 st = Some s \<and> o_ihex st = Some i
          \<and> eeprom_device t (o_config st) \<noteq> None \<and> o_link st = None \<and> o_mode st = 0))
    \<and> fst (type_number (o_type st)) \<in> set known_types"
proof -
  have "''fx'' \<in> set known_types" by (simp add: known_types_def)
  then show ?thesis
    using command_line_ok [OF assms] known_type_device
    by (auto simp: options_ok_def option_checks_def type_number_def split: if_splits option.splits)
qed

theorem eeprom_options_checked_witness:
  "\<exists>st. fx_command_line (Some ''dev'') [''-2'', ''-c8'', ''-s'', ''ldr'', ''-Iimg''] = Go_on st
     \<and> eeprom_device ''fx2'' (o_config st) \<noteq> None \<and> o_config st = 8"
proof -
  have g: "getopt_all [''-2'', ''-c8'', ''-s'', ''ldr'', ''-Iimg'']
      = [(CHR ''2'', None), (CHR ''c'', Some ''8''), (CHR ''s'', Some ''ldr''), (CHR ''I'', Some ''img'')]"
    by simp
  have c: "config_value ''8'' = 8" by (simp add: config_value_def scan_defs)
  have r: "fx_command_line (Some ''dev'') [''-2'', ''-c8'', ''-s'', ''ldr'', ''-Iimg''] =
      Go_on ((default_options (Some ''dev''))\<lparr>o_type := Some ''fx2'', o_config := 8, o_stage1 := Some ''ldr'', o_ihex := Some ''img''\<rparr>)"
    by (simp add: fx_command_line_def g option_step_def arg_of_def c option_checks_def default_options_def Let_def)
  from eeprom_options_checked [OF r] r show ?thesis by (auto simp: default_options_def)
qed

text \<open>A value of 2^32 + 8 is taken as the configuration byte 8.\<close>

lemma config_wraps: "config_value ''4294967304'' = 8"
  by (simp add: config_value_def scan_defs)

end
