(* ===== verification/Usbdrv_Header.thy ===== *)
theory Usbdrv_Header
  imports Leap_Prelude
begin

text \<open>
  What \<^verbatim>\<open>drivers/linux/Xilinx_Platform_Cable/usb-driver/usb-driver.h\<close> gives to both port
  drivers: the transfer, its commands and the ports; and what the requests rely on of a driver.
\<close>

text \<open>
  A transfer: the fields for string transfers are only printed, of the data only the byte is used.
\<close>

record wd_transfer =
  tr_port :: u64
  tr_cmd :: u64
  tr_byte :: u8

definition PP_READ :: u64 where "PP_READ = 10"

definition PP_WRITE :: u64 where "PP_WRITE = 13"

text \<open>\<^verbatim>\<open>port == ppbase + off\<close> with an \<^verbatim>\<open>int\<close> base, widened to \<^verbatim>\<open>unsigned long\<close>.\<close>

definition port_at :: "32 word \<Rightarrow> int \<Rightarrow> u64 \<Rightarrow> bool" where
  "port_at base off port \<longleftrightarrow> port = word_of_int (sint base + off)"

definition bit_of :: "u8 \<Rightarrow> u8 \<Rightarrow> bool" where
  "bit_of m v \<longleftrightarrow> and v m \<noteq> 0"

definition is_read :: "wd_transfer \<Rightarrow> bool" where
  "is_read tr \<longleftrightarrow> tr_cmd tr = PP_READ"

lemma read_write: "PP_READ \<noteq> PP_WRITE"
  by (simp add: PP_READ_def PP_WRITE_def)

lemma ports_differ: "port_at base 0 p \<Longrightarrow> port_at base 1 q \<Longrightarrow> \<not> port_at base 0 q"
  by (simp add: port_at_def)

section \<open>The contract of a port driver\<close>

text \<open>
  A driver answers a block of transfers with as many transfers to the same ports with the same
  commands, only the bytes may differ; it may fail. The request handlers rely on this when they
  hand the block back to the program.
\<close>

definition tr_shape :: "wd_transfer list \<Rightarrow> (u64 \<times> u64) list" where
  "tr_shape trs = map (\<lambda>tr. (tr_port tr, tr_cmd tr)) trs"

lemma tr_shape_simps [simp]:
  "tr_shape [] = []" "tr_shape (tr # trs) = (tr_port tr, tr_cmd tr) # tr_shape trs"
  by (simp_all add: tr_shape_def)

fun run_port ::
    "('s \<Rightarrow> wd_transfer list \<Rightarrow> (wd_transfer list \<times> 's) option) \<Rightarrow> 's \<Rightarrow> wd_transfer list list \<Rightarrow>
       (wd_transfer list list \<times> 's) option" where
  "run_port transfer s [] = Some ([], s)"
| "run_port transfer s (trs # blocks) =
     (case transfer s trs of
        None \<Rightarrow> None
      | Some (trs', s') \<Rightarrow> map_option (map_prod (Cons trs') id) (run_port transfer s' blocks))"

locale port_driver =
  fixes transfer :: "'s \<Rightarrow> wd_transfer list \<Rightarrow> (wd_transfer list \<times> 's) option"
  assumes keeps_shape: "transfer s trs = Some (trs', s') \<Longrightarrow> tr_shape trs' = tr_shape trs"
begin

lemma run_shape: "run_port transfer s blocks = Some (out, s') \<Longrightarrow> map tr_shape out = map tr_shape blocks"
  by (induction blocks arbitrary: s out) (auto split: option.splits, metis keeps_shape)

lemma keeps_length:
  assumes "transfer s trs = Some (trs', s')"
  shows "length trs' = length trs"
  using keeps_shape [OF assms] by (auto simp: tr_shape_def dest: map_eq_imp_length_eq)

end

end
