(* ===== verification/Usbdrv_Config.thy ===== *)
theory Usbdrv_Config
  imports Leap_Prelude C_Library
begin

text \<open>
  \<^verbatim>\<open>drivers/linux/Xilinx_Platform_Cable/usb-driver/config.c\<close>, built with \<^verbatim>\<open>JTAGKEY\<close>: which parallel
  ports are real and which are FTDI cables. The three function pointers of an entry are always
  set together, so they are one value. A store outside the table of four is the outcome
  \<^verbatim>\<open>Table_overrun\<close>, printing a missing \<^verbatim>\<open>HOME\<close> is \<^verbatim>\<open>Null_string\<close>.
\<close>

section \<open>The table\<close>

datatype port_driver = Parport | Jtagkey

record parport_config =
  pp_num :: int
  pp_ppbase :: u64
  pp_real :: bool
  pp_vid :: u16
  pp_pid :: u16
  pp_driver :: port_driver

record config_state =
  cf_read :: bool
  cf_table :: "parport_config list"

definition PORTS :: nat where "PORTS = 4"

definition LINELEN :: nat where "LINELEN = 1024"

definition real_port :: "nat \<Rightarrow> parport_config" where
  "real_port i = \<lparr>pp_num = int i, pp_ppbase = of_nat i * 0x10, pp_real = True, pp_vid = 0, pp_pid = 0,
                  pp_driver = Parport\<rparr>"

definition default_table :: "parport_config list" where
  "default_table = map real_port [0..<PORTS]"

text \<open>Before the first call the static table is zero and nothing has been read.\<close>

definition config_start :: config_state where
  "config_start = \<lparr>cf_read = False, cf_table = replicate PORTS
     \<lparr>pp_num = 0, pp_ppbase = 0, pp_real = False, pp_vid = 0, pp_pid = 0, pp_driver = Parport\<rparr>\<rparr>"

section \<open>A line of the file\<close>

definition is_blank :: "char \<Rightarrow> bool" where
  "is_blank c \<longleftrightarrow> c = CHR '' '' \<or> c = CHR 0x09"

definition skip_blanks :: "string \<Rightarrow> string" where
  "skip_blanks s = dropWhile is_blank s"

text \<open>\<^verbatim>\<open>strncasecmp (s, w, n)\<close> with the length of the word.\<close>

definition has_prefix_nocase :: "string \<Rightarrow> string \<Rightarrow> bool" where
  "has_prefix_nocase w s \<longleftrightarrow> map tolower (take (length w) s) = map tolower w"

text \<open>The newline and a carriage return at the end are cut off.\<close>

definition chomp :: "char \<Rightarrow> string \<Rightarrow> string" where
  "chomp c s = (if s \<noteq> [] \<and> last s = c then butlast s else s)"

definition config_text :: "string \<Rightarrow> string" where
  "config_text line = chomp (CHR 0x0D) (chomp NL (cstr line))"

datatype config_line = No_entry | Parse_error | Entry int u16 u16

text \<open>\<^verbatim>\<open>strtol\<close> into an \<^verbatim>\<open>int\<close> and into an \<^verbatim>\<open>unsigned short\<close>.\<close>

definition port_number :: "string \<Rightarrow> int" where
  "port_number s = sint (word_of_int (strtol 10 s) :: 32 word)"

definition usb_id :: "string \<Rightarrow> u16" where
  "usb_id s = word_of_int (strtol 16 s)"

text \<open>
  Behind the equal sign: \<^verbatim>\<open>FTDI:vid:pid\<close>. The test behind each of the two numbers looks at
  \<^verbatim>\<open>num\<close>, not at the number just read.
\<close>

definition ftdi_entry :: "int \<Rightarrow> string \<Rightarrow> config_line" where
  "ftdi_entry num s =
     (let t = skip_blanks s in
      if \<not> has_prefix_nocase ''FTDI:'' t then Parse_error
      else
        let u = drop 5 t;
            vid_text = takeWhile (\<lambda>c. c \<noteq> CHR '':'') u;
            behind = dropWhile (\<lambda>c. c \<noteq> CHR '':'') u
        in if behind = [] then Parse_error
           else if num = 0 then Parse_error
           else Entry num (usb_id vid_text) (usb_id (tl behind)))"

text \<open>\<^verbatim>\<open>LPTn\<close>, blanks, an equal sign.\<close>

definition lpt_entry :: "string \<Rightarrow> config_line" where
  "lpt_entry s =
     (let num_text = takeWhile (\<lambda>c. \<not> is_blank c \<and> c \<noteq> CHR ''='') s;
          behind = dropWhile (\<lambda>c. \<not> is_blank c \<and> c \<noteq> CHR ''='') s
      in if num_text = [] then Parse_error
         else
           let num = port_number num_text
           in if num < 1 then Parse_error
              else if behind \<noteq> [] \<and> hd behind = CHR ''='' then ftdi_entry (num - 1) (tl behind)
              else
                let rest = skip_blanks (tl behind)
                in if rest \<noteq> [] \<and> hd rest = CHR ''='' then ftdi_entry (num - 1) (tl rest)
                   else Parse_error)"

definition config_line :: "string \<Rightarrow> config_line" where
  "config_line line =
     (let s = skip_blanks (config_text line) in
      if s = [] \<or> hd s = CHR ''#'' \<or> hd s = CHR '';'' then No_entry
      else if has_prefix_nocase ''LPT'' s then lpt_entry (drop 3 s)
      else Parse_error)"

section \<open>The file\<close>

datatype config_stop = Table_overrun | Null_string

text \<open>The numbers of the lines that were complained about are collected.\<close>

definition set_entry :: "int \<Rightarrow> u16 \<Rightarrow> u16 \<Rightarrow> parport_config list \<Rightarrow> parport_config list option" where
  "set_entry num vid pid table =
     (if int (length table) \<le> num then None
      else Some (table[nat num := (table ! nat num)\<lparr>pp_real := False, pp_vid := vid, pp_pid := pid,
                                                    pp_driver := Jtagkey\<rparr>]))"

function config_loop ::
    "string \<Rightarrow> nat \<Rightarrow> nat list \<Rightarrow> parport_config list \<Rightarrow> config_stop + (nat list \<times> parport_config list)" where
  "config_loop s n errs table =
     (case fgets LINELEN s of
        None \<Rightarrow> Inr (errs, table)
      | Some (line, rest) \<Rightarrow>
          (case config_line line of
             No_entry \<Rightarrow> config_loop rest (Suc n) errs table
           | Parse_error \<Rightarrow> config_loop rest (Suc n) (errs @ [Suc n]) table
           | Entry num vid pid \<Rightarrow>
               (case set_entry num vid pid table of
                  None \<Rightarrow> Inl Table_overrun
                | Some table' \<Rightarrow> config_loop rest (Suc n) errs table')))"
  by pat_completeness auto
termination
  by (relation "measure (\<lambda>(s, _). length s)") (auto simp: LINELEN_def dest: fgets_progress)

declare config_loop.simps [simp del]

text \<open>The name of the file, cut to the buffer by \<^verbatim>\<open>snprintf\<close>.\<close>

definition config_path :: "string \<Rightarrow> string" where
  "config_path home = take (LINELEN - 1) (home @ ''/.libusb-driverrc'')"

record config_env =
  ce_home :: "string option"
  ce_files :: "string \<Rightarrow> string option"

definition read_config :: "config_env \<Rightarrow> config_state \<Rightarrow> config_stop + (nat list \<times> config_state)" where
  "read_config env st =
     (if cf_read st then Inr ([], st)
      else case ce_home env of
             None \<Rightarrow> Inl Null_string
           | Some home \<Rightarrow>
               (case ce_files env (config_path home) of
                  None \<Rightarrow> Inr ([], \<lparr>cf_read = True, cf_table = default_table\<rparr>)
                | Some s \<Rightarrow>
                    (case config_loop s 0 [] default_table of
                       Inl e \<Rightarrow> Inl e
                     | Inr (errs, table) \<Rightarrow> Inr (errs, \<lparr>cf_read = True, cf_table = table\<rparr>))))"

section \<open>Lookups\<close>

definition find_port :: "int \<Rightarrow> config_state \<Rightarrow> nat option" where
  "find_port num st = first_index (\<lambda>c. pp_num c = num) (cf_table st)"

definition config_lookup ::
    "(parport_config \<Rightarrow> 'a) \<Rightarrow> 'a \<Rightarrow> config_env \<Rightarrow> int \<Rightarrow> config_state \<Rightarrow> config_stop + ('a \<times> config_state)" where
  "config_lookup field missing env num st =
     (case read_config env st of
        Inl e \<Rightarrow> Inl e
      | Inr (_, st') \<Rightarrow>
          Inr (case find_port num st' of None \<Rightarrow> missing | Some i \<Rightarrow> field (cf_table st' ! i), st'))"

definition config_get :: "config_env \<Rightarrow> int \<Rightarrow> config_state \<Rightarrow> config_stop + (nat option \<times> config_state)" where
  "config_get env num st =
     (case read_config env st of
        Inl e \<Rightarrow> Inl e
      | Inr (_, st') \<Rightarrow> Inr (find_port num st', st'))"

definition config_is_real_pport :: "config_env \<Rightarrow> int \<Rightarrow> config_state \<Rightarrow> config_stop + (bool \<times> config_state)" where
  "config_is_real_pport = config_lookup pp_real True"

definition config_usb_vid :: "config_env \<Rightarrow> int \<Rightarrow> config_state \<Rightarrow> config_stop + (u16 \<times> config_state)" where
  "config_usb_vid = config_lookup pp_vid 0"

definition config_usb_pid :: "config_env \<Rightarrow> int \<Rightarrow> config_state \<Rightarrow> config_stop + (u16 \<times> config_state)" where
  "config_usb_pid = config_lookup pp_pid 0"

section \<open>The file as a list of entries\<close>

text \<open>The specification reads the file chunk by chunk and keeps the entries it finds.\<close>

function chunks :: "string \<Rightarrow> string list" where
  "chunks s = (case fgets LINELEN s of None \<Rightarrow> [] | Some (line, rest) \<Rightarrow> line # chunks rest)"
  by pat_completeness auto
termination
  by (relation "measure length") (auto simp: LINELEN_def dest: fgets_progress)

declare chunks.simps [simp del]

definition entry_of :: "string \<Rightarrow> (int \<times> u16 \<times> u16) list" where
  "entry_of line = (case config_line line of Entry num vid pid \<Rightarrow> [(num, vid, pid)] | _ \<Rightarrow> [])"

definition file_entries :: "string \<Rightarrow> (int \<times> u16 \<times> u16) list" where
  "file_entries s = concat (map entry_of (chunks s))"

fun bad_lines :: "nat \<Rightarrow> string list \<Rightarrow> nat list" where
  "bad_lines n [] = []"
| "bad_lines n (line # ls) = (if config_line line = Parse_error then [Suc n] else []) @ bad_lines (Suc n) ls"

fun last_entry :: "int \<Rightarrow> (int \<times> u16 \<times> u16) list \<Rightarrow> (u16 \<times> u16) option" where
  "last_entry i [] = None"
| "last_entry i ((num, ids) # es) =
     (case last_entry i es of Some x \<Rightarrow> Some x | None \<Rightarrow> if num = i then Some ids else None)"

definition ftdi_port :: "parport_config \<Rightarrow> u16 \<times> u16 \<Rightarrow> parport_config" where
  "ftdi_port p ids = p\<lparr>pp_real := False, pp_vid := fst ids, pp_pid := snd ids, pp_driver := Jtagkey\<rparr>"

definition port_after :: "(int \<times> u16 \<times> u16) list \<Rightarrow> nat \<Rightarrow> parport_config \<Rightarrow> parport_config" where
  "port_after es i p = (case last_entry (int i) es of None \<Rightarrow> p | Some ids \<Rightarrow> ftdi_port p ids)"

lemma entry_positive: "config_line line = Entry num vid pid \<Longrightarrow> 1 \<le> num"
  by (auto simp: config_line_def lpt_entry_def ftdi_entry_def Let_def split: if_splits)

lemma ftdi_port_twice: "ftdi_port (ftdi_port p a) b = ftdi_port p b"
  by (simp add: ftdi_port_def)

lemma port_after_cons:
  "port_after ((num, ids) # es) i p = port_after es i (if num = int i then ftdi_port p ids else p)"
  by (simp add: port_after_def ftdi_port_twice split: option.splits)

lemma set_entry_port:
  assumes "set_entry num vid pid table = Some table'" "1 \<le> num"
  shows "length table' = length table"
    and "i < length table \<Longrightarrow>
           table' ! i = (if num = int i then ftdi_port (table ! i) (vid, pid) else table ! i)"
  using assms by (auto simp: set_entry_def ftdi_port_def nth_list_update split: if_splits)

definition fits :: "'a list \<Rightarrow> (int \<times> u16 \<times> u16) list \<Rightarrow> bool" where
  "fits table es \<longleftrightarrow> (\<forall>(num, ids) \<in> set es. num < int (length table))"

text \<open>The loop stores the entries one after the other and stops at the first that does not fit.\<close>

lemma config_loop_entries:
  "(case config_loop s n errs table of
      Inl e \<Rightarrow> e = Table_overrun \<and> \<not> fits table (file_entries s)
    | Inr (errs', table') \<Rightarrow> errs' = errs @ bad_lines n (chunks s)
        \<and> fits table (file_entries s) \<and> length table' = length table
        \<and> (\<forall>i < length table. table' ! i = port_after (file_entries s) i (table ! i)))"
proof (induction s n errs table rule: config_loop.induct)
  case (1 s n errs table)
  show ?case
  proof (cases "fgets LINELEN s")
    case None
    then show ?thesis
      by (simp add: config_loop.simps [of s] chunks.simps [of s] file_entries_def fits_def
          port_after_def)
  next
    case (Some lr)
    then obtain line rest where f: "fgets LINELEN s = Some (line, rest)" by (cases lr) auto
    have cs: "chunks s = line # chunks rest" by (simp add: chunks.simps [of s] f)
    then have es: "file_entries s = entry_of line @ file_entries rest" by (simp add: file_entries_def)
    show ?thesis
    proof (cases "config_line line")
      case (Entry num vid pid)
      have pos: "1 \<le> num" by (rule entry_positive [OF Entry])
      show ?thesis
      proof (cases "set_entry num vid pid table")
        case None
        then have "\<not> num < int (length table)" by (auto simp: set_entry_def split: if_splits)
        then show ?thesis
          by (simp add: config_loop.simps [of s] f Entry None es entry_of_def fits_def)
      next
        case (Some table')
        note st = set_entry_port [OF Some pos]
        have less: "num < int (length table)" using Some by (auto simp: set_entry_def split: if_splits)
        have fit: "fits table (file_entries s) = fits table' (file_entries rest)"
          using less by (simp add: fits_def es entry_of_def Entry st(1))
        have "port_after (file_entries s) i (table ! i) = port_after (file_entries rest) i (table' ! i)"
          if "i < length table" for i
          using st(2) [OF that] by (simp add: es entry_of_def Entry port_after_cons)
        moreover note 1(3) [OF f refl Entry Some]
        ultimately show ?thesis
          using st(1) by (auto simp: config_loop.simps [of s] f Entry Some fit cs split: sum.splits)
      qed
    next
      case No_entry
      have same: "file_entries s = file_entries rest" by (simp add: es entry_of_def No_entry)
      show ?thesis
        using 1(1) [OF f refl No_entry]
        unfolding same cs bad_lines.simps config_loop.simps [of s] f
        by (auto simp: No_entry split: sum.splits)
    next
      case Parse_error
      have same: "file_entries s = file_entries rest" by (simp add: es entry_of_def Parse_error)
      show ?thesis
        using 1(2) [OF f refl Parse_error]
        unfolding same cs bad_lines.simps config_loop.simps [of s] f
        by (auto simp: Parse_error split: sum.splits)
    qed
  qed
qed

lemma read_config_entries:
  assumes "ce_home env = Some home" "ce_files env (config_path home) = Some s"
  shows "(case read_config env config_start of
            Inl e \<Rightarrow> e = Table_overrun \<and> (\<exists>(num, ids) \<in> set (file_entries s). 4 \<le> num)
          | Inr (errs, st) \<Rightarrow> (\<forall>(num, ids) \<in> set (file_entries s). num < 4)
              \<and> errs = bad_lines 0 (chunks s)
              \<and> st = \<lparr>cf_read = True,
                  cf_table = map (\<lambda>i. port_after (file_entries s) i (real_port i)) [0..<4]\<rparr>)"
proof -
  have d: "length default_table = 4" "\<And>i. i < 4 \<Longrightarrow> default_table ! i = real_port i"
    by (simp_all add: default_table_def PORTS_def)
  have fit: "fits default_table es \<longleftrightarrow> (\<forall>(num, ids) \<in> set es. num < 4)" for es
    by (simp add: fits_def d(1))
  show ?thesis
  proof (cases "config_loop s 0 [] default_table")
    case (Inl e)
    with config_loop_entries [where s = s and n = 0 and errs = "[]" and table = default_table]
    have e: "e = Table_overrun" "\<not> fits default_table (file_entries s)" by simp_all
    from e(2) have "\<exists>(num, ids) \<in> set (file_entries s). 4 \<le> num" by (fastforce simp: fit not_less)
    then show ?thesis using assms by (simp add: read_config_def config_start_def Inl e(1))
  next
    case (Inr r)
    then obtain errs table where r: "config_loop s 0 [] default_table = Inr (errs, table)"
      by (cases r) auto
    with config_loop_entries [where s = s and n = 0 and errs = "[]" and table = default_table]
    have t: "errs = bad_lines 0 (chunks s)" "fits default_table (file_entries s)" "length table = 4"
      "\<forall>i < 4. table ! i = port_after (file_entries s) i (real_port i)" by (auto simp: d)
    then have "table = map (\<lambda>i. port_after (file_entries s) i (real_port i)) [0..<4]"
      by (intro nth_equalityI) auto
    then show ?thesis
      using assms r t(1,2) by (simp add: read_config_def config_start_def fit)
  qed
qed

text \<open>
  Reading the configuration for the first time gives exactly what the file says: when no
  entry names a port behind the fourth, every port of the table is the default one changed by the
  last entry for it, the lines complained about are those that are no entries, the table counts as read, and the numbers of the four ports and their
  addresses are those of the default table; otherwise the store runs over the end of the table.
\<close>

theorem config_follows_file:
  assumes "ce_home env = Some home" "ce_files env (config_path home) = Some s"
  shows "(case read_config env config_start of
            Inl e \<Rightarrow> e = Table_overrun \<and> (\<exists>(num, ids) \<in> set (file_entries s). 4 \<le> num)
          | Inr (errs, st) \<Rightarrow> (\<forall>(num, ids) \<in> set (file_entries s). num < 4)
              \<and> errs = bad_lines 0 (chunks s)
              \<and> st = \<lparr>cf_read = True,
                  cf_table = map (\<lambda>i. port_after (file_entries s) i (real_port i)) [0..<4]\<rparr>)"
  using assms by (rule read_config_entries)

lemma config_follows_file_witness:
  "case read_config \<lparr>ce_home = Some ''/h'', ce_files = \<lambda>_. Some ''LPT5=FTDI:1:2''\<rparr> config_start of
     Inl e \<Rightarrow> e = Table_overrun \<and> (\<exists>(num, ids) \<in> set (file_entries ''LPT5=FTDI:1:2''). 4 \<le> num)
   | Inr (errs, st) \<Rightarrow> False"
proof -
  let ?env = "\<lparr>ce_home = Some ''/h'', ce_files = \<lambda>_. Some ''LPT5=FTDI:1:2''\<rparr>"
  have "chunks ''LPT5=FTDI:1:2'' = [''LPT5=FTDI:1:2'']"
    by (simp add: chunks.simps fgets_def LINELEN_def NL_def)
  moreover have "entry_of ''LPT5=FTDI:1:2'' = [(4, 1, 2)]" by code_simp
  ultimately have "file_entries ''LPT5=FTDI:1:2'' = [(4, 1, 2)]" by (simp add: file_entries_def)
  then show ?thesis
    using config_follows_file [of ?env "''/h''" "''LPT5=FTDI:1:2''"] by (auto split: sum.splits)
qed

lemma first_port_default: "\<forall>(num, ids) \<in> set es. 1 \<le> num \<Longrightarrow> last_entry 0 es = None"
  by (induction es) auto

lemma file_entries_positive: "\<forall>(num, ids) \<in> set (file_entries s). 1 \<le> num"
proof -
  have "\<forall>(num, ids) \<in> set (entry_of line). 1 \<le> num" for line
    using entry_positive [of line] by (cases "config_line line") (auto simp: entry_of_def)
  then show ?thesis by (force simp: file_entries_def)
qed

lemma port_after_first: "port_after (file_entries s) 0 p = p"
  by (simp add: port_after_def first_port_default [OF file_entries_positive])

lemma read_config_first_port:
  assumes "read_config env config_start = Inr (errs, st)"
  shows "cf_read st \<and> cf_table st \<noteq> [] \<and> cf_table st ! 0 = real_port 0"
proof -
  have d: "default_table \<noteq> []" "default_table ! 0 = real_port 0"
    by (simp_all add: default_table_def PORTS_def)
  have "table \<noteq> [] \<and> table ! 0 = real_port 0"
    if "config_loop s 0 [] default_table = Inr (errs, table)" for s table
    using that d config_loop_entries [where s = s and n = 0 and errs = "[]" and table = default_table]
    by (auto simp: port_after_first)
  then show ?thesis
    using assms d by (auto simp: read_config_def config_start_def split: option.splits sum.splits)
qed

text \<open>
  The first port stays a real parallel port whatever the configuration file says: a line for
  \<^verbatim>\<open>LPT1\<close> is complained about, because the tests behind its two numbers look at the port.
\<close>

theorem first_port_stays_real:
  "case config_get env 0 config_start of
     Inl e \<Rightarrow> True
   | Inr (i, st) \<Rightarrow> i = Some 0 \<and> cf_table st ! 0 = real_port 0
       \<and> config_is_real_pport env 0 config_start = Inr (True, st)"
proof (cases "read_config env config_start")
  case (Inr r)
  then obtain errs st where r: "read_config env config_start = Inr (errs, st)" by (cases r) auto
  note first = read_config_first_port [OF r]
  then have "find_port 0 st = Some 0"
    by (cases "cf_table st") (auto simp: find_port_def real_port_def)
  with first show ?thesis
    by (simp add: config_get_def config_is_real_pport_def config_lookup_def r real_port_def)
qed (simp add: config_get_def)

section \<open>Printed configurations\<close>

definition print_entry :: "int \<times> u16 \<times> u16 \<Rightarrow> string" where
  "print_entry e =
     (case e of (num, vid, pid) \<Rightarrow>
        ''LPT'' @ [hex_digit (nat num + 1)] @ ''=FTDI:'' @ hex_text 4 (unat vid) @ '':'' @ hex_text 4 (unat pid))"

lemma usb_id_hex: "usb_id (hex_text 4 (unat v)) = v"
proof -
  have "unat v < 16 ^ 4" using unsigned_less [of v] by simp
  then show ?thesis by (simp add: usb_id_def strtol_hex_text)
qed

lemma hex_text_misses:
  "\<not> hex_char c \<Longrightarrow> c \<notin> set (hex_text k n)"
  using hex_text_chars by blast

lemma port_digits:
  "port_number ''2'' = 2" "port_number ''3'' = 3" "port_number ''4'' = 4"
  "hex_digit (Suc (Suc 0)) = CHR ''2''" "hex_digit 3 = CHR ''3''" "hex_digit 4 = CHR ''4''"
  by code_simp+

lemma ftdi_printed:
  assumes "num \<noteq> 0" "CHR '':'' \<notin> set v"
  shows "ftdi_entry num (''FTDI:'' @ v @ CHR '':'' # p) = Entry num (usb_id v) (usb_id p)"
proof -
  have "\<forall>c \<in> set v. c \<noteq> CHR '':''" using assms(2) by auto
  then have "takeWhile (\<lambda>c. c \<noteq> CHR '':'') (v @ CHR '':'' # p) = v"
    "dropWhile (\<lambda>c. c \<noteq> CHR '':'') (v @ CHR '':'' # p) = CHR '':'' # p"
    by (simp_all add: takeWhile_append2 dropWhile_append2)
  then show ?thesis
    using assms(1) by (simp add: ftdi_entry_def skip_blanks_def is_blank_def has_prefix_nocase_def tolower_def)
qed

lemma config_line_printed:
  assumes "num \<in> {1, 2, 3}"
  shows "config_line (print_entry (num, vid, pid) @ [NL]) = Entry num vid pid"
proof -
  let ?d = "hex_digit (nat num + 1)" and ?v = "hex_text 4 (unat vid)" and ?p = "hex_text 4 (unat pid)"
  let ?e = "print_entry (num, vid, pid)"
  have p: "port_number [?d] = num + 1" and d: "?d \<in> {CHR ''2'', CHR ''3'', CHR ''4''}"
    using assms by (auto simp: port_digits)
  have miss: "CHR '':'' \<notin> set ?v" "NUL \<notin> set ?v" "NUL \<notin> set ?p" "CHR 0x0D \<notin> set ?p"
    by (rule hex_text_misses, simp add: hex_char_def NUL_def)+
  have "cstr (?e @ [NL]) = ?e @ [NL]"
    using d miss by (auto simp: cstr_def print_entry_def NUL_def NL_def takeWhile_eq_all_conv)
  moreover have "last ?e \<noteq> CHR 0x0D" "?e \<noteq> []"
  proof -
    have "?p \<noteq> []" using hex_text_length [of 4 "unat pid"] by (metis list.size(3) zero_neq_numeral)
    then have "last ?e \<in> set ?p" by (simp add: print_entry_def del: hex_text.simps)
    then show "last ?e \<noteq> CHR 0x0D" using miss(4) by metis
  qed (simp add: print_entry_def)
  ultimately have t: "config_text (?e @ [NL]) = ?e"
    by (simp add: config_text_def chomp_def)
  have s: "skip_blanks ?e = ?e" "has_prefix_nocase ''LPT'' ?e" "hd ?e = CHR ''L''"
    "drop 3 ?e = ?d # CHR ''='' # ''FTDI:'' @ ?v @ CHR '':'' # ?p"
    by (simp_all add: print_entry_def skip_blanks_def is_blank_def has_prefix_nocase_def tolower_def)
  have "lpt_entry (?d # CHR ''='' # ''FTDI:'' @ ?v @ CHR '':'' # ?p) = ftdi_entry num (''FTDI:'' @ ?v @ CHR '':'' # ?p)"
    using d assms p by (auto simp: lpt_entry_def is_blank_def)
  also have "\<dots> = Entry num vid pid"
    using assms ftdi_printed [of num ?v ?p, OF _ miss(1)] by (auto simp: usb_id_hex)
  finally show ?thesis
    using s t \<open>?e \<noteq> []\<close> by (simp add: config_line_def)
qed

lemma printed_chunks:
  assumes "\<forall>(num, ids) \<in> set es. num \<in> {1, 2, 3}"
  shows "chunks (concat (map (\<lambda>e. print_entry e @ [NL]) es)) = map (\<lambda>e. print_entry e @ [NL]) es"
  using assms
proof (induction es)
  case Nil
  show ?case by (simp add: chunks.simps fgets_def)
next
  case (Cons e es)
  obtain num vid pid where e: "e = (num, vid, pid)" by (cases e)
  have num: "num \<in> {1, 2, 3}" using Cons.prems by (simp add: e)
  have len: "length (print_entry e) + 2 \<le> LINELEN" by (simp add: print_entry_def e LINELEN_def)
  have "hex_digit (nat num + 1) \<in> {CHR ''2'', CHR ''3'', CHR ''4''}" using num by (auto simp: port_digits)
  moreover have "NL \<notin> set (hex_text 4 k)" for k by (rule hex_text_misses) (simp add: hex_char_def NL_def)
  ultimately have "NL \<notin> set (print_entry e)" by (auto simp: print_entry_def e NL_def simp del: hex_text.simps)
  note f = fgets_line [OF this len]
  with Cons show ?case by (simp add: chunks.simps [of "print_entry e @ NL # rest" for rest])
qed

lemma read_printed_config:
  assumes "\<forall>(num, ids) \<in> set es. num \<in> {1, 2, 3}"
    and "ce_home env = Some home"
    and "ce_files env (config_path home) = Some (concat (map (\<lambda>e. print_entry e @ [NL]) es))"
  shows "read_config env config_start
    = Inr ([], \<lparr>cf_read = True, cf_table = map (\<lambda>i. port_after es i (real_port i)) [0..<4]\<rparr>)"
proof -
  let ?s = "concat (map (\<lambda>e. print_entry e @ [NL]) es)"
  have line: "config_line (print_entry e @ [NL]) = (case e of (num, vid, pid) \<Rightarrow> Entry num vid pid)"
    if "e \<in> set es" for e
  proof -
    obtain num vid pid where e: "e = (num, vid, pid)" by (cases e)
    then have "num \<in> {1, 2, 3}" using that assms(1) by auto
    then show ?thesis unfolding e by (simp only: config_line_printed prod.case)
  qed
  have "concat (map entry_of (map (\<lambda>e. print_entry e @ [NL]) es)) = concat (map (\<lambda>e. [e]) es)"
    unfolding map_map
    by (rule arg_cong [where f = concat], rule map_cong) (auto simp: entry_of_def line)
  then have es: "file_entries ?s = es"
    by (simp add: file_entries_def printed_chunks [OF assms(1)])
  have "bad_lines n (map (\<lambda>e. print_entry e @ [NL]) es) = []" for n
    using line by (induction es arbitrary: n) auto
  then have bad: "bad_lines 0 (chunks ?s) = []" by (simp add: printed_chunks [OF assms(1)])
  have "\<forall>(num, ids) \<in> set (file_entries ?s). num < 4" using assms(1) by (force simp: es)
  then have "\<not> (\<exists>(num, ids) \<in> set (file_entries ?s). 4 \<le> num)" by fastforce
  with read_config_entries [OF assms(2,3)] show ?thesis
    unfolding bad es by (auto split: sum.splits)
qed

text \<open>
  C35. A configuration that is printed and stored is read back: for every list of entries for the
  second to the fourth port no line is complained about and the table has the default ports, each
  changed by the last entry of the list for it.
\<close>

theorem printed_config_read_back:
  assumes "\<forall>(num, ids) \<in> set es. num \<in> {1, 2, 3}"
    and "ce_home env = Some home"
    and "ce_files env (config_path home) = Some (concat (map (\<lambda>e. print_entry e @ [NL]) es))"
  shows "read_config env config_start
    = Inr ([], \<lparr>cf_read = True, cf_table = map (\<lambda>i. port_after es i (real_port i)) [0..<4]\<rparr>)"
  using assms by (rule read_printed_config)

lemma printed_config_read_back_witness:
  "read_config \<lparr>ce_home = Some ''/h'', ce_files = \<lambda>_. Some (print_entry (1, 0x403, 0xCFF8) @ [NL])\<rparr> config_start
    = Inr ([], \<lparr>cf_read = True,
        cf_table = map (\<lambda>i. port_after [(1, 0x403, 0xCFF8)] i (real_port i)) [0..<4]\<rparr>)"
  by (rule printed_config_read_back [where home = "''/h''"]) simp_all

end
