(* ===== verification/Usbdrv_Parport.thy ===== *)
theory Usbdrv_Parport
  imports Usbdrv_Header
begin

text \<open>
  \<^verbatim>\<open>drivers/linux/Xilinx_Platform_Cable/usb-driver/parport.c\<close>: a real parallel port behind
  \<^verbatim>\<open>/dev/parport\<close>. The kernel's driver is a parameter, an \<^verbatim>\<open>ioctl\<close> on the byte returns its code
  and the byte it leaves. \<^verbatim>\<open>FORCE_PC3_IDENT\<close> is a parameter too.
\<close>

datatype pp_op = Pp_write_data | Pp_read_status | Pp_read_control | Pp_write_control | Pp_claim
  | Pp_negotiate | Pp_release

record 'k ppdev =
  pd_open :: "string \<Rightarrow> 'k \<Rightarrow> int \<times> 'k"
  pd_ioctl :: "int \<Rightarrow> pp_op \<Rightarrow> u8 \<Rightarrow> 'k \<Rightarrow> int \<times> u8 \<times> 'k"
  pd_close :: "int \<Rightarrow> 'k \<Rightarrow> 'k"

text \<open>The static variables: the descriptor and the byte last written to the data port.\<close>

record parport =
  pt_fd :: int
  pt_last :: u8

definition parport_start :: parport where
  "parport_start = \<lparr>pt_fd = - 1, pt_last = 0\<rparr>"

section \<open>Transfers\<close>

text \<open>The identification of a Parallel Cable III is forced into the status byte.\<close>

definition pc3_ident :: "bool \<Rightarrow> u8 \<Rightarrow> u8 \<Rightarrow> u8" where
  "pc3_ident pc3 lw val =
     (if pc3 then or (and val 0x5F) (if bit_of 0x40 lw then 0x20 else 0x80) else val)"

text \<open>One transfer: the return code, the byte, the byte last written, the port.\<close>

definition parport_one ::
    "'k ppdev \<Rightarrow> bool \<Rightarrow> 32 word \<Rightarrow> 32 word \<Rightarrow> wd_transfer \<Rightarrow> int \<Rightarrow> parport \<Rightarrow> 'k \<Rightarrow>
       int \<times> u8 \<times> parport \<times> 'k" where
  "parport_one dev pc3 base ecp tr rc pt k =
     (let port = tr_port tr; val = tr_byte tr; fd = pt_fd pt; write = (tr_cmd tr = PP_WRITE) in
      if port_at base 0 port
      then if is_read tr then (0, val, pt, k)
           else if write
           then (case pd_ioctl dev fd Pp_write_data val k of
                   (rc', val', k') \<Rightarrow> (rc', val', pt\<lparr>pt_last := val'\<rparr>, k'))
           else (- 1, val, pt, k)
      else if port_at base 1 port
      then if is_read tr
           then (case pd_ioctl dev fd Pp_read_status val k of
                   (rc', val', k') \<Rightarrow> (rc', pc3_ident pc3 (pt_last pt) val', pt, k'))
           else if write then (0, val, pt, k) else (- 1, val, pt, k)
      else if port_at base 2 port
      then if is_read tr
           then (case pd_ioctl dev fd Pp_read_control val k of (rc', val', k') \<Rightarrow> (rc', val', pt, k'))
           else if write
           then (case pd_ioctl dev fd Pp_write_control val k of (rc', val', k') \<Rightarrow> (rc', val', pt, k'))
           else (- 1, val, pt, k)
      else if ecp \<noteq> 0 \<and> (port_at ecp 0 port \<or> port_at ecp 1 port \<or> port_at ecp 2 port)
      then (rc, val, pt, k)
      else (0, val, pt, k))"

fun parport_loop ::
    "'k ppdev \<Rightarrow> bool \<Rightarrow> 32 word \<Rightarrow> 32 word \<Rightarrow> wd_transfer list \<Rightarrow> int \<Rightarrow> parport \<Rightarrow> 'k \<Rightarrow>
       int \<times> wd_transfer list \<times> parport \<times> 'k" where
  "parport_loop dev pc3 base ecp [] rc pt k = (rc, [], pt, k)"
| "parport_loop dev pc3 base ecp (tr # trs) rc pt k =
     (if pt_fd pt < 0 then (rc, tr # trs, pt, k)
      else case parport_one dev pc3 base ecp tr rc pt k of
             (rc', val, pt', k') \<Rightarrow>
               map_prod id (map_prod (Cons (tr\<lparr>tr_byte := val\<rparr>)) id)
                 (parport_loop dev pc3 base ecp trs rc' pt' k'))"

definition parport_transfer ::
    "'k ppdev \<Rightarrow> bool \<Rightarrow> 32 word \<Rightarrow> 32 word \<Rightarrow> wd_transfer list \<Rightarrow> parport \<times> 'k \<Rightarrow>
       int \<times> wd_transfer list \<times> parport \<times> 'k" where
  "parport_transfer dev pc3 base ecp trs s = (case s of (pt, k) \<Rightarrow> parport_loop dev pc3 base ecp trs 0 pt k)"

section \<open>Opening and closing\<close>

text \<open>The number is printed as unsigned, with at most 31 characters.\<close>

definition parport_path :: "int \<Rightarrow> string" where
  "parport_path num = take 31 (''/dev/parport'' @ show_nat (unat (word_of_int num :: 32 word)))"

definition parport_open :: "'k ppdev \<Rightarrow> int \<Rightarrow> parport \<times> 'k \<Rightarrow> int \<times> parport \<times> 'k" where
  "parport_open dev num s =
     (case s of (pt, k) \<Rightarrow>
        case (if pt_fd pt < 0 then pd_open dev (parport_path num) k else (pt_fd pt, k)) of
          (fd, k1) \<Rightarrow>
            let pt1 = pt\<lparr>pt_fd := fd\<rparr> in
            if fd < 0 then (fd, pt1, k1)
            else case pd_ioctl dev fd Pp_claim 0 k1 of
                   (rc, _, k2) \<Rightarrow>
                     if rc = - 1 then (- 1, pt1, k2)
                     else case pd_ioctl dev fd Pp_negotiate 0 k2 of
                            (rc', _, k3) \<Rightarrow> (if rc' = - 1 then - 1 else fd, pt1, k3))"

definition parport_close :: "'k ppdev \<Rightarrow> int \<Rightarrow> parport \<times> 'k \<Rightarrow> parport \<times> 'k" where
  "parport_close dev handle s =
     (case s of (pt, k) \<Rightarrow>
        if pt_fd pt = handle \<and> 0 \<le> pt_fd pt
        then (pt\<lparr>pt_fd := - 1\<rparr>,
              pd_close dev (pt_fd pt) (snd (snd (pd_ioctl dev (pt_fd pt) Pp_release 0 k))))
        else (pt, k))"

section \<open>The contract\<close>

lemma parport_loop_shape:
  "parport_loop dev pc3 base ecp trs rc pt k = (rc', trs', s') \<Longrightarrow> tr_shape trs' = tr_shape trs"
proof (induction trs arbitrary: rc pt k trs')
  case (Cons tr trs)
  have one: "map_prod id (map_prod (Cons x) id) r = (rc', trs', s') \<longleftrightarrow> (\<exists>ts. r = (rc', ts, s') \<and> trs' = x # ts)"
    for x and r :: "int \<times> wd_transfer list \<times> parport \<times> 'a"
    by (cases r) auto
  from Cons.prems show ?case
    by (auto simp: one split: if_splits prod.splits dest: Cons.IH)
qed simp

interpretation pp: port_driver
  "\<lambda>s trs. case parport_transfer dev pc3 base ecp trs s of (rc, trs', s') \<Rightarrow> Some (trs', s')"
  for dev pc3 base ecp
  by unfold_locales (auto simp: parport_transfer_def dest: parport_loop_shape split: prod.splits)

text \<open>
  With the forced identification a status byte shows the same cable as the one that the FTDI driver
  makes: the bits 5 and 7 tell whether the bit 6 was written last.
\<close>

lemma forced_ident: "and (pc3_ident True lw val) 0xA0 = (if bit_of 0x40 lw then 0x20 else 0x80)"
  by (simp add: pc3_ident_def bit.conj_disj_distrib2 and.assoc)

end
