(* ===== verification/Usbdrv_Jtagkey.thy ===== *)
theory Usbdrv_Jtagkey
  imports Usbdrv_Header
begin

text \<open>
  \<^verbatim>\<open>drivers/linux/Xilinx_Platform_Cable/usb-driver/jtagkey.c\<close> (built without \<^verbatim>\<open>DEBUG\<close>): the
  parallel port of a Xilinx cable played on the pins of an FTDI chip. libftdi and the chip are a
  parameter: one function for the calls that return a code, one for the write of a block of bytes
  whose samples the reader thread collects. Both threads are joined before their buffers are used,
  so a block is one step.

  A store behind the end of \<^verbatim>\<open>writebuf\<close> or a read behind the end of \<^verbatim>\<open>readbuf\<close> is \<^verbatim>\<open>Outside_buffer\<close>.
  When fewer samples come than bytes were written, the reader never ends: \<^verbatim>\<open>Reader_waits\<close>.
\<close>

section \<open>Pins\<close>

definition USBBUFSIZE :: nat where "USBBUFSIZE = 1048576"

text \<open>The pins for a value of the data port: a set control bit turns all the others off.\<close>

definition pins :: "u8 \<Rightarrow> u8" where
  "pins val =
     (let tdi = (if bit_of 0x01 val then 0x02 else 0);
          tck = (if bit_of 0x02 val then 0x01 else 0);
          tms = (if bit_of 0x04 val then 0x08 else 0)
      in if bit_of 0x08 val then 0x10 else or (or tdi tck) tms)"

text \<open>The status port, from the value last written and a sample of the pins.\<close>

definition status_byte :: "u8 \<Rightarrow> u8 \<Rightarrow> u8" where
  "status_byte last_write sample =
     or (or (if bit_of 0x04 sample \<and> bit_of 0x10 last_write then 0x10 else 0)
            (if \<not> bit_of 0x10 last_write then 0x08 else 0))
        (if bit_of 0x40 last_write then 0x20 else 0x80)"

section \<open>The chip\<close>

datatype ftdi_op = Ftdi_init | Usb_open u16 u16 | Usb_reset | Set_interface | Write_chunksize
  | Read_chunksize | Set_latency int | Write_byte u8 | Set_bitmode u8 | Set_baudrate int
  | Purge_buffers | Disable_bitbang | Usb_close | Ftdi_deinit

record 'd ftdi =
  ft_call :: "ftdi_op \<Rightarrow> 'd \<Rightarrow> int \<times> 'd"
  ft_exchange :: "u8 list \<Rightarrow> 'd \<Rightarrow> u8 list \<times> 'd"

text \<open>The static variables; of \<^verbatim>\<open>writebuf\<close> only the bytes in front of \<^verbatim>\<open>writepos\<close> are kept.\<close>

record jtagkey =
  jk_latency :: int
  jk_data :: u8
  jk_write :: u8
  jk_pending :: "u8 list"
  jk_samples :: "u8 list"

definition jk_start :: jtagkey where
  "jk_start = \<lparr>jk_latency = 0, jk_data = 0, jk_write = 0, jk_pending = [], jk_samples = []\<rparr>"

text \<open>When the latency is already set, an uninitialised \<^verbatim>\<open>ret\<close> is returned.\<close>

definition jtagkey_latency :: "'d ftdi \<Rightarrow> int \<Rightarrow> int \<Rightarrow> 'd \<times> jtagkey \<Rightarrow> int \<times> 'd \<times> jtagkey" where
  "jtagkey_latency chip junk n s =
     (case s of (d, jk) \<Rightarrow>
        if jk_latency jk = n then (junk, d, jk)
        else case ft_call chip (Set_latency n) d of
               (rc, d') \<Rightarrow> (rc, d', if rc = 0 then jk\<lparr>jk_latency := n\<rparr> else jk))"

text \<open>A list of calls, up to the first that fails.\<close>

fun ftdi_calls :: "'d ftdi \<Rightarrow> ftdi_op list \<Rightarrow> 'd \<Rightarrow> int \<times> 'd" where
  "ftdi_calls chip [] d = (0, d)"
| "ftdi_calls chip (op # ops) d =
     (case ft_call chip op d of (rc, d') \<Rightarrow> if rc \<noteq> 0 then (rc, d') else ftdi_calls chip ops d')"

definition jtagkey_init :: "'d ftdi \<Rightarrow> int \<Rightarrow> u16 \<Rightarrow> u16 \<Rightarrow> 'd \<times> jtagkey \<Rightarrow> int \<times> 'd \<times> jtagkey" where
  "jtagkey_init chip junk vid pid s =
     (case s of (d, jk) \<Rightarrow>
        case ftdi_calls chip [Ftdi_init, Usb_open vid pid, Usb_reset, Set_interface, Write_chunksize,
                              Read_chunksize] d of
          (rc, d1) \<Rightarrow>
            if rc \<noteq> 0 then (rc, d1, jk)
            else case jtagkey_latency chip junk 1 (d1, jk) of
                   (rc, d2, jk') \<Rightarrow>
                     if rc \<noteq> 0 then (rc, d2, jk')
                     else case ftdi_calls chip [Set_bitmode 0x1B, Set_baudrate 100000, Purge_buffers]
                                 (snd (ft_call chip (Write_byte 0) d2)) of
                            (rc, d3) \<Rightarrow> (rc, d3, jk'))"

definition jtagkey_open :: "'d ftdi \<Rightarrow> int \<Rightarrow> u16 \<Rightarrow> u16 \<Rightarrow> 'd \<times> jtagkey \<Rightarrow> int \<times> 'd \<times> jtagkey" where
  "jtagkey_open chip junk vid pid s =
     (case jtagkey_init chip junk vid pid s of
        (rc, s') \<Rightarrow> (if rc \<ge> 0 then 0xFF else rc, s'))"

definition jtagkey_close :: "'d ftdi \<Rightarrow> int \<Rightarrow> 'd \<Rightarrow> 'd" where
  "jtagkey_close chip handle d =
     (if handle = 0xFF
      then snd (ft_call chip Ftdi_deinit (snd (ft_call chip Usb_close (snd (ft_call chip Disable_bitbang d)))))
      else d)"

section \<open>A block of transfers\<close>

datatype jk_fault = Outside_buffer | Reader_waits

text \<open>The block goes out, the reader thread collects as many samples as bytes.\<close>

definition jk_exchange :: "'d ftdi \<Rightarrow> u8 list \<Rightarrow> 'd \<times> jtagkey \<Rightarrow> jk_fault + ('d \<times> jtagkey)" where
  "jk_exchange chip ws s =
     (case s of (d, jk) \<Rightarrow>
        case ft_exchange chip ws d of
          (rs, d') \<Rightarrow>
            if length rs < length ws then Inl Reader_waits
            else Inr (d', jk\<lparr>jk_samples := take (length ws) rs @ drop (length ws) (jk_samples jk)\<rparr>))"

definition nread :: "wd_transfer list \<Rightarrow> nat" where
  "nread trs = length (filter is_read trs)"

text \<open>
  The test in front of the flush is one on \<^verbatim>\<open>unsigned long\<close>: with more transfers than the buffer
  has bytes the difference wraps.
\<close>

definition must_write :: "wd_transfer list \<Rightarrow> jtagkey \<Rightarrow> bool" where
  "must_write trs jk \<longleftrightarrow>
     (of_nat USBBUFSIZE - of_nat (length trs) < (of_nat (length (jk_pending jk)) :: u64))
     \<or> (0 < nread trs \<and> jk_pending jk \<noteq> [])"

definition flush_pending ::
    "'d ftdi \<Rightarrow> int \<Rightarrow> wd_transfer list \<Rightarrow> 'd \<times> jtagkey \<Rightarrow> jk_fault + ('d \<times> jtagkey)" where
  "flush_pending chip junk trs s =
     (if must_write trs (snd s)
      then case jtagkey_latency chip junk 2 s of
             (_, d, jk) \<Rightarrow>
               (case jk_exchange chip (jk_pending jk) (d, jk) of
                  Inl e \<Rightarrow> Inl e
                | Inr (d', jk') \<Rightarrow> Inr (d', jk'\<lparr>jk_pending := []\<rparr>))
      else Inr s)"

text \<open>One transfer of the first loop: the byte for it, the new pins and value, the return code.\<close>

definition gather_one :: "32 word \<Rightarrow> wd_transfer \<Rightarrow> int \<Rightarrow> jtagkey \<Rightarrow> u8 \<times> int \<times> jtagkey" where
  "gather_one base tr rc jk =
     (if port_at base 0 (tr_port tr)
      then if is_read tr then (jk_data jk, 0, jk)
           else if tr_cmd tr = PP_WRITE
           then (pins (tr_byte tr), rc, jk\<lparr>jk_data := pins (tr_byte tr), jk_write := tr_byte tr\<rparr>)
           else (jk_data jk, - 1, jk)
      else (jk_data jk, rc, jk))"

fun gather :: "32 word \<Rightarrow> wd_transfer list \<Rightarrow> int \<Rightarrow> jtagkey \<Rightarrow> jk_fault + (int \<times> jtagkey)" where
  "gather base [] rc jk = Inr (rc, jk)"
| "gather base (tr # trs) rc jk =
     (if USBBUFSIZE \<le> length (jk_pending jk) then Inl Outside_buffer
      else case gather_one base tr rc jk of
             (byte, rc', jk') \<Rightarrow>
               gather base trs rc'
                 (if is_read tr \<or> byte \<noteq> jk_data jk \<or> trs = []
                  then jk'\<lparr>jk_pending := jk_pending jk @ [byte]\<rparr> else jk'))"

text \<open>
  One transfer of the second loop: its new byte, the value last written and the return code.
\<close>

definition scatter_one ::
    "32 word \<Rightarrow> (nat \<Rightarrow> u8) \<Rightarrow> wd_transfer \<Rightarrow> nat \<Rightarrow> u8 \<Rightarrow> int \<Rightarrow> u8 \<times> u8 \<times> int" where
  "scatter_one base sample tr pos w rc =
     (if port_at base 0 (tr_port tr)
      then (tr_byte tr, if tr_cmd tr = PP_WRITE then tr_byte tr else w, rc)
      else if port_at base 1 (tr_port tr)
      then if is_read tr then (status_byte w (sample pos), w, rc)
           else if tr_cmd tr = PP_WRITE then (tr_byte tr, w, 0)
           else (tr_byte tr, w, - 1)
      else (tr_byte tr, w, 0))"

fun scatter ::
    "32 word \<Rightarrow> (nat \<Rightarrow> u8) \<Rightarrow> wd_transfer list \<Rightarrow> nat \<Rightarrow> u8 \<Rightarrow> int \<Rightarrow>
       jk_fault + (int \<times> wd_transfer list \<times> u8)" where
  "scatter base sample [] pos w rc = Inr (rc, [], w)"
| "scatter base sample (tr # trs) pos w rc =
     (if \<not> is_read tr \<and> tr_byte tr = w \<and> trs \<noteq> []
      then map_sum id (map_prod id (map_prod (Cons tr) id)) (scatter base sample trs pos w rc)
      else if USBBUFSIZE \<le> Suc pos \<and> port_at base 1 (tr_port tr) \<and> is_read tr \<and> \<not> port_at base 0 (tr_port tr)
      then Inl Outside_buffer
      else case scatter_one base sample tr (Suc pos) w rc of
             (byte, w', rc') \<Rightarrow>
               map_sum id (map_prod id (map_prod (Cons (tr\<lparr>tr_byte := byte\<rparr>)) id))
                 (scatter base sample trs (Suc pos) w' rc'))"

text \<open>The static read buffer is zero where nothing has been read.\<close>

definition sample_at :: "jtagkey \<Rightarrow> nat \<Rightarrow> u8" where
  "sample_at jk i = (if i < length (jk_samples jk) then jk_samples jk ! i else 0)"

definition jtagkey_transfer ::
    "'d ftdi \<Rightarrow> int \<Rightarrow> 32 word \<Rightarrow> wd_transfer list \<Rightarrow> 'd \<times> jtagkey \<Rightarrow>
       jk_fault + (int \<times> wd_transfer list \<times> 'd \<times> jtagkey)" where
  "jtagkey_transfer chip junk base trs s =
     (case flush_pending chip junk trs s of
        Inl e \<Rightarrow> Inl e
      | Inr (d, jk) \<Rightarrow>
          (case gather base trs 0 jk of
             Inl e \<Rightarrow> Inl e
           | Inr (rc, jk1) \<Rightarrow>
               if nread trs = 0 then Inr (rc, trs, d, jk1)
               else if USBBUFSIZE \<le> length (jk_pending jk1) then Inl Outside_buffer
               else
                 let ws = jk_pending jk1 @ [jk_data jk1] in
                 case jtagkey_latency chip junk 1 (d, jk1) of
                   (_, s2) \<Rightarrow>
                     (case jk_exchange chip ws s2 of
                        Inl e \<Rightarrow> Inl e
                      | Inr (d3, jk3) \<Rightarrow>
                          (case scatter base (sample_at jk3) trs 0 (jk_write jk) rc of
                             Inl e \<Rightarrow> Inl e
                           | Inr (rc', trs', w) \<Rightarrow>
                               Inr (rc', trs', d3, jk3\<lparr>jk_write := w, jk_pending := []\<rparr>)))))"


section \<open>The contract of a port driver\<close>

lemma scatter_shape:
  "scatter base sample trs pos w rc = Inr (rc', trs', w') \<Longrightarrow> tr_shape trs' = tr_shape trs"
proof (induction trs arbitrary: pos w rc rc' trs' w')
  case (Cons tr trs)
  have one: "map_sum id (map_prod id (map_prod (Cons x) id)) r = Inr (rc', trs', w') \<longleftrightarrow>
      (\<exists>ts. r = Inr (rc', ts, w') \<and> trs' = x # ts)" for x and r :: "jk_fault + (int \<times> wd_transfer list \<times> u8)"
    by (cases r) auto
  from Cons.prems show ?case
    by (auto simp: one split: if_splits prod.splits dest: Cons.IH)
qed simp

lemma transfer_shape:
  "jtagkey_transfer chip junk base trs s = Inr (rc, trs', s') \<Longrightarrow> tr_shape trs' = tr_shape trs"
  by (auto simp: jtagkey_transfer_def Let_def split: sum.splits prod.splits if_splits dest: scatter_shape)

interpretation jk: port_driver
  "\<lambda>s trs. case jtagkey_transfer chip junk base trs s of Inl e \<Rightarrow> None | Inr (rc, trs', s') \<Rightarrow> Some (trs', s')"
  for chip junk base
  by unfold_locales (auto dest: transfer_shape split: sum.splits)

section \<open>A port without buffers\<close>

text \<open>
  The reference: every write drives the pins at once, every read of the status port looks at them.
  A state is the value last written to the data port and the chip.
\<close>

definition direct_one ::
    "(u8 \<Rightarrow> 'd \<Rightarrow> 'd) \<Rightarrow> ('d \<Rightarrow> u8) \<Rightarrow> 32 word \<Rightarrow> wd_transfer \<Rightarrow> u8 \<times> 'd \<Rightarrow> wd_transfer \<times> u8 \<times> 'd" where
  "direct_one drive look base tr s =
     (case s of (w, d) \<Rightarrow>
        if port_at base 0 (tr_port tr)
        then if tr_cmd tr = PP_WRITE then (tr, tr_byte tr, drive (pins (tr_byte tr)) d) else (tr, s)
        else if port_at base 1 (tr_port tr) \<and> is_read tr
        then (tr\<lparr>tr_byte := status_byte w (look d)\<rparr>, s)
        else (tr, s))"

fun direct ::
    "(u8 \<Rightarrow> 'd \<Rightarrow> 'd) \<Rightarrow> ('d \<Rightarrow> u8) \<Rightarrow> 32 word \<Rightarrow> wd_transfer list \<Rightarrow> u8 \<times> 'd \<Rightarrow>
       wd_transfer list \<times> u8 \<times> 'd" where
  "direct drive look base [] s = ([], s)"
| "direct drive look base (tr # trs) s =
     (case direct_one drive look base tr s of
        (tr', s') \<Rightarrow> map_prod (Cons tr') id (direct drive look base trs s'))"

text \<open>
  What the chip does in the synchronous mode: every byte is driven onto the pins after the pins
  have been sampled. Driving the same byte again changes nothing, the latency timer is not seen at
  the pins.
\<close>

fun samples :: "(u8 \<Rightarrow> 'd \<Rightarrow> 'd) \<Rightarrow> ('d \<Rightarrow> u8) \<Rightarrow> u8 list \<Rightarrow> 'd \<Rightarrow> u8 list" where
  "samples drive look [] d = []"
| "samples drive look (b # bs) d = look d # samples drive look bs (drive b d)"

definition bitbang :: "'d ftdi \<Rightarrow> (u8 \<Rightarrow> 'd \<Rightarrow> 'd) \<Rightarrow> ('d \<Rightarrow> u8) \<Rightarrow> bool" where
  "bitbang chip drive look \<longleftrightarrow>
     (\<forall>ws d. ft_exchange chip ws d = (samples drive look ws d, fold drive ws d))
     \<and> (\<forall>n d. snd (ft_call chip (Set_latency n) d) = d) \<and> (\<forall>b d. drive b (drive b d) = drive b d)"

text \<open>
  The blocks the second loop can follow: it recognises the bytes the first loop left out by the
  value written, so behind an unchanged byte must stand an unchanged value.
\<close>

fun followed :: "32 word \<Rightarrow> u8 \<Rightarrow> wd_transfer list \<Rightarrow> bool" where
  "followed base w [] = True"
| "followed base w (tr # trs) =
     (if is_read tr then followed base w trs
      else if port_at base 0 (tr_port tr)
      then tr_cmd tr = PP_WRITE \<and> (trs = [] \<or> tr_byte tr = w \<or> pins (tr_byte tr) \<noteq> pins w)
        \<and> followed base (tr_byte tr) trs
      else (trs = [] \<or> tr_byte tr = w) \<and> followed base w trs)"

definition jk_push :: "32 word \<Rightarrow> wd_transfer \<Rightarrow> bool \<Rightarrow> jtagkey \<Rightarrow> jtagkey" where
  "jk_push base tr final jk =
     (case gather_one base tr 0 jk of
        (byte, _, jk') \<Rightarrow>
          if is_read tr \<or> byte \<noteq> jk_data jk \<or> final
          then jk'\<lparr>jk_pending := jk_pending jk @ [byte]\<rparr> else jk')"

definition jk_abs :: "(u8 \<Rightarrow> 'd \<Rightarrow> 'd) \<Rightarrow> 'd \<times> jtagkey \<Rightarrow> u8 \<times> 'd" where
  "jk_abs drive s = (case s of (d, jk) \<Rightarrow> (jk_write jk, fold drive (jk_pending jk) d))"

definition jk_settled :: "(u8 \<Rightarrow> 'd \<Rightarrow> 'd) \<Rightarrow> 'd \<times> jtagkey \<Rightarrow> bool" where
  "jk_settled drive s \<longleftrightarrow>
     (case s of (d, jk) \<Rightarrow> jk_data jk = pins (jk_write jk)
        \<and> drive (jk_data jk) (fold drive (jk_pending jk) d) = fold drive (jk_pending jk) d)"

section \<open>The two loops\<close>

lemma samples_length [simp]: "length (samples drive look ws d) = length ws"
  by (induction ws arbitrary: d) simp_all

lemma samples_nth:
  "i < length ws \<Longrightarrow> samples drive look ws d ! i = look (fold drive (take i ws) d)"
  by (induction ws arbitrary: i d) (auto simp: nth_Cons split: nat.splits)

lemma direct_cons:
  "direct drive look base (tr # trs) s =
     (fst (direct_one drive look base tr s) # fst (direct drive look base trs (snd (direct_one drive look base tr s))),
      snd (direct drive look base trs (snd (direct_one drive look base tr s))))"
  by (simp add: split_beta map_prod_def)

text \<open>One round of the first loop: the state behind it does not depend on the return code.\<close>

lemma gather_one_state: "gather_one base tr rc jk = (byte, rc', jk') \<Longrightarrow>
    \<exists>rc''. gather_one base tr 0 jk = (byte, rc'', jk')"
  by (auto simp: gather_one_def split: if_splits)

lemma gather_push:
  assumes "length (jk_pending jk) < USBBUFSIZE"
  obtains rc' where "gather base (tr # trs) rc jk = gather base trs rc' (jk_push base tr (trs = []) jk)"
proof -
  obtain byte rc1 jk1 where g: "gather_one base tr rc jk = (byte, rc1, jk1)"
    by (cases "gather_one base tr rc jk") auto
  from gather_one_state [OF g] obtain rc2 where "gather_one base tr 0 jk = (byte, rc2, jk1)" by blast
  with g assms have "gather base (tr # trs) rc jk = gather base trs rc1 (jk_push base tr (trs = []) jk)"
    by (simp add: jk_push_def)
  then show ?thesis by (rule that)
qed

lemma push_direct:
  assumes "\<And>b d. drive b (drive b d) = drive b d" "jk_settled drive (d, jk)"
  shows "jk_settled drive (d, jk_push base tr final jk)"
    and "snd (direct_one drive look base tr (jk_abs drive (d, jk)))
      = jk_abs drive (d, jk_push base tr final jk)"
    and "jk_samples (jk_push base tr final jk) = jk_samples jk"
    and "jk_pending (jk_push base tr final jk) = jk_pending jk \<or>
         (\<exists>b. jk_pending (jk_push base tr final jk) = jk_pending jk @ [b])"
  using assms read_write
  by (auto simp: jk_push_def gather_one_def jk_settled_def jk_abs_def direct_one_def is_read_def)

lemma gather_direct:
  assumes idem: "\<And>b d. drive b (drive b d) = drive b d"
    and "jk_settled drive (d, jk)" "length (jk_pending jk) + length trs \<le> USBBUFSIZE"
  shows "\<exists>rc' jk' bs. gather base trs rc jk = Inr (rc', jk') \<and> jk_pending jk' = jk_pending jk @ bs
    \<and> length bs \<le> length trs \<and> jk_samples jk' = jk_samples jk \<and> jk_settled drive (d, jk')
    \<and> snd (direct drive look base trs (jk_abs drive (d, jk))) = jk_abs drive (d, jk')"
  using assms(2-)
proof (induction trs arbitrary: rc jk)
  case Nil
  then show ?case by simp
next
  case (Cons tr trs)
  let ?jk = "jk_push base tr (trs = []) jk"
  note push = push_direct [where base = base and tr = tr and final = "trs = []",
      OF idem Cons.prems(1)]
  have "length (jk_pending jk) < USBBUFSIZE" using Cons.prems(2) by simp
  then obtain rc1 where g: "gather base (tr # trs) rc jk = gather base trs rc1 ?jk"
    by (rule gather_push)
  have "length (jk_pending ?jk) + length trs \<le> USBBUFSIZE"
    using push(4) Cons.prems(2) by auto
  from Cons.IH [OF push(1) this, of rc1] obtain rc' jk' bs where
    "gather base trs rc1 ?jk = Inr (rc', jk')" "jk_pending jk' = jk_pending ?jk @ bs"
    "length bs \<le> length trs" "jk_samples jk' = jk_samples ?jk" "jk_settled drive (d, jk')"
    "snd (direct drive look base trs (jk_abs drive (d, ?jk))) = jk_abs drive (d, jk')" by blast
  with g push(2-4) show ?case
    by (auto simp: direct_cons simp del: gather.simps direct.simps)
qed

text \<open>
  The second loop finds the sample behind every byte of the first: what it stores is what the port
  without buffers gives.
\<close>

lemma scatter_direct:
  assumes idem: "\<And>b d. drive b (drive b d) = drive b d"
    and "jk_settled drive (d, jk)" "length (jk_pending jk) + length trs < USBBUFSIZE"
    and "followed base (jk_write jk) trs" "gather base trs rc jk = Inr (rc', jk')"
    and "\<And>i. i \<le> length (jk_pending jk') \<Longrightarrow> sample i = look (fold drive (take i (jk_pending jk')) d)"
  shows "\<exists>rc''. scatter base sample trs (length (jk_pending jk)) (jk_write jk) rc2
    = Inr (rc'', fst (direct drive look base trs (jk_abs drive (d, jk))), jk_write jk')"
  using assms(2-)
proof (induction trs arbitrary: rc rc2 jk)
  case Nil
  then show ?case by simp
next
  case (Cons tr trs)
  let ?jk = "jk_push base tr (trs = []) jk"
  note push = push_direct [where base = base and tr = tr and final = "trs = []",
      OF idem Cons.prems(1)]
  have "length (jk_pending jk) < USBBUFSIZE" using Cons.prems(2) by simp
  then obtain rc1 where g: "gather base (tr # trs) rc jk = gather base trs rc1 ?jk"
    by (rule gather_push)
  have len: "length (jk_pending ?jk) + length trs < USBBUFSIZE"
    using push(4) Cons.prems(2) by auto
  have foll: "followed base (jk_write ?jk) trs"
    using Cons.prems(3) read_write
    by (auto simp: jk_push_def gather_one_def is_read_def split: if_splits)
  have rest: "gather base trs rc1 ?jk = Inr (rc', jk')" using Cons.prems(4) g by simp
  have IH: "\<exists>rc''. scatter base sample trs (length (jk_pending ?jk)) (jk_write ?jk) rc3
    = Inr (rc'', fst (direct drive look base trs (jk_abs drive (d, ?jk))), jk_write jk')" for rc3
    by (rule Cons.IH [OF push(1) len foll rest Cons.prems(5)])
  show ?case
  proof (cases "\<not> is_read tr \<and> tr_byte tr = jk_write jk \<and> trs \<noteq> []")
    case True
    have same: "?jk = jk"
      using True Cons.prems(1,3)
      by (auto simp: jk_push_def gather_one_def jk_settled_def)
    have one: "direct_one drive look base tr (jk_abs drive (d, jk)) = (tr, jk_abs drive (d, jk))"
      using True Cons.prems(1) by (auto simp: direct_one_def jk_abs_def jk_settled_def)
    from IH [of rc2] obtain rc'' where "scatter base sample trs (length (jk_pending jk)) (jk_write jk) rc2
      = Inr (rc'', fst (direct drive look base trs (jk_abs drive (d, jk))), jk_write jk')"
      unfolding same by blast
    with True one show ?thesis by (simp add: map_prod_def split_beta)
  next
    case False
    then have "\<exists>b. jk_pending ?jk = jk_pending jk @ [b]"
      using Cons.prems(1,3) by (auto simp: jk_push_def gather_one_def jk_settled_def split: if_splits)
    then obtain b where b: "jk_pending ?jk = jk_pending jk @ [b]" by blast
    obtain bs where bs: "jk_pending jk' = jk_pending ?jk @ bs"
      using gather_direct [where look = look and base = base and rc = rc1, OF idem push(1) less_imp_le [OF len]]
        rest by auto
    have "sample (Suc (length (jk_pending jk))) = look (snd (jk_abs drive (d, ?jk)))"
      using Cons.prems(5) [of "Suc (length (jk_pending jk))"] by (simp add: bs b jk_abs_def)
    then have at: "sample (Suc (length (jk_pending jk)))
        = look (snd (snd (direct_one drive look base tr (jk_abs drive (d, jk)))))"
      by (simp add: push(2))
    obtain byte w3 rc3 where s: "scatter_one base sample tr (Suc (length (jk_pending jk))) (jk_write jk) rc2
        = (byte, w3, rc3)" by (cases "scatter_one base sample tr (Suc (length (jk_pending jk))) (jk_write jk) rc2") auto
    have one: "direct_one drive look base tr (jk_abs drive (d, jk))
        = (tr\<lparr>tr_byte := byte\<rparr>, jk_abs drive (d, ?jk))"
      using s at push(2) by (auto simp: scatter_one_def direct_one_def jk_abs_def is_read_def
          read_write read_write [symmetric] split: if_splits)
    have w3: "w3 = jk_write ?jk"
      using s one by (auto simp: scatter_one_def jk_abs_def direct_one_def split: if_splits)
    from IH [of rc3] obtain rc'' where
      "scatter base sample trs (Suc (length (jk_pending jk))) w3 rc3
        = Inr (rc'', fst (direct drive look base trs (jk_abs drive (d, ?jk))), jk_write jk')"
      unfolding b w3 by auto
    moreover have "\<not> (\<not> is_read tr \<and> tr_byte tr = jk_write jk \<and> trs \<noteq> [])" using False by blast
    ultimately show ?thesis using s one Cons.prems(2)
      by (simp add: map_prod_def split_beta del: de_Morgan_conj not_not)
  qed
qed

section \<open>A whole block\<close>

lemma direct_no_read: "nread trs = 0 \<Longrightarrow> fst (direct drive look base trs s) = trs"
proof (induction trs arbitrary: s)
  case (Cons tr trs)
  then have "\<not> is_read tr" "nread trs = 0" by (auto simp: nread_def split: if_splits)
  then show ?case
    using Cons.IH by (simp add: direct_cons direct_one_def split_beta del: direct.simps)
qed simp

lemma must_write_fits:
  assumes "\<not> must_write trs jk" "length trs < USBBUFSIZE" "length (jk_pending jk) \<le> USBBUFSIZE"
  shows "length (jk_pending jk) + length trs \<le> USBBUFSIZE \<and> (0 < nread trs \<longrightarrow> jk_pending jk = [])"
proof -
  have "(of_nat USBBUFSIZE - of_nat (length trs) :: u64) = of_nat (USBBUFSIZE - length trs)"
    using assms(2) by (simp add: of_nat_diff)
  then have "(of_nat (length (jk_pending jk)) :: u64) \<le> of_nat (USBBUFSIZE - length trs)"
    using assms(1) by (simp add: must_write_def not_less)
  then have "length (jk_pending jk) \<le> USBBUFSIZE - length trs"
    using assms(3) by (simp add: word_le_nat_alt unat_of_nat USBBUFSIZE_def)
  then show ?thesis using assms(1,2) by (auto simp: must_write_def)
qed

lemma latency_quiet:
  assumes "bitbang chip drive look" "jtagkey_latency chip junk n (d, jk) = (rc, d', jk')"
  shows "d' = d \<and> jk' = jk\<lparr>jk_latency := jk_latency jk'\<rparr>"
proof -
  have "snd (ft_call chip (Set_latency n) d) = d" using assms(1) by (simp add: bitbang_def)
  then show ?thesis
    using assms(2) by (auto simp: jtagkey_latency_def split: if_splits prod.splits)
qed

lemma exchange_samples:
  assumes "bitbang chip drive look" "jk_exchange chip ws (d, jk) = Inr (d', jk')"
  shows "d' = fold drive ws d" "\<exists>ss. jk' = jk\<lparr>jk_samples := ss\<rparr>"
    and "\<And>i. i < length ws \<Longrightarrow> sample_at jk' i = look (fold drive (take i ws) d)"
  using assms by (auto simp: jk_exchange_def bitbang_def sample_at_def nth_append samples_nth)

lemma exchange_returns:
  "bitbang chip drive look \<Longrightarrow> \<exists>s'. jk_exchange chip ws s = Inr s'"
  by (cases s) (simp add: jk_exchange_def bitbang_def)

lemma flush_direct:
  assumes chip: "bitbang chip drive look"
    and "jk_settled drive s" "length (jk_pending (snd s)) \<le> USBBUFSIZE" "length trs < USBBUFSIZE"
  shows "\<exists>d jk. flush_pending chip junk trs s = Inr (d, jk) \<and> jk_settled drive (d, jk)
    \<and> jk_abs drive (d, jk) = jk_abs drive s \<and> length (jk_pending jk) + length trs \<le> USBBUFSIZE
    \<and> (0 < nread trs \<longrightarrow> jk_pending jk = [])"
proof (cases "must_write trs (snd s)")
  case False
  with must_write_fits [OF False assms(4,3)] assms(2) show ?thesis
    by (cases s) (auto simp: flush_pending_def)
next
  case True
  obtain d jk where s: "s = (d, jk)" by (cases s)
  obtain rc d1 jk1 where l: "jtagkey_latency chip junk 2 s = (rc, d1, jk1)"
    by (cases "jtagkey_latency chip junk 2 s") auto
  from latency_quiet [OF chip l [unfolded s]] obtain m where
    q: "d1 = d" "jk1 = jk\<lparr>jk_latency := m\<rparr>" by blast
  from exchange_returns [OF chip] obtain d2 jk2 where
    x: "jk_exchange chip (jk_pending jk1) (d1, jk1) = Inr (d2, jk2)" by fastforce
  note e = exchange_samples [OF chip x]
  from e(2) obtain ss where "jk2 = jk1\<lparr>jk_samples := ss\<rparr>" by blast
  with True l x e(1) q assms(2,4) show ?thesis
    by (auto simp: flush_pending_def s jk_settled_def jk_abs_def)
qed

lemma transfer_direct:
  assumes chip: "bitbang chip drive look"
    and "jk_settled drive s" "length (jk_pending (snd s)) \<le> USBBUFSIZE" "length trs < USBBUFSIZE"
    and "nread trs = 0 \<or> followed base (jk_write (snd s)) trs"
  shows "\<exists>rc trs' s'. jtagkey_transfer chip junk base trs s = Inr (rc, trs', s')
    \<and> direct drive look base trs (jk_abs drive s) = (trs', jk_abs drive s')
    \<and> jk_settled drive s' \<and> length (jk_pending (snd s')) \<le> USBBUFSIZE"
proof -
  have idem: "\<And>b d. drive b (drive b d) = drive b d" using chip by (simp add: bitbang_def)
  from flush_direct [OF assms(1-4)] obtain d jk where
    f: "flush_pending chip junk trs s = Inr (d, jk)" "jk_settled drive (d, jk)"
      "jk_abs drive (d, jk) = jk_abs drive s" "length (jk_pending jk) + length trs \<le> USBBUFSIZE"
      "0 < nread trs \<longrightarrow> jk_pending jk = []" by blast
  have w: "jk_write jk = jk_write (snd s)" using f(3) by (cases s) (simp add: jk_abs_def)
  from gather_direct [where look = look and base = base and rc = 0, OF idem f(2,4)]
  obtain rc1 jk1 bs where
    g: "gather base trs 0 jk = Inr (rc1, jk1)" "jk_pending jk1 = jk_pending jk @ bs"
      "length bs \<le> length trs" "jk_settled drive (d, jk1)"
      "snd (direct drive look base trs (jk_abs drive (d, jk))) = jk_abs drive (d, jk1)" by blast
  show ?thesis
  proof (cases "nread trs = 0")
    case True
    have "direct drive look base trs (jk_abs drive s) = (trs, jk_abs drive (d, jk1))"
      using g(5) f(3) direct_no_read [OF True, of drive look base "jk_abs drive s"]
      by (metis prod.collapse)
    with True f g show ?thesis by (simp add: jtagkey_transfer_def)
  next
    case False
    then have pend: "jk_pending jk = []" using f(5) by simp
    have foll: "followed base (jk_write jk) trs" using False assms(5) w by simp
    let ?ws = "jk_pending jk1 @ [jk_data jk1]"
    obtain rc2 d2 jk2 where l: "jtagkey_latency chip junk 1 (d, jk1) = (rc2, d2, jk2)"
      by (cases "jtagkey_latency chip junk 1 (d, jk1)") auto
    from latency_quiet [OF chip l] obtain m where
      q: "d2 = d" "jk2 = jk1\<lparr>jk_latency := m\<rparr>" by blast
    from exchange_returns [OF chip] obtain d3 jk3 where
      x: "jk_exchange chip ?ws (d2, jk2) = Inr (d3, jk3)" by fastforce
    note e = exchange_samples [OF chip x]
    from e(2) obtain ss where jk3: "jk3 = jk2\<lparr>jk_samples := ss\<rparr>" by blast
    have smp: "sample_at jk3 i = look (fold drive (take i (jk_pending jk1)) d)"
      if "i \<le> length (jk_pending jk1)" for i
      using e(3) [of i] that by (simp add: q)
    obtain rc3 where sc: "scatter base (sample_at jk3) trs 0 (jk_write jk) rc1
        = Inr (rc3, fst (direct drive look base trs (jk_abs drive (d, jk))), jk_write jk1)"
      using scatter_direct [where drive = drive and d = d and look = look and jk = jk and trs = trs
          and base = base and sample = "sample_at jk3" and jk' = jk1 and rc = 0 and rc' = rc1
          and ?rc2.0 = rc1, OF idem f(2) _ foll g(1) smp] pend assms(4) by fastforce
    have "length (jk_pending jk1) < USBBUFSIZE" using g(2,3) pend assms(4) by simp
    then have t: "jtagkey_transfer chip junk base trs s
        = Inr (rc3, fst (direct drive look base trs (jk_abs drive s)), d3,
            jk3\<lparr>jk_write := jk_write jk1, jk_pending := []\<rparr>)"
      using False f(1,3) g(1) l x sc by (simp add: jtagkey_transfer_def Let_def)
    have "jk_abs drive (d3, jk3\<lparr>jk_write := jk_write jk1, jk_pending := []\<rparr>) = jk_abs drive (d, jk1)
      \<and> jk_settled drive (d3, jk3\<lparr>jk_write := jk_write jk1, jk_pending := []\<rparr>)"
      using g(4) e(1) q jk3 by (auto simp: jk_abs_def jk_settled_def)
    with t g(5) f(3) show ?thesis by (auto simp: prod_eq_iff)
  qed
qed

section \<open>Blocks one after the other\<close>

fun run_blocks ::
    "'d ftdi \<Rightarrow> int \<Rightarrow> 32 word \<Rightarrow> wd_transfer list list \<Rightarrow> 'd \<times> jtagkey \<Rightarrow>
       jk_fault + (wd_transfer list list \<times> 'd \<times> jtagkey)" where
  "run_blocks chip junk base [] s = Inr ([], s)"
| "run_blocks chip junk base (trs # blocks) s =
     (case jtagkey_transfer chip junk base trs s of
        Inl e \<Rightarrow> Inl e
      | Inr (_, trs', s') \<Rightarrow> map_sum id (map_prod (Cons trs') id) (run_blocks chip junk base blocks s'))"

definition last_value :: "32 word \<Rightarrow> u8 \<Rightarrow> wd_transfer list \<Rightarrow> u8" where
  "last_value base w trs =
     foldl (\<lambda>w tr. if port_at base 0 (tr_port tr) \<and> tr_cmd tr = PP_WRITE then tr_byte tr else w) w trs"

fun blocks_ok :: "32 word \<Rightarrow> u8 \<Rightarrow> wd_transfer list list \<Rightarrow> bool" where
  "blocks_ok base w [] = True"
| "blocks_ok base w (trs # blocks) \<longleftrightarrow> length trs < USBBUFSIZE
     \<and> (nread trs = 0 \<or> followed base w trs) \<and> blocks_ok base (last_value base w trs) blocks"

lemma direct_value: "fst (snd (direct drive look base trs s)) = last_value base (fst s) trs"
proof (induction trs arbitrary: s)
  case (Cons tr trs)
  have "fst (snd (direct_one drive look base tr s)) = last_value base (fst s) [tr]"
    by (auto simp: direct_one_def last_value_def split: prod.splits)
  with Cons show ?case by (simp add: direct_cons last_value_def del: direct.simps)
qed (simp add: last_value_def)

lemma direct_append:
  "direct drive look base (xs @ ys) s =
     (fst (direct drive look base xs s) @ fst (direct drive look base ys (snd (direct drive look base xs s))),
      snd (direct drive look base ys (snd (direct drive look base xs s))))"
  by (induction xs arbitrary: s) (simp_all add: direct_cons del: direct.simps(2))

lemma run_blocks_direct:
  assumes "bitbang chip drive look" "jk_settled drive s" "length (jk_pending (snd s)) \<le> USBBUFSIZE"
    and "blocks_ok base (jk_write (snd s)) blocks"
  shows "\<exists>out s'. run_blocks chip junk base blocks s = Inr (out, s')
    \<and> direct drive look base (concat blocks) (jk_abs drive s) = (concat out, jk_abs drive s')"
  using assms(2-)
proof (induction blocks arbitrary: s)
  case Nil
  then show ?case by simp
next
  case (Cons trs blocks)
  have ok: "length trs < USBBUFSIZE" "nread trs = 0 \<or> followed base (jk_write (snd s)) trs"
    using Cons.prems(3) by auto
  from transfer_direct [OF assms(1) Cons.prems(1,2) ok] obtain rc trs' s1 where
    t: "jtagkey_transfer chip junk base trs s = Inr (rc, trs', s1)"
      "direct drive look base trs (jk_abs drive s) = (trs', jk_abs drive s1)"
      "jk_settled drive s1" "length (jk_pending (snd s1)) \<le> USBBUFSIZE" by blast
  have "jk_write (snd s1) = last_value base (jk_write (snd s)) trs"
    using direct_value [of drive look base trs "jk_abs drive s"] t(2)
    by (simp add: jk_abs_def split: prod.splits)
  with Cons.prems(3) have "blocks_ok base (jk_write (snd s1)) blocks" by simp
  from Cons.IH [OF t(3,4) this] obtain out s' where
    "run_blocks chip junk base blocks s1 = Inr (out, s')"
    "direct drive look base (concat blocks) (jk_abs drive s1) = (concat out, jk_abs drive s')" by blast
  with t(1,2) show ?case by (simp add: direct_append)
qed

text \<open>
  The cable is a parallel port: with a chip in the synchronous mode, blocks of transfers sent
  one after the other to the freshly loaded library, with the writes combined, the unchanged bytes
  left out, the samples collected by the reader and handed back by the second loop, give the bytes
  that a port without buffers gives for the same transfers, and leave the chip, once what is
  pending has been written, where that port leaves it. No buffer is overrun and no reader waits.
  The blocks must be shorter than the buffer, and those with reads such that behind a byte of the
  pins that does not change stands a value that does not change.
\<close>

theorem cable_plays_port:
  assumes "bitbang chip drive look" "drive 0 d = d" "blocks_ok base 0 blocks"
  shows "\<exists>out s'. run_blocks chip junk base blocks (d, jk_start) = Inr (out, s')
    \<and> direct drive look base (concat blocks) (0, d) = (concat out, jk_abs drive s')"
proof -
  have "jk_settled drive (d, jk_start)" "jk_abs drive (d, jk_start) = (0, d)"
    using assms(2) by (simp_all add: jk_settled_def jk_start_def jk_abs_def pins_def bit_of_def)
  then show ?thesis
    using run_blocks_direct [OF assms(1), of "(d, jk_start)" base blocks junk] assms(3)
    by (simp add: jk_start_def)
qed

text \<open>A chip with a wire from \<^verbatim>\<open>TDI\<close> to \<^verbatim>\<open>TDO\<close>.\<close>

definition wire_look :: "u8 \<Rightarrow> u8" where
  "wire_look d = (if bit_of 0x02 d then or d 0x04 else d)"

definition wire_chip :: "u8 ftdi" where
  "wire_chip = \<lparr>ft_call = \<lambda>op d. (0, d),
     ft_exchange = \<lambda>ws d. (samples (\<lambda>b d. b) wire_look ws d, fold (\<lambda>b d. b) ws d)\<rparr>"

lemma wire_bitbang: "bitbang wire_chip (\<lambda>b d. b) wire_look"
  by (simp add: bitbang_def wire_chip_def)

definition demo_blocks :: "wd_transfer list list" where
  "demo_blocks = [[\<lparr>tr_port = 0x378, tr_cmd = PP_WRITE, tr_byte = 0x10\<rparr>],
     [\<lparr>tr_port = 0x378, tr_cmd = PP_WRITE, tr_byte = 0x11\<rparr>,
      \<lparr>tr_port = 0x379, tr_cmd = PP_READ, tr_byte = 0\<rparr>]]"

lemma cable_plays_port_witness:
  "\<exists>out s'. run_blocks wire_chip 7 0x378 demo_blocks (0, jk_start) = Inr (out, s')
     \<and> direct (\<lambda>b d. b) wire_look 0x378 (concat demo_blocks) (0, 0) = (concat out, jk_abs (\<lambda>b d. b) s')"
proof (rule cable_plays_port [OF wire_bitbang])
  show "blocks_ok 0x378 0 demo_blocks"
    by (simp add: demo_blocks_def nread_def is_read_def PP_READ_def PP_WRITE_def USBBUFSIZE_def
        last_value_def port_at_def pins_def bit_of_def)
qed simp

section \<open>A value the pins do not show\<close>

lemma nothing_pending: "jk_pending jk = [] \<Longrightarrow> length trs \<le> 2 \<Longrightarrow> \<not> must_write trs jk"
  by (auto simp: must_write_def USBBUFSIZE_def le_Suc_eq numeral_2_eq_2 length_Suc_conv)

text \<open>
  A write that changes only bits without a pin, such as \<^verbatim>\<open>PROG\<close>, followed by a read of the
  status port in one block: the first loop leaves its byte out, the second one counts it, and the
  byte read is made from a sample of an earlier block (or from zero), not from the pins.
\<close>

theorem unmapped_write_reads_stale:
  assumes "bitbang chip drive look" "jk_pending jk = []" "jk_data jk = pins v" "v \<noteq> jk_write jk"
    and "port_at base 0 p" "port_at base 1 q"
  shows "\<exists>s'. jtagkey_transfer chip junk base
      [\<lparr>tr_port = p, tr_cmd = PP_WRITE, tr_byte = v\<rparr>, \<lparr>tr_port = q, tr_cmd = PP_READ, tr_byte = b\<rparr>] (d, jk)
    = Inr (0, [\<lparr>tr_port = p, tr_cmd = PP_WRITE, tr_byte = v\<rparr>,
               \<lparr>tr_port = q, tr_cmd = PP_READ, tr_byte = status_byte v (sample_at jk 2)\<rparr>], s')"
proof -
  let ?wr = "\<lparr>tr_port = p, tr_cmd = PP_WRITE, tr_byte = v\<rparr>"
  let ?rd = "\<lparr>tr_port = q, tr_cmd = PP_READ, tr_byte = b\<rparr>"
  let ?jk1 = "jk\<lparr>jk_write := v, jk_pending := [pins v]\<rparr>"
  have q: "\<not> port_at base 0 q" by (rule ports_differ [OF assms(5,6)])
  have r: "is_read ?rd" "\<not> is_read ?wr" "nread [?wr, ?rd] = 1"
    using read_write by (simp_all add: is_read_def nread_def)
  have f: "flush_pending chip junk [?wr, ?rd] (d, jk) = Inr (d, jk)"
    using nothing_pending [OF assms(2), of "[?wr, ?rd]"] by (simp add: flush_pending_def)
  have g: "gather base [?wr, ?rd] 0 jk = Inr (0, ?jk1)"
    using assms(2,3,5) q r by (simp add: gather_one_def USBBUFSIZE_def)
  obtain rc2 d2 jk2 where l: "jtagkey_latency chip junk 1 (d, ?jk1) = (rc2, d2, jk2)"
    by (cases "jtagkey_latency chip junk 1 (d, ?jk1)") auto
  from latency_quiet [OF assms(1) l] obtain m where jk2: "jk2 = ?jk1\<lparr>jk_latency := m\<rparr>" by blast
  define ss where "ss = [look d2, look (drive (pins v) d2)]"
  have ss: "length ss = 2" by (simp add: ss_def)
  obtain d3 where x: "jk_exchange chip [pins v, pins v] (d2, jk2)
      = Inr (d3, jk2\<lparr>jk_samples := ss @ drop 2 (jk_samples jk2)\<rparr>)"
    using assms(1) by (simp add: jk_exchange_def bitbang_def ss_def numeral_2_eq_2)
  have "sample_at (jk2\<lparr>jk_samples := ss @ drop 2 (jk_samples jk2)\<rparr>) 2 = sample_at jk 2"
    using ss by (auto simp: sample_at_def jk2 nth_append)
  then have "scatter base (sample_at (jk2\<lparr>jk_samples := ss @ drop 2 (jk_samples jk2)\<rparr>)) [?wr, ?rd] 0 (jk_write jk) 0
      = Inr (0, [?wr, ?rd\<lparr>tr_byte := status_byte v (sample_at jk 2)\<rparr>], v)"
    using assms(4-6) q r by (simp add: scatter_one_def USBBUFSIZE_def numeral_2_eq_2 [symmetric])
  with f g l x r assms(3) show ?thesis
    by (simp add: jtagkey_transfer_def USBBUFSIZE_def)
qed

lemma unmapped_write_reads_stale_witness:
  "\<exists>s'. jtagkey_transfer wire_chip 7 0x378
      [\<lparr>tr_port = 0x378, tr_cmd = PP_WRITE, tr_byte = 0x10\<rparr>, \<lparr>tr_port = 0x379, tr_cmd = PP_READ, tr_byte = 0\<rparr>]
      (0x02, jk_start)
    = Inr (0, [\<lparr>tr_port = 0x378, tr_cmd = PP_WRITE, tr_byte = 0x10\<rparr>,
               \<lparr>tr_port = 0x379, tr_cmd = PP_READ, tr_byte = 0x80\<rparr>], s')"
  using unmapped_write_reads_stale [where jk = jk_start and v = "0x10" and base = "0x378"
      and p = "0x378" and q = "0x379" and junk = 7 and b = 0 and d = "0x02", OF wire_bitbang]
  by (simp add: jk_start_def pins_def bit_of_def port_at_def status_byte_def sample_at_def)

section \<open>Opening the cable\<close>

definition after_calls :: "'d ftdi \<Rightarrow> ftdi_op list \<Rightarrow> 'd \<Rightarrow> 'd" where
  "after_calls chip ops d = fold (\<lambda>op d. snd (ft_call chip op d)) ops d"

lemma ftdi_calls_good:
  "(\<And>op d. fst (ft_call chip op d) = 0) \<Longrightarrow> ftdi_calls chip ops d = (0, after_calls chip ops d)"
  by (induction ops arbitrary: d) (auto simp: after_calls_def split_beta)

lemma jtagkey_open_good:
  assumes "\<And>op d. fst (ft_call chip op d) = 0"
  shows "jtagkey_open chip junk vid pid (d, jk) =
    (let start = [Ftdi_init, Usb_open vid pid, Usb_reset, Set_interface, Write_chunksize, Read_chunksize];
         mode = [Write_byte 0, Set_bitmode 0x1B, Set_baudrate 100000, Purge_buffers]
     in if jk_latency jk \<noteq> 1
        then (0xFF, after_calls chip (start @ [Set_latency 1] @ mode) d, jk\<lparr>jk_latency := 1\<rparr>)
        else if junk = 0 then (0xFF, after_calls chip (start @ mode) d, jk)
        else (if 0 < junk then 0xFF else junk, after_calls chip start d, jk))"
proof -
  have "ft_call chip op d = (0, snd (ft_call chip op d))" for op d using assms [of op d] by (metis prod.collapse)
  then show ?thesis
    by (simp add: jtagkey_open_def jtagkey_init_def jtagkey_latency_def ftdi_calls_good assms
        after_calls_def split_beta)
qed

text \<open>
  With a chip that accepts every call the first open makes the whole sequence and gives the
  handle 0xFF. When the latency of the last session is still the one wanted, the uninitialised
  return code decides: unless it is 0 the bit-bang mode is never set, and a positive one still
  gives the handle.
\<close>

theorem open_depends_on_latency:
  assumes "\<And>op d. fst (ft_call chip op d) = 0"
  shows "jtagkey_open chip junk vid pid (d, jk) =
    (let start = [Ftdi_init, Usb_open vid pid, Usb_reset, Set_interface, Write_chunksize, Read_chunksize];
         mode = [Write_byte 0, Set_bitmode 0x1B, Set_baudrate 100000, Purge_buffers]
     in if jk_latency jk \<noteq> 1
        then (0xFF, after_calls chip (start @ [Set_latency 1] @ mode) d, jk\<lparr>jk_latency := 1\<rparr>)
        else if junk = 0 then (0xFF, after_calls chip (start @ mode) d, jk)
        else (if 0 < junk then 0xFF else junk, after_calls chip start d, jk))"
  by (rule jtagkey_open_good [OF assms])

lemma open_depends_on_latency_witness:
  "jtagkey_open wire_chip 7 0x403 0xCFF8 (0, jk_start\<lparr>jk_latency := 1\<rparr>) =
     (0xFF, 0, jk_start\<lparr>jk_latency := 1\<rparr>)"
  by (subst open_depends_on_latency) (simp_all add: wire_chip_def after_calls_def jk_start_def)

end
