(* ===== verification/Usbdrv_Jtagmon.thy ===== *)
theory Usbdrv_Jtagmon
  imports Leap_Prelude
begin

text \<open>
  \<^verbatim>\<open>drivers/linux/Xilinx_Platform_Cable/usb-driver/jtagmon.c\<close>: a monitor of the test access port
  controller. It is called with the clock, mode and data lines after every write and prints what the
  controller does at the rising edges of the clock.
\<close>

section \<open>The monitor\<close>

datatype tap_state = TEST_LOGIC_RESET | RUN_TEST_IDLE | SELECT_DR | CAPTURE_DR | SHIFT_DR | EXIT1_DR
  | PAUSE_DR | EXIT2_DR | UPDATE_DR | SELECT_IR | CAPTURE_IR | SHIFT_IR | EXIT1_IR | PAUSE_IR
  | EXIT2_IR | UPDATE_IR

fun tap_next :: "tap_state \<Rightarrow> bool \<Rightarrow> tap_state" where
  "tap_next TEST_LOGIC_RESET tms = (if tms then TEST_LOGIC_RESET else RUN_TEST_IDLE)"
| "tap_next RUN_TEST_IDLE tms = (if tms then SELECT_DR else RUN_TEST_IDLE)"
| "tap_next SELECT_DR tms = (if tms then SELECT_IR else CAPTURE_DR)"
| "tap_next CAPTURE_DR tms = (if tms then EXIT1_DR else SHIFT_DR)"
| "tap_next SHIFT_DR tms = (if tms then EXIT1_DR else SHIFT_DR)"
| "tap_next EXIT1_DR tms = (if tms then UPDATE_DR else PAUSE_DR)"
| "tap_next PAUSE_DR tms = (if tms then EXIT2_DR else PAUSE_DR)"
| "tap_next EXIT2_DR tms = (if tms then UPDATE_DR else SHIFT_DR)"
| "tap_next UPDATE_DR tms = (if tms then SELECT_DR else RUN_TEST_IDLE)"
| "tap_next SELECT_IR tms = (if tms then TEST_LOGIC_RESET else CAPTURE_IR)"
| "tap_next CAPTURE_IR tms = (if tms then EXIT1_IR else SHIFT_IR)"
| "tap_next SHIFT_IR tms = (if tms then EXIT1_IR else SHIFT_IR)"
| "tap_next EXIT1_IR tms = (if tms then UPDATE_IR else PAUSE_IR)"
| "tap_next PAUSE_IR tms = (if tms then EXIT2_IR else PAUSE_IR)"
| "tap_next EXIT2_IR tms = (if tms then UPDATE_IR else SHIFT_IR)"
| "tap_next UPDATE_IR tms = (if tms then SELECT_DR else RUN_TEST_IDLE)"

fun state_text :: "tap_state \<Rightarrow> string" where
  "state_text TEST_LOGIC_RESET = ''Test Logic Reset''"
| "state_text RUN_TEST_IDLE = ''Run-Test / Idle''"
| "state_text SELECT_DR = ''Select-DR''"
| "state_text CAPTURE_DR = ''Capture-DR''"
| "state_text SHIFT_DR = ''Shift-DR''"
| "state_text EXIT1_DR = ''Exit1-DR''"
| "state_text PAUSE_DR = ''Pause-DR''"
| "state_text EXIT2_DR = ''Exit2-DR''"
| "state_text UPDATE_DR = ''Update-DR''"
| "state_text SELECT_IR = ''Select-IR''"
| "state_text CAPTURE_IR = ''Capture-IR''"
| "state_text SHIFT_IR = ''Shift-IR''"
| "state_text EXIT1_IR = ''Exit1-IR''"
| "state_text PAUSE_IR = ''Pause-IR''"
| "state_text EXIT2_IR = ''Exit2-IR''"
| "state_text UPDATE_IR = ''Update-IR''"

record monitor =
  jm_tck :: u8
  jm_written :: bool
  jm_state :: tap_state
  jm_text :: string

definition monitor_start :: monitor where
  "monitor_start = \<lparr>jm_tck = 1, jm_written = False, jm_state = TEST_LOGIC_RESET, jm_text = ''Test Logic Reset''\<rparr>"

text \<open>A call gives what it prints; a line of data bits is ended before a transition is printed.\<close>

definition jtagmon :: "u8 \<times> u8 \<times> u8 \<Rightarrow> monitor \<Rightarrow> string \<times> monitor" where
  "jtagmon lines m =
     (case lines of (tck, tms, tdi) \<Rightarrow>
        if jm_tck m = 0 \<and> tck \<noteq> 0
        then let state = tap_next (jm_state m) (tms \<noteq> 0); shown = state_text state in
             if jm_state m \<noteq> state
             then ((if jm_written m then [CHR 0x0A] else [])
                     @ ''TAP state transition from '' @ jm_text m @ '' to '' @ shown @ [CHR 0x0A],
                   \<lparr>jm_tck = tck, jm_written = False, jm_state = state, jm_text = shown\<rparr>)
             else ((if tdi \<noteq> 0 then ''1'' else ''0''),
                   \<lparr>jm_tck = tck, jm_written = True, jm_state = state, jm_text = shown\<rparr>)
        else ([], m\<lparr>jm_tck := tck\<rparr>))"

fun watch :: "(u8 \<times> u8 \<times> u8) list \<Rightarrow> monitor \<Rightarrow> string \<times> monitor" where
  "watch [] m = ([], m)"
| "watch (l # ls) m = (case jtagmon l m of (s, m') \<Rightarrow> map_prod ((@) s) id (watch ls m'))"

section \<open>Rising edges\<close>

text \<open>The mode line at the rising edges of the clock.\<close>

fun edges :: "u8 \<Rightarrow> (u8 \<times> u8 \<times> u8) list \<Rightarrow> bool list" where
  "edges last_tck [] = []"
| "edges last_tck ((tck, tms, tdi) # ls) = (if last_tck = 0 \<and> tck \<noteq> 0 then [tms \<noteq> 0] else []) @ edges tck ls"

lemma watch_edges:
  "jm_state (snd (watch ls m)) = foldl tap_next (jm_state m) (edges (jm_tck m) ls)
    \<and> (jm_text m = state_text (jm_state m) \<longrightarrow>
         jm_text (snd (watch ls m)) = state_text (jm_state (snd (watch ls m))))"
proof (induction ls arbitrary: m)
  case (Cons l ls)
  obtain tck tms tdi where l: "l = (tck, tms, tdi)" by (cases l) auto
  show ?case
    using Cons [of "snd (jtagmon l m)"] by (auto simp: jtagmon_def l Let_def split_beta)
qed simp

lemma five_ones: "foldl tap_next s [True, True, True, True, True] = TEST_LOGIC_RESET"
  by (cases s) simp_all

text \<open>
  However the lines are driven, the monitor is in the state the controller reaches from
  Test-Logic-Reset through the mode line at the rising edges of the clock, the text it prints next
  names that state, and five edges with the mode line high bring it back to Test-Logic-Reset.
\<close>

theorem monitor_follows_clock:
  "jm_state (snd (watch ls monitor_start)) = foldl tap_next TEST_LOGIC_RESET (edges 1 ls)
    \<and> jm_text (snd (watch ls monitor_start)) = state_text (jm_state (snd (watch ls monitor_start)))
    \<and> (\<forall>before. edges 1 ls = before @ [True, True, True, True, True] \<longrightarrow>
         jm_state (snd (watch ls monitor_start)) = TEST_LOGIC_RESET)"
  using watch_edges [of ls monitor_start] five_ones by (simp add: monitor_start_def)

lemma monitor_follows_clock_witness:
  "let ls = concat (replicate 5 [(0, 4, 0), (2, 4, 0)]) in
     edges 1 ls = [] @ [True, True, True, True, True]
     \<and> jm_state (snd (watch ls monitor_start)) = TEST_LOGIC_RESET"
proof -
  let ?ls = "concat (replicate 5 [(0, 4, 0), (2, 4, 0)]) :: (u8 \<times> u8 \<times> u8) list"
  have "edges 1 ?ls = [] @ [True, True, True, True, True]" by code_simp
  then show ?thesis using monitor_follows_clock [of ?ls] unfolding Let_def by blast
qed

end
