(* ===== verification/Usbdrv_Info.thy ===== *)
theory Usbdrv_Info
  imports Leap_Prelude
begin

text \<open>
  \<^verbatim>\<open>usb_deviceinfo\<close> of \<^verbatim>\<open>usb-driver.c\<close>: the descriptors of a device laid out in one buffer,
  with pointers from one structure to the next. A device is what libusb found: the counts
  \<^verbatim>\<open>bNumConfigurations\<close>, \<^verbatim>\<open>bNumInterfaces\<close>, \<^verbatim>\<open>num_altsetting\<close> and \<^verbatim>\<open>bNumEndpoints\<close> are the
  lengths of its lists. The sizes are those of a 64-bit build.
\<close>

section \<open>What libusb found\<close>

record usb_endpoint =
  en_length :: u8
  en_type :: u8
  en_address :: u8
  en_attributes :: u8
  en_max_packet :: u16
  en_interval :: u8

record usb_alt =
  al_length :: u8
  al_type :: u8
  al_interface :: u8
  al_setting :: u8
  al_class :: u8
  al_subclass :: u8
  al_protocol :: u8
  al_string :: u8
  al_endpoints :: "usb_endpoint list"

type_synonym usb_interface = "usb_alt list"

record usb_config =
  co_length :: u8
  co_type :: u8
  co_total :: u16
  co_value :: u8
  co_string :: u8
  co_attributes :: u8
  co_power :: u8
  co_interfaces :: "usb_interface list"

record usb_device =
  de_type :: u8
  de_usb :: u16
  de_class :: u8
  de_subclass :: u8
  de_protocol :: u8
  de_max_packet0 :: u8
  de_vendor :: u16
  de_product :: u16
  de_release :: u16
  de_manufacturer :: u8
  de_product_name :: u8
  de_serial :: u8
  de_configs :: "usb_config list"

section \<open>Stores into the buffer\<close>

text \<open>A store: its offset in the buffer, its width in bytes, a number or the offset pointed to.\<close>

datatype info_value = Number u64 | Pointer nat

type_synonym info_store = "nat \<times> nat \<times> info_value"

definition number :: "nat \<Rightarrow> nat \<Rightarrow> 'a::len word \<Rightarrow> info_store" where
  "number off n v = (off, n, Number (ucast v))"

definition link_to :: "nat \<Rightarrow> nat \<Rightarrow> info_store" where
  "link_to off to = (off, 8, Pointer to)"

definition INFO_SIZE :: nat where "INFO_SIZE = 320"
definition CONFIG_SIZE :: nat where "CONFIG_SIZE = 32"
definition INTERFACE_SIZE :: nat where "INTERFACE_SIZE = 24"
definition ALT_SIZE :: nat where "ALT_SIZE = 32"
definition ENDPOINT_SIZE :: nat where "ENDPOINT_SIZE = 8"
definition PIPE_SIZE :: nat where "PIPE_SIZE = 40"

lemmas info_sizes = INFO_SIZE_def CONFIG_SIZE_def INTERFACE_SIZE_def ALT_SIZE_def ENDPOINT_SIZE_def
  PIPE_SIZE_def

definition device_stores :: "usb_device \<Rightarrow> info_store list" where
  "device_stores dev =
     [number 0 1 (18 :: u8), number 1 1 (de_type dev), number 2 2 (de_usb dev), number 4 1 (de_class dev),
      number 5 1 (de_subclass dev), number 6 1 (de_protocol dev), number 7 1 (de_max_packet0 dev),
      number 8 2 (de_vendor dev), number 10 2 (de_product dev), number 12 2 (de_release dev),
      number 14 1 (de_manufacturer dev), number 15 1 (de_product_name dev), number 16 1 (de_serial dev),
      number 17 1 (of_nat (length (de_configs dev)) :: u8),
      number 24 8 (0 :: u64), number 32 8 (de_max_packet0 dev), number 40 8 (0 :: u64),
      number 48 8 (3 :: u64), number 56 8 (0 :: u64)]"

definition config_stores :: "nat \<Rightarrow> usb_config \<Rightarrow> info_store list" where
  "config_stores off cfg =
     [link_to 64 off, link_to 72 off,
      number off 1 (co_length cfg), number (off + 1) 1 (co_type cfg), number (off + 2) 2 (co_total cfg),
      number (off + 4) 1 (of_nat (length (co_interfaces cfg)) :: u8), number (off + 5) 1 (co_value cfg),
      number (off + 6) 1 (co_string cfg), number (off + 7) 1 (co_attributes cfg),
      number (off + 8) 1 (co_power cfg), number (off + 16) 8 (of_nat (length (co_interfaces cfg)) :: u64)]"

definition endpoint_stores :: "nat \<Rightarrow> usb_endpoint \<Rightarrow> info_store list" where
  "endpoint_stores off e =
     [number off 1 (en_length e), number (off + 1) 1 (en_type e), number (off + 2) 1 (en_address e),
      number (off + 3) 1 (en_attributes e), number (off + 4) 2 (en_max_packet e),
      number (off + 6) 1 (en_interval e)]"

text \<open>The macro for the packet size multiplies in \<^verbatim>\<open>int\<close> and cuts to 16 bits.\<close>

definition max_packet_size :: "u16 \<Rightarrow> u16" where
  "max_packet_size x = and x 0x7FF * (1 + drop_bit 11 (and x 0x1800))"

definition pipe_type :: "usb_endpoint \<Rightarrow> u8" where
  "pipe_type e = and (en_attributes e) 0x03"

definition pipe_direction :: "usb_endpoint \<Rightarrow> u64" where
  "pipe_direction e = (if pipe_type e = 0 then 3 else if and (en_address e) 0x80 \<noteq> 0 then 1 else 2)"

definition pipe_stores :: "nat \<Rightarrow> usb_endpoint \<Rightarrow> info_store list" where
  "pipe_stores off e =
     [number off 8 (en_address e), number (off + 8) 8 (max_packet_size (en_max_packet e)),
      number (off + 16) 8 (pipe_type e), number (off + 24) 8 (pipe_direction e),
      number (off + 32) 8 (en_interval e)]"

definition alt_stores :: "nat \<Rightarrow> usb_alt \<Rightarrow> info_store list" where
  "alt_stores off a =
     [number off 1 (al_length a), number (off + 1) 1 (al_type a), number (off + 2) 1 (al_interface a),
      number (off + 3) 1 (al_setting a), number (off + 4) 1 (of_nat (length (al_endpoints a)) :: u8),
      number (off + 5) 1 (al_class a), number (off + 6) 1 (al_subclass a), number (off + 7) 1 (al_protocol a),
      number (off + 8) 1 (al_string a)]"

section \<open>The loops\<close>

text \<open>
  Every loop takes the length so far and gives the new one with the stores it made; without a
  buffer there are none, and the inner loops are a product.
\<close>

fun each_at :: "nat \<Rightarrow> (nat \<Rightarrow> 'a \<Rightarrow> info_store list) \<Rightarrow> nat \<Rightarrow> 'a list \<Rightarrow> nat \<times> info_store list" where
  "each_at n f len [] = (len, [])"
| "each_at n f len (x # xs) = map_prod id ((@) (f len x)) (each_at n f (len + n) xs)"

definition alt_block :: "bool \<Rightarrow> nat \<Rightarrow> usb_alt \<Rightarrow> nat \<times> info_store list" where
  "alt_block buf len a =
     (let es = al_endpoints a; len1 = len + ALT_SIZE in
      if buf
      then (case each_at ENDPOINT_SIZE endpoint_stores len1 es of
              (len2, s1) \<Rightarrow>
                case each_at PIPE_SIZE pipe_stores len2 es of
                  (len3, s2) \<Rightarrow>
                    (len3, alt_stores len a @ [link_to (len + 16) len1] @ s1 @ [link_to (len + 24) len2] @ s2))
      else (len1 + (ENDPOINT_SIZE + PIPE_SIZE) * length es, []))"

fun alt_blocks :: "bool \<Rightarrow> nat \<Rightarrow> usb_alt list \<Rightarrow> nat \<times> info_store list" where
  "alt_blocks buf len [] = (len, [])"
| "alt_blocks buf len (a # as) =
     (case alt_block buf len a of (len', s) \<Rightarrow> map_prod id ((@) s) (alt_blocks buf len' as))"

text \<open>The interface at \<^verbatim>\<open>off\<close> gets its two pointers to the first alternate setting.\<close>

fun interface_blocks :: "bool \<Rightarrow> nat \<Rightarrow> nat \<Rightarrow> usb_interface list \<Rightarrow> nat \<times> info_store list" where
  "interface_blocks buf off len [] = (len, [])"
| "interface_blocks buf off len (i # is) =
     (case alt_blocks buf len i of
        (len', s) \<Rightarrow>
          map_prod id ((@) ((if buf then [link_to off len, link_to (off + 16) len] else []) @ s))
            (interface_blocks buf (off + INTERFACE_SIZE) len' is))"

fun interface_heads :: "nat \<Rightarrow> nat \<Rightarrow> usb_interface list \<Rightarrow> info_store list" where
  "interface_heads j len [] = []"
| "interface_heads j len (i # is) =
     [link_to (80 + 8 * j) len, number (len + 8) 8 (of_nat (length i) :: u64)]
     @ interface_heads (Suc j) (len + INTERFACE_SIZE) is"

definition config_block :: "bool \<Rightarrow> nat \<Rightarrow> usb_config \<Rightarrow> nat \<times> info_store list" where
  "config_block buf len cfg =
     (let is = co_interfaces cfg; len1 = len + CONFIG_SIZE; len2 = len1 + INTERFACE_SIZE * length is in
      case interface_blocks buf len1 len2 is of
        (len3, s) \<Rightarrow>
          (len3, (if buf then config_stores len cfg @ [link_to (len + 24) len1] @ interface_heads 0 len1 is
                  else []) @ s))"

fun config_blocks :: "bool \<Rightarrow> nat \<Rightarrow> usb_config list \<Rightarrow> nat \<times> info_store list" where
  "config_blocks buf len [] = (len, [])"
| "config_blocks buf len (c # cs) =
     (case config_block buf len c of (len', s) \<Rightarrow> map_prod id ((@) s) (config_blocks buf len' cs))"

definition usb_deviceinfo :: "bool \<Rightarrow> usb_device \<Rightarrow> nat \<times> info_store list" where
  "usb_deviceinfo buf dev =
     map_prod id ((@) (if buf then device_stores dev else [])) (config_blocks buf INFO_SIZE (de_configs dev))"

section \<open>Lengths\<close>

lemma each_at_length: "fst (each_at n f len xs) = len + n * length xs"
  by (induction xs arbitrary: len) simp_all

lemma alt_block_length: "fst (alt_block buf len a) = len + ALT_SIZE + 48 * length (al_endpoints a)"
  using each_at_length [of ENDPOINT_SIZE endpoint_stores "len + ALT_SIZE" "al_endpoints a"]
    each_at_length [of PIPE_SIZE pipe_stores "len + ALT_SIZE + 8 * length (al_endpoints a)" "al_endpoints a"]
  by (simp add: alt_block_def Let_def split_beta ENDPOINT_SIZE_def PIPE_SIZE_def)

lemma alt_blocks_length: "fst (alt_blocks True len as) = fst (alt_blocks False len as)"
  by (induction as arbitrary: len) (simp_all add: split_beta alt_block_length)

lemma interface_blocks_length:
  "fst (interface_blocks True off len is) = fst (interface_blocks False off len is)"
  by (induction "is" arbitrary: off len) (simp_all add: split_beta alt_blocks_length)

lemma config_block_length: "fst (config_block True len c) = fst (config_block False len c)"
  by (simp add: config_block_def Let_def split_beta interface_blocks_length)

lemma config_blocks_length: "fst (config_blocks True len cs) = fst (config_blocks False len cs)"
  by (induction cs arbitrary: len) (simp_all add: split_beta config_block_length)

section \<open>Regions\<close>

text \<open>The stores of a block lie in a region and do not touch each other.\<close>

definition within :: "nat \<Rightarrow> nat \<Rightarrow> info_store list \<Rightarrow> bool" where
  "within lo hi s \<longleftrightarrow> (\<forall>x \<in> set s. lo \<le> fst x \<and> fst x + fst (snd x) \<le> hi)"

definition apart :: "info_store \<Rightarrow> info_store \<Rightarrow> bool" where
  "apart a b \<longleftrightarrow> fst a + fst (snd a) \<le> fst b \<or> fst b + fst (snd b) \<le> fst a"

abbreviation untouched :: "info_store list \<Rightarrow> bool" where
  "untouched \<equiv> sorted_wrt apart"

lemma within_simps [simp]:
  "within lo hi []"
  "within lo hi (x # s) \<longleftrightarrow> (lo \<le> fst x \<and> fst x + fst (snd x) \<le> hi) \<and> within lo hi s"
  "within lo hi (s @ t) \<longleftrightarrow> within lo hi s \<and> within lo hi t"
  by (auto simp: within_def)

lemma within_mono: "within lo hi s \<Longrightarrow> lo' \<le> lo \<Longrightarrow> hi \<le> hi' \<Longrightarrow> within lo' hi' s"
  by (fastforce simp: within_def)

lemma within_apart:
  "within lo hi s \<Longrightarrow> within lo' hi' t \<Longrightarrow> hi \<le> lo' \<or> hi' \<le> lo \<Longrightarrow> \<forall>x \<in> set s. \<forall>y \<in> set t. apart x y"
  by (fastforce simp: within_def apart_def)

lemma untouched_append:
  assumes "untouched s" "untouched t" "within lo hi s" "within lo' hi' t" "hi \<le> lo' \<or> hi' \<le> lo"
  shows "untouched (s @ t)"
  using assms(1,2) within_apart [OF assms(3-5)] by (simp add: sorted_wrt_append)

lemmas store_parts = number_def link_to_def apart_def

lemma each_at_region:
  assumes "\<And>l x. within l (l + n) (f l x) \<and> untouched (f l x)"
  shows "within len (len + n * length xs) (snd (each_at n f len xs)) \<and> untouched (snd (each_at n f len xs))"
proof (induction xs arbitrary: len)
  case (Cons x xs)
  have "within (len + n) (len + n + n * length xs) (snd (each_at n f (len + n) xs))"
    "untouched (snd (each_at n f (len + n) xs))" using Cons by blast+
  then show ?case
    using assms [of len x] untouched_append [of "f len x" "snd (each_at n f (len + n) xs)" len "len + n"]
    by (auto intro: within_mono simp: add.assoc)
qed simp

lemma endpoint_region: "within l (l + ENDPOINT_SIZE) (endpoint_stores l e) \<and> untouched (endpoint_stores l e)"
  by (simp add: endpoint_stores_def store_parts ENDPOINT_SIZE_def)

lemma pipe_region: "within l (l + PIPE_SIZE) (pipe_stores l e) \<and> untouched (pipe_stores l e)"
  by (simp add: pipe_stores_def store_parts PIPE_SIZE_def)

lemma alt_region:
  "within len (fst (alt_block True len a)) (snd (alt_block True len a)) \<and> untouched (snd (alt_block True len a))"
proof -
  let ?es = "al_endpoints a" and ?l1 = "len + ALT_SIZE"
  let ?l2 = "?l1 + ENDPOINT_SIZE * length ?es"
  let ?s1 = "snd (each_at ENDPOINT_SIZE endpoint_stores ?l1 ?es)"
  let ?s2 = "snd (each_at PIPE_SIZE pipe_stores ?l2 ?es)"
  note r1 = each_at_region [where n = ENDPOINT_SIZE and f = endpoint_stores and len = ?l1 and xs = ?es,
      OF endpoint_region]
  note r2 = each_at_region [where n = PIPE_SIZE and f = pipe_stores and len = ?l2 and xs = ?es,
      OF pipe_region]
  have b: "snd (alt_block True len a)
      = alt_stores len a @ [link_to (len + 16) ?l1] @ ?s1 @ [link_to (len + 24) ?l2] @ ?s2"
    "fst (alt_block True len a) = ?l2 + PIPE_SIZE * length ?es"
    using each_at_length [of ENDPOINT_SIZE endpoint_stores ?l1 ?es]
    by (simp_all add: alt_block_def Let_def split_beta each_at_length)
  have h: "within len ?l1 (alt_stores len a @ [link_to (len + 16) ?l1])"
    "untouched (alt_stores len a @ [link_to (len + 16) ?l1])"
    "within (len + 24) ?l1 [link_to (len + 24) ?l2]" "within len (len + 24) (alt_stores len a @ [link_to (len + 16) ?l1])"
    by (simp_all add: alt_stores_def store_parts ALT_SIZE_def)
  note x1 = within_apart [OF h(4) h(3)] and x2 = within_apart [OF h(1) conjunct1 [OF r1]]
    and x3 = within_apart [OF h(1) conjunct1 [OF r2]] and x4 = within_apart [OF h(3) conjunct1 [OF r1]]
    and x5 = within_apart [OF h(3) conjunct1 [OF r2]]
    and x6 = within_apart [OF conjunct1 [OF r1] conjunct1 [OF r2]]
  have sym: "\<And>x y. apart x y = apart y x" by (auto simp: apart_def)
  have "untouched ((alt_stores len a @ [link_to (len + 16) ?l1]) @ ?s1 @ [link_to (len + 24) ?l2] @ ?s2)"
    unfolding sorted_wrt_append using h(2) r1 r2 x1 x2 x3 x4 x5 x6
    by (auto simp: sym sorted_wrt_append)
  moreover have "within len (?l2 + PIPE_SIZE * length ?es)
      ((alt_stores len a @ [link_to (len + 16) ?l1]) @ ?s1 @ [link_to (len + 24) ?l2] @ ?s2)"
    using h(1,3) r1 r2 unfolding within_simps
    by (auto intro: within_mono simp: ALT_SIZE_def)
  ultimately show ?thesis by (simp only: b append_assoc)
qed

lemma alt_blocks_grow: "len \<le> fst (alt_blocks buf len as)"
proof (induction "as" arbitrary: len)
  case (Cons a as)
  have "len \<le> fst (alt_block buf len a)" by (simp add: alt_block_length)
  then show ?case using Cons [of "fst (alt_block buf len a)"] by (simp add: split_beta)
qed simp

lemma alt_blocks_region:
  "within len (fst (alt_blocks True len as)) (snd (alt_blocks True len as))
     \<and> untouched (snd (alt_blocks True len as))"
proof (induction "as" arbitrary: len)
  case (Cons a as)
  let ?l = "fst (alt_block True len a)"
  let ?s = "snd (alt_block True len a)" and ?t = "snd (alt_blocks True ?l as)"
  have len: "len \<le> ?l" "?l \<le> fst (alt_blocks True ?l as)"
    by (simp_all add: alt_block_length alt_blocks_grow)
  have b: "alt_blocks True len (a # as) = (fst (alt_blocks True ?l as), ?s @ ?t)"
    by (simp add: split_beta map_prod_def)
  show ?case
    unfolding b using alt_region [of len a] Cons [of ?l] len
      untouched_append [of ?s ?t len ?l ?l "fst (alt_blocks True ?l as)"]
    by (auto intro: within_mono)
qed simp

lemma interface_blocks_grow: "len \<le> fst (interface_blocks buf off len is)"
proof (induction "is" arbitrary: off len)
  case (Cons i "is")
  show ?case
    using Cons [of "fst (alt_blocks buf len i)" "off + INTERFACE_SIZE"] alt_blocks_grow [of len buf i]
    by (simp add: split_beta)
qed simp

text \<open>The links of the interfaces lie in the first and the last field of their structures.\<close>

definition link_field :: "nat \<Rightarrow> nat \<Rightarrow> info_store \<Rightarrow> bool" where
  "link_field off n x \<longleftrightarrow>
     (\<exists>k < n. (fst x = off + INTERFACE_SIZE * k \<or> fst x = off + INTERFACE_SIZE * k + 16) \<and> fst (snd x) = 8)"

definition in_region :: "nat \<Rightarrow> nat \<Rightarrow> info_store \<Rightarrow> bool" where
  "in_region lo hi x \<longleftrightarrow> lo \<le> fst x \<and> fst x + fst (snd x) \<le> hi"

lemma within_in_region: "within lo hi s \<longleftrightarrow> (\<forall>x \<in> set s. in_region lo hi x)"
  by (simp add: within_def in_region_def)

lemma link_field_Suc: "link_field (off + INTERFACE_SIZE) n x \<Longrightarrow> link_field off (Suc n) x"
proof -
  assume "link_field (off + INTERFACE_SIZE) n x"
  then obtain k where "k < n" "fst (snd x) = 8"
    "fst x = off + INTERFACE_SIZE * Suc k \<or> fst x = off + INTERFACE_SIZE * Suc k + 16"
    by (auto simp: link_field_def)
  then show ?thesis unfolding link_field_def by (blast intro: Suc_mono)
qed

lemma link_field_region:
  assumes "link_field off n x"
  shows "in_region off (off + INTERFACE_SIZE * n) x"
proof -
  from assms obtain k where k: "k < n" "fst (snd x) = 8"
    "fst x = off + INTERFACE_SIZE * k \<or> fst x = off + INTERFACE_SIZE * k + 16"
    by (auto simp: link_field_def)
  have "INTERFACE_SIZE * Suc k \<le> INTERFACE_SIZE * n" using k(1) by (intro mult_le_mono2) simp
  then show ?thesis using k(2,3) by (auto simp: in_region_def INTERFACE_SIZE_def)
qed

lemma in_region_apart:
  "in_region lo hi x \<Longrightarrow> in_region lo' hi' y \<Longrightarrow> hi \<le> lo' \<or> hi' \<le> lo \<Longrightarrow> apart x y"
  by (auto simp: in_region_def apart_def)

lemma in_region_mono: "in_region lo hi x \<Longrightarrow> lo' \<le> lo \<Longrightarrow> hi \<le> hi' \<Longrightarrow> in_region lo' hi' x"
  by (auto simp: in_region_def)

lemma interface_blocks_region:
  assumes "off + INTERFACE_SIZE * length is \<le> len"
  shows "(\<forall>x \<in> set (snd (interface_blocks True off len is)).
            link_field off (length is) x \<or> in_region len (fst (interface_blocks True off len is)) x)
    \<and> untouched (snd (interface_blocks True off len is))"
  using assms
proof (induction "is" arbitrary: off len)
  case (Cons i "is")
  let ?l = "fst (alt_blocks True len i)" and ?s = "snd (alt_blocks True len i)"
  let ?o = "off + INTERFACE_SIZE"
  let ?t = "snd (interface_blocks True ?o ?l is)" and ?e = "fst (interface_blocks True ?o ?l is)"
  have len: "len \<le> ?l" "?l \<le> ?e" by (rule alt_blocks_grow, rule interface_blocks_grow)
  have b: "interface_blocks True off len (i # is) = (?e, [link_to off len, link_to (off + 16) len] @ ?s @ ?t)"
    by (simp add: split_beta map_prod_def)
  have "?o + INTERFACE_SIZE * length is \<le> ?l" using Cons.prems len(1) by simp
  note IH = Cons.IH [OF this]
  have s: "\<forall>x \<in> set ?s. in_region len ?l x" "untouched ?s"
    using alt_blocks_region [of len i] by (simp_all add: within_in_region)
  let ?links = "[link_to off len, link_to (off + 16) len]"
  have l: "\<forall>x \<in> set ?links. link_field off (Suc (length is)) x \<and> in_region off ?o x" "untouched ?links"
    by (auto simp: link_field_def in_region_def store_parts INTERFACE_SIZE_def)
  have t: "in_region ?o (?o + INTERFACE_SIZE * length is) x \<or> in_region ?l ?e x" if "x \<in> set ?t" for x
    using IH that link_field_region by blast
  have "?o \<le> len" "?o + INTERFACE_SIZE * length is \<le> len" using Cons.prems by simp_all
  then have "\<forall>x \<in> set ?links. \<forall>y \<in> set ?s. apart x y" "\<forall>x \<in> set ?links. \<forall>y \<in> set ?t. apart x y"
    "\<forall>x \<in> set ?s. \<forall>y \<in> set ?t. apart x y"
    using l(1) s(1) t len by (blast intro: in_region_apart order_trans)+
  then have "untouched (?links @ ?s @ ?t)"
    using l(2) s(2) IH by (auto simp: sorted_wrt_append)
  moreover have "\<forall>x \<in> set ?s. in_region len ?e x"
    using s(1) len(2) in_region_mono [OF _ order_refl len(2)] by blast
  then have "\<forall>x \<in> set (?links @ ?s @ ?t). link_field off (Suc (length is)) x \<or> in_region len ?e x"
    using l(1) IH in_region_mono [OF _ len(1) order_refl] link_field_Suc
    unfolding set_append by blast
  ultimately show ?case by (simp only: b fst_conv snd_conv list.size add_0_right add_Suc_right)
qed simp


lemma interface_heads_field:
  "x \<in> set (interface_heads j len is) \<Longrightarrow>
     (\<exists>k < length is. (fst x = 80 + 8 * (j + k) \<or> fst x = len + INTERFACE_SIZE * k + 8) \<and> fst (snd x) = 8)"
proof (induction "is" arbitrary: j len)
  case (Cons i "is")
  from Cons.prems consider "x = link_to (80 + 8 * j) len" | "x = number (len + 8) 8 (of_nat (length i) :: u64)"
    | "x \<in> set (interface_heads (Suc j) (len + INTERFACE_SIZE) is)" by auto
  then show ?case
  proof cases
    case 3
    from Cons.IH [OF this] obtain k where "k < length is" "fst (snd x) = 8"
      "fst x = 80 + 8 * (j + Suc k) \<or> fst x = len + INTERFACE_SIZE * Suc k + 8" by auto
    then show ?thesis by (intro exI [where x = "Suc k"]) auto
  qed (auto simp: store_parts)
qed simp

lemma interface_heads_untouched:
  assumes "80 + 8 * (j + length is) \<le> len"
  shows "untouched (interface_heads j len is)"
  using assms
proof (induction "is" arbitrary: j len)
  case (Cons i "is")
  have "80 + 8 * (Suc j + length is) \<le> len + INTERFACE_SIZE" using Cons.prems by simp
  from Cons.IH [OF this] Cons.prems show ?case
    by (auto simp: store_parts INTERFACE_SIZE_def dest!: interface_heads_field)
qed simp

lemma middle_link_apart:
  assumes "fst x = off + INTERFACE_SIZE * k + 8" "fst (snd x) = 8" "link_field off n y"
  shows "apart x y"
proof -
  from assms(3) obtain k' where k': "fst (snd y) = 8"
    "fst y = off + INTERFACE_SIZE * k' \<or> fst y = off + INTERFACE_SIZE * k' + 16"
    by (auto simp: link_field_def)
  consider "k = k'" | "Suc k \<le> k'" | "Suc k' \<le> k" by linarith
  then show ?thesis
  proof cases
    case 2
    then have "INTERFACE_SIZE * Suc k \<le> INTERFACE_SIZE * k'" by (rule mult_le_mono2)
    then show ?thesis using assms(1,2) k' by (auto simp: apart_def INTERFACE_SIZE_def)
  next
    case 3
    then have "INTERFACE_SIZE * Suc k' \<le> INTERFACE_SIZE * k" by (rule mult_le_mono2)
    then show ?thesis using assms(1,2) k' by (auto simp: apart_def INTERFACE_SIZE_def)
  qed (use assms(1,2) k' in \<open>auto simp: apart_def\<close>)
qed

text \<open>
  With at most 30 interfaces, the list of active interfaces ends in front of the first
  configuration.
\<close>

lemma config_region:
  assumes "INFO_SIZE \<le> len" "length (co_interfaces c) \<le> 30"
  shows "(\<forall>x \<in> set (snd (config_block True len c)).
            in_region 64 INFO_SIZE x \<or> in_region len (fst (config_block True len c)) x)
    \<and> untouched (snd (config_block True len c))"
proof -
  let ?is = "co_interfaces c" and ?l1 = "len + CONFIG_SIZE"
  let ?l2 = "?l1 + INTERFACE_SIZE * length ?is"
  let ?e = "fst (interface_blocks True ?l1 ?l2 ?is)" and ?s = "snd (interface_blocks True ?l1 ?l2 ?is)"
  let ?c = "config_stores len c @ [link_to (len + 24) ?l1]" and ?h = "interface_heads 0 ?l1 ?is"
  have b: "config_block True len c = (?e, (?c @ ?h) @ ?s)"
    by (simp add: config_block_def Let_def split_beta)
  have e: "?l2 \<le> ?e" by (rule interface_blocks_grow)
  have c: "\<forall>x \<in> set ?c. in_region 64 80 x \<or> in_region len ?l1 x" "untouched ?c"
    using assms(1) by (simp_all add: config_stores_def store_parts in_region_def CONFIG_SIZE_def INFO_SIZE_def)
  have h: "in_region 80 INFO_SIZE x
      \<or> (in_region ?l1 ?l2 x \<and> (\<exists>k. fst x = ?l1 + INTERFACE_SIZE * k + 8 \<and> fst (snd x) = 8))"
    if x: "x \<in> set ?h" for x
  proof -
    from interface_heads_field [OF x] obtain k where k: "k < length ?is" "fst (snd x) = 8"
      "fst x = 80 + 8 * k \<or> fst x = ?l1 + INTERFACE_SIZE * k + 8" by auto
    have "INTERFACE_SIZE * Suc k \<le> INTERFACE_SIZE * length ?is" using k(1) by (intro mult_le_mono2) simp
    then show ?thesis using k assms(2) by (auto simp: in_region_def INFO_SIZE_def INTERFACE_SIZE_def)
  qed
  have hu: "untouched ?h"
    by (rule interface_heads_untouched) (use assms in \<open>simp add: info_sizes\<close>)
  have "?l1 + INTERFACE_SIZE * length ?is \<le> ?l2" by simp
  note s = interface_blocks_region [OF this]
  have s': "(link_field ?l1 (length ?is) x \<and> in_region ?l1 ?l2 x) \<or> in_region ?l2 ?e x" if "x \<in> set ?s" for x
    using s that link_field_region by blast
  have lens: "80 \<le> INFO_SIZE" "INFO_SIZE \<le> ?l1" "INFO_SIZE \<le> len" "?l1 \<le> ?l2" "len \<le> ?l1" "80 \<le> ?l1" "80 \<le> ?l2"
    "INFO_SIZE \<le> ?l2" using assms(1) by (simp_all add: info_sizes)
  have ch: "\<forall>x \<in> set ?c. \<forall>y \<in> set ?h. apart x y"
    using c(1) h lens by (blast intro: in_region_apart order_trans)
  have cs: "\<forall>x \<in> set ?c. \<forall>y \<in> set ?s. apart x y"
    using c(1) s' lens by (blast intro: in_region_apart order_trans)
  have hs: "\<forall>x \<in> set ?h. \<forall>y \<in> set ?s. apart x y"
    using h s' lens by (blast intro: in_region_apart middle_link_apart)
  have "untouched ((?c @ ?h) @ ?s)"
    using c(2) hu s ch cs hs by (auto simp: sorted_wrt_append)
  moreover have "\<forall>x \<in> set ((?c @ ?h) @ ?s). in_region 64 INFO_SIZE x \<or> in_region len ?e x"
  proof
    fix x assume "x \<in> set ((?c @ ?h) @ ?s)"
    then have "in_region 64 80 x \<or> in_region 80 INFO_SIZE x \<or> in_region len ?l1 x \<or> in_region ?l1 ?l2 x
        \<or> in_region ?l2 ?e x"
      using c(1) h s' unfolding set_append by blast
    then show "in_region 64 INFO_SIZE x \<or> in_region len ?e x"
      using e lens by (auto simp: in_region_def)
  qed
  ultimately show ?thesis by (simp only: b fst_conv snd_conv)
qed

text \<open>However many interfaces there are, nothing is stored behind the end.\<close>

lemma config_inside:
  assumes "INFO_SIZE \<le> len"
  shows "within 0 (fst (config_block True len c)) (snd (config_block True len c))
    \<and> len \<le> fst (config_block True len c)"
proof -
  let ?is = "co_interfaces c" and ?l1 = "len + CONFIG_SIZE"
  let ?l2 = "?l1 + INTERFACE_SIZE * length ?is"
  let ?e = "fst (interface_blocks True ?l1 ?l2 ?is)" and ?s = "snd (interface_blocks True ?l1 ?l2 ?is)"
  let ?c = "config_stores len c @ [link_to (len + 24) ?l1]" and ?h = "interface_heads 0 ?l1 ?is"
  have b: "config_block True len c = (?e, (?c @ ?h) @ ?s)"
    by (simp add: config_block_def Let_def split_beta)
  have e: "?l2 \<le> ?e" by (rule interface_blocks_grow)
  have "within 0 ?l2 ?c"
    using assms by (simp add: config_stores_def store_parts CONFIG_SIZE_def INFO_SIZE_def)
  moreover have "in_region 0 ?l2 x" if x: "x \<in> set ?h" for x
  proof -
    from interface_heads_field [OF x] obtain k where k: "k < length ?is" "fst (snd x) = 8"
      "fst x = 80 + 8 * k \<or> fst x = ?l1 + INTERFACE_SIZE * k + 8" by auto
    have "INTERFACE_SIZE * Suc k \<le> INTERFACE_SIZE * length ?is" using k(1) by (intro mult_le_mono2) simp
    then show ?thesis using k assms by (auto simp: in_region_def INFO_SIZE_def INTERFACE_SIZE_def)
  qed
  moreover have "in_region 0 ?e x" if x: "x \<in> set ?s" for x
  proof -
    have "?l1 + INTERFACE_SIZE * length ?is \<le> ?l2" by simp
    from interface_blocks_region [OF this] x
    have "link_field ?l1 (length ?is) x \<or> in_region ?l2 ?e x" by blast
    then have "in_region ?l1 ?l2 x \<or> in_region ?l2 ?e x" using link_field_region by blast
    then show ?thesis using e by (auto elim: in_region_mono)
  qed
  ultimately have "within 0 ?e ((?c @ ?h) @ ?s)"
    using e unfolding within_in_region set_append by (blast intro: in_region_mono)
  then show ?thesis using e by (simp add: b)
qed

lemma configs_inside:
  "INFO_SIZE \<le> len \<Longrightarrow> within 0 (fst (config_blocks True len cs)) (snd (config_blocks True len cs))
     \<and> len \<le> fst (config_blocks True len cs)"
proof (induction cs arbitrary: len)
  case (Cons c cs)
  let ?l = "fst (config_block True len c)"
  from config_inside [OF Cons.prems, of c]
  have c: "within 0 ?l (snd (config_block True len c))" "len \<le> ?l" by simp_all
  have "INFO_SIZE \<le> ?l" using c(2) Cons.prems by simp
  from Cons.IH [OF this] c show ?case by (auto simp: split_beta intro: within_mono)
qed simp

section \<open>Properties\<close>

text \<open>
  C20. The two modes agree: the length that the call without a buffer gives is the length used with
  one, and every store stays inside a buffer of that length, whatever the device describes.
\<close>

theorem deviceinfo_fits:
  "fst (usb_deviceinfo True dev) = fst (usb_deviceinfo False dev)
    \<and> within 0 (fst (usb_deviceinfo False dev)) (snd (usb_deviceinfo True dev))"
proof -
  let ?len = "fst (config_blocks True INFO_SIZE (de_configs dev))"
  have "within 0 INFO_SIZE (device_stores dev)"
    by (simp add: device_stores_def store_parts INFO_SIZE_def)
  then have "within 0 ?len (device_stores dev @ snd (config_blocks True INFO_SIZE (de_configs dev)))"
    using configs_inside [of INFO_SIZE "de_configs dev"] by (auto intro: within_mono)
  then show ?thesis
    by (simp add: usb_deviceinfo_def config_blocks_length [symmetric])
qed

text \<open>
  For a device with one configuration of at most 30 interfaces no two stores touch the same
  byte: every field keeps what was put into it.
\<close>

theorem deviceinfo_overwrites_nothing:
  assumes "de_configs dev = [c]" "length (co_interfaces c) \<le> 30"
    and "i < j" "j < length (snd (usb_deviceinfo True dev))"
  shows "apart (snd (usb_deviceinfo True dev) ! i) (snd (usb_deviceinfo True dev) ! j)"
proof -
  let ?s = "snd (config_block True INFO_SIZE c)"
  have d: "\<forall>x \<in> set (device_stores dev). in_region 0 64 x" "untouched (device_stores dev)"
    by (simp_all add: device_stores_def store_parts in_region_def)
  note r = config_region [OF order_refl assms(2)]
  have "\<forall>x \<in> set (device_stores dev). \<forall>y \<in> set ?s. apart x y"
  proof (intro ballI)
    fix x y assume "x \<in> set (device_stores dev)" "y \<in> set ?s"
    then have "in_region 0 64 x" "in_region 64 INFO_SIZE y \<or> in_region INFO_SIZE (fst (config_block True INFO_SIZE c)) y"
      using d(1) r by blast+
    then show "apart x y" by (auto elim!: in_region_apart [rotated] simp: INFO_SIZE_def in_region_def apart_def)
  qed
  then have "untouched (snd (usb_deviceinfo True dev))"
    using d(2) r by (simp add: usb_deviceinfo_def assms(1) sorted_wrt_append split_beta)
  then show ?thesis using assms(3,4) by (simp add: sorted_wrt_iff_nth_less)
qed

text \<open>A device with one interface, one setting and one bulk endpoint.\<close>

definition demo_device :: usb_device where
  "demo_device = \<lparr>de_type = 1, de_usb = 0x200, de_class = 0xFF, de_subclass = 0, de_protocol = 0,
     de_max_packet0 = 64, de_vendor = 0x3FD, de_product = 8, de_release = 0, de_manufacturer = 1,
     de_product_name = 2, de_serial = 0,
     de_configs = [\<lparr>co_length = 9, co_type = 2, co_total = 25, co_value = 1, co_string = 0,
       co_attributes = 0x80, co_power = 140,
       co_interfaces = [[\<lparr>al_length = 9, al_type = 4, al_interface = 0, al_setting = 0, al_class = 0xFF,
         al_subclass = 0, al_protocol = 0, al_string = 0,
         al_endpoints = [\<lparr>en_length = 7, en_type = 5, en_address = 0x86, en_attributes = 2,
           en_max_packet = 512, en_interval = 0\<rparr>]\<rparr>]]\<rparr>]\<rparr>"

lemma deviceinfo_overwrites_nothing_witness:
  "apart (snd (usb_deviceinfo True demo_device) ! 19) (snd (usb_deviceinfo True demo_device) ! 31)"
proof (rule deviceinfo_overwrites_nothing)
  show "de_configs demo_device = [hd (de_configs demo_device)]" by (simp add: demo_device_def)
  show "length (co_interfaces (hd (de_configs demo_device))) \<le> 30" by (simp add: demo_device_def)
  show "31 < length (snd (usb_deviceinfo True demo_device))" by code_simp
qed simp

end
