(* ===== verification/Usbdrv_Driver.thy ===== *)
theory Usbdrv_Driver
  imports Usbdrv_Config Usbdrv_Parport Usbdrv_Jtagkey Usbdrv_Info
begin

text \<open>
  \<^verbatim>\<open>drivers/linux/Xilinx_Platform_Cable/usb-driver/usb-driver.c\<close>, built with \<^verbatim>\<open>NO_WINDRVR\<close> and
  without \<^verbatim>\<open>DEBUG\<close>: the requests of the WinDriver device, answered with libusb and the two port
  drivers, and the calls of the C library that the shared object takes over. The static variables
  are one state; the data behind the header of a request is the structure the handler casts it to.

  What the code runs into is a value: a call through a port that is not set, a lock that is held, a
  device or an element that is not there, a buffer that is too short.
\<close>

section \<open>Environment and state\<close>

record 'u libusb =
  lu_scan :: "'u \<Rightarrow> usb_device list list \<times> 'u"
  lu_open :: "usb_device \<Rightarrow> 'u \<Rightarrow> int \<times> 'u"
  lu_claim :: "int \<Rightarrow> u8 \<Rightarrow> 'u \<Rightarrow> int \<times> 'u"
  lu_set_alt :: "int \<Rightarrow> u64 \<Rightarrow> 'u \<Rightarrow> int \<times> 'u"
  lu_release :: "int \<Rightarrow> int \<Rightarrow> 'u \<Rightarrow> 'u"
  lu_close :: "int \<Rightarrow> 'u \<Rightarrow> 'u"
  lu_control :: "int \<Rightarrow> int \<Rightarrow> int \<Rightarrow> int \<Rightarrow> int \<Rightarrow> u8 list \<Rightarrow> int \<Rightarrow> int \<Rightarrow> 'u \<Rightarrow> int \<times> u8 list \<times> 'u"
  lu_bulk_read :: "int \<Rightarrow> int \<Rightarrow> u8 list \<Rightarrow> int \<Rightarrow> int \<Rightarrow> 'u \<Rightarrow> int \<times> u8 list \<times> 'u"
  lu_bulk_write :: "int \<Rightarrow> int \<Rightarrow> u8 list \<Rightarrow> int \<Rightarrow> int \<Rightarrow> 'u \<Rightarrow> int \<times> u8 list \<times> 'u"

record ('k, 'd, 'u) wd_env =
  en_config :: config_env
  en_ppdev :: "'k ppdev"
  en_pc3 :: bool
  en_ftdi :: "'d ftdi"
  en_junk :: int
  en_usb :: "'u libusb"
  en_version :: string

text \<open>A handle of 0 is the null pointer, so is an empty list of buses.\<close>

record ('k, 'd, 'u) wd_state =
  wd_fd :: int
  wd_ppbase :: u64
  wd_ecpbase :: u64
  wd_pport :: "nat option"
  wd_config :: config_state
  wd_parport :: "parport \<times> 'k"
  wd_jtagkey :: "'d \<times> jtagkey"
  wd_usb :: 'u
  wd_busses :: "usb_device list list"
  wd_device :: "usb_device option"
  wd_handle :: int
  wd_interface :: int
  wd_card_type :: u64
  wd_ints :: bool
  wd_locked :: bool

datatype wd_fault = Null_port | Waits_for_lock | Null_device | No_such_element | Buffer_overrun
  | Config_stops config_stop | Port_fails jk_fault | Other_data

section \<open>Data of the requests\<close>

record card_register =
  cr_items :: u64
  cr_addr0 :: u64
  cr_addr1 :: u64
  cr_card :: u64

record usb_transfer =
  ut_pipe :: u64
  ut_read :: u64
  ut_buffer :: "u8 list"
  ut_size :: u64
  ut_done :: u64
  ut_setup :: "u8 list"
  ut_timeout :: u64

record interrupt =
  it_enabled :: u64
  it_counter :: u64
  it_stopped :: u64

record set_interface =
  si_number :: u64
  si_alternate :: u64

record device_data =
  gd_bytes :: u64
  gd_stores :: "info_store list"

record match_table =
  mt_vendor :: u16
  mt_product :: u16
  mt_class :: u8
  mt_subclass :: u8
  mt_iclass :: u8
  mt_isubclass :: u8
  mt_iprotocol :: u8

record event =
  ev_handle :: u64
  ev_action :: u64
  ev_id :: u64
  ev_card_type :: u64
  ev_unique :: u64
  ev_matches :: "match_table list"

datatype wd_data = Version u64 string | Card card_register | Usb usb_transfer | Interrupt interrupt
  | Interface set_interface | Device_data device_data | Event event | Transfers "wd_transfer list" | Nothing

section \<open>Ports\<close>

definition as_int :: "u64 \<Rightarrow> int" where
  "as_int x = sint (ucast x :: 32 word)"

definition port_entry :: "('k, 'd, 'u) wd_state \<Rightarrow> nat \<Rightarrow> parport_config" where
  "port_entry st i = cf_table (wd_config st) ! i"

definition open_port ::
    "('k, 'd, 'u) wd_env \<Rightarrow> nat \<Rightarrow> int \<Rightarrow> ('k, 'd, 'u) wd_state \<Rightarrow> wd_fault + (int \<times> ('k, 'd, 'u) wd_state)" where
  "open_port env i num st =
     (case pp_driver (port_entry st i) of
        Parport \<Rightarrow>
          (case parport_open (en_ppdev env) num (wd_parport st) of
             (rc, s) \<Rightarrow> Inr (rc, st\<lparr>wd_parport := s\<rparr>))
      | Jtagkey \<Rightarrow>
          (case config_usb_vid (en_config env) num (wd_config st) of
             Inl e \<Rightarrow> Inl (Config_stops e)
           | Inr (vid, c1) \<Rightarrow>
               (case config_usb_pid (en_config env) num c1 of
                  Inl e \<Rightarrow> Inl (Config_stops e)
                | Inr (pid, c2) \<Rightarrow>
                    (case jtagkey_open (en_ftdi env) (en_junk env) vid pid (wd_jtagkey st) of
                       (rc, s) \<Rightarrow> Inr (rc, st\<lparr>wd_config := c2, wd_jtagkey := s\<rparr>)))))"

definition close_port ::
    "('k, 'd, 'u) wd_env \<Rightarrow> nat \<Rightarrow> int \<Rightarrow> ('k, 'd, 'u) wd_state \<Rightarrow> ('k, 'd, 'u) wd_state" where
  "close_port env i handle st =
     (case pp_driver (port_entry st i) of
        Parport \<Rightarrow> st\<lparr>wd_parport := parport_close (en_ppdev env) handle (wd_parport st)\<rparr>
      | Jtagkey \<Rightarrow> st\<lparr>wd_jtagkey := (jtagkey_close (en_ftdi env) handle (fst (wd_jtagkey st)),
                                   snd (wd_jtagkey st))\<rparr>)"

definition card_register_request ::
    "('k, 'd, 'u) wd_env \<Rightarrow> card_register \<Rightarrow> ('k, 'd, 'u) wd_state \<Rightarrow>
       wd_fault + (int \<times> wd_data \<times> ('k, 'd, 'u) wd_state)" where
  "card_register_request env cr st =
     (let num = as_int (cr_addr0 cr div 0x10) in
      case config_get (en_config env) num (wd_config st) of
        Inl e \<Rightarrow> Inl (Config_stops e)
      | Inr (None, c) \<Rightarrow> Inr (0, Card cr, st\<lparr>wd_config := c, wd_pport := None\<rparr>)
      | Inr (Some i, c) \<Rightarrow>
          (case open_port env i num (st\<lparr>wd_config := c, wd_pport := Some i\<rparr>) of
             Inl e \<Rightarrow> Inl e
           | Inr (rc, st') \<Rightarrow>
               Inr (rc, Card (cr\<lparr>cr_card := if 0 \<le> rc then word_of_int rc else 0\<rparr>),
                    st'\<lparr>wd_ppbase := cr_addr0 cr,
                        wd_ecpbase := if 1 < cr_items cr \<and> cr_addr1 cr \<noteq> 0 then cr_addr1 cr
                                      else wd_ecpbase st'\<rparr>)))"

text \<open>The bases are handed over as \<^verbatim>\<open>int\<close>; the handle is, too.\<close>

definition transfer_request ::
    "('k, 'd, 'u) wd_env \<Rightarrow> wd_transfer list \<Rightarrow> ('k, 'd, 'u) wd_state \<Rightarrow>
       wd_fault + (int \<times> wd_data \<times> ('k, 'd, 'u) wd_state)" where
  "transfer_request env trs st =
     (case wd_pport st of
        None \<Rightarrow> Inl Null_port
      | Some i \<Rightarrow>
          (case pp_driver (port_entry st i) of
             Parport \<Rightarrow>
               (case parport_transfer (en_ppdev env) (en_pc3 env) (ucast (wd_ppbase st))
                       (ucast (wd_ecpbase st)) trs (wd_parport st) of
                  (rc, trs', s) \<Rightarrow> Inr (rc, Transfers trs', st\<lparr>wd_parport := s\<rparr>))
           | Jtagkey \<Rightarrow>
               (case jtagkey_transfer (en_ftdi env) (en_junk env) (ucast (wd_ppbase st)) trs (wd_jtagkey st) of
                  Inl e \<Rightarrow> Inl (Port_fails e)
                | Inr (rc, trs', s) \<Rightarrow> Inr (rc, Transfers trs', st\<lparr>wd_jtagkey := s\<rparr>))))"

definition card_unregister_request ::
    "('k, 'd, 'u) wd_env \<Rightarrow> card_register \<Rightarrow> ('k, 'd, 'u) wd_state \<Rightarrow> ('k, 'd, 'u) wd_state" where
  "card_unregister_request env cr st =
     (case wd_pport st of
        None \<Rightarrow> st
      | Some i \<Rightarrow> (close_port env i (as_int (cr_card cr)) st)\<lparr>wd_pport := None\<rparr>)"

section \<open>Interrupts\<close>

definition int_enable :: "interrupt \<Rightarrow> ('k, 'd, 'u) wd_state \<Rightarrow> interrupt \<times> ('k, 'd, 'u) wd_state" where
  "int_enable it st =
     (it\<lparr>it_enabled := 1, it_stopped := 0\<rparr>, st\<lparr>wd_ints := True, wd_locked := True\<rparr>)"

text \<open>The lock is tried; only when it was held it is given up.\<close>

definition int_disable :: "interrupt \<Rightarrow> ('k, 'd, 'u) wd_state \<Rightarrow> interrupt \<times> ('k, 'd, 'u) wd_state" where
  "int_disable it st =
     (it\<lparr>it_counter := 0, it_stopped := 1\<rparr>, st\<lparr>wd_ints := False, wd_locked := \<not> wd_locked st\<rparr>)"

definition int_wait :: "interrupt \<Rightarrow> ('k, 'd, 'u) wd_state \<Rightarrow> wd_fault + interrupt" where
  "int_wait it st =
     (if wd_device st \<noteq> None \<and> it_counter it = 0 then Inr (it\<lparr>it_counter := 1\<rparr>)
      else if wd_locked st then Inl Waits_for_lock else Inr it)"

section \<open>USB requests\<close>

definition setup_word :: "usb_transfer \<Rightarrow> nat \<Rightarrow> int" where
  "setup_word ut i = uint (ut_setup ut ! i) + 256 * uint (ut_setup ut ! Suc i)"

definition usb_transfer_request ::
    "('k, 'd, 'u) wd_env \<Rightarrow> usb_transfer \<Rightarrow> ('k, 'd, 'u) wd_state \<Rightarrow>
       int \<times> wd_data \<times> ('k, 'd, 'u) wd_state" where
  "usb_transfer_request env ut st =
     (let lib = en_usb env; h = wd_handle st; timeout = as_int (ut_timeout ut) in
      case (if ut_pipe ut = 0
            then lu_control lib h (uint (ut_setup ut ! 0)) (uint (ut_setup ut ! 1)) (setup_word ut 2)
                   (setup_word ut 4) (ut_buffer ut) (setup_word ut 6) timeout (wd_usb st)
            else if ut_read ut \<noteq> 0
            then lu_bulk_read lib h (as_int (ut_pipe ut)) (ut_buffer ut) (as_int (ut_size ut)) timeout (wd_usb st)
            else lu_bulk_write lib h (as_int (ut_pipe ut)) (ut_buffer ut) (as_int (ut_size ut)) timeout (wd_usb st))
      of (rc, buf, u) \<Rightarrow>
           if rc < 0 then (rc, Usb (ut\<lparr>ut_buffer := buf\<rparr>), st\<lparr>wd_usb := u\<rparr>)
           else (0, Usb (ut\<lparr>ut_buffer := buf, ut_done := word_of_int rc\<rparr>), st\<lparr>wd_usb := u\<rparr>))"

text \<open>The alternate setting asked for, in the first configuration.\<close>

definition find_alt :: "usb_device \<Rightarrow> nat \<Rightarrow> nat \<Rightarrow> usb_alt option" where
  "find_alt dev i a =
     (case de_configs dev of
        [] \<Rightarrow> None
      | c # _ \<Rightarrow>
          if i < length (co_interfaces c) \<and> a < length (co_interfaces c ! i)
          then Some (co_interfaces c ! i ! a) else None)"

definition set_interface_request ::
    "('k, 'd, 'u) wd_env \<Rightarrow> set_interface \<Rightarrow> ('k, 'd, 'u) wd_state \<Rightarrow>
       wd_fault + (int \<times> ('k, 'd, 'u) wd_state)" where
  "set_interface_request env si st =
     (case wd_device st of
        None \<Rightarrow> Inr (0, st)
      | Some dev \<Rightarrow>
          (let lib = en_usb env in
           case (if wd_handle st = 0 then lu_open lib dev (wd_usb st) else (wd_handle st, wd_usb st)) of
             (h, u1) \<Rightarrow>
               (case find_alt dev (unat (si_number si)) (unat (si_alternate si)) of
                  None \<Rightarrow> Inl No_such_element
                | Some alt \<Rightarrow>
                    (case lu_claim lib h (al_interface alt) u1 of
                       (rc, u2) \<Rightarrow>
                         if rc \<noteq> 0 then Inr (rc, st\<lparr>wd_handle := h, wd_usb := u2\<rparr>)
                         else case lu_set_alt lib h (si_alternate si) u2 of
                                (rc', u3) \<Rightarrow>
                                  Inr (rc', st\<lparr>wd_handle := h, wd_usb := u3,
                                               wd_interface := uint (al_interface alt)\<rparr>)))))"

definition device_data_request ::
    "device_data \<Rightarrow> ('k, 'd, 'u) wd_state \<Rightarrow> wd_fault + device_data" where
  "device_data_request gd st =
     (if gd_bytes gd = 0
      then (case wd_device st of
              None \<Rightarrow> Inr gd
            | Some dev \<Rightarrow> Inr (gd\<lparr>gd_bytes := of_nat (fst (usb_deviceinfo False dev))\<rparr>))
      else (case wd_device st of
              None \<Rightarrow> Inl Null_device
            | Some dev \<Rightarrow>
                if unat (gd_bytes gd) < fst (usb_deviceinfo True dev) then Inl Buffer_overrun
                else Inr (gd\<lparr>gd_stores := snd (usb_deviceinfo True dev)\<rparr>)))"

section \<open>Events\<close>

text \<open>A device is looked at when its own descriptor fits.\<close>

definition device_fits :: "match_table \<Rightarrow> usb_device \<Rightarrow> bool" where
  "device_fits m dev \<longleftrightarrow> de_vendor dev = mt_vendor m \<and> de_product dev = mt_product m
     \<and> de_class dev = mt_class m \<and> de_subclass dev = mt_subclass m"

definition alt_fits :: "match_table \<Rightarrow> usb_alt \<Rightarrow> bool" where
  "alt_fits m a \<longleftrightarrow> al_subclass a = mt_isubclass m \<and> al_protocol a = mt_iprotocol m"

text \<open>Of every configuration the settings of the first interface are compared.\<close>

fun configs_fit :: "match_table \<Rightarrow> usb_config list \<Rightarrow> bool option" where
  "configs_fit m [] = Some False"
| "configs_fit m (c # cs) =
     (case co_interfaces c of
        [] \<Rightarrow> None
      | i # _ \<Rightarrow> map_option ((\<or>) (list_ex (alt_fits m) i)) (configs_fit m cs))"

definition register_one ::
    "u64 \<Rightarrow> match_table \<Rightarrow> usb_device \<Rightarrow> ('k, 'd, 'u) wd_state \<Rightarrow> wd_fault + ('k, 'd, 'u) wd_state" where
  "register_one ct m dev st =
     (if device_fits m dev
      then (case configs_fit m (de_configs dev) of
              None \<Rightarrow> Inl No_such_element
            | Some hit \<Rightarrow> Inr (if hit then st\<lparr>wd_device := Some dev, wd_card_type := ct\<rparr> else st))
      else Inr st)"

fun register_devices ::
    "u64 \<Rightarrow> (match_table \<times> usb_device) list \<Rightarrow> ('k, 'd, 'u) wd_state \<Rightarrow> wd_fault + ('k, 'd, 'u) wd_state" where
  "register_devices ct [] st = Inr st"
| "register_devices ct ((m, dev) # rest) st =
     (case register_one ct m dev st of
        Inl e \<Rightarrow> Inl e
      | Inr st' \<Rightarrow> register_devices ct rest st')"

definition event_register_request ::
    "event \<Rightarrow> ('k, 'd, 'u) wd_state \<Rightarrow> wd_fault + (event \<times> ('k, 'd, 'u) wd_state)" where
  "event_register_request ev st =
     (case register_devices (ev_card_type ev)
             (concat (map (\<lambda>m. map (Pair m) (concat (wd_busses st))) (ev_matches ev))) st of
        Inl e \<Rightarrow> Inl e
      | Inr st' \<Rightarrow> Inr (ev\<lparr>ev_handle := ev_handle ev + 1\<rparr>, st'))"

definition event_pull_request :: "event \<Rightarrow> ('k, 'd, 'u) wd_state \<Rightarrow> wd_fault + event" where
  "event_pull_request ev st =
     (case wd_device st of
        None \<Rightarrow> Inr ev
      | Some dev \<Rightarrow>
          (case find_alt dev 0 0 of
             None \<Rightarrow> Inl No_such_element
           | Some alt \<Rightarrow>
               Inr (ev\<lparr>ev_card_type := wd_card_type st, ev_action := 1, ev_id := 109, ev_unique := 110,
                       ev_matches := \<lparr>mt_vendor = de_vendor dev, mt_product = de_product dev,
                         mt_class = de_class dev, mt_subclass = de_subclass dev, mt_iclass = al_class alt,
                         mt_isubclass = al_subclass alt, mt_iprotocol = al_protocol alt\<rparr>
                         # tl (ev_matches ev)\<rparr>)))"

section \<open>The requests\<close>

text \<open>The top two bits, the direction of an \<^verbatim>\<open>ioctl\<close>, are not part of the request.\<close>

definition request_code :: "32 word \<Rightarrow> 32 word" where
  "request_code request = and request (Bit_Operations.not 0xC0000000)"

definition MAGIC :: u64 where "MAGIC = 0xA410B413"

definition do_wdioctl ::
    "('k, 'd, 'u) wd_env \<Rightarrow> (32 word \<Rightarrow> wd_data \<Rightarrow> int \<times> wd_data) \<Rightarrow> 32 word \<Rightarrow> u64 \<Rightarrow> wd_data \<Rightarrow>
       ('k, 'd, 'u) wd_state \<Rightarrow> wd_fault + (int \<times> wd_data \<times> ('k, 'd, 'u) wd_state)" where
  "do_wdioctl env libc request magic data st =
     (let code = request_code request in
      if magic \<noteq> MAGIC then (case libc request data of (rc, data') \<Rightarrow> Inr (rc, data', st))
      else if code = 0x910 then
        (case data of
           Version _ _ \<Rightarrow> Inr (0, Version 802 (''libusb-driver.so version: '' @ en_version env), st)
         | _ \<Rightarrow> Inl Other_data)
      else if code \<in> {0x97D, 0x9A4} then
        (case data of Card cr \<Rightarrow> card_register_request env cr st | _ \<Rightarrow> Inl Other_data)
      else if code = 0x983 then
        (case data of Usb ut \<Rightarrow> Inr (usb_transfer_request env ut st) | _ \<Rightarrow> Inl Other_data)
      else if code \<in> {0x91E, 0x98E} then
        (case data of
           Interrupt it \<Rightarrow> (case int_enable it st of (it', st') \<Rightarrow> Inr (0, Interrupt it', st'))
         | _ \<Rightarrow> Inl Other_data)
      else if code = 0x91F then
        (case data of
           Interrupt it \<Rightarrow> (case int_disable it st of (it', st') \<Rightarrow> Inr (0, Interrupt it', st'))
         | _ \<Rightarrow> Inl Other_data)
      else if code = 0x981 then
        (case data of
           Interface si \<Rightarrow>
             map_sum id (\<lambda>(rc, st'). (rc, Interface si, st')) (set_interface_request env si st)
         | _ \<Rightarrow> Inl Other_data)
      else if code \<in> {0x980, 0x9A7} then
        (case data of
           Device_data gd \<Rightarrow> map_sum id (\<lambda>gd'. (0, Device_data gd', st)) (device_data_request gd st)
         | _ \<Rightarrow> Inl Other_data)
      else if code \<in> {0x986, 0x9A5} then
        (case data of
           Event ev \<Rightarrow> map_sum id (\<lambda>(ev', st'). (0, Event ev', st')) (event_register_request ev st)
         | _ \<Rightarrow> Inl Other_data)
      else if code \<in> {0x903, 0x98C} then
        (case data of Transfers trs \<Rightarrow> transfer_request env (take 1 trs) st | _ \<Rightarrow> Inl Other_data)
      else if code \<in> {0x904, 0x98D} then
        (case data of Transfers trs \<Rightarrow> transfer_request env trs st | _ \<Rightarrow> Inl Other_data)
      else if code = 0x94B then
        (case data of
           Interrupt it \<Rightarrow> map_sum id (\<lambda>it'. (0, Interrupt it', st)) (int_wait it st)
         | _ \<Rightarrow> Inl Other_data)
      else if code = 0x92B then
        (case data of
           Card cr \<Rightarrow> Inr (0, Card cr, card_unregister_request env cr st)
         | _ \<Rightarrow> Inl Other_data)
      else if code = 0x988 then
        (case data of
           Event ev \<Rightarrow> map_sum id (\<lambda>ev'. (0, Event ev', st)) (event_pull_request ev st)
         | _ \<Rightarrow> Inl Other_data)
      else Inr (0, data, st))"

text \<open>The interposed \<^verbatim>\<open>ioctl\<close>: every other descriptor goes to the real one.\<close>

definition ioctl_call ::
    "('k, 'd, 'u) wd_env \<Rightarrow> (int \<Rightarrow> 32 word \<Rightarrow> wd_data \<Rightarrow> int \<times> wd_data) \<Rightarrow> int \<Rightarrow> u64 \<Rightarrow> u64 \<Rightarrow> wd_data \<Rightarrow>
       ('k, 'd, 'u) wd_state \<Rightarrow> wd_fault + (int \<times> wd_data \<times> ('k, 'd, 'u) wd_state)" where
  "ioctl_call env libc fd request magic data st =
     (if fd = wd_fd st then do_wdioctl env (libc fd) (ucast request) magic data st
      else case libc fd (ucast request) data of (rc, data') \<Rightarrow> Inr (rc, data', st))"

section \<open>Opening and closing the device\<close>

definition WINDRVR :: string where "WINDRVR = ''/dev/windrvr6''"

definition open_call ::
    "('k, 'd, 'u) wd_env \<Rightarrow> (string \<Rightarrow> int) \<Rightarrow> string \<Rightarrow> ('k, 'd, 'u) wd_state \<Rightarrow> int \<times> ('k, 'd, 'u) wd_state" where
  "open_call env libc path st =
     (if path = WINDRVR
      then let fd = libc ''/dev/null''; st1 = st\<lparr>wd_fd := fd\<rparr> in
           if wd_busses st1 = []
           then (case lu_scan (en_usb env) (wd_usb st1) of
                   (busses, u) \<Rightarrow> (fd, st1\<lparr>wd_busses := busses, wd_usb := u\<rparr>))
           else (fd, st1)
      else (libc path, st))"

definition close_call ::
    "('k, 'd, 'u) wd_env \<Rightarrow> (int \<Rightarrow> int) \<Rightarrow> int \<Rightarrow> ('k, 'd, 'u) wd_state \<Rightarrow> int \<times> ('k, 'd, 'u) wd_state" where
  "close_call env libc fd st =
     (libc fd,
      if fd = wd_fd st \<and> 0 \<le> wd_fd st
      then let lib = en_usb env;
               u1 = (if 0 \<le> wd_interface st then lu_release lib (wd_handle st) (wd_interface st) (wd_usb st)
                     else wd_usb st);
               u2 = (if wd_handle st \<noteq> 0 then lu_close lib (wd_handle st) u1 else u1)
           in st\<lparr>wd_usb := u2, wd_handle := 0, wd_interface := - 1, wd_fd := - 1\<rparr>
      else st)"

text \<open>A missing path is the null pointer.\<close>

definition access_call :: "(string option \<Rightarrow> int) \<Rightarrow> string option \<Rightarrow> int" where
  "access_call libc path = (if path = Some WINDRVR then 0 else libc path)"

section \<open>The files of the kernel\<close>

text \<open>Streams are numbers, 0 is the null pointer.\<close>

record wd_files =
  fs_modules :: nat
  fs_modules_read :: nat
  fs_base :: nat
  fs_base_num :: nat

definition files_start :: wd_files where
  "files_start = \<lparr>fs_modules = 0, fs_modules_read = 0, fs_base = 0, fs_base_num = 0\<rparr>"

definition base_path :: "nat \<Rightarrow> string" where
  "base_path i = ''/proc/sys/dev/parport/parport'' @ show_nat i @ ''/base-addr''"

definition fopen_call ::
    "config_env \<Rightarrow> (string \<Rightarrow> nat) \<Rightarrow> string \<Rightarrow> config_state \<times> wd_files \<Rightarrow>
       config_stop + (nat \<times> config_state \<times> wd_files)" where
  "fopen_call env libc path s =
     (case s of (cf, fs) \<Rightarrow>
        case first_index (\<lambda>i. path = base_path i) [0..<4] of
          Some i \<Rightarrow>
            (case config_is_real_pport env (int i) cf of
               Inl e \<Rightarrow> Inl e
             | Inr (is_real, cf') \<Rightarrow>
                 let h = libc (if is_real then path else ''/dev/null'')
                 in Inr (h, cf', if h \<noteq> 0 then fs\<lparr>fs_base := h, fs_base_num := i\<rparr> else fs))
        | None \<Rightarrow>
            let h = libc path
            in Inr (h, cf, if path = ''/proc/modules'' then fs\<lparr>fs_modules := h, fs_modules_read := 0\<rparr> else fs))"

definition module_lines :: "string list" where
  "module_lines = [''windrvr6 1 0 - Live 0xdeadbeef'' @ [NL], ''parport_pc 1 0 - Live 0xdeadbeef'' @ [NL]]"

definition base_line :: "nat \<Rightarrow> string" where
  "base_line i = show_nat (i * 0x10) @ [CHR 0x09] @ show_nat (i * 0x10 + 0x400) @ [NL]"

text \<open>
  The size of the caller's buffer is passed on to the real \<^verbatim>\<open>fgets\<close> only: a line of these files
  that does not fit with its terminator overruns the buffer.
\<close>

definition put_line :: "nat \<Rightarrow> string \<Rightarrow> wd_files \<Rightarrow> wd_fault + (string option \<times> wd_files)" where
  "put_line n line fs = (if n \<le> length line then Inl Buffer_overrun else Inr (Some line, fs))"

definition fgets_call ::
    "(nat \<Rightarrow> nat \<Rightarrow> string option) \<Rightarrow> nat \<Rightarrow> nat \<Rightarrow> wd_files \<Rightarrow> wd_fault + (string option \<times> wd_files)" where
  "fgets_call libc n h fs =
     (if fs_modules fs = h
      then if fs_modules_read fs < length module_lines
           then put_line n (module_lines ! fs_modules_read fs) (fs\<lparr>fs_modules_read := fs_modules_read fs + 1\<rparr>)
           else Inr (None, fs)
      else if fs_base fs = h then put_line n (base_line (fs_base_num fs)) fs
      else Inr (libc n h, fs))"

definition fclose_call :: "(nat \<Rightarrow> int) \<Rightarrow> nat \<Rightarrow> wd_files \<Rightarrow> int \<times> wd_files" where
  "fclose_call libc h fs =
     (let fs1 = (if h = fs_modules fs then fs\<lparr>fs_modules := 0\<rparr> else fs);
          fs2 = (if h = fs_base fs1 then fs1\<lparr>fs_base := 0\<rparr> else fs1)
      in (libc h, fs2))"

end
