(* ===== verification/Usbdrv_Session.thy ===== *)
theory Usbdrv_Session
  imports Usbdrv_Driver
begin

text \<open>
  What a program sees that talks to the WinDriver device of \<^verbatim>\<open>usb-driver.c\<close>: the address it reads
  from the kernel's files selects the port it then registers, a registered cable answers blocks of
  transfers like a parallel port, the interrupt lock, the device an event finds, the module list.
\<close>

section \<open>Blocks of transfers\<close>

text \<open>One \<^verbatim>\<open>MULTI_TRANSFER\<close> after the other.\<close>

fun run_requests ::
    "('k, 'd, 'u) wd_env \<Rightarrow> (32 word \<Rightarrow> wd_data \<Rightarrow> int \<times> wd_data) \<Rightarrow> wd_transfer list list \<Rightarrow>
       ('k, 'd, 'u) wd_state \<Rightarrow> wd_fault + (wd_data list \<times> ('k, 'd, 'u) wd_state)" where
  "run_requests env libc [] st = Inr ([], st)"
| "run_requests env libc (trs # blocks) st =
     (case do_wdioctl env libc 0x98D MAGIC (Transfers trs) st of
        Inl e \<Rightarrow> Inl e
      | Inr (_, data, st') \<Rightarrow> map_sum id (map_prod (Cons data) id) (run_requests env libc blocks st'))"

lemma multi_transfer: "do_wdioctl env libc 0x98D MAGIC (Transfers trs) st = transfer_request env trs st"
  by (simp add: do_wdioctl_def request_code_def)

lemma card_register_code: "do_wdioctl env libc 0x9A4 MAGIC (Card cr) st = card_register_request env cr st"
  by (simp add: do_wdioctl_def request_code_def)

text \<open>Whichever driver the port has, the program gets its own block back with other bytes at most.\<close>

lemma answers_keep_shape:
  assumes "transfer_request env trs st = Inr (rc, data, st')"
  shows "\<exists>trs'. data = Transfers trs' \<and> tr_shape trs' = tr_shape trs \<and> length trs' = length trs"
proof -
  obtain i where i: "wd_pport st = Some i" using assms by (auto simp: transfer_request_def split: option.splits)
  show ?thesis
  proof (cases "pp_driver (port_entry st i)")
    case Parport
    then obtain trs' s where "data = Transfers trs'"
      "parport_transfer (en_ppdev env) (en_pc3 env) (ucast (wd_ppbase st)) (ucast (wd_ecpbase st)) trs
        (wd_parport st) = (rc, trs', s)"
      using assms i by (auto simp: transfer_request_def split: prod.splits)
    then show ?thesis
      using pp.keeps_shape [of "en_ppdev env" "en_pc3 env" "ucast (wd_ppbase st)" "ucast (wd_ecpbase st)" trs "wd_parport st"]
        pp.keeps_length [of "en_ppdev env" "en_pc3 env" "ucast (wd_ppbase st)" "ucast (wd_ecpbase st)" trs "wd_parport st"]
      by simp
  next
    case Jtagkey
    then obtain trs' s where "data = Transfers trs'"
      "jtagkey_transfer (en_ftdi env) (en_junk env) (ucast (wd_ppbase st)) trs (wd_jtagkey st) = Inr (rc, trs', s)"
      using assms i by (auto simp: transfer_request_def split: sum.splits prod.splits)
    then show ?thesis
      using jk.keeps_shape [of "en_ftdi env" "en_junk env" "ucast (wd_ppbase st)" trs "wd_jtagkey st"]
        jk.keeps_length [of "en_ftdi env" "en_junk env" "ucast (wd_ppbase st)" trs "wd_jtagkey st"]
      by simp
  qed
qed

lemma run_requests_blocks:
  assumes "wd_pport st = Some i" "pp_driver (port_entry st i) = Jtagkey"
    and "run_blocks (en_ftdi env) (en_junk env) (ucast (wd_ppbase st)) blocks (wd_jtagkey st) = Inr (out, s)"
  shows "run_requests env libc blocks st = Inr (map Transfers out, st\<lparr>wd_jtagkey := s\<rparr>)"
  using assms
proof (induction blocks arbitrary: st out)
  case Nil
  then show ?case by auto
next
  case (Cons trs blocks)
  from Cons.prems(3) obtain rc trs' s1 where
    t: "jtagkey_transfer (en_ftdi env) (en_junk env) (ucast (wd_ppbase st)) trs (wd_jtagkey st)
        = Inr (rc, trs', s1)"
    by (auto split: sum.splits)
  with Cons.prems(3) obtain out' where
    r: "run_blocks (en_ftdi env) (en_junk env) (ucast (wd_ppbase st)) blocks s1 = Inr (out', s)"
      "out = trs' # out'"
    by (cases "run_blocks (en_ftdi env) (en_junk env) (ucast (wd_ppbase st)) blocks s1") auto
  let ?st = "st\<lparr>wd_jtagkey := s1\<rparr>"
  have "run_requests env libc blocks ?st = Inr (map Transfers out', ?st\<lparr>wd_jtagkey := s\<rparr>)"
    by (rule Cons.IH) (use Cons.prems(1,2) r in \<open>simp_all add: port_entry_def\<close>)
  with t r Cons.prems(1,2) show ?case by (simp add: multi_transfer transfer_request_def)
qed

section \<open>Registering a port\<close>

definition OPENED :: "u16 \<times> u16 \<Rightarrow> ftdi_op list" where
  "OPENED ids =
     [Ftdi_init, Usb_open (fst ids) (snd ids), Usb_reset, Set_interface, Write_chunksize, Read_chunksize,
      Set_latency 1, Write_byte 0, Set_bitmode 0x1B, Set_baudrate 100000, Purge_buffers]"

lemma find_port_table:
  assumes "cf_table c = map (\<lambda>i. port_after es i (real_port i)) [0..<4]" "i < 4"
  shows "find_port (int i) c = Some i"
proof -
  have "pp_num (cf_table c ! j) = int j" if "j < 4" for j
    using that by (auto simp: assms(1) port_after_def ftdi_port_def real_port_def split: option.splits)
  then show ?thesis using assms(2) by (simp add: find_port_def first_index_Some assms(1))
qed

lemma as_int_small: "i < 4 \<Longrightarrow> as_int (of_nat (16 * i) div 0x10) = int i"
proof -
  assume "i < 4"
  then consider "i = 0" | "i = 1" | "i = 2" | "i = 3" by linarith
  then show ?thesis by cases (simp_all add: as_int_def)
qed

text \<open>The first registration, with the configuration not read yet.\<close>

lemma register_cable:
  assumes i: "i < 4" "last_entry (int i) es = Some ids"
    and config: "read_config (en_config env) (wd_config st) = Inr (errs, c)"
      "cf_read c" "cf_table c = map (\<lambda>i. port_after es i (real_port i)) [0..<4]"
    and good: "\<And>op d. fst (ft_call (en_ftdi env) op d) = 0"
    and st: "wd_jtagkey st = (d, jk)" "jk_latency jk \<noteq> 1"
  shows "card_register_request env \<lparr>cr_items = 1, cr_addr0 = of_nat (16 * i), cr_addr1 = 0, cr_card = 0\<rparr> st
    = Inr (0xFF, Card \<lparr>cr_items = 1, cr_addr0 = of_nat (16 * i), cr_addr1 = 0, cr_card = 0xFF\<rparr>,
        st\<lparr>wd_config := c, wd_pport := Some i, wd_ppbase := of_nat (16 * i),
           wd_jtagkey := (after_calls (en_ftdi env) (OPENED ids) d, jk\<lparr>jk_latency := 1\<rparr>)\<rparr>)"
proof -
  have n: "as_int (of_nat (16 * i) div 0x10) = int i" using i(1) by (rule as_int_small)
  have f: "find_port (int i) c = Some i" using config(3) i(1) by (rule find_port_table)
  have e: "cf_table c ! i = ftdi_port (real_port i) ids"
    using i by (simp add: config(3) port_after_def)
  have again: "read_config (en_config env) c = Inr ([], c)" by (simp add: read_config_def config(2))
  note lookups = config_get_def config_usb_vid_def config_usb_pid_def config_lookup_def
  have o: "jtagkey_open (en_ftdi env) (en_junk env) (fst ids) (snd ids) (d, jk)
      = (0xFF, after_calls (en_ftdi env) (OPENED ids) d, jk\<lparr>jk_latency := 1\<rparr>)"
    using st(2) by (simp add: jtagkey_open_good [OF good] OPENED_def)
  have g: "config_get (en_config env) (int i) (wd_config st) = Inr (Some i, c)"
    by (simp add: lookups config(1) f)
  have "open_port env i (int i) (st\<lparr>wd_config := c, wd_pport := Some i\<rparr>)
      = Inr (0xFF, st\<lparr>wd_config := c, wd_pport := Some i,
          wd_jtagkey := (after_calls (en_ftdi env) (OPENED ids) d, jk\<lparr>jk_latency := 1\<rparr>)\<rparr>)"
    by (simp add: open_port_def port_entry_def e ftdi_port_def lookups again f o st(1))
  with n g show ?thesis
    by (simp add: card_register_request_def Let_def)
qed

text \<open>
  C4. The whole way: a configuration file with entries for the second to the fourth port, a freshly
  loaded library, a chip that accepts the calls of the first open, has its pins at 0 after them, and
  samples before it drives (\<^verbatim>\<open>bitbang\<close>). Registering the card at the
  address of a configured port gives the handle 0xFF, and the blocks of transfers sent behind it
  are answered with the bytes a parallel port at that address without buffers gives, for blocks as
  \<^verbatim>\<open>blocks_ok\<close> has them: fewer than \<^verbatim>\<open>USBBUFSIZE\<close> transfers, and in a block that reads,
  but for the last transfer, a write to the data port repeats its value or changes a bit that has a
  pin, and a write elsewhere has the value that is on the data port. For other blocks the answers can be those of earlier samples
  (\<^verbatim>\<open>unmapped_write_reads_stale\<close>).
\<close>

theorem cable_session:
  assumes "\<forall>(num, ids) \<in> set es. num \<in> {1, 2, 3}" "ce_home (en_config env) = Some home"
    and "ce_files (en_config env) (config_path home) = Some (concat (map (\<lambda>e. print_entry e @ [NL]) es))"
    and "wd_config st = config_start" "wd_jtagkey st = (d, jk_start)"
    and "i < 4" "last_entry (int i) es = Some ids"
    and "\<And>op d. fst (ft_call (en_ftdi env) op d) = 0" "bitbang (en_ftdi env) drive look"
    and "drive 0 (after_calls (en_ftdi env) (OPENED ids) d) = after_calls (en_ftdi env) (OPENED ids) d"
    and "blocks_ok (of_nat (16 * i)) 0 blocks"
  shows "\<exists>out st1 st2.
    do_wdioctl env libc 0x9A4 MAGIC
      (Card \<lparr>cr_items = 1, cr_addr0 = of_nat (16 * i), cr_addr1 = 0, cr_card = 0\<rparr>) st
      = Inr (0xFF, Card \<lparr>cr_items = 1, cr_addr0 = of_nat (16 * i), cr_addr1 = 0, cr_card = 0xFF\<rparr>, st1)
    \<and> run_requests env libc blocks st1 = Inr (map Transfers out, st2)
    \<and> direct drive look (of_nat (16 * i)) (concat blocks) (0, after_calls (en_ftdi env) (OPENED ids) d)
      = (concat out, jk_abs drive (wd_jtagkey st2))"
proof -
  define c where "c = \<lparr>cf_read = True, cf_table = map (\<lambda>i. port_after es i (real_port i)) [0..<4]\<rparr>"
  define d1 where "d1 = after_calls (en_ftdi env) (OPENED ids) d"
  define jk where "jk = jk_start\<lparr>jk_latency := 1\<rparr>"
  define st1 where "st1 = st\<lparr>wd_config := c, wd_pport := Some i, wd_ppbase := of_nat (16 * i),
    wd_jtagkey := (d1, jk)\<rparr>"
  have rc: "read_config (en_config env) (wd_config st) = Inr ([], c)"
    using read_printed_config [OF assms(1-3)] assms(4) by (simp add: c_def)
  have reg: "card_register_request env \<lparr>cr_items = 1, cr_addr0 = of_nat (16 * i), cr_addr1 = 0, cr_card = 0\<rparr> st
    = Inr (0xFF, Card \<lparr>cr_items = 1, cr_addr0 = of_nat (16 * i), cr_addr1 = 0, cr_card = 0xFF\<rparr>, st1)"
    using register_cable [OF assms(6,7) rc _ _ assms(8,5)] by (simp add: c_def st1_def d1_def jk_def jk_start_def)
  have e: "pp_driver (port_entry st1 i) = Jtagkey"
    using assms(6,7) by (simp add: port_entry_def st1_def c_def port_after_def ftdi_port_def)
  have base: "ucast (of_nat (16 * i) :: u64) = (of_nat (16 * i) :: 32 word)"
  proof -
    from assms(6) consider "i = 0" | "i = 1" | "i = 2" | "i = 3" by linarith
    then show ?thesis by cases simp_all
  qed
  have jk: "jk_settled drive (d1, jk)" "jk_abs drive (d1, jk) = (0, d1)" "jk_pending jk = []" "jk_write jk = 0"
    using assms(10) by (simp_all add: jk_settled_def jk_def jk_start_def jk_abs_def pins_def bit_of_def d1_def)
  then obtain out s where
    "run_blocks (en_ftdi env) (en_junk env) (of_nat (16 * i)) blocks (d1, jk) = Inr (out, s)"
    "direct drive look (of_nat (16 * i)) (concat blocks) (0, d1) = (concat out, jk_abs drive s)"
    using run_blocks_direct [OF assms(9) jk(1), of "of_nat (16 * i)" blocks "en_junk env"] assms(11) by auto
  with run_requests_blocks [of st1 i env blocks out s libc] e base reg show ?thesis
    by (fastforce simp: st1_def card_register_code d1_def)
qed

text \<open>An environment with the wired chip and one configured cable.\<close>

definition demo_env :: "(unit, u8, unit) wd_env" where
  "demo_env = \<lparr>en_config = \<lparr>ce_home = Some ''/h'',
       ce_files = \<lambda>_. Some (concat (map (\<lambda>e. print_entry e @ [NL]) [(1, 0x403, 0xCFF8)]))\<rparr>,
     en_ppdev = \<lparr>pd_open = \<lambda>p k. (- 1, k), pd_ioctl = \<lambda>fd op v k. (- 1, v, k), pd_close = \<lambda>fd k. k\<rparr>,
     en_pc3 = False, en_ftdi = wire_chip, en_junk = 7,
     en_usb = \<lparr>lu_scan = \<lambda>u. ([], u), lu_open = \<lambda>dev u. (0, u), lu_claim = \<lambda>h n u. (- 1, u),
       lu_set_alt = \<lambda>h a u. (- 1, u), lu_release = \<lambda>h n u. u, lu_close = \<lambda>h u. u,
       lu_control = \<lambda>h t r v i b n to u. (- 1, b, u), lu_bulk_read = \<lambda>h p b n to u. (- 1, b, u),
       lu_bulk_write = \<lambda>h p b n to u. (- 1, b, u)\<rparr>,
     en_version = ''1''\<rparr>"

definition demo_state :: "(unit, u8, unit) wd_state" where
  "demo_state = \<lparr>wd_fd = - 1, wd_ppbase = 0, wd_ecpbase = 0, wd_pport = None, wd_config = config_start,
     wd_parport = (parport_start, ()), wd_jtagkey = (0, jk_start), wd_usb = (), wd_busses = [],
     wd_device = None, wd_handle = 0, wd_interface = - 1, wd_card_type = 0, wd_ints = False,
     wd_locked = False\<rparr>"

definition demo_requests :: "wd_transfer list list" where
  "demo_requests = [[\<lparr>tr_port = 0x10, tr_cmd = PP_WRITE, tr_byte = 0x10\<rparr>],
     [\<lparr>tr_port = 0x10, tr_cmd = PP_WRITE, tr_byte = 0x11\<rparr>,
      \<lparr>tr_port = 0x11, tr_cmd = PP_READ, tr_byte = 0\<rparr>]]"

lemma cable_session_witness:
  "\<exists>out st1 st2.
    do_wdioctl demo_env (\<lambda>r data. (0, data)) 0x9A4 MAGIC
      (Card \<lparr>cr_items = 1, cr_addr0 = of_nat (16 * 1), cr_addr1 = 0, cr_card = 0\<rparr>) demo_state
      = Inr (0xFF, Card \<lparr>cr_items = 1, cr_addr0 = of_nat (16 * 1), cr_addr1 = 0, cr_card = 0xFF\<rparr>, st1)
    \<and> run_requests demo_env (\<lambda>r data. (0, data)) demo_requests st1 = Inr (map Transfers out, st2)
    \<and> direct (\<lambda>b d. b) wire_look (of_nat (16 * 1)) (concat demo_requests)
        (0, after_calls (en_ftdi demo_env) (OPENED (0x403, 0xCFF8)) 0)
      = (concat out, jk_abs (\<lambda>b d. b) (wd_jtagkey st2))"
proof (rule cable_session [where es = "[(1, 0x403, 0xCFF8)]" and home = "''/h''"])
  show "bitbang (en_ftdi demo_env) (\<lambda>b d. b) wire_look" by (simp add: demo_env_def wire_bitbang)
  show "blocks_ok (of_nat (16 * 1)) 0 demo_requests"
    by (simp add: demo_requests_def nread_def is_read_def PP_READ_def PP_WRITE_def USBBUFSIZE_def
        last_value_def port_at_def pins_def bit_of_def)
  show "fst (ft_call (en_ftdi demo_env) op d) = 0" for op d by (simp add: demo_env_def wire_chip_def)
  show "0 = after_calls (en_ftdi demo_env) (OPENED (0x403, 0xCFF8)) 0"
    by (simp add: demo_env_def wire_chip_def after_calls_def OPENED_def)
qed (simp_all add: demo_env_def demo_state_def)

section \<open>From the kernel's files to a port\<close>

lemma base_path_inject: "base_path i = base_path j \<longleftrightarrow> i = j"
  by (auto simp: base_path_def dest: arg_cong [where f = digits_val] simp: digits_val_show_nat)

lemma base_path_index: "i < 4 \<Longrightarrow> first_index (\<lambda>j. base_path i = base_path j) [0..<4] = Some i"
  by (simp add: base_path_inject first_index_Some)

lemma base_numbers:
  "show_nat 0 = ''0''" "show_nat 16 = ''16''" "show_nat 32 = ''32''" "show_nat 48 = ''48''"
  "show_nat 1024 = ''1024''" "show_nat 1040 = ''1040''" "show_nat 1056 = ''1056''" "show_nat 1072 = ''1072''"
  by code_simp+

lemma base_line_scan:
  assumes "i < 4"
  shows "length (base_line i) < 16 \<and> (\<exists>rest. scan_int (base_line i) = Some (int (16 * i), rest))"
proof
  from assms consider "i = 0" | "i = 1" | "i = 2" | "i = 3" by linarith
  then show "length (base_line i) < 16" by cases (simp_all add: base_line_def base_numbers)
  let ?rest = "CHR 0x09 # show_nat (i * 0x10 + 0x400) @ [NL]"
  have "scan_int ([] @ show_int (int (16 * i)) @ ?rest) = Some (int (16 * i), ?rest)"
    by (rule scan_show_int) (simp_all add: isdigit_def)
  moreover have "show_int (int (16 * i)) = show_nat (i * 16)"
    by (simp add: show_int_def nat_mult_distrib mult.commute)
  ultimately show "\<exists>rest. scan_int (base_line i) = Some (int (16 * i), rest)"
    by (auto simp: base_line_def)
qed

text \<open>
  Reading the base address of a port from the kernel's file, with whatever buffer of at least 16
  bytes, and registering a card at the number read there finds that same port: for the real ports
  and for those that are cables, whose file need not exist.
\<close>

theorem base_address_selects_port:
  assumes "i < 4" "cf_read c" "cf_table c = map (\<lambda>i. port_after es i (real_port i)) [0..<4]"
    and "\<And>p. libc p = h" "h \<noteq> 0" "fs_modules fs \<noteq> h" "16 \<le> n"
  shows "\<exists>fs' line rest. fopen_call env libc (base_path i) (c, fs) = Inr (h, c, fs')
    \<and> fgets_call gets n h fs' = Inr (Some line, fs')
    \<and> scan_int line = Some (int (16 * i), rest)
    \<and> config_get env (as_int (of_nat (16 * i) div 0x10)) c = Inr (Some i, c)"
proof -
  have f: "find_port (int i) c = Some i" by (rule find_port_table [OF assms(3,1)])
  have again: "read_config env c = Inr ([], c)" by (simp add: read_config_def assms(2))
  have o: "fopen_call env libc (base_path i) (c, fs) = Inr (h, c, fs\<lparr>fs_base := h, fs_base_num := i\<rparr>)"
    by (simp add: fopen_call_def base_path_index [OF assms(1)] config_is_real_pport_def config_lookup_def
        again f assms(4,5) Let_def)
  obtain rest where l: "length (base_line i) < 16" "scan_int (base_line i) = Some (int (16 * i), rest)"
    using base_line_scan [OF assms(1)] by blast
  then have "fgets_call gets n h (fs\<lparr>fs_base := h, fs_base_num := i\<rparr>)
      = Inr (Some (base_line i), fs\<lparr>fs_base := h, fs_base_num := i\<rparr>)"
    using assms(6,7) by (simp add: fgets_call_def put_line_def)
  moreover have "config_get env (as_int (of_nat (16 * i) div 0x10)) c = Inr (Some i, c)"
    using as_int_small [OF assms(1)] by (simp add: config_get_def again f)
  ultimately show ?thesis using o l(2) by blast
qed

lemma base_address_selects_port_witness:
  "\<exists>fs' line rest. fopen_call (en_config demo_env) (\<lambda>p. 5) (base_path 2)
        (\<lparr>cf_read = True, cf_table = map (\<lambda>i. port_after [] i (real_port i)) [0..<4]\<rparr>, files_start) =
      Inr (5, \<lparr>cf_read = True, cf_table = map (\<lambda>i. port_after [] i (real_port i)) [0..<4]\<rparr>, fs')
    \<and> fgets_call (\<lambda>n h. None) 64 5 fs' = Inr (Some line, fs')
    \<and> scan_int line = Some (int (16 * 2), rest)
    \<and> config_get (en_config demo_env) (as_int (of_nat (16 * 2) div 0x10))
        \<lparr>cf_read = True, cf_table = map (\<lambda>i. port_after [] i (real_port i)) [0..<4]\<rparr>
      = Inr (Some 2, \<lparr>cf_read = True, cf_table = map (\<lambda>i. port_after [] i (real_port i)) [0..<4]\<rparr>)"
  by (rule base_address_selects_port [where es = "[]"]) (simp_all add: files_start_def)

section \<open>The interrupt lock\<close>

fun disables :: "nat \<Rightarrow> interrupt \<Rightarrow> ('k, 'd, 'u) wd_state \<Rightarrow> interrupt \<times> ('k, 'd, 'u) wd_state" where
  "disables 0 it st = (it, st)"
| "disables (Suc n) it st = (case int_disable it st of (it', st') \<Rightarrow> disables n it' st')"

lemma disables_state:
  "wd_locked (snd (disables n it st)) = (if even n then wd_locked st else \<not> wd_locked st)
    \<and> wd_device (snd (disables n it st)) = wd_device st"
  by (induction n arbitrary: it st) (simp_all add: int_disable_def)

text \<open>
  After the interrupts have been enabled and then disabled n times, a wait that has to take the
  lock (there is no device, or it has been told of an event before) waits for ever exactly when n is
  even: a second disable in a row takes the lock again and nobody gives it back.
\<close>

theorem wait_blocks_on_even_disables:
  assumes "wd_device st = None \<or> it_counter w \<noteq> 0"
  shows "int_wait w (snd (disables n it' (snd (int_enable it st))))
    = (if even n then Inl Waits_for_lock else Inr w)"
  using assms disables_state [of n it' "snd (int_enable it st)"]
  by (auto simp: int_wait_def int_enable_def)

lemma wait_blocks_on_even_disables_witness:
  "int_wait \<lparr>it_enabled = 1, it_counter = 1, it_stopped = 0\<rparr>
     (snd (disables 2 \<lparr>it_enabled = 0, it_counter = 0, it_stopped = 0\<rparr>
        (snd (int_enable \<lparr>it_enabled = 0, it_counter = 0, it_stopped = 0\<rparr> demo_state)))) = Inl Waits_for_lock"
  by (subst wait_blocks_on_even_disables) (simp_all add: demo_state_def)

section \<open>Events\<close>

definition accepted :: "match_table \<times> usb_device \<Rightarrow> bool" where
  "accepted p \<longleftrightarrow> device_fits (fst p) (snd p) \<and> configs_fit (fst p) (de_configs (snd p)) = Some True"

lemma register_devices_last:
  assumes "\<forall>(m, dev) \<in> set ps. \<forall>c \<in> set (de_configs dev). co_interfaces c \<noteq> []"
  shows "register_devices ct ps st = Inr
    (if filter accepted ps = [] then st
     else st\<lparr>wd_device := Some (snd (last (filter accepted ps))), wd_card_type := ct\<rparr>)"
  using assms
proof (induction ps arbitrary: st)
  case (Cons p ps)
  obtain m dev where p: "p = (m, dev)" by (cases p)
  have "configs_fit m cs \<noteq> None" if "\<forall>c \<in> set cs. co_interfaces c \<noteq> []" for cs
    using that by (induction cs) (auto split: list.splits)
  then obtain hit where "configs_fit m (de_configs dev) = Some hit" using Cons.prems p by fastforce
  then have "register_one ct m dev st
      = Inr (if accepted p then st\<lparr>wd_device := Some dev, wd_card_type := ct\<rparr> else st)"
    by (simp add: register_one_def accepted_def p)
  with Cons.IH Cons.prems show ?case by (simp add: p)
qed simp

text \<open>
  Registering for events finds the last device on the buses that one of the match tables
  accepts, by its own descriptor and by a setting of the first interface of one of its
  configurations, and the event pulled next carries that device's numbers; without one, the device
  of an earlier registration stays.
\<close>

theorem event_finds_last_match:
  assumes "\<forall>dev \<in> set (concat (wd_busses st)). \<forall>c \<in> set (de_configs dev). co_interfaces c \<noteq> []"
    and "pairs = concat (map (\<lambda>m. map (Pair m) (concat (wd_busses st))) (ev_matches ev))"
  shows "\<exists>st'. event_register_request ev st = Inr (ev\<lparr>ev_handle := ev_handle ev + 1\<rparr>, st')
    \<and> wd_device st' = (if filter accepted pairs = [] then wd_device st
                        else Some (snd (last (filter accepted pairs))))
    \<and> (filter accepted pairs \<noteq> [] \<longrightarrow> wd_card_type st' = ev_card_type ev
        \<and> (\<forall>ev' pulled. event_pull_request ev' st' = Inr pulled \<longrightarrow>
             ev_matches pulled \<noteq> []
             \<and> device_fits (hd (ev_matches pulled)) (snd (last (filter accepted pairs)))))"
proof -
  have "\<forall>(m, dev) \<in> set pairs. \<forall>c \<in> set (de_configs dev). co_interfaces c \<noteq> []"
    using assms(1) by (auto simp: assms(2))
  note reg = register_devices_last [OF this, of "ev_card_type ev" st]
  have "device_fits (hd (ev_matches pulled)) dev \<and> ev_matches pulled \<noteq> []"
    if "event_pull_request ev' st' = Inr pulled" "wd_device st' = Some dev"
    for ev' pulled dev and st' :: "('a, 'b, 'c) wd_state"
    using that by (auto simp: event_pull_request_def device_fits_def split: option.splits)
  with reg show ?thesis
    by (auto simp: event_register_request_def assms(2) [symmetric])
qed

lemma event_finds_last_match_witness:
  "\<exists>st'. event_register_request
      \<lparr>ev_handle = 0, ev_action = 0, ev_id = 0, ev_card_type = 2, ev_unique = 0,
        ev_matches = [\<lparr>mt_vendor = 0x3FD, mt_product = 8, mt_class = 0xFF, mt_subclass = 0, mt_iclass = 0xFF,
          mt_isubclass = 0, mt_iprotocol = 0\<rparr>]\<rparr> (demo_state\<lparr>wd_busses := [[demo_device]]\<rparr>)
    = Inr (\<lparr>ev_handle = 1, ev_action = 0, ev_id = 0, ev_card_type = 2, ev_unique = 0,
        ev_matches = [\<lparr>mt_vendor = 0x3FD, mt_product = 8, mt_class = 0xFF, mt_subclass = 0, mt_iclass = 0xFF,
          mt_isubclass = 0, mt_iprotocol = 0\<rparr>]\<rparr>, st')
    \<and> wd_device st' = Some demo_device"
proof -
  let ?m = "\<lparr>mt_vendor = 0x3FD, mt_product = 8, mt_class = 0xFF, mt_subclass = 0, mt_iclass = 0xFF,
          mt_isubclass = 0, mt_iprotocol = 0\<rparr>"
  let ?ev = "\<lparr>ev_handle = 0, ev_action = 0, ev_id = 0, ev_card_type = 2, ev_unique = 0, ev_matches = [?m]\<rparr>"
  have "accepted (?m, demo_device)"
    by (simp add: accepted_def device_fits_def alt_fits_def demo_device_def)
  then show ?thesis
    using event_finds_last_match [of "demo_state\<lparr>wd_busses := [[demo_device]]\<rparr>" "[(?m, demo_device)]" ?ev]
    by (auto simp: demo_device_def)
qed

end
