(* ===== verification/Wdusb_Device.thy ===== *)
theory Wdusb_Device
  imports Leap_Prelude Usbdrv_Info
begin

text \<open>
  \<^verbatim>\<open>windrvr/wdusb_linux.c\<close> of the WinDriver kernel module, in the 64-bit build for kernel 2.6: status
  codes, registration of drivers, arrival and departure of devices, pipes, properties and the
  information about a device. The part of the module that exists only as a binary object, and the
  kernel, answer through arguments. Devices and their descriptors are those of Usbdrv_Info.
\<close>

section \<open>Status codes\<close>

definition WD_STATUS_SUCCESS :: u64 where "WD_STATUS_SUCCESS = 0"
definition WD_INSUFFICIENT_RESOURCES :: u64 where "WD_INSUFFICIENT_RESOURCES = 0x20000005"
definition WD_SYSTEM_INTERNAL_ERROR :: u64 where "WD_SYSTEM_INTERNAL_ERROR = 0x20000007"
definition WD_NOT_IMPLEMENTED :: u64 where "WD_NOT_IMPLEMENTED = 0x2000000A"
definition WD_DEVICE_NOT_FOUND :: u64 where "WD_DEVICE_NOT_FOUND = 0x2000000F"
definition WD_TIME_OUT_EXPIRED :: u64 where "WD_TIME_OUT_EXPIRED = 0x20000015"
definition WD_INVALID_PARAMETER :: u64 where "WD_INVALID_PARAMETER = 0x2000001B"
definition WD_TRY_AGAIN :: u64 where "WD_TRY_AGAIN = 0x2000001D"

text \<open>The codes of the bus are negative numbers, extended to the width of a status.\<close>

definition usbd :: "u32 \<Rightarrow> u64" where "usbd code = scast code"

definition EPIPE :: int where "EPIPE = 32"
definition EILSEQ :: int where "EILSEQ = 84"
definition EPROTO :: int where "EPROTO = 71"
definition EOVERFLOW :: int where "EOVERFLOW = 75"
definition EREMOTEIO :: int where "EREMOTEIO = 121"
definition ECOMM :: int where "ECOMM = 70"
definition ENOSR :: int where "ENOSR = 63"
definition ETIMEDOUT :: int where "ETIMEDOUT = 110"
definition EINVAL :: int where "EINVAL = 22"
definition ENOMEM :: int where "ENOMEM = 12"
definition ENODEV :: int where "ENODEV = 19"
definition ECONNABORTED :: int where "ECONNABORTED = 103"
definition ECONNRESET :: int where "ECONNRESET = 104"
definition ENOENT :: int where "ENOENT = 2"
definition EBUSY :: int where "EBUSY = 16"
definition EAGAIN :: int where "EAGAIN = 11"
definition ENXIO :: int where "ENXIO = 6"
definition EXDEV :: int where "EXDEV = 18"
definition EINPROGRESS :: int where "EINPROGRESS = 115"

lemmas errnos = EPIPE_def EILSEQ_def EPROTO_def EOVERFLOW_def EREMOTEIO_def ECOMM_def ENOSR_def ETIMEDOUT_def
  EINVAL_def ENOMEM_def ENODEV_def ECONNABORTED_def ECONNRESET_def ENOENT_def EBUSY_def EAGAIN_def ENXIO_def
  EXDEV_def EINPROGRESS_def

lemmas wd_codes = WD_STATUS_SUCCESS_def WD_INSUFFICIENT_RESOURCES_def WD_SYSTEM_INTERNAL_ERROR_def
  WD_NOT_IMPLEMENTED_def WD_DEVICE_NOT_FOUND_def WD_TIME_OUT_EXPIRED_def WD_INVALID_PARAMETER_def WD_TRY_AGAIN_def usbd_def

definition map_error_status :: "int \<Rightarrow> u64" where
  "map_error_status err =
     (if err = 0 then WD_STATUS_SUCCESS
      else if err = - EPIPE then usbd 0xC0000004
      else if err = - EILSEQ then usbd 0xC0000001
      else if err = - EPROTO then usbd 0xC0000002
      else if err = - EOVERFLOW then usbd 0xC0000008
      else if err = - EREMOTEIO then usbd 0xC0000009
      else if err = - ECOMM then usbd 0xC000000C
      else if err = - ENOSR then usbd 0xC000000D
      else if err = - ETIMEDOUT then WD_TIME_OUT_EXPIRED
      else if err = - EINVAL then WD_INVALID_PARAMETER
      else if err = - ENOMEM then WD_INSUFFICIENT_RESOURCES
      else if err = - ENODEV then WD_DEVICE_NOT_FOUND
      else if err = - ECONNABORTED \<or> err = - ECONNRESET \<or> err = - ENOENT then usbd 0xC0010000
      else if err = - EBUSY then usbd 0x80000400
      else if err = - EAGAIN then WD_TRY_AGAIN
      else if err = - ENXIO then usbd 0x80000500
      else if err = - EXDEV then usbd 0xC0000B00
      else WD_SYSTEM_INTERNAL_ERROR)"

section \<open>Registration\<close>

record wdu_match =
  mt_vendor :: u16
  mt_product :: u16
  mt_class :: u8
  mt_subclass :: u8
  mt_int_class :: u8
  mt_int_subclass :: u8
  mt_int_protocol :: u8

definition get_match_flag :: "wdu_match \<Rightarrow> u32" where
  "get_match_flag mt =
     (if mt_vendor mt \<noteq> 0 then 0x0001 else 0) OR (if mt_product mt \<noteq> 0 then 0x0002 else 0) OR
     (if mt_class mt \<noteq> 0 then 0x0010 else 0) OR (if mt_subclass mt \<noteq> 0 then 0x0020 else 0) OR
     (if mt_int_class mt \<noteq> 0 then 0x0080 else 0) OR (if mt_int_subclass mt \<noteq> 0 then 0x0100 else 0) OR
     (if mt_int_protocol mt \<noteq> 0 then 0x0200 else 0)"

text \<open>An entry of the kernel's table; the fields that are not set stay 0.\<close>

record usb_id =
  id_flags :: u32
  id_vendor :: u16
  id_product :: u16
  id_class :: u8
  id_int_class :: u8
  id_info :: u64

definition zero_id :: usb_id where
  "zero_id = \<lparr>id_flags = 0, id_vendor = 0, id_product = 0, id_class = 0, id_int_class = 0, id_info = 0\<rparr>"

definition id_of :: "wdu_match \<Rightarrow> usb_id" where
  "id_of mt = (let i = zero_id\<lparr>id_flags := get_match_flag mt, id_vendor := mt_vendor mt, id_product := mt_product mt\<rparr> in
     if id_flags i = 0 then i\<lparr>id_info := 1\<rparr> else i)"

text \<open>The drivers known to the kernel: number in the name and table; the blocks of memory in use.\<close>

record wd_usb =
  name_id :: nat
  drivers :: "(nat \<times> usb_id list) list"
  blocks :: nat

text \<open>Whether the three allocations succeed and what \<^verbatim>\<open>usb_register\<close> answers.\<close>

definition OS_register_devices :: "bool \<Rightarrow> bool \<Rightarrow> bool \<Rightarrow> int \<Rightarrow> wdu_match list \<Rightarrow> wd_usb \<Rightarrow> u64 \<times> (nat \<times> usb_id list) option \<times> wd_usb" where
  "OS_register_devices id_ok driver_ok name_ok answer tables s =
     (if \<not> id_ok then (WD_INSUFFICIENT_RESOURCES, None, s)
      else if \<not> driver_ok \<or> \<not> name_ok then (map_error_status (- ENOMEM), None, s)
      else let d = (name_id s, map id_of tables @ [zero_id]); s1 = s\<lparr>name_id := name_id s + 1\<rparr> in
        if answer \<noteq> 0 then (map_error_status answer, None, s1)
        else (WD_STATUS_SUCCESS, Some d, s1\<lparr>drivers := d # drivers s1, blocks := blocks s1 + 3\<rparr>))"

definition OS_unregister_devices :: "(nat \<times> usb_id list) option \<Rightarrow> wd_usb \<Rightarrow> u64 \<times> wd_usb" where
  "OS_unregister_devices handle s =
     (WD_STATUS_SUCCESS, case handle of None \<Rightarrow> s | Some d \<Rightarrow> s\<lparr>drivers := remove1 d (drivers s), blocks := blocks s - 3\<rparr>)"

section \<open>Arrival and departure\<close>

text \<open>
  An interface: its data (the device, connected or not), the device blocks in use, and what the
  binary part was told: attached with interface and configuration number, or detached.
\<close>

datatype wd_note = Attached u8 u8 | Detached bool

record wd_iface =
  intfdata :: "bool option"
  dev_blocks :: nat
  told :: "wd_note list"

definition usb_generic_probe :: "bool \<Rightarrow> int \<Rightarrow> usb_device \<Rightarrow> usb_interface \<Rightarrow> wd_iface \<Rightarrow> int \<times> wd_iface" where
  "usb_generic_probe alloc_ok attach dev iface s =
     (if \<not> alloc_ok then (- ENOMEM, s\<lparr>intfdata := None\<rparr>)
      else let s1 = s\<lparr>dev_blocks := dev_blocks s + 1,
             told := told s @ [Attached (al_interface (iface ! 0)) (co_value (de_configs dev ! 0))]\<rparr> in
        if attach \<noteq> 0 then (attach, s1\<lparr>dev_blocks := dev_blocks s, intfdata := None\<rparr>)
        else (0, s1\<lparr>intfdata := Some True\<rparr>))"

text \<open>The binary part sees the device as not connected before it is freed.\<close>

definition usb_generic_disconnect :: "wd_iface \<Rightarrow> wd_iface option" where
  "usb_generic_disconnect s = (case intfdata s of None \<Rightarrow> None
     | Some _ \<Rightarrow> Some (s\<lparr>intfdata := None, told := told s @ [Detached False], dev_blocks := dev_blocks s - 1\<rparr>))"

section \<open>Pipes and properties\<close>

datatype usb_xfer = Xfer_Control | Xfer_Isoc | Xfer_Bulk | Xfer_Int

definition xfer_type :: "u8 \<Rightarrow> usb_xfer" where
  "xfer_type attributes = (let t = attributes AND 3 in
     if t = 0 then Xfer_Control else if t = 1 then Xfer_Isoc else if t = 2 then Xfer_Bulk else Xfer_Int)"

text \<open>A pipe as the kernel's macros make it, or 0: a control endpoint gets none.\<close>

datatype usb_pipe = No_Pipe | Rcv_Pipe usb_xfer u8 | Snd_Pipe usb_xfer u8

definition create_usb_pipe :: "usb_endpoint \<Rightarrow> usb_pipe" where
  "create_usb_pipe e =
     (case xfer_type (en_attributes e) of Xfer_Control \<Rightarrow> No_Pipe
      | t \<Rightarrow> if en_address e AND 0x80 \<noteq> 0 then Rcv_Pipe t (en_address e) else Snd_Pipe t (en_address e))"

definition OS_open_pipe :: "usb_endpoint \<Rightarrow> u64 \<times> usb_pipe" where
  "OS_open_pipe e = (WD_STATUS_SUCCESS, create_usb_pipe e)"

definition OS_reset_pipe :: "int \<Rightarrow> u64" where
  "OS_reset_pipe answer = map_error_status answer"

datatype wd_property = Property_Address | Property_Bus_Number | Other_Property

text \<open>The status, the size to report, and what is stored in the buffer, if there is one.\<close>

definition OS_get_device_property :: "u32 \<Rightarrow> u32 \<Rightarrow> bool \<Rightarrow> u64 \<Rightarrow> wd_property \<Rightarrow> u64 \<times> u64 \<times> u32 option" where
  "OS_get_device_property devnum busnum buf n prop =
     (if prop = Other_Property then (WD_NOT_IMPLEMENTED, n, None)
      else if \<not> buf then (WD_STATUS_SUCCESS, 4, None)
      else if n < 4 then (WD_INVALID_PARAMETER, 4, None)
      else (WD_STATUS_SUCCESS, 4, Some (if prop = Property_Address then devnum else busnum)))"

section \<open>The information about a device\<close>

definition alt_size :: "usb_alt \<Rightarrow> nat" where
  "alt_size a = ALT_SIZE + (ENDPOINT_SIZE + PIPE_SIZE) * length (al_endpoints a)"

fun config_size :: "usb_config \<Rightarrow> nat" where
  "config_size c = CONFIG_SIZE + INTERFACE_SIZE * length (co_interfaces c) +
     sum_list (map (\<lambda>i. sum_list (map alt_size i)) (co_interfaces c))"

definition calc_device_info_size :: "usb_device \<Rightarrow> nat" where
  "calc_device_info_size dev = INFO_SIZE + sum_list (map config_size (de_configs dev))"

text \<open>The blocks asked of the allocator, in the order of the loops.\<close>

definition alt_requests :: "usb_alt \<Rightarrow> nat list" where
  "alt_requests a = [ENDPOINT_SIZE * length (al_endpoints a), PIPE_SIZE * length (al_endpoints a)]"

definition interface_requests :: "usb_interface \<Rightarrow> nat list" where
  "interface_requests i = ALT_SIZE * length i # concat (map alt_requests i)"

definition config_requests :: "usb_config \<Rightarrow> nat list" where
  "config_requests c = INTERFACE_SIZE * length (co_interfaces c) # concat (map interface_requests (co_interfaces c))"

definition info_requests :: "usb_device \<Rightarrow> nat list" where
  "info_requests dev = [INFO_SIZE, CONFIG_SIZE * length (de_configs dev)] @ concat (map config_requests (de_configs dev))"

text \<open>
  The active configuration, interface and alternate setting, in a buffer that was cleared: each
  assignment of the loops overwrites the one before. An interface is named by its configuration and
  its place there.
\<close>

definition active_config :: "u64 \<Rightarrow> usb_device \<Rightarrow> nat option" where
  "active_config v dev = fold (\<lambda>(i, c) acc. if ucast (co_value c) = v then Some i else acc)
     (enumerate 0 (de_configs dev)) None"

definition all_interfaces :: "usb_device \<Rightarrow> ((nat \<times> nat) \<times> usb_interface) list" where
  "all_interfaces dev = concat (map (\<lambda>(i, c). map (\<lambda>(j, f). ((i, j), f)) (enumerate 0 (co_interfaces c)))
     (enumerate 0 (de_configs dev)))"

definition interface_number :: "usb_interface \<Rightarrow> u64" where
  "interface_number f = ucast (al_interface (f ! 0))"

definition active_interface :: "u64 \<Rightarrow> usb_device \<Rightarrow> (nat \<times> nat) option" where
  "active_interface n dev = fold (\<lambda>(p, f) acc. if interface_number f = n then Some p else acc) (all_interfaces dev) None"

definition active_alt :: "u64 \<Rightarrow> u64 \<Rightarrow> usb_device \<Rightarrow> (nat \<times> nat \<times> nat) option" where
  "active_alt n setting dev = fold (\<lambda>((i, j), f) acc. if interface_number f = n
     then fold (\<lambda>(k, a) acc. if setting = ucast (al_setting a) then Some (i, j, k) else acc) (enumerate 0 f) acc else acc)
     (all_interfaces dev) None"

datatype info_answer = Info_Size nat | Info_Status u64 | Info_Oops
  | Info_Filled "nat list" "nat option" "nat \<times> nat" "nat \<times> nat \<times> nat"

text \<open>Without an interface of that number the first one of the active configuration is taken, if there is one.\<close>

definition OS_get_device_info :: "bool \<Rightarrow> bool \<Rightarrow> u64 \<Rightarrow> u64 \<Rightarrow> u64 \<Rightarrow> usb_device \<Rightarrow> info_answer" where
  "OS_get_device_info buf init_ok config ifnum setting dev =
     (if \<not> buf then Info_Size (calc_device_info_size dev)
      else if \<not> init_ok then Info_Status WD_INSUFFICIENT_RESOURCES
      else let c = active_config config dev;
               f = (case active_interface ifnum dev of Some p \<Rightarrow> Some p | None \<Rightarrow> map_option (\<lambda>i. (i, 0)) c) in
        case f of None \<Rightarrow> Info_Oops
        | Some (i, j) \<Rightarrow> Info_Filled (info_requests dev) c (i, j)
            (case active_alt ifnum setting dev of Some p \<Rightarrow> p | None \<Rightarrow> (i, j, 0)))"

section \<open>Choosing an alternate setting\<close>

text \<open>The index is a byte: with more than 255 settings the search may go round for ever.\<close>

partial_function (option) find_alt_loop :: "usb_interface \<Rightarrow> int \<Rightarrow> u8 \<Rightarrow> int option" where
  "find_alt_loop f alt_num i =
     (if unat i < length f
      then if uint (al_setting (f ! unat i)) = alt_num then Some (int (unat i)) else find_alt_loop f alt_num (i + 1)
      else Some (- 1))"

definition find_alt_set_index :: "usb_interface \<Rightarrow> int \<Rightarrow> int option" where
  "find_alt_set_index f alt_num = find_alt_loop f alt_num 0"

text \<open>The endpoints with their pipes, then the setting itself, at three places of a buffer.\<close>

definition set_pipe_info :: "nat \<Rightarrow> usb_endpoint \<Rightarrow> info_store list" where
  "set_pipe_info off e =
     [number off 8 (en_address e), number (off + 8) 8 (max_packet_size (en_max_packet e)),
      number (off + 16) 8 (en_attributes e AND 3),
      number (off + 24) 8 (if en_attributes e AND 3 = 0 then 3 else if en_address e AND 0x80 \<noteq> 0 then 1 else 2 :: u64),
      number (off + 32) 8 (en_interval e)]"

definition fill_alt_settings_data :: "nat \<Rightarrow> nat \<Rightarrow> nat \<Rightarrow> usb_alt \<Rightarrow> info_store list" where
  "fill_alt_settings_data off endpoints pipes a =
     concat (map (\<lambda>i. endpoint_stores (endpoints + ENDPOINT_SIZE * i) (al_endpoints a ! i) @
       set_pipe_info (pipes + PIPE_SIZE * i) (al_endpoints a ! i)) [0..<length (al_endpoints a)]) @ alt_stores off a"

text \<open>
  A setting in a buffer of its own: the sizes of the blocks asked for, that of the pipes with the size
  of a pointer, and the stores when the allocator gives one block after the other.
\<close>

definition set_interface_requests :: "usb_alt \<Rightarrow> nat list" where
  "set_interface_requests a = [ALT_SIZE, ENDPOINT_SIZE * length (al_endpoints a), 8 * length (al_endpoints a)]"

definition set_interface_stores :: "usb_alt \<Rightarrow> info_store list" where
  "set_interface_stores a = (let e = ALT_SIZE; p = ALT_SIZE + ENDPOINT_SIZE * length (al_endpoints a) in
     [link_to 16 e, link_to 24 p] @ fill_alt_settings_data 0 e p a)"

text \<open>The status with the stores; none for a search that does not end.\<close>

definition OS_set_interface :: "usb_interface option \<Rightarrow> int \<Rightarrow> bool \<Rightarrow> bool \<Rightarrow> int \<Rightarrow> (u64 \<times> info_store list) option" where
  "OS_set_interface iface answer vmalloc_ok init_ok alt_num =
     (case iface of None \<Rightarrow> Some (WD_INVALID_PARAMETER, [])
      | Some f \<Rightarrow> (case find_alt_set_index f alt_num of
          None \<Rightarrow> None
        | Some i \<Rightarrow>
            if i = - 1 then Some (WD_INVALID_PARAMETER, [])
            else if answer \<noteq> 0 then Some (map_error_status answer, [])
            else if \<not> vmalloc_ok \<or> \<not> init_ok then Some (WD_INSUFFICIENT_RESOURCES, [])
            else Some (WD_STATUS_SUCCESS, set_interface_stores (f ! nat i))))"

section \<open>Lemmas\<close>

lemma map_error_success: "map_error_status e = WD_STATUS_SUCCESS \<longleftrightarrow> e = 0"
  by (simp add: map_error_status_def wd_codes)

text \<open>The codes of this module, given to the translation of error numbers, come out as internal errors.\<close>

lemma map_error_own_code: "0 < e \<Longrightarrow> map_error_status e = WD_SYSTEM_INTERNAL_ERROR"
  by (simp add: map_error_status_def errnos)

lemma register_fails_clean:
  "OS_register_devices a b c r tables s = (st, None, s') \<Longrightarrow> drivers s' = drivers s \<and> blocks s' = blocks s"
  by (auto simp: OS_register_devices_def Let_def split: if_splits)

lemma register_unregister:
  "OS_register_devices a b c r tables s = (st, Some d, s') \<Longrightarrow>
     st = WD_STATUS_SUCCESS \<and> snd (OS_unregister_devices (Some d) s') = s\<lparr>name_id := name_id s + 1\<rparr>"
  by (auto simp: OS_register_devices_def OS_unregister_devices_def Let_def split: if_splits)

text \<open>A table that asks for a device class gets an entry that compares the class with 0.\<close>

lemma class_not_copied:
  "mt_class mt \<noteq> 0 \<Longrightarrow> id_flags (id_of mt) AND 0x10 \<noteq> 0 \<and> id_class (id_of mt) = 0"
  by (simp add: id_of_def get_match_flag_def zero_id_def Let_def bit.conj_disj_distrib2)

lemma probe_disconnect:
  assumes "usb_generic_probe a r dev f s = (n, s')"
  shows "if n = 0 then dev_blocks s' = dev_blocks s + 1 \<and> intfdata s' = Some True \<and>
           (\<exists>s''. usb_generic_disconnect s' = Some s'' \<and> dev_blocks s'' = dev_blocks s \<and> intfdata s'' = None)
         else dev_blocks s' = dev_blocks s \<and> intfdata s' = None"
  using assms by (auto simp: usb_generic_probe_def usb_generic_disconnect_def Let_def ENOMEM_def split: if_splits)

text \<open>The blocks asked for are together what the size was computed as.\<close>

lemma alt_requests_sum: "sum_list (alt_requests a) + ALT_SIZE = alt_size a"
  by (simp add: alt_requests_def alt_size_def algebra_simps)

lemma sum_list_concat: "sum_list (concat xss) = sum_list (map sum_list xss)" for xss :: "nat list list"
  by (induction xss) simp_all

lemma interface_requests_sum: "sum_list (interface_requests i) = sum_list (map alt_size i)"
proof (induction i)
  case (Cons a i)
  with alt_requests_sum [of a] show ?case by (simp add: interface_requests_def sum_list_concat)
qed (simp add: interface_requests_def)

lemma config_requests_sum: "sum_list (config_requests c) + CONFIG_SIZE = config_size c"
  by (cases c) (simp add: config_requests_def sum_list_concat interface_requests_sum comp_def)

text \<open>The search for an alternate setting.\<close>

declare find_alt_loop.simps [simp del]

lemma find_alt_search:
  assumes "length f \<le> 255" "n \<le> length f"
  shows "find_alt_loop f alt_num (of_nat n) =
    (case first_index (\<lambda>a. uint (al_setting a) = alt_num) (drop n f) of None \<Rightarrow> Some (- 1) | Some k \<Rightarrow> Some (int (n + k)))"
  using assms(2)
proof (induction "length f - n" arbitrary: n)
  case 0
  then show ?case using assms(1) by (subst find_alt_loop.simps) (simp add: unat_of_nat)
next
  case (Suc m)
  then have n: "n < length f" by simp
  then have u: "unat (of_nat n :: u8) = n" using assms(1) by (simp add: unat_of_nat)
  have d: "drop n f = f ! n # drop (Suc n) f" using n by (simp add: Cons_nth_drop_Suc)
  have "find_alt_loop f alt_num (of_nat (Suc n)) = (case first_index (\<lambda>a. uint (al_setting a) = alt_num) (drop (Suc n) f) of
      None \<Rightarrow> Some (- 1) | Some k \<Rightarrow> Some (int (Suc n + k)))"
    using Suc(1) [of "Suc n"] Suc(2) n by simp
  then show ?case using n u d by (subst find_alt_loop.simps) (simp add: add.commute split: option.splits)
qed

lemma find_alt_index:
  "length f \<le> 255 \<Longrightarrow> find_alt_set_index f alt_num =
     (case first_index (\<lambda>a. uint (al_setting a) = alt_num) f of None \<Rightarrow> Some (- 1) | Some k \<Rightarrow> Some (int k))"
  using find_alt_search [of f 0 alt_num] by (simp add: find_alt_set_index_def split: option.splits)

lemma find_alt_never:
  assumes "256 \<le> length f" "\<forall>a \<in> set f. uint (al_setting a) \<noteq> alt_num"
  shows "find_alt_set_index f alt_num = None"
proof -
  have "(256 \<le> length f' \<and> (\<forall>a \<in> set f'. uint (al_setting a) \<noteq> n)) \<longrightarrow> False" if "find_alt_loop f' n i = Some r" for f' n i r
  proof (rule find_alt_loop.raw_induct [OF _ that], intro impI, elim conjE)
    fix loop :: "usb_interface \<Rightarrow> int \<Rightarrow> u8 \<Rightarrow> int option" and f n i r
    assume IH: "\<And>f n i r. loop f n i = Some r \<Longrightarrow> 256 \<le> length f \<and> (\<forall>a \<in> set f. uint (al_setting a) \<noteq> n) \<longrightarrow> False"
      and run: "(if unat i < length f then if uint (al_setting (f ! unat i)) = n then Some (int (unat i)) else loop f n (i + 1)
          else Some (- 1)) = Some r"
      and long: "256 \<le> length f" and none: "\<forall>a \<in> set f. uint (al_setting a) \<noteq> n"
    have "unat i < length f" using unsigned_less [where 'a = nat, of i] long by simp
    with run none have "loop f n (i + 1) = Some r" by (simp split: if_splits)
    with IH long none show False by blast
  qed
  from this [of f alt_num 0] assms show ?thesis
    by (cases "find_alt_loop f alt_num 0") (simp_all add: find_alt_set_index_def)
qed

section \<open>Properties\<close>

text \<open>
  For every device the blocks that \<^verbatim>\<open>OS_get_device_info\<close> asks for, one after the other, take exactly
  the bytes that it reports without a buffer.
\<close>

theorem requests_fill_size: "sum_list (info_requests dev) = calc_device_info_size dev"
proof -
  have "CONFIG_SIZE * length cs + sum_list (map (\<lambda>c. sum_list (config_requests c)) cs) = sum_list (map config_size cs)" for cs
  proof (induction cs)
    case (Cons c cs)
    with config_requests_sum [of c] show ?case by simp
  qed simp
  then show ?thesis by (simp add: info_requests_def calc_device_info_size_def sum_list_concat comp_def)
qed

text \<open>
  A chosen setting: its stores stay inside the buffer that was allocated for it, but with endpoints
  they pass the end of the blocks that were asked for.
\<close>

lemma within_concat: "within lo hi (concat ss) \<longleftrightarrow> (\<forall>s \<in> set ss. within lo hi s)"
  by (auto simp: within_def)

lemma endpoint_within: "lo \<le> l \<Longrightarrow> l + ENDPOINT_SIZE \<le> hi \<Longrightarrow> within lo hi (endpoint_stores l e)"
  by (simp add: endpoint_stores_def store_parts ENDPOINT_SIZE_def)

lemma pipe_within: "within lo hi (set_pipe_info l e) \<longleftrightarrow> lo \<le> l \<and> l + PIPE_SIZE \<le> hi"
  by (auto simp: set_pipe_info_def store_parts PIPE_SIZE_def)

theorem set_interface_within: "within 0 (alt_size a) (set_interface_stores a)"
proof -
  let ?n = "length (al_endpoints a)"
  have "within 0 (alt_size a) (endpoint_stores (ALT_SIZE + ENDPOINT_SIZE * i) e)" if "i < ?n" for i e
    using that by (intro endpoint_within) (simp_all add: alt_size_def info_sizes)
  moreover have "within 0 (alt_size a) (set_pipe_info (ALT_SIZE + ENDPOINT_SIZE * ?n + PIPE_SIZE * i) e)" if "i < ?n" for i e
    using that by (simp add: pipe_within alt_size_def info_sizes)
  moreover have "within 0 (alt_size a) (alt_stores 0 a)" by (simp add: alt_stores_def store_parts alt_size_def ALT_SIZE_def)
  ultimately show ?thesis
    by (simp add: set_interface_stores_def fill_alt_settings_data_def within_concat store_parts alt_size_def Let_def)
      (simp add: ALT_SIZE_def)
qed

lemma set_interface_past_blocks:
  "al_endpoints a \<noteq> [] \<Longrightarrow> \<not> within 0 (sum_list (set_interface_requests a)) (set_interface_stores a)"
proof -
  assume "al_endpoints a \<noteq> []"
  then have "length (al_endpoints a) - 1 < length (al_endpoints a)" by simp
  moreover from this have "\<not> within 0 (sum_list (set_interface_requests a))
      (set_pipe_info (ALT_SIZE + ENDPOINT_SIZE * length (al_endpoints a) + PIPE_SIZE * (length (al_endpoints a) - 1)) e)" for e
    by (simp add: pipe_within set_interface_requests_def info_sizes)
  ultimately show ?thesis
    by (fastforce simp: set_interface_stores_def fill_alt_settings_data_def within_concat Let_def)
qed

text \<open>
  With two configurations that both have an interface of that number, the one of the last
  configuration is called active, whichever configuration is.
\<close>

lemma active_interface_last:
  assumes "all_interfaces dev = pre @ [(p, f)]" "interface_number f = n"
  shows "active_interface n dev = Some p"
  using assms by (simp add: active_interface_def)

end
