(* ===== verification/Wdusb_Transfer.thy ===== *)
theory Wdusb_Transfer
  imports Leap_Prelude Wdusb_Device
begin

text \<open>
  Transfers of \<^verbatim>\<open>windrvr/wdusb_linux.c\<close>: the buffer and the context of a transfer, one request to the
  kernel with its wait, the completion that closes the gaps of isochronous packets, and the loop over
  the pieces of a transfer. Sizes of pieces are below \<^term>\<open>2 ^ 18\<close>, so they are numbers; times keep
  their width. The kernel's answers and the binary part's are arguments.
\<close>

section \<open>A request\<close>

record wd_pipe =
  endpoint_address :: u8
  attributes :: u8
  max_packet :: nat
  interval :: u8

definition MAX_PACKETS :: nat where "MAX_PACKETS = 900"
definition MAX_ALLOC_SIZE :: nat where "MAX_ALLOC_SIZE = 0x10000"
definition WD_PAGE_SIZE :: nat where "WD_PAGE_SIZE = 4096"

lemmas transfer_sizes = MAX_PACKETS_def MAX_ALLOC_SIZE_def WD_PAGE_SIZE_def

text \<open>Transfer type, length, interval, setup packet, and offset and length of each isochronous packet.\<close>

record wd_urb =
  ub_xfer :: usb_xfer
  ub_length :: nat
  ub_interval :: u8
  ub_setup :: "u8 list"
  ub_packets :: "(nat \<times> nat) list"

definition iso_packets :: "nat \<Rightarrow> nat \<Rightarrow> (nat \<times> nat) list" where
  "iso_packets ps bytes =
     (let n = (bytes + ps - 1) div ps; xs = map (\<lambda>i. (i * ps, ps)) [0..<n] in
      if bytes mod ps \<noteq> 0 then xs[n - 1 := (fst (xs ! (n - 1)), bytes mod ps)] else xs)"

text \<open>A control request copies its setup packet, which needs memory.\<close>

definition fill_urb :: "bool \<Rightarrow> wd_pipe \<Rightarrow> u8 list \<Rightarrow> nat \<Rightarrow> wd_urb option" where
  "fill_urb setup_ok p pkt bytes =
     (let u = \<lparr>ub_xfer = xfer_type (attributes p), ub_length = bytes, ub_interval = 0, ub_setup = [], ub_packets = []\<rparr> in
      case xfer_type (attributes p) of
        Xfer_Control \<Rightarrow> if setup_ok then Some (u\<lparr>ub_setup := take 8 pkt\<rparr>) else None
      | Xfer_Int \<Rightarrow> Some (u\<lparr>ub_interval := interval p\<rparr>)
      | Xfer_Bulk \<Rightarrow> Some u
      | Xfer_Isoc \<Rightarrow> Some (u\<lparr>ub_interval := interval p, ub_packets := iso_packets (max_packet p) bytes\<rparr>))"

section \<open>Completion\<close>

text \<open>
  \<^verbatim>\<open>memcpy\<close> of \<open>n\<close> bytes from \<open>src\<close> to \<open>dst\<close> in one buffer: none, undefined in C, when the areas overlap.
\<close>

definition memcpy_inside :: "nat \<Rightarrow> nat \<Rightarrow> nat \<Rightarrow> (nat \<Rightarrow> u8) \<Rightarrow> (nat \<Rightarrow> u8) option" where
  "memcpy_inside dst src n buf =
     (if dst < src + n \<and> src < dst + n then None
      else Some (\<lambda>i. if dst \<le> i \<and> i < dst + n then buf (src + (i - dst)) else buf i))"

text \<open>The packets with their status and actual length are moved together. The result is the length and the buffer.\<close>

fun iso_compact :: "bool \<Rightarrow> (nat \<times> nat) list \<Rightarrow> (int \<times> nat) list \<Rightarrow> nat \<Rightarrow> (nat \<Rightarrow> u8) \<Rightarrow> (nat \<times> (nat \<Rightarrow> u8)) option" where
  "iso_compact inp ((off, l) # ps) ((st, n) # rs) pos buf =
     (if st \<noteq> 0 then iso_compact inp ps rs pos buf
      else if inp \<and> pos \<noteq> off \<and> n \<noteq> 0
      then Option.bind (memcpy_inside pos off n buf) (iso_compact inp ps rs (pos + n))
      else iso_compact inp ps rs (pos + n) buf)"
| "iso_compact inp _ _ pos buf = Some (pos, buf)"

text \<open>
  What happens to one request: whether the setup packet got memory, the answer to submitting it,
  each wait with the time left and whether the request has completed, its status, its length, the
  results of its packets, the contents of the buffer.
\<close>

record single_answer =
  sa_setup :: bool
  sa_submit :: int
  sa_schedule :: "nat \<Rightarrow> int \<Rightarrow> int \<times> bool"
  sa_status :: int
  sa_actual :: nat
  sa_iso :: "(int \<times> nat) list"
  sa_data :: "nat \<Rightarrow> u8"

definition usb_common_completion :: "bool \<Rightarrow> wd_urb \<Rightarrow> single_answer \<Rightarrow> (nat \<times> (nat \<Rightarrow> u8)) option" where
  "usb_common_completion inp u a =
     (if sa_status a = 0 \<and> ub_xfer u = Xfer_Isoc then iso_compact inp (ub_packets u) (sa_iso a) 0 (sa_data a)
      else Some (sa_actual a, sa_data a))"

partial_function (option) wait_loop :: "(nat \<Rightarrow> int \<Rightarrow> int \<times> bool) \<Rightarrow> nat \<Rightarrow> int \<Rightarrow> bool \<Rightarrow> (int \<times> bool) option" where
  "wait_loop sched k timeout finished =
     (if timeout \<noteq> 0 \<and> \<not> finished then (case sched k timeout of (t, f) \<Rightarrow> wait_loop sched (k + 1) t f)
      else Some (timeout, finished))"

declare wait_loop.simps [simp del]

text \<open>
  The time is cut to 32 bits. A request ends with its status, and with length and buffer when the
  length was set, or its completion was undefined; none is a wait without end.
\<close>

definition int_timeout :: "u64 \<Rightarrow> int" where "int_timeout t = sint (ucast t :: u32)"

datatype single_end = Single_Undefined | Single_End int "(nat \<times> (nat \<Rightarrow> u8)) option"

definition usb_submit_sync :: "bool \<Rightarrow> wd_urb \<Rightarrow> u64 \<Rightarrow> single_answer \<Rightarrow> single_end option" where
  "usb_submit_sync inp u timeout a =
     (if sa_submit a \<noteq> 0 then Some (Single_End (sa_submit a) None)
      else map_option (\<lambda>(t, finished).
        if t = 0 \<and> \<not> finished
        then Single_End (if sa_status a \<noteq> - EINPROGRESS then sa_status a else - ETIMEDOUT) (Some (sa_actual a, sa_data a))
        else (case usb_common_completion inp u a of None \<Rightarrow> Single_Undefined | Some g \<Rightarrow> Single_End (sa_status a) (Some g)))
      (wait_loop (sa_schedule a) 0 (int_timeout timeout) False))"

text \<open>The direction is the endpoint's, for a control pipe the caller's.\<close>

definition pipe_in :: "wd_pipe \<Rightarrow> bool \<Rightarrow> bool" where
  "pipe_in p is_read = (if xfer_type (attributes p) = Xfer_Control then is_read else endpoint_address p AND 0x80 \<noteq> 0)"

definition usb_transfer_single :: "wd_pipe \<Rightarrow> bool \<Rightarrow> nat \<Rightarrow> u8 list \<Rightarrow> u64 \<Rightarrow> single_answer \<Rightarrow> single_end option" where
  "usb_transfer_single p is_read bytes pkt timeout a =
     (case fill_urb (sa_setup a) p pkt bytes of
        None \<Rightarrow> Some (Single_End (uint WD_INSUFFICIENT_RESOURCES) None)
      | Some u \<Rightarrow> usb_submit_sync (pipe_in p is_read) u timeout a)"

text \<open>
  The bytes a request moved over the bus: nothing when it was not submitted; into an IN pipe what the
  request left in its buffer; out of the request's buffer \<open>chunk\<close> the first \<open>sa_actual\<close> bytes,
  also of a request that failed or was given up, or the packets that arrived, wherever they lie.
\<close>

fun sent_packets :: "(nat \<times> nat) list \<Rightarrow> (int \<times> nat) list \<Rightarrow> u8 list \<Rightarrow> u8 list" where
  "sent_packets ((off, l) # ps) ((st, n) # rs) chunk =
     (if st = 0 then take n (drop off chunk) else []) @ sent_packets ps rs chunk"
| "sent_packets _ _ chunk = []"

definition bus_bytes :: "wd_pipe \<Rightarrow> bool \<Rightarrow> nat \<Rightarrow> u8 list \<Rightarrow> single_answer \<Rightarrow> (nat \<times> (nat \<Rightarrow> u8)) option \<Rightarrow> u8 list" where
  "bus_bytes p is_read n chunk a got =
     (case got of None \<Rightarrow> []
      | Some (actual, data) \<Rightarrow>
          if pipe_in p is_read then map data [0..<min actual n]
          else if xfer_type (attributes p) = Xfer_Isoc then sent_packets (iso_packets (max_packet p) n) (sa_iso a) chunk
          else take (sa_actual a) chunk)"

section \<open>Memory\<close>

text \<open>A size is tried; while there is no memory for it and it is above a page, half of it.\<close>

function alloc_loop :: "(nat \<Rightarrow> bool) \<Rightarrow> bool \<Rightarrow> nat \<Rightarrow> nat \<Rightarrow> nat \<Rightarrow> nat option" where
  "alloc_loop ok isoc ps n k =
     (if ok k then Some n
      else if WD_PAGE_SIZE < n then alloc_loop ok isoc ps (if isoc then n div 2 div ps * ps else n div 2) (k + 1)
      else None)"
  by pat_completeness auto
termination
proof (relation "measure (\<lambda>(_, _, _, n, _). n)")
  fix ok :: "nat \<Rightarrow> bool" and isoc ps n k
  assume "WD_PAGE_SIZE < n"
  moreover from this have "n div 2 div ps * ps < n"
    by (intro le_less_trans [OF div_times_less_eq_dividend]) (simp add: transfer_sizes)
  ultimately show "((ok, isoc, ps, if isoc then n div 2 div ps * ps else n div 2, k + 1), ok, isoc, ps, n, k)
      \<in> measure (\<lambda>(_, _, _, n, _). n)"
    by (simp add: transfer_sizes)
qed simp

declare alloc_loop.simps [simp del]

definition first_size :: "wd_pipe \<Rightarrow> nat \<Rightarrow> nat option" where
  "first_size p len =
     (let n = min len MAX_ALLOC_SIZE; ps = max_packet p in
      case xfer_type (attributes p) of
        Xfer_Int \<Rightarrow> Some (min len ps)
      | Xfer_Isoc \<Rightarrow>
          if ps = 0 then None
          else if MAX_PACKETS < n div ps then Some (MAX_PACKETS * ps)
          else if ps < n then Some (((n - 1) div ps + 1) * ps) else Some n
      | _ \<Rightarrow> Some n)"

definition try_allocate :: "(nat \<Rightarrow> bool) \<Rightarrow> wd_pipe \<Rightarrow> nat \<Rightarrow> nat option" where
  "try_allocate ok p len = (case first_size p len of None \<Rightarrow> None
     | Some n \<Rightarrow> alloc_loop ok (xfer_type (attributes p) = Xfer_Isoc) (max_packet p) n 0)"

text \<open>The packets a context has room for; dividing by a packet size of 0 is the outer none.\<close>

definition tc_alloc :: "bool \<Rightarrow> bool \<Rightarrow> wd_pipe \<Rightarrow> nat \<Rightarrow> nat option option" where
  "tc_alloc vmalloc_ok urb_ok p bytes =
     (if \<not> vmalloc_ok then Some None
      else if xfer_type (attributes p) = Xfer_Isoc \<and> max_packet p = 0 then None
      else let packets = (if xfer_type (attributes p) = Xfer_Isoc then (bytes + max_packet p - 1) div max_packet p else 0) in
        Some (if urb_ok then Some packets else None))"

section \<open>A transfer\<close>

text \<open>
  The answers: to each attempt to get a buffer, to those for the context, of the binary part; the
  clock, time in its units; each request; what the clock, the device and the transfer say after it.
\<close>

record transfer_answers =
  ta_kmalloc :: "nat \<Rightarrow> bool"
  ta_vmalloc :: bool
  ta_urb :: bool
  ta_create :: bool
  ta_start :: u64
  ta_units :: "u64 \<Rightarrow> u64"
  ta_single :: "nat \<Rightarrow> single_answer"
  ta_jiffies :: "nat \<Rightarrow> u64"
  ta_connected :: "nat \<Rightarrow> bool"
  ta_halted :: "nat \<Rightarrow> bool"

text \<open>
  The variables of the loop: position in the caller's buffer, bytes left, bytes counted, time, the
  length of the last request and the caller's buffer; and the bytes each request moved over the bus.
\<close>

record piece_state =
  ps_cur :: nat
  ps_len :: nat
  ps_total :: nat
  ps_time :: u64
  ps_last :: nat
  ps_user :: "u8 list"
  ps_bus :: "u8 list list"

definition store_at :: "nat \<Rightarrow> u8 list \<Rightarrow> u8 list \<Rightarrow> u8 list" where
  "store_at cur bs user = take cur user @ bs @ drop (cur + length bs) user"

text \<open>The length of the next piece; none when only whole packets are wanted and there is less than one.\<close>

definition piece_length :: "wd_pipe \<Rightarrow> u64 \<Rightarrow> nat \<Rightarrow> nat \<Rightarrow> nat option" where
  "piece_length p options allocated len =
     (let n = min len allocated; ps = max_packet p in
      if xfer_type (attributes p) = Xfer_Isoc
      then if ps < n then Some (n div ps * ps) else if options AND 0x20 \<noteq> 0 \<and> len < ps then None else Some n
      else Some n)"

text \<open>The time after a piece: the clock is cut to 32 bits before it is compared.\<close>

definition time_after :: "u64 \<Rightarrow> u64 \<Rightarrow> u64 \<Rightarrow> u64" where
  "time_after expire jiffies timeout =
     (if timeout = 0 then 0 else let tmp = ucast (ucast jiffies :: u32) :: u64 in if expire < tmp then 0 else expire - tmp)"

text \<open>What a piece does to the variables: the length is limited, bytes read are stored.\<close>

definition piece_done :: "bool \<Rightarrow> nat \<Rightarrow> nat \<Rightarrow> (nat \<Rightarrow> u8) \<Rightarrow> u64 \<Rightarrow> piece_state \<Rightarrow> piece_state" where
  "piece_done is_read n actual data time s =
     (let t = min actual n in
      s\<lparr>ps_cur := ps_cur s + t, ps_len := ps_len s - t, ps_total := ps_total s + t, ps_time := time, ps_last := t,
        ps_user := (if is_read then store_at (ps_cur s) (map data [0..<t]) (ps_user s) else ps_user s)\<rparr>)"

definition bus_log :: "wd_pipe \<Rightarrow> bool \<Rightarrow> nat \<Rightarrow> single_answer \<Rightarrow> (nat \<times> (nat \<Rightarrow> u8)) option \<Rightarrow> piece_state \<Rightarrow> piece_state" where
  "bus_log p is_read n a got s = s\<lparr>ps_bus := ps_bus s @ [bus_bytes p is_read n (take n (drop (ps_cur s) (ps_user s))) a got]\<rparr>"

datatype loop_end = Loop_Undefined | Loop_End int piece_state

partial_function (option) transfer_loop ::
  "transfer_answers \<Rightarrow> wd_pipe \<Rightarrow> bool \<Rightarrow> u64 \<Rightarrow> nat \<Rightarrow> u64 \<Rightarrow> u8 list \<Rightarrow> nat \<Rightarrow> piece_state \<Rightarrow> loop_end option" where
  "transfer_loop A p is_read options allocated expire pkt k s =
     (case piece_length p options allocated (ps_len s) of
        None \<Rightarrow> Some (Loop_End 0 s)
      | Some n \<Rightarrow> (case usb_transfer_single p is_read n pkt (ps_time s) (ta_single A k) of
          None \<Rightarrow> None
        | Some Single_Undefined \<Rightarrow> Some Loop_Undefined
        | Some (Single_End rc got) \<Rightarrow>
            let s0 = bus_log p is_read n (ta_single A k) got s in
            if rc \<noteq> 0 \<and> rc \<noteq> - EOVERFLOW then Some (Loop_End rc s0)
            else let (actual, data) = (case got of None \<Rightarrow> (ps_last s, sa_data (ta_single A k)) | Some g \<Rightarrow> g);
                     s1 = piece_done is_read n actual data (time_after expire (ta_jiffies A k) (ps_time s)) s0 in
              if xfer_type (attributes p) \<noteq> Xfer_Isoc \<and> ps_last s1 < n then Some (Loop_End 0 s1)
              else if ps_len s1 \<noteq> 0 \<and> 0 < ps_time s1 \<and> ta_connected A k \<and> \<not> ta_halted A k
              then transfer_loop A p is_read options allocated expire pkt (k + 1) s1
              else Some (Loop_End 0 s1)))"

declare transfer_loop.simps [simp del]

text \<open>
  How a transfer ends: with a status, a count, the caller's buffer, what went over the bus and the
  contexts that nobody frees; by a division by 0; or by an undefined \<^verbatim>\<open>memcpy\<close>.
\<close>

datatype transfer_end = Transfer_Oops | Transfer_Undefined | Transfer_Done u64 nat "u8 list" "u8 list list" nat

definition MAX_SCHEDULE_TIMEOUT :: u64 where "MAX_SCHEDULE_TIMEOUT = 0x7FFFFFFFFFFFFFFF"

definition failed_transfer :: "int \<Rightarrow> nat \<Rightarrow> u8 list \<Rightarrow> transfer_end option" where
  "failed_transfer rc leaked user = Some (Transfer_Done (map_error_status rc) 0 user [] leaked)"

definition OS_transfer :: "transfer_answers \<Rightarrow> wd_pipe \<Rightarrow> bool \<Rightarrow> u64 \<Rightarrow> u8 list \<Rightarrow> nat \<Rightarrow> u8 list \<Rightarrow> u64 \<Rightarrow> transfer_end option" where
  "OS_transfer A p is_read options user bytes pkt tout =
     (let timeout = (if tout \<noteq> 0 then ta_units A tout else MAX_SCHEDULE_TIMEOUT);
          expire = (if tout \<noteq> 0 then ta_start A + ta_units A tout else 0);
          buffer = (if bytes = 0 then Some 0 else try_allocate (ta_kmalloc A) p bytes) in
      case buffer of
        None \<Rightarrow> failed_transfer (uint WD_INSUFFICIENT_RESOURCES) 0 user
      | Some allocated \<Rightarrow> (case tc_alloc (ta_vmalloc A) (ta_urb A) p (min bytes allocated) of
          None \<Rightarrow> Some Transfer_Oops
        | Some None \<Rightarrow> failed_transfer (- ENOMEM) 0 user
        | Some (Some _) \<Rightarrow>
            if \<not> ta_create A then failed_transfer (- ENOMEM) 1 user
            else if bytes = 0
            then map_option (\<lambda>e. case e of Single_Undefined \<Rightarrow> Transfer_Undefined
                   | Single_End rc got \<Rightarrow> Transfer_Done (map_error_status rc)
                       (case got of None \<Rightarrow> 0 | Some (actual, _) \<Rightarrow> actual) user [] 0)
                 (usb_transfer_single p is_read 0 pkt timeout (ta_single A 0))
            else map_option (\<lambda>e. case e of Loop_Undefined \<Rightarrow> Transfer_Undefined
                   | Loop_End rc s \<Rightarrow> Transfer_Done (map_error_status rc) (ps_total s) (ps_user s) (ps_bus s) 0)
                 (transfer_loop A p is_read options allocated expire pkt 0
                   \<lparr>ps_cur = 0, ps_len = bytes, ps_total = 0, ps_time = timeout, ps_last = 0, ps_user = user, ps_bus = []\<rparr>)))"

text \<open>Transfers are stopped by unlinking the request of their context, if there is one.\<close>

definition OS_halt_transfer :: "bool option \<Rightarrow> u64 \<times> bool" where
  "OS_halt_transfer tc = (WD_STATUS_SUCCESS, tc = Some True)"

definition OS_get_max_urb_transfer_size :: u64 where "OS_get_max_urb_transfer_size = of_nat MAX_ALLOC_SIZE"

section \<open>Lemmas: pieces\<close>

lemma piece_length_le: "piece_length p opts al len = Some n \<Longrightarrow> n \<le> len \<and> n \<le> al"
proof (cases "xfer_type (attributes p) = Xfer_Isoc \<and> max_packet p < min len al")
  case True
  moreover assume "piece_length p opts al len = Some n"
  ultimately have "n = min len al div max_packet p * max_packet p" by (simp add: piece_length_def Let_def)
  then show ?thesis using div_times_less_eq_dividend [of "min len al" "max_packet p"] by simp
qed (auto simp: piece_length_def Let_def split: if_splits)

lemma length_store_at: "cur + length bs \<le> length user \<Longrightarrow> length (store_at cur bs user) = length user"
  by (simp add: store_at_def)




lemma single_got_length:
  assumes "usb_transfer_single p is_read n pkt t a = Some (Single_End rc (Some (actual, data)))" "xfer_type (attributes p) \<noteq> Xfer_Isoc"
  shows "actual = sa_actual a"
proof -
  have x: "ub_xfer u = xfer_type (attributes p)" if "fill_urb ok p pkt n = Some u" for ok u
    using that by (auto simp: fill_urb_def Let_def split: usb_xfer.splits if_splits)
  show ?thesis using assms
    by (auto simp: usb_transfer_single_def usb_submit_sync_def usb_common_completion_def dest: x
      split: option.splits if_splits prod.splits)
qed


text \<open>A failed request only adds to what went over the bus; one that went through adds what it counts.\<close>

lemma prefix_extend: "take a xs @ take t (take n (drop a xs)) = take (a + min t n) xs"
  by (simp add: take_add min.commute)






section \<open>Lemmas: isochronous packets\<close>

lemma iso_packets_index:
  assumes "0 < ps"
  shows "iso_packets ps bytes = map (\<lambda>i. (i * ps, min ps (bytes - i * ps))) [0..<(bytes + ps - 1) div ps]"
proof -
  define n where "n = (bytes + ps - 1) div ps"
  have whole: "ps \<le> bytes - i * ps" if "i < n" "bytes mod ps = 0 \<or> i \<noteq> n - 1" for i
  proof -
    have "(i + 1) * ps \<le> bytes"
    proof (cases "bytes mod ps = 0")
      case True
      then obtain q where q: "bytes = q * ps" by (metis mod_0_imp_dvd dvd_def mult.commute)
      with assms have split: "bytes + ps - 1 = q * ps + (ps - 1)" by simp
      have "n = q" unfolding n_def split using assms by (subst div_mult_self3) simp_all
      with that(1) q show ?thesis by (metis Suc_eq_plus1 Suc_leI mult_le_mono1)
    next
      case False
      with that have "i + 1 < n" by simp
      then have "(i + 2) * ps \<le> n * ps" by (intro mult_le_mono1) simp
      also have "\<dots> \<le> bytes + ps - 1" unfolding n_def by (rule div_times_less_eq_dividend)
      finally have "(i + 2) * ps \<le> bytes + ps - 1" .
      with assms show ?thesis by (simp add: algebra_simps)
    qed
    then show ?thesis by simp
  qed
  have last: "bytes - (n - 1) * ps = bytes mod ps" if "bytes mod ps \<noteq> 0"
  proof -
    have "bytes = bytes div ps * ps + bytes mod ps" by simp
    moreover from that assms have "n = bytes div ps + 1"
    proof -
      have "bytes + ps - 1 = (bytes div ps + 1) * ps + (bytes mod ps - 1)"
        using that assms div_mult_mod_eq [of bytes ps] by (cases bytes) (simp_all add: algebra_simps)
      moreover have "bytes mod ps - 1 < ps" using assms by (simp add: less_imp_diff_less)
      ultimately show ?thesis unfolding n_def by (simp add: div_nat_eqI)
    qed
    ultimately show ?thesis by (metis add_diff_cancel_left' add_diff_cancel_right')
  qed
  have "bytes mod ps < ps" using assms by simp
  with whole last show ?thesis unfolding iso_packets_def n_def [symmetric]
    by (intro nth_equalityI) (auto simp: Let_def nth_list_update min_def)
qed

text \<open>The packets of a piece tile it, and there is room for them in a context made for at least as many bytes.\<close>

lemma packets_sum: "sum_list (map (\<lambda>i. min ps (bytes - i * ps)) [0..<m]) = min (m * ps) bytes" for ps bytes :: nat
  by (induction m) auto

lemma packets_enough: "0 < ps \<Longrightarrow> bytes \<le> (bytes + ps - 1) div ps * ps" for ps bytes :: nat
  using div_mult_mod_eq [of "bytes + ps - 1" ps] mod_less_divisor [of ps "bytes + ps - 1"] by linarith

lemma iso_packets_tile:
  "0 < ps \<Longrightarrow> sum_list (map snd (iso_packets ps bytes)) = bytes"
  using packets_enough [of ps bytes] by (simp add: iso_packets_index comp_def packets_sum)

lemma iso_packets_room:
  "0 < ps \<Longrightarrow> bytes \<le> room \<Longrightarrow> length (iso_packets ps bytes) \<le> (room + ps - 1) div ps"
  by (simp add: iso_packets_index div_le_mono)

text \<open>Packets that follow each other, with results that fit.\<close>

fun packets_apart :: "nat \<Rightarrow> (nat \<times> nat) list \<Rightarrow> (int \<times> nat) list \<Rightarrow> bool" where
  "packets_apart lo ((off, l) # ps) ((st, n) # rs) \<longleftrightarrow> lo \<le> off \<and> n \<le> l \<and> packets_apart (off + l) ps rs"
| "packets_apart lo _ _ \<longleftrightarrow> True"

text \<open>The bytes of the packets that arrived.\<close>

fun arrived :: "(nat \<Rightarrow> u8) \<Rightarrow> (nat \<times> nat) list \<Rightarrow> (int \<times> nat) list \<Rightarrow> u8 list" where
  "arrived data ((off, l) # ps) ((st, n) # rs) = (if st = 0 then map data [off..<off + n] else []) @ arrived data ps rs"
| "arrived data _ _ = []"

text \<open>
  The packets moved never overlap themselves: each packet that arrived is empty or in place, or the
  bytes missing before it are at least its own.
\<close>

fun moves_apart :: "nat \<Rightarrow> (nat \<times> nat) list \<Rightarrow> (int \<times> nat) list \<Rightarrow> bool" where
  "moves_apart pos ((off, l) # ps) ((st, n) # rs) \<longleftrightarrow>
     (if st = 0 then (n = 0 \<or> pos = off \<or> n \<le> off - pos) \<and> moves_apart (pos + n) ps rs else moves_apart pos ps rs)"
| "moves_apart pos _ _ \<longleftrightarrow> True"

lemma memcpy_inside_down: "\<lbrakk>dst \<le> src; n \<noteq> 0\<rbrakk> \<Longrightarrow> memcpy_inside dst src n buf =
    (if n \<le> src - dst then Some (\<lambda>i. if dst \<le> i \<and> i < dst + n then buf (src + (i - dst)) else buf i) else None)"
  by (auto simp: memcpy_inside_def)

lemma iso_compact_arrived:
  assumes "packets_apart lo ps rs" "pos \<le> lo" "\<And>i. lo \<le> i \<Longrightarrow> buf i = data i"
  shows "case iso_compact True ps rs pos buf of None \<Rightarrow> \<not> moves_apart pos ps rs
    | Some (e, b) \<Rightarrow> moves_apart pos ps rs \<and> pos \<le> e \<and> (\<forall>i < pos. b i = buf i) \<and> map b [pos..<e] = arrived data ps rs"
  using assms
proof (induction ps arbitrary: lo rs pos buf)
  case (Cons p ps lo rs pos buf)
  show ?case
  proof (cases rs)
    case rs: (Cons r rs')
    obtain off l st n where pr: "p = (off, l)" "r = (st, n)" by (cases p, cases r)
    have apart: "lo \<le> off" "n \<le> l" "packets_apart (off + l) ps rs'" and "pos \<le> lo" using Cons.prems pr rs by auto
    show ?thesis
    proof (cases "st = 0 \<and> pos \<noteq> off \<and> n \<noteq> 0 \<and> \<not> n \<le> off - pos")
      case True
      with apart \<open>pos \<le> lo\<close> show ?thesis by (simp add: pr rs memcpy_inside_down)
    next
      case False
      define moved where "moved \<longleftrightarrow> st = 0 \<and> pos \<noteq> off \<and> n \<noteq> 0"
      define buf' where "buf' = (if moved then (\<lambda>i. if pos \<le> i \<and> i < pos + n then buf (off + (i - pos)) else buf i) else buf)"
      define d where "d = (if st = 0 then n else 0)"
      have run: "iso_compact True (p # ps) rs pos buf = iso_compact True ps rs' (pos + d) buf'"
        using False apart \<open>pos \<le> lo\<close> by (auto simp: pr rs moved_def buf'_def d_def memcpy_inside_down)
      have apart_iff: "moves_apart pos (p # ps) rs = moves_apart (pos + d) ps rs'"
        using False by (auto simp: pr rs d_def)
      have later: "buf' i = data i" if "off + l \<le> i" for i
        using that apart \<open>pos \<le> lo\<close> Cons.prems(3) by (simp add: buf'_def)
      have here: "map buf' [pos..<pos + d] = (if st = 0 then map data [off..<off + n] else [])"
      proof (cases "st = 0")
        case True
        have "map buf' [pos..<pos + n] = map buf [off..<off + n]"
          by (rule nth_equalityI) (auto simp: buf'_def moved_def True)
        also have "\<dots> = map data [off..<off + n]" using apart(1) Cons.prems(3) by (intro map_cong) auto
        finally show ?thesis by (simp add: d_def True)
      qed (simp add: d_def)
      have IH: "case iso_compact True ps rs' (pos + d) buf' of None \<Rightarrow> \<not> moves_apart (pos + d) ps rs'
        | Some (e, b) \<Rightarrow> moves_apart (pos + d) ps rs' \<and> pos + d \<le> e \<and> (\<forall>i < pos + d. b i = buf' i) \<and>
            map b [pos + d..<e] = arrived data ps rs'"
        using apart \<open>pos \<le> lo\<close> later by (intro Cons.IH [of "off + l"]) (auto simp: d_def)
      have before: "\<forall>i < pos. buf' i = buf i" by (simp add: buf'_def)
      show ?thesis
      proof (cases "iso_compact True ps rs' (pos + d) buf'")
        case None
        with IH show ?thesis by (simp only: run apart_iff) simp
      next
        case (Some eb)
        obtain e b where eb: "eb = (e, b)" by (cases eb)
        from IH Some eb have IH': "moves_apart (pos + d) ps rs'" "pos + d \<le> e" "\<forall>i < pos + d. b i = buf' i"
          "map b [pos + d..<e] = arrived data ps rs'" by auto
        then have "map b [pos..<e] = map b [pos..<pos + d] @ map b [pos + d..<e]"
          by (metis le_add1 le_Suc_ex map_append upt_add_eq_append)
        moreover have "map b [pos..<pos + d] = map buf' [pos..<pos + d]" using IH'(3) by (intro map_cong) auto
        ultimately have "map b [pos..<e] = arrived data (p # ps) rs"
          using here IH'(4) by (simp add: pr rs)
        with IH' before Some eb show ?thesis by (simp only: run apart_iff) auto
      qed
    qed
  qed simp
qed simp

lemma packets_apart_le: "packets_apart b ps rs \<Longrightarrow> a \<le> b \<Longrightarrow> packets_apart a ps rs"
  by (cases "(b, ps, rs)" rule: packets_apart.cases) auto

lemma packets_apart_iso:
  assumes "list_all2 (\<lambda>(off, l) (st, n). n \<le> l) (iso_packets ps bytes) rs" "0 < ps"
  shows "packets_apart 0 (iso_packets ps bytes) rs"
proof -
  define m where "m = (bytes + ps - 1) div ps"
  have "packets_apart (k * ps) (map (\<lambda>i. (i * ps, min ps (bytes - i * ps))) [k..<m]) rs"
    if "list_all2 (\<lambda>(off, l) (st, n). n \<le> l) (map (\<lambda>i. (i * ps, min ps (bytes - i * ps))) [k..<m]) rs" "k \<le> m" for k rs
    using that
  proof (induction "m - k" arbitrary: k rs)
    case (Suc d)
    then have k: "k < m" by simp
    with Suc(3) obtain st n rs' where rs: "rs = (st, n) # rs'" "n \<le> min ps (bytes - k * ps)"
      "list_all2 (\<lambda>(off, l) (st, n). n \<le> l) (map (\<lambda>i. (i * ps, min ps (bytes - i * ps))) [Suc k..<m]) rs'"
      by (auto simp: upt_conv_Cons list_all2_Cons1)
    have "packets_apart (Suc k * ps) (map (\<lambda>i. (i * ps, min ps (bytes - i * ps))) [Suc k..<m]) rs'"
      using Suc(1) [of "Suc k" rs'] Suc(2) rs(3) k by simp
    then have "packets_apart (k * ps + min ps (bytes - k * ps)) (map (\<lambda>i. (i * ps, min ps (bytes - i * ps))) [Suc k..<m]) rs'"
      by (rule packets_apart_le) simp
    with rs(1,2) k show ?case by (simp add: upt_conv_Cons)
  qed simp
  from this [of 0 rs] assms show ?thesis by (simp add: iso_packets_index m_def)
qed

section \<open>Lemmas: memory and time\<close>

lemma alloc_loop_le: "alloc_loop ok isoc ps n k = Some m \<Longrightarrow> m \<le> n"
proof (induction ok isoc ps n k rule: alloc_loop.induct)
  case (1 ok isoc ps n k)
  have "(if isoc then n div 2 div ps * ps else n div 2) \<le> n"
    by (cases isoc) (simp_all add: order_trans [OF div_times_less_eq_dividend])
  with 1 show ?case by (subst (asm) alloc_loop.simps) (fastforce split: if_splits)
qed

lemma try_allocate_le:
  "try_allocate ok p len = Some m \<Longrightarrow> xfer_type (attributes p) \<noteq> Xfer_Isoc \<Longrightarrow> m \<le> min len MAX_ALLOC_SIZE \<or> m \<le> max_packet p"
  using alloc_loop_le by (fastforce simp: try_allocate_def first_size_def Let_def split: usb_xfer.splits)

lemma untimed_time: "time_after 0 j t = 0"
  by (simp add: time_after_def Let_def word_gt_0)

lemma loop_one_piece:
  assumes "transfer_loop A p is_read opts al 0 pkt k s = Some (Loop_End rc s')"
  shows "length (ps_bus s') \<le> length (ps_bus s) + 1"
  using assms by (subst (asm) transfer_loop.simps)
    (auto simp: untimed_time piece_done_def bus_log_def Let_def split: option.splits if_splits prod.splits single_end.splits)

text \<open>The loop returns once the clock is past the end, if every wait ends.\<close>

lemma loop_returns_step:
  assumes "\<And>n t. usb_transfer_single p is_read n pkt t (ta_single A k) \<noteq> None"
    and "\<And>s1. ps_time s1 = time_after ex (ta_jiffies A k) (ps_time s) \<Longrightarrow> 0 < ps_time s1 \<Longrightarrow>
      transfer_loop A p is_read opts al ex pkt (k + 1) s1 \<noteq> None"
  shows "transfer_loop A p is_read opts al ex pkt k s \<noteq> None"
proof (cases "piece_length p opts al (ps_len s)")
  case None
  then show ?thesis by (subst transfer_loop.simps) simp
next
  case (Some n)
  obtain e where e: "usb_transfer_single p is_read n pkt (ps_time s) (ta_single A k) = Some e"
    using assms(1) [of n "ps_time s"] by auto
  show ?thesis
  proof (cases e)
    case (Single_End rc got)
    have time: "ps_time (piece_done is_read n actual data t s) = t" for actual data t s by (simp add: piece_done_def Let_def)
    obtain actual data where "(case got of None \<Rightarrow> (ps_last s, sa_data (ta_single A k)) | Some g \<Rightarrow> g) = (actual, data)"
      by (meson surj_pair)
    with e Some assms(2) Single_End time show ?thesis by (subst transfer_loop.simps) (simp add: Let_def)
  qed (use e Some in \<open>subst transfer_loop.simps, simp\<close>)
qed

lemma loop_returns:
  assumes "\<And>j n t. usb_transfer_single p is_read n pkt t (ta_single A j) \<noteq> None"
    and "ex < ucast (ucast (ta_jiffies A K) :: u32)" "k \<le> K"
  shows "transfer_loop A p is_read opts al ex pkt k s \<noteq> None"
  using assms(3)
proof (induction "K - k" arbitrary: k s)
  case 0
  then have over: "time_after ex (ta_jiffies A k) t = 0" for t using assms(2) by (simp add: time_after_def Let_def)
  show ?case by (rule loop_returns_step [OF assms(1)]) (simp add: over)
next
  case (Suc d)
  then have next_returns: "transfer_loop A p is_read opts al ex pkt (k + 1) s1 \<noteq> None" for s1
    using Suc(1) [of "k + 1" s1] by simp
  show ?case by (rule loop_returns_step [OF assms(1)]) (rule next_returns)
qed

section \<open>Properties\<close>

text \<open>A transfer that ends did nothing, was empty, or ran the loop.\<close>

lemma transfer_ends:
  assumes "OS_transfer A p is_read opts user bytes pkt tout = Some (Transfer_Done st n user' bus leaked)"
  shows "(n = 0 \<or> bytes = 0) \<and> user' = user \<and> bus = [] \<or>
    (\<exists>al ex t rc s. transfer_loop A p is_read opts al ex pkt 0
        \<lparr>ps_cur = 0, ps_len = bytes, ps_total = 0, ps_time = t, ps_last = 0, ps_user = user, ps_bus = []\<rparr> = Some (Loop_End rc s) \<and>
      n = ps_total s \<and> user' = ps_user s \<and> bus = ps_bus s \<and> st = map_error_status rc \<and> (tout = 0 \<longrightarrow> ex = 0))"
  (is "?none \<or> ?ran")
proof (cases "bytes = 0")
  case True
  with assms consider ?none
    | e where "(case e of Single_Undefined \<Rightarrow> Transfer_Undefined
        | Single_End rc got \<Rightarrow> Transfer_Done (map_error_status rc) (case got of None \<Rightarrow> 0 | Some (actual, _) \<Rightarrow> actual) user [] 0) =
          Transfer_Done st n user' bus leaked"
    by (auto simp: OS_transfer_def failed_transfer_def Let_def split: option.splits if_splits)
  then show ?thesis using True by cases (auto split: single_end.splits)
next
  case False
  with assms consider ?none
    | al e where "transfer_loop A p is_read opts al (if tout \<noteq> 0 then ta_start A + ta_units A tout else 0) pkt 0
        \<lparr>ps_cur = 0, ps_len = bytes, ps_total = 0, ps_time = (if tout \<noteq> 0 then ta_units A tout else MAX_SCHEDULE_TIMEOUT),
          ps_last = 0, ps_user = user, ps_bus = []\<rparr> = Some e"
      "(case e of Loop_Undefined \<Rightarrow> Transfer_Undefined
        | Loop_End rc s \<Rightarrow> Transfer_Done (map_error_status rc) (ps_total s) (ps_user s) (ps_bus s) 0) = Transfer_Done st n user' bus leaked"
    by (auto simp: OS_transfer_def failed_transfer_def Let_def split: option.splits if_splits)
  then show ?thesis
  proof cases
    case (2 al e)
    then have "?ran" by (cases e) (force split: if_splits)+
    then show ?thesis ..
  qed simp
qed



definition demo_single :: single_answer where
  "demo_single = \<lparr>sa_setup = True, sa_submit = 0, sa_schedule = (\<lambda>_ t. (t - 1, True)), sa_status = 0, sa_actual = 2,
     sa_iso = [], sa_data = (\<lambda>i. of_nat i)\<rparr>"

definition demo_answers :: transfer_answers where
  "demo_answers = \<lparr>ta_kmalloc = (\<lambda>_. True), ta_vmalloc = True, ta_urb = True, ta_create = True, ta_start = 100,
     ta_units = (\<lambda>t. t), ta_single = (\<lambda>_. demo_single), ta_jiffies = (\<lambda>_. 101), ta_connected = (\<lambda>_. True),
     ta_halted = (\<lambda>_. False)\<rparr>"



text \<open>
  C34. An isochronous request has at most as many packets as its context has room for, and they tile the
  piece. When it completes, with no packet longer than asked for, moving the packets that arrived to the
  front is defined in C exactly when no packet overlaps the place it goes to; then the buffer starts
  with exactly the bytes of the packets that arrived, in order, and the length is their number.
\<close>

theorem iso_request:
  assumes iso: "xfer_type (attributes p) = Xfer_Isoc" and tc: "tc_alloc v u p (min bytes allocated) = Some (Some room)"
    and piece: "piece_length p opts allocated len = Some n" "len \<le> bytes" and urb: "fill_urb ok p pkt n = Some r"
    and fit: "sa_status a = 0" "list_all2 (\<lambda>(off, l) (st, m). m \<le> l) (ub_packets r) (sa_iso a)"
  shows "length (ub_packets r) \<le> room \<and> sum_list (map snd (ub_packets r)) = n \<and>
    (case usb_common_completion True r a of
       None \<Rightarrow> \<not> moves_apart 0 (ub_packets r) (sa_iso a)
     | Some (e, b) \<Rightarrow> moves_apart 0 (ub_packets r) (sa_iso a) \<and> map b [0..<e] = arrived (sa_data a) (ub_packets r) (sa_iso a))"
proof -
  have ps: "0 < max_packet p" and room: "room = (min bytes allocated + max_packet p - 1) div max_packet p"
    using iso tc by (auto simp: tc_alloc_def Let_def split: if_splits)
  have r: "ub_packets r = iso_packets (max_packet p) n" "ub_xfer r = Xfer_Isoc"
    using iso urb by (auto simp: fill_urb_def Let_def)
  have "n \<le> min bytes allocated" using piece_length_le [OF piece(1)] piece(2) by simp
  then have "length (ub_packets r) \<le> room" using iso_packets_room [OF ps] by (simp add: r room)
  moreover have "case usb_common_completion True r a of
       None \<Rightarrow> \<not> moves_apart 0 (ub_packets r) (sa_iso a)
     | Some (e, b) \<Rightarrow> moves_apart 0 (ub_packets r) (sa_iso a) \<and> map b [0..<e] = arrived (sa_data a) (ub_packets r) (sa_iso a)"
    using iso_compact_arrived [of 0 "ub_packets r" "sa_iso a" 0 "sa_data a" "sa_data a"] packets_apart_iso [OF _ ps] fit
    by (simp add: r usb_common_completion_def split: option.splits prod.splits)
  ultimately show ?thesis using iso_packets_tile [OF ps] by (simp add: r)
qed

text \<open>A read of 7 bytes in packets of 3. The first piece is two packets, the first of which is lost.\<close>

definition iso_pipe :: wd_pipe where
  "iso_pipe = \<lparr>endpoint_address = 0x81, attributes = 1, max_packet = 3, interval = 1\<rparr>"

definition iso_urb :: wd_urb where
  "iso_urb = \<lparr>ub_xfer = Xfer_Isoc, ub_length = 6, ub_interval = 1, ub_setup = [], ub_packets = [(0, 3), (3, 3)]\<rparr>"

definition iso_single :: "(int \<times> nat) list \<Rightarrow> single_answer" where
  "iso_single results = demo_single\<lparr>sa_iso := results\<rparr>"

lemma iso_demo:
  "xfer_type (attributes iso_pipe) = Xfer_Isoc" "tc_alloc True True iso_pipe (min 7 9) = Some (Some 3)"
  "piece_length iso_pipe 0 9 7 = Some 6" "fill_urb True iso_pipe [] 6 = Some iso_urb" "sa_status (iso_single results) = 0"
  "list_all2 (\<lambda>(off, l) (st, m). m \<le> l) (ub_packets iso_urb) (sa_iso (iso_single [(- 18, 0), (0, 3)]))"
  by (simp_all add: iso_pipe_def iso_urb_def xfer_type_def tc_alloc_def piece_length_def fill_urb_def iso_packets_def
    iso_single_def demo_single_def upt_conv_Cons Let_def)

lemma iso_demo_run:
  "\<exists>b. usb_common_completion True iso_urb (iso_single [(- 18, 0), (0, 3)]) = Some (3, b)"
  by (simp add: usb_common_completion_def iso_urb_def iso_single_def demo_single_def memcpy_inside_def)

theorem iso_request_witness:
  "\<exists>b. usb_common_completion True iso_urb (iso_single [(- 18, 0), (0, 3)]) = Some (3, b) \<and> map b [0..<3] = [3, 4, 5] \<and>
     length (ub_packets iso_urb) \<le> 3"
proof -
  obtain b where run: "usb_common_completion True iso_urb (iso_single [(- 18, 0), (0, 3)]) = Some (3, b)"
    using iso_demo_run by blast
  have "arrived (sa_data (iso_single [(- 18, 0), (0, 3)])) (ub_packets iso_urb) (sa_iso (iso_single [(- 18, 0), (0, 3)])) = [3, 4, 5]"
    by (simp add: iso_single_def demo_single_def iso_urb_def upt_conv_Cons)
  with run show ?thesis
    using iso_request [OF iso_demo(1,2,3) _ iso_demo(4,5,6)] by simp
qed

text \<open>
  When the first packet is one byte short, the second one is copied over itself: a \<^verbatim>\<open>memcpy\<close> of
  overlapping areas, and the request, and with it the transfer, is undefined.
\<close>

lemma iso_overlap:
  "usb_submit_sync True iso_urb 10 (iso_single [(0, 2), (0, 3)]) = Some Single_Undefined"
  by (simp add: usb_submit_sync_def usb_common_completion_def iso_urb_def iso_single_def demo_single_def memcpy_inside_def
    wait_loop.simps int_timeout_def)

text \<open>
  An isochronous write whose first packet is lost is counted as if the first bytes had gone out: the next
  piece starts after as many bytes as were sent, so that the lost ones are left out and sent ones repeated.
\<close>

definition iso_out_pipe :: wd_pipe where
  "iso_out_pipe = iso_pipe\<lparr>endpoint_address := 0x01\<rparr>"

lemma iso_write_repeats:
  "OS_transfer (demo_answers\<lparr>ta_single := (\<lambda>k. if k = 0 then iso_single [(- 18, 0), (0, 3)] else iso_single [(0, 3)])\<rparr>)
     iso_out_pipe False 0 [1, 2, 3, 4, 5, 6] 6 [] 10 = Some (Transfer_Done 0 6 [1, 2, 3, 4, 5, 6] [[4, 5, 6], [4, 5, 6]] 0)"
  by (simp add: OS_transfer_def demo_answers_def iso_out_pipe_def iso_pipe_def try_allocate_def first_size_def xfer_type_def
    alloc_loop.simps transfer_sizes tc_alloc_def Let_def transfer_loop.simps piece_length_def usb_transfer_single_def fill_urb_def
    demo_single_def usb_submit_sync_def wait_loop.simps int_timeout_def usb_common_completion_def piece_done_def bus_log_def
    bus_bytes_def pipe_in_def map_error_status_def WD_STATUS_SUCCESS_def iso_single_def iso_packets_def upt_conv_Cons
    time_after_def)

text \<open>
  A transfer without a time limit is given the time 0 after its first piece, so it ends there, with
  success and at most the size of the buffer. In a 64-bit build the unlimited time is -1 when it is
  cut to 32 bits; the kernel's \<^verbatim>\<open>schedule_timeout\<close> returns 0 at once for a negative time, and the
  request is given up.
\<close>

theorem untimed_one_piece:
  assumes "OS_transfer A p is_read opts user bytes pkt 0 = Some (Transfer_Done st n user' bus leaked)"
  shows "length bus \<le> 1"
  using transfer_ends [OF assms] loop_one_piece by fastforce

theorem untimed_gives_up:
  assumes "sa_schedule a 0 (- 1) = (0, False)" "sa_submit a = 0" "sa_status a = - EINPROGRESS"
  shows "usb_submit_sync inp u MAX_SCHEDULE_TIMEOUT a = Some (Single_End (- ETIMEDOUT) (Some (sa_actual a, sa_data a)))"
proof -
  have "int_timeout MAX_SCHEDULE_TIMEOUT = - 1" by (simp add: int_timeout_def MAX_SCHEDULE_TIMEOUT_def)
  with assms show ?thesis by (simp add: usb_submit_sync_def wait_loop.simps)
qed

text \<open>
  A timed transfer returns when every request does and the clock, cut to 32 bits, passes its end.
\<close>

theorem timed_returns:
  assumes "\<And>j n t. usb_transfer_single p is_read n pkt t (ta_single A j) \<noteq> None"
    and "ta_start A + ta_units A tout < ucast (ucast (ta_jiffies A K) :: u32)" "tout \<noteq> 0"
  shows "OS_transfer A p is_read opts user bytes pkt tout \<noteq> None"
proof -
  have "(transfer_loop A p is_read opts al (ta_start A + ta_units A tout) pkt 0 s = None) = False" for al s
    using loop_returns [OF assms(1,2)] by blast
  moreover have "(usb_transfer_single p is_read n pkt t (ta_single A 0) = None) = False" for n t using assms(1) by blast
  ultimately show ?thesis using assms(3)
    by (simp add: OS_transfer_def failed_transfer_def Let_def split: option.splits)
qed

text \<open>
  A buffer that could not be had is reported as an internal error, not as missing memory; when the
  binary part cannot make a transfer, the context is lost; an isochronous pipe without a packet
  size divides by 0 when nothing is asked for.
\<close>

lemma no_buffer: "\<lbrakk>0 < bytes; try_allocate (ta_kmalloc A) p bytes = None\<rbrakk> \<Longrightarrow>
    OS_transfer A p is_read opts user bytes pkt tout = Some (Transfer_Done WD_SYSTEM_INTERNAL_ERROR 0 user [] 0)"
  by (simp add: OS_transfer_def failed_transfer_def map_error_own_code WD_INSUFFICIENT_RESOURCES_def)

lemma context_lost:
  "\<lbrakk>try_allocate (ta_kmalloc A) p bytes = Some al; tc_alloc (ta_vmalloc A) (ta_urb A) p (min bytes al) = Some (Some room);
    0 < bytes; \<not> ta_create A\<rbrakk> \<Longrightarrow>
    OS_transfer A p is_read opts user bytes pkt tout = Some (Transfer_Done WD_INSUFFICIENT_RESOURCES 0 user [] 1)"
  by (simp add: OS_transfer_def failed_transfer_def map_error_status_def errnos)

lemma empty_iso_oops:
  "\<lbrakk>xfer_type (attributes p) = Xfer_Isoc; max_packet p = 0; ta_vmalloc A\<rbrakk> \<Longrightarrow>
    OS_transfer A p is_read opts user 0 pkt tout = Some Transfer_Oops"
  by (simp add: OS_transfer_def tc_alloc_def)

end
