(* ===== verification/Spec2Isabelle.thy ===== *)
theory Spec2Isabelle
  imports Leap_Prelude C_Library Dictionary Iniparser Reservation Fpga_Ctrl Prog_Lock Fpga_Requests
    Bluenoc_Board Bluenoc_Driver Bluenoc_Dma Bluenoc_Pages Bluenoc_Transfer Bluenoc_Ioctl Bsemu Pchnl
    Unix_Pipe RegFileCF Little_Endian Umf_Message Umf_Codec Umf_Allocator Host_Pipe Host_Bluenoc Host_Bluenoc_Tests Bsemu_Server Htg_Device Htg_Debugger Jtag_Device Jtag_Nios Fxload_Hex Fxload_Image Fxload_Ezusb Fxload_Load Fxload_Eeprom Fxload_Main
    Usbdrv_Header Usbdrv_Config Usbdrv_Parport Usbdrv_Jtagkey Usbdrv_Jtagmon Usbdrv_Info Usbdrv_Driver Usbdrv_Session Wdusb_Device Wdusb_Transfer
begin

text \<open>
  The C and C++ programs of the LEAP platform tree: the tool that reserves and programs the FPGA
  boards of a machine, the kernel drivers of three boards, the two C parts of the simulator, the
  host's devices and messages on top of them, and the programs behind the Xilinx programming cable.

  \<^bold>\<open>The reservation tool\<close> (\<^verbatim>\<open>src/tools/platforms/leap-fpga-ctrl\<close>). \<^verbatim>\<open>leap-fpga-ctrl\<close> reads a
  configuration file of FPGA classes, keeps the reservation of each device in a lock file and
  calls helper scripts.
    \<^item> Dictionary: \<^verbatim>\<open>dictionary.c\<close>, a string table in four parallel arrays. Each allocation is an
      argument that may fail, and the sizes are those of an \<^verbatim>\<open>int\<close>, so that a table of
      \<^verbatim>\<open>2^27\<close> slots cannot grow. The locale \<^verbatim>\<open>string_map\<close> is what its clients rely on, interpreted on
      the code's operations; sequences of operations act as on a map within that bound.
    \<^item> Iniparser: \<^verbatim>\<open>iniparser.c\<close> on top of it: the \<^verbatim>\<open>sscanf\<close> formats, the line buffer and its
      limits, dumps and accessors. Loading is fuelled by the length of the file plus one, which is
      shown to be enough, because every turn consumes a line.
    \<^item> Reservation, Fpga_Ctrl: \<^verbatim>\<open>leap-fpga-ctrl.c\<close>: lock file format, reservation policy and state
      changes; configuration, helper scripts, device files, the requests, the option loop and
      \<^verbatim>\<open>main\<close>. An exit is a value of a sum type. \<^verbatim>\<open>open\<close>, the locks, \<^verbatim>\<open>fdopen\<close>, printing and
      flushing can each fail; what is printed is in the file only once it is flushed.
    \<^item> Prog_Lock, Fpga_Requests: proofs about whole runs. The locale \<^verbatim>\<open>ctrl_invariant\<close> says when a
      run keeps an invariant; its two interpretations give the absence of undefined behaviour and
      that at most one device is being programmed over any sequence of runs.

  \<^bold>\<open>The bluenoc driver\<close> (\<^verbatim>\<open>src/drivers/linux/platforms/bluenoc-pcie\<close>), for a network on chip behind
  PCIe.
    \<^item> Bluenoc_Board: boards, the activation levels with their fall-through switches, the search
      for a board number, DMA status, interrupt handler, probe, remove, open and release.
    \<^item> Bluenoc_Driver: the invariant of the driver over every sequence of those steps, what probe,
      removal and reactivation give back, and the use after free of a late close.
    \<^item> Bluenoc_Dma: \<^verbatim>\<open>bluenoc_read\<close> and \<^verbatim>\<open>bluenoc_write\<close>; Bluenoc_Pages: page geometry, list of
      blocks and command words; Bluenoc_Transfer: resources, locks, order of the commands,
      completion, and what goes wrong with signals and merged blocks.
    \<^item> Bluenoc_Ioctl: commands, poll and seek, and the tool \<^verbatim>\<open>bluenoc-ioctl\<close> run against them.
  A board is an address in a small heap, so that freed boards can be told from live ones; the
  devices' registers are functions of the number of accesses so far. Interrupts are delivered
  where a transfer waits. Waiting for a free command slot has a fuel argument; when it is used
  up the result is the stop \<^verbatim>\<open>Blocked\<close>, a call that does not return, and the theorems that a
  transfer returns show that this does not happen once the device signals. The debug level is
  not changed by another process during a call.

  \<^bold>\<open>The other drivers.\<close>
    \<^item> Bsemu: \<^verbatim>\<open>xupv5-pcie/src/main.c\<close>, a fixed table of 128 slots under a spin lock, its probe with
      the error labels, and the mapping of the BARs. Taking a held lock is the stop \<^verbatim>\<open>Deadlock\<close>.
      Shown: the invariant of the table, that a mapping stays within its BAR, and that failed
      probes use up the table and then lock it for ever.
    \<^item> Pchnl: \<^verbatim>\<open>htg-pcie-virtex5/src\<close>, one device with two DMA buffers, a wait queue with a flag that
      each interrupt flips, and the ioctl commands. Kernel and user memory are byte functions. A
      list of events says what happens at each wait; an empty one is the stop \<^verbatim>\<open>Asleep\<close>. Shown:
      what a transfer writes and in which order, where it leaves the buffer, when a wait ends,
      and what probe and removal leave behind.

  \<^bold>\<open>The simulator.\<close>
    \<^item> Unix_Pipe: \<^verbatim>\<open>unix-pipe-device-bdpi.c\<close>, channels over a pair of named pipes. Shown: the chunks
      read are the host's stream in order whatever the calls answer, a read delivers when the bytes
      are there, writes are whole, the list of free channels hands out the handles, and no reset
      is ever asked for.
    \<^item> RegFileCF: \<^verbatim>\<open>RegFileCF.c\<close>, the register file: an array indexed by the masked address,
      as long as its size does not wrap and its two allocations succeed.

  \<^bold>\<open>The host's side\<close> (\<^verbatim>\<open>src/modules/bluespec/common/fpgaenv\<close>), the C++ classes that a program is linked with.
    \<^item> Umf_Message: \<^verbatim>\<open>umf-little-endian.h\<close>, its \<^verbatim>\<open>.cpp\<close> and \<^verbatim>\<open>umf-template.h\<close>, a message with its buffer of
      1024 bytes, read and write index and header; assertions are an argument, because a build may
      leave them out. Umf_Codec: values appended and extracted again, a message over a channel, what
      assertions guard. Umf_Allocator: the pool of messages; the lock-free list of another package is
      an argument with the laws of a bag.
    \<^item> Host_Pipe: \<^verbatim>\<open>unix-pipe-device.cpp\<close>, the other end of Unix_Pipe's channels; a thread runs where a
      call waits for it. Shown: both directions keep order whatever the calls answer.
    \<^item> Host_Bluenoc: \<^verbatim>\<open>pcie-bluenoc.cpp\<close> run against the bluenoc driver's model, with the bytes of the
      local variable that the driver fills and what lies behind it; Host_Bluenoc_Tests: its link tests
      and the data check.
    \<^item> Bsemu_Server: \<^verbatim>\<open>pcie-xupv5/server.cpp\<close> and \<^verbatim>\<open>pcie-device.cpp\<close> on the bsemu driver, with the
      registers and queues of \<^verbatim>\<open>PioFifo.bsv\<close> at the other end. What the user's design does before each
      access of the host is an argument. The two polling loops are partial functions; a call that
      does not return is the stop \<^verbatim>\<open>S_Forever\<close>, and it is shown when they return.
    \<^item> Htg_Device: \<^verbatim>\<open>pci-express-c-import-mmap.cpp\<close> on the pchnl driver: an access through the
      mapping goes to the physical address that the driver passed on, to the board when its BAR holds
      it; below 4 GB the registers do what the driver's commands do. Htg_Debugger: the console \<^verbatim>\<open>htg-debugger.cpp\<close> as a function of its
      input text; the monitor is a partial function, and printed sessions are shown to end.
    \<^item> Jtag_Device: \<^verbatim>\<open>jtag/xilinx/jtag-device.cpp\<close>, three threads around \<^verbatim>\<open>xmd\<close>; a state of program places
      and a step for each system call, interleaved freely. Shown: what \<^verbatim>\<open>Read\<close> gives, when \<^verbatim>\<open>Cleanup\<close>
      returns (after at most 13 steps, or never), that nothing is used after it is closed. Jtag_Nios:
      \<^verbatim>\<open>jtag/altera/jtag-device.cpp\<close>.

  \<^bold>\<open>The cable's loader\<close> (\<^verbatim>\<open>Xilinx_Platform_Cable/fxload\<close>), which writes firmware into the cable's
  microcontroller.
    \<^item> Fxload_Hex: \<^verbatim>\<open>parse_ihex\<close> with its line and data buffers; Fxload_Image: the segments of a file
      as a scan that does not depend on the callback, printed images read back, when the parser
      leaves its buffers. What the line buffer holds at the start is the argument \<^verbatim>\<open>junk\<close>.
    \<^item> Fxload_Ezusb: the vendor requests, the download to RAM in one or two stages, the boot EEPROM.
      The device answers each request with a status and an error number; the requests sent are
      logged. Fxload_Load: what a download leaves in memory, the state of the CPU at every write,
      the retries. \<^verbatim>\<open>errno_set\<close> says that a failing call sets a positive \<^verbatim>\<open>errno\<close>, \<^verbatim>\<open>takes_all\<close> that
      the device takes every write. Fxload_Eeprom: the EEPROM read in its boot format, whose fuel,
      one more than the number of segments, counts the reset command at the end.
    \<^item> Fxload_Main: the option loop with the permutation of \<^verbatim>\<open>getopt\<close>, the checks, the order of the work.

  \<^bold>\<open>The cable's library\<close> (\<^verbatim>\<open>Xilinx_Platform_Cable/usb-driver\<close>), preloaded into a program that expects the
  WinDriver device.
    \<^item> Usbdrv_Config: \<^verbatim>\<open>config.c\<close>, which ports are cables; the file as a list of entries.
    \<^item> Usbdrv_Header, Usbdrv_Parport, Usbdrv_Jtagkey: transfers and the locale \<^verbatim>\<open>port_driver\<close>, the
      contract of the function pointers of a port; its two drivers, the real port and the FTDI cable,
      whose write combining is shown to give what a port without buffers gives.
      \<^verbatim>\<open>bitbang\<close> states how the chip samples in its synchronous mode.
    \<^item> Usbdrv_Jtagmon: the monitor of the JTAG controller.
    \<^item> Usbdrv_Info: the layout of \<^verbatim>\<open>usb_deviceinfo\<close> as stores at offsets of a 64-bit build.
    \<^item> Usbdrv_Driver: the requests and the interposed calls over one state of the static variables;
      Usbdrv_Session: a session from the configuration file to the bytes read, the interrupt lock,
      events.

  \<^bold>\<open>The WinDriver module\<close> (\<^verbatim>\<open>windriver64/windrvr/wdusb_linux.c\<close>, of which the 32-bit tree has the same copy),
  the USB layer under a binary object that is not readable and whose answers are arguments.
    \<^item> Wdusb_Device: status codes, registration, probe and disconnect, pipes, the sizes and blocks of
      the device information (shown to be the same), alternate settings.
    \<^item> Wdusb_Transfer: a transfer in pieces, each a request with its wait and completion, and a log of
      the bytes that went over the bus; a \<^verbatim>\<open>memcpy\<close> onto itself is undefined and ends it. The two
      loops that wait are partial functions; a transfer is shown to return when its requests do and
      the clock passes the time limit.

  Leap_Prelude holds what all share: machine integers, first match in an array, C strings with
  the decimal text that is printed and scanned, and programs that may stop early while keeping
  what they did (\<^verbatim>\<open>bind\<close>, \<^verbatim>\<open>andThen\<close>) with their pre- and postconditions. C_Library has \<^verbatim>\<open>fgets\<close>,
  \<^verbatim>\<open>strtol\<close> and \<^verbatim>\<open>strtoul\<close> with 64-bit results, and hexadecimal text. Little_Endian has words as bytes.

  Parameters stand for what is not in the tree: the answers of the kernel, of the C library's
  system calls, of devices and of scripts are fields of environment records. The simulator's end of a
  pipe takes \<^verbatim>\<open>UMF_CHUNK_BYTES\<close> as an argument; the messages have the 4 that their module sets.

  \<^bold>\<open>Not modelled.\<close> \<^verbatim>\<open>iniparser_getdouble\<close> (floating point), the test \<^verbatim>\<open>main\<close> of the dictionary,
  kernel messages and debug output, what \<^verbatim>\<open>getopt_long\<close> and \<^verbatim>\<open>bluenoc-ioctl\<close> print as help, code
  switched off by the preprocessor; host classes that only forward calls, the serial
  devices (empty bodies), the Bluespec and Verilog sources but for the queues of \<^verbatim>\<open>PioFifo.bsv\<close>, the rest
  of the vendored WinDriver module (wrappers between a binary object and the kernel, in two copies, and
  the parallel port driver), build files and scripts.
\<close>

end
